(* ===== verification/Prelude.thy ===== *)
theory Prelude
  imports Complex_Main "HOL-Library.Product_Lexorder" "HOL-Library.Multiset"
begin

text \<open>
  Vocabulary shared by every component: Python strings and datetimes, SQL comparisons on
  nullable columns, tables as lists of rows, and the list lemmas the components reuse.

  A string is a list of ASCII characters.  The text the program handles here (exchange
  tickers, intervals, sources, worker ids, lease tokens) is ASCII, for which one character
  is one code point and its UTF-8 encoding is itself.  A datetime is a number of
  microseconds since the Unix epoch: \<open>Naive\<close> without a timezone, \<open>Aware\<close> with its UTC
  offset.  Once normalised to UTC it is a plain \<^typ>\<open>int\<close>.
\<close>

named_theorems row_simps \<open>field equations of rows after an update\<close>

type_synonym usec = int
type_synonym asset_id = int

abbreviation second_us :: int where "second_us \<equiv> 1000000"
abbreviation minute_us :: int where "minute_us \<equiv> 60000000"
abbreviation hour_us :: int where "hour_us \<equiv> 3600000000"
abbreviation day_us :: int where "day_us \<equiv> 86400000000"

section \<open>Python strings\<close>

definition py_isspace :: "char \<Rightarrow> bool" where
  "py_isspace c \<longleftrightarrow> (let n = (of_char c :: nat) in (9 \<le> n \<and> n \<le> 13) \<or> (28 \<le> n \<and> n \<le> 32))"

definition py_strip :: "string \<Rightarrow> string" where
  "py_strip s = rev (dropWhile py_isspace (rev (dropWhile py_isspace s)))"

definition upper_char :: "char \<Rightarrow> char" where
  "upper_char c = (let n = (of_char c :: nat) in if 97 \<le> n \<and> n \<le> 122 then char_of (n - 32) else c)"

definition lower_char :: "char \<Rightarrow> char" where
  "lower_char c = (let n = (of_char c :: nat) in if 65 \<le> n \<and> n \<le> 90 then char_of (n + 32) else c)"

definition py_upper :: "string \<Rightarrow> string" where
  "py_upper = map upper_char"

definition py_lower :: "string \<Rightarrow> string" where
  "py_lower = map lower_char"

lemma of_char_char_of_mod: "of_char (char_of (n :: nat) :: char) = n mod 256"
  by simp

lemma of_char_upper:
  "(of_char (upper_char c) :: nat) =
     (let n = of_char c in if 97 \<le> n \<and> n \<le> 122 then n - 32 else n)"
  by (auto simp: upper_char_def Let_def)

lemma of_char_lower:
  "(of_char (lower_char c) :: nat) =
     (let n = of_char c in if 65 \<le> n \<and> n \<le> 90 then n + 32 else n)"
  by (auto simp: lower_char_def Let_def)

lemma upper_char_idem [simp]: "upper_char (upper_char c) = upper_char c"
  unfolding upper_char_def [of "upper_char c"] Let_def of_char_upper by auto

lemma lower_char_idem [simp]: "lower_char (lower_char c) = lower_char c"
  unfolding lower_char_def [of "lower_char c"] Let_def of_char_lower by auto

lemma isspace_upper_char [simp]: "py_isspace (upper_char c) = py_isspace c"
  unfolding py_isspace_def Let_def of_char_upper by auto

lemma isspace_lower_char [simp]: "py_isspace (lower_char c) = py_isspace c"
  unfolding py_isspace_def Let_def of_char_lower by auto

lemma py_upper_idem [simp]: "py_upper (py_upper s) = py_upper s"
  by (simp add: py_upper_def)

lemma py_lower_idem [simp]: "py_lower (py_lower s) = py_lower s"
  by (simp add: py_lower_def)

lemma dropWhile_idem [simp]: "dropWhile P (dropWhile P xs) = dropWhile P xs"
  by (induction xs) auto

lemma dropWhile_eq_self: "xs = [] \<or> \<not> P (hd xs) \<Longrightarrow> dropWhile P xs = xs"
  by (cases xs) auto

lemma dropWhile_rev_dropWhile:
  "dropWhile P (rev (dropWhile P (rev (dropWhile P s)))) = rev (dropWhile P (rev (dropWhile P s)))"
proof (rule dropWhile_eq_self)
  let ?t = "dropWhile P s"
  show "rev (dropWhile P (rev ?t)) = [] \<or> \<not> P (hd (rev (dropWhile P (rev ?t))))"
  proof (cases "dropWhile P (rev ?t) = []")
    case True
    then show ?thesis by simp
  next
    case False
    obtain a where a: "rev ?t = a @ dropWhile P (rev ?t)"
      by (metis takeWhile_dropWhile_id)
    then have "?t = rev (dropWhile P (rev ?t)) @ rev a"
      by (metis rev_append rev_rev_ident)
    with False have eq: "hd (rev (dropWhile P (rev ?t))) = hd ?t"
      by (metis hd_append2 rev_is_Nil_conv)
    have ne: "?t \<noteq> []" using False by (metis dropWhile.simps(1) rev.simps(1))
    from ne have "\<not> P (hd ?t)" by (rule hd_dropWhile)
    then show ?thesis by (simp only: eq) simp
  qed
qed

lemma py_strip_idem [simp]: "py_strip (py_strip s) = py_strip s"
  by (simp add: py_strip_def dropWhile_rev_dropWhile)

lemma py_strip_map:
  assumes "\<And>c. py_isspace (f c) = py_isspace c"
  shows "py_strip (map f s) = map f (py_strip s)"
  using assms by (simp add: py_strip_def dropWhile_map rev_map o_def)

lemma py_strip_upper [simp]: "py_strip (py_upper s) = py_upper (py_strip s)"
  by (simp add: py_upper_def py_strip_map)

lemma py_strip_lower [simp]: "py_strip (py_lower s) = py_lower (py_strip s)"
  by (simp add: py_lower_def py_strip_map)

lemma py_upper_Nil_iff [simp]: "py_upper s = [] \<longleftrightarrow> s = []"
  by (simp add: py_upper_def)

lemma py_lower_Nil_iff [simp]: "py_lower s = [] \<longleftrightarrow> s = []"
  by (simp add: py_lower_def)

lemma length_py_lower [simp]: "length (py_lower s) = length s"
  by (simp add: py_lower_def)

text \<open>\<open>needle in haystack\<close>.\<close>

fun py_in :: "string \<Rightarrow> string \<Rightarrow> bool" where
  "py_in needle [] = (needle = [])"
| "py_in needle (c # s) = (take (length needle) (c # s) = needle \<or> py_in needle s)"

section \<open>Python datetimes\<close>

datatype pydatetime =
    Naive int         \<comment> \<open>local clock reading, no timezone\<close>
  | Aware int int     \<comment> \<open>local clock reading and UTC offset\<close>

fun is_aware :: "pydatetime \<Rightarrow> bool" where
  "is_aware (Naive _) = False"
| "is_aware (Aware _ _) = True"

fun dt_local :: "pydatetime \<Rightarrow> int" where
  "dt_local (Naive l) = l"
| "dt_local (Aware l _) = l"

text \<open>
  \<open>value.replace(tzinfo=timezone.utc) if value.tzinfo is None else value.astimezone(timezone.utc)\<close>,
  the normalisation every service repeats: the instant in UTC microseconds.
\<close>

fun utc :: "pydatetime \<Rightarrow> usec" where
  "utc (Naive l) = l"
| "utc (Aware l off) = l - off"

definition utc_dt :: "usec \<Rightarrow> pydatetime" where
  "utc_dt t = Aware t 0"

lemma utc_utc_dt [simp]: "utc (utc_dt t) = t"
  by (simp add: utc_dt_def)

lemma is_aware_utc_dt [simp]: "is_aware (utc_dt t)"
  by (simp add: utc_dt_def)

text \<open>\<open>dt.second != 0 or dt.microsecond != 0\<close> reads the local fields.\<close>

definition minute_aligned :: "int \<Rightarrow> bool" where
  "minute_aligned t \<longleftrightarrow> t mod minute_us = 0"

definition dt_second :: "pydatetime \<Rightarrow> int" where
  "dt_second d = dt_local d div second_us mod 60"

definition dt_microsecond :: "pydatetime \<Rightarrow> int" where
  "dt_microsecond d = dt_local d mod second_us"

lemma second_microsecond_zero_iff:
  "(t :: int) div second_us mod 60 = 0 \<and> t mod second_us = 0 \<longleftrightarrow> minute_aligned t"
proof -
  have "t mod (second_us * 60) = second_us * (t div second_us mod 60) + t mod second_us"
    by (rule zmod_zmult2_eq) simp
  moreover have "0 \<le> t div second_us mod 60" and "0 \<le> t mod second_us" by simp_all
  ultimately show ?thesis by (auto simp: minute_aligned_def)
qed

lemma minute_aligned_0 [simp]: "minute_aligned 0"
  by (simp add: minute_aligned_def)

lemma minute_aligned_less: "minute_aligned a \<Longrightarrow> minute_aligned b \<Longrightarrow> a < b \<Longrightarrow> a + minute_us \<le> b"
  by (auto simp: minute_aligned_def elim!: dvdE simp flip: dvd_eq_mod_eq_0)

section \<open>Exceptions\<close>

text \<open>
  The exception classes the modelled code raises or tests for, as values.  Services return
  \<open>py_exn + 'a\<close>: \<open>Inl\<close> is the raised exception, \<open>Inr\<close> the returned value.  The string is the
  message (its constant part) or, for \<open>OtherException\<close>, the class name.
\<close>

datatype py_exn =
    ValueError string
  | RuntimeError string
  | TypeError string
  | AssertionError
  | LeaseLostError
  | IncompleteCoverageError
  | NetworkError
  | APIError string
  | RateLimitError
  | TemporaryBanError
  | PayloadCorruptionError string
  | MalformedMessageError string
  | HttpxRequestError
  | TimeoutError
  | ConnectionError
  | OtherException string

fun exn_type_name :: "py_exn \<Rightarrow> string" where
  "exn_type_name (ValueError _) = ''ValueError''"
| "exn_type_name (RuntimeError _) = ''RuntimeError''"
| "exn_type_name (TypeError _) = ''TypeError''"
| "exn_type_name AssertionError = ''AssertionError''"
| "exn_type_name LeaseLostError = ''LeaseLostError''"
| "exn_type_name IncompleteCoverageError = ''IncompleteCoverageError''"
| "exn_type_name NetworkError = ''NetworkError''"
| "exn_type_name (APIError _) = ''APIError''"
| "exn_type_name RateLimitError = ''RateLimitError''"
| "exn_type_name TemporaryBanError = ''TemporaryBanError''"
| "exn_type_name (PayloadCorruptionError _) = ''PayloadCorruptionError''"
| "exn_type_name (MalformedMessageError _) = ''MalformedMessageError''"
| "exn_type_name HttpxRequestError = ''RequestError''"
| "exn_type_name TimeoutError = ''TimeoutError''"
| "exn_type_name ConnectionError = ''ConnectionError''"
| "exn_type_name (OtherException n) = n"

section \<open>SQL\<close>

text \<open>
  A comparison with NULL is not true, so a \<open>WHERE\<close> clause drops the row.  The clauses of
  the program contain no \<open>NOT\<close>, so reading NULL as false is exact.
\<close>

definition sql_lt :: "int option \<Rightarrow> int \<Rightarrow> bool" where
  "sql_lt c v = (case c of None \<Rightarrow> False | Some x \<Rightarrow> x < v)"

definition sql_le :: "int option \<Rightarrow> int \<Rightarrow> bool" where
  "sql_le c v = (case c of None \<Rightarrow> False | Some x \<Rightarrow> x \<le> v)"

definition sql_gt :: "int option \<Rightarrow> int \<Rightarrow> bool" where
  "sql_gt c v = (case c of None \<Rightarrow> False | Some x \<Rightarrow> v < x)"

lemma sql_Some [simp]:
  "sql_lt (Some x) v \<longleftrightarrow> x < v" "sql_le (Some x) v \<longleftrightarrow> x \<le> v" "sql_gt (Some x) v \<longleftrightarrow> v < x"
  by (simp_all add: sql_lt_def sql_le_def sql_gt_def)

lemma sql_None [simp]: "\<not> sql_lt None v" "\<not> sql_le None v" "\<not> sql_gt None v"
  by (simp_all add: sql_lt_def sql_le_def sql_gt_def)

lemma sql_gt_not_le: "sql_gt c v \<Longrightarrow> \<not> sql_le c v"
  by (cases c) auto

lemma sql_gt_not_lt: "sql_gt c v \<Longrightarrow> \<not> sql_lt c v"
  by (cases c) auto

text \<open>\<open>SELECT ... WHERE P ORDER BY key LIMIT 1\<close> on a table kept as a list of rows.\<close>

definition select_first :: "('a \<Rightarrow> 'k :: linorder) \<Rightarrow> ('a \<Rightarrow> bool) \<Rightarrow> 'a list \<Rightarrow> 'a option" where
  "select_first key P rows = (case sort_key key (filter P rows) of [] \<Rightarrow> None | r # _ \<Rightarrow> Some r)"

text \<open>\<open>SELECT ... WHERE P ORDER BY key LIMIT n\<close>.\<close>

definition select_limit :: "('a \<Rightarrow> 'k :: linorder) \<Rightarrow> ('a \<Rightarrow> bool) \<Rightarrow> nat \<Rightarrow> 'a list \<Rightarrow> 'a list" where
  "select_limit key P n rows = take n (sort_key key (filter P rows))"

text \<open>\<open>UPDATE ... WHERE P SET f\<close>, and the number of rows it changes.\<close>

definition update_where :: "('a \<Rightarrow> bool) \<Rightarrow> ('a \<Rightarrow> 'a) \<Rightarrow> 'a list \<Rightarrow> 'a list" where
  "update_where P f rows = map (\<lambda>r. if P r then f r else r) rows"

definition rowcount :: "('a \<Rightarrow> bool) \<Rightarrow> 'a list \<Rightarrow> nat" where
  "rowcount P rows = length (filter P rows)"

lemma set_sort_filter: "set (sort_key key (filter P rows)) = {r \<in> set rows. P r}"
  by auto

lemma select_first_SomeE:
  assumes "select_first key P rows = Some r"
  obtains rs where "sort_key key (filter P rows) = r # rs"
  using assms by (cases "sort_key key (filter P rows)") (simp_all add: select_first_def)

lemma select_first_Some:
  assumes "select_first key P rows = Some r"
  shows "r \<in> set rows" and "P r"
proof -
  obtain rs where "sort_key key (filter P rows) = r # rs"
    using assms by (rule select_first_SomeE)
  then have "r \<in> set (sort_key key (filter P rows))" by simp
  then show "r \<in> set rows" and "P r" by simp_all
qed

lemma select_first_None_iff: "select_first key P rows = None \<longleftrightarrow> (\<forall>r \<in> set rows. \<not> P r)"
proof -
  have "select_first key P rows = None \<longleftrightarrow> sort_key key (filter P rows) = []"
    by (auto simp: select_first_def split: list.splits)
  also have "\<dots> \<longleftrightarrow> set (sort_key key (filter P rows)) = {}"
    by (simp only: set_empty)
  finally show ?thesis by auto
qed

lemma select_first_least:
  assumes "select_first key P rows = Some r" and "r' \<in> set rows" and "P r'"
  shows "key r \<le> key r'"
proof -
  obtain rs where rs: "sort_key key (filter P rows) = r # rs"
    using assms(1) by (rule select_first_SomeE)
  have "sorted (map key (r # rs))" using rs by (metis sorted_sort_key)
  moreover have "r' \<in> set (r # rs)" using assms(2,3) rs by (metis (mono_tags) set_sort_filter mem_Collect_eq)
  ultimately show ?thesis by auto
qed

lemma set_update_where: "set (update_where P f rows) = (\<lambda>r. if P r then f r else r) ` set rows"
  by (simp add: update_where_def)

lemma rowcount_0_iff: "rowcount P rows = 0 \<longleftrightarrow> (\<forall>r \<in> set rows. \<not> P r)"
  by (simp add: rowcount_def filter_empty_conv)

lemma update_where_none: "\<forall>r \<in> set rows. \<not> P r \<Longrightarrow> update_where P f rows = rows"
  by (simp add: update_where_def map_idI)

lemma map_key_update_where:
  assumes "\<And>r. key (f r) = key r"
  shows "map key (update_where P f rows) = map key rows"
  using assms by (simp add: update_where_def)

section \<open>Lists\<close>

lemma distinct_map_unique:
  "distinct (map key rows) \<Longrightarrow> r \<in> set rows \<Longrightarrow> r' \<in> set rows \<Longrightarrow> key r = key r' \<Longrightarrow> r = r'"
  by (meson distinct_map inj_onD)

lemma rowcount_unique:
  assumes "distinct (map key rows)" and "r \<in> set rows" and "P r"
    and "\<And>r'. P r' \<Longrightarrow> key r' = key r"
  shows "rowcount P rows = 1"
proof -
  have "set (filter P rows) = {r}"
    using assms distinct_map_unique [OF assms(1)] by auto
  moreover have "distinct (filter P rows)"
    using assms(1) by (simp add: distinct_map)
  ultimately show ?thesis
    by (metis One_nat_def card.empty card.insert distinct_card empty_iff finite.emptyI rowcount_def)
qed

lemma distinct_set_singleton: "distinct xs \<Longrightarrow> set xs = {r} \<Longrightarrow> xs = [r]"
  by (cases xs; cases "tl xs") auto

lemma sorted_wrt_less_strict: "sorted xs \<Longrightarrow> distinct xs \<Longrightarrow> sorted_wrt (<) (xs :: 'a :: linorder list)"
  by (simp add: strict_sorted_iff)

end
