(* ===== verification/Intervals.thy ===== *)
theory Intervals
  imports Prelude
begin

text \<open>
  Half-open windows \<open>[a, b)\<close> as pairs of microseconds, and the loop that subtracts already
  scheduled windows from a requested one.  The CAGG scheduler and the gap-repair scheduler
  contain the same loop; both theories call \<open>uncovered_loop\<close> on their own sorted input.
\<close>

type_synonym ivl = "int \<times> int"

definition ivl_pts :: "ivl \<Rightarrow> int set" where
  "ivl_pts p = {fst p..<snd p}"

definition ivl_mem :: "int \<Rightarrow> ivl \<Rightarrow> bool" where
  "ivl_mem x p \<longleftrightarrow> fst p \<le> x \<and> x < snd p"

definition ivl_disjoint :: "ivl \<Rightarrow> ivl \<Rightarrow> bool" where
  "ivl_disjoint p q \<longleftrightarrow> snd p \<le> fst q \<or> snd q \<le> fst p"

text \<open>
  The body of \<open>for s, e in intervals\<close> with \<open>cursor\<close> as the loop state: skip an interval
  behind the cursor, emit the hole before it, advance, and stop at the end of the window.
\<close>

fun uncovered_loop :: "int \<Rightarrow> int \<Rightarrow> ivl list \<Rightarrow> ivl list" where
  "uncovered_loop end cursor [] = (if cursor < end then [(cursor, end)] else [])"
| "uncovered_loop end cursor ((s, e) # rest) =
     (if e \<le> cursor then uncovered_loop end cursor rest
      else (if s > cursor then [(cursor, s)] else []) @
           (if max cursor e \<ge> end then []
            else uncovered_loop end (max cursor e) rest))"

lemma ivl_disjoint_sym: "ivl_disjoint p q = ivl_disjoint q p"
  by (auto simp: ivl_disjoint_def)

lemma ivl_disjoint_mem: "ivl_disjoint p q \<Longrightarrow> ivl_mem x p \<Longrightarrow> \<not> ivl_mem x q"
  by (auto simp: ivl_disjoint_def ivl_mem_def)

lemma uncovered_loop_bounds:
  "\<forall>p \<in> set ivls. fst p < end \<Longrightarrow> (a, b) \<in> set (uncovered_loop end cursor ivls) \<Longrightarrow>
   cursor \<le> a \<and> a < b \<and> b \<le> end"
  by (induction "end" cursor ivls rule: uncovered_loop.induct) (fastforce split: if_splits)+

lemma uncovered_loop_disjoint:
  "sorted (map fst ivls) \<Longrightarrow> \<forall>p \<in> set ivls. fst p < end \<Longrightarrow>
   q \<in> set (uncovered_loop end cursor ivls) \<Longrightarrow> p \<in> set ivls \<Longrightarrow> ivl_disjoint q p"
proof (induction "end" cursor ivls arbitrary: p q rule: uncovered_loop.induct)
  case (2 "end" cursor s e rest)
  have bounds: "(a, b) \<in> set (uncovered_loop end c rest) \<Longrightarrow> c \<le> a" for a b c
    using uncovered_loop_bounds [of rest "end" a b c] "2.prems"(2) by auto
  obtain a b where q: "q = (a, b)" by (cases q)
  show ?case
  proof (cases "e \<le> cursor")
    case True
    then have in_rest: "q \<in> set (uncovered_loop end cursor rest)" using "2.prems"(3) by simp
    show ?thesis
    proof (cases "p = (s, e)")
      case True': True
      have "cursor \<le> a" using bounds in_rest q by simp
      then show ?thesis using True True' q by (simp add: ivl_disjoint_def)
    next
      case False
      then show ?thesis using "2.IH"(1) [OF True _ _ in_rest] "2.prems" by simp
    qed
  next
    case False
    show ?thesis
    proof (cases "q = (cursor, s) \<and> s > cursor")
      case True
      have "s \<le> fst p" using "2.prems"(1,4) by auto
      then show ?thesis using True by (simp add: ivl_disjoint_def)
    next
      case nq: False
      then have lt: "\<not> end \<le> max cursor e" and in_rest: "q \<in> set (uncovered_loop end (max cursor e) rest)"
        using "2.prems"(3) False by (auto split: if_splits)
      show ?thesis
      proof (cases "p = (s, e)")
        case True
        have "max cursor e \<le> a" using bounds in_rest q by blast
        then show ?thesis using True q by (simp add: ivl_disjoint_def)
      next
        case False
        then show ?thesis using "2.IH"(2) [OF \<open>\<not> e \<le> cursor\<close> lt _ _ in_rest] "2.prems" by simp
      qed
    qed
  qed
qed simp

lemma uncovered_loop_covers:
  "cursor \<le> x \<Longrightarrow> x < end \<Longrightarrow>
   (\<exists>p \<in> set ivls. ivl_mem x p) \<or> (\<exists>q \<in> set (uncovered_loop end cursor ivls). ivl_mem x q)"
proof (induction "end" cursor ivls rule: uncovered_loop.induct)
  case (1 "end" cursor)
  then show ?case by (auto simp: ivl_mem_def)
next
  case (2 "end" cursor s e rest)
  show ?case
  proof (cases "e \<le> cursor")
    case True
    then show ?thesis using "2.IH"(1) "2.prems" by auto
  next
    case False
    consider "x < s" | "s \<le> x" "x < e" | "e \<le> x" by linarith
    then show ?thesis
    proof cases
      case 1
      then show ?thesis using False "2.prems" by (auto simp: ivl_mem_def)
    next
      case 2
      then have "ivl_mem x (s, e)" by (simp add: ivl_mem_def)
      then show ?thesis by (metis list.set_intros(1))
    next
      case 3
      then have "max cursor e \<le> x" using "2.prems" by simp
      then show ?thesis using "2.IH"(2) [OF False] "2.prems" False by auto
    qed
  qed
qed

lemma uncovered_loop_sorted:
  "\<forall>p \<in> set ivls. fst p < end \<and> fst p \<le> snd p \<Longrightarrow>
   sorted_wrt (\<lambda>p q. snd p \<le> fst q) (uncovered_loop end cursor ivls)"
proof (induction "end" cursor ivls rule: uncovered_loop.induct)
  case (2 "end" cursor s e rest)
  have "max cursor e \<le> fst q" if "q \<in> set (uncovered_loop end (max cursor e) rest)" for q
    using uncovered_loop_bounds [of rest "end" "fst q" "snd q" "max cursor e"] that "2.prems" by auto
  moreover have "s \<le> max cursor e" using "2.prems" by auto
  ultimately have le: "\<forall>q \<in> set (uncovered_loop end (max cursor e) rest). s \<le> fst q"
    by (blast intro: order_trans)
  show ?case
  proof (cases "e \<le> cursor")
    case True
    then show ?thesis using "2.IH"(1) "2.prems" by simp
  next
    case False
    then show ?thesis using "2.IH"(2) "2.prems" le by (simp add: sorted_wrt_append)
  qed
qed simp

text \<open>The part of a requested window the scheduler reads: overlapping windows, clipped.\<close>

definition clip_sorted :: "int \<Rightarrow> int \<Rightarrow> ivl list \<Rightarrow> ivl list" where
  "clip_sorted start end ivls =
     sort (map (\<lambda>p. (max start (fst p), min end (snd p)))
            (filter (\<lambda>p. fst p < end \<and> snd p > start) ivls))"

lemma set_clip_sorted:
  "set (clip_sorted start end ivls) =
     {(max start a, min end b) | a b. (a, b) \<in> set ivls \<and> a < end \<and> start < b}"
  by (force simp: clip_sorted_def)

lemma clip_sorted_bounds:
  "start < end \<Longrightarrow> \<forall>p \<in> set (clip_sorted start end ivls). fst p < end"
  by (auto simp: set_clip_sorted)

lemma sorted_map_fst: "sorted (ps :: ivl list) \<Longrightarrow> sorted (map fst ps)"
  by (induction ps) (auto simp: less_eq_prod_def)

lemma sorted_clip_sorted: "sorted (map fst (clip_sorted start end ivls))"
  by (intro sorted_map_fst) (simp add: clip_sorted_def)

text \<open>The four facts both schedulers use about the holes they fill.\<close>

definition holes :: "int \<Rightarrow> int \<Rightarrow> ivl list \<Rightarrow> ivl list" where
  "holes start end ivls = uncovered_loop end start (clip_sorted start end ivls)"

lemma holes_bounds:
  "start < end \<Longrightarrow> (a, b) \<in> set (holes start end ivls) \<Longrightarrow> start \<le> a \<and> a < b \<and> b \<le> end"
  unfolding holes_def by (rule uncovered_loop_bounds [OF clip_sorted_bounds])

lemma holes_disjoint:
  assumes "start < end" and q: "q \<in> set (holes start end ivls)" and p: "p \<in> set ivls"
  shows "ivl_disjoint q p"
proof -
  obtain a b c d where qp: "q = (a, b)" "p = (c, d)" by (cases q, cases p)
  have ab: "start \<le> a" "b \<le> end" using holes_bounds assms qp by blast+
  show ?thesis
  proof (cases "c < end \<and> start < d")
    case True
    then have "(max start c, min end d) \<in> set (clip_sorted start end ivls)"
      using p qp by (auto simp: set_clip_sorted)
    then have "ivl_disjoint q (max start c, min end d)"
      using uncovered_loop_disjoint [OF sorted_clip_sorted clip_sorted_bounds [OF assms(1)]] q
      by (simp add: holes_def)
    then show ?thesis using qp ab True holes_bounds [OF assms(1)] q
      by (fastforce simp: ivl_disjoint_def)
  next
    case False
    then show ?thesis using qp ab by (auto simp: ivl_disjoint_def)
  qed
qed

lemma holes_cover:
  assumes "start \<le> x" and "x < end"
  shows "(\<exists>p \<in> set ivls. ivl_mem x p) \<or> (\<exists>q \<in> set (holes start end ivls). ivl_mem x q)"
  using uncovered_loop_covers [OF assms, of "clip_sorted start end ivls"]
  by (fastforce simp: holes_def set_clip_sorted ivl_mem_def)

lemma holes_sorted:
  assumes "start < end" and "\<forall>p \<in> set ivls. fst p < snd p"
  shows "sorted_wrt (\<lambda>p q. snd p \<le> fst q) (holes start end ivls)"
proof -
  have "\<forall>p \<in> set (clip_sorted start end ivls). fst p < end \<and> fst p \<le> snd p"
    using assms by (force simp: set_clip_sorted)
  then show ?thesis unfolding holes_def by (rule uncovered_loop_sorted)
qed

text \<open>Pairwise disjoint windows stay so when a row changes but keeps its window.\<close>

lemma sorted_wrt_filter_update:
  assumes "sorted_wrt R (map key (filter act rows))"
    and "\<And>r. r \<in> set rows \<Longrightarrow> key (f r) = key r"
    and "\<And>r. r \<in> set rows \<Longrightarrow> act (f r) \<Longrightarrow> act r"
  shows "sorted_wrt R (map key (filter act (map f rows)))"
  using assms by (induction rows) (auto split: if_splits)

lemma sorted_wrt_disjoint:
  "sorted_wrt (\<lambda>p q. snd p \<le> fst q) ps \<Longrightarrow> sorted_wrt ivl_disjoint ps"
  by (erule sorted_wrt_mono_rel [rotated]) (simp add: ivl_disjoint_def)

lemma holes_nonempty_or_overlap:
  assumes "start < end"
  shows "holes start end ivls \<noteq> [] \<or> (\<exists>p \<in> set ivls. fst p < end \<and> start < snd p)"
proof -
  consider p where "p \<in> set ivls" "ivl_mem start p" | q where "q \<in> set (holes start end ivls)"
    using holes_cover [OF order_refl assms, of ivls] by blast
  then show ?thesis
  proof cases
    case 1
    then have "fst p < end \<and> start < snd p" using assms by (simp add: ivl_mem_def)
    with 1 show ?thesis by blast
  next
    case 2
    then show ?thesis by (cases "holes start end ivls") auto
  qed
qed

end
