(* ===== verification/Job_Lease.thy ===== *)
theory Job_Lease
  imports Intervals
begin

text \<open>
  The durable-job protocol shared by the four job tables (\<open>cagg_refresh_jobs\<close>,
  \<open>gap_repair_jobs\<close>, \<open>historical_merge_jobs\<close>, \<open>export_jobs\<close>).  Each service claims a
  ready or expired row with \<open>FOR UPDATE SKIP LOCKED\<close>, stamps it with a fresh lease token
  and lets every later transition check that token and the expiry in its \<open>WHERE\<close> clause.

  The columns the four ORM models share are the record \<open>lease_cols\<close>; a model extends it by
  its own columns.  One transaction is one function from the table to the table.  The locale
  \<open>fenced_jobs\<close> is the contract the workers rely on; the services interpret it in their own
  theories.
\<close>

section \<open>The shared columns and statements\<close>

record lease_cols =
  job_id :: int
  worker_id :: "string option"
  lease_token :: "string option"
  claimed_at :: "usec option"
  lease_expires_at :: "usec option"
  next_attempt_at :: "usec option"
  error_message :: "string option"
  error_category :: "string option"
  created_at :: usec

text \<open>
  \<open>SELECT ... WHERE P ORDER BY created_at, id LIMIT 1 FOR UPDATE\<close> followed by an update of
  the row it returns; an \<open>UPDATE ... WHERE P\<close> whose row count the service compares with 1.
\<close>

definition claim_where ::
  "('x lease_cols_scheme \<Rightarrow> bool) \<Rightarrow> ('x lease_cols_scheme \<Rightarrow> 'x lease_cols_scheme) \<Rightarrow>
   'x lease_cols_scheme list \<Rightarrow> 'x lease_cols_scheme option \<times> 'x lease_cols_scheme list" where
  "claim_where P f rows =
     (case select_first (\<lambda>r. (created_at r, job_id r)) P rows of
        None \<Rightarrow> (None, rows)
      | Some r \<Rightarrow> (Some (f r), update_where (\<lambda>r'. job_id r' = job_id r) f rows))"

definition transition_where ::
  "('x lease_cols_scheme \<Rightarrow> bool) \<Rightarrow> ('x lease_cols_scheme \<Rightarrow> 'x lease_cols_scheme) \<Rightarrow>
   'x lease_cols_scheme list \<Rightarrow> bool \<times> 'x lease_cols_scheme list" where
  "transition_where P f rows = (rowcount P rows = 1, update_where P f rows)"

text \<open>
  A claim is configured by \<open>respect_retry_schedule\<close> and by the rows other transactions have
  locked, which \<open>SKIP LOCKED\<close> leaves out.
\<close>

type_synonym claim_config = "bool \<times> (int \<Rightarrow> bool)"

text \<open>The claim predicate of every fenced statement; \<open>processing\<close> reads the model's status.\<close>

definition owns_row ::
  "('x lease_cols_scheme \<Rightarrow> bool) \<Rightarrow> int \<Rightarrow> string \<Rightarrow> string \<Rightarrow> usec \<Rightarrow> 'x lease_cols_scheme \<Rightarrow> bool" where
  "owns_row processing i w t now r \<longleftrightarrow>
     job_id r = i \<and> processing r \<and> worker_id r = Some w \<and> lease_token r = Some t \<and>
     sql_gt (lease_expires_at r) now"

definition owned_in ::
  "('x lease_cols_scheme \<Rightarrow> bool) \<Rightarrow> 'x lease_cols_scheme list \<Rightarrow> int \<Rightarrow> string \<Rightarrow> string \<Rightarrow> usec \<Rightarrow> bool" where
  "owned_in processing rows i w t now \<longleftrightarrow> (\<exists>r \<in> set rows. owns_row processing i w t now r)"

definition holds_in ::
  "('x lease_cols_scheme \<Rightarrow> bool) \<Rightarrow> 'x lease_cols_scheme list \<Rightarrow> int \<Rightarrow> string \<Rightarrow> bool" where
  "holds_in processing rows i t \<longleftrightarrow>
     (\<exists>r \<in> set rows. job_id r = i \<and> processing r \<and> lease_token r = Some t)"

definition unique_ids :: "'x lease_cols_scheme list \<Rightarrow> bool" where
  "unique_ids rows \<longleftrightarrow> distinct (map job_id rows)"

text \<open>Bounded exponential backoff: \<open>min(3600, 30 * 2 ** max(0, n - 1))\<close> seconds.\<close>

definition backoff_us :: "int \<Rightarrow> int" where
  "backoff_us n = min 3600 (30 * 2 ^ nat (max 0 (n - 1))) * second_us"

section \<open>Facts about the shared statements\<close>

lemma unique_idsD: "unique_ids rows \<Longrightarrow> r \<in> set rows \<Longrightarrow> r' \<in> set rows \<Longrightarrow> job_id r = job_id r' \<Longrightarrow> r = r'"
  unfolding unique_ids_def by (rule distinct_map_unique)

lemma unique_ids_update_where:
  "(\<And>r. job_id (f r) = job_id r) \<Longrightarrow> unique_ids (update_where P f rows) = unique_ids rows"
  by (simp add: unique_ids_def map_key_update_where)

lemma owned_holds: "owned_in pr rows i w t now \<Longrightarrow> holds_in pr rows i t"
  by (auto simp: owned_in_def holds_in_def owns_row_def)

lemma holds_unique: "unique_ids rows \<Longrightarrow> holds_in pr rows i t \<Longrightarrow> holds_in pr rows i u \<Longrightarrow> t = u"
  unfolding holds_in_def by (metis option.inject unique_idsD)

lemma owned_unique:
  "unique_ids rows \<Longrightarrow> owned_in pr rows i w t now \<Longrightarrow> owned_in pr rows i w' t' now' \<Longrightarrow> w = w' \<and> t = t'"
  unfolding owned_in_def owns_row_def by (metis option.inject unique_idsD)

lemma backoff_bounds: "30 * second_us \<le> backoff_us n \<and> backoff_us n \<le> 3600 * second_us"
proof -
  have "(1::int) \<le> 2 ^ nat (max 0 (n - 1))" by simp
  then have "30 \<le> min 3600 (30 * (2::int) ^ nat (max 0 (n - 1)))" by linarith
  then show ?thesis unfolding backoff_us_def by linarith
qed

lemma claim_where_None: "claim_where P f rows = (None, rows') \<Longrightarrow> rows' = rows"
  by (auto simp: claim_where_def split: option.splits)

lemma claim_where_None_iff: "fst (claim_where P f rows) = None \<longleftrightarrow> (\<forall>r \<in> set rows. \<not> P r)"
proof -
  have "fst (claim_where P f rows) = None \<longleftrightarrow> select_first (\<lambda>r. (created_at r, job_id r)) P rows = None"
    by (simp add: claim_where_def split: option.splits)
  then show ?thesis by (simp add: select_first_None_iff)
qed

lemma claim_where_SomeE:
  assumes "claim_where P f rows = (Some r', rows')"
  obtains r where "r \<in> set rows" "P r" "r' = f r"
    "rows' = update_where (\<lambda>x. job_id x = job_id r) f rows"
    "\<And>x. x \<in> set rows \<Longrightarrow> P x \<Longrightarrow> (created_at r, job_id r) \<le> (created_at x, job_id x)"
proof -
  obtain r where r: "select_first (\<lambda>r. (created_at r, job_id r)) P rows = Some r"
    and "r' = f r" "rows' = update_where (\<lambda>x. job_id x = job_id r) f rows"
    using assms by (auto simp: claim_where_def split: option.splits)
  then show thesis
    using that [of r] select_first_Some [OF r] select_first_least [OF r] by auto
qed

lemma unique_ids_claim_where:
  assumes "\<And>r. job_id (f r) = job_id r" and "claim_where P f rows = (res, rows')"
  shows "unique_ids rows' = unique_ids rows"
  using assms by (auto simp: claim_where_def unique_ids_update_where split: option.splits)

lemma holds_in_update_id:
  assumes "\<And>r. job_id (f r) = job_id r"
  shows "holds_in pr (update_where (\<lambda>x. job_id x = i) f rows) j t \<longleftrightarrow>
     (if j = i then \<exists>r \<in> set rows. job_id r = i \<and> pr (f r) \<and> lease_token (f r) = Some t
      else holds_in pr rows j t)"
  using assms by (auto simp: holds_in_def set_update_where)

lemma owned_in_update_other:
  assumes "\<And>r. job_id (f r) = job_id r" and "j \<noteq> i"
  shows "owned_in pr (update_where (\<lambda>x. job_id x = i) f rows) j w t now = owned_in pr rows j w t now"
  using assms by (auto simp: owned_in_def owns_row_def set_update_where)

text \<open>
  A statement guarded by \<open>owns_row\<close> either touches exactly the claimed row or nothing.
\<close>

lemma transition_owned:
  assumes "unique_ids rows" and "owned_in pr rows i w t now"
  shows "transition_where (owns_row pr i w t now) f rows =
           (True, update_where (\<lambda>x. job_id x = i) f rows)"
proof -
  obtain r where r: "r \<in> set rows" "owns_row pr i w t now r"
    using assms(2) by (auto simp: owned_in_def)
  then have only: "owns_row pr i w t now x \<longleftrightarrow> job_id x = i" if "x \<in> set rows" for x
    using unique_idsD [OF assms(1) that r(1)] that by (auto simp: owns_row_def)
  have "rowcount (owns_row pr i w t now) rows = 1"
    using assms(1) r by (intro rowcount_unique [where key = job_id]) (auto simp: unique_ids_def owns_row_def)
  moreover have "update_where (owns_row pr i w t now) f rows = update_where (\<lambda>x. job_id x = i) f rows"
    using only by (auto simp: update_where_def)
  ultimately show ?thesis by (simp add: transition_where_def)
qed

lemma transition_not_owned:
  "\<not> owned_in pr rows i w t now \<Longrightarrow>
   transition_where (owns_row pr i w t now) f rows = (False, rows)"
  by (auto simp: transition_where_def owned_in_def update_where_none rowcount_0_iff
      simp flip: rowcount_0_iff)

text \<open>
  \<open>session.get(Model, job_id, with_for_update=True)\<close> followed by Python checks that return
  early unless the claim is current; the remaining assignments are one row update.
\<close>

definition get_row :: "int \<Rightarrow> 'x lease_cols_scheme list \<Rightarrow> 'x lease_cols_scheme option" where
  "get_row i rows = find (\<lambda>r. job_id r = i) rows"

definition get_and_update ::
  "('x lease_cols_scheme \<Rightarrow> bool) \<Rightarrow> int \<Rightarrow> string \<Rightarrow> string \<Rightarrow> usec \<Rightarrow>
   ('x lease_cols_scheme \<Rightarrow> 'x lease_cols_scheme) \<Rightarrow>
   'x lease_cols_scheme list \<Rightarrow> bool \<times> 'x lease_cols_scheme list" where
  "get_and_update processing i w t now f rows =
     (case get_row i rows of
        None \<Rightarrow> (False, rows)
      | Some r \<Rightarrow>
          if \<not> processing r \<or> worker_id r \<noteq> Some w \<or> lease_token r \<noteq> Some t \<or>
             lease_expires_at r = None \<or> sql_le (lease_expires_at r) now
          then (False, rows)
          else (True, update_where (\<lambda>x. job_id x = i) f rows))"

lemma not_sql_gt_iff: "\<not> sql_gt c v \<longleftrightarrow> c = None \<or> sql_le c v"
  by (cases c) auto

lemma get_row_Some: "get_row i rows = Some r \<Longrightarrow> r \<in> set rows \<and> job_id r = i"
  by (auto simp: get_row_def find_Some_iff)

lemma get_row_unique: "unique_ids rows \<Longrightarrow> r \<in> set rows \<Longrightarrow> get_row (job_id r) rows = Some r"
proof (cases "get_row (job_id r) rows")
  case None
  assume "r \<in> set rows"
  with None show ?thesis by (auto simp: get_row_def find_None_iff)
next
  case (Some x)
  assume "unique_ids rows" and "r \<in> set rows"
  with get_row_Some [OF Some] Some show ?thesis by (metis unique_idsD)
qed

lemma get_and_update_alt:
  "get_and_update pr i w t now f rows =
     (case get_row i rows of None \<Rightarrow> (False, rows)
      | Some r \<Rightarrow> if owns_row pr i w t now r then (True, update_where (\<lambda>x. job_id x = i) f rows)
          else (False, rows))"
  by (auto simp: get_and_update_def owns_row_def not_sql_gt_iff dest: get_row_Some split: option.splits)

lemma get_and_update_not_owned:
  "\<not> owned_in pr rows i w t now \<Longrightarrow> get_and_update pr i w t now f rows = (False, rows)"
  by (auto simp: get_and_update_alt owned_in_def dest: get_row_Some split: option.splits)

lemma get_and_update_owned:
  assumes "unique_ids rows" and "owned_in pr rows i w t now"
  shows "get_and_update pr i w t now f rows = (True, update_where (\<lambda>x. job_id x = i) f rows)"
proof -
  obtain r where r: "r \<in> set rows" "owns_row pr i w t now r"
    using assms(2) by (auto simp: owned_in_def)
  then have "get_row i rows = Some r"
    using get_row_unique [OF assms(1)] by (auto simp: owns_row_def)
  with r(2) show ?thesis by (simp add: get_and_update_alt)
qed

lemma get_and_update_eq:
  assumes "unique_ids rows"
  shows "get_and_update pr i w t now f rows = transition_where (owns_row pr i w t now) f rows"
  using assms
  by (cases "owned_in pr rows i w t now")
    (simp_all add: get_and_update_owned get_and_update_not_owned transition_owned transition_not_owned)

text \<open>Serial primary keys: a fresh id is larger than every id handed out so far.\<close>

definition next_id :: "'x lease_cols_scheme list \<Rightarrow> int" where
  "next_id rows = foldr (\<lambda>r m. max (job_id r) m) rows 0 + 1"

lemma next_id_fresh: "r \<in> set rows \<Longrightarrow> job_id r < next_id rows"
proof (induction rows)
  case (Cons a rows)
  then show ?case by (auto simp: next_id_def)
qed simp

lemma unique_ids_snoc: "unique_ids rows \<Longrightarrow> job_id r = next_id rows \<Longrightarrow> unique_ids (rows @ [r])"
  using next_id_fresh by (fastforce simp: unique_ids_def)

fun insert_rows :: "(int \<Rightarrow> 'w \<Rightarrow> 'x lease_cols_scheme) \<Rightarrow> 'w list \<Rightarrow> 'x lease_cols_scheme list \<Rightarrow> 'x lease_cols_scheme list" where
  "insert_rows mk [] rows = rows"
| "insert_rows mk (w # ws) rows = insert_rows mk ws (rows @ [mk (next_id rows) w])"

lemma insert_rows_append:
  assumes id: "\<And>i w. job_id (mk i w) = i" and key: "\<And>i w. key (mk i w) = w"
  shows "\<exists>new. insert_rows mk ws rows = rows @ new \<and> map key new = ws \<and>
     (\<forall>r \<in> set new. r = mk (job_id r) (key r))"
proof (induction ws arbitrary: rows)
  case (Cons w ws)
  let ?r = "mk (next_id rows) w"
  obtain new where "insert_rows mk ws (rows @ [?r]) = (rows @ [?r]) @ new" "map key new = ws"
    "\<forall>r \<in> set new. r = mk (job_id r) (key r)"
    using Cons.IH by blast
  then show ?case by (intro exI [of _ "?r # new"]) (simp add: id key)
qed simp

lemma insert_rows_unique:
  assumes "\<And>i w. job_id (mk i w) = i"
  shows "unique_ids rows \<Longrightarrow> unique_ids (insert_rows mk ws rows)"
proof (induction ws arbitrary: rows)
  case (Cons w ws)
  have "unique_ids (rows @ [mk (next_id rows) w])"
    by (rule unique_ids_snoc [OF Cons.prems]) (rule assms)
  then show ?case using Cons.IH by simp
qed simp

section \<open>Heartbeats and the worker's surroundings\<close>

text \<open>
  \<open>_heartbeat_loop\<close>: each time the sleep ends the loop renews the lease; it stops when it is
  cancelled, when the database raises, or when the renewal touches no row, and in the last two
  cases it sets \<open>ownership_lost\<close>.  One list element is one end of the sleep; \<open>HbWake\<close> carries
  the clock reading and what other sessions committed since the previous one.
\<close>

datatype 'db hb_event =
    HbWake usec "'db \<Rightarrow> 'db"
  | HbDbError
  | HbCancelled

fun heartbeat_loop :: "(usec \<Rightarrow> 'db \<Rightarrow> bool \<times> 'db) \<Rightarrow> 'db hb_event list \<Rightarrow> 'db \<Rightarrow> bool \<times> 'db" where
  "heartbeat_loop renew [] db = (False, db)"
| "heartbeat_loop renew (HbCancelled # es) db = (False, db)"
| "heartbeat_loop renew (HbDbError # es) db = (True, db)"
| "heartbeat_loop renew (HbWake now other # es) db =
     (case renew now (other db) of
        (ok, db') \<Rightarrow> if ok then heartbeat_loop renew es db' else (True, db'))"

text \<open>
  What a worker meets while it runs: at its \<open>n\<close>-th suspension point the clock reads
  \<open>clock n\<close>, other sessions (the worker's own heartbeat among them) have transformed the
  database by \<open>others n\<close>, and the heartbeat has or has not set \<open>ownership_lost\<close>.
  \<open>format_error\<close> is the text of \<open>traceback.format_exc()\<close>.
\<close>

record 'db worker_env =
  clock :: "nat \<Rightarrow> usec"
  others :: "nat \<Rightarrow> 'db \<Rightarrow> 'db"
  lost_at :: "nat \<Rightarrow> bool"
  format_error :: "py_exn \<Rightarrow> string"

record 'db worker_run =
  run_db :: 'db
  run_tick :: nat

definition pause :: "('db, 'e) worker_env_scheme \<Rightarrow> ('db, 'x) worker_run_scheme \<Rightarrow> ('db, 'x) worker_run_scheme" where
  "pause env s = s\<lparr>run_db := others env (run_tick s) (run_db s), run_tick := run_tick s + 1\<rparr>"

definition run_now :: "('db, 'e) worker_env_scheme \<Rightarrow> ('db, 'x) worker_run_scheme \<Rightarrow> usec" where
  "run_now env s = clock env (run_tick s)"

definition run_lost :: "('db, 'e) worker_env_scheme \<Rightarrow> ('db, 'x) worker_run_scheme \<Rightarrow> bool" where
  "run_lost env s = lost_at env (run_tick s)"

lemma pause_more [simp]: "worker_run.more (pause env s) = worker_run.more s"
  by (simp add: pause_def)

section \<open>The contract the workers rely on\<close>

datatype ('c, 'f, 'e) job_op =
    OpClaim 'c string string usec usec    \<comment> \<open>configuration, worker, fresh token, now, lease\<close>
  | OpRenew int string string usec usec   \<comment> \<open>job, worker, token, now, lease\<close>
  | OpFinish 'f int string string usec    \<comment> \<open>outcome, job, worker, token, now\<close>
  | OpOther 'e                            \<comment> \<open>scheduling, reopening, reaping\<close>

fun claim_token_of :: "('c, 'f, 'e) job_op \<Rightarrow> string option" where
  "claim_token_of (OpClaim _ _ t _ _) = Some t"
| "claim_token_of _ = None"

locale fenced_jobs =
  fixes wf :: "'db \<Rightarrow> bool"
    and holds :: "'db \<Rightarrow> int \<Rightarrow> string \<Rightarrow> bool"
    and owned :: "'db \<Rightarrow> int \<Rightarrow> string \<Rightarrow> string \<Rightarrow> usec \<Rightarrow> bool"
    and claim :: "'c \<Rightarrow> string \<Rightarrow> string \<Rightarrow> usec \<Rightarrow> usec \<Rightarrow> 'db \<Rightarrow> int option \<times> 'db"
    and renew :: "int \<Rightarrow> string \<Rightarrow> string \<Rightarrow> usec \<Rightarrow> usec \<Rightarrow> 'db \<Rightarrow> bool \<times> 'db"
    and finish :: "'f \<Rightarrow> int \<Rightarrow> string \<Rightarrow> string \<Rightarrow> usec \<Rightarrow> 'db \<Rightarrow> bool \<times> 'db"
    and other :: "'e \<Rightarrow> 'db \<Rightarrow> 'db"
  assumes claim_wf: "wf db \<Longrightarrow> wf (snd (claim c w t now lease db))"
    and renew_wf: "wf db \<Longrightarrow> wf (snd (renew i w t now lease db))"
    and finish_wf: "wf db \<Longrightarrow> wf (snd (finish f i w t now db))"
    and other_wf: "wf db \<Longrightarrow> wf (other e db)"
    and owned_imp_holds: "owned db i w t now \<Longrightarrow> holds db i t"
    and owned_same: "wf db \<Longrightarrow> owned db i w t now \<Longrightarrow> owned db i w' t' now' \<Longrightarrow> w = w' \<and> t = t'"
    and claim_nothing: "claim c w t now lease db = (None, db') \<Longrightarrow> db' = db"
    and claim_holds: "wf db \<Longrightarrow> claim c w t now lease db = (Some i, db') \<Longrightarrow>
          holds db' j u \<longleftrightarrow> (if j = i then u = t else holds db j u)"
    and claim_owns: "wf db \<Longrightarrow> claim c w t now lease db = (Some i, db') \<Longrightarrow>
          owned db' i w t n \<longleftrightarrow> n < now + lease"
    and claim_others: "wf db \<Longrightarrow> claim c w t now lease db = (Some i, db') \<Longrightarrow> j \<noteq> i \<Longrightarrow>
          owned db' j w' t' n = owned db j w' t' n"
    and claim_not_live: "wf db \<Longrightarrow> claim c w t now lease db = (Some i, db') \<Longrightarrow> \<not> owned db i w' t' now"
    and renew_result: "wf db \<Longrightarrow> fst (renew i w t now lease db) = owned db i w t now"
    and renew_holds: "wf db \<Longrightarrow> holds (snd (renew i w t now lease db)) j u = holds db j u"
    and renew_refused: "\<not> owned db i w t now \<Longrightarrow> snd (renew i w t now lease db) = db"
    and finish_refused: "\<not> owned db i w t now \<Longrightarrow> finish f i w t now db = (False, db)"
    and finish_done: "wf db \<Longrightarrow> owned db i w t now \<Longrightarrow>
          fst (finish f i w t now db) \<and>
          (holds (snd (finish f i w t now db)) j u \<longleftrightarrow> j \<noteq> i \<and> holds db j u)"
    and other_holds: "wf db \<Longrightarrow> holds (other e db) i t \<Longrightarrow> holds db i t"
begin

fun exec :: "('c, 'f, 'e) job_op \<Rightarrow> 'db \<Rightarrow> 'db" where
  "exec (OpClaim c w t now lease) db = snd (claim c w t now lease db)"
| "exec (OpRenew i w t now lease) db = snd (renew i w t now lease db)"
| "exec (OpFinish f i w t now) db = snd (finish f i w t now db)"
| "exec (OpOther e) db = other e db"

abbreviation exec_all :: "('c, 'f, 'e) job_op list \<Rightarrow> 'db \<Rightarrow> 'db" where
  "exec_all ops db \<equiv> fold exec ops db"

lemma exec_wf: "wf db \<Longrightarrow> wf (exec x db)"
  by (cases x) (auto intro: claim_wf renew_wf finish_wf other_wf)

lemma exec_all_wf: "wf db \<Longrightarrow> wf (exec_all ops db)"
  by (induction ops arbitrary: db) (auto intro: exec_wf)

lemma finish_cases:
  assumes "wf db"
  shows "holds (snd (finish f i w t now db)) j u \<Longrightarrow> holds db j u"
  using assms finish_done finish_refused by (cases "owned db i w t now") auto

text \<open>A token a row does not carry is never carried by it again, unless it is claimed anew.\<close>

lemma exec_dead:
  assumes "wf db" and "\<not> holds db i t" and "claim_token_of x \<noteq> Some t"
  shows "\<not> holds (exec x db) i t"
proof (cases x)
  case (OpClaim c w u now lease)
  obtain res db' where res: "claim c w u now lease db = (res, db')" by (rule prod.exhaust)
  have ut: "u \<noteq> t" using assms(3) OpClaim by simp
  show ?thesis
  proof (cases res)
    case None
    then have "db' = db" using res by (simp add: claim_nothing)
    then show ?thesis using assms(2) OpClaim res by simp
  next
    case (Some j)
    then show ?thesis using assms(2) OpClaim res ut claim_holds [OF assms(1)] by simp
  qed
next
  case (OpRenew j w u now lease)
  then show ?thesis using assms renew_holds by simp
next
  case (OpFinish f j w u now)
  then show ?thesis using assms finish_cases by auto
next
  case (OpOther e)
  then show ?thesis using assms other_holds by auto
qed

lemma exec_all_dead:
  "wf db \<Longrightarrow> \<not> holds db i t \<Longrightarrow> Some t \<notin> claim_token_of ` set ops \<Longrightarrow> \<not> holds (exec_all ops db) i t"
proof (induction ops arbitrary: db)
  case Nil
  then show ?case by simp
next
  case (Cons x ops)
  then have "\<not> holds (exec x db) i t" by (intro exec_dead) auto
  with Cons show ?case by (simp add: exec_wf)
qed

lemma dead_token_refused:
  assumes "wf db" and "\<not> holds db i t" and "Some t \<notin> claim_token_of ` set ops"
  shows "finish f i w t now (exec_all ops db) = (False, exec_all ops db)"
    and "renew i w t now lease (exec_all ops db) = (False, exec_all ops db)"
proof -
  have dead: "\<not> owned (exec_all ops db) i w t now"
    using exec_all_dead [OF assms] owned_imp_holds by blast
  then show "finish f i w t now (exec_all ops db) = (False, exec_all ops db)"
    by (rule finish_refused)
  show "renew i w t now lease (exec_all ops db) = (False, exec_all ops db)"
  proof (rule prod_eqI)
    show "fst (renew i w t now lease (exec_all ops db)) = fst (False, exec_all ops db)"
      using dead renew_result [OF exec_all_wf [OF assms(1)]] by (simp only: fst_conv)
    show "snd (renew i w t now lease (exec_all ops db)) = snd (False, exec_all ops db)"
      using renew_refused [OF dead] by (simp only: snd_conv)
  qed
qed

text \<open>Once another worker has claimed the job, the old claim is fenced for good.\<close>

lemma takeover_fences:
  assumes "wf db" and "claim c w' t' now' lease db = (Some i, db')" and "t \<noteq> t'"
    and "Some t \<notin> claim_token_of ` set ops"
  shows "finish f i w t now (exec_all ops db') = (False, exec_all ops db')"
proof -
  have "wf db'" using claim_wf [OF assms(1)] assms(2) by (metis snd_conv)
  moreover have "\<not> holds db' i t" using claim_holds [OF assms(1,2)] assms(3) by simp
  ultimately show ?thesis using assms(4) by (rule dead_token_refused)
qed

text \<open>A claim ends at most once.\<close>

lemma finish_once:
  assumes "wf db" and "finish f i w t now db = (True, db')"
    and "Some t \<notin> claim_token_of ` set ops"
  shows "finish g i w' t now' (exec_all ops db') = (False, exec_all ops db')"
proof -
  have own: "owned db i w t now" using assms(2) finish_refused by (metis prod.inject)
  have "wf db'" using finish_wf [OF assms(1)] assms(2) by (metis snd_conv)
  moreover have "\<not> holds db' i t" using finish_done [OF assms(1) own] assms(2) by (metis snd_conv)
  ultimately show ?thesis using assms(3) by (rule dead_token_refused)
qed

text \<open>A live claim is not taken away by another claim.\<close>

lemma live_claim_kept:
  assumes "wf db" and "owned db i w t now" and "claim c w' t' now lease db = (res, db')"
  shows "res \<noteq> Some i" and "owned db' i w t now"
proof -
  show ne: "res \<noteq> Some i" using claim_not_live assms by blast
  show "owned db' i w t now"
  proof (cases res)
    case None
    then show ?thesis using assms claim_nothing by blast
  next
    case (Some j)
    then show ?thesis using assms ne claim_others by (metis)
  qed
qed

end

section \<open>One instance for every table of this shape\<close>

text \<open>
  The services differ in the rows a claim may take and in the columns a transition writes.
  The three locale assumptions are what such an update must satisfy.
\<close>

locale lease_table =
  fixes processing :: "'x lease_cols_scheme \<Rightarrow> bool"
    and eligible :: "'c \<Rightarrow> usec \<Rightarrow> 'x lease_cols_scheme \<Rightarrow> bool"
    and stamp :: "string \<Rightarrow> string \<Rightarrow> usec \<Rightarrow> usec \<Rightarrow> 'x lease_cols_scheme \<Rightarrow> 'x lease_cols_scheme"
    and extend_lease :: "usec \<Rightarrow> usec \<Rightarrow> 'x lease_cols_scheme \<Rightarrow> 'x lease_cols_scheme"
    and settle :: "'f \<Rightarrow> usec \<Rightarrow> 'x lease_cols_scheme \<Rightarrow> 'x lease_cols_scheme"
  assumes stamp: "job_id (stamp w t now lease r) = job_id r" "processing (stamp w t now lease r)"
      "worker_id (stamp w t now lease r) = Some w" "lease_token (stamp w t now lease r) = Some t"
      "lease_expires_at (stamp w t now lease r) = Some (now + lease)"
    and extend: "job_id (extend_lease now lease r) = job_id r"
      "processing (extend_lease now lease r) = processing r"
      "lease_token (extend_lease now lease r) = lease_token r"
    and settle: "job_id (settle f now r) = job_id r" "\<not> processing (settle f now r)"
    and eligible_not_live: "eligible c now r \<Longrightarrow> \<not> owns_row processing i w t now r"
begin

definition tclaim :: "'c \<Rightarrow> string \<Rightarrow> string \<Rightarrow> usec \<Rightarrow> usec \<Rightarrow> 'x lease_cols_scheme list \<Rightarrow> int option \<times> 'x lease_cols_scheme list" where
  "tclaim c w t now lease rows =
     (case claim_where (eligible c now) (stamp w t now lease) rows of
        (res, rows') \<Rightarrow> (map_option job_id res, rows'))"

definition trenew :: "int \<Rightarrow> string \<Rightarrow> string \<Rightarrow> usec \<Rightarrow> usec \<Rightarrow> 'x lease_cols_scheme list \<Rightarrow> bool \<times> 'x lease_cols_scheme list" where
  "trenew i w t now lease = transition_where (owns_row processing i w t now) (extend_lease now lease)"

definition tfinish :: "'f \<Rightarrow> int \<Rightarrow> string \<Rightarrow> string \<Rightarrow> usec \<Rightarrow> 'x lease_cols_scheme list \<Rightarrow> bool \<times> 'x lease_cols_scheme list" where
  "tfinish f i w t now = transition_where (owns_row processing i w t now) (settle f now)"

lemma tclaim_SomeE:
  assumes "tclaim c w t now lease rows = (Some i, rows')"
  obtains r where "r \<in> set rows" "eligible c now r" "job_id r = i"
    "rows' = update_where (\<lambda>x. job_id x = i) (stamp w t now lease) rows"
proof -
  obtain r' where "claim_where (eligible c now) (stamp w t now lease) rows = (Some r', rows')"
    and "job_id r' = i"
    using assms by (auto simp: tclaim_def split: prod.splits)
  then show thesis using that by (auto elim!: claim_where_SomeE simp: stamp)
qed

lemma trenew_holds:
  assumes "unique_ids rows"
  shows "holds_in processing (snd (trenew i w t now lease rows)) j u = holds_in processing rows j u"
proof (cases "owned_in processing rows i w t now")
  case True
  then show ?thesis
    by (auto simp: trenew_def transition_owned [OF assms] holds_in_update_id extend)
      (auto simp: holds_in_def)
next
  case False
  then show ?thesis by (simp add: trenew_def transition_not_owned)
qed

lemma tfinish_done:
  assumes "unique_ids rows" and "owned_in processing rows i w t now"
  shows "fst (tfinish f i w t now rows) \<and>
    (holds_in processing (snd (tfinish f i w t now rows)) j u \<longleftrightarrow> j \<noteq> i \<and> holds_in processing rows j u)"
  using assms by (simp add: tfinish_def transition_owned holds_in_update_id settle)

lemma tclaim_owns:
  assumes "unique_ids rows" and "tclaim c w t now lease rows = (Some i, rows')"
  shows "owned_in processing rows' i w t n \<longleftrightarrow> n < now + lease"
proof -
  obtain r where r: "r \<in> set rows" "job_id r = i"
    and rows': "rows' = update_where (\<lambda>x. job_id x = i) (stamp w t now lease) rows"
    using assms(2) by (rule tclaim_SomeE)
  have new: "stamp w t now lease r \<in> set rows'" using r by (force simp: rows' set_update_where)
  have own: "owns_row processing i w t n (stamp w t now lease r) \<longleftrightarrow> n < now + lease"
    using r(2) by (simp add: owns_row_def stamp)
  have only: "x = stamp w t now lease r" if xin: "x \<in> set rows'" and xi: "job_id x = i" for x
  proof -
    obtain y where y: "y \<in> set rows" "x = (if job_id y = i then stamp w t now lease y else y)"
      using xin unfolding rows' set_update_where by (rule imageE)
    have iy: "job_id y = i"
    proof (rule ccontr)
      assume "job_id y \<noteq> i"
      with y(2) xi show False by simp
    qed
    then have "y = r" using unique_idsD [OF assms(1) y(1) r(1)] r(2) by simp
    with y(2) iy show ?thesis by simp
  qed
  show ?thesis
  proof
    assume "owned_in processing rows' i w t n"
    then obtain x where x: "x \<in> set rows'" "owns_row processing i w t n x"
      unfolding owned_in_def by blast
    then have "x = stamp w t now lease r" by (intro only) (simp_all add: owns_row_def)
    with x(2) own show "n < now + lease" by simp
  next
    assume "n < now + lease"
    with own new show "owned_in processing rows' i w t n" unfolding owned_in_def by blast
  qed
qed

lemma tclaim_holds:
  assumes "unique_ids rows" and "tclaim c w t now lease rows = (Some i, rows')"
  shows "holds_in processing rows' j u \<longleftrightarrow> (if j = i then u = t else holds_in processing rows j u)"
proof -
  obtain r where "r \<in> set rows" "job_id r = i"
    "rows' = update_where (\<lambda>x. job_id x = i) (stamp w t now lease) rows"
    using assms(2) by (rule tclaim_SomeE)
  then show ?thesis by (auto simp: holds_in_update_id stamp)
qed

lemma tclaim_not_live:
  assumes "unique_ids rows" and "tclaim c w t now lease rows = (Some i, rows')"
  shows "\<not> owned_in processing rows i w' t' now"
proof -
  obtain r where r: "r \<in> set rows" "eligible c now r" "job_id r = i"
    using assms(2) by (rule tclaim_SomeE)
  show ?thesis
  proof
    assume "owned_in processing rows i w' t' now"
    then obtain r' where "r' \<in> set rows" "owns_row processing i w' t' now r'"
      by (auto simp: owned_in_def)
    with r assms(1) have "owns_row processing i w' t' now r"
      by (metis owns_row_def unique_idsD)
    with r(2) show False using eligible_not_live by blast
  qed
qed

lemma tclaim_others:
  assumes "tclaim c w t now lease rows = (Some i, rows')" and "j \<noteq> i"
  shows "owned_in processing rows' j w' t' n = owned_in processing rows j w' t' n"
  using assms by (auto elim!: tclaim_SomeE simp: owned_in_update_other stamp)

lemma tclaim_wf: "unique_ids rows \<Longrightarrow> unique_ids (snd (tclaim c w t now lease rows))"
  using unique_ids_claim_where [OF stamp(1)] by (auto simp: tclaim_def split: prod.splits)

lemma tclaim_nothing: "tclaim c w t now lease rows = (None, rows') \<Longrightarrow> rows' = rows"
  by (auto simp: tclaim_def dest: claim_where_None split: prod.splits)

lemma trenew_wf: "unique_ids rows \<Longrightarrow> unique_ids (snd (trenew i w t now lease rows))"
  by (simp add: trenew_def transition_where_def unique_ids_update_where extend)

lemma trenew_result: "unique_ids rows \<Longrightarrow> fst (trenew i w t now lease rows) = owned_in processing rows i w t now"
  by (cases "owned_in processing rows i w t now")
    (simp_all add: trenew_def transition_owned transition_not_owned)

lemma trenew_refused: "\<not> owned_in processing rows i w t now \<Longrightarrow> snd (trenew i w t now lease rows) = rows"
  by (simp add: trenew_def transition_not_owned)

lemma tfinish_wf: "unique_ids rows \<Longrightarrow> unique_ids (snd (tfinish f i w t now rows))"
  by (simp add: tfinish_def transition_where_def unique_ids_update_where settle)

lemma tfinish_refused: "\<not> owned_in processing rows i w t now \<Longrightarrow> tfinish f i w t now rows = (False, rows)"
  by (simp add: tfinish_def transition_not_owned)

lemmas table_laws = tclaim_wf trenew_wf tfinish_wf tclaim_nothing tclaim_holds tclaim_owns
  tclaim_others tclaim_not_live trenew_result trenew_holds trenew_refused tfinish_refused tfinish_done

end

section \<open>Table constraints\<close>

text \<open>
  What a job table promises beyond its claims: unique ids, a row predicate, and a relation
  between the keys of all rows that are still active (the exclusion and unique constraints).
\<close>

definition table_ok ::
  "('x lease_cols_scheme \<Rightarrow> bool) \<Rightarrow> ('x lease_cols_scheme \<Rightarrow> 'k) \<Rightarrow> ('k \<Rightarrow> 'k \<Rightarrow> bool) \<Rightarrow>
   ('x lease_cols_scheme \<Rightarrow> bool) \<Rightarrow> 'x lease_cols_scheme list \<Rightarrow> bool" where
  "table_ok act key R row_ok rows \<longleftrightarrow>
     unique_ids rows \<and> list_all row_ok rows \<and> sorted_wrt R (map key (filter act rows))"

lemma table_ok_unique: "table_ok act key R row_ok rows \<Longrightarrow> unique_ids rows"
  by (simp add: table_ok_def)

lemma table_ok_row: "table_ok act key R row_ok rows \<Longrightarrow> r \<in> set rows \<Longrightarrow> row_ok r"
  by (auto simp: table_ok_def list_all_iff)

lemma table_ok_update:
  assumes ok: "table_ok act key R row_ok rows"
    and f: "\<And>r. r \<in> set rows \<Longrightarrow> P r \<Longrightarrow> row_ok (f r) \<and> (act (f r) \<longrightarrow> act r)"
    and id: "\<And>r. job_id (f r) = job_id r" and key: "\<And>r. key (f r) = key r"
  shows "table_ok act key R row_ok (update_where P f rows)"
proof -
  let ?g = "\<lambda>r. if P r then f r else r"
  have "sorted_wrt R (map key (filter act (map ?g rows)))"
    using ok f by (intro sorted_wrt_filter_update) (auto simp: table_ok_def key split: if_splits)
  moreover have "list_all row_ok (map ?g rows)"
    using ok f by (auto simp: table_ok_def list_all_iff)
  ultimately show ?thesis
    using ok unique_ids_update_where [of f, OF id] by (simp add: table_ok_def) (simp add: update_where_def)
qed

lemma table_ok_append:
  assumes "table_ok act key R row_ok rows" and "unique_ids (rows @ new)" and "list_all row_ok new"
    and "sorted_wrt R (map key (filter act new))"
    and "\<And>r q. r \<in> set rows \<Longrightarrow> act r \<Longrightarrow> q \<in> set new \<Longrightarrow> act q \<Longrightarrow> R (key r) (key q)"
  shows "table_ok act key R row_ok (rows @ new)"
  using assms by (auto simp: table_ok_def sorted_wrt_append)

locale guarded_table = lease_table processing eligible stamp extend_lease settle
  for processing :: "'x lease_cols_scheme \<Rightarrow> bool"
    and eligible :: "'c \<Rightarrow> usec \<Rightarrow> 'x lease_cols_scheme \<Rightarrow> bool"
    and stamp :: "string \<Rightarrow> string \<Rightarrow> usec \<Rightarrow> usec \<Rightarrow> 'x lease_cols_scheme \<Rightarrow> 'x lease_cols_scheme"
    and extend_lease :: "usec \<Rightarrow> usec \<Rightarrow> 'x lease_cols_scheme \<Rightarrow> 'x lease_cols_scheme"
    and settle :: "'f \<Rightarrow> usec \<Rightarrow> 'x lease_cols_scheme \<Rightarrow> 'x lease_cols_scheme" +
  fixes act :: "'x lease_cols_scheme \<Rightarrow> bool"
    and key :: "'x lease_cols_scheme \<Rightarrow> 'k"
    and R :: "'k \<Rightarrow> 'k \<Rightarrow> bool"
    and row_ok :: "'x lease_cols_scheme \<Rightarrow> bool"
  assumes stamp_ok: "row_ok r \<Longrightarrow> eligible c now r \<Longrightarrow> row_ok (stamp w t now lease r) \<and> act r"
    and extend_ok: "row_ok r \<Longrightarrow> processing r \<Longrightarrow> row_ok (extend_lease now lease r)"
    and settle_ok: "row_ok r \<Longrightarrow> processing r \<Longrightarrow> row_ok (settle f now r)"
    and processing_act: "processing r \<Longrightarrow> act r"
    and keys: "key (stamp w t now lease r) = key r" "key (extend_lease now lease r) = key r"
      "key (settle f now r) = key r"
begin

abbreviation ok :: "'x lease_cols_scheme list \<Rightarrow> bool" where
  "ok \<equiv> table_ok act key R row_ok"

lemma tclaim_ok:
  assumes "ok rows"
  shows "ok (snd (tclaim c w t now lease rows))"
proof (cases "fst (tclaim c w t now lease rows)")
  case None
  then show ?thesis using tclaim_nothing assms by (metis prod.collapse)
next
  case (Some i)
  then obtain r where r: "r \<in> set rows" "eligible c now r" "job_id r = i"
    and eq: "snd (tclaim c w t now lease rows) = update_where (\<lambda>x. job_id x = i) (stamp w t now lease) rows"
    by (metis tclaim_SomeE prod.collapse)
  show ?thesis unfolding eq
  proof (rule table_ok_update [OF assms])
    fix x assume x: "x \<in> set rows" "job_id x = i"
    then have "x = r" using unique_idsD [OF table_ok_unique [OF assms] x(1) r(1)] r(3) by simp
    then show "row_ok (stamp w t now lease x) \<and> (act (stamp w t now lease x) \<longrightarrow> act x)"
      using stamp_ok [OF table_ok_row [OF assms r(1)] r(2)] by simp
  qed (simp_all add: stamp keys)
qed

lemma transition_ok:
  assumes "ok rows" and "\<And>r. row_ok r \<Longrightarrow> processing r \<Longrightarrow> row_ok (f r)"
    and "\<And>r. job_id (f r) = job_id r" and "\<And>r. key (f r) = key r"
  shows "ok (snd (transition_where (owns_row processing i w t now) f rows))"
  unfolding transition_where_def snd_conv
proof (rule table_ok_update [OF assms(1) _ assms(3,4)])
  fix r assume r: "r \<in> set rows" "owns_row processing i w t now r"
  then have "processing r" by (simp add: owns_row_def)
  then show "row_ok (f r) \<and> (act (f r) \<longrightarrow> act r)"
    using assms(2) table_ok_row [OF assms(1) r(1)] processing_act by blast
qed

lemma trenew_ok: "ok rows \<Longrightarrow> ok (snd (trenew i w t now lease rows))"
  unfolding trenew_def by (rule transition_ok) (simp_all add: extend_ok extend keys)

lemma tfinish_ok: "ok rows \<Longrightarrow> ok (snd (tfinish f i w t now rows))"
  unfolding tfinish_def by (rule transition_ok) (simp_all add: settle_ok settle keys)

text \<open>
  The contract for such a table: the finishing transaction may be written with \<open>get_and_update\<close>
  as long as it agrees with \<open>tfinish\<close> on tables with unique ids.
\<close>

lemma fenced:
  assumes eq: "\<And>f i w t now rows. unique_ids rows \<Longrightarrow> finish f i w t now rows = tfinish f i w t now rows"
    and refused: "\<And>f i w t now rows. \<not> owned_in processing rows i w t now \<Longrightarrow> finish f i w t now rows = (False, rows)"
    and other: "\<And>e rows. ok rows \<Longrightarrow> ok (other e rows)"
    and other_holds: "\<And>e rows i t. ok rows \<Longrightarrow> holds_in processing (other e rows) i t \<Longrightarrow> holds_in processing rows i t"
  shows "fenced_jobs ok (holds_in processing) (owned_in processing) tclaim trenew finish other"
proof
  have fin: "ok db \<Longrightarrow> finish f i w t now db = tfinish f i w t now db" for db f i w t now
    using eq table_ok_unique by blast
  show "owned_in processing db i w t now \<Longrightarrow> holds_in processing db i t" for db i w t now
    by (rule owned_holds)
  show "ok db \<Longrightarrow> owned_in processing db i w t now \<Longrightarrow> owned_in processing db i w' t' now' \<Longrightarrow>
      w = w' \<and> t = t'" for db i w t now w' t' now'
    by (rule owned_unique [OF table_ok_unique])
  show "ok db \<Longrightarrow> ok (snd (finish f i w t now db))" for db f i w t now
    using fin tfinish_ok by simp
  show "ok db \<Longrightarrow> owned_in processing db i w t now \<Longrightarrow> fst (finish f i w t now db) \<and>
      holds_in processing (snd (finish f i w t now db)) j u = (j \<noteq> i \<and> holds_in processing db j u)"
    for db i w t now f j u
    using fin tfinish_done [OF table_ok_unique] by simp
qed (rule table_laws tclaim_ok trenew_ok refused other other_holds;
    (assumption | rule table_ok_unique, assumption))+

end

end
