(* ===== verification/Cagg_Refresh.thy ===== *)
theory Cagg_Refresh
  imports Job_Lease
begin

text \<open>
  \<open>app/services/cagg_refresh.py\<close>: the durable jobs that refresh the Timescale continuous
  aggregates.  The job table is a list of \<open>cagg_job\<close> rows.  Bucket alignment and window
  subtraction are pure functions; every transaction is a function on the table; the worker
  flow \<open>process_pending_jobs\<close> threads a \<open>cagg_run\<close>.  The stored procedure
  \<open>refresh_continuous_aggregate\<close> belongs to TimescaleDB: its outcome is the field \<open>procedure\<close>
  of the environment, and the calls made to it are recorded in order.
\<close>

section \<open>The job table\<close>

datatype refresh_status = R_PENDING | R_PROCESSING | R_COMPLETED | R_FAILED

record cagg_job = lease_cols +
  window_start :: usec
  window_end :: usec
  cagg_status :: refresh_status
  cagg_retry_count :: int
  cagg_max_retries :: int

definition cagg_names :: "string list" where
  "cagg_names = [''candles_5m'', ''candles_15m'', ''candles_1h'', ''candles_4h'', ''candles_1d'']"

definition cagg_processing :: "cagg_job \<Rightarrow> bool" where
  "cagg_processing r \<longleftrightarrow> cagg_status r = R_PROCESSING"

definition cagg_active :: "cagg_job \<Rightarrow> bool" where
  "cagg_active r \<longleftrightarrow> cagg_status r \<in> {R_PENDING, R_PROCESSING}"

definition cagg_window :: "cagg_job \<Rightarrow> ivl" where
  "cagg_window r = (window_start r, window_end r)"

definition cagg_retry_delay :: "int \<Rightarrow> int" where
  "cagg_retry_delay retry_count = backoff_us retry_count"

section \<open>Bucket alignment\<close>

definition replace_minute :: "int \<Rightarrow> int \<Rightarrow> int" where
  "replace_minute t m = t div hour_us * hour_us + m * minute_us"

definition replace_hour :: "int \<Rightarrow> int \<Rightarrow> int" where
  "replace_hour t h = t div day_us * day_us + h * hour_us"

definition dt_minute :: "int \<Rightarrow> int" where
  "dt_minute t = t div minute_us mod 60"

definition dt_hour :: "int \<Rightarrow> int" where
  "dt_hour t = t div hour_us mod 24"

definition align_with :: "(int \<Rightarrow> int) \<Rightarrow> int \<Rightarrow> int \<Rightarrow> int \<Rightarrow> int \<times> int" where
  "align_with fl step s e =
     (let aligned_start = fl s; aligned_end = fl e
      in (aligned_start, if aligned_end < e then aligned_end + step else aligned_end))"

definition compute_cagg_bucket_alignment ::
  "pydatetime \<Rightarrow> pydatetime \<Rightarrow> string option \<Rightarrow> bool \<Rightarrow> py_exn + (int \<times> int)" where
  "compute_cagg_bucket_alignment start_time end_time timeframe end_inclusive =
     (let s = utc start_time; e = utc end_time in
      if end_inclusive \<and> s > e then Inl (ValueError ''inclusive CAGG refresh window must have start_time <= end_time'')
      else if \<not> end_inclusive \<and> s \<ge> e then Inl (ValueError ''CAGG refresh window must have start_time < end_time'')
      else
        let e' = (if end_inclusive then e + 1 else e) in
        Inr (if timeframe = Some ''5m'' then align_with (\<lambda>t. replace_minute t (dt_minute t div 5 * 5)) (5 * minute_us) s e'
             else if timeframe = Some ''15m'' then align_with (\<lambda>t. replace_minute t (dt_minute t div 15 * 15)) (15 * minute_us) s e'
             else if timeframe = Some ''1h'' then align_with (\<lambda>t. replace_minute t 0) hour_us s e'
             else if timeframe = Some ''4h'' then align_with (\<lambda>t. replace_hour t (dt_hour t div 4 * 4)) (4 * hour_us) s e'
             else align_with (\<lambda>t. replace_hour t 0) day_us s e'))"

text \<open>The width of the bucket each timeframe aligns to.\<close>

definition bucket_us :: "string option \<Rightarrow> int" where
  "bucket_us timeframe =
     (if timeframe = Some ''5m'' then 5 * minute_us
      else if timeframe = Some ''15m'' then 15 * minute_us
      else if timeframe = Some ''1h'' then hour_us
      else if timeframe = Some ''4h'' then 4 * hour_us
      else day_us)"

section \<open>Scheduling\<close>

definition cagg_uncovered_intervals :: "int \<Rightarrow> int \<Rightarrow> cagg_job list \<Rightarrow> ivl list" where
  "cagg_uncovered_intervals start end existing = holes start end (map cagg_window existing)"

definition new_cagg_job :: "int \<Rightarrow> usec \<Rightarrow> ivl \<Rightarrow> cagg_job" where
  "new_cagg_job i now w =
     \<lparr>job_id = i, worker_id = None, lease_token = None, claimed_at = None, lease_expires_at = None,
      next_attempt_at = None, error_message = None, error_category = None, created_at = now,
      window_start = fst w, window_end = snd w, cagg_status = R_PENDING,
      cagg_retry_count = 0, cagg_max_retries = 5\<rparr>"

definition insert_cagg_jobs :: "usec \<Rightarrow> ivl list \<Rightarrow> cagg_job list \<Rightarrow> cagg_job list" where
  "insert_cagg_jobs now = insert_rows (\<lambda>i. new_cagg_job i now)"

definition active_overlaps :: "int \<Rightarrow> int \<Rightarrow> cagg_job list \<Rightarrow> cagg_job list" where
  "active_overlaps a b rows =
     sort_key (\<lambda>r. (window_start r, job_id r))
       (filter (\<lambda>r. cagg_active r \<and> window_start r < b \<and> window_end r > a) rows)"

definition schedule_cagg_refresh_jobs ::
  "usec \<Rightarrow> pydatetime \<Rightarrow> pydatetime \<Rightarrow> string option \<Rightarrow> bool \<Rightarrow> cagg_job list \<Rightarrow>
   py_exn + (cagg_job list \<times> cagg_job list)" where
  "schedule_cagg_refresh_jobs now start_time end_time timeframe end_inclusive rows =
     (case compute_cagg_bucket_alignment start_time end_time timeframe end_inclusive of
        Inl err \<Rightarrow> Inl err
      | Inr (a, b) \<Rightarrow>
          let active = active_overlaps a b rows;
              rows' = insert_cagg_jobs now (cagg_uncovered_intervals a b active) rows;
              created = drop (length rows) rows'
          in Inr (if created \<noteq> [] then created else take 1 active, rows'))"

definition schedule_cagg_refresh_job ::
  "usec \<Rightarrow> pydatetime \<Rightarrow> pydatetime \<Rightarrow> string option \<Rightarrow> bool \<Rightarrow> cagg_job list \<Rightarrow>
   py_exn + (cagg_job \<times> cagg_job list)" where
  "schedule_cagg_refresh_job now start_time end_time timeframe end_inclusive rows =
     (case schedule_cagg_refresh_jobs now start_time end_time timeframe end_inclusive rows of
        Inl err \<Rightarrow> Inl err
      | Inr (jobs, rows') \<Rightarrow>
          (case jobs of
             [] \<Rightarrow> Inl (RuntimeError ''CAGG scheduler did not produce a job'')
           | job # _ \<Rightarrow> Inr (job, rows')))"

section \<open>Claims\<close>

definition cagg_eligible :: "claim_config \<Rightarrow> usec \<Rightarrow> cagg_job \<Rightarrow> bool" where
  "cagg_eligible cfg now r \<longleftrightarrow>
     \<not> snd cfg (job_id r) \<and>
     (cagg_status r = R_PENDING \<and>
        (fst cfg \<longrightarrow> next_attempt_at r = None \<or> sql_le (next_attempt_at r) now) \<or>
      cagg_status r = R_PROCESSING \<and> sql_lt (lease_expires_at r) now)"

definition cagg_stamp :: "string \<Rightarrow> string \<Rightarrow> usec \<Rightarrow> usec \<Rightarrow> cagg_job \<Rightarrow> cagg_job" where
  "cagg_stamp w t now lease r =
     r\<lparr>cagg_status := R_PROCESSING, worker_id := Some w, lease_token := Some t,
       claimed_at := Some now, lease_expires_at := Some (now + lease), next_attempt_at := None\<rparr>"

definition claim_next_job ::
  "claim_config \<Rightarrow> string \<Rightarrow> string \<Rightarrow> usec \<Rightarrow> usec \<Rightarrow> cagg_job list \<Rightarrow> cagg_job option \<times> cagg_job list" where
  "claim_next_job cfg w t now lease rows =
     claim_where (cagg_eligible cfg now) (cagg_stamp w t now lease) rows"

definition cagg_assert_lease_owned :: "int \<Rightarrow> string \<Rightarrow> string \<Rightarrow> usec \<Rightarrow> cagg_job list \<Rightarrow> py_exn + unit" where
  "cagg_assert_lease_owned i w t now rows =
     (if owned_in cagg_processing rows i w t now then Inr () else Inl LeaseLostError)"

definition cagg_extend :: "usec \<Rightarrow> usec \<Rightarrow> cagg_job \<Rightarrow> cagg_job" where
  "cagg_extend now lease r = r\<lparr>lease_expires_at := Some (now + lease)\<rparr>"

text \<open>The heartbeat's update; the token is compared only when the caller passes one.\<close>

definition cagg_heartbeat :: "int \<Rightarrow> string \<Rightarrow> string option \<Rightarrow> usec \<Rightarrow> usec \<Rightarrow> cagg_job list \<Rightarrow> bool \<times> cagg_job list" where
  "cagg_heartbeat i w token now lease rows =
     transition_where
       (\<lambda>r. job_id r = i \<and> cagg_status r = R_PROCESSING \<and> worker_id r = Some w \<and>
            sql_gt (lease_expires_at r) now \<and>
            (case token of None \<Rightarrow> True | Some t \<Rightarrow> lease_token r = Some t))
       (cagg_extend now lease) rows"

definition cagg_heartbeat_loop ::
  "int \<Rightarrow> string \<Rightarrow> string option \<Rightarrow> usec \<Rightarrow> cagg_job list hb_event list \<Rightarrow> cagg_job list \<Rightarrow> bool \<times> cagg_job list" where
  "cagg_heartbeat_loop i w token lease = heartbeat_loop (\<lambda>now. cagg_heartbeat i w token now lease)"

definition cagg_complete_row :: "cagg_job \<Rightarrow> cagg_job" where
  "cagg_complete_row r =
     r\<lparr>cagg_status := R_COMPLETED, error_message := None, error_category := None,
       lease_expires_at := None, lease_token := None, next_attempt_at := None\<rparr>"

definition cagg_complete_if_owned :: "int \<Rightarrow> string \<Rightarrow> string \<Rightarrow> usec \<Rightarrow> cagg_job list \<Rightarrow> bool \<times> cagg_job list" where
  "cagg_complete_if_owned i w t now rows =
     transition_where (owns_row cagg_processing i w t now) cagg_complete_row rows"

definition cagg_fail_row :: "py_exn \<Rightarrow> string \<Rightarrow> usec \<Rightarrow> cagg_job \<Rightarrow> cagg_job" where
  "cagg_fail_row err msg now r =
     (let r' = r\<lparr>cagg_retry_count := cagg_retry_count r + 1, error_message := Some msg,
                 error_category := Some (exn_type_name err), lease_expires_at := None,
                 lease_token := None, claimed_at := None, worker_id := None\<rparr>
      in if cagg_retry_count r' \<le> cagg_max_retries r'
         then r'\<lparr>cagg_status := R_PENDING,
                 next_attempt_at := Some (now + cagg_retry_delay (cagg_retry_count r'))\<rparr>
         else r'\<lparr>cagg_status := R_FAILED, next_attempt_at := None\<rparr>)"

definition cagg_record_failure_if_owned ::
  "int \<Rightarrow> string \<Rightarrow> string \<Rightarrow> py_exn \<Rightarrow> string \<Rightarrow> usec \<Rightarrow> cagg_job list \<Rightarrow> bool \<times> cagg_job list" where
  "cagg_record_failure_if_owned i w t err msg now rows =
     get_and_update cagg_processing i w t now (cagg_fail_row err msg now) rows"

section \<open>The worker flow\<close>

record cagg_call =
  call_name :: string
  call_start :: usec
  call_end :: usec
  call_now :: usec                \<comment> \<open>clock of the ownership check before the call\<close>
  call_db :: "cagg_job list"      \<comment> \<open>the table that check read\<close>

record cagg_env = "cagg_job list worker_env" +
  procedure :: "nat \<Rightarrow> py_exn option"   \<comment> \<open>how the \<open>n\<close>-th call ends\<close>
  saw_lost :: "nat \<Rightarrow> bool"            \<comment> \<open>\<open>lost_task in done\<close> when the wait returns\<close>

record cagg_run = "cagg_job list worker_run" +
  calls :: "cagg_call list"

definition refresh_one ::
  "cagg_env \<Rightarrow> string \<Rightarrow> usec \<Rightarrow> usec \<Rightarrow> int \<Rightarrow> string \<Rightarrow> string \<Rightarrow> cagg_run \<Rightarrow> (py_exn + unit) \<times> cagg_run" where
  "refresh_one env name ws we i w t s =
     (if run_lost env s then (Inl LeaseLostError, s)
      else
        let s1 = pause env s in
        case cagg_assert_lease_owned i w t (run_now env s) (run_db s1) of
          Inl err \<Rightarrow> (Inl err, s1)
        | Inr _ \<Rightarrow>
            if name \<notin> set cagg_names then (Inl (ValueError ''Unknown continuous aggregate''), s1)
            else
              let call = \<lparr>call_name = name, call_start = ws, call_end = we,
                          call_now = run_now env s, call_db = run_db s1\<rparr>;
                  result = procedure env (length (calls s1));
                  s2 = pause env (s1\<lparr>calls := calls s1 @ [call]\<rparr>)
              in (case result of
                    Some err \<Rightarrow> (Inl err, s2)
                  | None \<Rightarrow> if saw_lost env (run_tick s2) \<and> run_lost env s2 then (Inl LeaseLostError, s2) else (Inr (), s2)))"

fun refresh_all ::
  "cagg_env \<Rightarrow> string list \<Rightarrow> usec \<Rightarrow> usec \<Rightarrow> int \<Rightarrow> string \<Rightarrow> string \<Rightarrow> cagg_run \<Rightarrow> (py_exn + unit) \<times> cagg_run" where
  "refresh_all env [] ws we i w t s = (Inr (), s)"
| "refresh_all env (n # ns) ws we i w t s =
     (case refresh_one env n ws we i w t s of
        (Inl err, s') \<Rightarrow> (Inl err, s')
      | (Inr _, s') \<Rightarrow> refresh_all env ns ws we i w t s')"

text \<open>The \<open>try\<close> body of \<open>process_pending_jobs\<close>.\<close>

definition execute_claimed_job ::
  "cagg_env \<Rightarrow> cagg_job \<Rightarrow> string \<Rightarrow> string \<Rightarrow> cagg_run \<Rightarrow> (py_exn + unit) \<times> cagg_run" where
  "execute_claimed_job env job w t s =
     (case refresh_all env cagg_names (window_start job) (window_end job) (job_id job) w t s of
        (Inl err, s1) \<Rightarrow> (Inl err, s1)
      | (Inr _, s1) \<Rightarrow>
          if run_lost env s1 then (Inl LeaseLostError, s1)
          else
            let s2 = pause env s1;
                (ok, db) = cagg_complete_if_owned (job_id job) w t (run_now env s1) (run_db s2)
            in (if ok then Inr () else Inl LeaseLostError, s2\<lparr>run_db := db\<rparr>))"

definition process_pending_jobs ::
  "cagg_env \<Rightarrow> claim_config \<Rightarrow> bool \<Rightarrow> usec \<Rightarrow> string \<Rightarrow> string \<Rightarrow> cagg_run \<Rightarrow> (py_exn + bool) \<times> cagg_run" where
  "process_pending_jobs env cfg raise_on_attempt_error lease w t s =
     (if lease \<le> 0 then (Inl (ValueError ''lease_duration must be positive''), s)
      else
        let s1 = pause env s in
        case claim_next_job cfg w t (run_now env s) lease (run_db s1) of
          (None, _) \<Rightarrow> (Inr False, s1)
        | (Some job, db) \<Rightarrow>
            (case execute_claimed_job env job w t (s1\<lparr>run_db := db\<rparr>) of
               (Inr _, s2) \<Rightarrow> (Inr True, s2)
             | (Inl err, s2) \<Rightarrow>
                 if err = LeaseLostError then (Inr True, s2)
                 else
                   let s3 = pause env s2;
                       s4 = s3\<lparr>run_db := snd (cagg_record_failure_if_owned (job_id job) w t err
                                 (format_error env err) (run_now env s2) (run_db s3))\<rparr>
                   in (if raise_on_attempt_error then Inl err else Inr True, s4)))"

text \<open>\<open>app/workers/cagg_refresh.py\<close>: at most \<open>max_jobs\<close> claims, stopping at an idle queue.\<close>

fun run_cagg_refresh_loop ::
  "nat \<Rightarrow> cagg_env \<Rightarrow> (nat \<Rightarrow> string \<times> string) \<Rightarrow> (int \<Rightarrow> bool) \<Rightarrow> nat \<Rightarrow> cagg_run \<Rightarrow> (py_exn + nat) \<times> cagg_run" where
  "run_cagg_refresh_loop 0 env ids locked processed s = (Inr processed, s)"
| "run_cagg_refresh_loop (Suc n) env ids locked processed s =
     (case process_pending_jobs env (True, locked) False (5 * minute_us)
             (fst (ids processed)) (snd (ids processed)) s of
        (Inl err, s') \<Rightarrow> (Inl err, s')
      | (Inr claimed, s') \<Rightarrow>
          if claimed then run_cagg_refresh_loop n env ids locked (processed + 1) s'
          else (Inr processed, s'))"

definition run_cagg_refresh ::
  "cagg_env \<Rightarrow> (nat \<Rightarrow> string \<times> string) \<Rightarrow> (int \<Rightarrow> bool) \<Rightarrow> int \<Rightarrow> cagg_run \<Rightarrow> (py_exn + nat) \<times> cagg_run" where
  "run_cagg_refresh env ids locked max_jobs s =
     (if max_jobs \<le> 0 then (Inl (ValueError ''max_jobs must be positive''), s)
      else run_cagg_refresh_loop (nat max_jobs) env ids locked 0 s)"

section \<open>Alignment is the smallest enclosing bucket range\<close>

lemma floor_field:
  fixes t u k j :: int
  assumes "0 < u" "0 < k" "0 < j"
  shows "t div (u * (k * j)) * (u * (k * j)) + t div u mod (k * j) div k * k * u = t div (u * k) * (u * k)"
proof -
  let ?m = "t div u"
  have "t div (u * (k * j)) = ?m div k div j" and "t div (u * k) = ?m div k"
    using assms by (simp_all add: zdiv_zmult2_eq)
  moreover have "?m mod (k * j) div k = ?m div k mod j"
    using assms by (simp add: zmod_zmult2_eq)
  moreover have "d * (u * (k * j)) + r * k * u = (d * j + r) * (u * k)" for d r
    by (simp add: algebra_simps)
  ultimately show ?thesis by (simp only: div_mult_mod_eq)
qed

lemma replace_floor:
  "replace_minute t (dt_minute t div 5 * 5) = t div (5 * minute_us) * (5 * minute_us)"
  "replace_minute t (dt_minute t div 15 * 15) = t div (15 * minute_us) * (15 * minute_us)"
  "replace_minute t 0 = t div hour_us * hour_us"
  "replace_hour t (dt_hour t div 4 * 4) = t div (4 * hour_us) * (4 * hour_us)"
  "replace_hour t 0 = t div day_us * day_us"
proof -
  have m: "replace_minute t (dt_minute t div k * k) =
      t div (minute_us * (k * j)) * (minute_us * (k * j)) + t div minute_us mod (k * j) div k * k * minute_us"
    if "k * j = 60" for k j
    unfolding that replace_minute_def dt_minute_def by simp
  have h: "replace_hour t (dt_hour t div k * k) =
      t div (hour_us * (k * j)) * (hour_us * (k * j)) + t div hour_us mod (k * j) div k * k * hour_us"
    if "k * j = 24" for k j
    unfolding that replace_hour_def dt_hour_def by simp
  show "replace_minute t (dt_minute t div 5 * 5) = t div (5 * minute_us) * (5 * minute_us)"
    unfolding m [of 5 12, simplified] using floor_field [of minute_us 5 12 t] by simp
  show "replace_minute t (dt_minute t div 15 * 15) = t div (15 * minute_us) * (15 * minute_us)"
    unfolding m [of 15 4, simplified] using floor_field [of minute_us 15 4 t] by simp
  show "replace_hour t (dt_hour t div 4 * 4) = t div (4 * hour_us) * (4 * hour_us)"
    unfolding h [of 4 6, simplified] using floor_field [of hour_us 4 6 t] by simp
qed (simp_all add: replace_minute_def replace_hour_def)

lemma align_with_floor:
  assumes "\<And>t. fl t = t div b * b" and "0 < b" and "s < e"
  shows "case align_with fl b s e of (x, y) \<Rightarrow>
     b dvd x \<and> b dvd y \<and> x \<le> s \<and> s < x + b \<and> e \<le> y \<and> y < e + b"
proof -
  have floor: "t div b * b \<le> t" "t < t div b * b + b" for t :: int
    using assms(2) div_mult_mod_eq [of t b] pos_mod_sign [of b t] pos_mod_bound [of b t]
    by linarith+
  have "e div b * b = e \<Longrightarrow> b dvd e" by (metis dvd_triv_right)
  then show ?thesis
    using assms(2,3) floor [of s] floor [of e] by (auto simp: align_with_def assms(1) Let_def)
qed

lemma bucket_us_pos: "0 < bucket_us tf"
  by (simp add: bucket_us_def)

lemma alignment_align_with:
  obtains fl where "\<And>t. fl t = t div bucket_us tf * bucket_us tf"
    and "\<And>s e incl. compute_cagg_bucket_alignment s e tf incl =
       (if incl \<and> utc s > utc e then Inl (ValueError ''inclusive CAGG refresh window must have start_time <= end_time'')
        else if \<not> incl \<and> utc s \<ge> utc e then Inl (ValueError ''CAGG refresh window must have start_time < end_time'')
        else Inr (align_with fl (bucket_us tf) (utc s) (utc e + (if incl then 1 else 0))))"
proof -
  let ?fl = "\<lambda>t. if tf = Some ''5m'' then replace_minute t (dt_minute t div 5 * 5)
     else if tf = Some ''15m'' then replace_minute t (dt_minute t div 15 * 15)
     else if tf = Some ''1h'' then replace_minute t 0
     else if tf = Some ''4h'' then replace_hour t (dt_hour t div 4 * 4) else replace_hour t 0"
  show thesis
  proof (rule that [of ?fl])
    show "?fl t = t div bucket_us tf * bucket_us tf" for t
      by (simp add: bucket_us_def replace_floor)
  qed (simp add: compute_cagg_bucket_alignment_def bucket_us_def Let_def)
qed

lemma alignment_Inr:
  assumes "compute_cagg_bucket_alignment s e tf incl = Inr (a, b)"
  shows "utc s < utc e + (if incl then 1 else 0)"
    and "bucket_us tf dvd a" and "bucket_us tf dvd b"
    and "a \<le> utc s" and "utc s < a + bucket_us tf"
    and "utc e + (if incl then 1 else 0) \<le> b"
    and "b < utc e + (if incl then 1 else 0) + bucket_us tf"
proof -
  obtain fl where fl: "\<And>t. fl t = t div bucket_us tf * bucket_us tf"
    and eq: "\<And>s e incl. compute_cagg_bucket_alignment s e tf incl =
       (if incl \<and> utc s > utc e then Inl (ValueError ''inclusive CAGG refresh window must have start_time <= end_time'')
        else if \<not> incl \<and> utc s \<ge> utc e then Inl (ValueError ''CAGG refresh window must have start_time < end_time'')
        else Inr (align_with fl (bucket_us tf) (utc s) (utc e + (if incl then 1 else 0))))"
    by (rule alignment_align_with [of tf]) blast
  have lt: "utc s < utc e + (if incl then 1 else 0)"
    and ab: "align_with fl (bucket_us tf) (utc s) (utc e + (if incl then 1 else 0)) = (a, b)"
    using assms by (auto simp: eq split: if_splits)
  show "utc s < utc e + (if incl then 1 else 0)" by (rule lt)
  show "bucket_us tf dvd a" "bucket_us tf dvd b" "a \<le> utc s" "utc s < a + bucket_us tf"
    "utc e + (if incl then 1 else 0) \<le> b" "b < utc e + (if incl then 1 else 0) + bucket_us tf"
    using align_with_floor [OF fl bucket_us_pos lt] by (simp_all only: ab prod.case)
qed

lemma alignment_nonempty:
  "compute_cagg_bucket_alignment s e tf incl = Inr (a, b) \<Longrightarrow> a < b"
  using alignment_Inr(1,4,6) by (meson le_less_trans less_le_trans)

text \<open>
  Bucket alignment.  \<open>compute_cagg_bucket_alignment\<close> rejects exactly the empty windows
  (for an inclusive window: start after end), and otherwise returns whole buckets of the
  timeframe (\<open>None\<close> and every unknown name mean one day) that contain the requested window
  and exceed it by less than one bucket on either side.  With \<open>end_inclusive\<close> the bucket that
  begins at the end time is part of the result.
\<close>

theorem cagg_alignment_correct:
  "case compute_cagg_bucket_alignment s e tf incl of
     Inl err \<Rightarrow> utc e + (if incl then 1 else 0) \<le> utc s
   | Inr (a, b) \<Rightarrow>
       utc s < utc e + (if incl then 1 else 0) \<and>
       bucket_us tf dvd a \<and> bucket_us tf dvd b \<and>
       a \<le> utc s \<and> utc s < a + bucket_us tf \<and>
       utc e + (if incl then 1 else 0) \<le> b \<and> b < utc e + (if incl then 1 else 0) + bucket_us tf"
proof (cases "compute_cagg_bucket_alignment s e tf incl")
  case (Inl err)
  then show ?thesis by (auto simp: compute_cagg_bucket_alignment_def Let_def split: if_splits)
next
  case (Inr p)
  then show ?thesis using alignment_Inr [of s e tf incl] by (cases p) (simp only: sum.case prod.case)
qed

section \<open>Scheduling\<close>

lemma new_cagg_job_simps [simp]:
  "job_id (new_cagg_job i now w) = i" "cagg_window (new_cagg_job i now w) = w"
  "cagg_active (new_cagg_job i now w)"
  by (simp_all add: new_cagg_job_def cagg_window_def cagg_active_def)

lemma insert_cagg_jobs_append:
  "\<exists>new. insert_cagg_jobs now ws rows = rows @ new \<and> map cagg_window new = ws \<and>
     (\<forall>r \<in> set new. r = new_cagg_job (job_id r) now (cagg_window r))"
  unfolding insert_cagg_jobs_def by (rule insert_rows_append) simp_all

lemma insert_cagg_jobs_unique: "unique_ids rows \<Longrightarrow> unique_ids (insert_cagg_jobs now ws rows)"
  unfolding insert_cagg_jobs_def by (rule insert_rows_unique) simp_all

lemma set_active_overlaps:
  "set (active_overlaps a b rows) = {r \<in> set rows. cagg_active r \<and> window_start r < b \<and> window_end r > a}"
  by (auto simp: active_overlaps_def)

text \<open>The windows the scheduler adds, relative to all active rows and not only the scanned ones.\<close>

abbreviation new_windows :: "int \<Rightarrow> int \<Rightarrow> cagg_job list \<Rightarrow> ivl list" where
  "new_windows a b rows \<equiv> cagg_uncovered_intervals a b (active_overlaps a b rows)"

lemma new_windows_bounds:
  "a < b \<Longrightarrow> q \<in> set (new_windows a b rows) \<Longrightarrow> a \<le> fst q \<and> fst q < snd q \<and> snd q \<le> b"
  unfolding cagg_uncovered_intervals_def by (cases q) (auto dest: holes_bounds)

lemma new_windows_disjoint:
  assumes "a < b" and q: "q \<in> set (new_windows a b rows)" and r: "r \<in> set rows" "cagg_active r"
  shows "ivl_disjoint q (cagg_window r)"
proof (cases "r \<in> set (active_overlaps a b rows)")
  case True
  then show ?thesis
    using holes_disjoint [OF assms(1)] q by (simp add: cagg_uncovered_intervals_def)
next
  case False
  then show ?thesis
    using r new_windows_bounds [OF assms(1) q]
    by (auto simp: set_active_overlaps cagg_window_def ivl_disjoint_def)
qed

lemma new_windows_cover:
  assumes "a \<le> x" and "x < b"
  shows "(\<exists>r \<in> set rows. cagg_active r \<and> ivl_mem x (cagg_window r)) \<or>
    (\<exists>q \<in> set (new_windows a b rows). ivl_mem x q)"
  using holes_cover [OF assms, of "map cagg_window (active_overlaps a b rows)"]
  by (auto simp: cagg_uncovered_intervals_def set_active_overlaps)

lemma schedule_jobs_Inr:
  assumes "schedule_cagg_refresh_jobs now s e tf incl rows = Inr (jobs, rows')"
  obtains a b new where
    "compute_cagg_bucket_alignment s e tf incl = Inr (a, b)" "a < b"
    "rows' = rows @ new" "map cagg_window new = new_windows a b rows"
    "\<forall>r \<in> set new. r = new_cagg_job (job_id r) now (cagg_window r)"
    "jobs = (if new \<noteq> [] then new else take 1 (active_overlaps a b rows))"
    "rows' = insert_cagg_jobs now (new_windows a b rows) rows"
proof -
  obtain a b where ab: "compute_cagg_bucket_alignment s e tf incl = Inr (a, b)"
    using assms by (auto simp: schedule_cagg_refresh_jobs_def split: sum.splits)
  obtain new where new: "insert_cagg_jobs now (new_windows a b rows) rows = rows @ new"
    "map cagg_window new = new_windows a b rows"
    "\<forall>r \<in> set new. r = new_cagg_job (job_id r) now (cagg_window r)"
    using insert_cagg_jobs_append by blast
  have "rows' = rows @ new" and "jobs = (if new \<noteq> [] then new else take 1 (active_overlaps a b rows))"
    using assms by (auto simp: schedule_cagg_refresh_jobs_def Let_def ab new(1) split: if_splits)
  then show thesis
    by (intro that [OF ab alignment_nonempty [OF ab] _ new(2,3)]) (simp_all add: new(1))
qed

section \<open>The table invariant\<close>

text \<open>
  What the \<open>CHECK\<close> constraints, the exclusion constraint on active windows and the claim
  protocol together guarantee of the table.
\<close>

definition cagg_row_ok :: "cagg_job \<Rightarrow> bool" where
  "cagg_row_ok r \<longleftrightarrow>
     window_start r < window_end r \<and> 0 \<le> cagg_retry_count r \<and> 0 \<le> cagg_max_retries r \<and>
     (if cagg_status r = R_FAILED then cagg_retry_count r = cagg_max_retries r + 1
      else cagg_retry_count r \<le> cagg_max_retries r) \<and>
     (cagg_status r = R_PROCESSING \<longleftrightarrow> lease_token r \<noteq> None) \<and>
     (lease_token r \<noteq> None \<longleftrightarrow> lease_expires_at r \<noteq> None) \<and>
     (cagg_status r = R_PROCESSING \<longrightarrow> worker_id r \<noteq> None \<and> claimed_at r \<noteq> None)"

abbreviation cagg_table_ok :: "cagg_job list \<Rightarrow> bool" where
  "cagg_table_ok \<equiv> table_ok cagg_active cagg_window ivl_disjoint cagg_row_ok"

lemma cagg_row_stamp: "cagg_row_ok r \<Longrightarrow> cagg_status r \<noteq> R_FAILED \<Longrightarrow> cagg_row_ok (cagg_stamp w t now lease r)"
  by (auto simp: cagg_row_ok_def cagg_stamp_def)

lemma cagg_row_renew:
  "cagg_row_ok r \<Longrightarrow> cagg_status r = R_PROCESSING \<Longrightarrow> cagg_row_ok (r\<lparr>lease_expires_at := Some v\<rparr>)"
  by (auto simp: cagg_row_ok_def)

lemma cagg_row_complete:
  "cagg_row_ok r \<Longrightarrow> cagg_status r = R_PROCESSING \<Longrightarrow> cagg_row_ok (cagg_complete_row r)"
  by (auto simp: cagg_row_ok_def cagg_complete_row_def)

lemma cagg_row_fail:
  "cagg_row_ok r \<Longrightarrow> cagg_status r = R_PROCESSING \<Longrightarrow> cagg_row_ok (cagg_fail_row err msg now r)"
  by (auto simp: cagg_row_ok_def cagg_fail_row_def Let_def)

lemma cagg_table_schedule:
  assumes ok: "cagg_table_ok rows"
    and sch: "schedule_cagg_refresh_jobs now s e tf incl rows = Inr (jobs, rows')"
  shows "cagg_table_ok rows'"
proof -
  obtain a b new where ab: "a < b" and rows': "rows' = rows @ new"
    and win: "map cagg_window new = new_windows a b rows"
    and new: "\<forall>r \<in> set new. r = new_cagg_job (job_id r) now (cagg_window r)"
    and ins: "rows' = insert_cagg_jobs now (new_windows a b rows) rows"
    using sch by (rule schedule_jobs_Inr)
  have act: "cagg_active r \<and> cagg_window r \<in> set (new_windows a b rows)" if "r \<in> set new" for r
  proof -
    have "cagg_active (new_cagg_job (job_id r) now (cagg_window r))" by simp
    then have "cagg_active r" using new that by metis
    then show ?thesis using that by (metis win image_eqI set_map)
  qed
  have "cagg_row_ok r" if "r \<in> set new" for r
  proof -
    have "fst (cagg_window r) < snd (cagg_window r)"
      using act [OF that] new_windows_bounds [OF ab] by blast
    then have "cagg_row_ok (new_cagg_job (job_id r) now (cagg_window r))"
      by (simp add: cagg_row_ok_def new_cagg_job_def)
    then show ?thesis using new that by metis
  qed
  then have row_ok: "list_all cagg_row_ok new" by (simp add: list_all_iff)
  have "\<forall>p \<in> set (map cagg_window (active_overlaps a b rows)). fst p < snd p"
    using table_ok_row [OF ok] by (auto simp: set_active_overlaps cagg_row_ok_def cagg_window_def)
  then have "sorted_wrt ivl_disjoint (new_windows a b rows)"
    unfolding cagg_uncovered_intervals_def by (intro sorted_wrt_disjoint holes_sorted [OF ab])
  moreover have "filter cagg_active new = new" using act by simp
  ultimately have new_disj: "sorted_wrt ivl_disjoint (map cagg_window (filter cagg_active new))"
    by (simp only: win)
  have "ivl_disjoint (cagg_window r) (cagg_window q)"
    if "r \<in> set rows" "cagg_active r" "q \<in> set new" for r q
    using new_windows_disjoint [OF ab _ that(1,2)] act [OF that(3)] ivl_disjoint_sym by blast
  moreover have "unique_ids (rows @ new)"
    using insert_cagg_jobs_unique [OF table_ok_unique [OF ok]] ins rows' by simp
  ultimately show ?thesis unfolding rows' by (intro table_ok_append [OF ok _ row_ok new_disj])
qed

section \<open>Interpretation of the job contract\<close>

datatype cagg_end =
    CaggComplete
  | CaggFail py_exn string

fun cagg_settle :: "cagg_end \<Rightarrow> usec \<Rightarrow> cagg_job \<Rightarrow> cagg_job" where
  "cagg_settle CaggComplete now r = cagg_complete_row r"
| "cagg_settle (CaggFail err msg) now r = cagg_fail_row err msg now r"

fun cagg_finish :: "cagg_end \<Rightarrow> int \<Rightarrow> string \<Rightarrow> string \<Rightarrow> usec \<Rightarrow> cagg_job list \<Rightarrow> bool \<times> cagg_job list" where
  "cagg_finish CaggComplete i w t now rows = cagg_complete_if_owned i w t now rows"
| "cagg_finish (CaggFail err msg) i w t now rows = cagg_record_failure_if_owned i w t err msg now rows"

definition cagg_claim :: "claim_config \<Rightarrow> string \<Rightarrow> string \<Rightarrow> usec \<Rightarrow> usec \<Rightarrow> cagg_job list \<Rightarrow> int option \<times> cagg_job list" where
  "cagg_claim cfg w t now lease rows =
     (case claim_next_job cfg w t now lease rows of (res, rows') \<Rightarrow> (map_option job_id res, rows'))"

definition cagg_renew :: "int \<Rightarrow> string \<Rightarrow> string \<Rightarrow> usec \<Rightarrow> usec \<Rightarrow> cagg_job list \<Rightarrow> bool \<times> cagg_job list" where
  "cagg_renew i w t now lease rows = cagg_heartbeat i w (Some t) now lease rows"

type_synonym cagg_request = "usec \<times> pydatetime \<times> pydatetime \<times> string option \<times> bool"

text \<open>A scheduling transaction; one that raises is rolled back.\<close>

fun cagg_schedule :: "cagg_request \<Rightarrow> cagg_job list \<Rightarrow> cagg_job list" where
  "cagg_schedule (now, s, e, tf, incl) rows =
     (case schedule_cagg_refresh_job now s e tf incl rows of
        Inl _ \<Rightarrow> rows
      | Inr (_, rows') \<Rightarrow> rows')"

interpretation ct: guarded_table cagg_processing cagg_eligible cagg_stamp cagg_extend cagg_settle
  cagg_active cagg_window ivl_disjoint cagg_row_ok
proof
  fix c :: claim_config and now and r :: cagg_job and i w t
  assume "cagg_eligible c now r"
  then show "\<not> owns_row cagg_processing i w t now r"
    by (auto simp: cagg_eligible_def owns_row_def cagg_processing_def dest: sql_gt_not_lt)
next
  fix f now and r :: cagg_job
  show "job_id (cagg_settle f now r) = job_id r"
    by (cases f) (simp_all add: cagg_complete_row_def cagg_fail_row_def Let_def)
  show "\<not> cagg_processing (cagg_settle f now r)"
    by (cases f) (simp_all add: cagg_complete_row_def cagg_fail_row_def cagg_processing_def Let_def)
  show "cagg_window (cagg_settle f now r) = cagg_window r"
    by (cases f) (simp_all add: cagg_complete_row_def cagg_fail_row_def cagg_window_def Let_def)
  show "cagg_row_ok (cagg_settle f now r)" if "cagg_row_ok r" "cagg_processing r"
    using that cagg_row_complete cagg_row_fail by (cases f) (simp_all add: cagg_processing_def)
next
  fix r :: cagg_job and c now w t lease
  assume "cagg_row_ok r" and e: "cagg_eligible c now r"
  moreover have "cagg_status r \<noteq> R_FAILED" "cagg_active r"
    using e by (auto simp: cagg_eligible_def cagg_active_def)
  ultimately show "cagg_row_ok (cagg_stamp w t now lease r) \<and> cagg_active r"
    using cagg_row_stamp by blast
qed (auto simp: cagg_stamp_def cagg_extend_def cagg_processing_def cagg_active_def cagg_window_def
    intro: cagg_row_renew)

lemma cagg_claim_eq: "cagg_claim = ct.tclaim"
  by (intro ext) (simp add: cagg_claim_def claim_next_job_def ct.tclaim_def)

lemma cagg_renew_eq: "cagg_renew = ct.trenew"
proof (intro ext)
  fix i w t now lease rows
  have "(\<lambda>r. job_id r = i \<and> cagg_status r = R_PROCESSING \<and> worker_id r = Some w \<and>
          sql_gt (lease_expires_at r) now \<and> lease_token r = Some t) = owns_row cagg_processing i w t now"
    by (auto simp: owns_row_def cagg_processing_def)
  then show "cagg_renew i w t now lease rows = ct.trenew i w t now lease rows"
    by (simp add: cagg_renew_def cagg_heartbeat_def ct.trenew_def)
qed

lemma cagg_finish_refused:
  "\<not> owned_in cagg_processing rows i w t now \<Longrightarrow> cagg_finish f i w t now rows = (False, rows)"
  by (cases f) (simp_all add: cagg_complete_if_owned_def cagg_record_failure_if_owned_def
      transition_not_owned get_and_update_not_owned)

lemma cagg_settle_eta:
  "cagg_settle CaggComplete now = cagg_complete_row"
  "cagg_settle (CaggFail err msg) now = cagg_fail_row err msg now"
  by (simp_all add: fun_eq_iff)

lemma cagg_finish_eq: "unique_ids rows \<Longrightarrow> cagg_finish f i w t now rows = ct.tfinish f i w t now rows"
  by (cases f) (simp_all add: cagg_complete_if_owned_def cagg_record_failure_if_owned_def
      ct.tfinish_def get_and_update_eq cagg_settle_eta)

lemma cagg_schedule_cases:
  obtains "cagg_schedule e rows = rows"
  | jobs now s en tf incl where
    "schedule_cagg_refresh_jobs now s en tf incl rows = Inr (jobs, cagg_schedule e rows)"
proof (cases e)
  case (fields now s en tf incl)
  show thesis
  proof (cases "schedule_cagg_refresh_jobs now s en tf incl rows")
    case (Inl err)
    then show thesis using that(1) fields by (simp add: schedule_cagg_refresh_job_def)
  next
    case (Inr p)
    obtain jobs rows' where p: "p = (jobs, rows')" by (cases p)
    show thesis
    proof (cases jobs)
      case Nil
      then show thesis using that(1) fields Inr p by (simp add: schedule_cagg_refresh_job_def)
    next
      case (Cons j js)
      then have "cagg_schedule e rows = rows'" using fields Inr p by (simp add: schedule_cagg_refresh_job_def)
      then show thesis using that(2) Inr p by simp
    qed
  qed
qed

lemma cagg_schedule_ok: "cagg_table_ok rows \<Longrightarrow> cagg_table_ok (cagg_schedule e rows)"
  by (cases rule: cagg_schedule_cases [of e rows]) (auto intro: cagg_table_schedule)

lemma cagg_schedule_holds:
  assumes "holds_in cagg_processing (cagg_schedule e rows) i t"
  shows "holds_in cagg_processing rows i t"
proof (cases rule: cagg_schedule_cases [of e rows])
  case 1
  then show ?thesis using assms by simp
next
  case (2 jobs now s en tf incl)
  then obtain new where rows': "cagg_schedule e rows = rows @ new"
    and new: "\<forall>r \<in> set new. r = new_cagg_job (job_id r) now (cagg_window r)"
    by (rule schedule_jobs_Inr)
  have "\<not> cagg_processing r" if "r \<in> set new" for r
  proof -
    have "\<not> cagg_processing (new_cagg_job (job_id r) now (cagg_window r))"
      by (simp add: cagg_processing_def new_cagg_job_def)
    then show ?thesis using new that by metis
  qed
  then show ?thesis using assms by (auto simp: rows' holds_in_def)
qed

interpretation cj: fenced_jobs cagg_table_ok "holds_in cagg_processing" "owned_in cagg_processing"
  cagg_claim cagg_renew cagg_finish cagg_schedule
  unfolding cagg_claim_eq cagg_renew_eq
  by (rule ct.fenced) (auto simp: cagg_finish_eq cagg_finish_refused cagg_schedule_ok
      dest: cagg_schedule_holds)

section \<open>Properties\<close>

lemma schedule_job_result:
  assumes "schedule_cagg_refresh_jobs now s e tf incl rows = Inr (jobs, rows')"
  obtains job rest where "jobs = job # rest"
    "schedule_cagg_refresh_job now s e tf incl rows = Inr (job, rows')"
    "job \<in> set rows'" "cagg_active job"
proof -
  obtain a b new where ab: "a < b" and rows': "rows' = rows @ new"
    and win: "map cagg_window new = new_windows a b rows"
    and new: "\<forall>r \<in> set new. r = new_cagg_job (job_id r) now (cagg_window r)"
    and jobs: "jobs = (if new \<noteq> [] then new else take 1 (active_overlaps a b rows))"
    using assms by (rule schedule_jobs_Inr)
  have "jobs \<noteq> [] \<and> hd jobs \<in> set rows' \<and> cagg_active (hd jobs)"
  proof (cases "new = []")
    case True
    then have "active_overlaps a b rows \<noteq> []"
      using holes_nonempty_or_overlap [OF ab, of "map cagg_window (active_overlaps a b rows)"] win
      by (auto simp: cagg_uncovered_intervals_def)
    then obtain r rs where ov: "active_overlaps a b rows = r # rs" by (cases "active_overlaps a b rows") auto
    then have "r \<in> set (active_overlaps a b rows)" by simp
    then have "r \<in> set rows \<and> cagg_active r" by (simp add: set_active_overlaps)
    then show ?thesis using True jobs ov rows' by simp
  next
    case False
    then have "hd new \<in> set new" by simp
    then have "cagg_active (hd new)" using new new_cagg_job_simps(3) by metis
    then show ?thesis using False jobs rows' by simp
  qed
  then show thesis
    using assms that [of "hd jobs" "tl jobs"]
    by (cases jobs) (simp_all add: schedule_cagg_refresh_job_def)
qed

lemma cagg_schedule_correct:
  assumes "cagg_table_ok rows"
  shows "case schedule_cagg_refresh_job now s e tf incl rows of
     Inl err \<Rightarrow> compute_cagg_bucket_alignment s e tf incl = Inl err
   | Inr (job, rows') \<Rightarrow>
       \<exists>a b new. compute_cagg_bucket_alignment s e tf incl = Inr (a, b) \<and>
         rows' = rows @ new \<and> cagg_table_ok rows' \<and> job \<in> set rows' \<and> cagg_active job \<and>
         (\<forall>x \<in> {a..<b}. \<exists>r \<in> set rows'. cagg_active r \<and> ivl_mem x (cagg_window r))"
proof (cases "schedule_cagg_refresh_jobs now s e tf incl rows")
  case (Inl err)
  then show ?thesis
    by (auto simp: schedule_cagg_refresh_job_def schedule_cagg_refresh_jobs_def Let_def split: sum.splits)
next
  case (Inr p)
  obtain jobs rows' where sch: "schedule_cagg_refresh_jobs now s e tf incl rows = Inr (jobs, rows')"
    using Inr by (cases p) simp
  obtain a b new where ab: "compute_cagg_bucket_alignment s e tf incl = Inr (a, b)" "rows' = rows @ new"
    "map cagg_window new = new_windows a b rows"
    "\<forall>r \<in> set new. r = new_cagg_job (job_id r) now (cagg_window r)"
    using sch by (rule schedule_jobs_Inr)
  have act: "cagg_active r" if "r \<in> set new" for r using ab(4) that new_cagg_job_simps(3) by metis
  have cover: "\<exists>r \<in> set rows'. cagg_active r \<and> ivl_mem x (cagg_window r)" if "x \<in> {a..<b}" for x
  proof -
    consider r where "r \<in> set rows" "cagg_active r" "ivl_mem x (cagg_window r)"
      | q where "q \<in> set (map cagg_window new)" "ivl_mem x q"
      using new_windows_cover [of a x b rows] \<open>x \<in> {a..<b}\<close> ab(3) by auto
    then show ?thesis
    proof cases
      case 1
      then show ?thesis using ab(2) by auto
    next
      case 2
      then obtain r where "r \<in> set new" "q = cagg_window r" by auto
      with 2(2) act ab(2) show ?thesis by auto
    qed
  qed
  obtain job rest where "schedule_cagg_refresh_job now s e tf incl rows = Inr (job, rows')"
    "job \<in> set rows'" "cagg_active job"
    using sch by (rule schedule_job_result)
  then show ?thesis using ab(1,2) cover cagg_table_schedule [OF assms sch] by auto
qed

text \<open>
  Scheduling a CAGG refresh.  On a table that satisfies its constraints,
  \<open>schedule_cagg_refresh_job\<close> fails only for an invalid window (its \<open>RuntimeError\<close> branch is
  dead code); otherwise it only appends rows, every instant of the aligned window is covered by
  an active job afterwards, active windows stay pairwise disjoint (so the exclusion constraint
  of migration 015 never fires), and the returned job is an active row of the table.
\<close>

theorem cagg_schedule_covers:
  assumes "cagg_table_ok rows"
  shows "case schedule_cagg_refresh_job now s e tf incl rows of
     Inl err \<Rightarrow> compute_cagg_bucket_alignment s e tf incl = Inl err
   | Inr (job, rows') \<Rightarrow>
       \<exists>a b new. compute_cagg_bucket_alignment s e tf incl = Inr (a, b) \<and>
         rows' = rows @ new \<and> cagg_table_ok rows' \<and> job \<in> set rows' \<and> cagg_active job \<and>
         (\<forall>x \<in> {a..<b}. \<exists>r \<in> set rows'. cagg_active r \<and> ivl_mem x (cagg_window r))"
  using assms by (rule cagg_schedule_correct)

definition example_rows :: "cagg_job list" where
  "example_rows = [new_cagg_job 1 0 (day_us, 2 * day_us)]"

lemma example_rows_ok: "cagg_table_ok example_rows"
  by (simp add: example_rows_def table_ok_def unique_ids_def cagg_row_ok_def
      new_cagg_job_def)

theorem cagg_schedule_covers_witness:
  "case schedule_cagg_refresh_job 7 (Naive 0) (Naive (3 * day_us)) None False example_rows of
     Inl err \<Rightarrow> compute_cagg_bucket_alignment (Naive 0) (Naive (3 * day_us)) None False = Inl err
   | Inr (job, rows') \<Rightarrow>
       \<exists>a b new. compute_cagg_bucket_alignment (Naive 0) (Naive (3 * day_us)) None False = Inr (a, b) \<and>
         rows' = example_rows @ new \<and> cagg_table_ok rows' \<and> job \<in> set rows' \<and> cagg_active job \<and>
         (\<forall>x \<in> {a..<b}. \<exists>r \<in> set rows'. cagg_active r \<and> ivl_mem x (cagg_window r))"
  by (rule cagg_schedule_covers [OF example_rows_ok])

lemma refresh_one_Inr:
  assumes "refresh_one env n ws we i w t s = (Inr u, s')"
  obtains c where "calls s' = calls s @ [c]" "call_name c = n" "call_start c = ws" "call_end c = we"
    "owned_in cagg_processing (call_db c) i w t (call_now c)"
  using assms that
  by (auto simp: refresh_one_def Let_def cagg_assert_lease_owned_def pause_def run_now_def
      split: if_splits option.splits)

lemma refresh_all_Inr:
  "refresh_all env ns ws we i w t s = (Inr u, s') \<Longrightarrow>
   \<exists>cs. calls s' = calls s @ cs \<and>
     map (\<lambda>c. (call_name c, call_start c, call_end c)) cs = map (\<lambda>n. (n, ws, we)) ns \<and>
     (\<forall>c \<in> set cs. owned_in cagg_processing (call_db c) i w t (call_now c))"
proof (induction ns arbitrary: s)
  case Nil
  then show ?case by simp
next
  case (Cons n ns)
  then obtain u1 s1 where one: "refresh_one env n ws we i w t s = (Inr u1, s1)"
    and rest: "refresh_all env ns ws we i w t s1 = (Inr u, s')"
    by (auto split: prod.splits sum.splits)
  obtain c where c: "calls s1 = calls s @ [c]" "call_name c = n" "call_start c = ws" "call_end c = we"
    "owned_in cagg_processing (call_db c) i w t (call_now c)"
    using one by (rule refresh_one_Inr)
  obtain cs where "calls s' = calls s1 @ cs"
    "map (\<lambda>c. (call_name c, call_start c, call_end c)) cs = map (\<lambda>n. (n, ws, we)) ns"
    "\<forall>c \<in> set cs. owned_in cagg_processing (call_db c) i w t (call_now c)"
    using Cons.IH [OF rest] by blast
  with c show ?case by (intro exI [of _ "c # cs"]) simp
qed

lemma cagg_complete_True:
  assumes "cagg_complete_if_owned i w t now rows = (True, rows')"
  shows "\<exists>r \<in> set rows'. job_id r = i \<and> cagg_status r = R_COMPLETED \<and> lease_token r = None"
proof -
  have "rowcount (owns_row cagg_processing i w t now) rows = 1"
    and rows': "rows' = update_where (owns_row cagg_processing i w t now) cagg_complete_row rows"
    using assms by (simp_all add: cagg_complete_if_owned_def transition_where_def)
  then obtain r where r: "r \<in> set rows" "owns_row cagg_processing i w t now r"
    by (metis rowcount_0_iff zero_neq_one)
  then have "cagg_complete_row r \<in> set rows'" by (force simp: rows' set_update_where)
  then show ?thesis using r(2) by (intro bexI) (simp_all add: cagg_complete_row_def owns_row_def)
qed

text \<open>
  C23: A completed CAGG job has been refreshed.  Whatever other sessions, the clock, the
  heartbeat and the stored procedure do, if the worker's attempt ends normally then it has
  called the refresh procedure for the five aggregates in order, each with the job's exact
  window and each after a check that found the claim owned, and the job is \<open>COMPLETED\<close>
  with its token cleared.
\<close>

theorem cagg_completed_means_refreshed:
  assumes "execute_claimed_job env job w t s = (Inr u, s')"
  shows "\<exists>cs. calls s' = calls s @ cs \<and>
     map (\<lambda>c. (call_name c, call_start c, call_end c)) cs =
       map (\<lambda>n. (n, window_start job, window_end job)) cagg_names \<and>
     (\<forall>c \<in> set cs. owned_in cagg_processing (call_db c) (job_id job) w t (call_now c)) \<and>
     (\<exists>r \<in> set (run_db s'). job_id r = job_id job \<and> cagg_status r = R_COMPLETED \<and> lease_token r = None)"
proof -
  obtain u1 s1 db where all: "refresh_all env cagg_names (window_start job) (window_end job) (job_id job) w t s = (Inr u1, s1)"
    and fin: "cagg_complete_if_owned (job_id job) w t (run_now env s1) (run_db (pause env s1)) = (True, db)"
    and s': "s' = (pause env s1)\<lparr>run_db := db\<rparr>"
    using assms by (auto simp: execute_claimed_job_def Let_def split: prod.splits sum.splits if_splits)
  have "calls s' = calls s1" by (simp add: s' pause_def)
  then show ?thesis using refresh_all_Inr [OF all] cagg_complete_True [OF fin] s' by auto
qed

definition example_env :: cagg_env where
  "example_env = \<lparr>clock = (\<lambda>n. int n), others = (\<lambda>_ db. db), lost_at = (\<lambda>_. False),
     format_error = exn_type_name, procedure = (\<lambda>_. None), saw_lost = (\<lambda>_. False)\<rparr>"

definition example_claimed :: cagg_job where
  "example_claimed = cagg_stamp ''w1'' ''t1'' 0 300 (new_cagg_job 1 0 (day_us, 2 * day_us))"

definition example_run :: cagg_run where
  "example_run = \<lparr>run_db = [example_claimed], run_tick = 0, calls = []\<rparr>"

lemma example_run_completes:
  "fst (execute_claimed_job example_env example_claimed ''w1'' ''t1'' example_run) = Inr ()"
  by code_simp

theorem cagg_completed_means_refreshed_witness:
  "\<exists>s' cs. execute_claimed_job example_env example_claimed ''w1'' ''t1'' example_run = (Inr (), s') \<and>
     calls s' = cs \<and> map call_name cs = cagg_names"
proof -
  obtain s' where run: "execute_claimed_job example_env example_claimed ''w1'' ''t1'' example_run = (Inr (), s')"
    using example_run_completes by (metis prod.collapse)
  obtain cs where cs: "calls s' = calls example_run @ cs"
    "map (\<lambda>c. (call_name c, call_start c, call_end c)) cs =
       map (\<lambda>n. (n, window_start example_claimed, window_end example_claimed)) cagg_names"
    using cagg_completed_means_refreshed [OF run] by blast
  from cs(2) have "map call_name cs = map fst (map (\<lambda>n. (n, window_start example_claimed, window_end example_claimed)) cagg_names)"
    by (metis (no_types, lifting) comp_apply fst_conv map_eq_conv map_map)
  then have "map call_name cs = cagg_names" by (simp add: comp_def)
  with run cs(1) show ?thesis by (auto simp: example_run_def)
qed

text \<open>
  The claim protocol of the CAGG job table.  For every sequence of claims, heartbeats,
  completions, failures and scheduling transactions the table keeps its constraints; and once
  a job has been claimed by another worker, the previous claimant's transitions (whatever
  happens in between, as long as its token is not issued a second time) are refused and leave
  the table unchanged.
\<close>

theorem cagg_stale_worker_fenced:
  assumes "cagg_table_ok rows"
    and "cagg_claim cfg w' t' now' lease rows = (Some i, rows')" and "t \<noteq> t'"
    and "Some t \<notin> claim_token_of ` set ops"
  shows "cagg_table_ok (cj.exec_all ops rows') \<and>
    cagg_finish f i w t now (cj.exec_all ops rows') = (False, cj.exec_all ops rows')"
proof
  have "cagg_table_ok rows'" using cj.claim_wf [OF assms(1)] assms(2) by (metis snd_conv)
  then show "cagg_table_ok (cj.exec_all ops rows')" by (rule cj.exec_all_wf)
  show "cagg_finish f i w t now (cj.exec_all ops rows') = (False, cj.exec_all ops rows')"
    by (rule cj.takeover_fences [OF assms])
qed

theorem cagg_stale_worker_fenced_witness:
  "cagg_finish CaggComplete 1 ''w0'' ''t0'' 5
     (snd (cagg_claim (True, \<lambda>_. False) ''w1'' ''t1'' 0 300 example_rows)) =
   (False, snd (cagg_claim (True, \<lambda>_. False) ''w1'' ''t1'' 0 300 example_rows))"
proof -
  have "fst (cagg_claim (True, \<lambda>_. False) ''w1'' ''t1'' 0 300 example_rows) = Some 1" by code_simp
  then have claim: "cagg_claim (True, \<lambda>_. False) ''w1'' ''t1'' 0 300 example_rows =
      (Some 1, snd (cagg_claim (True, \<lambda>_. False) ''w1'' ''t1'' 0 300 example_rows))"
    by (metis prod.collapse)
  show ?thesis
    using cagg_stale_worker_fenced [OF example_rows_ok claim, of "''t0''" "[]"]
    by (simp del: cagg_finish.simps)
qed

lemma run_cagg_loop_bound:
  "case fst (run_cagg_refresh_loop n env ids locked k s) of Inl err \<Rightarrow> False | Inr m \<Rightarrow> m \<le> k + n"
proof (induction n arbitrary: k s)
  case (Suc n)
  obtain res s' where step: "process_pending_jobs env (True, locked) False (5 * minute_us)
      (fst (ids k)) (snd (ids k)) s = (res, s')" by (rule prod.exhaust)
  have "\<exists>b. res = Inr b"
    using step by (auto simp: process_pending_jobs_def Let_def split: option.splits prod.splits sum.splits if_splits)
  then show ?case using step Suc.IH [of "k + 1" s'] by (auto split: sum.splits)
qed simp

text \<open>
  An actor run is bounded.  \<open>_run_cagg_refresh\<close> raises only for a non-positive
  \<open>max_jobs\<close>; every failure of an individual job is recorded on its row instead, and at most
  \<open>max_jobs\<close> claims are processed.
\<close>

theorem run_cagg_refresh_bounded:
  "case fst (run_cagg_refresh env ids locked max_jobs s) of
     Inl err \<Rightarrow> max_jobs \<le> 0
   | Inr n \<Rightarrow> 0 < max_jobs \<and> int n \<le> max_jobs"
  using run_cagg_loop_bound [where n = "nat max_jobs" and env = env and ids = ids and locked = locked
      and k = 0 and s = s]
  by (auto simp: run_cagg_refresh_def split: sum.splits)

end
