(* ===== verification/Py_Float.thy ===== *)
theory Py_Float
  imports Prelude "HOL-Library.Log_Nat"
begin

text \<open>
  Python floats as IEEE binary64 values: \<open>Fin q\<close> is a finite double with the exact rational
  value \<open>q\<close> (the two zeros are one value here, the program never tells them apart), plus the
  infinities and NaN.  Comparisons follow IEEE, so every comparison with NaN is false;
  addition, subtraction and multiplication compute the exact result and round it to nearest,
  ties to even.
\<close>

datatype pyfloat = Fin rat | PInf | NInf | NaN

fun f_isfinite :: "pyfloat \<Rightarrow> bool" where
  "f_isfinite (Fin _) = True"
| "f_isfinite _ = False"

fun f_lt :: "pyfloat \<Rightarrow> pyfloat \<Rightarrow> bool" where
  "f_lt NaN _ = False"
| "f_lt _ NaN = False"
| "f_lt (Fin a) (Fin b) = (a < b)"
| "f_lt NInf b = (b \<noteq> NInf)"
| "f_lt (Fin _) b = (b = PInf)"
| "f_lt PInf _ = False"

fun f_le :: "pyfloat \<Rightarrow> pyfloat \<Rightarrow> bool" where
  "f_le NaN _ = False"
| "f_le _ NaN = False"
| "f_le (Fin a) (Fin b) = (a \<le> b)"
| "f_le NInf _ = True"
| "f_le (Fin _) b = (b = PInf)"
| "f_le PInf b = (b = PInf)"

text \<open>\<open>min\<close> and \<open>max\<close> of the builtin: the first element is replaced by a strictly better one.\<close>

definition f_min :: "pyfloat \<Rightarrow> pyfloat \<Rightarrow> pyfloat" where
  "f_min a b = (if f_lt b a then b else a)"

definition f_max :: "pyfloat \<Rightarrow> pyfloat \<Rightarrow> pyfloat" where
  "f_max a b = (if f_lt a b then b else a)"

section \<open>Rounding\<close>

definition pow2 :: "int \<Rightarrow> rat" where
  "pow2 k = (if 0 \<le> k then 2 ^ nat k else 1 / 2 ^ nat (- k))"

text \<open>The exponent of the leading bit of a positive rational.\<close>

definition lead_exp :: "rat \<Rightarrow> int" where
  "lead_exp q = (if 1 \<le> q then bitlen \<lfloor>q\<rfloor> - 1 else - bitlen (\<lceil>1 / q\<rceil> - 1))"

definition round_half_even :: "rat \<Rightarrow> int" where
  "round_half_even q =
     (let f = \<lfloor>q\<rfloor>; r = q - of_int f
      in if r < 1 / 2 then f else if 1 / 2 < r then f + 1 else if even f then f else f + 1)"

definition fl :: "rat \<Rightarrow> pyfloat" where
  "fl q =
     (if q = 0 then Fin 0
      else
        let e = max (lead_exp \<bar>q\<bar> - 52) (- 1074);
            v = of_int (round_half_even (q / pow2 e)) * pow2 e
        in if pow2 1024 \<le> \<bar>v\<bar> then (if 0 < q then PInf else NInf) else Fin v)"

fun f_neg :: "pyfloat \<Rightarrow> pyfloat" where
  "f_neg (Fin a) = Fin (- a)"
| "f_neg PInf = NInf"
| "f_neg NInf = PInf"
| "f_neg NaN = NaN"

fun f_abs :: "pyfloat \<Rightarrow> pyfloat" where
  "f_abs (Fin a) = Fin \<bar>a\<bar>"
| "f_abs PInf = PInf"
| "f_abs NInf = PInf"
| "f_abs NaN = NaN"

fun f_add :: "pyfloat \<Rightarrow> pyfloat \<Rightarrow> pyfloat" where
  "f_add (Fin a) (Fin b) = fl (a + b)"
| "f_add NaN _ = NaN"
| "f_add _ NaN = NaN"
| "f_add PInf NInf = NaN"
| "f_add NInf PInf = NaN"
| "f_add PInf _ = PInf"
| "f_add _ PInf = PInf"
| "f_add NInf _ = NInf"
| "f_add _ NInf = NInf"

definition f_sub :: "pyfloat \<Rightarrow> pyfloat \<Rightarrow> pyfloat" where
  "f_sub a b = f_add a (f_neg b)"

text \<open>The literal \<open>1e-9\<close>: the double nearest to it.\<close>

definition f_1e_9 :: pyfloat where
  "f_1e_9 = Fin (4835703278458517 / 2 ^ 82)"

lemma f_le_Fin_iff [simp]: "f_le (Fin a) (Fin b) \<longleftrightarrow> a \<le> b"
  by simp

lemma f_lt_imp_le: "f_lt a b \<Longrightarrow> f_le a b"
  by (cases a; cases b) auto

lemma f_not_lt_le: "f_isfinite a \<Longrightarrow> f_isfinite b \<Longrightarrow> \<not> f_lt a b \<longleftrightarrow> f_le b a"
  by (cases a; cases b) auto

lemma f_le_not_lt: "f_le a b \<Longrightarrow> \<not> f_lt b a"
  by (cases a; cases b) auto

lemma f_isfiniteE: "f_isfinite a \<Longrightarrow> (\<And>q. a = Fin q \<Longrightarrow> P) \<Longrightarrow> P"
  by (cases a) auto

lemma f_min_Fin [simp]: "f_min (Fin a) (Fin b) = Fin (min a b)"
  by (simp add: f_min_def min_def)

lemma f_max_Fin [simp]: "f_max (Fin a) (Fin b) = Fin (max a b)"
  by (simp add: f_max_def max_def)

section \<open>Rounding never crosses a double\<close>

definition is_double :: "rat \<Rightarrow> bool" where
  "is_double b \<longleftrightarrow>
     (\<exists>m e. b = of_int m * pow2 e \<and> \<bar>m\<bar> \<le> 2 ^ 53 \<and> - 1074 \<le> e) \<and> \<bar>b\<bar> < pow2 1024"

lemma pow2_pos [simp]: "0 < pow2 k"
  by (simp add: pow2_def)

lemma pow2_powi: "pow2 k = 2 powi k"
  by (simp add: pow2_def power_int_def field_simps)

lemma pow2_add: "pow2 (a + b) = pow2 a * pow2 b"
  by (simp add: pow2_powi power_int_add)

lemma pow2_mono: "a \<le> b \<Longrightarrow> pow2 a \<le> pow2 b"
  by (simp add: pow2_powi power_int_increasing)

lemma pow2_nat: "pow2 (int n) = 2 ^ n"
  by (simp add: pow2_def)

lemma lead_exp_bounds:
  assumes "0 < q"
  shows "pow2 (lead_exp q) \<le> q" and "q < pow2 (lead_exp q + 1)"
proof -
  have int_bounds: "pow2 (bitlen n - 1) \<le> of_int n" "of_int n + 1 \<le> pow2 (bitlen n)" if "0 < n" for n
  proof -
    have b: "0 < bitlen n"
    proof (rule ccontr)
      assume "\<not> 0 < bitlen n"
      then show False using bitlen_bounds [OF that] that by simp
    qed
    then have "pow2 (bitlen n - 1) = of_int (2 ^ nat (bitlen n - 1))" "pow2 (bitlen n) = of_int (2 ^ nat (bitlen n))"
      by (simp_all add: pow2_def)
    moreover have "n + 1 \<le> 2 ^ nat (bitlen n)" "2 ^ nat (bitlen n - 1) \<le> n"
      using bitlen_bounds [OF that] by simp_all
    then have "of_int (n + 1) \<le> (of_int (2 ^ nat (bitlen n)) :: rat)" "of_int (2 ^ nat (bitlen n - 1)) \<le> (of_int n :: rat)"
      by (simp_all only: of_int_le_iff)
    ultimately show "pow2 (bitlen n - 1) \<le> of_int n" "of_int n + 1 \<le> pow2 (bitlen n)" by simp_all
  qed
  have "pow2 (lead_exp q) \<le> q \<and> q < pow2 (lead_exp q + 1)"
  proof (cases "1 \<le> q")
    case True
    then have "0 < \<lfloor>q\<rfloor>" by simp
    from int_bounds [OF this] show ?thesis
      using True floor_correct [of q] by (auto simp: lead_exp_def intro: order_trans)
  next
    case False
    let ?c = "\<lceil>1 / q\<rceil> - 1"
    have "1 < 1 / q" using False assms by simp
    then have c: "0 < ?c" by (simp add: less_ceiling_iff)
    have inv: "pow2 (- k) = 1 / pow2 k" for k by (simp add: pow2_powi power_int_minus_divide)
    have "1 / q \<le> of_int ?c + 1" "of_int ?c < 1 / q"
      using ceiling_correct [of "1 / q"] by simp_all
    then have "1 / q \<le> pow2 (bitlen ?c)" "pow2 (bitlen ?c - 1) < 1 / q"
      using int_bounds [OF c] by linarith+
    then have "1 / pow2 (bitlen ?c) \<le> q" "q < 1 / pow2 (bitlen ?c - 1)"
      using assms by (simp_all add: field_simps)
    then show ?thesis
      using False by (simp add: lead_exp_def inv [symmetric] minus_diff_eq)
  qed
  then show "pow2 (lead_exp q) \<le> q" "q < pow2 (lead_exp q + 1)" by simp_all
qed

lemma round_half_even_ge: "of_int j \<le> x \<Longrightarrow> j \<le> round_half_even x"
  by (simp add: round_half_even_def Let_def le_floor_iff [symmetric])

lemma round_half_even_le: "x \<le> of_int j \<Longrightarrow> round_half_even x \<le> j"
proof -
  assume x: "x \<le> of_int j"
  show ?thesis
  proof (cases "x = of_int j")
    case True
    then show ?thesis by (simp add: round_half_even_def)
  next
    case False
    then have "\<lfloor>x\<rfloor> < j" using x by (simp add: floor_less_iff)
    then show ?thesis by (auto simp: round_half_even_def Let_def)
  qed
qed

text \<open>A double is a multiple of the grid of a number at least as large, or below its leading power.\<close>

lemma double_grid:
  assumes "is_double b"
  shows "(\<exists>j. b = of_int j * pow2 e) \<or> (- 1074 < e \<and> \<bar>b\<bar> \<le> pow2 (e + 52))"
proof -
  obtain m eb where b: "b = of_int m * pow2 eb" "\<bar>m\<bar> \<le> 2 ^ 53" "- 1074 \<le> eb"
    using assms by (auto simp: is_double_def)
  show ?thesis
  proof (cases "e \<le> eb")
    case True
    then have "pow2 eb = of_int (2 ^ nat (eb - e)) * pow2 e"
      using pow2_add [of "eb - e" e] by (simp add: pow2_def [of "eb - e"])
    then have "b = of_int (m * 2 ^ nat (eb - e)) * pow2 e" using b(1) by simp
    then show ?thesis by blast
  next
    case False
    have "\<bar>b\<bar> = of_int \<bar>m\<bar> * pow2 eb" by (simp add: b(1) abs_mult less_imp_le)
    also have "\<dots> \<le> of_int (2 ^ 53) * pow2 eb"
      using b(2) by (intro mult_right_mono) (simp_all only: of_int_le_iff less_imp_le [OF pow2_pos])
    also have "\<dots> = pow2 53 * pow2 eb" by (simp add: pow2_def)
    also have "\<dots> = pow2 (53 + eb)" by (simp only: pow2_add)
    also have "\<dots> \<le> pow2 (e + 52)" using False by (intro pow2_mono) simp
    finally show ?thesis using False b(3) by simp
  qed
qed

lemma fl_pos:
  assumes "0 < q"
  obtains g e n where "g = pow2 e" "n = round_half_even (q / g)" "- 1074 < e \<longrightarrow> pow2 (e + 52) \<le> q"
    "fl q = (if pow2 1024 \<le> \<bar>of_int n * g\<bar> then PInf else Fin (of_int n * g))"
proof -
  let ?e = "max (lead_exp q - 52) (- 1074)"
  have "- 1074 < ?e \<longrightarrow> pow2 (?e + 52) \<le> q"
    using lead_exp_bounds(1) [OF assms] by (simp add: max_def split: if_splits)
  then show thesis
    using assms by (intro that [of "pow2 ?e" ?e "round_half_even (q / pow2 ?e)"]) (simp_all add: fl_def Let_def)
qed

lemma fl_ge:
  assumes "0 < q" and "b \<le> q" and "is_double b"
  shows "f_le (Fin b) (fl q)"
proof -
  obtain g e n where g: "g = pow2 e" and n: "n = round_half_even (q / g)"
    and big: "- 1074 < e \<longrightarrow> pow2 (e + 52) \<le> q"
    and fl: "fl q = (if pow2 1024 \<le> \<bar>of_int n * g\<bar> then PInf else Fin (of_int n * g))"
    using assms(1) by (rule fl_pos)
  have multiple: "of_int j * g \<le> of_int n * g" if "of_int j * g \<le> q" for j
  proof -
    have "of_int j \<le> q / g" using that by (simp add: g pos_le_divide_eq)
    then have "j \<le> n" unfolding n by (rule round_half_even_ge)
    then show ?thesis by (intro mult_right_mono) (simp_all add: g less_imp_le)
  qed
  have "b \<le> of_int n * g"
    using double_grid [OF assms(3), of e]
  proof
    assume "\<exists>j. b = of_int j * pow2 e"
    then show ?thesis using multiple assms(2) g by auto
  next
    assume small: "- 1074 < e \<and> \<bar>b\<bar> \<le> pow2 (e + 52)"
    have "pow2 (e + 52) = of_int (2 ^ 52) * g" by (simp add: g pow2_add) (simp add: pow2_def)
    then have "pow2 (e + 52) \<le> of_int n * g" using multiple [of "2 ^ 52"] big small by simp
    then show ?thesis using small by linarith
  qed
  then show ?thesis by (simp add: fl)
qed

lemma fl_le_pos:
  assumes "0 < q" and "q \<le> b" and "is_double b"
  shows "f_le (fl q) (Fin b)"
proof -
  obtain g e n where g: "g = pow2 e" and n: "n = round_half_even (q / g)"
    and big: "- 1074 < e \<longrightarrow> pow2 (e + 52) \<le> q"
    and fl: "fl q = (if pow2 1024 \<le> \<bar>of_int n * g\<bar> then PInf else Fin (of_int n * g))"
    using assms(1) by (rule fl_pos)
  have pow: "pow2 (e + 52) = of_int (2 ^ 52) * pow2 e" by (simp add: pow2_add) (simp add: pow2_def)
  have "\<exists>j. b = of_int j * g"
  proof (cases "\<exists>j. b = of_int j * pow2 e")
    case False
    then have "- 1074 < e" "\<bar>b\<bar> \<le> pow2 (e + 52)" using double_grid [OF assms(3), of e] by auto
    then have "b = pow2 (e + 52)" using big assms(2) by simp
    then show ?thesis using pow g by blast
  qed (simp add: g)
  then obtain j where j: "b = of_int j * g" by blast
  then have "q / g \<le> of_int j" using assms(2) by (simp add: g pos_divide_le_eq)
  then have "n \<le> j" unfolding n by (rule round_half_even_le)
  then have nb: "of_int n * g \<le> b" unfolding j by (intro mult_right_mono) (simp_all add: g less_imp_le)
  have "0 \<le> q / g" unfolding g using assms(1) less_imp_le [OF pow2_pos, of e] by (intro divide_nonneg_nonneg) simp_all
  then have "0 \<le> n" unfolding n by (intro round_half_even_ge) simp
  then have "0 \<le> of_int n * g" using less_imp_le [OF pow2_pos, of e] by (simp add: g)
  moreover have "\<bar>b\<bar> < pow2 1024" using assms(3) by (simp add: is_double_def)
  ultimately have "\<bar>of_int n * g\<bar> < pow2 1024" using nb by linarith
  then show ?thesis using nb by (simp add: fl)
qed

lemma fl_nonpos:
  assumes "q \<le> 0" and "0 \<le> b"
  shows "f_le (fl q) (Fin b)"
proof -
  let ?e = "max (lead_exp \<bar>q\<bar> - 52) (- 1074)"
  have "q / pow2 ?e \<le> of_int 0" using assms(1) by (simp add: divide_nonpos_pos)
  then have "round_half_even (q / pow2 ?e) \<le> 0" by (rule round_half_even_le)
  then have "of_int (round_half_even (q / pow2 ?e)) * pow2 ?e \<le> 0" by (simp add: mult_nonpos_nonneg less_imp_le)
  then show ?thesis using assms by (auto simp: fl_def Let_def)
qed

lemma fl_le:
  assumes "q \<le> b" and "is_double b" and "0 \<le> b"
  shows "f_le (fl q) (Fin b)"
  using assms fl_le_pos fl_nonpos by (cases "0 < q") auto

text \<open>Subtracting or adding the slack keeps an ordered pair of positive doubles ordered.\<close>

lemma f_sub_slack_le: "a \<le> b \<Longrightarrow> is_double b \<Longrightarrow> 0 \<le> b \<Longrightarrow> f_le (f_sub (Fin a) f_1e_9) (Fin b)"
  by (simp add: f_sub_def f_1e_9_def) (rule fl_le, simp_all)

lemma f_add_slack_ge: "b \<le> a \<Longrightarrow> is_double b \<Longrightarrow> 0 < a \<Longrightarrow> f_le (Fin b) (f_add (Fin a) f_1e_9)"
  by (simp add: f_1e_9_def) (rule fl_ge, simp_all)

lemma is_double_int: "\<bar>m\<bar> \<le> 2 ^ 53 \<Longrightarrow> is_double (of_int m)"
proof -
  assume m: "\<bar>m\<bar> \<le> 2 ^ 53"
  have "of_int m = of_int m * pow2 0" by (simp add: pow2_def)
  moreover have "\<bar>of_int m\<bar> < pow2 1024"
  proof -
    have "\<bar>of_int m\<bar> = (of_int \<bar>m\<bar> :: rat)" by simp
    also have "\<dots> \<le> of_int (2 ^ 53)" using m by (simp only: of_int_le_iff)
    also have "\<dots> < pow2 1024" by (simp add: pow2_def)
    finally show ?thesis .
  qed
  ultimately show ?thesis
    using m unfolding is_double_def by (intro conjI exI [of _ m] exI [of _ 0]) simp_all
qed

end
