(* ===== verification/Ingestion.thy ===== *)
theory Ingestion
  imports Py_Float
begin

text \<open>
  \<open>app/services/ingestion.py\<close>: candle validation, the canonical upserts with their source
  precedence and revision ledger, the proof of raw coverage behind \<open>sync_ranges\<close>, and the
  detection of missing ranges.

  A candle dictionary is a \<open>payload\<close>: every key is absent, \<open>None\<close>, of a wrong type, or a
  value.  The tables the service touches are the lists of rows in \<open>candle_db\<close>.  One
  transaction is one function; an exception leaves the database of before (rollback).  The
  clock is read once per transaction.
\<close>

section \<open>Payloads and tables\<close>

datatype 'a pyfield = Absent | PyNone | PyOther | Val 'a

record payload =
  p_timestamp :: "pydatetime pyfield"
  p_asset_id :: "int pyfield"
  p_open :: "pyfloat pyfield"
  p_high :: "pyfloat pyfield"
  p_low :: "pyfloat pyfield"
  p_close :: "pyfloat pyfield"
  p_volume :: "pyfloat pyfield"
  p_source :: "string pyfield"
  p_event_time :: "pydatetime pyfield"
  p_received_at :: "pydatetime pyfield"

record candle_row =
  c_asset :: asset_id
  c_time :: usec
  c_open :: pyfloat
  c_high :: pyfloat
  c_low :: pyfloat
  c_close :: pyfloat
  c_volume :: pyfloat
  c_source :: string
  c_event_time :: "usec option"
  c_received_at :: "usec option"
  data_revision :: int

record revision_row =
  rev_row :: candle_row
  recorded_at :: usec

record sync_range =
  sr_id :: int
  sr_asset :: asset_id
  start_timestamp :: usec
  end_timestamp :: usec

record asset_row =
  a_id :: asset_id
  a_symbol :: string
  a_exchange :: string
  a_active :: bool

record candle_db =
  assets :: "asset_row list"
  raw_candles :: "candle_row list"
  staged_candles :: "candle_row list"
  candle_revisions :: "revision_row list"
  sync_ranges :: "sync_range list"

definition candle_key :: "candle_row \<Rightarrow> asset_id \<times> usec" where
  "candle_key r = (c_asset r, c_time r)"

section \<open>Validation\<close>

definition validate_timestamp :: "payload \<Rightarrow> py_exn + payload" where
  "validate_timestamp p =
     (case p_timestamp p of
        Val ts \<Rightarrow>
          if \<not> is_aware ts then Inl (PayloadCorruptionError ''Candle timestamp must be timezone-aware'')
          else let ts' = utc_dt (utc ts) in
            if dt_second ts' \<noteq> 0 \<or> dt_microsecond ts' \<noteq> 0
            then Inl (PayloadCorruptionError ''Raw 1m candle timestamps must align exactly to a UTC minute'')
            else Inr (p\<lparr>p_timestamp := Val ts'\<rparr>)
      | _ \<Rightarrow> Inl (PayloadCorruptionError ''Candle timestamp must be a datetime''))"

definition validate_asset :: "asset_id \<Rightarrow> payload \<Rightarrow> py_exn + payload" where
  "validate_asset asset p =
     (if (case p_asset_id p of Absent \<Rightarrow> True | PyNone \<Rightarrow> True | PyOther \<Rightarrow> False | Val a \<Rightarrow> a = asset)
      then Inr (p\<lparr>p_asset_id := Val asset\<rparr>)
      else Inl (PayloadCorruptionError ''Candle asset_id does not match batch asset_id''))"

text \<open>\<open>candle.get("source", "unknown")\<close>: an explicit \<open>None\<close> is not a string and is rejected.\<close>

definition validate_source :: "payload \<Rightarrow> py_exn + payload" where
  "validate_source p =
     (let src = (case p_source p of Absent \<Rightarrow> Some ''unknown'' | Val x \<Rightarrow> Some x | _ \<Rightarrow> None) in
      case src of
        None \<Rightarrow> Inl (PayloadCorruptionError ''Candle source must be a non-empty string of at most 64 characters'')
      | Some x \<Rightarrow>
          if py_strip x = [] \<or> length (py_strip x) > 64
          then Inl (PayloadCorruptionError ''Candle source must be a non-empty string of at most 64 characters'')
          else Inr (p\<lparr>p_source := Val (py_lower (py_strip x))\<rparr>))"

definition validate_provenance :: "pydatetime pyfield \<Rightarrow> py_exn + pydatetime pyfield" where
  "validate_provenance f =
     (case f of
        Absent \<Rightarrow> Inr Absent
      | PyNone \<Rightarrow> Inr PyNone
      | PyOther \<Rightarrow> Inl (PayloadCorruptionError ''provenance must be a timezone-aware datetime when provided'')
      | Val d \<Rightarrow>
          if is_aware d then Inr (Val (utc_dt (utc d)))
          else Inl (PayloadCorruptionError ''provenance must be a timezone-aware datetime when provided''))"

definition ohlcv_fields :: "payload \<Rightarrow> pyfloat pyfield list" where
  "ohlcv_fields p = [p_open p, p_high p, p_low p, p_close p, p_volume p]"

definition field_value :: "'a pyfield \<Rightarrow> 'a option" where
  "field_value f = (case f of Val x \<Rightarrow> Some x | _ \<Rightarrow> None)"

text \<open>\<open>low - epsilon <= x <= high + epsilon\<close> and the other numeric checks, in the code's order.\<close>

definition validate_numbers :: "pyfloat \<Rightarrow> pyfloat \<Rightarrow> pyfloat \<Rightarrow> pyfloat \<Rightarrow> pyfloat \<Rightarrow> py_exn + unit" where
  "validate_numbers open_price high_price low_price close_price volume =
     (if \<not> list_all f_isfinite [open_price, high_price, low_price, close_price, volume]
      then Inl (PayloadCorruptionError ''Candle OHLCV values must be finite'')
      else if f_le (f_min (f_min (f_min open_price high_price) low_price) close_price) (Fin 0)
      then Inl (PayloadCorruptionError ''Candle prices must be strictly positive'')
      else if f_lt volume (Fin 0)
      then Inl (PayloadCorruptionError ''Candle volume cannot be negative'')
      else if f_lt high_price (f_sub low_price f_1e_9)
      then Inl (PayloadCorruptionError ''Candle high cannot be lower than low'')
      else if \<not> (f_le (f_sub low_price f_1e_9) open_price \<and> f_le open_price (f_add high_price f_1e_9))
      then Inl (PayloadCorruptionError ''Candle open must be within [low, high]'')
      else if \<not> (f_le (f_sub low_price f_1e_9) close_price \<and> f_le close_price (f_add high_price f_1e_9))
      then Inl (PayloadCorruptionError ''Candle close must be within [low, high]'')
      else Inr ())"

definition validate_ohlcv :: "payload \<Rightarrow> py_exn + unit" where
  "validate_ohlcv p =
     (if list_all (\<lambda>f. f = Absent) (ohlcv_fields p) then Inr ()
      else if \<not> list_all (\<lambda>f. f \<noteq> Absent) (ohlcv_fields p)
      then Inl (PayloadCorruptionError ''Candle payload must contain complete OHLCV fields'')
      else case map field_value (ohlcv_fields p) of
        [Some o', Some h, Some l, Some c, Some v] \<Rightarrow> validate_numbers o' h l c v
      | _ \<Rightarrow> Inl (PayloadCorruptionError ''Candle OHLCV values must be numeric''))"

definition validate_candle_payload :: "usec \<Rightarrow> asset_id \<Rightarrow> payload \<Rightarrow> py_exn + payload" where
  "validate_candle_payload now asset p =
     (case validate_timestamp p of Inl e \<Rightarrow> Inl e | Inr p1 \<Rightarrow>
      case validate_asset asset p1 of Inl e \<Rightarrow> Inl e | Inr p2 \<Rightarrow>
      case validate_source p2 of Inl e \<Rightarrow> Inl e | Inr p3 \<Rightarrow>
      case validate_provenance (p_event_time p3) of Inl e \<Rightarrow> Inl e | Inr ev \<Rightarrow>
      case validate_provenance (p_received_at p3) of Inl e \<Rightarrow> Inl e | Inr rc \<Rightarrow>
      let p4 = p3\<lparr>p_event_time := ev,
                  p_received_at := (if rc = Absent then Val (utc_dt now) else rc)\<rparr> in
      case validate_ohlcv p4 of Inl e \<Rightarrow> Inl e | Inr _ \<Rightarrow> Inr p4)"

text \<open>\<open>candle["timestamp"]\<close> of a normalised payload.\<close>

definition p_time :: "payload \<Rightarrow> usec" where
  "p_time p = (case p_timestamp p of Val d \<Rightarrow> utc d | _ \<Rightarrow> 0)"

fun contiguous_loop :: "usec \<Rightarrow> usec \<Rightarrow> usec list \<Rightarrow> py_exn + (usec \<times> usec) list" where
  "contiguous_loop block_start previous [] = Inr [(block_start, previous)]"
| "contiguous_loop block_start previous (current # rest) =
     (if current \<le> previous
      then Inl (PayloadCorruptionError ''candle timestamps must be strictly increasing'')
      else if current - previous \<noteq> minute_us
      then case contiguous_loop current current rest of
             Inl e \<Rightarrow> Inl e
           | Inr blocks \<Rightarrow> Inr ((block_start, previous) # blocks)
      else contiguous_loop block_start current rest)"

definition contiguous_blocks :: "payload list \<Rightarrow> py_exn + (usec \<times> usec) list" where
  "contiguous_blocks candles =
     (case map p_time candles of
        [] \<Rightarrow> Inr []
      | t # ts \<Rightarrow> contiguous_loop t t ts)"

fun validate_all :: "usec \<Rightarrow> asset_id \<Rightarrow> payload list \<Rightarrow> py_exn + payload list" where
  "validate_all now asset [] = Inr []"
| "validate_all now asset (p # ps) =
     (case validate_candle_payload now asset p of
        Inl e \<Rightarrow> Inl e
      | Inr q \<Rightarrow> (case validate_all now asset ps of Inl e \<Rightarrow> Inl e | Inr qs \<Rightarrow> Inr (q # qs)))"

definition prepare_batch :: "usec \<Rightarrow> asset_id \<Rightarrow> payload list \<Rightarrow> py_exn + payload list" where
  "prepare_batch now asset ps =
     (case validate_all now asset ps of
        Inl e \<Rightarrow> Inl e
      | Inr qs \<Rightarrow> (case contiguous_blocks qs of Inl e \<Rightarrow> Inl e | Inr _ \<Rightarrow> Inr qs))"

section \<open>Canonical upserts\<close>

definition source_priority :: "string \<Rightarrow> int" where
  "source_priority src =
     (if src = ''binance_rest'' then 30
      else if src = ''binance_ws'' then 20
      else if src = ''legacy'' then 0
      else 10)"

definition ohlcv_changed :: "candle_row \<Rightarrow> candle_row \<Rightarrow> bool" where
  "ohlcv_changed target excluded \<longleftrightarrow>
     c_open target \<noteq> c_open excluded \<or> c_high target \<noteq> c_high excluded \<or>
     c_low target \<noteq> c_low excluded \<or> c_close target \<noteq> c_close excluded \<or>
     c_volume target \<noteq> c_volume excluded"

text \<open>The constraint \<open>_OHLCV_VALIDITY_CHECK\<close> of the candle tables.\<close>

definition ohlcv_check :: "candle_row \<Rightarrow> bool" where
  "ohlcv_check r \<longleftrightarrow>
     list_all f_isfinite [c_open r, c_high r, c_low r, c_close r, c_volume r] \<and>
     f_lt (Fin 0) (c_open r) \<and> f_lt (Fin 0) (c_high r) \<and> f_lt (Fin 0) (c_low r) \<and>
     f_lt (Fin 0) (c_close r) \<and> f_le (Fin 0) (c_volume r) \<and>
     f_le (c_low r) (c_high r) \<and> f_le (c_low r) (c_open r) \<and> f_le (c_open r) (c_high r) \<and>
     f_le (c_low r) (c_close r) \<and> f_le (c_close r) (c_high r)"

text \<open>
  \<open>_canonical_values\<close>: the columns of a payload, \<open>candle.get(column)\<close> giving NULL for a
  missing key.  A NULL price, a row that violates the CHECK constraint, and an asset that is
  not registered make the INSERT raise.
\<close>

definition canonical_row :: "payload \<Rightarrow> candle_row option" where
  "canonical_row p =
     (case (field_value (p_timestamp p), field_value (p_asset_id p), field_value (p_source p)) of
        (Some ts, Some a, Some src) \<Rightarrow>
          (case map field_value (ohlcv_fields p) of
             [Some o', Some h, Some l, Some c, Some v] \<Rightarrow>
               Some \<lparr>c_asset = a, c_time = utc ts, c_open = o', c_high = h, c_low = l, c_close = c,
                     c_volume = v, c_source = src,
                     c_event_time = map_option utc (field_value (p_event_time p)),
                     c_received_at = map_option utc (field_value (p_received_at p)),
                     data_revision = 1\<rparr>
           | _ \<Rightarrow> None)
      | _ \<Rightarrow> None)"

definition insertable :: "asset_row list \<Rightarrow> candle_row option \<Rightarrow> bool" where
  "insertable registry r =
     (case r of None \<Rightarrow> False
      | Some row \<Rightarrow> ohlcv_check row \<and> minute_aligned (c_time row) \<and> py_strip (c_source row) \<noteq> [] \<and>
          c_asset row \<in> set (map a_id registry))"

text \<open>\<open>SET ... data_revision = data_revision + 1\<close>, the key unchanged.\<close>

definition correct_row :: "candle_row \<Rightarrow> candle_row \<Rightarrow> candle_row" where
  "correct_row excluded target =
     target\<lparr>c_open := c_open excluded, c_high := c_high excluded, c_low := c_low excluded,
            c_close := c_close excluded, c_volume := c_volume excluded, c_source := c_source excluded,
            c_event_time := c_event_time excluded, c_received_at := c_received_at excluded,
            data_revision := data_revision target + 1\<rparr>"

definition lookup_row :: "asset_id \<times> usec \<Rightarrow> candle_row list \<Rightarrow> candle_row option" where
  "lookup_row k rows = find (\<lambda>r. candle_key r = k) rows"

text \<open>
  \<open>INSERT ... ON CONFLICT (asset_id, timestamp) DO UPDATE ... WHERE changed AND authoritative
  RETURNING\<close> for one row: the row as written, if it was written, and the table.
\<close>

definition upsert_row :: "candle_row \<Rightarrow> candle_row list \<Rightarrow> candle_row option \<times> candle_row list" where
  "upsert_row excluded rows =
     (case lookup_row (candle_key excluded) rows of
        None \<Rightarrow> (Some excluded, rows @ [excluded])
      | Some target \<Rightarrow>
          if ohlcv_changed target excluded \<and>
             source_priority (c_source excluded) \<ge> source_priority (c_source target)
          then (Some (correct_row excluded target),
                map (\<lambda>r. if candle_key r = candle_key excluded then correct_row excluded r else r) rows)
          else (None, rows))"

fun upsert_rows :: "candle_row list \<Rightarrow> candle_row list \<Rightarrow> candle_row list \<times> candle_row list" where
  "upsert_rows [] rows = ([], rows)"
| "upsert_rows (e # es) rows =
     (case upsert_row e rows of
        (written, rows1) \<Rightarrow>
          (case upsert_rows es rows1 of
             (rest, rows2) \<Rightarrow> (case written of None \<Rightarrow> rest | Some r \<Rightarrow> r # rest, rows2)))"

definition revision_key :: "candle_row \<Rightarrow> asset_id \<times> usec \<times> int" where
  "revision_key r = (c_asset r, c_time r, data_revision r)"

fun append_raw_revisions :: "usec \<Rightarrow> candle_row list \<Rightarrow> revision_row list \<Rightarrow> revision_row list" where
  "append_raw_revisions now [] ledger = ledger"
| "append_raw_revisions now (r # rs) ledger =
     append_raw_revisions now rs
       (if revision_key r \<in> set (map (\<lambda>v. revision_key (rev_row v)) ledger) then ledger
        else ledger @ [\<lparr>rev_row = r, recorded_at = now\<rparr>])"

definition upsert_raw_candles :: "usec \<Rightarrow> payload list \<Rightarrow> candle_db \<Rightarrow> py_exn + (candle_row list \<times> candle_db)" where
  "upsert_raw_candles now candles db =
     (if \<not> list_all (insertable (assets db)) (map canonical_row candles)
      then Inl (OtherException ''IntegrityError'')
      else case upsert_rows (map (the \<circ> canonical_row) candles) (raw_candles db) of
        (changed_rows, rows) \<Rightarrow>
          Inr (changed_rows,
               db\<lparr>raw_candles := rows,
                  candle_revisions := append_raw_revisions now changed_rows (candle_revisions db)\<rparr>))"

definition upsert_staged_candles :: "payload list \<Rightarrow> candle_db \<Rightarrow> py_exn + candle_db" where
  "upsert_staged_candles candles db =
     (if \<not> list_all (insertable (assets db)) (map canonical_row candles)
      then Inl (OtherException ''IntegrityError'')
      else Inr (db\<lparr>staged_candles :=
             snd (upsert_rows (map (the \<circ> canonical_row) candles) (staged_candles db))\<rparr>))"

datatype target_model = Raw1mCandle | GapStagingCandle

definition insert_candle_batch ::
  "usec \<Rightarrow> payload list \<Rightarrow> target_model \<Rightarrow> candle_db \<Rightarrow> py_exn + (candle_row list \<times> candle_db)" where
  "insert_candle_batch now candles target db =
     (case candles of
        [] \<Rightarrow> Inr ([], db)
      | c # _ \<Rightarrow>
          (case field_value (p_asset_id c) of
             None \<Rightarrow> Inl (PayloadCorruptionError ''Candle batch requires an integer asset_id'')
           | Some batch_asset_id \<Rightarrow>
               (case prepare_batch now batch_asset_id candles of
                  Inl e \<Rightarrow> Inl e
                | Inr prepared \<Rightarrow>
                    (case target of
                       Raw1mCandle \<Rightarrow> upsert_raw_candles now prepared db
                     | GapStagingCandle \<Rightarrow>
                         map_sum id (\<lambda>db'. ([], db')) (upsert_staged_candles prepared db)))))"

section \<open>Coverage\<close>

text \<open>
  \<open>count(*)\<close>, \<open>min\<close> and \<open>max\<close> of the raw timestamps of an asset in an interval, compared with
  what a complete interval must give.
\<close>

definition times_between :: "candle_row list \<Rightarrow> asset_id \<Rightarrow> usec \<Rightarrow> usec \<Rightarrow> usec list" where
  "times_between rows asset a b =
     map c_time (filter (\<lambda>r. c_asset r = asset \<and> a \<le> c_time r \<and> c_time r \<le> b) rows)"

definition list_min :: "int list \<Rightarrow> int option" where
  "list_min xs = (case xs of [] \<Rightarrow> None | x # r \<Rightarrow> Some (fold min r x))"

definition list_max :: "int list \<Rightarrow> int option" where
  "list_max xs = (case xs of [] \<Rightarrow> None | x # r \<Rightarrow> Some (fold max r x))"

definition raw_block_is_complete :: "candle_row list \<Rightarrow> asset_id \<Rightarrow> usec \<Rightarrow> usec \<Rightarrow> bool" where
  "raw_block_is_complete rows asset block_start block_end =
     (let expected_count = (block_end - block_start) div minute_us + 1;
          ts = times_between rows asset block_start block_end
      in int (length ts) = expected_count \<and> list_min ts = Some block_start \<and> list_max ts = Some block_end)"

definition next_range_id :: "sync_range list \<Rightarrow> int" where
  "next_range_id rs = foldr (\<lambda>r m. max (sr_id r) m) rs 0 + 1"

definition merge_verified_sync_ranges :: "asset_id \<Rightarrow> usec \<Rightarrow> usec \<Rightarrow> sync_range list \<Rightarrow> sync_range list" where
  "merge_verified_sync_ranges asset new_start new_end rs =
     (let overlaps = filter (\<lambda>r. sr_asset r = asset \<and> start_timestamp r \<le> new_end + minute_us \<and>
                               end_timestamp r \<ge> new_start - minute_us) rs;
          merged_start = foldl (\<lambda>m r. min m (start_timestamp r)) new_start overlaps;
          merged_end = foldl (\<lambda>m r. max m (end_timestamp r)) new_end overlaps;
          ids = map sr_id overlaps
      in filter (\<lambda>r. sr_id r \<notin> set ids) rs @
         [\<lparr>sr_id = next_range_id rs, sr_asset = asset,
           start_timestamp = merged_start, end_timestamp = merged_end\<rparr>])"

definition update_sync_ranges :: "asset_id \<Rightarrow> usec \<Rightarrow> usec \<Rightarrow> candle_db \<Rightarrow> py_exn + candle_db" where
  "update_sync_ranges asset new_start new_end db =
     (if \<not> raw_block_is_complete (raw_candles db) asset new_start new_end
      then Inl (RuntimeError ''Refusing to update sync_ranges'')
      else Inr (db\<lparr>sync_ranges := merge_verified_sync_ranges asset new_start new_end (sync_ranges db)\<rparr>))"

fun mark_verified_raw_blocks :: "asset_id \<Rightarrow> (usec \<times> usec) list \<Rightarrow> candle_db \<Rightarrow> candle_db" where
  "mark_verified_raw_blocks asset [] db = db"
| "mark_verified_raw_blocks asset ((a, b) # blocks) db =
     mark_verified_raw_blocks asset blocks
       (if \<not> raw_block_is_complete (raw_candles db) asset a b then db
        else db\<lparr>sync_ranges := merge_verified_sync_ranges asset a b (sync_ranges db)\<rparr>)"

section \<open>Commits\<close>

definition write_raw_batch :: "usec \<Rightarrow> asset_id \<Rightarrow> payload list \<Rightarrow> candle_db \<Rightarrow> py_exn + candle_db" where
  "write_raw_batch now asset batch db =
     (case insert_candle_batch now batch Raw1mCandle db of
        Inl e \<Rightarrow> Inl e
      | Inr (_, db1) \<Rightarrow>
          (case contiguous_blocks batch of
             Inl e \<Rightarrow> Inl e
           | Inr blocks \<Rightarrow> Inr (mark_verified_raw_blocks asset blocks db1)))"

definition commit_raw_batch_in_transaction ::
  "usec \<Rightarrow> asset_id \<Rightarrow> payload list \<Rightarrow> candle_db \<Rightarrow> py_exn + candle_db" where
  "commit_raw_batch_in_transaction now asset batch db =
     (if batch = [] then Inr db
      else case prepare_batch now asset batch of
        Inl e \<Rightarrow> Inl e
      | Inr prepared \<Rightarrow> write_raw_batch now asset prepared db)"

text \<open>The seven-day cutoff between canonical storage and staging.\<close>

definition live_candles :: "usec \<Rightarrow> payload list \<Rightarrow> payload list" where
  "live_candles now ps = filter (\<lambda>p. p_time p \<ge> now - 7 * day_us) ps"

definition historical_candles :: "usec \<Rightarrow> payload list \<Rightarrow> payload list" where
  "historical_candles now ps = filter (\<lambda>p. p_time p < now - 7 * day_us) ps"

definition commit_batch_in_transaction ::
  "usec \<Rightarrow> asset_id \<Rightarrow> payload list \<Rightarrow> candle_db \<Rightarrow> py_exn + candle_db" where
  "commit_batch_in_transaction now asset batch db =
     (if batch = [] then Inr db
      else case prepare_batch now asset batch of
        Inl e \<Rightarrow> Inl e
      | Inr prepared \<Rightarrow>
          let live = live_candles now prepared;
              historical = historical_candles now prepared in
          case (if live \<noteq> [] then write_raw_batch now asset live db else Inr db) of
            Inl e \<Rightarrow> Inl e
          | Inr db1 \<Rightarrow>
              if historical \<noteq> [] then map_sum id snd (insert_candle_batch now historical GapStagingCandle db1)
              else Inr db1)"

text \<open>
  The transaction-owning wrapper; \<open>ownership_check\<close> runs inside the transaction and may raise.
\<close>

definition commit_batch ::
  "usec \<Rightarrow> asset_id \<Rightarrow> payload list \<Rightarrow> py_exn option \<Rightarrow> candle_db \<Rightarrow> py_exn + candle_db" where
  "commit_batch now asset batch ownership_check db =
     (if batch = [] then Inr db
      else case ownership_check of
        Some e \<Rightarrow> Inl e
      | None \<Rightarrow> commit_batch_in_transaction now asset batch db)"

section \<open>Detecting missing ranges\<close>

definition append_gap :: "nat \<Rightarrow> usec \<Rightarrow> (usec \<times> usec) list \<Rightarrow> usec \<Rightarrow> usec \<Rightarrow> bool \<times> (usec \<times> usec) list" where
  "append_gap max_gaps requested_end gaps s e =
     (if s \<ge> e then (False, gaps)
      else if length gaps < max_gaps then (False, gaps @ [(s, e)])
      else (True, butlast gaps @ [(fst (last gaps), requested_end)]))"

text \<open>The loop over the ranges, then the suffix after it.\<close>

fun detect_loop :: "nat \<Rightarrow> usec \<Rightarrow> usec \<Rightarrow> (usec \<times> usec) list \<Rightarrow> sync_range list \<Rightarrow> usec \<times> (usec \<times> usec) list" where
  "detect_loop max_gaps requested_end current_pointer gaps [] = (current_pointer, gaps)"
| "detect_loop max_gaps requested_end current_pointer gaps (r # rs) =
     (let (stop, gaps1) =
        (if current_pointer < start_timestamp r
         then append_gap max_gaps requested_end gaps current_pointer (start_timestamp r)
         else (False, gaps))
      in if stop then (current_pointer, gaps1)
         else let p = max current_pointer (end_timestamp r)
              in if p \<ge> requested_end then (p, gaps1)
                 else detect_loop max_gaps requested_end p gaps1 rs)"

text \<open>The capped query for the ranges that touch the window, in start order.\<close>

definition fetch_ranges :: "sync_range list \<Rightarrow> asset_id \<Rightarrow> usec \<Rightarrow> usec \<Rightarrow> nat \<Rightarrow> sync_range list" where
  "fetch_ranges ranges asset requested_start requested_end n =
     select_limit start_timestamp
       (\<lambda>r. sr_asset r = asset \<and> end_timestamp r \<ge> requested_start \<and> start_timestamp r \<le> requested_end)
       n ranges"

definition detect_missing_ranges ::
  "sync_range list \<Rightarrow> asset_id \<Rightarrow> usec \<Rightarrow> usec \<Rightarrow> int \<Rightarrow> int \<Rightarrow> py_exn + (usec \<times> usec) list" where
  "detect_missing_ranges ranges asset requested_start requested_end max_ranges max_gaps =
     (if max_ranges \<le> 0 \<or> max_gaps \<le> 0 then Inl (ValueError ''max_ranges and max_gaps must be positive'')
      else if requested_start \<ge> requested_end then Inr []
      else
        let fetched = fetch_ranges ranges asset requested_start requested_end (nat max_ranges + 1);
            existing = (if length fetched > nat max_ranges then take (nat max_ranges) fetched else fetched);
            (pointer, gaps) = detect_loop (nat max_gaps) requested_end requested_start [] existing
        in Inr (if pointer < requested_end
                then snd (append_gap (nat max_gaps) requested_end gaps pointer requested_end)
                else gaps))"

section \<open>Synchronising an asset\<close>

definition registered_symbol :: "asset_row list \<Rightarrow> asset_id \<Rightarrow> string option" where
  "registered_symbol registry asset =
     map_option a_symbol (find (\<lambda>a. a_id a = asset \<and> a_exchange a = ''BINANCE'' \<and> a_active a) registry)"

definition validate_binance_asset :: "asset_row list \<Rightarrow> asset_id \<Rightarrow> string \<Rightarrow> py_exn + unit" where
  "validate_binance_asset registry asset symbol =
     (case registered_symbol registry asset of
        None \<Rightarrow> Inl (ValueError ''Asset is not an active BINANCE asset'')
      | Some registered \<Rightarrow>
          if py_upper (py_strip registered) \<noteq> py_upper (py_strip symbol)
          then Inl (ValueError ''Binance symbol does not match asset registry symbol'')
          else Inr ())"

text \<open>
  The REST client is asked for one gap at a time; what its generator yields, and the exception
  it ends with if any, is the parameter \<open>klines\<close>.  Batches of \<open>batch_size\<close> candles are
  committed in transactions of their own.
\<close>

type_synonym kline_source = "usec \<Rightarrow> usec \<Rightarrow> payload list \<times> py_exn option"

fun sync_stream ::
  "nat \<Rightarrow> usec \<Rightarrow> asset_id \<Rightarrow> payload list \<Rightarrow> payload list \<Rightarrow> py_exn option \<Rightarrow> candle_db \<Rightarrow> (py_exn + unit) \<times> candle_db" where
  "sync_stream batch_size now asset batch [] failure db =
     (case failure of
        Some e \<Rightarrow> (Inl e, db)
      | None \<Rightarrow>
          (case commit_batch now asset batch None db of
             Inl e \<Rightarrow> (Inl e, db)
           | Inr db' \<Rightarrow> (Inr (), db')))"
| "sync_stream batch_size now asset batch (candle # stream) failure db =
     (let batch' = batch @ [candle\<lparr>p_asset_id := Val asset\<rparr>] in
      if length batch' \<ge> batch_size
      then case commit_batch now asset batch' None db of
             Inl e \<Rightarrow> (Inl e, db)
           | Inr db' \<Rightarrow> sync_stream batch_size now asset [] stream failure db'
      else sync_stream batch_size now asset batch' stream failure db)"

fun sync_gaps ::
  "kline_source \<Rightarrow> usec \<Rightarrow> asset_id \<Rightarrow> (usec \<times> usec) list \<Rightarrow> candle_db \<Rightarrow> (py_exn + unit) \<times> candle_db" where
  "sync_gaps klines now asset [] db = (Inr (), db)"
| "sync_gaps klines now asset ((a, b) # gaps) db =
     (case sync_stream 5000 now asset [] (fst (klines a b)) (snd (klines a b)) db of
        (Inl e, db') \<Rightarrow> (Inl e, db')
      | (Inr _, db') \<Rightarrow> sync_gaps klines now asset gaps db')"

definition sync_asset ::
  "kline_source option \<Rightarrow> int \<Rightarrow> int \<Rightarrow> usec \<Rightarrow> asset_id \<Rightarrow> string \<Rightarrow> usec \<Rightarrow> usec \<Rightarrow> candle_db \<Rightarrow> (py_exn + unit) \<times> candle_db" where
  "sync_asset client max_ranges max_gaps now asset symbol start_time end_time db =
     (case client of
        None \<Rightarrow> (Inl (RuntimeError ''sync_asset requires an initialized Binance client''), db)
      | Some klines \<Rightarrow>
          (case validate_binance_asset (assets db) asset symbol of
             Inl e \<Rightarrow> (Inl e, db)
           | Inr _ \<Rightarrow>
               (case detect_missing_ranges (sync_ranges db) asset start_time end_time max_ranges max_gaps of
                  Inl e \<Rightarrow> (Inl e, db)
                | Inr gaps \<Rightarrow> sync_gaps klines now asset gaps db)))"

section \<open>Validated payloads\<close>

lemma validate_timestamp_Inr:
  assumes "validate_timestamp p = Inr q"
  shows "\<exists>t. minute_aligned t \<and> q = p\<lparr>p_timestamp := Val (utc_dt t)\<rparr> \<and> t = p_time p"
  using assms second_microsecond_zero_iff
  by (auto simp: validate_timestamp_def dt_second_def dt_microsecond_def utc_dt_def p_time_def Let_def
      split: pyfield.splits if_splits)

lemma validate_timestamp_normal:
  "minute_aligned t \<Longrightarrow> p_timestamp p = Val (utc_dt t) \<Longrightarrow> validate_timestamp p = Inr p"
  using second_microsecond_zero_iff [of t]
  by (simp add: validate_timestamp_def dt_second_def dt_microsecond_def utc_dt_def)

lemma validate_provenance_idem: "validate_provenance f = Inr g \<Longrightarrow> validate_provenance g = Inr g"
  by (auto simp: validate_provenance_def split: pyfield.splits if_splits)

lemma validate_asset_Inr: "validate_asset a p = Inr q \<Longrightarrow> q = p\<lparr>p_asset_id := Val a\<rparr>"
  by (auto simp: validate_asset_def split: if_splits)

lemma validate_source_Inr:
  "validate_source p = Inr q \<Longrightarrow>
   \<exists>x. py_strip x \<noteq> [] \<and> length (py_strip x) \<le> 64 \<and> q = p\<lparr>p_source := Val (py_lower (py_strip x))\<rparr>"
  by (auto simp: validate_source_def Let_def split: option.splits if_splits)

lemma validate_source_normal:
  "p_source p = Val (py_lower (py_strip x)) \<Longrightarrow> py_strip x \<noteq> [] \<Longrightarrow> length (py_strip x) \<le> 64 \<Longrightarrow>
   validate_source p = Inr p"
  by (cases p) (simp add: validate_source_def)

text \<open>The shape of a payload that passed validation, and that a second pass changes nothing.\<close>

definition normal_payload :: "asset_id \<Rightarrow> payload \<Rightarrow> bool" where
  "normal_payload asset p \<longleftrightarrow>
     (\<exists>t. minute_aligned t \<and> p_timestamp p = Val (utc_dt t)) \<and> p_asset_id p = Val asset \<and>
     (\<exists>x. py_strip x \<noteq> [] \<and> length (py_strip x) \<le> 64 \<and> p_source p = Val (py_lower (py_strip x))) \<and>
     validate_provenance (p_event_time p) = Inr (p_event_time p) \<and>
     validate_provenance (p_received_at p) = Inr (p_received_at p) \<and> p_received_at p \<noteq> Absent \<and>
     validate_ohlcv p = Inr ()"

lemma validate_steps:
  assumes "validate_candle_payload now a p = Inr q"
  obtains t x ev rc where "minute_aligned t" "t = p_time p" "py_strip x \<noteq> []" "length (py_strip x) \<le> 64"
    "validate_provenance (p_event_time p) = Inr ev" "validate_provenance (p_received_at p) = Inr rc"
    "q = p\<lparr>p_timestamp := Val (utc_dt t), p_asset_id := Val a, p_source := Val (py_lower (py_strip x)),
           p_event_time := ev, p_received_at := (if rc = Absent then Val (utc_dt now) else rc)\<rparr>"
    "validate_ohlcv q = Inr ()"
proof -
  obtain p1 where p1: "validate_timestamp p = Inr p1"
    using assms by (cases "validate_timestamp p") (auto simp: validate_candle_payload_def)
  obtain p2 where p2: "validate_asset a p1 = Inr p2"
    using assms p1 by (cases "validate_asset a p1") (auto simp: validate_candle_payload_def)
  obtain p3 where p3: "validate_source p2 = Inr p3"
    using assms p1 p2 by (cases "validate_source p2") (auto simp: validate_candle_payload_def)
  obtain ev where ev: "validate_provenance (p_event_time p3) = Inr ev"
    using assms p1 p2 p3 by (cases "validate_provenance (p_event_time p3)") (auto simp: validate_candle_payload_def)
  obtain rc where rc: "validate_provenance (p_received_at p3) = Inr rc"
    using assms p1 p2 p3 ev
    by (cases "validate_provenance (p_received_at p3)") (auto simp: validate_candle_payload_def)
  let ?p4 = "p3\<lparr>p_event_time := ev, p_received_at := (if rc = Absent then Val (utc_dt now) else rc)\<rparr>"
  have q: "validate_ohlcv ?p4 = Inr ()" "q = ?p4"
    using assms by (auto simp: validate_candle_payload_def p1 p2 p3 ev rc Let_def split: sum.splits)
  obtain t where t: "minute_aligned t" "p1 = p\<lparr>p_timestamp := Val (utc_dt t)\<rparr>" "t = p_time p"
    using validate_timestamp_Inr [OF p1] by blast
  obtain x where x: "py_strip x \<noteq> []" "length (py_strip x) \<le> 64" "p3 = p2\<lparr>p_source := Val (py_lower (py_strip x))\<rparr>"
    using validate_source_Inr [OF p3] by blast
  show thesis
    using that [of t x ev rc] t x q ev rc validate_asset_Inr [OF p2] by simp
qed

lemma validate_provenance_utc: "validate_provenance (Val (utc_dt t)) = Inr (Val (utc_dt t))"
  by (simp add: validate_provenance_def)

lemma validate_normal:
  assumes "validate_candle_payload now a p = Inr q"
  shows "normal_payload a q \<and> p_time q = p_time p"
proof -
  obtain t x ev rc where t: "minute_aligned t" "t = p_time p"
    and x: "py_strip x \<noteq> []" "length (py_strip x) \<le> 64"
    and ev: "validate_provenance (p_event_time p) = Inr ev"
    and rc: "validate_provenance (p_received_at p) = Inr rc"
    and q: "q = p\<lparr>p_timestamp := Val (utc_dt t), p_asset_id := Val a, p_source := Val (py_lower (py_strip x)),
           p_event_time := ev, p_received_at := (if rc = Absent then Val (utc_dt now) else rc)\<rparr>"
    and ok: "validate_ohlcv q = Inr ()"
    using assms by (rule validate_steps)
  have fields: "p_timestamp q = Val (utc_dt t)" "p_asset_id q = Val a"
    "p_source q = Val (py_lower (py_strip x))" "p_event_time q = ev"
    "p_received_at q = (if rc = Absent then Val (utc_dt now) else rc)"
    by (simp_all add: q)
  have "validate_provenance (p_received_at q) = Inr (p_received_at q)" "p_received_at q \<noteq> Absent"
    using validate_provenance_idem [OF rc] by (simp_all add: fields validate_provenance_utc)
  moreover have "validate_provenance ev = Inr ev" using ev by (rule validate_provenance_idem)
  ultimately have "normal_payload a q"
    using t(1) x ok unfolding normal_payload_def by (metis fields(1-4))
  moreover have "p_time q = p_time p" by (simp add: p_time_def [of q] fields t(2))
  ultimately show ?thesis ..
qed

lemma normal_validate:
  assumes "normal_payload a q"
  shows "validate_candle_payload now a q = Inr q"
proof -
  have asset: "validate_asset a q = Inr q" using assms by (cases q) (simp add: normal_payload_def validate_asset_def)
  moreover have "q\<lparr>p_event_time := p_event_time q, p_received_at := p_received_at q\<rparr> = q" by (cases q) simp
  ultimately show ?thesis
    using assms by (auto simp: normal_payload_def validate_candle_payload_def validate_timestamp_normal
      validate_source_normal Let_def)
qed

lemma validate_all_Inr:
  "validate_all now a ps = Inr qs \<Longrightarrow> list_all (normal_payload a) qs \<and> map p_time qs = map p_time ps"
proof (induction ps arbitrary: qs)
  case (Cons p ps)
  then obtain q qs' where "validate_candle_payload now a p = Inr q" "validate_all now a ps = Inr qs'" "qs = q # qs'"
    by (auto split: sum.splits)
  with Cons.IH validate_normal [of now a p q] show ?case by simp
qed simp

lemma normal_validate_all: "list_all (normal_payload a) qs \<Longrightarrow> validate_all now a qs = Inr qs"
  by (induction qs) (auto simp: normal_validate)

text \<open>A prepared batch: normal payloads with strictly increasing timestamps.\<close>

lemma contiguous_loop_sorted:
  "contiguous_loop s p ts = Inr blocks \<Longrightarrow> sorted_wrt (<) (p # ts)"
proof (induction s p ts arbitrary: blocks rule: contiguous_loop.induct)
  case (2 s p c ts)
  then have pc: "p < c" by (simp split: if_splits)
  have "sorted_wrt (<) (c # ts)"
  proof (cases "c - p = minute_us")
    case True
    then show ?thesis using "2.IH"(2) "2.prems" pc by simp
  next
    case False
    then obtain bs where "contiguous_loop c c ts = Inr bs"
      using "2.prems" pc by (auto split: sum.splits)
    then show ?thesis using "2.IH"(1) False pc by simp
  qed
  with pc show ?case by auto
qed simp

lemma sorted_contiguous_loop:
  "sorted_wrt (<) (p # ts) \<Longrightarrow> \<exists>blocks. contiguous_loop s p ts = Inr blocks"
proof (induction ts arbitrary: s p)
  case (Cons c ts)
  then have pc: "p < c" and "sorted_wrt (<) (c # ts)" by auto
  then obtain b1 b2 where "contiguous_loop c c ts = Inr b1" "contiguous_loop s c ts = Inr b2"
    using Cons.IH by blast
  then show ?case using pc by auto
qed simp

lemma contiguous_blocks_Inr_iff:
  "(\<exists>blocks. contiguous_blocks ps = Inr blocks) \<longleftrightarrow> sorted_wrt (<) (map p_time ps)"
  using contiguous_loop_sorted sorted_contiguous_loop
  by (cases "map p_time ps") (auto simp: contiguous_blocks_def)

lemma prepare_batch_Inr:
  assumes "prepare_batch now a ps = Inr qs"
  shows "list_all (normal_payload a) qs" and "map p_time qs = map p_time ps"
    and "sorted_wrt (<) (map p_time qs)"
proof -
  have v: "validate_all now a ps = Inr qs" and "\<exists>bs. contiguous_blocks qs = Inr bs"
    using assms by (auto simp: prepare_batch_def split: sum.splits)
  then show "sorted_wrt (<) (map p_time qs)" by (simp add: contiguous_blocks_Inr_iff)
  show "list_all (normal_payload a) qs" "map p_time qs = map p_time ps"
    using validate_all_Inr [OF v] by simp_all
qed

lemma prepare_batch_normal:
  assumes "list_all (normal_payload a) qs" and "sorted_wrt (<) (map p_time qs)"
  shows "prepare_batch now a qs = Inr qs"
proof -
  obtain bs where "contiguous_blocks qs = Inr bs"
    using assms(2) contiguous_blocks_Inr_iff by blast
  then show ?thesis using normal_validate_all [OF assms(1)] by (simp add: prepare_batch_def)
qed

text \<open>What the blocks of a strictly increasing list of times are.\<close>

definition minutes_of :: "usec \<times> usec \<Rightarrow> usec set" where
  "minutes_of b = {t. minute_aligned t \<and> fst b \<le> t \<and> t \<le> snd b}"

lemma minutes_of_step: "minute_aligned e \<Longrightarrow> s \<le> e + minute_us \<Longrightarrow> minutes_of (s, e + minute_us) = insert (e + minute_us) (minutes_of (s, e))"
proof -
  assume e: "minute_aligned e" and s: "s \<le> e + minute_us"
  have e': "minute_aligned (e + minute_us)" using e by (simp add: minute_aligned_def)
  have "t \<le> e" if "minute_aligned t" "t \<le> e + minute_us" "t \<noteq> e + minute_us" for t
    using minute_aligned_less [OF that(1) e'] that by force
  then show ?thesis using e' s by (auto simp: minutes_of_def)
qed

lemma contiguous_loop_blocks:
  "contiguous_loop s p ts = Inr blocks \<Longrightarrow> minute_aligned s \<Longrightarrow> minute_aligned p \<Longrightarrow> s \<le> p \<Longrightarrow>
   list_all minute_aligned ts \<Longrightarrow>
   (\<forall>b \<in> set blocks. fst b \<le> snd b \<and> minute_aligned (fst b) \<and> minute_aligned (snd b)) \<and>
   (\<Union> (minutes_of ` set blocks)) = minutes_of (s, p) \<union> set ts"
proof (induction s p ts arbitrary: blocks rule: contiguous_loop.induct)
  case (2 s p c ts)
  have pc: "p < c" using "2.prems" by (simp split: if_splits)
  have c: "minute_aligned c" "list_all minute_aligned ts" using "2.prems" by simp_all
  have self: "minutes_of (c, c) = {c}" using c(1) by (auto simp: minutes_of_def)
  show ?case
  proof (cases "c - p = minute_us")
    case True
    then have "c = p + minute_us" by simp
    then have "minutes_of (s, c) = insert c (minutes_of (s, p))"
      using minutes_of_step "2.prems"(3,4) by simp
    then show ?thesis using "2.IH"(2) True pc c "2.prems" by auto
  next
    case False
    then obtain bs where bs: "contiguous_loop c c ts = Inr bs" "blocks = (s, p) # bs"
      using "2.prems" pc by (auto split: sum.splits)
    then show ?thesis using "2.IH"(1) False pc c self "2.prems" by auto
  qed
qed auto

lemma contiguous_blocks_props:
  assumes "contiguous_blocks ps = Inr blocks" and "list_all minute_aligned (map p_time ps)"
  shows "\<forall>b \<in> set blocks. fst b \<le> snd b \<and> minute_aligned (fst b) \<and> minute_aligned (snd b)"
    and "\<Union> (minutes_of ` set blocks) = set (map p_time ps)"
proof -
  have "(\<forall>b \<in> set blocks. fst b \<le> snd b \<and> minute_aligned (fst b) \<and> minute_aligned (snd b)) \<and>
      \<Union> (minutes_of ` set blocks) = set (map p_time ps)"
  proof (cases "map p_time ps")
    case Nil
    then show ?thesis using assms by (simp add: contiguous_blocks_def)
  next
    case (Cons t ts)
    then have loop: "contiguous_loop t t ts = Inr blocks" and al: "minute_aligned t" "list_all minute_aligned ts"
      using assms by (simp_all add: contiguous_blocks_def)
    have "minutes_of (t, t) = {t}" using al(1) by (auto simp: minutes_of_def)
    then show ?thesis using contiguous_loop_blocks [OF loop al(1,1) order_refl al(2)] Cons by simp
  qed
  then show "\<forall>b \<in> set blocks. fst b \<le> snd b \<and> minute_aligned (fst b) \<and> minute_aligned (snd b)"
    and "\<Union> (minutes_of ` set blocks) = set (map p_time ps)" by blast+
qed

lemma normal_time_aligned: "normal_payload a p \<Longrightarrow> minute_aligned (p_time p)"
  by (auto simp: normal_payload_def p_time_def)

section \<open>Upserts\<close>

definition row_ok :: "candle_row \<Rightarrow> bool" where
  "row_ok r \<longleftrightarrow> ohlcv_check r \<and> minute_aligned (c_time r) \<and> 1 \<le> data_revision r"

definition rows_ok :: "candle_row list \<Rightarrow> bool" where
  "rows_ok rows \<longleftrightarrow> distinct (map candle_key rows) \<and> list_all row_ok rows"

definition has_minute :: "candle_row list \<Rightarrow> asset_id \<Rightarrow> usec \<Rightarrow> bool" where
  "has_minute rows asset t \<longleftrightarrow> (asset, t) \<in> candle_key ` set rows"

lemma correct_row_simps [simp]:
  "candle_key (correct_row e r) = candle_key r" "c_time (correct_row e r) = c_time r"
  "c_asset (correct_row e r) = c_asset r"
  "c_source (correct_row e r) = c_source e" "data_revision (correct_row e r) = data_revision r + 1"
  by (simp_all add: correct_row_def candle_key_def)

lemma row_ok_correct: "row_ok e \<Longrightarrow> row_ok r \<Longrightarrow> row_ok (correct_row e r)"
  by (simp add: row_ok_def ohlcv_check_def correct_row_def)

lemma lookup_row_Some: "lookup_row k rows = Some r \<Longrightarrow> r \<in> set rows \<and> candle_key r = k"
  by (auto simp: lookup_row_def find_Some_iff)

lemma lookup_row_None: "lookup_row k rows = None \<longleftrightarrow> k \<notin> candle_key ` set rows"
  by (auto simp: lookup_row_def find_None_iff)

lemma lookup_row_iff:
  "distinct (map candle_key rows) \<Longrightarrow> lookup_row k rows = Some r \<longleftrightarrow> r \<in> set rows \<and> candle_key r = k"
  by (metis distinct_map_unique lookup_row_None lookup_row_Some image_eqI not_Some_eq)

text \<open>The three outcomes of one upsert.\<close>

lemma upsert_row_cases [consumes 1, case_names unchanged inserted corrected]:
  assumes "upsert_row e rows = (w, rows')"
  obtains r where "w = None" "rows' = rows" "r \<in> set rows" "candle_key r = candle_key e"
  | "w = Some e" "rows' = rows @ [e]" "candle_key e \<notin> candle_key ` set rows"
  | r where "w = Some (correct_row e r)" "r \<in> set rows" "candle_key r = candle_key e"
      "ohlcv_changed r e" "source_priority (c_source r) \<le> source_priority (c_source e)"
      "rows' = map (\<lambda>x. if candle_key x = candle_key e then correct_row e x else x) rows"
proof (cases "lookup_row (candle_key e) rows")
  case None
  then show thesis using assms that(2) by (simp add: upsert_row_def flip: lookup_row_None)
next
  case (Some r)
  have r: "r \<in> set rows" "candle_key r = candle_key e" using lookup_row_Some [OF Some] by simp_all
  show thesis
  proof (cases "ohlcv_changed r e \<and> source_priority (c_source r) \<le> source_priority (c_source e)")
    case True
    with assms Some have "w = Some (correct_row e r)"
      "rows' = map (\<lambda>x. if candle_key x = candle_key e then correct_row e x else x) rows"
      by (simp_all add: upsert_row_def)
    with True r show thesis using that(3) by blast
  next
    case False
    with assms Some have "w = None" "rows' = rows" by (auto simp: upsert_row_def)
    with r show thesis using that(1) by blast
  qed
qed

lemma upsert_row_keys:
  assumes "upsert_row e rows = (w, rows')"
  shows "candle_key ` set rows' = insert (candle_key e) (candle_key ` set rows) \<and>
   (distinct (map candle_key rows) \<longrightarrow> distinct (map candle_key rows'))"
  using assms
proof (cases rule: upsert_row_cases)
  case (unchanged r)
  then show ?thesis by (metis image_eqI insert_absorb)
next
  case inserted
  then show ?thesis by simp
next
  case (corrected r)
  then have "map candle_key rows' = map candle_key rows" by simp
  then show ?thesis using corrected(2,3) by (metis image_eqI insert_absorb list.set_map)
qed

lemma upsert_row_row_ok:
  assumes "upsert_row e rows = (w, rows')" and "row_ok e" and "list_all row_ok rows"
  shows "list_all row_ok rows'"
  using assms(1)
  by (cases rule: upsert_row_cases) (use assms(2,3) in \<open>auto simp: list_all_iff row_ok_correct\<close>)

lemma upsert_row_other:
  assumes "upsert_row e rows = (w, rows')" and "candle_key r \<noteq> candle_key e"
  shows "r \<in> set rows' \<longleftrightarrow> r \<in> set rows"
  using assms(1)
proof (cases rule: upsert_row_cases)
  case (corrected t)
  then show ?thesis using assms(2) by (auto simp: image_iff)
qed (use assms(2) in auto)

lemma upsert_rows_keys:
  "upsert_rows es rows = (ch, rows') \<Longrightarrow>
   candle_key ` set rows' = candle_key ` set es \<union> candle_key ` set rows \<and>
   (distinct (map candle_key rows) \<longrightarrow> distinct (map candle_key rows'))"
proof (induction es arbitrary: rows ch rows')
  case (Cons e es)
  then obtain w rows1 ch1 where "upsert_row e rows = (w, rows1)" "upsert_rows es rows1 = (ch1, rows')"
    by (auto split: prod.splits)
  then show ?case using Cons.IH [of rows1 ch1 rows'] upsert_row_keys [of e rows w rows1] by simp
qed simp

lemma upsert_rows_row_ok:
  "upsert_rows es rows = (ch, rows') \<Longrightarrow> list_all row_ok es \<Longrightarrow> list_all row_ok rows \<Longrightarrow> list_all row_ok rows'"
proof (induction es arbitrary: rows ch rows')
  case (Cons e es)
  then obtain w rows1 ch1 where "upsert_row e rows = (w, rows1)" "upsert_rows es rows1 = (ch1, rows')"
    by (auto split: prod.splits)
  then show ?case using Cons upsert_row_row_ok by (metis list.pred_inject(2))
qed simp

lemma upsert_rows_ok:
  "upsert_rows es rows = (ch, rows') \<Longrightarrow> list_all row_ok es \<Longrightarrow> rows_ok rows \<Longrightarrow> rows_ok rows'"
  using upsert_rows_row_ok upsert_rows_keys by (auto simp: rows_ok_def)

lemma upsert_rows_other:
  "upsert_rows es rows = (ch, rows') \<Longrightarrow> candle_key r \<notin> candle_key ` set es \<Longrightarrow>
   r \<in> set rows' \<longleftrightarrow> r \<in> set rows"
proof (induction es arbitrary: rows ch rows')
  case (Cons e es)
  then obtain w rows1 ch1 where "upsert_row e rows = (w, rows1)" "upsert_rows es rows1 = (ch1, rows')"
    by (auto split: prod.splits)
  then show ?case using Cons upsert_row_other by (metis image_eqI insertCI list.simps(15) image_insert)
qed simp

text \<open>
  How the table of after relates to the table of before: a row is kept, or replaced by a row
  of the same key with the next revision and a source of at least the same priority.
\<close>

definition row_succ :: "candle_row \<Rightarrow> candle_row \<Rightarrow> bool" where
  "row_succ r r' \<longleftrightarrow> r' = r \<or>
     candle_key r' = candle_key r \<and> data_revision r < data_revision r' \<and>
     source_priority (c_source r) \<le> source_priority (c_source r')"

lemma row_succ_trans: "row_succ a b \<Longrightarrow> row_succ b c \<Longrightarrow> row_succ a c"
  by (auto simp: row_succ_def)

lemma upsert_row_succ:
  assumes "upsert_row e rows = (w, rows')" and "distinct (map candle_key rows)" and "r \<in> set rows"
  shows "\<exists>r' \<in> set rows'. row_succ r r'"
  using assms(1)
proof (cases rule: upsert_row_cases)
  case (corrected t)
  show ?thesis
  proof (cases "candle_key r = candle_key e")
    case True
    then have "r = t" using distinct_map_unique [OF assms(2,3) corrected(2)] corrected(3) by simp
    moreover have "correct_row e r \<in> set rows'"
      using True assms(3) unfolding corrected(6) by (force simp: image_iff)
    ultimately show ?thesis using corrected(5) by (intro bexI [of _ "correct_row e r"]) (auto simp: row_succ_def)
  next
    case False
    then have "r \<in> set rows'" using assms upsert_row_other by blast
    then show ?thesis by (auto simp: row_succ_def)
  qed
qed (use assms(3) in \<open>auto simp: row_succ_def\<close>)

lemma upsert_rows_succ:
  "upsert_rows es rows = (ch, rows') \<Longrightarrow> distinct (map candle_key rows) \<Longrightarrow> r \<in> set rows \<Longrightarrow>
   \<exists>r' \<in> set rows'. row_succ r r'"
proof (induction es arbitrary: rows ch rows' r)
  case Nil
  then show ?case by (auto simp: row_succ_def)
next
  case (Cons e es)
  then obtain w rows1 ch1 where up: "upsert_row e rows = (w, rows1)" and rest: "upsert_rows es rows1 = (ch1, rows')"
    by (auto split: prod.splits)
  obtain r1 where r1: "r1 \<in> set rows1" "row_succ r r1" using upsert_row_succ [OF up] Cons.prems by blast
  have "distinct (map candle_key rows1)" using upsert_row_keys [OF up] Cons.prems(2) by blast
  then obtain r2 where "r2 \<in> set rows'" "row_succ r1 r2" using Cons.IH [OF rest _ r1(1)] by blast
  then show ?case using r1(2) row_succ_trans by blast
qed

text \<open>
  The rows \<open>RETURNING\<close> reports, for a batch without duplicate keys: they are in the table of
  after, and every other row of the table of after was there before.
\<close>

lemma upsert_rows_changed:
  "upsert_rows es rows = (ch, rows') \<Longrightarrow> distinct (map candle_key es) \<Longrightarrow> distinct (map candle_key rows) \<Longrightarrow>
   distinct (map candle_key ch) \<and> candle_key ` set ch \<subseteq> candle_key ` set es \<and> set ch \<subseteq> set rows' \<and>
   set rows' \<subseteq> set ch \<union> set rows \<and>
   (\<forall>c \<in> set ch. \<forall>r \<in> set rows. candle_key r = candle_key c \<longrightarrow> data_revision r < data_revision c)"
proof (induction es arbitrary: rows ch rows')
  case (Cons e es)
  then obtain w rows1 ch1 where up: "upsert_row e rows = (w, rows1)" and rest: "upsert_rows es rows1 = (ch1, rows')"
    and ch: "ch = (case w of None \<Rightarrow> ch1 | Some r \<Rightarrow> r # ch1)"
    by (auto split: prod.splits)
  have d1: "distinct (map candle_key rows1)" using upsert_row_keys [OF up] Cons.prems(3) by blast
  have IH: "distinct (map candle_key ch1)" "candle_key ` set ch1 \<subseteq> candle_key ` set es" "set ch1 \<subseteq> set rows'"
    "set rows' \<subseteq> set ch1 \<union> set rows1"
    "\<forall>c \<in> set ch1. \<forall>r \<in> set rows1. candle_key r = candle_key c \<longrightarrow> data_revision r < data_revision c"
    using Cons.IH [OF rest _ d1] Cons.prems(2) by simp_all
  have fresh: "candle_key e \<notin> candle_key ` set es" using Cons.prems(2) by simp
  have old: "data_revision r < data_revision c"
    if "c \<in> set ch1" "r \<in> set rows" "candle_key r = candle_key c" for c r
  proof -
    have "candle_key r \<noteq> candle_key e" using that IH(2) fresh by (metis image_eqI subsetD)
    then have "r \<in> set rows1" using upsert_row_other [OF up] that(2) by blast
    then show ?thesis using IH(5) that by blast
  qed
  have stays: "c \<in> set rows'" if "c \<in> set rows1" "candle_key c = candle_key e" for c
    using upsert_rows_other [OF rest] that fresh by simp
  show ?case using up
  proof (cases rule: upsert_row_cases)
    case (unchanged r)
    then show ?thesis using IH old ch by auto
  next
    case inserted
    have "e \<in> set rows'" using stays [of e] inserted by simp
    moreover have "\<forall>r \<in> set rows. candle_key r \<noteq> candle_key e" using inserted(3) by (metis image_eqI)
    moreover have "candle_key e \<notin> candle_key ` set ch1" using IH(2) fresh by blast
    ultimately show ?thesis using IH inserted old ch by auto
  next
    case (corrected r)
    let ?c = "correct_row e r"
    have c1: "?c \<in> set rows1" using corrected(2,3) unfolding corrected(6) by (force simp: image_iff)
    have "?c \<in> set rows'" using stays [OF c1] corrected(3) by simp
    moreover have rows1: "set rows1 \<subseteq> insert ?c (set rows)"
      using distinct_map_unique [OF Cons.prems(3) _ corrected(2)] corrected(3) unfolding corrected(6) by auto
    moreover have "\<forall>x \<in> set rows. candle_key x = candle_key ?c \<longrightarrow> data_revision x < data_revision ?c"
      using distinct_map_unique [OF Cons.prems(3) _ corrected(2)] by auto
    moreover have "candle_key ?c \<notin> candle_key ` set ch1" using IH(2) fresh corrected(3) by auto
    ultimately show ?thesis using IH corrected(1,3) old ch by auto
  qed
qed auto

section \<open>A complete count proves every minute\<close>

lemma minutes_of_image:
  assumes "minute_aligned a" and "a \<le> b"
  shows "minutes_of (a, b) = (\<lambda>k. a + int k * minute_us) ` {0..nat ((b - a) div minute_us)}"
proof (intro equalityI subsetI)
  fix t assume "t \<in> minutes_of (a, b)"
  then have t: "minute_aligned t" "a \<le> t" "t \<le> b" by (auto simp: minutes_of_def)
  have "(t - a) mod minute_us = 0"
    using t(1) assms(1) mod_diff_eq [of t minute_us a] by (simp add: minute_aligned_def)
  then have k: "t = a + (t - a) div minute_us * minute_us" using div_mult_mod_eq [of "t - a" minute_us] by linarith
  have "0 \<le> (t - a) div minute_us" using t(2) by (simp add: pos_imp_zdiv_nonneg_iff)
  moreover have "(t - a) div minute_us \<le> (b - a) div minute_us" using t(3) by (intro zdiv_mono1) simp_all
  ultimately show "t \<in> (\<lambda>k. a + int k * minute_us) ` {0..nat ((b - a) div minute_us)}"
    using k by (intro image_eqI [of _ _ "nat ((t - a) div minute_us)"]) auto
next
  fix t assume "t \<in> (\<lambda>k. a + int k * minute_us) ` {0..nat ((b - a) div minute_us)}"
  then obtain k where t: "t = a + int k * minute_us" and k: "k \<le> nat ((b - a) div minute_us)" by auto
  have "0 \<le> (b - a) div minute_us" using assms(2) by (simp add: pos_imp_zdiv_nonneg_iff)
  then have "int k \<le> (b - a) div minute_us" using k by linarith
  then have "int k * minute_us \<le> (b - a) div minute_us * minute_us" by (intro mult_right_mono) simp_all
  also have "\<dots> \<le> b - a" using div_mult_mod_eq [of "b - a" minute_us] pos_mod_sign [of minute_us "b - a"] by linarith
  finally have "t \<le> b" using t by simp
  moreover have "minute_aligned t" using assms(1) by (simp add: t minute_aligned_def)
  ultimately show "t \<in> minutes_of (a, b)" using t by (simp add: minutes_of_def)
qed

lemma finite_minutes: "minute_aligned a \<Longrightarrow> finite (minutes_of (a, b))"
  by (cases "a \<le> b") (simp add: minutes_of_image, simp add: minutes_of_def)

lemma card_minutes:
  assumes "minute_aligned a" and "a \<le> b"
  shows "int (card (minutes_of (a, b))) = (b - a) div minute_us + 1"
proof -
  have "inj_on (\<lambda>k. a + int k * minute_us) {0..nat ((b - a) div minute_us)}" by (auto simp: inj_on_def)
  then have "card (minutes_of (a, b)) = nat ((b - a) div minute_us) + 1"
    by (simp add: minutes_of_image [OF assms] card_image)
  moreover have "0 \<le> (b - a) div minute_us" using assms(2) by (simp add: pos_imp_zdiv_nonneg_iff)
  ultimately show ?thesis by simp
qed

lemma list_min_Some: "list_min xs = Some m \<longleftrightarrow> xs \<noteq> [] \<and> m = Min (set xs)"
proof (cases xs)
  case (Cons x r)
  then show ?thesis using Min.set_eq_fold [of x r] by (auto simp: list_min_def)
qed (simp add: list_min_def)

lemma list_max_Some: "list_max xs = Some m \<longleftrightarrow> xs \<noteq> [] \<and> m = Max (set xs)"
proof (cases xs)
  case (Cons x r)
  then show ?thesis using Max.set_eq_fold [of x r] by (auto simp: list_max_def)
qed (simp add: list_max_def)

lemma set_times_between:
  "set (times_between rows asset a b) = {t. has_minute rows asset t \<and> a \<le> t \<and> t \<le> b}"
  by (force simp: times_between_def has_minute_def candle_key_def)

lemma distinct_times_between:
  "distinct (map candle_key rows) \<Longrightarrow> distinct (times_between rows asset a b)"
  by (auto simp: times_between_def distinct_map candle_key_def inj_on_def)

lemma has_minute_aligned: "rows_ok rows \<Longrightarrow> has_minute rows asset t \<Longrightarrow> minute_aligned t"
  by (auto simp: rows_ok_def row_ok_def has_minute_def candle_key_def list_all_iff)

lemma raw_block_complete_iff:
  assumes "rows_ok rows"
  shows "raw_block_is_complete rows asset a b \<longleftrightarrow>
    a \<le> b \<and> minute_aligned a \<and> minute_aligned b \<and> (\<forall>t \<in> minutes_of (a, b). has_minute rows asset t)"
    (is "?complete \<longleftrightarrow> ?all")
proof -
  let ?ts = "times_between rows asset a b"
  have dist: "length ?ts = card (set ?ts)"
    using distinct_times_between assms by (simp add: rows_ok_def distinct_card)
  have sub: "set ?ts \<subseteq> minutes_of (a, b)"
    using has_minute_aligned [OF assms] by (auto simp: set_times_between minutes_of_def)
  show ?thesis
  proof
    assume c: ?complete
    then have ends: "a \<in> set ?ts" "b \<in> set ?ts"
      using Min_in [of "set ?ts"] Max_in [of "set ?ts"]
      by (auto simp: raw_block_is_complete_def Let_def list_min_Some list_max_Some)
    then have al: "minute_aligned a" "minute_aligned b" "a \<le> b" using sub by (auto simp: minutes_of_def)
    have "int (card (set ?ts)) = int (card (minutes_of (a, b)))"
      using c card_minutes [OF al(1,3)] dist by (simp add: raw_block_is_complete_def Let_def)
    then have "set ?ts = minutes_of (a, b)"
      using card_subset_eq [OF finite_minutes [OF al(1)] sub] by simp
    then show ?all using al by (auto simp: set_times_between)
  next
    assume all: ?all
    then have eq: "set ?ts = minutes_of (a, b)" using sub by (auto simp: set_times_between minutes_of_def)
    have "a \<in> set ?ts" "b \<in> set ?ts" unfolding eq using all by (auto simp: minutes_of_def)
    moreover from this have "Min (set ?ts) = a" "Max (set ?ts) = b"
      by (auto intro!: Min_eqI Max_eqI simp: set_times_between)
    ultimately show ?complete
      using all dist eq card_minutes [of a b]
      by (auto simp: raw_block_is_complete_def Let_def list_min_Some list_max_Some)
  qed
qed

section \<open>Merging ranges\<close>

definition range_covers :: "sync_range \<Rightarrow> asset_id \<Rightarrow> usec \<Rightarrow> bool" where
  "range_covers r asset t \<longleftrightarrow> sr_asset r = asset \<and> start_timestamp r \<le> t \<and> t \<le> end_timestamp r"

definition covered :: "sync_range list \<Rightarrow> asset_id \<Rightarrow> usec \<Rightarrow> bool" where
  "covered rs asset t \<longleftrightarrow> (\<exists>r \<in> set rs. range_covers r asset t)"

definition range_ok :: "sync_range \<Rightarrow> bool" where
  "range_ok r \<longleftrightarrow> minute_aligned (start_timestamp r) \<and> minute_aligned (end_timestamp r) \<and>
     start_timestamp r \<le> end_timestamp r"

text \<open>Two ranges of one asset are more than a minute apart.\<close>

definition apart :: "sync_range \<Rightarrow> sync_range \<Rightarrow> bool" where
  "apart r q \<longleftrightarrow> (if sr_asset r = sr_asset q
     then end_timestamp r + minute_us < start_timestamp q \<or> end_timestamp q + minute_us < start_timestamp r
     else True)"

definition ranges_ok :: "sync_range list \<Rightarrow> bool" where
  "ranges_ok rs \<longleftrightarrow> distinct (map sr_id rs) \<and> list_all range_ok rs \<and> sorted_wrt apart rs"

lemma apart_sym: "apart r q = apart q r"
  by (auto simp: apart_def)

lemma ranges_apart:
  "ranges_ok rs \<Longrightarrow> r \<in> set rs \<Longrightarrow> q \<in> set rs \<Longrightarrow> r \<noteq> q \<Longrightarrow> apart r q"
proof -
  assume ok: "ranges_ok rs" and "r \<in> set rs" "q \<in> set rs" "r \<noteq> q"
  then obtain i j where "i < length rs" "j < length rs" "rs ! i = r" "rs ! j = q" "i \<noteq> j"
    by (metis in_set_conv_nth)
  then show ?thesis
    using ok apart_sym by (cases i j rule: linorder_cases) (auto simp: ranges_ok_def sorted_wrt_iff_nth_less)
qed

lemma foldl_min_props:
  "foldl (\<lambda>m r. min m (f r)) x rs \<le> x \<and> (\<forall>r \<in> set rs. foldl (\<lambda>m r. min m (f r)) x rs \<le> f r) \<and>
   (foldl (\<lambda>m r. min m (f r)) x rs = x \<or> (\<exists>r \<in> set rs. foldl (\<lambda>m r. min m (f r)) x rs = (f r :: int)))"
proof (induction rs arbitrary: x)
  case (Cons a rs)
  show ?case using Cons.IH [of "min x (f a)"] by (auto simp: min_def split: if_splits)
qed simp

lemma foldl_max_props:
  "x \<le> foldl (\<lambda>m r. max m (f r)) x rs \<and> (\<forall>r \<in> set rs. f r \<le> foldl (\<lambda>m r. max m (f r)) x rs) \<and>
   (foldl (\<lambda>m r. max m (f r)) x rs = x \<or> (\<exists>r \<in> set rs. foldl (\<lambda>m r. max m (f r)) x rs = (f r :: int)))"
proof (induction rs arbitrary: x)
  case (Cons a rs)
  show ?case using Cons.IH [of "max x (f a)"] by (auto simp: max_def split: if_splits)
qed simp

lemma next_range_id_fresh: "r \<in> set rs \<Longrightarrow> sr_id r < next_range_id rs"
  by (induction rs) (auto simp: next_range_id_def)

text \<open>The ranges a merge replaces, and the bounds of the range it inserts.\<close>

definition touching :: "asset_id \<Rightarrow> usec \<Rightarrow> usec \<Rightarrow> sync_range list \<Rightarrow> sync_range list" where
  "touching asset a b rs =
     filter (\<lambda>r. sr_asset r = asset \<and> start_timestamp r \<le> b + minute_us \<and> end_timestamp r \<ge> a - minute_us) rs"

definition merged_range :: "asset_id \<Rightarrow> usec \<Rightarrow> usec \<Rightarrow> sync_range list \<Rightarrow> sync_range" where
  "merged_range asset a b rs =
     \<lparr>sr_id = next_range_id rs, sr_asset = asset,
      start_timestamp = foldl (\<lambda>m r. min m (start_timestamp r)) a (touching asset a b rs),
      end_timestamp = foldl (\<lambda>m r. max m (end_timestamp r)) b (touching asset a b rs)\<rparr>"

lemma merge_eq:
  assumes "distinct (map sr_id rs)"
  shows "merge_verified_sync_ranges asset a b rs =
    filter (\<lambda>r. r \<notin> set (touching asset a b rs)) rs @ [merged_range asset a b rs]"
proof -
  have "sr_id r \<in> sr_id ` set (touching asset a b rs) \<longleftrightarrow> r \<in> set (touching asset a b rs)" if "r \<in> set rs" for r
    using distinct_map_unique [OF assms that] by (auto simp: touching_def)
  then have "filter (\<lambda>r. sr_id r \<notin> sr_id ` set (touching asset a b rs)) rs =
      filter (\<lambda>r. r \<notin> set (touching asset a b rs)) rs"
    by (intro filter_cong) auto
  then show ?thesis by (simp add: merge_verified_sync_ranges_def Let_def merged_range_def touching_def)
qed

lemma merged_range_bounds:
  "start_timestamp (merged_range asset a b rs) \<le> a"
  "b \<le> end_timestamp (merged_range asset a b rs)"
  "r \<in> set (touching asset a b rs) \<Longrightarrow> start_timestamp (merged_range asset a b rs) \<le> start_timestamp r"
  "r \<in> set (touching asset a b rs) \<Longrightarrow> end_timestamp r \<le> end_timestamp (merged_range asset a b rs)"
  "start_timestamp (merged_range asset a b rs) = a \<or>
     (\<exists>r \<in> set (touching asset a b rs). start_timestamp (merged_range asset a b rs) = start_timestamp r)"
  "end_timestamp (merged_range asset a b rs) = b \<or>
     (\<exists>r \<in> set (touching asset a b rs). end_timestamp (merged_range asset a b rs) = end_timestamp r)"
  using foldl_min_props [of start_timestamp a "touching asset a b rs"]
    foldl_max_props [of b end_timestamp "touching asset a b rs"]
  by (simp_all add: merged_range_def)

lemma merged_range_asset [simp]: "sr_asset (merged_range asset a b rs) = asset"
  by (simp add: merged_range_def)

lemma merged_range_ok:
  assumes "list_all range_ok rs" and "minute_aligned a" "minute_aligned b" "a \<le> b"
  shows "range_ok (merged_range asset a b rs)"
proof -
  have "range_ok r" if "r \<in> set (touching asset a b rs)" for r
    using that assms(1) by (auto simp: touching_def list_all_iff)
  then have "minute_aligned (start_timestamp (merged_range asset a b rs))"
    and "minute_aligned (end_timestamp (merged_range asset a b rs))"
    using merged_range_bounds(5,6) [of asset a b rs] assms(2,3) unfolding range_ok_def by metis+
  then show ?thesis using merged_range_bounds(1,2) [where asset = asset and a = a and b = b and rs = rs] assms(4)
    by (simp add: range_ok_def)
qed

lemma merged_range_apart:
  assumes ok: "ranges_ok rs" and q: "q \<in> set rs" "q \<notin> set (touching asset a b rs)" and ab: "a \<le> b"
  shows "apart q (merged_range asset a b rs)"
proof (cases "sr_asset q = asset")
  case True
  let ?m = "merged_range asset a b rs"
  have m: "sr_asset ?m = asset" by simp
  have touch: "r \<in> set rs \<and> start_timestamp r \<le> b + minute_us \<and> a - minute_us \<le> end_timestamp r \<and> apart q r"
    if "r \<in> set (touching asset a b rs)" for r
    using that ranges_apart [OF ok q(1)] q(2) by (auto simp: touching_def)
  have qok: "start_timestamp q \<le> end_timestamp q"
    using ok q(1) by (auto simp: ranges_ok_def list_all_iff range_ok_def)
  have same: "sr_asset r = asset" if "r \<in> set (touching asset a b rs)" for r
    using that by (simp add: touching_def)
  have "b + minute_us < start_timestamp q \<or> end_timestamp q < a - minute_us"
    using q True by (auto simp: touching_def)
  then show ?thesis
  proof
    assume right: "b + minute_us < start_timestamp q"
    have "end_timestamp r + minute_us < start_timestamp q" if r: "r \<in> set (touching asset a b rs)" for r
      using touch [OF r] same [OF r] right True qok unfolding apart_def by auto
    then have "end_timestamp ?m + minute_us < start_timestamp q"
      using merged_range_bounds(6) [of asset a b rs] right by force
    then show ?thesis using True m by (simp add: apart_def)
  next
    assume left: "end_timestamp q < a - minute_us"
    have "end_timestamp q + minute_us < start_timestamp r" if r: "r \<in> set (touching asset a b rs)" for r
      using touch [OF r] same [OF r] left True qok unfolding apart_def by auto
    then have "end_timestamp q + minute_us < start_timestamp ?m"
      using merged_range_bounds(5) [of asset a b rs] left by force
    then show ?thesis using True m by (simp add: apart_def)
  qed
qed (simp add: apart_def merged_range_def)

lemma merge_ranges_ok:
  assumes "ranges_ok rs" and "minute_aligned a" "minute_aligned b" "a \<le> b"
  shows "ranges_ok (merge_verified_sync_ranges asset a b rs)"
proof -
  have d: "distinct (map sr_id rs)" using assms(1) by (simp add: ranges_ok_def)
  let ?keep = "filter (\<lambda>r. r \<notin> set (touching asset a b rs)) rs"
  have "distinct (map sr_id ?keep)" using d by (rule distinct_map_filter)
  moreover have "sr_id (merged_range asset a b rs) \<notin> sr_id ` set ?keep"
    using next_range_id_fresh by (fastforce simp: merged_range_def)
  moreover have "list_all range_ok ?keep" using assms(1) by (auto simp: ranges_ok_def list_all_iff)
  moreover have "sorted_wrt apart ?keep" using assms(1) by (simp add: ranges_ok_def sorted_wrt_filter)
  moreover have "\<forall>q \<in> set ?keep. apart q (merged_range asset a b rs)"
    using merged_range_apart [OF assms(1) _ _ assms(4)] by simp
  ultimately show ?thesis
    using merged_range_ok [OF _ assms(2-4)] assms(1)
    by (simp add: ranges_ok_def merge_eq [OF d] sorted_wrt_append)
qed

lemma merge_covered:
  assumes ok: "ranges_ok rs" and t: "minute_aligned t" and ab: "minute_aligned a" "minute_aligned b" "a \<le> b"
  shows "covered (merge_verified_sync_ranges asset a b rs) x t \<longleftrightarrow>
    covered rs x t \<or> x = asset \<and> a \<le> t \<and> t \<le> b"
proof -
  let ?m = "merged_range asset a b rs" and ?T = "touching asset a b rs"
  have d: "distinct (map sr_id rs)" using ok by (simp add: ranges_ok_def)
  have touch: "r \<in> set rs \<and> sr_asset r = asset \<and> start_timestamp r \<le> b + minute_us \<and>
      a - minute_us \<le> end_timestamp r" if "r \<in> set ?T" for r
    using that by (simp add: touching_def)
  have rok: "minute_aligned (end_timestamp r)" "minute_aligned (start_timestamp r)" if "r \<in> set rs" for r
    using that ok by (auto simp: ranges_ok_def list_all_iff range_ok_def)
  have split: "covered rs asset t \<or> a \<le> t \<and> t \<le> b" if in_m: "start_timestamp ?m \<le> t" "t \<le> end_timestamp ?m"
  proof -
    consider "a \<le> t" "t \<le> b" | "t < a" | "b < t" by linarith
    then show ?thesis
    proof cases
      case 2
      then obtain r where r: "r \<in> set ?T" "start_timestamp r \<le> t"
        using merged_range_bounds(5) [of asset a b rs] in_m(1) by force
      have "t + minute_us \<le> a" using minute_aligned_less [OF t ab(1) 2] .
      then have "t \<le> end_timestamp r" using touch [OF r(1)] by linarith
      then show ?thesis using r touch [OF r(1)] by (auto simp: covered_def range_covers_def)
    next
      case 3
      then obtain r where r: "r \<in> set ?T" "t \<le> end_timestamp r"
        using merged_range_bounds(6) [of asset a b rs] in_m(2) by force
      have "b + minute_us \<le> t" using minute_aligned_less [OF ab(2) t 3] .
      then have "start_timestamp r \<le> t" using touch [OF r(1)] by linarith
      then show ?thesis using r touch [OF r(1)] by (auto simp: covered_def range_covers_def)
    qed simp
  qed
  show ?thesis
  proof
    assume "covered (merge_verified_sync_ranges asset a b rs) x t"
    then consider r where "r \<in> set rs" "range_covers r x t" | "range_covers ?m x t"
      by (auto simp: covered_def merge_eq [OF d])
    then show "covered rs x t \<or> x = asset \<and> a \<le> t \<and> t \<le> b"
    proof cases
      case 2
      then have "x = asset" "start_timestamp ?m \<le> t" "t \<le> end_timestamp ?m"
        by (auto simp: range_covers_def)
      then show ?thesis using split by auto
    qed (auto simp: covered_def)
  next
    assume "covered rs x t \<or> x = asset \<and> a \<le> t \<and> t \<le> b"
    then show "covered (merge_verified_sync_ranges asset a b rs) x t"
    proof
      assume "covered rs x t"
      then obtain r where r: "r \<in> set rs" "range_covers r x t" by (auto simp: covered_def)
      show ?thesis
      proof (cases "r \<in> set ?T")
        case True
        then have "range_covers ?m x t"
          using r(2) touch [OF True] merged_range_bounds(3,4) [OF True]
          by (auto simp: range_covers_def)
        then show ?thesis by (auto simp: covered_def merge_eq [OF d])
      qed (use r in \<open>auto simp: covered_def merge_eq [OF d]\<close>)
    next
      assume "x = asset \<and> a \<le> t \<and> t \<le> b"
      then have "range_covers ?m x t"
        using merged_range_bounds(1,2) [where asset = asset and a = a and b = b and rs = rs]
        by (auto simp: range_covers_def)
      then show ?thesis by (auto simp: covered_def merge_eq [OF d])
    qed
  qed
qed

section \<open>The database invariant\<close>

definition ledger_ok :: "candle_row list \<Rightarrow> revision_row list \<Rightarrow> bool" where
  "ledger_ok rows ledger \<longleftrightarrow>
     set rows \<subseteq> rev_row ` set ledger \<and>
     (\<forall>v \<in> set ledger. \<exists>r \<in> set rows. candle_key r = candle_key (rev_row v) \<and>
        data_revision (rev_row v) \<le> data_revision r)"

definition coverage_sound :: "candle_row list \<Rightarrow> sync_range list \<Rightarrow> bool" where
  "coverage_sound rows rs \<longleftrightarrow>
     (\<forall>r \<in> set rs. \<forall>t \<in> minutes_of (start_timestamp r, end_timestamp r). has_minute rows (sr_asset r) t)"

definition db_ok :: "candle_db \<Rightarrow> bool" where
  "db_ok db \<longleftrightarrow>
     rows_ok (raw_candles db) \<and> rows_ok (staged_candles db) \<and> ranges_ok (sync_ranges db) \<and>
     coverage_sound (raw_candles db) (sync_ranges db) \<and>
     ledger_ok (raw_candles db) (candle_revisions db)"

lemma coverage_sound_iff:
  "coverage_sound rows rs \<longleftrightarrow> (\<forall>x t. minute_aligned t \<longrightarrow> covered rs x t \<longrightarrow> has_minute rows x t)"
  by (fastforce simp: coverage_sound_def covered_def range_covers_def minutes_of_def)

lemma append_raw_revisions_fresh:
  "\<forall>c \<in> set ch. revision_key c \<notin> (\<lambda>v. revision_key (rev_row v)) ` set ledger \<Longrightarrow>
   distinct (map revision_key ch) \<Longrightarrow>
   append_raw_revisions now ch ledger = ledger @ map (\<lambda>r. \<lparr>rev_row = r, recorded_at = now\<rparr>) ch"
proof (induction ch arbitrary: ledger)
  case (Cons c ch)
  have "\<forall>x \<in> set ch. revision_key x \<notin>
      (\<lambda>v. revision_key (rev_row v)) ` set (ledger @ [\<lparr>rev_row = c, recorded_at = now\<rparr>])"
    using Cons.prems by (auto, metis image_eqI)
  then show ?case using Cons by simp
qed simp

lemma canonical_normal:
  assumes "normal_payload a p" and "canonical_row p = Some r"
  shows "candle_key r = (a, p_time p)" and "data_revision r = 1"
  using assms
  by (auto simp: normal_payload_def canonical_row_def candle_key_def field_value_def p_time_def
      split: option.splits list.splits)

lemma canonical_rows:
  assumes ins: "list_all (insertable registry) (map canonical_row qs)" and norm: "list_all (normal_payload a) qs"
  defines "es \<equiv> map (the \<circ> canonical_row) qs"
  shows "list_all row_ok es" and "map candle_key es = map (\<lambda>p. (a, p_time p)) qs"
proof -
  have "row_ok (the (canonical_row p)) \<and> candle_key (the (canonical_row p)) = (a, p_time p)" if "p \<in> set qs" for p
  proof -
    have "insertable registry (canonical_row p)" using ins that by (auto simp: list_all_iff)
    then obtain r where r: "canonical_row p = Some r" "ohlcv_check r" "minute_aligned (c_time r)"
      by (auto simp: insertable_def split: option.splits)
    have "normal_payload a p" using norm that by (auto simp: list_all_iff)
    then show ?thesis using canonical_normal [OF _ r(1)] r by (simp add: row_ok_def)
  qed
  then show "list_all row_ok es" "map candle_key es = map (\<lambda>p. (a, p_time p)) qs"
    by (auto simp: es_def list_all_iff)
qed

lemma ledger_upsert:
  assumes up: "upsert_rows es rows = (ch, rows')" and d: "distinct (map candle_key es)" "distinct (map candle_key rows)"
    and led: "ledger_ok rows ledger"
  shows "ledger_ok rows' (append_raw_revisions now ch ledger)"
proof -
  note ch = upsert_rows_changed [OF up d]
  have dist: "distinct (map revision_key ch)"
    using ch by (auto simp: distinct_map inj_on_def revision_key_def candle_key_def)
  have fresh: "revision_key c \<notin> (\<lambda>v. revision_key (rev_row v)) ` set ledger" if "c \<in> set ch" for c
  proof
    assume "revision_key c \<in> (\<lambda>v. revision_key (rev_row v)) ` set ledger"
    then obtain v where v: "v \<in> set ledger" "revision_key c = revision_key (rev_row v)" by auto
    then obtain r where "r \<in> set rows" "candle_key r = candle_key (rev_row v)"
      "data_revision (rev_row v) \<le> data_revision r"
      using led by (auto simp: ledger_ok_def)
    with v(2) ch that show False by (fastforce simp: revision_key_def candle_key_def)
  qed
  have eq: "append_raw_revisions now ch ledger = ledger @ map (\<lambda>r. \<lparr>rev_row = r, recorded_at = now\<rparr>) ch"
    using fresh dist by (intro append_raw_revisions_fresh) auto
  have "set rows' \<subseteq> rev_row ` set (append_raw_revisions now ch ledger)"
  proof
    fix r assume "r \<in> set rows'"
    then consider "r \<in> set ch" | "r \<in> set rows" using ch by auto
    then show "r \<in> rev_row ` set (append_raw_revisions now ch ledger)"
    proof cases
      case 1
      then show ?thesis by (force simp: eq image_iff)
    next
      case 2
      then show ?thesis using led by (auto simp: eq ledger_ok_def)
    qed
  qed
  moreover have "\<exists>r \<in> set rows'. candle_key r = candle_key (rev_row v) \<and> data_revision (rev_row v) \<le> data_revision r"
    if "v \<in> set (append_raw_revisions now ch ledger)" for v
  proof -
    consider "v \<in> set ledger" | "rev_row v \<in> set ch" using \<open>v \<in> _\<close> by (auto simp: eq)
    then show ?thesis
    proof cases
      case 1
      then obtain r where r: "r \<in> set rows" "candle_key r = candle_key (rev_row v)" "data_revision (rev_row v) \<le> data_revision r"
        using led by (auto simp: ledger_ok_def)
      obtain r' where "r' \<in> set rows'" "row_succ r r'" using upsert_rows_succ [OF up d(2) r(1)] by blast
      then show ?thesis using r by (intro bexI [of _ r']) (auto simp: row_succ_def)
    next
      case 2
      then show ?thesis using ch by blast
    qed
  qed
  ultimately show ?thesis by (simp add: ledger_ok_def)
qed

lemma upsert_raw_ok:
  assumes up: "upsert_raw_candles now qs db = Inr (ch, db')" and ok: "db_ok db"
    and norm: "list_all (normal_payload a) qs" and sorted: "sorted_wrt (<) (map p_time qs)"
  shows "db_ok db'" and "sync_ranges db' = sync_ranges db" and "staged_candles db' = staged_candles db"
    and "has_minute (raw_candles db') x t \<longleftrightarrow> has_minute (raw_candles db) x t \<or> x = a \<and> t \<in> set (map p_time qs)"
    and "r \<in> set (raw_candles db) \<Longrightarrow> \<exists>r' \<in> set (raw_candles db'). row_succ r r'"
proof -
  define es where "es = map (the \<circ> canonical_row) qs"
  have ins: "list_all (insertable (assets db)) (map canonical_row qs)"
    using up by (auto simp: upsert_raw_candles_def split: if_splits)
  obtain rows' where rows': "upsert_rows es (raw_candles db) = (ch, rows')"
    and db': "db' = db\<lparr>raw_candles := rows', candle_revisions := append_raw_revisions now ch (candle_revisions db)\<rparr>"
    using up by (auto simp: upsert_raw_candles_def es_def split: if_splits prod.splits)
  note es = canonical_rows [OF ins norm, folded es_def]
  have dt: "distinct (map p_time qs)" using sorted strict_sorted_iff by blast
  have des: "distinct (map candle_key es)" unfolding es(2) using dt by (simp add: distinct_map inj_on_def)
  have draw: "distinct (map candle_key (raw_candles db))" using ok by (simp add: db_ok_def rows_ok_def)
  have keys: "candle_key ` set rows' = (\<lambda>p. (a, p_time p)) ` set qs \<union> candle_key ` set (raw_candles db)"
    using upsert_rows_keys [OF rows'] es(2) by (metis list.set_map)
  show hm: "has_minute (raw_candles db') x t \<longleftrightarrow> has_minute (raw_candles db) x t \<or> x = a \<and> t \<in> set (map p_time qs)" for x t
    using keys by (auto simp: has_minute_def db')
  show "sync_ranges db' = sync_ranges db" "staged_candles db' = staged_candles db" by (simp_all add: db')
  show "r \<in> set (raw_candles db) \<Longrightarrow> \<exists>r' \<in> set (raw_candles db'). row_succ r r'"
    using upsert_rows_succ [OF rows' draw] by (simp add: db')
  have "coverage_sound (raw_candles db') (sync_ranges db)"
    using ok hm by (simp add: db_ok_def coverage_sound_iff)
  then show "db_ok db'"
    using ok upsert_rows_ok [OF rows' es(1)] ledger_upsert [OF rows' des draw]
    by (simp add: db_ok_def db')
qed

lemma upsert_staged_ok:
  assumes up: "upsert_staged_candles qs db = Inr db'" and ok: "db_ok db" and norm: "list_all (normal_payload a) qs"
  shows "db_ok db'" and "sync_ranges db' = sync_ranges db" and "raw_candles db' = raw_candles db"
proof -
  have ins: "list_all (insertable (assets db)) (map canonical_row qs)"
    and db': "db' = db\<lparr>staged_candles := snd (upsert_rows (map (the \<circ> canonical_row) qs) (staged_candles db))\<rparr>"
    using up by (auto simp: upsert_staged_candles_def split: if_splits)
  obtain ch rows' where rows': "upsert_rows (map (the \<circ> canonical_row) qs) (staged_candles db) = (ch, rows')"
    by (rule prod.exhaust)
  show "sync_ranges db' = sync_ranges db" "raw_candles db' = raw_candles db" by (simp_all add: db')
  show "db_ok db'"
    using ok upsert_rows_ok [OF rows' canonical_rows(1) [OF ins norm]] by (simp add: db_ok_def db' rows')
qed

lemma mark_verified_props:
  "db_ok db \<Longrightarrow>
   db_ok (mark_verified_raw_blocks asset blocks db) \<and>
   raw_candles (mark_verified_raw_blocks asset blocks db) = raw_candles db \<and>
   staged_candles (mark_verified_raw_blocks asset blocks db) = staged_candles db \<and>
   (\<forall>x t. minute_aligned t \<longrightarrow>
      (covered (sync_ranges (mark_verified_raw_blocks asset blocks db)) x t \<longleftrightarrow>
       covered (sync_ranges db) x t \<or>
       (x = asset \<and> (\<exists>b \<in> set blocks. raw_block_is_complete (raw_candles db) asset (fst b) (snd b) \<and> t \<in> minutes_of b))))"
proof (induction blocks arbitrary: db)
  case (Cons blk blocks)
  obtain a b where blk: "blk = (a, b)" by (cases blk)
  show ?case
  proof (cases "raw_block_is_complete (raw_candles db) asset a b")
    case True
    then have ab: "a \<le> b" "minute_aligned a" "minute_aligned b" "\<forall>t \<in> minutes_of (a, b). has_minute (raw_candles db) asset t"
      using Cons.prems raw_block_complete_iff by (auto simp: db_ok_def)
    let ?rs = "merge_verified_sync_ranges asset a b (sync_ranges db)"
    let ?db = "db\<lparr>sync_ranges := ?rs\<rparr>"
    have rs: "ranges_ok (sync_ranges db)" using Cons.prems by (simp add: db_ok_def)
    have cov: "covered ?rs x t \<longleftrightarrow> covered (sync_ranges db) x t \<or> x = asset \<and> t \<in> minutes_of blk"
      if "minute_aligned t" for x t
      using merge_covered [OF rs that ab(2,3,1)] that by (auto simp: blk minutes_of_def)
    have "coverage_sound (raw_candles db) ?rs"
      using Cons.prems ab(4) blk unfolding coverage_sound_iff by (auto simp: cov db_ok_def coverage_sound_iff)
    then have ok: "db_ok ?db" using Cons.prems merge_ranges_ok [OF rs ab(2,3,1)] by (simp add: db_ok_def)
    show ?thesis using Cons.IH [OF ok] True cov by (auto simp: blk)
  next
    case False
    then show ?thesis using Cons.IH [OF Cons.prems] by (auto simp: blk)
  qed
qed simp

section \<open>Commits preserve the invariant\<close>

lemma insert_raw_normal:
  assumes "list_all (normal_payload a) qs" and "sorted_wrt (<) (map p_time qs)" and "qs \<noteq> []"
  shows "insert_candle_batch now qs Raw1mCandle db = upsert_raw_candles now qs db"
    and "insert_candle_batch now qs GapStagingCandle db = map_sum id (\<lambda>db'. ([], db')) (upsert_staged_candles qs db)"
proof -
  obtain c cs where qs: "qs = c # cs" using assms(3) by (cases qs) auto
  have "field_value (p_asset_id c) = Some a" using assms(1) qs by (simp add: normal_payload_def field_value_def)
  then show "insert_candle_batch now qs Raw1mCandle db = upsert_raw_candles now qs db"
    "insert_candle_batch now qs GapStagingCandle db = map_sum id (\<lambda>db'. ([], db')) (upsert_staged_candles qs db)"
    using prepare_batch_normal [OF assms(1,2), of now] by (simp_all add: insert_candle_batch_def qs)
qed

text \<open>What a successful raw write of a prepared batch achieves.\<close>

lemma write_raw_batch_ok:
  assumes wr: "write_raw_batch now a qs db = Inr db'" and ok: "db_ok db" and ne: "qs \<noteq> []"
    and norm: "list_all (normal_payload a) qs" and sorted: "sorted_wrt (<) (map p_time qs)"
  shows "db_ok db'" and "staged_candles db' = staged_candles db"
    and "has_minute (raw_candles db') x t \<longleftrightarrow> has_minute (raw_candles db) x t \<or> x = a \<and> t \<in> set (map p_time qs)"
    and "minute_aligned t \<Longrightarrow> covered (sync_ranges db') x t \<longleftrightarrow>
      covered (sync_ranges db) x t \<or> x = a \<and> t \<in> set (map p_time qs)"
    and "r \<in> set (raw_candles db) \<Longrightarrow> \<exists>r' \<in> set (raw_candles db'). row_succ r r'"
proof -
  obtain ch db1 where up: "upsert_raw_candles now qs db = Inr (ch, db1)"
    using wr by (auto simp: write_raw_batch_def insert_raw_normal [OF norm sorted ne] split: sum.splits)
  obtain blocks where blocks: "contiguous_blocks qs = Inr blocks"
    using sorted contiguous_blocks_Inr_iff by blast
  have db': "db' = mark_verified_raw_blocks a blocks db1"
    using wr up blocks by (simp add: write_raw_batch_def insert_raw_normal [OF norm sorted ne])
  note up_ok = upsert_raw_ok [OF up ok norm sorted]
  note mark = mark_verified_props [OF up_ok(1), of a blocks]
  have al: "list_all minute_aligned (map p_time qs)"
    using norm normal_time_aligned by (auto simp: list_all_iff)
  note bl = contiguous_blocks_props [OF blocks al]
  show "db_ok db'" "staged_candles db' = staged_candles db" using mark up_ok(3) by (simp_all add: db')
  show "has_minute (raw_candles db') x t \<longleftrightarrow> has_minute (raw_candles db) x t \<or> x = a \<and> t \<in> set (map p_time qs)"
    using mark up_ok(4) by (simp add: db')
  show "r \<in> set (raw_candles db) \<Longrightarrow> \<exists>r' \<in> set (raw_candles db'). row_succ r r'"
    using mark up_ok(5) by (simp add: db')
  have complete: "raw_block_is_complete (raw_candles db1) a (fst b) (snd b)" if "b \<in> set blocks" for b
  proof -
    have "minutes_of b \<subseteq> set (map p_time qs)" using bl(2) that by blast
    then have "\<forall>t \<in> minutes_of (fst b, snd b). has_minute (raw_candles db1) a t" using up_ok(4) by auto
    then show ?thesis
      using bl(1) that up_ok(1) raw_block_complete_iff by (auto simp: db_ok_def)
  qed
  show "minute_aligned t \<Longrightarrow> covered (sync_ranges db') x t \<longleftrightarrow>
      covered (sync_ranges db) x t \<or> x = a \<and> t \<in> set (map p_time qs)"
    using mark complete bl(2) up_ok(2) by (auto simp: db')
qed

lemma commit_raw_cases:
  assumes "commit_raw_batch_in_transaction now a ps db = Inr db'"
  obtains "ps = []" "db' = db"
  | qs where "ps \<noteq> []" "qs \<noteq> []" "list_all (normal_payload a) qs" "sorted_wrt (<) (map p_time qs)"
      "map p_time qs = map p_time ps" "write_raw_batch now a qs db = Inr db'"
proof (cases "ps = []")
  case True
  then show thesis using assms that(1) by (simp add: commit_raw_batch_in_transaction_def)
next
  case False
  then obtain qs where qs: "prepare_batch now a ps = Inr qs" "write_raw_batch now a qs db = Inr db'"
    using assms by (auto simp: commit_raw_batch_in_transaction_def split: sum.splits)
  note prep = prepare_batch_Inr [OF qs(1)]
  have "qs \<noteq> []" using prep(2) False by (metis map_is_Nil_conv)
  then show thesis using that(2) False qs(2) prep by blast
qed

lemma sorted_filter_times: "sorted_wrt (<) (map p_time qs) \<Longrightarrow> sorted_wrt (<) (map p_time (filter P qs))"
  by (induction qs) auto

lemma commit_batch_ok:
  assumes commit: "commit_batch_in_transaction now a ps db = Inr db'" and ok: "db_ok db"
  shows "db_ok db'"
    and "minute_aligned t \<Longrightarrow> covered (sync_ranges db') x t \<longleftrightarrow>
      covered (sync_ranges db) x t \<or> x = a \<and> t \<in> set (map p_time ps) \<and> now - 7 * day_us \<le> t"
    and "r \<in> set (raw_candles db) \<Longrightarrow> \<exists>r' \<in> set (raw_candles db'). row_succ r r'"
proof -
  have "db_ok db' \<and> (\<forall>x t. minute_aligned t \<longrightarrow> (covered (sync_ranges db') x t \<longleftrightarrow>
      covered (sync_ranges db) x t \<or> x = a \<and> t \<in> set (map p_time ps) \<and> now - 7 * day_us \<le> t)) \<and>
    (\<forall>r \<in> set (raw_candles db). \<exists>r' \<in> set (raw_candles db'). row_succ r r')"
  proof (cases "ps = []")
    case True
    then show ?thesis using assms by (auto simp: commit_batch_in_transaction_def row_succ_def)
  next
    case False
    then obtain qs where qs: "prepare_batch now a ps = Inr qs"
      using commit by (auto simp: commit_batch_in_transaction_def split: sum.splits)
    note prep = prepare_batch_Inr [OF qs]
    let ?live = "live_candles now qs"
    let ?hist = "historical_candles now qs"
    have live: "list_all (normal_payload a) ?live" "sorted_wrt (<) (map p_time ?live)"
      and hist: "list_all (normal_payload a) ?hist" "sorted_wrt (<) (map p_time ?hist)"
      using prep sorted_filter_times by (auto simp: list_all_iff live_candles_def historical_candles_def)
    obtain db1 where db1: "(if ?live \<noteq> [] then write_raw_batch now a ?live db else Inr db) = Inr db1"
      and db': "(if ?hist \<noteq> [] then map_sum id snd (insert_candle_batch now ?hist GapStagingCandle db1) else Inr db1) = Inr db'"
      using commit False qs by (auto simp: commit_batch_in_transaction_def Let_def split: sum.splits)
    have set_live: "t \<in> set (map p_time ?live) \<longleftrightarrow> t \<in> set (map p_time ps) \<and> now - 7 * day_us \<le> t" for t
      unfolding prep(2) [symmetric] by (auto simp: live_candles_def)
    have ok1: "db_ok db1 \<and> (\<forall>x t. minute_aligned t \<longrightarrow> (covered (sync_ranges db1) x t \<longleftrightarrow>
        covered (sync_ranges db) x t \<or> x = a \<and> t \<in> set (map p_time ?live))) \<and>
        (\<forall>r \<in> set (raw_candles db). \<exists>r' \<in> set (raw_candles db1). row_succ r r')"
    proof (cases "?live = []")
      case True
      then have "db1 = db" using db1 by simp
      moreover have "set (map p_time ?live) = {}" using True by simp
      ultimately show ?thesis using ok by (auto simp: row_succ_def)
    next
      case False
      then have "write_raw_batch now a ?live db = Inr db1" using db1 by simp
      from write_raw_batch_ok [OF this ok False live] show ?thesis by blast
    qed
    have "db_ok db' \<and> sync_ranges db' = sync_ranges db1 \<and> raw_candles db' = raw_candles db1"
    proof (cases "?hist = []")
      case True
      then show ?thesis using db' ok1 by simp
    next
      case ne: False
      then have "map_sum id snd (map_sum id (\<lambda>db'. ([] :: candle_row list, db')) (upsert_staged_candles ?hist db1)) = Inr db'"
        using db' insert_raw_normal(2) [OF hist ne, of now db1] by simp
      then have "upsert_staged_candles ?hist db1 = Inr db'" by (cases "upsert_staged_candles ?hist db1") simp_all
      then show ?thesis using upsert_staged_ok [OF _ _ hist(1)] ok1 by blast
    qed
    then have eqs: "db_ok db'" "sync_ranges db' = sync_ranges db1" "raw_candles db' = raw_candles db1"
      by blast+
    show ?thesis unfolding eqs(2,3) using eqs(1) ok1 [unfolded set_live] by blast
  qed
  then show "db_ok db'"
    and "minute_aligned t \<Longrightarrow> covered (sync_ranges db') x t \<longleftrightarrow>
      covered (sync_ranges db) x t \<or> x = a \<and> t \<in> set (map p_time ps) \<and> now - 7 * day_us \<le> t"
    and "r \<in> set (raw_candles db) \<Longrightarrow> \<exists>r' \<in> set (raw_candles db'). row_succ r r'"
    by blast+
qed

section \<open>Missing ranges\<close>

definition in_gap :: "usec \<Rightarrow> usec \<times> usec \<Rightarrow> bool" where
  "in_gap x g \<longleftrightarrow> fst g \<le> x \<and> x \<le> snd g"

text \<open>What holds of the list of gaps while it grows.\<close>

definition gaps_ok :: "nat \<Rightarrow> usec \<Rightarrow> usec \<Rightarrow> (usec \<times> usec) list \<Rightarrow> usec \<Rightarrow> bool" where
  "gaps_ok mg s e gaps p \<longleftrightarrow>
     length gaps \<le> mg \<and> (\<forall>g \<in> set gaps. s \<le> fst g \<and> fst g < snd g \<and> snd g \<le> e \<and> fst g \<le> p)"

lemma append_gap_ok:
  assumes "gaps_ok mg s e gaps p" and "0 < mg" and "s \<le> p" and "q \<le> e" and "p < q"
    and app: "append_gap mg e gaps p q = (stop, gaps')"
  shows "gaps_ok mg s e gaps' p" and "\<forall>g \<in> set gaps. in_gap x g \<longrightarrow> (\<exists>g' \<in> set gaps'. in_gap x g')"
    and "p \<le> x \<Longrightarrow> x \<le> q \<Longrightarrow> \<exists>g \<in> set gaps'. in_gap x g"
    and "stop \<Longrightarrow> p \<le> x \<Longrightarrow> x \<le> e \<Longrightarrow> \<exists>g \<in> set gaps'. in_gap x g" and "gaps' \<noteq> []"
proof -
  consider "length gaps < mg" "stop = False" "gaps' = gaps @ [(p, q)]"
    | "length gaps = mg" "stop = True" "gaps' = butlast gaps @ [(fst (last gaps), e)]"
    using app assms(1,5) by (auto simp: append_gap_def gaps_ok_def split: if_splits)
  then have "gaps_ok mg s e gaps' p \<and> (\<forall>x. \<forall>g \<in> set gaps. in_gap x g \<longrightarrow> (\<exists>g' \<in> set gaps'. in_gap x g')) \<and>
    (\<forall>x. p \<le> x \<longrightarrow> x \<le> q \<longrightarrow> (\<exists>g \<in> set gaps'. in_gap x g)) \<and>
    (stop \<longrightarrow> (\<forall>x. p \<le> x \<longrightarrow> x \<le> e \<longrightarrow> (\<exists>g \<in> set gaps'. in_gap x g))) \<and> gaps' \<noteq> []"
  proof cases
    case 1
    then show ?thesis using assms by (auto simp: gaps_ok_def in_gap_def)
  next
    case 2
    then obtain init l where gaps: "gaps = init @ [l]" using assms(2)
      by (metis append_butlast_last_id list.size(3) not_less0)
    have l: "s \<le> fst l" "fst l < snd l" "snd l \<le> e" "fst l \<le> p" using assms(1) gaps by (auto simp: gaps_ok_def)
    have "gaps_ok mg s e gaps' p" using assms(1,2) l 2 gaps by (auto simp: gaps_ok_def)
    moreover have "\<exists>g' \<in> set gaps'. in_gap x g'" if "g \<in> set gaps" "in_gap x g" for x g
      using that l 2(3) gaps by (auto simp: in_gap_def)
    moreover have "\<exists>g \<in> set gaps'. in_gap x g" if "p \<le> x" "x \<le> e" for x
      using that l 2(3) gaps by (auto simp: in_gap_def)
    moreover have "gaps' \<noteq> []" using 2(3) by simp
    ultimately show ?thesis using assms(4) by (meson order_trans)
  qed
  then show "gaps_ok mg s e gaps' p" "\<forall>g \<in> set gaps. in_gap x g \<longrightarrow> (\<exists>g' \<in> set gaps'. in_gap x g')"
    "p \<le> x \<Longrightarrow> x \<le> q \<Longrightarrow> \<exists>g \<in> set gaps'. in_gap x g"
    "stop \<Longrightarrow> p \<le> x \<Longrightarrow> x \<le> e \<Longrightarrow> \<exists>g \<in> set gaps'. in_gap x g" "gaps' \<noteq> []"
    by blast+
qed

definition close_gaps :: "nat \<Rightarrow> usec \<Rightarrow> usec \<times> (usec \<times> usec) list \<Rightarrow> (usec \<times> usec) list" where
  "close_gaps mg e st = (if fst st < e then snd (append_gap mg e (snd st) (fst st) e) else snd st)"

lemma gaps_ok_mono: "gaps_ok mg s e gaps p \<Longrightarrow> p \<le> q \<Longrightarrow> gaps_ok mg s e gaps q"
  by (fastforce simp: gaps_ok_def)

lemma close_gaps_ok:
  assumes "gaps_ok mg s e gaps p" and "0 < mg" and "s \<le> p"
  shows "\<exists>q. gaps_ok mg s e (close_gaps mg e (p, gaps)) q"
    and "g \<in> set gaps \<Longrightarrow> in_gap x g \<Longrightarrow> \<exists>g' \<in> set (close_gaps mg e (p, gaps)). in_gap x g'"
    and "p \<le> x \<Longrightarrow> x \<le> e \<Longrightarrow> p < e \<Longrightarrow> \<exists>g' \<in> set (close_gaps mg e (p, gaps)). in_gap x g'"
proof -
  obtain stop gaps' where app: "append_gap mg e gaps p e = (stop, gaps')" by (rule prod.exhaust)
  note ok = append_gap_ok [OF assms order_refl _ app]
  show "\<exists>q. gaps_ok mg s e (close_gaps mg e (p, gaps)) q"
    using ok(1) assms(1) app by (cases "p < e") (auto simp: close_gaps_def)
  show "g \<in> set gaps \<Longrightarrow> in_gap x g \<Longrightarrow> \<exists>g' \<in> set (close_gaps mg e (p, gaps)). in_gap x g'"
    using ok(2) app by (cases "p < e") (auto simp: close_gaps_def)
  show "p \<le> x \<Longrightarrow> x \<le> e \<Longrightarrow> p < e \<Longrightarrow> \<exists>g' \<in> set (close_gaps mg e (p, gaps)). in_gap x g'"
    using ok(3) app by (auto simp: close_gaps_def)
qed

lemma detect_loop_sound:
  "gaps_ok mg s e gaps p \<Longrightarrow> 0 < mg \<Longrightarrow> s \<le> p \<Longrightarrow> \<forall>r \<in> set rs. start_timestamp r \<le> e \<Longrightarrow>
   (\<exists>q. gaps_ok mg s e (close_gaps mg e (detect_loop mg e p gaps rs)) q) \<and>
   (\<forall>x. (\<exists>g \<in> set gaps. in_gap x g) \<longrightarrow>
      (\<exists>g \<in> set (close_gaps mg e (detect_loop mg e p gaps rs)). in_gap x g)) \<and>
   (\<forall>x. x \<le> e \<longrightarrow> p < x \<or> p \<le> x \<and> p < e \<longrightarrow>
      (\<exists>r \<in> set rs. start_timestamp r \<le> x \<and> x \<le> end_timestamp r) \<or>
      (\<exists>g \<in> set (close_gaps mg e (detect_loop mg e p gaps rs)). in_gap x g))"
proof (induction rs arbitrary: p gaps)
  case Nil
  then show ?case using close_gaps_ok [OF Nil(1-3)] by auto
next
  case (Cons r rs)
  let ?go = "if p < start_timestamp r then append_gap mg e gaps p (start_timestamp r) else (False, gaps)"
  obtain stop gaps1 where go: "?go = (stop, gaps1)" by (rule prod.exhaust)
  have re: "start_timestamp r \<le> e" and rest: "\<forall>r \<in> set rs. start_timestamp r \<le> e" using Cons.prems(4) by auto
  let ?p = "max p (end_timestamp r)"
  have g1: "gaps_ok mg s e gaps1 p \<and> (\<forall>x. (\<exists>g \<in> set gaps. in_gap x g) \<longrightarrow> (\<exists>g \<in> set gaps1. in_gap x g)) \<and>
     (\<forall>x. p \<le> x \<longrightarrow> x < start_timestamp r \<longrightarrow> (\<exists>g \<in> set gaps1. in_gap x g)) \<and>
     (stop \<longrightarrow> p < e \<and> (\<forall>x. p \<le> x \<longrightarrow> x \<le> e \<longrightarrow> (\<exists>g \<in> set gaps1. in_gap x g)))"
  proof (cases "p < start_timestamp r")
    case True
    then have "append_gap mg e gaps p (start_timestamp r) = (stop, gaps1)" using go by simp
    from append_gap_ok [OF Cons.prems(1-3) re True this] True re show ?thesis by (meson less_le_trans order_less_imp_le)
  next
    case False
    then show ?thesis using go Cons.prems(1) by auto
  qed
  show ?case
  proof (cases stop)
    case True
    have loop: "detect_loop mg e p gaps (r # rs) = (p, gaps1)" using go True by simp
    show ?thesis unfolding loop
      using close_gaps_ok [of mg s e gaps1 p] g1 True Cons.prems(2,3) by (meson less_imp_le)
  next
    case False
    show ?thesis
    proof (cases "e \<le> ?p")
      case True
      have loop: "detect_loop mg e p gaps (r # rs) = (?p, gaps1)" using go False True by (simp add: Let_def)
      have "close_gaps mg e (?p, gaps1) = gaps1" using True by (auto simp: close_gaps_def)
      moreover have "start_timestamp r \<le> x \<and> x \<le> end_timestamp r \<or> (\<exists>g \<in> set gaps1. in_gap x g)"
        if "x \<le> e" "p < x \<or> p \<le> x \<and> p < e" for x
      proof -
        have "x \<le> end_timestamp r" using that True by auto
        moreover have "p \<le> x" using that(2) by auto
        ultimately show ?thesis using g1 by (meson not_le)
      qed
      ultimately show ?thesis unfolding loop using g1 by auto
    next
      case lt: False
      have loop: "detect_loop mg e p gaps (r # rs) = detect_loop mg e ?p gaps1 rs"
        using go False lt by (auto simp: Let_def)
      have "gaps_ok mg s e gaps1 ?p" using g1 gaps_ok_mono by force
      then have IH: "(\<exists>q. gaps_ok mg s e (close_gaps mg e (detect_loop mg e ?p gaps1 rs)) q) \<and>
         (\<forall>x. (\<exists>g \<in> set gaps1. in_gap x g) \<longrightarrow>
            (\<exists>g \<in> set (close_gaps mg e (detect_loop mg e ?p gaps1 rs)). in_gap x g)) \<and>
         (\<forall>x. x \<le> e \<longrightarrow> ?p < x \<or> ?p \<le> x \<and> ?p < e \<longrightarrow>
            (\<exists>r \<in> set rs. start_timestamp r \<le> x \<and> x \<le> end_timestamp r) \<or>
            (\<exists>g \<in> set (close_gaps mg e (detect_loop mg e ?p gaps1 rs)). in_gap x g))"
        using Cons.prems(2,3) rest by (intro Cons.IH) auto
      have "(\<exists>r' \<in> set (r # rs). start_timestamp r' \<le> x \<and> x \<le> end_timestamp r') \<or>
          (\<exists>g \<in> set (close_gaps mg e (detect_loop mg e ?p gaps1 rs)). in_gap x g)"
        if x: "x \<le> e" "p < x \<or> p \<le> x \<and> p < e" for x
      proof -
        consider "x < start_timestamp r" | "start_timestamp r \<le> x" "x \<le> end_timestamp r" | "end_timestamp r < x" by linarith
        then show ?thesis
        proof cases
          case 1
          then have "\<exists>g \<in> set gaps1. in_gap x g" using g1 x(2) by (meson less_imp_le)
          then show ?thesis using IH by blast
        next
          case 3
          then have "?p < x \<or> ?p \<le> x \<and> ?p < e" using x lt by auto
          then show ?thesis using IH x(1) by (meson list.set_intros(2))
        qed auto
      qed
      then show ?thesis unfolding loop using IH g1 by blast
    qed
  qed
qed

lemma fetched_ranges:
  assumes "ranges_ok rs"
  shows "set (fetch_ranges rs asset s e n) \<subseteq> {r \<in> set rs. sr_asset r = asset \<and> s \<le> end_timestamp r \<and> start_timestamp r \<le> e}"
    and "r \<in> set rs \<Longrightarrow> sr_asset r = asset \<Longrightarrow> start_timestamp r \<le> s \<Longrightarrow> s \<le> e \<Longrightarrow> e \<le> end_timestamp r \<Longrightarrow>
      0 < n \<Longrightarrow> fetch_ranges rs asset s e n = [r]"
proof -
  let ?P = "\<lambda>r. sr_asset r = asset \<and> end_timestamp r \<ge> s \<and> start_timestamp r \<le> e"
  show "set (fetch_ranges rs asset s e n) \<subseteq> {r \<in> set rs. sr_asset r = asset \<and> s \<le> end_timestamp r \<and> start_timestamp r \<le> e}"
    unfolding fetch_ranges_def select_limit_def using set_take_subset by fastforce
  assume r: "r \<in> set rs" "sr_asset r = asset" "start_timestamp r \<le> s" "s \<le> e" "e \<le> end_timestamp r" "0 < n"
  have only: "q = r" if "q \<in> set rs" "?P q" for q
  proof (rule ccontr)
    assume "q \<noteq> r"
    then have "apart q r" using ranges_apart [OF assms(1)] that r by blast
    then show False using that r by (auto simp: apart_def)
  qed
  have "set (filter ?P rs) = {r}"
  proof
    show "set (filter ?P rs) \<subseteq> {r}" using only unfolding set_filter by blast
    show "{r} \<subseteq> set (filter ?P rs)" using r by simp
  qed
  moreover have "distinct rs" using assms(1) by (simp add: ranges_ok_def distinct_map)
  then have "distinct (filter ?P rs)" by (rule distinct_filter)
  ultimately have "filter ?P rs = [r]" by (intro distinct_set_singleton)
  then show "fetch_ranges rs asset s e n = [r]" using r(6) by (cases n) (simp_all add: fetch_ranges_def select_limit_def)
qed

lemma fully_covered_single:
  assumes ok: "ranges_ok rs" and "s \<le> e" and cov: "\<forall>x \<in> {s..e}. covered rs asset x"
  obtains r where "r \<in> set rs" "sr_asset r = asset" "start_timestamp r \<le> s" "e \<le> end_timestamp r"
proof -
  have "covered rs asset s" using cov assms(2) by simp
  then obtain r where r: "r \<in> set rs" "range_covers r asset s" by (auto simp: covered_def)
  have "e \<le> end_timestamp r"
  proof (rule ccontr)
    assume lt: "\<not> e \<le> end_timestamp r"
    then have "end_timestamp r + 1 \<in> {s..e}" using r(2) by (auto simp: range_covers_def)
    then have "covered rs asset (end_timestamp r + 1)" using cov by blast
    then obtain q where q: "q \<in> set rs" "range_covers q asset (end_timestamp r + 1)"
      by (auto simp: covered_def)
    then have "q \<noteq> r" by (auto simp: range_covers_def)
    then have "apart q r" using ranges_apart [OF ok q(1) r(1)] by simp
    then show False using q r by (auto simp: apart_def range_covers_def)
  qed
  then show thesis using that r by (auto simp: range_covers_def)
qed

section \<open>Properties\<close>

lemma detect_missing_sound_lemma:
  assumes ok: "ranges_ok rs" and "s < e" and "0 < max_ranges" and "0 < max_gaps"
  shows "\<exists>gaps. detect_missing_ranges rs asset s e max_ranges max_gaps = Inr gaps \<and>
     int (length gaps) \<le> max_gaps \<and>
     (\<forall>g \<in> set gaps. s \<le> fst g \<and> fst g < snd g \<and> snd g \<le> e) \<and>
     (\<forall>x \<in> {s..e}. covered rs asset x \<or> (\<exists>g \<in> set gaps. in_gap x g)) \<and>
     (gaps = [] \<longleftrightarrow> (\<forall>x \<in> {s..e}. covered rs asset x))"
proof -
  let ?fetched = "fetch_ranges rs asset s e (nat max_ranges + 1)"
  define existing where "existing = (if length ?fetched > nat max_ranges then take (nat max_ranges) ?fetched else ?fetched)"
  define gaps where "gaps = close_gaps (nat max_gaps) e (detect_loop (nat max_gaps) e s [] existing)"
  have result: "detect_missing_ranges rs asset s e max_ranges max_gaps = Inr gaps"
    using assms by (simp add: detect_missing_ranges_def existing_def gaps_def close_gaps_def Let_def split_beta)
  have sub: "set existing \<subseteq> {r \<in> set rs. sr_asset r = asset \<and> s \<le> end_timestamp r \<and> start_timestamp r \<le> e}"
    using fetched_ranges(1) [OF ok, of asset s e "nat max_ranges + 1"] set_take_subset [of "nat max_ranges" ?fetched]
    by (auto simp: existing_def)
  have g0: "gaps_ok (nat max_gaps) s e [] s" by (simp add: gaps_ok_def)
  have "0 < nat max_gaps" using assms(4) by simp
  from detect_loop_sound [OF g0 this order_refl, of existing]
  have sound: "\<exists>q. gaps_ok (nat max_gaps) s e gaps q"
    and cover: "\<forall>x. x \<le> e \<longrightarrow> s < x \<or> s \<le> x \<and> s < e \<longrightarrow>
        (\<exists>r \<in> set existing. start_timestamp r \<le> x \<and> x \<le> end_timestamp r) \<or> (\<exists>g \<in> set gaps. in_gap x g)"
    using sub by (auto simp: gaps_def)
  have cov: "covered rs asset x \<or> (\<exists>g \<in> set gaps. in_gap x g)" if "x \<in> {s..e}" for x
    using cover that assms(2) sub by (fastforce simp: covered_def range_covers_def)
  have "gaps = []" if all: "\<forall>x \<in> {s..e}. covered rs asset x"
  proof -
    obtain r where r: "r \<in> set rs" "sr_asset r = asset" "start_timestamp r \<le> s" "e \<le> end_timestamp r"
      using fully_covered_single [OF ok less_imp_le [OF assms(2)] all] .
    then have "?fetched = [r]" using fetched_ranges(2) [OF ok r(1,2,3) less_imp_le [OF assms(2)] r(4)] by simp
    then have "existing = [r]" using assms(3) by (simp add: existing_def)
    then show ?thesis using r assms(2) by (simp add: gaps_def close_gaps_def)
  qed
  moreover have "\<forall>x \<in> {s..e}. covered rs asset x" if "gaps = []" using cov that by simp
  ultimately show ?thesis using result sound cov assms(4) by (auto simp: gaps_ok_def)
qed

text \<open>
  C20: Detection of missing ranges.  On ranges that satisfy the table's constraints, for a
  non-empty window and positive caps, \<open>detect_missing_ranges\<close> returns at most \<open>max_gaps\<close>
  non-empty intervals inside the window; every instant of the window is covered by a
  registered range or lies in a returned interval, also when a cap truncates the scan; and
  nothing is returned exactly when the whole window is covered.
\<close>

theorem detect_missing_ranges_sound:
  assumes ok: "ranges_ok rs" and "s < e" and "0 < max_ranges" and "0 < max_gaps"
  shows "\<exists>gaps. detect_missing_ranges rs asset s e max_ranges max_gaps = Inr gaps \<and>
     int (length gaps) \<le> max_gaps \<and>
     (\<forall>g \<in> set gaps. s \<le> fst g \<and> fst g < snd g \<and> snd g \<le> e) \<and>
     (\<forall>x \<in> {s..e}. covered rs asset x \<or> (\<exists>g \<in> set gaps. in_gap x g)) \<and>
     (gaps = [] \<longleftrightarrow> (\<forall>x \<in> {s..e}. covered rs asset x))"
  by (rule detect_missing_sound_lemma [OF assms])

definition example_ranges :: "sync_range list" where
  "example_ranges =
     [\<lparr>sr_id = 1, sr_asset = 7, start_timestamp = 0, end_timestamp = 2 * minute_us\<rparr>,
      \<lparr>sr_id = 2, sr_asset = 7, start_timestamp = 5 * minute_us, end_timestamp = 6 * minute_us\<rparr>]"

lemma example_ranges_ok: "ranges_ok example_ranges"
  by (simp add: example_ranges_def ranges_ok_def range_ok_def apart_def minute_aligned_def)

theorem detect_missing_ranges_sound_witness:
  "\<exists>gaps. detect_missing_ranges example_ranges 7 0 (8 * minute_us) 4 4 = Inr gaps \<and>
     int (length gaps) \<le> 4 \<and> \<not> gaps = []"
proof -
  have "\<not> covered example_ranges 7 (8 * minute_us)"
    by (simp add: covered_def range_covers_def example_ranges_def)
  then have "\<not> (\<forall>x \<in> {0..8 * minute_us}. covered example_ranges 7 x)" by force
  moreover obtain gaps where "detect_missing_ranges example_ranges 7 0 (8 * minute_us) 4 4 = Inr gaps"
    "int (length gaps) \<le> 4" "gaps = [] \<longleftrightarrow> (\<forall>x \<in> {0..8 * minute_us}. covered example_ranges 7 x)"
    using detect_missing_ranges_sound [OF example_ranges_ok, of 0 "8 * minute_us" 4 4 7] by auto
  ultimately show ?thesis by blast
qed

text \<open>
  The count is a proof.  On a raw table with its primary key and minute constraint, the
  count/min/max test of \<open>_raw_block_is_complete\<close> succeeds exactly when the block is a
  minute-aligned interval of which every minute is stored.
\<close>

theorem raw_block_is_complete_correct:
  assumes "rows_ok rows"
  shows "raw_block_is_complete rows asset a b \<longleftrightarrow>
    a \<le> b \<and> minute_aligned a \<and> minute_aligned b \<and>
    (\<forall>t. minute_aligned t \<and> a \<le> t \<and> t \<le> b \<longrightarrow> has_minute rows asset t)"
  using raw_block_complete_iff [OF assms] by (auto simp: minutes_of_def)

lemma validate_numbers_Fin:
  assumes "list_all is_double [o', h, l, c]" and "0 < o'" "0 < h" "0 < l" "0 < c" "0 \<le> v"
    and "l \<le> h" and "l \<le> o'" "l \<le> c"
    and "f_le (Fin o') (f_add (Fin h) f_1e_9)" "f_le (Fin c) (f_add (Fin h) f_1e_9)"
  shows "validate_numbers (Fin o') (Fin h) (Fin l) (Fin c) (Fin v) = Inr ()"
  using assms f_sub_slack_le [of l h] f_sub_slack_le [of l o'] f_sub_slack_le [of l c]
  by (simp add: validate_numbers_def f_le_not_lt)

text \<open>Every row the table accepts passes the validator again.\<close>

lemma validate_numbers_check:
  assumes "ohlcv_check r" and "c_open r = Fin o'" "c_high r = Fin h" "c_low r = Fin l" "c_close r = Fin c"
    "c_volume r = Fin v" and "list_all is_double [o', h, l, c]"
  shows "validate_numbers (Fin o') (Fin h) (Fin l) (Fin c) (Fin v) = Inr ()"
  using assms by (intro validate_numbers_Fin) (auto simp: ohlcv_check_def intro: f_add_slack_ge)

definition example_payload :: "usec \<Rightarrow> payload" where
  "example_payload t =
     \<lparr>p_timestamp = Val (Aware t 0), p_asset_id = Absent,
      p_open = Val (Fin 10), p_high = Val (Fin 12), p_low = Val (Fin 9), p_close = Val (Fin 11),
      p_volume = Val (Fin 3), p_source = Val ''BINANCE_REST '', p_event_time = PyNone, p_received_at = Absent\<rparr>"

definition example_normal :: "usec \<Rightarrow> usec \<Rightarrow> payload" where
  "example_normal now t =
     \<lparr>p_timestamp = Val (utc_dt t), p_asset_id = Val 7,
      p_open = Val (Fin 10), p_high = Val (Fin 12), p_low = Val (Fin 9), p_close = Val (Fin 11),
      p_volume = Val (Fin 3), p_source = Val ''binance_rest'', p_event_time = PyNone,
      p_received_at = Val (utc_dt now)\<rparr>"

definition example_candle :: "usec \<Rightarrow> usec \<Rightarrow> candle_row" where
  "example_candle now t =
     \<lparr>c_asset = 7, c_time = t, c_open = Fin 10, c_high = Fin 12, c_low = Fin 9, c_close = Fin 11,
      c_volume = Fin 3, c_source = ''binance_rest'', c_event_time = None, c_received_at = Some now,
      data_revision = 1\<rparr>"

definition example_db :: candle_db where
  "example_db =
     \<lparr>assets = [\<lparr>a_id = 7, a_symbol = ''BTCUSDT'', a_exchange = ''BINANCE'', a_active = True\<rparr>],
      raw_candles = [], staged_candles = [], candle_revisions = [], sync_ranges = []\<rparr>"

lemma small_doubles: "is_double 9" "is_double 10" "is_double 11" "is_double 12"
  using is_double_int [of 9] is_double_int [of 10] is_double_int [of 11] is_double_int [of 12] by simp_all

lemma example_source: "py_strip ''BINANCE_REST '' = ''BINANCE_REST''" "py_lower ''BINANCE_REST'' = ''binance_rest''"
  by code_simp+

lemma example_validate:
  assumes "minute_aligned t"
  shows "validate_candle_payload now 7 (example_payload t) = Inr (example_normal now t)"
proof -
  have "validate_numbers (Fin 10) (Fin 12) (Fin 9) (Fin 11) (Fin 3) = Inr ()"
    by (intro validate_numbers_Fin f_add_slack_ge) (simp_all add: small_doubles)
  moreover have "validate_timestamp (example_payload t) = Inr ((example_payload t)\<lparr>p_timestamp := Val (utc_dt t)\<rparr>)"
    using second_microsecond_zero_iff [of t] assms
    by (simp add: validate_timestamp_def example_payload_def dt_second_def dt_microsecond_def utc_dt_def)
  ultimately show ?thesis
    by (simp add: validate_candle_payload_def example_payload_def validate_asset_def validate_source_def
        validate_provenance_def validate_ohlcv_def ohlcv_fields_def field_value_def example_source
        example_normal_def)
qed

lemma example_normal_time [simp]: "p_time (example_normal now t) = t"
  by (simp add: example_normal_def p_time_def)

lemma example_canonical [simp]: "canonical_row (example_normal now t) = Some (example_candle now t)"
  by (simp add: canonical_row_def example_normal_def example_candle_def ohlcv_fields_def field_value_def)

lemma example_candle_check [simp]: "ohlcv_check (example_candle now t)"
  by (simp add: ohlcv_check_def example_candle_def)

lemma example_candle_key [simp]: "candle_key (example_candle now t) = (7, t)" "c_time (example_candle now t) = t"
    "c_asset (example_candle now t) = 7" "data_revision (example_candle now t) = 1"
  by (simp_all add: candle_key_def example_candle_def)

lemma example_insertable [simp]: "insertable (assets example_db) (Some (example_candle now t)) = minute_aligned t"
proof -
  have "py_strip ''binance_rest'' \<noteq> []" by code_simp
  then show ?thesis by (simp add: insertable_def example_db_def) (simp add: example_candle_def)
qed

lemma example_normal_payload: "minute_aligned t \<Longrightarrow> normal_payload 7 (example_normal now t)"
  using validate_normal [OF example_validate] by blast

text \<open>Committing one or two example candles, evaluated.\<close>

lemma example_prepare:
  "minute_aligned t \<Longrightarrow> minute_aligned u \<Longrightarrow> t < u \<Longrightarrow>
   prepare_batch now 7 [example_payload t, example_payload u] = Inr [example_normal now t, example_normal now u]"
proof -
  assume "minute_aligned t" "minute_aligned u" "t < u"
  moreover have "\<exists>bs. contiguous_blocks [example_normal now t, example_normal now u] = Inr bs"
    using \<open>t < u\<close> by (simp add: contiguous_blocks_Inr_iff)
  ultimately show ?thesis by (auto simp: prepare_batch_def example_validate)
qed

lemma example_db_ok: "db_ok example_db"
  by (simp add: example_db_def db_ok_def rows_ok_def ranges_ok_def coverage_sound_def ledger_ok_def)

theorem raw_block_is_complete_correct_witness:
  "raw_block_is_complete [example_candle 99 0, example_candle 99 minute_us] 7 0 minute_us \<and>
   has_minute [example_candle 99 0, example_candle 99 minute_us] 7 minute_us"
proof -
  have ok: "rows_ok [example_candle 99 0, example_candle 99 minute_us]"
    by (simp add: rows_ok_def row_ok_def minute_aligned_def)
  have "raw_block_is_complete [example_candle 99 0, example_candle 99 minute_us] 7 0 minute_us"
    by (simp add: raw_block_is_complete_def times_between_def list_min_def list_max_def)
  then show ?thesis
    using raw_block_is_complete_correct [OF ok, of 7 0 minute_us] by (simp add: minute_aligned_def)
qed

text \<open>
  Every state the service can produce: the registered assets with empty candle tables, then
  any successful transactions.  A transaction that raises is rolled back and adds no state.
\<close>

inductive reachable_db :: "asset_row list \<Rightarrow> candle_db \<Rightarrow> bool" for registry where
  initial: "reachable_db registry
     \<lparr>assets = registry, raw_candles = [], staged_candles = [], candle_revisions = [], sync_ranges = []\<rparr>"
| raw_batch: "reachable_db registry db \<Longrightarrow> commit_raw_batch_in_transaction now a ps db = Inr db' \<Longrightarrow>
     reachable_db registry db'"
| batch: "reachable_db registry db \<Longrightarrow> commit_batch now a ps check db = Inr db' \<Longrightarrow> reachable_db registry db'"
| ranges: "reachable_db registry db \<Longrightarrow> update_sync_ranges a s e db = Inr db' \<Longrightarrow> reachable_db registry db'"

lemma commit_raw_ok:
  assumes commit: "commit_raw_batch_in_transaction now a ps db = Inr db'" and ok: "db_ok db"
  shows "db_ok db' \<and>
    (\<forall>x t. minute_aligned t \<longrightarrow> (covered (sync_ranges db') x t \<longleftrightarrow>
       covered (sync_ranges db) x t \<or> x = a \<and> t \<in> set (map p_time ps))) \<and>
    (\<forall>x t. has_minute (raw_candles db') x t \<longleftrightarrow>
       has_minute (raw_candles db) x t \<or> x = a \<and> t \<in> set (map p_time ps)) \<and>
    (\<forall>r \<in> set (raw_candles db). \<exists>r' \<in> set (raw_candles db'). row_succ r r') \<and>
    staged_candles db' = staged_candles db"
  using commit
proof (cases rule: commit_raw_cases)
  case 1
  then show ?thesis using ok by (auto simp: row_succ_def)
next
  case (2 qs)
  note wr = write_raw_batch_ok [OF 2(6) ok 2(2,3,4)]
  show ?thesis using wr unfolding 2(5) by blast
qed

lemma update_ranges_ok:
  assumes upd: "update_sync_ranges a s e db = Inr db'" and ok: "db_ok db"
  shows "db_ok db'"
proof -
  have c: "raw_block_is_complete (raw_candles db) a s e" and db': "db' = mark_verified_raw_blocks a [(s, e)] db"
    using upd by (auto simp: update_sync_ranges_def split: if_splits)
  show ?thesis unfolding db' using mark_verified_props [OF ok, of a "[(s, e)]"] by blast
qed

lemma reachable_db_ok: "reachable_db registry db \<Longrightarrow> db_ok db"
proof (induction rule: reachable_db.induct)
  case initial
  then show ?case by (simp add: db_ok_def rows_ok_def ranges_ok_def coverage_sound_def ledger_ok_def)
next
  case (raw_batch db now a ps db')
  then show ?case using commit_raw_ok by blast
next
  case (batch db now a ps check db')
  then show ?case
    using commit_batch_ok(1) by (auto simp: commit_batch_def split: if_splits option.splits)
next
  case (ranges db a s e db')
  then show ?case using update_ranges_ok by blast
qed

text \<open>
  C1: No false coverage.  In every reachable state of the candle tables each minute inside a
  registered sync range is stored in \<open>raw_1m_candles\<close>; the ranges of one asset are valid,
  minute-aligned and more than a minute apart (so the exclusion constraint holds); keys are
  unique and rows satisfy the OHLCV check; and the revision ledger contains the current value
  of every canonical row and no revision newer than it.
\<close>

theorem sync_ranges_never_lie:
  assumes "reachable_db registry db"
  shows "(\<forall>asset t. minute_aligned t \<and> covered (sync_ranges db) asset t \<longrightarrow> has_minute (raw_candles db) asset t) \<and>
    ranges_ok (sync_ranges db) \<and> rows_ok (raw_candles db) \<and> rows_ok (staged_candles db) \<and>
    ledger_ok (raw_candles db) (candle_revisions db)"
  using reachable_db_ok [OF assms] by (auto simp: db_ok_def coverage_sound_iff)

lemma example_commit:
  "\<exists>db. commit_raw_batch_in_transaction 99 7 [example_payload 0, example_payload minute_us] example_db = Inr db \<and>
     sync_ranges db = [\<lparr>sr_id = 1, sr_asset = 7, start_timestamp = 0, end_timestamp = minute_us\<rparr>] \<and>
     raw_candles db = [example_candle 99 0, example_candle 99 minute_us]"
proof -
  let ?qs = "[example_normal 99 0, example_normal 99 minute_us]"
  have al: "minute_aligned minute_us" by (simp add: minute_aligned_def)
  have prep: "prepare_batch 99 7 [example_payload 0, example_payload minute_us] = Inr ?qs"
    using example_prepare [OF minute_aligned_0 al] by simp
  have norm: "list_all (normal_payload 7) ?qs" "sorted_wrt (<) (map p_time ?qs)" "?qs \<noteq> []"
    using example_normal_payload al by simp_all
  show ?thesis
    using al by (simp add: commit_raw_batch_in_transaction_def prep write_raw_batch_def insert_raw_normal [OF norm]
        upsert_raw_candles_def upsert_row_def lookup_row_def)
      (simp add: example_db_def raw_block_is_complete_def times_between_def contiguous_blocks_def
        list_min_def list_max_def merge_verified_sync_ranges_def next_range_id_def)
qed

theorem sync_ranges_never_lie_witness:
  "\<exists>db. reachable_db (assets example_db) db \<and> covered (sync_ranges db) 7 minute_us \<and>
     has_minute (raw_candles db) 7 minute_us"
proof -
  obtain db where db: "commit_raw_batch_in_transaction 99 7 [example_payload 0, example_payload minute_us] example_db = Inr db"
    "sync_ranges db = [\<lparr>sr_id = 1, sr_asset = 7, start_timestamp = 0, end_timestamp = minute_us\<rparr>]"
    using example_commit by blast
  have "reachable_db (assets example_db) example_db"
    using reachable_db.initial [of "assets example_db"] by (simp add: example_db_def)
  then have r: "reachable_db (assets example_db) db" using db(1) by (rule reachable_db.raw_batch)
  have "covered (sync_ranges db) 7 minute_us" by (simp add: db(2) covered_def range_covers_def)
  then show ?thesis using sync_ranges_never_lie [OF r] r by (auto simp: minute_aligned_def)
qed

text \<open>
  C14: A raw commit publishes exactly its own minutes.  After
  \<open>commit_raw_batch_in_transaction\<close> succeeds on a sound database, precisely the minutes of the
  batch are added to the stored and to the covered minutes of the asset; and every earlier
  canonical row is either kept or superseded by a higher revision whose source ranks at least
  as high (so a WebSocket replay never replaces a REST correction).
\<close>

theorem commit_raw_batch_effect:
  assumes "commit_raw_batch_in_transaction now asset batch db = Inr db'" and "db_ok db"
  shows "db_ok db' \<and>
    (\<forall>x t. minute_aligned t \<longrightarrow> (covered (sync_ranges db') x t \<longleftrightarrow>
       covered (sync_ranges db) x t \<or> x = asset \<and> t \<in> set (map p_time batch))) \<and>
    (\<forall>x t. has_minute (raw_candles db') x t \<longleftrightarrow>
       has_minute (raw_candles db) x t \<or> x = asset \<and> t \<in> set (map p_time batch)) \<and>
    (\<forall>r \<in> set (raw_candles db). \<exists>r' \<in> set (raw_candles db'). row_succ r r')"
  using commit_raw_ok [OF assms] by blast

theorem commit_raw_batch_effect_witness:
  "\<exists>db'. commit_raw_batch_in_transaction 99 7 [example_payload 0, example_payload minute_us] example_db = Inr db' \<and>
     db_ok db' \<and> has_minute (raw_candles db') 7 minute_us"
proof -
  obtain db where db: "commit_raw_batch_in_transaction 99 7 [example_payload 0, example_payload minute_us] example_db = Inr db"
    using example_commit by blast
  show ?thesis
    using commit_raw_batch_effect [OF db example_db_ok] db by (auto simp: example_payload_def p_time_def)
qed

text \<open>
  The seven-day rule.  \<open>commit_batch_in_transaction\<close> keeps the database sound and extends
  coverage by the minutes of the batch that are at most seven days old; older candles go to
  staging and never claim coverage.
\<close>

theorem commit_batch_coverage:
  assumes "commit_batch_in_transaction now asset batch db = Inr db'" and "db_ok db" and "minute_aligned t"
  shows "db_ok db' \<and>
    (covered (sync_ranges db') x t \<longleftrightarrow>
       covered (sync_ranges db) x t \<or>
       x = asset \<and> t \<in> set (map p_time batch) \<and> now - 7 * day_us \<le> t)"
  using commit_batch_ok [OF assms(1,2)] assms(3) by blast

lemma example_historical:
  assumes t: "minute_aligned t" "t < now - 7 * day_us" and u: "minute_aligned u" "now - 7 * day_us \<le> u"
  shows "\<exists>db. commit_batch_in_transaction now 7 [example_payload t, example_payload u] example_db = Inr db"
proof -
  have prep: "prepare_batch now 7 [example_payload t, example_payload u] = Inr [example_normal now t, example_normal now u]"
    using example_prepare [OF t(1) u(1)] t(2) u(2) by simp
  have live: "list_all (normal_payload 7) [example_normal now u]"
    "sorted_wrt (<) (map p_time [example_normal now u])" "[example_normal now u] \<noteq> []"
    and hist: "list_all (normal_payload 7) [example_normal now t]"
    "sorted_wrt (<) (map p_time [example_normal now t])" "[example_normal now t] \<noteq> []"
    using example_normal_payload [OF t(1)] example_normal_payload [OF u(1)] by simp_all
  have split: "live_candles now [example_normal now t, example_normal now u] = [example_normal now u]"
    "historical_candles now [example_normal now t, example_normal now u] = [example_normal now t]"
    using t(2) u(2) by (simp_all add: live_candles_def historical_candles_def)
  have same: "assets (mark_verified_raw_blocks a bs db) = assets db" for a bs db
    by (induction a bs db rule: mark_verified_raw_blocks.induct) auto
  obtain db1 where db1: "write_raw_batch now 7 [example_normal now u] example_db = Inr db1" "assets db1 = assets example_db"
    using u(1) by (simp add: write_raw_batch_def insert_raw_normal(1) [OF live] upsert_raw_candles_def
        contiguous_blocks_def split_beta same del: mark_verified_raw_blocks.simps)
  show ?thesis
    using t(1) by (simp add: commit_batch_in_transaction_def prep split db1 insert_raw_normal(2) [OF hist]
        upsert_staged_candles_def)
qed

theorem commit_batch_coverage_witness:
  "\<exists>db'. commit_batch_in_transaction (8 * day_us) 7 [example_payload 0, example_payload (2 * day_us)] example_db = Inr db' \<and>
     \<not> covered (sync_ranges db') 7 0 \<and> covered (sync_ranges db') 7 (2 * day_us)"
proof -
  have al: "minute_aligned 0" "minute_aligned (2 * day_us)" by (simp_all add: minute_aligned_def)
  obtain db where db: "commit_batch_in_transaction (8 * day_us) 7 [example_payload 0, example_payload (2 * day_us)] example_db = Inr db"
    using example_historical [OF al(1) _ al(2), of "8 * day_us"] by auto
  have "\<not> covered (sync_ranges db) 7 0"
    using commit_batch_coverage [OF db example_db_ok al(1), of 7] by (simp add: covered_def example_db_def)
  moreover have "covered (sync_ranges db) 7 (2 * day_us)"
    using commit_batch_coverage [OF db example_db_ok al(2), of 7] by (simp add: example_payload_def p_time_def)
  ultimately show ?thesis using db by blast
qed

text \<open>
  What the validator accepts.  An accepted payload is normalised (UTC minute, the batch's
  asset, a stripped lower-case source of 1 to 64 characters, UTC provenance), validating it
  again changes nothing, and if it carries prices they are finite and positive with a
  non-negative volume.
\<close>

theorem validate_candle_payload_correct:
  assumes "validate_candle_payload now asset p = Inr q"
  shows "normal_payload asset q \<and> p_time q = p_time p \<and>
    (\<forall>now'. validate_candle_payload now' asset q = Inr q) \<and>
    (p_open q = Absent \<or>
     (\<exists>o' h l c v. p_open q = Val (Fin o') \<and> p_high q = Val (Fin h) \<and> p_low q = Val (Fin l) \<and>
        p_close q = Val (Fin c) \<and> p_volume q = Val (Fin v) \<and>
        0 < o' \<and> 0 < h \<and> 0 < l \<and> 0 < c \<and> 0 \<le> v))"
proof -
  have norm: "normal_payload asset q" "p_time q = p_time p" using validate_normal [OF assms] by simp_all
  have "validate_ohlcv q = Inr ()" using norm(1) by (simp add: normal_payload_def)
  then have "p_open q = Absent \<or> (\<exists>o' h l c v. p_open q = Val o' \<and> p_high q = Val h \<and> p_low q = Val l \<and>
      p_close q = Val c \<and> p_volume q = Val v \<and> validate_numbers o' h l c v = Inr ())"
    by (auto simp: validate_ohlcv_def ohlcv_fields_def field_value_def split: if_splits pyfield.splits)
  moreover have "\<exists>a b d e f. o' = Fin a \<and> h = Fin b \<and> l = Fin d \<and> c = Fin e \<and> v = Fin f \<and>
      0 < a \<and> 0 < b \<and> 0 < d \<and> 0 < e \<and> 0 \<le> f" if "validate_numbers o' h l c v = Inr ()" for o' h l c v
    using that by (auto simp: validate_numbers_def elim!: f_isfiniteE split: if_splits)
  ultimately show ?thesis using norm normal_validate [OF norm(1)] by blast
qed

theorem validate_candle_payload_correct_witness:
  "\<exists>q. validate_candle_payload 99 7 (example_payload minute_us) = Inr q \<and> normal_payload 7 q"
proof -
  have q: "validate_candle_payload 99 7 (example_payload minute_us) = Inr (example_normal 99 minute_us)" (is "_ = Inr ?q")
    by (rule example_validate) (simp add: minute_aligned_def)
  show ?thesis using validate_candle_payload_correct [OF q] q by (intro exI [of _ ?q]) blast
qed

lemma upsert_row_keeps:
  assumes "upsert_row e rows = (w, rows')" and "distinct (map candle_key rows)" and "r \<in> set rows"
    and "source_priority (c_source e) < source_priority (c_source r)"
  shows "r \<in> set rows'"
  using assms(1)
proof (cases rule: upsert_row_cases)
  case (corrected t)
  have "candle_key r \<noteq> candle_key e"
  proof
    assume "candle_key r = candle_key e"
    then have "r = t" using distinct_map_unique [OF assms(2,3) corrected(2)] corrected(3) by simp
    then show False using corrected(5) assms(4) by simp
  qed
  then show ?thesis using upsert_row_other [OF assms(1)] assms(3) by simp
qed (use assms(3) in simp_all)

lemma upsert_rows_keeps:
  "upsert_rows es rows = (ch, rows') \<Longrightarrow> distinct (map candle_key rows) \<Longrightarrow> r \<in> set rows \<Longrightarrow>
   \<forall>e \<in> set es. source_priority (c_source e) < source_priority (c_source r) \<Longrightarrow> r \<in> set rows'"
proof (induction es arbitrary: rows ch rows')
  case (Cons e es)
  then obtain w rows1 ch1 where up: "upsert_row e rows = (w, rows1)" and rest: "upsert_rows es rows1 = (ch1, rows')"
    by (auto split: prod.splits)
  have "r \<in> set rows1" using upsert_row_keeps [OF up] Cons.prems by simp
  moreover have "distinct (map candle_key rows1)" using upsert_row_keys [OF up] Cons.prems(2) by blast
  ultimately show ?case using Cons.IH [OF rest] Cons.prems(4) by simp
qed simp

lemma validate_keeps_source:
  "validate_candle_payload now a p = Inr q \<Longrightarrow> p_source p = Val x \<Longrightarrow> p_source q = Val (py_lower (py_strip x))"
  by (auto simp: validate_candle_payload_def validate_timestamp_def validate_asset_def validate_source_def Let_def
      split: sum.splits pyfield.splits if_splits)

lemma validate_all_sources:
  "validate_all now a ps = Inr qs \<Longrightarrow> \<forall>p \<in> set ps. \<exists>x. p_source p = Val x \<and> py_lower (py_strip x) = src \<Longrightarrow>
   \<forall>q \<in> set qs. p_source q = Val src"
proof (induction ps arbitrary: qs)
  case (Cons p ps)
  then obtain q qs' where "validate_candle_payload now a p = Inr q" "validate_all now a ps = Inr qs'" "qs = q # qs'"
    by (auto split: sum.splits)
  with Cons validate_keeps_source show ?case by fastforce
qed simp

lemma mark_verified_raw [simp]: "raw_candles (mark_verified_raw_blocks a bs db) = raw_candles db"
  by (induction a bs db rule: mark_verified_raw_blocks.induct) auto

text \<open>
  Transport precedence.  A batch that the WebSocket pipeline commits (every source is
  \<open>binance_ws\<close> after normalisation) never changes or removes a canonical row whose source is
  \<open>binance_rest\<close>.  The protection is unconditional: it also holds for a REST row that was
  stored while its minute was still running.
\<close>

theorem rest_row_survives_websocket:
  assumes commit: "commit_batch_in_transaction now asset batch db = Inr db'" and "db_ok db"
    and r: "r \<in> set (raw_candles db)" "c_source r = ''binance_rest''"
    and ws: "\<forall>p \<in> set batch. \<exists>x. p_source p = Val x \<and> py_lower (py_strip x) = ''binance_ws''"
  shows "r \<in> set (raw_candles db')"
proof (cases "batch = []")
  case True
  then show ?thesis using commit r by (simp add: commit_batch_in_transaction_def)
next
  case False
  then obtain qs where qs: "prepare_batch now asset batch = Inr qs"
    using commit by (auto simp: commit_batch_in_transaction_def split: sum.splits)
  note prep = prepare_batch_Inr [OF qs]
  have "validate_all now asset batch = Inr qs" using qs by (auto simp: prepare_batch_def split: sum.splits)
  then have src: "\<forall>q \<in> set qs. p_source q = Val ''binance_ws''" using validate_all_sources ws by blast
  let ?live = "live_candles now qs" and ?hist = "historical_candles now qs"
  have live: "list_all (normal_payload asset) ?live" "sorted_wrt (<) (map p_time ?live)"
    and hist: "list_all (normal_payload asset) ?hist" "sorted_wrt (<) (map p_time ?hist)"
    using prep sorted_filter_times by (auto simp: list_all_iff live_candles_def historical_candles_def)
  obtain db1 where db1: "(if ?live \<noteq> [] then write_raw_batch now asset ?live db else Inr db) = Inr db1"
    and db': "(if ?hist \<noteq> [] then map_sum id snd (insert_candle_batch now ?hist GapStagingCandle db1) else Inr db1) = Inr db'"
    using commit False qs by (auto simp: commit_batch_in_transaction_def Let_def split: sum.splits)
  have "raw_candles db' = raw_candles db1"
    using db' insert_raw_normal(2) [OF hist, of now db1]
    by (cases "upsert_staged_candles ?hist db1") (auto simp: upsert_staged_candles_def split: if_splits)
  moreover have "r \<in> set (raw_candles db1)"
  proof (cases "?live = []")
    case False
    have w: "write_raw_batch now asset ?live db = Inr db1" using db1 False by simp
    then obtain ch db2 where up: "upsert_raw_candles now ?live db = Inr (ch, db2)" "raw_candles db1 = raw_candles db2"
      by (auto simp: write_raw_batch_def insert_raw_normal(1) [OF live False] split: sum.splits)
    define es where "es = map (the \<circ> canonical_row) ?live"
    have ins: "list_all (insertable (assets db)) (map canonical_row ?live)"
      and rows: "upsert_rows es (raw_candles db) = (ch, raw_candles db2)"
      using up(1) by (auto simp: upsert_raw_candles_def es_def split: if_splits prod.splits)
    have "c_source e = ''binance_ws''" if ein: "e \<in> set es" for e
    proof -
      from ein obtain q where q: "q \<in> set ?live" "e = the (canonical_row q)" by (auto simp: es_def)
      have "p_source q = Val ''binance_ws''" using src q(1) by (simp add: live_candles_def)
      moreover have "insertable (assets db) (canonical_row q)" using ins q(1) by (auto simp: list_all_iff)
      ultimately show ?thesis
        using q(2) by (auto simp: insertable_def canonical_row_def field_value_def split: option.splits list.splits)
    qed
    then have "\<forall>e \<in> set es. source_priority (c_source e) < source_priority (c_source r)"
      by (simp add: source_priority_def r(2))
    moreover have "distinct (map candle_key (raw_candles db))" using assms(2) by (simp add: db_ok_def rows_ok_def)
    ultimately show ?thesis using upsert_rows_keeps [OF rows _ r(1)] up(2) by simp
  qed (use db1 r in simp)
  ultimately show ?thesis by simp
qed

text \<open>A REST candle read while its minute runs, then the final candle of the feed.\<close>

theorem rest_row_survives_websocket_witness:
  "\<exists>db r. commit_raw_batch_in_transaction 99 7 [example_payload 0, example_payload minute_us] example_db = Inr db \<and>
     r \<in> set (raw_candles db) \<and>
     (case commit_batch_in_transaction 99 7 [(example_payload 0)\<lparr>p_source := Val ''binance_ws'', p_volume := Val (Fin 500)\<rparr>] db of
        Inl _ \<Rightarrow> True
      | Inr db' \<Rightarrow> r \<in> set (raw_candles db'))"
proof -
  obtain db where db: "commit_raw_batch_in_transaction 99 7 [example_payload 0, example_payload minute_us] example_db = Inr db"
    "raw_candles db = [example_candle 99 0, example_candle 99 minute_us]"
    using example_commit by blast
  have ok: "db_ok db" using commit_raw_ok [OF db(1) example_db_ok] by blast
  have src: "py_lower (py_strip ''binance_ws'') = ''binance_ws''" by code_simp
  have r: "example_candle 99 0 \<in> set (raw_candles db)" "c_source (example_candle 99 0) = ''binance_rest''"
    using db(2) by (simp_all add: example_candle_def)
  define ws where "ws = (example_payload 0)\<lparr>p_source := Val ''binance_ws'', p_volume := Val (Fin 500)\<rparr>"
  have "example_candle 99 0 \<in> set (raw_candles db')"
    if c: "commit_batch_in_transaction 99 7 [ws] db = Inr db'" for db'
    by (rule rest_row_survives_websocket [OF c ok r]) (simp add: ws_def src)
  then have "case commit_batch_in_transaction 99 7 [ws] db of Inl _ \<Rightarrow> True
      | Inr db' \<Rightarrow> example_candle 99 0 \<in> set (raw_candles db')"
    by (cases "commit_batch_in_transaction 99 7 [ws] db") simp_all
  then show ?thesis using db(1) r(1) unfolding ws_def by blast
qed

text \<open>
  The running minute is always reported missing.  If no range reaches beyond a window end
  that is not on a minute boundary (the end is the current time, say), then detection returns a
  gap that ends there, so a repair asks the exchange for the minute that has not closed yet.
\<close>

theorem running_minute_reported_missing:
  assumes "ranges_ok rs" and "s < e" and "0 < max_ranges" and "0 < max_gaps"
    and "\<not> minute_aligned e" and "\<forall>r \<in> set rs. end_timestamp r \<le> e"
  shows "\<exists>gaps g. detect_missing_ranges rs asset s e max_ranges max_gaps = Inr gaps \<and>
    g \<in> set gaps \<and> snd g = e"
proof -
  obtain gaps where gaps: "detect_missing_ranges rs asset s e max_ranges max_gaps = Inr gaps"
    "\<forall>g \<in> set gaps. snd g \<le> e" "\<forall>x \<in> {s..e}. covered rs asset x \<or> (\<exists>g \<in> set gaps. in_gap x g)"
    using detect_missing_sound_lemma [OF assms(1-4), of asset] by blast
  have "\<not> covered rs asset e"
  proof
    assume "covered rs asset e"
    then obtain r where r: "r \<in> set rs" "e \<le> end_timestamp r" by (auto simp: covered_def range_covers_def)
    then have "e = end_timestamp r" using assms(6) by force
    then show False using assms(1,5) r(1) by (auto simp: ranges_ok_def range_ok_def list_all_iff)
  qed
  moreover have "e \<in> {s..e}" using assms(2) by simp
  ultimately obtain g where g: "g \<in> set gaps" "in_gap e g" using gaps(3) by blast
  have "snd g \<le> e" using gaps(2) g(1) by blast
  moreover have "e \<le> snd g" using g(2) by (cases g) (simp add: in_gap_def)
  ultimately show ?thesis using gaps(1) g(1) by (intro exI conjI) (assumption | simp)+
qed

theorem running_minute_reported_missing_witness:
  "\<exists>gaps g. detect_missing_ranges example_ranges 7 0 (6 * minute_us + 30 * second_us) 10 10 = Inr gaps \<and>
    g \<in> set gaps \<and> snd g = 6 * minute_us + 30 * second_us"
  by (rule running_minute_reported_missing [OF example_ranges_ok])
    (simp_all add: minute_aligned_def example_ranges_def)

lemma sync_stream_ok:
  "db_ok db \<Longrightarrow> db_ok (snd (sync_stream n now asset batch stream failure db))"
proof (induction n now asset batch stream failure db rule: sync_stream.induct)
  case (1 n now asset batch failure db)
  then show ?case
    using commit_batch_ok(1)
    by (auto simp: commit_batch_def split: option.splits sum.splits)
next
  case (2 n now asset batch candle stream failure db)
  let ?b = "batch @ [candle\<lparr>p_asset_id := Val asset\<rparr>]"
  show ?case
  proof (cases "length ?b \<ge> n")
    case True
    show ?thesis
    proof (cases "commit_batch now asset ?b None db")
      case (Inl e)
      then show ?thesis using True "2.prems" by simp
    next
      case (Inr db')
      then have "db_ok db'" using commit_batch_ok(1) "2.prems" by (auto simp: commit_batch_def)
      then show ?thesis using "2.IH"(1) True Inr by simp
    qed
  next
    case False
    then show ?thesis using "2.IH"(2) "2.prems" by simp
  qed
qed

lemma sync_gaps_ok: "db_ok db \<Longrightarrow> db_ok (snd (sync_gaps klines now asset gaps db))"
proof (induction gaps arbitrary: db)
  case (Cons g gaps)
  obtain a b where g: "g = (a, b)" by (cases g)
  obtain res db' where st: "sync_stream 5000 now asset [] (fst (klines a b)) (snd (klines a b)) db = (res, db')"
    by (rule prod.exhaust)
  have "db_ok db'" using sync_stream_ok [OF Cons.prems] st by (metis snd_conv)
  then show ?case using Cons.IH by (cases res) (simp_all add: g st)
qed simp

text \<open>
  Synchronising an asset is crash safe.  Whatever the exchange streams and wherever the
  stream or a commit fails, the database that \<open>sync_asset\<close> leaves behind satisfies the
  invariant, and an asset that is not an active BINANCE asset with the same symbol is never
  written.
\<close>

theorem sync_asset_safe:
  assumes "db_ok db"
  shows "db_ok (snd (sync_asset client mr mg now asset symbol s e db)) \<and>
    (case validate_binance_asset (assets db) asset symbol of
       Inl _ \<Rightarrow> snd (sync_asset client mr mg now asset symbol s e db) = db
     | Inr _ \<Rightarrow> True)"
  using assms sync_gaps_ok by (auto simp: sync_asset_def split: option.splits sum.splits)

theorem sync_asset_safe_witness:
  "db_ok (snd (sync_asset (Some (\<lambda>a b. ([example_payload a], Some NetworkError))) 10 10 99 7 ''btcusdt'' 0 minute_us example_db))"
  using sync_asset_safe [OF example_db_ok] by blast

text \<open>A candle whose close exceeds its high by less than \<open>1e-9\<close>.\<close>

definition slack_close :: rat where
  "slack_close = 11 + 1 / 2 ^ 33"

definition slack_payload :: payload where
  "slack_payload = (example_payload 0)\<lparr>p_high := Val (Fin 11), p_close := Val (Fin slack_close)\<rparr>"

lemma slack_close_facts:
  "is_double slack_close" "9 \<le> slack_close" "0 < slack_close" "\<not> slack_close \<le> 11"
  "f_le (Fin slack_close) (f_add (Fin 11) f_1e_9)"
proof -
  show d: "is_double slack_close"
    unfolding is_double_def
    by (rule conjI, rule exI [of _ "11 * 2 ^ 33 + 1"], rule exI [of _ "- 33"])
      (simp_all add: pow2_def slack_close_def)
  show "f_le (Fin slack_close) (f_add (Fin 11) f_1e_9)"
    unfolding f_1e_9_def f_add.simps by (rule fl_ge [OF _ _ d]) (simp_all add: slack_close_def)
qed (simp_all add: slack_close_def)

lemma slack_validate:
  "validate_candle_payload 99 7 slack_payload =
     Inr ((example_normal 99 0)\<lparr>p_high := Val (Fin 11), p_close := Val (Fin slack_close)\<rparr>)"
proof -
  have "validate_numbers (Fin 10) (Fin 11) (Fin 9) (Fin slack_close) (Fin 3) = Inr ()"
    using slack_close_facts small_doubles f_add_slack_ge [of 10 11] by (intro validate_numbers_Fin) simp_all
  moreover have "validate_timestamp slack_payload = Inr (slack_payload\<lparr>p_timestamp := Val (utc_dt 0)\<rparr>)"
    by (simp add: validate_timestamp_def slack_payload_def example_payload_def dt_second_def dt_microsecond_def utc_dt_def)
  ultimately show ?thesis
    by (simp add: validate_candle_payload_def slack_payload_def example_payload_def validate_asset_def
        validate_source_def validate_provenance_def validate_ohlcv_def ohlcv_fields_def field_value_def
        example_source example_normal_def)
qed

text \<open>
  The validator is weaker than the table's CHECK constraint.  It allows a slack of
  \<open>1e-9\<close> that \<open>_OHLCV_VALIDITY_CHECK\<close> does not, so a candle can pass validation and still
  make the whole commit fail with an integrity error.
\<close>

theorem validation_weaker_than_check:
  "\<exists>q. validate_candle_payload 99 7 slack_payload = Inr q \<and>
     insertable (assets example_db) (canonical_row q) = False \<and>
     commit_raw_batch_in_transaction 99 7 [slack_payload] example_db = Inl (OtherException ''IntegrityError'')"
proof -
  let ?q = "(example_normal 99 0)\<lparr>p_high := Val (Fin 11), p_close := Val (Fin slack_close)\<rparr>"
  have bad: "insertable (assets example_db) (canonical_row ?q) = False"
    by (simp add: insertable_def canonical_row_def example_normal_def ohlcv_fields_def field_value_def ohlcv_check_def slack_close_facts)
  have norm: "list_all (normal_payload 7) [?q]" "sorted_wrt (<) (map p_time [?q])" "[?q] \<noteq> []"
    using validate_normal [OF slack_validate] by simp_all
  have "prepare_batch 99 7 [slack_payload] = Inr [?q]"
    by (simp add: prepare_batch_def slack_validate contiguous_blocks_def)
  then have "commit_raw_batch_in_transaction 99 7 [slack_payload] example_db = Inl (OtherException ''IntegrityError'')"
    using bad by (simp add: commit_raw_batch_in_transaction_def write_raw_batch_def insert_raw_normal [OF norm]
        upsert_raw_candles_def)
  then show ?thesis using slack_validate bad by blast
qed

end
