(* ===== verification/Gap_Repair.thy ===== *)
theory Gap_Repair
  imports Cagg_Refresh Ingestion
begin

text \<open>
  \<open>app/services/gap_repair.py\<close>: durable jobs that fetch missing candles from the exchange's
  REST API.  The database of the worker is \<open>gap_db\<close>: the candle tables, the CAGG jobs and the
  gap-repair jobs.  The REST client is a parameter: what \<open>get_klines\<close> yields for an interval
  and the exception it ends with.  Every candle received is a suspension point.
\<close>

section \<open>The job table\<close>

datatype gap_repair_status =
  G_PENDING | G_PROCESSING | G_AWAITING_MERGE | G_COMPLETED | G_FAILED | G_CANCELLED

record gap_job = lease_cols +
  gap_asset :: asset_id
  gap_symbol :: string
  start_time :: usec
  end_time :: usec
  gap_status :: gap_repair_status
  gap_retry_count :: int
  gap_max_retries :: int

record gap_db =
  candles :: candle_db
  cagg_jobs :: "cagg_job list"
  gap_jobs :: "gap_job list"

definition gap_processing :: "gap_job \<Rightarrow> bool" where
  "gap_processing r \<longleftrightarrow> gap_status r = G_PROCESSING"

definition gap_active :: "gap_job \<Rightarrow> bool" where
  "gap_active r \<longleftrightarrow> gap_status r \<in> {G_PENDING, G_PROCESSING, G_AWAITING_MERGE}"

definition gap_window :: "gap_job \<Rightarrow> asset_id \<times> ivl" where
  "gap_window r = (gap_asset r, (start_time r, end_time r))"

definition gap_retry_delay :: "int \<Rightarrow> int" where
  "gap_retry_delay retry_count = backoff_us retry_count"

text \<open>Error classification, in the order of the \<open>isinstance\<close> tests.\<close>

definition contains_any :: "string list \<Rightarrow> string \<Rightarrow> bool" where
  "contains_any markers text = list_ex (\<lambda>m. py_in m text) markers"

fun classify_error :: "py_exn \<Rightarrow> string \<times> bool" where
  "classify_error IncompleteCoverageError = (''INCOMPLETE_COVERAGE'', True)"
| "classify_error RateLimitError = (''RATE_LIMITED'', True)"
| "classify_error TemporaryBanError = (''RATE_LIMITED'', True)"
| "classify_error NetworkError = (''NETWORK'', True)"
| "classify_error HttpxRequestError = (''NETWORK'', True)"
| "classify_error TimeoutError = (''NETWORK'', True)"
| "classify_error ConnectionError = (''NETWORK'', True)"
| "classify_error (PayloadCorruptionError _) = (''VALIDATION'', False)"
| "classify_error (MalformedMessageError _) = (''VALIDATION'', False)"
| "classify_error (ValueError _) = (''VALIDATION'', False)"
| "classify_error (APIError msg) =
     (let error_text = py_lower msg in
      if contains_any [''401'', ''403'', ''auth'', ''api key''] error_text then (''AUTHENTICATION'', False)
      else if contains_any [''400'', ''invalid symbol'', ''illegal''] error_text then (''PERMANENT'', False)
      else (''TRANSIENT'', True))"
| "classify_error err =
     (if contains_any [''OperationalError'', ''DBAPIError'', ''InterfaceError''] (exn_type_name err)
      then (''DATABASE'', True) else (''TRANSIENT'', True))"

section \<open>Scheduling\<close>

definition gap_uncovered_intervals :: "int \<Rightarrow> int \<Rightarrow> gap_job list \<Rightarrow> ivl list" where
  "gap_uncovered_intervals start end existing = holes start end (map (snd \<circ> gap_window) existing)"

definition new_gap_job :: "int \<Rightarrow> usec \<Rightarrow> asset_id \<Rightarrow> string \<Rightarrow> int \<Rightarrow> ivl \<Rightarrow> gap_job" where
  "new_gap_job i now asset symbol max_retries w =
     \<lparr>job_id = i, worker_id = None, lease_token = None, claimed_at = None, lease_expires_at = None,
      next_attempt_at = None, error_message = None, error_category = None, created_at = now,
      gap_asset = asset, gap_symbol = symbol, start_time = fst w, end_time = snd w,
      gap_status = G_PENDING, gap_retry_count = 0, gap_max_retries = max_retries\<rparr>"

definition insert_gap_jobs :: "usec \<Rightarrow> asset_id \<Rightarrow> string \<Rightarrow> int \<Rightarrow> ivl list \<Rightarrow> gap_job list \<Rightarrow> gap_job list" where
  "insert_gap_jobs now asset symbol mr = insert_rows (\<lambda>i. new_gap_job i now asset symbol mr)"

definition gap_overlaps :: "asset_id \<Rightarrow> int \<Rightarrow> int \<Rightarrow> nat \<Rightarrow> gap_job list \<Rightarrow> gap_job list" where
  "gap_overlaps asset a b n rows =
     select_limit (\<lambda>r. (start_time r, job_id r))
       (\<lambda>r. gap_asset r = asset \<and> gap_active r \<and> start_time r < b \<and> end_time r > a) n rows"

definition schedule_repair_jobs ::
  "nat \<Rightarrow> usec \<Rightarrow> asset_row list \<Rightarrow> asset_id \<Rightarrow> pydatetime \<Rightarrow> pydatetime \<Rightarrow> int \<Rightarrow> gap_job list \<Rightarrow>
   py_exn + (gap_job list \<times> gap_job list)" where
  "schedule_repair_jobs max_overlaps now registry asset start_time' end_time' max_retries rows =
     (let s = utc start_time'; e = utc end_time' in
      if s \<ge> e then Inr ([], rows)
      else if max_retries < 0 then Inl (ValueError ''max_retries must be non-negative'')
      else case registered_symbol registry asset of
        None \<Rightarrow> Inr ([], rows)
      | Some symbol \<Rightarrow>
          let active = gap_overlaps asset s e (max_overlaps + 1) rows in
          if length active > max_overlaps then Inr (take 1 active, rows)
          else
            let rows' = insert_gap_jobs now asset (py_upper symbol) max_retries
                          (gap_uncovered_intervals s e active) rows;
                created = drop (length rows) rows'
            in Inr (if created \<noteq> [] then created else take 1 active, rows'))"

definition schedule_repair_job ::
  "nat \<Rightarrow> usec \<Rightarrow> asset_row list \<Rightarrow> asset_id \<Rightarrow> pydatetime \<Rightarrow> pydatetime \<Rightarrow> int \<Rightarrow> gap_job list \<Rightarrow>
   py_exn + (gap_job option \<times> gap_job list)" where
  "schedule_repair_job max_overlaps now registry asset s e max_retries rows =
     (case schedule_repair_jobs max_overlaps now registry asset s e max_retries rows of
        Inl err \<Rightarrow> Inl err
      | Inr (jobs, rows') \<Rightarrow> Inr (case jobs of [] \<Rightarrow> None | job # _ \<Rightarrow> Some job, rows'))"

section \<open>Claims\<close>

definition gap_eligible :: "claim_config \<Rightarrow> usec \<Rightarrow> gap_job \<Rightarrow> bool" where
  "gap_eligible cfg now r \<longleftrightarrow>
     \<not> snd cfg (job_id r) \<and>
     (gap_status r = G_PENDING \<and>
        (fst cfg \<longrightarrow> next_attempt_at r = None \<or> sql_le (next_attempt_at r) now) \<or>
      gap_status r = G_PROCESSING \<and> sql_lt (lease_expires_at r) now)"

definition gap_stamp :: "string \<Rightarrow> string \<Rightarrow> usec \<Rightarrow> usec \<Rightarrow> gap_job \<Rightarrow> gap_job" where
  "gap_stamp w t now lease r =
     r\<lparr>gap_status := G_PROCESSING, worker_id := Some w, lease_token := Some t,
       claimed_at := Some now, lease_expires_at := Some (now + lease), next_attempt_at := None\<rparr>"

definition gap_claim_job ::
  "claim_config \<Rightarrow> string \<Rightarrow> string \<Rightarrow> usec \<Rightarrow> usec \<Rightarrow> gap_job list \<Rightarrow> py_exn + (gap_job option \<times> gap_job list)" where
  "gap_claim_job cfg w t now lease rows =
     (if lease \<le> 0 then Inl (ValueError ''lease_duration must be positive'')
      else Inr (claim_where (gap_eligible cfg now) (gap_stamp w t now lease) rows))"

definition gap_assert_lease_owned :: "int \<Rightarrow> string \<Rightarrow> string \<Rightarrow> usec \<Rightarrow> gap_job list \<Rightarrow> py_exn + unit" where
  "gap_assert_lease_owned i w t now rows =
     (if owned_in gap_processing rows i w t now then Inr () else Inl LeaseLostError)"

definition gap_extend :: "usec \<Rightarrow> usec \<Rightarrow> gap_job \<Rightarrow> gap_job" where
  "gap_extend now lease r = r\<lparr>lease_expires_at := Some (now + lease)\<rparr>"

definition gap_heartbeat :: "int \<Rightarrow> string \<Rightarrow> string option \<Rightarrow> usec \<Rightarrow> usec \<Rightarrow> gap_job list \<Rightarrow> bool \<times> gap_job list" where
  "gap_heartbeat i w token now lease rows =
     transition_where
       (\<lambda>r. job_id r = i \<and> gap_status r = G_PROCESSING \<and> worker_id r = Some w \<and>
            sql_gt (lease_expires_at r) now \<and>
            (case token of None \<Rightarrow> True | Some t \<Rightarrow> lease_token r = Some t))
       (gap_extend now lease) rows"

definition gap_heartbeat_loop ::
  "int \<Rightarrow> string \<Rightarrow> string option \<Rightarrow> usec \<Rightarrow> gap_job list hb_event list \<Rightarrow> gap_job list \<Rightarrow> bool \<times> gap_job list" where
  "gap_heartbeat_loop i w token lease = heartbeat_loop (\<lambda>now. gap_heartbeat i w token now lease)"

definition gap_complete_row :: "gap_job \<Rightarrow> gap_job" where
  "gap_complete_row r =
     r\<lparr>gap_status := G_COMPLETED, error_message := None, error_category := None,
       lease_expires_at := None, lease_token := None, next_attempt_at := None\<rparr>"

definition gap_complete_update :: "int \<Rightarrow> string \<Rightarrow> string \<Rightarrow> usec \<Rightarrow> gap_job list \<Rightarrow> bool \<times> gap_job list" where
  "gap_complete_update i w t now rows =
     transition_where (owns_row gap_processing i w t now) gap_complete_row rows"

definition gap_park_row :: "gap_job \<Rightarrow> gap_job" where
  "gap_park_row r =
     r\<lparr>gap_status := G_AWAITING_MERGE, worker_id := None, lease_token := None, claimed_at := None,
       lease_expires_at := None, next_attempt_at := None, error_message := None, error_category := None\<rparr>"

definition mark_awaiting_merge_if_owned :: "int \<Rightarrow> string \<Rightarrow> string \<Rightarrow> usec \<Rightarrow> gap_job list \<Rightarrow> bool \<times> gap_job list" where
  "mark_awaiting_merge_if_owned i w t now rows =
     transition_where (owns_row gap_processing i w t now) gap_park_row rows"

definition gap_fail_row :: "py_exn \<Rightarrow> string \<Rightarrow> usec \<Rightarrow> gap_job \<Rightarrow> gap_job" where
  "gap_fail_row err msg now r =
     (let (category, retryable) = classify_error err;
          r' = r\<lparr>gap_retry_count := gap_retry_count r + 1, error_message := Some msg,
                 error_category := Some category, lease_expires_at := None,
                 lease_token := None, claimed_at := None, worker_id := None\<rparr>
      in if retryable \<and> gap_retry_count r' \<le> gap_max_retries r'
         then r'\<lparr>gap_status := G_PENDING,
                 next_attempt_at := Some (now + gap_retry_delay (gap_retry_count r'))\<rparr>
         else r'\<lparr>gap_status := G_FAILED, next_attempt_at := None\<rparr>)"

definition gap_record_failure_if_owned ::
  "int \<Rightarrow> string \<Rightarrow> string \<Rightarrow> py_exn \<Rightarrow> string \<Rightarrow> usec \<Rightarrow> gap_job list \<Rightarrow> bool \<times> gap_job list" where
  "gap_record_failure_if_owned i w t err msg now rows =
     get_and_update gap_processing i w t now (gap_fail_row err msg now) rows"

text \<open>
  Completion schedules the downstream refresh in the same transaction.  The update compares the
  lease with the clock read before the transaction, the ownership check with a later reading.
\<close>

definition mark_complete_and_schedule_cagg ::
  "gap_job \<Rightarrow> string \<Rightarrow> string \<Rightarrow> usec \<Rightarrow> usec \<Rightarrow> ('x gap_db_scheme) \<Rightarrow> py_exn + (bool \<times> 'x gap_db_scheme)" where
  "mark_complete_and_schedule_cagg job w t now now_tx db =
     (case compute_cagg_bucket_alignment (utc_dt (start_time job)) (utc_dt (end_time job)) None True of
        Inl err \<Rightarrow> Inl err
      | Inr (aligned_start, aligned_end) \<Rightarrow>
          (case gap_assert_lease_owned (job_id job) w t now_tx (gap_jobs db) of
             Inl err \<Rightarrow> Inl err
           | Inr _ \<Rightarrow>
               (case schedule_cagg_refresh_job now_tx (utc_dt aligned_start) (utc_dt aligned_end) None False (cagg_jobs db) of
                  Inl err \<Rightarrow> Inl err
                | Inr (_, caggs) \<Rightarrow>
                    (case gap_complete_update (job_id job) w t now (gap_jobs db) of
                       (ok, jobs) \<Rightarrow> Inr (ok, db\<lparr>cagg_jobs := caggs, gap_jobs := jobs\<rparr>)))))"

definition has_staged_rows :: "gap_job \<Rightarrow> candle_db \<Rightarrow> bool" where
  "has_staged_rows job db =
     list_ex (\<lambda>r. c_asset r = gap_asset job \<and> start_time job \<le> c_time r \<and> c_time r \<le> end_time job)
       (staged_candles db)"

section \<open>The worker flow\<close>

record 'x gap_env = "'x gap_db_scheme worker_env" +
  rest_klines :: kline_source
  max_sync_ranges :: int      \<comment> \<open>\<open>GAP_REPAIR_MAX_SYNC_RANGES_PER_DETECTION\<close>\<close>
  max_detected_gaps :: int    \<comment> \<open>\<open>GAP_REPAIR_MAX_GAPS_PER_DETECTION\<close>\<close>

type_synonym 'x gap_run = "'x gap_db_scheme worker_run"

definition detect_gaps :: "'x gap_env \<Rightarrow> asset_id \<Rightarrow> usec \<Rightarrow> usec \<Rightarrow> candle_db \<Rightarrow> py_exn + (usec \<times> usec) list" where
  "detect_gaps env asset s e db =
     (if s \<ge> e then Inr []
      else detect_missing_ranges (sync_ranges db) asset s e (max_sync_ranges env) (max_detected_gaps env))"

text \<open>One fenced batch: lost flag, ownership and lost flag again, then the commit.\<close>

definition commit_owned_batch ::
  "'x gap_env \<Rightarrow> asset_id \<Rightarrow> int \<Rightarrow> string \<Rightarrow> string \<Rightarrow> payload list \<Rightarrow> 'x gap_run \<Rightarrow> (py_exn + unit) \<times> 'x gap_run" where
  "commit_owned_batch env asset i w t batch s =
     (if run_lost env s then (Inl LeaseLostError, s)
      else
        let s1 = pause env s; db = run_db s1 in
        case gap_assert_lease_owned i w t (run_now env s) (gap_jobs db) of
          Inl err \<Rightarrow> (Inl err, s1)
        | Inr _ \<Rightarrow>
            if run_lost env s1 then (Inl LeaseLostError, s1)
            else case commit_batch_in_transaction (run_now env s1) asset batch (candles db) of
              Inl err \<Rightarrow> (Inl err, s1)
            | Inr c \<Rightarrow> (Inr (), s1\<lparr>run_db := db\<lparr>candles := c\<rparr>\<rparr>))"

text \<open>The batch of the inline (administrator) path, without a claim.\<close>

definition commit_inline_batch ::
  "'x gap_env \<Rightarrow> asset_id \<Rightarrow> payload list \<Rightarrow> 'x gap_run \<Rightarrow> (py_exn + unit) \<times> 'x gap_run" where
  "commit_inline_batch env asset batch s =
     (let s1 = pause env s in
      case commit_batch (run_now env s1) asset batch None (candles (run_db s1)) of
        Inl err \<Rightarrow> (Inl err, s1)
      | Inr c \<Rightarrow> (Inr (), s1\<lparr>run_db := (run_db s1)\<lparr>candles := c\<rparr>\<rparr>))"

definition field_default :: "'a pyfield \<Rightarrow> 'a pyfield \<Rightarrow> 'a pyfield" where
  "field_default f d = (if f = Absent then d else f)"

text \<open>\<open>candle.get("timestamp")\<close> of a missing key is \<open>None\<close>.\<close>

definition rest_candle :: "asset_id \<Rightarrow> usec \<Rightarrow> payload \<Rightarrow> payload" where
  "rest_candle asset now p =
     p\<lparr>p_asset_id := Val asset,
       p_source := field_default (p_source p) (Val ''binance_rest''),
       p_event_time := field_default (p_event_time p) (if p_timestamp p = Absent then PyNone else p_timestamp p),
       p_received_at := field_default (p_received_at p) (Val (utc_dt now))\<rparr>"

text \<open>\<open>persist\<close> skips an empty batch; \<open>claimed\<close> tells whether an \<open>ownership_lost\<close> event exists.\<close>

fun run_stream ::
  "'x gap_env \<Rightarrow> bool \<Rightarrow> (payload list \<Rightarrow> 'x gap_run \<Rightarrow> (py_exn + unit) \<times> 'x gap_run) \<Rightarrow> nat \<Rightarrow> asset_id \<Rightarrow>
   payload list \<Rightarrow> nat \<Rightarrow> payload list \<Rightarrow> py_exn option \<Rightarrow> 'x gap_run \<Rightarrow> (py_exn + nat) \<times> 'x gap_run" where
  "run_stream env claimed persist batch_size asset batch tally [] failure s =
     (case failure of
        Some err \<Rightarrow> (Inl err, s)
      | None \<Rightarrow>
          if batch = [] then (Inr tally, s)
          else case persist batch s of (Inl err, s') \<Rightarrow> (Inl err, s') | (Inr _, s') \<Rightarrow> (Inr tally, s'))"
| "run_stream env claimed persist batch_size asset batch tally (candle # stream) failure s =
     (let s1 = pause env s in
      if claimed \<and> run_lost env s1 then (Inl LeaseLostError, s1)
      else
        let batch' = batch @ [rest_candle asset (run_now env s1) candle] in
        if length batch' \<ge> batch_size
        then case persist batch' s1 of
               (Inl err, s') \<Rightarrow> (Inl err, s')
             | (Inr _, s') \<Rightarrow> run_stream env claimed persist batch_size asset [] (tally + 1) stream failure s'
        else run_stream env claimed persist batch_size asset batch' (tally + 1) stream failure s1)"

definition execute_reconciliation ::
  "'x gap_env \<Rightarrow> asset_id \<Rightarrow> usec \<Rightarrow> usec \<Rightarrow> int \<Rightarrow> (int \<times> string \<times> string) option \<Rightarrow> 'x gap_run \<Rightarrow>
   (py_exn + nat) \<times> 'x gap_run" where
  "execute_reconciliation env asset s e batch_size owner st =
     (if batch_size \<le> 0 then (Inl (ValueError ''batch_size must be positive''), st)
      else
        let persist = (case owner of
               None \<Rightarrow> commit_inline_batch env asset
             | Some (i, w, t) \<Rightarrow> commit_owned_batch env asset i w t)
        in run_stream env (owner \<noteq> None) persist (nat batch_size) asset [] 0
             (fst (rest_klines env s e)) (snd (rest_klines env s e)) st)"

fun reconcile_gaps ::
  "'x gap_env \<Rightarrow> gap_job \<Rightarrow> string \<Rightarrow> string \<Rightarrow> int \<Rightarrow> (usec \<times> usec) list \<Rightarrow> 'x gap_run \<Rightarrow> (py_exn + unit) \<times> 'x gap_run" where
  "reconcile_gaps env job w t batch_size [] s = (Inr (), s)"
| "reconcile_gaps env job w t batch_size ((a, b) # gaps) s =
     (if run_lost env s then (Inl LeaseLostError, s)
      else case execute_reconciliation env (gap_asset job) a b batch_size (Some (job_id job, w, t)) s of
        (Inl err, s') \<Rightarrow> (Inl err, s')
      | (Inr _, s') \<Rightarrow> reconcile_gaps env job w t batch_size gaps s')"

datatype gap_outcome = GapCompleted | GapParked

text \<open>
  The second half of the \<open>try\<close> body: the coverage check on the database as it is then, and
  the transition it leads to.
\<close>

definition conclude_gap_job ::
  "'x gap_env \<Rightarrow> gap_job \<Rightarrow> string \<Rightarrow> string \<Rightarrow> 'x gap_run \<Rightarrow> (py_exn + gap_outcome) \<times> 'x gap_run" where
  "conclude_gap_job env job w t s =
     (let s1 = pause env s in
      case detect_gaps env (gap_asset job) (start_time job) (end_time job) (candles (run_db s1)) of
        Inl err \<Rightarrow> (Inl err, s1)
      | Inr remaining \<Rightarrow>
          if remaining \<noteq> []
          then let s2 = pause env s1 in
            if has_staged_rows job (candles (run_db s2))
            then let s3 = pause env s2;
                     (ok, jobs) = mark_awaiting_merge_if_owned (job_id job) w t (run_now env s2) (gap_jobs (run_db s3));
                     s4 = s3\<lparr>run_db := (run_db s3)\<lparr>gap_jobs := jobs\<rparr>\<rparr>
                 in (if ok then Inr GapParked else Inl LeaseLostError, s4)
            else (Inl IncompleteCoverageError, s2)
          else if run_lost env s1 then (Inl LeaseLostError, s1)
          else
            let s2 = pause env s1; s3 = pause env s2 in
            case mark_complete_and_schedule_cagg job w t (run_now env s1) (run_now env s2) (run_db s3) of
              Inl err \<Rightarrow> (Inl err, s3)
            | Inr (ok, db) \<Rightarrow>
                (if ok then Inr GapCompleted else Inl LeaseLostError, s3\<lparr>run_db := db\<rparr>))"

definition execute_gap_job ::
  "'x gap_env \<Rightarrow> gap_job \<Rightarrow> string \<Rightarrow> string \<Rightarrow> int \<Rightarrow> 'x gap_run \<Rightarrow> (py_exn + gap_outcome) \<times> 'x gap_run" where
  "execute_gap_job env job w t batch_size s =
     (let s1 = pause env s in
      case detect_gaps env (gap_asset job) (start_time job) (end_time job) (candles (run_db s1)) of
        Inl err \<Rightarrow> (Inl err, s1)
      | Inr gaps \<Rightarrow>
          (case reconcile_gaps env job w t batch_size gaps s1 of
             (Inl err, s2) \<Rightarrow> (Inl err, s2)
           | (Inr _, s2) \<Rightarrow> conclude_gap_job env job w t s2))"

definition gap_process_next_job ::
  "'x gap_env \<Rightarrow> claim_config \<Rightarrow> bool \<Rightarrow> usec \<Rightarrow> string \<Rightarrow> string \<Rightarrow> int \<Rightarrow> 'x gap_run \<Rightarrow> (py_exn + bool) \<times> 'x gap_run" where
  "gap_process_next_job env cfg raise_on_attempt_error lease w t batch_size s =
     (let s1 = pause env s in
      case gap_claim_job cfg w t (run_now env s) lease (gap_jobs (run_db s1)) of
        Inl err \<Rightarrow> (Inl err, s1)
      | Inr (None, _) \<Rightarrow> (Inr False, s1)
      | Inr (Some job, jobs) \<Rightarrow>
          (case execute_gap_job env job w t batch_size (s1\<lparr>run_db := (run_db s1)\<lparr>gap_jobs := jobs\<rparr>\<rparr>) of
             (Inr _, s2) \<Rightarrow> (Inr True, s2)
           | (Inl err, s2) \<Rightarrow>
               if err = LeaseLostError then (Inr True, s2)
               else
                 let s3 = pause env s2;
                     s4 = s3\<lparr>run_db := (run_db s3)\<lparr>gap_jobs :=
                            snd (gap_record_failure_if_owned (job_id job) w t err (format_error env err)
                                  (run_now env s2) (gap_jobs (run_db s3)))\<rparr>\<rparr>
                 in (if raise_on_attempt_error then Inl err else Inr True, s4)))"

text \<open>\<open>app/workers/gap_repair.py\<close>: a bounded slice of jobs per actor run.\<close>

fun gap_worker_loop ::
  "nat \<Rightarrow> 'x gap_env \<Rightarrow> (int \<Rightarrow> bool) \<Rightarrow> usec \<Rightarrow> (nat \<Rightarrow> string \<times> string) \<Rightarrow> nat \<Rightarrow> 'x gap_run \<Rightarrow> (py_exn + nat) \<times> 'x gap_run" where
  "gap_worker_loop 0 env locked lease ids processed s = (Inr processed, s)"
| "gap_worker_loop (Suc n) env locked lease ids processed s =
     (case gap_process_next_job env (True, locked) False lease (fst (ids processed)) (snd (ids processed)) 1000 s of
        (Inl err, s') \<Rightarrow> (Inl err, s')
      | (Inr claimed, s') \<Rightarrow>
          if claimed then gap_worker_loop n env locked lease ids (processed + 1) s' else (Inr processed, s'))"

definition run_gap_repair_worker ::
  "'x gap_env \<Rightarrow> (int \<Rightarrow> bool) \<Rightarrow> int \<Rightarrow> int \<Rightarrow> (nat \<Rightarrow> string \<times> string) \<Rightarrow> 'x gap_run \<Rightarrow> (py_exn + nat) \<times> 'x gap_run" where
  "run_gap_repair_worker env locked lease_minutes max_jobs ids s =
     (if max_jobs \<le> 0 then (Inl (ValueError ''max_jobs must be positive''), s)
      else gap_worker_loop (nat max_jobs) env locked (lease_minutes * minute_us) ids 0 s)"

text \<open>The administrator's inline repair.\<close>

fun repair_gaps_inline ::
  "'x gap_env \<Rightarrow> asset_id \<Rightarrow> int \<Rightarrow> (usec \<times> usec) list \<Rightarrow> nat \<Rightarrow> 'x gap_run \<Rightarrow> (py_exn + nat) \<times> 'x gap_run" where
  "repair_gaps_inline env asset batch_size [] repaired s = (Inr repaired, s)"
| "repair_gaps_inline env asset batch_size ((a, b) # gaps) repaired s =
     (case execute_reconciliation env asset a b batch_size None s of
        (Inl err, s') \<Rightarrow> (Inl err, s')
      | (Inr n, s') \<Rightarrow>
          let s1 = pause env s' in
          case schedule_cagg_refresh_job (run_now env s1) (utc_dt a) (utc_dt b) None True (cagg_jobs (run_db s1)) of
            Inl err \<Rightarrow> (Inl err, s1)
          | Inr (_, caggs) \<Rightarrow>
              repair_gaps_inline env asset batch_size gaps (repaired + n)
                (s1\<lparr>run_db := (run_db s1)\<lparr>cagg_jobs := caggs\<rparr>\<rparr>))"

definition repair_gap_inline ::
  "'x gap_env \<Rightarrow> asset_id \<Rightarrow> pydatetime \<Rightarrow> pydatetime \<Rightarrow> int \<Rightarrow> 'x gap_run \<Rightarrow> (py_exn + nat) \<times> 'x gap_run" where
  "repair_gap_inline env asset s e batch_size st =
     (let s1 = pause env st in
      case detect_gaps env asset (utc s) (utc e) (candles (run_db s1)) of
        Inl err \<Rightarrow> (Inl err, s1)
      | Inr gaps \<Rightarrow> repair_gaps_inline env asset batch_size gaps 0 s1)"

section \<open>Scanning\<close>

text \<open>
  \<open>scan_and_schedule_active_assets\<close>: pages of active BINANCE assets in id order; gaps of each
  asset in turn, until \<open>max_assets\<close> assets were inspected or \<open>max_jobs\<close> jobs collected.
\<close>

fun scan_gaps ::
  "nat \<Rightarrow> int \<Rightarrow> ('x gap_env) \<Rightarrow> asset_id \<Rightarrow> (usec \<times> usec) list \<Rightarrow> gap_job list \<Rightarrow> 'x gap_run \<Rightarrow>
   (py_exn + gap_job list) \<times> 'x gap_run" where
  "scan_gaps max_overlaps max_jobs env asset [] scheduled s = (Inr scheduled, s)"
| "scan_gaps max_overlaps max_jobs env asset ((a, b) # gaps) scheduled s =
     (if int (length scheduled) \<ge> max_jobs then (Inr scheduled, s)
      else
        let s1 = pause env s in
        case schedule_repair_jobs max_overlaps (run_now env s1) (assets (candles (run_db s1))) asset
               (utc_dt a) (utc_dt b) 5 (gap_jobs (run_db s1)) of
          Inl err \<Rightarrow> (Inl err, s1)
        | Inr (jobs, rows) \<Rightarrow>
            scan_gaps max_overlaps max_jobs env asset gaps
              (scheduled @ take (nat (max_jobs - int (length scheduled))) jobs)
              (s1\<lparr>run_db := (run_db s1)\<lparr>gap_jobs := rows\<rparr>\<rparr>))"

fun scan_assets ::
  "nat \<Rightarrow> int \<Rightarrow> 'x gap_env \<Rightarrow> usec \<Rightarrow> usec \<Rightarrow> asset_row list \<Rightarrow> gap_job list \<Rightarrow> 'x gap_run \<Rightarrow>
   (py_exn + gap_job list) \<times> 'x gap_run" where
  "scan_assets max_overlaps max_jobs env start now [] scheduled s = (Inr scheduled, s)"
| "scan_assets max_overlaps max_jobs env start now (a # as) scheduled s =
     (if int (length scheduled) \<ge> max_jobs then (Inr scheduled, s)
      else
        let s1 = pause env s in
        case detect_gaps env (a_id a) start now (candles (run_db s1)) of
          Inl err \<Rightarrow> (Inl err, s1)
        | Inr gaps \<Rightarrow>
            (case scan_gaps max_overlaps max_jobs env (a_id a) gaps scheduled s1 of
               (Inl err, s2) \<Rightarrow> (Inl err, s2)
             | (Inr scheduled', s2) \<Rightarrow> scan_assets max_overlaps max_jobs env start now as scheduled' s2))"

definition asset_page :: "asset_row list \<Rightarrow> asset_id \<Rightarrow> nat \<Rightarrow> asset_row list" where
  "asset_page registry last_asset_id n =
     select_limit a_id (\<lambda>a. a_active a \<and> a_exchange a = ''BINANCE'' \<and> a_id a > last_asset_id) n registry"

text \<open>Each round of the loop inspects at least one asset, so \<open>max_assets\<close> rounds are enough fuel.\<close>

fun scan_pages ::
  "nat \<Rightarrow> nat \<Rightarrow> int \<Rightarrow> int \<Rightarrow> int \<Rightarrow> 'x gap_env \<Rightarrow> usec \<Rightarrow> usec \<Rightarrow> asset_id \<Rightarrow> int \<Rightarrow> gap_job list \<Rightarrow> 'x gap_run \<Rightarrow>
   (py_exn + gap_job list) \<times> 'x gap_run" where
  "scan_pages 0 max_overlaps max_assets max_jobs page_size env start now last_id inspected scheduled s = (Inr scheduled, s)"
| "scan_pages (Suc fuel) max_overlaps max_assets max_jobs page_size env start now last_id inspected scheduled s =
     (if \<not> (inspected < max_assets \<and> int (length scheduled) < max_jobs) then (Inr scheduled, s)
      else
        let s1 = pause env s;
            page = asset_page (assets (candles (run_db s1))) last_id (nat (min page_size (max_assets - inspected)))
        in if page = [] then (Inr scheduled, s1)
           else case scan_assets max_overlaps max_jobs env start now page scheduled s1 of
             (Inl err, s2) \<Rightarrow> (Inl err, s2)
           | (Inr scheduled', s2) \<Rightarrow>
               scan_pages fuel max_overlaps max_assets max_jobs page_size env start now
                 (a_id (List.last page)) (inspected + int (length page)) scheduled' s2)"

definition scan_and_schedule_active_assets ::
  "nat \<Rightarrow> usec \<Rightarrow> int \<Rightarrow> int \<Rightarrow> int \<Rightarrow> 'x gap_env \<Rightarrow> 'x gap_run \<Rightarrow> (py_exn + gap_job list) \<times> 'x gap_run" where
  "scan_and_schedule_active_assets max_overlaps lookback max_assets max_jobs page_size env s =
     (if lookback \<le> 0 then (Inl (ValueError ''lookback_window must be positive''), s)
      else if min (min max_assets max_jobs) page_size \<le> 0
      then (Inl (ValueError ''scan bounds must be positive''), s)
      else scan_pages (nat max_assets) max_overlaps max_assets max_jobs page_size env
             (run_now env s - lookback) (run_now env s) 0 0 [] s)"

section \<open>The table invariant\<close>

definition gap_disjoint :: "asset_id \<times> ivl \<Rightarrow> asset_id \<times> ivl \<Rightarrow> bool" where
  "gap_disjoint p q \<longleftrightarrow> (if fst p = fst q then ivl_disjoint (snd p) (snd q) else True)"

definition gap_row_ok :: "gap_job \<Rightarrow> bool" where
  "gap_row_ok r \<longleftrightarrow>
     start_time r < end_time r \<and> 0 \<le> gap_retry_count r \<and> 0 \<le> gap_max_retries r \<and>
     gap_retry_count r \<le> (if gap_status r = G_FAILED then gap_max_retries r + 1 else gap_max_retries r) \<and>
     (gap_status r = G_PROCESSING \<longleftrightarrow> lease_token r \<noteq> None) \<and>
     (lease_token r \<noteq> None \<longleftrightarrow> lease_expires_at r \<noteq> None)"

abbreviation gap_table_ok :: "gap_job list \<Rightarrow> bool" where
  "gap_table_ok \<equiv> table_ok gap_active gap_window gap_disjoint gap_row_ok"

datatype gap_end = GapComplete | GapPark | GapFail py_exn string

fun gap_settle :: "gap_end \<Rightarrow> usec \<Rightarrow> gap_job \<Rightarrow> gap_job" where
  "gap_settle GapComplete now r = gap_complete_row r"
| "gap_settle GapPark now r = gap_park_row r"
| "gap_settle (GapFail err msg) now r = gap_fail_row err msg now r"

fun gap_finish :: "gap_end \<Rightarrow> int \<Rightarrow> string \<Rightarrow> string \<Rightarrow> usec \<Rightarrow> gap_job list \<Rightarrow> bool \<times> gap_job list" where
  "gap_finish GapComplete i w t now rows = gap_complete_update i w t now rows"
| "gap_finish GapPark i w t now rows = mark_awaiting_merge_if_owned i w t now rows"
| "gap_finish (GapFail err msg) i w t now rows = gap_record_failure_if_owned i w t err msg now rows"

definition gap_claim :: "claim_config \<Rightarrow> string \<Rightarrow> string \<Rightarrow> usec \<Rightarrow> usec \<Rightarrow> gap_job list \<Rightarrow> int option \<times> gap_job list" where
  "gap_claim cfg w t now lease rows =
     (case claim_where (gap_eligible cfg now) (gap_stamp w t now lease) rows of
        (res, rows') \<Rightarrow> (map_option job_id res, rows'))"

definition gap_renew :: "int \<Rightarrow> string \<Rightarrow> string \<Rightarrow> usec \<Rightarrow> usec \<Rightarrow> gap_job list \<Rightarrow> bool \<times> gap_job list" where
  "gap_renew i w t now lease rows = gap_heartbeat i w (Some t) now lease rows"

text \<open>
  The transactions of other services on this table: scheduling, and the release of parked jobs
  by the historical merge (\<open>Historical_Merge\<close> shows that its transaction is one of these).
\<close>

datatype gap_request =
    GapSchedule nat usec "asset_row list" asset_id pydatetime pydatetime int
  | GapRelease "gap_job \<Rightarrow> bool" usec

definition release_row :: "usec \<Rightarrow> gap_job \<Rightarrow> gap_job" where
  "release_row now r = r\<lparr>gap_status := G_PENDING, next_attempt_at := Some now\<rparr>"

fun gap_other :: "gap_request \<Rightarrow> gap_job list \<Rightarrow> gap_job list" where
  "gap_other (GapSchedule n now reg asset s e mr) rows =
     (case schedule_repair_jobs n now reg asset s e mr rows of Inl _ \<Rightarrow> rows | Inr (_, rows') \<Rightarrow> rows')"
| "gap_other (GapRelease P now) rows =
     update_where (\<lambda>r. gap_status r = G_AWAITING_MERGE \<and> P r) (release_row now) rows"

lemma gap_fail_row_cases:
  "gap_status (gap_fail_row err msg now r) \<in> {G_PENDING, G_FAILED}"
  "job_id (gap_fail_row err msg now r) = job_id r" "gap_window (gap_fail_row err msg now r) = gap_window r"
  by (simp_all add: gap_fail_row_def Let_def gap_window_def split: prod.splits)

lemma gap_fail_not_processing [simp]: "gap_status (gap_fail_row err msg now r) \<noteq> G_PROCESSING"
  using gap_fail_row_cases(1) [of err msg now r] by auto

lemma gap_row_fail: "gap_row_ok r \<Longrightarrow> gap_status r = G_PROCESSING \<Longrightarrow> gap_row_ok (gap_fail_row err msg now r)"
  by (auto simp: gap_row_ok_def gap_fail_row_def Let_def split: prod.splits)

interpretation gt: guarded_table gap_processing gap_eligible gap_stamp gap_extend gap_settle
  gap_active gap_window gap_disjoint gap_row_ok
proof
  fix c :: claim_config and now and r :: gap_job and i w t
  assume "gap_eligible c now r"
  then show "\<not> owns_row gap_processing i w t now r"
    by (auto simp: gap_eligible_def owns_row_def gap_processing_def dest: sql_gt_not_lt)
next
  fix f now and r :: gap_job
  show "job_id (gap_settle f now r) = job_id r"
    by (cases f) (simp_all add: gap_complete_row_def gap_park_row_def gap_fail_row_cases)
  show "\<not> gap_processing (gap_settle f now r)"
    by (cases f) (simp_all add: gap_complete_row_def gap_park_row_def gap_processing_def)
  show "gap_window (gap_settle f now r) = gap_window r"
    by (cases f) (simp_all add: gap_complete_row_def gap_park_row_def gap_window_def
        gap_fail_row_cases(3) [unfolded gap_window_def])
  show "gap_row_ok (gap_settle f now r)" if ok: "gap_row_ok r" and p: "gap_processing r"
  proof (cases f)
    case (GapFail err msg)
    then show ?thesis using gap_row_fail [of r err msg now] ok p by (simp add: gap_processing_def)
  qed (use ok p in \<open>auto simp: gap_processing_def gap_row_ok_def gap_complete_row_def gap_park_row_def\<close>)
next
  fix r :: gap_job and c now w t lease
  assume ok: "gap_row_ok r" and e: "gap_eligible c now r"
  have "gap_status r \<noteq> G_FAILED" "gap_active r" using e by (auto simp: gap_eligible_def gap_active_def)
  then show "gap_row_ok (gap_stamp w t now lease r) \<and> gap_active r"
    using ok by (auto simp: gap_row_ok_def gap_stamp_def)
qed (auto simp: gap_stamp_def gap_extend_def gap_processing_def gap_active_def gap_window_def gap_row_ok_def)

lemma gap_claim_eq: "gap_claim = gt.tclaim"
  by (intro ext) (simp add: gap_claim_def gt.tclaim_def)

lemma gap_renew_eq: "gap_renew = gt.trenew"
proof (intro ext)
  fix i w t now lease rows
  have "(\<lambda>r. job_id r = i \<and> gap_status r = G_PROCESSING \<and> worker_id r = Some w \<and>
          sql_gt (lease_expires_at r) now \<and> lease_token r = Some t) = owns_row gap_processing i w t now"
    by (auto simp: owns_row_def gap_processing_def)
  then show "gap_renew i w t now lease rows = gt.trenew i w t now lease rows"
    by (simp add: gap_renew_def gap_heartbeat_def gt.trenew_def)
qed

lemmas gap_finish_defs = gap_complete_update_def mark_awaiting_merge_if_owned_def gap_record_failure_if_owned_def

lemma gap_finish_refused:
  "\<not> owned_in gap_processing rows i w t now \<Longrightarrow> gap_finish f i w t now rows = (False, rows)"
  by (cases f) (simp_all add: gap_finish_defs transition_not_owned get_and_update_not_owned)

lemma gap_settle_eta:
  "gap_settle GapComplete now = gap_complete_row" "gap_settle GapPark now = gap_park_row"
  "gap_settle (GapFail err msg) now = gap_fail_row err msg now"
  by (simp_all add: fun_eq_iff)

lemma gap_finish_eq: "unique_ids rows \<Longrightarrow> gap_finish f i w t now rows = gt.tfinish f i w t now rows"
  by (cases f) (simp_all add: gap_finish_defs gt.tfinish_def get_and_update_eq gap_settle_eta)

section \<open>Scheduling keeps the exclusion constraint\<close>

lemma new_gap_job_simps [simp]:
  "job_id (new_gap_job i now a sy mr w) = i" "gap_window (new_gap_job i now a sy mr w) = (a, w)"
  "gap_active (new_gap_job i now a sy mr w)" "\<not> gap_processing (new_gap_job i now a sy mr w)"
  by (simp_all add: new_gap_job_def gap_window_def gap_active_def gap_processing_def)

lemma gap_overlaps_all:
  assumes "length (gap_overlaps asset a b (n + 1) rows) \<le> n"
  shows "set (gap_overlaps asset a b (n + 1) rows) =
    {r \<in> set rows. gap_asset r = asset \<and> gap_active r \<and> start_time r < b \<and> end_time r > a}"
proof -
  let ?xs = "sort_key (\<lambda>r. (start_time r, job_id r))
     (filter (\<lambda>r. gap_asset r = asset \<and> gap_active r \<and> start_time r < b \<and> end_time r > a) rows)"
  have "length ?xs \<le> n" using assms by (simp add: gap_overlaps_def select_limit_def)
  then have "take (n + 1) ?xs = ?xs" by simp
  then have "set (gap_overlaps asset a b (n + 1) rows) = set ?xs" by (simp only: gap_overlaps_def select_limit_def)
  then show ?thesis by auto
qed

lemma schedule_repair_Inr:
  assumes "schedule_repair_jobs n now reg asset s e mr rows = Inr (jobs, rows')"
  obtains "rows' = rows" "length jobs \<le> 1"
  | symbol new where "registered_symbol reg asset = Some symbol" "utc s < utc e" "0 \<le> mr"
      "length (gap_overlaps asset (utc s) (utc e) (n + 1) rows) \<le> n" "rows' = rows @ new"
      "map (snd \<circ> gap_window) new =
         gap_uncovered_intervals (utc s) (utc e) (gap_overlaps asset (utc s) (utc e) (n + 1) rows)"
      "\<forall>r \<in> set new. r = new_gap_job (job_id r) now asset (py_upper symbol) mr (snd (gap_window r))"
      "unique_ids rows \<Longrightarrow> unique_ids rows'"
      "jobs = (if new \<noteq> [] then new else take 1 (gap_overlaps asset (utc s) (utc e) (n + 1) rows))"
proof -
  let ?active = "gap_overlaps asset (utc s) (utc e) (n + 1) rows"
  consider "rows' = rows" "length jobs \<le> 1"
    | symbol where "registered_symbol reg asset = Some symbol" "utc s < utc e" "0 \<le> mr" "length ?active \<le> n"
      "rows' = insert_gap_jobs now asset (py_upper symbol) mr (gap_uncovered_intervals (utc s) (utc e) ?active) rows"
      "jobs = (if drop (length rows) rows' \<noteq> [] then drop (length rows) rows' else take 1 ?active)"
    using assms by (auto simp: schedule_repair_jobs_def Let_def split: if_splits option.splits)
  then show thesis
  proof cases
    case 1
    then show thesis by (rule that(1))
  next
    case (2 symbol)
    let ?mk = "\<lambda>i. new_gap_job i now asset (py_upper symbol) mr"
    obtain new where new: "rows' = rows @ new"
      "map (snd \<circ> gap_window) new = gap_uncovered_intervals (utc s) (utc e) ?active"
      "\<forall>r \<in> set new. r = ?mk (job_id r) ((snd \<circ> gap_window) r)"
      using insert_rows_append [of ?mk "snd \<circ> gap_window"] unfolding 2(5) insert_gap_jobs_def
      by (metis comp_apply new_gap_job_simps(1,2) snd_conv)
    have "unique_ids rows \<Longrightarrow> unique_ids rows'"
      unfolding 2(5) insert_gap_jobs_def by (rule insert_rows_unique) simp_all
    moreover have "jobs = (if new \<noteq> [] then new else take 1 ?active)" using 2(6) new(1) by simp
    ultimately show thesis using that(2) 2(1-4) new by simp
  qed
qed


text \<open>What a successful scheduling transaction appended, when it appended anything.\<close>

lemma gap_new_jobs:
  assumes ab: "a < b" and len: "length (gap_overlaps asset a b (n + 1) rows) \<le> n"
    and win: "map (snd \<circ> gap_window) new = gap_uncovered_intervals a b (gap_overlaps asset a b (n + 1) rows)"
    and new: "\<forall>r \<in> set new. r = new_gap_job (job_id r) now asset symbol mr (snd (gap_window r))"
    and mr: "0 \<le> mr" and r: "r \<in> set new"
  shows "gap_active r" and "\<not> gap_processing r" and "fst (gap_window r) = asset" and "gap_row_ok r"
    and "\<And>q. q \<in> set rows \<Longrightarrow> gap_active q \<Longrightarrow> gap_disjoint (gap_window q) (gap_window r)"
proof -
  have eq: "r = new_gap_job (job_id r) now asset symbol mr (snd (gap_window r))" using new r by blast
  show act: "gap_active r" and "\<not> gap_processing r" and asset: "fst (gap_window r) = asset"
    by (subst eq, simp)+
  have hole: "snd (gap_window r) \<in> set (holes a b (map (snd \<circ> gap_window) (gap_overlaps asset a b (n + 1) rows)))"
    using r win unfolding gap_uncovered_intervals_def by (metis comp_apply image_eqI set_map)
  then have bnd: "a \<le> start_time r" "start_time r < end_time r" "end_time r \<le> b"
    using holes_bounds [OF ab] by (auto simp: gap_window_def)
  then have "gap_row_ok (new_gap_job (job_id r) now asset symbol mr (start_time r, end_time r))"
    using mr by (simp add: gap_row_ok_def new_gap_job_def)
  then show "gap_row_ok r" using eq by (simp add: gap_window_def)
  fix q assume q: "q \<in> set rows" "gap_active q"
  show "gap_disjoint (gap_window q) (gap_window r)"
  proof (cases "q \<in> set (gap_overlaps asset a b (n + 1) rows)")
    case True
    then have "ivl_disjoint (snd (gap_window r)) (snd (gap_window q))"
      using holes_disjoint [OF ab hole] by simp
    then show ?thesis using ivl_disjoint_sym by (auto simp: gap_disjoint_def)
  next
    case False
    then show ?thesis using q bnd asset unfolding gap_overlaps_all [OF len]
      by (auto simp: gap_disjoint_def gap_window_def ivl_disjoint_def)
  qed
qed

lemma gap_table_schedule:
  assumes ok: "gap_table_ok rows"
    and sch: "schedule_repair_jobs n now reg asset s e mr rows = Inr (jobs, rows')"
  shows "gap_table_ok rows'"
  using sch
proof (cases rule: schedule_repair_Inr)
  case 1
  then show ?thesis using ok by simp
next
  case (2 symbol new)
  let ?ov = "gap_overlaps asset (utc s) (utc e) (n + 1) rows"
  note facts = gap_new_jobs [OF 2(2,4,6,7,3)]
  have "\<forall>p \<in> set (map (snd \<circ> gap_window) ?ov). fst p < snd p"
    using table_ok_row [OF ok] gap_overlaps_all [OF 2(4)] by (auto simp: gap_row_ok_def gap_window_def)
  then have "sorted_wrt ivl_disjoint (map (snd \<circ> gap_window) new)"
    unfolding 2(6) gap_uncovered_intervals_def by (intro sorted_wrt_disjoint holes_sorted [OF 2(2)])
  then have "sorted_wrt (\<lambda>q r. ivl_disjoint (snd (gap_window q)) (snd (gap_window r))) new"
    by (simp add: sorted_wrt_map)
  then have "sorted_wrt (\<lambda>q r. gap_disjoint (gap_window q) (gap_window r)) new"
    by (rule sorted_wrt_mono_rel [rotated]) (simp add: gap_disjoint_def)
  moreover have "filter gap_active new = new" using facts(1) by simp
  ultimately have "sorted_wrt gap_disjoint (map gap_window (filter gap_active new))"
    by (simp add: sorted_wrt_map)
  then show ?thesis
    unfolding 2(5) using table_ok_unique [OF ok] 2(5,8) facts
    by (intro table_ok_append [OF ok]) (simp_all add: list_all_iff)
qed

lemma gap_schedule_holds:
  assumes sch: "schedule_repair_jobs n now reg asset s e mr rows = Inr (jobs, rows')"
    and "holds_in gap_processing rows' i t"
  shows "holds_in gap_processing rows i t"
  using sch
proof (cases rule: schedule_repair_Inr)
  case 1
  then show ?thesis using assms(2) by simp
next
  case (2 symbol new)
  have "\<not> gap_processing r" if "r \<in> set new" for r
    by (rule gap_new_jobs(2) [OF 2(2,4,6,7,3) that])
  then show ?thesis using assms(2) by (auto simp: 2(5) holds_in_def)
qed

lemma release_ok:
  "gap_table_ok rows \<Longrightarrow> gap_table_ok (update_where (\<lambda>r. gap_status r = G_AWAITING_MERGE \<and> P r) (release_row now) rows)"
  by (rule table_ok_update) (auto simp: release_row_def gap_row_ok_def gap_active_def gap_window_def
      dest!: table_ok_row)

lemma gap_other_ok: "gap_table_ok rows \<Longrightarrow> gap_table_ok (gap_other x rows)"
  by (cases x) (auto intro: gap_table_schedule release_ok split: sum.splits)

lemma gap_other_holds: "holds_in gap_processing (gap_other x rows) i t \<Longrightarrow> holds_in gap_processing rows i t"
proof (cases x)
  case (GapSchedule n now reg asset s e mr)
  then show "holds_in gap_processing (gap_other x rows) i t \<Longrightarrow> ?thesis"
    by (auto intro: gap_schedule_holds split: sum.splits)
next
  case (GapRelease P now)
  then show "holds_in gap_processing (gap_other x rows) i t \<Longrightarrow> ?thesis"
    by (auto simp: holds_in_def set_update_where gap_processing_def release_row_def split: if_splits)
qed

interpretation gj: fenced_jobs gap_table_ok "holds_in gap_processing" "owned_in gap_processing"
  gap_claim gap_renew gap_finish gap_other
  unfolding gap_claim_eq gap_renew_eq
  by (rule gt.fenced) (auto simp: gap_finish_eq gap_finish_refused gap_other_ok dest: gap_other_holds)


section \<open>The invariant of the worker's database\<close>

definition gap_db_ok :: "'x gap_db_scheme \<Rightarrow> bool" where
  "gap_db_ok db \<longleftrightarrow> db_ok (candles db) \<and> cagg_table_ok (cagg_jobs db) \<and> gap_table_ok (gap_jobs db)"

text \<open>Other sessions keep the invariant; what they do besides is arbitrary.\<close>

definition gap_env_ok :: "('x gap_db_scheme, 'e) worker_env_scheme \<Rightarrow> bool" where
  "gap_env_ok env \<longleftrightarrow> (\<forall>n db. gap_db_ok db \<longrightarrow> gap_db_ok (others env n db))"

abbreviation run_ok :: "'x gap_run \<Rightarrow> bool" where
  "run_ok s \<equiv> gap_db_ok (run_db s)"

lemma pause_ok: "gap_env_ok env \<Longrightarrow> run_ok s \<Longrightarrow> run_ok (pause env s)"
  by (simp add: gap_env_ok_def pause_def)

lemma gap_db_ok_update [simp]:
  "gap_db_ok (db\<lparr>candles := c\<rparr>) \<longleftrightarrow> db_ok c \<and> cagg_table_ok (cagg_jobs db) \<and> gap_table_ok (gap_jobs db)"
  "gap_db_ok (db\<lparr>cagg_jobs := cj\<rparr>) \<longleftrightarrow> db_ok (candles db) \<and> cagg_table_ok cj \<and> gap_table_ok (gap_jobs db)"
  "gap_db_ok (db\<lparr>gap_jobs := gj\<rparr>) \<longleftrightarrow> db_ok (candles db) \<and> cagg_table_ok (cagg_jobs db) \<and> gap_table_ok gj"
  by (simp_all add: gap_db_ok_def)

lemma gap_db_okD:
  "gap_db_ok db \<Longrightarrow> db_ok (candles db)" "gap_db_ok db \<Longrightarrow> cagg_table_ok (cagg_jobs db)"
  "gap_db_ok db \<Longrightarrow> gap_table_ok (gap_jobs db)"
  by (simp_all add: gap_db_ok_def)

lemma gap_finish_table_ok: "gap_table_ok rows \<Longrightarrow> gap_table_ok (snd (gap_finish f i w t now rows))"
  by (rule gj.finish_wf)

lemma gap_claim_table_ok:
  assumes "gap_table_ok rows" and "gap_claim_job cfg w t now lease rows = Inr (res, rows')"
  shows "gap_table_ok rows'"
proof -
  have "rows' = snd (gap_claim cfg w t now lease rows)"
    using assms(2) by (auto simp: gap_claim_job_def gap_claim_def split: if_splits prod.splits)
  then show ?thesis using gj.claim_wf [OF assms(1)] by simp
qed

lemma cagg_schedule_Inr:
  assumes "cagg_table_ok rows" and "schedule_cagg_refresh_job now s e tf incl rows = Inr (job, rows')"
  obtains a b where "compute_cagg_bucket_alignment s e tf incl = Inr (a, b)" "cagg_table_ok rows'"
    "\<forall>x \<in> {a..<b}. \<exists>r \<in> set rows'. cagg_active r \<and> ivl_mem x (cagg_window r)"
  using cagg_schedule_correct [OF assms(1), where now = now and s = s and e = e and tf = tf and incl = incl] assms(2)
  by auto

text \<open>The three outcomes of a fenced batch.\<close>

lemma commit_owned_cases:
  obtains "commit_owned_batch env asset i w t batch s = (Inl LeaseLostError, s)"
  | err where "commit_owned_batch env asset i w t batch s = (Inl err, pause env s)"
  | c where "commit_owned_batch env asset i w t batch s =
        (Inr (), (pause env s)\<lparr>run_db := (run_db (pause env s))\<lparr>candles := c\<rparr>\<rparr>)"
      "owned_in gap_processing (gap_jobs (run_db (pause env s))) i w t (run_now env s)"
      "\<not> run_lost env (pause env s)"
      "commit_batch_in_transaction (run_now env (pause env s)) asset batch (candles (run_db (pause env s))) = Inr c"
proof -
  define s1 where "s1 = pause env s"
  note eq = commit_owned_batch_def [of env asset i w t batch s, folded s1_def, unfolded Let_def gap_assert_lease_owned_def]
  consider (lost) "run_lost env s"
    | (refused) "\<not> run_lost env s"
        "\<not> owned_in gap_processing (gap_jobs (run_db s1)) i w t (run_now env s) \<or> run_lost env s1"
    | (go) "\<not> run_lost env s" "owned_in gap_processing (gap_jobs (run_db s1)) i w t (run_now env s)" "\<not> run_lost env s1"
    by blast
  then show thesis
  proof cases
    case lost
    then show thesis using that(1) by (simp add: commit_owned_batch_def)
  next
    case refused
    then have "commit_owned_batch env asset i w t batch s = (Inl LeaseLostError, s1)" by (auto simp: eq s1_def)
    then show thesis using that(2) by (simp add: s1_def)
  next
    case go
    show thesis
    proof (cases "commit_batch_in_transaction (run_now env s1) asset batch (candles (run_db s1))")
      case (Inl err)
      then have "commit_owned_batch env asset i w t batch s = (Inl err, s1)" using go by (simp add: eq s1_def)
      then show thesis using that(2) by (simp add: s1_def)
    next
      case (Inr c)
      then have "commit_owned_batch env asset i w t batch s = (Inr (), s1\<lparr>run_db := (run_db s1)\<lparr>candles := c\<rparr>\<rparr>)"
        using go by (simp add: eq s1_def)
      then show thesis using that(3) go Inr by (simp add: s1_def)
    qed
  qed
qed

lemma commit_owned_ok:
  assumes "gap_env_ok env" and "run_ok s"
  shows "run_ok (snd (commit_owned_batch env asset i w t batch s))"
proof (cases rule: commit_owned_cases [of env asset i w t batch s])
  case (3 c)
  then show ?thesis
    using pause_ok [OF assms] commit_batch_ok(1) by (auto simp: gap_db_ok_def)
qed (use assms pause_ok in auto)

lemma commit_inline_ok:
  assumes "gap_env_ok env" and "run_ok s"
  shows "run_ok (snd (commit_inline_batch env asset batch s))"
proof (cases "commit_batch (run_now env (pause env s)) asset batch None (candles (run_db (pause env s)))")
  case (Inl err)
  then show ?thesis using pause_ok [OF assms] by (simp add: commit_inline_batch_def)
next
  case (Inr c)
  then have "commit_batch_in_transaction (run_now env (pause env s)) asset batch (candles (run_db (pause env s))) = Inr c"
    by (simp add: commit_batch_def commit_batch_in_transaction_def split: if_splits)
  then have "db_ok c" using commit_batch_ok(1) gap_db_okD(1) [OF pause_ok [OF assms]] by blast
  then show ?thesis using Inr pause_ok [OF assms] by (simp add: commit_inline_batch_def gap_db_ok_def Let_def)
qed

lemma run_stream_ok:
  assumes env: "gap_env_ok env" and persist: "\<And>b s. run_ok s \<Longrightarrow> run_ok (snd (persist b s))"
  shows "run_ok s \<Longrightarrow> run_ok (snd (run_stream env claimed persist n asset batch k stream failure s))"
proof (induction stream arbitrary: batch k s)
  case Nil
  obtain res s' where p: "persist batch s = (res, s')" by (rule prod.exhaust)
  then have "run_ok s'" using persist [OF Nil, of batch] by simp
  then show ?case using Nil p by (auto split: option.splits sum.splits)
next
  case (Cons candle stream)
  let ?b = "batch @ [rest_candle asset (run_now env (pause env s)) candle]"
  have s1: "run_ok (pause env s)" using pause_ok env Cons.prems by blast
  obtain res s' where p: "persist ?b (pause env s) = (res, s')" by (rule prod.exhaust)
  have s': "run_ok s'" using persist [OF s1, of ?b] p by simp
  show ?case using Cons.IH s1 s' p by (cases res) (simp_all add: Let_def)
qed


lemma reconciliation_ok:
  "gap_env_ok env \<Longrightarrow> run_ok s \<Longrightarrow> run_ok (snd (execute_reconciliation env asset a b n owner s))"
  unfolding execute_reconciliation_def Let_def
  by (auto intro!: run_stream_ok commit_owned_ok commit_inline_ok split: option.splits prod.splits)

lemma reconcile_gaps_ok:
  "gap_env_ok env \<Longrightarrow> run_ok s \<Longrightarrow> run_ok (snd (reconcile_gaps env job w t n gaps s))"
proof (induction gaps arbitrary: s)
  case (Cons g gaps)
  obtain a b where g: "g = (a, b)" by (cases g)
  obtain res s' where p: "execute_reconciliation env (gap_asset job) a b n (Some (job_id job, w, t)) s = (res, s')"
    by (rule prod.exhaust)
  then have "run_ok s'" using reconciliation_ok [OF Cons.prems] by (metis snd_conv)
  then show ?case using Cons g p by (cases res) simp_all
qed simp

lemma mark_complete_Inr:
  assumes "mark_complete_and_schedule_cagg job w t now now_tx db = Inr (ok, db')" and "gap_db_ok db"
  obtains a b caggs where
    "compute_cagg_bucket_alignment (utc_dt (start_time job)) (utc_dt (end_time job)) None True = Inr (a, b)"
    "\<forall>x \<in> {a..<b}. \<exists>r \<in> set (cagg_jobs db'). cagg_active r \<and> ivl_mem x (cagg_window r)"
    "gap_db_ok db'" "candles db' = candles db" "owned_in gap_processing (gap_jobs db) (job_id job) w t now_tx"
    "gap_complete_update (job_id job) w t now (gap_jobs db) = (ok, gap_jobs db')"
proof -
  obtain a b where ab: "compute_cagg_bucket_alignment (utc_dt (start_time job)) (utc_dt (end_time job)) None True = Inr (a, b)"
    using assms(1) by (auto simp: mark_complete_and_schedule_cagg_def split: sum.splits)
  then have lt: "a < b" "day_us dvd a" "day_us dvd b"
    using alignment_nonempty alignment_Inr(2,3) by (fastforce simp: bucket_us_def)+
  obtain j caggs jobs where sch: "schedule_cagg_refresh_job now_tx (utc_dt a) (utc_dt b) None False (cagg_jobs db) = Inr (j, caggs)"
    and own: "owned_in gap_processing (gap_jobs db) (job_id job) w t now_tx"
    and fin: "gap_complete_update (job_id job) w t now (gap_jobs db) = (ok, jobs)"
    and db': "db' = db\<lparr>cagg_jobs := caggs, gap_jobs := jobs\<rparr>"
    using assms(1) ab
    by (auto simp: mark_complete_and_schedule_cagg_def gap_assert_lease_owned_def split: sum.splits prod.splits if_splits)
  obtain c d where cd: "compute_cagg_bucket_alignment (utc_dt a) (utc_dt b) None False = Inr (c, d)" "cagg_table_ok caggs"
    "\<forall>x \<in> {c..<d}. \<exists>r \<in> set caggs. cagg_active r \<and> ivl_mem x (cagg_window r)"
    using cagg_schedule_Inr [OF gap_db_okD(2) [OF assms(2)] sch] .
  have sub: "{a..<b} \<subseteq> {c..<d}" using alignment_Inr(4,6) [OF cd(1)] by simp
  have "gap_table_ok jobs" using gap_finish_table_ok [OF gap_db_okD(3) [OF assms(2)], of GapComplete] fin by (metis gap_finish.simps(1) snd_conv)
  then have "gap_db_ok db'" using assms(2) cd(2) by (simp add: db' gap_db_ok_def)
  then show thesis using that [OF ab] cd(3) sub own fin db' by auto
qed

lemma conclude_ok:
  assumes env: "gap_env_ok env" and s: "run_ok s"
  shows "run_ok (snd (conclude_gap_job env job w t s))"
proof -
  define s1 s2 s3 where "s1 = pause env s" and "s2 = pause env s1" and "s3 = pause env s2"
  have ok: "run_ok s1" "run_ok s2" "run_ok s3" using pause_ok [OF env] s by (simp_all add: s1_def s2_def s3_def)
  obtain ok1 jobs where park: "mark_awaiting_merge_if_owned (job_id job) w t (run_now env s2) (gap_jobs (run_db s3)) = (ok1, jobs)"
    by (rule prod.exhaust)
  have "gap_table_ok jobs"
    using gap_finish_table_ok [OF gap_db_okD(3) [OF ok(3)], of GapPark] park by (metis gap_finish.simps(2) snd_conv)
  moreover have "gap_db_ok db" if "mark_complete_and_schedule_cagg job w t n1 n2 (run_db s3) = Inr (ok2, db)" for ok2 db n1 n2
    using mark_complete_Inr [OF that ok(3)] by metis
  ultimately show ?thesis
    using ok park gap_db_okD(1,2) [OF ok(3)]
    by (auto simp: conclude_gap_job_def Let_def s1_def [symmetric] s2_def [symmetric] s3_def [symmetric]
        split: sum.splits)
qed

lemma execute_gap_ok:
  assumes env: "gap_env_ok env" and s: "run_ok s"
  shows "run_ok (snd (execute_gap_job env job w t n s))"
proof (cases "detect_gaps env (gap_asset job) (start_time job) (end_time job) (candles (run_db (pause env s)))")
  case (Inl err)
  then show ?thesis using pause_ok [OF assms] by (simp add: execute_gap_job_def)
next
  case (Inr gaps)
  obtain res s' where p: "reconcile_gaps env job w t n gaps (pause env s) = (res, s')" by (rule prod.exhaust)
  have "run_ok s'" using reconcile_gaps_ok [OF env pause_ok [OF assms], of job w t n gaps] p by simp
  then show ?thesis using Inr p conclude_ok [OF env] by (cases res) (simp_all add: execute_gap_job_def)
qed

lemma process_next_ok:
  assumes env: "gap_env_ok env" and s: "run_ok s"
  shows "run_ok (snd (gap_process_next_job env cfg r lease w t n s))"
proof (cases "gap_claim_job cfg w t (run_now env s) lease (gap_jobs (run_db (pause env s)))")
  case (Inl err)
  then show ?thesis using pause_ok [OF assms] by (simp add: gap_process_next_job_def)
next
  case (Inr p)
  obtain job jobs where p: "p = (job, jobs)" by (cases p)
  show ?thesis
  proof (cases job)
    case None
    then show ?thesis using Inr p pause_ok [OF assms] by (simp add: gap_process_next_job_def)
  next
    case (Some j)
    let ?s1 = "(pause env s)\<lparr>run_db := (run_db (pause env s))\<lparr>gap_jobs := jobs\<rparr>\<rparr>"
    have "gap_table_ok jobs" using gap_claim_table_ok gap_db_okD(3) [OF pause_ok [OF assms]] Inr p by blast
    then have "run_ok ?s1" using pause_ok [OF assms] by (simp add: gap_db_ok_def)
    obtain res s2 where ex: "execute_gap_job env j w t n ?s1 = (res, s2)" by (rule prod.exhaust)
    have s2: "run_ok s2" using execute_gap_ok [OF env \<open>run_ok ?s1\<close>, of j w t n] ex by simp
    have s3: "run_ok (pause env s2)" using pause_ok [OF env s2] .
    have fail: "gap_table_ok (snd (gap_record_failure_if_owned (job_id j) w t err (format_error env err)
        (run_now env s2) (gap_jobs (run_db (pause env s2)))))" for err
      using gap_finish_table_ok [OF gap_db_okD(3) [OF s3]] by (metis gap_finish.simps(3))
    show ?thesis
      using Inr p Some ex s2 fail gap_db_okD(1,2) [OF s3]
      by (cases res) (simp_all add: gap_process_next_job_def Let_def)
  qed
qed

lemma worker_loop_ok:
  "gap_env_ok env \<Longrightarrow> run_ok s \<Longrightarrow> run_ok (snd (gap_worker_loop n env locked lease ids k s))"
proof (induction n arbitrary: k s)
  case (Suc n)
  obtain res s' where p: "gap_process_next_job env (True, locked) False lease (fst (ids k)) (snd (ids k)) 1000 s = (res, s')"
    by (rule prod.exhaust)
  have "run_ok s'" using process_next_ok [OF Suc.prems] p by (metis snd_conv)
  then show ?case using Suc p by (cases res) simp_all
qed simp


section \<open>Properties\<close>

definition minutes_kept :: "('x gap_db_scheme, 'e) worker_env_scheme \<Rightarrow> bool" where
  "minutes_kept env \<longleftrightarrow> (\<forall>n db asset m. has_minute (raw_candles (candles db)) asset m \<longrightarrow>
     has_minute (raw_candles (candles (others env n db))) asset m)"

lemma gap_complete_True:
  assumes "gap_complete_update i w t now rows = (True, rows')"
  shows "\<exists>r \<in> set rows'. job_id r = i \<and> gap_status r = G_COMPLETED \<and> lease_token r = None"
proof -
  have "rowcount (owns_row gap_processing i w t now) rows = 1"
    and rows': "rows' = update_where (owns_row gap_processing i w t now) gap_complete_row rows"
    using assms by (simp_all add: gap_complete_update_def transition_where_def)
  then obtain r where r: "r \<in> set rows" "owns_row gap_processing i w t now r"
    by (metis rowcount_0_iff zero_neq_one)
  then have "gap_complete_row r \<in> set rows'" by (force simp: rows' set_update_where)
  then show ?thesis using r(2) by (intro bexI) (simp_all add: gap_complete_row_def owns_row_def)
qed

lemma detect_nothing_means_stored:
  assumes "db_ok c" and "s < e" and "0 < max_sync_ranges env" and "0 < max_detected_gaps env"
    and "detect_gaps env asset s e c = Inr []"
    and "minute_aligned m" and "s \<le> m" and "m \<le> e"
  shows "has_minute (raw_candles c) asset m"
proof -
  have "ranges_ok (sync_ranges c)" using assms(1) by (simp add: db_ok_def)
  then have "\<forall>x \<in> {s..e}. covered (sync_ranges c) asset x"
    using detect_missing_sound_lemma [OF _ assms(2-4), of "sync_ranges c" asset] assms(2,5)
    by (simp add: detect_gaps_def)
  then have "covered (sync_ranges c) asset m" using assms(7,8) by simp
  then show ?thesis using assms(1,6) by (simp add: db_ok_def coverage_sound_iff)
qed

lemma conclude_completed:
  assumes env: "gap_env_ok env" "minutes_kept env" and s: "run_ok s"
    and bounds: "0 < max_sync_ranges env" "0 < max_detected_gaps env" and win: "start_time job < end_time job"
    and fin: "conclude_gap_job env job w t s = (Inr GapCompleted, s')"
  shows "(\<forall>m. minute_aligned m \<longrightarrow> start_time job \<le> m \<longrightarrow> m \<le> end_time job \<longrightarrow>
       has_minute (raw_candles (candles (run_db s'))) (gap_asset job) m) \<and>
     (\<exists>r \<in> set (gap_jobs (run_db s')). job_id r = job_id job \<and> gap_status r = G_COMPLETED \<and> lease_token r = None) \<and>
     (\<forall>x \<in> {start_time job..end_time job}. \<exists>r \<in> set (cagg_jobs (run_db s')). cagg_active r \<and> ivl_mem x (cagg_window r))"
proof -
  define s1 s2 s3 where "s1 = pause env s" and "s2 = pause env s1" and "s3 = pause env s2"
  have ok: "run_ok s1" "run_ok s2" "run_ok s3" using pause_ok [OF env(1)] s by (simp_all add: s1_def s2_def s3_def)
  have none: "detect_gaps env (gap_asset job) (start_time job) (end_time job) (candles (run_db s1)) = Inr []"
    using fin by (auto simp: conclude_gap_job_def Let_def s1_def [symmetric] split: sum.splits prod.splits if_splits)
  obtain db where comp: "mark_complete_and_schedule_cagg job w t (run_now env s1) (run_now env s2) (run_db s3) = (Inr (True, db))"
    and s': "s' = s3\<lparr>run_db := db\<rparr>"
    using fin none by (auto simp: conclude_gap_job_def Let_def s1_def [symmetric] s2_def [symmetric] s3_def [symmetric]
        split: sum.splits prod.splits if_splits)
  obtain a b where ab: "compute_cagg_bucket_alignment (utc_dt (start_time job)) (utc_dt (end_time job)) None True = Inr (a, b)"
    and cov: "\<forall>x \<in> {a..<b}. \<exists>r \<in> set (cagg_jobs db). cagg_active r \<and> ivl_mem x (cagg_window r)"
    and db: "candles db = candles (run_db s3)"
    and fin: "gap_complete_update (job_id job) w t (run_now env s1) (gap_jobs (run_db s3)) = (True, gap_jobs db)"
    using mark_complete_Inr [OF comp ok(3)] .
  have "a \<le> start_time job" "end_time job + 1 \<le> b" using alignment_Inr(4,6) [OF ab] by simp_all
  then have "\<forall>x \<in> {start_time job..end_time job}. \<exists>r \<in> set (cagg_jobs db). cagg_active r \<and> ivl_mem x (cagg_window r)"
    using cov by auto
  moreover have "has_minute (raw_candles (candles db)) (gap_asset job) m"
    if "minute_aligned m" "start_time job \<le> m" "m \<le> end_time job" for m
  proof -
    have "has_minute (raw_candles (candles (run_db s1))) (gap_asset job) m"
      by (rule detect_nothing_means_stored [OF gap_db_okD(1) [OF ok(1)] win bounds none that])
    then show ?thesis using env(2) by (simp add: db s3_def s2_def pause_def minutes_kept_def)
  qed
  ultimately show ?thesis using gap_complete_True [OF fin] s' by auto
qed

text \<open>
  C3: A completed gap job is really repaired.  Whatever the exchange delivers and other sessions
  do (as long as they keep the invariant and delete no stored minute), when the attempt on a
  claimed job ends with \<open>COMPLETED\<close>, every minute of its window is a row of
  \<open>raw_1m_candles\<close>, the job is \<open>COMPLETED\<close> without a token, and an active CAGG job covers every
  instant of the window.
\<close>

theorem gap_completed_means_repaired:
  assumes "gap_env_ok env" and "minutes_kept env" and "gap_db_ok (run_db s)"
    and "0 < max_sync_ranges env" and "0 < max_detected_gaps env" and "start_time job < end_time job"
    and "execute_gap_job env job w t batch_size s = (Inr GapCompleted, s')"
  shows "(\<forall>m. minute_aligned m \<longrightarrow> start_time job \<le> m \<longrightarrow> m \<le> end_time job \<longrightarrow>
       has_minute (raw_candles (candles (run_db s'))) (gap_asset job) m) \<and>
     (\<exists>r \<in> set (gap_jobs (run_db s')). job_id r = job_id job \<and> gap_status r = G_COMPLETED \<and> lease_token r = None) \<and>
     (\<forall>x \<in> {start_time job..end_time job}. \<exists>r \<in> set (cagg_jobs (run_db s')). cagg_active r \<and> ivl_mem x (cagg_window r))"
proof -
  obtain gaps u s2 where gaps: "reconcile_gaps env job w t batch_size gaps (pause env s) = (Inr u, s2)"
    and fin: "conclude_gap_job env job w t s2 = (Inr GapCompleted, s')"
    using assms(7) by (auto simp: execute_gap_job_def Let_def split: sum.splits prod.splits)
  have "run_ok s2"
    using reconcile_gaps_ok [OF assms(1) pause_ok [OF assms(1,3)], of job w t batch_size gaps] gaps by simp
  then show ?thesis using conclude_completed [OF assms(1,2) _ assms(4-6) fin] by blast
qed


definition example_gap_env :: "unit gap_env" where
  "example_gap_env = \<lparr>clock = (\<lambda>n. int n), others = (\<lambda>_ db. db), lost_at = (\<lambda>_. False),
     format_error = exn_type_name, rest_klines = (\<lambda>_ _. ([], None)), max_sync_ranges = 10,
     max_detected_gaps = 10\<rparr>"

definition example_gap_job :: gap_job where
  "example_gap_job = gap_stamp ''w1'' ''t1'' 0 300 (new_gap_job 1 0 7 ''BTCUSDT'' 5 (0, minute_us))"

definition example_gap_db :: "candle_db \<Rightarrow> gap_db" where
  "example_gap_db c = \<lparr>candles = c, cagg_jobs = [], gap_jobs = [example_gap_job]\<rparr>"

lemma example_gap_env_ok: "gap_env_ok example_gap_env" "minutes_kept example_gap_env"
  by (simp_all add: gap_env_ok_def minutes_kept_def example_gap_env_def)

lemma example_gap_table_ok: "gap_table_ok [example_gap_job]"
  by (simp add: table_ok_def unique_ids_def gap_row_ok_def example_gap_job_def gap_stamp_def new_gap_job_def)

lemma example_mark: "\<exists>db. mark_complete_and_schedule_cagg example_gap_job ''w1'' ''t1'' 2 3 (example_gap_db c) = Inr (True, db)"
proof -
  have "case mark_complete_and_schedule_cagg example_gap_job ''w1'' ''t1'' 2 3 (example_gap_db example_db) of
      Inl _ \<Rightarrow> False | Inr (b, _) \<Rightarrow> b" by code_simp
  moreover have "mark_complete_and_schedule_cagg example_gap_job ''w1'' ''t1'' 2 3 (example_gap_db c) =
      map_sum id (\<lambda>(b, db). (b, db\<lparr>candles := c\<rparr>))
        (mark_complete_and_schedule_cagg example_gap_job ''w1'' ''t1'' 2 3 (example_gap_db example_db))"
    by (simp add: mark_complete_and_schedule_cagg_def example_gap_db_def split: sum.splits prod.splits)
  ultimately show ?thesis by (auto split: sum.splits)
qed

theorem gap_completed_means_repaired_witness:
  "\<exists>c s'. execute_gap_job example_gap_env example_gap_job ''w1'' ''t1'' 1000
       \<lparr>run_db = example_gap_db c, run_tick = 0\<rparr> = (Inr GapCompleted, s') \<and>
     has_minute (raw_candles (candles (run_db s'))) 7 minute_us"
proof -
  obtain c where "commit_raw_batch_in_transaction 99 7 [example_payload 0, example_payload minute_us] example_db = Inr c"
    and rs: "sync_ranges c = [\<lparr>sr_id = 1, sr_asset = 7, start_timestamp = 0, end_timestamp = minute_us\<rparr>]"
    using example_commit by blast
  then have c: "db_ok c" using commit_raw_ok [OF _ example_db_ok] by blast
  let ?s = "\<lparr>run_db = example_gap_db c, run_tick = 0\<rparr>"
  have job: "gap_asset example_gap_job = 7" "start_time example_gap_job = 0" "end_time example_gap_job = minute_us"
    "job_id example_gap_job = 1"
    by (simp_all add: example_gap_job_def gap_stamp_def new_gap_job_def)
  have "\<forall>x \<in> {0..minute_us}. covered (sync_ranges c) 7 x" by (simp add: rs covered_def range_covers_def)
  then have "detect_missing_ranges (sync_ranges c) 7 0 minute_us 10 10 = Inr []"
    using detect_missing_sound_lemma [of "sync_ranges c" 0 minute_us 10 10 7] c by (auto simp: db_ok_def)
  then have none: "detect_gaps example_gap_env 7 0 minute_us c = Inr []"
    by (simp add: detect_gaps_def example_gap_env_def)
  obtain db where mark: "mark_complete_and_schedule_cagg example_gap_job ''w1'' ''t1'' 2 3 (example_gap_db c) = Inr (True, db)"
    using example_mark by blast
  have p: "pause example_gap_env s = s\<lparr>run_tick := run_tick s + 1\<rparr>" for s
    by (simp add: pause_def example_gap_env_def)
  have now: "run_now example_gap_env s = int (run_tick s)" "\<not> run_lost example_gap_env s" for s
    by (simp_all add: run_now_def run_lost_def example_gap_env_def)
  have cand: "candles (example_gap_db c) = c" by (simp add: example_gap_db_def)
  have run: "execute_gap_job example_gap_env example_gap_job ''w1'' ''t1'' 1000 ?s =
      (Inr GapCompleted, \<lparr>run_db = db, run_tick = 4\<rparr>)"
    using mark by (simp add: execute_gap_job_def conclude_gap_job_def Let_def p now job none cand)
  have ok: "gap_db_ok (example_gap_db c)"
    using c example_gap_table_ok by (simp add: gap_db_ok_def example_gap_db_def table_ok_def unique_ids_def)
  have bounds: "0 < max_sync_ranges example_gap_env" "0 < max_detected_gaps example_gap_env"
    "start_time example_gap_job < end_time example_gap_job"
    by (simp_all add: example_gap_env_def job)
  have "minute_aligned minute_us" by (simp add: minute_aligned_def)
  then have stored: "has_minute (raw_candles (candles db)) 7 minute_us"
    using gap_completed_means_repaired [OF example_gap_env_ok _ bounds run] ok by (simp add: job)
  show ?thesis
    by (rule exI [of _ c], rule exI [of _ "\<lparr>run_db = db, run_tick = 4\<rparr>"], rule conjI [OF run]) (simp add: stored)
qed


text \<open>
  C21: A batch of a claimed job is written only under its claim.  Either nothing is written, or
  at the moment of the commit the job is owned by this worker and token and the ownership-lost
  event is not set; the candle tables change by exactly one ingestion transaction, the job
  tables do not change, and the invariant is kept.
\<close>

theorem gap_batch_fenced:
  assumes "gap_env_ok env" and "gap_db_ok (run_db s)"
    and "commit_owned_batch env asset i w t batch s = (res, s')"
  shows "gap_db_ok (run_db s') \<and>
    (case res of
       Inl _ \<Rightarrow> s' = s \<or> s' = pause env s
     | Inr _ \<Rightarrow> owned_in gap_processing (gap_jobs (run_db (pause env s))) i w t (run_now env s) \<and>
         \<not> run_lost env (pause env s) \<and>
         commit_batch_in_transaction (run_now env (pause env s)) asset batch (candles (run_db (pause env s))) =
           Inr (candles (run_db s')) \<and>
         gap_jobs (run_db s') = gap_jobs (run_db (pause env s)) \<and>
         cagg_jobs (run_db s') = cagg_jobs (run_db (pause env s)))"
proof
  show "gap_db_ok (run_db s')" using commit_owned_ok [OF assms(1,2)] assms(3) by (metis snd_conv)
  show "case res of
       Inl _ \<Rightarrow> s' = s \<or> s' = pause env s
     | Inr _ \<Rightarrow> owned_in gap_processing (gap_jobs (run_db (pause env s))) i w t (run_now env s) \<and>
         \<not> run_lost env (pause env s) \<and>
         commit_batch_in_transaction (run_now env (pause env s)) asset batch (candles (run_db (pause env s))) =
           Inr (candles (run_db s')) \<and>
         gap_jobs (run_db s') = gap_jobs (run_db (pause env s)) \<and>
         cagg_jobs (run_db s') = cagg_jobs (run_db (pause env s))"
    using assms(3) by (cases rule: commit_owned_cases [of env asset i w t batch s]) auto
qed

lemma example_gap_db_ok: "gap_db_ok (example_gap_db example_db)"
  using example_db_ok example_gap_table_ok by (simp add: gap_db_ok_def example_gap_db_def table_ok_def unique_ids_def)

theorem gap_batch_fenced_witness:
  "\<exists>res s'. commit_owned_batch example_gap_env 7 1 ''w2'' ''t2'' [example_payload 0]
     \<lparr>run_db = example_gap_db example_db, run_tick = 0\<rparr> = (res, s') \<and> gap_db_ok (run_db s')"
proof -
  obtain res s' where run: "commit_owned_batch example_gap_env 7 1 ''w2'' ''t2'' [example_payload 0]
     \<lparr>run_db = example_gap_db example_db, run_tick = 0\<rparr> = (res, s')" by (rule prod.exhaust)
  then show ?thesis
    using gap_batch_fenced [OF example_gap_env_ok(1) _ run] example_gap_db_ok by simp
qed

text \<open>
  Scheduling repairs.  On a table that satisfies its constraints the transaction fails only
  for a negative retry budget; otherwise it only appends jobs, keeps the per-asset exclusion
  constraint, returns rows of the table, and, when the asset is registered and the overlap scan
  was not cut off, leaves every instant of the window in an active job of the asset.
\<close>

theorem gap_schedule_covers:
  assumes "gap_table_ok rows"
  shows "case schedule_repair_jobs n now reg asset s e mr rows of
      Inl err \<Rightarrow> utc s < utc e \<and> mr < 0
    | Inr (jobs, rows') \<Rightarrow>
        gap_table_ok rows' \<and> set jobs \<subseteq> set rows' \<and> (\<exists>new. rows' = rows @ new) \<and>
        (registered_symbol reg asset \<noteq> None \<longrightarrow> length (gap_overlaps asset (utc s) (utc e) (n + 1) rows) \<le> n \<longrightarrow>
         (\<forall>x \<in> {utc s..<utc e}. \<exists>r \<in> set rows'. gap_active r \<and> gap_asset r = asset \<and>
            start_time r \<le> x \<and> x < end_time r))"
proof (cases "schedule_repair_jobs n now reg asset s e mr rows")
  case (Inl err)
  then show ?thesis by (auto simp: schedule_repair_jobs_def Let_def split: if_splits option.splits)
next
  case (Inr p)
  obtain jobs rows' where p: "p = (jobs, rows')" by (cases p)
  note sch = Inr [unfolded p]
  show ?thesis
  proof (cases "registered_symbol reg asset \<noteq> None \<and> utc s < utc e \<and>
      length (gap_overlaps asset (utc s) (utc e) (n + 1) rows) \<le> n")
    case True
    then obtain symbol where go: "registered_symbol reg asset = Some symbol" "utc s < utc e"
      "length (gap_overlaps asset (utc s) (utc e) (n + 1) rows) \<le> n" by auto
    define hs where "hs = gap_uncovered_intervals (utc s) (utc e) (gap_overlaps asset (utc s) (utc e) (n + 1) rows)"
    have mr: "0 \<le> mr" and rows': "rows' = insert_gap_jobs now asset (py_upper symbol) mr hs rows"
      and jobs: "jobs = (if drop (length rows) rows' \<noteq> [] then drop (length rows) rows'
        else take 1 (gap_overlaps asset (utc s) (utc e) (n + 1) rows))"
      using sch go by (auto simp: schedule_repair_jobs_def Let_def hs_def split: if_splits)
    let ?mk = "\<lambda>i. new_gap_job i now asset (py_upper symbol) mr"
    obtain new where new: "rows' = rows @ new" "map (snd \<circ> gap_window) new = hs"
      "\<forall>r \<in> set new. r = ?mk (job_id r) ((snd \<circ> gap_window) r)"
      using insert_rows_append [of ?mk "snd \<circ> gap_window"] unfolding rows' insert_gap_jobs_def
      by (metis comp_apply new_gap_job_simps(1,2) snd_conv)
    note facts = gap_new_jobs [OF go(2,3) new(2) [unfolded hs_def] _ mr]
    have new_eq: "\<forall>r \<in> set new. r = ?mk (job_id r) (snd (gap_window r))" using new(3) by simp
    have cover: "\<exists>r \<in> set rows'. gap_active r \<and> gap_asset r = asset \<and> start_time r \<le> x \<and> x < end_time r"
      if x: "x \<in> {utc s..<utc e}" for x
    proof -
      consider (old) r where "r \<in> set (gap_overlaps asset (utc s) (utc e) (n + 1) rows)" "ivl_mem x (snd (gap_window r))"
        | (fresh) q where "q \<in> set hs" "ivl_mem x q"
        using holes_cover [of "utc s" x "utc e" "map (snd \<circ> gap_window) (gap_overlaps asset (utc s) (utc e) (n + 1) rows)"] x
        by (auto simp: hs_def gap_uncovered_intervals_def)
      then show ?thesis
      proof cases
        case old
        then show ?thesis unfolding gap_overlaps_all [OF go(3)] new(1)
          by (auto simp: ivl_mem_def gap_window_def)
      next
        case fresh
        then obtain r where r: "r \<in> set new" "q = snd (gap_window r)" unfolding new(2) [symmetric] by auto
        then show ?thesis using fresh(2) facts(1,3) [OF new_eq r(1)] new(1)
          by (intro bexI [of _ r]) (simp_all add: ivl_mem_def gap_window_def)
      qed
    qed
    have "set jobs \<subseteq> set rows'"
      using gap_overlaps_all [OF go(3)] set_take_subset [of 1 "gap_overlaps asset (utc s) (utc e) (n + 1) rows"]
      unfolding jobs new(1) by auto
    then show ?thesis using sch new(1) cover gap_table_schedule [OF assms sch] by simp
  next
    case False
    then have "rows' = rows" and jobs: "jobs = [] \<or> jobs = take 1 (gap_overlaps asset (utc s) (utc e) (n + 1) rows)"
      and empty: "\<not> utc s < utc e \<or> registered_symbol reg asset = None \<or>
        \<not> length (gap_overlaps asset (utc s) (utc e) (n + 1) rows) \<le> n"
      using sch by (auto simp: schedule_repair_jobs_def Let_def split: if_splits option.splits)
    moreover have "set (gap_overlaps asset (utc s) (utc e) (n + 1) rows) \<subseteq> set rows"
      by (auto simp: gap_overlaps_def select_limit_def dest!: in_set_takeD)
    ultimately show ?thesis using sch assms by (auto dest!: in_set_takeD)
  qed
qed

theorem gap_schedule_covers_witness:
  "case schedule_repair_jobs 10 5 (assets example_db) 7 (Naive 0) (Naive (3 * minute_us)) 5 [example_gap_job] of
      Inl err \<Rightarrow> False
    | Inr (jobs, rows') \<Rightarrow> gap_table_ok rows' \<and> set jobs \<subseteq> set rows'"
  using gap_schedule_covers [OF example_gap_table_ok, where s = "Naive 0" and e = "Naive (3 * minute_us)" and mr = 5
      and n = 10 and now = 5 and reg = "assets example_db" and asset = 7]
  by (auto split: sum.splits prod.splits)


text \<open>
  The claim protocol of the gap-repair table.  Claims, heartbeats, completions, parking,
  failures, scheduling and the merge's releases keep the table constraints in any order; once a
  job has been claimed anew, every transition of the previous claimant is refused and leaves the
  table unchanged, unless its own token is issued again.
\<close>

theorem gap_stale_worker_fenced:
  assumes "gap_table_ok rows"
    and "gap_claim cfg w' t' now' lease rows = (Some i, rows')" and "t \<noteq> t'"
    and "Some t \<notin> claim_token_of ` set ops"
  shows "gap_table_ok (gj.exec_all ops rows') \<and>
    gap_finish f i w t now (gj.exec_all ops rows') = (False, gj.exec_all ops rows')"
proof
  have "gap_table_ok rows'" using gj.claim_wf [OF assms(1)] assms(2) by (metis snd_conv)
  then show "gap_table_ok (gj.exec_all ops rows')" by (rule gj.exec_all_wf)
  show "gap_finish f i w t now (gj.exec_all ops rows') = (False, gj.exec_all ops rows')"
    by (rule gj.takeover_fences [OF assms])
qed

text \<open>The lease of \<open>w1\<close> has run out at time 301; \<open>w2\<close> takes the job over.\<close>

theorem gap_stale_worker_fenced_witness:
  "gap_finish GapComplete 1 ''w1'' ''t1'' 302 (snd (gap_claim (True, \<lambda>_. False) ''w2'' ''t2'' 301 300 [example_gap_job])) =
   (False, snd (gap_claim (True, \<lambda>_. False) ''w2'' ''t2'' 301 300 [example_gap_job]))"
proof -
  have "fst (gap_claim (True, \<lambda>_. False) ''w2'' ''t2'' 301 300 [example_gap_job]) = Some 1" by code_simp
  then have claim: "gap_claim (True, \<lambda>_. False) ''w2'' ''t2'' 301 300 [example_gap_job] =
      (Some 1, snd (gap_claim (True, \<lambda>_. False) ''w2'' ''t2'' 301 300 [example_gap_job]))"
    by (metis prod.collapse)
  show ?thesis
    using gap_stale_worker_fenced [OF example_gap_table_ok claim, of "''t1''" "[]"]
    by (simp del: gap_finish.simps)
qed

text \<open>
  The retry policy.  A failure recorded by the owner increments the retry count and gives
  the claim up.  The job is \<open>PENDING\<close> again, with a delay between 30 seconds and one hour,
  exactly if the error is retryable and the budget is not exhausted; otherwise it is \<open>FAILED\<close>.
  A session that does not own the job changes nothing.
\<close>

theorem gap_retry_policy:
  assumes "unique_ids rows" and "r \<in> set rows" and "job_id r = i"
  shows "if owns_row gap_processing i w t now r
    then \<exists>rows' r'. gap_record_failure_if_owned i w t err msg now rows = (True, rows') \<and> r' \<in> set rows' \<and>
      job_id r' = i \<and> gap_retry_count r' = gap_retry_count r + 1 \<and>
      lease_token r' = None \<and> worker_id r' = None \<and> error_category r' = Some (fst (classify_error err)) \<and>
      (if snd (classify_error err) \<and> gap_retry_count r < gap_max_retries r
       then gap_status r' = G_PENDING \<and> (\<exists>d. next_attempt_at r' = Some (now + d) \<and>
              30 * second_us \<le> d \<and> d \<le> 3600 * second_us)
       else gap_status r' = G_FAILED \<and> next_attempt_at r' = None)
    else gap_record_failure_if_owned i w t err msg now rows = (False, rows)"
proof (cases "owns_row gap_processing i w t now r")
  case True
  then have own: "owned_in gap_processing rows i w t now" using assms(2) by (auto simp: owned_in_def)
  let ?rows = "update_where (\<lambda>x. job_id x = i) (gap_fail_row err msg now) rows"
  let ?r = "gap_fail_row err msg now r"
  have upd: "gap_record_failure_if_owned i w t err msg now rows = (True, ?rows)"
    using get_and_update_owned [OF assms(1) own] by (simp add: gap_record_failure_if_owned_def)
  have "?r \<in> set ?rows" using assms(2,3) by (force simp: set_update_where)
  moreover have "job_id ?r = i" using assms(3) gap_fail_row_cases(2) by simp
  moreover have "gap_retry_count ?r = gap_retry_count r + 1" "lease_token ?r = None" "worker_id ?r = None"
    "error_category ?r = Some (fst (classify_error err))"
    by (simp_all add: gap_fail_row_def Let_def split: prod.splits)
  moreover have "if snd (classify_error err) \<and> gap_retry_count r < gap_max_retries r
       then gap_status ?r = G_PENDING \<and> (\<exists>d. next_attempt_at ?r = Some (now + d) \<and>
              30 * second_us \<le> d \<and> d \<le> 3600 * second_us)
       else gap_status ?r = G_FAILED \<and> next_attempt_at ?r = None"
    using backoff_bounds [of "gap_retry_count r + 1"]
    by (cases "classify_error err") (auto simp: gap_fail_row_def Let_def gap_retry_delay_def)
  ultimately show ?thesis using True upd by auto
next
  case False
  then have "\<not> owned_in gap_processing rows i w t now"
    using assms unique_idsD [OF assms(1)] by (auto simp: owned_in_def owns_row_def)
  then show ?thesis using False
    by (simp add: gap_record_failure_if_owned_def get_and_update_not_owned)
qed

theorem gap_retry_policy_witness:
  "\<exists>rows' r'. gap_record_failure_if_owned 1 ''w1'' ''t1'' RateLimitError ''slow down'' 10 [example_gap_job] = (True, rows') \<and>
     r' \<in> set rows' \<and> gap_status r' = G_PENDING"
proof -
  have u: "unique_ids [example_gap_job]" by (simp add: unique_ids_def)
  have j: "job_id example_gap_job = 1" "gap_retry_count example_gap_job = 0" "gap_max_retries example_gap_job = 5"
    "owns_row gap_processing 1 ''w1'' ''t1'' 10 example_gap_job"
    by (simp_all add: example_gap_job_def gap_stamp_def new_gap_job_def owns_row_def gap_processing_def)
  then show ?thesis
    using gap_retry_policy [OF u, of example_gap_job 1 "''w1''" "''t1''" 10 RateLimitError "''slow down''"] by auto
qed

lemma worker_loop_bound:
  "case fst (gap_worker_loop n env locked lease ids k s) of Inl err \<Rightarrow> lease \<le> 0 | Inr m \<Rightarrow> m \<le> k + n"
proof (induction n arbitrary: k s)
  case (Suc n)
  obtain res s' where step: "gap_process_next_job env (True, locked) False lease (fst (ids k)) (snd (ids k)) 1000 s = (res, s')"
    by (rule prod.exhaust)
  have "lease \<le> 0 \<or> (\<exists>b. res = Inr b)"
    using step by (auto simp: gap_process_next_job_def gap_claim_job_def Let_def
        split: option.splits prod.splits sum.splits if_splits)
  then show ?case using step Suc.IH [of "k + 1" s'] by (auto split: sum.splits)
qed simp

text \<open>
  An actor run of the repair worker is safe and bounded.  It leaves a database that
  satisfies the invariants of all its tables, whatever the exchange and other sessions do; it
  raises only for a non-positive bound or lease (the failure of a job is recorded on its row),
  and it processes at most \<open>max_jobs\<close> claims.
\<close>

theorem gap_worker_safe:
  assumes "gap_env_ok env" and "gap_db_ok (run_db s)"
  shows "gap_db_ok (run_db (snd (run_gap_repair_worker env locked lease_minutes max_jobs ids s))) \<and>
    (case fst (run_gap_repair_worker env locked lease_minutes max_jobs ids s) of
       Inl err \<Rightarrow> max_jobs \<le> 0 \<or> lease_minutes \<le> 0
     | Inr n \<Rightarrow> 0 < max_jobs \<and> int n \<le> max_jobs)"
proof -
  have "lease_minutes \<le> 0" if "lease_minutes * minute_us \<le> 0" using that by (simp add: mult_le_0_iff)
  then show ?thesis
    using worker_loop_ok [OF assms, of "nat max_jobs" locked "lease_minutes * minute_us" ids 0]
      worker_loop_bound [where n = "nat max_jobs" and env = env and locked = locked and k = 0 and s = s
        and lease = "lease_minutes * minute_us" and ids = ids] assms(2)
    by (auto simp: run_gap_repair_worker_def split: sum.splits)
qed

theorem gap_worker_safe_witness:
  "gap_db_ok (run_db (snd (run_gap_repair_worker example_gap_env (\<lambda>_. False) 5 3 (\<lambda>_. (''w2'', ''t2''))
     \<lparr>run_db = example_gap_db example_db, run_tick = 400\<rparr>)))"
  using gap_worker_safe [OF example_gap_env_ok(1), of "\<lparr>run_db = example_gap_db example_db, run_tick = 400\<rparr>"]
    example_gap_db_ok by simp


lemma scan_gaps_ok:
  assumes env: "gap_env_ok env"
  shows "run_ok s \<Longrightarrow> int (length js) \<le> mj \<Longrightarrow> run_ok (snd (scan_gaps n mj env asset gaps js s)) \<and>
    (case fst (scan_gaps n mj env asset gaps js s) of Inl _ \<Rightarrow> True | Inr js' \<Rightarrow> int (length js') \<le> mj)"
proof (induction gaps arbitrary: js s)
  case (Cons g gaps)
  obtain a b where g: "g = (a, b)" by (cases g)
  show ?case
  proof (cases "int (length js) \<ge> mj")
    case False
    have s1: "run_ok (pause env s)" using pause_ok [OF env Cons.prems(1)] .
    show ?thesis
    proof (cases "schedule_repair_jobs n (run_now env (pause env s)) (assets (candles (run_db (pause env s)))) asset
        (utc_dt a) (utc_dt b) 5 (gap_jobs (run_db (pause env s)))")
      case (Inl err)
      then show ?thesis using False g s1 by simp
    next
      case (Inr p)
      obtain jobs rows where p: "p = (jobs, rows)" by (cases p)
      have "gap_table_ok rows" using gap_table_schedule [OF gap_db_okD(3) [OF s1] Inr [unfolded p]] .
      then have "run_ok ((pause env s)\<lparr>run_db := (run_db (pause env s))\<lparr>gap_jobs := rows\<rparr>\<rparr>)"
        using s1 by (simp add: gap_db_ok_def)
      moreover have "int (length (js @ take (nat (mj - int (length js))) jobs)) \<le> mj" using False by simp
      ultimately show ?thesis using Cons.IH False g Inr p by (simp add: Let_def)
    qed
  qed (use g Cons.prems in simp)
qed simp

lemma scan_assets_ok:
  assumes env: "gap_env_ok env"
  shows "run_ok s \<Longrightarrow> int (length js) \<le> mj \<Longrightarrow> run_ok (snd (scan_assets n mj env a b as js s)) \<and>
    (case fst (scan_assets n mj env a b as js s) of Inl _ \<Rightarrow> True | Inr js' \<Rightarrow> int (length js') \<le> mj)"
proof (induction as arbitrary: js s)
  case (Cons x as)
  show ?case
  proof (cases "int (length js) \<ge> mj")
    case False
    have s1: "run_ok (pause env s)" using pause_ok [OF env Cons.prems(1)] .
    show ?thesis
    proof (cases "detect_gaps env (a_id x) a b (candles (run_db (pause env s)))")
      case (Inl err)
      then show ?thesis using False s1 by simp
    next
      case (Inr gaps)
      obtain res s2 where sc: "scan_gaps n mj env (a_id x) gaps js (pause env s) = (res, s2)" by (rule prod.exhaust)
      have "run_ok s2 \<and> (case res of Inl _ \<Rightarrow> True | Inr js' \<Rightarrow> int (length js') \<le> mj)"
        using scan_gaps_ok [OF env s1 Cons.prems(2), of n "a_id x" gaps] sc by simp
      then show ?thesis using Cons.IH False Inr sc by (cases res) (simp_all add: Let_def)
    qed
  qed (use Cons.prems in simp)
qed simp

lemma scan_pages_ok:
  assumes env: "gap_env_ok env"
  shows "run_ok s \<Longrightarrow> int (length js) \<le> mj \<Longrightarrow> run_ok (snd (scan_pages fuel n ma mj ps env a b l k js s)) \<and>
    (case fst (scan_pages fuel n ma mj ps env a b l k js s) of Inl _ \<Rightarrow> True | Inr js' \<Rightarrow> int (length js') \<le> mj)"
proof (induction fuel arbitrary: l k js s)
  case (Suc fuel)
  have s1: "run_ok (pause env s)" using pause_ok [OF env Suc.prems(1)] .
  let ?page = "asset_page (assets (candles (run_db (pause env s)))) l (nat (min ps (ma - k)))"
  obtain res s2 where sc: "scan_assets n mj env a b ?page js (pause env s) = (res, s2)" by (rule prod.exhaust)
  have "run_ok s2 \<and> (case res of Inl _ \<Rightarrow> True | Inr js' \<Rightarrow> int (length js') \<le> mj)"
    using scan_assets_ok [OF env s1 Suc.prems(2), of n a b ?page] sc by simp
  then show ?case using Suc s1 sc by (cases res) (simp_all add: Let_def)
qed simp

lemma scan_pages_fuel:
  "nat (ma - k) \<le> fuel \<Longrightarrow>
   scan_pages (fuel + d) n ma mj ps env a b l k js s = scan_pages fuel n ma mj ps env a b l k js s"
proof (induction fuel arbitrary: l k js s)
  case 0
  then show ?case by (cases d) simp_all
next
  case (Suc fuel)
  have "scan_pages (fuel + d) n ma mj ps env a b (a_id (List.last page)) (k + int (length page)) js' s' =
      scan_pages fuel n ma mj ps env a b (a_id (List.last page)) (k + int (length page)) js' s'"
    if "page \<noteq> []" for page js' s'
  proof -
    have "0 < length page" using that by simp
    then have "nat (ma - (k + int (length page))) \<le> fuel" using Suc.prems by linarith
    then show ?thesis by (rule Suc.IH)
  qed
  then show ?case by (auto simp: Let_def split: prod.splits sum.splits)
qed

text \<open>
  The scan for gaps is safe and bounded.  It keeps the invariants of all tables, returns at
  most \<open>max_jobs\<close> jobs, and the page loop needs at most \<open>max_assets\<close> rounds: more fuel never
  changes its result.
\<close>

theorem gap_scan_bounded:
  assumes "gap_env_ok env" and "gap_db_ok (run_db s)"
  shows "gap_db_ok (run_db (snd (scan_and_schedule_active_assets n lookback max_assets max_jobs page_size env s))) \<and>
    (case fst (scan_and_schedule_active_assets n lookback max_assets max_jobs page_size env s) of
       Inl _ \<Rightarrow> True | Inr jobs \<Rightarrow> int (length jobs) \<le> max_jobs) \<and>
    (\<forall>d. 0 < lookback \<and> 0 < max_assets \<and> 0 < max_jobs \<and> 0 < page_size \<longrightarrow>
       scan_pages (nat max_assets + d) n max_assets max_jobs page_size env (run_now env s - lookback) (run_now env s) 0 0 [] s =
       scan_and_schedule_active_assets n lookback max_assets max_jobs page_size env s)"
proof (cases "0 < lookback \<and> 0 < max_assets \<and> 0 < max_jobs \<and> 0 < page_size")
  case True
  then have eq: "scan_and_schedule_active_assets n lookback max_assets max_jobs page_size env s =
      scan_pages (nat max_assets) n max_assets max_jobs page_size env (run_now env s - lookback) (run_now env s) 0 0 [] s"
    by (auto simp: scan_and_schedule_active_assets_def min_le_iff_disj)
  show ?thesis unfolding eq
    using scan_pages_ok [OF assms, where js = "[]" and mj = max_jobs] True by (simp add: scan_pages_fuel)
next
  case False
  then have "fst (scan_and_schedule_active_assets n lookback max_assets max_jobs page_size env s) \<in> range Inl"
    "snd (scan_and_schedule_active_assets n lookback max_assets max_jobs page_size env s) = s"
    by (auto simp: scan_and_schedule_active_assets_def)
  then show ?thesis using False assms(2) by auto
qed

theorem gap_scan_bounded_witness:
  "gap_db_ok (run_db (snd (scan_and_schedule_active_assets 10 day_us 5 3 2 example_gap_env
     \<lparr>run_db = example_gap_db example_db, run_tick = 400\<rparr>)))"
  using gap_scan_bounded [OF example_gap_env_ok(1), of "\<lparr>run_db = example_gap_db example_db, run_tick = 400\<rparr>"]
    example_gap_db_ok by simp

end
