(* ===== verification/Historical_Merge.thy ===== *)
theory Historical_Merge
  imports Gap_Repair
begin

text \<open>
  \<open>app/services/historical_merge.py\<close>: promotion of staged candles older than seven days into the
  canonical table, one durable job per UTC day.  The database extends the one of the repair
  workers by the merge jobs.  Timescale's chunk procedures are parameters: whether the call at a
  given suspension point raises.  So are the rows that \<open>FOR UPDATE SKIP LOCKED\<close> skips.
\<close>

section \<open>The job table\<close>

datatype historical_merge_status = M_PENDING | M_PROCESSING | M_COMPLETED | M_FAILED

record merge_job = lease_cols +
  day_bucket :: usec
  merge_status :: historical_merge_status
  merge_retry_count :: int
  merge_max_retries :: int

record merge_db = gap_db +
  merge_jobs :: "merge_job list"

definition merge_processing :: "merge_job \<Rightarrow> bool" where
  "merge_processing r \<longleftrightarrow> merge_status r = M_PROCESSING"

definition merge_retry_delay :: "int \<Rightarrow> int" where
  "merge_retry_delay retry_count = backoff_us retry_count"

section \<open>Scheduling\<close>

text \<open>\<open>date_trunc('day', ts)\<close> in a UTC session.\<close>

definition day_of :: "usec \<Rightarrow> usec" where
  "day_of t = t div day_us * day_us"

definition new_merge_job :: "int \<Rightarrow> usec \<Rightarrow> usec \<Rightarrow> merge_job" where
  "new_merge_job i now day =
     \<lparr>job_id = i, worker_id = None, lease_token = None, claimed_at = None, lease_expires_at = None,
      next_attempt_at = None, error_message = None, error_category = None, created_at = now,
      day_bucket = day, merge_status = M_PENDING, merge_retry_count = 0, merge_max_retries = 5\<rparr>"

text \<open>The \<open>DO UPDATE SET\<close> clause; the retry count is not among its columns.\<close>

definition reopen_row :: "merge_job \<Rightarrow> merge_job" where
  "reopen_row r =
     r\<lparr>merge_status := M_PENDING, worker_id := None, lease_token := None, claimed_at := None,
       lease_expires_at := None, next_attempt_at := None, error_message := None, error_category := None\<rparr>"

definition upsert_day :: "usec \<Rightarrow> usec \<Rightarrow> merge_job list \<Rightarrow> merge_job list" where
  "upsert_day now day rows =
     (if day \<in> set (map day_bucket rows)
      then update_where (\<lambda>r. day_bucket r = day \<and> merge_status r \<in> {M_COMPLETED, M_FAILED}) reopen_row rows
      else rows @ [new_merge_job (next_id rows) now day])"

definition staged_days :: "nat \<Rightarrow> candle_row list \<Rightarrow> usec list" where
  "staged_days n staged = take n (sort (remdups (map (\<lambda>r. day_of (c_time r)) staged)))"

definition schedule_staged_days ::
  "int \<Rightarrow> usec \<Rightarrow> candle_row list \<Rightarrow> merge_job list \<Rightarrow> py_exn + (int \<times> merge_job list)" where
  "schedule_staged_days max_days now staged rows =
     (if max_days \<le> 0 then Inl (ValueError ''max_days must be positive'')
      else let days = staged_days (nat max_days) staged
           in Inr (int (length days), fold (upsert_day now) days rows))"

section \<open>Claims\<close>

definition merge_eligible :: "claim_config \<Rightarrow> usec \<Rightarrow> merge_job \<Rightarrow> bool" where
  "merge_eligible cfg now r \<longleftrightarrow>
     \<not> snd cfg (job_id r) \<and>
     (merge_status r = M_PENDING \<and>
        (fst cfg \<longrightarrow> next_attempt_at r = None \<or> sql_le (next_attempt_at r) now) \<or>
      merge_status r = M_PROCESSING \<and> sql_lt (lease_expires_at r) now)"

definition merge_stamp :: "string \<Rightarrow> string \<Rightarrow> usec \<Rightarrow> usec \<Rightarrow> merge_job \<Rightarrow> merge_job" where
  "merge_stamp w t now lease r =
     r\<lparr>merge_status := M_PROCESSING, worker_id := Some w, lease_token := Some t,
       claimed_at := Some now, lease_expires_at := Some (now + lease), next_attempt_at := None\<rparr>"


definition merge_assert_owned :: "int \<Rightarrow> string \<Rightarrow> string \<Rightarrow> usec \<Rightarrow> merge_job list \<Rightarrow> py_exn + unit" where
  "merge_assert_owned i w t now rows =
     (if owned_in merge_processing rows i w t now then Inr () else Inl LeaseLostError)"

definition merge_extend :: "usec \<Rightarrow> usec \<Rightarrow> merge_job \<Rightarrow> merge_job" where
  "merge_extend now lease r = r\<lparr>lease_expires_at := Some (now + lease)\<rparr>"

definition merge_heartbeat :: "int \<Rightarrow> string \<Rightarrow> string \<Rightarrow> usec \<Rightarrow> usec \<Rightarrow> merge_job list \<Rightarrow> bool \<times> merge_job list" where
  "merge_heartbeat i w t now lease rows =
     transition_where (owns_row merge_processing i w t now) (merge_extend now lease) rows"

definition merge_heartbeat_loop ::
  "int \<Rightarrow> string \<Rightarrow> string \<Rightarrow> usec \<Rightarrow> merge_job list hb_event list \<Rightarrow> merge_job list \<Rightarrow> bool \<times> merge_job list" where
  "merge_heartbeat_loop i w t lease = heartbeat_loop (\<lambda>now. merge_heartbeat i w t now lease)"

definition merge_complete_row :: "merge_job \<Rightarrow> merge_job" where
  "merge_complete_row r =
     r\<lparr>merge_status := M_COMPLETED, worker_id := None, lease_token := None, claimed_at := None,
       lease_expires_at := None, next_attempt_at := None, error_message := None, error_category := None\<rparr>"

definition merge_complete_update :: "int \<Rightarrow> string \<Rightarrow> string \<Rightarrow> usec \<Rightarrow> merge_job list \<Rightarrow> bool \<times> merge_job list" where
  "merge_complete_update i w t now rows =
     transition_where (owns_row merge_processing i w t now) merge_complete_row rows"

definition merge_fail_row :: "py_exn \<Rightarrow> string \<Rightarrow> usec \<Rightarrow> merge_job \<Rightarrow> merge_job" where
  "merge_fail_row err msg now r =
     (let r' = r\<lparr>merge_retry_count := merge_retry_count r + 1, error_message := Some msg,
                 error_category := Some (exn_type_name err), worker_id := None, lease_token := None,
                 claimed_at := None, lease_expires_at := None\<rparr>
      in if merge_retry_count r' \<le> merge_max_retries r'
         then r'\<lparr>merge_status := M_PENDING,
                 next_attempt_at := Some (now + merge_retry_delay (merge_retry_count r'))\<rparr>
         else r'\<lparr>merge_status := M_FAILED, next_attempt_at := None\<rparr>)"

definition merge_record_failure_if_owned ::
  "int \<Rightarrow> string \<Rightarrow> string \<Rightarrow> py_exn \<Rightarrow> string \<Rightarrow> usec \<Rightarrow> merge_job list \<Rightarrow> bool \<times> merge_job list" where
  "merge_record_failure_if_owned i w t err msg now rows =
     get_and_update merge_processing i w t now (merge_fail_row err msg now) rows"

section \<open>Promotion\<close>

record merge_env = "merge_db worker_env" +
  decompress_chunk :: "nat \<Rightarrow> py_exn option"
  compress_chunk :: "nat \<Rightarrow> py_exn option"
  staged_locked :: "nat \<Rightarrow> asset_id \<times> usec \<Rightarrow> bool"
  gap_locked :: "nat \<Rightarrow> int \<Rightarrow> bool"

type_synonym merge_run = "merge_db worker_run"

text \<open>Both chunk steps: lost flag, ownership in a session of its own, then the call.\<close>

definition chunk_step ::
  "merge_env \<Rightarrow> (nat \<Rightarrow> py_exn option) \<Rightarrow> int \<Rightarrow> string \<Rightarrow> string \<Rightarrow> merge_run \<Rightarrow> (py_exn + unit) \<times> merge_run" where
  "chunk_step env call i w t s =
     (if run_lost env s then (Inl LeaseLostError, s)
      else
        let s1 = pause env s in
        case merge_assert_owned i w t (run_now env s) (merge_jobs (run_db s1)) of
          Inl err \<Rightarrow> (Inl err, s1)
        | Inr _ \<Rightarrow>
            let s2 = pause env s1
            in (case call (run_tick s2) of Some err \<Rightarrow> Inl err | None \<Rightarrow> Inr (), s2))"

definition decompress_day :: "merge_env \<Rightarrow> int \<Rightarrow> string \<Rightarrow> string \<Rightarrow> merge_run \<Rightarrow> (py_exn + unit) \<times> merge_run" where
  "decompress_day env = chunk_step env (decompress_chunk env)"

definition recompress_day :: "merge_env \<Rightarrow> int \<Rightarrow> string \<Rightarrow> string \<Rightarrow> merge_run \<Rightarrow> (py_exn + unit) \<times> merge_run" where
  "recompress_day env = chunk_step env (compress_chunk env)"

definition staged_page :: "usec \<Rightarrow> usec \<Rightarrow> nat \<Rightarrow> (asset_id \<times> usec \<Rightarrow> bool) \<Rightarrow> candle_row list \<Rightarrow> candle_row list" where
  "staged_page day next_day n locked staged =
     select_limit candle_key (\<lambda>r. day \<le> c_time r \<and> c_time r < next_day \<and> \<not> locked (candle_key r)) n staged"

text \<open>\<open>itertools.groupby\<close> on the asset id of sorted rows.\<close>

function asset_groups :: "candle_row list \<Rightarrow> (asset_id \<times> candle_row list) list" where
  "asset_groups [] = []"
| "asset_groups (r # rs) =
     (c_asset r, r # takeWhile (\<lambda>x. c_asset x = c_asset r) rs) #
     asset_groups (dropWhile (\<lambda>x. c_asset x = c_asset r) rs)"
  by pat_completeness auto
termination by (relation "measure length") (auto simp: le_imp_less_Suc length_dropWhile_le)

definition optional_time :: "usec option \<Rightarrow> pydatetime pyfield" where
  "optional_time x = (case x of None \<Rightarrow> PyNone | Some t \<Rightarrow> Val (utc_dt t))"

definition staged_payload :: "candle_row \<Rightarrow> payload" where
  "staged_payload r =
     \<lparr>p_timestamp = Val (utc_dt (c_time r)), p_asset_id = Val (c_asset r), p_open = Val (c_open r),
      p_high = Val (c_high r), p_low = Val (c_low r), p_close = Val (c_close r),
      p_volume = Val (c_volume r), p_source = Val (c_source r),
      p_event_time = optional_time (c_event_time r), p_received_at = optional_time (c_received_at r)\<rparr>"

fun commit_groups :: "usec \<Rightarrow> (asset_id \<times> candle_row list) list \<Rightarrow> candle_db \<Rightarrow> py_exn + candle_db" where
  "commit_groups now [] db = Inr db"
| "commit_groups now ((asset, rows) # groups) db =
     (case commit_raw_batch_in_transaction now asset (map staged_payload rows) db of
        Inl err \<Rightarrow> Inl err
      | Inr db' \<Rightarrow> commit_groups now groups db')"

definition delete_staged :: "(asset_id \<times> usec) list \<Rightarrow> candle_db \<Rightarrow> candle_db" where
  "delete_staged keys db = db\<lparr>staged_candles := filter (\<lambda>r. candle_key r \<notin> set keys) (staged_candles db)\<rparr>"

definition merge_one_page ::
  "merge_env \<Rightarrow> usec \<Rightarrow> usec \<Rightarrow> nat \<Rightarrow> int \<Rightarrow> string \<Rightarrow> string \<Rightarrow> merge_run \<Rightarrow> (py_exn + nat) \<times> merge_run" where
  "merge_one_page env day next_day page_size i w t s =
     (if run_lost env s then (Inl LeaseLostError, s)
      else
        let s1 = pause env s; db = run_db s1 in
        case merge_assert_owned i w t (run_now env s) (merge_jobs db) of
          Inl err \<Rightarrow> (Inl err, s1)
        | Inr _ \<Rightarrow>
            let rows = staged_page day next_day page_size (staged_locked env (run_tick s1)) (staged_candles (candles db)) in
            if rows = [] then (Inr 0, s1)
            else if run_lost env s1 then (Inl LeaseLostError, s1)
            else case commit_groups (run_now env s1) (asset_groups rows) (candles db) of
              Inl err \<Rightarrow> (Inl err, s1)
            | Inr c \<Rightarrow>
                (Inr (length rows), s1\<lparr>run_db := db\<lparr>candles := delete_staged (map candle_key rows) c\<rparr>\<rparr>))"

text \<open>
  The page loop runs until a page is empty, which other sessions can delay for ever by staging
  more rows.  \<open>None\<close> is a loop that has not ended within \<open>fuel\<close> pages.
\<close>

fun merge_pages ::
  "nat \<Rightarrow> merge_env \<Rightarrow> usec \<Rightarrow> usec \<Rightarrow> nat \<Rightarrow> int \<Rightarrow> string \<Rightarrow> string \<Rightarrow> merge_run \<Rightarrow> ((py_exn + unit) \<times> merge_run) option" where
  "merge_pages 0 env day next_day n i w t s = None"
| "merge_pages (Suc fuel) env day next_day n i w t s =
     (if run_lost env s then Some (Inl LeaseLostError, s)
      else case merge_one_page env day next_day n i w t s of
        (Inl err, s') \<Rightarrow> Some (Inl err, s')
      | (Inr k, s') \<Rightarrow> if k = 0 then Some (Inr (), s') else merge_pages fuel env day next_day n i w t s')"

section \<open>Completion\<close>

definition staged_between :: "usec \<Rightarrow> usec \<Rightarrow> candle_db \<Rightarrow> bool" where
  "staged_between day next_day db = list_ex (\<lambda>r. day \<le> c_time r \<and> c_time r < next_day) (staged_candles db)"

definition merge_complete_if_owned ::
  "int \<Rightarrow> string \<Rightarrow> string \<Rightarrow> usec \<Rightarrow> usec \<Rightarrow> usec \<Rightarrow> usec \<Rightarrow> merge_db \<Rightarrow> py_exn + (bool \<times> merge_db)" where
  "merge_complete_if_owned i w t day next_day now now_tx db =
     (case merge_assert_owned i w t now_tx (merge_jobs db) of
        Inl err \<Rightarrow> Inl err
      | Inr _ \<Rightarrow>
          if staged_between day next_day (candles db) then Inr (False, db)
          else case schedule_cagg_refresh_job now_tx (utc_dt day) (utc_dt next_day) (Some ''1d'') False (cagg_jobs db) of
            Inl err \<Rightarrow> Inl err
          | Inr (_, caggs) \<Rightarrow>
              (case merge_complete_update i w t now (merge_jobs db) of
                 (ok, jobs) \<Rightarrow> Inr (ok, db\<lparr>cagg_jobs := caggs, merge_jobs := jobs\<rparr>)))"

definition release_gap_jobs_waiting_for_merge ::
  "(int \<Rightarrow> bool) \<Rightarrow> int \<Rightarrow> usec \<Rightarrow> candle_db \<Rightarrow> gap_job list \<Rightarrow> py_exn + (int \<times> gap_job list)" where
  "release_gap_jobs_waiting_for_merge locked max_jobs now c rows =
     (if max_jobs \<le> 0 then Inl (ValueError ''max_jobs must be positive'')
      else
        let jobs = select_limit (\<lambda>r. (created_at r, job_id r))
               (\<lambda>r. gap_status r = G_AWAITING_MERGE \<and> \<not> locked (job_id r)) (nat max_jobs) rows;
            drained = filter (\<lambda>r. \<not> has_staged_rows r c) jobs
        in Inr (int (length drained),
                update_where (\<lambda>r. gap_status r = G_AWAITING_MERGE \<and> job_id r \<in> set (map job_id drained))
                  (release_row now) rows))"

section \<open>The worker flow\<close>

definition conclude_merge_job ::
  "merge_env \<Rightarrow> merge_job \<Rightarrow> string \<Rightarrow> string \<Rightarrow> merge_run \<Rightarrow> (py_exn + unit) \<times> merge_run" where
  "conclude_merge_job env job w t s =
     (if run_lost env s then (Inl LeaseLostError, s)
      else
        let s0 = pause env s; s1 = pause env s0; day = day_bucket job in
        case merge_complete_if_owned (job_id job) w t day (day + day_us) (run_now env s) (run_now env s0) (run_db s1) of
          Inl err \<Rightarrow> (Inl err, s1)
        | Inr (ok, db) \<Rightarrow>
            let s2 = s1\<lparr>run_db := db\<rparr> in
            if \<not> ok then (Inl LeaseLostError, s2)
            else
              let s3 = pause env s2 in
              case release_gap_jobs_waiting_for_merge (gap_locked env (run_tick s3)) 100 (run_now env s3)
                     (candles (run_db s3)) (gap_jobs (run_db s3)) of
                Inl err \<Rightarrow> (Inl err, s3)
              | Inr (_, rows) \<Rightarrow> (Inr (), s3\<lparr>run_db := (run_db s3)\<lparr>gap_jobs := rows\<rparr>\<rparr>))"

definition execute_merge_job ::
  "nat \<Rightarrow> merge_env \<Rightarrow> merge_job \<Rightarrow> string \<Rightarrow> string \<Rightarrow> nat \<Rightarrow> merge_run \<Rightarrow> ((py_exn + unit) \<times> merge_run) option" where
  "execute_merge_job fuel env job w t page_size s =
     (case decompress_day env (job_id job) w t s of
        (Inl err, s1) \<Rightarrow> Some (Inl err, s1)
      | (Inr _, s1) \<Rightarrow>
          (case merge_pages fuel env (day_bucket job) (day_bucket job + day_us) page_size (job_id job) w t s1 of
             None \<Rightarrow> None
           | Some (Inl err, s2) \<Rightarrow> Some (Inl err, s2)
           | Some (Inr _, s2) \<Rightarrow>
               (case recompress_day env (job_id job) w t s2 of
                  (Inl err, s3) \<Rightarrow> Some (Inl err, s3)
                | (Inr _, s3) \<Rightarrow> Some (conclude_merge_job env job w t s3))))"





section \<open>The table invariant\<close>

text \<open>The day bucket is unique over all rows of the table, whatever their status.\<close>

definition merge_row_ok :: "merge_job \<Rightarrow> bool" where
  "merge_row_ok r \<longleftrightarrow>
     0 \<le> merge_retry_count r \<and> 0 \<le> merge_max_retries r \<and>
     (merge_status r = M_PROCESSING \<longleftrightarrow> lease_token r \<noteq> None) \<and>
     (lease_token r \<noteq> None \<longleftrightarrow> lease_expires_at r \<noteq> None)"

abbreviation merge_table_ok :: "merge_job list \<Rightarrow> bool" where
  "merge_table_ok \<equiv> table_ok (\<lambda>_. True) day_bucket (\<noteq>) merge_row_ok"

datatype merge_end = MergeComplete | MergeFail py_exn string

fun merge_settle :: "merge_end \<Rightarrow> usec \<Rightarrow> merge_job \<Rightarrow> merge_job" where
  "merge_settle MergeComplete now r = merge_complete_row r"
| "merge_settle (MergeFail err msg) now r = merge_fail_row err msg now r"

fun merge_finish :: "merge_end \<Rightarrow> int \<Rightarrow> string \<Rightarrow> string \<Rightarrow> usec \<Rightarrow> merge_job list \<Rightarrow> bool \<times> merge_job list" where
  "merge_finish MergeComplete i w t now rows = merge_complete_update i w t now rows"
| "merge_finish (MergeFail err msg) i w t now rows = merge_record_failure_if_owned i w t err msg now rows"

definition merge_claim :: "claim_config \<Rightarrow> string \<Rightarrow> string \<Rightarrow> usec \<Rightarrow> usec \<Rightarrow> merge_job list \<Rightarrow> int option \<times> merge_job list" where
  "merge_claim cfg w t now lease rows =
     (case claim_where (merge_eligible cfg now) (merge_stamp w t now lease) rows of
        (res, rows') \<Rightarrow> (map_option job_id res, rows'))"

type_synonym merge_request = "int \<times> usec \<times> candle_row list"

fun merge_schedule :: "merge_request \<Rightarrow> merge_job list \<Rightarrow> merge_job list" where
  "merge_schedule (n, now, staged) rows =
     (case schedule_staged_days n now staged rows of Inl _ \<Rightarrow> rows | Inr (_, rows') \<Rightarrow> rows')"

lemma merge_fail_row_cases:
  "merge_status (merge_fail_row err msg now r) \<in> {M_PENDING, M_FAILED}"
  "job_id (merge_fail_row err msg now r) = job_id r" "day_bucket (merge_fail_row err msg now r) = day_bucket r"
  "merge_row_ok r \<Longrightarrow> merge_row_ok (merge_fail_row err msg now r)"
  by (simp_all add: merge_fail_row_def Let_def merge_row_ok_def)

lemma merge_fail_not_processing [simp]: "merge_status (merge_fail_row err msg now r) \<noteq> M_PROCESSING"
  using merge_fail_row_cases(1) [of err msg now r] by auto

interpretation mt: guarded_table merge_processing merge_eligible merge_stamp merge_extend merge_settle
  "\<lambda>_. True" day_bucket "(\<noteq>)" merge_row_ok
proof
  fix c :: claim_config and now and r :: merge_job and i w t
  assume "merge_eligible c now r"
  then show "\<not> owns_row merge_processing i w t now r"
    by (auto simp: merge_eligible_def owns_row_def merge_processing_def dest: sql_gt_not_lt)
next
  fix f now and r :: merge_job
  show "job_id (merge_settle f now r) = job_id r"
    by (cases f) (simp_all add: merge_complete_row_def merge_fail_row_cases)
  show "\<not> merge_processing (merge_settle f now r)"
    by (cases f) (simp_all add: merge_complete_row_def merge_processing_def)
  show "day_bucket (merge_settle f now r) = day_bucket r"
    by (cases f) (simp_all add: merge_complete_row_def merge_fail_row_cases)
  show "merge_row_ok (merge_settle f now r)" if ok: "merge_row_ok r" "merge_processing r"
  proof (cases f)
    case (MergeFail err msg)
    then show ?thesis using merge_fail_row_cases(4) ok(1) by simp
  qed (use ok in \<open>simp add: merge_row_ok_def merge_complete_row_def\<close>)
qed (auto simp: merge_stamp_def merge_extend_def merge_processing_def merge_row_ok_def)

lemma merge_claim_eq: "merge_claim = mt.tclaim"
  by (intro ext) (simp add: merge_claim_def mt.tclaim_def)

lemma merge_renew_eq: "merge_heartbeat = mt.trenew"
  by (intro ext) (simp add: merge_heartbeat_def mt.trenew_def)

lemma merge_finish_refused:
  "\<not> owned_in merge_processing rows i w t now \<Longrightarrow> merge_finish f i w t now rows = (False, rows)"
  by (cases f) (simp_all add: merge_complete_update_def merge_record_failure_if_owned_def
      transition_not_owned get_and_update_not_owned)

lemma merge_settle_eta:
  "merge_settle MergeComplete now = merge_complete_row"
  "merge_settle (MergeFail err msg) now = merge_fail_row err msg now"
  by (simp_all add: fun_eq_iff)

lemma merge_finish_eq: "unique_ids rows \<Longrightarrow> merge_finish f i w t now rows = mt.tfinish f i w t now rows"
  by (cases f) (simp_all add: merge_complete_update_def merge_record_failure_if_owned_def
      mt.tfinish_def get_and_update_eq merge_settle_eta)

lemma upsert_day_ok: "merge_table_ok rows \<Longrightarrow> merge_table_ok (upsert_day now day rows)"
proof (cases "day \<in> set (map day_bucket rows)")
  case True
  assume "merge_table_ok rows"
  then have "merge_table_ok (update_where (\<lambda>r. day_bucket r = day \<and> merge_status r \<in> {M_COMPLETED, M_FAILED}) reopen_row rows)"
  proof (rule table_ok_update)
    fix r assume "r \<in> set rows"
    then have "merge_row_ok r" using \<open>merge_table_ok rows\<close> by (rule table_ok_row [rotated])
    moreover assume "day_bucket r = day \<and> merge_status r \<in> {M_COMPLETED, M_FAILED}"
    ultimately show "merge_row_ok (reopen_row r) \<and> (True \<longrightarrow> True)" by (auto simp: reopen_row_def merge_row_ok_def)
  qed (simp_all add: reopen_row_def)
  then show ?thesis using True by (simp add: upsert_day_def)
next
  case False
  assume ok: "merge_table_ok rows"
  have "merge_table_ok (rows @ [new_merge_job (next_id rows) now day])"
    using False unique_ids_snoc [OF table_ok_unique [OF ok], of "new_merge_job (next_id rows) now day"]
    by (intro table_ok_append [OF ok]) (auto simp: new_merge_job_def merge_row_ok_def)
  then show ?thesis using False by (simp add: upsert_day_def)
qed

lemma upsert_day_holds:
  "holds_in merge_processing (upsert_day now day rows) i t \<Longrightarrow> holds_in merge_processing rows i t"
  by (auto simp: upsert_day_def holds_in_def set_update_where reopen_row_def new_merge_job_def merge_processing_def
      split: if_splits)

lemma merge_schedule_ok: "merge_table_ok rows \<Longrightarrow> merge_table_ok (merge_schedule e rows)"
proof -
  have "merge_table_ok rows \<Longrightarrow> merge_table_ok (fold (upsert_day now) days rows)" for now days rows
    by (induction days arbitrary: rows) (auto intro: upsert_day_ok)
  then show "merge_table_ok rows \<Longrightarrow> ?thesis"
    by (cases e) (auto simp: schedule_staged_days_def Let_def)
qed

lemma merge_schedule_holds:
  "holds_in merge_processing (merge_schedule e rows) i t \<Longrightarrow> holds_in merge_processing rows i t"
proof -
  have "holds_in merge_processing (fold (upsert_day now) days rows) i t \<Longrightarrow> holds_in merge_processing rows i t" for now days rows
    by (induction days arbitrary: rows) (auto dest: upsert_day_holds)
  then show "holds_in merge_processing (merge_schedule e rows) i t \<Longrightarrow> ?thesis"
    by (cases e) (auto simp: schedule_staged_days_def Let_def split: if_splits)
qed

interpretation mj: fenced_jobs merge_table_ok "holds_in merge_processing" "owned_in merge_processing"
  merge_claim merge_heartbeat merge_finish merge_schedule
  unfolding merge_claim_eq merge_renew_eq
  by (rule mt.fenced) (auto simp: merge_finish_eq merge_finish_refused intro: merge_schedule_ok
      dest: merge_schedule_holds simp del: merge_schedule.simps)

section \<open>A page loses nothing\<close>

text \<open>A minute is kept if it is a canonical row or still staged.\<close>

definition stored_minute :: "candle_db \<Rightarrow> asset_id \<Rightarrow> usec \<Rightarrow> bool" where
  "stored_minute c asset m \<longleftrightarrow> has_minute (raw_candles c) asset m \<or> has_minute (staged_candles c) asset m"

lemma asset_groups_concat: "concat (map snd (asset_groups rows)) = rows"
  by (induction rows rule: asset_groups.induct) auto

lemma asset_groups_asset: "(a, g) \<in> set (asset_groups rows) \<Longrightarrow> r \<in> set g \<Longrightarrow> c_asset r = a"
  by (induction rows rule: asset_groups.induct) (auto dest: set_takeWhileD)

lemma staged_payload_time [simp]: "p_time (staged_payload r) = c_time r"
  by (simp add: staged_payload_def p_time_def)

lemma commit_groups_ok:
  assumes "commit_groups now groups c = Inr c'" and "db_ok c"
  shows "db_ok c' \<and> staged_candles c' = staged_candles c \<and>
    (\<forall>x m. has_minute (raw_candles c') x m \<longleftrightarrow>
       has_minute (raw_candles c) x m \<or> (\<exists>g. (x, g) \<in> set groups \<and> m \<in> c_time ` set g)) \<and>
    (\<forall>r \<in> set (raw_candles c). \<exists>r' \<in> set (raw_candles c'). row_succ r r')"
  using assms
proof (induction groups arbitrary: c)
  case Nil
  then show ?case by (auto simp: row_succ_def)
next
  case (Cons p groups)
  obtain a g where p: "p = (a, g)" by (cases p)
  obtain c1 where c1: "commit_raw_batch_in_transaction now a (map staged_payload g) c = Inr c1"
    and rest: "commit_groups now groups c1 = Inr c'"
    using Cons.prems(1) p by (auto split: sum.splits)
  have times: "set (map p_time (map staged_payload g)) = c_time ` set g" by auto
  note one = commit_raw_ok [OF c1 Cons.prems(2), unfolded times]
  note more = Cons.IH [OF rest conjunct1 [OF one]]
  have "\<exists>r' \<in> set (raw_candles c'). row_succ r r'" if "r \<in> set (raw_candles c)" for r
  proof -
    obtain q where q: "q \<in> set (raw_candles c1)" "row_succ r q" using one \<open>r \<in> set (raw_candles c)\<close> by blast
    then obtain q' where "q' \<in> set (raw_candles c')" "row_succ q q'" using more by blast
    then show ?thesis using q(2) by (blast intro: row_succ_trans)
  qed
  then show ?case using one more p by auto
qed


lemma staged_page_subset: "r \<in> set (staged_page day nd n locked staged) \<Longrightarrow> r \<in> set staged \<and> day \<le> c_time r \<and> c_time r < nd"
  by (auto simp: staged_page_def select_limit_def dest!: in_set_takeD)

lemma staged_page_length: "length (staged_page day nd n locked staged) \<le> n"
  by (simp add: staged_page_def select_limit_def)

definition merge_db_ok :: "merge_db \<Rightarrow> bool" where
  "merge_db_ok db \<longleftrightarrow> gap_db_ok db \<and> merge_table_ok (merge_jobs db)"

definition merge_env_ok :: "merge_env \<Rightarrow> bool" where
  "merge_env_ok env \<longleftrightarrow> (\<forall>n db. merge_db_ok db \<longrightarrow> merge_db_ok (others env n db))"

lemma merge_pause_ok: "merge_env_ok env \<Longrightarrow> merge_db_ok (run_db s) \<Longrightarrow> merge_db_ok (run_db (pause env s))"
  by (simp add: merge_env_ok_def pause_def)

lemma merge_db_ok_update [simp]:
  "merge_db_ok (db\<lparr>candles := c\<rparr>) \<longleftrightarrow> db_ok c \<and> cagg_table_ok (cagg_jobs db) \<and> gap_table_ok (gap_jobs db) \<and> merge_table_ok (merge_jobs db)"
  "merge_db_ok (db\<lparr>gap_jobs := gs\<rparr>) \<longleftrightarrow> db_ok (candles db) \<and> cagg_table_ok (cagg_jobs db) \<and> gap_table_ok gs \<and> merge_table_ok (merge_jobs db)"
  "merge_db_ok (db\<lparr>merge_jobs := ms\<rparr>) \<longleftrightarrow> gap_db_ok db \<and> merge_table_ok ms"
  "gap_db_ok (db\<lparr>merge_jobs := ms\<rparr>) \<longleftrightarrow> gap_db_ok db"
  by (simp_all add: merge_db_ok_def gap_db_ok_def)

lemma merge_db_okD:
  "merge_db_ok db \<Longrightarrow> gap_db_ok db" "merge_db_ok db \<Longrightarrow> db_ok (candles db)" "merge_db_ok db \<Longrightarrow> cagg_table_ok (cagg_jobs db)"
  "merge_db_ok db \<Longrightarrow> gap_table_ok (gap_jobs db)" "merge_db_ok db \<Longrightarrow> merge_table_ok (merge_jobs db)"
  by (simp_all add: merge_db_ok_def gap_db_ok_def)

text \<open>What one page does to the candle tables.\<close>

definition page_effect :: "usec \<Rightarrow> usec \<Rightarrow> nat \<Rightarrow> nat \<Rightarrow> candle_db \<Rightarrow> candle_db \<Rightarrow> bool" where
  "page_effect day next_day page_size k c c' \<longleftrightarrow>
     (\<exists>page. length page = k \<and> k \<le> page_size \<and> set page \<subseteq> set (staged_candles c) \<and>
        (\<forall>r \<in> set page. day \<le> c_time r \<and> c_time r < next_day) \<and>
        staged_candles c' = filter (\<lambda>r. candle_key r \<notin> candle_key ` set page) (staged_candles c) \<and>
        (\<forall>x m. has_minute (raw_candles c') x m \<longleftrightarrow>
           has_minute (raw_candles c) x m \<or> (x, m) \<in> candle_key ` set page))"

lemma key_filter_notin: "k \<in> f ` set (filter (\<lambda>r. f r \<notin> A) xs) \<longleftrightarrow> k \<in> f ` set xs \<and> k \<notin> A"
  by auto

lemma page_effect_stored: "page_effect day nd n k c c' \<Longrightarrow> stored_minute c' x m = stored_minute c x m"
proof -
  assume "page_effect day nd n k c c'"
  then obtain page where page: "set page \<subseteq> set (staged_candles c)"
    "staged_candles c' = filter (\<lambda>r. candle_key r \<notin> candle_key ` set page) (staged_candles c)"
    and raw: "has_minute (raw_candles c') x m \<longleftrightarrow> has_minute (raw_candles c) x m \<or> (x, m) \<in> candle_key ` set page"
    unfolding page_effect_def by blast
  have "has_minute (staged_candles c') x m \<longleftrightarrow> has_minute (staged_candles c) x m \<and> (x, m) \<notin> candle_key ` set page"
    unfolding has_minute_def page(2) by (rule key_filter_notin)
  moreover have "(x, m) \<in> candle_key ` set page \<Longrightarrow> has_minute (staged_candles c) x m"
    using page(1) unfolding has_minute_def by blast
  ultimately show ?thesis unfolding stored_minute_def raw by blast
qed

lemma commit_page:
  assumes rows: "rows = staged_page day nd n locked (staged_candles c)"
    and commit: "commit_groups now (asset_groups rows) c = Inr c1" and "db_ok c"
  shows "db_ok (delete_staged (map candle_key rows) c1) \<and>
    page_effect day nd n (length rows) c (delete_staged (map candle_key rows) c1)"
proof -
  note eff = commit_groups_ok [OF commit assms(3)]
  have mem: "(\<exists>g. (x, g) \<in> set (asset_groups rows) \<and> m \<in> c_time ` set g) \<longleftrightarrow> (x, m) \<in> candle_key ` set rows" for x m
  proof
    assume "\<exists>g. (x, g) \<in> set (asset_groups rows) \<and> m \<in> c_time ` set g"
    then obtain g r where g: "(x, g) \<in> set (asset_groups rows)" "r \<in> set g" "m = c_time r" by blast
    have "r \<in> set rows" using g(1,2) asset_groups_concat [of rows] by (metis UN_I set_concat set_map snd_conv image_eqI)
    then show "(x, m) \<in> candle_key ` set rows" using asset_groups_asset [OF g(1,2)] g(3) by (force simp: candle_key_def)
  next
    assume "(x, m) \<in> candle_key ` set rows"
    then obtain r where r: "r \<in> set rows" "c_asset r = x" "c_time r = m" by (auto simp: candle_key_def)
    then obtain g where g: "g \<in> set (map snd (asset_groups rows))" "r \<in> set g"
      using asset_groups_concat [of rows] by (metis UN_E set_concat)
    then obtain a where "(a, g) \<in> set (asset_groups rows)" by auto
    then show "\<exists>g. (x, g) \<in> set (asset_groups rows) \<and> m \<in> c_time ` set g"
      using asset_groups_asset g(2) r by blast
  qed
  have "rows_ok (filter P (staged_candles c1))" for P
    using eff by (auto simp: db_ok_def rows_ok_def list_all_iff distinct_map_filter)
  then have "db_ok (delete_staged (map candle_key rows) c1)"
    using eff by (auto simp: db_ok_def delete_staged_def)
  moreover have "page_effect day nd n (length rows) c (delete_staged (map candle_key rows) c1)"
    unfolding page_effect_def using eff mem staged_page_subset staged_page_length unfolding rows
    by (intro exI [of _ rows]) (auto simp: delete_staged_def rows)
  ultimately show ?thesis ..
qed

text \<open>The outcomes of a page.\<close>

lemma merge_page_cases:
  obtains "merge_one_page env day nd n i w t s = (Inl LeaseLostError, s)"
  | err where "merge_one_page env day nd n i w t s = (Inl err, pause env s)"
  | "merge_one_page env day nd n i w t s = (Inr 0, pause env s)"
      "owned_in merge_processing (merge_jobs (run_db (pause env s))) i w t (run_now env s)"
      "staged_page day nd n (staged_locked env (run_tick (pause env s))) (staged_candles (candles (run_db (pause env s)))) = []"
  | rows c1 where "merge_one_page env day nd n i w t s = (Inr (length rows),
          (pause env s)\<lparr>run_db := (run_db (pause env s))\<lparr>candles := delete_staged (map candle_key rows) c1\<rparr>\<rparr>)"
      "owned_in merge_processing (merge_jobs (run_db (pause env s))) i w t (run_now env s)"
      "rows = staged_page day nd n (staged_locked env (run_tick (pause env s))) (staged_candles (candles (run_db (pause env s))))"
      "rows \<noteq> []" "commit_groups (run_now env (pause env s)) (asset_groups rows) (candles (run_db (pause env s))) = Inr c1"
proof -
  define s1 where "s1 = pause env s"
  define rows where "rows = staged_page day nd n (staged_locked env (run_tick s1)) (staged_candles (candles (run_db s1)))"
  let ?own = "owned_in merge_processing (merge_jobs (run_db s1)) i w t (run_now env s)"
  note eq = merge_one_page_def [of env day nd n i w t s, folded s1_def, unfolded Let_def merge_assert_owned_def, folded rows_def]
  consider (lost) "run_lost env s" | (refused) "\<not> run_lost env s" "\<not> ?own \<or> rows \<noteq> [] \<and> run_lost env s1"
    | (empty) "\<not> run_lost env s" ?own "rows = []"
    | (go) "\<not> run_lost env s" ?own "rows \<noteq> []" "\<not> run_lost env s1" by blast
  then show thesis
  proof cases
    case lost
    then show thesis using that(1) by (simp add: merge_one_page_def)
  next
    case refused
    then have "merge_one_page env day nd n i w t s = (Inl LeaseLostError, s1)" by (auto simp: eq s1_def)
    then show thesis using that(2) by (simp add: s1_def)
  next
    case empty
    then have "merge_one_page env day nd n i w t s = (Inr 0, s1)" by (simp add: eq)
    then show thesis using that(3) empty by (simp add: s1_def rows_def)
  next
    case go
    show thesis
    proof (cases "commit_groups (run_now env s1) (asset_groups rows) (candles (run_db s1))")
      case (Inl err)
      then have "merge_one_page env day nd n i w t s = (Inl err, s1)" using go by (simp add: eq)
      then show thesis using that(2) by (simp add: s1_def)
    next
      case (Inr c1)
      then have "merge_one_page env day nd n i w t s =
          (Inr (length rows), s1\<lparr>run_db := (run_db s1)\<lparr>candles := delete_staged (map candle_key rows) c1\<rparr>\<rparr>)"
        using go by (simp add: eq)
      then show thesis using that(4) [OF _ _ rows_def [unfolded s1_def]] go Inr by (simp add: s1_def)
    qed
  qed
qed


section \<open>Safety of the worker flow\<close>

text \<open>Other sessions keep the invariant and lose no minute either.\<close>

definition merge_env_safe :: "merge_env \<Rightarrow> bool" where
  "merge_env_safe env \<longleftrightarrow> merge_env_ok env \<and>
     (\<forall>n db x m. stored_minute (candles db) x m \<longrightarrow> stored_minute (candles (others env n db)) x m)"

definition safe_step :: "merge_run \<Rightarrow> merge_run \<Rightarrow> bool" where
  "safe_step s s' \<longleftrightarrow> (merge_db_ok (run_db s) \<longrightarrow>
     merge_db_ok (run_db s') \<and>
     (\<forall>x m. stored_minute (candles (run_db s)) x m \<longrightarrow> stored_minute (candles (run_db s')) x m))"

lemma safe_refl [simp]: "safe_step s s"
  by (simp add: safe_step_def)

lemma safe_trans: "safe_step s s1 \<Longrightarrow> safe_step s1 s2 \<Longrightarrow> safe_step s s2"
  by (simp add: safe_step_def)

lemma safe_pause: "merge_env_safe env \<Longrightarrow> safe_step s (pause env s)"
  by (simp add: merge_env_safe_def safe_step_def pause_def merge_env_ok_def)

lemma safe_page:
  assumes env: "merge_env_safe env"
  shows "safe_step s (snd (merge_one_page env day nd n i w t s))"
proof (cases rule: merge_page_cases [of env day nd n i w t s])
  case (4 rows c1)
  have "safe_step (pause env s) ((pause env s)\<lparr>run_db := (run_db (pause env s))\<lparr>candles := delete_staged (map candle_key rows) c1\<rparr>\<rparr>)"
    unfolding safe_step_def
  proof (intro impI)
    assume ok: "merge_db_ok (run_db (pause env s))"
    note page = commit_page [OF 4(3,5) merge_db_okD(2) [OF ok]]
    show "merge_db_ok (run_db ((pause env s)\<lparr>run_db := (run_db (pause env s))\<lparr>candles := delete_staged (map candle_key rows) c1\<rparr>\<rparr>)) \<and>
      (\<forall>x m. stored_minute (candles (run_db (pause env s))) x m \<longrightarrow>
        stored_minute (candles (run_db ((pause env s)\<lparr>run_db := (run_db (pause env s))\<lparr>candles := delete_staged (map candle_key rows) c1\<rparr>\<rparr>))) x m)"
      using page page_effect_stored [OF conjunct2 [OF page]] merge_db_okD [OF ok] by simp
  qed
  then show ?thesis using 4(1) safe_trans [OF safe_pause [OF env]] by simp
qed (use env safe_pause in auto)


lemma safe_chunk: "merge_env_safe env \<Longrightarrow> safe_step s (snd (chunk_step env call i w t s))"
proof -
  assume env: "merge_env_safe env"
  have "safe_step s (pause env s)" "safe_step s (pause env (pause env s))"
    using safe_pause [OF env] safe_trans by blast+
  then show ?thesis by (simp add: chunk_step_def Let_def split: sum.splits)
qed

lemma merge_finish_table_ok: "merge_table_ok rows \<Longrightarrow> merge_table_ok (snd (merge_finish f i w t now rows))"
  by (rule mj.finish_wf)

lemma merge_complete_Inr:
  assumes "merge_complete_if_owned i w t day nd now now_tx db = Inr (ok, db')" and "merge_db_ok db"
  shows "merge_db_ok db' \<and> candles db' = candles db \<and> gap_jobs db' = gap_jobs db \<and>
    owned_in merge_processing (merge_jobs db) i w t now_tx \<and>
    (ok \<longrightarrow> \<not> staged_between day nd (candles db) \<and>
       (\<exists>r \<in> set (merge_jobs db'). job_id r = i \<and> merge_status r = M_COMPLETED \<and> lease_token r = None) \<and>
       (\<forall>x \<in> {day..<nd}. \<exists>r \<in> set (cagg_jobs db'). cagg_active r \<and> ivl_mem x (cagg_window r)))"
proof (cases "staged_between day nd (candles db)")
  case True
  then show ?thesis using assms
    by (auto simp: merge_complete_if_owned_def merge_assert_owned_def split: if_splits)
next
  case False
  obtain j caggs jobs where sch: "schedule_cagg_refresh_job now_tx (utc_dt day) (utc_dt nd) (Some ''1d'') False (cagg_jobs db) = Inr (j, caggs)"
    and own: "owned_in merge_processing (merge_jobs db) i w t now_tx"
    and fin: "merge_complete_update i w t now (merge_jobs db) = (ok, jobs)"
    and db': "db' = db\<lparr>cagg_jobs := caggs, merge_jobs := jobs\<rparr>"
    using assms(1) False
    by (auto simp: merge_complete_if_owned_def merge_assert_owned_def split: sum.splits prod.splits if_splits)
  obtain a b where ab: "compute_cagg_bucket_alignment (utc_dt day) (utc_dt nd) (Some ''1d'') False = Inr (a, b)" "cagg_table_ok caggs"
    "\<forall>x \<in> {a..<b}. \<exists>r \<in> set caggs. cagg_active r \<and> ivl_mem x (cagg_window r)"
    using cagg_schedule_Inr [OF merge_db_okD(3) [OF assms(2)] sch] .
  have sub: "{day..<nd} \<subseteq> {a..<b}" using alignment_Inr(4,6) [OF ab(1)] by simp
  have "merge_table_ok jobs"
    using merge_finish_table_ok [OF merge_db_okD(5) [OF assms(2)], of MergeComplete] fin
    by (metis merge_finish.simps(1) snd_conv)
  then have "merge_db_ok db'" using merge_db_okD [OF assms(2)] ab(2) by (simp add: db' merge_db_ok_def gap_db_ok_def)
  moreover have "\<exists>r \<in> set jobs. job_id r = i \<and> merge_status r = M_COMPLETED \<and> lease_token r = None" if ok
  proof -
    have "rowcount (owns_row merge_processing i w t now) (merge_jobs db) = 1"
      and jobs: "jobs = update_where (owns_row merge_processing i w t now) merge_complete_row (merge_jobs db)"
      using fin that by (simp_all add: merge_complete_update_def transition_where_def)
    then obtain r where r: "r \<in> set (merge_jobs db)" "owns_row merge_processing i w t now r"
      by (metis rowcount_0_iff zero_neq_one)
    then have "merge_complete_row r \<in> set jobs" by (force simp: jobs set_update_where)
    then show ?thesis using r(2) by (intro bexI) (simp_all add: merge_complete_row_def owns_row_def)
  qed
  moreover have "\<forall>x \<in> {day..<nd}. \<exists>r \<in> set caggs. cagg_active r \<and> ivl_mem x (cagg_window r)"
    using ab(3) sub by blast
  ultimately show ?thesis using own False by (simp add: db')
qed










section \<open>The page loop ends\<close>

text \<open>As long as nobody stages more rows for the day, every page with rows makes it shorter.\<close>

definition staged_count :: "usec \<Rightarrow> usec \<Rightarrow> candle_db \<Rightarrow> nat" where
  "staged_count day next_day c = length (filter (\<lambda>r. day \<le> c_time r \<and> c_time r < next_day) (staged_candles c))"

definition no_new_staging :: "merge_env \<Rightarrow> usec \<Rightarrow> usec \<Rightarrow> bool" where
  "no_new_staging env day next_day \<longleftrightarrow>
     (\<forall>n db. staged_count day next_day (candles (others env n db)) \<le> staged_count day next_day (candles db))"

lemma pause_count:
  "no_new_staging env day nd \<Longrightarrow>
   staged_count day nd (candles (run_db (pause env s))) \<le> staged_count day nd (candles (run_db s))"
  by (simp add: no_new_staging_def pause_def)

lemma delete_staged_count:
  assumes "r \<in> set (staged_candles c)" and "day \<le> c_time r" and "c_time r < nd" and "candle_key r \<in> set keys"
  shows "staged_count day nd (delete_staged keys c) < staged_count day nd c"
proof -
  let ?P = "\<lambda>r. day \<le> c_time r \<and> c_time r < nd" and ?Q = "\<lambda>r. candle_key r \<notin> set keys"
  have "filter ?P (filter ?Q (staged_candles c)) = filter ?Q (filter ?P (staged_candles c))"
    by (simp add: conj_commute conj_left_commute)
  moreover have "length (filter ?Q (filter ?P (staged_candles c))) < length (filter ?P (staged_candles c))"
    using assms by (intro length_filter_less [of r]) auto
  ultimately show ?thesis by (simp add: staged_count_def delete_staged_def)
qed

lemma merge_pages_terminate:
  assumes env: "merge_env_safe env" "no_new_staging env day nd"
  shows "merge_db_ok (run_db s) \<Longrightarrow> staged_count day nd (candles (run_db s)) < fuel \<Longrightarrow>
    merge_pages fuel env day nd n i w t s \<noteq> None"
proof (induction fuel arbitrary: s)
  case (Suc fuel)
  show ?case
  proof (cases rule: merge_page_cases [of env day nd n i w t s])
    case (4 rows c1)
    let ?s1 = "pause env s"
    let ?s2 = "?s1\<lparr>run_db := (run_db ?s1)\<lparr>candles := delete_staged (map candle_key rows) c1\<rparr>\<rparr>"
    have ok1: "merge_db_ok (run_db ?s1)"
      using safe_pause [OF env(1)] Suc.prems(1) by (simp add: safe_step_def)
    have ok2: "merge_db_ok (run_db ?s2)"
      using safe_page [OF env(1), of s day nd n i w t] Suc.prems(1) 4(1) by (simp add: safe_step_def)
    have same: "staged_candles c1 = staged_candles (candles (run_db ?s1))"
      using commit_groups_ok [OF 4(5) merge_db_okD(2) [OF ok1]] by blast
    obtain r where r: "r \<in> set rows" using 4(4) by (cases rows) auto
    then have "r \<in> set (staged_candles c1)" "day \<le> c_time r" "c_time r < nd"
      using staged_page_subset 4(3) same by metis+
    then have "staged_count day nd (delete_staged (map candle_key rows) c1) < staged_count day nd c1"
      using r by (intro delete_staged_count) auto
    also have "staged_count day nd c1 = staged_count day nd (candles (run_db ?s1))"
      by (simp add: staged_count_def same)
    also have "\<dots> \<le> staged_count day nd (candles (run_db s))" by (rule pause_count [OF env(2)])
    finally have "staged_count day nd (candles (run_db ?s2)) < fuel" using Suc.prems(2) by simp
    then show ?thesis using Suc.IH [OF ok2] 4(1,4) by simp
  qed simp_all
qed simp

lemma chunk_count:
  assumes "no_new_staging env day nd"
  shows "staged_count day nd (candles (run_db (snd (chunk_step env call i w t s)))) \<le> staged_count day nd (candles (run_db s))"
  using pause_count [OF assms, of s] pause_count [OF assms, of "pause env s"]
  by (auto simp: chunk_step_def Let_def split: sum.splits)

lemma execute_terminates:
  assumes env: "merge_env_safe env" "no_new_staging env (day_bucket job) (day_bucket job + day_us)"
    and "merge_db_ok (run_db s)"
    and "staged_count (day_bucket job) (day_bucket job + day_us) (candles (run_db s)) < fuel"
  shows "execute_merge_job fuel env job w t n s \<noteq> None"
proof -
  obtain r s1 where d: "decompress_day env (job_id job) w t s = (r, s1)" by (rule prod.exhaust)
  have "safe_step s s1"
    using safe_chunk [OF env(1), of s "decompress_chunk env" "job_id job" w t] d by (simp add: decompress_day_def)
  moreover have "staged_count (day_bucket job) (day_bucket job + day_us) (candles (run_db s1)) < fuel"
    using chunk_count [OF env(2), of "decompress_chunk env" "job_id job" w t s] d assms(4)
    by (simp add: decompress_day_def)
  ultimately have "merge_pages fuel env (day_bucket job) (day_bucket job + day_us) n (job_id job) w t s1 \<noteq> None"
    using merge_pages_terminate [OF env] assms(3) by (simp add: safe_step_def)
  then show ?thesis using d by (auto simp: execute_merge_job_def split: sum.splits prod.splits option.splits)
qed

section \<open>Properties\<close>


definition example_merge_env :: merge_env where
  "example_merge_env = \<lparr>clock = (\<lambda>n. 100 + int n), others = (\<lambda>_ db. db), lost_at = (\<lambda>_. False),
     format_error = exn_type_name, decompress_chunk = (\<lambda>_. None), compress_chunk = (\<lambda>_. None),
     staged_locked = (\<lambda>_ _. False), gap_locked = (\<lambda>_ _. False)\<rparr>"

definition example_merge_db :: "candle_row list \<Rightarrow> merge_db" where
  "example_merge_db staged = \<lparr>candles = example_db\<lparr>staged_candles := staged\<rparr>, cagg_jobs = [], gap_jobs = [], merge_jobs = []\<rparr>"

lemma example_merge_env_safe: "merge_env_safe example_merge_env"
  by (simp add: merge_env_safe_def merge_env_ok_def example_merge_env_def)

lemma example_merge_db_ok: "merge_db_ok (example_merge_db [example_candle 99 0])"
proof -
  have "rows_ok [example_candle 99 0]"
    using example_candle_check [of 99 0] by (simp add: rows_ok_def row_ok_def)
  then have "db_ok (example_db\<lparr>staged_candles := [example_candle 99 0]\<rparr>)"
    using example_db_ok by (simp add: db_ok_def)
  then show ?thesis by (simp add: merge_db_ok_def gap_db_ok_def example_merge_db_def table_ok_def unique_ids_def)
qed

lemma example_merge_quiet: "no_new_staging example_merge_env day nd"
  by (simp add: no_new_staging_def example_merge_env_def)

lemma example_merge_count: "staged_count day nd (candles (example_merge_db [r])) < 2"
  by (simp add: staged_count_def example_merge_db_def)




text \<open>
  One page.  Either nothing is written, or the job was owned at the moment of the commit and
  the page's rows, all of them staged rows of the day and at most \<open>page_size\<close>, moved to the
  canonical table: staging loses exactly these keys, the canonical table gains exactly these
  minutes, and no job table changes.
\<close>

theorem merge_page_effect:
  assumes "merge_env_ok env" and "merge_db_ok (run_db s)"
    and "merge_one_page env day next_day page_size i w t s = (res, s')"
  shows "merge_db_ok (run_db s') \<and>
    (case res of
       Inl _ \<Rightarrow> s' = s \<or> s' = pause env s
     | Inr k \<Rightarrow> owned_in merge_processing (merge_jobs (run_db (pause env s))) i w t (run_now env s) \<and>
         page_effect day next_day page_size k (candles (run_db (pause env s))) (candles (run_db s')) \<and>
         merge_jobs (run_db s') = merge_jobs (run_db (pause env s)) \<and>
         gap_jobs (run_db s') = gap_jobs (run_db (pause env s)) \<and>
         cagg_jobs (run_db s') = cagg_jobs (run_db (pause env s)))"
proof -
  have ok: "merge_db_ok (run_db (pause env s))" using assms(1,2) by (rule merge_pause_ok)
  show ?thesis
  proof (cases rule: merge_page_cases [of env day next_day page_size i w t s])
    case 3
    have "page_effect day next_day page_size 0 (candles (run_db (pause env s))) (candles (run_db (pause env s)))"
      by (auto simp: page_effect_def)
    then show ?thesis using assms(3) ok 3 by auto
  next
    case (4 rows c1)
    note page = commit_page [OF 4(3,5) merge_db_okD(2) [OF ok]]
    show ?thesis using assms(3) 4(1,2) page merge_db_okD [OF ok] by auto
  qed (use assms ok in auto)
qed

theorem merge_page_effect_witness:
  "\<exists>res s'. merge_one_page example_merge_env 0 day_us 1000 1 ''w'' ''t''
     \<lparr>run_db = example_merge_db [example_candle 99 0], run_tick = 0\<rparr> = (res, s') \<and> merge_db_ok (run_db s')"
proof -
  obtain res s' where run: "merge_one_page example_merge_env 0 day_us 1000 1 ''w'' ''t''
     \<lparr>run_db = example_merge_db [example_candle 99 0], run_tick = 0\<rparr> = (res, s')" by (rule prod.exhaust)
  have "merge_env_ok example_merge_env" using example_merge_env_safe by (simp add: merge_env_safe_def)
  from merge_page_effect [OF this _ run] show ?thesis using run example_merge_db_ok by simp
qed

text \<open>
  C24: A completed day is drained.  \<open>_complete_if_owned\<close> succeeds only for the owner and only when
  no row of the day is staged; then the job is \<open>COMPLETED\<close> without a token and an active CAGG
  job covers every instant of the day.  In every case the invariants are kept and candles and
  gap jobs are untouched.
\<close>

theorem merge_completed_means_drained:
  assumes "merge_db_ok db"
    and "merge_complete_if_owned i w t day next_day now now_tx db = Inr (ok, db')"
  shows "merge_db_ok db' \<and> candles db' = candles db \<and> gap_jobs db' = gap_jobs db \<and>
    owned_in merge_processing (merge_jobs db) i w t now_tx \<and>
    (ok \<longrightarrow> \<not> staged_between day next_day (candles db) \<and>
       (\<exists>r \<in> set (merge_jobs db'). job_id r = i \<and> merge_status r = M_COMPLETED \<and> lease_token r = None) \<and>
       (\<forall>x \<in> {day..<next_day}. \<exists>r \<in> set (cagg_jobs db'). cagg_active r \<and> ivl_mem x (cagg_window r)))"
  using assms(2,1) by (rule merge_complete_Inr)

definition example_merge_job :: merge_job where
  "example_merge_job = merge_stamp ''w'' ''t'' 0 300 (new_merge_job 1 0 0)"

lemma example_merge_table: "merge_table_ok [example_merge_job]"
  by (simp add: table_ok_def unique_ids_def merge_row_ok_def example_merge_job_def merge_stamp_def new_merge_job_def)

theorem merge_completed_means_drained_witness:
  "\<exists>db'. merge_complete_if_owned 1 ''w'' ''t'' 0 day_us 5 6 ((example_merge_db [])\<lparr>merge_jobs := [example_merge_job]\<rparr>) = Inr (True, db') \<and>
     (\<forall>x \<in> {0..<day_us}. \<exists>r \<in> set (cagg_jobs db'). cagg_active r \<and> ivl_mem x (cagg_window r))"
proof -
  have "case merge_complete_if_owned 1 ''w'' ''t'' 0 day_us 5 6 ((example_merge_db [])\<lparr>merge_jobs := [example_merge_job]\<rparr>) of
      Inl _ \<Rightarrow> False | Inr (b, _) \<Rightarrow> b" by code_simp
  then obtain db' where run: "merge_complete_if_owned 1 ''w'' ''t'' 0 day_us 5 6 ((example_merge_db [])\<lparr>merge_jobs := [example_merge_job]\<rparr>) = Inr (True, db')"
    by (auto split: sum.splits)
  have "example_db\<lparr>staged_candles := []\<rparr> = example_db" by (simp add: example_db_def)
  then have ok: "merge_db_ok ((example_merge_db [])\<lparr>merge_jobs := [example_merge_job]\<rparr>)"
    using example_db_ok example_merge_table
    by (simp add: merge_db_ok_def gap_db_ok_def example_merge_db_def table_ok_def unique_ids_def)
  show ?thesis using merge_completed_means_drained [OF ok run] run by blast
qed

text \<open>
  The claim protocol of the merge table: the table keeps one row per day under every sequence
  of operations, and after a takeover every transition of the previous claimant is refused.
\<close>

theorem merge_stale_worker_fenced:
  assumes "merge_table_ok rows"
    and "merge_claim cfg w' t' now' lease rows = (Some i, rows')" and "t \<noteq> t'"
    and "Some t \<notin> claim_token_of ` set ops"
  shows "merge_table_ok (mj.exec_all ops rows') \<and>
    merge_finish f i w t now (mj.exec_all ops rows') = (False, mj.exec_all ops rows')"
proof
  have "merge_table_ok rows'" using mj.claim_wf [OF assms(1)] assms(2) by (metis snd_conv)
  then show "merge_table_ok (mj.exec_all ops rows')" by (rule mj.exec_all_wf)
  show "merge_finish f i w t now (mj.exec_all ops rows') = (False, mj.exec_all ops rows')"
    by (rule mj.takeover_fences [OF assms])
qed

theorem merge_stale_worker_fenced_witness:
  "merge_finish MergeComplete 1 ''w'' ''t'' 302 (snd (merge_claim (True, \<lambda>_. False) ''w2'' ''t2'' 301 300 [example_merge_job])) =
   (False, snd (merge_claim (True, \<lambda>_. False) ''w2'' ''t2'' 301 300 [example_merge_job]))"
proof -
  have "fst (merge_claim (True, \<lambda>_. False) ''w2'' ''t2'' 301 300 [example_merge_job]) = Some 1" by code_simp
  then have claim: "merge_claim (True, \<lambda>_. False) ''w2'' ''t2'' 301 300 [example_merge_job] =
      (Some 1, snd (merge_claim (True, \<lambda>_. False) ''w2'' ''t2'' 301 300 [example_merge_job]))"
    by (metis prod.collapse)
  show ?thesis
    using merge_stale_worker_fenced [OF example_merge_table claim, of "''t''" "[]"]
    by (simp del: merge_finish.simps)
qed

text \<open>
  An attempt at a day returns.  If nobody stages more rows for the day meanwhile, one page
  more than the day has staged rows is enough fuel: the page loop ends, with a result or an
  error.
\<close>

theorem merge_attempt_terminates:
  assumes "merge_env_safe env" and "no_new_staging env (day_bucket job) (day_bucket job + day_us)"
    and "merge_db_ok (run_db s)"
    and "staged_count (day_bucket job) (day_bucket job + day_us) (candles (run_db s)) < fuel"
  shows "\<exists>res s'. execute_merge_job fuel env job w t page_size s = Some (res, s')"
  using execute_terminates [OF assms] by auto

theorem merge_attempt_terminates_witness:
  "\<exists>res s'. execute_merge_job 2 example_merge_env example_merge_job ''w'' ''t'' 1000
     \<lparr>run_db = example_merge_db [example_candle 99 0], run_tick = 0\<rparr> = Some (res, s')"
  using example_merge_db_ok example_merge_count
  by (intro merge_attempt_terminates [OF example_merge_env_safe example_merge_quiet]) simp_all

text \<open>
  A failed day is retried on every run.  While a row of the day is still staged (which is
  what a failure leaves behind), scheduling reopens a \<open>FAILED\<close> job of one of the scheduled days
  as \<open>PENDING\<close> without delay; its retry budget stays exhausted, so the next failure is recorded
  as \<open>FAILED\<close> at once and the backoff never applies.
\<close>

theorem merge_failed_day_reopened:
  assumes "r \<in> set rows" and "merge_status r = M_FAILED"
    and "merge_max_retries r < merge_retry_count r"
    and "day_bucket r \<in> set (staged_days (nat max_days) staged)"
    and "schedule_staged_days max_days now staged rows = Inr (k, rows')"
  shows "reopen_row r \<in> set rows' \<and> merge_eligible (True, \<lambda>_. False) n (reopen_row r) \<and>
    merge_status (merge_fail_row err msg n (merge_stamp w t n lease (reopen_row r))) = M_FAILED"
proof -
  have keep: "x \<in> set (upsert_day now d rs)" if "x \<in> set rs" "merge_status x = M_PENDING" for x d rs
    using that by (auto simp: upsert_day_def set_update_where image_iff intro!: bexI [of _ x])
  have hit: "reopen_row x \<in> set (upsert_day now (day_bucket x) rs)" if "x \<in> set rs" "merge_status x = M_FAILED" for x rs
    using that by (auto simp: upsert_day_def set_update_where image_iff intro!: bexI [of _ x])
  have other: "x \<in> set (upsert_day now d rs)" if "x \<in> set rs" "d \<noteq> day_bucket x" for x d rs
    using that by (auto simp: upsert_day_def set_update_where image_iff intro!: bexI [of _ x])
  have pend: "merge_status (reopen_row r) = M_PENDING" by (simp add: reopen_row_def)
  have stay: "x \<in> set (fold (upsert_day now) days rs)" if "x \<in> set rs" "merge_status x = M_PENDING" for x days rs
    using that keep by (induction days arbitrary: rs) auto
  have all: "reopen_row r \<in> set (fold (upsert_day now) days rs)"
    if "r \<in> set rs" "day_bucket r \<in> set days" for days rs
    using that
  proof (induction days arbitrary: rs)
    case (Cons d days)
    show ?case
    proof (cases "d = day_bucket r")
      case True
      then show ?thesis using stay [OF hit [OF Cons.prems(1) assms(2)] pend] by simp
    next
      case False
      then show ?thesis using Cons.IH [OF other [OF Cons.prems(1) False]] Cons.prems(2) by simp
    qed
  qed simp
  have "rows' = fold (upsert_day now) (staged_days (nat max_days) staged) rows"
    using assms(5) by (auto simp: schedule_staged_days_def Let_def split: if_splits)
  then have "reopen_row r \<in> set rows'" using all [OF assms(1,4)] by simp
  then show ?thesis
    using assms(3) by (simp add: merge_eligible_def reopen_row_def merge_fail_row_def Let_def merge_stamp_def)
qed

definition example_failed_job :: merge_job where
  "example_failed_job = (new_merge_job 1 0 0)\<lparr>merge_status := M_FAILED, merge_retry_count := 6\<rparr>"

theorem merge_failed_day_reopened_witness:
  "\<exists>rows'. schedule_staged_days 32 50 [example_candle 99 0] [example_failed_job] = Inr (1, rows') \<and>
     reopen_row example_failed_job \<in> set rows'"
proof -
  have days: "staged_days n [example_candle 99 0] = take n [0]" for n
    by (simp add: staged_days_def day_of_def)
  obtain rows' where run: "schedule_staged_days 32 50 [example_candle 99 0] [example_failed_job] = Inr (1, rows')"
    by (simp add: schedule_staged_days_def days Let_def)
  have "reopen_row example_failed_job \<in> set rows'"
    using merge_failed_day_reopened [OF _ _ _ _ run, of example_failed_job]
    by (simp add: days) (simp add: example_failed_job_def new_merge_job_def)
  then show ?thesis using run by blast
qed

end
