(* ===== verification/Candle_Query.thy ===== *)
theory Candle_Query
  imports Ingestion
begin

text \<open>
  \<open>app/services/query.py\<close> and \<open>app/repositories/candle.py\<close>, \<open>asset.py\<close>: the read side.  The
  stored tables are the canonical one-minute table of \<open>Ingestion\<close> and one aggregate table per
  timeframe.  The asynchronous generator is the list of rows it yields and the exception that
  ends it, if one does.
\<close>

section \<open>Rows and tables\<close>

text \<open>The columns of an aggregate are nullable.\<close>

record query_row =
  qr_asset :: asset_id
  qr_time :: usec
  qr_open :: "pyfloat option"
  qr_high :: "pyfloat option"
  qr_low :: "pyfloat option"
  qr_close :: "pyfloat option"
  qr_volume :: "pyfloat option"

record candle_dict =
  cd_timestamp :: usec
  cd_open :: pyfloat
  cd_high :: pyfloat
  cd_low :: pyfloat
  cd_close :: pyfloat
  cd_volume :: pyfloat

record query_db =
  q_assets :: "asset_row list"
  q_raw :: "candle_row list"
  q_aggregates :: "string \<Rightarrow> query_row list"

definition raw_query_row :: "candle_row \<Rightarrow> query_row" where
  "raw_query_row r =
     \<lparr>qr_asset = c_asset r, qr_time = c_time r, qr_open = Some (c_open r), qr_high = Some (c_high r),
      qr_low = Some (c_low r), qr_close = Some (c_close r), qr_volume = Some (c_volume r)\<rparr>"

definition timeframes :: "string list" where
  "timeframes = [''1m'', ''5m'', ''15m'', ''1h'', ''4h'', ''1d'']"

definition timeframe_table :: "query_db \<Rightarrow> string \<Rightarrow> query_row list option" where
  "timeframe_table db tf =
     (if tf = ''1m'' then Some (map raw_query_row (q_raw db))
      else if tf \<in> set timeframes then Some (q_aggregates db tf)
      else None)"

definition timeframe_limit_days :: "string \<Rightarrow> int option" where
  "timeframe_limit_days tf =
     (if tf = ''1m'' then Some 30
      else if tf = ''5m'' then Some 90
      else if tf = ''15m'' then Some 180
      else if tf = ''1h'' then Some (365 * 5)
      else if tf = ''4h'' then Some (365 * 10)
      else None)"

section \<open>Queries\<close>

text \<open>\<open>a >= b\<close> on datetimes: \<open>None\<close> is the \<open>TypeError\<close> of a naive and an aware operand.\<close>

fun dt_ge :: "pydatetime \<Rightarrow> pydatetime \<Rightarrow> bool option" where
  "dt_ge (Naive a) (Naive b) = Some (a \<ge> b)"
| "dt_ge (Aware a x) (Aware b y) = Some (a - x \<ge> b - y)"
| "dt_ge _ _ = None"

definition get_candles_stream :: "query_row list \<Rightarrow> asset_id \<Rightarrow> usec \<Rightarrow> usec \<Rightarrow> query_row list" where
  "get_candles_stream table asset s e =
     sort_key qr_time (filter (\<lambda>r. qr_asset r = asset \<and> qr_time r \<ge> s \<and> qr_time r < e) table)"

text \<open>\<open>float(None)\<close> raises \<open>TypeError\<close>.\<close>

definition row_dict :: "query_row \<Rightarrow> candle_dict option" where
  "row_dict r =
     (case (qr_open r, qr_high r, qr_low r, qr_close r, qr_volume r) of
        (Some o', Some h, Some l, Some c, Some v) \<Rightarrow>
          Some \<lparr>cd_timestamp = qr_time r, cd_open = o', cd_high = h, cd_low = l, cd_close = c, cd_volume = v\<rparr>
      | _ \<Rightarrow> None)"

fun yield_rows :: "query_row list \<Rightarrow> candle_dict list \<times> py_exn option" where
  "yield_rows [] = ([], None)"
| "yield_rows (r # rs) =
     (case row_dict r of
        None \<Rightarrow> ([], Some (TypeError ''float() argument''))
      | Some d \<Rightarrow> (case yield_rows rs of (ds, err) \<Rightarrow> (d # ds, err)))"

definition get_candles ::
  "query_db \<Rightarrow> asset_id \<Rightarrow> string \<Rightarrow> pydatetime \<Rightarrow> pydatetime \<Rightarrow> candle_dict list \<times> py_exn option" where
  "get_candles db asset tf start_time end_time =
     (case timeframe_table db tf of
        None \<Rightarrow> ([], Some (OtherException ''UnsupportedTimeframeError''))
      | Some table \<Rightarrow>
          (case dt_ge start_time end_time of
             None \<Rightarrow> ([], Some (TypeError ''can't compare offset-naive and offset-aware datetimes''))
           | Some True \<Rightarrow> ([], Some (OtherException ''InvalidDateRangeError''))
           | Some False \<Rightarrow>
               let s = utc start_time; e = utc end_time; duration_days = (e - s) div day_us in
               if (case timeframe_limit_days tf of None \<Rightarrow> False | Some limit \<Rightarrow> duration_days > limit)
               then ([], Some (OtherException ''InvalidDateRangeError''))
               else if registered_symbol (q_assets db) asset = None
               then ([], Some (OtherException ''AssetNotFoundError''))
               else yield_rows (get_candles_stream table asset s e)))"

definition get_by_symbol :: "asset_row list \<Rightarrow> string \<Rightarrow> string \<Rightarrow> asset_row option" where
  "get_by_symbol registry symbol exchange =
     find (\<lambda>a. a_symbol a = py_upper (py_strip symbol) \<and> a_exchange a = py_upper (py_strip exchange)) registry"

section \<open>Facts\<close>

lemma row_dict_raw [simp]: "row_dict (raw_query_row r) =
    Some \<lparr>cd_timestamp = c_time r, cd_open = c_open r, cd_high = c_high r, cd_low = c_low r,
          cd_close = c_close r, cd_volume = c_volume r\<rparr>"
  by (simp add: row_dict_def raw_query_row_def)

lemma row_dict_time: "row_dict r = Some d \<Longrightarrow> cd_timestamp d = qr_time r"
  by (auto simp: row_dict_def split: option.splits)

lemma yield_rows_ok: "snd (yield_rows rs) = None \<longleftrightarrow> (\<forall>r \<in> set rs. row_dict r \<noteq> None)"
  by (induction rs) (auto split: option.splits prod.splits)

lemma yield_rows_map: "snd (yield_rows rs) = None \<Longrightarrow> map Some (fst (yield_rows rs)) = map row_dict rs"
  by (induction rs) (auto split: option.splits prod.splits)

lemma yield_rows_raw: "snd (yield_rows (map raw_query_row rs)) = None"
  by (simp add: yield_rows_ok)

lemma yield_times: "snd (yield_rows rs) = None \<Longrightarrow> map cd_timestamp (fst (yield_rows rs)) = map qr_time rs"
proof (induction rs)
  case (Cons r rs)
  then show ?case by (auto split: option.splits prod.splits dest: row_dict_time)
qed simp

lemma stream_set: "set (get_candles_stream table asset s e) = {r \<in> set table. qr_asset r = asset \<and> s \<le> qr_time r \<and> qr_time r < e}"
  by (auto simp: get_candles_stream_def)

lemma stream_sorted: "sorted (map qr_time (get_candles_stream table asset s e))"
  by (simp add: get_candles_stream_def)

lemma get_candles_ok:
  assumes "get_candles db asset tf st en = (ds, None)"
  obtains table where "timeframe_table db tf = Some table" "dt_ge st en = Some False"
    "registered_symbol (q_assets db) asset \<noteq> None"
    "\<forall>limit. timeframe_limit_days tf = Some limit \<longrightarrow> (utc en - utc st) div day_us \<le> limit"
    "yield_rows (get_candles_stream table asset (utc st) (utc en)) = (ds, None)"
  using assms that
  by (auto simp: get_candles_def Let_def split: option.splits if_splits bool.splits)

text \<open>
  A candle query returns the window.  When the stream ends normally, the timeframe is
  supported, the asset exists, the window is ordered and within the limit of the timeframe, and
  the rows yielded are, in ascending time, exactly the stored rows of the asset in
  \<open>[start, end)\<close>, none twice when the table has unique keys.
\<close>

theorem get_candles_correct:
  assumes "get_candles db asset tf st en = (ds, None)"
  shows "\<exists>table. timeframe_table db tf = Some table \<and> utc st < utc en \<and>
    registered_symbol (q_assets db) asset \<noteq> None \<and>
    (case timeframe_limit_days tf of None \<Rightarrow> True | Some limit \<Rightarrow> utc en - utc st < (limit + 1) * day_us) \<and>
    sorted (map cd_timestamp ds) \<and>
    Some ` set ds = row_dict ` {r \<in> set table. qr_asset r = asset \<and> utc st \<le> qr_time r \<and> qr_time r < utc en} \<and>
    (distinct (map (\<lambda>r. (qr_asset r, qr_time r)) table) \<longrightarrow> distinct (map cd_timestamp ds))"
proof -
  obtain table where t: "timeframe_table db tf = Some table" "dt_ge st en = Some False"
    "registered_symbol (q_assets db) asset \<noteq> None"
    and limit: "\<forall>limit. timeframe_limit_days tf = Some limit \<longrightarrow> (utc en - utc st) div day_us \<le> limit"
    and y: "yield_rows (get_candles_stream table asset (utc st) (utc en)) = (ds, None)"
    using assms by (rule get_candles_ok)
  let ?rs = "get_candles_stream table asset (utc st) (utc en)"
  have "utc st < utc en" using t(2) by (cases st; cases en) auto
  moreover have "utc en - utc st < (l + 1) * day_us" if "timeframe_limit_days tf = Some l" for l
  proof -
    have "(utc en - utc st) div day_us < l + 1" using limit that by fastforce
    moreover have "utc en - utc st < ((utc en - utc st) div day_us + 1) * day_us"
      using mult_div_mod_eq [of day_us "utc en - utc st"] pos_mod_bound [of day_us "utc en - utc st"]
      by (simp add: algebra_simps)
    moreover have "((utc en - utc st) div day_us + 1) * day_us \<le> (l + 1) * day_us"
      using \<open>(utc en - utc st) div day_us < l + 1\<close> by simp
    ultimately show ?thesis by linarith
  qed
  moreover have "sorted (map cd_timestamp ds)"
    using yield_times [of ?rs] y stream_sorted [of table asset "utc st" "utc en"] by simp
  moreover have "Some ` set ds = row_dict ` set ?rs"
    using yield_rows_map [of ?rs] y by (metis fst_conv set_map snd_conv)
  moreover have "distinct (map cd_timestamp ds)" if "distinct (map (\<lambda>r. (qr_asset r, qr_time r)) table)"
  proof -
    let ?f = "filter (\<lambda>r. qr_asset r = asset \<and> utc st \<le> qr_time r \<and> qr_time r < utc en) table"
    have "distinct (map (\<lambda>r. (qr_asset r, qr_time r)) ?f)" using that by (rule distinct_map_filter)
    then have "distinct (map qr_time ?f)" by (auto simp: distinct_map inj_on_def)
    moreover have "mset (map qr_time ?rs) = mset (map qr_time ?f)" by (simp add: get_candles_stream_def)
    ultimately have "distinct (map qr_time ?rs)" by (metis mset_eq_imp_distinct_iff)
    then show ?thesis using yield_times [of ?rs] y by simp
  qed
  ultimately show ?thesis using t stream_set [of table asset "utc st" "utc en"]
    by (intro exI [of _ table]) (auto split: option.splits)
qed

definition example_query_db :: query_db where
  "example_query_db =
     \<lparr>q_assets = assets example_db, q_raw = [example_candle 99 minute_us, example_candle 99 0],
      q_aggregates = (\<lambda>_. [])\<rparr>"

lemma example_query:
  "snd (get_candles example_query_db 7 ''1m'' (Naive 0) (Naive minute_us)) = None"
  by code_simp

theorem get_candles_correct_witness:
  "\<exists>ds. get_candles example_query_db 7 ''1m'' (Naive 0) (Naive minute_us) = (ds, None) \<and>
     sorted (map cd_timestamp ds)"
proof -
  obtain ds where q: "get_candles example_query_db 7 ''1m'' (Naive 0) (Naive minute_us) = (ds, None)"
    using example_query by (metis prod.collapse)
  show ?thesis using get_candles_correct [OF q] q by blast
qed

text \<open>
  The validation of a window is not total.  Although the service normalises naive
  timestamps to UTC, it compares them first: one naive and one aware bound raise \<open>TypeError\<close>
  for every supported timeframe, whatever the instants are, instead of an answer or an
  \<open>InvalidDateRangeError\<close>.
\<close>

theorem get_candles_mixed_bounds:
  "tf \<in> set timeframes \<Longrightarrow> is_aware st \<noteq> is_aware en \<Longrightarrow>
   get_candles db asset tf st en = ([], Some (TypeError ''can't compare offset-naive and offset-aware datetimes''))"
  by (cases st; cases en) (auto simp: get_candles_def timeframe_table_def)

theorem get_candles_mixed_bounds_witness:
  "get_candles example_query_db 7 ''1m'' (Naive 0) (Aware minute_us 0) =
     ([], Some (TypeError ''can't compare offset-naive and offset-aware datetimes''))"
  by (rule get_candles_mixed_bounds) (simp_all add: timeframes_def)

end
