(* ===== verification/Export_Jobs.thy ===== *)
theory Export_Jobs
  imports Job_Lease Candle_Query
begin

text \<open>
  \<open>app/services/export_jobs.py\<close> and \<open>app/workers/export.py\<close>: asynchronous exports of candles to
  the object store.  The world of a worker is the job table, the market tables the export reads,
  the object store and the worker's local files.  The object store's client, the file system's
  errors and the answer of a commit are parameters.
\<close>

section \<open>The job table\<close>

datatype export_status = E_PENDING | E_PROCESSING | E_COMPLETED | E_FAILED

text \<open>
  The object key \<open>exports/asset/timeframe/job/attempt-n-token.parquet\<close> by its varying parts.  The
  UUID of a job is a number here; only its order and equality matter.
\<close>

datatype object_key = ObjectKey asset_id string int int string

record export_job = lease_cols +
  export_asset :: asset_id
  export_timeframe :: string
  export_start :: usec
  export_end :: usec
  export_status :: export_status
  s3_key :: "object_key option"
  attempt_count :: int
  max_attempts :: int
  expires_at :: "usec option"

definition export_processing :: "export_job \<Rightarrow> bool" where
  "export_processing r \<longleftrightarrow> export_status r = E_PROCESSING"

definition export_retry_delay :: "int \<Rightarrow> int" where
  "export_retry_delay attempts = backoff_us attempts"

text \<open>The first component of the configuration is \<open>respect_retry_schedule\<close> and the rows that
  \<open>SKIP LOCKED\<close> skips, the second the job id asked for.\<close>

type_synonym export_config = "claim_config \<times> int option"

definition requested :: "int option \<Rightarrow> export_job \<Rightarrow> bool" where
  "requested jid r = (case jid of None \<Rightarrow> True | Some i \<Rightarrow> job_id r = i)"

definition ready_condition :: "bool \<Rightarrow> usec \<Rightarrow> export_job \<Rightarrow> bool" where
  "ready_condition respect now r \<longleftrightarrow>
     export_status r = E_PENDING \<and>
       (respect \<longrightarrow> next_attempt_at r = None \<or> sql_le (next_attempt_at r) now) \<and>
       attempt_count r < max_attempts r \<or>
     export_status r = E_PROCESSING \<and> lease_expires_at r \<noteq> None \<and>
       sql_le (lease_expires_at r) now \<and> attempt_count r < max_attempts r"

definition export_eligible :: "export_config \<Rightarrow> usec \<Rightarrow> export_job \<Rightarrow> bool" where
  "export_eligible cfg now r \<longleftrightarrow>
     \<not> snd (fst cfg) (job_id r) \<and> ready_condition (fst (fst cfg)) now r \<and> requested (snd cfg) r"

definition export_stamp :: "string \<Rightarrow> string \<Rightarrow> usec \<Rightarrow> usec \<Rightarrow> export_job \<Rightarrow> export_job" where
  "export_stamp w t now lease r =
     r\<lparr>export_status := E_PROCESSING, worker_id := Some w, lease_token := Some t,
       claimed_at := Some now, lease_expires_at := Some (now + lease), next_attempt_at := None,
       attempt_count := attempt_count r + 1\<rparr>"

definition export_claim_row ::
  "export_config \<Rightarrow> string \<Rightarrow> string \<Rightarrow> usec \<Rightarrow> usec \<Rightarrow> export_job list \<Rightarrow> py_exn + (export_job option \<times> export_job list)" where
  "export_claim_row cfg w t now lease rows =
     (if lease \<le> 0 then Inl (ValueError ''lease_duration must be positive'')
      else Inr (claim_where (export_eligible cfg now) (export_stamp w t now lease) rows))"

definition exhausted :: "(int \<Rightarrow> bool) \<Rightarrow> int option \<Rightarrow> usec \<Rightarrow> export_job \<Rightarrow> bool" where
  "exhausted locked jid now r \<longleftrightarrow>
     \<not> locked (job_id r) \<and> export_status r = E_PROCESSING \<and> lease_expires_at r \<noteq> None \<and>
     sql_le (lease_expires_at r) now \<and> attempt_count r \<ge> max_attempts r \<and> requested jid r"

definition reap_row :: "export_job \<Rightarrow> export_job" where
  "reap_row r =
     r\<lparr>export_status := E_FAILED, worker_id := None, lease_token := None, claimed_at := None,
       lease_expires_at := None, next_attempt_at := None, error_category := Some ''lease_expired'',
       error_message := Some ''export lease expired after the maximum number of allowed attempts''\<rparr>"

text \<open>One transaction of the sweep.\<close>

definition reap_one :: "(int \<Rightarrow> bool) \<Rightarrow> int option \<Rightarrow> usec \<Rightarrow> export_job list \<Rightarrow> export_job option \<times> export_job list" where
  "reap_one locked jid now rows = claim_where (exhausted locked jid now) reap_row rows"

definition export_assert_owned :: "int \<Rightarrow> string \<Rightarrow> string \<Rightarrow> usec \<Rightarrow> export_job list \<Rightarrow> py_exn + unit" where
  "export_assert_owned i w t now rows =
     (if owned_in export_processing rows i w t now then Inr () else Inl LeaseLostError)"

definition export_extend :: "usec \<Rightarrow> usec \<Rightarrow> export_job \<Rightarrow> export_job" where
  "export_extend now lease r = r\<lparr>lease_expires_at := Some (now + lease)\<rparr>"

definition export_heartbeat :: "int \<Rightarrow> string \<Rightarrow> string \<Rightarrow> usec \<Rightarrow> usec \<Rightarrow> export_job list \<Rightarrow> bool \<times> export_job list" where
  "export_heartbeat i w t now lease rows =
     transition_where (owns_row export_processing i w t now) (export_extend now lease) rows"

definition export_heartbeat_loop ::
  "int \<Rightarrow> string \<Rightarrow> string \<Rightarrow> usec \<Rightarrow> export_job list hb_event list \<Rightarrow> export_job list \<Rightarrow> bool \<times> export_job list" where
  "export_heartbeat_loop i w t lease = heartbeat_loop (\<lambda>now. export_heartbeat i w t now lease)"

definition export_complete_row :: "object_key \<Rightarrow> usec \<Rightarrow> export_job \<Rightarrow> export_job" where
  "export_complete_row key expires r =
     r\<lparr>export_status := E_COMPLETED, s3_key := Some key, expires_at := Some expires,
       worker_id := None, lease_token := None, claimed_at := None, lease_expires_at := None,
       next_attempt_at := None, error_message := None, error_category := None\<rparr>"

definition export_complete_if_owned ::
  "int \<Rightarrow> string \<Rightarrow> string \<Rightarrow> object_key \<Rightarrow> usec \<Rightarrow> usec \<Rightarrow> export_job list \<Rightarrow> bool \<times> export_job list" where
  "export_complete_if_owned i w t key expires now rows =
     transition_where (owns_row export_processing i w t now) (export_complete_row key expires) rows"

definition export_fail_row :: "py_exn \<Rightarrow> string \<Rightarrow> usec \<Rightarrow> export_job \<Rightarrow> export_job" where
  "export_fail_row err msg now r =
     (let r' = r\<lparr>error_category := Some (exn_type_name err), error_message := Some msg,
                 worker_id := None, lease_token := None, claimed_at := None, lease_expires_at := None\<rparr>
      in if attempt_count r' < max_attempts r'
         then r'\<lparr>export_status := E_PENDING, next_attempt_at := Some (now + export_retry_delay (attempt_count r'))\<rparr>
         else r'\<lparr>export_status := E_FAILED, next_attempt_at := None\<rparr>)"

definition export_record_failure_if_owned ::
  "int \<Rightarrow> string \<Rightarrow> string \<Rightarrow> py_exn \<Rightarrow> string \<Rightarrow> usec \<Rightarrow> export_job list \<Rightarrow> bool \<times> export_job list" where
  "export_record_failure_if_owned i w t err msg now rows =
     get_and_update export_processing i w t now (export_fail_row err msg now) rows"

section \<open>The worker\<close>

text \<open>The local file of an attempt is named after the job and the token.\<close>

record export_world =
  export_jobs :: "export_job list"
  market :: query_db
  objects :: "object_key \<rightharpoonup> candle_dict list"
  files :: "int \<times> string \<rightharpoonup> candle_dict list"

text \<open>
  What a database commit answers: it is done, it is rolled back and raises, or it is done and
  the answer is lost, so that it raises all the same.
\<close>

datatype commit_answer = Committed | RolledBack py_exn | AnswerLost py_exn

record export_env = "export_world worker_env" +
  stream_fault :: "nat \<Rightarrow> (nat \<times> py_exn) option"   \<comment> \<open>the stream raises after so many rows\<close>
  upload_result :: "nat \<Rightarrow> py_exn + bool"              \<comment> \<open>an upload that is not \<open>True\<close> stores nothing\<close>
  wait_saw_lost :: "nat \<Rightarrow> bool"                       \<comment> \<open>\<open>lost_task in done\<close>\<close>
  delete_fails :: "nat \<Rightarrow> bool"
  remove_fails :: "nat \<Rightarrow> bool"
  commit_answer :: "nat \<Rightarrow> commit_answer"
  presigned_expiry :: usec

type_synonym export_run = "export_world worker_run"

definition artifact_object_key :: "export_job \<Rightarrow> string \<Rightarrow> object_key" where
  "artifact_object_key job t = ObjectKey (export_asset job) (export_timeframe job) (job_id job) (attempt_count job) t"

definition map_world :: "(export_world \<Rightarrow> export_world) \<Rightarrow> export_run \<Rightarrow> export_run" where
  "map_world f s = s\<lparr>run_db := f (run_db s)\<rparr>"

definition append_file :: "int \<times> string \<Rightarrow> candle_dict list \<Rightarrow> export_world \<Rightarrow> export_world" where
  "append_file f ds wld =
     wld\<lparr>files := (files wld)(f \<mapsto> (case files wld f of None \<Rightarrow> [] | Some old \<Rightarrow> old) @ ds)\<rparr>"

text \<open>\<open>await assert_owned(...)\<close> followed by the test of the event.\<close>

definition check_owned :: "export_env \<Rightarrow> int \<Rightarrow> string \<Rightarrow> string \<Rightarrow> export_run \<Rightarrow> (py_exn + unit) \<times> export_run" where
  "check_owned env i w t s =
     (let s1 = pause env s in
      case export_assert_owned i w t (run_now env s) (export_jobs (run_db s1)) of
        Inl err \<Rightarrow> (Inl err, s1)
      | Inr _ \<Rightarrow> (if run_lost env s1 then Inl LeaseLostError else Inr (), s1))"

text \<open>The loop over the stream; \<open>chunk\<close> holds the rows not yet written.\<close>

fun write_stream ::
  "export_env \<Rightarrow> export_job \<Rightarrow> string \<Rightarrow> string \<Rightarrow> candle_dict list \<Rightarrow> candle_dict list \<Rightarrow> py_exn option \<Rightarrow> export_run \<Rightarrow>
   (py_exn + unit) \<times> export_run" where
  "write_stream env job w t chunk [] failure s =
     (case failure of
        Some err \<Rightarrow> (Inl err, s)
      | None \<Rightarrow> (Inr (), if chunk \<noteq> [] then map_world (append_file (job_id job, t) chunk) s else s))"
| "write_stream env job w t chunk (d # ds) failure s =
     (let s1 = pause env s in
      if run_lost env s1 then (Inl LeaseLostError, s1)
      else if length (chunk @ [d]) \<ge> 10000
      then case check_owned env (job_id job) w t (map_world (append_file (job_id job, t) (chunk @ [d])) s1) of
             (Inl err, s2) \<Rightarrow> (Inl err, s2)
           | (Inr _, s2) \<Rightarrow> write_stream env job w t [] ds failure s2
      else write_stream env job w t (chunk @ [d]) ds failure s1)"

definition export_stream :: "export_env \<Rightarrow> export_job \<Rightarrow> export_run \<Rightarrow> candle_dict list \<times> py_exn option" where
  "export_stream env job s =
     (let (ds, err) = get_candles (market (run_db s)) (export_asset job) (export_timeframe job)
                        (utc_dt (export_start job)) (utc_dt (export_end job))
      in case stream_fault env (run_tick s) of
           None \<Rightarrow> (ds, err)
         | Some (k, fault) \<Rightarrow> if k \<le> length ds then (take k ds, Some fault) else (ds, err))"

definition generate_parquet_export :: "export_env \<Rightarrow> export_job \<Rightarrow> string \<Rightarrow> string \<Rightarrow> export_run \<Rightarrow> (py_exn + unit) \<times> export_run" where
  "generate_parquet_export env job w t s =
     (case check_owned env (job_id job) w t s of
        (Inl err, s1) \<Rightarrow> (Inl err, s1)
      | (Inr _, s1) \<Rightarrow>
          (let (ds, failure) = export_stream env job s1;
               s2 = map_world (\<lambda>wld. wld\<lparr>files := (files wld)((job_id job, t) \<mapsto> [])\<rparr>) s1
           in case write_stream env job w t [] ds failure s2 of
                (Inl err, s3) \<Rightarrow> (Inl err, s3)
              | (Inr _, s3) \<Rightarrow> check_owned env (job_id job) w t s3))"

definition upload_artifact :: "int \<times> string \<Rightarrow> object_key \<Rightarrow> export_world \<Rightarrow> export_world" where
  "upload_artifact f key wld = wld\<lparr>objects := (objects wld)(key := files wld f)\<rparr>"

text \<open>A deletion that raises is logged only.\<close>

definition delete_artifact :: "export_env \<Rightarrow> object_key \<Rightarrow> export_run \<Rightarrow> export_run" where
  "delete_artifact env key s =
     (let s1 = pause env s in
      if delete_fails env (run_tick s1) then s1
      else map_world (\<lambda>wld. wld\<lparr>objects := (objects wld)(key := None)\<rparr>) s1)"

text \<open>
  The thread's upload ends at the first suspension point in which the event was not seen; when
  the wait saw it, one more suspension point passes until the upload ends.
\<close>

definition upload_artifact_with_fence ::
  "export_env \<Rightarrow> int \<times> string \<Rightarrow> object_key \<Rightarrow> export_run \<Rightarrow> (py_exn + bool) \<times> export_run" where
  "upload_artifact_with_fence env f key s =
     (if run_lost env s then (Inl LeaseLostError, s)
      else
        let s1 = pause env s in
        if wait_saw_lost env (run_tick s1) \<and> run_lost env s1
        then
          let s2 = pause env s1 in
          (case upload_result env (run_tick s2) of
             Inr True \<Rightarrow> (Inl LeaseLostError, delete_artifact env key (map_world (upload_artifact f key) s2))
           | _ \<Rightarrow> (Inl LeaseLostError, s2))
        else
          (case upload_result env (run_tick s1) of
             Inl err \<Rightarrow> (Inl err, s1)
           | Inr uploaded \<Rightarrow>
               let s2 = (if uploaded then map_world (upload_artifact f key) s1 else s1) in
               if run_lost env s2
               then (Inl LeaseLostError, if uploaded then delete_artifact env key s2 else s2)
               else (Inr uploaded, s2)))"

definition remove_file :: "export_env \<Rightarrow> int \<times> string \<Rightarrow> export_run \<Rightarrow> export_run" where
  "remove_file env f s =
     (if remove_fails env (run_tick s) then s else map_world (\<lambda>wld. wld\<lparr>files := (files wld)(f := None)\<rparr>) s)"

text \<open>The fenced terminal write with what its commit answers.\<close>

definition publish_artifact ::
  "export_env \<Rightarrow> export_job \<Rightarrow> string \<Rightarrow> string \<Rightarrow> object_key \<Rightarrow> export_run \<Rightarrow> (py_exn + bool) \<times> export_run" where
  "publish_artifact env job w t key s =
     (let s1 = pause env s;
          (ok, rows) = export_complete_if_owned (job_id job) w t key (run_now env s + presigned_expiry env)
                         (run_now env s) (export_jobs (run_db s1));
          s2 = map_world (\<lambda>wld. wld\<lparr>export_jobs := rows\<rparr>) s1
      in case commit_answer env (run_tick s1) of
           Committed \<Rightarrow> (Inr ok, s2)
         | RolledBack err \<Rightarrow> (Inl err, s1)
         | AnswerLost err \<Rightarrow> (Inl err, s2))"

text \<open>The body of the \<open>try\<close>: the result and whether an artifact was uploaded.\<close>

definition export_attempt ::
  "export_env \<Rightarrow> export_job \<Rightarrow> string \<Rightarrow> string \<Rightarrow> export_run \<Rightarrow> (py_exn + unit) \<times> bool \<times> export_run" where
  "export_attempt env job w t s =
     (let key = artifact_object_key job t in
      case generate_parquet_export env job w t s of
        (Inl err, s1) \<Rightarrow> (Inl err, False, s1)
      | (Inr _, s1) \<Rightarrow>
          (case upload_artifact_with_fence env (job_id job, t) key s1 of
             (Inl err, s2) \<Rightarrow> (Inl err, False, s2)
           | (Inr uploaded, s2) \<Rightarrow>
               if \<not> uploaded then (Inl (RuntimeError ''object storage upload returned false''), False, s2)
               else if run_lost env s2 then (Inl LeaseLostError, True, s2)
               else (case publish_artifact env job w t key s2 of
                       (Inl err, s3) \<Rightarrow> (Inl err, True, s3)
                     | (Inr completed, s3) \<Rightarrow> (if completed then Inr () else Inl LeaseLostError, True, s3))))"

definition execute_claimed_export ::
  "export_env \<Rightarrow> export_job \<Rightarrow> string \<Rightarrow> export_run \<Rightarrow> (py_exn + bool) \<times> export_run" where
  "execute_claimed_export env job w s =
     (case lease_token job of
        None \<Rightarrow> (Inl (RuntimeError ''claimed export job has no lease token''), s)
      | Some t \<Rightarrow>
          (case export_attempt env job w t s of
             (Inr _, _, s1) \<Rightarrow> (Inr True, remove_file env (job_id job, t) s1)
           | (Inl err, uploaded, s1) \<Rightarrow>
               let recorded = (if err = LeaseLostError then s1
                     else let s2 = pause env s1 in
                          map_world (\<lambda>wld. wld\<lparr>export_jobs :=
                             snd (export_record_failure_if_owned (job_id job) w t err (format_error env err)
                                   (run_now env s1) (export_jobs wld))\<rparr>) s2);
                   cleaned = (if uploaded then delete_artifact env (artifact_object_key job t) recorded else recorded)
               in (if err = LeaseLostError then Inr False else Inl err, remove_file env (job_id job, t) cleaned)))"

section \<open>Actor runs\<close>

fun reap_loop :: "nat \<Rightarrow> export_env \<Rightarrow> (int \<Rightarrow> bool) \<Rightarrow> int option \<Rightarrow> nat \<Rightarrow> export_run \<Rightarrow> nat \<times> export_run" where
  "reap_loop 0 env locked jid reaped s = (reaped, s)"
| "reap_loop (Suc n) env locked jid reaped s =
     (let s1 = pause env s in
      case reap_one locked jid (run_now env s) (export_jobs (run_db s1)) of
        (None, _) \<Rightarrow> (reaped, s1)
      | (Some _, rows) \<Rightarrow>
          reap_loop n env locked jid (reaped + 1) (map_world (\<lambda>wld. wld\<lparr>export_jobs := rows\<rparr>) s1))"

definition reap_expired_exhausted_jobs ::
  "export_env \<Rightarrow> (int \<Rightarrow> bool) \<Rightarrow> int \<Rightarrow> int option \<Rightarrow> export_run \<Rightarrow> (py_exn + nat) \<times> export_run" where
  "reap_expired_exhausted_jobs env locked max_jobs jid s =
     (if max_jobs \<le> 0 then (Inl (ValueError ''max_jobs must be positive''), s)
      else case reap_loop (nat max_jobs) env locked jid 0 s of (n, s') \<Rightarrow> (Inr n, s'))"

definition export_claim ::
  "export_env \<Rightarrow> export_config \<Rightarrow> string \<Rightarrow> string \<Rightarrow> usec \<Rightarrow> export_run \<Rightarrow> (py_exn + export_job option) \<times> export_run" where
  "export_claim env cfg w t lease s =
     (let s1 = pause env s in
      case export_claim_row cfg w t (run_now env s) lease (export_jobs (run_db s1)) of
        Inl err \<Rightarrow> (Inl err, s1)
      | Inr (job, rows) \<Rightarrow> (Inr job, map_world (\<lambda>wld. wld\<lparr>export_jobs := rows\<rparr>) s1))"

definition export_claim_job ::
  "export_env \<Rightarrow> (int \<Rightarrow> bool) \<Rightarrow> int \<Rightarrow> string \<Rightarrow> string \<Rightarrow> usec \<Rightarrow> bool \<Rightarrow> export_run \<Rightarrow>
   (py_exn + export_job option) \<times> export_run" where
  "export_claim_job env locked i w t lease respect s =
     (case reap_expired_exhausted_jobs env locked 1 (Some i) s of
        (Inl err, s1) \<Rightarrow> (Inl err, s1)
      | (Inr _, s1) \<Rightarrow> export_claim env ((respect, locked), Some i) w t lease s1)"

definition export_claim_next_job ::
  "export_env \<Rightarrow> (int \<Rightarrow> bool) \<Rightarrow> string \<Rightarrow> string \<Rightarrow> usec \<Rightarrow> bool \<Rightarrow> export_run \<Rightarrow> (py_exn + export_job option) \<times> export_run" where
  "export_claim_next_job env locked w t lease respect s = export_claim env ((respect, locked), None) w t lease s"

definition run_export_job ::
  "export_env \<Rightarrow> (int \<Rightarrow> bool) \<Rightarrow> int \<Rightarrow> string \<Rightarrow> string \<Rightarrow> usec \<Rightarrow> export_run \<Rightarrow> (py_exn + bool) \<times> export_run" where
  "run_export_job env locked i w t lease s =
     (case export_claim_job env locked i w t lease True s of
        (Inl err, s1) \<Rightarrow> (Inl err, s1)
      | (Inr None, s1) \<Rightarrow> (Inr False, s1)
      | (Inr (Some job), s1) \<Rightarrow> execute_claimed_export env job w s1)"

fun exports_loop ::
  "nat \<Rightarrow> export_env \<Rightarrow> (int \<Rightarrow> bool) \<Rightarrow> string \<Rightarrow> (nat \<Rightarrow> string) \<Rightarrow> usec \<Rightarrow> nat \<Rightarrow> export_run \<Rightarrow> (py_exn + nat) \<times> export_run" where
  "exports_loop 0 env locked w tokens lease processed s = (Inr processed, s)"
| "exports_loop (Suc n) env locked w tokens lease processed s =
     (case export_claim_next_job env locked w (tokens processed) lease True s of
        (Inl err, s1) \<Rightarrow> (Inl err, s1)
      | (Inr None, s1) \<Rightarrow> (Inr processed, s1)
      | (Inr (Some job), s1) \<Rightarrow>
          exports_loop n env locked w tokens lease (processed + 1) (snd (execute_claimed_export env job w s1)))"

definition run_available_exports ::
  "export_env \<Rightarrow> (int \<Rightarrow> bool) \<Rightarrow> int \<Rightarrow> string \<Rightarrow> (nat \<Rightarrow> string) \<Rightarrow> usec \<Rightarrow> export_run \<Rightarrow> (py_exn + nat) \<times> export_run" where
  "run_available_exports env locked max_jobs w tokens lease s =
     (if max_jobs \<le> 0 then (Inl (ValueError ''max_jobs must be positive''), s)
      else case reap_expired_exhausted_jobs env locked max_jobs None s of
        (Inl err, s1) \<Rightarrow> (Inl err, s1)
      | (Inr _, s1) \<Rightarrow> exports_loop (nat max_jobs) env locked w tokens lease 0 s1)"


section \<open>The table invariant\<close>

definition export_row_ok :: "export_job \<Rightarrow> bool" where
  "export_row_ok r \<longleftrightarrow>
     0 \<le> attempt_count r \<and> attempt_count r \<le> max_attempts r \<and> 0 < max_attempts r \<and>
     (export_status r = E_PENDING \<longrightarrow> attempt_count r < max_attempts r) \<and>
     (export_status r = E_PROCESSING \<longleftrightarrow> lease_token r \<noteq> None) \<and>
     (lease_token r \<noteq> None \<longleftrightarrow> lease_expires_at r \<noteq> None) \<and>
     (export_status r = E_PROCESSING \<longrightarrow> worker_id r \<noteq> None \<and> claimed_at r \<noteq> None) \<and>
     (export_status r = E_COMPLETED \<longrightarrow> s3_key r \<noteq> None)"

abbreviation export_table_ok :: "export_job list \<Rightarrow> bool" where
  "export_table_ok \<equiv> table_ok (\<lambda>_. True) job_id (\<lambda>_ _. True) export_row_ok"

datatype export_end = ExportComplete object_key usec | ExportFail py_exn string

fun export_settle :: "export_end \<Rightarrow> usec \<Rightarrow> export_job \<Rightarrow> export_job" where
  "export_settle (ExportComplete key expires) now r = export_complete_row key expires r"
| "export_settle (ExportFail err msg) now r = export_fail_row err msg now r"

fun export_finish :: "export_end \<Rightarrow> int \<Rightarrow> string \<Rightarrow> string \<Rightarrow> usec \<Rightarrow> export_job list \<Rightarrow> bool \<times> export_job list" where
  "export_finish (ExportComplete key expires) i w t now rows = export_complete_if_owned i w t key expires now rows"
| "export_finish (ExportFail err msg) i w t now rows = export_record_failure_if_owned i w t err msg now rows"

definition export_claim_id ::
  "export_config \<Rightarrow> string \<Rightarrow> string \<Rightarrow> usec \<Rightarrow> usec \<Rightarrow> export_job list \<Rightarrow> int option \<times> export_job list" where
  "export_claim_id cfg w t now lease rows =
     (case claim_where (export_eligible cfg now) (export_stamp w t now lease) rows of
        (res, rows') \<Rightarrow> (map_option job_id res, rows'))"

type_synonym reap_request = "(int \<Rightarrow> bool) \<times> int option \<times> usec"

fun export_reap :: "reap_request \<Rightarrow> export_job list \<Rightarrow> export_job list" where
  "export_reap (locked, jid, now) rows = snd (reap_one locked jid now rows)"

lemma export_fail_row_cases:
  "job_id (export_fail_row err msg now r) = job_id r"
  "export_status (export_fail_row err msg now r) \<in> {E_PENDING, E_FAILED}"
  "export_row_ok r \<Longrightarrow> export_status r = E_PROCESSING \<Longrightarrow> export_row_ok (export_fail_row err msg now r)"
  by (auto simp: export_fail_row_def Let_def export_row_ok_def)

lemma export_fail_not_processing [simp]: "export_status (export_fail_row err msg now r) \<noteq> E_PROCESSING"
  using export_fail_row_cases(2) [of err msg now r] by auto

interpretation et: guarded_table export_processing export_eligible export_stamp export_extend export_settle
  "\<lambda>_. True" job_id "\<lambda>_ _. True" export_row_ok
proof
  fix c :: export_config and now and r :: export_job and i w t
  assume "export_eligible c now r"
  then show "\<not> owns_row export_processing i w t now r"
    by (cases "lease_expires_at r")
      (auto simp: export_eligible_def ready_condition_def owns_row_def export_processing_def)
next
  fix f now and r :: export_job
  show "job_id (export_settle f now r) = job_id r"
    by (cases f) (simp_all add: export_complete_row_def export_fail_row_cases)
  show "\<not> export_processing (export_settle f now r)"
    by (cases f) (simp_all add: export_complete_row_def export_processing_def)
  show "export_row_ok (export_settle f now r)" if ok: "export_row_ok r" "export_processing r"
  proof (cases f)
    case (ExportFail err msg)
    then show ?thesis using export_fail_row_cases(3) ok by (simp add: export_processing_def)
  qed (use ok in \<open>simp add: export_row_ok_def export_complete_row_def\<close>)
qed (auto simp: export_stamp_def export_extend_def export_processing_def export_row_ok_def
    export_eligible_def ready_condition_def)

lemma export_claim_eq: "export_claim_id = et.tclaim"
  by (intro ext) (simp add: export_claim_id_def et.tclaim_def)

lemma export_renew_eq: "export_heartbeat = et.trenew"
  by (intro ext) (simp add: export_heartbeat_def et.trenew_def)

lemma export_finish_refused:
  "\<not> owned_in export_processing rows i w t now \<Longrightarrow> export_finish f i w t now rows = (False, rows)"
  by (cases f) (simp_all add: export_complete_if_owned_def export_record_failure_if_owned_def
      transition_not_owned get_and_update_not_owned)

lemma export_settle_eta:
  "export_settle (ExportComplete key expires) now = export_complete_row key expires"
  "export_settle (ExportFail err msg) now = export_fail_row err msg now"
  by (simp_all add: fun_eq_iff)

lemma export_finish_eq: "unique_ids rows \<Longrightarrow> export_finish f i w t now rows = et.tfinish f i w t now rows"
  by (cases f) (simp_all add: export_complete_if_owned_def export_record_failure_if_owned_def
      et.tfinish_def get_and_update_eq export_settle_eta)

text \<open>The sweep changes at most one row, an expired claim without attempts left.\<close>

lemma reap_one_cases:
  obtains "reap_one locked jid now rows = (None, rows)" "\<forall>r \<in> set rows. \<not> exhausted locked jid now r"
  | r where "r \<in> set rows" "exhausted locked jid now r"
      "reap_one locked jid now rows = (Some (reap_row r), update_where (\<lambda>x. job_id x = job_id r) reap_row rows)"
proof (cases "fst (reap_one locked jid now rows)")
  case None
  then have "reap_one locked jid now rows = (None, rows)" unfolding reap_one_def by (metis claim_where_None prod.collapse)
  moreover have "\<forall>r \<in> set rows. \<not> exhausted locked jid now r"
    using None unfolding reap_one_def claim_where_None_iff .
  ultimately show thesis by (rule that(1))
next
  case (Some r')
  then have "claim_where (exhausted locked jid now) reap_row rows = (Some r', snd (reap_one locked jid now rows))"
    unfolding reap_one_def by (metis prod.collapse)
  then obtain r where "r \<in> set rows" "exhausted locked jid now r" "r' = reap_row r"
    "snd (reap_one locked jid now rows) = update_where (\<lambda>x. job_id x = job_id r) reap_row rows"
    by (rule claim_where_SomeE)
  then show thesis using that(2) Some by (metis prod.collapse)
qed

lemma export_reap_ok:
  assumes ok: "export_table_ok rows"
  shows "export_table_ok (export_reap e rows)"
proof (cases e)
  case (fields locked jid now)
  show ?thesis
  proof (cases rule: reap_one_cases [of locked jid now rows])
    case (2 r)
    have "export_table_ok (update_where (\<lambda>x. job_id x = job_id r) reap_row rows)"
    proof (rule table_ok_update [OF ok])
      fix x assume x: "x \<in> set rows" "job_id x = job_id r"
      then have "x = r" using unique_idsD [OF table_ok_unique [OF ok] x(1) 2(1)] by simp
      then show "export_row_ok (reap_row x) \<and> (True \<longrightarrow> True)"
        using table_ok_row [OF ok 2(1)] by (simp add: export_row_ok_def reap_row_def)
    qed (simp_all add: reap_row_def)
    then show ?thesis using fields 2(3) by simp
  qed (use fields ok in simp)
qed

lemma export_reap_holds:
  "holds_in export_processing (export_reap e rows) i t \<Longrightarrow> holds_in export_processing rows i t"
proof (cases e)
  case (fields locked jid now)
  then show "holds_in export_processing (export_reap e rows) i t \<Longrightarrow> ?thesis"
    by (cases rule: reap_one_cases [of locked jid now rows])
      (auto simp: holds_in_def set_update_where reap_row_def export_processing_def split: if_splits)
qed

interpretation ej: fenced_jobs export_table_ok "holds_in export_processing" "owned_in export_processing"
  export_claim_id export_heartbeat export_finish export_reap
  unfolding export_claim_eq export_renew_eq
  by (rule et.fenced) (auto simp: export_finish_eq export_finish_refused intro: export_reap_ok
      dest: export_reap_holds simp del: export_reap.simps)

section \<open>Properties of the claim protocol\<close>

text \<open>
  The claim protocol of the export table.  Claims, heartbeats, completions, failures and
  sweeps keep the constraints in any order (in particular no job is ever claimed more than
  \<open>max_attempts\<close> times); after a takeover every transition of the previous claimant is refused
  and leaves the table unchanged.
\<close>

theorem export_stale_worker_fenced:
  assumes "export_table_ok rows"
    and "export_claim_id cfg w' t' now' lease rows = (Some i, rows')" and "t \<noteq> t'"
    and "Some t \<notin> claim_token_of ` set ops"
  shows "export_table_ok (ej.exec_all ops rows') \<and>
    export_finish f i w t now (ej.exec_all ops rows') = (False, ej.exec_all ops rows')"
proof
  have "export_table_ok rows'" using ej.claim_wf [OF assms(1)] assms(2) by (metis snd_conv)
  then show "export_table_ok (ej.exec_all ops rows')" by (rule ej.exec_all_wf)
  show "export_finish f i w t now (ej.exec_all ops rows') = (False, ej.exec_all ops rows')"
    by (rule ej.takeover_fences [OF assms])
qed

definition new_export_job :: "int \<Rightarrow> usec \<Rightarrow> asset_id \<Rightarrow> string \<Rightarrow> usec \<Rightarrow> usec \<Rightarrow> export_job" where
  "new_export_job i now asset tf s e =
     \<lparr>job_id = i, worker_id = None, lease_token = None, claimed_at = None, lease_expires_at = None,
      next_attempt_at = None, error_message = None, error_category = None, created_at = now,
      export_asset = asset, export_timeframe = tf, export_start = s, export_end = e,
      export_status = E_PENDING, s3_key = None, attempt_count = 0, max_attempts = 5, expires_at = None\<rparr>"

definition example_export :: export_job where
  "example_export = export_stamp ''w'' ''t'' 0 300 (new_export_job 1 0 7 ''1m'' 0 minute_us)"

lemma example_export_table: "export_table_ok [example_export]"
  by (simp add: table_ok_def unique_ids_def export_row_ok_def example_export_def export_stamp_def new_export_job_def)

theorem export_stale_worker_fenced_witness:
  "export_finish (ExportFail NetworkError ''m'') 1 ''w'' ''t'' 302
     (snd (export_claim_id ((True, \<lambda>_. False), None) ''w2'' ''t2'' 301 300 [example_export])) =
   (False, snd (export_claim_id ((True, \<lambda>_. False), None) ''w2'' ''t2'' 301 300 [example_export]))"
proof -
  have "fst (export_claim_id ((True, \<lambda>_. False), None) ''w2'' ''t2'' 301 300 [example_export]) = Some 1" by code_simp
  then have claim: "export_claim_id ((True, \<lambda>_. False), None) ''w2'' ''t2'' 301 300 [example_export] =
      (Some 1, snd (export_claim_id ((True, \<lambda>_. False), None) ''w2'' ''t2'' 301 300 [example_export]))"
    by (metis prod.collapse)
  show ?thesis
    using export_stale_worker_fenced [OF example_export_table claim, of "''t''" "[]"]
    by (simp del: export_finish.simps)
qed

text \<open>
  No export job is stuck.  Every unfinished job that satisfies the constraints can, from some
  moment on and as long as its row does not change, either be claimed by the recovery sweep or
  be failed by it; never both.
\<close>

theorem export_never_stuck:
  assumes "export_row_ok r" and "export_status r \<in> {E_PENDING, E_PROCESSING}"
  shows "\<exists>T. \<forall>now \<ge> T. export_eligible ((True, \<lambda>_. False), None) now r \<noteq> exhausted (\<lambda>_. False) None now r"
proof (cases "export_status r = E_PENDING")
  case True
  then show ?thesis using assms(1)
    by (cases "next_attempt_at r")
      (auto simp: export_eligible_def ready_condition_def requested_def exhausted_def export_row_ok_def)
next
  case False
  then obtain e where "lease_expires_at r = Some e" "export_status r = E_PROCESSING"
    using assms by (auto simp: export_row_ok_def)
  then show ?thesis using assms(1)
    by (intro exI [of _ e])
      (auto simp: export_eligible_def ready_condition_def requested_def exhausted_def export_row_ok_def)
qed

theorem export_never_stuck_witness:
  "\<exists>T. \<forall>now \<ge> T. export_eligible ((True, \<lambda>_. False), None) now example_export \<noteq> exhausted (\<lambda>_. False) None now example_export"
  by (rule export_never_stuck)
    (simp_all add: export_row_ok_def example_export_def export_stamp_def new_export_job_def)


section \<open>What happens to the artifact\<close>





lemma map_world_simps [simp]:
  "run_db (map_world g s) = g (run_db s)" "run_tick (map_world g s) = run_tick s"
  by (simp_all add: map_world_def)

lemma check_owned_state: "snd (check_owned env i w t s) = pause env s"
  by (simp add: check_owned_def Let_def split: sum.splits)


lemma append_file_simps [simp]:
  "files (append_file f ds wld) f = Some ((case files wld f of None \<Rightarrow> [] | Some old \<Rightarrow> old) @ ds)"
  "objects (append_file f ds wld) = objects wld"
  by (simp_all add: append_file_def)




lemma upload_artifact_object [simp]: "objects (upload_artifact f key wld) key = files wld f"
  by (simp add: upload_artifact_def)





lemma remove_file_simps [simp]:
  "objects (run_db (remove_file env f s)) = objects (run_db s)"
  "export_jobs (run_db (remove_file env f s)) = export_jobs (run_db s)"
  by (simp_all add: remove_file_def)


definition example_export_env :: "commit_answer \<Rightarrow> (py_exn + bool) \<Rightarrow> export_env" where
  "example_export_env answer upload =
     \<lparr>clock = (\<lambda>n. 10 + int n), others = (\<lambda>_ wld. wld), lost_at = (\<lambda>_. False), format_error = exn_type_name,
      stream_fault = (\<lambda>_. None), upload_result = (\<lambda>_. upload), wait_saw_lost = (\<lambda>_. False),
      delete_fails = (\<lambda>_. False), remove_fails = (\<lambda>_. False), commit_answer = (\<lambda>_. answer), presigned_expiry = 60\<rparr>"

definition example_export_run :: export_run where
  "example_export_run =
     \<lparr>run_db = \<lparr>export_jobs = [example_export], market = example_query_db, objects = Map.empty, files = Map.empty\<rparr>,
      run_tick = 0\<rparr>"

lemma example_token: "lease_token example_export = Some ''t''"
  by (simp add: example_export_def export_stamp_def)








text \<open>
  The answer of a commit matters.  If the completing transaction commits but its answer is
  lost, the attempt ends with an error, its row stays \<open>COMPLETED\<close>, and the cleanup deletes the
  object the row points to: a download of the finished export cannot succeed.
\<close>

theorem export_lost_answer_dangles:
  assumes "lease_token job = Some t" and "\<forall>n wld. others env n wld = wld" and "\<forall>n. \<not> delete_fails env n"
    and "export_attempt env job w t s = (Inl err, True, s1)" and "err \<noteq> LeaseLostError"
    and "unique_ids (export_jobs (run_db s1))" and "r \<in> set (export_jobs (run_db s1))" and "job_id r = job_id job"
    and "export_status r = E_COMPLETED" and "s3_key r = Some (artifact_object_key job t)"
    and "execute_claimed_export env job w s = (res, s')"
  shows "r \<in> set (export_jobs (run_db s')) \<and> objects (run_db s') (artifact_object_key job t) = None"
proof -
  let ?key = "artifact_object_key job t"
  have p: "run_db (pause env x) = run_db x" for x using assms(2) by (simp add: pause_def)
  have "\<not> owned_in export_processing (export_jobs (run_db s1)) (job_id job) w t n" for n
  proof
    assume "owned_in export_processing (export_jobs (run_db s1)) (job_id job) w t n"
    then obtain q where q: "q \<in> set (export_jobs (run_db s1))" "job_id q = job_id job" "export_status q = E_PROCESSING"
      by (auto simp: owned_in_def owns_row_def export_processing_def)
    then have "q = r" using unique_idsD [OF assms(6) q(1) assms(7)] assms(8) by simp
    then show False using q(3) assms(9) by simp
  qed
  then have same: "snd (export_record_failure_if_owned (job_id job) w t err m n (export_jobs (run_db s1))) = export_jobs (run_db s1)" for m n
    by (simp add: export_record_failure_if_owned_def get_and_update_not_owned)
  show ?thesis
    using assms(1,3-5,7,11) by (auto simp: execute_claimed_export_def Let_def delete_artifact_def p same)
qed


definition lost_answer_env :: export_env where
  "lost_answer_env = example_export_env (AnswerLost ConnectionError) (Inr True)"

lemma example_lost_attempt:
  "case export_attempt lost_answer_env example_export ''w'' ''t'' example_export_run of
     (res, up, s1) \<Rightarrow> res = Inl ConnectionError \<and> up \<and>
       (case export_jobs (run_db s1) of
          [r] \<Rightarrow> job_id r = 1 \<and> export_status r = E_COMPLETED \<and> s3_key r = Some (artifact_object_key example_export ''t'')
        | _ \<Rightarrow> False)"
  by code_simp

theorem export_lost_answer_dangles_witness:
  "\<exists>r. r \<in> set (export_jobs (run_db (snd (execute_claimed_export lost_answer_env example_export ''w'' example_export_run)))) \<and>
     export_status r = E_COMPLETED \<and> s3_key r = Some (artifact_object_key example_export ''t'') \<and>
     objects (run_db (snd (execute_claimed_export lost_answer_env example_export ''w'' example_export_run)))
       (artifact_object_key example_export ''t'') = None"
proof -
  obtain s1 where at: "export_attempt lost_answer_env example_export ''w'' ''t'' example_export_run = (Inl ConnectionError, True, s1)"
    and jobs: "case export_jobs (run_db s1) of
        [r] \<Rightarrow> job_id r = 1 \<and> export_status r = E_COMPLETED \<and> s3_key r = Some (artifact_object_key example_export ''t'')
      | _ \<Rightarrow> False"
    using example_lost_attempt
    by (cases "export_attempt lost_answer_env example_export ''w'' ''t'' example_export_run") auto
  obtain r where r: "export_jobs (run_db s1) = [r]" "job_id r = 1" "export_status r = E_COMPLETED"
    "s3_key r = Some (artifact_object_key example_export ''t'')"
    using jobs by (auto split: list.splits)
  obtain res s' where run: "execute_claimed_export lost_answer_env example_export ''w'' example_export_run = (res, s')"
    by (rule prod.exhaust)
  have "r \<in> set (export_jobs (run_db s')) \<and> objects (run_db s') (artifact_object_key example_export ''t'') = None"
  proof (rule export_lost_answer_dangles [OF example_token _ _ at _ _ _ _ r(3,4) run])
    show "job_id r = job_id example_export" by (simp add: r(2) example_export_def export_stamp_def new_export_job_def)
  qed (simp_all add: r(1) unique_ids_def lost_answer_env_def example_export_env_def)
  then show ?thesis using r(3,4) by (auto simp: run)
qed

section \<open>The actor runs\<close>

definition export_env_ok :: "export_env \<Rightarrow> bool" where
  "export_env_ok env \<longleftrightarrow> (\<forall>n wld. export_table_ok (export_jobs wld) \<longrightarrow> export_table_ok (export_jobs (others env n wld)))"

abbreviation export_run_ok :: "export_run \<Rightarrow> bool" where
  "export_run_ok s \<equiv> export_table_ok (export_jobs (run_db s))"

lemma export_pause_ok: "export_env_ok env \<Longrightarrow> export_run_ok s \<Longrightarrow> export_run_ok (pause env s)"
  by (simp add: export_env_ok_def pause_def)

lemma export_finish_table_ok: "export_table_ok rows \<Longrightarrow> export_table_ok (snd (export_finish f i w t now rows))"
  by (rule ej.finish_wf)

lemma append_file_jobs [simp]: "export_jobs (append_file f ds wld) = export_jobs wld"
  by (simp add: append_file_def)

lemma check_owned_ok: "export_env_ok env \<Longrightarrow> export_run_ok s \<Longrightarrow> export_run_ok (snd (check_owned env i w t s))"
  by (simp only: check_owned_state export_pause_ok)

lemma write_stream_ok:
  assumes env: "export_env_ok env"
  shows "export_run_ok s \<Longrightarrow> export_run_ok (snd (write_stream env job w t chunk ds failure s))"
proof (induction ds arbitrary: chunk s)
  case Nil
  then show ?case by (auto split: option.splits)
next
  case (Cons d ds)
  have s1: "export_run_ok (pause env s)" using export_pause_ok [OF env Cons.prems] .
  obtain r s2 where chk: "check_owned env (job_id job) w t (map_world (append_file (job_id job, t) (chunk @ [d])) (pause env s)) = (r, s2)"
    by (rule prod.exhaust)
  have "export_run_ok s2"
    using check_owned_ok [OF env, of "map_world (append_file (job_id job, t) (chunk @ [d])) (pause env s)" "job_id job" w t] s1 chk
    by simp
  then show ?case using Cons.IH s1 chk by (cases r) (simp_all add: Let_def)
qed

lemma generate_ok:
  assumes env: "export_env_ok env" and s: "export_run_ok s"
  shows "export_run_ok (snd (generate_parquet_export env job w t s))"
proof -
  obtain r1 s1 where c1: "check_owned env (job_id job) w t s = (r1, s1)" by (rule prod.exhaust)
  have s1: "export_run_ok s1" using check_owned_ok [OF env s, of "job_id job" w t] c1 by simp
  obtain ds failure where st: "export_stream env job s1 = (ds, failure)" by (rule prod.exhaust)
  define s2 where "s2 = map_world (\<lambda>wld. wld\<lparr>files := (files wld)((job_id job, t) \<mapsto> [])\<rparr>) s1"
  have s2: "export_run_ok s2" using s1 by (simp add: s2_def)
  obtain r3 s3 where wr: "write_stream env job w t [] ds failure s2 = (r3, s3)" by (rule prod.exhaust)
  have s3: "export_run_ok s3" using write_stream_ok [OF env s2, of job w t "[]" ds failure] wr by simp
  show ?thesis using s1 s3 check_owned_ok [OF env s3, of "job_id job" w t] c1 st wr
    by (cases r1; cases r3) (simp_all add: generate_parquet_export_def s2_def)
qed

lemma delete_artifact_ok: "export_env_ok env \<Longrightarrow> export_run_ok s \<Longrightarrow> export_run_ok (delete_artifact env key s)"
  using export_pause_ok by (simp add: delete_artifact_def Let_def)

lemma upload_ok:
  assumes env: "export_env_ok env" and s: "export_run_ok s"
  shows "export_run_ok (snd (upload_artifact_with_fence env f key s))"
proof -
  have s1: "export_run_ok (pause env s)" using export_pause_ok [OF env s] .
  have s2: "export_run_ok (pause env (pause env s))" using export_pause_ok [OF env s1] .
  have up: "export_run_ok x \<Longrightarrow> export_run_ok (map_world (upload_artifact f key) x)" for x
    by (simp add: upload_artifact_def)
  show ?thesis using s s1 s2 up [OF s1] up [OF s2] delete_artifact_ok [OF env up [OF s1], of key] delete_artifact_ok [OF env up [OF s2], of key]
    by (simp add: upload_artifact_with_fence_def Let_def split: sum.splits bool.splits)
qed

lemma publish_ok:
  assumes env: "export_env_ok env" and s: "export_run_ok s"
  shows "export_run_ok (snd (publish_artifact env job w t key s))"
proof -
  obtain ok rows where fin: "export_complete_if_owned (job_id job) w t key (run_now env s + presigned_expiry env)
      (run_now env s) (export_jobs (run_db (pause env s))) = (ok, rows)" by (rule prod.exhaust)
  have s1: "export_run_ok (pause env s)" using export_pause_ok [OF env s] .
  have "export_table_ok rows"
    using export_finish_table_ok [OF s1, of "ExportComplete key (run_now env s + presigned_expiry env)"] fin
    by (metis export_finish.simps(1) snd_conv)
  then show ?thesis using fin s1 by (simp add: publish_artifact_def Let_def split: commit_answer.splits)
qed

lemma attempt_ok:
  assumes env: "export_env_ok env" and s: "export_run_ok s" and run: "export_attempt env job w t s = (res, up, s')"
  shows "export_run_ok s'"
proof -
  let ?key = "artifact_object_key job t" and ?f = "(job_id job, t)"
  obtain r1 s1 where gen: "generate_parquet_export env job w t s = (r1, s1)" by (rule prod.exhaust)
  have s1: "export_run_ok s1" using generate_ok [OF env s, of job w t] gen by simp
  obtain r2 s2 where upl: "upload_artifact_with_fence env ?f ?key s1 = (r2, s2)" by (rule prod.exhaust)
  have s2: "export_run_ok s2" using upload_ok [OF env s1, of ?f ?key] upl by simp
  obtain r3 s3 where pub: "publish_artifact env job w t ?key s2 = (r3, s3)" by (rule prod.exhaust)
  have s3: "export_run_ok s3" using publish_ok [OF env s2, of job w t ?key] pub by simp
  show ?thesis using run gen upl pub s1 s2 s3
    by (auto simp: export_attempt_def Let_def split: sum.splits if_splits)
qed

lemma execute_export_ok:
  assumes env: "export_env_ok env" and s: "export_run_ok s"
  shows "export_run_ok (snd (execute_claimed_export env job w s))"
proof (cases "lease_token job")
  case (Some t)
  obtain r up s1 where at: "export_attempt env job w t s = (r, up, s1)" by (metis prod.collapse)
  have s1: "export_run_ok s1" using attempt_ok [OF env s at] .
  define rec where "rec err = (if err = LeaseLostError then s1
     else let s2 = pause env s1 in
          map_world (\<lambda>wld. wld\<lparr>export_jobs :=
             snd (export_record_failure_if_owned (job_id job) w t err (format_error env err) (run_now env s1) (export_jobs wld))\<rparr>) s2)" for err
  have "export_run_ok (rec err)" for err
    using s1 export_finish_table_ok [OF export_pause_ok [OF env s1], of "ExportFail err (format_error env err)"]
    by (simp add: rec_def Let_def)
  then show ?thesis using s1 at Some delete_artifact_ok [OF env]
    by (cases r) (simp_all add: execute_claimed_export_def Let_def rec_def)
qed (use s in \<open>simp add: execute_claimed_export_def\<close>)

lemma reap_loop_ok:
  assumes env: "export_env_ok env"
  shows "export_run_ok s \<Longrightarrow> export_run_ok (snd (reap_loop n env locked jid k s))"
proof (induction n arbitrary: k s)
  case (Suc n)
  have s1: "export_run_ok (pause env s)" using export_pause_ok [OF env Suc.prems] .
  obtain r rows where re: "reap_one locked jid (run_now env s) (export_jobs (run_db (pause env s))) = (r, rows)" by (rule prod.exhaust)
  have "export_table_ok rows" using export_reap_ok [OF s1, of "(locked, jid, run_now env s)"] re by simp
  then show ?case using Suc.IH s1 re by (cases r) (simp_all add: Let_def)
qed simp

lemma export_claim_ok:
  assumes env: "export_env_ok env" and s: "export_run_ok s"
  shows "export_run_ok (snd (export_claim env cfg w t lease s))"
proof -
  have s1: "export_run_ok (pause env s)" using export_pause_ok [OF env s] .
  have "export_table_ok (snd (claim_where (export_eligible cfg (run_now env s)) (export_stamp w t (run_now env s) lease) (export_jobs (run_db (pause env s)))))"
    using ej.claim_wf [OF s1, of cfg w t "run_now env s" lease] by (simp add: export_claim_id_def split: prod.splits)
  then show ?thesis using s1 by (auto simp: export_claim_def export_claim_row_def Let_def split: prod.splits)
qed

lemma exports_loop_ok:
  assumes env: "export_env_ok env"
  shows "export_run_ok s \<Longrightarrow> export_run_ok (snd (exports_loop n env locked w tokens lease k s)) \<and>
    (case fst (exports_loop n env locked w tokens lease k s) of Inl _ \<Rightarrow> lease \<le> 0 | Inr m \<Rightarrow> m \<le> k + n)"
proof (induction n arbitrary: k s)
  case (Suc n)
  obtain r s1 where c: "export_claim_next_job env locked w (tokens k) lease True s = (r, s1)" by (rule prod.exhaust)
  have s1: "export_run_ok s1"
    using export_claim_ok [OF env Suc.prems, of "((True, locked), None)" w "tokens k" lease] c
    by (simp add: export_claim_next_job_def)
  have err: "lease \<le> 0" if "r = Inl e" for e
    using c that by (auto simp: export_claim_next_job_def export_claim_def export_claim_row_def Let_def split: prod.splits if_splits)
  show ?case
  proof (cases "\<exists>job. r = Inr (Some job)")
    case True
    then obtain job where r: "r = Inr (Some job)" by blast
    have "export_run_ok (snd (execute_claimed_export env job w s1))" using execute_export_ok [OF env s1] .
    from Suc.IH [OF this, of "k + 1"] show ?thesis using c r by (auto split: sum.splits)
  next
    case False
    then show ?thesis using c s1 err by (cases r) (auto split: option.splits)
  qed
qed simp

text \<open>
  The recovery sweep is safe and bounded.  Whatever fails in an attempt, a run of the actor
  keeps the constraints of the job table; it raises only for a non-positive bound or lease, and
  it processes at most \<open>max_jobs\<close> claims.
\<close>

theorem export_sweep_safe:
  assumes "export_env_ok env" and "export_table_ok (export_jobs (run_db s))"
  shows "export_table_ok (export_jobs (run_db (snd (run_available_exports env locked max_jobs w tokens lease s)))) \<and>
    (case fst (run_available_exports env locked max_jobs w tokens lease s) of
       Inl _ \<Rightarrow> max_jobs \<le> 0 \<or> lease \<le> 0
     | Inr n \<Rightarrow> 0 < max_jobs \<and> int n \<le> max_jobs)"
proof (cases "max_jobs \<le> 0")
  case True
  then show ?thesis using assms(2) by (simp add: run_available_exports_def)
next
  case False
  obtain k s1 where re: "reap_loop (nat max_jobs) env locked None 0 s = (k, s1)" by (rule prod.exhaust)
  have s1: "export_run_ok s1" using reap_loop_ok [OF assms, of "nat max_jobs" locked None 0] re by simp
  have "run_available_exports env locked max_jobs w tokens lease s = exports_loop (nat max_jobs) env locked w tokens lease 0 s1"
    using False re by (simp add: run_available_exports_def reap_expired_exhausted_jobs_def)
  then show ?thesis using exports_loop_ok [OF assms(1) s1, of "nat max_jobs" locked w tokens lease 0] False
    by (auto split: sum.splits)
qed

theorem export_sweep_safe_witness:
  "export_table_ok (export_jobs (run_db (snd (run_available_exports (example_export_env Committed (Inr True))
     (\<lambda>_. False) 3 ''w2'' (\<lambda>_. ''t2'') 300 example_export_run))))"
  using export_sweep_safe [of "example_export_env Committed (Inr True)" example_export_run] example_export_table
  by (simp add: export_env_ok_def example_export_env_def example_export_run_def)

end
