(* ===== verification/Sha256.thy ===== *)
theory Sha256
  imports Prelude "HOL-Library.Word" "HOL-Library.List_Lexorder" "HOL-Library.Char_ord"
begin

text \<open>
  \<open>hashlib.sha256\<close> as the program uses it: the digest of an ASCII string as 32 bytes, the
  unsigned big-endian value of a byte string, and the decimal text of an integer.  The
  compression function works on 32-bit words, whose addition wraps as FIPS 180-4 asks.
\<close>

unbundle bit_operations_syntax

section \<open>The compression function\<close>

definition sha256_k :: "32 word list" where
  "sha256_k =
    [0x428a2f98, 0x71374491, 0xb5c0fbcf, 0xe9b5dba5, 0x3956c25b, 0x59f111f1, 0x923f82a4, 0xab1c5ed5,
     0xd807aa98, 0x12835b01, 0x243185be, 0x550c7dc3, 0x72be5d74, 0x80deb1fe, 0x9bdc06a7, 0xc19bf174,
     0xe49b69c1, 0xefbe4786, 0x0fc19dc6, 0x240ca1cc, 0x2de92c6f, 0x4a7484aa, 0x5cb0a9dc, 0x76f988da,
     0x983e5152, 0xa831c66d, 0xb00327c8, 0xbf597fc7, 0xc6e00bf3, 0xd5a79147, 0x06ca6351, 0x14292967,
     0x27b70a85, 0x2e1b2138, 0x4d2c6dfc, 0x53380d13, 0x650a7354, 0x766a0abb, 0x81c2c92e, 0x92722c85,
     0xa2bfe8a1, 0xa81a664b, 0xc24b8b70, 0xc76c51a3, 0xd192e819, 0xd6990624, 0xf40e3585, 0x106aa070,
     0x19a4c116, 0x1e376c08, 0x2748774c, 0x34b0bcb5, 0x391c0cb3, 0x4ed8aa4a, 0x5b9cca4f, 0x682e6ff3,
     0x748f82ee, 0x78a5636f, 0x84c87814, 0x8cc70208, 0x90befffa, 0xa4506ceb, 0xbef9a3f7, 0xc67178f2]"

definition sha256_h0 :: "32 word list" where
  "sha256_h0 = [0x6a09e667, 0xbb67ae85, 0x3c6ef372, 0xa54ff53a, 0x510e527f, 0x9b05688c, 0x1f83d9ab, 0x5be0cd19]"

definition rotr :: "nat \<Rightarrow> 32 word \<Rightarrow> 32 word" where
  "rotr n w = (drop_bit n w) OR (push_bit (32 - n) w)"

definition small_sigma0 :: "32 word \<Rightarrow> 32 word" where
  "small_sigma0 w = rotr 7 w XOR rotr 18 w XOR drop_bit 3 w"

definition small_sigma1 :: "32 word \<Rightarrow> 32 word" where
  "small_sigma1 w = rotr 17 w XOR rotr 19 w XOR drop_bit 10 w"

definition big_sigma0 :: "32 word \<Rightarrow> 32 word" where
  "big_sigma0 w = rotr 2 w XOR rotr 13 w XOR rotr 22 w"

definition big_sigma1 :: "32 word \<Rightarrow> 32 word" where
  "big_sigma1 w = rotr 6 w XOR rotr 11 w XOR rotr 25 w"

definition sha_ch :: "32 word \<Rightarrow> 32 word \<Rightarrow> 32 word \<Rightarrow> 32 word" where
  "sha_ch x y z = (x AND y) XOR (NOT x AND z)"

definition sha_maj :: "32 word \<Rightarrow> 32 word \<Rightarrow> 32 word \<Rightarrow> 32 word" where
  "sha_maj x y z = (x AND y) XOR (x AND z) XOR (y AND z)"

text \<open>The message schedule is kept newest word first, so that every access is near the head.\<close>

fun expand_schedule :: "nat \<Rightarrow> 32 word list \<Rightarrow> 32 word list" where
  "expand_schedule 0 ws = ws"
| "expand_schedule (Suc n) ws =
     expand_schedule n ((small_sigma1 (ws ! 1) + ws ! 6 + small_sigma0 (ws ! 14) + ws ! 15) # ws)"

fun sha_update :: "32 word \<Rightarrow> 32 word \<Rightarrow> 32 word list \<Rightarrow> 32 word list" where
  "sha_update t1 t2 [a, b, c, d, e, f, g, h] = [t1 + t2, a, b, c, d + t1, e, f, g]"
| "sha_update t1 t2 st = st"

fun sha_round :: "32 word list \<Rightarrow> 32 word \<times> 32 word \<Rightarrow> 32 word list" where
  "sha_round [a, b, c, d, e, f, g, h] (k, w) =
     sha_update (h + big_sigma1 e + sha_ch e f g + k + w) (big_sigma0 a + sha_maj a b c) [a, b, c, d, e, f, g, h]"
| "sha_round st _ = st"

definition sha_block :: "32 word list \<Rightarrow> 32 word list \<Rightarrow> 32 word list" where
  "sha_block st block =
     map2 (+) st (foldl sha_round st (zip sha256_k (rev (expand_schedule 48 (rev block)))))"

section \<open>Bytes\<close>

type_synonym byte = "8 word"

definition encode_ascii :: "string \<Rightarrow> byte list" where
  "encode_ascii s = map of_char s"

definition word_bytes :: "'a :: len word \<Rightarrow> nat list \<Rightarrow> byte list" where
  "word_bytes w shifts = map (\<lambda>k. ucast (drop_bit k w)) shifts"

definition uint_be :: "byte list \<Rightarrow> int" where
  "uint_be bs = foldl (\<lambda>acc b. acc * 256 + uint b) 0 bs"

definition sha_pad :: "byte list \<Rightarrow> byte list" where
  "sha_pad bs =
     bs @ 0x80 # replicate ((119 - length bs mod 64) mod 64) 0
       @ word_bytes (word_of_int (8 * int (length bs)) :: 64 word) [56, 48, 40, 32, 24, 16, 8, 0]"

fun words_of_bytes :: "byte list \<Rightarrow> 32 word list" where
  "words_of_bytes (a # b # c # d # bs) =
     (push_bit 24 (ucast a) OR push_bit 16 (ucast b) OR push_bit 8 (ucast c) OR ucast d) # words_of_bytes bs"
| "words_of_bytes _ = []"

fun sha_blocks :: "nat \<Rightarrow> 32 word list \<Rightarrow> 32 word list \<Rightarrow> 32 word list" where
  "sha_blocks 0 st ws = st"
| "sha_blocks (Suc n) st ws = sha_blocks n (sha_block st (take 16 ws)) (drop 16 ws)"

definition sha256 :: "byte list \<Rightarrow> byte list" where
  "sha256 bs =
     (let ws = words_of_bytes (sha_pad bs)
      in concat (map (\<lambda>w. word_bytes w [24, 16, 8, 0]) (sha_blocks (length ws div 16) sha256_h0 ws)))"

section \<open>Decimal text\<close>

fun nat_digits :: "nat \<Rightarrow> string" where
  "nat_digits n = (if n < 10 then [char_of (48 + n)] else nat_digits (n div 10) @ [char_of (48 + n mod 10)])"

declare nat_digits.simps [simp del]

definition py_str_int :: "int \<Rightarrow> string" where
  "py_str_int i = (if i < 0 then CHR ''-'' # nat_digits (nat (- i)) else nat_digits (nat i))"

section \<open>Evaluation in the kernel\<close>

text \<open>
  The simplifier does not reduce a word numeral modulo \<open>2 ^ 32\<close>, so without help the numerals
  grow with every addition and shift.  \<open>norm32\<close> is the identity with an evaluation rule that
  reduces; \<open>sha_eval\<close> computes a digest with it.
\<close>

definition norm32 :: "32 word \<Rightarrow> 32 word" where
  "norm32 w = w"

lemma norm32_eval: "norm32 (numeral k) = word_of_int (take_bit 32 (numeral k))" "norm32 0 = 0" "norm32 1 = 1"
proof -
  have "norm32 (numeral k) = word_of_int (uint (numeral k :: 32 word))"
    unfolding norm32_def by (rule word_of_int_uint [symmetric])
  also have "uint (numeral k :: 32 word) = take_bit 32 (numeral k)" by simp
  finally show "norm32 (numeral k) = word_of_int (take_bit 32 (numeral k))" .
qed (simp_all add: norm32_def)

lemma rotr_eval: "rotr n w = norm32 (drop_bit n w OR push_bit (32 - n) w)"
  by (simp add: norm32_def rotr_def)

lemma update_eval:
  "sha_update t1 t2 [a, b, c, d, e, f, g, h] = [norm32 (t1 + t2), a, b, c, norm32 (d + t1), e, f, g]"
  by (simp add: norm32_def)

lemma expand_eval:
  "expand_schedule (numeral k) ws =
     expand_schedule (pred_numeral k)
       (norm32 (small_sigma1 (ws ! 1) + ws ! 6 + small_sigma0 (ws ! 14) + ws ! 15) # ws)"
  by (simp add: numeral_eq_Suc norm32_def)

lemma expand_Suc_eval:
  "expand_schedule (Suc k) ws =
     expand_schedule k (norm32 (small_sigma1 (ws ! 1) + ws ! 6 + small_sigma0 (ws ! 14) + ws ! 15) # ws)"
  by (simp add: norm32_def)

lemma block_eval:
  "sha_block st block =
     map norm32 (map2 (+) st (foldl sha_round st (zip sha256_k (rev (expand_schedule 48 (rev block))))))"
  by (simp add: norm32_def sha_block_def map_idI)

lemma blocks_eval:
  "sha_blocks (numeral n) st ws = sha_blocks (pred_numeral n) (sha_block st (take 16 ws)) (drop 16 ws)"
  by (simp add: numeral_eq_Suc)

lemma replicate_eval: "replicate (numeral n) x = x # replicate (pred_numeral n) x"
  by (simp add: numeral_eq_Suc)

lemmas sha_eval =
  sha256_def sha_pad_def encode_ascii_def word_bytes_def norm32_eval rotr_eval update_eval block_eval
  small_sigma0_def small_sigma1_def big_sigma0_def big_sigma1_def sha_ch_def sha_maj_def sha256_k_def
  sha256_h0_def expand_eval expand_Suc_eval blocks_eval replicate_eval Let_def uint_be_def

declare sha_update.simps(1) [simp del] expand_schedule.simps(2) [simp del]

section \<open>Facts\<close>

lemma length_word_bytes [simp]: "length (word_bytes w ks) = length ks"
  by (simp add: word_bytes_def)

lemma uint_be_append: "uint_be (bs @ [b]) = uint_be bs * 256 + uint b"
  by (simp add: uint_be_def)

lemma uint_be_bounds: "0 \<le> uint_be bs \<and> uint_be bs < 256 ^ length bs"
proof (induction bs rule: rev_induct)
  case Nil
  then show ?case by (simp add: uint_be_def)
next
  case (snoc b bs)
  have "uint b < 256" using uint_lt2p [of b] by simp
  moreover have "0 \<le> uint b" by simp
  moreover have "uint_be bs + 1 \<le> 256 ^ length bs" using snoc by simp
  then have "uint_be bs * 256 + 256 \<le> 256 ^ length (bs @ [b])" by simp
  ultimately show ?case using snoc by (simp add: uint_be_append)
qed

end
