(* ===== verification/Shard_Assignment.thy ===== *)
theory Shard_Assignment
  imports Sha256
begin

text \<open>
  \<open>app/services/ws_sharding/assignment.py\<close>: every process computes from the registered
  symbols alone which shard streams which symbol.  A symbol's home shard is the first eight
  bytes of the SHA-256 digest of its normalised form modulo the number of shards; a full home
  shard overflows along a stable order of the others.  \<open>ceil(a / b)\<close> is the exact ceiling: the
  double quotient of two lengths below \<open>2 ^ 53\<close> has the same one.  A symbol that is not a
  \<open>str\<close> (the \<open>TypeError\<close> of \<open>normalize_symbol\<close>) is not in the type.
\<close>

section \<open>The code\<close>

record ws_settings =
  WS_NUM_SHARDS :: int
  BINANCE_WS_MAX_STREAMS_PER_CONNECTION :: int

definition normalize_symbol :: "string \<Rightarrow> py_exn + string" where
  "normalize_symbol symbol =
     (let clean = py_upper (py_strip symbol)
      in if clean = [] then Inl (ValueError ''Symbol cannot be empty or blank'') else Inr clean)"

definition get_shard_for_symbol :: "ws_settings \<Rightarrow> string \<Rightarrow> int option \<Rightarrow> py_exn + int" where
  "get_shard_for_symbol cfg symbol num_shards_arg =
     (let num_shards = (case num_shards_arg of None \<Rightarrow> WS_NUM_SHARDS cfg | Some n \<Rightarrow> n)
      in if num_shards \<le> 0 then Inl (ValueError ''num_shards must be a positive integer'')
         else case normalize_symbol symbol of
           Inl e \<Rightarrow> Inl e
         | Inr clean_symbol \<Rightarrow> Inr (uint_be (take 8 (sha256 (encode_ascii clean_symbol))) mod num_shards))"

text \<open>\<open>{normalize_symbol(s) for s in symbols}\<close>, as the list of the values before the set is built.\<close>

fun normalize_all :: "string list \<Rightarrow> py_exn + string list" where
  "normalize_all [] = Inr []"
| "normalize_all (s # ss) =
     (case normalize_symbol s of
        Inl e \<Rightarrow> Inl e
      | Inr c \<Rightarrow> (case normalize_all ss of Inl e \<Rightarrow> Inl e | Inr cs \<Rightarrow> Inr (c # cs)))"

text \<open>\<open>max_streams_per_shard or settings...\<close>: \<open>None\<close> and \<open>0\<close> are both falsy.\<close>

definition stream_capacity :: "ws_settings \<Rightarrow> int option \<Rightarrow> int" where
  "stream_capacity cfg m =
     (case m of Some c \<Rightarrow> if c \<noteq> 0 then c else BINANCE_WS_MAX_STREAMS_PER_CONNECTION cfg
      | None \<Rightarrow> BINANCE_WS_MAX_STREAMS_PER_CONNECTION cfg)"

definition ceil_div :: "int \<Rightarrow> int \<Rightarrow> int" where
  "ceil_div a b = - ((- a) div b)"

definition required_shard_count ::
  "ws_settings \<Rightarrow> string list \<Rightarrow> int option \<Rightarrow> int option \<Rightarrow> py_exn + int" where
  "required_shard_count cfg symbols max_streams minimum_shards =
     (let capacity = stream_capacity cfg max_streams;
          minimum = (case minimum_shards of None \<Rightarrow> WS_NUM_SHARDS cfg | Some n \<Rightarrow> n)
      in if capacity \<le> 0 then Inl (ValueError ''max_streams_per_shard must be positive'')
         else if minimum \<le> 0 then Inl (ValueError ''minimum_shards must be positive'')
         else case normalize_all symbols of
           Inl e \<Rightarrow> Inl e
         | Inr cs \<Rightarrow> Inr (max minimum (ceil_div (int (card (set cs))) capacity)))"

definition fallback_key :: "string \<Rightarrow> int \<Rightarrow> byte list" where
  "fallback_key symbol shard = sha256 (encode_ascii (symbol @ '':'' @ py_str_int shard))"

definition fallback_shards :: "ws_settings \<Rightarrow> string \<Rightarrow> int \<Rightarrow> py_exn + int list" where
  "fallback_shards cfg symbol num_shards =
     (case get_shard_for_symbol cfg symbol (Some num_shards) of
        Inl e \<Rightarrow> Inl e
      | Inr home \<Rightarrow>
          Inr (home # sort_key (fallback_key symbol) (filter (\<lambda>s. s \<noteq> home) [0..num_shards - 1])))"

text \<open>\<open>buckets\<close> is a dictionary on \<open>range(num_shards)\<close>: the list of its values in key order.\<close>

type_synonym buckets = "string list list"

fun place_symbol :: "int \<Rightarrow> string \<Rightarrow> int list \<Rightarrow> buckets \<Rightarrow> py_exn + buckets" where
  "place_symbol capacity clean [] bs =
     Inl (OtherException ''ShardCapacityError'')"
| "place_symbol capacity clean (shard # rest) bs =
     (if int (length (bs ! nat shard)) < capacity
      then Inr (bs[nat shard := bs ! nat shard @ [clean]])
      else place_symbol capacity clean rest bs)"

fun place_all :: "ws_settings \<Rightarrow> int \<Rightarrow> int \<Rightarrow> string list \<Rightarrow> buckets \<Rightarrow> py_exn + buckets" where
  "place_all cfg num_shards capacity [] bs = Inr bs"
| "place_all cfg num_shards capacity (clean # rest) bs =
     (case fallback_shards cfg clean num_shards of
        Inl e \<Rightarrow> Inl e
      | Inr order \<Rightarrow>
          (case place_symbol capacity clean order bs of
             Inl e \<Rightarrow> Inl e
           | Inr bs' \<Rightarrow> place_all cfg num_shards capacity rest bs'))"

definition assign_symbols_to_shards ::
  "ws_settings \<Rightarrow> string list \<Rightarrow> int option \<Rightarrow> int option \<Rightarrow> py_exn + buckets" where
  "assign_symbols_to_shards cfg symbols num_shards_arg max_streams =
     (let num_shards = (case num_shards_arg of None \<Rightarrow> WS_NUM_SHARDS cfg | Some n \<Rightarrow> n);
          capacity = stream_capacity cfg max_streams
      in if num_shards \<le> 0 then Inl (ValueError ''num_shards must be a positive integer'')
         else if capacity \<le> 0 then Inl (ValueError ''max_streams_per_shard must be positive'')
         else case normalize_all symbols of
           Inl e \<Rightarrow> Inl e
         | Inr cs \<Rightarrow>
             let normalized_symbols = sorted_list_of_set (set cs);
                 required = (if normalized_symbols \<noteq> []
                             then ceil_div (int (length normalized_symbols)) capacity else 0)
             in if required > num_shards then Inl (OtherException ''ShardCapacityError'')
                else case place_all cfg num_shards capacity normalized_symbols (replicate (nat num_shards) []) of
                  Inl e \<Rightarrow> Inl e
                | Inr bs \<Rightarrow> Inr (map sort bs))"

definition get_symbols_for_shard ::
  "ws_settings \<Rightarrow> string list \<Rightarrow> int \<Rightarrow> int option \<Rightarrow> int option \<Rightarrow> py_exn + string list" where
  "get_symbols_for_shard cfg symbols shard_id num_shards_arg max_streams =
     (let num_shards = (case num_shards_arg of None \<Rightarrow> WS_NUM_SHARDS cfg | Some n \<Rightarrow> n)
      in if shard_id < 0 \<or> shard_id \<ge> num_shards
         then Inl (ValueError ''shard_id is out of valid range'')
         else case assign_symbols_to_shards cfg symbols (Some num_shards) max_streams of
           Inl e \<Rightarrow> Inl e
         | Inr bs \<Rightarrow> Inr (bs ! nat shard_id))"

section \<open>Normalisation\<close>

definition canonical :: "string \<Rightarrow> string" where
  "canonical s = py_upper (py_strip s)"

definition canonical_set :: "string list \<Rightarrow> string set" where
  "canonical_set symbols = canonical ` set symbols"

lemma canonical_Nil_iff [simp]: "canonical s = [] \<longleftrightarrow> py_strip s = []"
  by (simp add: canonical_def)

lemma canonical_idem [simp]: "canonical (canonical s) = canonical s"
  by (simp add: canonical_def)

lemma normalize_symbol_Inr [simp]: "py_strip s \<noteq> [] \<Longrightarrow> normalize_symbol s = Inr (canonical s)"
  by (simp add: normalize_symbol_def canonical_def Let_def)

lemma normalize_symbol_Inl: "py_strip s = [] \<Longrightarrow> \<exists>e. normalize_symbol s = Inl e"
  by (simp add: normalize_symbol_def Let_def)

lemma normalize_symbol_canonical: "canonical s \<noteq> [] \<Longrightarrow> normalize_symbol (canonical s) = Inr (canonical s)"
  by (simp add: normalize_symbol_def canonical_def Let_def)

lemma normalize_all_Inr: "\<forall>s \<in> set ss. py_strip s \<noteq> [] \<Longrightarrow> normalize_all ss = Inr (map canonical ss)"
  by (induction ss) auto

lemma normalize_all_Inl: "\<exists>s \<in> set ss. py_strip s = [] \<Longrightarrow> \<exists>e. normalize_all ss = Inl e"
proof (induction ss)
  case (Cons s ss)
  show ?case
  proof (cases "py_strip s = []")
    case True
    then show ?thesis using normalize_symbol_Inl [of s] by auto
  next
    case False
    then show ?thesis using Cons by auto
  qed
qed simp

section \<open>One symbol finds a shard\<close>

lemma get_shard_canonical:
  assumes "0 < n" and "canonical s \<noteq> []"
  shows "get_shard_for_symbol cfg (canonical s) (Some n) =
           Inr (uint_be (take 8 (sha256 (encode_ascii (canonical s)))) mod n)"
  using assms by (simp add: get_shard_for_symbol_def normalize_symbol_canonical Let_def del: canonical_Nil_iff)

lemma fallback_shards_Inr:
  assumes "0 < n" and "canonical s \<noteq> []"
  obtains home order where
    "get_shard_for_symbol cfg (canonical s) (Some n) = Inr home"
    "fallback_shards cfg (canonical s) n = Inr (home # order)"
    "set (home # order) = {0..<n}"
proof -
  let ?h = "uint_be (take 8 (sha256 (encode_ascii (canonical s)))) mod n"
  have g: "get_shard_for_symbol cfg (canonical s) (Some n) = Inr ?h"
    by (rule get_shard_canonical [OF assms])
  have f: "fallback_shards cfg (canonical s) n =
      Inr (?h # sort_key (fallback_key (canonical s)) (filter (\<lambda>x. x \<noteq> ?h) [0..n - 1]))"
    by (simp add: fallback_shards_def g)
  have "?h \<in> {0..<n}" using assms(1) by simp
  then have "set (?h # sort_key (fallback_key (canonical s)) (filter (\<lambda>x. x \<noteq> ?h) [0..n - 1])) = {0..<n}"
    by auto
  with g f show ?thesis by (rule that)
qed

lemma place_symbol_Inr:
  assumes "\<exists>k \<in> set order. int (length (bs ! nat k)) < capacity"
  shows "\<exists>j \<in> set order. int (length (bs ! nat j)) < capacity \<and>
           place_symbol capacity c order bs = Inr (bs[nat j := bs ! nat j @ [c]])"
  using assms by (induction order) auto

lemma concat_snoc_mset:
  "j < length bs \<Longrightarrow> mset (concat (bs[j := bs ! j @ [c]])) = add_mset c (mset (concat bs))"
  by (induction bs arbitrary: j) (auto split: nat.splits)

lemma not_all_full:
  assumes "int (length (concat bs)) < int (length bs) * capacity"
  shows "\<exists>k < length bs. int (length (bs ! k)) < capacity"
proof (rule ccontr)
  assume "\<not> ?thesis"
  then have full: "\<forall>b \<in> set bs. capacity \<le> int (length b)"
    by (metis in_set_conv_nth not_less)
  have "int (length bs) * capacity \<le> int (length (concat bs))"
    using full by (induction bs) (auto simp: algebra_simps)
  with assms show False by simp
qed

section \<open>All symbols find a shard\<close>

text \<open>What the partial assignment satisfies after the symbols \<open>placed\<close>.\<close>

definition placed_ok :: "int \<Rightarrow> int \<Rightarrow> string list \<Rightarrow> buckets \<Rightarrow> bool" where
  "placed_ok n capacity placed bs \<longleftrightarrow>
     length bs = nat n \<and> (\<forall>b \<in> set bs. int (length b) \<le> capacity) \<and> mset (concat bs) = mset placed"

lemma placed_ok_step:
  assumes ok: "placed_ok n capacity placed bs" and n: "0 < n" and ne: "canonical c \<noteq> []"
    and room: "int (length placed) < n * capacity"
  obtains order bs' where "fallback_shards cfg (canonical c) n = Inr order"
    "place_symbol capacity (canonical c) order bs = Inr bs'"
    "placed_ok n capacity (placed @ [canonical c]) bs'"
proof -
  obtain home order where order: "fallback_shards cfg (canonical c) n = Inr (home # order)"
      "set (home # order) = {0..<n}"
    using fallback_shards_Inr [OF n ne] by metis
  have len: "length bs = nat n" and caps: "\<forall>b \<in> set bs. int (length b) \<le> capacity"
    and ms: "mset (concat bs) = mset placed"
    using ok by (simp_all add: placed_ok_def)
  have "length (concat bs) = length placed" using ms by (metis size_mset)
  then have "int (length (concat bs)) < int (length bs) * capacity"
    using room len n by simp
  then obtain k where k: "k < length bs" "int (length (bs ! k)) < capacity"
    using not_all_full by blast
  have "int k \<in> {0..<n}" using k(1) len by auto
  then have "\<exists>k \<in> set (home # order). int (length (bs ! nat k)) < capacity"
    unfolding order(2) using k(2) by (intro bexI [of _ "int k"]) auto
  from place_symbol_Inr [OF this, of "canonical c"] obtain j where j: "j \<in> {0..<n}"
      "int (length (bs ! nat j)) < capacity"
      "place_symbol capacity (canonical c) (home # order) bs = Inr (bs[nat j := bs ! nat j @ [canonical c]])"
    unfolding order(2) by blast
  have jl: "nat j < length bs" using j(1) len by auto
  have "\<forall>b \<in> set (bs[nat j := bs ! nat j @ [canonical c]]). int (length b) \<le> capacity"
    using caps j(2) set_update_subset_insert [of bs "nat j" "bs ! nat j @ [canonical c]"] by auto
  then have "placed_ok n capacity (placed @ [canonical c]) (bs[nat j := bs ! nat j @ [canonical c]])"
    using len ms concat_snoc_mset [OF jl] by (simp add: placed_ok_def)
  with order(1) j(3) show ?thesis by (rule that)
qed

lemma place_all_Inr:
  assumes "placed_ok n capacity placed bs" and "0 < n" and "\<forall>c \<in> set cs. c \<noteq> [] \<and> canonical c = c"
    and "int (length placed + length cs) \<le> n * capacity"
  shows "\<exists>bs'. place_all cfg n capacity cs bs = Inr bs' \<and> placed_ok n capacity (placed @ cs) bs'"
  using assms
proof (induction cs arbitrary: placed bs)
  case Nil
  then show ?case by simp
next
  case (Cons c cs)
  have c: "canonical c = c" "canonical c \<noteq> []" using Cons.prems(3) by auto
  have "int (length placed) < n * capacity" using Cons.prems(4) by simp
  then obtain order bs1 where s: "fallback_shards cfg (canonical c) n = Inr order"
      "place_symbol capacity (canonical c) order bs = Inr bs1"
      "placed_ok n capacity (placed @ [canonical c]) bs1"
    using placed_ok_step [OF Cons.prems(1,2) c(2)] by metis
  have "\<exists>bs'. place_all cfg n capacity cs bs1 = Inr bs' \<and> placed_ok n capacity ((placed @ [c]) @ cs) bs'"
    using Cons.prems s(3) c(1) by (intro Cons.IH) auto
  then show ?case using s(1,2) c(1) by auto
qed

lemma placed_ok_empty: "0 < capacity \<Longrightarrow> placed_ok n capacity [] (replicate (nat n) [])"
  by (simp add: placed_ok_def)

lemma div_less_iff_pos: "0 < b \<Longrightarrow> x div b < k \<longleftrightarrow> x < k * (b :: int)"
proof
  assume b: "0 < b" and "x div b < k"
  then have "(x div b + 1) * b \<le> k * b" by (intro mult_right_mono) auto
  moreover have "x < (x div b + 1) * b"
    using b pos_mod_bound [OF b, of x] by (simp add: algebra_simps flip: minus_mod_eq_mult_div)
  ultimately show "x < k * b" by simp
next
  assume b: "0 < b" and less: "x < k * b"
  show "x div b < k"
  proof (rule ccontr)
    assume "\<not> x div b < k"
    then have "k * b \<le> x div b * b" using b by (intro mult_right_mono) auto
    also have "\<dots> \<le> x" using b by (simp add: algebra_simps flip: minus_mod_eq_mult_div)
    finally show False using less by simp
  qed
qed

lemma ceil_div_gt_iff: "0 < b \<Longrightarrow> ceil_div a b > n \<longleftrightarrow> a > n * b"
  using div_less_iff_pos [of b "- a" "- n"] by (auto simp: ceil_div_def)

lemma mset_concat_sort: "mset (concat (map sort bs)) = mset (concat bs)"
  by (induction bs) simp_all

lemma sorted_canonical_list:
  "set (sorted_list_of_set (canonical_set symbols)) = canonical_set symbols"
  "length (sorted_list_of_set (canonical_set symbols)) = card (canonical_set symbols)"
  by (simp_all add: canonical_set_def)

lemma assign_symbols_unfold:
  assumes "\<forall>s \<in> set symbols. py_strip s \<noteq> []" and n: "0 < n" and cap: "0 < stream_capacity cfg m"
  shows "assign_symbols_to_shards cfg symbols (Some n) m =
    (if int (card (canonical_set symbols)) > n * stream_capacity cfg m
     then Inl (OtherException ''ShardCapacityError'')
     else case place_all cfg n (stream_capacity cfg m) (sorted_list_of_set (canonical_set symbols))
                 (replicate (nat n) []) of
            Inl e \<Rightarrow> Inl e | Inr bs \<Rightarrow> Inr (map sort bs))"
proof -
  let ?l = "sorted_list_of_set (canonical_set symbols)"
  have "(if ?l \<noteq> [] then ceil_div (int (length ?l)) (stream_capacity cfg m) else 0) > n
        \<longleftrightarrow> int (card (canonical_set symbols)) > n * stream_capacity cfg m"
  proof (cases "?l = []")
    case True
    then have "card (canonical_set symbols) = 0" by (metis list.size(3) sorted_canonical_list(2))
    with n cap True show ?thesis by (simp add: not_less)
  next
    case False
    then show ?thesis using ceil_div_gt_iff [OF cap] by (simp add: sorted_canonical_list)
  qed
  moreover have "set (map canonical symbols) = canonical_set symbols"
    by (simp add: canonical_set_def)
  ultimately show ?thesis
    using n cap
    by (simp only: assign_symbols_to_shards_def normalize_all_Inr [OF assms(1)] Let_def sum.case option.case
        not_le [symmetric] if_False not_less)
qed

lemma assign_symbols_Inr:
  assumes valid: "\<forall>s \<in> set symbols. py_strip s \<noteq> []" and n: "0 < n" and cap: "0 < stream_capacity cfg m"
    and fits: "int (card (canonical_set symbols)) \<le> n * stream_capacity cfg m"
  obtains bs where "assign_symbols_to_shards cfg symbols (Some n) m = Inr bs"
    "length bs = nat n" "set (concat bs) = canonical_set symbols" "distinct (concat bs)"
    "\<forall>b \<in> set bs. sorted b \<and> int (length b) \<le> stream_capacity cfg m"
proof -
  let ?l = "sorted_list_of_set (canonical_set symbols)" and ?cap = "stream_capacity cfg m"
  have "\<forall>c \<in> set ?l. c \<noteq> [] \<and> canonical c = c"
    using valid by (auto simp: canonical_set_def)
  moreover have "int (length [] + length ?l) \<le> n * ?cap"
    using fits by (simp only: sorted_canonical_list list.size add_0)
  ultimately obtain bs where bs: "place_all cfg n ?cap ?l (replicate (nat n) []) = Inr bs"
      "placed_ok n ?cap ([] @ ?l) bs"
    using place_all_Inr [OF placed_ok_empty [OF cap] n] by blast
  have ms: "mset (concat (map sort bs)) = mset ?l"
    using bs(2) by (simp only: mset_concat_sort placed_ok_def append_Nil)
  show ?thesis
  proof (rule that)
    show "assign_symbols_to_shards cfg symbols (Some n) m = Inr (map sort bs)"
      using fits bs(1) by (simp only: assign_symbols_unfold [OF valid n cap]) simp
    show "length (map sort bs) = nat n" using bs(2) by (simp add: placed_ok_def)
    show "set (concat (map sort bs)) = canonical_set symbols"
      using ms sorted_canonical_list(1) by (metis set_mset_mset)
    show "distinct (concat (map sort bs))"
      using ms by (metis distinct_sorted_list_of_set mset_eq_imp_distinct_iff)
    show "\<forall>b \<in> set (map sort bs). sorted b \<and> int (length b) \<le> ?cap"
      using bs(2) by (auto simp: placed_ok_def)
  qed
qed

text \<open>
  C27: For non-blank symbols and a positive shard count and capacity, the assignment fails with
  \<open>ShardCapacityError\<close> exactly when the distinct normalised symbols exceed
  \<open>num_shards * capacity\<close>; otherwise it succeeds (the defensive branch is unreachable), has one
  bucket per shard, puts every normalised symbol into exactly one bucket and nothing else, and
  every bucket is sorted and within the capacity.
\<close>

theorem assign_symbols_correct:
  assumes "\<forall>s \<in> set symbols. py_strip s \<noteq> []" and "0 < n" and "0 < stream_capacity cfg m"
  shows "if int (card (canonical_set symbols)) \<le> n * stream_capacity cfg m
         then \<exists>bs. assign_symbols_to_shards cfg symbols (Some n) m = Inr bs \<and> length bs = nat n
                 \<and> set (concat bs) = canonical_set symbols \<and> distinct (concat bs)
                 \<and> (\<forall>b \<in> set bs. sorted b \<and> int (length b) \<le> stream_capacity cfg m)
         else assign_symbols_to_shards cfg symbols (Some n) m = Inl (OtherException ''ShardCapacityError'')"
proof (cases "int (card (canonical_set symbols)) \<le> n * stream_capacity cfg m")
  case True
  from assign_symbols_Inr [OF assms True] show ?thesis using True by metis
next
  case False
  then show ?thesis using assign_symbols_unfold [OF assms] by simp
qed

definition example_ws :: ws_settings where
  "example_ws = \<lparr>WS_NUM_SHARDS = 8, BINANCE_WS_MAX_STREAMS_PER_CONNECTION = 1024\<rparr>"

lemma assign_symbols_correct_witness:
  "\<exists>bs. assign_symbols_to_shards example_ws ['' btcusdt'', ''ETHUSDT'', ''BTCUSDT ''] (Some 2) (Some 1) = Inr bs
      \<and> length bs = 2 \<and> set (concat bs) = {''BTCUSDT'', ''ETHUSDT''}"
proof -
  have c: "canonical_set ['' btcusdt'', ''ETHUSDT'', ''BTCUSDT ''] = {''BTCUSDT'', ''ETHUSDT''}"
    by code_simp
  have "int (card {''BTCUSDT'', ''ETHUSDT''}) \<le> 2 * stream_capacity example_ws (Some 1)"
    by (simp add: stream_capacity_def)
  moreover have "\<forall>s \<in> set ['' btcusdt'', ''ETHUSDT'', ''BTCUSDT '']. py_strip s \<noteq> []"
    by (simp add: py_strip_def py_isspace_def)
  moreover have "0 < stream_capacity example_ws (Some 1)" by (simp add: stream_capacity_def)
  ultimately show ?thesis
    using assign_symbols_correct [of "['' btcusdt'', ''ETHUSDT'', ''BTCUSDT '']" 2 example_ws "Some 1"]
    unfolding c by auto
qed

section \<open>Supervisors with the same registry agree\<close>

lemma assign_symbols_InrD:
  assumes "assign_symbols_to_shards cfg symbols (Some n) m = Inr bs"
  shows "0 < n" and "0 < stream_capacity cfg m" and "\<forall>s \<in> set symbols. py_strip s \<noteq> []"
    and "int (card (canonical_set symbols)) \<le> n * stream_capacity cfg m"
proof -
  show n: "0 < n" using assms by (auto simp: assign_symbols_to_shards_def Let_def split: if_splits)
  show cap: "0 < stream_capacity cfg m"
    using assms by (auto simp: assign_symbols_to_shards_def Let_def split: if_splits)
  show valid: "\<forall>s \<in> set symbols. py_strip s \<noteq> []"
  proof (rule ccontr)
    assume "\<not> ?thesis"
    then obtain e where "normalize_all symbols = Inl e" using normalize_all_Inl by blast
    with assms show False by (auto simp: assign_symbols_to_shards_def Let_def split: if_splits)
  qed
  show "int (card (canonical_set symbols)) \<le> n * stream_capacity cfg m"
    using assms assign_symbols_unfold [OF valid n cap] by (auto split: if_splits)
qed

lemma distinct_concat_disjoint:
  assumes "distinct (concat bs)" and "i < length bs" and "j < length bs" and "i \<noteq> j"
  shows "set (bs ! i) \<inter> set (bs ! j) = {}"
  using assms
proof (induction bs arbitrary: i j)
  case (Cons b bs)
  have sub: "k < length bs \<Longrightarrow> set (bs ! k) \<subseteq> set (concat bs)" for k
    by (auto intro: nth_mem)
  show ?case
  proof (cases i; cases j)
    fix i' j' assume "i = Suc i'" "j = Suc j'"
    then show ?thesis using Cons by auto
  next
    fix j' assume "i = 0" "j = Suc j'"
    then show ?thesis using Cons.prems sub [of j'] by auto
  next
    fix i' assume "i = Suc i'" "j = 0"
    then show ?thesis using Cons.prems sub [of i'] by auto
  next
    assume "i = 0" "j = 0"
    then show ?thesis using Cons.prems by simp
  qed
qed simp

lemma get_symbols_InrD:
  assumes "get_symbols_for_shard cfg symbols k (Some n) m = Inr a"
  obtains bs where "assign_symbols_to_shards cfg symbols (Some n) m = Inr bs"
    "a = bs ! nat k" "0 \<le> k" "k < n"
  using assms by (auto simp: get_symbols_for_shard_def Let_def split: if_splits sum.splits)

lemma assign_symbols_cong:
  assumes "canonical_set xs = canonical_set ys"
    and "assign_symbols_to_shards cfg xs (Some n) m = Inr bs"
    and "assign_symbols_to_shards cfg ys (Some n) m = Inr bs'"
  shows "bs = bs'"
proof -
  note x = assign_symbols_InrD [OF assms(2)] and y = assign_symbols_InrD [OF assms(3)]
  have "assign_symbols_to_shards cfg xs (Some n) m = assign_symbols_to_shards cfg ys (Some n) m"
    by (simp only: assign_symbols_unfold [OF x(3,1,2)] assign_symbols_unfold [OF y(3,1,2)] assms(1))
  then show ?thesis using assms by simp
qed

text \<open>
  Two supervisors that read the same set of symbols, in whatever order, spelling and
  multiplicity, compute the same stream list for the same shard and disjoint lists for
  different shards, so no symbol is streamed by two shards.
\<close>

theorem shards_agree_and_are_disjoint:
  assumes "canonical_set xs = canonical_set ys"
    and "get_symbols_for_shard cfg xs i (Some n) m = Inr a"
    and "get_symbols_for_shard cfg ys j (Some n) m = Inr b"
  shows "if i = j then a = b else set a \<inter> set b = {}"
proof -
  obtain bs where bs: "assign_symbols_to_shards cfg xs (Some n) m = Inr bs" "a = bs ! nat i" "0 \<le> i" "i < n"
    using assms(2) by (rule get_symbols_InrD)
  obtain bs' where bs': "assign_symbols_to_shards cfg ys (Some n) m = Inr bs'" "b = bs' ! nat j" "0 \<le> j" "j < n"
    using assms(3) by (rule get_symbols_InrD)
  have eq: "bs' = bs" using assign_symbols_cong [OF assms(1) bs(1) bs'(1)] by simp
  note d = assign_symbols_InrD [OF bs(1)]
  obtain cs where "assign_symbols_to_shards cfg xs (Some n) m = Inr cs" "length cs = nat n" "distinct (concat cs)"
    using assign_symbols_Inr [OF d(3,1,2,4)] by metis
  with bs(1) have "length bs = nat n" "distinct (concat bs)" by simp_all
  then show ?thesis
    using distinct_concat_disjoint [of bs "nat i" "nat j"] bs bs' eq by auto
qed

lemma shards_agree_and_are_disjoint_witness:
  "\<exists>a b. get_symbols_for_shard example_ws [''btcusdt'', ''ETHUSDT''] 0 (Some 2) None = Inr a
       \<and> get_symbols_for_shard example_ws [''ETHUSDT'', '' BTCUSDT''] 1 (Some 2) None = Inr b
       \<and> set a \<inter> set b = {}"
proof -
  have v: "\<forall>s \<in> set [''btcusdt'', ''ETHUSDT'']. py_strip s \<noteq> []"
      "\<forall>s \<in> set [''ETHUSDT'', '' BTCUSDT'']. py_strip s \<noteq> []"
    by (simp_all add: py_strip_def py_isspace_def)
  have c: "canonical_set [''btcusdt'', ''ETHUSDT''] = {''BTCUSDT'', ''ETHUSDT''}"
      "canonical_set [''ETHUSDT'', '' BTCUSDT''] = {''BTCUSDT'', ''ETHUSDT''}"
    by code_simp+
  have f: "int (card {''BTCUSDT'', ''ETHUSDT''}) \<le> 2 * stream_capacity example_ws None"
    "0 < stream_capacity example_ws None" by (simp_all add: stream_capacity_def example_ws_def)
  obtain bs where "assign_symbols_to_shards example_ws [''btcusdt'', ''ETHUSDT''] (Some 2) None = Inr bs"
    using assign_symbols_Inr [OF v(1) _ f(2)] f(1) c(1) by (metis zero_less_numeral)
  moreover obtain bs' where "assign_symbols_to_shards example_ws [''ETHUSDT'', '' BTCUSDT''] (Some 2) None = Inr bs'"
    using assign_symbols_Inr [OF v(2) _ f(2)] f(1) c(2) by (metis zero_less_numeral)
  ultimately have g: "get_symbols_for_shard example_ws [''btcusdt'', ''ETHUSDT''] 0 (Some 2) None = Inr (bs ! nat 0)"
      "get_symbols_for_shard example_ws [''ETHUSDT'', '' BTCUSDT''] 1 (Some 2) None = Inr (bs' ! nat 1)"
    by (simp_all add: get_symbols_for_shard_def)
  show ?thesis using shards_agree_and_are_disjoint [OF _ g] c g by auto
qed

section \<open>Without overflow every symbol is at home\<close>

definition at_home :: "ws_settings \<Rightarrow> int \<Rightarrow> int \<Rightarrow> string \<Rightarrow> bool" where
  "at_home cfg n k c \<longleftrightarrow> get_shard_for_symbol cfg c (Some n) = Inr k"

lemma place_all_home:
  assumes "\<forall>k \<in> {0..<n}. int (card {c \<in> set (placed @ cs). at_home cfg n k c}) \<le> capacity"
    and "0 < n" and "distinct (placed @ cs)" and "\<forall>c \<in> set cs. c \<noteq> [] \<and> canonical c = c"
    and "bs = map (\<lambda>k. filter (at_home cfg n (int k)) placed) [0..<nat n]"
  shows "place_all cfg n capacity cs bs =
           Inr (map (\<lambda>k. filter (at_home cfg n (int k)) (placed @ cs)) [0..<nat n])"
  using assms
proof (induction cs arbitrary: placed bs)
  case Nil
  then show ?case by simp
next
  case (Cons c cs)
  have c: "canonical c = c" "canonical c \<noteq> []" using Cons.prems(4) by auto
  obtain h order where h: "get_shard_for_symbol cfg c (Some n) = Inr h"
      "fallback_shards cfg c n = Inr (h # order)" "set (h # order) = {0..<n}"
    using fallback_shards_Inr [OF Cons.prems(2) c(2)] unfolding c(1) by metis
  have hr: "h \<in> {0..<n}" using h(3) by auto
  then have bsh: "bs ! nat h = filter (at_home cfg n h) placed" using Cons.prems(5) by simp
  have "card (insert c {x \<in> set placed. at_home cfg n h x})
          \<le> card {x \<in> set (placed @ c # cs). at_home cfg n h x}"
    using h(1) by (intro card_mono) (auto simp: at_home_def)
  also have "int \<dots> \<le> capacity" using Cons.prems(1) hr by blast
  finally have "int (card (insert c {x \<in> set placed. at_home cfg n h x})) \<le> capacity" by simp
  moreover have "c \<notin> {x \<in> set placed. at_home cfg n h x}" using Cons.prems(3) by auto
  moreover have "length (bs ! nat h) = card {x \<in> set placed. at_home cfg n h x}"
    using Cons.prems(3) unfolding bsh by (simp add: distinct_length_filter Int_def conj_commute)
  ultimately have "int (length (bs ! nat h)) < capacity" by simp
  then have placed: "place_symbol capacity c (h # order) bs = Inr (bs[nat h := bs ! nat h @ [c]])" by simp
  have "bs[nat h := bs ! nat h @ [c]] = map (\<lambda>k. filter (at_home cfg n (int k)) (placed @ [c])) [0..<nat n]"
  proof (rule nth_equalityI)
    fix k assume "k < length (bs[nat h := bs ! nat h @ [c]])"
    then have k: "k < nat n" using Cons.prems(5) by simp
    have "at_home cfg n (int k) c \<longleftrightarrow> k = nat h" using h(1) hr by (auto simp: at_home_def)
    then show "bs[nat h := bs ! nat h @ [c]] ! k =
        map (\<lambda>k. filter (at_home cfg n (int k)) (placed @ [c])) [0..<nat n] ! k"
      using k hr Cons.prems(5) by (cases "k = nat h") auto
  qed (simp add: Cons.prems(5))
  then have "place_all cfg n capacity cs (bs[nat h := bs ! nat h @ [c]]) =
      Inr (map (\<lambda>k. filter (at_home cfg n (int k)) ((placed @ [c]) @ cs)) [0..<nat n])"
    using Cons.prems by (intro Cons.IH) auto
  then show ?case using h(2) placed by simp
qed

lemma card_homes:
  assumes "0 < n" and "\<forall>c \<in> S. c \<noteq> [] \<and> canonical c = c" and "finite S"
    and "\<forall>k \<in> {0..<n}. int (card {c \<in> S. at_home cfg n k c}) \<le> capacity"
  shows "int (card S) \<le> n * capacity"
proof -
  let ?home = "\<lambda>c. uint_be (take 8 (sha256 (encode_ascii c))) mod n"
  have home: "at_home cfg n k c \<longleftrightarrow> ?home c = k" if "c \<in> S" for c k
    using get_shard_canonical [OF assms(1), of c cfg] assms(2) that by (simp add: at_home_def)
  have "S = (\<Union>k \<in> {0..<n}. {c \<in> S. at_home cfg n k c})"
    using home assms(1) by (auto simp: pos_mod_bound)
  then have "card S = card (\<Union>k \<in> {0..<n}. {c \<in> S. at_home cfg n k c})" by (rule arg_cong)
  also have "\<dots> \<le> (\<Sum>k \<in> {0..<n}. card {c \<in> S. at_home cfg n k c})"
    by (rule card_UN_le) simp
  finally have "card S \<le> (\<Sum>k \<in> {0..<n}. card {c \<in> S. at_home cfg n k c})" .
  then have "int (card S) \<le> (\<Sum>k \<in> {0..<n}. int (card {c \<in> S. at_home cfg n k c}))"
    by (metis (no_types, lifting) of_nat_le_iff of_nat_sum sum.cong)
  also have "\<dots> \<le> (\<Sum>k \<in> {0..<n}. capacity)" using assms(4) by (intro sum_mono) auto
  also have "\<dots> = n * capacity" using assms(1) by simp
  finally show ?thesis .
qed

text \<open>
  As long as no home shard is over-subscribed, the capacity-aware assignment is the plain
  hash: a shard streams exactly the symbols whose home it is, in order, whatever the other
  symbols are.
\<close>

theorem assignment_is_home:
  assumes "\<forall>s \<in> set symbols. py_strip s \<noteq> []" and "0 < stream_capacity cfg m" and "k \<in> {0..<n}"
    and "\<forall>k \<in> {0..<n}. int (card {c \<in> canonical_set symbols. at_home cfg n k c}) \<le> stream_capacity cfg m"
  shows "get_symbols_for_shard cfg symbols k (Some n) m =
           Inr (sorted_list_of_set {c \<in> canonical_set symbols. at_home cfg n k c})"
proof -
  let ?l = "sorted_list_of_set (canonical_set symbols)" and ?cap = "stream_capacity cfg m"
  have n: "0 < n" using assms(3) by auto
  have can: "\<forall>c \<in> canonical_set symbols. c \<noteq> [] \<and> canonical c = c"
    using assms(1) by (auto simp: canonical_set_def)
  have fits: "int (card (canonical_set symbols)) \<le> n * ?cap"
    by (rule card_homes [OF n can _ assms(4)]) (simp add: canonical_set_def)
  have "replicate (nat n) [] = map (\<lambda>k. filter (at_home cfg n (int k)) []) [0..<nat n]"
    by (simp add: map_replicate_const)
  then have "place_all cfg n ?cap ?l (replicate (nat n) []) =
      Inr (map (\<lambda>k. filter (at_home cfg n (int k)) ([] @ ?l)) [0..<nat n])"
    using assms(4) can n by (intro place_all_home) (simp_all add: sorted_canonical_list)
  then have "assign_symbols_to_shards cfg symbols (Some n) m =
      Inr (map sort (map (\<lambda>k. filter (at_home cfg n (int k)) ?l) [0..<nat n]))"
    using fits by (simp only: assign_symbols_unfold [OF assms(1) n assms(2)]) simp
  moreover have "sort (filter (at_home cfg n k) ?l) = sorted_list_of_set {c \<in> canonical_set symbols. at_home cfg n k c}"
    by (rule sorted_list_of_set.idem_if_sorted_distinct [symmetric, THEN trans])
       (simp_all add: sorted_canonical_list sorted_filter sort_key_id_if_sorted)
  ultimately show ?thesis
    using assms(3) by (simp add: get_symbols_for_shard_def)
qed

lemma assignment_is_home_witness:
  "get_symbols_for_shard example_ws [''btcusdt'', ''ETHUSDT''] 3 (Some 8) None =
     Inr (sorted_list_of_set {c \<in> {''BTCUSDT'', ''ETHUSDT''}. at_home example_ws 8 3 c})"
proof -
  have c: "canonical_set [''btcusdt'', ''ETHUSDT''] = {''BTCUSDT'', ''ETHUSDT''}" by code_simp
  have "\<forall>k \<in> {0..<8}. int (card {c \<in> {''BTCUSDT'', ''ETHUSDT''}. at_home example_ws 8 k c})
          \<le> stream_capacity example_ws None"
  proof
    fix k
    have "card {c \<in> {''BTCUSDT'', ''ETHUSDT''}. at_home example_ws 8 k c} \<le> card {''BTCUSDT'', ''ETHUSDT''}"
      by (rule card_mono) auto
    then show "int (card {c \<in> {''BTCUSDT'', ''ETHUSDT''}. at_home example_ws 8 k c})
          \<le> stream_capacity example_ws None"
      by (simp add: stream_capacity_def example_ws_def)
  qed
  moreover have "\<forall>s \<in> set [''btcusdt'', ''ETHUSDT'']. py_strip s \<noteq> []"
    by (simp add: py_strip_def py_isspace_def)
  ultimately show ?thesis
    using assignment_is_home [of "[''btcusdt'', ''ETHUSDT'']" example_ws None 3 8]
    unfolding c by (simp add: stream_capacity_def example_ws_def)
qed

section \<open>The preflight of the supervisor\<close>

text \<open>A shard count that \<open>required_shard_count\<close> accepts never runs out of capacity.\<close>

lemma required_shard_count_suffices:
  assumes "required_shard_count cfg symbols m (Some 1) = Inr r" and "r \<le> n"
  shows "\<exists>bs. assign_symbols_to_shards cfg symbols (Some n) m = Inr bs"
proof -
  have cap: "0 < stream_capacity cfg m"
    using assms(1) by (auto simp: required_shard_count_def Let_def split: if_splits)
  have valid: "\<forall>s \<in> set symbols. py_strip s \<noteq> []"
  proof (rule ccontr)
    assume "\<not> ?thesis"
    then obtain e where "normalize_all symbols = Inl e" using normalize_all_Inl by blast
    with assms(1) show False by (auto simp: required_shard_count_def Let_def split: if_splits)
  qed
  have r: "r = max 1 (ceil_div (int (card (canonical_set symbols))) (stream_capacity cfg m))"
    using assms(1) cap by (simp add: required_shard_count_def normalize_all_Inr [OF valid] canonical_set_def Let_def)
  have n: "0 < n" using r assms(2) by simp
  have "int (card (canonical_set symbols)) \<le> n * stream_capacity cfg m"
    using ceil_div_gt_iff [OF cap, of n "int (card (canonical_set symbols))"] r assms(2) by auto
  from assign_symbols_Inr [OF valid n cap this] show ?thesis by metis
qed

text \<open>A known answer: the home of \<open>BTCUSDT\<close> among the eight default shards.\<close>

lemma home_of_BTCUSDT: "get_shard_for_symbol example_ws ''btcusdt '' None = Inr 1"
proof -
  have "uint_be (take 8 (sha256 (encode_ascii ''BTCUSDT''))) = 1849315537067129065"
    by (simp add: sha_eval)
  moreover have "normalize_symbol ''btcusdt '' = Inr ''BTCUSDT''" by code_simp
  ultimately show ?thesis by (simp add: get_shard_for_symbol_def example_ws_def)
qed

end
