(* ===== verification/Shard_Lease.thy ===== *)
theory Shard_Lease
  imports Ingestion
begin

text \<open>
  \<open>ws_sharding/lease.py\<close> and \<open>persistence_fence.py\<close>: the Redis lease that says which worker
  may stream a shard, the generation counter behind it, and the PostgreSQL row that fences the
  writes of older generations.

  Redis keeps, per shard, the lease value with its expiry and the counter of generations; the
  two keys of a shard never collide, so the store is a pair of maps.  A Lua script runs
  atomically.  A call can fail without effect, or take effect and lose its answer; the client
  sees the same exception.  Times are microseconds.  The JSON text of a lease value is the
  claim it encodes (generations stay below the \<open>1e14\<close> that \<open>cjson\<close> prints exactly).
\<close>

section \<open>Redis leases\<close>

record lease_claim =
  cl_shard :: int
  cl_worker :: string
  cl_token :: string
  cl_claimed_at :: usec
  cl_expires_at :: usec
  fencing_token :: int

record redis =
  r_leases :: "int \<Rightarrow> (lease_claim \<times> usec) option"
  r_fences :: "int \<Rightarrow> int"

datatype fault = NoFault | NoEffect | AnswerLost

abbreviation redis_unavailable :: py_exn where
  "redis_unavailable \<equiv> OtherException ''RedisUnavailableError''"

text \<open>\<open>GET\<close> and \<open>EXISTS\<close>: an expired key is gone.\<close>

definition redis_get :: "usec \<Rightarrow> int \<Rightarrow> redis \<Rightarrow> lease_claim option" where
  "redis_get now shard r =
     (case r_leases r shard of None \<Rightarrow> None | Some (c, expiry) \<Rightarrow> if now < expiry then Some c else None)"

text \<open>
  \<open>ACQUIRE_LEASE_LUA\<close>.  \<open>SET ... PX\<close> rejects a non-positive time to live, after \<open>INCR\<close> has
  taken effect; \<open>EXISTS\<close> has removed an expired key.
\<close>

definition acquire_lua :: "usec \<Rightarrow> int \<Rightarrow> lease_claim \<Rightarrow> int \<Rightarrow> redis \<Rightarrow> (py_exn + int) \<times> redis" where
  "acquire_lua now shard claim ttl_ms r =
     (if redis_get now shard r \<noteq> None then (Inr 0, r)
      else let t = r_fences r shard + 1;
               r1 = r\<lparr>r_fences := (r_fences r)(shard := t), r_leases := (r_leases r)(shard := None)\<rparr>
           in if ttl_ms \<le> 0 then (Inl (OtherException ''ResponseError''), r1)
              else (Inr t, r1\<lparr>r_leases := (r_leases r)(shard := Some (claim\<lparr>fencing_token := t\<rparr>, now + ttl_ms * 1000))\<rparr>))"

definition claim_matches :: "lease_claim \<Rightarrow> string \<Rightarrow> int \<Rightarrow> bool" where
  "claim_matches stored token fence \<longleftrightarrow> cl_token stored = token \<and> fencing_token stored = fence"

text \<open>\<open>RENEW_LEASE_LUA\<close>; \<open>PEXPIRE\<close> with a non-positive time to live deletes the key and returns 1.\<close>

definition renew_lua :: "usec \<Rightarrow> int \<Rightarrow> string \<Rightarrow> int \<Rightarrow> int \<Rightarrow> redis \<Rightarrow> int \<times> redis" where
  "renew_lua now shard token fence ttl_ms r =
     (case redis_get now shard r of
        None \<Rightarrow> (0, r)
      | Some stored \<Rightarrow>
          if claim_matches stored token fence
          then (1, r\<lparr>r_leases := (r_leases r)(shard :=
                       if ttl_ms \<le> 0 then None else Some (stored, now + ttl_ms * 1000))\<rparr>)
          else (0, r))"

text \<open>\<open>RELEASE_LEASE_LUA\<close>.\<close>

definition release_lua :: "usec \<Rightarrow> int \<Rightarrow> string \<Rightarrow> int \<Rightarrow> redis \<Rightarrow> int \<times> redis" where
  "release_lua now shard token fence r =
     (case redis_get now shard r of
        None \<Rightarrow> (0, r)
      | Some stored \<Rightarrow>
          if claim_matches stored token fence
          then (1, r\<lparr>r_leases := (r_leases r)(shard := None)\<rparr>)
          else (0, r))"

text \<open>The client side of a call under a fault.\<close>

definition redis_call :: "fault \<Rightarrow> ((py_exn + 'a) \<times> redis) \<Rightarrow> redis \<Rightarrow> (py_exn + 'a) \<times> redis" where
  "redis_call f answer r =
     (case f of
        NoFault \<Rightarrow> answer
      | NoEffect \<Rightarrow> (Inl redis_unavailable, r)
      | AnswerLost \<Rightarrow> (Inl redis_unavailable, snd answer))"

text \<open>\<open>acquire_shard_lease\<close>; every exception of the call becomes \<open>RedisUnavailableError\<close>.\<close>

definition acquire_shard_lease ::
  "fault \<Rightarrow> usec \<Rightarrow> string \<Rightarrow> int \<Rightarrow> string \<Rightarrow> int \<Rightarrow> redis \<Rightarrow> (py_exn + lease_claim option) \<times> redis" where
  "acquire_shard_lease f now uuid shard worker ttl_ms r =
     (let claim = \<lparr>cl_shard = shard, cl_worker = worker, cl_token = uuid, cl_claimed_at = now,
                    cl_expires_at = now + ttl_ms * 1000, fencing_token = 0\<rparr>
      in case redis_call f (acquire_lua now shard claim ttl_ms r) r of
           (Inl e, r') \<Rightarrow> (Inl redis_unavailable, r')
         | (Inr t, r') \<Rightarrow>
             if t \<noteq> 0 then (Inr (Some (claim\<lparr>fencing_token := t\<rparr>)), r') else (Inr None, r'))"

definition renew_shard_lease ::
  "fault \<Rightarrow> usec \<Rightarrow> int \<Rightarrow> lease_claim \<Rightarrow> int \<Rightarrow> redis \<Rightarrow> (py_exn + bool) \<times> redis" where
  "renew_shard_lease f now shard claim ttl_ms r =
     redis_call f (case renew_lua now shard (cl_token claim) (fencing_token claim) ttl_ms r of
                     (n, r') \<Rightarrow> (Inr (n = 1), r')) r"

text \<open>Release is best effort: an exception is logged and reported as \<open>False\<close>.\<close>

definition release_shard_lease ::
  "fault \<Rightarrow> usec \<Rightarrow> int \<Rightarrow> lease_claim \<Rightarrow> redis \<Rightarrow> bool \<times> redis" where
  "release_shard_lease f now shard claim r =
     (case redis_call f (case release_lua now shard (cl_token claim) (fencing_token claim) r of
                           (n, r') \<Rightarrow> (Inr (n = 1), r')) r of
        (Inl e, r') \<Rightarrow> (False, r')
      | (Inr b, r') \<Rightarrow> (b, r'))"

definition get_current_owner :: "fault \<Rightarrow> usec \<Rightarrow> int \<Rightarrow> redis \<Rightarrow> py_exn + lease_claim option" where
  "get_current_owner f now shard r = fst (redis_call f (Inr (redis_get now shard r), r) r)"

section \<open>The persistence fence\<close>

record fence_row =
  f_shard :: int
  f_fence :: int
  f_claim :: string
  f_worker :: string

type_synonym fence_table = "int \<Rightarrow> fence_row option"

definition fence_row_of :: "lease_claim \<Rightarrow> fence_row" where
  "fence_row_of c = \<lparr>f_shard = cl_shard c, f_fence = fencing_token c, f_claim = cl_token c, f_worker = cl_worker c\<rparr>"

definition persistence_fencer :: "lease_claim \<Rightarrow> py_exn + lease_claim" where
  "persistence_fencer claim =
     (if fencing_token claim \<le> 0
      then Inl (ValueError ''persistence-fenced shard claims require a positive fencing token'')
      else Inr claim)"

text \<open>
  The upsert is one statement: insert, or update if the stored generation is older or the
  claim's own; \<open>RETURNING\<close> yields no row otherwise.
\<close>

definition register_claim :: "lease_claim \<Rightarrow> fence_table \<Rightarrow> bool \<times> fence_table" where
  "register_claim claim t =
     (let new = fence_row_of claim in
      case t (cl_shard claim) of
        None \<Rightarrow> (True, t(cl_shard claim := Some new))
      | Some old \<Rightarrow>
          if f_fence old < f_fence new
             \<or> (f_fence old = f_fence new \<and> f_claim old = f_claim new \<and> f_worker old = f_worker new)
          then (True, t(cl_shard claim := Some new))
          else (False, t))"

abbreviation fence_lost :: py_exn where
  "fence_lost \<equiv> OtherException ''ShardPersistenceFenceLostError''"

text \<open>\<open>assert_current\<close>: \<open>Some e\<close> when it raises.\<close>

definition assert_current :: "lease_claim \<Rightarrow> fence_table \<Rightarrow> py_exn option" where
  "assert_current claim t =
     (case t (cl_shard claim) of
        None \<Rightarrow> Some fence_lost
      | Some row \<Rightarrow>
          if f_fence row = fencing_token claim \<and> f_claim row = cl_token claim \<and> f_worker row = cl_worker claim
          then None else Some fence_lost)"

text \<open>
  One persistence transaction of a claim: \<open>commit_batch\<close> with \<open>assert_current\<close> as its ownership
  check.  The check locks the fence row until the commit, so the transaction is one step.
\<close>

definition fenced_commit ::
  "usec \<Rightarrow> asset_id \<Rightarrow> payload list \<Rightarrow> lease_claim \<Rightarrow> fence_table \<Rightarrow> candle_db \<Rightarrow> py_exn + candle_db" where
  "fenced_commit now asset batch claim t db = commit_batch now asset batch (assert_current claim t) db"

section \<open>Workers, Redis and PostgreSQL together\<close>

text \<open>
  The state all processes share, and two records of the past: the claims the workers have
  received and the generation of every batch that was committed, newest first.  A step is one
  atomic action of one process; the processes interleave in any order, hold their claims
  for as long as they like, and the clock of a step is arbitrary.
\<close>

record ws_world =
  w_redis :: redis
  w_fences :: fence_table
  w_candles :: candle_db
  w_claims :: "lease_claim list"
  w_log :: "(int \<times> int) list"

definition initial_world :: "candle_db \<Rightarrow> ws_world" where
  "initial_world db =
     \<lparr>w_redis = \<lparr>r_leases = (\<lambda>_. None), r_fences = (\<lambda>_. 0)\<rparr>, w_fences = (\<lambda>_. None),
      w_candles = db, w_claims = [], w_log = []\<rparr>"

datatype ws_op =
    Acquire fault usec string int string int
  | Renew fault usec int lease_claim int
  | Release fault usec int lease_claim
  | Register lease_claim
  | Commit usec asset_id "payload list" lease_claim

fun ws_exec :: "ws_op \<Rightarrow> ws_world \<Rightarrow> ws_world" where
  "ws_exec (Acquire f now uuid shard worker ttl_ms) w =
     (case acquire_shard_lease f now uuid shard worker ttl_ms (w_redis w) of
        (Inr (Some c), r) \<Rightarrow> w\<lparr>w_redis := r, w_claims := c # w_claims w\<rparr>
      | (_, r) \<Rightarrow> w\<lparr>w_redis := r\<rparr>)"
| "ws_exec (Renew f now shard c ttl_ms) w = w\<lparr>w_redis := snd (renew_shard_lease f now shard c ttl_ms (w_redis w))\<rparr>"
| "ws_exec (Release f now shard c) w = w\<lparr>w_redis := snd (release_shard_lease f now shard c (w_redis w))\<rparr>"
| "ws_exec (Register c) w = w\<lparr>w_fences := snd (register_claim c (w_fences w))\<rparr>"
| "ws_exec (Commit now asset batch c) w =
     (case fenced_commit now asset batch c (w_fences w) (w_candles w) of
        Inl e \<Rightarrow> w
      | Inr db \<Rightarrow> w\<lparr>w_candles := db,
                    w_log := (if batch = [] then w_log w else (cl_shard c, fencing_token c) # w_log w)\<rparr>)"

text \<open>A worker acts only with claims it has received.\<close>

fun claim_of :: "ws_op \<Rightarrow> lease_claim option" where
  "claim_of (Acquire _ _ _ _ _ _) = None"
| "claim_of (Renew _ _ _ c _) = Some c"
| "claim_of (Release _ _ _ c) = Some c"
| "claim_of (Register c) = Some c"
| "claim_of (Commit _ _ _ c) = Some c"

definition op_enabled :: "ws_op \<Rightarrow> ws_world \<Rightarrow> bool" where
  "op_enabled op w \<longleftrightarrow> (case claim_of op of None \<Rightarrow> True | Some c \<Rightarrow> c \<in> set (w_claims w))"

inductive ws_reach :: "ws_world \<Rightarrow> ws_world \<Rightarrow> bool" where
  ws_refl: "ws_reach w w"
| ws_step: "ws_reach w w1 \<Longrightarrow> op_enabled op w1 \<Longrightarrow> ws_reach w (ws_exec op w1)"

lemma ws_reach_trans: "ws_reach w1 w2 \<Longrightarrow> ws_reach w0 w1 \<Longrightarrow> ws_reach w0 w2"
  by (induction rule: ws_reach.induct) (auto intro: ws_reach.intros)

section \<open>What one operation does\<close>

lemma acquire_lua_Inr:
  assumes "acquire_lua now shard c ttl r = (Inr t, r')" and "t \<noteq> 0"
  shows "redis_get now shard r = None" and "t = r_fences r shard + 1"
    and "r_fences r' = (r_fences r)(shard := t)"
    and "r_leases r' = (r_leases r)(shard := Some (c\<lparr>fencing_token := t\<rparr>, now + ttl * 1000))"
  using assms by (auto simp: acquire_lua_def Let_def split: if_splits)

lemma acquire_Some:
  assumes "acquire_shard_lease f now uuid shard worker ttl r = (Inr (Some c), r')"
  shows "redis_get now shard r = None" and "fencing_token c = r_fences r shard + 1"
    and "cl_shard c = shard" and "cl_worker c = worker" and "cl_token c = uuid"
    and "r_fences r' = (r_fences r)(shard := fencing_token c)"
    and "r_leases r' = (r_leases r)(shard := Some (c, now + ttl * 1000))"
proof -
  let ?claim = "\<lparr>cl_shard = shard, cl_worker = worker, cl_token = uuid, cl_claimed_at = now,
                  cl_expires_at = now + ttl * 1000, fencing_token = 0\<rparr>"
  obtain t where t: "acquire_lua now shard ?claim ttl r = (Inr t, r')" "t \<noteq> 0" "c = ?claim\<lparr>fencing_token := t\<rparr>"
    using assms by (auto simp: acquire_shard_lease_def redis_call_def Let_def
        split: fault.splits prod.splits sum.splits if_splits)
  note acquire_lua_Inr [OF t(1,2)]
  then show "redis_get now shard r = None" "fencing_token c = r_fences r shard + 1"
    "cl_shard c = shard" "cl_worker c = worker" "cl_token c = uuid"
    "r_fences r' = (r_fences r)(shard := fencing_token c)"
    "r_leases r' = (r_leases r)(shard := Some (c, now + ttl * 1000))"
    using t(3) by simp_all
qed

text \<open>Redis after any call: counters never fall, and a stored lease belongs to the newest generation.\<close>

definition redis_ok :: "redis \<Rightarrow> bool" where
  "redis_ok r \<longleftrightarrow> (\<forall>s. 0 \<le> r_fences r s) \<and>
     (\<forall>s c e. r_leases r s = Some (c, e) \<longrightarrow> cl_shard c = s \<and> fencing_token c = r_fences r s)"

definition fences_grow :: "redis \<Rightarrow> redis \<Rightarrow> bool" where
  "fences_grow r r' \<longleftrightarrow> (\<forall>s. r_fences r s \<le> r_fences r' s)"

lemma fences_grow_refl [simp]: "fences_grow r r"
  by (simp add: fences_grow_def)

lemma acquire_lua_ok:
  assumes "redis_ok r" and "cl_shard c = shard"
  shows "redis_ok (snd (acquire_lua now shard c ttl r)) \<and> fences_grow r (snd (acquire_lua now shard c ttl r))"
  using assms by (auto simp: acquire_lua_def redis_ok_def fences_grow_def Let_def)

lemma acquire_ok:
  assumes "redis_ok r"
  shows "redis_ok (snd (acquire_shard_lease f now uuid shard worker ttl r))
       \<and> fences_grow r (snd (acquire_shard_lease f now uuid shard worker ttl r))"
  using acquire_lua_ok [OF assms, of "\<lparr>cl_shard = shard, cl_worker = worker, cl_token = uuid, cl_claimed_at = now,
                    cl_expires_at = now + ttl * 1000, fencing_token = 0\<rparr>" shard now ttl] assms
  by (auto simp: acquire_shard_lease_def redis_call_def Let_def split: fault.splits prod.splits sum.splits)

lemma renew_ok:
  "redis_ok r \<Longrightarrow> redis_ok (snd (renew_shard_lease f now shard c ttl r))"
  "r_fences (snd (renew_shard_lease f now shard c ttl r)) = r_fences r"
  by (auto simp: renew_shard_lease_def redis_call_def renew_lua_def redis_get_def redis_ok_def
      split: fault.splits option.splits if_splits)

lemma lease_release_ok:
  "redis_ok r \<Longrightarrow> redis_ok (snd (release_shard_lease f now shard c r))"
  "r_fences (snd (release_shard_lease f now shard c r)) = r_fences r"
  by (auto simp: release_shard_lease_def redis_call_def release_lua_def redis_get_def redis_ok_def
      split: fault.splits option.splits if_splits prod.splits sum.splits)

text \<open>A successful renewal proves that no later generation exists.\<close>

lemma renew_True_stored:
  assumes "renew_shard_lease f now shard c ttl r = (Inr True, r')"
  shows "\<exists>stored expiry. r_leases r shard = Some (stored, expiry) \<and> now < expiry
           \<and> claim_matches stored (cl_token c) (fencing_token c)"
  using assms by (auto simp: renew_shard_lease_def redis_call_def renew_lua_def redis_get_def
      split: fault.splits option.splits if_splits prod.splits)

lemma renew_True_newest:
  assumes "redis_ok r" and "renew_shard_lease f now shard c ttl r = (Inr True, r')"
  shows "fencing_token c = r_fences r shard"
proof -
  obtain stored expiry where "r_leases r shard = Some (stored, expiry)" "fencing_token stored = fencing_token c"
    using renew_True_stored [OF assms(2)] by (auto simp: claim_matches_def)
  with assms(1) show ?thesis unfolding redis_ok_def by metis
qed

lemma register_claim_True:
  "fst (register_claim c t) \<Longrightarrow> snd (register_claim c t) (cl_shard c) = Some (fence_row_of c)"
  by (auto simp: register_claim_def Let_def split: option.splits)

lemma register_claim_row:
  "snd (register_claim c t) = t \<or> snd (register_claim c t) = t(cl_shard c := Some (fence_row_of c))"
  by (auto simp: register_claim_def Let_def split: option.splits)

text \<open>The generation of a shard's fence row, \<open>0\<close> before the first registration.\<close>

definition fence_of :: "int \<Rightarrow> fence_table \<Rightarrow> int" where
  "fence_of shard t = (case t shard of None \<Rightarrow> 0 | Some row \<Rightarrow> f_fence row)"

lemma register_claim_grows:
  "0 < fencing_token c \<Longrightarrow> fence_of s t \<le> fence_of s (snd (register_claim c t))"
  by (auto simp: register_claim_def fence_of_def fence_row_of_def Let_def split: option.splits)

lemma register_claim_reaches:
  "0 < fencing_token c \<Longrightarrow> fencing_token c \<le> fence_of (cl_shard c) (snd (register_claim c t))"
  by (auto simp: register_claim_def fence_of_def fence_row_of_def Let_def split: option.splits)

lemma assert_current_None:
  "assert_current c t = None \<longleftrightarrow> (\<exists>row. t (cl_shard c) = Some row \<and> f_fence row = fencing_token c
       \<and> f_claim row = cl_token c \<and> f_worker row = cl_worker c)"
  by (auto simp: assert_current_def split: option.splits)

lemma assert_current_stale:
  "0 < fencing_token c \<Longrightarrow> fencing_token c \<noteq> fence_of (cl_shard c) t \<Longrightarrow> assert_current c t = Some fence_lost"
  by (auto simp: assert_current_def fence_of_def split: option.splits)

lemma fenced_commit_Inr:
  "fenced_commit now asset batch c t db = Inr db' \<Longrightarrow> batch \<noteq> [] \<Longrightarrow> assert_current c t = None"
  by (auto simp: fenced_commit_def commit_batch_def split: option.splits)

section \<open>The invariant of all reachable worlds\<close>

definition generations :: "int \<Rightarrow> (int \<times> int) list \<Rightarrow> int list" where
  "generations s hist = map snd (filter (\<lambda>x. fst x = s) hist)"

lemma generations_simps [simp]:
  "generations s [] = []"
  "generations s ((s', t) # hist) = (if s' = s then t # generations s hist else generations s hist)"
  by (simp_all add: generations_def)

definition claims_ok :: "redis \<Rightarrow> lease_claim list \<Rightarrow> bool" where
  "claims_ok r cs \<longleftrightarrow> (\<forall>c \<in> set cs. 0 < fencing_token c \<and> fencing_token c \<le> r_fences r (cl_shard c))
     \<and> (\<forall>c \<in> set cs. \<forall>c' \<in> set cs. cl_shard c = cl_shard c' \<longrightarrow> fencing_token c = fencing_token c' \<longrightarrow> c = c')"

definition rows_from_claims :: "fence_table \<Rightarrow> lease_claim list \<Rightarrow> bool" where
  "rows_from_claims t cs \<longleftrightarrow> (\<forall>s row. t s = Some row \<longrightarrow> (\<exists>c \<in> set cs. cl_shard c = s \<and> row = fence_row_of c))"

definition log_ok :: "fence_table \<Rightarrow> (int \<times> int) list \<Rightarrow> bool" where
  "log_ok t hist \<longleftrightarrow> (\<forall>s. sorted_wrt (\<ge>) (generations s hist) \<and> (\<forall>g \<in> set (generations s hist). g \<le> fence_of s t))"

definition world_ok :: "ws_world \<Rightarrow> bool" where
  "world_ok w \<longleftrightarrow> redis_ok (w_redis w) \<and> claims_ok (w_redis w) (w_claims w)
     \<and> rows_from_claims (w_fences w) (w_claims w) \<and> log_ok (w_fences w) (w_log w)"

lemma initial_world_ok: "world_ok (initial_world db)"
  by (simp add: world_ok_def initial_world_def redis_ok_def claims_ok_def rows_from_claims_def log_ok_def)

lemma claims_ok_grow: "claims_ok r cs \<Longrightarrow> fences_grow r r' \<Longrightarrow> claims_ok r' cs"
  unfolding claims_ok_def fences_grow_def by (meson order_trans)

lemma claims_ok_same_fences: "claims_ok r cs \<Longrightarrow> r_fences r' = r_fences r \<Longrightarrow> claims_ok r' cs"
  by (simp add: claims_ok_def)

lemma rows_from_claims_Cons: "rows_from_claims t cs \<Longrightarrow> rows_from_claims t (c # cs)"
  unfolding rows_from_claims_def by (metis list.set_intros(2))

lemma claims_ok_acquire:
  assumes "claims_ok r cs" and "redis_ok r"
    and "acquire_shard_lease f now uuid shard worker ttl r = (Inr (Some c), r')"
  shows "claims_ok r' (c # cs)"
proof -
  note a = acquire_Some [OF assms(3)]
  have pos: "0 < fencing_token c" using a(2) assms(2) by (simp add: redis_ok_def add_nonneg_pos)
  have old: "fencing_token c' < fencing_token c" if "c' \<in> set cs" "cl_shard c' = shard" for c'
    using assms(1) that a(2) unfolding claims_ok_def by fastforce
  show ?thesis
    using assms(1) pos old a(2,3,6) unfolding claims_ok_def
    by (auto simp: order_less_imp_le dest: order_less_imp_not_eq)
qed

lemma world_ok_acquire:
  assumes ok: "world_ok w"
  shows "world_ok (ws_exec (Acquire f now uuid shard worker ttl) w)"
proof -
  obtain res r where call: "acquire_shard_lease f now uuid shard worker ttl (w_redis w) = (res, r)"
    by fastforce
  have r: "redis_ok r" "fences_grow (w_redis w) r"
    using acquire_ok [of "w_redis w" f now uuid shard worker ttl] ok call by (simp_all add: world_ok_def)
  show ?thesis
  proof (cases "\<exists>c. res = Inr (Some c)")
    case True
    then obtain c where c: "res = Inr (Some c)" by blast
    show ?thesis
      using ok r(1) claims_ok_acquire [OF _ _ call [unfolded c]] call c
      by (simp add: world_ok_def rows_from_claims_Cons)
  next
    case False
    then have "ws_exec (Acquire f now uuid shard worker ttl) w = w\<lparr>w_redis := r\<rparr>"
      using call by (auto split: sum.splits option.splits)
    then show ?thesis
      using ok r claims_ok_grow [of "w_redis w" "w_claims w" r] by (simp add: world_ok_def)
  qed
qed

lemma log_ok_register:
  assumes "log_ok t hist" and "0 < fencing_token c"
  shows "log_ok (snd (register_claim c t)) hist"
  using assms register_claim_grows [OF assms(2), of _ t] unfolding log_ok_def by (meson order_trans)

lemma rows_register:
  assumes "rows_from_claims t cs" and "c \<in> set cs"
  shows "rows_from_claims (snd (register_claim c t)) cs"
  using register_claim_row [of c t] assms unfolding rows_from_claims_def by (auto split: if_splits)

lemma log_ok_commit:
  assumes "log_ok t hist" and "fencing_token c = fence_of (cl_shard c) t"
  shows "log_ok t ((cl_shard c, fencing_token c) # hist)"
  using assms by (auto simp: log_ok_def)

lemma world_ok_step:
  assumes ok: "world_ok w" and en: "op_enabled op w"
  shows "world_ok (ws_exec op w)"
proof (cases op)
  case (Acquire f now uuid shard worker ttl)
  then show ?thesis using world_ok_acquire [OF ok] by simp
next
  case (Renew f now shard c ttl)
  then show ?thesis
    using ok renew_ok claims_ok_same_fences [OF _ renew_ok(2)] by (simp add: world_ok_def)
next
  case (Release f now shard c)
  then show ?thesis
    using ok lease_release_ok claims_ok_same_fences [OF _ lease_release_ok(2)] by (simp add: world_ok_def)
next
  case (Register c)
  then have "c \<in> set (w_claims w)" using en by (simp add: op_enabled_def)
  moreover from this have "0 < fencing_token c" using ok by (simp add: world_ok_def claims_ok_def)
  ultimately show ?thesis
    using Register ok log_ok_register rows_register by (simp add: world_ok_def)
next
  case (Commit now asset batch c)
  show ?thesis
  proof (cases "fenced_commit now asset batch c (w_fences w) (w_candles w)")
    case (Inl e)
    then show ?thesis using ok Commit by simp
  next
    case (Inr db)
    show ?thesis
    proof (cases "batch = []")
      case True
      then show ?thesis using ok Commit Inr by (simp add: world_ok_def)
    next
      case False
      have "assert_current c (w_fences w) = None" using fenced_commit_Inr [OF Inr False] .
      then have "fencing_token c = fence_of (cl_shard c) (w_fences w)"
        by (auto simp: assert_current_None fence_of_def)
      moreover have "log_ok (w_fences w) (w_log w)" using ok by (simp add: world_ok_def)
      ultimately have "log_ok (w_fences w) ((cl_shard c, fencing_token c) # w_log w)"
        by (rule log_ok_commit [rotated])
      then show ?thesis using ok Commit Inr False by (simp add: world_ok_def)
    qed
  qed
qed

lemma world_ok_reach: "ws_reach w w' \<Longrightarrow> world_ok w \<Longrightarrow> world_ok w'"
  by (induction rule: ws_reach.induct) (auto intro: world_ok_step)

lemma claims_persist: "c \<in> set (w_claims w) \<Longrightarrow> c \<in> set (w_claims (ws_exec op w))"
  by (cases op) (auto split: prod.splits sum.splits option.splits)

lemma claims_persist_reach: "ws_reach w w' \<Longrightarrow> c \<in> set (w_claims w) \<Longrightarrow> c \<in> set (w_claims w')"
  by (induction rule: ws_reach.induct) (auto intro: claims_persist)

lemma fence_grows_step:
  assumes "world_ok w" and "op_enabled op w"
  shows "fence_of s (w_fences w) \<le> fence_of s (w_fences (ws_exec op w))"
proof (cases op)
  case (Register c)
  then have "c \<in> set (w_claims w)" using assms(2) by (simp add: op_enabled_def)
  then have "0 < fencing_token c" using assms(1) by (simp add: world_ok_def claims_ok_def)
  then show ?thesis using Register register_claim_grows by simp
qed (auto split: prod.splits sum.splits option.splits)

lemma fence_grows_reach:
  "ws_reach w w' \<Longrightarrow> world_ok w \<Longrightarrow> fence_of s (w_fences w) \<le> fence_of s (w_fences w')"
proof (induction rule: ws_reach.induct)
  case (ws_step w w1 op)
  have "fence_of s (w_fences w1) \<le> fence_of s (w_fences (ws_exec op w1))"
    using fence_grows_step [OF world_ok_reach [OF ws_step.hyps(1) ws_step.prems] ws_step.hyps(2)] .
  then show ?case using ws_step.IH [OF ws_step.prems] by simp
qed simp

section \<open>The guarantees\<close>

text \<open>
  C16: Split brain never reaches the candles.  Whatever the interleaving of acquisitions,
  renewals, releases, registrations and commits of all workers, of expiries, lost answers and
  paused processes, the batches committed for a shard carry non-decreasing generations: once a
  successor has written, no older owner writes again.
\<close>

theorem shard_writes_in_generation_order:
  assumes "ws_reach (initial_world db) w"
  shows "sorted_wrt (\<le>) (rev (generations shard (w_log w)))"
proof -
  have "sorted_wrt (\<ge>) (generations shard (w_log w))"
    using world_ok_reach [OF assms initial_world_ok] by (simp add: world_ok_def log_ok_def)
  then show ?thesis by (simp add: sorted_wrt_rev)
qed

text \<open>
  C17: From the moment a claim is registered, every claim of an older generation of that shard
  is fenced for good: in every later world its commits raise
  \<open>ShardPersistenceFenceLostError\<close> and change nothing.
\<close>

theorem registered_successor_fences:
  assumes "ws_reach (initial_world db) w" and "c' \<in> set (w_claims w)" and "c \<in> set (w_claims w)"
    and "cl_shard c = cl_shard c'" and "fencing_token c < fencing_token c'"
    and "ws_reach (ws_exec (Register c') w) w'" and "batch \<noteq> []"
  shows "fenced_commit now asset batch c (w_fences w') (w_candles w') = Inl fence_lost
       \<and> ws_exec (Commit now asset batch c) w' = w'"
proof -
  have ok: "world_ok w" by (rule world_ok_reach [OF assms(1) initial_world_ok])
  have en: "op_enabled (Register c') w" using assms(2) by (simp add: op_enabled_def)
  have pos: "0 < fencing_token c" "0 < fencing_token c'"
    using ok assms(2,3) by (simp_all add: world_ok_def claims_ok_def)
  have "fencing_token c' \<le> fence_of (cl_shard c') (w_fences (ws_exec (Register c') w))"
    using register_claim_reaches [OF pos(2)] by simp
  also have "\<dots> \<le> fence_of (cl_shard c') (w_fences w')"
    by (rule fence_grows_reach [OF assms(6) world_ok_step [OF ok en]])
  finally have "fencing_token c \<noteq> fence_of (cl_shard c) (w_fences w')"
    using assms(4,5) by simp
  then have "assert_current c (w_fences w') = Some fence_lost"
    by (rule assert_current_stale [OF pos(1)])
  then show ?thesis using assms(7) by (simp add: fenced_commit_def commit_batch_def)
qed

lemma renewed_registration_current:
  assumes "ws_reach (initial_world db) w0" and "c \<in> set (w_claims w0)" and "fst (register_claim c (w_fences w0))"
    and "ws_reach (ws_exec (Register c) w0) w"
    and "renew_shard_lease f now (cl_shard c) c ttl (w_redis w) = (Inr True, r)"
  shows "assert_current c (w_fences w) = None \<and> fencing_token c = r_fences (w_redis w) (cl_shard c)
       \<and> (\<forall>c' \<in> set (w_claims w). cl_shard c' = cl_shard c \<and> c' \<noteq> c \<longrightarrow>
            fencing_token c' < fencing_token c \<and> assert_current c' (w_fences w) = Some fence_lost)"
proof -
  have en: "op_enabled (Register c) w0" using assms(2) by (simp add: op_enabled_def)
  have ok0: "world_ok w0" by (rule world_ok_reach [OF assms(1) initial_world_ok])
  have ok: "world_ok w" by (rule world_ok_reach [OF assms(4) world_ok_step [OF ok0 en]])
  have cw: "c \<in> set (w_claims w)" by (rule claims_persist_reach [OF assms(4) claims_persist [OF assms(2)]])
  have newest: "fencing_token c = r_fences (w_redis w) (cl_shard c)"
    using ok renew_True_newest [OF _ assms(5)] by (simp add: world_ok_def)
  have pos: "0 < fencing_token c" using ok cw by (simp add: world_ok_def claims_ok_def)
  have "fencing_token c \<le> fence_of (cl_shard c) (w_fences (ws_exec (Register c) w0))"
    using register_claim_reaches [OF pos] by simp
  also have "\<dots> \<le> fence_of (cl_shard c) (w_fences w)"
    by (rule fence_grows_reach [OF assms(4) world_ok_step [OF ok0 en]])
  finally have ge: "fencing_token c \<le> fence_of (cl_shard c) (w_fences w)" .
  then obtain row where row: "w_fences w (cl_shard c) = Some row" "fencing_token c \<le> f_fence row"
    using pos by (auto simp: fence_of_def split: option.splits)
  then obtain d where d: "d \<in> set (w_claims w)" "cl_shard d = cl_shard c" "row = fence_row_of d"
    using ok unfolding world_ok_def rows_from_claims_def by blast
  have "fencing_token d \<le> fencing_token c"
    using ok d(1,2) newest unfolding world_ok_def claims_ok_def by metis
  with row(2) d(3) have "fencing_token d = fencing_token c" by (simp add: fence_row_of_def)
  then have "d = c" using ok cw d(1,2) unfolding world_ok_def claims_ok_def by metis
  then have cur: "assert_current c (w_fences w) = None" "fence_of (cl_shard c) (w_fences w) = fencing_token c"
    using row(1) d(3) by (auto simp: assert_current_None fence_of_def fence_row_of_def)
  have "fencing_token c' < fencing_token c \<and> assert_current c' (w_fences w) = Some fence_lost"
    if c': "c' \<in> set (w_claims w)" "cl_shard c' = cl_shard c" "c' \<noteq> c" for c'
  proof
    have "fencing_token c' \<le> fencing_token c" "0 < fencing_token c'"
      using ok c'(1,2) newest unfolding world_ok_def claims_ok_def by metis+
    moreover have "fencing_token c' \<noteq> fencing_token c"
      using ok cw c' unfolding world_ok_def claims_ok_def by metis
    ultimately show "fencing_token c' < fencing_token c" by simp
    then show "assert_current c' (w_fences w) = Some fence_lost"
      using assert_current_stale [OF \<open>0 < fencing_token c'\<close>] cur(2) c'(2) by simp
  qed
  with cur newest show ?thesis by blast
qed

text \<open>
  A renewal that succeeds right after the registration, as the supervisor demands before it
  starts a runtime, means that the claim is the newest generation Redis ever issued for the
  shard and the one the fence admits; no other claim could commit at that moment.
\<close>

theorem renewed_registration_is_current:
  assumes "ws_reach (initial_world db) w0" and "c \<in> set (w_claims w0)" and "fst (register_claim c (w_fences w0))"
    and "ws_reach (ws_exec (Register c) w0) w"
    and "renew_shard_lease f now (cl_shard c) c ttl (w_redis w) = (Inr True, r)"
  shows "assert_current c (w_fences w) = None \<and> fencing_token c = r_fences (w_redis w) (cl_shard c)
       \<and> (\<forall>c' \<in> set (w_claims w). cl_shard c' = cl_shard c \<and> c' \<noteq> c \<longrightarrow>
            fencing_token c' < fencing_token c \<and> assert_current c' (w_fences w) = Some fence_lost)"
  by (rule renewed_registration_current [OF assms])

section \<open>The single writer this implements\<close>

text \<open>
  What the leases, the fence and the faults amount to: every shard has a current generation that
  only grows, and the candles change only by a batch that the current generation of a shard
  commits.
\<close>

record shard_spec =
  sp_current :: "int \<Rightarrow> int"
  sp_written :: "int \<Rightarrow> int list"
  sp_candles :: candle_db

inductive spec_step :: "shard_spec \<Rightarrow> shard_spec \<Rightarrow> bool" where
  takes_over: "sp_current a s < g \<Longrightarrow> spec_step a (a\<lparr>sp_current := (sp_current a)(s := g)\<rparr>)"
| writes: "0 < sp_current a s \<Longrightarrow> batch \<noteq> [] \<Longrightarrow> commit_batch now asset batch None (sp_candles a) = Inr db
    \<Longrightarrow> spec_step a (a\<lparr>sp_candles := db, sp_written := (sp_written a)(s := sp_current a s # sp_written a s)\<rparr>)"

definition abstract_world :: "ws_world \<Rightarrow> shard_spec" where
  "abstract_world w =
     \<lparr>sp_current = (\<lambda>s. fence_of s (w_fences w)), sp_written = (\<lambda>s. generations s (w_log w)), sp_candles = w_candles w\<rparr>"

lemma commit_checked_None:
  "fenced_commit now asset batch c t db = Inr db' \<Longrightarrow> commit_batch now asset batch None db = Inr db'"
  by (auto simp: fenced_commit_def commit_batch_def split: option.splits if_splits)

lemma commit_batch_empty: "commit_batch now asset [] own db = Inr db' \<Longrightarrow> db' = db"
  by (simp add: commit_batch_def)

lemma register_refines:
  assumes "0 < fencing_token c"
  shows "abstract_world (ws_exec (Register c) w) = abstract_world w
       \<or> spec_step (abstract_world w) (abstract_world (ws_exec (Register c) w))"
proof (cases "fence_of (cl_shard c) (w_fences w) < fencing_token c")
  case True
  then have "w_fences w (cl_shard c) = None \<or> (\<exists>row. w_fences w (cl_shard c) = Some row \<and> f_fence row < fencing_token c)"
    by (auto simp: fence_of_def split: option.splits)
  then have "snd (register_claim c (w_fences w)) = (w_fences w)(cl_shard c := Some (fence_row_of c))"
    by (auto simp: register_claim_def fence_row_of_def Let_def)
  then have "abstract_world (ws_exec (Register c) w)
      = (abstract_world w)\<lparr>sp_current := (sp_current (abstract_world w))(cl_shard c := fencing_token c)\<rparr>"
    by (auto simp: abstract_world_def fence_of_def fence_row_of_def fun_eq_iff)
  moreover have "sp_current (abstract_world w) (cl_shard c) < fencing_token c"
    using True by (simp add: abstract_world_def)
  ultimately show ?thesis using takes_over by metis
next
  case False
  have "fence_of s (snd (register_claim c (w_fences w))) = fence_of s (w_fences w)" for s
    using False assms
    by (auto simp: register_claim_def fence_of_def fence_row_of_def Let_def split: option.splits)
  then show ?thesis by (simp add: abstract_world_def)
qed

lemma commit_refines:
  assumes "0 < fencing_token c"
  shows "abstract_world (ws_exec (Commit now asset batch c) w) = abstract_world w
       \<or> spec_step (abstract_world w) (abstract_world (ws_exec (Commit now asset batch c) w))"
proof (cases "fenced_commit now asset batch c (w_fences w) (w_candles w)")
  case (Inr db)
  have db: "commit_batch now asset batch None (w_candles w) = Inr db" by (rule commit_checked_None [OF Inr])
  show ?thesis
  proof (cases "batch = []")
    case True
    then show ?thesis using Inr commit_batch_empty db by (simp add: abstract_world_def)
  next
    case False
    have cur: "fence_of (cl_shard c) (w_fences w) = fencing_token c"
      using fenced_commit_Inr [OF Inr False] by (auto simp: assert_current_None fence_of_def)
    have "abstract_world (ws_exec (Commit now asset batch c) w) = (abstract_world w)\<lparr>sp_candles := db,
        sp_written := (sp_written (abstract_world w))(cl_shard c :=
          sp_current (abstract_world w) (cl_shard c) # sp_written (abstract_world w) (cl_shard c))\<rparr>"
      using Inr False cur by (auto simp: abstract_world_def fun_eq_iff)
    moreover have "0 < sp_current (abstract_world w) (cl_shard c)" "sp_candles (abstract_world w) = w_candles w"
      using assms cur by (simp_all add: abstract_world_def)
    ultimately show ?thesis using writes False db by metis
  qed
qed simp

lemma step_refines:
  assumes "world_ok w" and "op_enabled op w"
  shows "abstract_world (ws_exec op w) = abstract_world w \<or> spec_step (abstract_world w) (abstract_world (ws_exec op w))"
proof -
  have pos: "0 < fencing_token c" if "claim_of op = Some c" for c
    using assms that by (auto simp: op_enabled_def world_ok_def claims_ok_def)
  show ?thesis
  proof (cases op)
    case (Acquire f now uuid shard worker ttl)
    then show ?thesis by (auto simp: abstract_world_def split: prod.splits sum.splits option.splits)
  next
    case (Register c)
    then show ?thesis using register_refines pos by simp
  next
    case (Commit now asset batch c)
    then show ?thesis using commit_refines pos by (metis claim_of.simps(5))
  qed (simp_all add: abstract_world_def)
qed

text \<open>
  C2: The distributed system implements the single writer.  Every run of all workers against
  Redis and PostgreSQL, with every fault and interleaving, is, seen through the fence table,
  the commits and the candles, a run of the specification: each operation is one of its steps
  or changes nothing it sees.
\<close>

theorem workers_refine_single_writer:
  assumes "ws_reach (initial_world db) w"
  shows "spec_step\<^sup>*\<^sup>* \<lparr>sp_current = (\<lambda>_. 0), sp_written = (\<lambda>_. []), sp_candles = db\<rparr> (abstract_world w)"
proof -
  have "ws_reach w0 w \<Longrightarrow> world_ok w0 \<Longrightarrow> spec_step\<^sup>*\<^sup>* (abstract_world w0) (abstract_world w)" for w0
  proof (induction rule: ws_reach.induct)
    case (ws_step w w1 op)
    then show ?case
      using step_refines [OF world_ok_reach [OF ws_step.hyps(1) ws_step.prems] ws_step.hyps(2)]
      by (metis rtranclp.rtrancl_into_rtrancl)
  qed simp
  from this [OF assms initial_world_ok] show ?thesis
    by (simp add: abstract_world_def initial_world_def fence_of_def)
qed

section \<open>A takeover\<close>

text \<open>
  Worker 1 acquires shard 3 and registers; it pauses past its fifteen seconds; worker 2
  acquires generation 2 and registers; worker 1 wakes up and commits.
\<close>

definition old_claim :: lease_claim where
  "old_claim = \<lparr>cl_shard = 3, cl_worker = ''w1'', cl_token = ''t1'', cl_claimed_at = 0,
                cl_expires_at = 15000000, fencing_token = 1\<rparr>"

definition new_claim :: lease_claim where
  "new_claim = \<lparr>cl_shard = 3, cl_worker = ''w2'', cl_token = ''t2'', cl_claimed_at = 20000000,
                cl_expires_at = 35000000, fencing_token = 2\<rparr>"

definition acquire_old :: ws_op where
  "acquire_old = Acquire NoFault 0 ''t1'' 3 ''w1'' 15000"

definition acquire_new :: ws_op where
  "acquire_new = Acquire NoFault 20000000 ''t2'' 3 ''w2'' 15000"

definition taken_over :: ws_world where
  "taken_over = ws_exec acquire_new (ws_exec (Register old_claim) (ws_exec acquire_old (initial_world example_db)))"

lemmas lease_eval =
  acquire_shard_lease_def acquire_lua_def redis_call_def redis_get_def register_claim_def fence_row_of_def
  initial_world_def old_claim_def new_claim_def acquire_old_def acquire_new_def op_enabled_def

lemma taken_over_reach: "ws_reach (initial_world example_db) taken_over"
  unfolding taken_over_def
  by (rule ws_step, rule ws_step, rule ws_step, rule ws_refl) (simp_all add: lease_eval)

lemma taken_over_claims: "w_claims taken_over = [new_claim, old_claim]"
  by (simp add: taken_over_def lease_eval)

lemma shard_writes_in_generation_order_witness:
  "sorted_wrt (\<le>) (rev (generations 3 (w_log taken_over)))"
  by (rule shard_writes_in_generation_order [OF taken_over_reach])

lemma workers_refine_single_writer_witness:
  "spec_step\<^sup>*\<^sup>* \<lparr>sp_current = (\<lambda>_. 0), sp_written = (\<lambda>_. []), sp_candles = example_db\<rparr> (abstract_world taken_over)"
  by (rule workers_refine_single_writer [OF taken_over_reach])

lemma registered_successor_fences_witness:
  "ws_exec (Commit 30000000 7 [example_normal 7 0] old_claim) (ws_exec (Register new_claim) taken_over)
     = ws_exec (Register new_claim) taken_over"
  using registered_successor_fences [OF taken_over_reach, of new_claim old_claim
      "ws_exec (Register new_claim) taken_over" "[example_normal 7 0]" 30000000 7] ws_refl
  by (simp add: taken_over_claims) (simp add: old_claim_def new_claim_def)

lemma renewed_registration_is_current_witness:
  "assert_current new_claim (w_fences (ws_exec (Register new_claim) taken_over)) = None"
proof -
  have reg: "fst (register_claim new_claim (w_fences taken_over))"
    by (simp add: taken_over_def lease_eval)
  have "\<exists>r. renew_shard_lease NoFault 21000000 (cl_shard new_claim) new_claim 15000
               (w_redis (ws_exec (Register new_claim) taken_over)) = (Inr True, r)"
    by (simp add: taken_over_def lease_eval renew_shard_lease_def renew_lua_def claim_matches_def)
  then obtain r where r: "renew_shard_lease NoFault 21000000 (cl_shard new_claim) new_claim 15000
               (w_redis (ws_exec (Register new_claim) taken_over)) = (Inr True, r)" ..
  have "new_claim \<in> set (w_claims taken_over)" by (simp add: taken_over_claims)
  from renewed_registration_is_current [OF taken_over_reach this reg ws_refl r] show ?thesis by blast
qed

end
