(* ===== verification/Ws_Registry.thy ===== *)
theory Ws_Registry
  imports Shard_Assignment Shard_Lease "HOL-Library.AList"
begin

text \<open>
  \<open>connectors/models.py\<close> (the validated candle event a connector emits) and
  \<open>ws_sharding/registry.py\<close> (the cached resolution of an exchange symbol to an asset).

  The pydantic validators of \<open>CandleEvent\<close> run field by field and then on the whole model; any
  failure is a \<open>ValidationError\<close>.  The dictionary of the cache is an association list in
  insertion order; \<open>time.time()\<close> is in microseconds, and \<open>0\<close> stands for never loaded as in the
  code.
\<close>

section \<open>Candle events\<close>

record candle_event =
  ev_symbol :: string
  ev_interval :: string
  ev_timestamp :: pydatetime
  ev_close_time :: pydatetime
  ev_open :: pyfloat
  ev_high :: pyfloat
  ev_low :: pyfloat
  ev_close :: pyfloat
  ev_volume :: pyfloat
  ev_quote_volume :: "pyfloat option"
  ev_trade_count :: "int option"
  ev_taker_buy_base_volume :: "pyfloat option"
  ev_taker_buy_quote_volume :: "pyfloat option"
  ev_is_closed :: bool
  ev_source :: string
  ev_event_time :: "pydatetime option"
  ev_received_at :: pydatetime

definition ensure_utc_datetime :: "pydatetime \<Rightarrow> pydatetime" where
  "ensure_utc_datetime d = (if is_aware d then utc_dt (utc d) else utc_dt (dt_local d))"

definition ohlc_invariants :: "candle_event \<Rightarrow> bool" where
  "ohlc_invariants e \<longleftrightarrow>
     \<not> f_lt (ev_high e) (f_sub (ev_low e) f_1e_9)
     \<and> \<not> (f_lt (ev_open e) (f_sub (ev_low e) f_1e_9) \<or> f_lt (f_add (ev_high e) f_1e_9) (ev_open e))
     \<and> \<not> (f_lt (ev_close e) (f_sub (ev_low e) f_1e_9) \<or> f_lt (f_add (ev_high e) f_1e_9) (ev_close e))
     \<and> \<not> utc (ev_close_time e) < utc (ev_timestamp e)"

definition negative_volume :: "pyfloat option \<Rightarrow> bool" where
  "negative_volume v \<longleftrightarrow> (case v of None \<Rightarrow> False | Some x \<Rightarrow> f_lt x (Fin 0))"

definition make_candle_event :: "candle_event \<Rightarrow> py_exn + candle_event" where
  "make_candle_event e =
     (if py_strip (ev_symbol e) = []
         \<or> list_ex (\<lambda>v. f_le v (Fin 0)) [ev_open e, ev_high e, ev_low e, ev_close e]
         \<or> list_ex negative_volume [Some (ev_volume e), ev_quote_volume e, ev_taker_buy_base_volume e,
                                    ev_taker_buy_quote_volume e]
      then Inl (OtherException ''ValidationError'')
      else let e' = e\<lparr>ev_symbol := py_upper (py_strip (ev_symbol e)),
                      ev_timestamp := ensure_utc_datetime (ev_timestamp e),
                      ev_close_time := ensure_utc_datetime (ev_close_time e),
                      ev_event_time := map_option ensure_utc_datetime (ev_event_time e),
                      ev_received_at := ensure_utc_datetime (ev_received_at e)\<rparr>
           in if ohlc_invariants e' then Inr e' else Inl (OtherException ''ValidationError''))"

section \<open>The asset registry cache\<close>

definition BINANCE_EXCHANGE :: string where
  "BINANCE_EXCHANGE = ''BINANCE''"

definition MAX_REGISTRY_CACHE_SIZE :: nat where
  "MAX_REGISTRY_CACHE_SIZE = 10000"

abbreviation registry_unavailable :: py_exn where
  "registry_unavailable \<equiv> OtherException ''AssetRegistryUnavailableError''"

definition normalize_exchange :: "string \<Rightarrow> py_exn + string" where
  "normalize_exchange exchange =
     (if py_strip exchange = [] then Inl (ValueError ''Exchange must be a non-empty string'')
      else Inr (py_upper (py_strip exchange)))"

type_synonym cache_key = "string \<times> string"

record resolver =
  rs_cache :: "(cache_key \<times> (asset_id \<times> bool)) list"
  rs_last_loaded :: usec
  rs_ttl :: usec
  rs_max_size :: nat

definition cache_key :: "string \<Rightarrow> string \<Rightarrow> py_exn + cache_key" where
  "cache_key exchange symbol =
     (case normalize_exchange exchange of
        Inl e \<Rightarrow> Inl e
      | Inr ex \<Rightarrow> (case normalize_symbol symbol of Inl e \<Rightarrow> Inl e | Inr sy \<Rightarrow> Inr (ex, sy)))"

definition is_cache_valid :: "usec \<Rightarrow> resolver \<Rightarrow> bool" where
  "is_cache_valid now rs \<longleftrightarrow>
     rs_cache rs \<noteq> [] \<and> rs_last_loaded rs \<noteq> 0 \<and> now - rs_last_loaded rs < rs_ttl rs"

definition register_asset ::
  "usec \<Rightarrow> string \<Rightarrow> asset_id \<Rightarrow> bool \<Rightarrow> string \<Rightarrow> resolver \<Rightarrow> py_exn + (bool \<times> resolver)" where
  "register_asset now symbol asset is_active exchange rs =
     (case cache_key exchange symbol of
        Inl e \<Rightarrow> Inl e
      | Inr k \<Rightarrow>
          if map_of (rs_cache rs) k = None \<and> length (rs_cache rs) \<ge> rs_max_size rs
          then Inr (False, rs)
          else Inr (True, rs\<lparr>rs_cache := AList.update k (asset, is_active) (rs_cache rs),
                             rs_last_loaded := (if rs_last_loaded rs = 0 then now else rs_last_loaded rs)\<rparr>))"

definition invalidate :: "resolver \<Rightarrow> resolver" where
  "invalidate rs = rs\<lparr>rs_last_loaded := 0\<rparr>"

text \<open>The loop of \<open>_execute_load\<close> over the fetched rows, cut at the capacity.\<close>

fun load_rows ::
  "nat \<Rightarrow> asset_row list \<Rightarrow> (cache_key \<times> (asset_id \<times> bool)) list \<Rightarrow> py_exn + (cache_key \<times> (asset_id \<times> bool)) list" where
  "load_rows max_size [] cache = Inr cache"
| "load_rows max_size (a # rows) cache =
     (if length cache \<ge> max_size then Inr cache
      else if a_symbol a \<noteq> [] \<and> a_exchange a \<noteq> []
      then case cache_key (a_exchange a) (a_symbol a) of
             Inl e \<Rightarrow> Inl e
           | Inr k \<Rightarrow> load_rows max_size rows (AList.update k (a_id a, a_active a) cache)
      else load_rows max_size rows cache)"

text \<open>
  \<open>_execute_load\<close>; \<open>fetched\<close> is the answer of the SELECT (or the failure to open a session), and
  every exception becomes \<open>AssetRegistryUnavailableError\<close> with the old cache kept.
\<close>

definition execute_load :: "usec \<Rightarrow> py_exn + asset_row list \<Rightarrow> resolver \<Rightarrow> (py_exn + nat) \<times> resolver" where
  "execute_load now fetched rs =
     (case fetched of
        Inl e \<Rightarrow> (Inl registry_unavailable, rs)
      | Inr rows \<Rightarrow>
          (case load_rows (rs_max_size rs) rows [] of
             Inl e \<Rightarrow> (Inl registry_unavailable, rs)
           | Inr cache \<Rightarrow> (Inr (length cache), rs\<lparr>rs_cache := cache, rs_last_loaded := now\<rparr>)))"

text \<open>\<open>source = None\<close>: no session factory.\<close>

definition load_cache :: "usec \<Rightarrow> (py_exn + asset_row list) option \<Rightarrow> resolver \<Rightarrow> (py_exn + nat) \<times> resolver" where
  "load_cache now source rs =
     (case source of None \<Rightarrow> (Inr (length (rs_cache rs)), rs) | Some fetched \<Rightarrow> execute_load now fetched rs)"

definition resolve_symbol ::
  "usec \<Rightarrow> (py_exn + asset_row list) option \<Rightarrow> string \<Rightarrow> string \<Rightarrow> resolver
     \<Rightarrow> (py_exn + (asset_id \<times> bool) option) \<times> resolver" where
  "resolve_symbol now source symbol exchange rs =
     (if py_strip symbol = [] then (Inr None, rs)
      else case cache_key exchange symbol of
        Inl e \<Rightarrow> (Inl e, rs)
      | Inr k \<Rightarrow>
          if is_cache_valid now rs \<and> map_of (rs_cache rs) k \<noteq> None
          then (Inr (map_of (rs_cache rs) k), rs)
          else if \<not> is_cache_valid now rs \<and> source \<noteq> None
          then (case load_cache now source rs of
                  (Inl e, rs') \<Rightarrow> (Inl e, rs')
                | (Inr n, rs') \<Rightarrow> (Inr (map_of (rs_cache rs') k), rs'))
          else (Inr (map_of (rs_cache rs) k), rs))"

section \<open>Attribution\<close>

text \<open>What the registry says about a key: some row that normalises to it.\<close>

definition registered :: "asset_row list \<Rightarrow> cache_key \<Rightarrow> asset_id \<times> bool \<Rightarrow> bool" where
  "registered rows k v \<longleftrightarrow>
     (\<exists>a \<in> set rows. cache_key (a_exchange a) (a_symbol a) = Inr k \<and> v = (a_id a, a_active a))"

lemma map_of_update: "map_of (AList.update k v al) k' = (if k' = k then Some v else map_of al k')"
  by (simp add: update_conv)

lemma load_rows_registered:
  assumes "load_rows n rows cache = Inr cache'" and "\<forall>k v. map_of cache k = Some v \<longrightarrow> registered all k v"
    and "set rows \<subseteq> set all" and "map_of cache' k = Some v"
  shows "registered all k v"
  using assms
proof (induction rows arbitrary: cache)
  case Nil
  then have "cache' = cache" by simp
  with Nil(2,4) show ?case by blast
next
  case (Cons a rows)
  show ?case
  proof (cases "length cache < n \<and> a_symbol a \<noteq> [] \<and> a_exchange a \<noteq> []")
    case True
    then obtain k' where k': "cache_key (a_exchange a) (a_symbol a) = Inr k'"
        "load_rows n rows (AList.update k' (a_id a, a_active a) cache) = Inr cache'"
      using Cons.prems(1) by (auto split: sum.splits)
    have "\<forall>k v. map_of (AList.update k' (a_id a, a_active a) cache) k = Some v \<longrightarrow> registered all k v"
      using Cons.prems(2,3) k'(1) by (auto simp: map_of_update registered_def)
    with Cons.IH [OF k'(2)] Cons.prems(3,4) show ?thesis by simp
  next
    case False
    then consider "length cache \<ge> n" | "length cache < n" "a_symbol a = [] \<or> a_exchange a = []"
      by linarith
    then show ?thesis
    proof cases
      case 1
      then have "cache' = cache" using Cons.prems(1) by simp
      then show ?thesis using Cons.prems(2,4) by blast
    next
      case 2
      then have "load_rows n rows cache = Inr cache'" using Cons.prems(1) by auto
      then show ?thesis using Cons.IH Cons.prems(2,3,4) by auto
    qed
  qed
qed

definition cache_from :: "asset_row list \<Rightarrow> resolver \<Rightarrow> bool" where
  "cache_from rows rs \<longleftrightarrow> (\<forall>k v. map_of (rs_cache rs) k = Some v \<longrightarrow> registered rows k v)"

lemma execute_load_from: "execute_load now (Inr rows) rs = (Inr n, rs') \<Longrightarrow> cache_from rows rs'"
  using load_rows_registered [of "rs_max_size rs" rows "[]" _ rows]
  by (auto simp: execute_load_def cache_from_def split: sum.splits)

text \<open>
  An asset is attributed only on evidence that is fresh: a resolved symbol comes from a
  registry row with the same normalised exchange and symbol, read either now or less than the
  time to live ago; and an expired cache that cannot be refreshed answers with
  \<open>AssetRegistryUnavailableError\<close>, never with a stale asset.
\<close>

theorem resolve_symbol_fresh:
  assumes "cache_from old rs" and "resolve_symbol now (Some fetched) symbol exchange rs = (answer, rs')"
    and "cache_key exchange symbol = Inr k"
  shows "(\<forall>v. answer = Inr (Some v) \<longrightarrow>
            (is_cache_valid now rs \<and> registered old k v) \<or> (\<exists>rows. fetched = Inr rows \<and> registered rows k v))
       \<and> (\<not> is_cache_valid now rs \<and> fetched = Inl e \<longrightarrow> answer = Inl registry_unavailable)"
proof -
  have ns: "py_strip symbol \<noteq> []"
    using assms(3) by (auto simp: cache_key_def normalize_symbol_def Let_def split: sum.splits if_splits)
  show ?thesis
  proof (cases "is_cache_valid now rs")
    case True
    then have "answer = Inr (map_of (rs_cache rs) k)"
      using assms(2,3) ns by (auto simp: resolve_symbol_def split: if_splits)
    then show ?thesis using True assms(1) unfolding cache_from_def by (metis sum.inject(2))
  next
    case False
    then have load: "(answer, rs') = (case execute_load now fetched rs of
          (Inl e, rs') \<Rightarrow> (Inl e, rs') | (Inr n, rs') \<Rightarrow> (Inr (map_of (rs_cache rs') k), rs'))"
      using assms(2,3) ns by (simp add: resolve_symbol_def load_cache_def)
    show ?thesis
    proof (cases fetched)
      case (Inl x)
      then show ?thesis using load by (simp add: execute_load_def)
    next
      case (Inr rows)
      show ?thesis
      proof (cases "fst (execute_load now fetched rs)")
        case (Inr n)
        then obtain rs1 where rs1: "execute_load now fetched rs = (Inr n, rs1)" by (metis prod.collapse)
        then have "cache_from rows rs1" using \<open>fetched = Inr rows\<close> execute_load_from by simp
        moreover have "answer = Inr (map_of (rs_cache rs1) k)" using load rs1 by simp
        ultimately show ?thesis
          using \<open>fetched = Inr rows\<close> unfolding cache_from_def by (metis Inl_Inr_False sum.inject(2))
      next
        case (Inl x)
        then show ?thesis using load \<open>fetched = Inr rows\<close> by (auto split: prod.splits)
      qed
    qed
  qed
qed

definition example_resolver :: resolver where
  "example_resolver = \<lparr>rs_cache = [], rs_last_loaded = 0, rs_ttl = 60000000, rs_max_size = 10000\<rparr>"

lemma resolve_symbol_fresh_witness:
  "fst (resolve_symbol 5 (Some (Inr (assets example_db))) ''btcusdt'' BINANCE_EXCHANGE example_resolver) = Inr (Some (7, True))
   \<and> registered (assets example_db) (''BINANCE'', ''BTCUSDT'') (7, True)"
proof -
  have key: "cache_key BINANCE_EXCHANGE ''btcusdt'' = Inr (''BINANCE'', ''BTCUSDT'')" by code_simp
  have "fst (resolve_symbol 5 (Some (Inr (assets example_db))) ''btcusdt'' BINANCE_EXCHANGE example_resolver)
      = Inr (Some (7, True))" by code_simp
  moreover obtain rs' where "resolve_symbol 5 (Some (Inr (assets example_db))) ''btcusdt'' BINANCE_EXCHANGE example_resolver
      = (Inr (Some (7, True)), rs')" using calculation by (metis prod.collapse)
  moreover have "cache_from [] example_resolver" "\<not> is_cache_valid 5 example_resolver"
    by (simp_all add: cache_from_def example_resolver_def is_cache_valid_def)
  ultimately show ?thesis
    using resolve_symbol_fresh [of "[]" example_resolver 5 "Inr (assets example_db)" "''btcusdt''" BINANCE_EXCHANGE
        "Inr (Some (7, True))" rs' "(''BINANCE'', ''BTCUSDT'')"] key by auto
qed

end
