(* ===== verification/Ws_Pipeline.thy ===== *)
theory Ws_Pipeline
  imports Ws_Registry
begin

text \<open>
  \<open>ws_sharding/pipeline.py\<close>: the bounded queue between a WebSocket shard and the candle tables,
  its backpressure, and the flush that resolves, orders, deduplicates and commits a batch under
  the shard's persistence fence.

  The world of a flush is the \<open>ws_world\<close> of all workers.  Every \<open>await\<close> is a suspension point:
  at the \<open>n\<close>-th one the surroundings give the clock, what the other processes did to the world,
  whether this runtime has been fenced meanwhile, and how the database answers.  Prometheus
  gauges and log lines are left out, the counters of \<open>PipelineMetrics\<close> are kept.
\<close>

section \<open>The queue\<close>

record pipeline_metrics =
  candles_received :: int
  candles_persisted :: int
  duplicate_candles :: int
  rejected_candles :: int
  unmapped_symbol_rejections :: int
  inactive_asset_rejections :: int
  batches_flushed :: int
  persistence_errors :: int
  fenced_events_discarded :: int
  queue_overflow_count :: int
  asset_overflow_count :: int
  queue_size :: int
  queue_utilization_ratio :: pyfloat
  is_degraded :: bool

record pipeline_config =
  queue_maxsize :: int
  batch_size :: int
  max_pending_per_asset :: int
  degraded_threshold :: pyfloat

text \<open>
  \<open>_pending_per_asset\<close> is a \<open>defaultdict(int)\<close>: a missing key is \<open>0\<close>.
\<close>

record pipeline =
  pl_config :: pipeline_config
  pl_queue :: "candle_event list"
  pl_pending :: "string \<Rightarrow> int"
  pl_metrics :: pipeline_metrics
  pl_running :: bool
  pl_trigger :: bool

definition validate_candle_event :: "candle_event \<Rightarrow> bool" where
  "validate_candle_event e =
     (if \<not> ev_is_closed e then False
      else if py_lower (py_strip (ev_interval e)) \<noteq> ''1m'' then False
      else if f_le (ev_open e) (Fin 0) \<or> f_le (ev_high e) (Fin 0) \<or> f_le (ev_low e) (Fin 0)
              \<or> f_le (ev_close e) (Fin 0) \<or> f_lt (ev_volume e) (Fin 0) then False
      else if f_lt (ev_high e) (f_sub (ev_low e) f_1e_9) then False
      else if f_lt (ev_open e) (f_sub (ev_low e) f_1e_9) \<or> f_lt (f_add (ev_high e) f_1e_9) (ev_open e) then False
      else if f_lt (ev_close e) (f_sub (ev_low e) f_1e_9) \<or> f_lt (f_add (ev_high e) f_1e_9) (ev_close e) then False
      else if \<not> is_aware (ev_timestamp e) then False
      else if dt_second (ev_timestamp e) \<noteq> 0 \<or> dt_microsecond (ev_timestamp e) \<noteq> 0 then False
      else if \<not> list_all f_isfinite [ev_open e, ev_high e, ev_low e, ev_close e, ev_volume e] then False
      else is_aware (ev_close_time e) \<and> \<not> utc (ev_close_time e) < utc (ev_timestamp e))"

definition update_queue_stats :: "int \<Rightarrow> int \<Rightarrow> pyfloat \<Rightarrow> pipeline_metrics \<Rightarrow> pipeline_metrics" where
  "update_queue_stats current max_size threshold m =
     (let ratio = (if max_size > 0 then fl (of_int current / of_int max_size) else Fin 0)
      in m\<lparr>queue_size := current, queue_utilization_ratio := ratio, is_degraded := f_le threshold ratio\<rparr>)"

definition record_flush_complete :: "int \<Rightarrow> pipeline_metrics \<Rightarrow> pipeline_metrics" where
  "record_flush_complete n m =
     m\<lparr>candles_persisted := candles_persisted m + n, batches_flushed := batches_flushed m + 1\<rparr>"

definition queue_len :: "pipeline \<Rightarrow> int" where
  "queue_len p = int (length (pl_queue p))"

definition refresh_stats :: "pipeline \<Rightarrow> pipeline" where
  "refresh_stats p =
     p\<lparr>pl_metrics := update_queue_stats (queue_len p) (queue_maxsize (pl_config p))
                       (degraded_threshold (pl_config p)) (pl_metrics p)\<rparr>"

text \<open>The end of \<open>enqueue_candle\<close>, once the event is in the queue.\<close>

definition accept_event :: "candle_event \<Rightarrow> pipeline \<Rightarrow> pipeline" where
  "accept_event e p =
     (let p1 = p\<lparr>pl_queue := pl_queue p @ [e],
                 pl_pending := (pl_pending p)(ev_symbol e := pl_pending p (ev_symbol e) + 1),
                 pl_metrics := (pl_metrics p)\<lparr>candles_received := candles_received (pl_metrics p) + 1\<rparr>\<rparr>;
          p2 = refresh_stats p1
      in if is_degraded (pl_metrics p2) \<or> queue_len p2 \<ge> batch_size (pl_config p2)
         then p2\<lparr>pl_trigger := True\<rparr> else p2)"

text \<open>
  \<open>enqueue_candle\<close>.  \<open>fencing_ok\<close> is the answer of the fencing check.  When the queue is full the
  coroutine waits up to two seconds for a slot: \<open>waited\<close> is what the other tasks did to the
  pipeline until a slot was free or the time was up.
\<close>

definition enqueue_candle ::
  "bool \<Rightarrow> (pipeline \<Rightarrow> pipeline) \<Rightarrow> candle_event \<Rightarrow> pipeline \<Rightarrow> bool \<times> pipeline" where
  "enqueue_candle fencing_ok waited e p =
     (let m = pl_metrics p in
      if \<not> pl_running p then (False, p)
      else if \<not> validate_candle_event e
      then (False, p\<lparr>pl_metrics := m\<lparr>rejected_candles := rejected_candles m + 1\<rparr>\<rparr>)
      else if \<not> fencing_ok
      then (False, p\<lparr>pl_metrics := m\<lparr>fenced_events_discarded := fenced_events_discarded m + 1\<rparr>\<rparr>)
      else if pl_pending p (ev_symbol e) \<ge> max_pending_per_asset (pl_config p)
      then (False, p\<lparr>pl_metrics := m\<lparr>asset_overflow_count := asset_overflow_count m + 1\<rparr>\<rparr>)
      else if queue_len p < queue_maxsize (pl_config p) then (True, accept_event e p)
      else let p' = waited (p\<lparr>pl_trigger := True\<rparr>) in
        if queue_len p' < queue_maxsize (pl_config p') then (True, accept_event e p')
        else (False, p'\<lparr>pl_metrics := (pl_metrics p')
                          \<lparr>queue_overflow_count := queue_overflow_count (pl_metrics p') + 1\<rparr>\<rparr>))"

definition pipeline_start :: "pipeline \<Rightarrow> pipeline" where
  "pipeline_start p = (if pl_running p then p else p\<lparr>pl_running := True, pl_trigger := False\<rparr>)"

text \<open>\<open>update_queue_stats(0, maxsize)\<close> in the discard uses the default threshold 0.90.\<close>

definition default_threshold :: pyfloat where
  "default_threshold = Fin (8106479329266893 / 2 ^ 53)"

definition discard_uncommitted_buffers :: "pipeline \<Rightarrow> int \<times> pipeline" where
  "discard_uncommitted_buffers p =
     (let n = queue_len p; m = pl_metrics p in
      (n, p\<lparr>pl_queue := [], pl_pending := (\<lambda>_. 0),
            pl_metrics := update_queue_stats 0 (queue_maxsize (pl_config p)) default_threshold
                            (m\<lparr>fenced_events_discarded := fenced_events_discarded m + n\<rparr>)\<rparr>))"

definition pipeline_fence :: "pipeline \<Rightarrow> int \<times> pipeline" where
  "pipeline_fence p = discard_uncommitted_buffers (p\<lparr>pl_running := False, pl_trigger := True\<rparr>)"

definition take_item :: "candle_event \<Rightarrow> (string \<Rightarrow> int) \<Rightarrow> string \<Rightarrow> int" where
  "take_item e pending =
     pending(ev_symbol e := (if pending (ev_symbol e) - 1 \<le> 0 then 0 else pending (ev_symbol e) - 1))"

fun drain_loop :: "int \<Rightarrow> candle_event list \<Rightarrow> candle_event list \<Rightarrow> (string \<Rightarrow> int)
    \<Rightarrow> candle_event list \<times> candle_event list \<times> (string \<Rightarrow> int)" where
  "drain_loop max_items batch [] pending = (batch, [], pending)"
| "drain_loop max_items batch (e # queue) pending =
     (if int (length batch) < max_items then drain_loop max_items (batch @ [e]) queue (take_item e pending)
      else (batch, e # queue, pending))"

definition drain_batch_items :: "int \<Rightarrow> pipeline \<Rightarrow> candle_event list \<times> pipeline" where
  "drain_batch_items max_items p =
     (case drain_loop max_items [] (pl_queue p) (pl_pending p) of
        (batch, queue, pending) \<Rightarrow> (batch, refresh_stats (p\<lparr>pl_queue := queue, pl_pending := pending\<rparr>)))"

section \<open>Flushing\<close>

datatype db_answer = DbOk | DbFails py_exn | DbAnswerLost py_exn

text \<open>
  \<open>Offline\<close>: no session factory.  \<open>Unfenced\<close>: a session factory without a persistence fencer.
  \<open>Fenced\<close>: what every production shard runs with.
\<close>

datatype persistence = Offline | Unfenced | Fenced lease_claim

text \<open>
  At the \<open>n\<close>-th suspension: the clock, the steps of other processes, what the stream task did
  to the pipeline, whether this runtime is fenced, whether \<open>CancelledError\<close> is delivered, and
  whether the registry can be read and how a transaction ends.
\<close>

record flush_env =
  fe_clock :: "nat \<Rightarrow> usec"
  fe_others :: "nat \<Rightarrow> ws_world \<Rightarrow> ws_world"
  fe_stream :: "nat \<Rightarrow> pipeline \<Rightarrow> pipeline"
  fe_fenced :: "nat \<Rightarrow> bool"
  fe_cancelled :: "nat \<Rightarrow> bool"
  fe_registry_up :: "nat \<Rightarrow> bool"
  fe_answer :: "nat \<Rightarrow> db_answer"

record flush_run =
  fr_pipe :: pipeline
  fr_resolver :: resolver
  fr_world :: ws_world
  fr_tick :: nat
  fr_fatal :: bool
  fr_cancelled :: bool

definition suspend :: "flush_env \<Rightarrow> flush_run \<Rightarrow> flush_run" where
  "suspend env s =
     s\<lparr>fr_pipe := fe_stream env (fr_tick s) (fr_pipe s), fr_world := fe_others env (fr_tick s) (fr_world s),
       fr_cancelled := fr_cancelled s \<or> fe_cancelled env (fr_tick s), fr_tick := fr_tick s + 1\<rparr>"

text \<open>\<open>not self.fencing_check()\<close>.\<close>

definition is_fenced_now :: "flush_env \<Rightarrow> flush_run \<Rightarrow> bool" where
  "is_fenced_now env s \<longleftrightarrow> fr_fatal s \<or> fe_fenced env (fr_tick s)"

definition count_metric :: "(pipeline_metrics \<Rightarrow> pipeline_metrics) \<Rightarrow> flush_run \<Rightarrow> flush_run" where
  "count_metric f s = s\<lparr>fr_pipe := (fr_pipe s)\<lparr>pl_metrics := f (pl_metrics (fr_pipe s))\<rparr>\<rparr>"

definition add_persistence_error :: "pipeline_metrics \<Rightarrow> pipeline_metrics" where
  "add_persistence_error m = m\<lparr>persistence_errors := persistence_errors m + 1\<rparr>"

definition add_discarded :: "int \<Rightarrow> pipeline_metrics \<Rightarrow> pipeline_metrics" where
  "add_discarded n m = m\<lparr>fenced_events_discarded := fenced_events_discarded m + n\<rparr>"

text \<open>\<open>fatal_error_callback\<close>: the runtime fences itself, and the pipeline with it.\<close>

definition fatal_error :: "flush_run \<Rightarrow> flush_run" where
  "fatal_error s = s\<lparr>fr_pipe := snd (pipeline_fence (fr_pipe s)), fr_fatal := True\<rparr>"

text \<open>Step 2: partition by asset; \<open>None\<close> when the batch is abandoned.\<close>

type_synonym asset_groups = "(asset_id \<times> candle_event list) list"

definition add_to_group :: "asset_id \<Rightarrow> candle_event \<Rightarrow> asset_groups \<Rightarrow> asset_groups" where
  "add_to_group asset e groups =
     AList.update asset ((case map_of groups asset of None \<Rightarrow> [] | Some es \<Rightarrow> es) @ [e]) groups"

definition registry_answer :: "flush_env \<Rightarrow> flush_run \<Rightarrow> py_exn + asset_row list" where
  "registry_answer env s =
     (if fe_registry_up env (fr_tick s) then Inr (assets (w_candles (fr_world s)))
      else Inl (OtherException ''OperationalError''))"

fun resolve_events ::
  "flush_env \<Rightarrow> candle_event list \<Rightarrow> asset_groups \<Rightarrow> flush_run \<Rightarrow> asset_groups option \<times> flush_run" where
  "resolve_events env [] groups s = (Some groups, s)"
| "resolve_events env (e # es) groups s =
     (let s1 = suspend env s in
      if fr_cancelled s1 then (None, s1)
      else case resolve_symbol (fe_clock env (fr_tick s)) (Some (registry_answer env s1)) (ev_symbol e)
                  BINANCE_EXCHANGE (fr_resolver s1) of
        (Inl x, rs) \<Rightarrow> (None, fatal_error (count_metric add_persistence_error (s1\<lparr>fr_resolver := rs\<rparr>)))
      | (Inr None, rs) \<Rightarrow>
          resolve_events env es groups (count_metric (\<lambda>m. m\<lparr>unmapped_symbol_rejections :=
            unmapped_symbol_rejections m + 1\<rparr>) (s1\<lparr>fr_resolver := rs\<rparr>))
      | (Inr (Some (asset, is_active)), rs) \<Rightarrow>
          if \<not> is_active
          then resolve_events env es groups (count_metric (\<lambda>m. m\<lparr>inactive_asset_rejections :=
                 inactive_asset_rejections m + 1\<rparr>) (s1\<lparr>fr_resolver := rs\<rparr>))
          else resolve_events env es (add_to_group asset e groups) (s1\<lparr>fr_resolver := rs\<rparr>))"

text \<open>Step 4: chronological order (stable) and the first event of every timestamp.\<close>

definition ev_time :: "candle_event \<Rightarrow> usec" where
  "ev_time e = utc (ev_timestamp e)"

fun dedup_loop :: "usec set \<Rightarrow> candle_event list \<Rightarrow> candle_event list" where
  "dedup_loop seen [] = []"
| "dedup_loop seen (e # es) =
     (if ev_time e \<in> seen then dedup_loop seen es else e # dedup_loop (insert (ev_time e) seen) es)"

definition dedup_events :: "candle_event list \<Rightarrow> candle_event list" where
  "dedup_events es = dedup_loop {} (sort_key ev_time es)"

definition event_payload :: "asset_id \<Rightarrow> candle_event \<Rightarrow> payload" where
  "event_payload asset e =
     \<lparr>p_timestamp = Val (ev_timestamp e), p_asset_id = Val asset, p_open = Val (ev_open e),
      p_high = Val (ev_high e), p_low = Val (ev_low e), p_close = Val (ev_close e),
      p_volume = Val (ev_volume e), p_source = Val (ev_source e),
      p_event_time = (case ev_event_time e of None \<Rightarrow> PyNone | Some d \<Rightarrow> Val d),
      p_received_at = Val (ev_received_at e)\<rparr>"

text \<open>The transaction of one asset batch against the world of its instant.\<close>

definition persist :: "persistence \<Rightarrow> usec \<Rightarrow> asset_id \<Rightarrow> payload list \<Rightarrow> ws_world \<Rightarrow> (py_exn + unit) \<times> ws_world" where
  "persist mode now asset batch w =
     (case mode of
        Offline \<Rightarrow> (Inr (), w)
      | Unfenced \<Rightarrow>
          (case commit_batch now asset batch None (w_candles w) of
             Inl e \<Rightarrow> (Inl e, w) | Inr db \<Rightarrow> (Inr (), w\<lparr>w_candles := db\<rparr>))
      | Fenced c \<Rightarrow>
          (case fenced_commit now asset batch c (w_fences w) (w_candles w) of
             Inl e \<Rightarrow> (Inl e, w) | Inr db \<Rightarrow> (Inr (), ws_exec (Commit now asset batch c) w)))"

definition transaction :: "db_answer \<Rightarrow> (py_exn + unit) \<times> ws_world \<Rightarrow> ws_world \<Rightarrow> (py_exn + unit) \<times> ws_world" where
  "transaction a res w =
     (case a of
        DbOk \<Rightarrow> res
      | DbFails e \<Rightarrow> (Inl e, w)
      | DbAnswerLost e \<Rightarrow> (Inl e, snd res))"

definition commit_asset_batch :: "flush_env \<Rightarrow> persistence \<Rightarrow> asset_id \<Rightarrow> payload list \<Rightarrow> flush_run \<Rightarrow> flush_run" where
  "commit_asset_batch env mode asset batch s =
     (if mode = Offline then count_metric (record_flush_complete (int (length batch))) s
      else let s1 = suspend env s in
        case transaction (fe_answer env (fr_tick s))
               (persist mode (fe_clock env (fr_tick s)) asset batch (fr_world s1)) (fr_world s1) of
          (Inr _, w) \<Rightarrow>
            if fr_cancelled s1 then s1\<lparr>fr_world := w\<rparr>
            else count_metric (record_flush_complete (int (length batch))) (s1\<lparr>fr_world := w\<rparr>)
        | (Inl e, w) \<Rightarrow>
            if fr_cancelled s1 then s1\<lparr>fr_world := w\<rparr>
            else if e = fence_lost
            then fatal_error (count_metric add_persistence_error (s1\<lparr>fr_world := w\<rparr>))
            else count_metric add_persistence_error (s1\<lparr>fr_world := w\<rparr>))"

fun flush_groups :: "flush_env \<Rightarrow> persistence \<Rightarrow> asset_groups \<Rightarrow> flush_run \<Rightarrow> flush_run" where
  "flush_groups env mode [] s = s"
| "flush_groups env mode ((asset, events) # groups) s =
     (if is_fenced_now env s then count_metric (add_discarded (int (length events))) s
      else let deduped = dedup_events events;
               s1 = count_metric (\<lambda>m. m\<lparr>duplicate_candles :=
                      duplicate_candles m + int (length events - length deduped)\<rparr>) s;
               s2 = commit_asset_batch env mode asset (map (event_payload asset) deduped) s1
           in if fr_cancelled s2 then s2 else flush_groups env mode groups s2)"

definition process_and_flush_batch ::
  "flush_env \<Rightarrow> persistence \<Rightarrow> candle_event list \<Rightarrow> flush_run \<Rightarrow> flush_run" where
  "process_and_flush_batch env mode batch s =
     (if batch = [] then s
      else if is_fenced_now env s then count_metric (add_discarded (int (length batch))) s
      else case resolve_events env batch [] s of
        (None, s1) \<Rightarrow> s1
      | (Some groups, s1) \<Rightarrow> flush_groups env mode groups s1)"

definition drain_run :: "flush_run \<Rightarrow> candle_event list \<times> flush_run" where
  "drain_run s =
     (case drain_batch_items (batch_size (pl_config (fr_pipe s))) (fr_pipe s) of
        (batch, p) \<Rightarrow> (batch, s\<lparr>fr_pipe := p\<rparr>))"

text \<open>
  \<open>_flusher_loop\<close>, for as many wake-ups (timer or trigger) as given: a daemon that ends when the
  pipeline stops or the task is cancelled.
\<close>

fun flusher_loop :: "flush_env \<Rightarrow> persistence \<Rightarrow> nat \<Rightarrow> flush_run \<Rightarrow> flush_run" where
  "flusher_loop env mode 0 s = s"
| "flusher_loop env mode (Suc wakes) s =
     (if \<not> pl_running (fr_pipe s) then s
      else let s1 = suspend env s in
        if fr_cancelled s1 then s1
        else let s2 = s1\<lparr>fr_pipe := (fr_pipe s1)\<lparr>pl_trigger := False\<rparr>\<rparr> in
          if \<not> pl_running (fr_pipe s2) then s2
          else case drain_run s2 of (batch, s3) \<Rightarrow>
            let s4 = (if batch \<noteq> [] then process_and_flush_batch env mode batch s3 else s3)
            in if fr_cancelled s4 then s4 else flusher_loop env mode wakes s4)"

text \<open>\<open>drain_and_flush\<close>; \<open>None\<close> would be a loop that never ends.\<close>

partial_function (option) drain_and_flush ::
  "flush_env \<Rightarrow> persistence \<Rightarrow> int \<Rightarrow> flush_run \<Rightarrow> (int \<times> flush_run) option" where
  "drain_and_flush env mode total_flushed s =
     (if pl_queue (fr_pipe s) = [] then Some (total_flushed, s)
      else case drain_run s of (batch, s1) \<Rightarrow>
        if batch = [] then Some (total_flushed, s1)
        else let s2 = process_and_flush_batch env mode batch s1
             in if fr_cancelled s2 then Some (total_flushed, s2)
                else drain_and_flush env mode (total_flushed + int (length batch)) s2)"

text \<open>
  \<open>stop\<close>; \<open>last_iteration\<close> is what the flusher task still did before it ended or was cancelled.
\<close>

definition pipeline_stop ::
  "flush_env \<Rightarrow> persistence \<Rightarrow> bool \<Rightarrow> bool \<Rightarrow> (flush_run \<Rightarrow> flush_run) \<Rightarrow> flush_run \<Rightarrow> flush_run option" where
  "pipeline_stop env mode has_flusher flush last_iteration s =
     (if \<not> pl_running (fr_pipe s) \<and> \<not> has_flusher then Some s
      else let s1 = s\<lparr>fr_pipe := (fr_pipe s)\<lparr>pl_running := False, pl_trigger := True\<rparr>\<rparr>;
               s2 = (if has_flusher then last_iteration s1 else s1)
           in if flush then map_option snd (drain_and_flush env mode 0 s2)
              else Some (s2\<lparr>fr_pipe := snd (discard_uncommitted_buffers (fr_pipe s2))\<rparr>))"

section \<open>The queue stays bounded\<close>

definition queued_of :: "string \<Rightarrow> candle_event list \<Rightarrow> int" where
  "queued_of sy q = int (length (filter (\<lambda>e. ev_symbol e = sy) q))"

definition pipe_ok :: "pipeline \<Rightarrow> bool" where
  "pipe_ok p \<longleftrightarrow> queue_len p \<le> queue_maxsize (pl_config p)
     \<and> (\<forall>sy. pl_pending p sy = queued_of sy (pl_queue p) \<and> queued_of sy (pl_queue p) \<le> max_pending_per_asset (pl_config p))
     \<and> list_all validate_candle_event (pl_queue p)"

lemma queued_of_simps [simp]:
  "queued_of sy [] = 0"
  "queued_of sy (e # q) = (if ev_symbol e = sy then 1 else 0) + queued_of sy q"
  "queued_of sy (q @ q') = queued_of sy q + queued_of sy q'"
  by (simp_all add: queued_of_def)

lemma queued_of_nonneg [simp]: "0 \<le> queued_of sy q"
  by (simp add: queued_of_def)

lemma accept_event_fields [simp]:
  "pl_queue (accept_event e p) = pl_queue p @ [e]"
  "pl_config (accept_event e p) = pl_config p"
  "pl_pending (accept_event e p) = (pl_pending p)(ev_symbol e := pl_pending p (ev_symbol e) + 1)"
  "pl_running (accept_event e p) = pl_running p"
  by (simp_all add: accept_event_def refresh_stats_def Let_def)

lemma accept_event_ok:
  assumes "pipe_ok p" and "validate_candle_event e" and "queue_len p < queue_maxsize (pl_config p)"
    and "pl_pending p (ev_symbol e) < max_pending_per_asset (pl_config p)"
  shows "pipe_ok (accept_event e p)"
  using assms by (auto simp: pipe_ok_def queue_len_def)

lemma pipe_ok_metrics [simp]: "pipe_ok (p\<lparr>pl_metrics := m\<rparr>) = pipe_ok p"
  by (simp add: pipe_ok_def queue_len_def)

lemma pipe_ok_flags [simp]:
  "pipe_ok (p\<lparr>pl_running := b\<rparr>) = pipe_ok p" "pipe_ok (p\<lparr>pl_trigger := b\<rparr>) = pipe_ok p"
  by (simp_all add: pipe_ok_def queue_len_def)

lemma refresh_stats_ok [simp]: "pipe_ok (refresh_stats p) = pipe_ok p"
  by (simp add: refresh_stats_def)

lemma drain_loop_split:
  assumes "drain_loop n batch queue pending = (batch', queue', pending')"
    and "\<forall>sy. pending sy = queued_of sy queue"
  shows "\<exists>taken. queue = taken @ queue' \<and> batch' = batch @ taken \<and> (\<forall>sy. pending' sy = queued_of sy queue')
           \<and> (queue' \<noteq> [] \<longrightarrow> n \<le> int (length batch')) \<and> (int (length batch) \<le> n \<longrightarrow> int (length batch') \<le> n)"
  using assms
proof (induction n batch queue pending rule: drain_loop.induct)
  case (1 n batch pending)
  then show ?case by auto
next
  case (2 n batch e queue pending)
  show ?case
  proof (cases "int (length batch) < n")
    case True
    have "\<forall>sy. take_item e pending sy = queued_of sy queue"
      using 2(3) by (auto simp: take_item_def intro: order_antisym)
    moreover have "drain_loop n (batch @ [e]) queue (take_item e pending) = (batch', queue', pending')"
      using 2(2) True by simp
    ultimately obtain taken where "queue = taken @ queue'" "batch' = (batch @ [e]) @ taken"
        "\<forall>sy. pending' sy = queued_of sy queue'" "queue' \<noteq> [] \<longrightarrow> n \<le> int (length batch')"
        "int (length (batch @ [e])) \<le> n \<longrightarrow> int (length batch') \<le> n"
      using 2(1) [OF True] by blast
    then show ?thesis using True by (intro exI [of _ "e # taken"]) auto
  next
    case False
    then show ?thesis using 2(2,3) by auto
  qed
qed

text \<open>A drain takes the oldest events, as many as asked for, and forgets none.\<close>

lemma drain_batch_items_ok:
  assumes "pipe_ok p" and "drain_batch_items n p = (batch, p')"
  shows "pipe_ok p'" and "pl_queue p = batch @ pl_queue p'" and "0 \<le> n \<Longrightarrow> int (length batch) \<le> n"
    and "pl_queue p' \<noteq> [] \<Longrightarrow> n \<le> int (length batch)"
    and "pl_config p' = pl_config p" and "pl_running p' = pl_running p"
    and "\<And>sy. pl_pending p' sy \<le> pl_pending p sy"
proof -
  obtain queue pending where d: "drain_loop n [] (pl_queue p) (pl_pending p) = (batch, queue, pending)"
      "p' = refresh_stats (p\<lparr>pl_queue := queue, pl_pending := pending\<rparr>)"
    using assms(2) by (auto simp: drain_batch_items_def split: prod.splits)
  have pend: "\<forall>sy. pl_pending p sy = queued_of sy (pl_queue p)" using assms(1) by (simp add: pipe_ok_def)
  obtain taken where t: "pl_queue p = taken @ queue" "batch = taken" "\<forall>sy. pending sy = queued_of sy queue"
      "queue \<noteq> [] \<longrightarrow> n \<le> int (length batch)" "0 \<le> n \<longrightarrow> int (length batch) \<le> n"
    using drain_loop_split [OF d(1) pend] by auto
  have f: "pl_queue p' = queue" "pl_config p' = pl_config p" "pl_running p' = pl_running p" "pl_pending p' = pending"
    using d(2) by (simp_all add: refresh_stats_def)
  show "pl_queue p = batch @ pl_queue p'" using t f by simp
  show "0 \<le> n \<Longrightarrow> int (length batch) \<le> n" using t by simp
  show "pl_queue p' \<noteq> [] \<Longrightarrow> n \<le> int (length batch)" using t f by simp
  show "pl_config p' = pl_config p" "pl_running p' = pl_running p" using f by simp_all
  show le: "pl_pending p' sy \<le> pl_pending p sy" for sy using t pend f by simp
  show "pipe_ok p'"
    unfolding pipe_ok_def
  proof (intro conjI allI)
    show "queue_len p' \<le> queue_maxsize (pl_config p')"
      using assms(1) t(1) f unfolding pipe_ok_def queue_len_def by simp
    show "pl_pending p' sy = queued_of sy (pl_queue p')" for sy using t f by simp
    show "queued_of sy (pl_queue p') \<le> max_pending_per_asset (pl_config p')" for sy
      using le [of sy] assms(1) t(3) f unfolding pipe_ok_def by (metis order_trans)
    show "list_all validate_candle_event (pl_queue p')"
      using assms(1) t(1) f unfolding pipe_ok_def by simp
  qed
qed

lemma discard_fields [simp]:
  "pl_queue (snd (discard_uncommitted_buffers p)) = []"
  "pl_pending (snd (discard_uncommitted_buffers p)) = (\<lambda>_. 0)"
  "pl_config (snd (discard_uncommitted_buffers p)) = pl_config p"
  "pl_running (snd (discard_uncommitted_buffers p)) = pl_running p"
  "fst (discard_uncommitted_buffers p) = queue_len p"
  by (simp_all add: discard_uncommitted_buffers_def Let_def)

lemma discard_ok: "pipe_ok p \<Longrightarrow> pipe_ok (snd (discard_uncommitted_buffers p))"
  unfolding pipe_ok_def queue_len_def by simp (metis queued_of_nonneg order_trans of_nat_0_le_iff)

lemma pipeline_fence_fields [simp]:
  "pl_queue (snd (pipeline_fence p)) = []" "\<not> pl_running (snd (pipeline_fence p))"
  "pl_config (snd (pipeline_fence p)) = pl_config p" "pl_pending (snd (pipeline_fence p)) = (\<lambda>_. 0)"
  by (simp_all add: pipeline_fence_def)

text \<open>
  What can happen to a pipeline: its single producer enqueues, and everything else (the flusher,
  fencing, discarding, counting) only takes events out.  While an enqueue waits for a slot only
  the latter happens.
\<close>

inductive consumer_steps :: "pipeline \<Rightarrow> pipeline \<Rightarrow> bool" where
  cs_refl: "consumer_steps p p"
| cs_drain: "consumer_steps p p1 \<Longrightarrow> drain_batch_items n p1 = (batch, p2) \<Longrightarrow> consumer_steps p p2"
| cs_fence: "consumer_steps p p1 \<Longrightarrow> consumer_steps p (snd (pipeline_fence p1))"
| cs_discard: "consumer_steps p p1 \<Longrightarrow> consumer_steps p (snd (discard_uncommitted_buffers p1))"
| cs_count: "consumer_steps p p1 \<Longrightarrow> consumer_steps p (p1\<lparr>pl_metrics := m\<rparr>)"
| cs_flags: "consumer_steps p p1 \<Longrightarrow> consumer_steps p (p1\<lparr>pl_trigger := b, pl_running := r\<rparr>)"

inductive pipe_reach :: "pipeline \<Rightarrow> pipeline \<Rightarrow> bool" where
  pr_refl: "pipe_reach p p"
| pr_enqueue: "pipe_reach p p1 \<Longrightarrow> (\<And>q. consumer_steps q (waited q)) \<Longrightarrow>
     pipe_reach p (snd (enqueue_candle fencing_ok waited e p1))"
| pr_consume: "pipe_reach p p1 \<Longrightarrow> consumer_steps p1 p2 \<Longrightarrow> pipe_reach p p2"

lemma consumer_steps_ok:
  assumes "consumer_steps p p'" and "pipe_ok p"
  shows "pipe_ok p' \<and> pl_config p' = pl_config p \<and> (\<forall>sy. pl_pending p' sy \<le> pl_pending p sy)"
  using assms
proof (induction rule: consumer_steps.induct)
  case (cs_drain p p1 n batch p2)
  then have ok: "pipe_ok p1" "pl_config p1 = pl_config p" "\<forall>sy. pl_pending p1 sy \<le> pl_pending p sy" by simp_all
  note d = drain_batch_items_ok [OF ok(1) cs_drain.hyps(2)]
  have "pl_pending p2 sy \<le> pl_pending p sy" for sy
    using d(7) [of sy] ok(3) order_trans by blast
  then show ?case using d(1,5) ok(2) by simp
next
  case (cs_fence p p1)
  then have "0 \<le> pl_pending p sy" for sy by (simp add: pipe_ok_def)
  then show ?case using cs_fence by (simp add: pipeline_fence_def discard_ok)
next
  case (cs_discard p p1)
  then have "0 \<le> pl_pending p sy" for sy by (simp add: pipe_ok_def)
  then show ?case using cs_discard by (simp add: discard_ok)
qed simp_all

lemma enqueue_candle_ok:
  assumes ok: "pipe_ok p" and w: "\<And>q. consumer_steps q (waited q)"
  shows "pipe_ok (snd (enqueue_candle fencing_ok waited e p))"
proof -
  let ?p' = "waited (p\<lparr>pl_trigger := True\<rparr>)"
  have p': "pipe_ok ?p'" "pl_config ?p' = pl_config p" "\<And>sy. pl_pending ?p' sy \<le> pl_pending p sy"
    using consumer_steps_ok [OF w [of "p\<lparr>pl_trigger := True\<rparr>"]] ok by simp_all
  show ?thesis
  proof (cases "pl_running p \<and> validate_candle_event e \<and> fencing_ok \<and>
                pl_pending p (ev_symbol e) < max_pending_per_asset (pl_config p)")
    case False
    then show ?thesis using ok by (auto simp: enqueue_candle_def Let_def)
  next
    case True
    then have room: "pl_pending ?p' (ev_symbol e) < max_pending_per_asset (pl_config ?p')"
      using p'(2) p'(3) [of "ev_symbol e"] by (metis order_le_less_trans)
    have 1: "queue_len p < queue_maxsize (pl_config p) \<Longrightarrow> pipe_ok (accept_event e p)"
      using accept_event_ok [OF ok] True by blast
    have 2: "queue_len ?p' < queue_maxsize (pl_config ?p') \<Longrightarrow> pipe_ok (accept_event e ?p')"
      using accept_event_ok [OF p'(1)] True room by blast
    from True 1 2 p'(1) show ?thesis by (simp add: enqueue_candle_def Let_def)
  qed
qed

definition new_metrics :: pipeline_metrics where
  "new_metrics = \<lparr>candles_received = 0, candles_persisted = 0, duplicate_candles = 0, rejected_candles = 0,
     unmapped_symbol_rejections = 0, inactive_asset_rejections = 0, batches_flushed = 0, persistence_errors = 0,
     fenced_events_discarded = 0, queue_overflow_count = 0, asset_overflow_count = 0, queue_size = 0,
     queue_utilization_ratio = Fin 0, is_degraded = False\<rparr>"

text \<open>\<open>BoundedLiveIngestionPipeline.__init__\<close>.\<close>

definition new_pipeline :: "pipeline_config \<Rightarrow> pipeline" where
  "new_pipeline cfg =
     \<lparr>pl_config = cfg, pl_queue = [], pl_pending = (\<lambda>_. 0), pl_metrics = new_metrics, pl_running = False,
      pl_trigger = False\<rparr>"

lemma new_pipeline_ok: "0 \<le> queue_maxsize cfg \<Longrightarrow> 0 \<le> max_pending_per_asset cfg \<Longrightarrow> pipe_ok (new_pipeline cfg)"
  by (simp add: pipe_ok_def new_pipeline_def queue_len_def)

lemma pipe_reach_ok: "pipe_reach p p' \<Longrightarrow> pipe_ok p \<Longrightarrow> pipe_ok p'"
proof (induction rule: pipe_reach.induct)
  case (pr_enqueue p p1 waited fencing_ok e)
  then show ?case by (blast intro: enqueue_candle_ok)
next
  case (pr_consume p p1 p2)
  then show ?case using consumer_steps_ok by blast
qed

lemma pipe_reach_config: "pipe_reach p p' \<Longrightarrow> pipe_ok p \<Longrightarrow> pl_config p' = pl_config p"
proof (induction rule: pipe_reach.induct)
  case (pr_enqueue p p1 waited fencing_ok e)
  have "pl_config (waited (p1\<lparr>pl_trigger := True\<rparr>)) = pl_config p1"
    using consumer_steps_ok [OF pr_enqueue.hyps(2)] pipe_reach_ok [OF pr_enqueue.hyps(1) pr_enqueue.prems] by simp
  then show ?case using pr_enqueue by (simp add: enqueue_candle_def Let_def)
next
  case (pr_consume p p1 p2)
  then show ?case using consumer_steps_ok pipe_reach_ok by metis
qed simp

text \<open>
  The pipeline of a shard is bounded whatever happens: in every state it can reach, the queue
  holds at most \<open>queue_maxsize\<close> events, at most \<open>max_pending_per_asset\<close> of each symbol, all of
  them validated, and the per-asset counters equal what is in the queue, so backpressure on an
  asset ends exactly when its events are drained.
\<close>

theorem pipeline_stays_bounded:
  assumes "0 \<le> queue_maxsize cfg" and "0 \<le> max_pending_per_asset cfg" and "pipe_reach (new_pipeline cfg) p"
  shows "queue_len p \<le> queue_maxsize cfg
       \<and> (\<forall>sy. pl_pending p sy = queued_of sy (pl_queue p) \<and> queued_of sy (pl_queue p) \<le> max_pending_per_asset cfg)
       \<and> list_all validate_candle_event (pl_queue p)"
proof -
  have "pipe_ok p" by (rule pipe_reach_ok [OF assms(3) new_pipeline_ok [OF assms(1,2)]])
  moreover have "pl_config p = cfg"
    using pipe_reach_config [OF assms(3) new_pipeline_ok [OF assms(1,2)]] by (simp add: new_pipeline_def)
  ultimately show ?thesis by (simp add: pipe_ok_def)
qed

section \<open>Order and deduplication\<close>

lemma dedup_loop_times: "set (map ev_time (dedup_loop seen es)) = set (map ev_time es) - seen"
  by (induction es arbitrary: seen) auto

lemma dedup_loop_subset: "set (dedup_loop seen es) \<subseteq> set es"
  by (induction es arbitrary: seen) auto

lemma dedup_loop_length: "length (dedup_loop seen es) \<le> length es"
  by (induction es arbitrary: seen) (auto simp: le_SucI)

lemma dedup_loop_strict:
  "sorted (map ev_time es) \<Longrightarrow> sorted_wrt (<) (map ev_time (dedup_loop seen es))"
proof (induction es arbitrary: seen)
  case (Cons e es)
  show ?case
  proof (cases "ev_time e \<in> seen")
    case False
    have "ev_time e < t" if "t \<in> set (map ev_time (dedup_loop (insert (ev_time e) seen) es))" for t
    proof -
      have "t \<in> set (map ev_time es)" "t \<noteq> ev_time e" using that unfolding dedup_loop_times by auto
      then show ?thesis using Cons.prems by auto
    qed
    then show ?thesis using Cons False by simp
  qed (use Cons in simp)
qed simp

lemma dedup_loop_first:
  "\<forall>e \<in> set (dedup_loop seen es). map_of (map (\<lambda>e. (ev_time e, e)) es) (ev_time e) = Some e"
proof (induction es arbitrary: seen)
  case (Cons e es)
  show ?case
  proof
    fix x assume x: "x \<in> set (dedup_loop seen (e # es))"
    show "map_of (map (\<lambda>e. (ev_time e, e)) (e # es)) (ev_time x) = Some x"
    proof (cases "ev_time x = ev_time e")
      case True
      have "ev_time x \<notin> seen" using x dedup_loop_times [of seen "e # es"] by auto
      then have "x = e \<or> x \<in> set (dedup_loop (insert (ev_time e) seen) es)" using x True by auto
      moreover have "x \<notin> set (dedup_loop (insert (ev_time e) seen) es)"
        using True dedup_loop_times [of "insert (ev_time e) seen" es] by auto
      ultimately show ?thesis by simp
    next
      case False
      then have "x \<in> set (dedup_loop seen es) \<or> x \<in> set (dedup_loop (insert (ev_time e) seen) es)"
        using x by (auto split: if_splits)
      then show ?thesis using Cons.IH False by auto
    qed
  qed
qed simp

text \<open>The kept event of a minute is the first that was received, however often the stream repeats it.\<close>

lemma dedup_events_first:
  assumes "e \<in> set (dedup_events es)"
  shows "find (\<lambda>x. ev_time x = ev_time e) es = Some e"
proof -
  have "map_of (map (\<lambda>e. (ev_time e, e)) (sort_key ev_time es)) (ev_time e) = Some e"
    using dedup_loop_first [of "{}" "sort_key ev_time es"] assms by (auto simp: dedup_events_def)
  moreover have "map_of (map (\<lambda>e. (ev_time e, e)) xs) t = find (\<lambda>x. ev_time x = t) xs" for xs t
    by (induction xs) auto
  ultimately have "find (\<lambda>x. ev_time x = ev_time e) (sort_key ev_time es) = Some e" by simp
  moreover have "find P xs = (case filter P xs of [] \<Rightarrow> None | x # _ \<Rightarrow> Some x)" for P and xs :: "candle_event list"
    by (induction xs) auto
  moreover have "filter (\<lambda>x. ev_time x = ev_time e) (sort_key ev_time es) = filter (\<lambda>x. ev_time x = ev_time e) es"
    by (rule sort_key_stable)
  ultimately show ?thesis by simp
qed

lemma dedup_events_strict: "sorted_wrt (<) (map ev_time (dedup_events es))"
  unfolding dedup_events_def by (rule dedup_loop_strict) simp

lemma dedup_events_times: "set (map ev_time (dedup_events es)) = set (map ev_time es)"
  unfolding dedup_events_def dedup_loop_times by simp

lemma dedup_events_subset: "set (dedup_events es) \<subseteq> set es"
  unfolding dedup_events_def using dedup_loop_subset [of "{}" "sort_key ev_time es"] by simp

lemma dedup_events_length: "length (dedup_events es) \<le> length es"
  unfolding dedup_events_def using dedup_loop_length [of "{}" "sort_key ev_time es"] by simp

section \<open>A queued candle is never refused by the ingestion service\<close>

lemma fl_not_NaN [simp]: "fl q \<noteq> NaN"
  by (simp add: fl_def Let_def)

lemma f_not_lt_le_num: "a \<noteq> NaN \<Longrightarrow> b \<noteq> NaN \<Longrightarrow> \<not> f_lt a b \<longleftrightarrow> f_le b a"
  by (cases a; cases b) auto

lemma ensure_utc_eq: "ensure_utc_datetime = (\<lambda>d. utc_dt (utc d))"
proof
  show "ensure_utc_datetime d = utc_dt (utc d)" for d
    by (cases d) (simp_all add: ensure_utc_datetime_def)
qed

lemma make_candle_event_Inr:
  assumes "make_candle_event raw = Inr e"
  shows "ev_timestamp e = utc_dt (ev_time e)" and "is_aware (ev_received_at e)"
    and "\<forall>d. ev_event_time e = Some d \<longrightarrow> is_aware d" and "ev_source e = ev_source raw"
    and "py_strip (ev_symbol e) = ev_symbol e"
proof -
  have e: "e = raw\<lparr>ev_symbol := py_upper (py_strip (ev_symbol raw)),
                  ev_timestamp := utc_dt (utc (ev_timestamp raw)),
                  ev_close_time := utc_dt (utc (ev_close_time raw)),
                  ev_event_time := map_option (\<lambda>d. utc_dt (utc d)) (ev_event_time raw),
                  ev_received_at := utc_dt (utc (ev_received_at raw))\<rparr>"
    using assms by (auto simp: make_candle_event_def ensure_utc_eq Let_def split: if_splits)
  show "ev_timestamp e = utc_dt (ev_time e)" "is_aware (ev_received_at e)"
    "\<forall>d. ev_event_time e = Some d \<longrightarrow> is_aware d" "ev_source e = ev_source raw"
    "py_strip (ev_symbol e) = ev_symbol e"
    by (auto simp: e ev_time_def)
qed

lemma validate_candle_event_facts:
  assumes "validate_candle_event e"
  shows "validate_numbers (ev_open e) (ev_high e) (ev_low e) (ev_close e) (ev_volume e) = Inr ()"
    and "dt_second (ev_timestamp e) = 0" and "dt_microsecond (ev_timestamp e) = 0"
proof -
  have fin: "list_all f_isfinite [ev_open e, ev_high e, ev_low e, ev_close e, ev_volume e]"
    and pos: "\<not> f_le (ev_open e) (Fin 0)" "\<not> f_le (ev_high e) (Fin 0)" "\<not> f_le (ev_low e) (Fin 0)"
      "\<not> f_le (ev_close e) (Fin 0)" "\<not> f_lt (ev_volume e) (Fin 0)"
    and rng: "\<not> f_lt (ev_high e) (f_sub (ev_low e) f_1e_9)"
      "\<not> f_lt (ev_open e) (f_sub (ev_low e) f_1e_9)" "\<not> f_lt (f_add (ev_high e) f_1e_9) (ev_open e)"
      "\<not> f_lt (ev_close e) (f_sub (ev_low e) f_1e_9)" "\<not> f_lt (f_add (ev_high e) f_1e_9) (ev_close e)"
    using assms by (simp_all add: validate_candle_event_def split: if_splits)
  show "dt_second (ev_timestamp e) = 0" "dt_microsecond (ev_timestamp e) = 0"
    using assms by (simp_all add: validate_candle_event_def split: if_splits)
  obtain o' h l c v where q: "ev_open e = Fin o'" "ev_high e = Fin h" "ev_low e = Fin l" "ev_close e = Fin c"
      "ev_volume e = Fin v"
    using fin by (auto elim!: f_isfiniteE)
  have nan: "f_sub (Fin l) f_1e_9 \<noteq> NaN" "f_add (Fin h) f_1e_9 \<noteq> NaN"
    by (simp_all add: f_sub_def f_1e_9_def)
  show "validate_numbers (ev_open e) (ev_high e) (ev_low e) (ev_close e) (ev_volume e) = Inr ()"
    using pos rng nan unfolding q by (simp add: validate_numbers_def f_not_lt_le_num min_le_iff_disj)
qed

text \<open>The default source of a connector event is \<open>binance_ws\<close>.\<close>

definition source_ok :: "candle_event \<Rightarrow> bool" where
  "source_ok e \<longleftrightarrow> py_strip (ev_source e) \<noteq> [] \<and> length (py_strip (ev_source e)) \<le> 64"

lemma event_payload_validates:
  assumes "make_candle_event raw = Inr e" and "validate_candle_event e" and "source_ok e"
  shows "\<exists>q. validate_candle_payload now asset (event_payload asset e) = Inr q \<and> p_time q = ev_time e"
proof -
  note mk = make_candle_event_Inr [OF assms(1)] and val = validate_candle_event_facts [OF assms(2)]
  have al: "minute_aligned (ev_time e)"
    using val(2,3) second_microsecond_zero_iff [of "ev_time e"]
    unfolding mk(1) dt_second_def dt_microsecond_def by (simp add: utc_dt_def)
  let ?p = "event_payload asset e"
  have ts: "validate_timestamp ?p = Inr ?p"
    using mk(1) validate_timestamp_normal [OF al, of ?p] by (simp add: event_payload_def)
  have as: "validate_asset asset ?p = Inr ?p" by (simp add: validate_asset_def event_payload_def)
  have src: "\<exists>x. validate_source ?p = Inr (?p\<lparr>p_source := Val x\<rparr>)"
    using assms(3) by (auto simp: validate_source_def source_ok_def event_payload_def Let_def)
  then obtain x where x: "validate_source ?p = Inr (?p\<lparr>p_source := Val x\<rparr>)" ..
  obtain ev where ev: "validate_provenance (p_event_time ?p) = Inr ev"
    using mk(3) by (cases "ev_event_time e") (simp_all add: validate_provenance_def event_payload_def)
  obtain rc where rc: "validate_provenance (p_received_at ?p) = Inr rc"
    using mk(2) by (simp add: validate_provenance_def event_payload_def)
  let ?q = "?p\<lparr>p_source := Val x, p_event_time := ev,
              p_received_at := (if rc = Absent then Val (utc_dt now) else rc)\<rparr>"
  have "validate_ohlcv ?q = Inr ()"
    using val(1) by (simp add: validate_ohlcv_def ohlcv_fields_def field_value_def event_payload_def)
  then have "validate_candle_payload now asset ?p = Inr ?q"
    using ts as x ev rc by (simp add: validate_candle_payload_def Let_def)
  moreover have "p_time ?q = ev_time e" by (simp add: p_time_def event_payload_def ev_time_def)
  ultimately show ?thesis by blast
qed

lemma validate_all_event_payloads:
  assumes "\<forall>e \<in> set es. (\<exists>raw. make_candle_event raw = Inr e) \<and> validate_candle_event e \<and> source_ok e"
  shows "\<exists>qs. validate_all now asset (map (event_payload asset) es) = Inr qs \<and> map p_time qs = map ev_time es"
  using assms
proof (induction es)
  case (Cons e es)
  then obtain q where "validate_candle_payload now asset (event_payload asset e) = Inr q" "p_time q = ev_time e"
    using event_payload_validates by (metis list.set_intros(1))
  then show ?case using Cons by auto
qed simp

text \<open>
  Whatever validated events are queued for an asset, in any order and with any repetitions,
  the batch the flush builds from them passes the validation of the ingestion service: it is
  strictly chronological, it contains every received minute once, and for each minute the event
  received first.  So one bad candle can never take its whole asset batch down at validation.
\<close>

theorem flushed_batch_is_prepared:
  assumes "\<forall>e \<in> set es. (\<exists>raw. make_candle_event raw = Inr e) \<and> validate_candle_event e \<and> source_ok e"
  shows "\<exists>qs. prepare_batch now asset (map (event_payload asset) (dedup_events es)) = Inr qs
       \<and> map p_time qs = map ev_time (dedup_events es) \<and> sorted_wrt (<) (map p_time qs)
       \<and> set (map p_time qs) = set (map ev_time es)
       \<and> (\<forall>e \<in> set (dedup_events es). find (\<lambda>x. ev_time x = ev_time e) es = Some e)"
proof -
  have "\<forall>e \<in> set (dedup_events es). (\<exists>raw. make_candle_event raw = Inr e) \<and> validate_candle_event e \<and> source_ok e"
    using assms dedup_events_subset by blast
  from validate_all_event_payloads [OF this, of now asset] obtain qs
    where qs: "validate_all now asset (map (event_payload asset) (dedup_events es)) = Inr qs"
      "map p_time qs = map ev_time (dedup_events es)" by blast
  have "sorted_wrt (<) (map p_time qs)" unfolding qs(2) by (rule dedup_events_strict)
  moreover from this obtain bs where "contiguous_blocks qs = Inr bs" using contiguous_blocks_Inr_iff by blast
  then have "prepare_batch now asset (map (event_payload asset) (dedup_events es)) = Inr qs"
    using qs(1) by (simp add: prepare_batch_def)
  moreover have "set (map p_time qs) = set (map ev_time es)" unfolding qs(2) by (rule dedup_events_times)
  moreover have "\<forall>e \<in> set (dedup_events es). find (\<lambda>x. ev_time x = ev_time e) es = Some e"
    using dedup_events_first by blast
  ultimately show ?thesis using qs(2) by blast
qed

section \<open>A superseded runtime writes nothing\<close>

text \<open>What only the other processes make of a world between two ticks.\<close>

definition drift :: "flush_env \<Rightarrow> nat \<Rightarrow> nat \<Rightarrow> ws_world \<Rightarrow> ws_world" where
  "drift env m n w = foldl (\<lambda>w k. fe_others env k w) w [m..<n]"

lemma drift_refl [simp]: "drift env n n w = w"
  by (simp add: drift_def)

lemma drift_step: "m \<le> n \<Longrightarrow> drift env m (Suc n) w = fe_others env n (drift env m n w)"
  by (simp add: drift_def)

lemma drift_trans: "l \<le> m \<Longrightarrow> m \<le> n \<Longrightarrow> drift env m n (drift env l m w) = drift env l n w"
  unfolding drift_def by (metis foldl_append upt_add_eq_append le_add_diff_inverse)

definition superseded :: "lease_claim \<Rightarrow> ws_world \<Rightarrow> bool" where
  "superseded c w \<longleftrightarrow> world_ok w \<and> 0 < fencing_token c \<and> fencing_token c < fence_of (cl_shard c) (w_fences w)"

lemma superseded_reach: "superseded c w \<Longrightarrow> ws_reach w w' \<Longrightarrow> superseded c w'"
  unfolding superseded_def using world_ok_reach fence_grows_reach order_less_le_trans by metis

lemma superseded_fenced_commit:
  assumes "superseded c w"
  shows "persist (Fenced c) now asset batch w = ((if batch = [] then Inr () else Inl fence_lost), w)"
proof -
  have "assert_current c (w_fences w) = Some fence_lost"
    using assms assert_current_stale [of c "w_fences w"] by (simp add: superseded_def)
  then show ?thesis by (simp add: persist_def fenced_commit_def commit_batch_def)
qed

text \<open>One step of the flush advanced the tick and left the world to the others.\<close>

definition drifted :: "flush_env \<Rightarrow> flush_run \<Rightarrow> flush_run \<Rightarrow> bool" where
  "drifted env s s' \<longleftrightarrow> fr_tick s \<le> fr_tick s' \<and> fr_world s' = drift env (fr_tick s) (fr_tick s') (fr_world s)"

lemma drifted_refl: "drifted env s s"
  by (simp add: drifted_def)

lemma drifted_trans: "drifted env s s1 \<Longrightarrow> drifted env s1 s2 \<Longrightarrow> drifted env s s2"
  by (auto simp: drifted_def drift_trans)

lemma drifted_same_world: "fr_tick s' = fr_tick s \<Longrightarrow> fr_world s' = fr_world s \<Longrightarrow> drifted env s s'"
  by (simp add: drifted_def)

lemma drifted_suspend: "drifted env s (suspend env s)"
  by (simp add: drifted_def suspend_def drift_step)

lemma world_simps [simp]:
  "fr_world (count_metric f s) = fr_world s" "fr_tick (count_metric f s) = fr_tick s"
  "fr_world (fatal_error s) = fr_world s" "fr_tick (fatal_error s) = fr_tick s"
  by (simp_all add: count_metric_def fatal_error_def)

lemma drifted_count [simp]: "drifted env s (count_metric f s') = drifted env s s'"
  "drifted env s (fatal_error s') = drifted env s s'" "drifted env s (s'\<lparr>fr_resolver := rs\<rparr>) = drifted env s s'"
  by (simp_all add: drifted_def)

lemma drifted_world_same: "drifted env s s' \<Longrightarrow> w = fr_world s' \<Longrightarrow> drifted env s (s'\<lparr>fr_world := w\<rparr>)"
  by simp

lemma drifted_resolve: "resolve_events env es groups s = (res, s') \<Longrightarrow> drifted env s s'"
proof (induction env es groups s arbitrary: res s' rule: resolve_events.induct)
  case (1 env groups s)
  then show ?case by (simp add: drifted_refl)
next
  case (2 env e es groups s)
  let ?s1 = "suspend env s"
  let ?r = "resolve_symbol (fe_clock env (fr_tick s)) (Some (registry_answer env ?s1)) (ev_symbol e)
              BINANCE_EXCHANGE (fr_resolver ?s1)"
  show ?case
  proof (cases "fr_cancelled ?s1")
    case True
    then show ?thesis using "2.prems" drifted_suspend [of env s] by (auto simp: Let_def)
  next
    case False
    obtain a rs where r: "?r = (a, rs)" by (metis prod.collapse)
    show ?thesis
    proof (cases a)
      case (Inl x)
      then show ?thesis using "2.prems" False r drifted_suspend [of env s] by (auto simp: Let_def)
    next
      case (Inr v)
      show ?thesis
      proof (cases v)
        case None
        have "drifted env ?s1 s'"
          using "2.IH"(1) [OF refl False r [symmetric] Inr None] "2.prems" False r Inr None
          by (auto simp: Let_def drifted_def)
        then show ?thesis using drifted_trans [OF drifted_suspend] by blast
      next
        case (Some p)
        obtain asset act where p: "p = (asset, act)" by (metis prod.collapse)
        have "drifted env ?s1 s'"
          using "2.IH"(2,3) [OF refl False r [symmetric] Inr Some p [symmetric]] "2.prems" False r Inr Some p
          by (cases act) (auto simp: Let_def drifted_def)
        then show ?thesis using drifted_trans [OF drifted_suspend] by blast
      qed
    qed
  qed
qed

lemma drifted_commit:
  assumes "superseded c (fr_world s)" and "\<And>n w. ws_reach w (fe_others env n w)"
  shows "drifted env s (commit_asset_batch env (Fenced c) asset batch s)"
proof -
  let ?s1 = "suspend env s"
  have "fr_world ?s1 = fe_others env (fr_tick s) (fr_world s)" by (simp add: suspend_def)
  then have "superseded c (fr_world ?s1)" using superseded_reach assms by metis
  then have w: "snd (transaction (fe_answer env (fr_tick s))
      (persist (Fenced c) (fe_clock env (fr_tick s)) asset batch (fr_world ?s1)) (fr_world ?s1)) = fr_world ?s1"
    by (simp add: superseded_fenced_commit transaction_def split: db_answer.splits)
  obtain res where t: "transaction (fe_answer env (fr_tick s))
      (persist (Fenced c) (fe_clock env (fr_tick s)) asset batch (fr_world ?s1)) (fr_world ?s1) = (res, fr_world ?s1)"
    using w by (metis prod.collapse)
  show ?thesis
    using drifted_suspend [of env s] by (simp add: commit_asset_batch_def t Let_def split: sum.splits)
qed

lemma drifted_superseded:
  assumes "superseded c w" and others: "\<And>n w. ws_reach w (fe_others env n w)"
  shows "superseded c (drift env m n w)"
proof (induction n)
  case (Suc n)
  then show ?case
    by (cases "m \<le> n") (auto simp: drift_step drift_def assms(1) intro: superseded_reach [OF _ others])
qed (simp add: drift_def assms(1))

lemma drifted_flush_groups:
  assumes "superseded c (fr_world s)" and others: "\<And>n w. ws_reach w (fe_others env n w)"
  shows "drifted env s (flush_groups env (Fenced c) groups s)"
  using assms(1)
proof (induction groups arbitrary: s)
  case Nil
  then show ?case by (simp add: drifted_refl)
next
  case (Cons g groups)
  obtain asset events where g: "g = (asset, events)" by (metis prod.collapse)
  show ?case
  proof (cases "is_fenced_now env s")
    case True
    then show ?thesis by (simp add: g drifted_refl)
  next
    case False
    let ?s1 = "count_metric (\<lambda>m. m\<lparr>duplicate_candles :=
        duplicate_candles m + int (length events - length (dedup_events events))\<rparr>) s"
    let ?s2 = "commit_asset_batch env (Fenced c) asset (map (event_payload asset) (dedup_events events)) ?s1"
    have "superseded c (fr_world ?s1)" using Cons.prems by simp
    then have "drifted env ?s1 ?s2" using others by (rule drifted_commit)
    moreover have "drifted env s ?s1" by (simp add: drifted_refl)
    ultimately have d: "drifted env s ?s2" by (rule drifted_trans [rotated])
    then have "superseded c (fr_world ?s2)"
      using drifted_superseded [OF Cons.prems others] by (simp add: drifted_def)
    then have "drifted env s (flush_groups env (Fenced c) groups ?s2)"
      using Cons.IH d drifted_trans by blast
    moreover have "flush_groups env (Fenced c) (g # groups) s =
        (if fr_cancelled ?s2 then ?s2 else flush_groups env (Fenced c) groups ?s2)"
      using False by (simp add: g Let_def)
    ultimately show ?thesis using d by (simp split: if_split)
  qed
qed

text \<open>
  A runtime that was paused past its lease and superseded never writes: whatever batch its
  flusher still holds, and whatever the registry, the clock, the database and the other workers
  do meanwhile, the world after the flush is what the other workers alone have made of it.
\<close>

theorem superseded_flush_writes_nothing:
  assumes "ws_reach (initial_world db) (fr_world s)" and "0 < fencing_token c"
    and "fencing_token c < fence_of (cl_shard c) (w_fences (fr_world s))"
    and "\<And>n w. ws_reach w (fe_others env n w)"
  shows "fr_world (process_and_flush_batch env (Fenced c) batch s)
       = drift env (fr_tick s) (fr_tick (process_and_flush_batch env (Fenced c) batch s)) (fr_world s)"
proof -
  have sup: "superseded c (fr_world s)"
    using world_ok_reach [OF assms(1) initial_world_ok] assms(2,3) by (simp add: superseded_def)
  have "drifted env s (process_and_flush_batch env (Fenced c) batch s)"
  proof (cases "batch = [] \<or> is_fenced_now env s")
    case True
    then show ?thesis by (auto simp: process_and_flush_batch_def drifted_refl)
  next
    case False
    obtain res s1 where r: "resolve_events env batch [] s = (res, s1)" by (metis prod.collapse)
    have d: "drifted env s s1" by (rule drifted_resolve [OF r])
    then have "superseded c (fr_world s1)" using drifted_superseded [OF sup assms(4)] by (simp add: drifted_def)
    from drifted_flush_groups [OF this assms(4)] have "drifted env s (flush_groups env (Fenced c) g s1)" for g
      using d drifted_trans by blast
    then show ?thesis using False r d by (auto simp: process_and_flush_batch_def split: option.splits)
  qed
  then show ?thesis by (simp add: drifted_def)
qed

section \<open>Every drained candle is accounted for\<close>

definition accounted :: "flush_run \<Rightarrow> int" where
  "accounted s = (let m = pl_metrics (fr_pipe s) in
     candles_persisted m + duplicate_candles m + unmapped_symbol_rejections m + inactive_asset_rejections m
     + fenced_events_discarded m)"

definition errors_of :: "flush_run \<Rightarrow> int" where
  "errors_of s = persistence_errors (pl_metrics (fr_pipe s))"

definition group_total :: "asset_groups \<Rightarrow> int" where
  "group_total groups = (\<Sum>g \<leftarrow> groups. int (length (snd g)))"

definition quiet_stream :: "flush_env \<Rightarrow> bool" where
  "quiet_stream env \<longleftrightarrow> (\<forall>n p. fe_stream env n p = p)"

lemma group_total_simps [simp]:
  "group_total [] = 0" "group_total (g # gs) = int (length (snd g)) + group_total gs"
  by (simp_all add: group_total_def)

lemma group_total_update:
  "group_total (AList.update a ((case map_of gs a of None \<Rightarrow> [] | Some es \<Rightarrow> es) @ [e]) gs) = group_total gs + 1"
  by (induction gs) auto

lemma group_total_add: "group_total (add_to_group a e gs) = group_total gs + 1"
  by (simp add: add_to_group_def group_total_update)

lemma suspend_accounts:
  assumes "quiet_stream env"
  shows "accounted (suspend env s) = accounted s" and "errors_of (suspend env s) = errors_of s"
    and "fr_pipe (suspend env s) = fr_pipe s" and "fr_fatal (suspend env s) = fr_fatal s"
  using assms by (simp_all add: suspend_def accounted_def errors_of_def quiet_stream_def)

lemma errors_fatal: "errors_of (fatal_error (count_metric add_persistence_error s)) = errors_of s + 1"
  by (simp add: errors_of_def fatal_error_def count_metric_def add_persistence_error_def pipeline_fence_def
      discard_uncommitted_buffers_def update_queue_stats_def Let_def)

lemma errors_count: "errors_of (count_metric add_persistence_error s) = errors_of s + 1"
  by (simp add: errors_of_def count_metric_def add_persistence_error_def)

lemma same_pipe_accounts:
  "fr_pipe s' = fr_pipe s \<Longrightarrow> accounted s' = accounted s \<and> errors_of s' = errors_of s"
  by (simp add: accounted_def errors_of_def)

lemma resolve_accounts:
  assumes "quiet_stream env" and "resolve_events env es groups s = (res, s')"
  shows "case res of
      Some groups' \<Rightarrow> accounted s' + group_total groups' = accounted s + group_total groups + int (length es)
                      \<and> errors_of s' = errors_of s \<and> fr_fatal s' = fr_fatal s
    | None \<Rightarrow> fr_cancelled s' \<or> errors_of s < errors_of s'"
  using assms
proof (induction env es groups s arbitrary: res s' rule: resolve_events.induct)
  case (1 env groups s)
  then show ?case by auto
next
  case (2 env e es groups s)
  let ?s1 = "suspend env s"
  let ?r = "resolve_symbol (fe_clock env (fr_tick s)) (Some (registry_answer env ?s1)) (ev_symbol e)
              BINANCE_EXCHANGE (fr_resolver ?s1)"
  note s1 = suspend_accounts [OF "2.prems"(1), of s]
  show ?case
  proof (cases "fr_cancelled ?s1")
    case True
    then show ?thesis using "2.prems"(2) by (auto simp: Let_def)
  next
    case False
    obtain a rs where r: "?r = (a, rs)" by (metis prod.collapse)
    have pipe: "accounted (?s1\<lparr>fr_resolver := rs\<rparr>) = accounted s" "errors_of (?s1\<lparr>fr_resolver := rs\<rparr>) = errors_of s"
      using s1 by (simp_all add: accounted_def errors_of_def)
    show ?thesis
    proof (cases a)
      case (Inl x)
      then have "res = None" "s' = fatal_error (count_metric add_persistence_error (?s1\<lparr>fr_resolver := rs\<rparr>))"
        using "2.prems"(2) False r by (auto simp: Let_def)
      then show ?thesis using errors_fatal pipe(2) by simp
    next
      case (Inr v)
      show ?thesis
      proof (cases v)
        case None
        let ?t = "count_metric (\<lambda>m. m\<lparr>unmapped_symbol_rejections := unmapped_symbol_rejections m + 1\<rparr>)
                    (?s1\<lparr>fr_resolver := rs\<rparr>)"
        have "accounted ?t = accounted s + 1" "errors_of ?t = errors_of s" "fr_fatal ?t = fr_fatal s"
          using pipe s1(4) by (simp_all add: accounted_def errors_of_def count_metric_def Let_def)
        moreover have "resolve_events env es groups ?t = (res, s')"
          using "2.prems"(2) False r Inr None by (simp add: Let_def)
        ultimately show ?thesis
          using "2.IH"(1) [OF refl False r [symmetric] Inr None "2.prems"(1)] by (auto split: option.splits)
      next
        case (Some p)
        obtain asset act where p: "p = (asset, act)" by (metis prod.collapse)
        show ?thesis
        proof (cases act)
          case True
          have "fr_fatal (?s1\<lparr>fr_resolver := rs\<rparr>) = fr_fatal s" using s1(4) by simp
          moreover have "resolve_events env es (add_to_group asset e groups) (?s1\<lparr>fr_resolver := rs\<rparr>) = (res, s')"
            using "2.prems"(2) False r Inr Some p True by (simp add: Let_def)
          ultimately show ?thesis
            using "2.IH"(3) [OF refl False r [symmetric] Inr Some p [symmetric] _ "2.prems"(1)] True pipe
            by (auto simp: group_total_add split: option.splits)
        next
          case inactive: False
          let ?t = "count_metric (\<lambda>m. m\<lparr>inactive_asset_rejections := inactive_asset_rejections m + 1\<rparr>)
                      (?s1\<lparr>fr_resolver := rs\<rparr>)"
          have "accounted ?t = accounted s + 1" "errors_of ?t = errors_of s" "fr_fatal ?t = fr_fatal s"
            using pipe s1(4) by (simp_all add: accounted_def errors_of_def count_metric_def Let_def)
          moreover have "resolve_events env es groups ?t = (res, s')"
            using "2.prems"(2) False r Inr Some p inactive by (simp add: Let_def)
          ultimately show ?thesis
            using "2.IH"(2) [OF refl False r [symmetric] Inr Some p [symmetric] _ "2.prems"(1)] inactive
            by (auto split: option.splits)
        qed
      qed
    qed
  qed
qed

lemma record_flush_accounts:
  "accounted (count_metric (record_flush_complete n) s) = accounted s + n"
  "errors_of (count_metric (record_flush_complete n) s) = errors_of s"
  "fr_fatal (count_metric f s) = fr_fatal s" "fr_cancelled (count_metric f s) = fr_cancelled s"
  by (simp_all add: accounted_def errors_of_def count_metric_def record_flush_complete_def Let_def)

lemma commit_accounts:
  assumes "quiet_stream env"
  shows "let s' = commit_asset_batch env mode asset batch s in
     errors_of s \<le> errors_of s' \<and>
     (fr_cancelled s' \<or> errors_of s < errors_of s' \<or> accounted s' = accounted s + int (length batch) \<and> fr_fatal s' = fr_fatal s)"
proof (cases "mode = Offline")
  case True
  then show ?thesis by (simp add: commit_asset_batch_def record_flush_accounts)
next
  case False
  let ?s1 = "suspend env s"
  note s1 = suspend_accounts [OF assms, of s]
  obtain res w where t: "transaction (fe_answer env (fr_tick s))
      (persist mode (fe_clock env (fr_tick s)) asset batch (fr_world ?s1)) (fr_world ?s1) = (res, w)"
    by (metis prod.collapse)
  let ?w = "?s1\<lparr>fr_world := w\<rparr>"
  have w: "accounted ?w = accounted s" "errors_of ?w = errors_of s" "fr_fatal ?w = fr_fatal s"
      "fr_cancelled ?w = fr_cancelled ?s1"
    using s1 by (simp_all add: accounted_def errors_of_def)
  show ?thesis
    using False w by (cases res) (auto simp: commit_asset_batch_def t Let_def record_flush_accounts errors_fatal errors_count)
qed

lemma flush_groups_errors:
  assumes "quiet_stream env"
  shows "errors_of s \<le> errors_of (flush_groups env mode groups s)"
proof (induction groups arbitrary: s)
  case (Cons g groups)
  obtain asset events where g: "g = (asset, events)" by (metis prod.collapse)
  let ?s1 = "count_metric (\<lambda>m. m\<lparr>duplicate_candles :=
      duplicate_candles m + int (length events - length (dedup_events events))\<rparr>) s"
  let ?s2 = "commit_asset_batch env mode asset (map (event_payload asset) (dedup_events events)) ?s1"
  have "errors_of ?s1 = errors_of s" by (simp add: errors_of_def count_metric_def)
  then have "errors_of s \<le> errors_of ?s2"
    using commit_accounts [OF assms, of mode asset "map (event_payload asset) (dedup_events events)" ?s1]
    by (simp add: Let_def)
  moreover have "errors_of ?s2 \<le> errors_of (flush_groups env mode groups ?s2)" by (rule Cons.IH)
  moreover have "errors_of (count_metric (add_discarded (int (length events))) s) = errors_of s"
    by (simp add: errors_of_def count_metric_def add_discarded_def)
  ultimately show ?case by (simp add: g Let_def)
qed simp

lemma flush_groups_accounts:
  assumes "quiet_stream env" and "\<And>n. \<not> fe_fenced env n" and "\<not> fr_fatal s"
    and "s' = flush_groups env mode groups s"
  shows "fr_cancelled s' \<or> errors_of s < errors_of s' \<or> accounted s' = accounted s + group_total groups"
  using assms(3,4)
proof (induction groups arbitrary: s)
  case (Cons g groups)
  obtain asset events where g: "g = (asset, events)" by (metis prod.collapse)
  let ?d = "dedup_events events"
  let ?s1 = "count_metric (\<lambda>m. m\<lparr>duplicate_candles := duplicate_candles m + int (length events - length ?d)\<rparr>) s"
  let ?s2 = "commit_asset_batch env mode asset (map (event_payload asset) ?d) ?s1"
  have s1: "accounted ?s1 = accounted s + int (length events - length ?d)" "errors_of ?s1 = errors_of s"
      "fr_fatal ?s1 = fr_fatal s"
    by (simp_all add: accounted_def errors_of_def count_metric_def Let_def)
  have s': "s' = (if fr_cancelled ?s2 then ?s2 else flush_groups env mode groups ?s2)"
    using Cons.prems assms(2) by (simp add: g is_fenced_now_def Let_def)
  have s2: "fr_cancelled ?s2 \<or> errors_of s < errors_of ?s2 \<or>
       accounted ?s2 = accounted s + int (length events) \<and> fr_fatal ?s2 = fr_fatal s"
      "errors_of s \<le> errors_of ?s2"
    using commit_accounts [OF assms(1), of mode asset "map (event_payload asset) ?d" ?s1] s1 dedup_events_length [of events]
    by (auto simp: Let_def)
  show ?case
  proof (cases "fr_cancelled ?s2")
    case True
    then show ?thesis using s' by simp
  next
    case False
    then have s'2: "s' = flush_groups env mode groups ?s2" using s' by simp
    have le: "errors_of ?s2 \<le> errors_of s'" unfolding s'2 by (rule flush_groups_errors [OF assms(1)])
    show ?thesis
    proof (cases "errors_of s < errors_of ?s2")
      case True
      then show ?thesis using le by simp
    next
      case no_error: False
      then have "accounted ?s2 = accounted s + int (length events)" "\<not> fr_fatal ?s2"
        using s2(1) False Cons.prems(1) by simp_all
      then show ?thesis using Cons.IH [of ?s2] s'2 s2(2) by (auto simp: g)
    qed
  qed
qed simp

text \<open>
  No drained candle disappears silently: unless the flush is cancelled, fenced or counts a
  persistence error, every event of the batch ends in exactly one of the counters (persisted,
  duplicate, unmapped, inactive).
\<close>

theorem flush_accounts_for_batch:
  assumes "quiet_stream env" and "\<And>n. \<not> fe_fenced env n" and "\<not> fr_fatal s"
    and "s' = process_and_flush_batch env mode batch s" and "\<not> fr_cancelled s'" and "errors_of s' = errors_of s"
  shows "accounted s' = accounted s + int (length batch)"
proof (cases "batch = []")
  case True
  then show ?thesis using assms(4) by (simp add: process_and_flush_batch_def)
next
  case False
  obtain res s1 where r: "resolve_events env batch [] s = (res, s1)" by (metis prod.collapse)
  have s': "s' = (case res of None \<Rightarrow> s1 | Some groups \<Rightarrow> flush_groups env mode groups s1)"
    using assms(2-4) False r by (simp add: process_and_flush_batch_def is_fenced_now_def split: option.split)
  note acc = resolve_accounts [OF assms(1) r]
  show ?thesis
  proof (cases res)
    case None
    then show ?thesis using acc s' assms(5,6) by simp
  next
    case (Some groups)
    then have s1: "accounted s1 + group_total groups = accounted s + int (length batch)"
        "errors_of s1 = errors_of s" "\<not> fr_fatal s1"
      using acc assms(3) by simp_all
    have "fr_cancelled s' \<or> errors_of s1 < errors_of s' \<or> accounted s' = accounted s1 + group_total groups"
      using flush_groups_accounts [OF assms(1,2) s1(3)] s' Some by simp
    then show ?thesis using s1 assms(5,6) by simp
  qed
qed

section \<open>Stopping terminates\<close>

text \<open>The stream task cannot add to a pipeline that is not running.\<close>

definition stopped_stream :: "flush_env \<Rightarrow> bool" where
  "stopped_stream env \<longleftrightarrow> (\<forall>n p. \<not> pl_running p \<longrightarrow>
     pl_queue (fe_stream env n p) = pl_queue p \<and> \<not> pl_running (fe_stream env n p) \<and> pl_config (fe_stream env n p) = pl_config p)"

definition shrinks :: "flush_run \<Rightarrow> flush_run \<Rightarrow> bool" where
  "shrinks s s' \<longleftrightarrow> (\<not> pl_running (fr_pipe s) \<longrightarrow> \<not> pl_running (fr_pipe s') \<and> pl_config (fr_pipe s') = pl_config (fr_pipe s)
     \<and> length (pl_queue (fr_pipe s')) \<le> length (pl_queue (fr_pipe s)))"

lemma shrinks_refl [simp]: "shrinks s s"
  by (simp add: shrinks_def)

lemma shrinks_trans: "shrinks s s1 \<Longrightarrow> shrinks s1 s2 \<Longrightarrow> shrinks s s2"
  by (auto simp: shrinks_def)

lemma shrinks_simps [simp]:
  "shrinks s (count_metric f s') = shrinks s s'" "shrinks s (s'\<lparr>fr_resolver := rs\<rparr>) = shrinks s s'"
  "shrinks s (s'\<lparr>fr_world := w\<rparr>) = shrinks s s'"
  by (simp_all add: shrinks_def count_metric_def)

lemma shrinks_suspend: "stopped_stream env \<Longrightarrow> shrinks s (suspend env s)"
  by (simp add: shrinks_def suspend_def stopped_stream_def)

lemma shrinks_fatal: "shrinks s s' \<Longrightarrow> shrinks s (fatal_error s')"
  by (auto simp: shrinks_def fatal_error_def)

lemma shrinks_resolve:
  assumes "stopped_stream env" and "resolve_events env es groups s = (res, s')"
  shows "shrinks s s'"
  using assms(2)
proof (induction es arbitrary: groups s)
  case (Cons e es)
  let ?s1 = "suspend env s"
  have s1: "shrinks s ?s1" by (rule shrinks_suspend [OF assms(1)])
  obtain a rs where r: "resolve_symbol (fe_clock env (fr_tick s)) (Some (registry_answer env ?s1)) (ev_symbol e)
              BINANCE_EXCHANGE (fr_resolver ?s1) = (a, rs)" by (metis prod.collapse)
  have ih: "shrinks s s'" if "shrinks s t" "resolve_events env es gs t = (res, s')" for gs t
    using that Cons.IH shrinks_trans by blast
  show ?case
  proof (cases "fr_cancelled ?s1")
    case True
    then show ?thesis using Cons.prems s1 by (auto simp: Let_def)
  next
    case False
    then show ?thesis
      using Cons.prems r s1 shrinks_fatal
      by (auto simp: Let_def split: sum.splits option.splits prod.splits if_splits elim!: ih [rotated])
  qed
qed simp

lemma shrinks_commit:
  assumes "stopped_stream env"
  shows "shrinks s (commit_asset_batch env mode asset batch s)"
proof (cases "mode = Offline")
  case False
  obtain res w where t: "transaction (fe_answer env (fr_tick s))
      (persist mode (fe_clock env (fr_tick s)) asset batch (fr_world (suspend env s))) (fr_world (suspend env s)) = (res, w)"
    by (metis prod.collapse)
  then show ?thesis
    using False shrinks_suspend [OF assms, of s] shrinks_fatal
    by (cases res) (auto simp: commit_asset_batch_def Let_def)
qed (simp add: commit_asset_batch_def)

lemma shrinks_flush_groups: "stopped_stream env \<Longrightarrow> shrinks s (flush_groups env mode groups s)"
proof (induction groups arbitrary: s)
  case (Cons g groups)
  obtain asset events where g: "g = (asset, events)" by (metis prod.collapse)
  let ?s1 = "count_metric (\<lambda>m. m\<lparr>duplicate_candles :=
      duplicate_candles m + int (length events - length (dedup_events events))\<rparr>) s"
  let ?s2 = "commit_asset_batch env mode asset (map (event_payload asset) (dedup_events events)) ?s1"
  have "shrinks ?s1 ?s2" by (rule shrinks_commit [OF Cons.prems])
  then have s2: "shrinks s ?s2" by (rule shrinks_trans [rotated]) simp
  moreover have "shrinks s (flush_groups env mode groups ?s2)"
    by (rule shrinks_trans [OF s2 Cons.IH [OF Cons.prems]])
  ultimately show ?case by (simp add: g Let_def)
qed simp

lemma shrinks_process: "stopped_stream env \<Longrightarrow> shrinks s (process_and_flush_batch env mode batch s)"
proof -
  assume st: "stopped_stream env"
  obtain res s1 where r: "resolve_events env batch [] s = (res, s1)" by (metis prod.collapse)
  have "shrinks s s1" by (rule shrinks_resolve [OF st r])
  moreover have "shrinks s (flush_groups env mode groups s1)" for groups
    using shrinks_trans [OF calculation shrinks_flush_groups [OF st]] .
  ultimately show ?thesis using r by (simp add: process_and_flush_batch_def split: option.split)
qed

lemma drain_loop_length:
  "drain_loop n batch queue pending = (batch', queue', pending') \<Longrightarrow>
     length batch' + length queue' = length batch + length queue \<and> length batch \<le> length batch'
     \<and> (queue \<noteq> [] \<longrightarrow> int (length batch) < n \<longrightarrow> length batch < length batch')"
  by (induction n batch queue pending rule: drain_loop.induct) (auto split: if_splits)

lemma drain_run_shrinks:
  assumes "drain_run s = (batch, s1)"
  shows "shrinks s s1" and "fr_cancelled s1 = fr_cancelled s"
    and "pl_queue (fr_pipe s) \<noteq> [] \<Longrightarrow> 0 < batch_size (pl_config (fr_pipe s)) \<Longrightarrow>
           length (pl_queue (fr_pipe s1)) < length (pl_queue (fr_pipe s)) \<and> batch \<noteq> []"
proof -
  let ?p = "fr_pipe s"
  obtain queue pending where d: "drain_loop (batch_size (pl_config ?p)) [] (pl_queue ?p) (pl_pending ?p) = (batch, queue, pending)"
      "s1 = s\<lparr>fr_pipe := refresh_stats (?p\<lparr>pl_queue := queue, pl_pending := pending\<rparr>)\<rparr>"
    using assms by (auto simp: drain_run_def drain_batch_items_def split: prod.splits)
  note len = drain_loop_length [OF d(1)]
  show "shrinks s s1" using d(2) len by (auto simp: shrinks_def refresh_stats_def)
  show "fr_cancelled s1 = fr_cancelled s" using d(2) by simp
  show "pl_queue ?p \<noteq> [] \<Longrightarrow> 0 < batch_size (pl_config ?p) \<Longrightarrow>
      length (pl_queue (fr_pipe s1)) < length (pl_queue ?p) \<and> batch \<noteq> []"
    using d(2) len by (cases batch) (auto simp: refresh_stats_def)
qed

text \<open>
  C34: Stopping a pipeline terminates: once it no longer runs, \<open>drain_and_flush\<close> returns after
  finitely many batches with an empty queue (or because it was cancelled), whatever the registry,
  the database and the other workers do.
\<close>

theorem drain_and_flush_terminates:
  assumes "stopped_stream env" and "\<not> pl_running (fr_pipe s)" and "0 < batch_size (pl_config (fr_pipe s))"
  shows "\<exists>n' s'. drain_and_flush env mode n s = Some (n', s') \<and> n \<le> n'
           \<and> (pl_queue (fr_pipe s') = [] \<or> fr_cancelled s')"
  using assms(2,3)
proof (induction "length (pl_queue (fr_pipe s))" arbitrary: s n rule: less_induct)
  case less
  show ?case
  proof (cases "pl_queue (fr_pipe s) = []")
    case True
    then show ?thesis by (subst drain_and_flush.simps) simp
  next
    case False
    obtain batch s1 where d: "drain_run s = (batch, s1)" by (metis prod.collapse)
    note dr = drain_run_shrinks [OF d]
    let ?s2 = "process_and_flush_batch env mode batch s1"
    have s2: "shrinks s ?s2" by (rule shrinks_trans [OF dr(1) shrinks_process [OF assms(1)]])
    have s12: "shrinks s1 ?s2" by (rule shrinks_process [OF assms(1)])
    have "length (pl_queue (fr_pipe ?s2)) < length (pl_queue (fr_pipe s))"
      using dr(1) dr(3) [OF False less.prems(2)] s12 less.prems(1) by (auto simp: shrinks_def)
    moreover have "\<not> pl_running (fr_pipe ?s2)" "0 < batch_size (pl_config (fr_pipe ?s2))"
      using s2 less.prems by (simp_all add: shrinks_def)
    ultimately have ih: "\<exists>n' s'. drain_and_flush env mode (n + int (length batch)) ?s2 = Some (n', s')
        \<and> n + int (length batch) \<le> n' \<and> (pl_queue (fr_pipe s') = [] \<or> fr_cancelled s')"
      by (rule less.hyps)
    have unf: "drain_and_flush env mode n s = (if fr_cancelled ?s2 then Some (n, ?s2)
        else drain_and_flush env mode (n + int (length batch)) ?s2)"
      using False d dr(3) [OF False less.prems(2)] by (subst drain_and_flush.simps) (simp add: Let_def)
    show ?thesis
    proof (cases "fr_cancelled ?s2")
      case True
      then show ?thesis using unf by auto
    next
      case not_cancelled: False
      obtain n' s' where "drain_and_flush env mode (n + int (length batch)) ?s2 = Some (n', s')"
          "n + int (length batch) \<le> n'" "pl_queue (fr_pipe s') = [] \<or> fr_cancelled s'"
        using ih by blast
      then show ?thesis using unf not_cancelled by auto
    qed
  qed
qed

section \<open>A concrete pipeline\<close>

definition example_config :: pipeline_config where
  "example_config = \<lparr>queue_maxsize = 3, batch_size = 2, max_pending_per_asset = 2, degraded_threshold = default_threshold\<rparr>"

definition example_event :: "usec \<Rightarrow> candle_event" where
  "example_event t =
     \<lparr>ev_symbol = ''BTCUSDT'', ev_interval = ''1m'', ev_timestamp = utc_dt t, ev_close_time = utc_dt (t + 59999000),
      ev_open = Fin 10, ev_high = Fin 12, ev_low = Fin 9, ev_close = Fin 11, ev_volume = Fin 5,
      ev_quote_volume = None, ev_trade_count = Some 3, ev_taker_buy_base_volume = None, ev_taker_buy_quote_volume = None,
      ev_is_closed = True,
      ev_source = ''binance_ws'', ev_event_time = None, ev_received_at = utc_dt t\<rparr>"

lemma example_event_ranges:
  "\<not> f_lt (Fin 12) (f_sub (Fin 9) f_1e_9)" "\<not> f_lt (Fin 10) (f_sub (Fin 9) f_1e_9)"
  "\<not> f_lt (Fin 11) (f_sub (Fin 9) f_1e_9)" "\<not> f_lt (f_add (Fin 12) f_1e_9) (Fin 10)"
  "\<not> f_lt (f_add (Fin 12) f_1e_9) (Fin 11)"
  by (intro f_le_not_lt f_sub_slack_le f_add_slack_ge; simp add: small_doubles)+

lemma example_strings:
  "py_strip ''BTCUSDT'' = ''BTCUSDT''" "py_upper ''BTCUSDT'' = ''BTCUSDT''" "py_lower (py_strip ''1m'') = ''1m''"
  "py_strip ''binance_ws'' = ''binance_ws''" "cache_key BINANCE_EXCHANGE ''BTCUSDT'' = Inr (''BINANCE'', ''BTCUSDT'')"
  by code_simp+

lemma example_event_valid:
  assumes "minute_aligned t"
  shows "validate_candle_event (example_event t)"
  using assms second_microsecond_zero_iff [of t] example_event_ranges
  by (simp add: validate_candle_event_def example_event_def example_strings dt_second_def dt_microsecond_def utc_dt_def)

lemma example_event_made: "make_candle_event (example_event t) = Inr (example_event t)"
  using example_event_ranges
  by (simp add: make_candle_event_def negative_volume_def ohlc_invariants_def example_event_def example_strings ensure_utc_eq Let_def)

lemma example_event_source: "source_ok (example_event t)"
  by (simp add: source_ok_def example_event_def example_strings)

lemma pipeline_stays_bounded_witness:
  "let p = snd (enqueue_candle True (\<lambda>q. q) (example_event 0) ((new_pipeline example_config)\<lparr>pl_trigger := False, pl_running := True\<rparr>))
   in queue_len p \<le> 3 \<and> pl_pending p ''BTCUSDT'' = queued_of ''BTCUSDT'' (pl_queue p)"
proof -
  have "pipe_reach (new_pipeline example_config) ((new_pipeline example_config)\<lparr>pl_trigger := False, pl_running := True\<rparr>)"
    by (rule pr_consume [OF pr_refl cs_flags [OF cs_refl]])
  from pr_enqueue [OF this, of "\<lambda>q. q" True "example_event 0"] cs_refl
  have "pipe_reach (new_pipeline example_config) (snd (enqueue_candle True (\<lambda>q. q) (example_event 0)
      ((new_pipeline example_config)\<lparr>pl_trigger := False, pl_running := True\<rparr>)))" by blast
  from pipeline_stays_bounded [OF _ _ this] show ?thesis by (simp add: example_config_def Let_def)
qed

lemma flushed_batch_is_prepared_witness:
  "\<exists>qs. prepare_batch 9 7 (map (event_payload 7) (dedup_events [example_event minute_us, example_event 0, example_event 0]))
          = Inr qs \<and> map p_time qs = [0, minute_us]"
proof -
  have ok: "\<forall>e \<in> set [example_event minute_us, example_event 0, example_event 0].
      (\<exists>raw. make_candle_event raw = Inr e) \<and> validate_candle_event e \<and> source_ok e"
    using example_event_made example_event_valid [of 0] example_event_valid [of minute_us] example_event_source
    by (auto simp: minute_aligned_def)
  have "map ev_time (dedup_events [example_event minute_us, example_event 0, example_event 0]) = [0, minute_us]"
    by (simp add: dedup_events_def ev_time_def example_event_def)
  then show ?thesis using flushed_batch_is_prepared [OF ok, of 9 7] by auto
qed

definition example_env :: flush_env where
  "example_env = \<lparr>fe_clock = (\<lambda>n. 30000000 + int n), fe_others = (\<lambda>n w. w), fe_stream = (\<lambda>n p. p), fe_fenced = (\<lambda>n. False),
     fe_cancelled = (\<lambda>n. False), fe_registry_up = (\<lambda>n. True), fe_answer = (\<lambda>n. DbOk)\<rparr>"

definition example_run :: "candle_event list \<Rightarrow> flush_run" where
  "example_run q = \<lparr>fr_pipe = (new_pipeline example_config)\<lparr>pl_queue := q\<rparr>,
     fr_resolver = example_resolver\<lparr>rs_cache := [((''BINANCE'', ''BTCUSDT''), (7, True))], rs_last_loaded := 1\<rparr>,
     fr_world = ws_exec (Register new_claim) taken_over, fr_tick = 0, fr_fatal = False, fr_cancelled = False\<rparr>"

lemma example_world_reach: "ws_reach (initial_world example_db) (ws_exec (Register new_claim) taken_over)"
  by (rule ws_step [OF taken_over_reach]) (simp add: op_enabled_def taken_over_claims)

lemma superseded_flush_writes_nothing_witness:
  "w_candles (fr_world (process_and_flush_batch example_env (Fenced old_claim) [example_event 0] (example_run []))) = example_db"
proof -
  have w: "fr_world (example_run []) = ws_exec (Register new_claim) taken_over" by (simp add: example_run_def)
  have "fencing_token old_claim < fence_of (cl_shard old_claim) (w_fences (ws_exec (Register new_claim) taken_over))"
    by (simp add: taken_over_def lease_eval fence_of_def)
  moreover have "0 < fencing_token old_claim" by (simp add: old_claim_def)
  moreover have "ws_reach x (fe_others example_env n x)" for n x by (simp add: example_env_def ws_refl)
  ultimately have "fr_world (process_and_flush_batch example_env (Fenced old_claim) [example_event 0] (example_run []))
      = drift example_env 0 (fr_tick (process_and_flush_batch example_env (Fenced old_claim) [example_event 0] (example_run [])))
          (ws_exec (Register new_claim) taken_over)"
    using superseded_flush_writes_nothing [of example_db "example_run []" old_claim example_env] example_world_reach
    unfolding w by (simp add: example_run_def)
  moreover have "drift example_env m n x = x" for m n x
    by (induction n) (auto simp: drift_def example_env_def)
  moreover have "w_candles (ws_exec (Register new_claim) taken_over) = example_db"
    by (simp add: taken_over_def lease_eval)
  ultimately show ?thesis by simp
qed

lemma suspend_example: "suspend example_env s = s\<lparr>fr_tick := Suc (fr_tick s)\<rparr>"
  by (cases s) (simp add: suspend_def example_env_def)

lemma resolve_example:
  "now < 60000000 \<Longrightarrow> resolve_symbol now src (ev_symbol (example_event t)) BINANCE_EXCHANGE
     (fr_resolver ((example_run q)\<lparr>fr_tick := n\<rparr>)) = (Inr (Some (7, True)), fr_resolver (example_run q))"
  by (simp add: resolve_symbol_def example_strings example_run_def is_cache_valid_def example_resolver_def example_event_def)

lemma flush_accounts_for_batch_witness:
  "accounted (process_and_flush_batch example_env Offline [example_event 0, example_event 0] (example_run [])) = 2"
proof -
  let ?run = "example_run []"
  let ?s' = "process_and_flush_batch example_env Offline [example_event 0, example_event 0] ?run"
  have clock: "fe_clock example_env n = 30000000 + int n" for n by (simp add: example_env_def)
  have same: "x\<lparr>fr_tick := n, fr_resolver := fr_resolver x\<rparr> = x\<lparr>fr_tick := n\<rparr>" for x :: flush_run and n by (cases x) simp
  have tick: "fr_tick ?run = 0" "\<not> fr_cancelled ?run" by (simp_all add: example_run_def)
  have res: "resolve_events example_env [example_event 0, example_event 0] [] ?run =
      (Some [(7, [example_event 0, example_event 0])], ?run\<lparr>fr_tick := 2\<rparr>)"
    using resolve_example [where t = 0 and q = "[]"] tick same [of ?run]
    by (simp add: suspend_example clock add_to_group_def numeral_2_eq_2)
  have fenced: "\<not> is_fenced_now example_env ?run" "\<not> is_fenced_now example_env (?run\<lparr>fr_tick := 2\<rparr>)"
    by (simp_all add: is_fenced_now_def example_env_def example_run_def)
  have e: "\<not> fr_cancelled ?s' \<and> errors_of ?s' = errors_of ?run"
    using res fenced tick(2)
    by (simp add: process_and_flush_batch_def commit_asset_batch_def record_flush_accounts Let_def)
       (simp add: errors_of_def count_metric_def)
  have "accounted ?s' = accounted ?run + int (length [example_event 0, example_event 0])"
    by (rule flush_accounts_for_batch) (use e in \<open>auto simp: quiet_stream_def example_env_def example_run_def\<close>)
  then show ?thesis by (simp add: example_run_def accounted_def new_pipeline_def new_metrics_def)
qed

lemma drain_and_flush_terminates_witness:
  "\<exists>n s'. drain_and_flush example_env (Fenced new_claim) 0 (example_run [example_event 0]) = Some (n, s')
     \<and> (pl_queue (fr_pipe s') = [] \<or> fr_cancelled s')"
  using drain_and_flush_terminates [of example_env "example_run [example_event 0]" "Fenced new_claim" 0]
  by (auto simp: stopped_stream_def example_env_def example_run_def new_pipeline_def example_config_def)

end
