(* ===== verification/Shard_Runtime.thy ===== *)
theory Shard_Runtime
  imports Ws_Pipeline
begin

text \<open>
  \<open>ws_sharding/runtime.py\<close> and \<open>supervisor.py\<close>: the life of an owned shard, and the supervisor
  that acquires leases, registers their generation, renews them and fences what it loses.

  A task is present or not; the identity of a runtime is its claim.  An \<open>await\<close> of the
  supervisor is a suspension point at which \<open>sup_env\<close> gives the clock, the steps of the other
  workers and the way Redis and the database answer.  The WebSocket client is its being
  connected and the events it yields.
\<close>

section \<open>The runtime of a shard\<close>

datatype runtime_state = INITIALIZING | RUNNING | FENCED | STOPPED

definition MAX_UNCOMMITTED_BUFFERS :: nat where
  "MAX_UNCOMMITTED_BUFFERS = 1000"

record shard_runtime =
  rt_shard :: int
  rt_symbols :: "string list"
  rt_claim :: lease_claim
  rt_state :: runtime_state
  rt_accepting :: bool
  rt_buffers :: "candle_event list"
  rt_pipeline :: "pipeline option"
  rt_flusher :: bool
  rt_client :: bool
  rt_stream :: bool

text \<open>\<open>ShardRuntime.__init__\<close>.\<close>

definition new_runtime :: "int \<Rightarrow> string list \<Rightarrow> lease_claim \<Rightarrow> shard_runtime" where
  "new_runtime shard symbols claim =
     \<lparr>rt_shard = shard, rt_symbols = sorted_list_of_set (set symbols), rt_claim = claim,
      rt_state = INITIALIZING, rt_accepting = False, rt_buffers = [], rt_pipeline = None,
      rt_flusher = False, rt_client = False, rt_stream = False\<rparr>"

definition is_accepting_work :: "shard_runtime \<Rightarrow> bool" where
  "is_accepting_work rt \<longleftrightarrow> rt_accepting rt \<and> rt_state rt = RUNNING"

definition buffer_count :: "shard_runtime \<Rightarrow> int" where
  "buffer_count rt =
     int (length (rt_buffers rt)) + (case rt_pipeline rt of None \<Rightarrow> 0 | Some p \<Rightarrow> queue_len p)"

definition add_uncommitted_buffer :: "candle_event \<Rightarrow> shard_runtime \<Rightarrow> bool \<times> shard_runtime" where
  "add_uncommitted_buffer item rt =
     (if \<not> is_accepting_work rt then (False, rt)
      else if length (rt_buffers rt) \<ge> MAX_UNCOMMITTED_BUFFERS then (False, rt)
      else (True, rt\<lparr>rt_buffers := rt_buffers rt @ [item]\<rparr>))"

text \<open>The pipeline's \<open>fencing_check\<close> is \<open>is_running and not is_fenced\<close> of the runtime.\<close>

definition runtime_enqueue :: "(pipeline \<Rightarrow> pipeline) \<Rightarrow> candle_event \<Rightarrow> shard_runtime \<Rightarrow> bool \<times> shard_runtime" where
  "runtime_enqueue waited e rt =
     (if \<not> is_accepting_work rt then (False, rt)
      else case rt_pipeline rt of
        None \<Rightarrow> (False, rt)
      | Some p \<Rightarrow>
          (case enqueue_candle (rt_state rt = RUNNING) waited e p of
             (ok, p') \<Rightarrow> (ok, rt\<lparr>rt_pipeline := Some p'\<rparr>)))"

definition clear_uncommitted_buffers :: "shard_runtime \<Rightarrow> int \<times> shard_runtime" where
  "clear_uncommitted_buffers rt =
     (case rt_pipeline rt of
        None \<Rightarrow> (int (length (rt_buffers rt)), rt\<lparr>rt_buffers := []\<rparr>)
      | Some p \<Rightarrow>
          (case discard_uncommitted_buffers p of
             (n, p') \<Rightarrow> (int (length (rt_buffers rt)) + n, rt\<lparr>rt_buffers := [], rt_pipeline := Some p'\<rparr>)))"

definition runtime_fence :: "shard_runtime \<Rightarrow> shard_runtime" where
  "runtime_fence rt =
     (if rt_state rt = FENCED then rt
      else rt\<lparr>rt_buffers := [], rt_pipeline := map_option (\<lambda>p. snd (pipeline_fence p)) (rt_pipeline rt),
              rt_state := FENCED, rt_accepting := False, rt_stream := False\<rparr>)"

text \<open>\<open>has_factory\<close>: a WebSocket client factory was given.\<close>

definition runtime_start :: "pipeline_config \<Rightarrow> bool \<Rightarrow> shard_runtime \<Rightarrow> py_exn + shard_runtime" where
  "runtime_start cfg has_factory rt =
     (if rt_state rt = FENCED then Inl (RuntimeError ''Cannot start a fenced shard runtime'')
      else let connect = (rt_symbols rt \<noteq> [] \<and> has_factory)
           in Inr (rt\<lparr>rt_state := RUNNING, rt_accepting := True,
                      rt_pipeline := Some (pipeline_start (new_pipeline cfg)), rt_flusher := True,
                      rt_client := connect \<or> rt_client rt, rt_stream := connect \<or> rt_stream rt\<rparr>))"

text \<open>
  \<open>_consume_final_candles\<close>: the events the client yields, with what the other tasks do to the
  runtime before each; \<open>raised\<close> if the stream ends with an exception.
\<close>

fun consume_final_candles ::
  "(shard_runtime \<Rightarrow> shard_runtime) \<Rightarrow> (pipeline \<Rightarrow> pipeline) \<Rightarrow> candle_event list \<Rightarrow> bool \<Rightarrow> shard_runtime \<Rightarrow> shard_runtime" where
  "consume_final_candles others waited [] raised rt = (if raised then runtime_fence rt else rt)"
| "consume_final_candles others waited (e # es) raised rt =
     (let rt1 = others rt in
      if \<not> is_accepting_work rt1 then rt1
      else consume_final_candles others waited es raised (snd (runtime_enqueue waited e rt1)))"

text \<open>\<open>stop\<close>: a fenced runtime never flushes.\<close>

definition runtime_stop ::
  "flush_env \<Rightarrow> persistence \<Rightarrow> (flush_run \<Rightarrow> flush_run) \<Rightarrow> shard_runtime \<Rightarrow> flush_run
     \<Rightarrow> (shard_runtime \<times> flush_run) option" where
  "runtime_stop env mode last_iteration rt s =
     (if rt_state rt = STOPPED then Some (rt, s)
      else let was_fenced = (rt_state rt = FENCED);
               rt1 = rt\<lparr>rt_accepting := False, rt_client := False, rt_stream := False, rt_buffers := [],
                        rt_state := (if was_fenced then FENCED else STOPPED)\<rparr>
           in case rt_pipeline rt of
             None \<Rightarrow> Some (rt1, s)
           | Some p \<Rightarrow>
               (case pipeline_stop env mode (rt_flusher rt) (\<not> was_fenced) last_iteration (s\<lparr>fr_pipe := p\<rparr>) of
                  None \<Rightarrow> None
                | Some s' \<Rightarrow> Some (rt1\<lparr>rt_pipeline := Some (fr_pipe s'), rt_flusher := False\<rparr>, s')))"

section \<open>The supervisor\<close>

record supervisor =
  sv_worker :: string
  sv_settings :: ws_settings
  sv_symbols :: "string list"
  sv_num_shards :: int
  sv_candidates :: "int list"
  sv_ttl_ms :: int
  sv_pipeline_config :: pipeline_config
  sv_has_database :: bool
  sv_has_factory :: bool
  sv_active :: "int \<Rightarrow> shard_runtime option"
  sv_claims :: "int \<Rightarrow> lease_claim option"
  sv_heartbeats :: "int \<Rightarrow> lease_claim option"
  sv_running :: bool

text \<open>\<open>__init__\<close>: the capacity preflight and the check of the candidates.\<close>

definition new_supervisor ::
  "ws_settings \<Rightarrow> string \<Rightarrow> int option \<Rightarrow> int list option \<Rightarrow> string list \<Rightarrow> int \<Rightarrow> pipeline_config \<Rightarrow> bool \<Rightarrow> bool
     \<Rightarrow> py_exn + supervisor" where
  "new_supervisor cfg worker num_shards_arg candidate_shards symbols ttl_ms pcfg has_db has_factory =
     (case normalize_all symbols of
        Inl e \<Rightarrow> Inl e
      | Inr cs \<Rightarrow>
          let syms = sorted_list_of_set (set cs);
              n = (case num_shards_arg of Some n \<Rightarrow> if n \<noteq> 0 then n else WS_NUM_SHARDS cfg | None \<Rightarrow> WS_NUM_SHARDS cfg)
          in case required_shard_count cfg syms (Some (BINANCE_WS_MAX_STREAMS_PER_CONNECTION cfg)) (Some 1) of
            Inl e \<Rightarrow> Inl e
          | Inr required \<Rightarrow>
              if required > n then Inl (OtherException ''ShardCapacityError'')
              else let cands = (case candidate_shards of Some c \<Rightarrow> sort c | None \<Rightarrow> [0..n - 1])
                   in if \<exists>c \<in> set cands. c < 0 \<or> c \<ge> n
                      then Inl (ValueError ''candidate shards outside capacity-safe range'')
                      else Inr \<lparr>sv_worker = worker, sv_settings = cfg, sv_symbols = syms, sv_num_shards = n,
                                sv_candidates = cands, sv_ttl_ms = ttl_ms, sv_pipeline_config = pcfg,
                                sv_has_database = has_db, sv_has_factory = has_factory,
                                sv_active = (\<lambda>_. None), sv_claims = (\<lambda>_. None), sv_heartbeats = (\<lambda>_. None),
                                sv_running = False\<rparr>)"

text \<open>The surroundings of one acquisition attempt.\<close>

record sup_env =
  se_uuid :: string
  se_now :: "nat \<Rightarrow> usec"
  se_others :: "nat \<Rightarrow> ws_world \<Rightarrow> ws_world"
  se_redis :: "nat \<Rightarrow> fault"
  se_register :: db_answer
  se_start_fails :: bool

definition is_active_running :: "supervisor \<Rightarrow> int \<Rightarrow> bool" where
  "is_active_running sv shard \<longleftrightarrow>
     (case sv_active sv shard of None \<Rightarrow> False | Some rt \<Rightarrow> rt_state rt = RUNNING)"

text \<open>\<open>release_shard_lease\<close> and \<open>return False\<close>; the release is the fourth suspension.\<close>

definition give_up :: "sup_env \<Rightarrow> int \<Rightarrow> lease_claim \<Rightarrow> supervisor \<Rightarrow> ws_world \<Rightarrow> (py_exn + bool) \<times> supervisor \<times> ws_world" where
  "give_up env shard claim sv w =
     (Inr False, sv, ws_exec (Release (se_redis env 3) (se_now env 3) shard claim) (se_others env 3 w))"

text \<open>The registration of the generation and the renewal after it; \<open>None\<close> when the attempt gives up.\<close>

definition register_and_renew :: "sup_env \<Rightarrow> int \<Rightarrow> lease_claim \<Rightarrow> supervisor \<Rightarrow> ws_world \<Rightarrow> bool \<times> ws_world" where
  "register_and_renew env shard claim sv w =
     (case persistence_fencer claim of
        Inl e \<Rightarrow> (False, w)
      | Inr c \<Rightarrow>
          let w1 = se_others env 1 w;
              registered = fst (register_claim c (w_fences w1))
          in case se_register env of
            DbFails e \<Rightarrow> (False, w1)
          | DbAnswerLost e \<Rightarrow> (False, ws_exec (Register c) w1)
          | DbOk \<Rightarrow>
              let w2 = ws_exec (Register c) w1 in
              if \<not> registered then (False, w2)
              else let w3 = se_others env 2 w2 in
                (case renew_shard_lease (se_redis env 2) (se_now env 2) shard claim (sv_ttl_ms sv) (w_redis w3) of
                   (Inr True, r) \<Rightarrow> (True, w3\<lparr>w_redis := r\<rparr>)
                 | (_, r) \<Rightarrow> (False, w3\<lparr>w_redis := r\<rparr>)))"

definition start_shard :: "sup_env \<Rightarrow> int \<Rightarrow> lease_claim \<Rightarrow> supervisor \<Rightarrow> ws_world \<Rightarrow> (py_exn + bool) \<times> supervisor \<times> ws_world" where
  "start_shard env shard claim sv w =
     (case get_symbols_for_shard (sv_settings sv) (sv_symbols sv) shard (Some (sv_num_shards sv))
             (Some (BINANCE_WS_MAX_STREAMS_PER_CONNECTION (sv_settings sv))) of
        Inl e \<Rightarrow> (Inl e, sv, w)
      | Inr symbols \<Rightarrow>
          if se_start_fails env then give_up env shard claim sv w
          else case runtime_start (sv_pipeline_config sv) (sv_has_factory sv) (new_runtime shard symbols claim) of
            Inl e \<Rightarrow> give_up env shard claim sv w
          | Inr rt \<Rightarrow>
              (Inr True, sv\<lparr>sv_active := (sv_active sv)(shard := Some rt),
                            sv_claims := (sv_claims sv)(shard := Some claim),
                            sv_heartbeats := (sv_heartbeats sv)(shard := Some claim)\<rparr>, w))"

definition attempt_acquire_shard ::
  "sup_env \<Rightarrow> int \<Rightarrow> supervisor \<Rightarrow> ws_world \<Rightarrow> (py_exn + bool) \<times> supervisor \<times> ws_world" where
  "attempt_acquire_shard env shard sv w =
     (if is_active_running sv shard then (Inr True, sv, w)
      else let w0 = se_others env 0 w;
               op = Acquire (se_redis env 0) (se_now env 0) (se_uuid env) shard (sv_worker sv) (sv_ttl_ms sv)
           in case fst (acquire_shard_lease (se_redis env 0) (se_now env 0) (se_uuid env) shard (sv_worker sv)
                          (sv_ttl_ms sv) (w_redis w0)) of
             Inl e \<Rightarrow> (Inr False, sv, ws_exec op w0)
           | Inr None \<Rightarrow> (Inr False, sv, ws_exec op w0)
           | Inr (Some claim) \<Rightarrow>
               if sv_has_database sv
               then case register_and_renew env shard claim sv (ws_exec op w0) of
                      (True, w1) \<Rightarrow> start_shard env shard claim sv w1
                    | (False, w1) \<Rightarrow> give_up env shard claim sv w1
               else start_shard env shard claim sv (ws_exec op w0))"

text \<open>\<open>attempt_acquire_all_candidates\<close>, with fresh surroundings for every attempt.\<close>

fun acquire_candidates ::
  "(nat \<Rightarrow> sup_env) \<Rightarrow> nat \<Rightarrow> int list \<Rightarrow> supervisor \<Rightarrow> ws_world \<Rightarrow> (py_exn + (int \<times> bool) list) \<times> supervisor \<times> ws_world" where
  "acquire_candidates envs k [] sv w = (Inr [], sv, w)"
| "acquire_candidates envs k (shard # rest) sv w =
     (case attempt_acquire_shard (envs k) shard sv w of
        (Inl e, sv1, w1) \<Rightarrow> (Inl e, sv1, w1)
      | (Inr b, sv1, w1) \<Rightarrow>
          (case acquire_candidates envs (Suc k) rest sv1 w1 of
             (Inl e, sv2, w2) \<Rightarrow> (Inl e, sv2, w2)
           | (Inr bs, sv2, w2) \<Rightarrow> (Inr ((shard, b) # bs), sv2, w2)))"

definition supervisor_start ::
  "(nat \<Rightarrow> sup_env) \<Rightarrow> supervisor \<Rightarrow> ws_world \<Rightarrow> (py_exn + (int \<times> bool) list) \<times> supervisor \<times> ws_world" where
  "supervisor_start envs sv w = acquire_candidates envs 0 (sv_candidates sv) (sv\<lparr>sv_running := True\<rparr>) w"

section \<open>Heartbeats\<close>

text \<open>
  The surroundings of stopping a runtime: those of the flush, the persistence mode, what the
  flusher task still did before its cancellation took effect, and the run state whose pipeline
  and world are the runtime's.
\<close>

record stop_env =
  st_flush :: flush_env
  st_mode :: persistence
  st_last :: "flush_run \<Rightarrow> flush_run"
  st_run :: flush_run

definition stop_in_world :: "stop_env \<Rightarrow> shard_runtime \<Rightarrow> ws_world \<Rightarrow> (shard_runtime \<times> ws_world) option" where
  "stop_in_world st rt w =
     map_option (\<lambda>(rt', s). (rt', fr_world s))
       (runtime_stop (st_flush st) (st_mode st) (st_last st) rt ((st_run st)\<lparr>fr_world := w\<rparr>))"

text \<open>\<open>_cleanup_fenced_shard\<close>, called from the heartbeat task of \<open>claim\<close>.\<close>

definition cleanup_fenced_shard ::
  "stop_env \<Rightarrow> int \<Rightarrow> lease_claim \<Rightarrow> supervisor \<Rightarrow> shard_runtime \<Rightarrow> ws_world
     \<Rightarrow> (supervisor \<times> shard_runtime \<times> ws_world) option" where
  "cleanup_fenced_shard st shard claim sv rt w =
     (let sv1 = sv\<lparr>sv_claims := (sv_claims sv)(shard := None)\<rparr>;
          sv2 = (if map_option rt_claim (sv_active sv1 shard) = Some (rt_claim rt)
                 then sv1\<lparr>sv_active := (sv_active sv1)(shard := None)\<rparr> else sv1);
          sv3 = (if sv_heartbeats sv2 shard = Some claim
                 then sv2\<lparr>sv_heartbeats := (sv_heartbeats sv2)(shard := None)\<rparr> else sv2)
      in map_option (\<lambda>(rt', w'). (sv3, rt', w')) (stop_in_world st rt w))"

text \<open>
  One turn of the sleep: cancelled, or woken at a time, after other tasks of the process acted
  on the supervisor and this runtime and other workers on the world.
\<close>

datatype heartbeat_event =
    SleepCancelled
  | Woken usec fault "supervisor \<times> shard_runtime \<Rightarrow> supervisor \<times> shard_runtime" "ws_world \<Rightarrow> ws_world"

fun shard_heartbeat_loop ::
  "stop_env \<Rightarrow> int \<Rightarrow> lease_claim \<Rightarrow> heartbeat_event list \<Rightarrow> supervisor \<Rightarrow> shard_runtime \<Rightarrow> ws_world
     \<Rightarrow> (supervisor \<times> shard_runtime \<times> ws_world) option" where
  "shard_heartbeat_loop st shard claim [] sv rt w = Some (sv, rt, w)"
| "shard_heartbeat_loop st shard claim (ev # evs) sv rt w =
     (if \<not> (sv_running sv \<and> rt_state rt = RUNNING) then Some (sv, rt, w)
      else case ev of
        SleepCancelled \<Rightarrow> Some (sv, rt, w)
      | Woken now f tasks others \<Rightarrow>
          (case tasks (sv, rt) of (sv1, rt1) \<Rightarrow>
             let w1 = others w in
             if \<not> (sv_running sv1 \<and> rt_state rt1 = RUNNING) then Some (sv1, rt1, w1)
             else case renew_shard_lease f now shard claim (sv_ttl_ms sv1) (w_redis w1) of
               (Inr True, r) \<Rightarrow> shard_heartbeat_loop st shard claim evs sv1 rt1 (w1\<lparr>w_redis := r\<rparr>)
             | (_, r) \<Rightarrow> cleanup_fenced_shard st shard claim sv1 (runtime_fence rt1) (w1\<lparr>w_redis := r\<rparr>)))"

section \<open>Shutdown\<close>

text \<open>
  Heartbeats are cancelled first, then every active runtime is fenced and stopped, then every
  held lease released.  The active shards are among the candidates.
\<close>

fun stop_runtimes :: "stop_env \<Rightarrow> int list \<Rightarrow> supervisor \<Rightarrow> ws_world \<Rightarrow> ws_world option" where
  "stop_runtimes st [] sv w = Some w"
| "stop_runtimes st (shard # rest) sv w =
     (case sv_active sv shard of
        None \<Rightarrow> stop_runtimes st rest sv w
      | Some rt \<Rightarrow>
          (case stop_in_world st (runtime_fence rt) w of
             None \<Rightarrow> None
           | Some (rt', w') \<Rightarrow> stop_runtimes st rest sv w'))"

fun release_claims :: "usec \<Rightarrow> (int \<Rightarrow> fault) \<Rightarrow> int list \<Rightarrow> supervisor \<Rightarrow> ws_world \<Rightarrow> ws_world" where
  "release_claims now faults [] sv w = w"
| "release_claims now faults (shard # rest) sv w =
     (case sv_claims sv shard of
        None \<Rightarrow> release_claims now faults rest sv w
      | Some c \<Rightarrow> release_claims now faults rest sv (ws_exec (Release (faults shard) now shard c) w))"

definition supervisor_shutdown ::
  "stop_env \<Rightarrow> usec \<Rightarrow> (int \<Rightarrow> fault) \<Rightarrow> supervisor \<Rightarrow> ws_world \<Rightarrow> (supervisor \<times> ws_world) option" where
  "supervisor_shutdown st now faults sv w =
     (if \<not> sv_running sv \<and> (\<forall>c \<in> set (sv_candidates sv). sv_active sv c = None) then Some (sv, w)
      else map_option
             (\<lambda>w1. (sv\<lparr>sv_running := False, sv_active := (\<lambda>_. None), sv_claims := (\<lambda>_. None), sv_heartbeats := (\<lambda>_. None)\<rparr>,
                    release_claims now faults (sv_candidates sv) sv w1))
             (stop_runtimes st (sv_candidates sv) sv w))"

section \<open>A started runtime is the current owner\<close>

lemma renew_world: "w\<lparr>w_redis := snd (renew_shard_lease f now shard c ttl (w_redis w))\<rparr> = ws_exec (Renew f now shard c ttl) w"
  by simp

lemma register_and_renew_True:
  assumes "register_and_renew env shard claim sv w = (True, w')"
  obtains w3 r where "0 < fencing_token claim"
    "fst (register_claim claim (w_fences (se_others env 1 w)))"
    "w3 = se_others env 2 (ws_exec (Register claim) (se_others env 1 w))"
    "renew_shard_lease (se_redis env 2) (se_now env 2) shard claim (sv_ttl_ms sv) (w_redis w3) = (Inr True, r)"
    "w' = w3\<lparr>w_redis := r\<rparr>"
  using assms
  by (auto simp: register_and_renew_def persistence_fencer_def Let_def
      split: if_splits db_answer.splits prod.splits sum.splits bool.splits)

lemma start_shard_True:
  assumes "start_shard env shard claim sv w = (Inr True, sv', w')"
  shows "w' = w" and "sv_claims sv' shard = Some claim" and "sv_heartbeats sv' shard = Some claim"
    and "\<exists>rt. sv_active sv' shard = Some rt \<and> rt_state rt = RUNNING \<and> rt_claim rt = claim \<and> rt_accepting rt"
  using assms
  by (auto simp: start_shard_def give_up_def runtime_start_def new_runtime_def Let_def split: if_splits sum.splits)

lemma acquired_claim_world:
  assumes "fst (acquire_shard_lease f now uuid shard worker ttl (w_redis w)) = Inr (Some c)"
  shows "c \<in> set (w_claims (ws_exec (Acquire f now uuid shard worker ttl) w))" and "cl_shard c = shard"
    and "cl_token c = uuid" and "cl_worker c = worker"
proof -
  obtain r where r: "acquire_shard_lease f now uuid shard worker ttl (w_redis w) = (Inr (Some c), r)"
    using assms by (metis prod.collapse)
  show "c \<in> set (w_claims (ws_exec (Acquire f now uuid shard worker ttl) w))" using r by simp
  show "cl_shard c = shard" "cl_token c = uuid" "cl_worker c = worker" using acquire_Some [OF r] by simp_all
qed

text \<open>
  C6: A supervisor starts a runtime only for the current owner.  If an acquisition attempt of a
  shard that was not running here succeeds, then, whatever other workers did at every await in
  between, the runtime runs under a claim that is the newest generation Redis ever issued for the
  shard and the one the PostgreSQL fence admits, and every other claim on the shard is fenced.
\<close>

theorem started_runtime_owns_shard:
  assumes "ws_reach (initial_world db) w" and "\<And>n w. ws_reach w (se_others env n w)"
    and "\<not> is_active_running sv shard" and "sv_has_database sv"
    and "attempt_acquire_shard env shard sv w = (Inr True, sv', w')"
  shows "\<exists>c rt. sv_active sv' shard = Some rt \<and> rt_state rt = RUNNING \<and> rt_claim rt = c
      \<and> sv_claims sv' shard = Some c \<and> cl_shard c = shard \<and> cl_worker c = sv_worker sv
      \<and> assert_current c (w_fences w') = None \<and> fencing_token c = r_fences (w_redis w') shard
      \<and> (\<forall>c' \<in> set (w_claims w'). cl_shard c' = shard \<and> c' \<noteq> c \<longrightarrow> assert_current c' (w_fences w') = Some fence_lost)"
proof -
  let ?op = "Acquire (se_redis env 0) (se_now env 0) (se_uuid env) shard (sv_worker sv) (sv_ttl_ms sv)"
  let ?w0 = "se_others env 0 w"
  obtain c where c: "fst (acquire_shard_lease (se_redis env 0) (se_now env 0) (se_uuid env) shard (sv_worker sv)
                          (sv_ttl_ms sv) (w_redis ?w0)) = Inr (Some c)"
    and cont: "(case register_and_renew env shard c sv (ws_exec ?op ?w0) of
                (True, w1) \<Rightarrow> start_shard env shard c sv w1 | (False, w1) \<Rightarrow> give_up env shard c sv w1) = (Inr True, sv', w')"
    using assms(3-5) by (auto simp: attempt_acquire_shard_def Let_def split: sum.splits option.splits)
  obtain w1 where rr: "register_and_renew env shard c sv (ws_exec ?op ?w0) = (True, w1)"
      and st: "start_shard env shard c sv w1 = (Inr True, sv', w')"
    using cont by (auto simp: give_up_def split: prod.splits bool.splits)
  note cw = acquired_claim_world [OF c] and started = start_shard_True [OF st]
  obtain w3 r where ren: "fst (register_claim c (w_fences (se_others env 1 (ws_exec ?op ?w0))))"
      "w3 = se_others env 2 (ws_exec (Register c) (se_others env 1 (ws_exec ?op ?w0)))"
      "renew_shard_lease (se_redis env 2) (se_now env 2) shard c (sv_ttl_ms sv) (w_redis w3) = (Inr True, r)"
      "w1 = w3\<lparr>w_redis := r\<rparr>"
    using register_and_renew_True [OF rr] by metis
  have "ws_reach (initial_world db) ?w0" using ws_reach_trans [OF assms(2) assms(1)] .
  then have r0: "ws_reach (initial_world db) (ws_exec ?op ?w0)" by (rule ws_step) (simp add: op_enabled_def)
  have r1: "ws_reach (initial_world db) (se_others env 1 (ws_exec ?op ?w0))" using ws_reach_trans [OF assms(2) r0] .
  have in1: "c \<in> set (w_claims (se_others env 1 (ws_exec ?op ?w0)))"
    by (rule claims_persist_reach [OF assms(2) cw(1)])
  have r3: "ws_reach (ws_exec (Register c) (se_others env 1 (ws_exec ?op ?w0))) w3"
    unfolding ren(2) by (rule assms(2))
  have own: "assert_current c (w_fences w3) = None \<and> fencing_token c = r_fences (w_redis w3) (cl_shard c)
       \<and> (\<forall>c' \<in> set (w_claims w3). cl_shard c' = cl_shard c \<and> c' \<noteq> c \<longrightarrow>
            fencing_token c' < fencing_token c \<and> assert_current c' (w_fences w3) = Some fence_lost)"
    by (rule renewed_registration_current [OF r1 in1 ren(1) r3]) (use ren(3) cw(2) in simp)
  have "r_fences r = r_fences (w_redis w3)"
    using renew_ok(2) [of "se_redis env 2" "se_now env 2" shard c "sv_ttl_ms sv" "w_redis w3"] ren(3) by simp
  then show ?thesis using own started cw(2,4) ren(4) by auto
qed


section \<open>An attempt that fails leaves no lease behind\<close>

text \<open>The leases that carry a token, whoever wrote them.\<close>

definition lease_with_token :: "string \<Rightarrow> redis \<Rightarrow> int \<Rightarrow> lease_claim \<Rightarrow> bool" where
  "lease_with_token token r shard c \<longleftrightarrow> (\<exists>e. r_leases r shard = Some (c, e)) \<and> cl_token c = token"

definition only_claim :: "string \<Rightarrow> int \<Rightarrow> lease_claim \<Rightarrow> redis \<Rightarrow> bool" where
  "only_claim token shard c r \<longleftrightarrow> (\<forall>s d. lease_with_token token r s d \<longrightarrow> s = shard \<and> d = c)"

lemma released_lease:
  assumes "redis_get now s (snd (release_shard_lease NoFault now shard c r)) = Some d"
  shows "redis_get now s r = Some d" and "s = shard \<Longrightarrow> \<not> claim_matches d (cl_token c) (fencing_token c)"
  using assms
  by (auto simp: release_shard_lease_def redis_call_def release_lua_def redis_get_def
      split: option.splits if_splits prod.splits)

lemma redis_get_lease: "redis_get now s r = Some d \<Longrightarrow> lease_with_token (cl_token d) r s d"
  by (auto simp: redis_get_def lease_with_token_def split: option.splits if_splits)

lemma only_claim_release:
  assumes "only_claim (cl_token c) shard c r"
    and "redis_get now s (snd (release_shard_lease NoFault now shard c r)) = Some d"
  shows "cl_token d \<noteq> cl_token c"
proof
  assume tok: "cl_token d = cl_token c"
  note rel = released_lease [OF assms(2)]
  have "s = shard" "d = c"
    using assms(1) redis_get_lease [OF rel(1)] unfolding tok only_claim_def by blast+
  then show False using rel(2) by (simp add: claim_matches_def)
qed

lemma only_claim_mono:
  assumes "only_claim token shard c r" and "\<And>s d. lease_with_token token r' s d \<Longrightarrow> lease_with_token token r s d"
  shows "only_claim token shard c r'"
  using assms unfolding only_claim_def by blast

lemma renew_lease_token:
  "lease_with_token token (snd (renew_shard_lease f now shard c ttl r)) s d \<Longrightarrow> lease_with_token token r s d"
  by (auto simp: lease_with_token_def renew_shard_lease_def redis_call_def renew_lua_def redis_get_def
      split: fault.splits option.splits if_splits prod.splits)

lemma only_claim_acquire:
  assumes "\<And>s d. \<not> lease_with_token uuid (w_redis w) s d"
    and "fst (acquire_shard_lease f now uuid shard worker ttl (w_redis w)) = Inr (Some c)"
  shows "only_claim uuid shard c (w_redis (ws_exec (Acquire f now uuid shard worker ttl) w))"
proof -
  obtain r where r: "acquire_shard_lease f now uuid shard worker ttl (w_redis w) = (Inr (Some c), r)"
    using assms(2) by (metis prod.collapse)
  show ?thesis
    using assms(1) acquire_Some(7) [OF r] r by (auto simp: only_claim_def lease_with_token_def)
qed

lemma no_token_acquire_None:
  assumes "\<And>s d. \<not> lease_with_token uuid (w_redis w) s d" and "f \<noteq> AnswerLost" and "redis_ok (w_redis w)"
    and "\<And>c. fst (acquire_shard_lease f now uuid shard worker ttl (w_redis w)) \<noteq> Inr (Some c)"
  shows "\<not> lease_with_token uuid (w_redis (ws_exec (Acquire f now uuid shard worker ttl) w)) s d"
proof -
  let ?claim = "\<lparr>cl_shard = shard, cl_worker = worker, cl_token = uuid, cl_claimed_at = now,
                    cl_expires_at = now + ttl * 1000, fencing_token = 0\<rparr>"
  obtain res r where call: "acquire_shard_lease f now uuid shard worker ttl (w_redis w) = (res, r)"
    by fastforce
  have w': "w_redis (ws_exec (Acquire f now uuid shard worker ttl) w) = r"
    using call assms(4) by (auto split: sum.splits option.splits)
  obtain x r0 where lua: "acquire_lua now shard ?claim ttl (w_redis w) = (x, r0)" by fastforce
  have "0 \<le> r_fences (w_redis w) shard" using assms(3) by (simp add: redis_ok_def)
  then have "r_leases r s = r_leases (w_redis w) s \<or> r_leases r s = None"
    using call assms(2,4) lua
    by (cases x; cases f) (auto simp: acquire_shard_lease_def redis_call_def acquire_lua_def Let_def split: if_splits)
  then show ?thesis using assms(1) [of s d] unfolding w' lease_with_token_def by auto
qed

lemma register_and_renew_only:
  assumes "only_claim token shard c (w_redis w)"
    and others: "\<And>n w s d. lease_with_token token (w_redis (se_others env n w)) s d \<Longrightarrow> lease_with_token token (w_redis w) s d"
    and "register_and_renew env shard claim sv w = (b, w')"
  shows "only_claim token shard c (w_redis w')"
proof (rule only_claim_mono [OF assms(1)])
  fix s d assume lw: "lease_with_token token (w_redis w') s d"
  let ?w1 = "se_others env 1 w"
  let ?w2 = "ws_exec (Register claim) ?w1"
  let ?w3 = "se_others env 2 ?w2"
  have "w_redis w' \<in> {w_redis w, w_redis ?w1, w_redis ?w2,
      snd (renew_shard_lease (se_redis env 2) (se_now env 2) shard claim (sv_ttl_ms sv) (w_redis ?w3))}"
    using assms(3)
    by (auto simp: register_and_renew_def persistence_fencer_def Let_def
        split: sum.splits db_answer.splits if_splits prod.splits bool.splits)
  moreover have w1: "lease_with_token token (w_redis ?w1) s d \<Longrightarrow> lease_with_token token (w_redis w) s d"
    by (rule others)
  moreover have w2: "w_redis ?w2 = w_redis ?w1" by simp
  moreover have "lease_with_token token (w_redis ?w3) s d \<Longrightarrow> lease_with_token token (w_redis ?w2) s d"
    by (rule others)
  moreover note renew_lease_token [of token "se_redis env 2" "se_now env 2" shard claim "sv_ttl_ms sv" "w_redis ?w3" s d]
  ultimately show "lease_with_token token (w_redis w) s d"
    using lw unfolding w2 by (elim insertE emptyE) simp_all
qed


lemma start_shard_False:
  assumes "start_shard env shard claim sv w = (Inr False, sv', w')"
  shows "give_up env shard claim sv w = (Inr False, sv', w')"
  using assms
  by (auto simp: start_shard_def runtime_start_def new_runtime_def Let_def split: if_splits sum.splits)

lemma give_up_only:
  assumes "give_up env shard c sv w = (Inr False, sv', w')" and "only_claim (cl_token c) shard c (w_redis w)"
    and "\<And>n w s d. lease_with_token (cl_token c) (w_redis (se_others env n w)) s d \<Longrightarrow> lease_with_token (cl_token c) (w_redis w) s d"
    and "se_redis env 3 = NoFault"
  shows "sv' = sv" and "redis_get (se_now env 3) s (w_redis w') = Some d \<Longrightarrow> cl_token d \<noteq> cl_token c"
proof -
  have "only_claim (cl_token c) shard c (w_redis (se_others env 3 w))"
    by (rule only_claim_mono [OF assms(2)]) (rule assms(3))
  from only_claim_release [OF this, of "se_now env 3" s d]
  show "sv' = sv" "redis_get (se_now env 3) s (w_redis w') = Some d \<Longrightarrow> cl_token d \<noteq> cl_token c"
    using assms(1,4) by (auto simp: give_up_def)
qed

text \<open>
  A failed acquisition black-holes no healthy peer.  If the answer of the acquisition is not
  lost and the release reaches Redis, then whichever step of the attempt failed (a live lease of
  another worker, Redis, the database, a stale generation, an expired lease, the start of the
  runtime), the supervisor is unchanged and no live lease carries the token of the attempt.
\<close>

theorem failed_attempt_leaves_no_lease:
  assumes "ws_reach (initial_world db) w" and "\<And>n w. ws_reach w (se_others env n w)"
    and "\<And>s d. \<not> lease_with_token (se_uuid env) (w_redis w) s d"
    and "\<And>n w s d. lease_with_token (se_uuid env) (w_redis (se_others env n w)) s d
          \<Longrightarrow> lease_with_token (se_uuid env) (w_redis w) s d"
    and "se_redis env 0 \<noteq> AnswerLost" and "se_redis env 3 = NoFault"
    and "attempt_acquire_shard env shard sv w = (Inr False, sv', w')"
  shows "sv' = sv \<and> (\<forall>s d. redis_get (se_now env 3) s (w_redis w') = Some d \<longrightarrow> cl_token d \<noteq> se_uuid env)"
proof -
  let ?acq = "acquire_shard_lease (se_redis env 0) (se_now env 0) (se_uuid env) shard (sv_worker sv) (sv_ttl_ms sv)"
  let ?op = "Acquire (se_redis env 0) (se_now env 0) (se_uuid env) shard (sv_worker sv) (sv_ttl_ms sv)"
  let ?w0 = "se_others env 0 w"
  have none: "\<not> lease_with_token (se_uuid env) (w_redis ?w0) s d" for s d using assms(3,4) by blast
  have "ws_reach (initial_world db) ?w0" using ws_reach_trans [OF assms(2) assms(1)] .
  then have ok: "redis_ok (w_redis ?w0)" using world_ok_reach initial_world_ok by (simp add: world_ok_def)
  have idle: "\<not> is_active_running sv shard" using assms(7) by (auto simp: attempt_acquire_shard_def)
  show ?thesis
  proof (cases "\<exists>c. fst (?acq (w_redis ?w0)) = Inr (Some c)")
    case False
    then have "sv' = sv" "w' = ws_exec ?op ?w0"
      using assms(7) idle
      by (auto simp: attempt_acquire_shard_def Let_def simp del: ws_exec.simps split: sum.splits option.splits)
    moreover have "\<not> lease_with_token (se_uuid env) (w_redis (ws_exec ?op ?w0)) s d" for s d
      by (rule no_token_acquire_None [OF none assms(5) ok]) (use False in blast)
    ultimately show ?thesis using redis_get_lease by metis
  next
    case True
    then obtain c where c: "fst (?acq (w_redis ?w0)) = Inr (Some c)" by blast
    have tok: "cl_token c = se_uuid env" by (rule acquired_claim_world(3) [OF c])
    have only: "only_claim (cl_token c) shard c (w_redis (ws_exec ?op ?w0))"
      using only_claim_acquire [OF none c] unfolding tok .
    note others = assms(4) [folded tok]
    obtain w1 where w1: "only_claim (cl_token c) shard c (w_redis w1)" "give_up env shard c sv w1 = (Inr False, sv', w')"
    proof (cases "sv_has_database sv")
      case True
      obtain b w1 where rr: "register_and_renew env shard c sv (ws_exec ?op ?w0) = (b, w1)" by fastforce
      have "give_up env shard c sv w1 = (Inr False, sv', w')"
        using assms(7) idle c rr True start_shard_False
        by (auto simp: attempt_acquire_shard_def Let_def simp del: ws_exec.simps split: bool.splits)
      with register_and_renew_only [OF only others rr] show ?thesis by (rule that)
    next
      case False
      have "give_up env shard c sv (ws_exec ?op ?w0) = (Inr False, sv', w')"
        using assms(7) idle c False start_shard_False
        by (auto simp: attempt_acquire_shard_def Let_def simp del: ws_exec.simps)
      with only show ?thesis by (rule that)
    qed
    show ?thesis using give_up_only [OF w1(2,1) others assms(6)] tok by auto
  qed
qed

section \<open>Fencing is final\<close>

definition fenced_for_good :: "shard_runtime \<Rightarrow> bool" where
  "fenced_for_good rt \<longleftrightarrow> rt_state rt = FENCED \<and> \<not> rt_accepting rt \<and> rt_buffers rt = []
     \<and> (\<forall>p. rt_pipeline rt = Some p \<longrightarrow> pl_queue p = [])"

text \<open>Whatever is called on a runtime, by whichever task, in any order.\<close>

inductive runtime_steps :: "shard_runtime \<Rightarrow> shard_runtime \<Rightarrow> bool" where
  rs_refl: "runtime_steps rt rt"
| rs_buffer: "runtime_steps rt r \<Longrightarrow> runtime_steps rt (snd (add_uncommitted_buffer e r))"
| rs_enqueue: "runtime_steps rt r \<Longrightarrow> runtime_steps rt (snd (runtime_enqueue waited e r))"
| rs_clear: "runtime_steps rt r \<Longrightarrow> runtime_steps rt (snd (clear_uncommitted_buffers r))"
| rs_fence: "runtime_steps rt r \<Longrightarrow> runtime_steps rt (runtime_fence r)"
| rs_start: "runtime_steps rt r \<Longrightarrow> runtime_start cfg has_factory r = Inr r' \<Longrightarrow> runtime_steps rt r'"
| rs_stop: "runtime_steps rt r \<Longrightarrow> runtime_stop env mode last_iteration r s = Some (r', s') \<Longrightarrow> runtime_steps rt r'"
| rs_consume: "runtime_steps rt r \<Longrightarrow> (\<And>q. runtime_steps q (others q))
    \<Longrightarrow> runtime_steps rt (consume_final_candles others waited es raised r)"

lemma runtime_fence_dead: "rt_state rt \<noteq> FENCED \<Longrightarrow> fenced_for_good (runtime_fence rt)"
  by (auto simp: fenced_for_good_def runtime_fence_def)

lemma runtime_stop_dead:
  assumes "fenced_for_good rt" and "runtime_stop env mode last_iteration rt s = Some (rt', s')"
  shows "fenced_for_good rt'"
  using assms
  by (auto simp: fenced_for_good_def runtime_stop_def pipeline_stop_def Let_def split: option.splits if_splits)

lemma consume_dead: "fenced_for_good (others rt) \<Longrightarrow> fenced_for_good rt \<Longrightarrow> fenced_for_good (consume_final_candles others waited es raised rt)"
  by (cases es) (auto simp: fenced_for_good_def runtime_fence_def is_accepting_work_def Let_def)

lemma fenced_for_good_steps:
  assumes "fenced_for_good rt"
  shows "add_uncommitted_buffer e rt = (False, rt)" and "runtime_enqueue waited e rt = (False, rt)"
    and "runtime_fence rt = rt" and "\<exists>x. runtime_start cfg has_factory rt = Inl x"
    and "fenced_for_good (snd (clear_uncommitted_buffers rt))"
  using assms
  by (auto simp: fenced_for_good_def add_uncommitted_buffer_def runtime_enqueue_def is_accepting_work_def
      runtime_fence_def runtime_start_def clear_uncommitted_buffers_def discard_uncommitted_buffers_def Let_def
      split: option.splits)

lemma runtime_steps_dead: "runtime_steps rt rt' \<Longrightarrow> fenced_for_good rt \<Longrightarrow> fenced_for_good rt'"
proof (induction rule: runtime_steps.induct)
  case (rs_start rt r cfg has_factory r')
  then show ?case using fenced_for_good_steps(4) by (metis Inl_Inr_False)
next
  case (rs_stop rt r env mode last_iteration s r' s')
  then show ?case using runtime_stop_dead by blast
next
  case (rs_consume rt r others waited es raised)
  then show ?case using consume_dead by blast
qed (simp_all add: fenced_for_good_steps)

text \<open>
  C28: Once fenced, always fenced.  From the moment a runtime is fenced, whatever its other tasks
  call on it afterwards, it stays fenced with empty buffers and an empty queue, refuses every
  candle and every restart; its stop flushes nothing: beyond what the flusher task did before
  its cancellation took effect, the database is left as it was.
\<close>

theorem fenced_runtime_is_final:
  assumes "rt_state rt \<noteq> FENCED" and "runtime_steps (runtime_fence rt) rt'"
  shows "rt_state rt' = FENCED \<and> buffer_count rt' = 0
    \<and> add_uncommitted_buffer e rt' = (False, rt') \<and> runtime_enqueue waited e rt' = (False, rt')
    \<and> (\<exists>x. runtime_start cfg has_factory rt' = Inl x)
    \<and> (\<exists>rt'' s'. runtime_stop env mode (\<lambda>s. s) rt' s = Some (rt'', s') \<and> fr_world s' = fr_world s)"
proof -
  have dead: "fenced_for_good rt'" by (rule runtime_steps_dead [OF assms(2) runtime_fence_dead [OF assms(1)]])
  then have "rt_state rt' = FENCED" "buffer_count rt' = 0"
    by (auto simp: fenced_for_good_def buffer_count_def queue_len_def split: option.splits)
  moreover have "\<exists>rt'' s'. runtime_stop env mode (\<lambda>s. s) rt' s = Some (rt'', s') \<and> fr_world s' = fr_world s"
    using dead by (auto simp: fenced_for_good_def runtime_stop_def pipeline_stop_def Let_def split: option.splits)
  ultimately show ?thesis using fenced_for_good_steps [OF dead] by simp
qed

lemma stop_fenced:
  assumes "rt_state rt = FENCED"
  obtains rt' w' where "stop_in_world st rt w = Some (rt', w')" and "rt_state rt' = FENCED" and "rt_claim rt' = rt_claim rt"
    and "\<not> rt_client rt'" and "\<not> rt_stream rt'" and "\<not> rt_accepting rt'"
    and "\<not> rt_flusher rt \<Longrightarrow> w' = w"
proof -
  have "\<exists>rt' s'. runtime_stop (st_flush st) (st_mode st) (st_last st) rt ((st_run st)\<lparr>fr_world := w\<rparr>) = Some (rt', s')
      \<and> rt_state rt' = FENCED \<and> rt_claim rt' = rt_claim rt \<and> \<not> rt_client rt' \<and> \<not> rt_stream rt' \<and> \<not> rt_accepting rt'
      \<and> (\<not> rt_flusher rt \<longrightarrow> fr_world s' = w)"
    using assms by (auto simp: runtime_stop_def pipeline_stop_def Let_def split: option.splits)
  then show ?thesis using that unfolding stop_in_world_def by (smt (verit) case_prod_conv option.simps(9))
qed


section \<open>Losing the lease\<close>

lemma runtime_fence_fields [simp]:
  "rt_state (runtime_fence rt) = FENCED" "rt_claim (runtime_fence rt) = rt_claim rt"
  "rt_client (runtime_fence rt) = rt_client rt" "rt_flusher (runtime_fence rt) = rt_flusher rt"
  by (auto simp: runtime_fence_def)

lemma cleanup_result:
  assumes "rt_state rt = FENCED" and "fenced_for_good rt"
  obtains sv' rt' w' where "cleanup_fenced_shard st shard claim sv rt w = Some (sv', rt', w')"
    and "fenced_for_good rt'" and "\<not> rt_client rt'" and "\<not> rt_stream rt'"
    and "sv_claims sv' shard = None" and "sv_heartbeats sv' shard \<noteq> Some claim"
    and "map_option rt_claim (sv_active sv' shard) \<noteq> Some (rt_claim rt)"
proof -
  obtain rt' w' where stop: "stop_in_world st rt w = Some (rt', w')" "\<not> rt_client rt'" "\<not> rt_stream rt'"
    using stop_fenced [OF assms(1)] by metis
  then have "\<exists>s'. runtime_stop (st_flush st) (st_mode st) (st_last st) rt ((st_run st)\<lparr>fr_world := w\<rparr>) = Some (rt', s')"
    by (auto simp: stop_in_world_def)
  then have dead: "fenced_for_good rt'" using runtime_stop_dead [OF assms(2)] by blast
  have "\<exists>sv'. cleanup_fenced_shard st shard claim sv rt w = Some (sv', rt', w')
      \<and> sv_claims sv' shard = None \<and> sv_heartbeats sv' shard \<noteq> Some claim
      \<and> map_option rt_claim (sv_active sv' shard) \<noteq> Some (rt_claim rt)"
    by (simp add: cleanup_fenced_shard_def Let_def stop(1))
  then obtain sv' where "cleanup_fenced_shard st shard claim sv rt w = Some (sv', rt', w')"
    "sv_claims sv' shard = None" "sv_heartbeats sv' shard \<noteq> Some claim"
    "map_option rt_claim (sv_active sv' shard) \<noteq> Some (rt_claim rt)" by blast
  from that [OF this(1) dead stop(2,3) this(2-4)] show ?thesis .
qed

text \<open>
  Fail closed on the lease.  When a heartbeat's renewal reports the lease lost, or Redis
  cannot be reached or the answer is lost, the loop ends at once; the runtime is fenced for
  good with nothing queued, its stream closed, and the supervisor no longer lists the runtime,
  its claim or its heartbeat.
\<close>

theorem failed_heartbeat_fences:
  assumes "sv_running sv" and "rt_state rt = RUNNING" and "tasks (sv, rt) = (sv1, rt1)"
    and "sv_running sv1" and "rt_state rt1 = RUNNING"
    and "fst (renew_shard_lease f now shard claim (sv_ttl_ms sv1) (w_redis (others w))) \<noteq> Inr True"
  shows "\<exists>sv' rt' w'. shard_heartbeat_loop st shard claim (Woken now f tasks others # evs) sv rt w = Some (sv', rt', w')
     \<and> fenced_for_good rt' \<and> \<not> rt_client rt' \<and> \<not> rt_stream rt'
     \<and> sv_claims sv' shard = None \<and> sv_heartbeats sv' shard \<noteq> Some claim
     \<and> map_option rt_claim (sv_active sv' shard) \<noteq> Some (rt_claim rt1)"
proof -
  obtain x r where ren: "renew_shard_lease f now shard claim (sv_ttl_ms sv1) (w_redis (others w)) = (x, r)" "x \<noteq> Inr True"
    using assms(6) by (metis prod.collapse)
  have loop: "shard_heartbeat_loop st shard claim (Woken now f tasks others # evs) sv rt w
      = cleanup_fenced_shard st shard claim sv1 (runtime_fence rt1) ((others w)\<lparr>w_redis := r\<rparr>)"
    using assms(1-5) ren by (auto simp: Let_def split: sum.splits bool.splits)
  have dead: "fenced_for_good (runtime_fence rt1)" using assms(5) by (simp add: runtime_fence_dead)
  show ?thesis
    by (rule cleanup_result [OF _ dead, of st shard claim sv1 "(others w)\<lparr>w_redis := r\<rparr>"])
       (use loop in auto)
qed

lemma live_lease_blocks:
  assumes "redis_get now shard r \<noteq> None"
  shows "fst (acquire_shard_lease f now uuid shard worker ttl r) \<noteq> Inr (Some c)"
  using assms by (auto simp: acquire_shard_lease_def acquire_lua_def redis_call_def split: fault.splits)

text \<open>
  A runtime that fences itself (a fatal error of its pipeline, the end of its stream) is not
  torn down: the heartbeat loop sees that it no longer runs and ends, and the supervisor still
  lists the runtime, its claim and its heartbeat, the client is still connected, and the lease
  stays in Redis until it expires, so that until then no acquisition of the shard, of
  whichever worker, succeeds.
\<close>

theorem self_fenced_shard_is_not_torn_down:
  assumes "sv_running sv" and "rt_state rt = RUNNING" and "sv_active sv shard = Some rt" and "rt_client rt"
    and "w_redis (others w) = w_redis w" and "redis_get later shard (w_redis w) = Some claim"
  shows "\<exists>rt'. shard_heartbeat_loop st shard claim
      (Woken now f (\<lambda>(sv, rt). (sv\<lparr>sv_active := (sv_active sv)(shard := Some (runtime_fence rt))\<rparr>, runtime_fence rt)) others # evs) sv rt w
        = Some (sv\<lparr>sv_active := (sv_active sv)(shard := Some rt')\<rparr>, rt', others w)
      \<and> rt_state rt' = FENCED \<and> rt_client rt'
      \<and> (\<forall>f' uuid worker ttl c. fst (acquire_shard_lease f' later uuid shard worker ttl (w_redis (others w))) \<noteq> Inr (Some c))"
  using assms live_lease_blocks [of later shard "w_redis w"] by (simp add: Let_def)

section \<open>Shutdown releases what is held\<close>

lemma stop_runtimes_Some: "\<exists>w'. stop_runtimes st shards sv w = Some w'"
proof (induction shards arbitrary: w)
  case (Cons shard rest)
  show ?case
  proof (cases "sv_active sv shard")
    case None
    then show ?thesis using Cons.IH by simp
  next
    case (Some rt)
    obtain rt' w' where "stop_in_world st (runtime_fence rt) w = Some (rt', w')"
      using stop_fenced [of "runtime_fence rt"] by (metis runtime_fence_fields(1))
    then show ?thesis using Some Cons.IH [of w'] by simp
  qed
qed simp

definition holds_lease :: "usec \<Rightarrow> int \<Rightarrow> lease_claim \<Rightarrow> ws_world \<Rightarrow> bool" where
  "holds_lease now shard c w \<longleftrightarrow>
     (case redis_get now shard (w_redis w) of None \<Rightarrow> False | Some d \<Rightarrow> claim_matches d (cl_token c) (fencing_token c))"

lemma release_not_held:
  assumes "\<not> holds_lease now s d w"
  shows "\<not> holds_lease now s d (ws_exec (Release f now shard c) w)"
  using assms
  by (auto simp: holds_lease_def release_shard_lease_def redis_call_def release_lua_def redis_get_def
      split: fault.splits option.splits if_splits prod.splits)

lemma release_frees: "\<not> holds_lease now shard c (ws_exec (Release NoFault now shard c) w)"
  using released_lease(2) [of now shard shard c "w_redis w"] by (auto simp: holds_lease_def split: option.splits)

lemma release_claims_not_held: "\<not> holds_lease now s d w \<Longrightarrow> \<not> holds_lease now s d (release_claims now faults shards sv w)"
proof (induction shards arbitrary: w)
  case (Cons shard rest)
  then show ?case using release_not_held by (simp del: ws_exec.simps split: option.splits)
qed simp

lemma release_claims_free:
  "shard \<in> set shards \<Longrightarrow> sv_claims sv shard = Some c \<Longrightarrow> faults shard = NoFault
     \<Longrightarrow> \<not> holds_lease now shard c (release_claims now faults shards sv w)"
proof (induction shards arbitrary: w)
  case (Cons s rest)
  show ?case
  proof (cases "s = shard")
    case True
    then show ?thesis using Cons.prems release_claims_not_held [OF release_frees] by (simp del: ws_exec.simps)
  next
    case False
    then show ?thesis using Cons by (simp del: ws_exec.simps split: option.splits)
  qed
qed simp

text \<open>
  A shutdown always ends: every task is gone, nothing is flushed from a fenced queue, and
  no lease the supervisor held and whose release reached Redis is held afterwards, so that a
  successor need not wait for it to expire.
\<close>

theorem shutdown_releases_leases:
  assumes "sv_running sv"
  shows "\<exists>sv' w'. supervisor_shutdown st now faults sv w = Some (sv', w') \<and> \<not> sv_running sv'
     \<and> (\<forall>s. sv_active sv' s = None \<and> sv_claims sv' s = None \<and> sv_heartbeats sv' s = None)
     \<and> (\<forall>s \<in> set (sv_candidates sv). \<forall>c. sv_claims sv s = Some c \<and> faults s = NoFault \<longrightarrow> \<not> holds_lease now s c w')"
proof -
  obtain w1 where "stop_runtimes st (sv_candidates sv) sv w = Some w1" using stop_runtimes_Some by blast
  then show ?thesis using assms release_claims_free by (auto simp: supervisor_shutdown_def)
qed


section \<open>A concrete supervisor\<close>

definition example_sv :: supervisor where
  "example_sv = \<lparr>sv_worker = ''w1'', sv_settings = example_ws, sv_symbols = [], sv_num_shards = 4, sv_candidates = [0, 1, 2, 3],
     sv_ttl_ms = 15000, sv_pipeline_config = example_config, sv_has_database = True, sv_has_factory = True,
     sv_active = (\<lambda>_. None), sv_claims = (\<lambda>_. None), sv_heartbeats = (\<lambda>_. None), sv_running = True\<rparr>"

definition example_sup_env :: "db_answer \<Rightarrow> sup_env" where
  "example_sup_env a = \<lparr>se_uuid = ''t1'', se_now = (\<lambda>n. 0), se_others = (\<lambda>n w. w), se_redis = (\<lambda>n. NoFault),
     se_register = a, se_start_fails = False\<rparr>"

lemma no_symbols: "0 \<le> k \<Longrightarrow> k < 4 \<Longrightarrow> get_symbols_for_shard example_ws [] k (Some 4) (Some 1024) = Inr []"
  by (simp add: get_symbols_for_shard_def assign_symbols_to_shards_def stream_capacity_def example_ws_def Let_def nth_map
      map_replicate_const)

lemma example_attempt:
  "\<exists>sv' w'. attempt_acquire_shard (example_sup_env DbOk) 3 example_sv (initial_world example_db) = (Inr True, sv', w')"
  using no_symbols [of 3]
  by (simp add: attempt_acquire_shard_def is_active_running_def example_sv_def example_sup_env_def lease_eval
      register_and_renew_def persistence_fencer_def renew_shard_lease_def renew_lua_def claim_matches_def
      start_shard_def runtime_start_def new_runtime_def example_ws_def)

lemma started_runtime_owns_shard_witness:
  "\<exists>sv' w' rt. attempt_acquire_shard (example_sup_env DbOk) 3 example_sv (initial_world example_db) = (Inr True, sv', w')
     \<and> sv_active sv' 3 = Some rt \<and> rt_state rt = RUNNING \<and> assert_current (rt_claim rt) (w_fences w') = None"
proof -
  obtain sv' w' where a: "attempt_acquire_shard (example_sup_env DbOk) 3 example_sv (initial_world example_db) = (Inr True, sv', w')"
    using example_attempt by blast
  have "ws_reach v (se_others (example_sup_env DbOk) n v)" for n v by (simp add: example_sup_env_def ws_refl)
  moreover have "\<not> is_active_running example_sv 3" "sv_has_database example_sv"
    by (simp_all add: is_active_running_def example_sv_def)
  ultimately show ?thesis using started_runtime_owns_shard [OF ws_refl _ _ _ a] a by blast
qed

lemma example_failed_attempt:
  "\<exists>sv' w'. attempt_acquire_shard (example_sup_env (DbFails (OtherException ''OperationalError''))) 3 example_sv (initial_world example_db)
      = (Inr False, sv', w')"
  by (simp add: attempt_acquire_shard_def is_active_running_def example_sv_def example_sup_env_def lease_eval
      register_and_renew_def persistence_fencer_def give_up_def)

lemma failed_attempt_leaves_no_lease_witness:
  "\<exists>w'. attempt_acquire_shard (example_sup_env (DbFails (OtherException ''OperationalError''))) 3 example_sv (initial_world example_db)
      = (Inr False, example_sv, w') \<and> (\<forall>d. redis_get 0 3 (w_redis w') = Some d \<longrightarrow> cl_token d \<noteq> ''t1'')"
proof -
  let ?env = "example_sup_env (DbFails (OtherException ''OperationalError''))"
  obtain sv' w' where a: "attempt_acquire_shard ?env 3 example_sv (initial_world example_db) = (Inr False, sv', w')"
    using example_failed_attempt by blast
  have "ws_reach v (se_others ?env n v)" for n v by (simp add: example_sup_env_def ws_refl)
  moreover have "\<not> lease_with_token (se_uuid ?env) (w_redis (initial_world example_db)) s d" for s d
    by (simp add: lease_with_token_def initial_world_def)
  moreover have "se_redis ?env 0 \<noteq> AnswerLost" "se_redis ?env 3 = NoFault" "se_uuid ?env = ''t1''" "se_now ?env 3 = 0"
    "\<And>n w. se_others ?env n w = w"
    by (simp_all add: example_sup_env_def)
  ultimately show ?thesis using failed_attempt_leaves_no_lease [OF ws_refl _ _ _ _ _ a] a by metis
qed

definition example_runtime :: shard_runtime where
  "example_runtime = (new_runtime 3 [] old_claim)\<lparr>rt_state := RUNNING, rt_accepting := True, rt_client := True\<rparr>"

lemma fenced_runtime_is_final_witness:
  "runtime_enqueue (\<lambda>p. p) (example_event 0) (runtime_fence (runtime_fence example_runtime))
     = (False, runtime_fence (runtime_fence example_runtime))"
  using fenced_runtime_is_final [OF _ rs_fence [OF rs_refl [of "runtime_fence example_runtime"]]]
  by (simp add: example_runtime_def)

definition example_stop :: stop_env where
  "example_stop = \<lparr>st_flush = example_env, st_mode = Fenced old_claim, st_last = (\<lambda>s. s), st_run = example_run []\<rparr>"

lemma failed_heartbeat_fences_witness:
  "\<exists>sv' rt' w'. shard_heartbeat_loop example_stop 3 old_claim [Woken 20000000 NoFault (\<lambda>x. x) (\<lambda>w. w)]
      example_sv example_runtime taken_over = Some (sv', rt', w') \<and> rt_state rt' = FENCED"
proof -
  have "fst (renew_shard_lease NoFault 20000000 3 old_claim 15000 (w_redis taken_over)) \<noteq> Inr True"
    by (simp add: taken_over_def lease_eval renew_shard_lease_def renew_lua_def claim_matches_def)
  then show ?thesis
    using failed_heartbeat_fences [of example_sv example_runtime "\<lambda>x. x" example_sv example_runtime NoFault 20000000 3
        old_claim "\<lambda>w. w" taken_over example_stop "[]"]
    by (auto simp: example_sv_def example_runtime_def fenced_for_good_def)
qed

lemma example_sv_runs: "sv_running (example_sv\<lparr>sv_active := a\<rparr>)" "sv_active (example_sv\<lparr>sv_active := \<lambda>_. Some rt\<rparr>) s = Some rt"
  by (simp_all add: example_sv_def)

lemma example_runtime_runs: "rt_state example_runtime = RUNNING" "rt_client example_runtime"
  by (simp_all add: example_runtime_def)

lemma self_fenced_shard_is_not_torn_down_witness:
  "let w = ws_exec acquire_old (initial_world example_db); sv = example_sv\<lparr>sv_active := (\<lambda>_. Some example_runtime)\<rparr>
   in \<exists>sv' rt'. shard_heartbeat_loop example_stop 3 old_claim
        [Woken 5000000 NoFault (\<lambda>(sv, rt). (sv\<lparr>sv_active := (sv_active sv)(3 := Some (runtime_fence rt))\<rparr>, runtime_fence rt)) (\<lambda>w. w)]
        sv example_runtime w = Some (sv', rt', w) \<and> rt_client rt'
        \<and> fst (acquire_shard_lease NoFault 6000000 ''t2'' 3 ''w2'' 15000 (w_redis w)) \<noteq> Inr (Some new_claim)"
proof -
  let ?w = "ws_exec acquire_old (initial_world example_db)"
  have "redis_get 6000000 3 (w_redis ?w) = Some old_claim" by (simp add: lease_eval)
  from self_fenced_shard_is_not_torn_down [where sv = "example_sv\<lparr>sv_active := \<lambda>_. Some example_runtime\<rparr>"
      and others = "\<lambda>w. w" and w = ?w, OF example_sv_runs(1) example_runtime_runs(1) example_sv_runs(2)
      example_runtime_runs(2) refl this, of example_stop 5000000 NoFault "[]"]
  show ?thesis unfolding Let_def by fast
qed

lemma shutdown_releases_leases_witness:
  "\<exists>sv' w'. supervisor_shutdown example_stop 5000000 (\<lambda>_. NoFault)
      (example_sv\<lparr>sv_claims := (\<lambda>s. if s = 3 then Some old_claim else None)\<rparr>)
      (ws_exec acquire_old (initial_world example_db)) = Some (sv', w') \<and> \<not> holds_lease 5000000 3 old_claim w'"
  using shutdown_releases_leases [of "example_sv\<lparr>sv_claims := (\<lambda>s. if s = 3 then Some old_claim else None)\<rparr>" example_stop
      5000000 "\<lambda>_. NoFault" "ws_exec acquire_old (initial_world example_db)"]
  by (auto simp: example_sv_def)

end
