(* ===== verification/Json.thy ===== *)
theory Json
  imports Py_Float Sha256
begin

text \<open>
  Python values that may stand in a JSON document, the canonicalisation of
  \<open>strategies/contracts.py\<close>, and the part of the standard library's \<open>json\<close> the program uses:
  \<open>dumps\<close> with sorted keys and ASCII output, \<open>loads\<close>, and the shortest \<open>repr\<close> of a float that
  both rely on.

  A dictionary with string keys is an association list in insertion order with distinct keys;
  one with any other key is \<open>PKeyedDict\<close>; every value that is no JSON value is \<open>POther\<close> with the
  name of its type.  The zero \<open>-0.0\<close> is not told apart from \<open>0.0\<close>.
\<close>

section \<open>Values and canonicalisation\<close>

datatype pyval =
    PNone
  | PBool bool
  | PInt int
  | PFloat pyfloat
  | PStr string
  | PList "pyval list"
  | PTuple "pyval list"
  | PDict "(string \<times> pyval) list"
  | PKeyedDict
  | POther string

fun all_or_error :: "(py_exn + 'a) list \<Rightarrow> py_exn + 'a list" where
  "all_or_error [] = Inr []"
| "all_or_error (Inl e # rs) = Inl e"
| "all_or_error (Inr x # rs) = (case all_or_error rs of Inl e \<Rightarrow> Inl e | Inr xs \<Rightarrow> Inr (x # xs))"

text \<open>\<open>_canonicalize_json\<close>; the path in its error messages is left out.\<close>

primrec canonicalize_json :: "pyval \<Rightarrow> py_exn + pyval" where
  "canonicalize_json PNone = Inr PNone"
| "canonicalize_json (PBool b) = Inr (PBool b)"
| "canonicalize_json (PInt i) = Inr (PInt i)"
| "canonicalize_json (PFloat x) =
     (if f_isfinite x then Inr (PFloat x) else Inl (ValueError ''must not contain NaN or infinity''))"
| "canonicalize_json (PStr s) = Inr (PStr s)"
| "canonicalize_json (PList xs) = map_sum id PList (all_or_error (map canonicalize_json xs))"
| "canonicalize_json (PTuple xs) = map_sum id PList (all_or_error (map canonicalize_json xs))"
| "canonicalize_json (PDict items) =
     (let entries = sort_key fst (map (map_prod id canonicalize_json) items)
      in map_sum id (\<lambda>vs. PDict (zip (map fst entries) vs)) (all_or_error (map snd entries)))"
| "canonicalize_json PKeyedDict = Inl (ValueError ''object keys must be strings'')"
| "canonicalize_json (POther type_name) = Inl (ValueError ''must contain JSON values only'')"

section \<open>The shortest text of a float\<close>

definition pow10 :: "int \<Rightarrow> rat" where
  "pow10 k = (if 0 \<le> k then 10 ^ nat k else 1 / 10 ^ nat (- k))"

definition dec_len :: "int \<Rightarrow> int" where
  "dec_len n = int (length (nat_digits (nat n)))"

text \<open>The exponent of the leading decimal digit of a positive rational.\<close>

definition lead10 :: "rat \<Rightarrow> int" where
  "lead10 q = (if 1 \<le> q then dec_len \<lfloor>q\<rfloor> - 1 else - dec_len (\<lceil>1 / q\<rceil> - 1))"

text \<open>The \<open>n\<close>-digit decimal nearest to \<open>q\<close>: a significand and the exponent of its last digit.\<close>

definition nearest_decimal :: "rat \<Rightarrow> int \<Rightarrow> int \<times> int" where
  "nearest_decimal q n = (let e = lead10 q - n + 1 in (round_half_even (q / pow10 e), e))"

definition decimal_value :: "int \<times> int \<Rightarrow> rat" where
  "decimal_value d = of_int (fst d) * pow10 (snd d)"

definition shortest_decimal :: "rat \<Rightarrow> int \<times> int" where
  "shortest_decimal q =
     (case List.find (\<lambda>n. fl (decimal_value (nearest_decimal q n)) = Fin q) [1..16] of
        Some n \<Rightarrow> nearest_decimal q n
      | None \<Rightarrow> nearest_decimal q 17)"

definition strip_zeros :: "string \<Rightarrow> string" where
  "strip_zeros ds = rev (dropWhile (\<lambda>c. c = CHR ''0'') (rev ds))"

definition two_digits :: "int \<Rightarrow> string" where
  "two_digits n = (if n < 10 then CHR ''0'' # nat_digits (nat n) else nat_digits (nat n))"

definition format_decimal :: "string \<Rightarrow> int \<Rightarrow> string" where
  "format_decimal ds point =
     (if - 4 < point \<and> point \<le> 16
      then if point \<le> 0 then ''0.'' @ replicate (nat (- point)) CHR ''0'' @ ds
           else if int (length ds) \<le> point then ds @ replicate (nat point - length ds) CHR ''0'' @ ''.0''
           else take (nat point) ds @ ''.'' @ drop (nat point) ds
      else [hd ds] @ (if tl ds = [] then [] else CHR ''.'' # tl ds) @ ''e''
             @ (if point - 1 < 0 then ''-'' else ''+'') @ two_digits \<bar>point - 1\<bar>)"

definition pos_repr :: "rat \<Rightarrow> string" where
  "pos_repr q =
     (let d = shortest_decimal q; ds = nat_digits (nat (fst d))
      in format_decimal (strip_zeros ds) (int (length ds) + snd d))"

definition float_repr :: "rat \<Rightarrow> string" where
  "float_repr q = (if q = 0 then ''0.0'' else if q < 0 then CHR ''-'' # pos_repr (- q) else pos_repr q)"

section \<open>\<open>json.dumps\<close>\<close>

definition hex_digit :: "nat \<Rightarrow> char" where
  "hex_digit n = (if n < 10 then char_of (48 + n) else char_of (87 + n))"

definition json_char :: "char \<Rightarrow> string" where
  "json_char c =
     (if c = CHR 34 then [CHR 92, CHR 34]
      else if c = CHR 92 then [CHR 92, CHR 92]
      else if c = CHR 10 then [CHR 92, CHR ''n'']
      else if c = CHR 13 then [CHR 92, CHR ''r'']
      else if c = CHR 9 then [CHR 92, CHR ''t'']
      else if c = CHR 12 then [CHR 92, CHR ''f'']
      else if c = CHR 8 then [CHR 92, CHR ''b'']
      else let n = (of_char c :: nat)
           in if 32 \<le> n \<and> n \<le> 126 then [c]
              else [CHR 92, CHR ''u'', CHR ''0'', CHR ''0'', hex_digit (n div 16), hex_digit (n mod 16)])"

definition json_string :: "string \<Rightarrow> string" where
  "json_string s = CHR 34 # concat (map json_char s) @ [CHR 34]"

fun join :: "string \<Rightarrow> string list \<Rightarrow> string" where
  "join sep [] = []"
| "join sep [s] = s"
| "join sep (s # t # ss) = s @ sep @ join sep (t # ss)"

text \<open>
  \<open>dumps\<close> of a value that \<open>canonicalize_json\<close> has returned: the separators are the item
  separator and the key separator, and keys are sorted already.
\<close>

primrec json_text :: "string \<times> string \<Rightarrow> pyval \<Rightarrow> string" where
  "json_text seps PNone = ''null''"
| "json_text seps (PBool b) = (if b then ''true'' else ''false'')"
| "json_text seps (PInt i) = py_str_int i"
| "json_text seps (PFloat x) = (case x of Fin q \<Rightarrow> float_repr q | _ \<Rightarrow> [])"
| "json_text seps (PStr s) = json_string s"
| "json_text seps (PList xs) = ''['' @ join (fst seps) (map (json_text seps) xs) @ '']''"
| "json_text seps (PTuple xs) = ''['' @ join (fst seps) (map (json_text seps) xs) @ '']''"
| "json_text seps (PDict items) =
     ''{'' @ join (fst seps) (map (\<lambda>(k, t). json_string k @ snd seps @ t) (map (map_prod id (json_text seps)) items)) @ ''}''"
| "json_text seps PKeyedDict = []"
| "json_text seps (POther t) = []"

definition compact :: "string \<times> string" where
  "compact = ('','', '':'')"

definition spaced :: "string \<times> string" where
  "spaced = ('', '', '': '')"

section \<open>\<open>json.loads\<close>\<close>

definition is_digit :: "char \<Rightarrow> bool" where
  "is_digit c \<longleftrightarrow> (let n = (of_char c :: nat) in 48 \<le> n \<and> n \<le> 57)"

definition digits_value :: "string \<Rightarrow> nat" where
  "digits_value ds = foldl (\<lambda>acc c. acc * 10 + (of_char c - 48)) 0 ds"

definition skip_ws :: "string \<Rightarrow> string" where
  "skip_ws = dropWhile (\<lambda>c. c \<in> {CHR '' '', CHR 9, CHR 10, CHR 13})"

text \<open>The value of a hexadecimal digit.\<close>

definition hex_value :: "char \<Rightarrow> nat option" where
  "hex_value c =
     (let n = (of_char c :: nat)
      in if 48 \<le> n \<and> n \<le> 57 then Some (n - 48)
         else if 97 \<le> n \<and> n \<le> 102 then Some (n - 87)
         else if 65 \<le> n \<and> n \<le> 70 then Some (n - 55) else None)"

text \<open>
  The characters of a string up to the closing quote.  Code points beyond 255 are outside the
  string type; the reader gives up on them.
\<close>

fun parse_chars :: "string \<Rightarrow> (string \<times> string) option" where
  "parse_chars [] = None"
| "parse_chars (c # s) =
     (if c = CHR 34 then Some ([], s)
      else if c = CHR 92 then
        (case s of
           [] \<Rightarrow> None
         | e # s1 \<Rightarrow>
             (if e = CHR ''u'' then
                (case s1 of
                   h1 # h2 # h3 # h4 # s2 \<Rightarrow>
                     (case (hex_value h1, hex_value h2, hex_value h3, hex_value h4) of
                        (Some 0, Some 0, Some a, Some b) \<Rightarrow>
                          map_option (\<lambda>(cs, r). (char_of (a * 16 + b) # cs, r)) (parse_chars s2)
                      | _ \<Rightarrow> None)
                 | _ \<Rightarrow> None)
              else
                (case map_of [(CHR 34, CHR 34), (CHR 92, CHR 92), (CHR ''/'', CHR ''/''), (CHR ''b'', CHR 8),
                              (CHR ''f'', CHR 12), (CHR ''n'', CHR 10), (CHR ''r'', CHR 13), (CHR ''t'', CHR 9)] e of
                   Some x \<Rightarrow> map_option (\<lambda>(cs, r). (x # cs, r)) (parse_chars s1)
                 | None \<Rightarrow> None)))
      else if (of_char c :: nat) < 32 then None
      else map_option (\<lambda>(cs, r). (c # cs, r)) (parse_chars s))"

text \<open>A number: an integer unless a fraction or an exponent follows.\<close>

definition parse_fraction :: "string \<Rightarrow> string \<times> string" where
  "parse_fraction s =
     (case s of
        c # d # r \<Rightarrow> if c = CHR ''.'' \<and> is_digit d then (takeWhile is_digit (d # r), dropWhile is_digit (d # r)) else ([], s)
      | _ \<Rightarrow> ([], s))"

definition parse_exponent :: "string \<Rightarrow> int option \<times> string" where
  "parse_exponent s =
     (case s of
        c # r \<Rightarrow>
          if c = CHR ''e'' \<or> c = CHR ''E''
          then (let (neg, ds) = (case r of
                       sg # r1 \<Rightarrow> if sg = CHR ''-'' then (True, r1) else if sg = CHR ''+'' then (False, r1) else (False, r)
                     | [] \<Rightarrow> (False, []))
                in if ds \<noteq> [] \<and> is_digit (hd ds)
                   then (let n = int (digits_value (takeWhile is_digit ds))
                         in (Some (if neg then - n else n), dropWhile is_digit ds))
                   else (None, s))
          else (None, s)
      | [] \<Rightarrow> (None, []))"

definition parse_unsigned :: "string \<Rightarrow> ((nat + rat) \<times> string) option" where
  "parse_unsigned s =
     (case s of
        [] \<Rightarrow> None
      | c # r \<Rightarrow>
          if \<not> is_digit c then None
          else let (int_digits, r1) = (if c = CHR ''0'' then ([c], r) else (takeWhile is_digit s, dropWhile is_digit s));
                   (fraction, r2) = parse_fraction r1;
                   (exponent, r3) = parse_exponent r2
               in if fraction = [] \<and> exponent = None then Some (Inl (digits_value int_digits), r3)
                  else Some (Inr (of_nat (digits_value (int_digits @ fraction))
                                  * pow10 ((case exponent of None \<Rightarrow> 0 | Some e \<Rightarrow> e) - int (length fraction))), r3))"

definition parse_number :: "string \<Rightarrow> (pyval \<times> string) option" where
  "parse_number s =
     (case s of
        [] \<Rightarrow> None
      | c # r \<Rightarrow>
          if c = CHR ''-''
          then map_option (\<lambda>(v, t). (case v of Inl n \<Rightarrow> PInt (- int n) | Inr q \<Rightarrow> PFloat (fl (- q)), t)) (parse_unsigned r)
          else map_option (\<lambda>(v, t). (case v of Inl n \<Rightarrow> PInt (int n) | Inr q \<Rightarrow> PFloat (fl q), t)) (parse_unsigned s))"

text \<open>
  Values; the first argument bounds the nesting and the number of items, and the length of the
  text is always enough.  A duplicated key keeps its first position and its last value.
\<close>

fun put_item :: "string \<Rightarrow> pyval \<Rightarrow> (string \<times> pyval) list \<Rightarrow> (string \<times> pyval) list" where
  "put_item k v [] = [(k, v)]"
| "put_item k v ((k', v') # items) = (if k' = k then (k, v) # items else (k', v') # put_item k v items)"

fun parse_value :: "nat \<Rightarrow> string \<Rightarrow> (pyval \<times> string) option"
and parse_items :: "nat \<Rightarrow> pyval list \<Rightarrow> string \<Rightarrow> (pyval list \<times> string) option"
and parse_members :: "nat \<Rightarrow> (string \<times> pyval) list \<Rightarrow> string \<Rightarrow> ((string \<times> pyval) list \<times> string) option" where
  "parse_value 0 s = None"
| "parse_value (Suc n) s =
     (if take 4 s = ''null'' then Some (PNone, drop 4 s)
      else if take 4 s = ''true'' then Some (PBool True, drop 4 s)
      else if take 5 s = ''false'' then Some (PBool False, drop 5 s)
      else case s of
        [] \<Rightarrow> None
      | c # r \<Rightarrow>
          if c = CHR 34 then map_option (\<lambda>(t, r'). (PStr t, r')) (parse_chars r)
          else if c = CHR ''['' then
            (case skip_ws r of
               [] \<Rightarrow> None
             | d # r1 \<Rightarrow> if d = CHR '']'' then Some (PList [], r1)
                         else map_option (\<lambda>(xs, r'). (PList xs, r')) (parse_items n [] (d # r1)))
          else if c = CHR ''{'' then
            (case skip_ws r of
               [] \<Rightarrow> None
             | d # r1 \<Rightarrow> if d = CHR ''}'' then Some (PDict [], r1)
                         else map_option (\<lambda>(ms, r'). (PDict ms, r')) (parse_members n [] (d # r1)))
          else parse_number s)"
| "parse_items 0 acc s = None"
| "parse_items (Suc n) acc s =
     (case parse_value n s of
        None \<Rightarrow> None
      | Some (v, r) \<Rightarrow>
          (case skip_ws r of
             [] \<Rightarrow> None
           | d # r1 \<Rightarrow> if d = CHR '','' then parse_items n (acc @ [v]) (skip_ws r1)
                       else if d = CHR '']'' then Some (acc @ [v], r1) else None))"
| "parse_members 0 acc s = None"
| "parse_members (Suc n) acc s =
     (case s of
        [] \<Rightarrow> None
      | c # r \<Rightarrow>
          if c \<noteq> CHR 34 then None
          else case parse_chars r of
            None \<Rightarrow> None
          | Some (k, r1) \<Rightarrow>
              (case skip_ws r1 of
                 [] \<Rightarrow> None
               | d # r2 \<Rightarrow>
                   if d \<noteq> CHR '':'' then None
                   else case parse_value n (skip_ws r2) of
                     None \<Rightarrow> None
                   | Some (v, r3) \<Rightarrow>
                       (case skip_ws r3 of
                          [] \<Rightarrow> None
                        | e # r4 \<Rightarrow> if e = CHR '','' then parse_members n (put_item k v acc) (skip_ws r4)
                                    else if e = CHR ''}'' then Some (put_item k v acc, r4) else None)))"

definition json_loads :: "string \<Rightarrow> py_exn + pyval" where
  "json_loads s =
     (case parse_value (Suc (length s)) (skip_ws s) of
        None \<Rightarrow> Inl (OtherException ''JSONDecodeError'')
      | Some (v, r) \<Rightarrow> if skip_ws r = [] then Inr v else Inl (OtherException ''JSONDecodeError''))"


section \<open>Digits\<close>

lemma of_char_less_256: "(of_char c :: nat) < 256"
  by (metis of_char_mod_256 mod_less_divisor zero_less_numeral)

lemma of_char_small: "n < 256 \<Longrightarrow> (of_char (char_of (n :: nat) :: char) :: nat) = n"
  by simp

lemma is_digit_char: "(n :: nat) < 10 \<Longrightarrow> is_digit (char_of (48 + n))"
  by (simp add: is_digit_def Let_def)

lemma nat_digits_rec: "nat_digits n = (if n < 10 then [char_of (48 + n)] else nat_digits (n div 10) @ [char_of (48 + n mod 10)])"
  by (simp add: nat_digits.simps [of n])

lemma nat_digits_digits: "list_all is_digit (nat_digits n)"
proof (induction n rule: nat_digits.induct)
  case (1 n)
  then show ?case by (subst nat_digits_rec) (simp add: is_digit_char)
qed

lemma nat_digits_nonempty [simp]: "nat_digits n \<noteq> []"
  by (subst nat_digits_rec) simp

lemma digits_value_snoc: "digits_value (ds @ [c]) = digits_value ds * 10 + (of_char c - 48)"
  by (simp add: digits_value_def)

lemma digits_value_digits [simp]: "digits_value (nat_digits n) = n"
proof (induction n rule: nat_digits.induct)
  case (1 n)
  show ?case
  proof (cases "n < 10")
    case True
    then have "nat_digits n = [] @ [char_of (48 + n)]" by (subst nat_digits_rec) simp
    then show ?thesis using True by (simp only: digits_value_snoc) (simp add: digits_value_def)
  next
    case False
    then have "nat_digits n = nat_digits (n div 10) @ [char_of (48 + n mod 10)]" by (subst nat_digits_rec) simp
    moreover have "48 + n mod 10 < 256" using mod_less_divisor [of 10 n] by linarith
    ultimately show ?thesis using 1 [OF False] by (simp only: digits_value_snoc of_char_small) simp
  qed
qed

lemma hd_nat_digits: "hd (nat_digits n) = CHR ''0'' \<longleftrightarrow> n = 0"
proof (induction n rule: nat_digits.induct)
  case (1 n)
  show ?case
  proof (cases "n < 10")
    case True
    then have "nat_digits n = [char_of (48 + n)]" by (subst nat_digits_rec) simp
    moreover have "char_of (48 + n) = CHR ''0'' \<longleftrightarrow> n = 0"
    proof
      have "char_of (48 :: nat) = CHR ''0''" by code_simp
      then show "n = 0 \<Longrightarrow> char_of (48 + n) = CHR ''0''" by simp
    next
      assume "char_of (48 + n) = CHR ''0''"
      then have "(of_char (char_of (48 + n) :: char) :: nat) = of_char (CHR ''0'')" by (rule arg_cong)
      then show "n = 0" using True by (simp only: of_char_small) simp
    qed
    ultimately show ?thesis by simp
  next
    case False
    then have "nat_digits n = nat_digits (n div 10) @ [char_of (48 + n mod 10)]" by (subst nat_digits_rec) simp
    then have "hd (nat_digits n) = hd (nat_digits (n div 10))" by simp
    then show ?thesis using 1 [OF False] False by simp
  qed
qed

text \<open>What may follow a number.\<close>

definition stops :: "string \<Rightarrow> bool" where
  "stops r \<longleftrightarrow> (case r of [] \<Rightarrow> True | c # _ \<Rightarrow> \<not> is_digit c \<and> c \<noteq> CHR ''.'' \<and> c \<noteq> CHR ''e'' \<and> c \<noteq> CHR ''E'')"

lemma take_digits:
  assumes "list_all is_digit ds" and "r = [] \<or> \<not> is_digit (hd r)"
  shows "takeWhile is_digit (ds @ r) = ds" and "dropWhile is_digit (ds @ r) = r"
proof -
  have "takeWhile is_digit r = []" "dropWhile is_digit r = r" using assms(2) by (cases r; simp)+
  then show "takeWhile is_digit (ds @ r) = ds" "dropWhile is_digit (ds @ r) = r"
    using assms(1) by (simp_all add: list_all_iff)
qed

lemma stops_nodigit: "stops r \<Longrightarrow> r = [] \<or> \<not> is_digit (hd r)"
  by (cases r) (auto simp: stops_def)

lemma parse_integer_part:
  assumes "r = [] \<or> \<not> is_digit (hd r)"
  shows "\<exists>c t. nat_digits n @ r = c # t \<and> is_digit c \<and> c \<noteq> CHR ''-''
    \<and> (if c = CHR ''0'' then ([c], t) else (takeWhile is_digit (c # t), dropWhile is_digit (c # t))) = (nat_digits n, r)"
proof -
  obtain c t where ct: "nat_digits n = c # t" by (cases "nat_digits n") auto
  have c: "is_digit c" using nat_digits_digits [of n] ct by simp
  moreover from c have "c \<noteq> CHR ''-''" by (auto simp: is_digit_def)
  moreover have "c = CHR ''0'' \<Longrightarrow> t = []"
    using hd_nat_digits [of n] ct by (simp add: nat_digits_rec)
  ultimately show ?thesis
    using take_digits [OF nat_digits_digits assms, of n] ct by auto
qed

lemma parse_unsigned_nat:
  assumes "stops r"
  shows "parse_unsigned (nat_digits n @ r) = Some (Inl n, r)"
proof -
  have none: "parse_fraction r = ([], r)" "parse_exponent r = (None, r)"
    using assms by (auto simp: parse_fraction_def parse_exponent_def stops_def split: list.splits)
  show ?thesis
    using parse_integer_part [OF stops_nodigit [OF assms], of n] none
    by (auto simp: parse_unsigned_def simp del: takeWhile.simps dropWhile.simps)
qed

lemma parse_number_int:
  assumes "stops r"
  shows "parse_number (py_str_int i @ r) = Some (PInt i, r)"
proof (cases "i < 0")
  case True
  then show ?thesis using parse_unsigned_nat [OF assms, of "nat (- i)"] by (simp add: py_str_int_def parse_number_def)
next
  case False
  obtain c t where "nat_digits (nat i) @ r = c # t" "c \<noteq> CHR ''-''"
    using parse_integer_part [OF stops_nodigit [OF assms], of "nat i"] by blast
  then show ?thesis
    using False parse_unsigned_nat [OF assms, of "nat i"] by (simp add: py_str_int_def parse_number_def)
qed

section \<open>Strings\<close>

lemma hex_digit_value: "n < 16 \<Longrightarrow> hex_value (hex_digit n) = Some n"
  by (simp add: hex_digit_def hex_value_def)

lemma parse_json_char: "parse_chars (json_char c @ s) = map_option (\<lambda>(cs, r). (c # cs, r)) (parse_chars s)"
proof (cases "c \<in> {CHR 34, CHR 92, CHR 10, CHR 13, CHR 9, CHR 12, CHR 8}")
  case True
  then show ?thesis by (auto simp: json_char_def)
next
  case False
  let ?n = "of_char c :: nat"
  show ?thesis
  proof (cases "32 \<le> ?n \<and> ?n \<le> 126")
    case True
    then show ?thesis using False by (simp add: json_char_def)
  next
    case esc: False
    have n: "?n < 256" by (rule of_char_less_256)
    have "?n div 16 < 16" using n by (simp add: div_less_iff_less_mult)
    moreover have "?n mod 16 < 16" by (rule mod_less_divisor) simp
    ultimately have "hex_value (hex_digit (?n div 16)) = Some (?n div 16)" "hex_value (hex_digit (?n mod 16)) = Some (?n mod 16)"
      by (simp_all add: hex_digit_value)
    moreover have "hex_value (CHR ''0'') = Some 0" by (simp add: hex_value_def)
    moreover have "?n div 16 * 16 + ?n mod 16 = ?n" by simp
    ultimately show ?thesis using False esc by (simp add: json_char_def Let_def)
  qed
qed

lemma parse_json_chars: "parse_chars (concat (map json_char s) @ CHR 34 # r) = Some (s, r)"
  by (induction s) (simp_all add: parse_json_char)


section \<open>Values without floats\<close>

text \<open>The values \<open>canonicalize_json\<close> returns; a float is a double.\<close>

primrec canonical_value :: "pyval \<Rightarrow> bool" where
  "canonical_value PNone = True"
| "canonical_value (PBool b) = True"
| "canonical_value (PInt i) = True"
| "canonical_value (PFloat x) = (case x of Fin q \<Rightarrow> fl q = Fin q | _ \<Rightarrow> False)"
| "canonical_value (PStr s) = True"
| "canonical_value (PList xs) = list_all id (map canonical_value xs)"
| "canonical_value (PTuple xs) = False"
| "canonical_value (PDict items) =
     (sorted_wrt (<) (map fst items) \<and> list_all snd (map (map_prod id canonical_value) items))"
| "canonical_value PKeyedDict = False"
| "canonical_value (POther t) = False"

text \<open>How deep and long a value is: the bound its reader needs.\<close>

primrec need :: "pyval \<Rightarrow> nat" where
  "need PNone = 1"
| "need (PBool b) = 1"
| "need (PInt i) = 1"
| "need (PFloat x) = 1"
| "need (PStr s) = 1"
| "need (PList xs) = 1 + sum_list (map Suc (map need xs))"
| "need (PTuple xs) = 1"
| "need (PDict items) = 1 + sum_list (map (\<lambda>p. Suc (snd p)) (map (map_prod id need) items))"
| "need PKeyedDict = 1"
| "need (POther t) = 1"

lemma put_item_fresh: "k \<notin> fst ` set items \<Longrightarrow> put_item k v items = items @ [(k, v)]"
  by (induction items) auto

definition value_reads :: "string \<times> string \<Rightarrow> pyval \<Rightarrow> bool" where
  "value_reads seps v \<longleftrightarrow>
     (\<forall>n r. need v \<le> n \<longrightarrow> stops r \<longrightarrow> parse_value n (json_text seps v @ r) = Some (v, r))
     \<and> (\<exists>c t. json_text seps v = c # t \<and> c \<notin> {CHR '' '', CHR 9, CHR 10, CHR 13, CHR '']'', CHR ''}''})"

text \<open>The separators \<open>dumps\<close> is called with: a comma or colon and an optional space.\<close>

definition seps_ok :: "string \<times> string \<Rightarrow> bool" where
  "seps_ok seps \<longleftrightarrow> fst seps \<in> {'','', '', ''} \<and> snd seps \<in> {'':'', '': ''}"

lemma seps_ok_simps [simp]: "seps_ok compact" "seps_ok spaced"
  by (simp_all add: seps_ok_def compact_def spaced_def)

lemma skip_ws_nonspace: "c \<notin> {CHR '' '', CHR 9, CHR 10, CHR 13} \<Longrightarrow> skip_ws (c # t) = c # t"
  by (simp add: skip_ws_def)

lemma join_items:
  assumes "seps_ok seps"
  shows "\<exists>t. join (fst seps) (x # y # zs) = x @ CHR '','' # t \<and> (y = c # y' \<longrightarrow> c \<notin> {CHR '' '', CHR 9, CHR 10, CHR 13} \<longrightarrow>
    (\<forall>r. skip_ws (t @ r) = join (fst seps) (y # zs) @ r))"
proof -
  have j: "\<exists>u. join (fst seps) (y # zs) = y @ u" by (cases zs) auto
  then obtain u where u: "join (fst seps) (y # zs) = y @ u" by blast
  have "fst seps = '','' \<or> fst seps = '', ''" using assms by (simp add: seps_ok_def)
  then show ?thesis
    using u by (elim disjE) (auto simp: skip_ws_def)
qed

lemma parse_items_join:
  assumes "seps_ok seps" and "\<forall>v \<in> set vs. value_reads seps v" and "vs \<noteq> []"
    and "sum_list (map Suc (map need vs)) \<le> n"
  shows "parse_items n acc (join (fst seps) (map (json_text seps) vs) @ CHR '']'' # r) = Some (acc @ vs, r)"
  using assms(2-4)
proof (induction vs arbitrary: acc n)
  case (Cons v vs)
  obtain m where n: "n = Suc m" and m: "need v \<le> m" "sum_list (map Suc (map need vs)) \<le> m"
    using Cons.prems(3) by (cases n) auto
  have v: "\<And>r. stops r \<Longrightarrow> parse_value m (json_text seps v @ r) = Some (v, r)"
    using Cons.prems(1) m(1) by (simp add: value_reads_def)
  show ?case
  proof (cases vs)
    case Nil
    have "stops (CHR '']'' # r)" by (simp add: stops_def is_digit_def)
    then show ?thesis using v n Nil by (simp add: skip_ws_def)
  next
    case (Cons w ws)
    obtain c t where w: "json_text seps w = c # t" "c \<notin> {CHR '' '', CHR 9, CHR 10, CHR 13}"
      using Cons.prems(1) Cons unfolding value_reads_def by auto
    obtain u where u: "join (fst seps) (map (json_text seps) (v # vs)) = json_text seps v @ CHR '','' # u"
        "\<And>r. skip_ws (u @ r) = join (fst seps) (map (json_text seps) vs) @ r"
      using join_items [OF assms(1), of "json_text seps v" "json_text seps w" "map (json_text seps) ws" c t] w Cons by auto
    have "stops (CHR '','' # x)" for x by (simp add: stops_def is_digit_def)
    moreover have "parse_items m (acc @ [v]) (join (fst seps) (map (json_text seps) vs) @ CHR '']'' # r) = Some ((acc @ [v]) @ vs, r)"
      by (rule Cons.IH) (use Cons.prems Cons m(2) in auto)
    ultimately show ?thesis using v u n by (simp add: skip_ws_def)
  qed
qed simp


section \<open>The text of a float reads back\<close>

lemma pow10_pos [simp]: "0 < pow10 k"
  by (simp add: pow10_def)

lemma pow_nonzero [simp]: "pow10 k \<noteq> 0" "pow2 k \<noteq> 0"
  by (rule less_imp_neq [symmetric, OF pow10_pos], rule less_imp_neq [symmetric, OF pow2_pos])

lemma pow10_powi: "pow10 k = 10 powi k"
  by (simp add: pow10_def power_int_def field_simps)

lemma pow10_add: "pow10 (a + b) = pow10 a * pow10 b"
  by (simp add: pow10_powi power_int_add)

lemma pow10_nat: "pow10 (int n) = 10 ^ n"
  by (simp add: pow10_def)

lemma length_nat_digits: "0 < n \<Longrightarrow> 10 ^ (length (nat_digits n) - 1) \<le> n \<and> n < 10 ^ length (nat_digits n)"
proof (induction n rule: nat_digits.induct)
  case (1 n)
  show ?case
  proof (cases "n < 10")
    case True
    then show ?thesis using 1 by (subst (1 2) nat_digits_rec) simp
  next
    case False
    then have len: "length (nat_digits n) = Suc (length (nat_digits (n div 10)))" by (subst nat_digits_rec) simp
    have ih: "10 ^ (length (nat_digits (n div 10)) - 1) \<le> n div 10" "n div 10 < 10 ^ length (nat_digits (n div 10))"
      using 1 False by simp_all
    obtain l where l: "length (nat_digits (n div 10)) = Suc l"
      by (metis length_0_conv nat_digits_nonempty old.nat.exhaust)
    have "10 ^ Suc l \<le> n" using ih(1) l by simp
    moreover have "n < 10 ^ Suc (Suc l)" using ih(2) l by simp
    ultimately show ?thesis using len l by simp
  qed
qed

lemma lead10_bounds:
  assumes "0 < q"
  shows "pow10 (lead10 q) \<le> q" and "q < pow10 (lead10 q + 1)"
proof -
  have int_bounds: "pow10 (dec_len n - 1) \<le> of_int n" "of_int n + 1 \<le> pow10 (dec_len n)" if n: "0 < n" for n
  proof -
    let ?l = "length (nat_digits (nat n))"
    have l: "0 < ?l" by simp
    have "0 < nat n" using n by simp
    from length_nat_digits [OF this] have b: "10 ^ (?l - 1) \<le> nat n" "nat n + 1 \<le> 10 ^ ?l" by (simp_all only: Suc_eq_plus1 [symmetric] Suc_le_eq)
    have "dec_len n - 1 = int (?l - 1)" using l unfolding dec_len_def by linarith
    then have "pow10 (dec_len n - 1) = of_nat (10 ^ (?l - 1))" by (simp add: pow10_nat)
    also have "\<dots> \<le> of_nat (nat n)" using b(1) by (simp only: of_nat_le_iff)
    finally show "pow10 (dec_len n - 1) \<le> of_int n" using n by simp
    have "of_int n + 1 = (of_nat (nat n + 1) :: rat)" using n by simp
    also have "\<dots> \<le> of_nat (10 ^ ?l)" using b(2) by (simp only: of_nat_le_iff)
    finally show "of_int n + 1 \<le> pow10 (dec_len n)" by (simp add: dec_len_def pow10_nat)
  qed
  have "pow10 (lead10 q) \<le> q \<and> q < pow10 (lead10 q + 1)"
  proof (cases "1 \<le> q")
    case True
    then have "0 < \<lfloor>q\<rfloor>" by simp
    from int_bounds [OF this] show ?thesis
      using True floor_correct [of q] by (auto simp: lead10_def intro: order_trans)
  next
    case False
    let ?c = "\<lceil>1 / q\<rceil> - 1"
    have "1 < 1 / q" using False assms by simp
    then have c: "0 < ?c" by (simp add: less_ceiling_iff)
    have inv: "pow10 (- k) = 1 / pow10 k" for k by (simp add: pow10_powi power_int_minus_divide)
    have "1 / q \<le> of_int ?c + 1" "of_int ?c < 1 / q"
      using ceiling_correct [of "1 / q"] by simp_all
    then have "1 / q \<le> pow10 (dec_len ?c)" "pow10 (dec_len ?c - 1) < 1 / q"
      using int_bounds [OF c] by linarith+
    then have "1 / pow10 (dec_len ?c) \<le> q" "q < 1 / pow10 (dec_len ?c - 1)"
      using assms by (simp_all add: field_simps)
    then show ?thesis
      using False by (simp add: lead10_def inv [symmetric] minus_diff_eq)
  qed
  then show "pow10 (lead10 q) \<le> q" "q < pow10 (lead10 q + 1)" by simp_all
qed

lemma round_half_even_near: "\<bar>x - of_int (round_half_even x)\<bar> \<le> 1 / 2"
proof -
  have "of_int \<lfloor>x\<rfloor> \<le> x" "x < of_int \<lfloor>x\<rfloor> + 1" by linarith+
  then show ?thesis by (auto simp: round_half_even_def Let_def)
qed

lemma round_half_even_eq: "\<bar>x - of_int m\<bar> < 1 / 2 \<Longrightarrow> round_half_even x = m"
proof -
  assume "\<bar>x - of_int m\<bar> < 1 / 2"
  then have "\<bar>of_int m - of_int (round_half_even x)\<bar> < (1 :: rat)" using round_half_even_near [of x] by linarith
  then have "\<bar>m - round_half_even x\<bar> < 1" by (metis of_int_1_less_iff of_int_abs of_int_diff of_int_less_1_iff)
  then show ?thesis by simp
qed

lemma nearest_17:
  assumes "0 < q"
  shows "\<bar>decimal_value (nearest_decimal q 17) - q\<bar> \<le> q / (2 * 10 ^ 16)"
proof -
  let ?e = "lead10 q - 16" let ?g = "pow10 ?e" let ?x = "q / ?g - of_int (round_half_even (q / ?g))"
  have g: "0 < ?g" by simp
  have "\<bar>?x\<bar> * ?g \<le> 1 / 2 * ?g"
    by (rule mult_right_mono [OF round_half_even_near]) (simp add: less_imp_le)
  moreover have "\<bar>?x\<bar> * ?g = \<bar>of_int (round_half_even (q / ?g)) * ?g - q\<bar>"
  proof -
    have "?x * ?g = q - of_int (round_half_even (q / ?g)) * ?g" using g by (simp add: left_diff_distrib)
    then have "\<bar>?x * ?g\<bar> = \<bar>of_int (round_half_even (q / ?g)) * ?g - q\<bar>" by (simp only: abs_minus_commute)
    then show ?thesis using g by (simp only: abs_mult abs_of_pos)
  qed
  ultimately have "\<bar>of_int (round_half_even (q / ?g)) * ?g - q\<bar> \<le> ?g / 2" by simp
  also have "\<dots> \<le> q / (2 * 10 ^ 16)"
  proof -
    have "pow10 (lead10 q) = ?g * 10 ^ 16" using pow10_add [of ?e 16] by (simp add: pow10_def [of 16])
    then show ?thesis using lead10_bounds(1) [OF assms] by simp
  qed
  finally show ?thesis by (simp add: decimal_value_def nearest_decimal_def Let_def algebra_simps)
qed

lemma nearest_pos:
  assumes "0 < q" and "1 \<le> n"
  shows "0 < fst (nearest_decimal q n)"
proof -
  let ?e = "lead10 q - n + 1"
  have "pow10 ?e \<le> pow10 (lead10 q)" using assms(2) by (simp add: pow10_powi power_int_increasing)
  also have "\<dots> \<le> q" by (rule lead10_bounds(1) [OF assms(1)])
  finally have "of_int 1 \<le> q / pow10 ?e" by (simp add: pos_le_divide_eq)
  then have "1 \<le> round_half_even (q / pow10 ?e)" by (rule round_half_even_ge)
  then show ?thesis by (simp add: nearest_decimal_def Let_def)
qed

lemma lead_exp_unique:
  assumes "pow2 k \<le> q" and "q < pow2 (k + 1)"
  shows "lead_exp q = k"
proof -
  have q: "0 < q" using assms(1) pow2_pos [of k] by linarith
  have "pow2 a \<le> q \<Longrightarrow> q < pow2 (b + 1) \<Longrightarrow> a \<le> b" for a b
  proof (rule ccontr)
    assume "pow2 a \<le> q" "q < pow2 (b + 1)" "\<not> a \<le> b"
    then show False using pow2_mono [of "b + 1" a] by simp
  qed
  then show ?thesis using assms lead_exp_bounds [OF q] by (meson order_antisym)
qed

lemma fl_near:
  assumes "0 < d" and "e = max (lead_exp d - 52) (- 1074)" and "q = of_int m * pow2 e"
    and "\<bar>d - q\<bar> < pow2 (e - 1)" and "\<bar>q\<bar> < pow2 1024"
  shows "fl d = Fin q"
proof -
  have "pow2 e = pow2 (e - 1) * 2" using pow2_add [of "e - 1" 1] by (simp add: pow2_def [of 1])
  then have half: "pow2 (e - 1) / pow2 e = 1 / 2" by simp
  have "\<bar>d / pow2 e - of_int m\<bar> = \<bar>d - q\<bar> / pow2 e"
    using less_imp_le [OF pow2_pos [of e]] unfolding assms(3) by (simp add: abs_div_pos [symmetric] field_simps)
  also have "\<dots> < pow2 (e - 1) / pow2 e" using assms(4) by (intro divide_strict_right_mono) simp_all
  finally have "round_half_even (d / pow2 e) = m" unfolding half by (rule round_half_even_eq)
  then show ?thesis using assms by (simp add: fl_def Let_def)
qed


text \<open>A number as near to a double as its seventeen-digit decimal rounds to that double.\<close>

lemma fl_close:
  assumes q: "0 < q" and dbl: "fl q = Fin q" and near: "\<bar>d - q\<bar> \<le> q / (2 * 10 ^ 16)"
  shows "fl d = Fin q"
proof -
  let ?k = "lead_exp q" let ?e = "max (?k - 52) (- 1074)"
  have "q = of_int (round_half_even (q / pow2 ?e)) * pow2 ?e" and big: "\<bar>q\<bar> < pow2 1024"
    using q dbl by (auto simp: fl_def Let_def not_le split: if_splits)
  then obtain m where m: "q = of_int m * pow2 ?e" by blast
  note k = lead_exp_bounds [OF q]
  have "q / (2 * 10 ^ 16) < q" using q by simp
  then have d0: "0 < d" using near by linarith
  have m1: "1 \<le> m"
    using q m pow2_pos [of ?e] by (metis int_one_le_iff_zero_less of_int_0_less_iff zero_less_mult_pos2)
  have pq: "q < pow2 (?k + 1)" using k(2) .
  have double: "pow2 (a + 1) = 2 * pow2 a" for a by (simp add: pow2_add) (simp add: pow2_def)
  have small: "\<bar>d - q\<bar> < pow2 (?k - 53)"
  proof -
    have "pow2 (?k + 1) = pow2 (?k - 53) * 2 ^ 54" using pow2_add [of "?k - 53" 54] by (simp add: pow2_def [of 54] add.commute)
    then have "q / (2 * 10 ^ 16) < pow2 (?k - 53) * 2 ^ 54 / (2 * 10 ^ 16)" using k(2) by simp
    also have "\<dots> < pow2 (?k - 53)" using pow2_pos [of "?k - 53"] by simp
    finally show ?thesis using near by linarith
  qed
  have half: "pow2 (?k - 53) \<le> pow2 (?e - 1)" by (rule pow2_mono) simp
  have kE: "?e \<le> ?k"
  proof (rule ccontr)
    assume "\<not> ?e \<le> ?k"
    then have "pow2 (?k + 1) \<le> pow2 ?e" by (intro pow2_mono) simp
    moreover have "1 * pow2 ?e \<le> of_int m * pow2 ?e" by (rule mult_right_mono) (use m1 less_imp_le [OF pow2_pos] in auto)
    then have "pow2 ?e \<le> q" using m by simp
    ultimately show False using k(2) by linarith
  qed
  have mult: "\<exists>j. pow2 i = of_int j * pow2 ?e" if "?e \<le> i" for i
    using that pow2_add [of "i - ?e" ?e] by (intro exI [of _ "2 ^ nat (i - ?e)"]) (simp add: pow2_def [of "i - ?e"])
  have grid: "of_int a * pow2 ?e + pow2 ?e \<le> of_int b * pow2 ?e" if "of_int a * pow2 ?e < of_int b * pow2 ?e" for a b
  proof -
    have "a < b" using that by simp
    then have "of_int (a + 1) * pow2 ?e \<le> of_int b * pow2 ?e" by (intro mult_right_mono) (simp_all add: less_imp_le)
    then show ?thesis by (simp add: distrib_right)
  qed
  have up: "d < pow2 (?k + 1)"
  proof -
    obtain j where j: "pow2 (?k + 1) = of_int j * pow2 ?e" using mult [of "?k + 1"] kE by auto
    have "q + pow2 ?e \<le> pow2 (?k + 1)" using grid [of m j] k(2) m j by simp
    moreover have "pow2 (?e - 1) < pow2 ?e" using double [of "?e - 1"] by simp
    ultimately show ?thesis using small half by linarith
  qed
  show ?thesis
  proof (cases "pow2 ?k \<le> d")
    case True
    then have "lead_exp d = ?k" by (rule lead_exp_unique) (rule up)
    then show ?thesis using fl_near [OF d0 _ m] small half big by simp
  next
    case False
    obtain j where j: "pow2 ?k = of_int j * pow2 ?e" using mult [of ?k] kE by auto
    have "q = pow2 ?k"
    proof (rule ccontr)
      assume "q \<noteq> pow2 ?k"
      then have "pow2 ?k + pow2 ?e \<le> q" using grid [of j m] k(1) m j by simp
      moreover have "pow2 (?e - 1) < pow2 ?e" using double [of "?e - 1"] by simp
      ultimately show False using small half False by linarith
    qed
    have small2: "\<bar>d - q\<bar> < pow2 (?k - 54)"
    proof -
      have "pow2 ?k = pow2 (?k - 54) * 2 ^ 54" using pow2_add [of "?k - 54" 54] by (simp add: pow2_def [of 54])
      then have "q / (2 * 10 ^ 16) = pow2 (?k - 54) * 2 ^ 54 / (2 * 10 ^ 16)" using \<open>q = pow2 ?k\<close> by simp
      also have "\<dots> < pow2 (?k - 54)" using pow2_pos [of "?k - 54"] by simp
      finally show ?thesis using near by linarith
    qed
    have "pow2 (?k - 1) \<le> d"
    proof -
      have "pow2 ?k = 2 * pow2 (?k - 1)" using double [of "?k - 1"] by simp
      moreover have "pow2 (?k - 54) \<le> pow2 (?k - 1)" by (rule pow2_mono) simp
      ultimately show ?thesis using small2 \<open>q = pow2 ?k\<close> by linarith
    qed
    then have le: "lead_exp d = ?k - 1" by (rule lead_exp_unique) (use False in simp)
    let ?e' = "max (?k - 1 - 52) (- 1074)"
    have "?e' \<le> ?e" by linarith
    then have "pow2 ?e = of_int (2 ^ nat (?e - ?e')) * pow2 ?e'"
      using pow2_add [of "?e - ?e'" ?e'] unfolding pow2_def [of "?e - ?e'"] by simp
    then have m': "q = of_int (m * 2 ^ nat (?e - ?e')) * pow2 ?e'" using m by simp
    have "pow2 (?k - 54) \<le> pow2 (?e' - 1)" by (rule pow2_mono) simp
    then show ?thesis using fl_near [OF d0 _ m'] small2 big le by simp
  qed
qed

lemma shortest_decimal_props:
  assumes "0 < q" and "fl q = Fin q"
  shows "0 < fst (shortest_decimal q)" and "fl (decimal_value (shortest_decimal q)) = Fin q"
proof -
  have "0 < fst (shortest_decimal q) \<and> fl (decimal_value (shortest_decimal q)) = Fin q"
  proof (cases "List.find (\<lambda>n. fl (decimal_value (nearest_decimal q n)) = Fin q) [1..16]")
    case None
    then show ?thesis
      using nearest_pos [OF assms(1), of 17] fl_close [OF assms nearest_17 [OF assms(1)]]
      by (simp add: shortest_decimal_def)
  next
    case (Some n)
    then have "n \<in> set [1..16]" "fl (decimal_value (nearest_decimal q n)) = Fin q"
      by (auto simp: find_Some_iff)
    then show ?thesis
      using nearest_pos [OF assms(1), of n] Some by (simp add: shortest_decimal_def)
  qed
  then show "0 < fst (shortest_decimal q)" "fl (decimal_value (shortest_decimal q)) = Fin q" by simp_all
qed


lemma digits_value_append: "digits_value (a @ b) = digits_value a * 10 ^ length b + digits_value b"
proof (induction b rule: rev_induct)
  case Nil
  then show ?case by (simp add: digits_value_def)
next
  case (snoc c b)
  have "digits_value (a @ b @ [c]) = digits_value (a @ b) * 10 + (of_char c - 48)"
    using digits_value_snoc [of "a @ b" c] by simp
  then show ?case using snoc by (simp add: digits_value_snoc algebra_simps)
qed

lemma digits_value_zeros [simp]: "digits_value (replicate n CHR ''0'') = 0"
  by (induction n) (simp_all add: digits_value_def)

lemma digits_value_zero [simp]: "digits_value ''0'' = 0"
  by (simp add: digits_value_def)

lemma is_digit_zero [simp]: "is_digit (CHR ''0'')"
  by (simp add: is_digit_def)

lemma point_no_digit [simp]: "\<not> is_digit (CHR ''.'')" "\<not> is_digit (CHR ''e'')" "\<not> is_digit (CHR ''-'')"
  by (simp_all add: is_digit_def)

lemma digits_zeros [simp]: "list_all is_digit (replicate n CHR ''0'')"
  by (simp add: list_all_iff)

lemma parse_fraction_digits:
  assumes "list_all is_digit ds" and "ds \<noteq> []" and "r = [] \<or> \<not> is_digit (hd r)"
  shows "parse_fraction (CHR ''.'' # ds @ r) = (ds, r)"
proof -
  obtain c t where ct: "ds = c # t" "is_digit c" using assms(1,2) by (cases ds) auto
  then show ?thesis using take_digits [OF assms(1,3)] by (simp add: parse_fraction_def)
qed

lemma stops_none: "stops r \<Longrightarrow> parse_exponent r = (None, r)" "stops r \<Longrightarrow> parse_fraction r = ([], r)"
  by (auto simp: parse_fraction_def parse_exponent_def stops_def split: list.splits)

text \<open>A number whose integer part is not zero, or is the single digit zero.\<close>

lemma parse_unsigned_parts:
  assumes "list_all is_digit ds" and "ds \<noteq> []" and "hd ds = CHR ''0'' \<longrightarrow> tl ds = []"
    and "r = [] \<or> \<not> is_digit (hd r)" and "parse_fraction r = (fr, r1)" and "parse_exponent r1 = (ex, r2)"
    and "fr \<noteq> [] \<or> ex \<noteq> None"
  shows "parse_unsigned (ds @ r) = Some (Inr (of_nat (digits_value (ds @ fr))
           * pow10 ((case ex of None \<Rightarrow> 0 | Some e \<Rightarrow> e) - int (length fr))), r2)"
proof -
  obtain c t where ct: "ds = c # t" "is_digit c" using assms(1,2) by (cases ds) auto
  have "(if c = CHR ''0'' then ([c], t @ r) else (takeWhile is_digit (ds @ r), dropWhile is_digit (ds @ r))) = (ds, r)"
    using take_digits [OF assms(1,4)] assms(3) ct by auto
  then show ?thesis using assms(5-7) ct by (auto simp: parse_unsigned_def Let_def split: if_splits)
qed

lemma two_digits_props:
  assumes "0 \<le> n"
  shows "list_all is_digit (two_digits n)" and "two_digits n \<noteq> []" and "digits_value (two_digits n) = nat n"
  using nat_digits_digits [of "nat n"] digits_value_append [of "''0''" "nat_digits (nat n)"]
  by (simp_all add: two_digits_def)

lemma parse_exponent_text:
  assumes "stops r"
  shows "parse_exponent (CHR ''e'' # (if e < 0 then ''-'' else ''+'') @ two_digits \<bar>e\<bar> @ r) = (Some e, r)"
proof -
  note td = two_digits_props [of "\<bar>e\<bar>"]
  obtain c t where ct: "two_digits \<bar>e\<bar> = c # t" "is_digit c"
    using td by (cases "two_digits \<bar>e\<bar>") auto
  show ?thesis
    using td ct take_digits [OF td(1) stops_nodigit [OF assms]] by (simp add: parse_exponent_def Let_def)
qed

lemma parse_format_decimal:
  assumes ds: "list_all is_digit ds" "ds \<noteq> []" "hd ds \<noteq> CHR ''0''" and r: "stops r"
  shows "parse_unsigned (format_decimal ds point @ r)
       = Some (Inr (of_nat (digits_value ds) * pow10 (point - int (length ds))), r)"
proof (cases "- 4 < point \<and> point \<le> 16")
  case fixed: True
  show ?thesis
  proof (cases "point \<le> 0")
    case True
    let ?fr = "replicate (nat (- point)) CHR ''0'' @ ds"
    have "parse_fraction (CHR ''.'' # ?fr @ r) = (?fr, r)"
      by (rule parse_fraction_digits) (use ds stops_nodigit [OF r] in auto)
    from parse_unsigned_parts [OF _ _ _ _ this stops_none(1) [OF r], of "''0''"]
    moreover have "digits_value (''0'' @ ?fr) = digits_value ds" by (simp only: digits_value_append) simp
    ultimately show ?thesis using fixed True ds by (simp add: format_decimal_def)
  next
    case pos: False
    show ?thesis
    proof (cases "int (length ds) \<le> point")
      case True
      let ?z = "replicate (nat point - length ds) CHR ''0''"
      have "parse_fraction (CHR ''.'' # ''0'' @ r) = (''0'', r)"
        by (rule parse_fraction_digits) (use stops_nodigit [OF r] in auto)
      moreover have "hd (ds @ ?z) = hd ds" using ds by simp
      ultimately have "parse_unsigned ((ds @ ?z) @ CHR ''.'' # ''0'' @ r)
          = Some (Inr (of_nat (digits_value ((ds @ ?z) @ ''0'')) * pow10 (0 - int (length ''0''))), r)"
        using parse_unsigned_parts [OF _ _ _ _ _ stops_none(1) [OF r], of "ds @ ?z" "CHR ''.'' # ''0'' @ r" "''0''"] ds
        by simp
      moreover have "of_nat (digits_value ((ds @ ?z) @ ''0'')) * pow10 (- 1)
          = of_nat (digits_value ds) * pow10 (point - int (length ds))"
        using True by (simp add: digits_value_append pow10_def nat_diff_distrib)
      ultimately show ?thesis using fixed pos True by (simp add: format_decimal_def)
    next
      case False
      let ?i = "take (nat point) ds" let ?fr = "drop (nat point) ds"
      have "parse_fraction (CHR ''.'' # ?fr @ r) = (?fr, r)"
      proof (rule parse_fraction_digits)
        show "list_all is_digit ?fr" using ds(1) by (auto simp: list_all_iff dest: in_set_dropD)
        show "?fr \<noteq> []" using False pos by simp
      qed (rule stops_nodigit [OF r])
      moreover have "list_all is_digit ?i" "?i \<noteq> []" "hd ?i = hd ds"
        using ds pos by (auto simp: list_all_iff dest: in_set_takeD)
      ultimately have "parse_unsigned (?i @ CHR ''.'' # ?fr @ r)
          = Some (Inr (of_nat (digits_value (?i @ ?fr)) * pow10 (0 - int (length ?fr))), r)"
        using parse_unsigned_parts [OF _ _ _ _ _ stops_none(1) [OF r], of ?i "CHR ''.'' # ?fr @ r" ?fr] ds False by simp
      then show ?thesis using fixed pos False by (simp add: format_decimal_def of_nat_diff)
    qed
  qed
next
  case False
  let ?ex = "CHR ''e'' # (if point - 1 < 0 then ''-'' else ''+'') @ two_digits \<bar>point - 1\<bar> @ r"
  obtain c t where ct: "ds = c # t" "is_digit c" "list_all is_digit t" using ds(1,2) by (cases ds) auto
  have ex: "parse_exponent ?ex = (Some (point - 1), r)" by (rule parse_exponent_text [OF r])
  show ?thesis
  proof (cases t)
    case Nil
    have "parse_fraction ?ex = ([], ?ex)" by (simp add: parse_fraction_def split: list.splits)
    from parse_unsigned_parts [OF _ _ _ _ this ex, of "[c]"]
    show ?thesis using False ct Nil by (auto simp: format_decimal_def)
  next
    case (Cons d u)
    have "parse_fraction (CHR ''.'' # t @ ?ex) = (t, ?ex)"
      by (rule parse_fraction_digits) (use ct Cons in auto)
    from parse_unsigned_parts [OF _ _ _ _ this ex, of "[c]"]
    show ?thesis using False ct Cons by (auto simp: format_decimal_def algebra_simps)
  qed
qed


lemma strip_zeros_split:
  obtains j where "ds = strip_zeros ds @ replicate j CHR ''0''"
proof -
  let ?z = "takeWhile (\<lambda>c. c = CHR ''0'') (rev ds)"
  have "set ?z \<subseteq> {CHR ''0''}" by (auto dest: set_takeWhileD)
  then have z: "?z = replicate (length ?z) CHR ''0''" by (metis replicate_length_same singletonD subsetD)
  have "rev ds = ?z @ dropWhile (\<lambda>c. c = CHR ''0'') (rev ds)" by simp
  then have "ds = strip_zeros ds @ rev ?z" unfolding strip_zeros_def by (metis rev_append rev_rev_ident)
  then show ?thesis using that z by (metis rev_replicate)
qed

lemma parse_pos_repr:
  assumes "0 < q" and "fl q = Fin q" and "stops r"
  shows "parse_unsigned (pos_repr q @ r) = Some (Inr (decimal_value (shortest_decimal q)), r)"
    and "hd (pos_repr q) \<noteq> CHR ''-''" and "pos_repr q \<noteq> []"
proof -
  obtain M e where d: "shortest_decimal q = (M, e)" by fastforce
  have M: "0 < M" using shortest_decimal_props(1) [OF assms(1,2)] d by simp
  let ?ds = "nat_digits (nat M)"
  obtain j where j: "?ds = strip_zeros ?ds @ replicate j CHR ''0''" by (rule strip_zeros_split)
  have hd: "hd ?ds \<noteq> CHR ''0''" using hd_nat_digits [of "nat M"] M by simp
  have ne: "strip_zeros ?ds \<noteq> []"
  proof
    assume "strip_zeros ?ds = []"
    then have "?ds = replicate j CHR ''0''" using j by simp
    then show False using hd by (cases j) auto
  qed
  have dig: "list_all is_digit (strip_zeros ?ds)" using nat_digits_digits [of "nat M"] j by (metis list_all_append)
  have hds: "hd (strip_zeros ?ds) \<noteq> CHR ''0''" using hd j ne by (metis hd_append2)
  have val: "digits_value (strip_zeros ?ds) * 10 ^ j = nat M"
    using arg_cong [OF j, of digits_value] by (simp add: digits_value_append)
  have len: "length ?ds = length (strip_zeros ?ds) + j" using arg_cong [OF j, of length] by simp
  have "parse_unsigned (pos_repr q @ r)
      = Some (Inr (of_nat (digits_value (strip_zeros ?ds)) * pow10 (int j + e)), r)"
    using parse_format_decimal [OF dig ne hds assms(3), of "int (length ?ds) + e"] d len
    by (simp add: pos_repr_def Let_def algebra_simps)
  also have "of_nat (digits_value (strip_zeros ?ds)) * pow10 (int j + e) = of_nat (nat M) * pow10 e"
    using arg_cong [OF val, of "of_nat :: nat \<Rightarrow> rat"] by (simp add: pow10_add pow10_nat)
  finally show reads: "parse_unsigned (pos_repr q @ r) = Some (Inr (decimal_value (shortest_decimal q)), r)"
    using M d by (simp add: decimal_value_def)
  then show "pos_repr q \<noteq> []"
    using assms(3) by (auto simp: parse_unsigned_def stops_def split: list.splits)
  then show "hd (pos_repr q) \<noteq> CHR ''-''"
    using reads by (cases "pos_repr q") (auto simp: parse_unsigned_def split: if_splits)
qed

lemma round_half_even_neg: "round_half_even (- x) = - round_half_even x"
proof (cases "\<bar>x - of_int \<lfloor>x\<rfloor> - 1 / 2\<bar> = 0")
  case True
  then have x: "x = of_int \<lfloor>x\<rfloor> + 1 / 2" by simp
  then have f: "\<lfloor>- x\<rfloor> = - \<lfloor>x\<rfloor> - 1" by (intro floor_unique) simp_all
  have "x - of_int \<lfloor>x\<rfloor> = 1 / 2" using x by simp
  moreover from this have "- x - of_int (- \<lfloor>x\<rfloor> - 1) = 1 / 2" by simp
  ultimately show ?thesis unfolding round_half_even_def Let_def f by auto
next
  case False
  have "\<bar>x - of_int (round_half_even x)\<bar> < 1 / 2"
  proof -
    have "of_int \<lfloor>x\<rfloor> \<le> x" "x < of_int \<lfloor>x\<rfloor> + 1" by linarith+
    then show ?thesis using False by (auto simp: round_half_even_def Let_def)
  qed
  then have "\<bar>- x - of_int (- round_half_even x)\<bar> < 1 / 2" by (simp add: abs_minus_commute)
  then show ?thesis by (rule round_half_even_eq)
qed

lemma fl_neg:
  assumes "fl q = Fin x"
  shows "fl (- q) = Fin (- x)"
proof (cases "q = 0")
  case True
  then show ?thesis using assms by (simp add: fl_def)
next
  case False
  let ?g = "pow2 (max (lead_exp \<bar>q\<bar> - 52) (- 1074))"
  let ?v = "of_int (round_half_even (q / ?g)) * ?g"
  have "fl q = (if pow2 1024 \<le> \<bar>?v\<bar> then (if 0 < q then PInf else NInf) else Fin ?v)"
    using False by (simp add: fl_def Let_def)
  then have v: "\<not> pow2 1024 \<le> \<bar>?v\<bar>" "x = ?v" using assms by (auto split: if_splits)
  have neg: "- q / ?g = - (q / ?g)" by simp
  let ?w = "of_int (round_half_even (- q / ?g)) * ?g"
  have w: "?w = - ?v" by (simp only: neg round_half_even_neg of_int_minus mult_minus_left)
  have "fl (- q) = (if pow2 1024 \<le> \<bar>?w\<bar> then (if 0 < - q then PInf else NInf) else Fin ?w)"
    unfolding fl_def Let_def abs_minus_cancel using False by (simp only: neg_equal_0_iff_equal if_False)
  also have "\<dots> = Fin ?w" unfolding w abs_minus_cancel by (simp only: v(1) if_False)
  finally show ?thesis by (simp only: w v(2))
qed

lemma parse_number_float:
  assumes "fl q = Fin q" and "stops r"
  shows "parse_number (float_repr q @ r) = Some (PFloat (Fin q), r)"
proof (cases "q = 0")
  case True
  have "parse_fraction (CHR ''.'' # ''0'' @ r) = (''0'', r)"
    by (rule parse_fraction_digits) (use stops_nodigit [OF assms(2)] in auto)
  from parse_unsigned_parts [OF _ _ _ _ this stops_none(1) [OF assms(2)], of "''0''"]
  show ?thesis using True by (simp add: float_repr_def parse_number_def digits_value_def fl_def)
next
  case nonzero: False
  show ?thesis
  proof (cases "q < 0")
    case True
    have dbl: "fl (- q) = Fin (- q)" by (rule fl_neg [OF assms(1)])
    note p = parse_pos_repr [OF _ dbl assms(2)]
    have "fl (- decimal_value (shortest_decimal (- q))) = Fin q"
      using fl_neg [OF shortest_decimal_props(2) [OF _ dbl]] True by simp
    then show ?thesis using p(1) True by (simp add: float_repr_def parse_number_def)
  next
    case False
    then have q: "0 < q" using nonzero by simp
    note p = parse_pos_repr [OF q assms]
    obtain c t where "pos_repr q = c # t" "c \<noteq> CHR ''-''" using p(2,3) by (cases "pos_repr q") auto
    then show ?thesis
      using p(1) False nonzero shortest_decimal_props(2) [OF q assms(1)] by (simp add: float_repr_def parse_number_def)
  qed
qed


section \<open>Reading back what was written\<close>

lemma parse_members_join:
  assumes "seps_ok seps" and "\<forall>v \<in> snd ` set items. value_reads seps v" and "items \<noteq> []"
    and "sum_list (map (\<lambda>p. Suc (need (snd p))) items) \<le> n"
    and "distinct (map fst acc @ map fst items)"
  shows "parse_members n acc (join (fst seps) (map (\<lambda>(k, v). json_string k @ snd seps @ json_text seps v) items) @ CHR ''}'' # r)
       = Some (acc @ items, r)"
  using assms(2-5)
proof (induction items arbitrary: acc n)
  case (Cons kv items)
  obtain k v where kv: "kv = (k, v)" by fastforce
  let ?text = "\<lambda>(k, v). json_string k @ snd seps @ json_text seps v"
  obtain m where n: "n = Suc m" and m: "need v \<le> m" "sum_list (map (\<lambda>p. Suc (need (snd p))) items) \<le> m"
    using Cons.prems(3) kv by (cases n) auto
  have v: "\<And>r. stops r \<Longrightarrow> parse_value m (json_text seps v @ r) = Some (v, r)"
    using Cons.prems(1) m(1) kv by (simp add: value_reads_def)
  obtain c t where ct: "json_text seps v = c # t" "c \<notin> {CHR '' '', CHR 9, CHR 10, CHR 13}"
    using Cons.prems(1) kv unfolding value_reads_def by auto
  have key: "json_string k @ snd seps @ json_text seps v @ x
      = CHR 34 # (concat (map json_char k) @ CHR 34 # (snd seps @ json_text seps v @ x))" for x
    by (simp add: json_string_def)
  have colon: "\<exists>u. skip_ws (snd seps @ json_text seps v @ x) = CHR '':'' # u \<and> skip_ws u = json_text seps v @ x" for x
    using assms(1) ct by (auto simp: seps_ok_def skip_ws_def)
  have put: "put_item k v acc = acc @ [(k, v)]" by (rule put_item_fresh) (use Cons.prems(4) kv in auto)
  show ?case
  proof (cases items)
    case Nil
    have st: "stops (CHR ''}'' # r)" by (simp add: stops_def is_digit_def)
    obtain u where "skip_ws (snd seps @ json_text seps v @ CHR ''}'' # r) = CHR '':'' # u"
        "skip_ws u = json_text seps v @ CHR ''}'' # r" using colon by blast
    then show ?thesis
      using v [OF st] n put kv Nil by (simp add: key parse_json_chars) (simp add: skip_ws_def)
  next
    case (Cons kw ws)
    have st: "stops (CHR '','' # x)" for x by (simp add: stops_def is_digit_def)
    have quote: "?text kw = CHR 34 # tl (?text kw)" by (cases kw) (simp add: json_string_def)
    obtain u where u: "join (fst seps) (map ?text (kv # items)) = ?text kv @ CHR '','' # u"
        "\<And>r. skip_ws (u @ r) = join (fst seps) (map ?text items) @ r"
      using join_items [OF assms(1), of "?text kv" "?text kw" "map ?text ws" "CHR 34" "tl (?text kw)"] quote Cons
      by auto
    obtain y where y: "skip_ws (snd seps @ json_text seps v @ CHR '','' # u @ CHR ''}'' # r) = CHR '':'' # y"
        "skip_ws y = json_text seps v @ CHR '','' # u @ CHR ''}'' # r" using colon by blast
    have "parse_members m (acc @ [(k, v)]) (join (fst seps) (map ?text items) @ CHR ''}'' # r)
        = Some ((acc @ [(k, v)]) @ items, r)"
      by (rule Cons.IH) (use Cons.prems Cons m(2) kv in auto)
    moreover have "skip_ws (CHR '','' # x) = CHR '','' # x" for x by (simp add: skip_ws_def)
    ultimately show ?thesis
      using v [OF st] u y n put kv by (simp add: key parse_json_chars)
  qed
qed simp

text \<open>What a number starts with tells it from every other value.\<close>

definition number_start :: "char \<Rightarrow> bool" where
  "number_start c \<longleftrightarrow> is_digit c \<or> c = CHR ''-''"

lemma number_start_props:
  assumes "number_start c"
  shows "c \<noteq> CHR ''n'' \<and> c \<noteq> CHR ''t'' \<and> c \<noteq> CHR ''f'' \<and> c \<noteq> CHR 34 \<and> c \<noteq> CHR ''['' \<and> c \<noteq> CHR ''{''
      \<and> c \<notin> {CHR '' '', CHR 9, CHR 10, CHR 13, CHR '']'', CHR ''}''}"
  using assms by (auto simp: number_start_def is_digit_def)

lemma int_starts: "\<exists>c t. py_str_int i = c # t \<and> number_start c"
proof (cases "i < 0")
  case False
  obtain c t where ct: "nat_digits (nat i) = c # t" by (cases "nat_digits (nat i)") auto
  then have "is_digit c" using nat_digits_digits [of "nat i"] by simp
  then show ?thesis using ct False by (auto simp: py_str_int_def number_start_def)
qed (simp add: py_str_int_def number_start_def)

lemma float_starts:
  assumes "fl q = Fin q"
  shows "\<exists>c t. float_repr q = c # t \<and> number_start c"
proof (cases "q \<le> 0")
  case True
  then show ?thesis by (cases "q = 0") (simp_all add: float_repr_def number_start_def)
next
  case False
  then have q: "0 < q" by simp
  have "stops []" by (simp add: stops_def)
  from parse_pos_repr(1) [OF q assms this] obtain c t where "pos_repr q = c # t" "is_digit c"
    by (cases "pos_repr q") (auto simp: parse_unsigned_def split: if_splits)
  then show ?thesis using q by (simp add: float_repr_def number_start_def)
qed

lemma parse_value_number:
  assumes "s = c # t" and "number_start c" and "1 \<le> n"
  shows "parse_value n s = parse_number s"
  using assms number_start_props [OF assms(2)] by (cases n) auto

lemma value_reads_number:
  assumes "\<exists>c t. json_text seps v = c # t \<and> number_start c" and "need v = 1"
    and "\<And>r. stops r \<Longrightarrow> parse_number (json_text seps v @ r) = Some (v, r)"
  shows "value_reads seps v"
proof -
  obtain c t where ct: "json_text seps v = c # t" "number_start c" using assms(1) by blast
  have "parse_value n (json_text seps v @ r) = Some (v, r)" if n: "need v \<le> n" and r: "stops r" for n r
  proof -
    have "json_text seps v @ r = c # (t @ r)" using ct(1) by simp
    moreover have "1 \<le> n" using n assms(2) by simp
    ultimately have "parse_value n (json_text seps v @ r) = parse_number (json_text seps v @ r)"
      by (rule parse_value_number [OF _ ct(2)])
    then show ?thesis using assms(3) [OF r] by (rule trans)
  qed
  then have A: "\<forall>n r. need v \<le> n \<longrightarrow> stops r \<longrightarrow> parse_value n (json_text seps v @ r) = Some (v, r)" by simp
  have "c \<notin> {CHR '' '', CHR 9, CHR 10, CHR 13, CHR '']'', CHR ''}''}" using number_start_props [OF ct(2)] by simp
  then have B: "\<exists>c t. json_text seps v = c # t \<and> c \<notin> {CHR '' '', CHR 9, CHR 10, CHR 13, CHR '']'', CHR ''}''}"
    using ct(1) by (intro exI conjI)
  show ?thesis unfolding value_reads_def by (rule conjI [OF A B])
qed

text \<open>The constants and strings: one step of the reader.\<close>

lemma value_reads_atom:
  assumes "need v = 1" and "\<And>n r. parse_value (Suc n) (json_text seps v @ r) = Some (v, r)"
    and "\<exists>c t. json_text seps v = c # t \<and> c \<notin> {CHR '' '', CHR 9, CHR 10, CHR 13, CHR '']'', CHR ''}''}"
  shows "value_reads seps v"
  unfolding value_reads_def using assms by (metis One_nat_def Suc_le_D)

lemma value_reads_list:
  assumes "seps_ok seps" and "\<forall>v \<in> set vs. value_reads seps v"
  shows "value_reads seps (PList vs)"
  unfolding value_reads_def
proof (intro conjI allI impI)
  fix n r assume n: "need (PList vs) \<le> n"
  then obtain m where m: "n = Suc m" "sum_list (map Suc (map need vs)) \<le> m" by (cases n) auto
  show "parse_value n (json_text seps (PList vs) @ r) = Some (PList vs, r)"
  proof (cases vs)
    case Nil
    then show ?thesis using m(1) by (simp add: skip_ws_def)
  next
    case (Cons w ws)
    obtain c t where w: "json_text seps w = c # t" "c \<notin> {CHR '' '', CHR 9, CHR 10, CHR 13, CHR '']'', CHR ''}''}"
      using assms(2) Cons unfolding value_reads_def by auto
    obtain u where u: "join (fst seps) (map (json_text seps) vs) = c # u"
      using w Cons by (cases ws) auto
    have "parse_items m [] (join (fst seps) (map (json_text seps) vs) @ CHR '']'' # r) = Some ([] @ vs, r)"
      by (rule parse_items_join [OF assms(1,2)]) (use Cons m(2) in auto)
    then show ?thesis using m(1) u w(2) by (simp add: skip_ws_def)
  qed
qed simp

lemma value_reads_dict:
  assumes "seps_ok seps" and "\<forall>v \<in> snd ` set items. value_reads seps v" and "distinct (map fst items)"
  shows "value_reads seps (PDict items)"
  unfolding value_reads_def
proof (intro conjI allI impI)
  let ?text = "\<lambda>(k, v). json_string k @ snd seps @ json_text seps v"
  have needs: "need (PDict items) = 1 + sum_list (map (\<lambda>p. Suc (need (snd p))) items)"
    by (simp add: o_def)
  have texts: "json_text seps (PDict items) = ''{'' @ join (fst seps) (map ?text items) @ ''}''"
    by (simp add: o_def case_prod_unfold)
  fix n r assume n: "need (PDict items) \<le> n"
  then obtain m where m: "n = Suc m" "sum_list (map (\<lambda>p. Suc (need (snd p))) items) \<le> m"
    unfolding needs by (cases n) auto
  show "parse_value n (json_text seps (PDict items) @ r) = Some (PDict items, r)"
  proof (cases items)
    case Nil
    then show ?thesis using m(1) by (simp add: skip_ws_def)
  next
    case (Cons kw ws)
    obtain x where x: "?text kw = CHR 34 # x" by (cases kw) (simp add: json_string_def)
    have "\<exists>u. join (fst seps) (?text kw # map ?text ws) = CHR 34 # u"
      unfolding x by (cases "map ?text ws") simp_all
    then obtain u where u: "join (fst seps) (map ?text items) = CHR 34 # u" using Cons by auto
    have "parse_members m [] (join (fst seps) (map ?text items) @ CHR ''}'' # r) = Some ([] @ items, r)"
      by (rule parse_members_join [OF assms(1,2)]) (use Cons m(2) assms(3) in auto)
    then show ?thesis using m(1) u unfolding texts by (simp add: skip_ws_def)
  qed
qed simp

lemma canonical_value_reads: "seps_ok seps \<Longrightarrow> canonical_value v \<Longrightarrow> value_reads seps v"
proof (induction v)
  case PNone
  show ?case by (rule value_reads_atom) simp_all
next
  case (PBool b)
  show ?case by (rule value_reads_atom) (cases b; simp)+
next
  case (PStr s)
  show ?case by (rule value_reads_atom) (simp_all add: json_string_def parse_json_chars)
next
  case (PInt i)
  show ?case
    by (rule value_reads_number) (use int_starts [of i] parse_number_int in \<open>simp_all only: json_text.simps need.simps\<close>)
next
  case (PFloat x)
  then obtain q where q: "x = Fin q" "fl q = Fin q" by (cases x) auto
  show ?case unfolding q(1)
    by (rule value_reads_number)
      (use float_starts [OF q(2)] parse_number_float [OF q(2)] in \<open>simp_all only: json_text.simps need.simps pyfloat.case\<close>)
next
  case (PList vs)
  then show ?case by (intro value_reads_list) (auto simp: list_all_iff)
next
  case (PDict items)
  have "\<forall>v \<in> snd ` set items. value_reads seps v"
    using PDict by (force simp: list_all_iff)
  moreover have "distinct (map fst items)" using PDict.prems(2) by (simp add: strict_sorted_iff)
  ultimately show ?case by (rule value_reads_dict [OF PDict.prems(1)])
qed simp_all

lemma canonical_dict_value: "canonical_value (PDict items) \<Longrightarrow> x \<in> set items \<Longrightarrow> canonical_value (snd x)"
  by (auto simp: list_all_iff)

lemma join_length:
  assumes "seps_ok seps"
  shows "sum_list (map length ss) + length ss \<le> length (join (fst seps) ss) + 1"
  using assms by (induction "fst seps" ss rule: join.induct) (auto simp: seps_ok_def)

lemma sum_list_need: "\<forall>x \<in> set xs. f x \<le> length (g x) \<Longrightarrow> sum_list (map (\<lambda>x. Suc (f x)) xs) \<le> sum_list (map length (map g xs)) + length xs"
  for f :: "'a \<Rightarrow> nat" and g :: "'a \<Rightarrow> string"
  by (induction xs) auto

lemma need_length: "seps_ok seps \<Longrightarrow> canonical_value v \<Longrightarrow> need v \<le> length (json_text seps v)"
proof (induction v)
  case (PInt i)
  then show ?case using int_starts [of i] by auto
next
  case (PFloat x)
  then obtain q where "x = Fin q" "fl q = Fin q" by (cases x) auto
  then show ?case using float_starts [of q] by auto
next
  case (PList vs)
  have "\<forall>x \<in> set vs. need x \<le> length (json_text seps x)" using PList by (auto simp: list_all_iff)
  from sum_list_need [OF this] show ?case
    using join_length [OF PList.prems(1), of "map (json_text seps) vs"] by (simp add: o_def)
next
  case (PDict items)
  let ?text = "\<lambda>(k, v). json_string k @ snd seps @ json_text seps v"
  have "\<forall>x \<in> set items. need (snd x) \<le> length (?text x)"
  proof
    fix x assume x: "x \<in> set items"
    have "snd x \<in> Basic_BNFs.snds x" by (cases x) simp
    from PDict.IH [OF x this PDict.prems(1) canonical_dict_value [OF PDict.prems(2) x]]
    show "need (snd x) \<le> length (?text x)" by (simp add: case_prod_unfold)
  qed
  from sum_list_need [OF this] show ?case
    using join_length [OF PDict.prems(1), of "map ?text items"] by (simp add: o_def case_prod_unfold)
qed (auto simp: json_string_def)

lemma loads_dumps:
  assumes "seps_ok seps" and "canonical_value v"
  shows "json_loads (json_text seps v) = Inr v"
proof -
  have reads: "value_reads seps v" by (rule canonical_value_reads [OF assms])
  have "stops []" by (simp add: stops_def)
  then have p: "parse_value (Suc (length (json_text seps v))) (json_text seps v) = Some (v, [])"
    using reads need_length [OF assms] unfolding value_reads_def by (metis append_Nil2 le_Suc_eq)
  have w: "skip_ws (json_text seps v) = json_text seps v"
    using reads unfolding value_reads_def by (auto simp: skip_ws_def)
  have "skip_ws [] = []" by (simp add: skip_ws_def)
  then show ?thesis unfolding json_loads_def w p by simp
qed


section \<open>Canonical values\<close>

text \<open>A value as Python has it: dictionary keys are distinct and floats are doubles.\<close>

primrec python_value :: "pyval \<Rightarrow> bool" where
  "python_value PNone = True"
| "python_value (PBool b) = True"
| "python_value (PInt i) = True"
| "python_value (PFloat x) = (case x of Fin q \<Rightarrow> fl q = Fin q | _ \<Rightarrow> True)"
| "python_value (PStr s) = True"
| "python_value (PList xs) = list_all id (map python_value xs)"
| "python_value (PTuple xs) = list_all id (map python_value xs)"
| "python_value (PDict items) =
     (distinct (map fst items) \<and> list_all snd (map (map_prod id python_value) items))"
| "python_value PKeyedDict = True"
| "python_value (POther t) = True"

lemma all_or_error_Inr: "all_or_error rs = Inr xs \<Longrightarrow> rs = map Inr xs"
  by (induction rs arbitrary: xs rule: all_or_error.induct) (auto split: sum.splits)

lemma all_or_error_map_Inr [simp]: "all_or_error (map Inr xs) = Inr xs"
  by (induction xs) auto

lemma map_sum_Inr: "map_sum id f r = Inr y \<longleftrightarrow> (\<exists>x. r = Inr x \<and> y = f x)"
  by (cases r) auto

lemma canonicalize_list_ok:
  assumes "\<And>x c. x \<in> set xs \<Longrightarrow> canonicalize_json x = Inr c \<Longrightarrow> canonical_value c"
    and "map_sum id PList (all_or_error (map canonicalize_json xs)) = Inr c"
  shows "canonical_value c"
proof -
  obtain ys where ys: "map canonicalize_json xs = map Inr ys" "c = PList ys"
    using assms(2) all_or_error_Inr by (auto simp: map_sum_Inr)
  have "canonical_value y" if "y \<in> set ys" for y
  proof -
    have "Inr y \<in> set (map canonicalize_json xs)" using that ys(1) by simp
    then show ?thesis using assms(1) by auto
  qed
  then show ?thesis by (simp add: ys(2) list_all_iff)
qed

lemma canonicalize_canonical: "python_value v \<Longrightarrow> canonicalize_json v = Inr c \<Longrightarrow> canonical_value c"
proof (induction v arbitrary: c)
  case (PFloat x)
  then show ?case by (cases x) (auto split: if_splits)
next
  case (PList xs)
  show ?case
    by (rule canonicalize_list_ok [of xs]) (use PList in \<open>auto simp: list_all_iff\<close>)
next
  case (PTuple xs)
  show ?case
    by (rule canonicalize_list_ok [of xs]) (use PTuple in \<open>auto simp: list_all_iff\<close>)
next
  case (PDict items)
  let ?entries = "sort_key fst (map (map_prod id canonicalize_json) items)"
  obtain vs where vs: "map snd ?entries = map Inr vs" and c: "c = PDict (zip (map fst ?entries) vs)"
    using PDict.prems(2) all_or_error_Inr by (auto simp: map_sum_Inr Let_def)
  have len: "length ?entries = length vs" using vs by (metis length_map)
  have keys: "distinct (map fst items)" using PDict.prems(1) by simp
  have "mset (map fst ?entries) = mset (map fst items)" by (simp add: mset_map image_mset.compositionality o_def)
  then have "distinct (map fst ?entries)" using keys by (metis mset_eq_imp_distinct_iff)
  then have "sorted_wrt (<) (map fst ?entries)" using sorted_sort_key [of fst] by (simp add: strict_sorted_iff)
  then have 1: "sorted_wrt (<) (map fst (zip (map fst ?entries) vs))" using len by simp
  have 2: "canonical_value w" if "w \<in> set vs" for w
  proof -
    have "Inr w \<in> set (map snd ?entries)" using that vs by simp
    then obtain k v where kv: "(k, v) \<in> set items" "canonicalize_json v = Inr w" by auto
    have "python_value v" using PDict.prems(1) kv(1) by (auto simp: list_all_iff)
    from PDict.IH [OF kv(1) _ this kv(2)] show ?thesis by simp
  qed
  have "\<forall>x \<in> set (zip (map fst ?entries) vs). canonical_value (snd x)"
    using 2 by (metis in_set_zipE prod.collapse)
  then show ?case unfolding c using 1 by (simp add: list_all_iff del: map_fst_zip)
qed auto

lemma map_cong_Inr: "(\<And>x. x \<in> set xs \<Longrightarrow> f x = Inr x) \<Longrightarrow> map f xs = map Inr xs"
  by simp

lemma canonicalize_fixed: "canonical_value v \<Longrightarrow> canonicalize_json v = Inr v"
proof (induction v)
  case (PFloat x)
  then show ?case by (cases x) auto
next
  case (PList xs)
  then have "map canonicalize_json xs = map Inr xs" by (intro map_cong_Inr) (auto simp: list_all_iff)
  then show ?case by (simp only: canonicalize_json.simps all_or_error_map_Inr map_sum.simps)
next
  case (PDict items)
  have "canonicalize_json (snd x) = Inr (snd x)" if x: "x \<in> set items" for x
  proof -
    have "snd x \<in> Basic_BNFs.snds x" by (cases x) simp
    from PDict.IH [OF x this canonical_dict_value [OF PDict.prems x]] show ?thesis .
  qed
  then have m: "map (map_prod id canonicalize_json) items = map (\<lambda>x. (fst x, Inr (snd x))) items"
    by (intro map_cong) (auto simp: map_prod_def split: prod.splits)
  let ?es = "map (\<lambda>x. (fst x, Inr (snd x) :: py_exn + pyval)) items"
  have "sort_key fst ?es = ?es"
    by (rule sort_key_id_if_sorted) (use PDict.prems in \<open>simp add: o_def strict_sorted_iff\<close>)
  moreover have "map snd ?es = map Inr (map snd items)" "map fst ?es = map fst items" by (simp_all add: o_def)
  ultimately show ?case
    by (simp only: canonicalize_json.simps Let_def m all_or_error_map_Inr map_sum.simps zip_map_fst_snd)
qed simp_all

text \<open>
  Canonical JSON is a faithful identity.  Whatever JSON value canonicalisation accepts, its
  result is a fixed point of canonicalisation, and its text, compact as it is hashed or spaced
  as the leases store it, is read back by \<open>json.loads\<close> as exactly that value, floats to the
  last bit: two values have the same text only if they are the same.
\<close>

theorem canonical_json_reads_back:
  assumes "python_value v" and "canonicalize_json v = Inr c" and "seps \<in> {compact, spaced}"
  shows "canonicalize_json c = Inr c \<and> json_loads (json_text seps c) = Inr c"
  using canonicalize_canonical [OF assms(1,2)] canonicalize_fixed loads_dumps [of seps c] assms(3) by auto

lemma canonical_json_reads_back_witness:
  "let c = PDict [(''a'', PList [PInt (- 3), PNone]), (''b'', PStr [CHR 34])]
   in json_loads (json_text compact c) = Inr c"
  using canonical_json_reads_back [of "PDict [(''b'', PStr [CHR 34]), (''a'', PTuple [PInt (- 3), PNone])]"
      "PDict [(''a'', PList [PInt (- 3), PNone]), (''b'', PStr [CHR 34])]" compact]
  by (simp add: Let_def)

end
