(* ===== verification/Py_Decimal.thy ===== *)
theory Py_Decimal
  imports Json
begin

text \<open>
  Python's \<open>decimal.Decimal\<close> in the default context: 28 significant digits, ties to even.  A finite
  decimal is a coefficient and an exponent, since \<open>1E+1\<close> and \<open>10\<close> are equal but print differently;
  the sign of a zero is dropped.  The program rejects the special values on input.  Exponents stay
  far inside the bounds of the context, so no operation overflows.
\<close>

section \<open>Operations\<close>

datatype decimal = Dec (dec_coeff: int) (dec_exp: int)

definition dec_val :: "decimal \<Rightarrow> rat" where
  "dec_val d = of_int (dec_coeff d) * pow10 (dec_exp d)"

definition dec_digits :: "int \<Rightarrow> nat" where
  "dec_digits c = length (nat_digits (nat \<bar>c\<bar>))"

definition DEC_PREC :: nat where "DEC_PREC = 28"

text \<open>Rounding to the precision of the context; a carry into a 29th digit drops the last one.\<close>

definition dec_fix :: "decimal \<Rightarrow> decimal" where
  "dec_fix d =
     (if dec_digits (dec_coeff d) \<le> DEC_PREC then d
      else
        let k = dec_digits (dec_coeff d) - DEC_PREC;
            c = round_half_even (of_int (dec_coeff d) / of_int (10 ^ k))
        in if DEC_PREC < dec_digits c then Dec (c div 10) (dec_exp d + int k + 1)
           else Dec c (dec_exp d + int k))"

function dec_strip :: "int \<Rightarrow> int \<Rightarrow> decimal" where
  "dec_strip c e = (if c \<noteq> 0 \<and> c mod 10 = 0 then dec_strip (c div 10) (e + 1) else Dec c e)"
  by auto
termination by (relation "measure (\<lambda>(c, e). nat \<bar>c\<bar>)") auto

declare dec_strip.simps [simp del]

definition dec_normalize :: "decimal \<Rightarrow> decimal" where
  "dec_normalize d =
     (let f = dec_fix d in if dec_coeff f = 0 then Dec 0 0 else dec_strip (dec_coeff f) (dec_exp f))"

text \<open>The coefficient of \<open>d\<close> at a smaller exponent.\<close>

definition dec_at :: "int \<Rightarrow> decimal \<Rightarrow> int" where
  "dec_at e d = dec_coeff d * 10 ^ nat (dec_exp d - e)"

definition dec_add :: "decimal \<Rightarrow> decimal \<Rightarrow> decimal" where
  "dec_add a b = (let e = min (dec_exp a) (dec_exp b) in dec_fix (Dec (dec_at e a + dec_at e b) e))"

definition dec_neg :: "decimal \<Rightarrow> decimal" where
  "dec_neg d = Dec (- dec_coeff d) (dec_exp d)"

definition dec_sub :: "decimal \<Rightarrow> decimal \<Rightarrow> decimal" where
  "dec_sub a b = dec_add a (dec_neg b)"

definition dec_abs :: "decimal \<Rightarrow> decimal" where
  "dec_abs d = dec_fix (Dec \<bar>dec_coeff d\<bar> (dec_exp d))"

definition dec_mul :: "decimal \<Rightarrow> decimal \<Rightarrow> decimal" where
  "dec_mul a b = dec_fix (Dec (dec_coeff a * dec_coeff b) (dec_exp a + dec_exp b))"

text \<open>
  Division keeps one digit more than the precision and makes an inexact last digit sticky; an exact
  quotient loses trailing zeros down to the exponent of the operands.
\<close>

function dec_shorten :: "int \<Rightarrow> int \<Rightarrow> int \<Rightarrow> decimal" where
  "dec_shorten ideal c e = (if e < ideal \<and> c mod 10 = 0 then dec_shorten ideal (c div 10) (e + 1) else Dec c e)"
  by auto
termination by (relation "measure (\<lambda>(ideal, c, e). nat (ideal - e))") auto

declare dec_shorten.simps [simp del]

definition dec_div :: "decimal \<Rightarrow> decimal \<Rightarrow> decimal" where
  "dec_div a b =
     (let x = \<bar>dec_coeff a\<bar>; y = \<bar>dec_coeff b\<bar>; s = sgn (dec_coeff a) * sgn (dec_coeff b);
          ideal = dec_exp a - dec_exp b
      in if x = 0 then Dec 0 ideal
         else
           let shift = int (dec_digits y) - int (dec_digits x) + int DEC_PREC + 1;
               n = (if 0 \<le> shift then x * 10 ^ nat shift else x);
               m = (if 0 \<le> shift then y else y * 10 ^ nat (- shift));
               q = n div m;
               r = (if n mod m \<noteq> 0 then Dec (if q mod 5 = 0 then q + 1 else q) (ideal - shift)
                    else dec_shorten ideal q (ideal - shift));
               f = dec_fix r
           in Dec (s * dec_coeff f) (dec_exp f))"

definition dec_lt :: "decimal \<Rightarrow> decimal \<Rightarrow> bool" where
  "dec_lt a b \<longleftrightarrow> dec_val a < dec_val b"

definition dec_le :: "decimal \<Rightarrow> decimal \<Rightarrow> bool" where
  "dec_le a b \<longleftrightarrow> dec_val a \<le> dec_val b"

definition dec_eq :: "decimal \<Rightarrow> decimal \<Rightarrow> bool" where
  "dec_eq a b \<longleftrightarrow> dec_val a = dec_val b"

definition dec_of_int :: "int \<Rightarrow> decimal" where
  "dec_of_int i = Dec i 0"

text \<open>\<open>str\<close>: plain digits while the exponent is not positive and at most six zeros lead.\<close>

definition dec_str :: "decimal \<Rightarrow> string" where
  "dec_str d =
     (let ds = nat_digits (nat \<bar>dec_coeff d\<bar>);
          left = dec_exp d + int (length ds);
          point = (if dec_exp d \<le> 0 \<and> - 6 < left then left else 1);
          body = (if point \<le> 0 then ''0.'' @ replicate (nat (- point)) CHR ''0'' @ ds
                  else if int (length ds) \<le> point then ds @ replicate (nat point - length ds) CHR ''0''
                  else take (nat point) ds @ ''.'' @ drop (nat point) ds);
          ex = (if left = point then []
                else ''E'' @ (if left - point < 0 then ''-'' else ''+'') @ nat_digits (nat \<bar>left - point\<bar>))
      in (if dec_coeff d < 0 then ''-'' else []) @ body @ ex)"

section \<open>Values\<close>

lemma dec_val_Dec: "dec_val (Dec c e) = of_int c * pow10 e"
  by (simp add: dec_val_def)

lemma dec_val_zero [simp]: "dec_val (Dec 0 e) = 0"
  by (simp add: dec_val_def)

lemma dec_val_0_iff [simp]: "dec_val d = 0 \<longleftrightarrow> dec_coeff d = 0"
  by (simp add: dec_val_def)

lemma dec_val_at: "e \<le> dec_exp d \<Longrightarrow> of_int (dec_at e d) * pow10 e = dec_val d"
  using pow10_add [of "dec_exp d - e" e] pow10_nat [of "nat (dec_exp d - e)"]
  by (simp add: dec_at_def dec_val_def)

lemma dec_digits_le_iff: "0 < n \<Longrightarrow> dec_digits c \<le> n \<longleftrightarrow> \<bar>c\<bar> < 10 ^ n"
proof (cases "c = 0")
  case True
  then show "0 < n \<Longrightarrow> ?thesis" by (simp add: dec_digits_def nat_digits.simps)
next
  case False
  let ?k = "length (nat_digits (nat \<bar>c\<bar>))"
  have pos: "0 < ?k" by simp
  have "10 ^ (?k - 1) \<le> nat \<bar>c\<bar> \<and> nat \<bar>c\<bar> < 10 ^ ?k"
    using length_nat_digits [of "nat \<bar>c\<bar>"] False by simp
  then have b: "10 ^ (?k - 1) \<le> \<bar>c\<bar>" "\<bar>c\<bar> < 10 ^ ?k"
    by (metis abs_ge_zero int_eq_iff nat_le_iff of_nat_numeral of_nat_power zle_int nat_int_comparison(2))+
  show ?thesis
  proof
    assume "dec_digits c \<le> n"
    then have "(10 :: int) ^ ?k \<le> 10 ^ n" by (intro power_increasing) (simp_all add: dec_digits_def)
    then show "\<bar>c\<bar> < 10 ^ n" using b by linarith
  next
    assume "\<bar>c\<bar> < 10 ^ n"
    then have "(10 :: int) ^ (?k - 1) < 10 ^ n" using b by linarith
    then have "?k - 1 < n" by (rule power_less_imp_less_exp [rotated]) simp
    then show "dec_digits c \<le> n" using pos by (simp add: dec_digits_def)
  qed
qed

lemma dec_fix_exact: "\<bar>dec_coeff d\<bar> < 10 ^ 28 \<Longrightarrow> dec_fix d = d"
  using dec_digits_le_iff [of 28 "dec_coeff d"] by (simp add: dec_fix_def DEC_PREC_def)

lemma dec_fix_zero [simp]: "dec_fix (Dec 0 e) = Dec 0 e"
  by (rule dec_fix_exact) simp

lemma dec_strip_val: "dec_val (dec_strip c e) = of_int c * pow10 e"
proof (induction c e rule: dec_strip.induct)
  case (1 c e)
  show ?case
  proof (cases "c \<noteq> 0 \<and> c mod 10 = 0")
    case True
    then have "of_int c = (of_int (c div 10) :: rat) * 10" by auto
    moreover have "pow10 (e + 1) = 10 * pow10 e"
      using pow10_add [of 1 e] pow10_nat [of 1] by (simp add: add.commute)
    ultimately show ?thesis using 1 True by (subst dec_strip.simps) simp
  next
    case False
    then show ?thesis by (subst dec_strip.simps) (simp only: if_False dec_val_Dec)
  qed
qed

lemma dec_strip_stripped: "c \<noteq> 0 \<Longrightarrow> dec_coeff (dec_strip c e) mod 10 \<noteq> 0"
proof (induction c e rule: dec_strip.induct)
  case (1 c e)
  then show ?case by (subst dec_strip.simps) (auto elim!: dvdE simp: mod_eq_0_iff_dvd)
qed

lemma dec_strip_fixed: "c mod 10 \<noteq> 0 \<Longrightarrow> dec_strip c e = Dec c e"
  by (simp add: dec_strip.simps)

section \<open>Normal forms\<close>

text \<open>What \<open>normalize\<close> returns: at most 28 digits and no trailing zero.\<close>

definition dec_normal :: "decimal \<Rightarrow> bool" where
  "dec_normal d \<longleftrightarrow> d = Dec 0 0 \<or> dec_coeff d mod 10 \<noteq> 0 \<and> \<bar>dec_coeff d\<bar> < 10 ^ 28"

lemma dec_normal_fixed: "dec_normal d \<Longrightarrow> dec_normalize d = d"
  by (cases d) (auto simp: dec_normal_def dec_normalize_def dec_fix_exact Let_def dec_strip_fixed)

lemma pow10_ratio: "of_int c * pow10 e = of_int d * pow10 f \<Longrightarrow> e \<le> f \<Longrightarrow> c = d * 10 ^ nat (f - e)"
proof -
  assume a: "of_int c * pow10 e = of_int d * pow10 f" and "e \<le> f"
  then have "pow10 f = 10 ^ nat (f - e) * pow10 e"
    using pow10_add [of "f - e" e] pow10_nat [of "nat (f - e)"] by simp
  with a have "of_int c * pow10 e = of_int (d * 10 ^ nat (f - e)) * pow10 e" by simp
  then have "(of_int c :: rat) = of_int (d * 10 ^ nat (f - e))" by (simp only: mult_cancel_right pow_nonzero simp_thms)
  then show ?thesis by (simp only: of_int_eq_iff)
qed

lemma stripped_unique_le:
  assumes "of_int c * pow10 e = of_int d * pow10 f" and "e \<le> f" and "c mod 10 \<noteq> 0"
  shows "c = d \<and> e = f"
proof -
  have c: "c = d * 10 ^ nat (f - e)" by (rule pow10_ratio) (use assms in auto)
  have "nat (f - e) = 0"
  proof (rule ccontr)
    assume "nat (f - e) \<noteq> 0"
    then obtain k where "nat (f - e) = Suc k" by (cases "nat (f - e)") auto
    then have "c mod 10 = 0" using c by simp
    with assms show False by simp
  qed
  then show ?thesis using c assms by simp
qed

text \<open>Equal values have one normal form, so equal tolerances print alike.\<close>

lemma dec_normal_unique:
  assumes "dec_normal a" and "dec_normal b" and "dec_val a = dec_val b"
  shows "a = b"
proof (cases "dec_coeff a = 0")
  case True
  then have "dec_coeff b = 0" using assms(3) by (metis dec_val_0_iff)
  with True assms show ?thesis by (auto simp: dec_normal_def)
next
  case False
  then have "dec_coeff b \<noteq> 0" using assms(3) by (metis dec_val_0_iff)
  then have m: "dec_coeff a mod 10 \<noteq> 0" "dec_coeff b mod 10 \<noteq> 0"
    using False assms by (auto simp: dec_normal_def)
  have v: "of_int (dec_coeff a) * pow10 (dec_exp a) = of_int (dec_coeff b) * pow10 (dec_exp b)"
    using assms(3) by (simp add: dec_val_def)
  have "dec_coeff a = dec_coeff b \<and> dec_exp a = dec_exp b"
    using stripped_unique_le [OF v _ m(1)] stripped_unique_le [OF v [symmetric] _ m(2)]
    by (cases "dec_exp a \<le> dec_exp b") auto
  then show ?thesis by (cases a; cases b) simp
qed

lemma dec_strip_coeff_le: "\<bar>dec_coeff (dec_strip c e)\<bar> \<le> \<bar>c\<bar>"
proof (induction c e rule: dec_strip.induct)
  case (1 c e)
  show ?case
  proof (cases "c \<noteq> 0 \<and> c mod 10 = 0")
    case True
    then have "\<bar>c div 10\<bar> \<le> \<bar>c\<bar>" by (auto elim!: dvdE simp: mod_eq_0_iff_dvd)
    then show ?thesis using 1 True by (subst dec_strip.simps) simp
  next
    case False
    then show ?thesis by (subst dec_strip.simps) (simp only: if_False decimal.sel order_refl)
  qed
qed

lemma round_abs_le: "\<bar>x\<bar> \<le> of_int j \<Longrightarrow> \<bar>round_half_even x\<bar> \<le> j"
  using round_half_even_ge [of "- j" x] round_half_even_le [of x j] by (simp add: abs_le_iff)

lemma dec_fix_coeff: "\<bar>dec_coeff (dec_fix d)\<bar> < 10 ^ 28"
proof (cases "dec_digits (dec_coeff d) \<le> 28")
  case True
  then show ?thesis using dec_digits_le_iff [of 28 "dec_coeff d"] by (simp add: dec_fix_def DEC_PREC_def)
next
  case False
  define k where "k = dec_digits (dec_coeff d) - 28"
  define c where "c = round_half_even (of_int (dec_coeff d) / of_int (10 ^ k))"
  have "\<bar>dec_coeff d\<bar> < 10 ^ dec_digits (dec_coeff d)"
    using dec_digits_le_iff [of "dec_digits (dec_coeff d)" "dec_coeff d"] False by simp
  also have "\<dots> = 10 ^ 28 * 10 ^ k" using False by (simp only: k_def power_add [symmetric]) simp
  finally have "\<bar>dec_coeff d\<bar> < 10 ^ 28 * 10 ^ k" .
  then have "\<bar>of_int (dec_coeff d)\<bar> \<le> (of_int (10 ^ 28 * 10 ^ k) :: rat)" by linarith
  then have "\<bar>of_int (dec_coeff d) / of_int (10 ^ k)\<bar> \<le> (of_int (10 ^ 28) :: rat)"
    by (simp add: abs_divide divide_le_eq)
  then have b: "\<bar>c\<bar> \<le> 10 ^ 28" unfolding c_def by (rule round_abs_le)
  show ?thesis
  proof (cases "28 < dec_digits c")
    case True
    then have "\<not> \<bar>c\<bar> < 10 ^ 28" using dec_digits_le_iff [of 28 c] by simp
    with b have "\<bar>c\<bar> = 10 ^ 28" by linarith
    then have "c = 10 ^ 28 \<or> c = - (10 ^ 28)" by linarith
    then show ?thesis using False True by (auto simp: dec_fix_def DEC_PREC_def Let_def k_def c_def)
  next
    case not: False
    then have "\<bar>c\<bar> < 10 ^ 28" using dec_digits_le_iff [of 28 c] by simp
    then show ?thesis using False not by (simp add: dec_fix_def DEC_PREC_def Let_def k_def c_def)
  qed
qed

lemma dec_normalize_normal: "dec_normal (dec_normalize d)"
proof (cases "dec_coeff (dec_fix d) = 0")
  case True
  then show ?thesis by (simp add: dec_normalize_def dec_normal_def Let_def)
next
  case False
  have "\<bar>dec_coeff (dec_strip (dec_coeff (dec_fix d)) (dec_exp (dec_fix d)))\<bar> < 10 ^ 28"
    using dec_strip_coeff_le dec_fix_coeff [of d] by (rule le_less_trans)
  then show ?thesis
    using False dec_strip_stripped [OF False] by (simp add: dec_normalize_def dec_normal_def Let_def)
qed

lemma dec_normalize_idem [simp]: "dec_normalize (dec_normalize d) = dec_normalize d"
  by (rule dec_normal_fixed [OF dec_normalize_normal])

lemma dec_normalize_val: "\<bar>dec_coeff d\<bar> < 10 ^ 28 \<Longrightarrow> dec_val (dec_normalize d) = dec_val d"
  using dec_strip_val [of "dec_coeff d" "dec_exp d"] by (auto simp: dec_normalize_def Let_def dec_fix_exact dec_val_def)

section \<open>Differences\<close>

lemma dec_sub_self [simp]: "dec_coeff (dec_sub d d) = 0"
proof -
  have "dec_at (dec_exp d) d + dec_at (dec_exp d) (dec_neg d) = 0" by (simp add: dec_at_def dec_neg_def)
  then have "dec_sub d d = dec_fix (Dec 0 (dec_exp d))" by (simp add: dec_sub_def dec_add_def dec_neg_def Let_def)
  then show ?thesis by simp
qed

lemma dec_abs_zero: "dec_coeff d = 0 \<Longrightarrow> dec_coeff (dec_abs d) = 0"
  by (simp add: dec_abs_def)

lemma dec_div_zero: "dec_coeff a = 0 \<Longrightarrow> dec_coeff (dec_div a b) = 0"
  by (simp add: dec_div_def Let_def)

lemma dec_mul_zero: "dec_coeff a = 0 \<Longrightarrow> dec_coeff (dec_mul a b) = 0"
  by (simp add: dec_mul_def)

end
