(* ===== verification/Strategy_Contracts.thy ===== *)
theory Strategy_Contracts
  imports Json
begin

text \<open>
  \<open>app/strategies/contracts.py\<close>: the definition of a strategy that a historical and a live
  evaluator share, its validation, its canonical form and its hash.

  A pydantic model is a record; its validators are a function from the record as constructed to
  the record as stored.  Any failure is a \<open>ValidationError\<close>, a subclass of \<open>ValueError\<close>.
  Nested models are validated when they are constructed, not again when they are embedded.
\<close>

section \<open>Enumerations\<close>

datatype strategy_timeframe = ONE_MINUTE | FIVE_MINUTES | FIFTEEN_MINUTES | ONE_HOUR | FOUR_HOURS | ONE_DAY
datatype signal_role = ROLE_ENTRY | ROLE_EXIT
datatype signal_direction = DIR_LONG | DIR_SHORT | DIR_FLAT
datatype position_mode = LONG_ONLY | SHORT_ONLY | LONG_SHORT
datatype execution_timing = BAR_CLOSE | NEXT_BAR_OPEN
datatype order_type = MARKET | LIMIT
datatype strategy_event_type = EVENT_SIGNAL | EVENT_ENTRY | EVENT_EXIT | EVENT_POSITION
datatype implementation_kind = DECLARATIVE | EXTERNAL

fun timeframe_value :: "strategy_timeframe \<Rightarrow> string" where
  "timeframe_value ONE_MINUTE = ''1m''"
| "timeframe_value FIVE_MINUTES = ''5m''"
| "timeframe_value FIFTEEN_MINUTES = ''15m''"
| "timeframe_value ONE_HOUR = ''1h''"
| "timeframe_value FOUR_HOURS = ''4h''"
| "timeframe_value ONE_DAY = ''1d''"

fun role_value :: "signal_role \<Rightarrow> string" where
  "role_value ROLE_ENTRY = ''entry''" | "role_value ROLE_EXIT = ''exit''"

fun direction_value :: "signal_direction \<Rightarrow> string" where
  "direction_value DIR_LONG = ''long''" | "direction_value DIR_SHORT = ''short''" | "direction_value DIR_FLAT = ''flat''"

fun mode_value :: "position_mode \<Rightarrow> string" where
  "mode_value LONG_ONLY = ''long_only''" | "mode_value SHORT_ONLY = ''short_only''" | "mode_value LONG_SHORT = ''long_short''"

fun timing_value :: "execution_timing \<Rightarrow> string" where
  "timing_value BAR_CLOSE = ''bar_close''" | "timing_value NEXT_BAR_OPEN = ''next_bar_open''"

fun order_type_value :: "order_type \<Rightarrow> string" where
  "order_type_value MARKET = ''market''" | "order_type_value LIMIT = ''limit''"

fun kind_value :: "implementation_kind \<Rightarrow> string" where
  "kind_value DECLARATIVE = ''declarative''" | "kind_value EXTERNAL = ''external''"

section \<open>Fields\<close>

text \<open>\<open>_IDENTIFIER_PATTERN.fullmatch\<close>.\<close>

definition is_lower :: "char \<Rightarrow> bool" where
  "is_lower c \<longleftrightarrow> (let n = (of_char c :: nat) in 97 \<le> n \<and> n \<le> 122)"

definition identifier_pattern :: "string \<Rightarrow> bool" where
  "identifier_pattern s \<longleftrightarrow> s \<noteq> [] \<and> is_lower (hd s) \<and> length s \<le> 64
     \<and> list_all (\<lambda>c. is_lower c \<or> is_digit c \<or> c = CHR ''_'' \<or> c = CHR ''-'') (tl s)"

definition length_within :: "nat \<Rightarrow> nat \<Rightarrow> string \<Rightarrow> bool" where
  "length_within low high s \<longleftrightarrow> low \<le> length s \<and> length s \<le> high"

abbreviation validation_error :: "py_exn" where
  "validation_error \<equiv> ValueError ''ValidationError''"

text \<open>A \<open>dict[str, Any]\<close> field under \<open>_canonicalize_json\<close>.\<close>

type_synonym json_dict = "(string \<times> pyval) list"

definition canonical_dict :: "json_dict \<Rightarrow> py_exn + json_dict" where
  "canonical_dict items =
     (case canonicalize_json (PDict items) of
        Inr (PDict out) \<Rightarrow> Inr out
      | _ \<Rightarrow> Inl validation_error)"

section \<open>Instruments, implementation, metadata\<close>

record instrument =
  in_asset :: int
  in_symbol :: string
  in_exchange :: string
  in_type :: string

definition normalize_instrument_identifier :: "string \<Rightarrow> py_exn + string" where
  "normalize_instrument_identifier v =
     (if \<not> length_within 1 50 v then Inl validation_error
      else let n = py_upper (py_strip v) in if n = [] then Inl validation_error else Inr n)"

definition make_instrument :: "instrument \<Rightarrow> py_exn + instrument" where
  "make_instrument i =
     (if in_asset i \<le> 0 then Inl validation_error
      else case (normalize_instrument_identifier (in_symbol i), normalize_instrument_identifier (in_exchange i),
                 normalize_instrument_identifier (in_type i)) of
        (Inr s, Inr e, Inr t) \<Rightarrow> Inr (i\<lparr>in_symbol := s, in_exchange := e, in_type := t\<rparr>)
      | _ \<Rightarrow> Inl validation_error)"

record implementation =
  im_kind :: implementation_kind
  im_identifier :: string
  im_revision :: string

definition make_implementation :: "implementation \<Rightarrow> py_exn + implementation" where
  "make_implementation i =
     (let ident = py_strip (im_identifier i); rev = py_strip (im_revision i)
      in if length_within 1 64 (im_identifier i) \<and> length_within 1 128 (im_revision i)
            \<and> identifier_pattern ident \<and> rev \<noteq> []
         then Inr (i\<lparr>im_identifier := ident, im_revision := rev\<rparr>)
         else Inl validation_error)"

record strategy_metadata =
  md_key :: string
  md_name :: string
  md_description :: "string option"

definition make_metadata :: "strategy_metadata \<Rightarrow> py_exn + strategy_metadata" where
  "make_metadata d =
     (let key = py_strip (md_key d); name = py_strip (md_name d)
      in if length_within 1 64 (md_key d) \<and> length_within 1 200 (md_name d)
            \<and> (\<forall>t \<in> set_option (md_description d). length t \<le> 2000)
            \<and> identifier_pattern key \<and> name \<noteq> []
         then Inr (d\<lparr>md_key := key, md_name := name,
                     md_description := (case md_description d of
                        None \<Rightarrow> None
                      | Some t \<Rightarrow> if py_strip t = [] then None else Some (py_strip t))\<rparr>)
         else Inl validation_error)"

section \<open>Signals, position rules, execution\<close>

record signal_definition =
  sg_id :: string
  sg_role :: signal_role
  sg_direction :: signal_direction
  sg_priority :: int
  sg_definition :: json_dict

definition validate_role_direction :: "signal_definition \<Rightarrow> bool" where
  "validate_role_direction s \<longleftrightarrow>
     \<not> (sg_role s = ROLE_EXIT \<and> sg_direction s \<noteq> DIR_FLAT)
     \<and> \<not> (sg_role s = ROLE_ENTRY \<and> sg_direction s = DIR_FLAT)"

definition make_signal :: "signal_definition \<Rightarrow> py_exn + signal_definition" where
  "make_signal s =
     (let ident = py_strip (sg_id s)
      in if length_within 1 64 (sg_id s) \<and> 0 \<le> sg_priority s \<and> sg_priority s \<le> 1000000
            \<and> sg_definition s \<noteq> [] \<and> identifier_pattern ident
         then case canonical_dict (sg_definition s) of
           Inl e \<Rightarrow> Inl validation_error
         | Inr d \<Rightarrow>
             let s' = s\<lparr>sg_id := ident, sg_definition := d\<rparr>
             in if validate_role_direction s' then Inr s' else Inl validation_error
         else Inl validation_error)"

record position_rules =
  pr_mode :: position_mode
  pr_max_open :: int
  pr_allow_reversal :: bool
  pr_sizing :: json_dict

definition make_position_rules :: "position_rules \<Rightarrow> py_exn + position_rules" where
  "make_position_rules p =
     (if 1 \<le> pr_max_open p \<and> pr_max_open p \<le> 10000 \<and> pr_sizing p \<noteq> []
      then map_sum id (\<lambda>d. p\<lparr>pr_sizing := d\<rparr>) (canonical_dict (pr_sizing p))
      else Inl validation_error)"

record execution_assumptions =
  xa_timing :: execution_timing
  xa_order_type :: order_type
  xa_fee :: pyfloat
  xa_slippage :: pyfloat
  xa_latency :: int

definition make_execution :: "execution_assumptions \<Rightarrow> py_exn + execution_assumptions" where
  "make_execution x =
     (if f_le (Fin 0) (xa_fee x) \<and> f_le (Fin 0) (xa_slippage x) \<and> 0 \<le> xa_latency x
         \<and> f_isfinite (xa_fee x) \<and> f_isfinite (xa_slippage x)
      then Inr x else Inl validation_error)"

section \<open>The authored definition\<close>

record definition_input =
  di_timeframe :: strategy_timeframe
  di_universe :: "int list"
  di_parameters :: json_dict
  di_signals :: "signal_definition list"
  di_position :: position_rules
  di_execution :: execution_assumptions
  di_implementation :: implementation
  di_benchmark :: "int option"

fun allowed_entry_directions :: "position_mode \<Rightarrow> signal_direction set" where
  "allowed_entry_directions LONG_ONLY = {DIR_LONG}"
| "allowed_entry_directions SHORT_ONLY = {DIR_SHORT}"
| "allowed_entry_directions LONG_SHORT = {DIR_LONG, DIR_SHORT}"

definition validate_strategy_consistency :: "definition_input \<Rightarrow> bool" where
  "validate_strategy_consistency d \<longleftrightarrow>
     distinct (map sg_id (di_signals d))
     \<and> (\<forall>s \<in> set (di_signals d). \<not> (sg_role s = ROLE_ENTRY
           \<and> sg_direction s \<notin> allowed_entry_directions (pr_mode (di_position d))))"

definition make_definition_input :: "definition_input \<Rightarrow> py_exn + definition_input" where
  "make_definition_input d =
     (if di_universe d \<noteq> [] \<and> di_signals d \<noteq> [] \<and> (\<forall>b \<in> set_option (di_benchmark d). 0 < b)
         \<and> \<not> (\<exists>a \<in> set (di_universe d). a \<le> 0) \<and> distinct (di_universe d)
      then case canonical_dict (di_parameters d) of
        Inl e \<Rightarrow> Inl validation_error
      | Inr p \<Rightarrow>
          let d' = d\<lparr>di_parameters := p\<rparr>
          in if validate_strategy_consistency d' then Inr d' else Inl validation_error
      else Inl validation_error)"

section \<open>The canonical definition\<close>

record canonical_definition =
  cd_timeframe :: strategy_timeframe
  cd_universe :: "instrument list"
  cd_parameters :: json_dict
  cd_signals :: "signal_definition list"
  cd_position :: position_rules
  cd_execution :: execution_assumptions
  cd_implementation :: implementation
  cd_benchmark :: "instrument option"

definition signal_key :: "signal_definition \<Rightarrow> int \<times> string" where
  "signal_key s = (sg_priority s, sg_id s)"

definition validate_canonical_universe :: "canonical_definition \<Rightarrow> bool" where
  "validate_canonical_universe c \<longleftrightarrow>
     distinct (map in_asset (cd_universe c)) \<and> sorted (map in_asset (cd_universe c))
     \<and> sorted (map signal_key (cd_signals c))"

definition make_canonical_definition :: "canonical_definition \<Rightarrow> py_exn + canonical_definition" where
  "make_canonical_definition c =
     (if cd_universe c \<noteq> [] \<and> cd_signals c \<noteq> [] \<and> validate_canonical_universe c
      then Inr c else Inl validation_error)"

definition from_input :: "definition_input \<Rightarrow> (int \<Rightarrow> instrument option) \<Rightarrow> py_exn + canonical_definition" where
  "from_input d assets_by_id =
     (let required = set (di_universe d) \<union> set_option (di_benchmark d)
      in if \<exists>a \<in> required. assets_by_id a = None
         then Inl (ValueError ''strategy references unknown assets'')
         else make_canonical_definition
           \<lparr>cd_timeframe = di_timeframe d,
            cd_universe = map (\<lambda>a. the (assets_by_id a)) (sort (di_universe d)),
            cd_parameters = di_parameters d,
            cd_signals = sort_key signal_key (di_signals d),
            cd_position = di_position d,
            cd_execution = di_execution d,
            cd_implementation = di_implementation d,
            cd_benchmark = map_option (\<lambda>a. the (assets_by_id a)) (di_benchmark d)\<rparr>)"

section \<open>The canonical text and its hash\<close>

definition instrument_payload :: "instrument \<Rightarrow> pyval" where
  "instrument_payload i =
     PDict [(''asset_id'', PInt (in_asset i)), (''symbol'', PStr (in_symbol i)),
            (''exchange'', PStr (in_exchange i)), (''asset_type'', PStr (in_type i))]"

definition signal_payload :: "signal_definition \<Rightarrow> pyval" where
  "signal_payload s =
     PDict [(''signal_id'', PStr (sg_id s)), (''role'', PStr (role_value (sg_role s))),
            (''direction'', PStr (direction_value (sg_direction s))), (''priority'', PInt (sg_priority s)),
            (''definition'', PDict (sg_definition s))]"

definition position_payload :: "position_rules \<Rightarrow> pyval" where
  "position_payload p =
     PDict [(''mode'', PStr (mode_value (pr_mode p))), (''max_open_positions'', PInt (pr_max_open p)),
            (''allow_reversal'', PBool (pr_allow_reversal p)), (''sizing'', PDict (pr_sizing p))]"

definition execution_payload :: "execution_assumptions \<Rightarrow> pyval" where
  "execution_payload x =
     PDict [(''timing'', PStr (timing_value (xa_timing x))), (''order_type'', PStr (order_type_value (xa_order_type x))),
            (''fee_bps'', PFloat (xa_fee x)), (''slippage_bps'', PFloat (xa_slippage x)),
            (''latency_ms'', PInt (xa_latency x))]"

definition implementation_payload :: "implementation \<Rightarrow> pyval" where
  "implementation_payload i =
     PDict [(''kind'', PStr (kind_value (im_kind i))), (''identifier'', PStr (im_identifier i)),
            (''revision'', PStr (im_revision i))]"

text \<open>\<open>model_dump(mode="json")\<close>, fields in the order of the model.\<close>

definition model_dump :: "canonical_definition \<Rightarrow> pyval" where
  "model_dump c =
     PDict [(''schema_version'', PStr ''1''), (''timeframe'', PStr (timeframe_value (cd_timeframe c))),
            (''universe'', PList (map instrument_payload (cd_universe c))),
            (''parameters'', PDict (cd_parameters c)),
            (''signals'', PList (map signal_payload (cd_signals c))),
            (''position'', position_payload (cd_position c)),
            (''execution'', execution_payload (cd_execution c)),
            (''implementation'', implementation_payload (cd_implementation c)),
            (''benchmark'', case cd_benchmark c of None \<Rightarrow> PNone | Some i \<Rightarrow> instrument_payload i)]"

definition canonical_payload :: "canonical_definition \<Rightarrow> py_exn + pyval" where
  "canonical_payload c = canonicalize_json (model_dump c)"

definition canonical_json :: "canonical_definition \<Rightarrow> py_exn + string" where
  "canonical_json c = map_sum id (json_text compact) (canonical_payload c)"

definition hexdigest :: "byte list \<Rightarrow> string" where
  "hexdigest bs = concat (map (\<lambda>b. [hex_digit (unat b div 16), hex_digit (unat b mod 16)]) bs)"

definition definition_hash :: "canonical_definition \<Rightarrow> py_exn + string" where
  "definition_hash c = map_sum id (\<lambda>t. hexdigest (sha256 (encode_ascii t))) (canonical_json c)"


section \<open>Authoring order\<close>

lemma sort_key_unique:
  assumes "mset xs = mset ys" and "distinct (map f xs)"
  shows "sort_key f xs = sort_key f ys"
proof (rule map_sorted_distinct_set_unique [of f])
  have d: "distinct (map f ys)" using assms by (metis mset_eq_imp_distinct_iff mset_map)
  show "set (sort_key f xs) = set (sort_key f ys)" using assms(1) by (metis mset_eq_setD mset_sort)
  show "distinct (map f (sort_key f xs))" "distinct (map f (sort_key f ys))"
    using assms(2) d by (metis mset_eq_imp_distinct_iff mset_map mset_sort)+
  show "inj_on f (set (sort_key f xs) \<union> set (sort_key f ys))"
    using assms d by (metis Un_absorb distinct_map mset_eq_setD mset_sort)
qed simp_all

lemma distinct_signal_keys: "distinct (map sg_id ss) \<Longrightarrow> distinct (map signal_key ss)"
  by (induction ss) (auto simp: signal_key_def)

lemma make_definition_input_Inr:
  assumes "make_definition_input raw = Inr d"
  shows "di_universe d \<noteq> []" and "di_signals d \<noteq> []" and "distinct (di_universe d)"
    and "distinct (map sg_id (di_signals d))"
  using assms
  by (auto simp: make_definition_input_def validate_strategy_consistency_def Let_def split: if_splits sum.splits)

text \<open>
  A validated definition always has a canonical form once its assets are known, its universe
  sorted by asset id and its signals by priority and id with nothing added or lost; and the
  form, so also the canonical text and the hash, does not depend on the order in which the
  author listed universe and signals.
\<close>

theorem canonical_form_of_input:
  assumes "make_definition_input raw = Inr d"
    and "\<And>a. a \<in> set (di_universe d) \<union> set_option (di_benchmark d) \<Longrightarrow> \<exists>i. assets a = Some i"
    and "\<And>a i. assets a = Some i \<Longrightarrow> in_asset i = a"
    and "mset u = mset (di_universe d)" and "mset g = mset (di_signals d)"
  shows "\<exists>c. from_input d assets = Inr c
    \<and> map in_asset (cd_universe c) = sort (di_universe d)
    \<and> mset (cd_signals c) = mset (di_signals d) \<and> sorted (map signal_key (cd_signals c))
    \<and> from_input (d\<lparr>di_universe := u, di_signals := g\<rparr>) assets = Inr c"
proof -
  note ok = make_definition_input_Inr [OF assms(1)]
  let ?uni = "map (\<lambda>a. the (assets a)) (sort (di_universe d))"
  let ?sig = "sort_key signal_key (di_signals d)"
  have ids: "map in_asset ?uni = sort (di_universe d)"
    using assms(2,3) by (simp add: o_def) (rule map_idI, metis Un_iff option.sel set_sort)
  have u: "sort u = sort (di_universe d)" using assms(4) by (metis properties_for_sort sorted_sort mset_sort)
  have g: "sort_key signal_key g = ?sig"
    by (rule sort_key_unique [symmetric, OF assms(5) [symmetric]]) (rule distinct_signal_keys [OF ok(4)])
  have sets: "set u = set (di_universe d)" using assms(4) by (rule mset_eq_setD)
  have none: "\<not> (\<exists>a \<in> set (di_universe d) \<union> set_option (di_benchmark d). assets a = None)"
    using assms(2) by fastforce
  let ?c = "\<lparr>cd_timeframe = di_timeframe d, cd_universe = ?uni, cd_parameters = di_parameters d, cd_signals = ?sig,
      cd_position = di_position d, cd_execution = di_execution d, cd_implementation = di_implementation d,
      cd_benchmark = map_option (\<lambda>a. the (assets a)) (di_benchmark d)\<rparr>"
  have "make_canonical_definition ?c = Inr ?c"
    using ok ids by (simp add: make_canonical_definition_def validate_canonical_universe_def
        del: map_map) (metis length_0_conv length_sort)
  then have "from_input d assets = Inr ?c" "from_input (d\<lparr>di_universe := u, di_signals := g\<rparr>) assets = Inr ?c"
    using none u g sets by (simp_all only: from_input_def Let_def definition_input.select_convs definition_input.update_convs
        definition_input.surjective if_False simp_thms) simp_all
  then show ?thesis using ids by (intro exI [of _ ?c]) (simp del: map_map)
qed

definition sample_signal :: signal_definition where
  "sample_signal = \<lparr>sg_id = ''up'', sg_role = ROLE_ENTRY, sg_direction = DIR_LONG, sg_priority = 1, sg_definition = [(''k'', PInt 1)]\<rparr>"

definition sample_input :: definition_input where
  "sample_input = \<lparr>di_timeframe = ONE_HOUR, di_universe = [7, 3], di_parameters = [(''a'', PInt 1)],
     di_signals = [sample_signal, sample_signal\<lparr>sg_id := ''dn'', sg_role := ROLE_EXIT, sg_direction := DIR_FLAT\<rparr>],
     di_position = \<lparr>pr_mode = LONG_ONLY, pr_max_open = 1, pr_allow_reversal = False, pr_sizing = [(''s'', PInt 1)]\<rparr>,
     di_execution = \<lparr>xa_timing = BAR_CLOSE, xa_order_type = MARKET, xa_fee = Fin 0, xa_slippage = Fin 0, xa_latency = 0\<rparr>,
     di_implementation = \<lparr>im_kind = DECLARATIVE, im_identifier = ''threshold-v1'', im_revision = ''1''\<rparr>, di_benchmark = None\<rparr>"

definition sample_asset :: "int \<Rightarrow> instrument option" where
  "sample_asset a = Some \<lparr>in_asset = a, in_symbol = ''BTC'', in_exchange = ''B'', in_type = ''C''\<rparr>"

lemma sample_input_valid: "make_definition_input sample_input = Inr sample_input"
proof -
  have "canonical_dict (di_parameters sample_input) = Inr (di_parameters sample_input)"
    by (simp add: sample_input_def canonical_dict_def)
  moreover have "validate_strategy_consistency sample_input"
    by (simp add: validate_strategy_consistency_def sample_input_def sample_signal_def)
  moreover have "di_universe sample_input = [7, 3]" "di_signals sample_input \<noteq> []" "di_benchmark sample_input = None"
    by (simp_all add: sample_input_def)
  moreover have "sample_input\<lparr>di_parameters := di_parameters sample_input\<rparr> = sample_input"
    by (rule definition_input.equality) simp_all
  ultimately show ?thesis by (simp only: make_definition_input_def sum.case Let_def if_True) simp
qed

lemma canonical_form_of_input_witness:
  "\<exists>c. from_input sample_input sample_asset = Inr c
    \<and> map in_asset (cd_universe c) = sort (di_universe sample_input)
    \<and> mset (cd_signals c) = mset (di_signals sample_input) \<and> sorted (map signal_key (cd_signals c))
    \<and> from_input (sample_input\<lparr>di_universe := [3, 7], di_signals := rev (di_signals sample_input)\<rparr>) sample_asset = Inr c"
proof (rule canonical_form_of_input [OF sample_input_valid])
  show "sample_asset a = Some i \<Longrightarrow> in_asset i = a" "\<exists>i. sample_asset a = Some i" for a i
    by (auto simp: sample_asset_def)
  show "mset [3, 7] = mset (di_universe sample_input)" by (simp add: sample_input_def)
qed simp

section \<open>The text determines the definition\<close>

definition same_canonical :: "pyval \<Rightarrow> pyval \<Rightarrow> bool" where
  "same_canonical x y \<longleftrightarrow> (\<exists>w. canonicalize_json x = Inr w \<and> canonicalize_json y = Inr w)"

lemma canonical_entries:
  assumes "canonicalize_json (PDict items) = Inr v" and "distinct (map fst items)"
  shows "\<exists>out. v = PDict out \<and> (\<forall>k. map_option canonicalize_json (map_of items k) = map_option Inr (map_of out k))"
proof -
  let ?canon = "map (map_prod id canonicalize_json) items"
  let ?entries = "sort_key fst ?canon"
  obtain vs where vs: "map snd ?entries = map Inr vs" and v: "v = PDict (zip (map fst ?entries) vs)"
    using assms(1) all_or_error_Inr by (auto simp: map_sum_Inr Let_def)
  let ?out = "zip (map fst ?entries) vs"
  have d: "distinct (map fst ?canon)" using assms(2) by (simp add: o_def map_prod_def case_prod_unfold)
  have "mset (map fst ?entries) = mset (map fst ?canon)" by (metis mset_map mset_sort)
  then have d': "distinct (map fst ?entries)" using d by (metis mset_eq_imp_distinct_iff)
  have "map_of ?entries = map_of ?canon" using map_of_inject_set [OF d' d] by simp
  moreover have "?entries = map (\<lambda>(k, w). (k, Inr w)) ?out"
  proof (rule nth_equalityI)
    have len: "length ?entries = length vs" using vs by (metis length_map)
    then show "length ?entries = length (map (\<lambda>(k, w). (k, Inr w)) ?out)" by simp
    fix i assume i: "i < length ?entries"
    then have "snd (?entries ! i) = Inr (vs ! i)" using vs len by (metis nth_map)
    then show "?entries ! i = map (\<lambda>(k, w). (k, Inr w)) ?out ! i"
      using i len by (simp add: prod_eq_iff)
  qed
  ultimately have "map_of ?canon = map_of (map (\<lambda>(k, w). (k, Inr w)) ?out)" by simp
  then have "\<forall>k. map_option canonicalize_json (map_of items k) = map_option Inr (map_of ?out k)"
    by (simp add: map_prod_def map_of_map [symmetric] id_def fun_eq_iff)
      (simp add: map_of_map)
  then show ?thesis using v by blast
qed

lemma same_canonical_entry:
  assumes "same_canonical (PDict a) (PDict b)" and "distinct (map fst a)" and "distinct (map fst b)"
    and "map_of a k = Some x" and "map_of b k = Some y"
  shows "same_canonical x y"
proof -
  obtain v where v: "canonicalize_json (PDict a) = Inr v" "canonicalize_json (PDict b) = Inr v"
    using assms(1) by (auto simp: same_canonical_def)
  obtain out where 1: "v = PDict out"
      "\<forall>k. map_option canonicalize_json (map_of a k) = map_option Inr (map_of out k)"
    using canonical_entries [OF v(1) assms(2)] by blast
  obtain out' where 2: "v = PDict out'"
      "\<forall>k. map_option canonicalize_json (map_of b k) = map_option Inr (map_of out' k)"
    using canonical_entries [OF v(2) assms(3)] by blast
  have "out' = out" using 1(1) 2(1) by simp
  then show ?thesis using 1(2) 2(2) assms(4,5) unfolding same_canonical_def
    by (metis option.map_disc_iff option.map_sel option.sel option.simps(3) not_Some_eq)
qed

lemma same_canonical_list:
  assumes "same_canonical (PList xs) (PList ys)"
  shows "list_all2 same_canonical xs ys"
proof -
  obtain ws where "map canonicalize_json xs = map Inr ws" "map canonicalize_json ys = map Inr ws"
    using assms all_or_error_Inr by (fastforce simp: same_canonical_def map_sum_Inr)
  then show ?thesis unfolding list_all2_conv_all_nth same_canonical_def
    by (metis length_map nth_map)
qed

lemma same_canonical_atom [simp]:
  "same_canonical (PInt i) (PInt j) \<longleftrightarrow> i = j"
  "same_canonical (PStr s) (PStr t) \<longleftrightarrow> s = t"
  "same_canonical (PBool p) (PBool q) \<longleftrightarrow> p = q"
  "same_canonical PNone PNone"
  by (auto simp: same_canonical_def)

lemma same_canonical_fixed:
  "same_canonical x y \<Longrightarrow> canonical_value x \<Longrightarrow> canonical_value y \<Longrightarrow> x = y"
  by (simp add: same_canonical_def canonicalize_fixed)

text \<open>What the validators establish of the free-form dictionaries and of the floats of a definition.\<close>

definition canonical_content :: "canonical_definition \<Rightarrow> bool" where
  "canonical_content c \<longleftrightarrow>
     canonical_value (PDict (cd_parameters c)) \<and> canonical_value (PDict (pr_sizing (cd_position c)))
     \<and> (\<forall>s \<in> set (cd_signals c). canonical_value (PDict (sg_definition s)))
     \<and> canonical_value (PFloat (xa_fee (cd_execution c))) \<and> canonical_value (PFloat (xa_slippage (cd_execution c)))"

lemma canonical_dict_canonical:
  assumes "python_value (PDict items)" and "canonical_dict items = Inr d"
  shows "canonical_value (PDict d)"
proof -
  have "canonicalize_json (PDict items) = Inr (PDict d)"
    using assms(2) by (auto simp: canonical_dict_def simp del: canonicalize_json.simps split: sum.splits pyval.splits)
  then show ?thesis by (rule canonicalize_canonical [OF assms(1)])
qed

lemma enum_values_inj [simp]:
  "timeframe_value x1 = timeframe_value y1 \<longleftrightarrow> x1 = y1"
  "role_value x2 = role_value y2 \<longleftrightarrow> x2 = y2"
  "direction_value x3 = direction_value y3 \<longleftrightarrow> x3 = y3"
  "mode_value x4 = mode_value y4 \<longleftrightarrow> x4 = y4"
  "timing_value x5 = timing_value y5 \<longleftrightarrow> x5 = y5"
  "order_type_value x6 = order_type_value y6 \<longleftrightarrow> x6 = y6"
  "kind_value x7 = kind_value y7 \<longleftrightarrow> x7 = y7"
proof -
  show "timeframe_value x1 = timeframe_value y1 \<longleftrightarrow> x1 = y1" by (cases x1; cases y1) simp_all
  show "role_value x2 = role_value y2 \<longleftrightarrow> x2 = y2" by (cases x2; cases y2) simp_all
  show "direction_value x3 = direction_value y3 \<longleftrightarrow> x3 = y3" by (cases x3; cases y3) simp_all
  show "mode_value x4 = mode_value y4 \<longleftrightarrow> x4 = y4" by (cases x4; cases y4) simp_all
  show "timing_value x5 = timing_value y5 \<longleftrightarrow> x5 = y5" by (cases x5; cases y5) simp_all
  show "order_type_value x6 = order_type_value y6 \<longleftrightarrow> x6 = y6" by (cases x6; cases y6) simp_all
  show "kind_value x7 = kind_value y7 \<longleftrightarrow> x7 = y7" by (cases x7; cases y7) simp_all
qed

lemma same_canonical_values:
  assumes "same_canonical (PDict a) (PDict b)" and "map fst a = map fst b" and "distinct (map fst a)"
  shows "list_all2 same_canonical (map snd a) (map snd b)"
  unfolding list_all2_conv_all_nth
proof (intro conjI allI impI)
  show len: "length (map snd a) = length (map snd b)" using assms(2) by (metis length_map)
  fix n assume n: "n < length (map snd a)"
  then have "fst (a ! n) = fst (b ! n)" using assms(2) len by (metis length_map nth_map)
  then have "map_of a (fst (a ! n)) = Some (snd (a ! n))" "map_of b (fst (a ! n)) = Some (snd (b ! n))"
    using n len assms(2,3) by (auto intro!: map_of_is_SomeI simp flip: assms(2)) (metis nth_mem surjective_pairing)+
  from same_canonical_entry [OF assms(1,3) _ this] show "same_canonical (map snd a ! n) (map snd b ! n)"
    using assms(2,3) n len by simp
qed

lemma instrument_payload_inj: "same_canonical (instrument_payload i) (instrument_payload j) \<Longrightarrow> i = j"
  unfolding instrument_payload_def by (drule same_canonical_values) simp_all

lemma signal_payload_inj:
  assumes "same_canonical (signal_payload s) (signal_payload t)"
    and "canonical_value (PDict (sg_definition s))" and "canonical_value (PDict (sg_definition t))"
  shows "s = t"
proof -
  have "same_canonical (PDict (sg_definition s)) (PDict (sg_definition t)) \<and> sg_id s = sg_id t
      \<and> sg_role s = sg_role t \<and> sg_direction s = sg_direction t \<and> sg_priority s = sg_priority t"
    using assms(1) unfolding signal_payload_def by (auto dest!: same_canonical_values)
  then show ?thesis using same_canonical_fixed [OF _ assms(2,3)] by simp
qed

lemma position_payload_inj:
  assumes "same_canonical (position_payload p) (position_payload q)"
    and "canonical_value (PDict (pr_sizing p))" and "canonical_value (PDict (pr_sizing q))"
  shows "p = q"
proof -
  have "same_canonical (PDict (pr_sizing p)) (PDict (pr_sizing q)) \<and> pr_mode p = pr_mode q
      \<and> pr_max_open p = pr_max_open q \<and> pr_allow_reversal p = pr_allow_reversal q"
    using assms(1) unfolding position_payload_def by (auto dest!: same_canonical_values)
  then show ?thesis using same_canonical_fixed [OF _ assms(2,3)] by simp
qed

lemma same_canonical_float [simp]:
  "same_canonical (PFloat x) (PFloat y) \<longleftrightarrow> x = y \<and> f_isfinite x"
  by (auto simp: same_canonical_def)

lemma execution_payload_inj: "same_canonical (execution_payload x) (execution_payload y) \<Longrightarrow> x = y"
  unfolding execution_payload_def by (drule same_canonical_values) simp_all

lemma implementation_payload_inj: "same_canonical (implementation_payload x) (implementation_payload y) \<Longrightarrow> x = y"
  unfolding implementation_payload_def by (drule same_canonical_values) simp_all

lemma payload_list_inj:
  assumes "same_canonical (PList (map f xs)) (PList (map f ys))"
    and "\<And>x y. x \<in> set xs \<Longrightarrow> y \<in> set ys \<Longrightarrow> same_canonical (f x) (f y) \<Longrightarrow> x = y"
  shows "xs = ys"
proof (rule nth_equalityI)
  have all: "list_all2 same_canonical (map f xs) (map f ys)" by (rule same_canonical_list [OF assms(1)])
  then show len: "length xs = length ys" by (metis length_map list_all2_lengthD)
  fix i assume "i < length xs"
  then show "xs ! i = ys ! i" using all len assms(2) by (simp add: list_all2_conv_all_nth)
qed

lemma benchmark_payload_inj:
  "same_canonical (case b of None \<Rightarrow> PNone | Some i \<Rightarrow> instrument_payload i)
     (case c of None \<Rightarrow> PNone | Some i \<Rightarrow> instrument_payload i) \<Longrightarrow> b = c"
  by (cases b; cases c)
    (auto simp: same_canonical_def [of PNone] same_canonical_def [of _ PNone] instrument_payload_def map_sum_Inr Let_def
      dest: instrument_payload_inj [unfolded instrument_payload_def])

lemma model_dump_inj:
  assumes "same_canonical (model_dump c) (model_dump d)" and "canonical_content c" and "canonical_content d"
  shows "c = d"
proof -
  have "same_canonical (PList (map instrument_payload (cd_universe c))) (PList (map instrument_payload (cd_universe d)))
      \<and> same_canonical (PDict (cd_parameters c)) (PDict (cd_parameters d))
      \<and> same_canonical (PList (map signal_payload (cd_signals c))) (PList (map signal_payload (cd_signals d)))
      \<and> same_canonical (position_payload (cd_position c)) (position_payload (cd_position d))
      \<and> same_canonical (execution_payload (cd_execution c)) (execution_payload (cd_execution d))
      \<and> same_canonical (implementation_payload (cd_implementation c)) (implementation_payload (cd_implementation d))
      \<and> same_canonical (case cd_benchmark c of None \<Rightarrow> PNone | Some i \<Rightarrow> instrument_payload i)
          (case cd_benchmark d of None \<Rightarrow> PNone | Some i \<Rightarrow> instrument_payload i)
      \<and> cd_timeframe c = cd_timeframe d"
    using assms(1) unfolding model_dump_def by (auto dest!: same_canonical_values)
  note parts = this
  have 1: "cd_universe c = cd_universe d"
    by (rule payload_list_inj [where f = instrument_payload]) (use parts instrument_payload_inj in auto)
  have 2: "cd_parameters c = cd_parameters d"
    using parts same_canonical_fixed assms(2,3) unfolding canonical_content_def by blast
  have 3: "cd_signals c = cd_signals d"
    by (rule payload_list_inj [where f = signal_payload])
      (use parts signal_payload_inj assms(2,3) in \<open>auto simp only: canonical_content_def\<close>)
  have 4: "cd_position c = cd_position d"
    using parts position_payload_inj assms(2,3) unfolding canonical_content_def by blast
  show ?thesis
    using parts 1 2 3 4 execution_payload_inj implementation_payload_inj benchmark_payload_inj
    by (intro canonical_definition.equality) (blast+, simp)
qed

lemma canonical_python: "canonical_value v \<Longrightarrow> python_value v"
  by (induction v) (auto simp: list_all_iff strict_sorted_iff split: pyfloat.splits)

lemma model_dump_python:
  assumes "canonical_content c"
  shows "python_value (model_dump c)"
proof -
  have "python_value (PDict (cd_parameters c))" "python_value (PDict (pr_sizing (cd_position c)))"
    "\<forall>s \<in> set (cd_signals c). python_value (PDict (sg_definition s))"
    "python_value (PFloat (xa_fee (cd_execution c)))" "python_value (PFloat (xa_slippage (cd_execution c)))"
    using assms canonical_python unfolding canonical_content_def by blast+
  then show ?thesis
    by (auto simp: model_dump_def instrument_payload_def signal_payload_def position_payload_def execution_payload_def
        implementation_payload_def list_all_iff split: option.splits)
qed

lemma text_determines:
  assumes "canonical_content c" and "canonical_content d"
    and "canonical_json c = Inr t" and "canonical_json d = Inr t"
  shows "c = d \<and> json_loads t = canonical_payload c"
proof -
  obtain v w where v: "canonicalize_json (model_dump c) = Inr v" "t = json_text compact v"
    and w: "canonicalize_json (model_dump d) = Inr w" "t = json_text compact w"
    using assms(3,4) by (auto simp: canonical_json_def canonical_payload_def map_sum_Inr)
  have "canonical_value v" "canonical_value w"
    using v(1) w(1) canonicalize_canonical model_dump_python assms(1,2) by blast+
  then have "json_loads t = Inr v" "json_loads t = Inr w"
    using loads_dumps [of compact v] loads_dumps [of compact w] v(2) w(2) by simp_all
  then show ?thesis
    using v(1) w(1) model_dump_inj [OF _ assms(1,2)] by (auto simp: same_canonical_def canonical_payload_def)
qed

text \<open>
  C35: The canonical text covers every field.  Two validated definitions have the same text only
  if they are equal, so whatever changes what a strategy does changes the text that is hashed;
  and the text reads back as the payload that is stored.
\<close>

theorem canonical_text_determines_definition:
  assumes "canonical_content c" and "canonical_content d"
    and "canonical_json c = Inr t" and "canonical_json d = Inr t"
  shows "c = d \<and> json_loads t = canonical_payload c"
  using text_determines [OF assms] .

definition canonicalizable :: "pyval \<Rightarrow> bool" where
  "canonicalizable v \<longleftrightarrow> (\<exists>w. canonicalize_json v = Inr w)"

lemma all_or_error_ok: "\<forall>r \<in> set rs. \<exists>x. r = Inr x \<Longrightarrow> \<exists>xs. all_or_error rs = Inr xs"
  by (induction rs rule: all_or_error.induct) auto

lemma canonicalizable_list: "\<forall>x \<in> set xs. canonicalizable x \<Longrightarrow> canonicalizable (PList xs)"
  using all_or_error_ok [of "map canonicalize_json xs"] by (auto simp: canonicalizable_def)

lemma canonicalizable_dict: "\<forall>x \<in> set items. canonicalizable (snd x) \<Longrightarrow> canonicalizable (PDict items)"
  using all_or_error_ok [of "map snd (sort_key fst (map (map_prod id canonicalize_json) items))"]
  by (auto simp: canonicalizable_def Let_def)

lemma canonicalizable_atom [simp]:
  "canonicalizable PNone" "canonicalizable (PBool b)" "canonicalizable (PInt i)" "canonicalizable (PStr s)"
  "canonicalizable (PFloat x) \<longleftrightarrow> f_isfinite x"
  by (auto simp: canonicalizable_def)

lemma canonicalizable_fixed: "canonical_value v \<Longrightarrow> canonicalizable v"
  by (auto simp: canonicalizable_def canonicalize_fixed)

lemma model_dump_canonicalizable:
  assumes "canonical_content c"
  shows "canonicalizable (model_dump c)"
proof -
  have "canonicalizable (PDict (cd_parameters c))" "canonicalizable (PDict (pr_sizing (cd_position c)))"
    "\<forall>s \<in> set (cd_signals c). canonicalizable (PDict (sg_definition s))"
    "canonicalizable (PFloat (xa_fee (cd_execution c)))" "canonicalizable (PFloat (xa_slippage (cd_execution c)))"
    using assms canonicalizable_fixed unfolding canonical_content_def by blast+
  note parts = this
  have "canonicalizable (signal_payload s)" if "s \<in> set (cd_signals c)" for s
    unfolding signal_payload_def by (rule canonicalizable_dict) (use parts(3) that in simp)
  moreover have "canonicalizable (instrument_payload i)" for i
    unfolding instrument_payload_def by (rule canonicalizable_dict) simp
  moreover have "canonicalizable (position_payload (cd_position c))"
    unfolding position_payload_def by (rule canonicalizable_dict) (use parts(2) in simp)
  moreover have "canonicalizable (execution_payload (cd_execution c))"
    unfolding execution_payload_def by (rule canonicalizable_dict) (use parts(4,5) in simp)
  moreover have "canonicalizable (implementation_payload (cd_implementation c))"
    unfolding implementation_payload_def by (rule canonicalizable_dict) simp
  ultimately show ?thesis
    unfolding model_dump_def
    by (intro canonicalizable_dict) (use parts(1) in \<open>auto intro!: canonicalizable_list split: option.splits\<close>)
qed

lemma canonical_json_total: "canonical_content c \<Longrightarrow> \<exists>t. canonical_json c = Inr t"
  using model_dump_canonicalizable [of c]
  by (auto simp: canonicalizable_def canonical_json_def canonical_payload_def)

definition sample_canonical :: canonical_definition where
  "sample_canonical =
     \<lparr>cd_timeframe = ONE_HOUR, cd_universe = map (the \<circ> sample_asset) [3, 7], cd_parameters = [(''a'', PInt 1)],
      cd_signals = [sample_signal], cd_position = di_position sample_input, cd_execution = di_execution sample_input,
      cd_implementation = di_implementation sample_input, cd_benchmark = None\<rparr>"

lemma sample_canonical_content: "canonical_content sample_canonical"
  by (simp add: canonical_content_def sample_canonical_def sample_signal_def sample_input_def fl_def)

lemma canonical_text_determines_definition_witness:
  "\<exists>t. canonical_json sample_canonical = Inr t \<and> json_loads t = canonical_payload sample_canonical"
  using canonical_json_total [OF sample_canonical_content]
    canonical_text_determines_definition [OF sample_canonical_content sample_canonical_content] by blast

section \<open>References and events\<close>

text \<open>\<open>_SHA256_PATTERN.fullmatch\<close>.\<close>

definition sha256_pattern :: "string \<Rightarrow> bool" where
  "sha256_pattern s \<longleftrightarrow> length s = 64 \<and> list_all (\<lambda>c. is_digit c \<or> c \<in> set ''abcdef'') s"

record version_reference =
  vr_key :: string
  vr_version :: int
  vr_hash :: string

definition make_version_reference :: "version_reference \<Rightarrow> py_exn + version_reference" where
  "make_version_reference r =
     (let key = py_strip (vr_key r)
      in if length_within 1 64 (vr_key r) \<and> 1 \<le> vr_version r \<and> length_within 64 64 (vr_hash r)
            \<and> identifier_pattern key \<and> sha256_pattern (vr_hash r)
         then Inr (r\<lparr>vr_key := key\<rparr>) else Inl validation_error)"

definition reference_identity :: "version_reference \<Rightarrow> string" where
  "reference_identity r = vr_key r @ ''@v'' @ py_str_int (vr_version r) @ '':'' @ vr_hash r"

datatype evaluation_mode = HISTORICAL | LIVE

record strategy_event =
  se_strategy :: version_reference
  se_mode :: evaluation_mode
  se_type :: strategy_event_type
  se_event_time :: pydatetime
  se_observed_at :: pydatetime
  se_asset :: int
  se_signal :: "string option"
  se_position :: "signal_direction option"
  se_payload :: json_dict

definition validate_event_shape :: "strategy_event \<Rightarrow> bool" where
  "validate_event_shape e \<longleftrightarrow>
     utc (se_event_time e) \<le> utc (se_observed_at e)
     \<and> (se_type e = EVENT_SIGNAL \<longrightarrow> se_signal e \<noteq> None)
     \<and> (se_type e = EVENT_ENTRY \<longrightarrow> se_signal e \<noteq> None \<and> se_position e \<in> {Some DIR_LONG, Some DIR_SHORT})
     \<and> (se_type e = EVENT_EXIT \<longrightarrow> se_position e = Some DIR_FLAT)
     \<and> (se_type e = EVENT_POSITION \<longrightarrow> se_position e \<noteq> None)"

definition make_strategy_event :: "strategy_event \<Rightarrow> py_exn + strategy_event" where
  "make_strategy_event e =
     (let ident = map_option py_strip (se_signal e)
      in if 0 < se_asset e \<and> (\<forall>s \<in> set_option (se_signal e). length s \<le> 64)
            \<and> is_aware (se_event_time e) \<and> is_aware (se_observed_at e)
            \<and> (\<forall>s \<in> set_option ident. identifier_pattern s)
         then case canonical_dict (se_payload e) of
           Inl err \<Rightarrow> Inl validation_error
         | Inr d \<Rightarrow>
             let e' = e\<lparr>se_event_time := utc_dt (utc (se_event_time e)), se_observed_at := utc_dt (utc (se_observed_at e)),
                        se_signal := ident, se_payload := d\<rparr>
             in if validate_event_shape e' then Inr e' else Inl validation_error
         else Inl validation_error)"

end
