(* ===== verification/Forensic_Text.thy ===== *)
theory Forensic_Text
  imports Py_Decimal Strategy_Contracts
begin

text \<open>
  The text that the forensic records of \<open>divergence\<close>, \<open>backtests\<close> and \<open>monitoring\<close> are identified
  by: \<open>json.dumps\<close> of a payload with sorted keys and its SHA-256, the text of a UUID (a 128-bit
  number here) and \<open>datetime.isoformat\<close> of a UTC time.
\<close>

section \<open>Payloads\<close>

text \<open>
  The dictionaries of a value with their keys in order, tuples as lists.  It is what
  \<open>canonicalize_json\<close> returns for every value it accepts, and what \<open>sort_keys=True\<close> prints.
\<close>

primrec sorted_value :: "pyval \<Rightarrow> pyval" where
  "sorted_value PNone = PNone"
| "sorted_value (PBool b) = PBool b"
| "sorted_value (PInt i) = PInt i"
| "sorted_value (PFloat x) = PFloat x"
| "sorted_value (PStr s) = PStr s"
| "sorted_value (PList xs) = PList (map sorted_value xs)"
| "sorted_value (PTuple xs) = PList (map sorted_value xs)"
| "sorted_value (PDict items) = PDict (sort_key fst (map (map_prod id sorted_value) items))"
| "sorted_value PKeyedDict = PKeyedDict"
| "sorted_value (POther t) = POther t"

lemma sorted_value_list:
  "(\<And>x c. x \<in> set xs \<Longrightarrow> canonicalize_json x = Inr c \<Longrightarrow> c = sorted_value x) \<Longrightarrow>
   all_or_error (map canonicalize_json xs) = Inr ys \<Longrightarrow> ys = map sorted_value xs"
proof (induction xs arbitrary: ys)
  case (Cons x xs)
  from Cons.prems(2) obtain y zs where "canonicalize_json x = Inr y" "ys = y # zs"
    "all_or_error (map canonicalize_json xs) = Inr zs"
    by (cases "canonicalize_json x") (auto split: sum.splits)
  with Cons.IH [of zs] Cons.prems(1) show ?case by simp
qed simp

lemma insort_map_prod: "insort_key fst (map_prod id f p) (map (map_prod id f) xs) = map (map_prod id f) (insort_key fst p xs)"
  by (induction xs) auto

lemma sort_map_prod: "sort_key fst (map (map_prod id f) xs) = map (map_prod id f) (sort_key fst xs)"
  by (induction xs) (simp, simp only: list.map sort_key_simps insort_map_prod)

lemma canonicalize_sorts: "canonicalize_json v = Inr c \<Longrightarrow> c = sorted_value v"
proof (induction v arbitrary: c)
  case (PList xs)
  then show ?case using sorted_value_list [of xs] by (auto simp: map_sum_Inr)
next
  case (PTuple xs)
  then show ?case using sorted_value_list [of xs] by (auto simp: map_sum_Inr)
next
  case (PDict items)
  let ?s = "sort_key fst items"
  have keys: "map fst (map (map_prod id canonicalize_json) ?s) = map fst ?s" by (simp add: o_def)
  obtain vs where vs: "all_or_error (map canonicalize_json (map snd ?s)) = Inr vs"
    and c: "c = PDict (zip (map fst ?s) vs)"
    using PDict.prems keys by (auto simp: Let_def map_sum_Inr sort_map_prod o_def)
  have "vs = map sorted_value (map snd ?s)"
  proof (rule sorted_value_list [OF _ vs])
    fix x d
    assume "x \<in> set (map snd ?s)" and x: "canonicalize_json x = Inr d"
    then obtain k where "(k, x) \<in> set items" by auto
    from PDict.IH [OF this _ x] show "d = sorted_value x" by simp
  qed
  then have "zip (map fst ?s) vs = map (map_prod id sorted_value) ?s"
    by (simp add: zip_map_map zip_same_conv_map map_prod_def split_def)
  then show ?case by (simp add: c sort_map_prod)
qed (auto split: if_splits)

definition hash_payload :: "pyval \<Rightarrow> string" where
  "hash_payload v = hexdigest (sha256 (encode_ascii (json_text compact (sorted_value v))))"

definition opt_value :: "('a \<Rightarrow> pyval) \<Rightarrow> 'a option \<Rightarrow> pyval" where
  "opt_value f x = (case x of None \<Rightarrow> PNone | Some v \<Rightarrow> f v)"

section \<open>Identifiers and times\<close>

text \<open>\<open>str\<close> of a UUID: 32 hexadecimal digits in five groups.\<close>

fun hex_text :: "nat \<Rightarrow> nat \<Rightarrow> string" where
  "hex_text 0 n = []"
| "hex_text (Suc k) n = hex_text k (n div 16) @ [hex_digit (n mod 16)]"

definition uuid_text :: "int \<Rightarrow> string" where
  "uuid_text u =
     (let h = hex_text 32 (nat u)
      in take 8 h @ ''-'' @ take 4 (drop 8 h) @ ''-'' @ take 4 (drop 12 h) @ ''-'' @ take 4 (drop 16 h) @ ''-'' @ drop 20 h)"

lemma length_hex_text [simp]: "length (hex_text k n) = k"
  by (induction k arbitrary: n) simp_all

lemma length_uuid_text [simp]: "length (uuid_text u) = 36"
  by (simp add: uuid_text_def Let_def)

text \<open>The civil date of a day number since the epoch, in the proleptic Gregorian calendar.\<close>

definition civil_date :: "int \<Rightarrow> int \<times> int \<times> int" where
  "civil_date days =
     (let z = days + 719468;
          era = z div 146097;
          doe = z mod 146097;
          yoe = (doe - doe div 1460 + doe div 36524 - doe div 146096) div 365;
          doy = doe - (365 * yoe + yoe div 4 - yoe div 100);
          mp = (5 * doy + 2) div 153;
          d = doy - (153 * mp + 2) div 5 + 1;
          m = (if mp < 10 then mp + 3 else mp - 9)
      in (yoe + era * 400 + (if m \<le> 2 then 1 else 0), m, d))"

definition padded :: "nat \<Rightarrow> int \<Rightarrow> string" where
  "padded k n = (let ds = nat_digits (nat n) in replicate (k - length ds) CHR ''0'' @ ds)"

definition py_isoformat :: "usec \<Rightarrow> string" where
  "py_isoformat t =
     (let days = t div day_us; r = t mod day_us; us = r mod second_us; s = r div second_us
      in case civil_date days of (y, m, d) \<Rightarrow>
           padded 4 y @ ''-'' @ padded 2 m @ ''-'' @ padded 2 d @ ''T''
             @ padded 2 (s div 3600) @ '':'' @ padded 2 (s div 60 mod 60) @ '':'' @ padded 2 (s mod 60)
             @ (if us = 0 then [] else ''.'' @ padded 6 us) @ ''+00:00'')"

end
