(* ===== verification/Live_Contracts.thy ===== *)
theory Live_Contracts
  imports Strategy_Contracts
begin

text \<open>
  \<open>app/live_strategies/contracts.py\<close>: the configuration of a live strategy, the validated candle
  it reads, and \<open>evaluate_live_candle\<close>, the deterministic step of a live position.  An exception
  the function does not catch is the left value of its result.
\<close>

section \<open>States\<close>

datatype position_state = POS_FLAT | POS_LONG | POS_SHORT
datatype activation_status = ACT_ACTIVE | ACT_DEACTIVATED | ACT_ERROR
datatype live_health = LIVE_UNKNOWN | LIVE_HEALTHY | LIVE_DEGRADED | LIVE_ERROR | LIVE_STOPPED
datatype evaluation_status =
  EVALUATED | DUPLICATE | OUT_OF_ORDER | GAP_DETECTED | EVAL_INVALID | EVAL_ERROR

section \<open>Configuration\<close>

record live_configuration =
  lc_evaluator :: string
  lc_revision :: string
  lc_max_candles :: int
  lc_runtime :: json_dict

definition make_live_configuration :: "live_configuration \<Rightarrow> py_exn + live_configuration" where
  "make_live_configuration c =
     (let rev = py_strip (lc_revision c)
      in if lc_evaluator c = ''threshold-v1'' \<and> length_within 1 128 (lc_revision c) \<and> rev \<noteq> []
            \<and> 1 \<le> lc_max_candles c \<and> lc_max_candles c \<le> 1000
         then map_sum id (\<lambda>d. c\<lparr>lc_revision := rev, lc_runtime := d\<rparr>) (canonical_dict (lc_runtime c))
         else Inl validation_error)"

definition configuration_dump :: "live_configuration \<Rightarrow> pyval" where
  "configuration_dump c =
     PDict [(''evaluator_id'', PStr (lc_evaluator c)), (''evaluator_revision'', PStr (lc_revision c)),
            (''max_candles_per_cycle'', PInt (lc_max_candles c)), (''runtime_config'', PDict (lc_runtime c))]"

text \<open>\<open>sort_keys=True\<close> orders the keys of every dictionary, as canonicalisation does.\<close>

definition configuration_hash :: "live_configuration \<Rightarrow> py_exn + string" where
  "configuration_hash c =
     map_sum id (\<lambda>v. hexdigest (sha256 (encode_ascii (json_text compact v))))
       (canonicalize_json (configuration_dump c))"

section \<open>Candles\<close>

text \<open>A row of a candle table; the aggregates have nullable columns.\<close>

record live_row =
  lr_asset :: int
  lr_time :: pydatetime
  lr_open :: "pyfloat option"
  lr_high :: "pyfloat option"
  lr_low :: "pyfloat option"
  lr_close :: "pyfloat option"
  lr_volume :: "pyfloat option"

record live_candle =
  lv_asset :: int
  lv_time :: usec
  lv_open :: pyfloat
  lv_high :: pyfloat
  lv_low :: pyfloat
  lv_close :: pyfloat
  lv_volume :: pyfloat

definition live_ohlcv_ok :: "live_candle \<Rightarrow> bool" where
  "live_ohlcv_ok c \<longleftrightarrow>
     (let low = f_sub (lv_low c) f_1e_9; high = f_add (lv_high c) f_1e_9
      in \<not> f_lt (lv_high c) low
         \<and> f_le low (lv_open c) \<and> f_le (lv_open c) high
         \<and> f_le low (lv_close c) \<and> f_le (lv_close c) high)"

definition make_live_candle :: "live_row \<Rightarrow> py_exn + live_candle" where
  "make_live_candle r =
     (case (lr_open r, lr_high r, lr_low r, lr_close r, lr_volume r) of
        (Some opn, Some h, Some l, Some c, Some v) \<Rightarrow>
          if 0 < lr_asset r \<and> is_aware (lr_time r)
             \<and> list_all (\<lambda>x. f_lt (Fin 0) x \<and> f_isfinite x) [opn, h, l, c] \<and> f_le (Fin 0) v \<and> f_isfinite v
          then let candle = \<lparr>lv_asset = lr_asset r, lv_time = utc (lr_time r), lv_open = opn, lv_high = h,
                             lv_low = l, lv_close = c, lv_volume = v\<rparr>
               in if live_ohlcv_ok candle then Inr candle else Inl validation_error
          else Inl validation_error
      | _ \<Rightarrow> Inl validation_error)"

section \<open>Thresholds\<close>

text \<open>\<open>float(i)\<close> of an int beyond the doubles raises \<open>OverflowError\<close>.\<close>

definition float_of_int :: "int \<Rightarrow> py_exn + pyfloat" where
  "float_of_int i = (case fl (of_int i) of Fin q \<Rightarrow> Inr (Fin q) | _ \<Rightarrow> Inl (OtherException ''OverflowError''))"

text \<open>A list or dictionary is not hashable, so testing it for membership in a set raises.\<close>

primrec unhashable :: "pyval \<Rightarrow> bool" where
  "unhashable PNone = False"
| "unhashable (PBool b) = False"
| "unhashable (PInt i) = False"
| "unhashable (PFloat x) = False"
| "unhashable (PStr s) = False"
| "unhashable (PList xs) = True"
| "unhashable (PTuple xs) = list_ex id (map unhashable xs)"
| "unhashable (PDict items) = True"
| "unhashable PKeyedDict = True"
| "unhashable (POther t) = False"

definition numeric_threshold :: "pyval \<Rightarrow> py_exn + pyfloat" where
  "numeric_threshold v =
     (case v of
        PInt i \<Rightarrow> float_of_int i
      | PFloat x \<Rightarrow> Inr x
      | _ \<Rightarrow> Inl (ValueError ''threshold-v1 threshold must be numeric''))"

definition threshold_condition :: "json_dict \<Rightarrow> py_exn + (string \<times> pyfloat)" where
  "threshold_condition d =
     (case (map_of d ''kind'', map_of d ''operator'', map_of d ''threshold'') of
        (Some kind, Some oper, Some threshold) \<Rightarrow>
          if fst ` set d \<noteq> {''kind'', ''operator'', ''threshold''}
          then Inl (ValueError ''threshold-v1 signals require exactly kind, operator, and threshold'')
          else if kind \<noteq> PStr ''close_threshold''
          then Inl (ValueError ''threshold-v1 only supports close_threshold signals'')
          else if unhashable oper then Inl (TypeError ''unhashable type'')
          else if oper \<notin> PStr ` {''gt'', ''gte'', ''lt'', ''lte''}
          then Inl (ValueError ''threshold-v1 operator must be gt, gte, lt, or lte'')
          else (case numeric_threshold threshold of
                  Inl e \<Rightarrow> Inl e
                | Inr x \<Rightarrow>
                    if \<not> f_isfinite x \<or> f_le x (Fin 0)
                    then Inl (ValueError ''threshold-v1 threshold must be finite and positive'')
                    else Inr (case oper of PStr s \<Rightarrow> s | _ \<Rightarrow> [], x))
      | _ \<Rightarrow> Inl (ValueError ''threshold-v1 signals require exactly kind, operator, and threshold''))"

definition matches_threshold :: "json_dict \<Rightarrow> pyfloat \<Rightarrow> py_exn + bool" where
  "matches_threshold d close =
     (case threshold_condition d of
        Inl e \<Rightarrow> Inl e
      | Inr (oper, threshold) \<Rightarrow>
          Inr (if oper = ''gt'' then f_lt threshold close
               else if oper = ''gte'' then f_le threshold close
               else if oper = ''lt'' then f_lt close threshold
               else f_le close threshold))"

section \<open>Alignment\<close>

definition timeframe_intervals :: "(string \<times> int) list" where
  "timeframe_intervals =
     [(''1m'', minute_us), (''5m'', 5 * minute_us), (''15m'', 15 * minute_us),
      (''1h'', hour_us), (''4h'', 4 * hour_us), (''1d'', day_us)]"

definition interval_of :: "strategy_timeframe \<Rightarrow> int" where
  "interval_of tf = the (map_of timeframe_intervals (timeframe_value tf))"

definition py_trunc :: "rat \<Rightarrow> int" where
  "py_trunc q = (if 0 \<le> q then \<lfloor>q\<rfloor> else \<lceil>q\<rceil>)"

text \<open>
  \<open>int(delta.total_seconds() * 1_000_000)\<close>: the quotient and the product are rounded to doubles.
  A timedelta is too short for either to overflow.
\<close>

definition seconds_times_million :: "int \<Rightarrow> int" where
  "seconds_times_million us =
     (case fl (of_int us / 1000000) of
        Fin secs \<Rightarrow> (case fl (secs * 1000000) of Fin x \<Rightarrow> py_trunc x | _ \<Rightarrow> 0)
      | _ \<Rightarrow> 0)"

definition is_timeframe_aligned :: "usec \<Rightarrow> strategy_timeframe \<Rightarrow> bool" where
  "is_timeframe_aligned timestamp tf \<longleftrightarrow>
     seconds_times_million timestamp mod seconds_times_million (interval_of tf) = 0"

section \<open>Evaluation\<close>

record live_event =
  le_type :: strategy_event_type
  le_signal :: string
  le_position :: position_state

record outcome =
  oc_status :: evaluation_status
  oc_before :: position_state
  oc_after :: position_state
  oc_signal :: "string option"
  oc_events :: "live_event list"
  oc_code :: "string option"
  oc_message :: "string option"

definition plain_outcome :: "evaluation_status \<Rightarrow> position_state \<Rightarrow> outcome" where
  "plain_outcome st p =
     \<lparr>oc_status = st, oc_before = p, oc_after = p, oc_signal = None, oc_events = [], oc_code = None, oc_message = None\<rparr>"

definition failed_outcome :: "evaluation_status \<Rightarrow> position_state \<Rightarrow> string \<Rightarrow> string \<Rightarrow> outcome" where
  "failed_outcome st p code msg = (plain_outcome st p)\<lparr>oc_code := Some code, oc_message := Some msg\<rparr>"

fun position_from_direction :: "signal_direction \<Rightarrow> py_exn + position_state" where
  "position_from_direction DIR_LONG = Inr POS_LONG"
| "position_from_direction DIR_SHORT = Inr POS_SHORT"
| "position_from_direction DIR_FLAT = Inl (ValueError ''entry signal cannot target flat position'')"

fun matching_signal :: "signal_definition list \<Rightarrow> pyfloat \<Rightarrow> py_exn + signal_definition option" where
  "matching_signal [] close = Inr None"
| "matching_signal (s # ss) close =
     (case matches_threshold (sg_definition s) close of
        Inl e \<Rightarrow> Inl e
      | Inr True \<Rightarrow> Inr (Some s)
      | Inr False \<Rightarrow> matching_signal ss close)"

text \<open>The transition a matching signal causes: the events and the new position.\<close>

definition apply_signal ::
  "bool \<Rightarrow> bool \<Rightarrow> position_state \<Rightarrow> signal_definition \<Rightarrow> py_exn + (live_event list \<times> position_state)" where
  "apply_signal allow_reversal can_open p s =
     (let ev = (\<lambda>t q. \<lparr>le_type = t, le_signal = sg_id s, le_position = q\<rparr>);
          first = ev EVENT_SIGNAL p
      in if sg_role s = ROLE_EXIT
         then Inr (if p \<noteq> POS_FLAT then ([first, ev EVENT_EXIT POS_FLAT], POS_FLAT) else ([first], p))
         else if p = POS_FLAT \<and> can_open
         then map_sum id (\<lambda>q. ([first, ev EVENT_ENTRY q], q)) (position_from_direction (sg_direction s))
         else (case position_from_direction (sg_direction s) of
                 Inl e \<Rightarrow> Inl e
               | Inr q \<Rightarrow>
                   if p \<noteq> q \<and> allow_reversal
                   then Inr ([first, ev EVENT_EXIT POS_FLAT, ev EVENT_ENTRY q], q)
                   else Inr ([first], p)))"

definition evaluate_signals ::
  "canonical_definition \<Rightarrow> live_candle \<Rightarrow> position_state \<Rightarrow> bool \<Rightarrow> py_exn + outcome" where
  "evaluate_signals d c p can_open =
     (case matching_signal (cd_signals d) (lv_close c) of
        Inl (ValueError m) \<Rightarrow> Inr (failed_outcome EVAL_INVALID p ''invalid_signal_definition'' m)
      | Inl e \<Rightarrow> Inl e
      | Inr None \<Rightarrow> Inr (plain_outcome EVALUATED p)
      | Inr (Some s) \<Rightarrow>
          (case apply_signal (pr_allow_reversal (cd_position d)) can_open p s of
             Inl e \<Rightarrow> Inl e
           | Inr (events, q) \<Rightarrow>
               Inr ((plain_outcome EVALUATED p)\<lparr>oc_after := q, oc_signal := Some (sg_id s), oc_events := events\<rparr>)))"

definition evaluate_live_candle ::
  "canonical_definition \<Rightarrow> live_candle \<Rightarrow> position_state \<Rightarrow> usec option \<Rightarrow> bool \<Rightarrow> py_exn + outcome" where
  "evaluate_live_candle d c p prev can_open =
     (if lv_asset c \<notin> set (map in_asset (cd_universe d))
      then Inr (failed_outcome EVAL_INVALID p ''asset_outside_universe''
                  ''canonical candle asset is not part of the strategy universe'')
      else if \<not> is_timeframe_aligned (lv_time c) (cd_timeframe d)
      then Inr (failed_outcome EVAL_INVALID p ''timestamp_not_aligned''
                  ''canonical candle timestamp is not aligned to the bucket'')
      else (case prev of
              None \<Rightarrow> evaluate_signals d c p can_open
            | Some t \<Rightarrow>
                if lv_time c = t then Inr (plain_outcome DUPLICATE p)
                else if lv_time c < t then Inr (plain_outcome OUT_OF_ORDER p)
                else if lv_time c > t + interval_of (cd_timeframe d)
                then Inr (failed_outcome GAP_DETECTED p ''missing_candles'' ''expected canonical candle'')
                else evaluate_signals d c p can_open))"

fun validate_thresholds :: "signal_definition list \<Rightarrow> py_exn option" where
  "validate_thresholds [] = None"
| "validate_thresholds (s # ss) =
     (case threshold_condition (sg_definition s) of Inl e \<Rightarrow> Some e | Inr _ \<Rightarrow> validate_thresholds ss)"

text \<open>\<open>None\<close>: the definition is accepted.\<close>

definition validate_live_definition :: "canonical_definition \<Rightarrow> live_configuration \<Rightarrow> py_exn option" where
  "validate_live_definition d c =
     (if lc_evaluator c \<noteq> ''threshold-v1'' then Some (ValueError ''unsupported live evaluator'')
      else if im_kind (cd_implementation d) \<noteq> DECLARATIVE
      then Some (ValueError ''live threshold evaluator requires a declarative strategy'')
      else if im_identifier (cd_implementation d) \<noteq> lc_evaluator c
      then Some (ValueError ''strategy implementation identifier must match the live evaluator'')
      else if im_revision (cd_implementation d) \<noteq> lc_revision c
      then Some (ValueError ''strategy implementation revision must match the live evaluator revision'')
      else if map_of timeframe_intervals (timeframe_value (cd_timeframe d)) = None
      then Some (ValueError ''unsupported strategy timeframe'')
      else if xa_timing (cd_execution d) \<noteq> BAR_CLOSE
      then Some (ValueError ''live threshold evaluator only supports bar_close execution timing'')
      else validate_thresholds (cd_signals d))"

section \<open>Well-formed outcomes\<close>

text \<open>
  The events of an outcome tell how the position moved: nothing, a signal alone, or a signal
  followed by an exit to flat, an entry, or both.
\<close>

inductive event_path :: "position_state \<Rightarrow> string option \<Rightarrow> live_event list \<Rightarrow> position_state \<Rightarrow> bool" where
  no_signal: "event_path p None [] p"
| signal_only: "event_path p (Some s) [\<lparr>le_type = EVENT_SIGNAL, le_signal = s, le_position = p\<rparr>] p"
| exited: "p \<noteq> POS_FLAT \<Longrightarrow> event_path p (Some s)
     [\<lparr>le_type = EVENT_SIGNAL, le_signal = s, le_position = p\<rparr>,
      \<lparr>le_type = EVENT_EXIT, le_signal = s, le_position = POS_FLAT\<rparr>] POS_FLAT"
| entered: "q \<noteq> POS_FLAT \<Longrightarrow> event_path POS_FLAT (Some s)
     [\<lparr>le_type = EVENT_SIGNAL, le_signal = s, le_position = POS_FLAT\<rparr>,
      \<lparr>le_type = EVENT_ENTRY, le_signal = s, le_position = q\<rparr>] q"
| reversed: "p \<noteq> q \<Longrightarrow> q \<noteq> POS_FLAT \<Longrightarrow> event_path p (Some s)
     [\<lparr>le_type = EVENT_SIGNAL, le_signal = s, le_position = p\<rparr>,
      \<lparr>le_type = EVENT_EXIT, le_signal = s, le_position = POS_FLAT\<rparr>,
      \<lparr>le_type = EVENT_ENTRY, le_signal = s, le_position = q\<rparr>] q"

lemma position_from_direction_Inr: "position_from_direction dir = Inr q \<Longrightarrow> q \<noteq> POS_FLAT"
  by (cases dir) auto

lemma apply_signal_path:
  assumes "apply_signal allow can_open p s = Inr (events, q)"
  shows "event_path p (Some (sg_id s)) events q"
  using assms
  by (auto simp: apply_signal_def Let_def map_sum_Inr dest: position_from_direction_Inr
      intro: event_path.intros split: if_splits sum.splits)

lemma apply_signal_moves:
  assumes "apply_signal allow can_open p s = Inr (events, q)" and "q \<noteq> p"
  shows "(sg_role s = ROLE_EXIT \<and> q = POS_FLAT)
    \<or> (sg_role s = ROLE_ENTRY \<and> position_from_direction (sg_direction s) = Inr q
        \<and> (p = POS_FLAT \<and> can_open \<or> allow))"
  using assms by (cases "sg_role s") (auto simp: apply_signal_def Let_def map_sum_Inr split: if_splits sum.splits)

lemma matching_signal_Some:
  "matching_signal ss close = Inr (Some s) \<Longrightarrow> s \<in> set ss \<and> matches_threshold (sg_definition s) close = Inr True"
  by (induction ss) (auto split: sum.splits bool.splits)

text \<open>The status and what goes with it.\<close>

definition outcome_ok :: "position_state \<Rightarrow> outcome \<Rightarrow> bool" where
  "outcome_ok p oc \<longleftrightarrow>
     oc_before oc = p \<and> event_path p (oc_signal oc) (oc_events oc) (oc_after oc)
     \<and> (oc_status oc \<noteq> EVALUATED \<longrightarrow> oc_signal oc = None \<and> oc_after oc = p)
     \<and> (oc_code oc = None \<longleftrightarrow> oc_status oc \<in> {EVALUATED, DUPLICATE, OUT_OF_ORDER})
     \<and> (oc_message oc = None \<longleftrightarrow> oc_code oc = None)"

lemma plain_outcome_simps [simp]:
  "oc_status (plain_outcome st p) = st" "oc_before (plain_outcome st p) = p" "oc_after (plain_outcome st p) = p"
  "oc_signal (plain_outcome st p) = None" "oc_events (plain_outcome st p) = []"
  "oc_code (plain_outcome st p) = None" "oc_message (plain_outcome st p) = None"
  by (simp_all add: plain_outcome_def)

lemma outcome_ok_plain: "outcome_ok p (plain_outcome st p) \<longleftrightarrow> st \<in> {EVALUATED, DUPLICATE, OUT_OF_ORDER}"
  by (auto simp: outcome_ok_def intro: event_path.intros)

lemma outcome_ok_failed: "outcome_ok p (failed_outcome st p code msg) \<longleftrightarrow> st \<notin> {EVALUATED, DUPLICATE, OUT_OF_ORDER}"
  by (auto simp: outcome_ok_def failed_outcome_def intro: event_path.intros)

lemma evaluate_signals_ok: "evaluate_signals d c p can_open = Inr oc \<Longrightarrow> outcome_ok p oc"
  by (auto simp: evaluate_signals_def outcome_ok_plain outcome_ok_failed split: sum.splits py_exn.splits option.splits)
    (auto simp: outcome_ok_def dest: apply_signal_path)

lemma evaluate_signals_status:
  "evaluate_signals d c p can_open = Inr oc \<Longrightarrow> oc_status oc \<in> {EVALUATED, EVAL_INVALID}"
  by (auto simp: evaluate_signals_def failed_outcome_def split: sum.splits py_exn.splits option.splits)

lemma evaluate_ok: "evaluate_live_candle d c p prev can_open = Inr oc \<Longrightarrow> outcome_ok p oc"
  by (auto simp: evaluate_live_candle_def outcome_ok_plain outcome_ok_failed dest: evaluate_signals_ok
      split: if_splits option.splits)

lemma evaluate_EVALUATED:
  assumes "evaluate_live_candle d c p prev can_open = Inr oc" and "oc_status oc = EVALUATED"
  shows "evaluate_signals d c p can_open = Inr oc" and "lv_asset c \<in> set (map in_asset (cd_universe d))"
    and "is_timeframe_aligned (lv_time c) (cd_timeframe d)"
    and "\<forall>t \<in> set_option prev. t < lv_time c \<and> lv_time c \<le> t + interval_of (cd_timeframe d)"
  using assms by (auto simp: evaluate_live_candle_def failed_outcome_def split: if_splits option.splits)

section \<open>Alignment is exact on whole seconds\<close>

lemma fl_int:
  assumes "0 \<le> m" and "m \<le> 2 ^ 53"
  shows "fl (of_int m) = Fin (of_int m)"
proof (cases "m = 0")
  case True
  then show ?thesis by (simp add: fl_def)
next
  case False
  have d: "is_double (of_int m)" by (rule is_double_int) (use assms in simp)
  have "f_le (Fin (of_int m)) (fl (of_int m))" by (rule fl_ge [OF _ order_refl d]) (use assms False in simp)
  moreover have "f_le (fl (of_int m)) (Fin (of_int m))" by (rule fl_le [OF order_refl d]) (use assms in simp)
  ultimately show ?thesis by (cases "fl (of_int m)") simp_all
qed

lemma seconds_times_million_whole:
  assumes "0 \<le> s" and "s \<le> 2 ^ 33"
  shows "seconds_times_million (s * 1000000) = s * 1000000"
proof -
  have s: "fl (of_int s) = Fin (of_int s)" by (rule fl_int) (use assms in simp_all)
  have m: "fl (of_int (s * 1000000)) = Fin (of_int (s * 1000000))" by (rule fl_int) (use assms in simp_all)
  have "of_int (s * 1000000) / 1000000 = (of_int s :: rat)" by simp
  moreover have "\<lfloor>of_int s * 1000000 :: rat\<rfloor> = s * 1000000"
    by (metis floor_of_int of_int_mult of_int_numeral)
  ultimately show ?thesis
    using s m assms(1) by (simp add: seconds_times_million_def py_trunc_def)
qed

lemma interval_of_simps [simp]:
  "interval_of ONE_MINUTE = minute_us" "interval_of FIVE_MINUTES = 5 * minute_us"
  "interval_of FIFTEEN_MINUTES = 15 * minute_us" "interval_of ONE_HOUR = hour_us"
  "interval_of FOUR_HOURS = 4 * hour_us" "interval_of ONE_DAY = day_us"
  by (simp_all add: interval_of_def timeframe_intervals_def)

lemma interval_seconds: "\<exists>s. interval_of tf = s * 1000000 \<and> 60 \<le> s \<and> s \<le> 86400"
  by (cases tf) (auto intro: exI [of _ 60] exI [of _ 300] exI [of _ 900] exI [of _ 3600] exI [of _ 14400] exI [of _ 86400])

lemma interval_pos [simp]: "0 < interval_of tf"
  using interval_seconds [of tf] by auto

lemma aligned_whole:
  assumes "0 \<le> s" and "s \<le> 2 ^ 33"
  shows "is_timeframe_aligned (s * 1000000) tf \<longleftrightarrow> interval_of tf dvd s * 1000000"
proof -
  obtain i where i: "interval_of tf = i * 1000000" "60 \<le> i" "i \<le> 86400" using interval_seconds by blast
  then have "seconds_times_million (interval_of tf) = interval_of tf"
    using seconds_times_million_whole [of i] by simp
  then show ?thesis
    using seconds_times_million_whole [OF assms] by (simp add: is_timeframe_aligned_def dvd_eq_mod_eq_0)
qed

section \<open>Properties\<close>

definition event_types_distinct :: "outcome \<Rightarrow> bool" where
  "event_types_distinct oc \<longleftrightarrow> distinct (map le_type (oc_events oc))"

lemma event_path_types: "event_path p s es q \<Longrightarrow> distinct (map le_type es) \<and> (\<forall>e \<in> set es. Some (le_signal e) = s)
    \<and> (\<forall>e \<in> set es. le_type e = EVENT_ENTRY \<longrightarrow> le_position e \<noteq> POS_FLAT)"
  by (induction rule: event_path.induct) auto

lemma evaluate_moves:
  assumes "evaluate_live_candle d c p prev can_open = Inr oc" and "oc_after oc \<noteq> p"
  shows "\<exists>s \<in> set (cd_signals d). oc_signal oc = Some (sg_id s) \<and> matches_threshold (sg_definition s) (lv_close c) = Inr True
    \<and> (sg_role s = ROLE_EXIT \<and> oc_after oc = POS_FLAT
       \<or> sg_role s = ROLE_ENTRY \<and> position_from_direction (sg_direction s) = Inr (oc_after oc)
          \<and> (p = POS_FLAT \<and> can_open \<or> pr_allow_reversal (cd_position d)))"
proof -
  have "oc_status oc = EVALUATED" using evaluate_ok [OF assms(1)] assms(2) by (auto simp: outcome_ok_def)
  from evaluate_EVALUATED(1) [OF assms(1) this] have ev: "evaluate_signals d c p can_open = Inr oc" .
  then obtain s events q where s: "matching_signal (cd_signals d) (lv_close c) = Inr (Some s)"
      "apply_signal (pr_allow_reversal (cd_position d)) can_open p s = Inr (events, q)"
      "oc_after oc = q" "oc_signal oc = Some (sg_id s)"
    using assms(2) by (auto simp: evaluate_signals_def failed_outcome_def split: sum.splits py_exn.splits option.splits)
  show ?thesis
    using matching_signal_Some [OF s(1)] apply_signal_moves [OF s(2)] s(3,4) assms(2) by auto
qed

text \<open>
  C29: An evaluation outcome is well formed.  Its events are a path of the position from before to
  after under one signal, with at most one event of a type; a status other than \<open>evaluated\<close> moves
  nothing and emits nothing; error code and message come together and exactly with gap, invalid
  and error.  An evaluated candle is an aligned candle of the universe at most one interval after
  the previous one, and a move is caused by a matching signal: an exit, or an entry in its
  direction from an admitted flat position or by a reversal.
\<close>

theorem live_evaluation_well_formed:
  assumes "evaluate_live_candle d c p prev can_open = Inr oc"
  shows "outcome_ok p oc \<and> event_types_distinct oc
    \<and> (oc_status oc = EVALUATED \<longrightarrow>
         lv_asset c \<in> set (map in_asset (cd_universe d)) \<and> is_timeframe_aligned (lv_time c) (cd_timeframe d)
         \<and> (\<forall>t \<in> set_option prev. t < lv_time c \<and> lv_time c \<le> t + interval_of (cd_timeframe d)))
    \<and> (oc_after oc \<noteq> p \<longrightarrow>
         (\<exists>s \<in> set (cd_signals d). oc_signal oc = Some (sg_id s) \<and> matches_threshold (sg_definition s) (lv_close c) = Inr True
            \<and> (sg_role s = ROLE_EXIT \<and> oc_after oc = POS_FLAT
               \<or> sg_role s = ROLE_ENTRY \<and> position_from_direction (sg_direction s) = Inr (oc_after oc)
                  \<and> (p = POS_FLAT \<and> can_open \<or> pr_allow_reversal (cd_position d)))))"
proof -
  have ok: "outcome_ok p oc" by (rule evaluate_ok [OF assms])
  then have "event_types_distinct oc" using event_path_types by (auto simp: event_types_distinct_def outcome_ok_def)
  then show ?thesis
    using ok evaluate_EVALUATED(2,3,4) [OF assms] evaluate_moves [OF assms] by blast
qed

lemma validate_thresholds_None:
  "validate_thresholds ss = None \<longleftrightarrow> (\<forall>s \<in> set ss. \<exists>x. threshold_condition (sg_definition s) = Inr x)"
  by (induction ss) (auto split: sum.splits)

lemma matching_signal_total:
  "validate_thresholds ss = None \<Longrightarrow> \<exists>r. matching_signal ss close = Inr r"
  by (induction ss) (auto simp: matches_threshold_def split: sum.splits bool.splits)

lemma apply_signal_total: "validate_role_direction s \<Longrightarrow> \<exists>r. apply_signal allow can_open p s = Inr r"
  by (cases "sg_role s"; cases "sg_direction s") (auto simp: apply_signal_def validate_role_direction_def Let_def)

text \<open>
  C26: A definition that passed the activation check never makes the evaluator raise, and its
  outcome is invalid only for a candle outside the universe or off the bucket.
\<close>

theorem validated_definition_never_raises:
  assumes "validate_live_definition d cfg = None" and "\<forall>s \<in> set (cd_signals d). validate_role_direction s"
  shows "\<exists>oc. evaluate_live_candle d c p prev can_open = Inr oc \<and> oc_status oc \<noteq> EVAL_ERROR
    \<and> (oc_status oc = EVAL_INVALID \<longleftrightarrow>
         lv_asset c \<notin> set (map in_asset (cd_universe d)) \<or> \<not> is_timeframe_aligned (lv_time c) (cd_timeframe d))"
proof -
  have v: "validate_thresholds (cd_signals d) = None"
    using assms(1) by (simp add: validate_live_definition_def split: if_splits)
  obtain m where m: "matching_signal (cd_signals d) (lv_close c) = Inr m" using matching_signal_total [OF v] by blast
  have "\<exists>oc. evaluate_signals d c p can_open = Inr oc \<and> oc_status oc = EVALUATED"
  proof (cases m)
    case None
    then show ?thesis using m by (simp add: evaluate_signals_def)
  next
    case (Some s)
    then have "validate_role_direction s" using matching_signal_Some m assms(2) by auto
    then obtain r where "apply_signal (pr_allow_reversal (cd_position d)) can_open p s = Inr r"
      using apply_signal_total by blast
    then show ?thesis using m Some by (cases r) (simp add: evaluate_signals_def)
  qed
  then show ?thesis
    by (auto simp: evaluate_live_candle_def failed_outcome_def split: option.splits)
qed

text \<open>
  The position limit does not bind a strategy that allows reversals: with a matching entry
  signal, a flat position whose entry is not admitted is \<open>reversed\<close>, an exit from a position that
  does not exist followed by the entry.
\<close>

theorem reversal_ignores_position_limit:
  assumes "matching_signal (cd_signals d) (lv_close c) = Inr (Some s)" and "sg_role s = ROLE_ENTRY"
    and "position_from_direction (sg_direction s) = Inr q" and "pr_allow_reversal (cd_position d)"
    and "lv_asset c \<in> set (map in_asset (cd_universe d))" and "is_timeframe_aligned (lv_time c) (cd_timeframe d)"
  shows "\<exists>oc. evaluate_live_candle d c POS_FLAT None False = Inr oc \<and> oc_after oc = q
    \<and> map le_type (oc_events oc) = [EVENT_SIGNAL, EVENT_EXIT, EVENT_ENTRY]"
  using assms position_from_direction_Inr [OF assms(3)]
  by (auto simp: evaluate_live_candle_def evaluate_signals_def apply_signal_def Let_def)

section \<open>Witnesses\<close>

definition live_signal :: signal_definition where
  "live_signal = \<lparr>sg_id = ''up'', sg_role = ROLE_ENTRY, sg_direction = DIR_LONG, sg_priority = 1,
     sg_definition = [(''kind'', PStr ''close_threshold''), (''operator'', PStr ''gt''), (''threshold'', PInt 10)]\<rparr>"

definition live_definition :: canonical_definition where
  "live_definition = sample_canonical\<lparr>cd_signals := [live_signal],
     cd_position := (cd_position sample_canonical)\<lparr>pr_allow_reversal := True\<rparr>\<rparr>"

definition live_config :: live_configuration where
  "live_config = \<lparr>lc_evaluator = ''threshold-v1'', lc_revision = ''1'', lc_max_candles = 10, lc_runtime = []\<rparr>"

definition candle_at :: "usec \<Rightarrow> live_candle" where
  "candle_at t = \<lparr>lv_asset = 3, lv_time = t, lv_open = Fin 11, lv_high = Fin 12, lv_low = Fin 9, lv_close = Fin 11, lv_volume = Fin 1\<rparr>"

lemma live_condition: "threshold_condition (sg_definition live_signal) = Inr (''gt'', Fin 10)"
proof -
  have "fl (of_int 10) = Fin (of_int 10)" by (rule fl_int) simp_all
  then have "float_of_int 10 = Inr (Fin 10)" by (simp add: float_of_int_def)
  moreover have "fst ` set (sg_definition live_signal) = {''kind'', ''operator'', ''threshold''}"
    by (simp add: live_signal_def)
  ultimately show ?thesis
    by (simp add: threshold_condition_def) (simp add: live_signal_def numeric_threshold_def)
qed

lemma live_matches: "matching_signal (cd_signals live_definition) (Fin 11) = Inr (Some live_signal)"
  by (simp add: live_definition_def matches_threshold_def live_condition)

lemma live_validated: "validate_live_definition live_definition live_config = None"
proof -
  have "cd_signals live_definition = [live_signal]" by (simp add: live_definition_def)
  then have "validate_thresholds (cd_signals live_definition) = None" by (simp add: live_condition)
  then show ?thesis
    by (simp add: validate_live_definition_def)
      (simp add: live_config_def live_definition_def sample_canonical_def sample_input_def timeframe_intervals_def)
qed

lemma live_facts:
  "\<forall>s \<in> set (cd_signals live_definition). validate_role_direction s"
  "sg_role live_signal = ROLE_ENTRY" "position_from_direction (sg_direction live_signal) = Inr POS_LONG"
  "pr_allow_reversal (cd_position live_definition)"
  "lv_asset (candle_at t) \<in> set (map in_asset (cd_universe live_definition))"
  "lv_close (candle_at t) = Fin 11" "lv_time (candle_at t) = t" "cd_timeframe live_definition = ONE_HOUR"
  by (simp_all add: live_definition_def sample_canonical_def sample_input_def validate_role_direction_def
      live_signal_def candle_at_def sample_asset_def)

lemma aligned_0: "is_timeframe_aligned 0 ONE_HOUR"
  using aligned_whole [of 0 ONE_HOUR] by simp

lemma reversal_ignores_position_limit_witness:
  "\<exists>oc. evaluate_live_candle live_definition (candle_at 0) POS_FLAT None False = Inr oc \<and> oc_after oc = POS_LONG
    \<and> map le_type (oc_events oc) = [EVENT_SIGNAL, EVENT_EXIT, EVENT_ENTRY]"
  by (rule reversal_ignores_position_limit [of live_definition "candle_at 0" live_signal])
    (use live_facts(5) [of 0] in \<open>simp_all add: live_facts live_matches aligned_0 del: set_map\<close>)

lemma validated_definition_never_raises_witness:
  "\<exists>oc. evaluate_live_candle live_definition (candle_at 5) POS_LONG (Some 0) True = Inr oc \<and> oc_status oc \<noteq> EVAL_ERROR"
  using validated_definition_never_raises [OF live_validated live_facts(1), of "candle_at 5" POS_LONG "Some 0" True] by blast

lemma live_evaluation_well_formed_witness:
  "\<exists>oc. evaluate_live_candle live_definition (candle_at 0) POS_FLAT None True = Inr oc \<and> outcome_ok POS_FLAT oc"
proof -
  have "\<exists>oc. evaluate_live_candle live_definition (candle_at 0) POS_FLAT None True = Inr oc"
    using live_facts(5) [of 0]
    by (simp add: evaluate_live_candle_def evaluate_signals_def live_facts live_matches aligned_0 apply_signal_def Let_def)
  then show ?thesis using live_evaluation_well_formed [of live_definition "candle_at 0" POS_FLAT None True] by blast
qed

end
