(* ===== verification/Divergence.thy ===== *)
theory Divergence
  imports Forensic_Text Live_Contracts "HOL-Library.AList" "HOL-Library.Option_ord"
begin

text \<open>
  \<open>app/divergence/contracts.py\<close>: the pure comparison of reference evidence with live evidence.
  Points are what the pydantic models store: times in UTC, decimals normalised.  The text pydantic
  gives a time in \<open>model_dump(mode="json")\<close> is the parameter \<open>tt\<close>.
\<close>

section \<open>Enumerations\<close>

datatype comparison_status = CMP_HEALTHY | CMP_DIVERGENT | CMP_INSUFFICIENT_REFERENCE
datatype divergence_severity = SEV_INFO | SEV_WARNING | SEV_CRITICAL
datatype resolution_status = RES_OPEN | RES_ACKNOWLEDGED | RES_RESOLVED | RES_NOT_APPLICABLE

datatype divergence_type =
    INSUFFICIENT_REFERENCE_DATA | STRATEGY_VERSION_MISMATCH | CONFIGURATION_MISMATCH | EVALUATOR_FAILURE
  | MISSING_SIGNAL | UNEXPECTED_SIGNAL | SIGNAL_TIMING_DIFFERENCE
  | MARKET_DATA_MISSING_CANDLE | MARKET_DATA_CORRECTED_CANDLE | MARKET_DATA_TIMESTAMP_MISMATCH
  | MARKET_DATA_OHLC_DISCREPANCY | MARKET_DATA_VOLUME_DISCREPANCY
  | MISSING_EXPECTED_ENTRY | MISSING_EXPECTED_EXIT | UNEXPECTED_ENTRY | UNEXPECTED_EXIT
  | EXECUTION_DELAY | EXECUTION_SLIPPAGE | FEE_DIFFERENCE
  | POSITION_MISMATCH | EXPOSURE_MISMATCH | UNEXPECTED_POSITION_PERSISTENCE
  | RETURN_DIFFERENCE | DRAWDOWN_DIFFERENCE | VOLATILITY_DIFFERENCE | TRADE_FREQUENCY_DIFFERENCE
  | WIN_RATE_DIFFERENCE | BENCHMARK_RELATIVE_DIFFERENCE

fun comparison_status_value :: "comparison_status \<Rightarrow> string" where
  "comparison_status_value CMP_HEALTHY = ''healthy''"
| "comparison_status_value CMP_DIVERGENT = ''divergent''"
| "comparison_status_value CMP_INSUFFICIENT_REFERENCE = ''insufficient_reference''"

fun severity_value :: "divergence_severity \<Rightarrow> string" where
  "severity_value SEV_INFO = ''info''" | "severity_value SEV_WARNING = ''warning''" | "severity_value SEV_CRITICAL = ''critical''"

fun resolution_value :: "resolution_status \<Rightarrow> string" where
  "resolution_value RES_OPEN = ''open''" | "resolution_value RES_ACKNOWLEDGED = ''acknowledged''"
| "resolution_value RES_RESOLVED = ''resolved''" | "resolution_value RES_NOT_APPLICABLE = ''not_applicable''"

fun divergence_value :: "divergence_type \<Rightarrow> string" where
  "divergence_value INSUFFICIENT_REFERENCE_DATA = ''insufficient_reference_data''"
| "divergence_value STRATEGY_VERSION_MISMATCH = ''strategy_version_mismatch''"
| "divergence_value CONFIGURATION_MISMATCH = ''configuration_mismatch''"
| "divergence_value EVALUATOR_FAILURE = ''evaluator_failure''"
| "divergence_value MISSING_SIGNAL = ''missing_signal''"
| "divergence_value UNEXPECTED_SIGNAL = ''unexpected_signal''"
| "divergence_value SIGNAL_TIMING_DIFFERENCE = ''signal_timing_difference''"
| "divergence_value MARKET_DATA_MISSING_CANDLE = ''market_data_missing_candle''"
| "divergence_value MARKET_DATA_CORRECTED_CANDLE = ''market_data_corrected_candle''"
| "divergence_value MARKET_DATA_TIMESTAMP_MISMATCH = ''market_data_timestamp_mismatch''"
| "divergence_value MARKET_DATA_OHLC_DISCREPANCY = ''market_data_ohlc_discrepancy''"
| "divergence_value MARKET_DATA_VOLUME_DISCREPANCY = ''market_data_volume_discrepancy''"
| "divergence_value MISSING_EXPECTED_ENTRY = ''missing_expected_entry''"
| "divergence_value MISSING_EXPECTED_EXIT = ''missing_expected_exit''"
| "divergence_value UNEXPECTED_ENTRY = ''unexpected_entry''"
| "divergence_value UNEXPECTED_EXIT = ''unexpected_exit''"
| "divergence_value EXECUTION_DELAY = ''execution_delay''"
| "divergence_value EXECUTION_SLIPPAGE = ''execution_slippage''"
| "divergence_value FEE_DIFFERENCE = ''fee_difference''"
| "divergence_value POSITION_MISMATCH = ''position_mismatch''"
| "divergence_value EXPOSURE_MISMATCH = ''exposure_mismatch''"
| "divergence_value UNEXPECTED_POSITION_PERSISTENCE = ''unexpected_position_persistence''"
| "divergence_value RETURN_DIFFERENCE = ''return_difference''"
| "divergence_value DRAWDOWN_DIFFERENCE = ''drawdown_difference''"
| "divergence_value VOLATILITY_DIFFERENCE = ''volatility_difference''"
| "divergence_value TRADE_FREQUENCY_DIFFERENCE = ''trade_frequency_difference''"
| "divergence_value WIN_RATE_DIFFERENCE = ''win_rate_difference''"
| "divergence_value BENCHMARK_RELATIVE_DIFFERENCE = ''benchmark_relative_difference''"

fun position_value :: "position_state \<Rightarrow> string" where
  "position_value POS_FLAT = ''flat''" | "position_value POS_LONG = ''long''" | "position_value POS_SHORT = ''short''"

fun event_value :: "strategy_event_type \<Rightarrow> string" where
  "event_value EVENT_SIGNAL = ''signal''" | "event_value EVENT_ENTRY = ''entry''"
| "event_value EVENT_EXIT = ''exit''" | "event_value EVENT_POSITION = ''position''"

section \<open>The policy\<close>

text \<open>\<open>_utc\<close> and \<open>_decimal\<close>.\<close>

definition utc_checked :: "pydatetime \<Rightarrow> py_exn + usec" where
  "utc_checked t = (if is_aware t then Inr (utc t) else Inl validation_error)"

definition div_decimal :: "decimal \<Rightarrow> decimal" where
  "div_decimal d = (if dec_coeff d \<noteq> 0 then dec_normalize d else Dec 0 0)"

record version_identity =
  vi_strategy :: int
  vi_version :: int
  vi_number :: int
  vi_hash :: string

definition identity_dump :: "version_identity \<Rightarrow> pyval" where
  "identity_dump i =
     PDict [(''strategy_id'', PStr (uuid_text (vi_strategy i))), (''strategy_version_id'', PStr (uuid_text (vi_version i))),
            (''strategy_version_number'', PInt (vi_number i)), (''strategy_definition_hash'', PStr (vi_hash i))]"

record comparison_policy =
  cy_id :: string
  cy_revision :: string
  cy_signal_timing :: int
  cy_market_timestamp :: int
  cy_ohlc_bps :: decimal
  cy_volume :: decimal
  cy_execution_delay :: int
  cy_execution_price_bps :: decimal
  cy_fee :: decimal
  cy_slippage :: decimal
  cy_exposure :: decimal
  cy_return :: decimal
  cy_drawdown :: decimal
  cy_volatility :: decimal
  cy_trade_count :: int
  cy_win_rate :: decimal
  cy_benchmark :: decimal
  cy_default_severity :: divergence_severity
  cy_critical :: "divergence_type list"

definition dec_nonneg :: "decimal \<Rightarrow> bool" where
  "dec_nonneg d \<longleftrightarrow> 0 \<le> dec_coeff d"

definition dec_unit :: "decimal \<Rightarrow> bool" where
  "dec_unit d \<longleftrightarrow> dec_nonneg d \<and> dec_le d (Dec 1 0)"

definition make_comparison_policy :: "comparison_policy \<Rightarrow> py_exn + comparison_policy" where
  "make_comparison_policy y =
     (let i = py_strip (cy_id y); r = py_strip (cy_revision y)
      in if length_within 1 128 (cy_id y) \<and> length_within 1 128 (cy_revision y) \<and> i \<noteq> [] \<and> r \<noteq> []
            \<and> 0 \<le> cy_signal_timing y \<and> 0 \<le> cy_market_timestamp y \<and> 0 \<le> cy_execution_delay y \<and> 0 \<le> cy_trade_count y
            \<and> list_all dec_nonneg [cy_ohlc_bps y, cy_volume y, cy_execution_price_bps y, cy_fee y, cy_slippage y,
                 cy_return y, cy_drawdown y, cy_volatility y, cy_benchmark y]
            \<and> dec_unit (cy_exposure y) \<and> dec_unit (cy_win_rate y)
         then Inr (y\<lparr>cy_id := i, cy_revision := r, cy_ohlc_bps := div_decimal (cy_ohlc_bps y),
              cy_volume := div_decimal (cy_volume y), cy_execution_price_bps := div_decimal (cy_execution_price_bps y),
              cy_fee := div_decimal (cy_fee y), cy_slippage := div_decimal (cy_slippage y),
              cy_exposure := div_decimal (cy_exposure y), cy_return := div_decimal (cy_return y),
              cy_drawdown := div_decimal (cy_drawdown y), cy_volatility := div_decimal (cy_volatility y),
              cy_win_rate := div_decimal (cy_win_rate y), cy_benchmark := div_decimal (cy_benchmark y)\<rparr>)
         else Inl validation_error)"

abbreviation PDec :: "decimal \<Rightarrow> pyval" where "PDec d \<equiv> PStr (dec_str d)"

definition comparison_policy_dump :: "comparison_policy \<Rightarrow> pyval" where
  "comparison_policy_dump y =
     PDict [(''schema_version'', PStr ''1''), (''policy_id'', PStr (cy_id y)), (''revision'', PStr (cy_revision y)),
       (''signal_timing_tolerance_seconds'', PInt (cy_signal_timing y)),
       (''market_timestamp_tolerance_seconds'', PInt (cy_market_timestamp y)),
       (''ohlc_tolerance_bps'', PDec (cy_ohlc_bps y)), (''volume_tolerance'', PDec (cy_volume y)),
       (''execution_delay_tolerance_seconds'', PInt (cy_execution_delay y)),
       (''execution_price_tolerance_bps'', PDec (cy_execution_price_bps y)), (''fee_tolerance'', PDec (cy_fee y)),
       (''slippage_tolerance'', PDec (cy_slippage y)), (''exposure_tolerance'', PDec (cy_exposure y)),
       (''return_tolerance'', PDec (cy_return y)), (''drawdown_tolerance'', PDec (cy_drawdown y)),
       (''volatility_tolerance'', PDec (cy_volatility y)), (''trade_count_tolerance'', PInt (cy_trade_count y)),
       (''win_rate_tolerance'', PDec (cy_win_rate y)), (''benchmark_relative_tolerance'', PDec (cy_benchmark y)),
       (''default_severity'', PStr (severity_value (cy_default_severity y))),
       (''critical_types'', PList (map (PStr \<circ> divergence_value) (cy_critical y)))]"

definition comparison_policy_hash :: "comparison_policy \<Rightarrow> string" where
  "comparison_policy_hash y = hash_payload (comparison_policy_dump y)"

definition policy_severity :: "comparison_policy \<Rightarrow> divergence_type \<Rightarrow> divergence_severity" where
  "policy_severity y d = (if d \<in> set (cy_critical y) then SEV_CRITICAL else cy_default_severity y)"

section \<open>Points\<close>

record signal_point =
  sp_asset :: int
  sp_event :: strategy_event_type
  sp_time :: usec
  sp_signal :: "string option"
  sp_position :: "position_state option"
  sp_source :: "string option"

definition short_text :: "nat \<Rightarrow> string option \<Rightarrow> bool" where
  "short_text n s \<longleftrightarrow> (\<forall>t \<in> set_option s. length t \<le> n)"

definition make_signal_point :: "pydatetime \<Rightarrow> signal_point \<Rightarrow> py_exn + signal_point" where
  "make_signal_point t p =
     (if 0 < sp_asset p \<and> short_text 64 (sp_signal p) \<and> short_text 128 (sp_source p)
      then map_sum id (\<lambda>u. p\<lparr>sp_time := u\<rparr>) (utc_checked t) else Inl validation_error)"

record candle_point =
  cp_asset :: int
  cp_time :: usec
  cp_open :: decimal
  cp_high :: decimal
  cp_low :: decimal
  cp_close :: decimal
  cp_volume :: decimal
  cp_revision :: "string option"

definition candle_point_ohlc :: "candle_point \<Rightarrow> bool" where
  "candle_point_ohlc p \<longleftrightarrow> dec_le (cp_low p) (cp_open p) \<and> dec_le (cp_open p) (cp_high p)
     \<and> dec_le (cp_low p) (cp_close p) \<and> dec_le (cp_close p) (cp_high p)"

definition make_candle_point :: "pydatetime \<Rightarrow> candle_point \<Rightarrow> py_exn + candle_point" where
  "make_candle_point t p =
     (let q = p\<lparr>cp_open := div_decimal (cp_open p), cp_high := div_decimal (cp_high p), cp_low := div_decimal (cp_low p),
                cp_close := div_decimal (cp_close p), cp_volume := div_decimal (cp_volume p)\<rparr>
      in if 0 < cp_asset p \<and> short_text 256 (cp_revision p) \<and> dec_nonneg (cp_volume p)
            \<and> list_all (\<lambda>d. 0 < dec_coeff d) [cp_open p, cp_high p, cp_low p, cp_close p] \<and> candle_point_ohlc q
         then map_sum id (\<lambda>u. q\<lparr>cp_time := u\<rparr>) (utc_checked t) else Inl validation_error)"

record execution_point =
  xp_asset :: int
  xp_side :: signal_role
  xp_direction :: signal_direction
  xp_time :: usec
  xp_price :: decimal
  xp_quantity :: decimal
  xp_fees :: "decimal option"
  xp_slippage :: "decimal option"
  xp_signal :: "string option"
  xp_source :: "string option"

definition make_execution_point :: "pydatetime \<Rightarrow> execution_point \<Rightarrow> py_exn + execution_point" where
  "make_execution_point t p =
     (if 0 < xp_asset p \<and> xp_direction p \<noteq> DIR_FLAT \<and> 0 < dec_coeff (xp_price p) \<and> 0 < dec_coeff (xp_quantity p)
         \<and> (\<forall>d \<in> set_option (xp_fees p) \<union> set_option (xp_slippage p). dec_nonneg d)
         \<and> short_text 64 (xp_signal p) \<and> short_text 128 (xp_source p)
      then map_sum id (\<lambda>u. p\<lparr>xp_time := u, xp_price := div_decimal (xp_price p), xp_quantity := div_decimal (xp_quantity p),
             xp_fees := map_option div_decimal (xp_fees p), xp_slippage := map_option div_decimal (xp_slippage p)\<rparr>)
           (utc_checked t)
      else Inl validation_error)"

record position_point =
  pp_asset :: int
  pp_time :: usec
  pp_state :: position_state
  pp_exposure :: "decimal option"

definition make_position_point :: "pydatetime \<Rightarrow> position_point \<Rightarrow> py_exn + position_point" where
  "make_position_point t p =
     (if 0 < pp_asset p \<and> (\<forall>d \<in> set_option (pp_exposure p). dec_unit d)
      then map_sum id (\<lambda>u. p\<lparr>pp_time := u, pp_exposure := map_option div_decimal (pp_exposure p)\<rparr>) (utc_checked t)
      else Inl validation_error)"

record performance_point =
  pf_return :: "decimal option"
  pf_drawdown :: "decimal option"
  pf_volatility :: "decimal option"
  pf_trades :: "int option"
  pf_winning :: "int option"
  pf_benchmark :: "decimal option"

definition make_performance_point :: "performance_point \<Rightarrow> py_exn + performance_point" where
  "make_performance_point p =
     (if (\<forall>d \<in> set_option (pf_drawdown p) \<union> set_option (pf_volatility p). dec_nonneg d)
         \<and> (\<forall>n \<in> set_option (pf_trades p) \<union> set_option (pf_winning p). 0 \<le> n)
         \<and> (\<forall>w \<in> set_option (pf_winning p). \<forall>n \<in> set_option (pf_trades p). w \<le> n)
      then Inr (p\<lparr>pf_return := map_option div_decimal (pf_return p), pf_drawdown := map_option div_decimal (pf_drawdown p),
             pf_volatility := map_option div_decimal (pf_volatility p), pf_benchmark := map_option div_decimal (pf_benchmark p)\<rparr>)
      else Inl validation_error)"

record data_issue =
  di_type :: divergence_type
  di_time :: usec
  di_asset :: "int option"
  di_observed :: json_dict
  di_explanation :: string

definition make_data_issue :: "pydatetime \<Rightarrow> data_issue \<Rightarrow> py_exn + data_issue" where
  "make_data_issue t i =
     (if di_type i \<in> {MARKET_DATA_MISSING_CANDLE, MARKET_DATA_CORRECTED_CANDLE, MARKET_DATA_TIMESTAMP_MISMATCH, EVALUATOR_FAILURE}
         \<and> (\<forall>a \<in> set_option (di_asset i). 0 < a) \<and> length_within 1 2000 (di_explanation i)
      then case (utc_checked t, canonical_dict (di_observed i)) of
             (Inr u, Inr d) \<Rightarrow> Inr (i\<lparr>di_time := u, di_observed := d\<rparr>)
           | _ \<Rightarrow> Inl validation_error
      else Inl validation_error)"

text \<open>\<open>model_dump(mode="json")\<close> of the points.\<close>

definition signal_dump :: "(usec \<Rightarrow> string) \<Rightarrow> signal_point \<Rightarrow> pyval" where
  "signal_dump tt p =
     PDict [(''asset_id'', PInt (sp_asset p)), (''event_type'', PStr (event_value (sp_event p))),
            (''event_time'', PStr (tt (sp_time p))), (''signal_id'', opt_value PStr (sp_signal p)),
            (''position_state'', opt_value (PStr \<circ> position_value) (sp_position p)), (''source_id'', opt_value PStr (sp_source p))]"

definition candle_dump :: "(usec \<Rightarrow> string) \<Rightarrow> candle_point \<Rightarrow> pyval" where
  "candle_dump tt p =
     PDict [(''asset_id'', PInt (cp_asset p)), (''timestamp'', PStr (tt (cp_time p))), (''open'', PDec (cp_open p)),
            (''high'', PDec (cp_high p)), (''low'', PDec (cp_low p)), (''close'', PDec (cp_close p)),
            (''volume'', PDec (cp_volume p)), (''revision'', opt_value PStr (cp_revision p))]"

definition execution_dump :: "(usec \<Rightarrow> string) \<Rightarrow> execution_point \<Rightarrow> pyval" where
  "execution_dump tt p =
     PDict [(''asset_id'', PInt (xp_asset p)), (''side'', PStr (role_value (xp_side p))),
            (''direction'', PStr (direction_value (xp_direction p))), (''execution_time'', PStr (tt (xp_time p))),
            (''price'', PDec (xp_price p)), (''quantity'', PDec (xp_quantity p)), (''fees_paid'', opt_value PDec (xp_fees p)),
            (''slippage_paid'', opt_value PDec (xp_slippage p)), (''signal_id'', opt_value PStr (xp_signal p)),
            (''source_id'', opt_value PStr (xp_source p))]"

definition position_dump :: "(usec \<Rightarrow> string) \<Rightarrow> position_point \<Rightarrow> pyval" where
  "position_dump tt p =
     PDict [(''asset_id'', PInt (pp_asset p)), (''timestamp'', PStr (tt (pp_time p))),
            (''position_state'', PStr (position_value (pp_state p))), (''exposure'', opt_value PDec (pp_exposure p))]"

definition performance_dump :: "performance_point \<Rightarrow> pyval" where
  "performance_dump p =
     PDict [(''total_return'', opt_value PDec (pf_return p)), (''max_drawdown'', opt_value PDec (pf_drawdown p)),
            (''annualized_volatility'', opt_value PDec (pf_volatility p)), (''trade_count'', opt_value PInt (pf_trades p)),
            (''winning_trade_count'', opt_value PInt (pf_winning p)), (''benchmark_return'', opt_value PDec (pf_benchmark p))]"

section \<open>The input\<close>

record comparison_input =
  ci_strategy :: version_identity
  ci_reference :: version_identity
  ci_policy :: comparison_policy
  ci_start :: usec
  ci_end :: usec
  ci_reference_source :: json_dict
  ci_observed_source :: json_dict
  ci_reference_complete :: bool
  ci_observed_complete :: bool
  ci_expected_hash :: "string option"
  ci_observed_hash :: "string option"
  ci_expected_signals :: "signal_point list"
  ci_observed_signals :: "signal_point list"
  ci_expected_candles :: "candle_point list"
  ci_observed_candles :: "candle_point list"
  ci_expected_executions :: "execution_point list"
  ci_observed_executions :: "execution_point list"
  ci_expected_positions :: "position_point list"
  ci_observed_positions :: "position_point list"
  ci_expected_performance :: "performance_point option"
  ci_observed_performance :: "performance_point option"
  ci_issues :: "data_issue list"

definition MAX_COMPARISON_INPUT_POINTS :: nat where "MAX_COMPARISON_INPUT_POINTS = 10000"

definition evidence_times :: "comparison_input \<Rightarrow> usec list" where
  "evidence_times i =
     map sp_time (ci_expected_signals i) @ map sp_time (ci_observed_signals i)
     @ map cp_time (ci_expected_candles i) @ map cp_time (ci_observed_candles i)
     @ map xp_time (ci_expected_executions i) @ map xp_time (ci_observed_executions i)
     @ map pp_time (ci_expected_positions i) @ map pp_time (ci_observed_positions i)
     @ map di_time (ci_issues i)"

definition sha256_pattern_opt :: "string option \<Rightarrow> bool" where
  "sha256_pattern_opt h \<longleftrightarrow> (\<forall>s \<in> set_option h. sha256_pattern s)"

definition make_comparison_input :: "pydatetime \<Rightarrow> pydatetime \<Rightarrow> comparison_input \<Rightarrow> py_exn + comparison_input" where
  "make_comparison_input start stop i =
     (case (utc_checked start, utc_checked stop, canonical_dict (ci_reference_source i), canonical_dict (ci_observed_source i)) of
        (Inr a, Inr b, Inr r, Inr ob) \<Rightarrow>
          if sha256_pattern_opt (ci_expected_hash i) \<and> sha256_pattern_opt (ci_observed_hash i) \<and> a < b
             \<and> length (evidence_times i) \<le> MAX_COMPARISON_INPUT_POINTS
             \<and> list_all (\<lambda>t. a \<le> t \<and> t \<le> b) (evidence_times i)
          then Inr (i\<lparr>ci_start := a, ci_end := b, ci_reference_source := r, ci_observed_source := ob\<rparr>)
          else Inl validation_error
      | _ \<Rightarrow> Inl validation_error)"

section \<open>Findings\<close>

record divergence_finding =
  df_strategy :: version_identity
  df_type :: divergence_type
  df_severity :: divergence_severity
  df_time :: "usec option"
  df_start :: usec
  df_end :: usec
  df_expected :: pyval
  df_observed :: pyval
  df_source :: pyval
  df_category :: string
  df_explanation :: string
  df_resolution :: resolution_status

definition finding ::
  "comparison_input \<Rightarrow> divergence_type \<Rightarrow> usec option \<Rightarrow> pyval \<Rightarrow> pyval \<Rightarrow> string \<Rightarrow> string \<Rightarrow> divergence_finding" where
  "finding i d t expected observed category explanation =
     \<lparr>df_strategy = ci_strategy i, df_type = d, df_severity = policy_severity (ci_policy i) d, df_time = t,
      df_start = ci_start i, df_end = ci_end i, df_expected = sorted_value expected, df_observed = sorted_value observed,
      df_source = sorted_value (PDict [(''reference'', PDict (ci_reference_source i)), (''observed'', PDict (ci_observed_source i))]),
      df_category = category, df_explanation = explanation, df_resolution = RES_OPEN\<rparr>"

definition fingerprint_payload :: "(usec \<Rightarrow> string) \<Rightarrow> divergence_finding \<Rightarrow> pyval" where
  "fingerprint_payload tt f =
     PDict [(''strategy'', identity_dump (df_strategy f)), (''divergence_type'', PStr (divergence_value (df_type f))),
       (''timestamp'', opt_value (PStr \<circ> tt) (df_time f)), (''window_start'', PStr (tt (df_start f))),
       (''window_end'', PStr (tt (df_end f))), (''expected_value'', df_expected f), (''observed_value'', df_observed f),
       (''source_reference'', df_source f), (''category'', PStr (df_category f)), (''explanation'', PStr (df_explanation f))]"

definition fingerprint :: "(usec \<Rightarrow> string) \<Rightarrow> divergence_finding \<Rightarrow> string" where
  "fingerprint tt f = hash_payload (fingerprint_payload tt f)"

section \<open>Pairing\<close>

text \<open>
  \<open>_pair_points\<close>: the observed points are queued by key in time order, and each expected point in
  time order takes the first of its queue.  The dictionary of queues is an association list in
  insertion order; reading a missing key of the \<open>defaultdict\<close> adds an empty queue.
\<close>

definition bucket :: "'k \<Rightarrow> ('k \<times> 'a list) list \<Rightarrow> 'a list" where
  "bucket k qs = (case map_of qs k of None \<Rightarrow> [] | Some q \<Rightarrow> q)"

definition enqueue :: "('a \<Rightarrow> 'k) \<Rightarrow> ('k \<times> 'a list) list \<Rightarrow> 'a \<Rightarrow> ('k \<times> 'a list) list" where
  "enqueue key qs p = AList.update (key p) (bucket (key p) qs @ [p]) qs"

fun take_pairs ::
  "('a \<Rightarrow> 'k) \<Rightarrow> 'a list \<Rightarrow> ('k \<times> 'a list) list \<Rightarrow> ('a \<times> 'a) list \<times> 'a list \<times> ('k \<times> 'a list) list" where
  "take_pairs key [] qs = ([], [], qs)"
| "take_pairs key (p # ps) qs =
     (case bucket (key p) qs of
        [] \<Rightarrow> (case take_pairs key ps (AList.update (key p) [] qs) of (pairs, alone, qs') \<Rightarrow> (pairs, p # alone, qs'))
      | ob # obs \<Rightarrow>
          (case take_pairs key ps (AList.update (key p) obs qs) of (pairs, alone, qs') \<Rightarrow> ((p, ob) # pairs, alone, qs')))"

definition in_order :: "('a \<Rightarrow> usec) \<Rightarrow> ('a \<Rightarrow> 'k :: linorder) \<Rightarrow> 'a list \<Rightarrow> 'a list" where
  "in_order time key ps = sort_key (\<lambda>p. (time p, key p)) ps"

definition pair_points ::
  "('a \<Rightarrow> usec) \<Rightarrow> ('a \<Rightarrow> 'k :: linorder) \<Rightarrow> 'a list \<Rightarrow> 'a list \<Rightarrow> ('a \<times> 'a) list \<times> 'a list \<times> 'a list" where
  "pair_points time key expected observed =
     (case take_pairs key (in_order time key expected) (foldl (enqueue key) [] (in_order time key observed)) of
        (pairs, alone, qs) \<Rightarrow> (pairs, alone, in_order time key (concat (map snd qs))))"

text \<open>
  \<open>_point_key\<close>.  A key ends in an optional signal id.  Python orders tuples by their first unequal
  component and cannot order \<open>None\<close> and a string, so sorting raises as soon as two points agree in
  everything before the signal id and only one of them has one.
\<close>

definition signal_key_of :: "signal_point \<Rightarrow> int \<times> string \<times> string option" where
  "signal_key_of p = (sp_asset p, event_value (sp_event p), sp_signal p)"

definition candle_key_of :: "candle_point \<Rightarrow> int" where
  "candle_key_of p = cp_asset p"

definition execution_key_of :: "execution_point \<Rightarrow> int \<times> string \<times> string \<times> string option" where
  "execution_key_of p = (xp_asset p, role_value (xp_side p), direction_value (xp_direction p), xp_signal p)"

definition position_key_of :: "position_point \<Rightarrow> int" where
  "position_key_of p = pp_asset p"

definition unorderable :: "('a \<Rightarrow> 'b) \<Rightarrow> ('a \<Rightarrow> string option) \<Rightarrow> 'a list \<Rightarrow> bool" where
  "unorderable prefix sid ps \<longleftrightarrow>
     list_ex (\<lambda>p. list_ex (\<lambda>q. prefix p = prefix q \<and> sid p = None \<and> sid q \<noteq> None) ps) ps"

definition signals_unorderable :: "signal_point list \<Rightarrow> bool" where
  "signals_unorderable = unorderable (\<lambda>p. (sp_time p, sp_asset p, sp_event p)) sp_signal"

definition executions_unorderable :: "execution_point list \<Rightarrow> bool" where
  "executions_unorderable = unorderable (\<lambda>p. (xp_time p, xp_asset p, xp_side p, xp_direction p)) xp_signal"

abbreviation order_error :: py_exn where
  "order_error \<equiv> TypeError ''not supported between instances of NoneType and str''"

section \<open>The comparison\<close>

text \<open>\<open>abs((a - b).total_seconds())\<close>: a double.\<close>

definition seconds_apart :: "usec \<Rightarrow> usec \<Rightarrow> pyfloat" where
  "seconds_apart a b = fl (of_int \<bar>a - b\<bar> / 1000000)"

definition later_than :: "usec \<Rightarrow> usec \<Rightarrow> int \<Rightarrow> bool" where
  "later_than a b tolerance = f_lt (Fin (of_int tolerance)) (seconds_apart a b)"

text \<open>\<open>_bps_difference\<close>; \<open>None\<close> is the decimal infinity.\<close>

definition bps_difference :: "decimal \<Rightarrow> decimal \<Rightarrow> decimal option" where
  "bps_difference expected observed =
     (if dec_coeff expected = 0 then (if dec_coeff observed \<noteq> 0 then None else Some (Dec 0 0))
      else Some (dec_mul (dec_div (dec_abs (dec_sub observed expected)) (dec_abs expected)) (Dec 10000 0)))"

definition exceeds :: "decimal option \<Rightarrow> decimal \<Rightarrow> bool" where
  "exceeds d tolerance = (case d of None \<Rightarrow> True | Some x \<Rightarrow> dec_lt tolerance x)"

definition apart :: "decimal \<Rightarrow> decimal \<Rightarrow> decimal \<Rightarrow> bool" where
  "apart a b tolerance = dec_lt tolerance (dec_abs (dec_sub a b))"

definition apart_opt :: "decimal option \<Rightarrow> decimal option \<Rightarrow> decimal \<Rightarrow> bool" where
  "apart_opt a b tolerance = (case (a, b) of (Some x, Some y) \<Rightarrow> apart x y tolerance | _ \<Rightarrow> False)"

definition compare_signals :: "(usec \<Rightarrow> string) \<Rightarrow> comparison_input \<Rightarrow> py_exn + divergence_finding list" where
  "compare_signals tt i =
     (if signals_unorderable (ci_observed_signals i) \<or> signals_unorderable (ci_expected_signals i) then Inl order_error
      else case pair_points sp_time signal_key_of (ci_expected_signals i) (ci_observed_signals i) of
        (pairs, expected_only, observed_only) \<Rightarrow>
          Inr (map (\<lambda>(e, ob). finding i SIGNAL_TIMING_DIFFERENCE (Some (sp_time ob)) (signal_dump tt e) (signal_dump tt ob) ''signal''
                      ''Signal timing differs beyond the explicitly configured tolerance; no cause is inferred.'')
                 (filter (\<lambda>(e, ob). later_than (sp_time ob) (sp_time e) (cy_signal_timing (ci_policy i))) pairs)
             @ map (\<lambda>e. finding i MISSING_SIGNAL (Some (sp_time e)) (signal_dump tt e) (PDict []) ''signal''
                      ''Expected strategy event has no matching live event.'') expected_only
             @ map (\<lambda>ob. finding i UNEXPECTED_SIGNAL (Some (sp_time ob)) (PDict []) (signal_dump tt ob) ''signal''
                      ''Live strategy event has no matching reference event.'') observed_only))"

definition candle_prices :: "candle_point \<Rightarrow> decimal list" where
  "candle_prices p = [cp_open p, cp_high p, cp_low p, cp_close p]"

definition price_exceeds :: "candle_point \<Rightarrow> candle_point \<Rightarrow> decimal \<Rightarrow> bool" where
  "price_exceeds e ob tolerance =
     list_ex (\<lambda>(x, y). exceeds (bps_difference x y) tolerance) (zip (candle_prices e) (candle_prices ob))"

definition compare_candle_pair ::
  "(usec \<Rightarrow> string) \<Rightarrow> comparison_input \<Rightarrow> candle_point \<times> candle_point \<Rightarrow> divergence_finding list" where
  "compare_candle_pair tt i pair =
     (case pair of (e, ob) \<Rightarrow>
        if later_than (cp_time ob) (cp_time e) (cy_market_timestamp (ci_policy i))
        then [finding i MARKET_DATA_TIMESTAMP_MISMATCH (Some (cp_time ob)) (candle_dump tt e) (candle_dump tt ob) ''market_data''
                ''Candle timestamps differ beyond the configured tolerance; this is a data discrepancy, not causal attribution.'']
        else
          (if cp_revision e \<noteq> None \<and> cp_revision ob \<noteq> None \<and> cp_revision e \<noteq> cp_revision ob
           then [finding i MARKET_DATA_CORRECTED_CANDLE (Some (cp_time ob))
                   (PDict [(''asset_id'', PInt (cp_asset e)), (''revision'', opt_value PStr (cp_revision e))])
                   (PDict [(''asset_id'', PInt (cp_asset ob)), (''revision'', opt_value PStr (cp_revision ob))]) ''market_data''
                   ''Candle revisions differ, indicating a correction or source-version discrepancy.''] else [])
        @ (if price_exceeds e ob (cy_ohlc_bps (ci_policy i))
           then [finding i MARKET_DATA_OHLC_DISCREPANCY (Some (cp_time ob)) (candle_dump tt e) (candle_dump tt ob) ''market_data''
                   ''OHLC values differ beyond the configured tolerance; no downstream causal claim is made.''] else [])
        @ (if apart (cp_volume e) (cp_volume ob) (cy_volume (ci_policy i))
           then [finding i MARKET_DATA_VOLUME_DISCREPANCY (Some (cp_time ob))
                   (PDict [(''asset_id'', PInt (cp_asset e)), (''volume'', PDec (cp_volume e))])
                   (PDict [(''asset_id'', PInt (cp_asset ob)), (''volume'', PDec (cp_volume ob))]) ''market_data''
                   ''Volume differs beyond the configured absolute tolerance.''] else []))"

definition compare_candles :: "(usec \<Rightarrow> string) \<Rightarrow> comparison_input \<Rightarrow> divergence_finding list" where
  "compare_candles tt i =
     (case pair_points cp_time candle_key_of (ci_expected_candles i) (ci_observed_candles i) of
        (pairs, expected_only, observed_only) \<Rightarrow>
          concat (map (compare_candle_pair tt i) pairs)
          @ map (\<lambda>e. finding i MARKET_DATA_MISSING_CANDLE (Some (cp_time e)) (candle_dump tt e) (PDict []) ''market_data''
                   ''Reference candle has no observed canonical counterpart.'') expected_only
          @ map (\<lambda>ob. finding i MARKET_DATA_TIMESTAMP_MISMATCH (Some (cp_time ob)) (PDict []) (candle_dump tt ob) ''market_data''
                   ''Observed candle has no reference timestamp counterpart.'') observed_only)"

definition fee_value :: "execution_point \<Rightarrow> decimal \<Rightarrow> pyval" where
  "fee_value p fee =
     PDict [(''asset_id'', PInt (xp_asset p)), (''side'', PStr (role_value (xp_side p))),
            (''signal_id'', opt_value PStr (xp_signal p)), (''fees_paid'', PDec fee)]"

definition compare_execution_pair ::
  "(usec \<Rightarrow> string) \<Rightarrow> comparison_input \<Rightarrow> execution_point \<times> execution_point \<Rightarrow> divergence_finding list" where
  "compare_execution_pair tt i pair =
     (case pair of (e, ob) \<Rightarrow>
        (if later_than (xp_time ob) (xp_time e) (cy_execution_delay (ci_policy i))
         then [finding i EXECUTION_DELAY (Some (xp_time ob)) (execution_dump tt e) (execution_dump tt ob) ''execution''
                 ''Execution timestamps differ beyond the configured tolerance; this does not establish a cause.''] else [])
      @ (if exceeds (bps_difference (xp_price e) (xp_price ob)) (cy_execution_price_bps (ci_policy i))
            \<or> apart_opt (xp_slippage e) (xp_slippage ob) (cy_slippage (ci_policy i))
         then [finding i EXECUTION_SLIPPAGE (Some (xp_time ob)) (execution_dump tt e) (execution_dump tt ob) ''execution''
                 ''Execution price or recorded slippage differs beyond configured tolerance; this is an observed discrepancy.''] else [])
      @ (if apart_opt (xp_fees e) (xp_fees ob) (cy_fee (ci_policy i))
         then [finding i FEE_DIFFERENCE (Some (xp_time ob)) (fee_value e (the (xp_fees e))) (fee_value ob (the (xp_fees ob))) ''execution''
                 ''Recorded fees differ beyond the configured tolerance.''] else []))"

definition compare_executions :: "(usec \<Rightarrow> string) \<Rightarrow> comparison_input \<Rightarrow> py_exn + divergence_finding list" where
  "compare_executions tt i =
     (if executions_unorderable (ci_observed_executions i) \<or> executions_unorderable (ci_expected_executions i) then Inl order_error
      else case pair_points xp_time execution_key_of (ci_expected_executions i) (ci_observed_executions i) of
        (pairs, expected_only, observed_only) \<Rightarrow>
          Inr (concat (map (compare_execution_pair tt i) pairs)
             @ map (\<lambda>e. finding i (if xp_side e = ROLE_ENTRY then MISSING_EXPECTED_ENTRY else MISSING_EXPECTED_EXIT)
                      (Some (xp_time e)) (execution_dump tt e) (PDict []) ''execution''
                      ''Expected execution has no actual execution record.'') expected_only
             @ map (\<lambda>ob. finding i (if xp_side ob = ROLE_ENTRY then UNEXPECTED_ENTRY else UNEXPECTED_EXIT)
                      (Some (xp_time ob)) (PDict []) (execution_dump tt ob) ''execution''
                      ''Actual execution has no expected reference record.'') observed_only))"

definition compare_position_pair ::
  "(usec \<Rightarrow> string) \<Rightarrow> comparison_input \<Rightarrow> position_point \<times> position_point \<Rightarrow> divergence_finding list" where
  "compare_position_pair tt i pair =
     (case pair of (e, ob) \<Rightarrow>
        (if pp_state e \<noteq> pp_state ob
         then [finding i POSITION_MISMATCH (Some (pp_time ob)) (position_dump tt e) (position_dump tt ob) ''position''
                 ''Expected and observed position states differ; this is state comparison, not causal attribution.''] else [])
      @ (if apart_opt (pp_exposure e) (pp_exposure ob) (cy_exposure (ci_policy i))
         then [finding i EXPOSURE_MISMATCH (Some (pp_time ob))
                 (PDict [(''asset_id'', PInt (pp_asset e)), (''exposure'', opt_value PDec (pp_exposure e))])
                 (PDict [(''asset_id'', PInt (pp_asset ob)), (''exposure'', opt_value PDec (pp_exposure ob))]) ''position''
                 ''Position exposure differs beyond the configured tolerance.''] else []))"

definition compare_positions :: "(usec \<Rightarrow> string) \<Rightarrow> comparison_input \<Rightarrow> divergence_finding list" where
  "compare_positions tt i =
     (case pair_points pp_time position_key_of (ci_expected_positions i) (ci_observed_positions i) of
        (pairs, expected_only, observed_only) \<Rightarrow>
          concat (map (compare_position_pair tt i) pairs)
          @ map (\<lambda>e. finding i POSITION_MISMATCH (Some (pp_time e)) (position_dump tt e) (PDict []) ''position''
                   ''Expected position snapshot has no observed snapshot.'') expected_only
          @ map (\<lambda>ob. finding i UNEXPECTED_POSITION_PERSISTENCE (Some (pp_time ob)) (PDict []) (position_dump tt ob) ''position''
                   ''Observed non-flat position has no expected snapshot.'') (filter (\<lambda>ob. pp_state ob \<noteq> POS_FLAT) observed_only))"

definition metric_finding ::
  "comparison_input \<Rightarrow> string \<Rightarrow> divergence_type \<Rightarrow> decimal \<Rightarrow> decimal option \<Rightarrow> decimal option \<Rightarrow> divergence_finding list" where
  "metric_finding i field d tolerance e ob =
     (if apart_opt e ob tolerance
      then [finding i d None (PDict [(field, opt_value PDec e)]) (PDict [(field, opt_value PDec ob)]) ''performance''
              (field @ '' differs beyond the configured tolerance; this is correlation only.'')] else [])"

definition win_rate :: "performance_point \<Rightarrow> decimal option" where
  "win_rate p =
     (case (pf_winning p, pf_trades p) of
        (Some w, Some n) \<Rightarrow> if n = 0 then None else Some (dec_div (dec_of_int w) (dec_of_int n))
      | _ \<Rightarrow> None)"

definition compare_performance :: "comparison_input \<Rightarrow> divergence_finding list" where
  "compare_performance i =
     (case (ci_expected_performance i, ci_observed_performance i) of
        (None, None) \<Rightarrow> []
      | (Some e, Some ob) \<Rightarrow>
          let y = ci_policy i in
            metric_finding i ''total_return'' RETURN_DIFFERENCE (cy_return y) (pf_return e) (pf_return ob)
          @ metric_finding i ''max_drawdown'' DRAWDOWN_DIFFERENCE (cy_drawdown y) (pf_drawdown e) (pf_drawdown ob)
          @ metric_finding i ''annualized_volatility'' VOLATILITY_DIFFERENCE (cy_volatility y) (pf_volatility e) (pf_volatility ob)
          @ metric_finding i ''benchmark_return'' BENCHMARK_RELATIVE_DIFFERENCE (cy_benchmark y) (pf_benchmark e) (pf_benchmark ob)
          @ (case (pf_trades e, pf_trades ob) of
               (Some m, Some n) \<Rightarrow>
                 if cy_trade_count y < \<bar>m - n\<bar>
                 then [finding i TRADE_FREQUENCY_DIFFERENCE None (PDict [(''trade_count'', PInt m)]) (PDict [(''trade_count'', PInt n)])
                         ''performance'' ''Trade count differs beyond the configured tolerance.''] else []
             | _ \<Rightarrow> [])
          @ (if apart_opt (win_rate e) (win_rate ob) (cy_win_rate y)
             then [finding i WIN_RATE_DIFFERENCE None (PDict [(''win_rate'', opt_value PDec (win_rate e))])
                     (PDict [(''win_rate'', opt_value PDec (win_rate ob))]) ''performance''
                     ''Win rate differs beyond the configured tolerance.''] else [])
      | (e, ob) \<Rightarrow>
          [finding i INSUFFICIENT_REFERENCE_DATA None (case e of None \<Rightarrow> PDict [] | Some p \<Rightarrow> performance_dump p)
             (case ob of None \<Rightarrow> PDict [] | Some p \<Rightarrow> performance_dump p) ''performance''
             ''Performance comparison is incomplete and cannot be considered healthy.''])"

definition coverage_findings :: "comparison_input \<Rightarrow> divergence_finding list" where
  "coverage_findings i =
     (let missing = (if ci_reference_complete i then [] else [''reference'']) @ (if ci_observed_complete i then [] else [''observed''])
      in if missing = [] then []
         else [finding i INSUFFICIENT_REFERENCE_DATA None (PDict [(''reference_complete'', PBool (ci_reference_complete i))])
                 (PDict [(''observed_complete'', PBool (ci_observed_complete i))]) ''coverage''
                 (''Comparison cannot be healthy: '' @ join '', '' missing @ '' coverage is incomplete.'')])"

definition identity_findings :: "comparison_input \<Rightarrow> divergence_finding list" where
  "identity_findings i =
     (if ci_strategy i \<noteq> ci_reference i
      then [finding i STRATEGY_VERSION_MISMATCH None (identity_dump (ci_reference i)) (identity_dump (ci_strategy i)) ''strategy_identity''
              ''Reference and live strategy identities differ; behavior is not directly comparable.''] else [])
     @ (if ci_expected_hash i \<noteq> None \<and> ci_observed_hash i \<noteq> None \<and> ci_expected_hash i \<noteq> ci_observed_hash i
        then [finding i CONFIGURATION_MISMATCH None (PDict [(''configuration_hash'', opt_value PStr (ci_expected_hash i))])
                (PDict [(''configuration_hash'', opt_value PStr (ci_observed_hash i))]) ''strategy_state''
                ''Configuration hashes differ; this detects an input mismatch, not its cause.''] else [])"

definition issue_findings :: "comparison_input \<Rightarrow> divergence_finding list" where
  "issue_findings i =
     map (\<lambda>s. finding i (di_type s) (Some (di_time s)) (PDict []) (PDict (di_observed s))
            (if di_type s \<noteq> EVALUATOR_FAILURE then ''market_data'' else ''strategy_state'') (di_explanation s)) (ci_issues i)"

definition all_findings :: "(usec \<Rightarrow> string) \<Rightarrow> comparison_input \<Rightarrow> py_exn + divergence_finding list" where
  "all_findings tt i =
     (case compare_signals tt i of
        Inl e \<Rightarrow> Inl e
      | Inr signals \<Rightarrow>
          case compare_executions tt i of
            Inl e \<Rightarrow> Inl e
          | Inr executions \<Rightarrow>
              Inr (coverage_findings i @ identity_findings i @ issue_findings i @ signals @ compare_candles tt i
                   @ executions @ compare_positions tt i @ compare_performance i))"

text \<open>\<open>{finding.fingerprint(): finding for finding in findings}\<close>: the last of equal keys in the first's place.\<close>

definition dedup_findings :: "('a \<Rightarrow> string) \<Rightarrow> 'a list \<Rightarrow> (string \<times> 'a) list" where
  "dedup_findings fp fs = foldl (\<lambda>acc f. AList.update (fp f) f acc) [] fs"

definition finding_order :: "(usec \<Rightarrow> string) \<Rightarrow> comparison_input \<Rightarrow> divergence_finding \<Rightarrow> usec \<times> string \<times> string" where
  "finding_order tt i f =
     ((case df_time f of None \<Rightarrow> ci_start i | Some t \<Rightarrow> t), divergence_value (df_type f), fingerprint tt f)"

definition result_status :: "divergence_finding list \<Rightarrow> comparison_status" where
  "result_status fs =
     (if list_ex (\<lambda>f. df_type f = INSUFFICIENT_REFERENCE_DATA) fs then CMP_INSUFFICIENT_REFERENCE
      else if fs \<noteq> [] then CMP_DIVERGENT else CMP_HEALTHY)"

definition compare_evidence ::
  "(usec \<Rightarrow> string) \<Rightarrow> comparison_input \<Rightarrow> py_exn + comparison_status \<times> divergence_finding list" where
  "compare_evidence tt i =
     (case all_findings tt i of
        Inl e \<Rightarrow> Inl e
      | Inr fs \<Rightarrow>
          let ordered = sort_key (finding_order tt i) (map snd (dedup_findings (fingerprint tt) fs))
          in Inr (result_status ordered, ordered))"

section \<open>What pairing does\<close>

lemma bucket_update: "bucket k (AList.update j q qs) = (if k = j then q else bucket k qs)"
  by (simp add: bucket_def AList.update_conv')

lemma enqueue_all: "bucket k (foldl (enqueue key) qs ps) = bucket k qs @ filter (\<lambda>p. key p = k) ps"
  by (induction ps arbitrary: qs) (auto simp: enqueue_def bucket_update)

lemma enqueue_distinct: "distinct (map fst qs) \<Longrightarrow> distinct (map fst (foldl (enqueue key) qs ps))"
  by (induction ps arbitrary: qs) (simp_all add: enqueue_def AList.distinct_update)

lemma take_pairs_spec:
  assumes "take_pairs key ps qs = (pairs, alone, qs')"
  shows "filter (\<lambda>pr. key (fst pr) = k) pairs = zip (filter (\<lambda>p. key p = k) ps) (bucket k qs)
    \<and> filter (\<lambda>p. key p = k) alone = drop (length (bucket k qs)) (filter (\<lambda>p. key p = k) ps)
    \<and> bucket k qs' = drop (length (filter (\<lambda>p. key p = k) ps)) (bucket k qs)"
  using assms
proof (induction key ps qs arbitrary: pairs alone qs' rule: take_pairs.induct)
  case (1 key qs)
  then show ?case by simp
next
  case (2 key p ps qs)
  show ?case
  proof (cases "bucket (key p) qs")
    case Nil
    obtain pairs0 alone0 where t: "take_pairs key ps (AList.update (key p) [] qs) = (pairs0, alone0, qs')"
      and r: "pairs = pairs0" "alone = p # alone0"
      using "2.prems" Nil by (auto split: prod.splits)
    from "2.IH"(1) [OF Nil t] Nil show ?thesis by (auto simp: r bucket_update split: if_splits)
  next
    case (Cons ob obs)
    obtain pairs0 where t: "take_pairs key ps (AList.update (key p) obs qs) = (pairs0, alone, qs')"
      and r: "pairs = (p, ob) # pairs0"
      using "2.prems" Cons by (auto split: prod.splits)
    from "2.IH"(2) [OF Cons t] Cons show ?thesis by (auto simp: r bucket_update split: if_splits)
  qed
qed

lemma take_pairs_distinct:
  "take_pairs key ps qs = (pairs, alone, qs') \<Longrightarrow> distinct (map fst qs) \<Longrightarrow> distinct (map fst qs')"
proof (induction key ps qs arbitrary: pairs alone qs' rule: take_pairs.induct)
  case (2 key p ps qs)
  then show ?case by (cases "bucket (key p) qs") (auto simp: AList.distinct_update split: prod.splits)
qed simp

lemma bucket_of_member: "distinct (map fst qs) \<Longrightarrow> (k, q) \<in> set qs \<Longrightarrow> bucket k qs = q"
  by (simp add: bucket_def)

lemma bucket_filter:
  assumes "distinct (map fst qs)" and "\<And>j p. p \<in> set (bucket j qs) \<Longrightarrow> key p = j"
  shows "filter (\<lambda>p. key p = k) (concat (map snd qs)) = bucket k qs"
  using assms
proof (induction qs)
  case Nil
  then show ?case by (simp add: bucket_def)
next
  case (Cons entry qs)
  obtain j q where e: "entry = (j, q)" by (cases entry)
  have "map_of qs j = None" using Cons.prems(1) e by (simp add: map_of_eq_None_iff)
  then have fresh: "bucket j qs = []" by (simp add: bucket_def)
  have tl: "bucket i qs = (if i = j then [] else bucket i (entry # qs))" for i
    using fresh by (simp add: e bucket_def)
  have q: "bucket j (entry # qs) = q" by (simp add: e bucket_def)
  have keys: "\<And>p. p \<in> set q \<Longrightarrow> key p = j" using Cons.prems(2) [of _ j] q by simp
  have "filter (\<lambda>p. key p = k) (concat (map snd qs)) = bucket k qs"
    by (rule Cons.IH) (use Cons.prems tl in \<open>auto split: if_splits\<close>)
  moreover have "filter (\<lambda>p. key p = k) q = (if k = j then q else [])"
    using keys by (auto simp: filter_empty_conv intro: filter_True)
  ultimately show ?case using tl [of k] q by (simp add: e)
qed

lemma filter_in_order: "filter P (in_order time key ps) = in_order time key (filter P ps)"
  by (simp add: in_order_def filter_sort)

lemma in_order_sorted: "sorted (map (\<lambda>p. (time p, key p)) (in_order time key ps))"
  by (simp add: in_order_def)

lemma in_order_id: "sorted (map (\<lambda>p. (time p, key p)) ps) \<Longrightarrow> in_order time key ps = ps"
  by (simp add: in_order_def sorted_sort_id sort_key_id_if_sorted)

text \<open>The points of one key, in time order.\<close>

definition of_key :: "('a \<Rightarrow> usec) \<Rightarrow> ('a \<Rightarrow> 'k :: linorder) \<Rightarrow> 'k \<Rightarrow> 'a list \<Rightarrow> 'a list" where
  "of_key time key k ps = in_order time key (filter (\<lambda>p. key p = k) ps)"

lemma set_of_key: "set (of_key time key k ps) = {p \<in> set ps. key p = k}"
  by (auto simp: of_key_def in_order_def)

lemma drop_sorted: "sorted (map f xs) \<Longrightarrow> sorted (map f (drop n xs))"
  by (simp add: drop_map [symmetric] sorted_wrt_drop)

lemma pair_points_spec:
  assumes "pair_points time key es obs = (pairs, alone, unmatched)"
  shows "filter (\<lambda>pr. key (fst pr) = k) pairs = zip (of_key time key k es) (of_key time key k obs)"
    and "filter (\<lambda>p. key p = k) alone = drop (length (of_key time key k obs)) (of_key time key k es)"
    and "filter (\<lambda>p. key p = k) unmatched = drop (length (of_key time key k es)) (of_key time key k obs)"
proof -
  let ?qs = "foldl (enqueue key) [] (in_order time key obs)"
  obtain qs' where t: "take_pairs key (in_order time key es) ?qs = (pairs, alone, qs')"
    and u: "unmatched = in_order time key (concat (map snd qs'))"
    using assms by (auto simp: pair_points_def split: prod.splits)
  have b: "bucket j ?qs = of_key time key j obs" for j
    by (simp add: enqueue_all filter_in_order of_key_def) (simp add: bucket_def)
  note spec = take_pairs_spec [OF t, unfolded b filter_in_order, folded of_key_def]
  show "filter (\<lambda>pr. key (fst pr) = k) pairs = zip (of_key time key k es) (of_key time key k obs)"
    "filter (\<lambda>p. key p = k) alone = drop (length (of_key time key k obs)) (of_key time key k es)"
    using spec by blast+
  have d: "distinct (map fst qs')" by (rule take_pairs_distinct [OF t]) (simp add: enqueue_distinct)
  have "p \<in> set (of_key time key j obs)" if "p \<in> set (bucket j qs')" for j p
    using that spec [of j] by (auto dest: in_set_dropD)
  then have "filter (\<lambda>p. key p = k) (concat (map snd qs')) = bucket k qs'"
    by (intro bucket_filter d) (simp add: set_of_key)
  then have "filter (\<lambda>p. key p = k) unmatched = in_order time key (drop (length (of_key time key k es)) (of_key time key k obs))"
    using spec [of k] by (simp add: u filter_in_order)
  also have "\<dots> = drop (length (of_key time key k es)) (of_key time key k obs)"
    by (rule in_order_id) (simp add: of_key_def drop_sorted in_order_sorted)
  finally show "filter (\<lambda>p. key p = k) unmatched = drop (length (of_key time key k es)) (of_key time key k obs)" .
qed

lemma mset_by_key: "(\<And>k. mset (filter (\<lambda>p. key p = k) xs) = mset (filter (\<lambda>p. key p = k) ys)) \<Longrightarrow> mset xs = mset ys"
proof (rule multiset_eqI)
  fix x
  assume "\<And>k. mset (filter (\<lambda>p. key p = k) xs) = mset (filter (\<lambda>p. key p = k) ys)"
  then have "count (mset (filter (\<lambda>p. key p = key x) xs)) x = count (mset (filter (\<lambda>p. key p = key x) ys)) x" by simp
  then show "count (mset xs) x = count (mset ys) x" by (simp add: mset_filter)
qed

lemma filter_fst: "filter (\<lambda>p. key p = k) (map fst pairs) = map fst (filter (\<lambda>pr. key (fst pr) = k) pairs)"
  by (simp add: filter_map o_def)

lemma mset_of_key: "mset (of_key time key k ps) = mset (filter (\<lambda>p. key p = k) ps)"
  by (simp add: of_key_def in_order_def)

lemma zip_fst_mset: "mset (map fst (zip xs ys)) + mset (drop (length ys) xs) = mset xs"
proof -
  have "map fst (zip xs ys) = take (length ys) xs" by (simp add: map_fst_zip_take take_take min_def)
  then show ?thesis by (metis append_take_drop_id mset_append)
qed

lemma zip_snd_mset: "mset (map snd (zip xs ys)) + mset (drop (length xs) ys) = mset ys"
proof -
  have "map snd (zip xs ys) = take (length xs) ys" by (simp add: map_snd_zip_take take_take min_def)
  then show ?thesis by (metis append_take_drop_id mset_append)
qed

lemma pair_points_keys:
  assumes "pair_points time key es obs = (pairs, alone, unmatched)" and "(e, ob) \<in> set pairs"
  shows "key e = key ob"
proof -
  have "(e, ob) \<in> set (filter (\<lambda>pr. key (fst pr) = key e) pairs)" using assms(2) by simp
  then have "(e, ob) \<in> set (zip (of_key time key (key e) es) (of_key time key (key e) obs))"
    unfolding pair_points_spec(1) [OF assms(1)] .
  then show ?thesis by (auto simp: set_of_key dest: set_zip_rightD)
qed

text \<open>
  C30: Pairing loses and invents nothing: the pairs and the leftovers are exactly the points of both
  sides, a pair has one key, and per key the n-th expected point in time order is paired with the
  n-th observed one.
\<close>

theorem pair_points_correct:
  assumes "pair_points time key es obs = (pairs, alone, unmatched)"
  shows "mset (map fst pairs) + mset alone = mset es \<and> mset (map snd pairs) + mset unmatched = mset obs
    \<and> (\<forall>(e, ob) \<in> set pairs. key e = key ob)
    \<and> (\<forall>k. filter (\<lambda>pr. key (fst pr) = k) pairs = zip (of_key time key k es) (of_key time key k obs))"
proof (intro conjI allI)
  show "filter (\<lambda>pr. key (fst pr) = k) pairs = zip (of_key time key k es) (of_key time key k obs)" for k
    by (rule pair_points_spec(1) [OF assms])
  show keys: "\<forall>(e, ob) \<in> set pairs. key e = key ob" using pair_points_keys [OF assms] by blast
  have "mset (map fst pairs @ alone) = mset es"
  proof (rule mset_by_key [of key])
    fix k
    show "mset (filter (\<lambda>p. key p = k) (map fst pairs @ alone)) = mset (filter (\<lambda>p. key p = k) es)"
      using zip_fst_mset [of "of_key time key k es" "of_key time key k obs"]
      by (simp add: filter_fst pair_points_spec [OF assms] mset_of_key del: mset_map)
  qed
  then show "mset (map fst pairs) + mset alone = mset es" by simp
  have "filter (\<lambda>pr. key (snd pr) = k) pairs = filter (\<lambda>pr. key (fst pr) = k) pairs" for k
    by (rule filter_cong) (use keys in auto)
  then have snds: "filter (\<lambda>p. key p = k) (map snd pairs) = map snd (filter (\<lambda>pr. key (fst pr) = k) pairs)" for k
    by (simp add: filter_map o_def)
  have "mset (map snd pairs @ unmatched) = mset obs"
  proof (rule mset_by_key [of key])
    fix k
    show "mset (filter (\<lambda>p. key p = k) (map snd pairs @ unmatched)) = mset (filter (\<lambda>p. key p = k) obs)"
      using zip_snd_mset [of "of_key time key k es" "of_key time key k obs"]
      by (simp add: snds pair_points_spec [OF assms] mset_of_key del: mset_map)
  qed
  then show "mset (map snd pairs) + mset unmatched = mset obs" by simp
qed

section \<open>When a comparison is healthy\<close>

text \<open>
  The specification: per key, as many points on both sides, the n-th within tolerance of the n-th.
  Positions may have more observed snapshots than expected ones, if those are flat.
\<close>

definition ranked :: "('a \<Rightarrow> usec) \<Rightarrow> ('a \<Rightarrow> 'k :: linorder) \<Rightarrow> ('a \<Rightarrow> 'a \<Rightarrow> bool) \<Rightarrow> ('a \<Rightarrow> bool) \<Rightarrow> 'a list \<Rightarrow> 'a list \<Rightarrow> bool" where
  "ranked time key close spare es obs \<longleftrightarrow>
     (\<forall>k. length (of_key time key k es) \<le> length (of_key time key k obs)
       \<and> (\<forall>(e, ob) \<in> set (zip (of_key time key k es) (of_key time key k obs)). close e ob)
       \<and> list_all spare (drop (length (of_key time key k es)) (of_key time key k obs)))"

lemma all_by_key: "(\<forall>x \<in> set xs. P x) \<longleftrightarrow> (\<forall>k. \<forall>x \<in> set (filter (\<lambda>p. key p = k) xs). P x)"
  by auto

lemma ranked_pairs:
  assumes p: "pair_points time key es obs = (pairs, alone, unmatched)"
  shows "ranked time key close spare es obs \<longleftrightarrow>
    alone = [] \<and> (\<forall>(e, ob) \<in> set pairs. close e ob) \<and> list_all spare unmatched"
proof -
  have "alone = [] \<longleftrightarrow> (\<forall>x \<in> set alone. False)" by auto
  also have "\<dots> \<longleftrightarrow> (\<forall>k. length (of_key time key k es) \<le> length (of_key time key k obs))"
    unfolding all_by_key [of alone _ key] pair_points_spec(2) [OF p] by (auto simp: drop_eq_Nil [symmetric] simp del: drop_eq_Nil)
  finally have 1: "alone = [] \<longleftrightarrow> (\<forall>k. length (of_key time key k es) \<le> length (of_key time key k obs))" .
  have 2: "(\<forall>pr \<in> set pairs. case pr of (e, ob) \<Rightarrow> close e ob) \<longleftrightarrow>
      (\<forall>k. \<forall>(e, ob) \<in> set (zip (of_key time key k es) (of_key time key k obs)). close e ob)"
    unfolding all_by_key [of pairs _ "\<lambda>pr. key (fst pr)"] pair_points_spec(1) [OF p] ..
  have 3: "list_all spare unmatched \<longleftrightarrow> (\<forall>k. list_all spare (drop (length (of_key time key k es)) (of_key time key k obs)))"
    unfolding list_all_iff all_by_key [of unmatched _ key] pair_points_spec(3) [OF p] ..
  show ?thesis unfolding ranked_def using 1 2 3 by auto
qed

definition candles_close :: "comparison_policy \<Rightarrow> candle_point \<Rightarrow> candle_point \<Rightarrow> bool" where
  "candles_close y e ob \<longleftrightarrow> \<not> later_than (cp_time ob) (cp_time e) (cy_market_timestamp y)
     \<and> (cp_revision e = None \<or> cp_revision ob = None \<or> cp_revision e = cp_revision ob)
     \<and> \<not> price_exceeds e ob (cy_ohlc_bps y) \<and> \<not> apart (cp_volume e) (cp_volume ob) (cy_volume y)"

definition executions_close :: "comparison_policy \<Rightarrow> execution_point \<Rightarrow> execution_point \<Rightarrow> bool" where
  "executions_close y e ob \<longleftrightarrow> \<not> later_than (xp_time ob) (xp_time e) (cy_execution_delay y)
     \<and> \<not> exceeds (bps_difference (xp_price e) (xp_price ob)) (cy_execution_price_bps y)
     \<and> \<not> apart_opt (xp_slippage e) (xp_slippage ob) (cy_slippage y) \<and> \<not> apart_opt (xp_fees e) (xp_fees ob) (cy_fee y)"

definition positions_close :: "comparison_policy \<Rightarrow> position_point \<Rightarrow> position_point \<Rightarrow> bool" where
  "positions_close y e ob \<longleftrightarrow> pp_state e = pp_state ob \<and> \<not> apart_opt (pp_exposure e) (pp_exposure ob) (cy_exposure y)"

definition performance_close :: "comparison_policy \<Rightarrow> performance_point option \<Rightarrow> performance_point option \<Rightarrow> bool" where
  "performance_close y e ob \<longleftrightarrow>
     (case (e, ob) of
        (None, None) \<Rightarrow> True
      | (Some p, Some q) \<Rightarrow>
          \<not> apart_opt (pf_return p) (pf_return q) (cy_return y) \<and> \<not> apart_opt (pf_drawdown p) (pf_drawdown q) (cy_drawdown y)
          \<and> \<not> apart_opt (pf_volatility p) (pf_volatility q) (cy_volatility y)
          \<and> \<not> apart_opt (pf_benchmark p) (pf_benchmark q) (cy_benchmark y)
          \<and> (\<forall>m \<in> set_option (pf_trades p). \<forall>n \<in> set_option (pf_trades q). \<bar>m - n\<bar> \<le> cy_trade_count y)
          \<and> \<not> apart_opt (win_rate p) (win_rate q) (cy_win_rate y)
      | _ \<Rightarrow> False)"

definition evidence_agrees :: "comparison_input \<Rightarrow> bool" where
  "evidence_agrees i \<longleftrightarrow>
     (let y = ci_policy i in
       ci_reference_complete i \<and> ci_observed_complete i \<and> ci_strategy i = ci_reference i
       \<and> (ci_expected_hash i = None \<or> ci_observed_hash i = None \<or> ci_expected_hash i = ci_observed_hash i)
       \<and> ci_issues i = []
       \<and> ranked sp_time signal_key_of (\<lambda>e ob. \<not> later_than (sp_time ob) (sp_time e) (cy_signal_timing y)) (\<lambda>_. False)
           (ci_expected_signals i) (ci_observed_signals i)
       \<and> ranked cp_time candle_key_of (candles_close y) (\<lambda>_. False) (ci_expected_candles i) (ci_observed_candles i)
       \<and> ranked xp_time execution_key_of (executions_close y) (\<lambda>_. False) (ci_expected_executions i) (ci_observed_executions i)
       \<and> ranked pp_time position_key_of (positions_close y) (\<lambda>p. pp_state p = POS_FLAT)
           (ci_expected_positions i) (ci_observed_positions i)
       \<and> performance_close y (ci_expected_performance i) (ci_observed_performance i))"

lemma no_candle_findings: "compare_candle_pair tt i (e, ob) = [] \<longleftrightarrow> candles_close (ci_policy i) e ob"
  by (auto simp: compare_candle_pair_def candles_close_def)

lemma no_execution_findings: "compare_execution_pair tt i (e, ob) = [] \<longleftrightarrow> executions_close (ci_policy i) e ob"
  by (auto simp: compare_execution_pair_def executions_close_def)

lemma no_position_findings: "compare_position_pair tt i (e, ob) = [] \<longleftrightarrow> positions_close (ci_policy i) e ob"
  by (auto simp: compare_position_pair_def positions_close_def)

lemma list_all_False [simp]: "list_all (\<lambda>_. False) xs \<longleftrightarrow> xs = []"
  by (cases xs) simp_all

lemma compare_signals_empty:
  "compare_signals tt i = Inr [] \<longleftrightarrow>
     \<not> signals_unorderable (ci_observed_signals i) \<and> \<not> signals_unorderable (ci_expected_signals i)
     \<and> ranked sp_time signal_key_of (\<lambda>e ob. \<not> later_than (sp_time ob) (sp_time e) (cy_signal_timing (ci_policy i)))
         (\<lambda>_. False) (ci_expected_signals i) (ci_observed_signals i)"
proof (cases "pair_points sp_time signal_key_of (ci_expected_signals i) (ci_observed_signals i)")
  case (fields pairs alone unmatched)
  then show ?thesis by (auto simp: compare_signals_def ranked_pairs [OF fields] filter_empty_conv)
qed

lemma compare_candles_empty:
  "compare_candles tt i = [] \<longleftrightarrow>
     ranked cp_time candle_key_of (candles_close (ci_policy i)) (\<lambda>_. False) (ci_expected_candles i) (ci_observed_candles i)"
proof (cases "pair_points cp_time candle_key_of (ci_expected_candles i) (ci_observed_candles i)")
  case (fields pairs alone unmatched)
  then show ?thesis by (auto simp: compare_candles_def ranked_pairs [OF fields] no_candle_findings)
qed

lemma compare_executions_empty:
  "compare_executions tt i = Inr [] \<longleftrightarrow>
     \<not> executions_unorderable (ci_observed_executions i) \<and> \<not> executions_unorderable (ci_expected_executions i)
     \<and> ranked xp_time execution_key_of (executions_close (ci_policy i)) (\<lambda>_. False)
         (ci_expected_executions i) (ci_observed_executions i)"
proof (cases "pair_points xp_time execution_key_of (ci_expected_executions i) (ci_observed_executions i)")
  case (fields pairs alone unmatched)
  then show ?thesis by (auto simp: compare_executions_def ranked_pairs [OF fields] no_execution_findings)
qed

lemma compare_positions_empty:
  "compare_positions tt i = [] \<longleftrightarrow>
     ranked pp_time position_key_of (positions_close (ci_policy i)) (\<lambda>p. pp_state p = POS_FLAT)
       (ci_expected_positions i) (ci_observed_positions i)"
proof (cases "pair_points pp_time position_key_of (ci_expected_positions i) (ci_observed_positions i)")
  case (fields pairs alone unmatched)
  then show ?thesis
    by (auto simp: compare_positions_def ranked_pairs [OF fields] no_position_findings filter_empty_conv list_all_iff)
qed

lemma compare_performance_empty:
  "compare_performance i = [] \<longleftrightarrow> performance_close (ci_policy i) (ci_expected_performance i) (ci_observed_performance i)"
  by (auto simp: compare_performance_def performance_close_def metric_finding_def Let_def not_less
      split: option.split)

lemma dedup_empty [simp]: "dedup_findings fp fs = [] \<longleftrightarrow> fs = []"
proof (cases fs rule: rev_cases)
  case (snoc gs g)
  have "AList.update k v al \<noteq> []" for k v and al :: "(string \<times> 'a) list" by (cases al) auto
  then show ?thesis by (simp add: snoc dedup_findings_def)
qed (simp add: dedup_findings_def)

lemma status_healthy: "result_status fs = CMP_HEALTHY \<longleftrightarrow> fs = []"
  by (auto simp: result_status_def)

text \<open>
  C7: A comparison is healthy exactly when coverage is complete on both sides, identities and
  configuration agree, no data issue is reported, all points can be ordered, and the evidence agrees
  point by point, within the tolerances, in every category.
\<close>

theorem healthy_means_agreement:
  "compare_evidence tt i = Inr (CMP_HEALTHY, fs) \<longleftrightarrow>
     fs = [] \<and> evidence_agrees i
     \<and> \<not> signals_unorderable (ci_observed_signals i) \<and> \<not> signals_unorderable (ci_expected_signals i)
     \<and> \<not> executions_unorderable (ci_observed_executions i) \<and> \<not> executions_unorderable (ci_expected_executions i)"
proof -
  have c: "coverage_findings i = [] \<longleftrightarrow> ci_reference_complete i \<and> ci_observed_complete i"
    by (auto simp: coverage_findings_def Let_def)
  have d: "identity_findings i = [] \<longleftrightarrow> ci_strategy i = ci_reference i
      \<and> (ci_expected_hash i = None \<or> ci_observed_hash i = None \<or> ci_expected_hash i = ci_observed_hash i)"
    by (auto simp: identity_findings_def)
  have e: "issue_findings i = [] \<longleftrightarrow> ci_issues i = []" by (simp add: issue_findings_def)
  have "compare_evidence tt i = Inr (CMP_HEALTHY, fs) \<longleftrightarrow> fs = [] \<and> all_findings tt i = Inr []"
    by (cases "all_findings tt i")
      (auto simp: compare_evidence_def Let_def status_healthy dedup_findings_def [of _ "[]"] dest: arg_cong [where f = length] intro: sym)
  also have "all_findings tt i = Inr [] \<longleftrightarrow>
      coverage_findings i = [] \<and> identity_findings i = [] \<and> issue_findings i = [] \<and> compare_signals tt i = Inr []
      \<and> compare_candles tt i = [] \<and> compare_executions tt i = Inr [] \<and> compare_positions tt i = [] \<and> compare_performance i = []"
    by (auto simp: all_findings_def split: sum.splits)
  finally show ?thesis
    unfolding c d e compare_signals_empty compare_candles_empty compare_executions_empty compare_positions_empty
      compare_performance_empty evidence_agrees_def Let_def
    by blast
qed

end
