(* ===== verification/Divergence_Results.thy ===== *)
theory Divergence_Results
  imports Divergence
begin

text \<open>
  What the results of \<open>Divergence\<close> say: deduplication keeps every finding, where a lost candle
  shows up, and which evidence cannot be compared.
\<close>

section \<open>Deduplication\<close>

lemma set_update_subset: "set (AList.update k v al) \<subseteq> insert (k, v) (set al)"
  by (induction al) auto

lemma dedup_snoc: "dedup_findings fp (fs @ [f]) = AList.update (fp f) f (dedup_findings fp fs)"
  by (simp add: dedup_findings_def)

lemma dedup_keys:
  "distinct (map fst (dedup_findings fp fs)) \<and> fst ` set (dedup_findings fp fs) = fp ` set fs
   \<and> (\<forall>(k, f) \<in> set (dedup_findings fp fs). f \<in> set fs \<and> k = fp f)"
proof (induction fs rule: rev_induct)
  case Nil
  then show ?case by (simp add: dedup_findings_def)
next
  case (snoc f fs)
  let ?d = "dedup_findings fp fs"
  note set_update_subset [of "fp f" f ?d]
  moreover have "fst ` set (AList.update (fp f) f ?d) = insert (fp f) (fst ` set ?d)"
    by (metis dom_map_of_conv_image_fst AList.update_conv' dom_fun_upd option.distinct(1))
  ultimately show ?case using snoc by (auto simp: dedup_snoc AList.distinct_update)
qed

lemma compare_evidence_findings:
  assumes "compare_evidence tt i = Inr (st, fs)" and "all_findings tt i = Inr raw"
  shows "distinct (map (fingerprint tt) fs)" and "set fs \<subseteq> set raw" and "st = result_status fs"
    and "fingerprint tt ` set fs = fingerprint tt ` set raw" and "sorted (map (finding_order tt i) fs)"
proof -
  let ?d = "dedup_findings (fingerprint tt) raw"
  have fs: "fs = sort_key (finding_order tt i) (map snd ?d)" and st: "st = result_status fs"
    using assms by (auto simp: compare_evidence_def Let_def)
  note d = dedup_keys [of "fingerprint tt" raw]
  have keys: "map (fingerprint tt) (map snd ?d) = map fst ?d"
    using d by (auto simp: o_def)
  have "mset (map (fingerprint tt) fs) = mset (map fst ?d)"
    unfolding fs keys [symmetric] by (simp only: mset_map mset_sort)
  then show "distinct (map (fingerprint tt) fs)" using d mset_eq_imp_distinct_iff by blast
  show "set fs \<subseteq> set raw" using d unfolding fs by auto
  have "fingerprint tt ` set fs = fst ` set ?d"
    using keys unfolding fs by (metis set_map set_sort)
  then show "fingerprint tt ` set fs = fingerprint tt ` set raw" using d by simp
  show "st = result_status fs" by (rule st)
  show "sorted (map (finding_order tt i) fs)" by (simp add: fs)
qed

lemma insufficient_status:
  "result_status fs = CMP_INSUFFICIENT_REFERENCE \<longleftrightarrow> (\<exists>f \<in> set fs. df_type f = INSUFFICIENT_REFERENCE_DATA)"
  by (auto simp: result_status_def list_ex_iff)

text \<open>
  A result lists its findings in order, one per fingerprint, and no fingerprint of the raw
  findings is missing; so unless two different findings hash alike nothing is lost.
\<close>

theorem findings_kept:
  assumes "compare_evidence tt i = Inr (st, fs)" and "all_findings tt i = Inr raw"
  shows "distinct (map (fingerprint tt) fs) \<and> sorted (map (finding_order tt i) fs)
    \<and> fingerprint tt ` set fs = fingerprint tt ` set raw \<and> set fs \<subseteq> set raw
    \<and> (inj_on (fingerprint tt) (set raw) \<longrightarrow> set fs = set raw)
    \<and> (st = CMP_INSUFFICIENT_REFERENCE \<longleftrightarrow> (\<exists>f \<in> set fs. df_type f = INSUFFICIENT_REFERENCE_DATA))"
proof -
  note c = compare_evidence_findings [OF assms]
  have "set fs = set raw" if "inj_on (fingerprint tt) (set raw)"
    using inj_on_image_eq_iff [OF that c(2) subset_refl] c(4) by simp
  then show ?thesis using c insufficient_status by auto
qed

section \<open>A lost candle\<close>

lemma pair_points_one_key:
  assumes "\<forall>p \<in> set es. key p = k" and "\<forall>p \<in> set obs. key p = k"
  shows "pair_points time key es obs =
    (zip (in_order time key es) (in_order time key obs),
     drop (length obs) (in_order time key es), drop (length es) (in_order time key obs))"
proof (cases "pair_points time key es obs")
  case (fields pairs alone unmatched)
  note c = pair_points_correct [OF fields]
  have es: "of_key time key k es = in_order time key es" "of_key time key k obs = in_order time key obs"
    using assms by (simp_all add: of_key_def)
  have "mset (map fst pairs) + mset alone = mset es" "mset (map snd pairs) + mset unmatched = mset obs" using c by simp_all
  then have "set (map fst pairs) \<subseteq> set es" "set alone \<subseteq> set es" "set unmatched \<subseteq> set obs"
    by (metis mset_append set_append set_mset_mset sup_ge1 sup_ge2)+
  then have "\<forall>pr \<in> set pairs. key (fst pr) = k" "\<forall>p \<in> set alone. key p = k" "\<forall>p \<in> set unmatched. key p = k"
    using assms by auto
  then have "filter (\<lambda>pr. key (fst pr) = k) pairs = pairs" "filter (\<lambda>p. key p = k) alone = alone"
    "filter (\<lambda>p. key p = k) unmatched = unmatched" by simp_all
  then show ?thesis using pair_points_spec [OF fields, of k] by (simp add: fields es in_order_def)
qed

lemma fl_zero: "fl 0 = Fin 0"
  by (simp add: fl_def)

lemma dec_nonneg_val: "dec_nonneg d \<Longrightarrow> 0 \<le> dec_val d"
  unfolding dec_nonneg_def dec_val_def by (intro mult_nonneg_nonneg less_imp_le [OF pow10_pos]) simp

lemma dec_zero_val: "dec_coeff d = 0 \<Longrightarrow> dec_val d = 0"
  by simp

lemma apart_self: "dec_nonneg tolerance \<Longrightarrow> \<not> apart x x tolerance"
  using dec_nonneg_val [of tolerance] dec_zero_val [OF dec_abs_zero [OF dec_sub_self [of x]]]
  by (simp only: apart_def dec_lt_def not_less)

lemma bps_self: "\<exists>z. bps_difference x x = Some z \<and> dec_coeff z = 0"
  by (auto simp: bps_difference_def dec_abs_zero dec_div_zero dec_mul_zero)

lemma exceeds_self: "dec_nonneg tolerance \<Longrightarrow> \<not> exceeds (bps_difference x x) tolerance"
proof -
  assume n: "dec_nonneg tolerance"
  obtain z where z: "bps_difference x x = Some z" "dec_coeff z = 0" using bps_self by blast
  show ?thesis using dec_nonneg_val [OF n] dec_zero_val [OF z(2)] by (simp only: z exceeds_def option.case dec_lt_def not_less)
qed

lemma same_candle_close:
  assumes "0 \<le> cy_market_timestamp y" and "dec_nonneg (cy_ohlc_bps y)" and "dec_nonneg (cy_volume y)"
  shows "candles_close y c c"
  using assms exceeds_self apart_self
  by (auto simp: candles_close_def later_than_def seconds_apart_def fl_zero price_exceeds_def candle_prices_def)

definition shifted_finding :: "(usec \<Rightarrow> string) \<Rightarrow> comparison_input \<Rightarrow> candle_point \<times> candle_point \<Rightarrow> divergence_finding" where
  "shifted_finding tt i pair =
     finding i MARKET_DATA_TIMESTAMP_MISMATCH (Some (cp_time (snd pair))) (candle_dump tt (fst pair)) (candle_dump tt (snd pair)) ''market_data''
       ''Candle timestamps differ beyond the configured tolerance; this is a data discrepancy, not causal attribution.''"

lemma sorted_times_in_order:
  assumes "sorted_wrt (<) (map cp_time ps)"
  shows "in_order cp_time candle_key_of ps = ps"
proof (rule in_order_id)
  show "sorted (map (\<lambda>p. (cp_time p, candle_key_of p)) ps)"
    using assms by (simp add: sorted_map sorted_wrt_map) (erule sorted_wrt_mono_rel [rotated], simp add: less_eq_prod_def less_imp_le)
qed

text \<open>
  C38: A lost candle is reported in the wrong place.  When the live side misses one candle of an
  asset's series, every later candle is paired with its predecessor and reported as a timestamp
  mismatch, and the candle reported missing is the last one of the series, which was observed.
\<close>

theorem lost_candle_shifts_the_rest:
  assumes "ci_expected_candles i = before @ c # rest" and "ci_observed_candles i = before @ rest" and "rest \<noteq> []"
    and "sorted_wrt (<) (map cp_time (before @ c # rest))" and "\<forall>p \<in> set (before @ c # rest). cp_asset p = a"
    and "0 \<le> cy_market_timestamp (ci_policy i)" and "dec_nonneg (cy_ohlc_bps (ci_policy i))" and "dec_nonneg (cy_volume (ci_policy i))"
    and "\<forall>(p, q) \<in> set (zip (c # rest) rest). later_than (cp_time q) (cp_time p) (cy_market_timestamp (ci_policy i))"
  shows "compare_candles tt i = map (shifted_finding tt i) (zip (c # rest) rest)
     @ [finding i MARKET_DATA_MISSING_CANDLE (Some (cp_time (last rest))) (candle_dump tt (last rest)) (PDict []) ''market_data''
          ''Reference candle has no observed canonical counterpart.'']
    \<and> last rest \<in> set (ci_observed_candles i) \<and> c \<notin> set (ci_observed_candles i)"
proof (intro conjI)
  have s: "sorted_wrt (<) (map cp_time (before @ rest))" using assms(4) by (simp add: sorted_wrt_append)
  have o: "in_order cp_time candle_key_of (before @ c # rest) = before @ c # rest"
    "in_order cp_time candle_key_of (before @ rest) = before @ rest"
    using sorted_times_in_order [OF assms(4)] sorted_times_in_order [OF s] .
  have left: "drop (length (before @ rest)) (before @ c # rest) = [last rest]"
    using assms(3) by (induction rest arbitrary: c) (auto simp: drop_Cons split: nat.splits)
  have p: "pair_points cp_time candle_key_of (before @ c # rest) (before @ rest) =
      (zip before before @ zip (c # rest) rest, [last rest], [])"
    using pair_points_one_key [of "before @ c # rest" candle_key_of a "before @ rest" cp_time] assms(5) o left
    by (simp add: candle_key_of_def)
  have same: "concat (map (compare_candle_pair tt i) (zip before before)) = []"
    using same_candle_close [OF assms(6-8)] by (auto simp: no_candle_findings zip_same)
  have "map (compare_candle_pair tt i) (zip (c # rest) rest) = map (\<lambda>pr. [shifted_finding tt i pr]) (zip (c # rest) rest)"
    using assms(9) by (intro map_cong refl) (auto simp: compare_candle_pair_def shifted_finding_def split: prod.splits)
  then have "concat (map (compare_candle_pair tt i) (zip (c # rest) rest)) = map (shifted_finding tt i) (zip (c # rest) rest)"
    by (simp only: concat_map_singleton)
  then show "compare_candles tt i = map (shifted_finding tt i) (zip (c # rest) rest)
     @ [finding i MARKET_DATA_MISSING_CANDLE (Some (cp_time (last rest))) (candle_dump tt (last rest)) (PDict []) ''market_data''
          ''Reference candle has no observed canonical counterpart.'']"
    unfolding compare_candles_def assms(1,2) p by (simp only: prod.case map_append concat_append same append_Nil list.map append_Nil2)
  show "last rest \<in> set (ci_observed_candles i)" using assms(2,3) by simp
  show "c \<notin> set (ci_observed_candles i)" using assms(2,4) by (auto simp: sorted_wrt_append)
qed

section \<open>Evidence that cannot be ordered\<close>

text \<open>
  Two events of an asset at one time, of one type, one with a signal id and one without, cannot
  be sorted: the comparison ends in a \<open>TypeError\<close>, whatever else the evidence says.
\<close>

theorem mixed_signal_ids_raise:
  assumes "p \<in> set ss" and "q \<in> set ss" and "sp_time p = sp_time q" and "sp_asset p = sp_asset q" and "sp_event p = sp_event q"
    and "sp_signal p = None" and "sp_signal q = Some s" and "ci_expected_signals i = ss \<or> ci_observed_signals i = ss"
  shows "compare_evidence tt i = Inl order_error"
proof -
  have "signals_unorderable ss"
    unfolding signals_unorderable_def unorderable_def list_ex_iff
    by (rule bexI [OF _ assms(1)], rule bexI [OF _ assms(2)]) (simp add: assms)
  then have "compare_signals tt i = Inl order_error" using assms(8) by (auto simp: compare_signals_def)
  then show ?thesis by (simp add: compare_evidence_def all_findings_def)
qed

section \<open>Witnesses\<close>

definition quiet_policy :: comparison_policy where
  "quiet_policy =
     \<lparr>cy_id = ''p'', cy_revision = ''1'', cy_signal_timing = 1, cy_market_timestamp = 1, cy_ohlc_bps = Dec 1 0,
      cy_volume = Dec 0 0, cy_execution_delay = 1, cy_execution_price_bps = Dec 1 0, cy_fee = Dec 0 0, cy_slippage = Dec 0 0,
      cy_exposure = Dec 0 0, cy_return = Dec 0 0, cy_drawdown = Dec 0 0, cy_volatility = Dec 0 0, cy_trade_count = 0,
      cy_win_rate = Dec 0 0, cy_benchmark = Dec 0 0, cy_default_severity = SEV_WARNING, cy_critical = []\<rparr>"

definition flat_candle :: "usec \<Rightarrow> candle_point" where
  "flat_candle t = \<lparr>cp_asset = 3, cp_time = t, cp_open = Dec 1 1, cp_high = Dec 1 1, cp_low = Dec 1 1, cp_close = Dec 1 1,
     cp_volume = Dec 5 0, cp_revision = None\<rparr>"

definition exit_event :: "string option \<Rightarrow> signal_point" where
  "exit_event s = \<lparr>sp_asset = 3, sp_event = EVENT_EXIT, sp_time = hour_us, sp_signal = s, sp_position = Some POS_FLAT, sp_source = None\<rparr>"

definition blank_input :: comparison_input where
  "blank_input =
     \<lparr>ci_strategy = \<lparr>vi_strategy = 1, vi_version = 2, vi_number = 1, vi_hash = []\<rparr>,
      ci_reference = \<lparr>vi_strategy = 1, vi_version = 2, vi_number = 1, vi_hash = []\<rparr>, ci_policy = quiet_policy,
      ci_start = 0, ci_end = day_us, ci_reference_source = [], ci_observed_source = [], ci_reference_complete = True,
      ci_observed_complete = True, ci_expected_hash = None, ci_observed_hash = None, ci_expected_signals = [],
      ci_observed_signals = [], ci_expected_candles = [], ci_observed_candles = [], ci_expected_executions = [],
      ci_observed_executions = [], ci_expected_positions = [], ci_observed_positions = [], ci_expected_performance = None,
      ci_observed_performance = None, ci_issues = []\<rparr>"

lemma pair_points_correct_witness:
  "\<exists>pairs alone unmatched. pair_points sp_time signal_key_of [exit_event None] [exit_event None, exit_event (Some ''x'')] = (pairs, alone, unmatched)
    \<and> mset (map fst pairs) + mset alone = {#exit_event None#} \<and> length pairs + length unmatched = 2"
proof (cases "pair_points sp_time signal_key_of [exit_event None] [exit_event None, exit_event (Some ''x'')]")
  case (fields pairs alone unmatched)
  note c = pair_points_correct [OF fields]
  then have "size (mset (map snd pairs) + mset unmatched) = 2" by simp
  then show ?thesis using c by (simp add: fields)
qed

lemma minute_apart: "fl 60 = Fin 60"
  using fl_int [of 60] by simp

lemma lost_candle_shifts_the_rest_witness:
  "\<exists>tt. length (compare_candles tt (blank_input\<lparr>ci_expected_candles := map flat_candle [0, minute_us, 2 * minute_us],
      ci_observed_candles := map flat_candle [minute_us, 2 * minute_us]\<rparr>)) = 3"
proof
  let ?tt = "\<lambda>_. []"
  let ?i = "blank_input\<lparr>ci_expected_candles := map flat_candle [0, minute_us, 2 * minute_us],
      ci_observed_candles := map flat_candle [minute_us, 2 * minute_us]\<rparr>"
  have "compare_candles ?tt ?i = map (shifted_finding ?tt ?i) (zip (flat_candle 0 # map flat_candle [minute_us, 2 * minute_us]) (map flat_candle [minute_us, 2 * minute_us]))
     @ [finding ?i MARKET_DATA_MISSING_CANDLE (Some (cp_time (last (map flat_candle [minute_us, 2 * minute_us]))))
          (candle_dump ?tt (last (map flat_candle [minute_us, 2 * minute_us]))) (PDict []) ''market_data''
          ''Reference candle has no observed canonical counterpart.'']"
    using lost_candle_shifts_the_rest [of ?i "[]" "flat_candle 0" "map flat_candle [minute_us, 2 * minute_us]" 3 ?tt] minute_apart
    by (simp add: blank_input_def quiet_policy_def flat_candle_def dec_nonneg_def later_than_def seconds_apart_def)
  then show "length (compare_candles ?tt ?i) = 3" by simp
qed

lemma mixed_signal_ids_raise_witness:
  "compare_evidence tt (blank_input\<lparr>ci_expected_signals := [exit_event None, exit_event (Some ''x'')]\<rparr>) = Inl order_error"
  by (rule mixed_signal_ids_raise [of "exit_event None" "[exit_event None, exit_event (Some ''x'')]" "exit_event (Some ''x'')" "''x''"])
    (simp_all add: exit_event_def)

definition partial_input :: comparison_input where
  "partial_input = blank_input\<lparr>ci_reference_complete := False\<rparr>"

lemma partial_raw: "all_findings tt partial_input = Inr (coverage_findings partial_input)"
  by (simp add: all_findings_def identity_findings_def issue_findings_def compare_signals_def
      compare_candles_def compare_executions_def compare_positions_def compare_performance_def signals_unorderable_def
      executions_unorderable_def unorderable_def pair_points_def in_order_def partial_input_def blank_input_def)

lemma findings_kept_witness:
  "\<forall>tt. \<exists>st fs. compare_evidence tt partial_input = Inr (st, fs) \<and> st = CMP_INSUFFICIENT_REFERENCE
     \<and> set fs = set (coverage_findings partial_input)"
proof
  fix tt :: "usec \<Rightarrow> string"
  obtain st fs where r: "compare_evidence tt partial_input = Inr (st, fs)"
    by (auto simp: compare_evidence_def partial_raw Let_def)
  note k = findings_kept [OF r partial_raw]
  obtain f where f: "coverage_findings partial_input = [f]" "df_type f = INSUFFICIENT_REFERENCE_DATA"
    by (simp add: coverage_findings_def partial_input_def blank_input_def finding_def)
  have "set fs = {f}" using k f by simp
  then show "\<exists>st fs. compare_evidence tt partial_input = Inr (st, fs) \<and> st = CMP_INSUFFICIENT_REFERENCE
     \<and> set fs = set (coverage_findings partial_input)" using k r f by auto
qed

end
