(* ===== verification/Strategy_Catalog.thy ===== *)
theory Strategy_Catalog
  imports Strategy_Contracts "HOL-Library.Sublist"
begin

text \<open>
  \<open>app/services/strategy_catalog.py\<close>: strategies and their immutable, numbered versions.  A
  transaction is a function on the \<open>catalog\<close>; a UUID is a number.  \<open>SELECT ... FOR UPDATE\<close> on the
  parent strategy serialises the transactions that create versions of it, so each of them is one
  step; the creation of a strategy has no row to lock, and other transactions may commit before
  its \<open>flush\<close>.  What a JSONB column gives back for a stored payload and how pydantic turns it into
  a definition is the parameter \<open>read\<close>.
\<close>

section \<open>Tables\<close>

record strategy_row =
  st_id :: int
  st_key :: string
  st_name :: string
  st_description :: "string option"

record version_row =
  sv_id :: int
  sv_strategy :: int
  sv_number :: int
  sv_schema :: string
  sv_hash :: string
  sv_payload :: pyval

record catalog =
  ct_strategies :: "strategy_row list"
  ct_versions :: "version_row list"
  ct_assets :: "instrument list"

section \<open>Operations\<close>

abbreviation StrategyDefinitionError :: py_exn where
  "StrategyDefinitionError \<equiv> OtherException ''StrategyDefinitionError''"

abbreviation StrategyNotFoundError :: py_exn where
  "StrategyNotFoundError \<equiv> OtherException ''StrategyNotFoundError''"

definition find_strategy :: "string \<Rightarrow> catalog \<Rightarrow> strategy_row option" where
  "find_strategy key db = find (\<lambda>s. st_key s = key) (ct_strategies db)"

text \<open>\<open>between\<close>: what other transactions commit between the first SELECT and the flush.\<close>

definition create_strategy ::
  "int \<Rightarrow> strategy_metadata \<Rightarrow> (catalog \<Rightarrow> catalog) \<Rightarrow> catalog \<Rightarrow> (py_exn + strategy_row) \<times> catalog" where
  "create_strategy uid md between db =
     (if find_strategy (md_key md) db \<noteq> None then (Inl StrategyDefinitionError, db)
      else let db1 = between db;
               row = \<lparr>st_id = uid, st_key = md_key md, st_name = md_name md, st_description = md_description md\<rparr>
           in if find_strategy (md_key md) db1 \<noteq> None then (Inl StrategyDefinitionError, db1)
              else (Inr row, db1\<lparr>ct_strategies := ct_strategies db1 @ [row]\<rparr>))"

definition locked_strategy :: "string \<Rightarrow> catalog \<Rightarrow> py_exn + strategy_row" where
  "locked_strategy key db =
     (case find_strategy key db of None \<Rightarrow> Inl StrategyNotFoundError | Some s \<Rightarrow> Inr s)"

definition referenced_asset_ids :: "definition_input \<Rightarrow> int set" where
  "referenced_asset_ids d = set (di_universe d) \<union> set_option (di_benchmark d)"

definition locked_asset_snapshots :: "int set \<Rightarrow> catalog \<Rightarrow> py_exn + (int \<Rightarrow> instrument option)" where
  "locked_asset_snapshots ids db =
     (case all_or_error (map make_instrument (filter (\<lambda>a. in_asset a \<in> ids) (ct_assets db))) of
        Inl e \<Rightarrow> Inl e
      | Inr snapshots \<Rightarrow>
          let m = map_of (map (\<lambda>i. (in_asset i, i)) snapshots)
          in if \<exists>a \<in> ids. m a = None then Inl StrategyDefinitionError else Inr m)"

definition versions_of :: "int \<Rightarrow> catalog \<Rightarrow> version_row list" where
  "versions_of sid db = filter (\<lambda>v. sv_strategy v = sid) (ct_versions db)"

definition latest_version :: "int \<Rightarrow> catalog \<Rightarrow> int option" where
  "latest_version sid db =
     (case map sv_number (versions_of sid db) of [] \<Rightarrow> None | n # ns \<Rightarrow> Some (fold max ns n))"

definition next_version :: "int \<Rightarrow> catalog \<Rightarrow> int" where
  "next_version sid db = (case latest_version sid db of None \<Rightarrow> 0 | Some n \<Rightarrow> n) + 1"

definition store_version ::
  "int \<Rightarrow> strategy_row \<Rightarrow> canonical_definition \<Rightarrow> catalog \<Rightarrow> (py_exn + version_row) \<times> catalog" where
  "store_version uid s c db =
     (case (definition_hash c, canonical_payload c) of
        (Inr h, Inr payload) \<Rightarrow>
          (case find (\<lambda>v. sv_hash v = h) (versions_of (st_id s) db) of
             Some v \<Rightarrow> (Inr v, db)
           | None \<Rightarrow>
               let row = \<lparr>sv_id = uid, sv_strategy = st_id s, sv_number = next_version (st_id s) db,
                          sv_schema = ''1'', sv_hash = h, sv_payload = payload\<rparr>
               in (Inr row, db\<lparr>ct_versions := ct_versions db @ [row]\<rparr>))
      | (Inl e, _) \<Rightarrow> (Inl e, db)
      | (_, Inl e) \<Rightarrow> (Inl e, db))"

definition create_version ::
  "int \<Rightarrow> string \<Rightarrow> definition_input \<Rightarrow> catalog \<Rightarrow> (py_exn + version_row) \<times> catalog" where
  "create_version uid key d db =
     (case locked_strategy key db of
        Inl e \<Rightarrow> (Inl e, db)
      | Inr s \<Rightarrow>
          (case locked_asset_snapshots (referenced_asset_ids d) db of
             Inl e \<Rightarrow> (Inl e, db)
           | Inr assets \<Rightarrow>
               (case from_input d assets of
                  Inl e \<Rightarrow> (Inl e, db)
                | Inr c \<Rightarrow> store_version uid s c db)))"

text \<open>The check shared with the live evaluator: the stored content still has the stored hash.\<close>

definition verified_definition ::
  "(pyval \<Rightarrow> py_exn + canonical_definition) \<Rightarrow> version_row \<Rightarrow> py_exn + canonical_definition" where
  "verified_definition read v =
     (case read (sv_payload v) of
        Inl e \<Rightarrow> Inl StrategyDefinitionError
      | Inr c \<Rightarrow>
          (case definition_hash c of
             Inl e \<Rightarrow> Inl e
           | Inr h \<Rightarrow> if h \<noteq> sv_hash v then Inl StrategyDefinitionError else Inr c))"

definition get_canonical_definition ::
  "(pyval \<Rightarrow> py_exn + canonical_definition) \<Rightarrow> string \<Rightarrow> int \<Rightarrow> catalog
     \<Rightarrow> py_exn + (version_reference \<times> canonical_definition)" where
  "get_canonical_definition read key n db =
     (case [(s, v). s \<leftarrow> ct_strategies db, v \<leftarrow> ct_versions db,
              sv_strategy v = st_id s \<and> st_key s = key \<and> sv_number v = n] of
        [] \<Rightarrow> Inl StrategyNotFoundError
      | (s, v) # _ \<Rightarrow>
          (case verified_definition read v of
             Inl e \<Rightarrow> Inl e
           | Inr c \<Rightarrow>
               (case make_version_reference
                       \<lparr>vr_key = st_key s, vr_version = sv_number v, vr_hash = sv_hash v\<rparr> of
                  Inl e \<Rightarrow> Inl e
                | Inr r \<Rightarrow> Inr (r, c))))"

section \<open>The tables over time\<close>

text \<open>
  The transactions of all processes on what the validators of the contracts return: \<open>authored\<close> is
  what they establish of the dictionaries and floats of a definition.  A UUID is new; the asset
  registry is changed by others.
\<close>

definition authored :: "definition_input \<Rightarrow> bool" where
  "authored d \<longleftrightarrow>
     canonical_value (PDict (di_parameters d)) \<and> canonical_value (PDict (pr_sizing (di_position d)))
     \<and> (\<forall>s \<in> set (di_signals d). canonical_value (PDict (sg_definition s)))
     \<and> canonical_value (PFloat (xa_fee (di_execution d))) \<and> canonical_value (PFloat (xa_slippage (di_execution d)))"

inductive catalog_step :: "catalog \<Rightarrow> catalog \<Rightarrow> bool" where
  strategy_created: "uid \<notin> st_id ` set (ct_strategies db) \<Longrightarrow> make_metadata raw = Inr md \<Longrightarrow>
     catalog_step db (snd (create_strategy uid md id db))"
| version_created: "authored d \<Longrightarrow> catalog_step db (snd (create_version uid key d db))"
| assets_changed: "catalog_step db (db\<lparr>ct_assets := assets\<rparr>)"

abbreviation catalog_steps :: "catalog \<Rightarrow> catalog \<Rightarrow> bool" where
  "catalog_steps \<equiv> catalog_step\<^sup>*\<^sup>*"

definition empty_catalog :: catalog where
  "empty_catalog = \<lparr>ct_strategies = [], ct_versions = [], ct_assets = []\<rparr>"

definition content_addressed :: "version_row \<Rightarrow> bool" where
  "content_addressed v \<longleftrightarrow> (\<exists>c. canonical_content c \<and> canonical_payload c = Inr (sv_payload v) \<and> definition_hash c = Inr (sv_hash v))"

definition catalog_ok :: "catalog \<Rightarrow> bool" where
  "catalog_ok db \<longleftrightarrow>
     (\<forall>s \<in> set (ct_strategies db). identifier_pattern (st_key s) \<and> py_strip (st_key s) = st_key s)
     \<and> distinct (map st_key (ct_strategies db)) \<and> distinct (map st_id (ct_strategies db))
     \<and> (\<forall>sid. map sv_number (versions_of sid db) = [1..int (length (versions_of sid db))]
              \<and> distinct (map sv_hash (versions_of sid db)))
     \<and> (\<forall>v \<in> set (ct_versions db). content_addressed v)"

lemma find_strategy_None: "find_strategy key db = None \<longleftrightarrow> key \<notin> st_key ` set (ct_strategies db)"
  by (auto simp: find_strategy_def find_None_iff)

lemma fold_max_upto: "m \<le> n \<Longrightarrow> fold max [m..n] k = max k (n :: int)"
proof (induction "nat (n - m)" arbitrary: m k)
  case 0
  then have "[m..n] = [m]" by (simp add: upto_single)
  then show ?case using 0 by (simp add: max.commute)
next
  case (Suc x)
  then have "[m..n] = m # [m + 1..n]" "m + 1 \<le> n" by (auto simp: upto_rec1)
  then show ?case using Suc by (simp add: max_def)
qed

lemma next_version_ok:
  assumes "map sv_number (versions_of sid db) = [1..int n]"
  shows "next_version sid db = int n + 1"
proof (cases n)
  case 0
  then show ?thesis using assms by (simp add: next_version_def latest_version_def)
next
  case (Suc m)
  then have "[1..int n] = 1 # [2..int n]" by (simp add: upto_rec1)
  then have "latest_version sid db = Some (fold max [2..int n] 1)"
    using assms by (simp add: latest_version_def)
  moreover have "fold max [2..int n] 1 = int n"
    using Suc fold_max_upto [of 2 "int n" 1] by (cases "m = 0") auto
  ultimately show ?thesis by (simp add: next_version_def)
qed

lemma store_version_cases:
  obtains e where "store_version uid s c db = (Inl e, db)"
  | v where "store_version uid s c db = (Inr v, db)" "v \<in> set (versions_of (st_id s) db)" "definition_hash c = Inr (sv_hash v)"
  | v where "store_version uid s c db = (Inr v, db\<lparr>ct_versions := ct_versions db @ [v]\<rparr>)"
      "sv_id v = uid" "sv_strategy v = st_id s" "sv_number v = next_version (st_id s) db"
      "definition_hash c = Inr (sv_hash v)" "canonical_payload c = Inr (sv_payload v)"
      "sv_hash v \<notin> sv_hash ` set (versions_of (st_id s) db)"
proof -
  consider (err) e where "store_version uid s c db = (Inl e, db)"
    | (ok) h p where "definition_hash c = Inr h" "canonical_payload c = Inr p"
    by (cases "definition_hash c"; cases "canonical_payload c") (auto simp: store_version_def)
  then show thesis
  proof cases
    case ok
    show thesis
    proof (cases "find (\<lambda>v. sv_hash v = h) (versions_of (st_id s) db)")
      case None
      then have "h \<notin> sv_hash ` set (versions_of (st_id s) db)" by (auto simp: find_None_iff)
      then show thesis using None ok by (intro that(3)) (auto simp: store_version_def Let_def)
    next
      case (Some v)
      then have "v \<in> set (versions_of (st_id s) db)" "sv_hash v = h" by (auto simp: find_Some_iff)
      then show thesis using Some ok by (intro that(2)) (auto simp: store_version_def)
    qed
  qed (rule that(1))
qed

lemma create_version_cases:
  obtains (failed) e where "create_version uid key d db = (Inl e, db)"
  | (stored) s assets c where "find_strategy key db = Some s"
      "locked_asset_snapshots (referenced_asset_ids d) db = Inr assets"
      "from_input d assets = Inr c" "create_version uid key d db = store_version uid s c db"
proof -
  have "(\<exists>e. create_version uid key d db = (Inl e, db)) \<or>
    (\<exists>s assets c. find_strategy key db = Some s \<and> locked_asset_snapshots (referenced_asset_ids d) db = Inr assets
      \<and> from_input d assets = Inr c \<and> create_version uid key d db = store_version uid s c db)"
    by (cases "find_strategy key db"; cases "locked_asset_snapshots (referenced_asset_ids d) db")
      (auto simp: create_version_def locked_strategy_def split: sum.splits)
  then show thesis using that by blast
qed

lemma versions_of_append:
  "versions_of sid (db\<lparr>ct_versions := ct_versions db @ [v]\<rparr>) =
     versions_of sid db @ (if sv_strategy v = sid then [v] else [])"
  by (simp add: versions_of_def)

lemma from_input_content:
  assumes "from_input d assets = Inr c" and "authored d"
  shows "canonical_content c"
  using assms
  by (auto simp: from_input_def make_canonical_definition_def canonical_content_def authored_def Let_def
      simp del: canonical_value.simps split: if_splits)

lemma make_metadata_key:
  assumes "make_metadata raw = Inr md"
  shows "identifier_pattern (md_key md) \<and> py_strip (md_key md) = md_key md"
  using assms by (auto simp: make_metadata_def Let_def py_strip_idem split: if_splits)

lemma catalog_ok_store:
  assumes "catalog_ok db" and "canonical_content c"
  shows "catalog_ok (snd (store_version uid s c db))"
proof (cases rule: store_version_cases [of uid s c db])
  case (3 v)
  have n: "next_version (st_id s) db = int (length (versions_of (st_id s) db)) + 1"
    using assms by (intro next_version_ok) (simp add: catalog_ok_def)
  have "content_addressed v" using 3(5,6) assms(2) by (auto simp: content_addressed_def)
  then show ?thesis
    using assms 3 n by (auto simp: catalog_ok_def versions_of_append upto_rec2)
qed (use assms in simp_all)

lemma catalog_step_ok: "catalog_step db db' \<Longrightarrow> catalog_ok db \<Longrightarrow> catalog_ok db'"
proof (induction rule: catalog_step.induct)
  case (strategy_created uid db raw md)
  then show ?case
    by (auto dest!: make_metadata_key simp: create_strategy_def Let_def catalog_ok_def find_strategy_None versions_of_def)
next
  case (version_created d db uid key)
  then show ?case
    by (cases rule: create_version_cases [of uid key d db]) (auto intro: catalog_ok_store from_input_content)
next
  case (assets_changed db assets)
  then show ?case by (simp add: catalog_ok_def versions_of_def)
qed

lemma catalog_step_prefix: "catalog_step db db' \<Longrightarrow> prefix (ct_versions db) (ct_versions db')"
proof (induction rule: catalog_step.induct)
  case (version_created d db uid key)
  show ?case
  proof (cases rule: create_version_cases [of uid key d db])
    case (stored s assets c)
    then show ?thesis by (cases rule: store_version_cases [of uid s c db]) auto
  qed simp
qed (auto simp: create_strategy_def Let_def)

lemma catalog_steps_ok: "catalog_steps db db' \<Longrightarrow> catalog_ok db \<Longrightarrow> catalog_ok db' \<and> prefix (ct_versions db) (ct_versions db')"
  by (induction rule: rtranclp_induct) (auto dest: catalog_step_ok catalog_step_prefix)

lemma empty_catalog_ok [simp]: "catalog_ok empty_catalog"
  by (simp add: catalog_ok_def empty_catalog_def versions_of_def)

text \<open>
  A lost race between two first creations is the domain error, and the outcome of a creation is
  that of one step, before or after what the other transactions committed.
\<close>

lemma create_strategy_atomic:
  "create_strategy uid md (\<lambda>_. db1) db =
     (if find_strategy (md_key md) db \<noteq> None then create_strategy uid md id db
      else create_strategy uid md id db1)"
  by (auto simp: create_strategy_def Let_def)

section \<open>Digests\<close>

lemma length_sha_round: "length st = 8 \<Longrightarrow> length (sha_round st kw) = 8"
  by (cases "(st, kw)" rule: sha_round.cases) (auto simp: sha_update.simps)

lemma length_sha_rounds: "length st = 8 \<Longrightarrow> length (foldl sha_round st kws) = 8"
  by (induction kws arbitrary: st) (auto simp: length_sha_round)

lemma length_sha_blocks: "length st = 8 \<Longrightarrow> length (sha_blocks n st ws) = 8"
  by (induction n arbitrary: st ws) (auto simp: sha_block_def length_sha_rounds)

lemma length_sha256: "length (sha256 bs) = 32"
proof -
  have "length (sha_blocks n sha256_h0 ws) = 8" for n ws
    by (rule length_sha_blocks) (simp add: sha256_h0_def)
  then show ?thesis by (simp add: sha256_def Let_def length_concat o_def sum_list_triv)
qed

lemma hex_digit_pattern: "n < 16 \<Longrightarrow> is_digit (hex_digit n) \<or> hex_digit n \<in> set ''abcdef''"
proof (cases "n < 10")
  case True
  then show ?thesis by (simp add: hex_digit_def is_digit_char)
next
  case False
  assume "n < 16"
  then consider "n = 10" | "n = 11" | "n = 12" | "n = 13" | "n = 14" | "n = 15" using False by linarith
  then show ?thesis by cases (simp_all add: hex_digit_def char_of_def bit_Suc bit_0)
qed

lemma sha256_pattern_hexdigest: "sha256_pattern (hexdigest (sha256 bs))"
proof -
  have "length (hexdigest (sha256 bs)) = 64"
    by (simp add: hexdigest_def length_concat o_def sum_list_triv length_sha256)
  moreover have "unat (b :: byte) div 16 < 16" for b
    using unsigned_less [of b, where 'a = nat] by simp
  ultimately show ?thesis
    using hex_digit_pattern by (auto simp: sha256_pattern_def hexdigest_def list_all_iff)
qed

section \<open>History\<close>

lemma catalog_step_strategies: "catalog_step db db' \<Longrightarrow> prefix (ct_strategies db) (ct_strategies db')"
proof (induction rule: catalog_step.induct)
  case (version_created d db uid key)
  show ?case
  proof (cases rule: create_version_cases [of uid key d db])
    case (stored s assets c)
    then show ?thesis by (cases rule: store_version_cases [of uid s c db]) auto
  qed simp
qed (auto simp: create_strategy_def Let_def)

lemma catalog_steps_strategies: "catalog_steps db db' \<Longrightarrow> prefix (ct_strategies db) (ct_strategies db')"
  by (induction rule: rtranclp_induct) (auto dest: catalog_step_strategies)

lemma find_append: "find P (xs @ ys) = (case find P xs of None \<Rightarrow> find P ys | Some x \<Rightarrow> Some x)"
  by (induction xs) auto

lemma find_strategy_stable:
  assumes "catalog_steps db db'" and "find_strategy key db = Some s"
  shows "find_strategy key db' = Some s"
  using catalog_steps_strategies [OF assms(1)] assms(2)
  by (auto simp: find_strategy_def find_append elim!: prefixE)

lemma versions_of_stable:
  assumes "catalog_steps db db'" and "catalog_ok db" and "v \<in> set (versions_of sid db)"
  shows "v \<in> set (versions_of sid db')"
  using catalog_steps_ok [OF assms(1,2)] assms(3) by (auto simp: versions_of_def elim!: prefixE)

lemma find_distinct:
  assumes "distinct (map f xs)" and "x \<in> set xs"
  shows "find (\<lambda>y. f y = f x) xs = Some x"
  using assms by (induction xs) (auto simp: rev_image_eqI)

text \<open>
  C8: Whatever strategies, versions and asset changes are committed in whatever order, keys and
  ids stay unique, the versions of a strategy are numbered 1 to n without hole or duplicate and
  have distinct hashes, every row holds the payload and the hash of one valid definition, and a
  committed version is never changed or removed.
\<close>

theorem catalog_history_ok:
  assumes "catalog_steps empty_catalog db" and "catalog_steps db db'"
  shows "catalog_ok db' \<and> prefix (ct_versions db) (ct_versions db')
    \<and> map sv_number (versions_of sid db') = [1..int (length (versions_of sid db'))]"
  using catalog_steps_ok [OF assms(1) empty_catalog_ok] catalog_steps_ok [OF assms(2)] by (auto simp: catalog_ok_def)

lemma create_version_stored:
  assumes "create_version uid key d db = (Inr v, db')"
  obtains s assets c where "find_strategy key db = Some s"
    and "locked_asset_snapshots (referenced_asset_ids d) db = Inr assets" and "from_input d assets = Inr c"
    and "definition_hash c = Inr (sv_hash v)" and "v \<in> set (versions_of (st_id s) db')" and "ct_strategies db' = ct_strategies db"
proof (cases rule: create_version_cases [of uid key d db])
  case (failed e)
  then show thesis using assms by simp
next
  case (stored s assets c)
  show thesis
    by (cases rule: store_version_cases [of uid s c db])
      (use stored assms that [OF stored(1-3)] in \<open>auto simp: versions_of_append\<close>)
qed

lemma create_version_step:
  assumes "authored d" and "create_version uid key d db = (r, db')"
  shows "catalog_step db db'"
  using version_created [OF assms(1), of db uid key] assms(2) by simp

text \<open>
  Creating a version is idempotent for good: once a definition is stored, the same request
  returns the same version and changes nothing, whatever else was created since, as long as the
  assets are described as they were.
\<close>

theorem create_version_idempotent:
  assumes "catalog_ok db" and "authored d" and "create_version uid key d db = (Inr v, db')"
    and "catalog_steps db' later" and "ct_assets later = ct_assets db"
  shows "create_version uid' key d later = (Inr v, later)"
proof -
  obtain s assets c where s: "find_strategy key db = Some s"
      "locked_asset_snapshots (referenced_asset_ids d) db = Inr assets" "from_input d assets = Inr c"
      "definition_hash c = Inr (sv_hash v)" "v \<in> set (versions_of (st_id s) db')" "ct_strategies db' = ct_strategies db"
    using assms(3) by (rule create_version_stored)
  have ok': "catalog_ok db'" using create_version_step [OF assms(2,3)] assms(1) by (rule catalog_step_ok)
  have ok: "catalog_ok later" using catalog_steps_ok [OF assms(4) ok'] ..
  have "find_strategy key db' = Some s" using s(1,6) by (simp add: find_strategy_def)
  then have 1: "find_strategy key later = Some s" by (rule find_strategy_stable [OF assms(4)])
  have 2: "locked_asset_snapshots (referenced_asset_ids d) later = Inr assets"
    using s(2) assms(5) by (simp add: locked_asset_snapshots_def)
  have "v \<in> set (versions_of (st_id s) later)" by (rule versions_of_stable [OF assms(4) ok' s(5)])
  then have "find (\<lambda>w. sv_hash w = sv_hash v) (versions_of (st_id s) later) = Some v"
    using ok by (intro find_distinct) (simp_all add: catalog_ok_def)
  moreover obtain p where "canonical_payload c = Inr p"
    using s(4) by (auto simp: definition_hash_def canonical_json_def map_sum_Inr)
  ultimately show ?thesis
    using 1 2 s(3,4) by (simp add: create_version_def locked_strategy_def store_version_def)
qed

section \<open>Loading\<close>

definition same_digest :: "canonical_definition \<Rightarrow> canonical_definition \<Rightarrow> bool" where
  "same_digest c d \<longleftrightarrow> (\<exists>h. definition_hash c = Inr h \<and> definition_hash d = Inr h)"

text \<open>Two different canonical texts with one SHA-256 digest.\<close>

definition sha_collision :: "canonical_definition \<Rightarrow> canonical_definition \<Rightarrow> bool" where
  "sha_collision c d \<longleftrightarrow>
     (\<exists>t u. canonical_json c = Inr t \<and> canonical_json d = Inr u \<and> t \<noteq> u
        \<and> hexdigest (sha256 (encode_ascii t)) = hexdigest (sha256 (encode_ascii u)))"

lemma same_digest_iff:
  assumes "canonical_content c" and "canonical_content d"
  shows "same_digest c d \<longleftrightarrow> c = d \<or> sha_collision c d"
proof -
  obtain t u where t: "canonical_json c = Inr t" "canonical_json d = Inr u"
    using canonical_json_total assms by metis
  have "t = u \<Longrightarrow> c = d" using text_determines [OF assms t(1)] t(2) by simp
  then show ?thesis using t by (auto simp: same_digest_def sha_collision_def definition_hash_def)
qed

lemma find_version:
  assumes "catalog_ok db" and "find_strategy key db = Some s" and "v0 \<in> set (versions_of (st_id s) db)"
  shows "\<exists>rest. [(s, v). s \<leftarrow> ct_strategies db, v \<leftarrow> ct_versions db,
           sv_strategy v = st_id s \<and> st_key s = key \<and> sv_number v = sv_number v0] = (s, v0) # rest"
proof -
  let ?all = "[(s, v). s \<leftarrow> ct_strategies db, v \<leftarrow> ct_versions db,
           sv_strategy v = st_id s \<and> st_key s = key \<and> sv_number v = sv_number v0]"
  have s: "s \<in> set (ct_strategies db)" "st_key s = key"
    using assms(2) by (auto simp: find_strategy_def find_Some_iff)
  have v: "v0 \<in> set (ct_versions db)" "sv_strategy v0 = st_id s" using assms(3) by (auto simp: versions_of_def)
  have "(s, v0) \<in> set ?all" using s v by auto
  then have "?all \<noteq> []" by (metis list.distinct(1) list.set_cases)
  then obtain p rest where p: "?all = p # rest" by (cases ?all) blast+
  then have "p \<in> set ?all" by simp
  then obtain s' v' where q: "p = (s', v')" "s' \<in> set (ct_strategies db)" "v' \<in> set (ct_versions db)"
      "sv_strategy v' = st_id s'" "st_key s' = key" "sv_number v' = sv_number v0" by auto
  have "s' = s" using assms(1) s q(2,5) by (auto simp: catalog_ok_def distinct_map inj_on_def)
  moreover have "distinct (map sv_number (versions_of (st_id s) db))"
    using assms(1) by (simp add: catalog_ok_def)
  then have "v' = v0" using q(3,4,6) v \<open>s' = s\<close> by (auto simp: distinct_map inj_on_def versions_of_def)
  ultimately show ?thesis using p q(1) by blast
qed

lemma get_canonical_definition_found:
  assumes "catalog_ok db" and "find_strategy key db = Some s" and "v \<in> set (versions_of (st_id s) db)"
  shows "get_canonical_definition read key (sv_number v) db =
    map_sum id (\<lambda>c. (\<lparr>vr_key = key, vr_version = sv_number v, vr_hash = sv_hash v\<rparr>, c)) (verified_definition read v)"
proof -
  have s: "s \<in> set (ct_strategies db)" "st_key s = key"
    using assms(2) by (auto simp: find_strategy_def find_Some_iff)
  have key: "identifier_pattern key" "py_strip key = key" using assms(1) s by (auto simp: catalog_ok_def)
  have "sv_number v \<in> set [1..int (length (versions_of (st_id s) db))]"
    using assms(1,3) by (metis catalog_ok_def image_eqI set_map)
  then have n: "1 \<le> sv_number v" by simp
  have "content_addressed v" using assms(1,3) by (auto simp: catalog_ok_def versions_of_def)
  then have h: "sha256_pattern (sv_hash v)"
    using sha256_pattern_hexdigest by (auto simp: content_addressed_def definition_hash_def map_sum_Inr)
  have "make_version_reference \<lparr>vr_key = key, vr_version = sv_number v, vr_hash = sv_hash v\<rparr> =
      Inr \<lparr>vr_key = key, vr_version = sv_number v, vr_hash = sv_hash v\<rparr>"
    using key n h by (auto simp: make_version_reference_def length_within_def identifier_pattern_def sha256_pattern_def Let_def
        Suc_le_eq)
  then show ?thesis
    using find_version [OF assms] s(2)
    by (auto simp: get_canonical_definition_def split: sum.splits)
qed

text \<open>
  C22: What is stored is what is loaded.  A version that was created can be loaded at any later
  time: if the JSONB column and the model reader give back some valid definition for the stored
  payload, the call returns it when it is the authored one and refuses it when it is another,
  unless two texts with the same SHA-256 digest were found.
\<close>

theorem load_returns_authored_or_refuses:
  assumes "catalog_ok db" and "authored d" and "create_version uid key d db = (Inr v, db')"
    and "catalog_steps db' later" and "read (sv_payload v) = Inr c" and "canonical_content c"
  shows "\<exists>assets a. locked_asset_snapshots (referenced_asset_ids d) db = Inr assets \<and> from_input d assets = Inr a
    \<and> get_canonical_definition read key (sv_number v) later =
        (if c = a \<or> sha_collision c a
         then Inr (\<lparr>vr_key = key, vr_version = sv_number v, vr_hash = sv_hash v\<rparr>, c)
         else Inl StrategyDefinitionError)"
proof -
  obtain s assets a where s: "find_strategy key db = Some s"
      "locked_asset_snapshots (referenced_asset_ids d) db = Inr assets" "from_input d assets = Inr a"
      "definition_hash a = Inr (sv_hash v)" "v \<in> set (versions_of (st_id s) db')" "ct_strategies db' = ct_strategies db"
    using assms(3) by (rule create_version_stored)
  have ok': "catalog_ok db'" using create_version_step [OF assms(2,3)] assms(1) by (rule catalog_step_ok)
  have ok: "catalog_ok later" using catalog_steps_ok [OF assms(4) ok'] ..
  have "find_strategy key db' = Some s" using s(1,6) by (simp add: find_strategy_def)
  then have 1: "find_strategy key later = Some s" by (rule find_strategy_stable [OF assms(4)])
  have 2: "v \<in> set (versions_of (st_id s) later)" by (rule versions_of_stable [OF assms(4) ok' s(5)])
  have a: "canonical_content a" by (rule from_input_content [OF s(3) assms(2)])
  obtain h where h: "definition_hash c = Inr h"
    using canonical_json_total [OF assms(6)] by (auto simp: definition_hash_def)
  have "h = sv_hash v \<longleftrightarrow> c = a \<or> sha_collision c a"
    using same_digest_iff [OF assms(6) a] s(4) h by (auto simp: same_digest_def)
  then have "verified_definition read v =
      (if c = a \<or> sha_collision c a then Inr c else Inl StrategyDefinitionError)"
    using h assms(5) by (auto simp: verified_definition_def)
  then show ?thesis
    using s(2,3) get_canonical_definition_found [OF ok 1 2, of read] by (intro exI [of _ assets] exI [of _ a]) simp
qed

section \<open>Witnesses\<close>

definition sample_db :: catalog where
  "sample_db = \<lparr>ct_strategies = [\<lparr>st_id = 1, st_key = ''k'', st_name = ''K'', st_description = None\<rparr>], ct_versions = [],
     ct_assets = [the (sample_asset 3), the (sample_asset 7)]\<rparr>"

lemma sample_instrument: "0 < a \<Longrightarrow> make_instrument (the (sample_asset a)) = Inr (the (sample_asset a))"
proof -
  have "normalize_instrument_identifier ''BTC'' = Inr ''BTC''" "normalize_instrument_identifier ''B'' = Inr ''B''"
    "normalize_instrument_identifier ''C'' = Inr ''C''" by code_simp+
  then show "0 < a \<Longrightarrow> ?thesis" by (simp add: make_instrument_def sample_asset_def)
qed

lemma sample_snapshots:
  "locked_asset_snapshots (referenced_asset_ids sample_input) sample_db =
     Inr [3 \<mapsto> the (sample_asset 3), 7 \<mapsto> the (sample_asset 7)]"
proof -
  have "referenced_asset_ids sample_input = {3, 7}"
    by (auto simp: referenced_asset_ids_def sample_input_def)
  moreover have "filter (\<lambda>a. in_asset a \<in> {3, 7}) (ct_assets sample_db) = ct_assets sample_db"
    by (simp add: sample_db_def sample_asset_def)
  moreover have "map make_instrument (ct_assets sample_db) = map Inr (ct_assets sample_db)"
    by (simp add: sample_db_def sample_instrument)
  ultimately show ?thesis
    by (simp add: locked_asset_snapshots_def Let_def) (simp add: sample_db_def sample_asset_def fun_upd_def fun_eq_iff)
qed

lemma sample_authored: "authored sample_input"
  by (simp add: authored_def sample_input_def sample_signal_def fl_def)

lemma sample_db_ok: "catalog_ok sample_db"
proof -
  have "identifier_pattern ''k''" "py_strip ''k'' = ''k''" by code_simp+
  then show ?thesis by (simp add: catalog_ok_def sample_db_def versions_of_def)
qed

lemma sample_from_input: "\<exists>c. from_input sample_input [3 \<mapsto> the (sample_asset 3), 7 \<mapsto> the (sample_asset 7)] = Inr c"
  by (simp add: from_input_def sample_input_def make_canonical_definition_def validate_canonical_universe_def
      sample_asset_def sample_signal_def signal_key_def)

lemma sample_created: "\<exists>v db'. create_version 1 ''k'' sample_input sample_db = (Inr v, db') \<and> ct_assets db' = ct_assets sample_db"
proof -
  obtain c where c: "from_input sample_input [3 \<mapsto> the (sample_asset 3), 7 \<mapsto> the (sample_asset 7)] = Inr c"
    using sample_from_input by blast
  have content: "canonical_content c" by (rule from_input_content [OF c sample_authored])
  obtain h p where "definition_hash c = Inr h" "canonical_payload c = Inr p"
    using canonical_json_total [OF content] by (auto simp: definition_hash_def canonical_json_def map_sum_Inr)
  moreover have "find_strategy ''k'' sample_db = Some (hd (ct_strategies sample_db))"
    by (simp add: find_strategy_def sample_db_def)
  moreover have "versions_of 1 sample_db = []" "st_id (hd (ct_strategies sample_db)) = 1" by (simp_all add: versions_of_def sample_db_def)
  ultimately show ?thesis
    using c by (auto simp: create_version_def locked_strategy_def sample_snapshots store_version_def Let_def)
qed

lemma create_version_idempotent_witness:
  "\<exists>v db'. create_version 1 ''k'' sample_input sample_db = (Inr v, db') \<and> create_version 2 ''k'' sample_input db' = (Inr v, db')"
  using sample_created create_version_idempotent [OF sample_db_ok sample_authored _ rtranclp.rtrancl_refl] by blast

lemma load_returns_authored_or_refuses_witness:
  "\<exists>v db' assets a c. create_version 1 ''k'' sample_input sample_db = (Inr v, db')
    \<and> from_input sample_input assets = Inr a
    \<and> get_canonical_definition (\<lambda>p. Inr sample_canonical) ''k'' (sv_number v) db' =
        (if sample_canonical = a \<or> sha_collision sample_canonical a
         then Inr (\<lparr>vr_key = ''k'', vr_version = sv_number v, vr_hash = sv_hash v\<rparr>, sample_canonical)
         else Inl StrategyDefinitionError)"
  using sample_created load_returns_authored_or_refuses [OF sample_db_ok sample_authored _ rtranclp.rtrancl_refl,
      where read = "\<lambda>p. Inr sample_canonical", OF _ refl sample_canonical_content] by blast

lemma sample_steps: "catalog_steps empty_catalog sample_db"
proof -
  let ?md = "\<lparr>md_key = ''k'', md_name = ''K'', md_description = None\<rparr>"
  let ?db = "empty_catalog\<lparr>ct_assets := ct_assets sample_db\<rparr>"
  have md: "make_metadata ?md = Inr ?md"
  proof -
    have "identifier_pattern ''k''" "py_strip ''k'' = ''k''" "py_strip ''K'' = ''K''" by code_simp+
    then show ?thesis by (simp add: make_metadata_def length_within_def)
  qed
  have "catalog_step ?db (snd (create_strategy 1 ?md id ?db))"
    by (rule strategy_created [OF _ md]) (simp add: empty_catalog_def)
  moreover have "snd (create_strategy 1 ?md id ?db) = sample_db"
    by (simp add: create_strategy_def find_strategy_def empty_catalog_def sample_db_def Let_def)
  ultimately show ?thesis using assets_changed [of empty_catalog "ct_assets sample_db"] by simp
qed

lemma catalog_history_ok_witness:
  "\<exists>v db'. create_version 1 ''k'' sample_input sample_db = (Inr v, db') \<and> catalog_ok db'
     \<and> map sv_number (versions_of 1 db') = [1..int (length (versions_of 1 db'))]"
  using sample_created catalog_history_ok [OF sample_steps r_into_rtranclp [of catalog_step, OF create_version_step [OF sample_authored]]]
  by blast

end
