(* ===== verification/Backtest.thy ===== *)
theory Backtest
  imports Divergence Strategy_Catalog
begin

text \<open>
  \<open>app/backtests/contracts.py\<close>: the validated output of a backtest and its deterministic identity.
  Each \<open>make_\<close> function takes the raw fields in a record and the raw times as arguments, and returns
  what the model stores.  The text pydantic gives a time is the parameter \<open>tt\<close>.
\<close>

section \<open>Validation\<close>

definition MAX_BACKTEST_TRADES :: nat where "MAX_BACKTEST_TRADES = 10000"
definition MAX_BACKTEST_SIGNALS :: nat where "MAX_BACKTEST_SIGNALS = 20000"

definition normalize_utc :: "pydatetime \<Rightarrow> py_exn + usec" where
  "normalize_utc t = (if is_aware t then Inr (utc t) else Inl validation_error)"

definition dec_adjusted :: "decimal \<Rightarrow> int" where
  "dec_adjusted d = dec_exp d + int (dec_digits (dec_coeff d)) - 1"

text \<open>\<open>_normalize_decimal\<close>: the value must fit \<open>NUMERIC(max_digits, places)\<close>.\<close>

definition normalize_decimal :: "int \<Rightarrow> int \<Rightarrow> decimal \<Rightarrow> py_exn + decimal" where
  "normalize_decimal max_digits places d =
     (let n = dec_normalize d;
          v = (if dec_coeff n = 0 then Dec 0 0 else n);
          frac = max (- dec_exp v) 0;
          whole = max (dec_adjusted v + 1) 0
      in if places < frac \<or> max_digits < whole + frac then Inl validation_error else Inr v)"

abbreviation amount :: "decimal \<Rightarrow> py_exn + decimal" where "amount \<equiv> normalize_decimal 24 8"
abbreviation ratio :: "decimal \<Rightarrow> py_exn + decimal" where "ratio \<equiv> normalize_decimal 24 12"

definition opt_checked :: "('a \<Rightarrow> py_exn + 'a) \<Rightarrow> 'a option \<Rightarrow> py_exn + 'a option" where
  "opt_checked f x = (case x of None \<Rightarrow> Inr None | Some v \<Rightarrow> map_sum id Some (f v))"

text \<open>Validators run one after the other; each failure is the same \<open>ValidationError\<close>.\<close>

definition and_then :: "'e + 'a \<Rightarrow> ('a \<Rightarrow> 'e + 'b) \<Rightarrow> 'e + 'b" where
  "and_then x f = (case x of Inl e \<Rightarrow> Inl e | Inr a \<Rightarrow> f a)"

definition require :: "bool \<Rightarrow> py_exn + unit" where
  "require c = (if c then Inr () else Inl validation_error)"

definition nonblank :: "nat \<Rightarrow> string \<Rightarrow> py_exn + string" where
  "nonblank n s = (if length_within 1 n s \<and> py_strip s \<noteq> [] then Inr (py_strip s) else Inl validation_error)"

record data_reference =
  dr_source :: string
  dr_version :: string
  dr_coverage :: "string option"

definition make_data_reference :: "data_reference \<Rightarrow> py_exn + data_reference" where
  "make_data_reference r =
     (and_then (nonblank 128 (dr_source r)) (\<lambda>s.
      and_then (nonblank 256 (dr_version r)) (\<lambda>v.
      and_then (opt_checked (nonblank 256) (dr_coverage r)) (\<lambda>c.
      Inr \<lparr>dr_source = s, dr_version = v, dr_coverage = c\<rparr>))))"

record reproducibility =
  rp_evaluator :: string
  rp_revision :: string
  rp_seed :: "int option"
  rp_config :: json_dict

definition make_reproducibility :: "reproducibility \<Rightarrow> py_exn + reproducibility" where
  "make_reproducibility r =
     (and_then (nonblank 128 (rp_evaluator r)) (\<lambda>e.
      and_then (nonblank 256 (rp_revision r)) (\<lambda>v.
      and_then (canonical_dict (rp_config r)) (\<lambda>c.
      Inr (r\<lparr>rp_evaluator := e, rp_revision := v, rp_config := c\<rparr>)))))"

record backtest_metrics =
  bm_return :: "decimal option"
  bm_drawdown :: "decimal option"
  bm_volatility :: "decimal option"
  bm_sharpe :: "decimal option"
  bm_sortino :: "decimal option"
  bm_calmar :: "decimal option"
  bm_var :: "decimal option"
  bm_exposure :: decimal
  bm_benchmark :: "decimal option"
  bm_excess :: "decimal option"
  bm_trades :: int
  bm_winning :: int
  bm_losing :: int
  bm_breakeven :: int
  bm_fees :: decimal
  bm_slippage :: decimal

definition make_metrics :: "backtest_metrics \<Rightarrow> py_exn + backtest_metrics" where
  "make_metrics m =
     (and_then (require ((\<forall>d \<in> set_option (bm_drawdown m). dec_unit d) \<and> (\<forall>d \<in> set_option (bm_volatility m). dec_nonneg d)
         \<and> dec_unit (bm_exposure m) \<and> 0 \<le> bm_trades m \<and> 0 \<le> bm_winning m \<and> 0 \<le> bm_losing m \<and> 0 \<le> bm_breakeven m
         \<and> dec_nonneg (bm_fees m) \<and> dec_nonneg (bm_slippage m))) (\<lambda>_.
      and_then (opt_checked ratio (bm_return m)) (\<lambda>r.
      and_then (opt_checked ratio (bm_drawdown m)) (\<lambda>dd.
      and_then (opt_checked ratio (bm_volatility m)) (\<lambda>vol.
      and_then (opt_checked ratio (bm_sharpe m)) (\<lambda>sh.
      and_then (opt_checked ratio (bm_sortino m)) (\<lambda>so.
      and_then (opt_checked ratio (bm_calmar m)) (\<lambda>ca.
      and_then (opt_checked ratio (bm_var m)) (\<lambda>var.
      and_then (ratio (bm_exposure m)) (\<lambda>ex.
      and_then (opt_checked ratio (bm_benchmark m)) (\<lambda>be.
      and_then (opt_checked ratio (bm_excess m)) (\<lambda>xs.
      and_then (amount (bm_fees m)) (\<lambda>fe.
      and_then (amount (bm_slippage m)) (\<lambda>sl.
      and_then (require (bm_winning m + bm_losing m + bm_breakeven m = bm_trades m)) (\<lambda>_.
      Inr (m\<lparr>bm_return := r, bm_drawdown := dd, bm_volatility := vol, bm_sharpe := sh, bm_sortino := so,
                      bm_calmar := ca, bm_var := var, bm_exposure := ex, bm_benchmark := be, bm_excess := xs,
                      bm_fees := fe, bm_slippage := sl\<rparr>))))))))))))))))"

record backtest_trade =
  tr_sequence :: int
  tr_asset :: int
  tr_direction :: signal_direction
  tr_entry_time :: usec
  tr_exit_time :: usec
  tr_entry_price :: decimal
  tr_exit_price :: decimal
  tr_quantity :: decimal
  tr_gross :: decimal
  tr_net :: decimal
  tr_fees :: decimal
  tr_slippage :: decimal
  tr_entry_signal :: "string option"
  tr_exit_signal :: "string option"
  tr_metadata :: json_dict

definition optional_id :: "string option \<Rightarrow> bool" where
  "optional_id s \<longleftrightarrow> (\<forall>t \<in> set_option s. length_within 1 64 t)"

definition make_trade :: "pydatetime \<Rightarrow> pydatetime \<Rightarrow> backtest_trade \<Rightarrow> py_exn + backtest_trade" where
  "make_trade entry_at exit_at t =
     (and_then (require (1 \<le> tr_sequence t \<and> 0 < tr_asset t \<and> 0 < dec_coeff (tr_entry_price t) \<and> 0 < dec_coeff (tr_exit_price t)
         \<and> 0 < dec_coeff (tr_quantity t) \<and> dec_nonneg (tr_fees t) \<and> dec_nonneg (tr_slippage t)
         \<and> optional_id (tr_entry_signal t) \<and> optional_id (tr_exit_signal t) \<and> tr_direction t \<noteq> DIR_FLAT)) (\<lambda>_.
      and_then (normalize_utc entry_at) (\<lambda>a.
      and_then (normalize_utc exit_at) (\<lambda>z.
      and_then (amount (tr_entry_price t)) (\<lambda>ep.
      and_then (amount (tr_exit_price t)) (\<lambda>xp.
      and_then (amount (tr_quantity t)) (\<lambda>q.
      and_then (amount (tr_gross t)) (\<lambda>g.
      and_then (amount (tr_net t)) (\<lambda>n.
      and_then (amount (tr_fees t)) (\<lambda>f.
      and_then (amount (tr_slippage t)) (\<lambda>s.
      and_then (canonical_dict (tr_metadata t)) (\<lambda>md.
      and_then (require (a \<le> z)) (\<lambda>_.
      Inr (t\<lparr>tr_entry_time := a, tr_exit_time := z, tr_entry_price := ep, tr_exit_price := xp, tr_quantity := q,
                      tr_gross := g, tr_net := n, tr_fees := f, tr_slippage := s,
                      tr_entry_signal := map_option py_strip (tr_entry_signal t),
                      tr_exit_signal := map_option py_strip (tr_exit_signal t), tr_metadata := md\<rparr>))))))))))))))"

record backtest_signal =
  bs_sequence :: int
  bs_asset :: int
  bs_type :: strategy_event_type
  bs_time :: usec
  bs_observed :: usec
  bs_signal :: "string option"
  bs_position :: "signal_direction option"
  bs_payload :: json_dict

definition validate_signal_shape :: "backtest_signal \<Rightarrow> bool" where
  "validate_signal_shape s \<longleftrightarrow>
     bs_time s \<le> bs_observed s
     \<and> (bs_type s = EVENT_SIGNAL \<longrightarrow> bs_signal s \<noteq> None)
     \<and> (bs_type s = EVENT_ENTRY \<longrightarrow> bs_signal s \<noteq> None \<and> bs_position s \<in> {Some DIR_LONG, Some DIR_SHORT})
     \<and> (bs_type s = EVENT_EXIT \<longrightarrow> bs_position s = Some DIR_FLAT)
     \<and> (bs_type s = EVENT_POSITION \<longrightarrow> bs_position s \<noteq> None)"

definition make_backtest_signal :: "pydatetime \<Rightarrow> pydatetime \<Rightarrow> backtest_signal \<Rightarrow> py_exn + backtest_signal" where
  "make_backtest_signal event_at observed_at s =
     (and_then (require (1 \<le> bs_sequence s \<and> 0 < bs_asset s \<and> optional_id (bs_signal s))) (\<lambda>_.
      and_then (normalize_utc event_at) (\<lambda>a.
      and_then (normalize_utc observed_at) (\<lambda>z.
      and_then (canonical_dict (bs_payload s)) (\<lambda>p.
      let s' = s\<lparr>bs_time := a, bs_observed := z, bs_signal := map_option py_strip (bs_signal s), bs_payload := p\<rparr>
      in if validate_signal_shape s' then Inr s' else Inl validation_error)))))"

record backtest_input =
  bi_version :: int
  bi_data :: data_reference
  bi_start :: usec
  bi_end :: usec
  bi_capital :: decimal
  bi_equity :: decimal
  bi_metrics :: backtest_metrics
  bi_trades :: "backtest_trade list"
  bi_signals :: "backtest_signal list"
  bi_generated :: usec
  bi_repro :: reproducibility

definition dec_total :: "decimal list \<Rightarrow> decimal" where
  "dec_total ds = foldl dec_add (Dec 0 0) ds"

definition count_if :: "('a \<Rightarrow> bool) \<Rightarrow> 'a list \<Rightarrow> int" where
  "count_if P xs = int (length (filter P xs))"

definition validate_result_consistency :: "backtest_input \<Rightarrow> bool" where
  "validate_result_consistency b \<longleftrightarrow>
     bi_start b < bi_end b
     \<and> distinct (map tr_sequence (bi_trades b)) \<and> distinct (map bs_sequence (bi_signals b))
     \<and> bm_trades (bi_metrics b) = int (length (bi_trades b))
     \<and> list_all (\<lambda>t. bi_start b \<le> tr_entry_time t \<and> tr_exit_time t \<le> bi_end b) (bi_trades b)
     \<and> list_all (\<lambda>s. bi_start b \<le> bs_time s \<and> bs_time s \<le> bi_end b) (bi_signals b)
     \<and> dec_eq (bm_fees (bi_metrics b)) (dec_total (map tr_fees (bi_trades b)))
     \<and> dec_eq (bm_slippage (bi_metrics b)) (dec_total (map tr_slippage (bi_trades b)))
     \<and> bm_winning (bi_metrics b) = count_if (\<lambda>t. 0 < dec_coeff (tr_net t)) (bi_trades b)
     \<and> bm_losing (bi_metrics b) = count_if (\<lambda>t. dec_coeff (tr_net t) < 0) (bi_trades b)
     \<and> bm_breakeven (bi_metrics b) = count_if (\<lambda>t. dec_coeff (tr_net t) = 0) (bi_trades b)"

definition make_backtest_input :: "pydatetime \<Rightarrow> pydatetime \<Rightarrow> pydatetime \<Rightarrow> backtest_input \<Rightarrow> py_exn + backtest_input" where
  "make_backtest_input start stop generated b =
     (and_then (require (0 < dec_coeff (bi_capital b) \<and> 0 < dec_coeff (bi_equity b)
         \<and> length (bi_trades b) \<le> MAX_BACKTEST_TRADES \<and> length (bi_signals b) \<le> MAX_BACKTEST_SIGNALS)) (\<lambda>_.
      and_then (normalize_utc start) (\<lambda>s.
      and_then (normalize_utc stop) (\<lambda>z.
      and_then (amount (bi_capital b)) (\<lambda>c.
      and_then (amount (bi_equity b)) (\<lambda>e.
      and_then (normalize_utc generated) (\<lambda>g.
      let b' = b\<lparr>bi_capital := c, bi_equity := e, bi_start := s, bi_end := z, bi_generated := g\<rparr>
      in if validate_result_consistency b' then Inr b' else Inl validation_error)))))))"

section \<open>The identity of a run\<close>

record backtest_snapshot =
  sn_strategy :: int
  sn_version :: int
  sn_number :: int
  sn_hash :: string
  sn_definition :: canonical_definition

definition reproducibility_dump :: "reproducibility \<Rightarrow> pyval" where
  "reproducibility_dump r =
     PDict [(''evaluator_id'', PStr (rp_evaluator r)), (''evaluator_revision'', PStr (rp_revision r)),
            (''random_seed'', opt_value PInt (rp_seed r)), (''runtime_config'', PDict (rp_config r))]"

definition metrics_dump :: "backtest_metrics \<Rightarrow> pyval" where
  "metrics_dump m =
     PDict [(''total_return'', opt_value PDec (bm_return m)), (''max_drawdown'', opt_value PDec (bm_drawdown m)),
       (''annualized_volatility'', opt_value PDec (bm_volatility m)), (''sharpe_ratio'', opt_value PDec (bm_sharpe m)),
       (''sortino_ratio'', opt_value PDec (bm_sortino m)), (''calmar_ratio'', opt_value PDec (bm_calmar m)),
       (''value_at_risk'', opt_value PDec (bm_var m)), (''exposure'', PDec (bm_exposure m)),
       (''benchmark_return'', opt_value PDec (bm_benchmark m)), (''benchmark_excess_return'', opt_value PDec (bm_excess m)),
       (''trade_count'', PInt (bm_trades m)), (''winning_trade_count'', PInt (bm_winning m)),
       (''losing_trade_count'', PInt (bm_losing m)), (''breakeven_trade_count'', PInt (bm_breakeven m)),
       (''fees_paid'', PDec (bm_fees m)), (''slippage_paid'', PDec (bm_slippage m))]"

definition trade_dump :: "(usec \<Rightarrow> string) \<Rightarrow> backtest_trade \<Rightarrow> pyval" where
  "trade_dump tt t =
     PDict [(''sequence'', PInt (tr_sequence t)), (''asset_id'', PInt (tr_asset t)),
       (''direction'', PStr (direction_value (tr_direction t))), (''entry_time'', PStr (tt (tr_entry_time t))),
       (''exit_time'', PStr (tt (tr_exit_time t))), (''entry_price'', PDec (tr_entry_price t)),
       (''exit_price'', PDec (tr_exit_price t)), (''quantity'', PDec (tr_quantity t)), (''gross_pnl'', PDec (tr_gross t)),
       (''net_pnl'', PDec (tr_net t)), (''fees_paid'', PDec (tr_fees t)), (''slippage_paid'', PDec (tr_slippage t)),
       (''entry_signal_id'', opt_value PStr (tr_entry_signal t)), (''exit_signal_id'', opt_value PStr (tr_exit_signal t)),
       (''metadata'', PDict (tr_metadata t))]"

definition backtest_signal_dump :: "(usec \<Rightarrow> string) \<Rightarrow> backtest_signal \<Rightarrow> pyval" where
  "backtest_signal_dump tt s =
     PDict [(''sequence'', PInt (bs_sequence s)), (''asset_id'', PInt (bs_asset s)), (''event_type'', PStr (event_value (bs_type s))),
       (''event_time'', PStr (tt (bs_time s))), (''observed_at'', PStr (tt (bs_observed s))),
       (''signal_id'', opt_value PStr (bs_signal s)), (''position_state'', opt_value (PStr \<circ> direction_value) (bs_position s)),
       (''payload'', PDict (bs_payload s))]"

definition run_identity_payload :: "backtest_snapshot \<Rightarrow> backtest_input \<Rightarrow> pyval" where
  "run_identity_payload s b =
     (let d = sn_definition s in
      PDict [(''strategy'', PDict [(''strategy_id'', PStr (uuid_text (sn_strategy s))),
                (''strategy_version_id'', PStr (uuid_text (sn_version s))), (''strategy_version_number'', PInt (sn_number s)),
                (''definition_hash'', PStr (sn_hash s)), (''timeframe'', PStr (timeframe_value (cd_timeframe d))),
                (''universe'', PList (map instrument_payload (cd_universe d))), (''parameters'', PDict (cd_parameters d)),
                (''execution'', execution_payload (cd_execution d))]),
        (''data'', PDict [(''source'', PStr (dr_source (bi_data b))), (''version'', PStr (dr_version (bi_data b))),
                (''coverage_fingerprint'', opt_value PStr (dr_coverage (bi_data b)))]),
        (''window'', PDict [(''start_time'', PStr (py_isoformat (bi_start b))), (''end_time'', PStr (py_isoformat (bi_end b)))]),
        (''initial_capital'', PDec (bi_capital b)), (''reproducibility'', reproducibility_dump (bi_repro b))])"

definition run_id :: "backtest_snapshot \<Rightarrow> backtest_input \<Rightarrow> string" where
  "run_id s b = hash_payload (run_identity_payload s b)"

definition result_payload :: "(usec \<Rightarrow> string) \<Rightarrow> backtest_snapshot \<Rightarrow> backtest_input \<Rightarrow> pyval" where
  "result_payload tt s b =
     PDict [(''run_id'', PStr (run_id s b)), (''final_equity'', PDec (bi_equity b)), (''metrics'', metrics_dump (bi_metrics b)),
       (''trades'', PList (map (trade_dump tt) (sort_key tr_sequence (bi_trades b)))),
       (''signals'', PList (map (backtest_signal_dump tt) (sort_key bs_sequence (bi_signals b))))]"

definition result_hash :: "(usec \<Rightarrow> string) \<Rightarrow> backtest_snapshot \<Rightarrow> backtest_input \<Rightarrow> string" where
  "result_hash tt s b = hash_payload (result_payload tt s b)"

end
