(* ===== verification/Backtest_Results.thy ===== *)
theory Backtest_Results
  imports Backtest
begin

text \<open>
  \<open>app/services/backtest_results.py\<close> over the tables of \<open>app/models/backtest.py\<close>: one immutable
  result per deterministic run.  A stored definition is read back by the parameter \<open>read\<close>.
\<close>

section \<open>Tables\<close>

record backtest_row =
  br_run :: string
  br_strategy :: int
  br_version :: int
  br_number :: int
  br_definition_hash :: string
  br_universe :: "pyval list"
  br_benchmark :: "pyval option"
  br_timeframe :: string
  br_parameters :: json_dict
  br_execution :: pyval
  br_data :: data_reference
  br_start :: usec
  br_end :: usec
  br_capital :: decimal
  br_equity :: decimal
  br_metrics :: backtest_metrics
  br_evaluator :: string
  br_revision :: string
  br_seed :: "int option"
  br_repro :: pyval
  br_hash :: string
  br_generated :: usec

record backtest_db =
  bt_catalog :: catalog
  bt_assets :: "int list"
  bt_results :: "backtest_row list"
  bt_signals :: "(string \<times> backtest_signal) list"
  bt_trades :: "(string \<times> backtest_trade) list"

abbreviation BacktestResultError :: py_exn where
  "BacktestResultError \<equiv> OtherException ''BacktestResultError''"
abbreviation BacktestResultConflictError :: py_exn where
  "BacktestResultConflictError \<equiv> OtherException ''BacktestResultConflictError''"
abbreviation DataError :: py_exn where "DataError \<equiv> OtherException ''DataError''"
abbreviation IntegrityError :: py_exn where "IntegrityError \<equiv> OtherException ''IntegrityError''"

text \<open>
  What a column accepts: \<open>INTEGER\<close> has 32 bits, and \<open>NUMERIC(p, s)\<close> holds values below
  \<open>10 ^ (p - s)\<close>, rounded to \<open>s\<close> places.
\<close>

definition int32 :: "int \<Rightarrow> bool" where
  "int32 i \<longleftrightarrow> - (2 ^ 31) \<le> i \<and> i < 2 ^ 31"

definition numeric_fits :: "nat \<Rightarrow> nat \<Rightarrow> decimal \<Rightarrow> bool" where
  "numeric_fits p s d \<longleftrightarrow> \<bar>round (dec_val d * 10 ^ s)\<bar> < 10 ^ p"

abbreviation amount_fits :: "decimal \<Rightarrow> bool" where "amount_fits \<equiv> numeric_fits 24 8"
abbreviation ratio_fits :: "decimal \<Rightarrow> bool" where "ratio_fits \<equiv> numeric_fits 24 12"

definition result_fits :: "backtest_row \<Rightarrow> bool" where
  "result_fits r \<longleftrightarrow>
     (let m = br_metrics r in
      list_all int32 [br_number r, bm_trades m, bm_winning m, bm_losing m, bm_breakeven m]
      \<and> pred_option int32 (br_seed r)
      \<and> list_all amount_fits [br_capital r, br_equity r, bm_fees m, bm_slippage m] \<and> ratio_fits (bm_exposure m)
      \<and> list_all (pred_option ratio_fits) [bm_return m, bm_drawdown m, bm_volatility m, bm_sharpe m, bm_sortino m,
           bm_calmar m, bm_var m, bm_benchmark m, bm_excess m])"

definition trade_fits :: "backtest_trade \<Rightarrow> bool" where
  "trade_fits t \<longleftrightarrow> int32 (tr_sequence t) \<and> int32 (tr_asset t)
     \<and> list_all amount_fits [tr_entry_price t, tr_exit_price t, tr_quantity t, tr_gross t, tr_net t, tr_fees t, tr_slippage t]"

definition signal_fits :: "backtest_signal \<Rightarrow> bool" where
  "signal_fits s \<longleftrightarrow> int32 (bs_sequence s) \<and> int32 (bs_asset s)"

section \<open>The service\<close>

definition load_strategy_snapshot ::
  "(pyval \<Rightarrow> py_exn + canonical_definition) \<Rightarrow> int \<Rightarrow> catalog \<Rightarrow> py_exn + backtest_snapshot" where
  "load_strategy_snapshot read vid db =
     (case [(s, v). s \<leftarrow> ct_strategies db, v \<leftarrow> ct_versions db, sv_strategy v = st_id s \<and> sv_id v = vid] of
        [] \<Rightarrow> Inl BacktestResultError
      | (s, v) # _ \<Rightarrow>
          (case read (sv_payload v) of
             Inl e \<Rightarrow> Inl BacktestResultError
           | Inr d \<Rightarrow>
               (case definition_hash d of
                  Inl e \<Rightarrow> Inl e
                | Inr h \<Rightarrow>
                    if h \<noteq> sv_hash v then Inl BacktestResultError
                    else Inr \<lparr>sn_strategy = st_id s, sn_version = sv_id v, sn_number = sv_number v, sn_hash = sv_hash v,
                           sn_definition = d\<rparr>)))"

definition validate_forensic_references :: "backtest_snapshot \<Rightarrow> backtest_input \<Rightarrow> bool" where
  "validate_forensic_references s b \<longleftrightarrow>
     (let assets = set (map in_asset (cd_universe (sn_definition s))); ids = set (map sg_id (cd_signals (sn_definition s)))
      in list_all (\<lambda>t. tr_asset t \<in> assets \<and> pred_option (\<lambda>g. g \<in> ids) (tr_entry_signal t)
              \<and> pred_option (\<lambda>g. g \<in> ids) (tr_exit_signal t)) (bi_trades b)
       \<and> list_all (\<lambda>g. bs_asset g \<in> assets \<and> pred_option (\<lambda>x. x \<in> ids) (bs_signal g)) (bi_signals b))"

definition build_result_model :: "backtest_snapshot \<Rightarrow> backtest_input \<Rightarrow> string \<Rightarrow> string \<Rightarrow> backtest_row" where
  "build_result_model s b i h =
     (let d = sn_definition s in
      \<lparr>br_run = i, br_strategy = sn_strategy s, br_version = sn_version s, br_number = sn_number s,
       br_definition_hash = sn_hash s, br_universe = map instrument_payload (cd_universe d),
       br_benchmark = map_option instrument_payload (cd_benchmark d), br_timeframe = timeframe_value (cd_timeframe d),
       br_parameters = cd_parameters d, br_execution = execution_payload (cd_execution d), br_data = bi_data b,
       br_start = bi_start b, br_end = bi_end b, br_capital = bi_capital b, br_equity = bi_equity b,
       br_metrics = bi_metrics b, br_evaluator = rp_evaluator (bi_repro b), br_revision = rp_revision (bi_repro b),
       br_seed = rp_seed (bi_repro b), br_repro = reproducibility_dump (bi_repro b), br_hash = h,
       br_generated = bi_generated b\<rparr>)"

definition ordered_trades :: "backtest_input \<Rightarrow> backtest_trade list" where
  "ordered_trades b = sort_key tr_sequence (bi_trades b)"

definition ordered_signals :: "backtest_input \<Rightarrow> backtest_signal list" where
  "ordered_signals b = sort_key bs_sequence (bi_signals b)"

definition existing_run :: "string \<Rightarrow> backtest_db \<Rightarrow> backtest_row option" where
  "existing_run i db = find (\<lambda>r. br_run r = i) (bt_results db)"

definition same_result :: "backtest_row \<Rightarrow> string \<Rightarrow> py_exn + backtest_row" where
  "same_result r h = (if br_hash r \<noteq> h then Inl BacktestResultConflictError else Inr r)"

text \<open>
  The flush behind the savepoint.  Without relationships the rows are inserted in the order of the
  class names: the result, the signals, the trades.  Each statement first converts its values, then
  meets the unique key or the foreign key on \<open>asset_registry\<close>.
\<close>

definition add_result_rows :: "backtest_row \<Rightarrow> backtest_input \<Rightarrow> backtest_db \<Rightarrow> py_exn + backtest_db" where
  "add_result_rows r b db =
     (if \<not> result_fits r then Inl DataError
      else if existing_run (br_run r) db \<noteq> None then Inl IntegrityError
      else if \<not> list_all signal_fits (bi_signals b) then Inl DataError
      else if \<not> list_all (\<lambda>s. bs_asset s \<in> set (bt_assets db)) (bi_signals b) then Inl IntegrityError
      else if \<not> list_all trade_fits (bi_trades b) then Inl DataError
      else if \<not> list_all (\<lambda>t. tr_asset t \<in> set (bt_assets db)) (bi_trades b) then Inl IntegrityError
      else Inr (db\<lparr>bt_results := bt_results db @ [r],
                  bt_signals := bt_signals db @ map (Pair (br_run r)) (ordered_signals b),
                  bt_trades := bt_trades db @ map (Pair (br_run r)) (ordered_trades b)\<rparr>))"

text \<open>
  \<open>persist\<close>: \<open>others\<close> is what other transactions commit between the look-up, which cannot lock a row
  that is not there, and the insertion.
\<close>

definition persist_backtest ::
  "(usec \<Rightarrow> string) \<Rightarrow> (pyval \<Rightarrow> py_exn + canonical_definition) \<Rightarrow> backtest_input \<Rightarrow> (backtest_db \<Rightarrow> backtest_db) \<Rightarrow>
   backtest_db \<Rightarrow> (py_exn + backtest_row) \<times> backtest_db" where
  "persist_backtest tt read b others db =
     (case load_strategy_snapshot read (bi_version b) (bt_catalog db) of
        Inl e \<Rightarrow> (Inl e, db)
      | Inr s \<Rightarrow>
          if \<not> validate_forensic_references s b then (Inl BacktestResultError, db)
          else
            let i = run_id s b; h = result_hash tt s b; r = build_result_model s b i h
            in case existing_run i db of
                 Some x \<Rightarrow> (same_result x h, db)
               | None \<Rightarrow>
                   (case add_result_rows r b (others db) of
                      Inr db' \<Rightarrow> (Inr r, db')
                    | Inl e \<Rightarrow>
                        if e \<noteq> IntegrityError then (Inl e, others db)
                        else case existing_run i (others db) of
                               None \<Rightarrow> (Inl IntegrityError, others db)
                             | Some x \<Rightarrow> (same_result x h, others db)))"

section \<open>The tables over time\<close>

text \<open>The inputs pydantic lets through: the result and all its parts went through their validators.\<close>

definition built_backtest :: "backtest_input \<Rightarrow> bool" where
  "built_backtest b \<longleftrightarrow>
     (\<exists>start stop generated raw. make_backtest_input start stop generated raw = Inr b)
     \<and> (\<exists>raw. make_metrics raw = Inr (bi_metrics b))
     \<and> (\<forall>t \<in> set (bi_trades b). \<exists>a z raw. make_trade a z raw = Inr t)
     \<and> (\<forall>s \<in> set (bi_signals b). \<exists>a z raw. make_backtest_signal a z raw = Inr s)"

text \<open>Transactions of all processes; the catalogue and the asset registry are changed by others.\<close>

inductive backtest_later ::
  "(usec \<Rightarrow> string) \<Rightarrow> (pyval \<Rightarrow> py_exn + canonical_definition) \<Rightarrow> backtest_db \<Rightarrow> backtest_db \<Rightarrow> bool"
  for tt read where
  unchanged: "backtest_later tt read db db"
| others_changed: "backtest_later tt read db0 db \<Longrightarrow>
     backtest_later tt read db0 (db\<lparr>bt_catalog := c, bt_assets := as\<rparr>)"
| persisted: "backtest_later tt read db0 db \<Longrightarrow> built_backtest b \<Longrightarrow> backtest_later tt read db (others db) \<Longrightarrow>
     backtest_later tt read db0 (snd (persist_backtest tt read b others db))"

definition of_run :: "string \<Rightarrow> (string \<times> 'a) list \<Rightarrow> 'a list" where
  "of_run i rows = map snd (filter (\<lambda>x. fst x = i) rows)"

definition faithful_row :: "(usec \<Rightarrow> string) \<Rightarrow> backtest_db \<Rightarrow> backtest_row \<Rightarrow> bool" where
  "faithful_row tt db r \<longleftrightarrow>
     (\<exists>s b. built_backtest b \<and> validate_forensic_references s b
        \<and> r = build_result_model s b (run_id s b) (result_hash tt s b) \<and> result_fits r
        \<and> list_all trade_fits (bi_trades b)
        \<and> of_run (br_run r) (bt_trades db) = ordered_trades b \<and> of_run (br_run r) (bt_signals db) = ordered_signals b)"

definition backtest_ok :: "(usec \<Rightarrow> string) \<Rightarrow> backtest_db \<Rightarrow> bool" where
  "backtest_ok tt db \<longleftrightarrow>
     distinct (map br_run (bt_results db))
     \<and> (\<forall>r \<in> set (bt_results db). faithful_row tt db r)
     \<and> fst ` set (bt_trades db) \<subseteq> br_run ` set (bt_results db)
     \<and> fst ` set (bt_signals db) \<subseteq> br_run ` set (bt_results db)"

definition extends_db :: "backtest_db \<Rightarrow> backtest_db \<Rightarrow> bool" where
  "extends_db db db' \<longleftrightarrow> prefix (bt_results db) (bt_results db')
     \<and> prefix (bt_trades db) (bt_trades db') \<and> prefix (bt_signals db) (bt_signals db')"

lemma extends_refl [simp]: "extends_db db db"
  by (simp add: extends_db_def)

lemma extends_trans: "extends_db a b \<Longrightarrow> extends_db b c \<Longrightarrow> extends_db a c"
  by (auto simp: extends_db_def intro: prefix_order.trans)

lemma existing_run_None: "existing_run i db = None \<longleftrightarrow> i \<notin> br_run ` set (bt_results db)"
  by (auto simp: existing_run_def find_None_iff)

lemma existing_run_Some: "existing_run i db = Some r \<Longrightarrow> r \<in> set (bt_results db) \<and> br_run r = i"
  by (auto simp: existing_run_def find_Some_iff)

lemma of_run_append: "of_run i (xs @ ys) = of_run i xs @ of_run i ys"
  by (simp add: of_run_def)

lemma of_run_new: "of_run j (map (Pair i) xs) = (if j = i then xs else [])"
  by (induction xs) (auto simp: of_run_def)

lemma of_run_other: "i \<notin> fst ` set xs \<Longrightarrow> of_run i xs = []"
  by (force simp: of_run_def filter_empty_conv)

lemma build_result_keys [simp]: "br_run (build_result_model s b i h) = i" "br_hash (build_result_model s b i h) = h"
  by (simp_all add: build_result_model_def Let_def)

lemma add_result_rows_Inr:
  assumes "add_result_rows r b db = Inr db'"
  shows "result_fits r \<and> list_all trade_fits (bi_trades b) \<and> existing_run (br_run r) db = None
    \<and> db' = db\<lparr>bt_results := bt_results db @ [r], bt_signals := bt_signals db @ map (Pair (br_run r)) (ordered_signals b),
               bt_trades := bt_trades db @ map (Pair (br_run r)) (ordered_trades b)\<rparr>"
  using assms by (auto simp: add_result_rows_def split: if_splits)

lemma add_result_rows_ok:
  assumes ok: "backtest_ok tt db" and b: "built_backtest b" "validate_forensic_references s b"
    and r: "r = build_result_model s b (run_id s b) (result_hash tt s b)" and add: "add_result_rows r b db = Inr db'"
  shows "backtest_ok tt db' \<and> extends_db db db'"
proof -
  note a = add_result_rows_Inr [OF add]
  let ?i = "run_id s b"
  have i: "br_run r = ?i" by (simp add: r)
  have new: "?i \<notin> br_run ` set (bt_results db)" using a i existing_run_None by metis
  have t: "?i \<notin> fst ` set (bt_trades db)" and g: "?i \<notin> fst ` set (bt_signals db)"
    using ok new by (auto simp: backtest_ok_def)
  have rows: "of_run j (bt_trades db') = (if j = ?i then ordered_trades b else of_run j (bt_trades db))"
    "of_run j (bt_signals db') = (if j = ?i then ordered_signals b else of_run j (bt_signals db))" for j
    using a i t g by (auto simp: of_run_append of_run_new of_run_other image_image)
  have "faithful_row tt db' r"
    unfolding faithful_row_def using a b i rows r by (intro exI [of _ s] exI [of _ b]) simp
  moreover have "faithful_row tt db' x" if "x \<in> set (bt_results db)" for x
  proof -
    have "br_run x \<noteq> ?i" using new that by (metis imageI)
    then show ?thesis using ok that rows by (simp add: backtest_ok_def faithful_row_def)
  qed
  moreover have "fst ` set (bt_trades db') \<subseteq> br_run ` set (bt_results db')"
    using ok a by (auto simp: backtest_ok_def)
  moreover have "fst ` set (bt_signals db') \<subseteq> br_run ` set (bt_results db')"
    using ok a by (auto simp: backtest_ok_def)
  ultimately show ?thesis using ok a new i by (auto simp: backtest_ok_def extends_db_def)
qed

lemma persist_cases:
  obtains (unchanged) "snd (persist_backtest tt read b others db) \<in> {db, others db}"
  | (added) s r where "validate_forensic_references s b" "r = build_result_model s b (run_id s b) (result_hash tt s b)"
      "add_result_rows r b (others db) = Inr (snd (persist_backtest tt read b others db))"
      "fst (persist_backtest tt read b others db) = Inr r"
proof (cases "load_strategy_snapshot read (bi_version b) (bt_catalog db)")
  case (Inl e)
  then show ?thesis by (intro unchanged) (simp add: persist_backtest_def)
next
  case (Inr s)
  let ?r = "build_result_model s b (run_id s b) (result_hash tt s b)"
  show ?thesis
  proof (cases "validate_forensic_references s b \<and> existing_run (run_id s b) db = None")
    case False
    then show ?thesis using Inr by (intro unchanged) (auto simp: persist_backtest_def Let_def split: option.split)
  next
    case True
    show ?thesis
    proof (cases "add_result_rows ?r b (others db)")
      case (Inl e)
      then show ?thesis using Inr True by (intro unchanged) (auto simp: persist_backtest_def Let_def split: option.split)
    next
      case new: (Inr db')
      show ?thesis by (rule added [OF _ refl]) (use Inr True new in \<open>simp_all add: persist_backtest_def Let_def\<close>)
    qed
  qed
qed

lemma backtest_later_ok:
  assumes "backtest_later tt read db0 db"
  shows "backtest_ok tt db0 \<Longrightarrow> backtest_ok tt db \<and> extends_db db0 db"
  using assms
proof (induction rule: backtest_later.induct)
  case (unchanged db)
  then show ?case by simp
next
  case (others_changed db0 db c as)
  then show ?case by (simp add: backtest_ok_def faithful_row_def extends_db_def)
next
  case (persisted db0 db b others)
  then have db: "backtest_ok tt db" "extends_db db0 db" and oth: "backtest_ok tt (others db)" "extends_db db (others db)"
    by simp_all
  have oth0: "extends_db db0 (others db)" using db(2) oth(2) by (rule extends_trans)
  show ?case
  proof (cases rule: persist_cases [of tt read b others db])
    case unchanged
    then show ?thesis using db oth(1) oth0 by auto
  next
    case (added s r)
    have "backtest_ok tt (snd (persist_backtest tt read b others db))
        \<and> extends_db (others db) (snd (persist_backtest tt read b others db))"
      by (rule add_result_rows_ok [OF oth(1) persisted(2) added(1,2,3)])
    then show ?thesis using extends_trans [OF oth0] by blast
  qed
qed

section \<open>Sums\<close>

lemma scaled_val: "- 8 \<le> dec_exp d \<Longrightarrow> dec_val d * 10 ^ 8 = of_int (dec_at (- 8) d)"
proof -
  assume "- 8 \<le> dec_exp d"
  then have "dec_val d * 10 ^ 8 = of_int (dec_at (- 8) d) * (pow10 (- 8) * pow10 8)"
    using dec_val_at [of "- 8" d] pow10_nat [of 8] by simp
  also have "pow10 (- 8) * pow10 8 = 1" using pow10_add [of "- 8" 8] pow10_nat [of 0] by simp
  finally show ?thesis by simp
qed

lemma amount_scaled:
  assumes "amount raw = Inr d" and "amount_fits d"
  shows "- 8 \<le> dec_exp d \<and> \<bar>dec_at (- 8) d\<bar> < 10 ^ 24"
proof -
  have e: "- 8 \<le> dec_exp d" using assms(1) by (auto simp: normalize_decimal_def Let_def split: if_splits)
  moreover have "round (dec_val d * 10 ^ 8) = dec_at (- 8) d" unfolding scaled_val [OF e] by (rule round_of_int)
  ultimately show ?thesis using assms(2) by (simp add: numeric_fits_def)
qed

lemma dec_add_exact:
  assumes e: "- 8 \<le> dec_exp a" "- 8 \<le> dec_exp b" and small: "\<bar>dec_at (- 8) a + dec_at (- 8) b\<bar> < 10 ^ 28"
  shows "dec_val (dec_add a b) = dec_val a + dec_val b \<and> - 8 \<le> dec_exp (dec_add a b)
    \<and> dec_at (- 8) (dec_add a b) = dec_at (- 8) a + dec_at (- 8) b"
proof -
  define e where "e = min (dec_exp a) (dec_exp b)"
  define c where "c = dec_at e a + dec_at e b"
  have le: "e \<le> dec_exp a" "e \<le> dec_exp b" "- 8 \<le> e" using e by (simp_all add: e_def)
  have down: "dec_at (- 8) x = dec_at e x * 10 ^ nat (e + 8)" if "e \<le> dec_exp x" for x
  proof -
    have "nat (dec_exp x + 8) = nat (dec_exp x - e) + nat (e + 8)" using that le(3) by simp
    then show ?thesis by (simp add: dec_at_def power_add)
  qed
  have sum: "dec_at (- 8) a + dec_at (- 8) b = c * 10 ^ nat (e + 8)"
    using down [OF le(1)] down [OF le(2)] by (simp add: c_def distrib_right)
  have "\<bar>c\<bar> * 1 \<le> \<bar>c\<bar> * 10 ^ nat (e + 8)" by (rule mult_left_mono) simp_all
  then have "\<bar>c\<bar> < 10 ^ 28" using small sum by (simp add: abs_mult)
  then have r: "dec_add a b = Dec c e" by (simp add: dec_add_def Let_def e_def [symmetric] c_def [symmetric] dec_fix_exact)
  have "dec_val (Dec c e) = of_int (dec_at e a) * pow10 e + of_int (dec_at e b) * pow10 e"
    by (simp add: dec_val_Dec c_def distrib_right)
  then have "dec_val (Dec c e) = dec_val a + dec_val b" using dec_val_at le(1,2) by simp
  then show ?thesis using r le(3) sum by (simp add: dec_at_def)
qed

lemma dec_total_exact:
  assumes "\<forall>d \<in> set ds. - 8 \<le> dec_exp d \<and> \<bar>dec_at (- 8) d\<bar> < 10 ^ 24" and "length ds \<le> 10000"
  shows "dec_val (dec_total ds) = sum_list (map dec_val ds)"
proof -
  have "dec_val (foldl dec_add acc ds) = dec_val acc + sum_list (map dec_val ds)"
    if "\<forall>d \<in> set ds. - 8 \<le> dec_exp d \<and> \<bar>dec_at (- 8) d\<bar> < 10 ^ 24" and "- 8 \<le> dec_exp acc"
      and "\<bar>dec_at (- 8) acc\<bar> \<le> int k * (10 ^ 24 - 1)" and "k + length ds \<le> 10000" for acc k ds
    using that
  proof (induction ds arbitrary: acc k)
    case Nil
    then show ?case by simp
  next
    case (Cons d ds)
    have d: "- 8 \<le> dec_exp d" "\<bar>dec_at (- 8) d\<bar> \<le> 10 ^ 24 - 1" using Cons.prems(1) by auto
    have b: "\<bar>dec_at (- 8) acc + dec_at (- 8) d\<bar> \<le> int (Suc k) * (10 ^ 24 - 1)"
      using d(2) Cons.prems(3) by (simp add: abs_le_iff)
    have "int (Suc k) * (10 ^ 24 - 1) \<le> 10000 * (10 ^ 24 - 1)"
      using Cons.prems(4) by (intro mult_right_mono) auto
    then have "\<bar>dec_at (- 8) acc + dec_at (- 8) d\<bar> < 10 ^ 28" using b by simp
    note x = dec_add_exact [OF Cons.prems(2) d(1) this]
    have "dec_val (foldl dec_add (dec_add acc d) ds) = dec_val (dec_add acc d) + sum_list (map dec_val ds)"
      using Cons.prems(1,4) x b by (intro Cons.IH [of _ "Suc k"]) auto
    then show ?case using x by simp
  qed
  from this [of ds "Dec 0 0" 0] show ?thesis using assms by (simp add: dec_total_def dec_at_def)
qed

lemma and_then_Inr: "and_then x f = Inr t \<longleftrightarrow> (\<exists>a. x = Inr a \<and> f a = Inr t)"
  by (cases x) (simp_all add: and_then_def)

lemma require_Inr [simp]: "require c = Inr u \<longleftrightarrow> c"
  by (simp add: require_def)

lemma make_trade_costs:
  assumes "make_trade a z raw = Inr t"
  shows "amount (tr_fees raw) = Inr (tr_fees t) \<and> amount (tr_slippage raw) = Inr (tr_slippage t)"
  using assms unfolding make_trade_def and_then_Inr sum.inject
  by (elim exE conjE) (hypsubst, simp (no_asm_simp))

lemma make_backtest_consistent:
  assumes "make_backtest_input start stop generated raw = Inr b"
  shows "validate_result_consistency b \<and> length (bi_trades b) \<le> 10000"
  using assms unfolding make_backtest_input_def Let_def and_then_Inr
  by (elim exE conjE) (auto simp: MAX_BACKTEST_TRADES_def split: if_split_asm)

lemma ordered_trades_mset [simp]: "mset (ordered_trades b) = mset (bi_trades b)"
  by (simp add: ordered_trades_def)

lemma sum_ordered:
  fixes f :: "backtest_trade \<Rightarrow> rat"
  shows "sum_list (map f (ordered_trades b)) = sum_list (map f (bi_trades b))"
proof -
  have "sum_mset (mset (map f (ordered_trades b))) = sum_mset (mset (map f (bi_trades b)))" by simp
  then show ?thesis by (simp only: sum_mset_sum_list)
qed

lemma count_ordered: "count_if P (ordered_trades b) = count_if P (bi_trades b)"
proof -
  have "size (mset (filter P (ordered_trades b))) = size (mset (filter P (bi_trades b)))" by simp
  then show ?thesis by (simp only: count_if_def size_mset)
qed

section \<open>What the tables promise\<close>

text \<open>
  C9: A persisted run never changes: whatever is persisted later, by whatever interleaving of racing
  transactions, every stored row stays as it is, run ids stay unique, and each row is what
  \<open>_build_result_model\<close> makes of one validated result, under the hash of that result and with
  exactly its trades and signals, in order of sequence.
\<close>

theorem persisted_runs_never_change:
  assumes "backtest_later tt read db0 db" and "backtest_ok tt db0"
  shows "extends_db db0 db \<and> distinct (map br_run (bt_results db)) \<and> (\<forall>r \<in> set (bt_results db). faithful_row tt db r)"
  using backtest_later_ok [OF assms] by (simp add: backtest_ok_def)

text \<open>
  The costs of a stored result are the exact sums of the costs of its stored trades, although they
  were added in 28-digit arithmetic, and its counts are those of its trades.
\<close>

theorem persisted_totals_exact:
  assumes "backtest_later tt read db0 db" and "backtest_ok tt db0" and "r \<in> set (bt_results db)"
  defines "trades \<equiv> of_run (br_run r) (bt_trades db)"
  shows "dec_val (bm_fees (br_metrics r)) = (\<Sum>t \<leftarrow> trades. dec_val (tr_fees t))
    \<and> dec_val (bm_slippage (br_metrics r)) = (\<Sum>t \<leftarrow> trades. dec_val (tr_slippage t))
    \<and> bm_trades (br_metrics r) = int (length trades)
    \<and> bm_winning (br_metrics r) = count_if (\<lambda>t. 0 < dec_val (tr_net t)) trades"
proof -
  have "faithful_row tt db r" using backtest_later_ok [OF assms(1,2)] assms(3) by (simp add: backtest_ok_def)
  then obtain s b where b: "built_backtest b" and r: "r = build_result_model s b (run_id s b) (result_hash tt s b)"
      and fits: "list_all trade_fits (bi_trades b)" and t: "of_run (br_run r) (bt_trades db) = ordered_trades b"
    unfolding faithful_row_def by blast
  have m: "br_metrics r = bi_metrics b" by (simp add: r build_result_model_def Let_def)
  have c: "validate_result_consistency b \<and> length (bi_trades b) \<le> 10000"
    using b make_backtest_consistent unfolding built_backtest_def by blast
  have one: "- 8 \<le> dec_exp (f t) \<and> \<bar>dec_at (- 8) (f t)\<bar> < 10 ^ 24"
    if "t \<in> set (bi_trades b)" "f = tr_fees \<or> f = tr_slippage" for t and f :: "backtest_trade \<Rightarrow> decimal"
  proof -
    have "\<exists>a z raw. make_trade a z raw = Inr t" using b that(1) unfolding built_backtest_def by blast
    then obtain a z raw where "make_trade a z raw = Inr t" by (elim exE)
    then have "amount (tr_fees raw) = Inr (tr_fees t)" "amount (tr_slippage raw) = Inr (tr_slippage t)"
      using make_trade_costs by auto
    moreover have "amount_fits (tr_fees t)" "amount_fits (tr_slippage t)"
      using fits that(1) by (simp_all add: list_all_iff trade_fits_def)
    ultimately show ?thesis using that(2) amount_scaled by blast
  qed
  have "dec_val (dec_total (map f (bi_trades b))) = sum_list (map (dec_val \<circ> f) (bi_trades b))"
    if "f = tr_fees \<or> f = tr_slippage" for f
    using dec_total_exact [of "map f (bi_trades b)"] one that c by simp
  then have sums: "dec_val (dec_total (map f (bi_trades b))) = (\<Sum>t \<leftarrow> trades. dec_val (f t))"
    if "f = tr_fees \<or> f = tr_slippage" for f
    using that t sum_ordered [of "\<lambda>t. dec_val (f t)" b] by (simp add: trades_def o_def)
  have pos: "0 < dec_val d \<longleftrightarrow> 0 < dec_coeff d" for d
    using zero_less_mult_iff [of "of_int (dec_coeff d)" "pow10 (dec_exp d)"] pow10_pos [of "dec_exp d"]
    by (auto simp only: dec_val_def of_int_0_less_iff dest: less_asym)
  have len: "length (ordered_trades b) = length (bi_trades b)" by (simp add: ordered_trades_def)
  show ?thesis
    using c sums [of tr_fees] sums [of tr_slippage] t len
    by (simp add: m validate_result_consistency_def dec_eq_def trades_def pos count_ordered)
qed

text \<open>
  \<open>persist\<close> answers truthfully: a returned row is stored under the run id of the request and carries
  the hash of the submitted result; when it raises, it has written nothing; and a stored result with
  another hash is answered with a conflict, never replaced.
\<close>

theorem persist_answers_truthfully:
  assumes "persist_backtest tt read b others db = (ans, db')"
  shows "case ans of
      Inr r \<Rightarrow> \<exists>s. load_strategy_snapshot read (bi_version b) (bt_catalog db) = Inr s
        \<and> validate_forensic_references s b \<and> br_run r = run_id s b \<and> br_hash r = result_hash tt s b
        \<and> r \<in> set (bt_results db')
    | Inl e \<Rightarrow> db' \<in> {db, others db} \<and>
        (e = BacktestResultConflictError \<longrightarrow>
          (\<exists>s x. load_strategy_snapshot read (bi_version b) (bt_catalog db) = Inr s \<and> x \<in> set (bt_results db')
             \<and> br_run x = run_id s b \<and> br_hash x \<noteq> result_hash tt s b) \<or>
          load_strategy_snapshot read (bi_version b) (bt_catalog db) = Inl e)"
proof (cases "load_strategy_snapshot read (bi_version b) (bt_catalog db)")
  case (Inl e)
  then show ?thesis using assms by (auto simp: persist_backtest_def)
next
  case (Inr s)
  let ?r = "build_result_model s b (run_id s b) (result_hash tt s b)"
  show ?thesis
  proof (cases "validate_forensic_references s b")
    case False
    then show ?thesis using assms Inr by (auto simp: persist_backtest_def)
  next
    case refs: True
    show ?thesis
    proof (cases "existing_run (run_id s b) db")
      case (Some x)
      then show ?thesis
        using assms Inr refs existing_run_Some [OF Some]
        by (cases "br_hash x = result_hash tt s b") (auto simp: persist_backtest_def Let_def same_result_def)
    next
      case None
      show ?thesis
      proof (cases "add_result_rows ?r b (others db)")
        case (Inr db2)
        then have "ans = Inr ?r" "db' = db2"
          using assms \<open>load_strategy_snapshot _ _ _ = _\<close> refs None by (simp_all add: persist_backtest_def Let_def)
        then show ?thesis
          using add_result_rows_Inr [OF Inr] \<open>load_strategy_snapshot _ _ _ = _\<close> refs by simp
      next
        case add: (Inl e)
        have e: "e \<noteq> BacktestResultConflictError" using add by (auto simp: add_result_rows_def split: if_splits)
        show ?thesis
        proof (cases "e = IntegrityError")
          case False
          then show ?thesis using assms Inr refs None add e by (auto simp: persist_backtest_def Let_def)
        next
          case True
          then show ?thesis
            using assms Inr refs None add existing_run_Some [of "run_id s b" "others db"]
            by (cases "existing_run (run_id s b) (others db)")
               (auto simp: persist_backtest_def Let_def same_result_def split: if_splits)
        qed
      qed
    qed
  qed
qed

text \<open>
  The contract admits amounts its column cannot hold: the precision check allows 24 digits before
  the point when there are none behind it, while \<open>NUMERIC(24, 8)\<close> allows 16.  Such a validated result
  passes every check of the service and ends in an error of the database.
\<close>

theorem oversized_capital_unstorable:
  assumes "amount raw = Inr (bi_capital b)" and "10 ^ 16 \<le> dec_val (bi_capital b)"
    and "load_strategy_snapshot read (bi_version b) (bt_catalog db) = Inr s" and "validate_forensic_references s b"
    and "existing_run (run_id s b) db = None"
  shows "persist_backtest tt read b others db = (Inl DataError, others db)"
proof -
  have "- 8 \<le> dec_exp (bi_capital b)" using assms(1) by (auto simp: normalize_decimal_def Let_def split: if_splits)
  then have v: "dec_val (bi_capital b) * 10 ^ 8 = of_int (dec_at (- 8) (bi_capital b))" by (rule scaled_val)
  have "10 ^ 16 * 10 ^ 8 \<le> dec_val (bi_capital b) * 10 ^ 8" using assms(2) by (rule mult_right_mono) simp
  then have "of_int (10 ^ 24) \<le> (of_int (dec_at (- 8) (bi_capital b)) :: rat)" using v by simp
  then have "10 ^ 24 \<le> dec_at (- 8) (bi_capital b)" by (simp only: of_int_le_iff)
  then have "\<not> amount_fits (bi_capital b)" unfolding numeric_fits_def v round_of_int by simp
  then have "\<not> result_fits (build_result_model s b i h)" for i h
    by (simp add: result_fits_def build_result_model_def Let_def)
  then have "add_result_rows (build_result_model s b i h) b (others db) = Inl DataError" for i h
    by (simp add: add_result_rows_def)
  then show ?thesis using assms(3-) by (simp add: persist_backtest_def Let_def)
qed

section \<open>Witnesses\<close>

definition sample_trade :: backtest_trade where
  "sample_trade = \<lparr>tr_sequence = 1, tr_asset = 3, tr_direction = DIR_LONG, tr_entry_time = 0, tr_exit_time = hour_us,
     tr_entry_price = Dec 1 0, tr_exit_price = Dec 3 0, tr_quantity = Dec 1 0, tr_gross = Dec 2 0, tr_net = Dec 1 0,
     tr_fees = Dec 1 (- 1), tr_slippage = Dec 0 0, tr_entry_signal = None, tr_exit_signal = None, tr_metadata = []\<rparr>"

definition sample_metrics :: backtest_metrics where
  "sample_metrics = \<lparr>bm_return = None, bm_drawdown = None, bm_volatility = None, bm_sharpe = None, bm_sortino = None,
     bm_calmar = None, bm_var = None, bm_exposure = Dec 0 0, bm_benchmark = None, bm_excess = None, bm_trades = 1,
     bm_winning = 1, bm_losing = 0, bm_breakeven = 0, bm_fees = Dec 1 (- 1), bm_slippage = Dec 0 0\<rparr>"

definition sample_backtest :: "decimal \<Rightarrow> backtest_input" where
  "sample_backtest capital = \<lparr>bi_version = 5, bi_data = \<lparr>dr_source = ''s'', dr_version = ''v'', dr_coverage = None\<rparr>,
     bi_start = 0, bi_end = hour_us, bi_capital = capital, bi_equity = Dec 1 0, bi_metrics = sample_metrics,
     bi_trades = [sample_trade], bi_signals = [], bi_generated = hour_us,
     bi_repro = \<lparr>rp_evaluator = ''e'', rp_revision = ''r'', rp_seed = None, rp_config = []\<rparr>\<rparr>"

definition sample_backtest_db :: backtest_db where
  "sample_backtest_db = \<lparr>bt_catalog = sample_db\<lparr>ct_versions := [\<lparr>sv_id = 5, sv_strategy = 1, sv_number = 1, sv_schema = ''1'',
       sv_hash = projr (definition_hash sample_canonical), sv_payload = PNone\<rparr>]\<rparr>,
     bt_assets = [3, 7], bt_results = [], bt_signals = [], bt_trades = []\<rparr>"

lemma sample_amounts:
  "amount (Dec 1 0) = Inr (Dec 1 0)" "amount (Dec 3 0) = Inr (Dec 3 0)" "amount (Dec 2 0) = Inr (Dec 2 0)"
  "amount (Dec 1 (- 1)) = Inr (Dec 1 (- 1))" "amount (Dec 0 0) = Inr (Dec 0 0)" "amount (Dec 1 16) = Inr (Dec 1 16)"
  "ratio (Dec 0 0) = Inr (Dec 0 0)"
  by code_simp+

lemma canonical_dict_Nil: "canonical_dict [] = Inr []"
  by (simp add: canonical_dict_def)

lemma sample_trade_made: "make_trade (Aware 0 0) (Aware hour_us 0) sample_trade = Inr sample_trade"
  by (simp add: make_trade_def and_then_def require_def sample_trade_def sample_amounts canonical_dict_Nil
      normalize_utc_def optional_id_def dec_nonneg_def)

lemma sample_metrics_made: "make_metrics sample_metrics = Inr sample_metrics"
  using less_imp_le [OF pow10_pos [of 0]]
  by (simp add: make_metrics_def and_then_def require_def sample_metrics_def sample_amounts opt_checked_def
      dec_unit_def dec_nonneg_def dec_le_def dec_val_def)

lemma sample_backtest_made:
  assumes "amount c = Inr c" and "0 < dec_coeff c"
  shows "make_backtest_input (Aware 0 0) (Aware hour_us 0) (Aware hour_us 0) (sample_backtest c) = Inr (sample_backtest c)"
proof -
  have "dec_total [Dec 1 (- 1)] = Dec 1 (- 1)" "dec_total [Dec 0 0] = Dec 0 0" by code_simp+
  then have "validate_result_consistency (sample_backtest c)"
    by (simp add: validate_result_consistency_def sample_backtest_def sample_metrics_def sample_trade_def dec_eq_def count_if_def)
  moreover have "length (bi_trades (sample_backtest c)) \<le> MAX_BACKTEST_TRADES" "length (bi_signals (sample_backtest c)) \<le> MAX_BACKTEST_SIGNALS"
    by (simp_all add: sample_backtest_def MAX_BACKTEST_TRADES_def MAX_BACKTEST_SIGNALS_def)
  moreover have "sample_backtest c\<lparr>bi_capital := c, bi_equity := Dec 1 0, bi_start := 0, bi_end := hour_us, bi_generated := hour_us\<rparr>
      = sample_backtest c"
    by (simp add: sample_backtest_def)
  ultimately show ?thesis
    using assms by (simp add: make_backtest_input_def and_then_def require_def normalize_utc_def sample_amounts)
       (simp add: sample_backtest_def sample_amounts)
qed

lemma sample_backtest_built: "amount c = Inr c \<Longrightarrow> 0 < dec_coeff c \<Longrightarrow> built_backtest (sample_backtest c)"
  unfolding built_backtest_def
  using sample_backtest_made sample_metrics_made sample_trade_made
  by (simp add: sample_backtest_def) blast

definition sample_backtest_snapshot :: backtest_snapshot where
  "sample_backtest_snapshot = \<lparr>sn_strategy = 1, sn_version = 5, sn_number = 1,
     sn_hash = projr (definition_hash sample_canonical), sn_definition = sample_canonical\<rparr>"

lemma sample_load:
  "load_strategy_snapshot (\<lambda>p. Inr sample_canonical) (bi_version (sample_backtest c)) (bt_catalog sample_backtest_db)
     = Inr sample_backtest_snapshot"
proof -
  obtain h where "definition_hash sample_canonical = Inr h"
    using canonical_json_total [OF sample_canonical_content] by (auto simp: definition_hash_def)
  then show ?thesis
    by (simp add: load_strategy_snapshot_def sample_backtest_db_def sample_db_def sample_backtest_def sample_backtest_snapshot_def)
qed

lemma sample_refs: "validate_forensic_references sample_backtest_snapshot (sample_backtest c)"
  by (simp add: validate_forensic_references_def sample_backtest_snapshot_def sample_backtest_def sample_trade_def
      sample_canonical_def sample_asset_def)

lemma sample_db_empty: "backtest_ok tt sample_backtest_db" "existing_run i sample_backtest_db = None"
  by (simp_all add: backtest_ok_def sample_backtest_db_def existing_run_def)

lemma oversized_capital_unstorable_witness:
  "persist_backtest (\<lambda>t. []) (\<lambda>p. Inr sample_canonical) (sample_backtest (Dec 1 16)) id sample_backtest_db
     = (Inl DataError, sample_backtest_db) \<and> built_backtest (sample_backtest (Dec 1 16))"
proof
  have v: "dec_val (Dec 1 16) = 10 ^ 16" using pow10_nat [of 16] by (simp add: dec_val_def)
  show "persist_backtest (\<lambda>t. []) (\<lambda>p. Inr sample_canonical) (sample_backtest (Dec 1 16)) id sample_backtest_db
     = (Inl DataError, sample_backtest_db)"
    using oversized_capital_unstorable [of "Dec 1 16" "sample_backtest (Dec 1 16)", OF _ _ sample_load sample_refs sample_db_empty(2),
        of "\<lambda>t. []" id] v
    by (simp add: sample_backtest_def sample_amounts)
  show "built_backtest (sample_backtest (Dec 1 16))" by (rule sample_backtest_built) (simp_all add: sample_amounts)
qed

lemma sample_fits:
  "result_fits (build_result_model sample_backtest_snapshot (sample_backtest (Dec 1 0)) i h)" "trade_fits sample_trade"
proof -
  have 1: "pow10 0 = 1" "pow10 (- 1) = 1 / 10" by (simp_all add: pow10_powi power_int_def)
  have f: "amount_fits (Dec 1 0)" "amount_fits (Dec 1 (- 1))" "amount_fits (Dec 2 0)" "amount_fits (Dec 3 0)"
      "amount_fits (Dec 0 0)" "ratio_fits (Dec 0 0)"
    by (simp_all add: numeric_fits_def dec_val_def 1)
  then show "result_fits (build_result_model sample_backtest_snapshot (sample_backtest (Dec 1 0)) i h)"
    by (simp add: result_fits_def build_result_model_def sample_backtest_snapshot_def sample_backtest_def
        sample_metrics_def int32_def Let_def)
  show "trade_fits sample_trade" using f by (simp add: trade_fits_def sample_trade_def int32_def)
qed

text \<open>A run with one trade, stored.\<close>

definition sample_persisted :: "backtest_db" where
  "sample_persisted = snd (persist_backtest (\<lambda>t. []) (\<lambda>p. Inr sample_canonical) (sample_backtest (Dec 1 0)) id sample_backtest_db)"

lemma sample_persist:
  "\<exists>r. persist_backtest (\<lambda>t. []) (\<lambda>p. Inr sample_canonical) (sample_backtest (Dec 1 0)) id sample_backtest_db
      = (Inr r, sample_persisted) \<and> bt_results sample_persisted = [r]"
proof -
  let ?r = "build_result_model sample_backtest_snapshot (sample_backtest (Dec 1 0)) (run_id sample_backtest_snapshot (sample_backtest (Dec 1 0)))
     (result_hash (\<lambda>t. []) sample_backtest_snapshot (sample_backtest (Dec 1 0)))"
  have "\<exists>db'. add_result_rows ?r (sample_backtest (Dec 1 0)) sample_backtest_db = Inr db' \<and> bt_results db' = [?r]"
    unfolding add_result_rows_def
    using sample_fits sample_db_empty(2) by (simp add: sample_backtest_def sample_backtest_db_def sample_trade_def)
  then obtain db' where "add_result_rows ?r (sample_backtest (Dec 1 0)) sample_backtest_db = Inr db'" "bt_results db' = [?r]"
    by blast
  then show ?thesis
    by (simp add: sample_persisted_def persist_backtest_def sample_load sample_refs sample_db_empty(2) Let_def)
qed

lemma sample_history: "backtest_later (\<lambda>t. []) (\<lambda>p. Inr sample_canonical) sample_backtest_db sample_persisted"
  unfolding sample_persisted_def
  by (rule persisted [OF unchanged sample_backtest_built]) (simp_all add: sample_amounts unchanged)

lemma persisted_runs_never_change_witness:
  "length (bt_results sample_persisted) = 1 \<and> extends_db sample_backtest_db sample_persisted
     \<and> list_all (faithful_row (\<lambda>t. []) sample_persisted) (bt_results sample_persisted)"
  using persisted_runs_never_change [OF sample_history sample_db_empty(1)] sample_persist by (auto simp: list_all_iff)

lemma persisted_totals_exact_witness:
  "\<exists>r. bt_results sample_persisted = [r]
     \<and> dec_val (bm_fees (br_metrics r)) = (\<Sum>t \<leftarrow> of_run (br_run r) (bt_trades sample_persisted). dec_val (tr_fees t))"
  using persisted_totals_exact [OF sample_history sample_db_empty(1)] sample_persist by auto

lemma persist_answers_truthfully_witness:
  "\<exists>r. persist_backtest (\<lambda>t. []) (\<lambda>p. Inr sample_canonical) (sample_backtest (Dec 1 0)) id sample_backtest_db = (Inr r, sample_persisted)
     \<and> r \<in> set (bt_results sample_persisted)"
proof -
  obtain r where r: "persist_backtest (\<lambda>t. []) (\<lambda>p. Inr sample_canonical) (sample_backtest (Dec 1 0)) id sample_backtest_db
      = (Inr r, sample_persisted)" using sample_persist by blast
  from persist_answers_truthfully [OF r] have "r \<in> set (bt_results sample_persisted)" by auto
  with r show ?thesis by blast
qed

end
