(* ===== verification/Live_Strategy.thy ===== *)
theory Live_Strategy
  imports Live_Contracts Strategy_Catalog
begin

text \<open>
  \<open>app/services/live_strategy.py\<close>: activations of a strategy version, their per-asset states, and
  the polling evaluator that reads committed candles and keeps an observation of every attempt.

  The database is the record \<open>live_db\<close>.  One transaction is one function: the sessions of the
  workers do not flush on queries (\<open>autoflush=False\<close>), so every SELECT of a transaction reads the
  committed rows while the loaded objects are changed in the session, and the changes reach the
  tables in the commit.  An activation's rows are written only under the lock of its row.  The
  UUID of an observation is its key; the measured latency is left out.
\<close>

section \<open>Tables\<close>

record live_activation =
  la_id :: int
  la_strategy :: int
  la_version :: int
  la_version_number :: int
  la_hash :: string
  la_configuration :: pyval
  la_configuration_hash :: string
  la_status :: activation_status
  la_health :: live_health
  la_last_error :: "string option"
  la_activated_at :: usec
  la_deactivated_at :: "usec option"
  la_last_evaluated :: "usec option"
  la_cursor :: "int option"
  la_open :: int
  la_created_at :: usec

record live_state =
  ls_activation :: int
  ls_asset :: int
  ls_last_candle :: "usec option"
  ls_last_observed :: "usec option"
  ls_position :: position_state
  ls_position_changed :: "usec option"
  ls_health :: live_health
  ls_errors :: int
  ls_last_error :: "string option"

record live_observation =
  ob_activation :: int
  ob_asset :: int
  ob_time :: usec
  ob_attempt :: int
  ob_observed_at :: usec
  ob_status :: evaluation_status
  ob_signal :: "string option"
  ob_before :: position_state
  ob_after :: position_state
  ob_code :: "string option"
  ob_message :: "string option"

record live_event_row =
  ve_activation :: int
  ve_asset :: int
  ve_time :: usec
  ve_attempt :: int
  ve_type :: strategy_event_type
  ve_signal :: string
  ve_position :: position_state

record live_db =
  ld_catalog :: catalog
  ld_activations :: "live_activation list"
  ld_states :: "live_state list"
  ld_observations :: "live_observation list"
  ld_events :: "live_event_row list"

text \<open>
  The surroundings of a transaction: the clock at its readings, the candle tables at its reads
  (they grow while it runs), the rows other transactions have locked, the settings, and the
  readers of the two JSONB columns.
\<close>

record live_env =
  en_now :: "nat \<Rightarrow> usec"
  en_market :: "int \<Rightarrow> string \<Rightarrow> live_row list"
  en_locked :: "int \<Rightarrow> bool"
  en_max_assets :: int
  en_max_candles :: int
  en_definition :: "pyval \<Rightarrow> py_exn + canonical_definition"
  en_configuration :: "pyval \<Rightarrow> py_exn + live_configuration"

section \<open>Loading\<close>

abbreviation ActivationError :: py_exn where
  "ActivationError \<equiv> OtherException ''LiveStrategyActivationError''"

definition load_strategy_version ::
  "(pyval \<Rightarrow> py_exn + canonical_definition) \<Rightarrow> int \<Rightarrow> catalog \<Rightarrow> py_exn + (strategy_row \<times> version_row \<times> canonical_definition)" where
  "load_strategy_version read vid db =
     (case [(s, v). s \<leftarrow> ct_strategies db, v \<leftarrow> ct_versions db, sv_strategy v = st_id s \<and> sv_id v = vid] of
        [] \<Rightarrow> Inl ActivationError
      | (s, v) # _ \<Rightarrow>
          (case verified_definition read v of
             Inl e \<Rightarrow> Inl ActivationError
           | Inr d \<Rightarrow> Inr (s, v, d)))"

definition active_binding :: "int \<Rightarrow> string \<Rightarrow> live_activation \<Rightarrow> bool" where
  "active_binding vid h a \<longleftrightarrow> la_version a = vid \<and> la_configuration_hash a = h \<and> la_status a = ACT_ACTIVE"

definition is_value_error :: "py_exn \<Rightarrow> bool" where
  "is_value_error e \<longleftrightarrow> (case e of ValueError m \<Rightarrow> True | _ \<Rightarrow> False)"

section \<open>Activation\<close>

definition new_activation ::
  "int \<Rightarrow> usec \<Rightarrow> strategy_row \<Rightarrow> version_row \<Rightarrow> live_configuration \<Rightarrow> string \<Rightarrow> live_activation" where
  "new_activation uid now s v cfg h =
     \<lparr>la_id = uid, la_strategy = st_id s, la_version = sv_id v, la_version_number = sv_number v, la_hash = sv_hash v,
      la_configuration = configuration_dump cfg, la_configuration_hash = h, la_status = ACT_ACTIVE,
      la_health = LIVE_UNKNOWN, la_last_error = None, la_activated_at = now, la_deactivated_at = None,
      la_last_evaluated = None, la_cursor = None, la_open = 0, la_created_at = now\<rparr>"

definition new_state :: "int \<Rightarrow> int \<Rightarrow> live_state" where
  "new_state uid asset =
     \<lparr>ls_activation = uid, ls_asset = asset, ls_last_candle = None, ls_last_observed = None, ls_position = POS_FLAT,
      ls_position_changed = None, ls_health = LIVE_UNKNOWN, ls_errors = 0, ls_last_error = None\<rparr>"

text \<open>
  \<open>between\<close>: what other transactions commit before the flush, whose partial unique index admits one
  active activation per version and configuration.
\<close>

definition activate ::
  "(pyval \<Rightarrow> py_exn + canonical_definition) \<Rightarrow> int \<Rightarrow> usec \<Rightarrow> int \<Rightarrow> live_configuration \<Rightarrow> (live_db \<Rightarrow> live_db)
     \<Rightarrow> live_db \<Rightarrow> (py_exn + live_activation) \<times> live_db" where
  "activate read uid now vid cfg between db =
     (case load_strategy_version read vid (ld_catalog db) of
        Inl e \<Rightarrow> (Inl e, db)
      | Inr (s, v, d) \<Rightarrow>
          (case validate_live_definition d cfg of
             Some e \<Rightarrow> (Inl (if is_value_error e then ActivationError else e), db)
           | None \<Rightarrow>
               (case configuration_hash cfg of
                  Inl e \<Rightarrow> (Inl e, db)
                | Inr h \<Rightarrow>
                    (case find (active_binding (sv_id v) h) (ld_activations db) of
                       Some a \<Rightarrow> (Inr a, db)
                     | None \<Rightarrow>
                         let db1 = between db in
                         (case find (active_binding (sv_id v) h) (ld_activations db1) of
                            Some a \<Rightarrow> (Inr a, db1)
                          | None \<Rightarrow>
                              let a = new_activation uid now s v cfg h
                              in (Inr a, db1\<lparr>ld_activations := ld_activations db1 @ [a],
                                             ld_states := ld_states db1 @ map (new_state uid \<circ> in_asset) (cd_universe d)\<rparr>))))))"

definition deactivate :: "int \<Rightarrow> usec \<Rightarrow> live_db \<Rightarrow> bool \<times> live_db" where
  "deactivate aid now db =
     (case find (\<lambda>a. la_id a = aid) (ld_activations db) of
        None \<Rightarrow> (False, db)
      | Some a \<Rightarrow>
          if la_status a \<noteq> ACT_ACTIVE then (True, db)
          else (True, db\<lparr>
            ld_activations := update_where (\<lambda>r. la_id r = aid)
              (\<lambda>r. r\<lparr>la_status := ACT_DEACTIVATED, la_health := LIVE_STOPPED, la_deactivated_at := Some now\<rparr>) (ld_activations db),
            ld_states := update_where (\<lambda>r. ls_activation r = aid) (\<lambda>r. r\<lparr>ls_health := LIVE_STOPPED\<rparr>) (ld_states db)\<rparr>))"

section \<open>One candle\<close>

fun exn_message :: "py_exn \<Rightarrow> string" where
  "exn_message (ValueError m) = m"
| "exn_message (TypeError m) = m"
| "exn_message (RuntimeError m) = m"
| "exn_message e = exn_type_name e"

definition can_open_position :: "canonical_definition \<Rightarrow> live_activation \<Rightarrow> live_state \<Rightarrow> bool" where
  "can_open_position d act st \<longleftrightarrow>
     ls_position st \<noteq> POS_FLAT \<or> la_open act < pr_max_open (cd_position d)"

definition observed_outcome ::
  "canonical_definition \<Rightarrow> live_candle \<Rightarrow> live_activation \<Rightarrow> live_state \<Rightarrow> outcome" where
  "observed_outcome d c act st =
     (case evaluate_live_candle d c (ls_position st) (ls_last_candle st) (can_open_position d act st) of
        Inr oc \<Rightarrow> oc
      | Inl e \<Rightarrow> failed_outcome EVAL_ERROR (ls_position st) ''evaluation_error'' (exn_message e))"

definition observation_of :: "int \<Rightarrow> int \<Rightarrow> usec \<Rightarrow> live_observation \<Rightarrow> bool" where
  "observation_of act asset t ob \<longleftrightarrow> ob_activation ob = act \<and> ob_asset ob = asset \<and> ob_time ob = t"

text \<open>The attempt number of a new observation, \<open>None\<close> when the outcome is not recorded again.\<close>

definition next_attempt :: "live_observation list \<Rightarrow> int \<Rightarrow> int \<Rightarrow> usec \<Rightarrow> evaluation_status \<Rightarrow> int option" where
  "next_attempt obs act asset t st =
     (case select_first (\<lambda>ob. - ob_attempt ob) (observation_of act asset t) obs of
        None \<Rightarrow> Some 1
      | Some prev \<Rightarrow>
          if ob_status prev = EVALUATED then None
          else if st \<noteq> EVALUATED then None
          else Some (ob_attempt prev + 1))"

definition new_observation :: "int \<Rightarrow> live_candle \<Rightarrow> int \<Rightarrow> usec \<Rightarrow> outcome \<Rightarrow> live_observation" where
  "new_observation act c attempt now oc =
     \<lparr>ob_activation = act, ob_asset = lv_asset c, ob_time = lv_time c, ob_attempt = attempt, ob_observed_at = now,
      ob_status = oc_status oc, ob_signal = oc_signal oc, ob_before = oc_before oc, ob_after = oc_after oc,
      ob_code = oc_code oc, ob_message = oc_message oc\<rparr>"

definition new_events :: "int \<Rightarrow> live_candle \<Rightarrow> int \<Rightarrow> outcome \<Rightarrow> live_event_row list" where
  "new_events act c attempt oc =
     map (\<lambda>e. \<lparr>ve_activation = act, ve_asset = lv_asset c, ve_time = lv_time c, ve_attempt = attempt,
               ve_type = le_type e, ve_signal = le_signal e, ve_position = le_position e\<rparr>) (oc_events oc)"

definition move_state :: "live_candle \<Rightarrow> usec \<Rightarrow> outcome \<Rightarrow> live_state \<Rightarrow> live_state" where
  "move_state c now oc st =
     (let st1 = st\<lparr>ls_last_observed := Some now\<rparr> in
      if oc_status oc = EVALUATED
      then let st2 = st1\<lparr>ls_last_candle := Some (lv_time c), ls_health := LIVE_HEALTHY, ls_errors := 0, ls_last_error := None\<rparr>
           in if oc_after oc \<noteq> oc_before oc
              then st2\<lparr>ls_position := oc_after oc, ls_position_changed := Some now\<rparr> else st2
      else st1\<lparr>ls_health := (if oc_status oc = GAP_DETECTED then LIVE_DEGRADED else LIVE_ERROR),
               ls_errors := ls_errors st + 1, ls_last_error := oc_message oc\<rparr>)"

definition open_change :: "outcome \<Rightarrow> int" where
  "open_change oc =
     (if oc_status oc = EVALUATED \<and> oc_after oc \<noteq> oc_before oc
      then if oc_before oc = POS_FLAT then 1 else if oc_after oc = POS_FLAT then -1 else 0
      else 0)"

text \<open>\<open>_refresh_activation_health\<close> on the rows its SELECT returns.\<close>

definition refresh_activation_health :: "live_state list \<Rightarrow> live_activation \<Rightarrow> live_activation" where
  "refresh_activation_health rows act =
     (if rows = [] then act\<lparr>la_health := LIVE_UNKNOWN\<rparr>
      else if \<exists>r \<in> set rows. ls_health r = LIVE_ERROR then act\<lparr>la_health := LIVE_ERROR\<rparr>
      else if \<exists>r \<in> set rows. ls_health r = LIVE_DEGRADED then act\<lparr>la_health := LIVE_DEGRADED\<rparr>
      else if (\<exists>r \<in> set rows. ls_health r = LIVE_UNKNOWN) \<or> (\<exists>r \<in> set rows. ls_last_candle r = None)
      then act\<lparr>la_health := LIVE_UNKNOWN\<rparr>
      else act\<lparr>la_health := LIVE_HEALTHY, la_last_error := None\<rparr>)"

definition states_of :: "int \<Rightarrow> live_db \<Rightarrow> live_state list" where
  "states_of aid db = filter (\<lambda>r. ls_activation r = aid) (ld_states db)"

definition move_activation :: "live_db \<Rightarrow> usec \<Rightarrow> outcome \<Rightarrow> live_activation \<Rightarrow> live_activation" where
  "move_activation db now oc act =
     (let act1 = act\<lparr>la_open := la_open act + open_change oc\<rparr> in
      if oc_status oc = EVALUATED
      then (refresh_activation_health (states_of (la_id act) db) act1)\<lparr>la_last_evaluated := Some now\<rparr>
      else act1\<lparr>la_health := (if oc_status oc = GAP_DETECTED then LIVE_DEGRADED else LIVE_ERROR),
                la_last_error := oc_message oc\<rparr>)"

text \<open>The session of a transaction: the loaded activation, the added rows, the clock readings.\<close>

record live_session =
  sn_activation :: live_activation
  sn_observations :: "live_observation list"
  sn_events :: "live_event_row list"
  sn_evaluated :: nat
  sn_clock :: nat

definition evaluate_and_persist ::
  "live_env \<Rightarrow> live_db \<Rightarrow> canonical_definition \<Rightarrow> live_candle \<Rightarrow> live_state \<Rightarrow> live_session
     \<Rightarrow> bool \<times> live_state \<times> live_session" where
  "evaluate_and_persist env db d c st s =
     (let now = en_now env (sn_clock s);
          s1 = s\<lparr>sn_clock := sn_clock s + 1\<rparr>;
          act = sn_activation s;
          oc = observed_outcome d c act st
      in if oc_status oc \<in> {DUPLICATE, OUT_OF_ORDER} then (False, st, s1)
         else (case next_attempt (ld_observations db) (la_id act) (lv_asset c) (lv_time c) (oc_status oc) of
                 None \<Rightarrow> (False, st, s1)
               | Some attempt \<Rightarrow>
                   (True, move_state c now oc st,
                    s1\<lparr>sn_observations := sn_observations s @ [new_observation (la_id act) c attempt now oc],
                       sn_events := sn_events s @ new_events (la_id act) c attempt oc,
                       sn_activation := move_activation db now oc act\<rparr>)))"

text \<open>The loop over the candles of one asset; it stops at the first candle the state did not reach.\<close>

fun process_candles ::
  "live_env \<Rightarrow> live_db \<Rightarrow> canonical_definition \<Rightarrow> live_candle list \<Rightarrow> live_state \<Rightarrow> live_session \<Rightarrow> live_state \<times> live_session" where
  "process_candles env db d [] st s = (st, s)"
| "process_candles env db d (c # cs) st s =
     (case evaluate_and_persist env db d c st s of
        (persisted, st1, s1) \<Rightarrow>
          if ls_last_candle st1 \<noteq> Some (lv_time c) then (st1, s1)
          else process_candles env db d cs st1 (if persisted then s1\<lparr>sn_evaluated := sn_evaluated s1 + 1\<rparr> else s1))"

section \<open>One activation\<close>

definition read_canonical_candles ::
  "live_env \<Rightarrow> int \<Rightarrow> string \<Rightarrow> usec \<Rightarrow> int \<Rightarrow> py_exn + live_candle list" where
  "read_canonical_candles env asset tf after limit =
     all_or_error (map make_live_candle
       (select_limit (\<lambda>r. utc (lr_time r)) (\<lambda>r. lr_asset r = asset \<and> utc (lr_time r) > after) (nat limit) (en_market env asset tf)))"

fun process_states ::
  "live_env \<Rightarrow> live_db \<Rightarrow> canonical_definition \<Rightarrow> int \<Rightarrow> live_state list \<Rightarrow> live_session
     \<Rightarrow> py_exn + (live_state list \<times> live_session)" where
  "process_states env db d limit [] s = Inr ([], s)"
| "process_states env db d limit (st # sts) s =
     (case read_canonical_candles env (ls_asset st) (timeframe_value (cd_timeframe d))
             (case ls_last_candle st of None \<Rightarrow> la_activated_at (sn_activation s) | Some t \<Rightarrow> t) limit of
        Inl e \<Rightarrow> Inl e
      | Inr cs \<Rightarrow>
          (case process_candles env db d cs st s of
             (st1, s1) \<Rightarrow>
               (case process_states env db d limit sts s1 of
                  Inl e \<Rightarrow> Inl e
                | Inr (sts1, s2) \<Rightarrow> Inr (st1 # sts1, s2))))"

definition state_page :: "int \<Rightarrow> int option \<Rightarrow> int \<Rightarrow> live_db \<Rightarrow> live_state list" where
  "state_page aid cursor limit db =
     select_limit ls_asset (\<lambda>r. ls_activation r = aid \<and> (case cursor of None \<Rightarrow> True | Some k \<Rightarrow> ls_asset r > k))
       (nat limit) (ld_states db)"

definition locked_state_slice :: "int \<Rightarrow> live_activation \<Rightarrow> live_db \<Rightarrow> live_state list \<times> live_activation" where
  "locked_state_slice limit act db =
     (let page = state_page (la_id act) (la_cursor act) limit db in
      if page = [] \<and> la_cursor act \<noteq> None
      then (state_page (la_id act) None limit db, act\<lparr>la_cursor := None\<rparr>)
      else (page, act))"

text \<open>The rows a session writes back; its keys are unique in their tables or the commit fails.\<close>

definition write_activation :: "live_activation \<Rightarrow> live_db \<Rightarrow> live_db" where
  "write_activation act db =
     db\<lparr>ld_activations := update_where (\<lambda>r. la_id r = la_id act) (\<lambda>_. act) (ld_activations db)\<rparr>"

definition state_key :: "live_state \<Rightarrow> int \<times> int" where
  "state_key r = (ls_activation r, ls_asset r)"

definition put_state :: "live_state \<Rightarrow> live_state list \<Rightarrow> live_state list" where
  "put_state st rows = update_where (\<lambda>r. state_key r = state_key st) (\<lambda>_. st) rows"

definition write_states :: "live_state list \<Rightarrow> live_state list \<Rightarrow> live_state list" where
  "write_states sts rows = fold put_state sts rows"

definition observation_key :: "live_observation \<Rightarrow> int \<times> int \<times> usec \<times> int" where
  "observation_key ob = (ob_activation ob, ob_asset ob, ob_time ob, ob_attempt ob)"

definition event_key :: "live_event_row \<Rightarrow> int \<times> int \<times> usec \<times> strategy_event_type \<times> string" where
  "event_key e = (ve_activation e, ve_asset e, ve_time e, ve_type e, ve_signal e)"

definition commit_session :: "live_state list \<Rightarrow> live_session \<Rightarrow> live_db \<Rightarrow> py_exn + live_db" where
  "commit_session sts s db =
     (let obs = ld_observations db @ sn_observations s; evs = ld_events db @ sn_events s
      in if \<not> distinct (map observation_key obs) \<or> \<not> distinct (map event_key evs) \<or> la_open (sn_activation s) < 0
         then Inl (OtherException ''IntegrityError'')
         else Inr ((write_activation (sn_activation s) db)
           \<lparr>ld_states := write_states sts (ld_states db), ld_observations := obs, ld_events := evs\<rparr>))"

definition checked_definition ::
  "live_env \<Rightarrow> live_activation \<Rightarrow> live_db \<Rightarrow> py_exn + (canonical_definition \<times> live_configuration)" where
  "checked_definition env act db =
     (case en_configuration env (la_configuration act) of
        Inl e \<Rightarrow> Inl e
      | Inr cfg \<Rightarrow>
          (case load_strategy_version (en_definition env) (la_version act) (ld_catalog db) of
             Inl e \<Rightarrow> Inl e
           | Inr (s, v, d) \<Rightarrow>
               if sv_hash v \<noteq> la_hash act
               then Inl (ValueError ''activation strategy definition hash no longer matches its version'')
               else (case validate_live_definition d cfg of Some e \<Rightarrow> Inl e | None \<Rightarrow> Inr (d, cfg))))"

definition process_activation :: "live_env \<Rightarrow> int \<Rightarrow> live_db \<Rightarrow> (py_exn + nat) \<times> live_db" where
  "process_activation env aid db =
     (case find (\<lambda>a. la_id a = aid \<and> la_status a = ACT_ACTIVE \<and> \<not> en_locked env aid) (ld_activations db) of
        None \<Rightarrow> (Inr 0, db)
      | Some act \<Rightarrow>
          (case checked_definition env act db of
             Inl e \<Rightarrow>
               if is_value_error e \<or> e = ActivationError
               then (Inr 0, write_activation
                       (act\<lparr>la_status := ACT_ERROR, la_health := LIVE_ERROR, la_last_error := Some (exn_message e)\<rparr>) db)
               else (Inl e, db)
           | Inr (d, cfg) \<Rightarrow>
               (case locked_state_slice (en_max_assets env) act db of
                  (sts, act1) \<Rightarrow>
                    if sts = [] then (Inr 0, write_activation act1 db)
                    else (case process_states env db d (min (lc_max_candles cfg) (en_max_candles env)) sts
                                 \<lparr>sn_activation = act1\<lparr>la_cursor := Some (ls_asset (last sts))\<rparr>,
                                  sn_observations = [], sn_events = [], sn_evaluated = 0, sn_clock = 0\<rparr> of
                            Inl e \<Rightarrow> (Inl e, db)
                          | Inr (sts1, s) \<Rightarrow>
                              (case commit_session sts1 s db of
                                 Inl e \<Rightarrow> (Inl e, db)
                               | Inr db1 \<Rightarrow> (Inr (sn_evaluated s), db1))))))"

section \<open>All activations\<close>

definition active_order :: "live_activation \<Rightarrow> int \<times> usec \<times> usec \<times> int" where
  "active_order a =
     (case la_last_evaluated a of
        None \<Rightarrow> (0, 0, la_created_at a, la_id a)
      | Some t \<Rightarrow> (1, t, la_created_at a, la_id a))"

definition active_ids :: "nat \<Rightarrow> live_db \<Rightarrow> int list" where
  "active_ids limit db =
     map la_id (select_limit active_order (\<lambda>a. la_status a = ACT_ACTIVE) limit (ld_activations db))"

text \<open>Each activation has its own transaction; \<open>env\<close> gives the surroundings of the one of an id.\<close>

fun process_each :: "(int \<Rightarrow> live_env) \<Rightarrow> int list \<Rightarrow> live_db \<Rightarrow> nat \<times> live_db" where
  "process_each env [] db = (0, db)"
| "process_each env (aid # aids) db =
     (case process_activation (env aid) aid db of
        (r, db1) \<Rightarrow>
          (case process_each env aids db1 of
             (n, db2) \<Rightarrow> ((case r of Inl e \<Rightarrow> 0 | Inr k \<Rightarrow> k) + n, db2)))"

definition process_active :: "(int \<Rightarrow> live_env) \<Rightarrow> nat \<Rightarrow> live_db \<Rightarrow> nat \<times> live_db" where
  "process_active env limit db = process_each env (active_ids limit db) db"

section \<open>Invariant\<close>

definition open_states :: "int \<Rightarrow> live_state list \<Rightarrow> int" where
  "open_states aid rows = int (length (filter (\<lambda>r. ls_activation r = aid \<and> ls_position r \<noteq> POS_FLAT) rows))"

definition counts_ok :: "live_db \<Rightarrow> bool" where
  "counts_ok db \<longleftrightarrow>
     distinct (map la_id (ld_activations db)) \<and> distinct (map state_key (ld_states db))
     \<and> ls_activation ` set (ld_states db) \<subseteq> la_id ` set (ld_activations db)
     \<and> (\<forall>a \<in> set (ld_activations db). la_open a = open_states (la_id a) (ld_states db))"

definition observations_ok :: "live_observation list \<Rightarrow> bool" where
  "observations_ok obs \<longleftrightarrow>
     distinct (map observation_key obs)
     \<and> (\<forall>ob \<in> set obs. \<forall>ob' \<in> set obs. ob_status ob = EVALUATED
          \<and> observation_of (ob_activation ob) (ob_asset ob) (ob_time ob) ob' \<longrightarrow> ob_attempt ob' \<le> ob_attempt ob)"

definition events_ok :: "live_db \<Rightarrow> bool" where
  "events_ok db \<longleftrightarrow>
     distinct (map event_key (ld_events db))
     \<and> (\<forall>e \<in> set (ld_events db). \<exists>ob \<in> set (ld_observations db).
          observation_key ob = (ve_activation e, ve_asset e, ve_time e, ve_attempt e) \<and> ob_status ob = EVALUATED)"

text \<open>The cursor of a state is the latest evaluated candle.\<close>

definition cursors_ok :: "live_db \<Rightarrow> bool" where
  "cursors_ok db \<longleftrightarrow>
     (\<forall>ob \<in> set (ld_observations db). ob_status ob = EVALUATED \<longrightarrow>
        (\<exists>st \<in> set (ld_states db). state_key st = (ob_activation ob, ob_asset ob)
           \<and> (\<exists>t. ls_last_candle st = Some t \<and> ob_time ob \<le> t)))
     \<and> (\<forall>st \<in> set (ld_states db). \<forall>t. ls_last_candle st = Some t \<longrightarrow>
          (\<exists>ob \<in> set (ld_observations db). ob_status ob = EVALUATED \<and> ob_time ob = t
             \<and> state_key st = (ob_activation ob, ob_asset ob)))"

definition live_ok :: "live_db \<Rightarrow> bool" where
  "live_ok db \<longleftrightarrow> counts_ok db \<and> observations_ok (ld_observations db) \<and> events_ok db \<and> cursors_ok db"

lemma put_state_simps:
  "map state_key (put_state st rows) = map state_key rows"
  "ls_activation ` set (put_state st rows) = ls_activation ` set rows"
proof -
  show k: "map state_key (put_state st rows) = map state_key rows" by (simp add: put_state_def update_where_def)
  have "map ls_activation (put_state st rows) = map ls_activation rows"
    using arg_cong [OF k, of "map fst"] by (simp add: state_key_def o_def)
  then show "ls_activation ` set (put_state st rows) = ls_activation ` set rows" by (metis set_map)
qed

lemma put_state_put [simp]: "state_key st' = state_key st \<Longrightarrow> put_state st' (put_state st rows) = put_state st' rows"
  by (simp add: put_state_def update_where_def)

lemma put_state_same: "distinct (map state_key rows) \<Longrightarrow> st \<in> set rows \<Longrightarrow> put_state st rows = rows"
  unfolding put_state_def update_where_def by (rule map_idI) (auto simp: distinct_map inj_on_def)

lemma set_put_state:
  assumes "distinct (map state_key rows)" and "st \<in> set rows" and "state_key st' = state_key st"
  shows "set (put_state st' rows) = insert st' (set rows - {st})"
  using assms by (auto simp: put_state_def set_update_where distinct_map inj_on_def image_iff)

lemma open_states_Cons:
  "open_states aid [] = 0"
  "open_states aid (r # rows) = (if ls_activation r = aid \<and> ls_position r \<noteq> POS_FLAT then 1 else 0) + open_states aid rows"
  by (simp_all add: open_states_def)

lemma put_state_Cons:
  "put_state st [] = []"
  "put_state st (r # rows) = (if state_key r = state_key st then st else r) # put_state st rows"
  by (simp_all add: put_state_def update_where_def)

lemma open_states_put:
  assumes "distinct (map state_key rows)" and "st \<in> set rows" and "state_key st' = state_key st"
  shows "open_states aid (put_state st' rows) = open_states aid rows
    + (if ls_activation st = aid then (if ls_position st' \<noteq> POS_FLAT then 1 else 0) - (if ls_position st \<noteq> POS_FLAT then 1 else 0) else 0)"
  using assms
proof (induction rows)
  case (Cons r rows)
  have act: "ls_activation st' = ls_activation st" using Cons.prems(3) by (simp add: state_key_def)
  show ?case
  proof (cases "r = st")
    case True
    have "state_key st' \<notin> state_key ` set rows" using Cons.prems True by simp
    then have "put_state st' rows = rows"
      unfolding put_state_def by (intro update_where_none ballI notI) (metis image_eqI)
    then show ?thesis using True Cons.prems(3) act by (simp add: put_state_Cons open_states_Cons)
  next
    case False
    then have "state_key r \<noteq> state_key st'" using Cons.prems by (auto simp: image_iff)
    then show ?thesis using Cons False by (simp add: put_state_Cons open_states_Cons)
  qed
qed simp

text \<open>What one recorded candle does to the tables.\<close>

definition record_candle ::
  "live_candle \<Rightarrow> usec \<Rightarrow> outcome \<Rightarrow> int \<Rightarrow> live_activation \<Rightarrow> live_state \<Rightarrow> live_db \<Rightarrow> live_db" where
  "record_candle c now oc attempt act' st v =
     (write_activation act' v)
       \<lparr>ld_states := put_state (move_state c now oc st) (ld_states v),
        ld_observations := ld_observations v @ [new_observation (la_id act') c attempt now oc],
        ld_events := ld_events v @ new_events (la_id act') c attempt oc\<rparr>"

lemma record_candle_simps [simp]:
  "ld_states (record_candle c now oc attempt act' st v) = put_state (move_state c now oc st) (ld_states v)"
  "ld_observations (record_candle c now oc attempt act' st v) =
     ld_observations v @ [new_observation (la_id act') c attempt now oc]"
  "ld_events (record_candle c now oc attempt act' st v) = ld_events v @ new_events (la_id act') c attempt oc"
  "ld_activations (record_candle c now oc attempt act' st v) =
     update_where (\<lambda>r. la_id r = la_id act') (\<lambda>_. act') (ld_activations v)"
  by (simp_all add: record_candle_def write_activation_def)

lemma new_observation_simps [simp]:
  "observation_key (new_observation a c n now oc) = (a, lv_asset c, lv_time c, n)"
  "ob_status (new_observation a c n now oc) = oc_status oc" "ob_time (new_observation a c n now oc) = lv_time c"
  "ob_activation (new_observation a c n now oc) = a" "ob_asset (new_observation a c n now oc) = lv_asset c"
  "ob_attempt (new_observation a c n now oc) = n"
  by (simp_all add: new_observation_def observation_key_def)

lemma move_state_simps [simp]:
  "state_key (move_state c now oc st) = state_key st" "ls_asset (move_state c now oc st) = ls_asset st"
  "ls_activation (move_state c now oc st) = ls_activation st"
  "ls_last_candle (move_state c now oc st) = (if oc_status oc = EVALUATED then Some (lv_time c) else ls_last_candle st)"
  by (auto simp: move_state_def state_key_def Let_def)

lemma move_state_position:
  "outcome_ok (ls_position st) oc \<Longrightarrow> ls_position (move_state c now oc st) = oc_after oc"
  by (auto simp: move_state_def outcome_ok_def Let_def)

lemma open_change_eq:
  "outcome_ok p oc \<Longrightarrow> open_change oc = (if oc_after oc \<noteq> POS_FLAT then 1 else 0) - (if p \<noteq> POS_FLAT then 1 else 0)"
  by (auto simp: open_change_def outcome_ok_def)

lemma observed_outcome_ok: "outcome_ok (ls_position st) (observed_outcome d c act st)"
  by (auto simp: observed_outcome_def outcome_ok_failed dest: evaluate_ok split: sum.splits)

lemma observed_EVALUATED:
  assumes "oc_status (observed_outcome d c act st) = EVALUATED"
  shows "evaluate_live_candle d c (ls_position st) (ls_last_candle st) (can_open_position d act st) = Inr (observed_outcome d c act st)"
    and "\<forall>t \<in> set_option (ls_last_candle st). t < lv_time c \<and> lv_time c \<le> t + interval_of (cd_timeframe d)"
    and "is_timeframe_aligned (lv_time c) (cd_timeframe d)"
  using assms evaluate_EVALUATED(3,4)
  by (fastforce simp: observed_outcome_def failed_outcome_def split: sum.splits)+

lemma counts_ok_record:
  assumes "counts_ok v" and "act \<in> set (ld_activations v)" and "st \<in> set (ld_states v)"
    and "ls_activation st = la_id act" and "outcome_ok (ls_position st) oc"
    and "la_id act' = la_id act" and "la_open act' = la_open act + open_change oc"
  shows "counts_ok (record_candle c now oc attempt act' st v)"
proof -
  let ?st = "move_state c now oc st"
  have d: "distinct (map state_key (ld_states v))" and da: "distinct (map la_id (ld_activations v))"
    using assms(1) by (simp_all add: counts_ok_def)
  have "open_states a (put_state ?st (ld_states v)) = open_states a (ld_states v) + (if la_id act = a then open_change oc else 0)" for a
    using open_states_put [OF d assms(3), of ?st a] move_state_position [OF assms(5)] open_change_eq [OF assms(5)] assms(4)
    by simp
  note opens = this
  have ids: "map la_id (update_where (\<lambda>r. la_id r = la_id act') (\<lambda>_. act') rows) = map la_id rows" for rows
    by (simp add: update_where_def)
  then have idset: "la_id ` set (update_where (\<lambda>r. la_id r = la_id act') (\<lambda>_. act') rows) = la_id ` set rows" for rows
    by (metis set_map)
  have "la_open a = open_states (la_id a) (put_state ?st (ld_states v))"
    if "a \<in> set (update_where (\<lambda>r. la_id r = la_id act') (\<lambda>_. act') (ld_activations v))" for a
  proof (cases "la_id a = la_id act")
    case True
    then have "a = act'" using that assms(6) by (auto simp: set_update_where split: if_splits)
    then show ?thesis using opens assms(1,2,6,7) by (auto simp: counts_ok_def)
  next
    case False
    then have "a \<in> set (ld_activations v)" using that assms(6) by (auto simp: set_update_where split: if_splits)
    then show ?thesis using opens False assms(1) by (auto simp: counts_ok_def)
  qed
  then show ?thesis
    using assms(1) by (simp add: counts_ok_def ids idset put_state_simps)
qed

lemma observation_of_key:
  "observation_of a i t ob \<Longrightarrow> observation_key ob = (a, i, t, ob_attempt ob)"
  by (simp add: observation_of_def observation_key_def)

lemma next_attempt_Some:
  assumes "next_attempt obs a i t st = Some n" and "observations_ok obs"
    and "ob \<in> set obs" and "observation_of a i t ob"
  shows "ob_attempt ob < n \<and> ob_status ob \<noteq> EVALUATED"
proof -
  have "select_first (\<lambda>ob. - ob_attempt ob) (observation_of a i t) obs \<noteq> None"
    unfolding select_first_None_iff using assms(3,4) by blast
  then obtain prev where prev: "select_first (\<lambda>ob. - ob_attempt ob) (observation_of a i t) obs = Some prev"
    by blast
  have p: "prev \<in> set obs" "observation_of a i t prev" "ob_attempt ob \<le> ob_attempt prev"
    using select_first_Some [OF prev] select_first_least [OF prev assms(3,4)] by simp_all
  have n: "ob_status prev \<noteq> EVALUATED" "n = ob_attempt prev + 1"
    using assms(1) prev by (auto simp: next_attempt_def split: if_splits)
  have "ob_status ob \<noteq> EVALUATED"
  proof
    assume "ob_status ob = EVALUATED"
    moreover have "observation_of (ob_activation ob) (ob_asset ob) (ob_time ob) prev"
      using p(2) assms(4) by (simp add: observation_of_def)
    ultimately have "ob_attempt prev \<le> ob_attempt ob"
      using assms(2,3) p(1) unfolding observations_ok_def by blast
    then have "observation_key prev = observation_key ob"
      using p(3) observation_of_key [OF p(2)] observation_of_key [OF assms(4)] by simp
    then have "prev = ob" using assms(2,3) p(1) by (auto simp: observations_ok_def distinct_map inj_on_def)
    then show False using n(1) \<open>ob_status ob = EVALUATED\<close> by simp
  qed
  then show ?thesis using n(2) p(3) by simp
qed

lemma observations_ok_record:
  assumes "observations_ok obs" and n: "next_attempt obs a (lv_asset c) (lv_time c) (oc_status oc) = Some n"
  shows "observations_ok (obs @ [new_observation a c n now oc])"
proof -
  let ?new = "new_observation a c n now oc"
  note older = next_attempt_Some [OF n assms(1)]
  have "observation_key ?new \<notin> observation_key ` set obs"
  proof
    assume "observation_key ?new \<in> observation_key ` set obs"
    then obtain ob where "ob \<in> set obs" "observation_key ob = (a, lv_asset c, lv_time c, n)" by auto
    then show False using older [of ob] by (simp add: observation_of_def observation_key_def)
  qed
  then have 1: "distinct (map observation_key (obs @ [?new]))"
    using assms(1) by (simp add: observations_ok_def)
  have "ob_attempt ob' \<le> ob_attempt ob"
    if "ob \<in> set (obs @ [?new])" "ob' \<in> set (obs @ [?new])" "ob_status ob = EVALUATED"
      "observation_of (ob_activation ob) (ob_asset ob) (ob_time ob) ob'" for ob ob'
  proof (cases "ob' = ?new")
    case True
    then have "observation_of a (lv_asset c) (lv_time c) ob" using that(4) by (simp add: observation_of_def)
    then show ?thesis using older that(1,3) True by fastforce
  next
    case False
    then have ob': "ob' \<in> set obs" using that(2) by simp
    show ?thesis
    proof (cases "ob = ?new")
      case True
      then show ?thesis using older [OF ob'] that(4) by simp
    next
      case False
      then show ?thesis using that ob' assms(1) unfolding observations_ok_def by simp
    qed
  qed
  then show ?thesis using 1 unfolding observations_ok_def by blast
qed

lemma outcome_events:
  "outcome_ok p oc \<Longrightarrow> oc_status oc \<noteq> EVALUATED \<Longrightarrow> oc_events oc = []"
  by (auto simp: outcome_ok_def elim: event_path.cases)

lemma events_ok_record:
  assumes "events_ok v" and "observations_ok (ld_observations v)" and "outcome_ok p oc"
    and n: "next_attempt (ld_observations v) (la_id act') (lv_asset c) (lv_time c) (oc_status oc) = Some n"
  shows "events_ok (record_candle c now oc n act' st v)"
proof (cases "oc_status oc = EVALUATED")
  case False
  then have "new_events (la_id act') c n oc = []" using outcome_events [OF assms(3)] by (simp add: new_events_def)
  then show ?thesis using assms(1) by (auto simp: events_ok_def)
next
  case True
  let ?new = "new_events (la_id act') c n oc"
  have path: "event_path p (oc_signal oc) (oc_events oc) (oc_after oc)" using assms(3) by (simp add: outcome_ok_def)
  have "distinct (map (ve_type \<circ> id) ?new)" using event_path_types [OF path] by (simp add: new_events_def o_def)
  then have 1: "distinct (map event_key ?new)"
    by (auto simp: distinct_map inj_on_def event_key_def)
  have "event_key e \<notin> event_key ` set ?new" if e: "e \<in> set (ld_events v)" for e
  proof
    assume "event_key e \<in> event_key ` set ?new"
    then have k: "ve_activation e = la_id act'" "ve_asset e = lv_asset c" "ve_time e = lv_time c"
      by (auto simp: event_key_def new_events_def)
    obtain ob where "ob \<in> set (ld_observations v)" "ob_status ob = EVALUATED"
        "observation_key ob = (ve_activation e, ve_asset e, ve_time e, ve_attempt e)"
      using assms(1) e by (auto simp: events_ok_def)
    then show False
      using next_attempt_Some [OF n assms(2)] k by (auto simp: observation_key_def observation_of_def)
  qed
  then have "distinct (map event_key (ld_events v @ ?new))"
    using assms(1) 1 by (simp add: events_ok_def) blast
  moreover have "\<exists>ob \<in> set (ld_observations (record_candle c now oc n act' st v)).
      observation_key ob = (ve_activation e, ve_asset e, ve_time e, ve_attempt e) \<and> ob_status ob = EVALUATED"
    if "e \<in> set (ld_events v @ ?new)" for e
    using that assms(1) True by (auto simp: events_ok_def new_events_def)
  ultimately show ?thesis unfolding events_ok_def by simp
qed

lemma cursors_ok_record:
  assumes "cursors_ok v" and "counts_ok v" and "st \<in> set (ld_states v)"
    and "state_key st = (la_id act', lv_asset c)"
    and "oc_status oc = EVALUATED \<Longrightarrow> \<forall>t \<in> set_option (ls_last_candle st). t < lv_time c"
  shows "cursors_ok (record_candle c now oc n act' st v)"
proof -
  let ?st = "move_state c now oc st" and ?new = "new_observation (la_id act') c n now oc"
  have d: "distinct (map state_key (ld_states v))" using assms(2) by (simp add: counts_ok_def)
  have rows: "set (ld_states (record_candle c now oc n act' st v)) = insert ?st (set (ld_states v) - {st})"
    using set_put_state [OF d assms(3), of ?st] by simp
  have own: "r = st" if "r \<in> set (ld_states v)" "state_key r = (la_id act', lv_asset c)" for r
    using d that assms(3,4) by (simp add: distinct_map inj_on_def)
  have 1: "\<exists>r \<in> insert ?st (set (ld_states v) - {st}). state_key r = (ob_activation ob, ob_asset ob)
      \<and> (\<exists>t. ls_last_candle r = Some t \<and> ob_time ob \<le> t)"
    if ob: "ob \<in> set (ld_observations v @ [?new])" "ob_status ob = EVALUATED" for ob
  proof (cases "ob = ?new")
    case True
    then show ?thesis using ob(2) assms(4) by (intro bexI [of _ ?st]) simp_all
  next
    case False
    then have "ob \<in> set (ld_observations v)" using ob(1) by simp
    then obtain r t where r: "r \<in> set (ld_states v)" "state_key r = (ob_activation ob, ob_asset ob)"
        "ls_last_candle r = Some t" "ob_time ob \<le> t"
      using assms(1) ob(2) unfolding cursors_ok_def by blast
    show ?thesis
    proof (cases "r = st")
      case True
      then show ?thesis using r assms(5) by (intro bexI [of _ ?st]) auto
    next
      case False
      then show ?thesis using r by (intro bexI [of _ r]) auto
    qed
  qed
  have 2: "\<exists>ob \<in> set (ld_observations v @ [?new]). ob_status ob = EVALUATED \<and> ob_time ob = t
      \<and> state_key r = (ob_activation ob, ob_asset ob)"
    if r: "r \<in> insert ?st (set (ld_states v) - {st})" "ls_last_candle r = Some t" for r t
  proof (cases "r = ?st \<and> oc_status oc = EVALUATED")
    case True
    then show ?thesis using r(2) assms(4) by (intro bexI [of _ ?new]) auto
  next
    case False
    have "\<exists>r' \<in> set (ld_states v). ls_last_candle r' = Some t \<and> state_key r' = state_key r"
    proof (cases "r = ?st")
      case True
      then show ?thesis using False r(2) assms(3) by (intro bexI [of _ st]) simp_all
    next
      case False
      then show ?thesis using r by (intro bexI [of _ r]) simp_all
    qed
    then obtain r' where r': "r' \<in> set (ld_states v)" "ls_last_candle r' = Some t" "state_key r' = state_key r" by blast
    then obtain ob where "ob \<in> set (ld_observations v)" "ob_status ob = EVALUATED" "ob_time ob = t"
        "state_key r' = (ob_activation ob, ob_asset ob)"
      using assms(1) unfolding cursors_ok_def by blast
    then show ?thesis using r'(3) by (intro bexI [of _ ob]) simp_all
  qed
  show ?thesis unfolding cursors_ok_def rows using 1 2 by simp
qed

lemma live_ok_record:
  assumes "live_ok v" and "act \<in> set (ld_activations v)" and "st \<in> set (ld_states v)"
    and "state_key st = (la_id act, lv_asset c)" and "outcome_ok (ls_position st) oc"
    and "oc_status oc = EVALUATED \<Longrightarrow> \<forall>t \<in> set_option (ls_last_candle st). t < lv_time c"
    and "next_attempt (ld_observations v) (la_id act) (lv_asset c) (lv_time c) (oc_status oc) = Some n"
    and "la_id act' = la_id act" and "la_open act' = la_open act + open_change oc"
  shows "live_ok (record_candle c now oc n act' st v)"
proof -
  have k: "ls_activation st = la_id act" using assms(4) by (simp add: state_key_def)
  note n = assms(7) [folded assms(8)]
  have 1: "counts_ok v" "observations_ok (ld_observations v)" "events_ok v" "cursors_ok v"
    using assms(1) by (simp_all add: live_ok_def)
  have "counts_ok (record_candle c now oc n act' st v)"
    by (rule counts_ok_record [OF 1(1) assms(2,3) k assms(5,8,9)])
  moreover have "observations_ok (ld_observations (record_candle c now oc n act' st v))"
    using observations_ok_record [OF 1(2) n] by simp
  moreover have "events_ok (record_candle c now oc n act' st v)" by (rule events_ok_record [OF 1(3,2) assms(5) n])
  moreover have "cursors_ok (record_candle c now oc n act' st v)"
    by (rule cursors_ok_record [OF 1(4,1) assms(3) _ assms(6)]) (use assms(4,8) in simp_all)
  ultimately show ?thesis by (simp add: live_ok_def)
qed

section \<open>Transactions keep the invariant\<close>

text \<open>The tables as the commit of a session will leave them, with the state rows given.\<close>

definition session_view :: "live_db \<Rightarrow> live_state list \<Rightarrow> live_session \<Rightarrow> live_db" where
  "session_view db rows s =
     (write_activation (sn_activation s) db)
       \<lparr>ld_states := rows, ld_observations := ld_observations db @ sn_observations s,
        ld_events := ld_events db @ sn_events s\<rparr>"

lemma session_view_simps [simp]:
  "ld_states (session_view db rows s) = rows"
  "ld_observations (session_view db rows s) = ld_observations db @ sn_observations s"
  "ld_events (session_view db rows s) = ld_events db @ sn_events s"
  by (simp_all add: session_view_def)

lemma session_view_activation:
  "la_id (sn_activation s) \<in> la_id ` set (ld_activations db) \<Longrightarrow> sn_activation s \<in> set (ld_activations (session_view db rows s))"
  by (auto simp: session_view_def write_activation_def set_update_where)

lemma session_view_record:
  assumes "la_id act' = la_id (sn_activation s)"
  shows "record_candle c now oc n act' st (session_view db rows s) =
    session_view db (put_state (move_state c now oc st) rows)
      (s\<lparr>sn_observations := sn_observations s @ [new_observation (la_id act') c n now oc],
         sn_events := sn_events s @ new_events (la_id act') c n oc, sn_activation := act'\<rparr>)"
  using assms by (simp add: record_candle_def session_view_def write_activation_def update_where_def o_def)

lemma next_attempt_append:
  "\<forall>ob \<in> set new. \<not> observation_of a i t ob \<Longrightarrow> next_attempt (obs @ new) a i t st = next_attempt obs a i t st"
  by (simp add: next_attempt_def select_first_def)

lemma move_activation_simps:
  "la_id (move_activation db now oc act) = la_id act" "la_open (move_activation db now oc act) = la_open act + open_change oc"
  by (simp_all add: move_activation_def refresh_activation_health_def Let_def)

text \<open>What a step on one candle needs of the session, and what it keeps.\<close>

definition before_candle :: "live_db \<Rightarrow> live_state list \<Rightarrow> live_candle \<Rightarrow> live_state \<Rightarrow> live_session \<Rightarrow> bool" where
  "before_candle db rows c st s \<longleftrightarrow>
     state_key st = (la_id (sn_activation s), lv_asset c)
     \<and> (\<forall>t \<in> set_option (ls_last_candle st). t < lv_time c)
     \<and> (\<forall>ob \<in> set (sn_observations s). ob_asset ob = lv_asset c \<longrightarrow> ob_time ob < lv_time c)"

definition session_ok :: "live_db \<Rightarrow> live_state list \<Rightarrow> live_state \<Rightarrow> live_session \<Rightarrow> bool" where
  "session_ok db rows st s \<longleftrightarrow>
     live_ok (session_view db rows s) \<and> st \<in> set rows \<and> la_id (sn_activation s) \<in> la_id ` set (ld_activations db)"

lemma session_ok_clock [simp]: "session_ok db rows st (s\<lparr>sn_clock := k\<rparr>) = session_ok db rows st s"
    "session_ok db rows st (s\<lparr>sn_evaluated := m\<rparr>) = session_ok db rows st s"
  by (simp_all add: session_ok_def session_view_def)

lemma evaluate_and_persist_cases:
  assumes "evaluate_and_persist env db d c st s = (persisted, st', s')"
  obtains (kept) "persisted = False" "st' = st" "s' = s\<lparr>sn_clock := sn_clock s + 1\<rparr>"
  | (recorded) n oc act' where "oc = observed_outcome d c (sn_activation s) st" "oc_status oc \<notin> {DUPLICATE, OUT_OF_ORDER}"
      "act' = move_activation db (en_now env (sn_clock s)) oc (sn_activation s)" "persisted = True"
      "next_attempt (ld_observations db) (la_id (sn_activation s)) (lv_asset c) (lv_time c) (oc_status oc) = Some n"
      "st' = move_state c (en_now env (sn_clock s)) oc st"
      "s' = s\<lparr>sn_clock := sn_clock s + 1,
           sn_observations := sn_observations s @ [new_observation (la_id (sn_activation s)) c n (en_now env (sn_clock s)) oc],
           sn_events := sn_events s @ new_events (la_id (sn_activation s)) c n oc, sn_activation := act'\<rparr>"
proof (cases "oc_status (observed_outcome d c (sn_activation s) st) \<in> {DUPLICATE, OUT_OF_ORDER}")
  case True
  then have "evaluate_and_persist env db d c st s = (False, st, s\<lparr>sn_clock := sn_clock s + 1\<rparr>)"
    by (simp only: evaluate_and_persist_def Let_def if_True)
  then show thesis using assms kept by simp
next
  case False
  let ?oc = "observed_outcome d c (sn_activation s) st"
  show thesis
  proof (cases "next_attempt (ld_observations db) (la_id (sn_activation s)) (lv_asset c) (lv_time c) (oc_status ?oc)")
    case None
    then have "evaluate_and_persist env db d c st s = (False, st, s\<lparr>sn_clock := sn_clock s + 1\<rparr>)"
      using False by (simp only: evaluate_and_persist_def Let_def if_False option.case)
    then show thesis using assms kept by simp
  next
    case (Some n)
    show thesis
      by (rule recorded [OF refl False refl _ Some])
        (use assms Some False in \<open>simp_all add: evaluate_and_persist_def Let_def\<close>)
  qed
qed

lemma evaluate_and_persist_ok:
  assumes ok: "session_ok db rows st s" and before: "before_candle db rows c st s"
    and step: "evaluate_and_persist env db d c st s = (persisted, st', s')"
  shows "session_ok db (put_state st' rows) st' s'" and "state_key st' = state_key st"
    and "la_id (sn_activation s') = la_id (sn_activation s)"
    and "ls_last_candle st' \<in> {ls_last_candle st, Some (lv_time c)}"
    and "\<forall>ob \<in> set (sn_observations s'). ob \<in> set (sn_observations s) \<or> ob_asset ob = lv_asset c \<and> ob_time ob = lv_time c"
proof -
  have live: "live_ok (session_view db rows s)" and st: "st \<in> set rows"
    and act: "la_id (sn_activation s) \<in> la_id ` set (ld_activations db)" using ok by (auto simp: session_ok_def)
  have rows: "distinct (map state_key rows)" using live by (simp add: live_ok_def counts_ok_def)
  from step have "session_ok db (put_state st' rows) st' s' \<and> state_key st' = state_key st
      \<and> la_id (sn_activation s') = la_id (sn_activation s) \<and> ls_last_candle st' \<in> {ls_last_candle st, Some (lv_time c)}
      \<and> (\<forall>ob \<in> set (sn_observations s'). ob \<in> set (sn_observations s) \<or> ob_asset ob = lv_asset c \<and> ob_time ob = lv_time c)"
  proof (cases rule: evaluate_and_persist_cases)
    case kept
    then show ?thesis using ok put_state_same [OF rows st] by simp
  next
    case (recorded n oc act')
    let ?now = "en_now env (sn_clock s)" and ?act = "sn_activation s"
    have "\<forall>ob \<in> set (sn_observations s). \<not> observation_of (la_id ?act) (lv_asset c) (lv_time c) ob"
      using before by (auto simp: before_candle_def observation_of_def)
    then have n: "next_attempt (ld_observations (session_view db rows s)) (la_id ?act) (lv_asset c) (lv_time c) (oc_status oc) = Some n"
      using recorded(5) by (simp add: next_attempt_append)
    have oc: "outcome_ok (ls_position st) oc" unfolding recorded(1) by (rule observed_outcome_ok)
    have live': "live_ok (record_candle c ?now oc n act' st (session_view db rows s))"
    proof (rule live_ok_record [OF live session_view_activation [OF act] _ _ oc _ n])
      show "st \<in> set (ld_states (session_view db rows s))" using st by simp
      show "state_key st = (la_id ?act, lv_asset c)" "\<forall>t \<in> set_option (ls_last_candle st). t < lv_time c"
        using before by (simp_all add: before_candle_def)
    qed (simp_all add: move_activation_simps recorded(3))
    have "st' \<in> set (put_state st' rows)"
      using set_put_state [OF rows st, of st'] recorded(6) by simp
    moreover have "session_view db (put_state st' rows) s' = record_candle c ?now oc n act' st (session_view db rows s)"
      by (subst session_view_record) (simp_all add: move_activation_simps recorded(3,6,7) session_view_def)
    ultimately have "session_ok db (put_state st' rows) st' s'"
      using live' act by (simp add: session_ok_def recorded(3,7) move_activation_simps)
    then show ?thesis by (simp add: recorded(3,6,7) move_activation_simps)
  qed
  then show "session_ok db (put_state st' rows) st' s'" "state_key st' = state_key st"
    "la_id (sn_activation s') = la_id (sn_activation s)" "ls_last_candle st' \<in> {ls_last_candle st, Some (lv_time c)}"
    "\<forall>ob \<in> set (sn_observations s'). ob \<in> set (sn_observations s) \<or> ob_asset ob = lv_asset c \<and> ob_time ob = lv_time c"
    by blast+
qed

lemma process_candles_ok:
  assumes "session_ok db rows st s" and "sorted_wrt (<) (map lv_time cs)" and "\<forall>c \<in> set cs. before_candle db rows c st s"
    and "process_candles env db d cs st s = (st', s')"
  shows "session_ok db (put_state st' rows) st' s' \<and> state_key st' = state_key st
    \<and> la_id (sn_activation s') = la_id (sn_activation s)
    \<and> (\<forall>ob \<in> set (sn_observations s'). ob \<in> set (sn_observations s) \<or> ob_asset ob = ls_asset st)"
  using assms
proof (induction cs arbitrary: st s rows)
  case Nil
  then have "put_state st rows = rows"
    by (intro put_state_same) (auto simp: session_ok_def live_ok_def counts_ok_def)
  then show ?case using Nil by simp
next
  case (Cons c cs)
  obtain persisted st1 s1 where step: "evaluate_and_persist env db d c st s = (persisted, st1, s1)"
    by (cases "evaluate_and_persist env db d c st s") auto
  have before: "before_candle db rows c st s" using Cons.prems(3) by simp
  have asset: "lv_asset c = ls_asset st" using before by (simp add: before_candle_def state_key_def)
  note one = evaluate_and_persist_ok [OF Cons.prems(1) before step]
  show ?case
  proof (cases "ls_last_candle st1 \<noteq> Some (lv_time c)")
    case True
    then show ?thesis using Cons.prems(4) step one asset by auto
  next
    case False
    let ?s = "if persisted then s1\<lparr>sn_evaluated := sn_evaluated s1 + 1\<rparr> else s1"
    have s: "sn_observations ?s = sn_observations s1" "sn_activation ?s = sn_activation s1" by simp_all
    have ok: "session_ok db (put_state st1 rows) st1 ?s" using one(1) by simp
    have "before_candle db (put_state st1 rows) c' st1 ?s" if c': "c' \<in> set cs" for c'
    proof -
      have "lv_time c < lv_time c'" using Cons.prems(2) c' by simp
      moreover have "before_candle db rows c' st s" using Cons.prems(3) c' by simp
      ultimately show ?thesis using one(2-5) unfolding before_candle_def s by fastforce
    qed
    moreover have "process_candles env db d cs st1 ?s = (st', s')" using Cons.prems(4) step False by simp
    ultimately have "session_ok db (put_state st' (put_state st1 rows)) st' s' \<and> state_key st' = state_key st1
        \<and> la_id (sn_activation s') = la_id (sn_activation ?s)
        \<and> (\<forall>ob \<in> set (sn_observations s'). ob \<in> set (sn_observations ?s) \<or> ob_asset ob = ls_asset st1)"
      using Cons.prems(2) by (intro Cons.IH [OF ok]) auto
    then show ?thesis using one(2,3,5) asset unfolding s by (auto simp: state_key_def)
  qed
qed

text \<open>A candle table has one row per asset and timestamp.\<close>

definition market_ok :: "live_env \<Rightarrow> bool" where
  "market_ok env \<longleftrightarrow> (\<forall>asset tf. distinct (map (\<lambda>r. utc (lr_time r)) (filter (\<lambda>r. lr_asset r = asset) (en_market env asset tf))))"

lemma make_live_candle_Inr:
  "make_live_candle r = Inr c \<Longrightarrow> lv_asset c = lr_asset r \<and> lv_time c = utc (lr_time r)"
  by (auto simp: make_live_candle_def Let_def split: option.splits if_splits)

lemma read_canonical_candles_ok:
  assumes "market_ok env" and "read_canonical_candles env asset tf after limit = Inr cs"
  shows "sorted_wrt (<) (map lv_time cs)" and "c \<in> set cs \<Longrightarrow> lv_asset c = asset \<and> after < lv_time c"
    and "length cs \<le> nat limit"
proof -
  let ?P = "\<lambda>r. lr_asset r = asset \<and> utc (lr_time r) > after" and ?k = "\<lambda>r. utc (lr_time r)"
  let ?rows = "select_limit ?k ?P (nat limit) (en_market env asset tf)"
  have m: "map make_live_candle ?rows = map Inr cs"
    using assms(2) all_or_error_Inr by (auto simp: read_canonical_candles_def)
  then have len: "length ?rows = length cs" by (metis length_map)
  have nth: "lv_asset (cs ! i) = lr_asset (?rows ! i) \<and> lv_time (cs ! i) = ?k (?rows ! i)" if "i < length cs" for i
  proof -
    have "make_live_candle (?rows ! i) = Inr (cs ! i)" using arg_cong [OF m, of "\<lambda>xs. xs ! i"] len that by simp
    then show ?thesis by (rule make_live_candle_Inr)
  qed
  have times: "map lv_time cs = map ?k ?rows"
    by (rule nth_equalityI) (use len nth in simp_all)
  let ?all = "sort_key ?k (filter ?P (en_market env asset tf))"
  have "distinct (map ?k (filter (\<lambda>r. lr_asset r = asset) (en_market env asset tf)))"
    using assms(1) unfolding market_ok_def by blast
  from distinct_map_filter [OF this, of "\<lambda>r. utc (lr_time r) > after"]
  have "distinct (map ?k (filter ?P (en_market env asset tf)))" by (simp add: conj_commute)
  moreover have "mset (map ?k ?all) = mset (map ?k (filter ?P (en_market env asset tf)))"
    by (simp add: mset_map del: mset_filter)
  ultimately have "distinct (map ?k ?all)" using mset_eq_imp_distinct_iff by blast
  then have "distinct (map ?k ?rows)" 
    unfolding select_limit_def take_map [symmetric] by (rule distinct_take)
  moreover have "sorted (map ?k ?rows)"
    unfolding select_limit_def take_map [symmetric] by (rule sorted_wrt_take) simp
  ultimately show "sorted_wrt (<) (map lv_time cs)" by (simp add: times strict_sorted_iff)
  show "length cs \<le> nat limit" using len by (simp add: select_limit_def)
  assume "c \<in> set cs"
  then obtain i where i: "i < length cs" "c = cs ! i" by (metis in_set_conv_nth)
  then have "?rows ! i \<in> set ?rows" using len by simp
  then have "?rows ! i \<in> set ?all" unfolding select_limit_def by (rule in_set_takeD)
  then show "lv_asset c = asset \<and> after < lv_time c" using nth [OF i(1)] i(2) by auto
qed

lemma process_states_ok:
  assumes "market_ok env" and "live_ok (session_view db rows s)" and "la_id (sn_activation s) \<in> la_id ` set (ld_activations db)"
    and "set sts \<subseteq> set rows" and "distinct (map state_key sts)" and "\<forall>st \<in> set sts. ls_activation st = la_id (sn_activation s)"
    and "\<forall>st \<in> set sts. \<forall>ob \<in> set (sn_observations s). ob_asset ob \<noteq> ls_asset st"
    and "process_states env db d limit sts s = Inr (sts', s')"
  shows "live_ok (session_view db (write_states sts' rows) s')"
  using assms
proof (induction sts arbitrary: s rows sts')
  case Nil
  then show ?case by (auto simp: write_states_def)
next
  case (Cons st sts)
  let ?after = "case ls_last_candle st of None \<Rightarrow> la_activated_at (sn_activation s) | Some t \<Rightarrow> t"
  obtain cs st1 s1 sts1 where cs: "read_canonical_candles env (ls_asset st) (timeframe_value (cd_timeframe d)) ?after limit = Inr cs"
      and cand: "process_candles env db d cs st s = (st1, s1)"
      and rest: "process_states env db d limit sts s1 = Inr (sts1, s')" and sts': "sts' = st1 # sts1"
    using Cons.prems(8) by (auto split: sum.splits prod.splits)
  note read = read_canonical_candles_ok [OF Cons.prems(1) cs]
  have rows: "distinct (map state_key rows)" using Cons.prems(2) by (simp add: live_ok_def counts_ok_def)
  have st: "st \<in> set rows" using Cons.prems(4) by simp
  have "before_candle db rows c st s" if "c \<in> set cs" for c
    using read(2) [OF that] Cons.prems(6,7) by (auto simp: before_candle_def state_key_def)
  then have one: "session_ok db (put_state st1 rows) st1 s1 \<and> state_key st1 = state_key st
      \<and> la_id (sn_activation s1) = la_id (sn_activation s)
      \<and> (\<forall>ob \<in> set (sn_observations s1). ob \<in> set (sn_observations s) \<or> ob_asset ob = ls_asset st)"
    using Cons.prems(2,3) st by (intro process_candles_ok [OF _ read(1) _ cand]) (simp_all add: session_ok_def)
  have sub: "set sts \<subseteq> set (put_state st1 rows)"
    using set_put_state [OF rows st, of st1] one Cons.prems(4,5) by auto
  have fresh: "ls_asset st' \<noteq> ls_asset st" if "st' \<in> set sts" for st'
    using that Cons.prems(5,6) by (auto simp: state_key_def image_iff)
  have pending: "\<forall>st' \<in> set sts. \<forall>ob \<in> set (sn_observations s1). ob_asset ob \<noteq> ls_asset st'"
  proof (intro ballI)
    fix st' ob
    assume st': "st' \<in> set sts" and "ob \<in> set (sn_observations s1)"
    then have "ob \<in> set (sn_observations s) \<or> ob_asset ob = ls_asset st" using one by blast
    then show "ob_asset ob \<noteq> ls_asset st'" using fresh [OF st'] Cons.prems(7) st' by auto
  qed
  have "live_ok (session_view db (write_states sts1 (put_state st1 rows)) s')"
    by (rule Cons.IH [OF Cons.prems(1) _ _ sub _ _ pending rest])
      (use one Cons.prems(3,5,6) in \<open>auto simp: session_ok_def\<close>)
  then show ?case by (simp add: sts' write_states_def)
qed

lemma live_ok_write_activation:
  assumes "live_ok db" and "act \<in> set (ld_activations db)" and "la_id act' = la_id act" and "la_open act' = la_open act"
  shows "live_ok (write_activation act' db)"
proof -
  let ?acts = "update_where (\<lambda>r. la_id r = la_id act') (\<lambda>_. act') (ld_activations db)"
  have ids: "map la_id ?acts = map la_id (ld_activations db)" by (simp add: update_where_def)
  then have idset: "la_id ` set ?acts = la_id ` set (ld_activations db)" by (metis set_map)
  have "la_open a = open_states (la_id a) (ld_states db)" if "a \<in> set ?acts" for a
    using that assms by (auto simp: live_ok_def counts_ok_def set_update_where split: if_splits)
  then have "counts_ok (write_activation act' db)"
    using assms(1) by (simp add: live_ok_def counts_ok_def write_activation_def ids idset)
  then show ?thesis
    using assms(1) by (simp add: live_ok_def events_ok_def cursors_ok_def write_activation_def)
qed

lemma state_page_ok:
  assumes "distinct (map state_key (ld_states db))"
  shows "set (state_page aid cursor limit db) \<subseteq> set (ld_states db)" and "distinct (map state_key (state_page aid cursor limit db))"
    and "st \<in> set (state_page aid cursor limit db) \<Longrightarrow> ls_activation st = aid"
    and "sorted (map ls_asset (state_page aid cursor limit db))"
proof -
  let ?P = "\<lambda>r. ls_activation r = aid \<and> (case cursor of None \<Rightarrow> True | Some k \<Rightarrow> ls_asset r > k)"
  let ?all = "sort_key ls_asset (filter ?P (ld_states db))"
  have page: "state_page aid cursor limit db = take (nat limit) ?all" by (simp add: state_page_def select_limit_def)
  have mem: "set (state_page aid cursor limit db) \<subseteq> {r \<in> set (ld_states db). ?P r}"
    using set_take_subset [of "nat limit" ?all] unfolding page by simp
  then show "set (state_page aid cursor limit db) \<subseteq> set (ld_states db)" by blast
  show "st \<in> set (state_page aid cursor limit db) \<Longrightarrow> ls_activation st = aid" using mem by blast
  have "distinct (map state_key (filter ?P (ld_states db)))" by (rule distinct_map_filter [OF assms])
  moreover have "mset (map state_key ?all) = mset (map state_key (filter ?P (ld_states db)))"
    by (simp add: mset_map del: mset_filter)
  ultimately have "distinct (map state_key ?all)" using mset_eq_imp_distinct_iff by blast
  then show "distinct (map state_key (state_page aid cursor limit db))"
    unfolding page take_map [symmetric] by (rule distinct_take)
  show "sorted (map ls_asset (state_page aid cursor limit db))"
    unfolding page take_map [symmetric] by (rule sorted_wrt_take) simp
qed

lemma locked_state_slice_ok:
  assumes "distinct (map state_key (ld_states db))" and "locked_state_slice limit act db = (sts, act1)"
  shows "set sts \<subseteq> set (ld_states db)" and "distinct (map state_key sts)" and "\<forall>st \<in> set sts. ls_activation st = la_id act"
    and "la_id act1 = la_id act" and "la_open act1 = la_open act" and "la_last_evaluated act1 = la_last_evaluated act"
  using assms state_page_ok [OF assms(1)] by (auto simp: locked_state_slice_def Let_def split: if_splits)

lemma commit_session_ok:
  assumes "live_ok (session_view db (write_states sts (ld_states db)) s)"
    and "la_id (sn_activation s) \<in> la_id ` set (ld_activations db)"
  shows "commit_session sts s db = Inr (session_view db (write_states sts (ld_states db)) s)"
proof -
  let ?v = "session_view db (write_states sts (ld_states db)) s"
  have "sn_activation s \<in> set (ld_activations ?v)" by (rule session_view_activation [OF assms(2)])
  then have "0 \<le> la_open (sn_activation s)"
    using assms(1) by (auto simp: live_ok_def counts_ok_def open_states_def)
  moreover have "distinct (map observation_key (ld_observations ?v))" "distinct (map event_key (ld_events ?v))"
    using assms(1) by (simp_all add: live_ok_def observations_ok_def events_ok_def)
  ultimately show ?thesis by (simp add: commit_session_def session_view_def write_activation_def Let_def not_less)
qed

definition start_session :: "live_activation \<Rightarrow> live_state list \<Rightarrow> live_session" where
  "start_session act sts =
     \<lparr>sn_activation = act\<lparr>la_cursor := Some (ls_asset (last sts))\<rparr>,
      sn_observations = [], sn_events = [], sn_evaluated = 0, sn_clock = 0\<rparr>"

text \<open>The ways a transaction on an activation can end.\<close>

lemma process_activation_cases:
  obtains (idle) "process_activation env aid db = (Inr 0, db)"
  | (raised) e where "process_activation env aid db = (Inl e, db)"
      "(\<exists>act. checked_definition env act db = Inl e) \<or> (\<exists>d k sts s. process_states env db d k sts s = Inl e)"
  | (stopped) act act' where "find (\<lambda>a. la_id a = aid \<and> la_status a = ACT_ACTIVE \<and> \<not> en_locked env aid) (ld_activations db) = Some act"
      "la_id act' = la_id act" "la_open act' = la_open act" "la_last_evaluated act' = la_last_evaluated act"
      "process_activation env aid db = (Inr 0, write_activation act' db)"
  | (evaluated) act d cfg sts act1 sts1 s where
      "find (\<lambda>a. la_id a = aid \<and> la_status a = ACT_ACTIVE \<and> \<not> en_locked env aid) (ld_activations db) = Some act"
      "checked_definition env act db = Inr (d, cfg)" "locked_state_slice (en_max_assets env) act db = (sts, act1)" "sts \<noteq> []"
      "process_states env db d (min (lc_max_candles cfg) (en_max_candles env)) sts (start_session act1 sts) = Inr (sts1, s)"
      "process_activation env aid db =
         (case commit_session sts1 s db of Inl e \<Rightarrow> (Inl e, db) | Inr db1 \<Rightarrow> (Inr (sn_evaluated s), db1))"
proof (cases "find (\<lambda>a. la_id a = aid \<and> la_status a = ACT_ACTIVE \<and> \<not> en_locked env aid) (ld_activations db)")
  case None
  then show thesis by (intro idle) (simp add: process_activation_def)
next
  case (Some act)
  note found = this
  show thesis
  proof (cases "checked_definition env act db")
    case (Inl e)
    show thesis
    proof (cases "is_value_error e \<or> e = ActivationError")
      case True
      show thesis
        by (rule stopped [OF found, of "act\<lparr>la_status := ACT_ERROR, la_health := LIVE_ERROR, la_last_error := Some (exn_message e)\<rparr>"])
          (use found Inl True in \<open>simp_all add: process_activation_def\<close>)
    next
      case False
      show thesis by (rule raised [of e]) (use found Inl False in \<open>auto simp: process_activation_def\<close>)
    qed
  next
    case (Inr dc)
    obtain d cfg where dc: "dc = (d, cfg)" by (cases dc)
    obtain sts act1 where slice: "locked_state_slice (en_max_assets env) act db = (sts, act1)" by (cases "locked_state_slice (en_max_assets env) act db")
    have run: "process_activation env aid db =
        (if sts = [] then (Inr 0, write_activation act1 db)
         else (case process_states env db d (min (lc_max_candles cfg) (en_max_candles env)) sts (start_session act1 sts) of
                 Inl e \<Rightarrow> (Inl e, db)
               | Inr (sts1, s) \<Rightarrow>
                   (case commit_session sts1 s db of Inl e \<Rightarrow> (Inl e, db) | Inr db1 \<Rightarrow> (Inr (sn_evaluated s), db1))))"
      unfolding process_activation_def start_session_def by (simp only: found Inr dc slice option.case sum.case prod.case)
    show thesis
    proof (cases "sts = []")
      case True
      have "la_id act1 = la_id act \<and> la_open act1 = la_open act \<and> la_last_evaluated act1 = la_last_evaluated act"
        using slice by (auto simp: locked_state_slice_def Let_def split: if_splits)
      then show thesis by (intro stopped [OF found, of act1]) (use run True in simp_all)
    next
      case False
      show thesis
      proof (cases "process_states env db d (min (lc_max_candles cfg) (en_max_candles env)) sts (start_session act1 sts)")
        case (Inl e)
        then show thesis using run False by (intro raised [of e]) auto
      next
        case (Inr r)
        then show thesis
          by (cases r) (rule evaluated [OF found _ slice False], use run False Inr \<open>checked_definition env act db = Inr dc\<close> dc in simp_all)
      qed
    qed
  qed
qed

lemma find_activation:
  assumes "find (\<lambda>a. la_id a = aid \<and> la_status a = ACT_ACTIVE \<and> \<not> en_locked env aid) (ld_activations db) = Some act"
  shows "act \<in> set (ld_activations db)" and "la_id act = aid" and "la_status act = ACT_ACTIVE"
  using assms by (auto simp: find_Some_iff)

lemma session_view_start:
  "session_view db (ld_states db) (start_session act sts) = write_activation (act\<lparr>la_cursor := Some (ls_asset (last sts))\<rparr>) db"
  by (simp add: session_view_def start_session_def write_activation_def)

lemma process_states_id:
  "process_states env db d limit sts s = Inr (sts', s') \<Longrightarrow> la_id (sn_activation s') = la_id (sn_activation s)"
proof (induction sts arbitrary: s sts')
  case (Cons st sts)
  have "la_id (sn_activation s1) = la_id (sn_activation s)" if "process_candles env db d cs st s = (st1, s1)" for cs st s st1 s1
    using that
  proof (induction cs arbitrary: st s)
    case (Cons c cs)
    have one: "la_id (sn_activation s2) = la_id (sn_activation s)"
      if "evaluate_and_persist env db d c st s = (b, st2, s2)" for b st2 s2
      using that by (cases rule: evaluate_and_persist_cases) (simp_all add: move_activation_simps)
    show ?case using Cons.prems one Cons.IH by (fastforce split: prod.splits if_splits)
  qed simp
  then show ?case using Cons by (fastforce split: sum.splits prod.splits)
qed simp

lemma evaluated_commit:
  assumes "live_ok db" and "market_ok env"
    and "act \<in> set (ld_activations db)" and "locked_state_slice limit act db = (sts, act1)"
    and "process_states env db d n sts (start_session act1 sts) = Inr (sts1, s)"
  shows "commit_session sts1 s db = Inr (session_view db (write_states sts1 (ld_states db)) s)"
    and "live_ok (session_view db (write_states sts1 (ld_states db)) s)"
proof -
  have rows: "distinct (map state_key (ld_states db))" using assms(1) by (simp add: live_ok_def counts_ok_def)
  note slice = locked_state_slice_ok [OF rows assms(4)]
  have id: "la_id (sn_activation (start_session act1 sts)) = la_id act" using slice(4) by (simp add: start_session_def)
  have mem: "la_id act \<in> la_id ` set (ld_activations db)" using assms(3) by simp
  show live: "live_ok (session_view db (write_states sts1 (ld_states db)) s)"
  proof (rule process_states_ok [OF assms(2) _ _ slice(1,2) _ _ assms(5)])
    show "live_ok (session_view db (ld_states db) (start_session act1 sts))"
      unfolding session_view_start by (rule live_ok_write_activation [OF assms(1,3)]) (use slice in simp_all)
  qed (use id mem slice(3) in \<open>simp_all add: start_session_def\<close>)
  have "la_id (sn_activation s) = la_id act" using process_states_id [OF assms(5)] id by simp
  then show "commit_session sts1 s db = Inr (session_view db (write_states sts1 (ld_states db)) s)"
    using live mem by (intro commit_session_ok) simp_all
qed

lemma process_activation_ok:
  assumes "live_ok db" and "market_ok env"
  shows "live_ok (snd (process_activation env aid db))"
proof (cases rule: process_activation_cases [of env aid db])
  case (stopped act act')
  then show ?thesis using live_ok_write_activation [OF assms(1) find_activation(1) [OF stopped(1)]] by simp
next
  case (evaluated act d cfg sts act1 sts1 s)
  then show ?thesis
    using evaluated_commit [OF assms find_activation(1) [OF evaluated(1)] evaluated(3,5)] by simp
qed (use assms in simp_all)

text \<open>The UUID of an activation is new; a reader returns what the model validators accept.\<close>

inductive live_step :: "live_db \<Rightarrow> live_db \<Rightarrow> bool" where
  activated: "uid \<notin> la_id ` set (ld_activations db) \<Longrightarrow> (\<And>p d. read p = Inr d \<Longrightarrow> validate_canonical_universe d) \<Longrightarrow>
     live_step db (snd (activate read uid now vid cfg id db))"
| deactivated: "live_step db (snd (deactivate aid now db))"
| processed: "market_ok env \<Longrightarrow> live_step db (snd (process_activation env aid db))"
| versions_changed: "live_step db (db\<lparr>ld_catalog := c\<rparr>)"

abbreviation live_steps :: "live_db \<Rightarrow> live_db \<Rightarrow> bool" where
  "live_steps \<equiv> live_step\<^sup>*\<^sup>*"

definition empty_live :: "catalog \<Rightarrow> live_db" where
  "empty_live c = \<lparr>ld_catalog = c, ld_activations = [], ld_states = [], ld_observations = [], ld_events = []\<rparr>"

text \<open>A racing first activation resolves to the one that was committed, as one step before or after it.\<close>

lemma activate_atomic:
  "activate read uid now vid cfg (\<lambda>_. db1) db = activate read uid now vid cfg id db
   \<or> activate read uid now vid cfg (\<lambda>_. db1) db = activate read uid now vid cfg id (db1\<lparr>ld_catalog := ld_catalog db\<rparr>)"
  if "ld_catalog db1 = ld_catalog db"
  using that
  by (auto simp: activate_def Let_def split: sum.splits option.splits)

lemma verified_definition_read: "verified_definition read v = Inr d \<Longrightarrow> read (sv_payload v) = Inr d"
  by (auto simp: verified_definition_def split: sum.splits if_splits)

lemma load_strategy_version_Inr:
  "load_strategy_version read vid c = Inr (s, v, d) \<Longrightarrow> verified_definition read v = Inr d \<and> sv_id v = vid"
proof -
  let ?hits = "[(s, v). s \<leftarrow> ct_strategies c, v \<leftarrow> ct_versions c, sv_strategy v = st_id s \<and> sv_id v = vid]"
  assume "load_strategy_version read vid c = Inr (s, v, d)"
  then obtain rest where hits: "?hits = (s, v) # rest" and ok: "verified_definition read v = Inr d"
    by (cases ?hits) (auto simp: load_strategy_version_def split: sum.splits)
  from hits have "(s, v) \<in> set ?hits" by simp
  then show ?thesis using ok by auto
qed

lemma open_states_append: "open_states a (xs @ ys) = open_states a xs + open_states a ys"
  by (simp add: open_states_def)

lemma open_states_zero: "\<forall>r \<in> set rows. ls_activation r \<noteq> a \<or> ls_position r = POS_FLAT \<Longrightarrow> open_states a rows = 0"
  by (induction rows) (auto simp: open_states_Cons)

lemma cursors_ok_transfer:
  assumes "cursors_ok v" and "ld_observations v' = ld_observations v"
    and "\<And>st. st \<in> set (ld_states v) \<Longrightarrow> \<exists>st' \<in> set (ld_states v'). state_key st' = state_key st \<and> ls_last_candle st' = ls_last_candle st"
    and "\<And>st'. st' \<in> set (ld_states v') \<Longrightarrow> ls_last_candle st' = None
      \<or> (\<exists>st \<in> set (ld_states v). state_key st = state_key st' \<and> ls_last_candle st = ls_last_candle st')"
  shows "cursors_ok v'"
  unfolding cursors_ok_def assms(2)
proof (intro conjI ballI impI allI)
  fix ob assume "ob \<in> set (ld_observations v)" "ob_status ob = EVALUATED"
  then obtain st t where st: "st \<in> set (ld_states v)" "state_key st = (ob_activation ob, ob_asset ob)"
      "ls_last_candle st = Some t" "ob_time ob \<le> t" using assms(1) unfolding cursors_ok_def by blast
  obtain st' where "st' \<in> set (ld_states v')" "state_key st' = state_key st" "ls_last_candle st' = ls_last_candle st"
    using assms(3) [OF st(1)] by blast
  then show "\<exists>st \<in> set (ld_states v'). state_key st = (ob_activation ob, ob_asset ob) \<and> (\<exists>t. ls_last_candle st = Some t \<and> ob_time ob \<le> t)"
    using st by (intro bexI [of _ st']) simp_all
next
  fix st' t assume st': "st' \<in> set (ld_states v')" "ls_last_candle st' = Some t"
  then obtain st where st: "st \<in> set (ld_states v)" "state_key st = state_key st'" "ls_last_candle st = Some t"
    using assms(4) [OF st'(1)] by auto
  then obtain ob where "ob \<in> set (ld_observations v)" "ob_status ob = EVALUATED" "ob_time ob = t"
      "state_key st = (ob_activation ob, ob_asset ob)" using assms(1) unfolding cursors_ok_def by blast
  then show "\<exists>ob \<in> set (ld_observations v). ob_status ob = EVALUATED \<and> ob_time ob = t \<and> state_key st' = (ob_activation ob, ob_asset ob)"
    using st by (intro bexI [of _ ob]) simp_all
qed

lemma activated_ok:
  assumes "live_ok db" and "uid \<notin> la_id ` set (ld_activations db)" and "distinct (map in_asset universe)"
    and "la_id a = uid" and "la_open a = 0"
  shows "live_ok (db\<lparr>ld_activations := ld_activations db @ [a],
    ld_states := ld_states db @ map (new_state uid \<circ> in_asset) universe\<rparr>)" (is "live_ok ?db")
proof -
  let ?new = "map (new_state uid \<circ> in_asset) universe"
  have c: "counts_ok db" using assms(1) by (simp add: live_ok_def)
  have old: "ls_activation r \<noteq> uid" if "r \<in> set (ld_states db)" for r
    using c that assms(2) by (auto simp: counts_ok_def)
  have "map state_key ?new = map (Pair uid) (map in_asset universe)" by (simp add: new_state_def state_key_def)
  then have d: "distinct (map state_key ?new)"
    using assms(3) by (simp only: distinct_map [of "Pair uid"]) (simp add: inj_on_def)
  have "state_key r \<notin> state_key ` set ?new" if "r \<in> set (ld_states db)" for r
    using old [OF that] by (auto simp: state_key_def new_state_def)
  then have "state_key ` set (ld_states db) \<inter> state_key ` set ?new = {}" by blast
  then have keys: "distinct (map state_key (ld_states db @ ?new))"
    using c d unfolding map_append distinct_append set_map [of state_key] counts_ok_def by blast
  have new0: "open_states i ?new = 0" for i by (rule open_states_zero) (simp add: new_state_def)
  have old0: "open_states uid (ld_states db) = 0" by (rule open_states_zero) (use old in simp)
  have "counts_ok ?db"
    unfolding counts_ok_def
  proof (intro conjI)
    show "distinct (map la_id (ld_activations ?db))" using c assms(2,4) by (simp add: counts_ok_def)
    show "distinct (map state_key (ld_states ?db))" using keys by simp
    show "ls_activation ` set (ld_states ?db) \<subseteq> la_id ` set (ld_activations ?db)"
      using c assms(4) by (auto simp: counts_ok_def new_state_def)
    show "\<forall>b \<in> set (ld_activations ?db). la_open b = open_states (la_id b) (ld_states ?db)"
      using c assms(4,5) new0 old0 by (auto simp: counts_ok_def open_states_append)
  qed
  moreover have "cursors_ok ?db"
    by (rule cursors_ok_transfer [of db]) (use assms(1) in \<open>auto simp: live_ok_def new_state_def\<close>)
  ultimately show ?thesis using assms(1) by (simp add: live_ok_def events_ok_def)
qed

lemma live_step_ok: "live_step db db' \<Longrightarrow> live_ok db \<Longrightarrow> live_ok db'"
proof (induction rule: live_step.induct)
  case (activated uid db read now vid cfg)
  have keep: "snd (activate read uid now vid cfg id db) = db \<or>
      (\<exists>s v d h. load_strategy_version read vid (ld_catalog db) = Inr (s, v, d)
        \<and> snd (activate read uid now vid cfg id db) = db\<lparr>ld_activations := ld_activations db @ [new_activation uid now s v cfg h],
            ld_states := ld_states db @ map (new_state uid \<circ> in_asset) (cd_universe d)\<rparr>)"
    by (auto simp: activate_def Let_def split: sum.splits option.splits)
  then show ?case
  proof (elim disjE exE conjE)
    fix s v d h
    assume l: "load_strategy_version read vid (ld_catalog db) = Inr (s, v, d)"
      and r: "snd (activate read uid now vid cfg id db) = db\<lparr>ld_activations := ld_activations db @ [new_activation uid now s v cfg h],
            ld_states := ld_states db @ map (new_state uid \<circ> in_asset) (cd_universe d)\<rparr>"
    have "read (sv_payload v) = Inr d" using load_strategy_version_Inr [OF l] verified_definition_read by blast
    from activated.hyps(2) [OF this] have "distinct (map in_asset (cd_universe d))"
      by (simp add: validate_canonical_universe_def)
    then show ?thesis unfolding r
      by (intro activated_ok [OF activated.prems activated.hyps(1)]) (simp_all add: new_activation_def)
  qed (use activated.prems in simp)
next
  case (deactivated db aid now)
  let ?states = "update_where (\<lambda>r. ls_activation r = aid) (\<lambda>r. r\<lparr>ls_health := LIVE_STOPPED\<rparr>) (ld_states db)"
  let ?acts = "update_where (\<lambda>r. la_id r = aid)
      (\<lambda>r. r\<lparr>la_status := ACT_DEACTIVATED, la_health := LIVE_STOPPED, la_deactivated_at := Some now\<rparr>) (ld_activations db)"
  have "map state_key ?states = map state_key (ld_states db)" "map la_id ?acts = map la_id (ld_activations db)"
    "map ls_activation ?states = map ls_activation (ld_states db)"
    by (simp_all add: update_where_def state_key_def)
  note keys = this this(2,3) [THEN arg_cong [of _ _ set], unfolded set_map]
  have opens: "open_states i ?states = open_states i (ld_states db)" for i
    by (simp add: open_states_def update_where_def filter_map o_def if_distrib cong: if_cong)
  let ?db = "db\<lparr>ld_activations := ?acts, ld_states := ?states\<rparr>"
  have "la_open a = open_states (la_id a) (ld_states db)" if "a \<in> set ?acts" for a
    using that deactivated.prems by (auto simp: live_ok_def counts_ok_def set_update_where)
  then have "counts_ok ?db"
    using deactivated.prems by (simp add: live_ok_def counts_ok_def keys opens)
  moreover have "cursors_ok ?db"
  proof (rule cursors_ok_transfer [of db])
    fix st assume "st \<in> set (ld_states db)"
    then show "\<exists>st' \<in> set (ld_states ?db). state_key st' = state_key st \<and> ls_last_candle st' = ls_last_candle st"
      by (intro bexI [of _ "if ls_activation st = aid then st\<lparr>ls_health := LIVE_STOPPED\<rparr> else st"])
        (auto simp: set_update_where state_key_def)
  qed (use deactivated.prems in \<open>auto simp: live_ok_def set_update_where state_key_def split: if_splits\<close>)
  ultimately have "live_ok ?db"
    using deactivated.prems by (simp add: live_ok_def events_ok_def)
  then show ?case using deactivated.prems by (auto simp: deactivate_def split: option.splits)
next
  case (processed env db aid)
  then show ?case by (rule process_activation_ok [rotated])
next
  case (versions_changed db c)
  then show ?case by (simp add: live_ok_def counts_ok_def events_ok_def cursors_ok_def)
qed

end
