(* ===== verification/Live_Cycles.thy ===== *)
theory Live_Cycles
  imports Live_Strategy
begin

text \<open>
  What the evaluation cycles of \<open>Live_Strategy\<close> do over time: the properties of the live evaluator
  and of its dispatcher, with their witnesses on a small database of two assets.
\<close>

section \<open>No candle is skipped\<close>

text \<open>Times that follow each other by at most one interval, from a cursor that may not be set.\<close>

fun follows :: "int \<Rightarrow> usec option \<Rightarrow> usec list \<Rightarrow> bool" where
  "follows i cursor [] = True"
| "follows i None (t # ts) = follows i (Some t) ts"
| "follows i (Some p) (t # ts) = (p < t \<and> t \<le> p + i \<and> follows i (Some t) ts)"

definition evaluated_times :: "int \<Rightarrow> live_observation list \<Rightarrow> usec list" where
  "evaluated_times asset obs = map ob_time (filter (\<lambda>ob. ob_asset ob = asset \<and> ob_status ob = EVALUATED) obs)"

definition evaluated_count :: "live_observation list \<Rightarrow> nat" where
  "evaluated_count obs = length (filter (\<lambda>ob. ob_status ob = EVALUATED) obs)"

lemma evaluated_times_simps [simp]:
  "evaluated_times a [] = []"
  "evaluated_times a (ob # obs) = (if ob_asset ob = a \<and> ob_status ob = EVALUATED then ob_time ob # evaluated_times a obs else evaluated_times a obs)"
  "evaluated_times a (xs @ ys) = evaluated_times a xs @ evaluated_times a ys"
  by (simp_all add: evaluated_times_def)

lemma evaluated_count_simps [simp]:
  "evaluated_count [] = 0"
  "evaluated_count (ob # obs) = (if ob_status ob = EVALUATED then 1 else 0) + evaluated_count obs"
  "evaluated_count (xs @ ys) = evaluated_count xs + evaluated_count ys"
  by (simp_all add: evaluated_count_def)

definition candles_added :: "canonical_definition \<Rightarrow> nat \<Rightarrow> live_state \<Rightarrow> live_session \<Rightarrow> live_session \<Rightarrow> live_observation list \<Rightarrow> bool" where
  "candles_added d k st s s' new \<longleftrightarrow>
     sn_observations s' = sn_observations s @ new
     \<and> (\<forall>ob \<in> set new. ob_activation ob = la_id (sn_activation s) \<and> ob_asset ob = ls_asset st)
     \<and> follows (interval_of (cd_timeframe d)) (ls_last_candle st) (evaluated_times (ls_asset st) new)
     \<and> sn_evaluated s' = sn_evaluated s + evaluated_count new \<and> evaluated_count new \<le> k"

lemma evaluate_and_persist_added:
  assumes "evaluate_and_persist env db d c st s = (persisted, st', s')" and "lv_asset c = ls_asset st"
  shows "(persisted = False \<and> st' = st \<and> sn_observations s' = sn_observations s \<and> sn_evaluated s' = sn_evaluated s
      \<and> sn_activation s' = sn_activation s)
    \<or> (\<exists>ob. persisted \<and> sn_observations s' = sn_observations s @ [ob] \<and> ob_activation ob = la_id (sn_activation s)
        \<and> ob_asset ob = ls_asset st \<and> ob_time ob = lv_time c \<and> sn_evaluated s' = sn_evaluated s
        \<and> la_id (sn_activation s') = la_id (sn_activation s) \<and> ls_asset st' = ls_asset st
        \<and> (if ob_status ob = EVALUATED
           then ls_last_candle st' = Some (lv_time c) \<and> follows (interval_of (cd_timeframe d)) (ls_last_candle st) [lv_time c]
           else ls_last_candle st' = ls_last_candle st))"
  using assms(1)
proof (cases rule: evaluate_and_persist_cases)
  case (recorded n oc act')
  have "follows (interval_of (cd_timeframe d)) (ls_last_candle st) [lv_time c]" if "oc_status oc = EVALUATED"
    using observed_EVALUATED(2) [of d c "sn_activation s" st] that recorded(1) by (cases "ls_last_candle st") auto
  then show ?thesis using recorded(3-7) assms(2)
    by (intro disjI2 exI [of _ "new_observation (la_id (sn_activation s)) c n (en_now env (sn_clock s)) oc"])
      (simp add: move_activation_simps)
qed simp

lemma process_candles_added:
  assumes "process_candles env db d cs st s = (st', s')" and "\<forall>c \<in> set cs. lv_asset c = ls_asset st"
    and "sorted_wrt (<) (map lv_time cs)" and "\<forall>c \<in> set cs. \<forall>t \<in> set_option (ls_last_candle st). t < lv_time c"
  shows "\<exists>new. candles_added d (length cs) st s s' new"
  using assms
proof (induction cs arbitrary: st s)
  case Nil
  then show ?case by (intro exI [of _ "[]"]) (simp add: candles_added_def)
next
  case (Cons c cs)
  obtain persisted st1 s1 where step: "evaluate_and_persist env db d c st s = (persisted, st1, s1)"
    by (cases "evaluate_and_persist env db d c st s") auto
  let ?s = "if persisted then s1\<lparr>sn_evaluated := sn_evaluated s1 + 1\<rparr> else s1"
  have asset: "lv_asset c = ls_asset st" using Cons.prems(2) by simp
  from evaluate_and_persist_added [OF step asset] show ?case
  proof (elim disjE conjE exE)
    assume kept: "persisted = False" "st1 = st" "sn_observations s1 = sn_observations s" "sn_evaluated s1 = sn_evaluated s"
      "sn_activation s1 = sn_activation s"
    have "ls_last_candle st1 \<noteq> Some (lv_time c)" using Cons.prems(4) kept(2) by auto
    then show ?thesis using Cons.prems(1) step kept by (intro exI [of _ "[]"]) (simp add: candles_added_def)
  next
    fix ob
    assume ob: "persisted" "sn_observations s1 = sn_observations s @ [ob]" "ob_activation ob = la_id (sn_activation s)"
      "ob_asset ob = ls_asset st" "ob_time ob = lv_time c" "sn_evaluated s1 = sn_evaluated s"
      "la_id (sn_activation s1) = la_id (sn_activation s)" "ls_asset st1 = ls_asset st"
      "if ob_status ob = EVALUATED
       then ls_last_candle st1 = Some (lv_time c) \<and> follows (interval_of (cd_timeframe d)) (ls_last_candle st) [lv_time c]
       else ls_last_candle st1 = ls_last_candle st"
    show ?thesis
    proof (cases "ls_last_candle st1 \<noteq> Some (lv_time c)")
      case True
      then have "ob_status ob \<noteq> EVALUATED" using ob(9) by auto
      then show ?thesis using Cons.prems(1) step True ob by (intro exI [of _ "[ob]"]) (simp add: candles_added_def)
    next
      case False
      then have run: "process_candles env db d cs st1 ?s = (st', s')" using Cons.prems(1) step by simp
      have "ob_status ob = EVALUATED" using False ob(9) Cons.prems(4) by (auto split: if_splits)
      then have ev: "ob_status ob = EVALUATED" "ls_last_candle st1 = Some (lv_time c)"
          "follows (interval_of (cd_timeframe d)) (ls_last_candle st) [lv_time c]" using ob(9) by simp_all
      obtain new where new: "candles_added d (length cs) st1 ?s s' new"
        using Cons.IH [OF run] Cons.prems(2,3) ob(8) ev(2) by auto
      have "follows (interval_of (cd_timeframe d)) (ls_last_candle st) (lv_time c # evaluated_times (ls_asset st) new)"
        using new ob(8) ev by (cases "ls_last_candle st") (auto simp: candles_added_def)
      then show ?thesis using new ob ev(1) by (intro exI [of _ "ob # new"]) (simp add: candles_added_def)
    qed
  qed
qed

text \<open>The observations of one cycle, over the assets it took.\<close>

definition cycle_added :: "canonical_definition \<Rightarrow> nat \<Rightarrow> live_state list \<Rightarrow> live_session \<Rightarrow> live_session \<Rightarrow> live_observation list \<Rightarrow> bool" where
  "cycle_added d k sts s s' new \<longleftrightarrow>
     sn_observations s' = sn_observations s @ new
     \<and> (\<forall>ob \<in> set new. ob_activation ob = la_id (sn_activation s) \<and> ob_asset ob \<in> ls_asset ` set sts)
     \<and> (\<forall>st \<in> set sts. follows (interval_of (cd_timeframe d)) (ls_last_candle st) (evaluated_times (ls_asset st) new))
     \<and> sn_evaluated s' = sn_evaluated s + evaluated_count new \<and> evaluated_count new \<le> length sts * k"

lemma evaluated_times_none: "\<forall>ob \<in> set obs. ob_asset ob \<noteq> a \<Longrightarrow> evaluated_times a obs = []"
  by (simp add: evaluated_times_def filter_empty_conv)

lemma process_states_added:
  assumes "market_ok env" and "distinct (map ls_asset sts)"
    and "process_states env db d limit sts s = Inr (sts', s')"
  shows "\<exists>new. cycle_added d (nat limit) sts s s' new"
  using assms
proof (induction sts arbitrary: s sts')
  case Nil
  then show ?case by (intro exI [of _ "[]"]) (simp add: cycle_added_def)
next
  case (Cons st sts)
  let ?after = "case ls_last_candle st of None \<Rightarrow> la_activated_at (sn_activation s) | Some t \<Rightarrow> t"
  obtain cs st1 s1 sts1 where cs: "read_canonical_candles env (ls_asset st) (timeframe_value (cd_timeframe d)) ?after limit = Inr cs"
      and cand: "process_candles env db d cs st s = (st1, s1)"
      and rest: "process_states env db d limit sts s1 = Inr (sts1, s')"
    using Cons.prems(3) by (auto split: sum.splits prod.splits)
  note read = read_canonical_candles_ok [OF Cons.prems(1) cs]
  obtain new1 where new1: "candles_added d (length cs) st s s1 new1"
    using process_candles_added [OF cand _ read(1)] read(2) by fastforce
  obtain new2 where new2: "cycle_added d (nat limit) sts s1 s' new2"
    using Cons.IH [OF Cons.prems(1) _ rest] Cons.prems(2) by auto
  have id: "la_id (sn_activation s1) = la_id (sn_activation s)"
    using process_states_id [of env db d limit "[st]" s "[st1]" s1] cs cand by simp
  have other: "ls_asset st' \<noteq> ls_asset st" if "st' \<in> set sts" for st' using Cons.prems(2) that by (auto simp: image_iff)
  have "evaluated_times (ls_asset st) new2 = []"
    using new2 other by (intro evaluated_times_none) (auto simp: cycle_added_def)
  moreover have "evaluated_times (ls_asset st') new1 = []" if "st' \<in> set sts" for st'
    using new1 other [OF that] by (intro evaluated_times_none) (auto simp: candles_added_def)
  moreover have "evaluated_count new1 \<le> nat limit" using new1 read(3) by (simp add: candles_added_def)
  ultimately have "cycle_added d (nat limit) (st # sts) s s' (new1 @ new2)"
    using new1 new2 id by (auto simp: cycle_added_def candles_added_def)
  then show ?case by blast
qed

section \<open>Properties\<close>









text \<open>
  C15: A cycle skips no candle.  What an evaluation cycle records of an asset continues at its
  cursor: every evaluated candle is later than the one before by at most one interval of the
  timeframe; only assets of the cycle's page are touched, nothing is rewritten, and the number it
  returns is the number of evaluated candles, at most the page times the candle limit.
\<close>

theorem live_cycle_skips_no_candle:
  assumes "live_ok db" and "market_ok env"
    and "find (\<lambda>a. la_id a = aid \<and> la_status a = ACT_ACTIVE \<and> \<not> en_locked env aid) (ld_activations db) = Some act"
    and "checked_definition env act db = Inr (d, cfg)" and "process_activation env aid db = (Inr n, db')"
  shows "\<exists>new. ld_observations db' = ld_observations db @ new
    \<and> (\<forall>ob \<in> set new. ob_activation ob = aid)
    \<and> (\<forall>st \<in> set (states_of aid db).
         follows (interval_of (cd_timeframe d)) (ls_last_candle st) (evaluated_times (ls_asset st) new))
    \<and> n = evaluated_count new
    \<and> int n \<le> max 0 (en_max_assets env) * max 0 (min (lc_max_candles cfg) (en_max_candles env))"
proof -
  have rows: "distinct (map state_key (ld_states db))" using assms(1) by (simp add: live_ok_def counts_ok_def)
  note act = find_activation [OF assms(3)]
  obtain sts act1 where slice: "locked_state_slice (en_max_assets env) act db = (sts, act1)"
    by (cases "locked_state_slice (en_max_assets env) act db")
  note sl = locked_state_slice_ok [OF rows slice]
  let ?k = "min (lc_max_candles cfg) (en_max_candles env)"
  have run: "process_activation env aid db =
        (if sts = [] then (Inr 0, write_activation act1 db)
         else (case process_states env db d ?k sts (start_session act1 sts) of
                 Inl e \<Rightarrow> (Inl e, db)
               | Inr (sts1, s) \<Rightarrow>
                   (case commit_session sts1 s db of Inl e \<Rightarrow> (Inl e, db) | Inr db1 \<Rightarrow> (Inr (sn_evaluated s), db1))))"
    unfolding process_activation_def start_session_def by (simp only: assms(3,4) slice option.case sum.case prod.case)
  show ?thesis
  proof (cases "sts = []")
    case True
    then show ?thesis using run assms(5) by (intro exI [of _ "[]"]) (auto simp: write_activation_def)
  next
    case False
    obtain sts1 s where ps: "process_states env db d ?k sts (start_session act1 sts) = Inr (sts1, s)"
      using run False assms(5) by (auto split: sum.splits)
    note commit = evaluated_commit(1) [OF assms(1,2) act(1) slice ps]
    have res: "n = sn_evaluated s" "ld_observations db' = ld_observations db @ sn_observations s"
      using run False ps commit assms(5) by auto
    have "map ls_asset sts = map snd (map state_key sts)" by (simp add: state_key_def)
    moreover have "inj_on snd (set (map state_key sts))" using sl(3) by (auto simp: inj_on_def state_key_def)
    ultimately have d: "distinct (map ls_asset sts)" using sl(2) by (simp only: distinct_map [of snd])
    obtain new where new: "cycle_added d (nat ?k) sts (start_session act1 sts) s new"
      using process_states_added [OF assms(2) d ps] by blast
    have obs: "sn_observations s = new" "sn_evaluated s = evaluated_count new" "evaluated_count new \<le> length sts * nat ?k"
      using new by (simp_all add: cycle_added_def start_session_def)
    have ids: "\<forall>ob \<in> set new. ob_activation ob = aid" using new sl(4) act(2) by (simp add: cycle_added_def start_session_def)
    have "follows (interval_of (cd_timeframe d)) (ls_last_candle st) (evaluated_times (ls_asset st) new)"
      if st: "st \<in> set (states_of aid db)" for st
    proof (cases "st \<in> set sts")
      case True
      then show ?thesis using new by (simp add: cycle_added_def)
    next
      case False
      have "ob_asset ob \<noteq> ls_asset st" if ob: "ob \<in> set new" for ob
      proof
        assume eq: "ob_asset ob = ls_asset st"
        have "ob_asset ob \<in> ls_asset ` set sts" using new ob by (simp add: cycle_added_def)
        then obtain st' where "st' \<in> set sts" "ls_asset st' = ls_asset st" unfolding eq by force
        moreover have "ls_activation st' = ls_activation st" using calculation sl(3) act(2) st by (simp add: states_of_def)
        ultimately have "st' = st"
          using rows sl(1) st by (auto simp: distinct_map inj_on_def state_key_def states_of_def)
        then show False using \<open>st' \<in> set sts\<close> False by simp
      qed
      then have "evaluated_times (ls_asset st) new = []" by (intro evaluated_times_none) blast
      then show ?thesis by simp
    qed
    moreover have "length sts \<le> nat (en_max_assets env)"
      using slice by (auto simp: locked_state_slice_def Let_def state_page_def select_limit_def split: if_splits)
    then have "evaluated_count new \<le> nat (en_max_assets env) * nat ?k"
      using obs(3) by (meson le_trans mult_le_mono1)
    then have "int (evaluated_count new) \<le> int (nat (en_max_assets env)) * int (nat ?k)"
      unfolding of_nat_mult [symmetric] of_nat_le_iff .
    then have "int (evaluated_count new) \<le> max 0 (en_max_assets env) * max 0 ?k"
      by (simp add: int_nat_eq max_def)
    ultimately show ?thesis using res obs ids by (intro exI [of _ new]) simp
  qed
qed

lemma move_activation_healthy:
  assumes "oc_status oc = EVALUATED" and "states_of (la_id act) db \<noteq> []"
    and "\<forall>r \<in> set (states_of (la_id act) db). ls_health r = LIVE_HEALTHY \<and> ls_last_candle r \<noteq> None"
  shows "la_health (move_activation db now oc act) = LIVE_HEALTHY \<and> la_last_error (move_activation db now oc act) = None"
proof -
  have "refresh_activation_health (states_of (la_id act) db) a = a\<lparr>la_health := LIVE_HEALTHY, la_last_error := None\<rparr>" for a
    using assms(2,3) by (auto simp: refresh_activation_health_def)
  then show ?thesis using assms(1) by (simp add: move_activation_def Let_def)
qed

text \<open>
  C39: Health is projected from stale rows.  When one asset of a cycle runs into a gap and a later
  asset of the same cycle is evaluated, the health of the activation is computed from the rows
  committed before the cycle: it is reported healthy and its error erased, while the same
  transaction stores the first asset as degraded.
\<close>

theorem stale_rows_hide_a_gap:
  assumes rows: "states_of (la_id act) db \<noteq> []"
      "\<forall>r \<in> set (states_of (la_id act) db). ls_health r = LIVE_HEALTHY \<and> ls_last_candle r \<noteq> None"
    and gap: "read_canonical_candles env (ls_asset g) (timeframe_value (cd_timeframe d)) tg limit = Inr (cg # csg)"
      "ls_last_candle g = Some tg" "oc_status (observed_outcome d cg act g) = GAP_DETECTED"
      "next_attempt (ld_observations db) (la_id act) (lv_asset cg) (lv_time cg) GAP_DETECTED = Some n" "lv_time cg \<noteq> tg"
    and good: "read_canonical_candles env (ls_asset h) (timeframe_value (cd_timeframe d)) th limit = Inr [ch]"
      "ls_last_candle h = Some th" "\<And>act'. la_open act' = la_open act \<Longrightarrow> oc_status (observed_outcome d ch act' h) = EVALUATED"
      "next_attempt (ld_observations db) (la_id act) (lv_asset ch) (lv_time ch) EVALUATED = Some m"
    and sess: "sn_activation s = act"
  shows "\<exists>g' h' s'. process_states env db d limit [g, h] s = Inr ([g', h'], s')
    \<and> ls_health g' = LIVE_DEGRADED \<and> ls_health h' = LIVE_HEALTHY
    \<and> la_health (sn_activation s') = LIVE_HEALTHY \<and> la_last_error (sn_activation s') = None"
proof -
  let ?og = "observed_outcome d cg act g"
  let ?g = "move_state cg (en_now env (sn_clock s)) ?og g"
  let ?act = "move_activation db (en_now env (sn_clock s)) ?og act"
  have still: "open_change ?og = 0" by (simp add: open_change_def gap(3))
  have ids: "la_id ?act = la_id act" "la_open ?act = la_open act" by (simp_all add: move_activation_simps still)
  obtain s1 where one: "process_candles env db d (cg # csg) g s = (?g, s1)" and act1: "sn_activation s1 = ?act"
    using gap(2-5) sess by (simp add: evaluate_and_persist_def Let_def)
  have g: "ls_health ?g = LIVE_DEGRADED" by (simp add: move_state_def Let_def gap(3))
  let ?oh = "observed_outcome d ch ?act h"
  have ev: "oc_status ?oh = EVALUATED" by (rule good(3)) (rule ids(2))
  obtain s2 where two: "process_candles env db d [ch] h s1 = (move_state ch (en_now env (sn_clock s1)) ?oh h, s2)"
      and act2: "sn_activation s2 = move_activation db (en_now env (sn_clock s1)) ?oh ?act"
    using good(4) ev act1 ids by (simp add: evaluate_and_persist_def Let_def)
  have h: "ls_health (move_state ch (en_now env (sn_clock s1)) ?oh h) = LIVE_HEALTHY"
    by (simp add: move_state_def Let_def ev)
  have "la_health (sn_activation s2) = LIVE_HEALTHY" "la_last_error (sn_activation s2) = None"
    using move_activation_healthy [OF ev, of ?act db] rows ids(1) by (simp_all add: act2)
  moreover have "process_states env db d limit [g, h] s = Inr ([?g, move_state ch (en_now env (sn_clock s1)) ?oh h], s2)"
    using gap(1,2) good(1,2) one two by simp
  ultimately show ?thesis using g h by blast
qed

text \<open>An activation whose assets have no candle after their cursors.\<close>

definition quiet :: "live_env \<Rightarrow> live_activation \<Rightarrow> live_db \<Rightarrow> bool" where
  "quiet env act db \<longleftrightarrow>
     (\<forall>st \<in> set (states_of (la_id act) db). \<forall>tf. \<forall>r \<in> set (en_market env (ls_asset st) tf).
        lr_asset r = ls_asset st \<longrightarrow>
          utc (lr_time r) \<le> (case ls_last_candle st of None \<Rightarrow> la_activated_at act | Some t \<Rightarrow> t))"

lemma process_states_quiet:
  assumes "quiet env act db" and "set sts \<subseteq> set (states_of (la_id act) db)"
    and "la_activated_at (sn_activation s) = la_activated_at act"
  shows "process_states env db d limit sts s = Inr (sts, s)"
  using assms(2)
proof (induction sts)
  case (Cons st sts)
  let ?after = "case ls_last_candle st of None \<Rightarrow> la_activated_at (sn_activation s) | Some t \<Rightarrow> t"
  have "filter (\<lambda>r. lr_asset r = ls_asset st \<and> ?after < utc (lr_time r))
      (en_market env (ls_asset st) (timeframe_value (cd_timeframe d))) = []"
  proof -
    have "st \<in> set (states_of (la_id act) db)" using Cons.prems by simp
    then have "\<forall>r \<in> set (en_market env (ls_asset st) (timeframe_value (cd_timeframe d))).
        lr_asset r = ls_asset st \<longrightarrow> utc (lr_time r) \<le> ?after"
      using assms(1) unfolding quiet_def assms(3) by blast
    then show ?thesis by (auto simp: filter_empty_conv)
  qed
  then have "read_canonical_candles env (ls_asset st) (timeframe_value (cd_timeframe d)) ?after limit = Inr []"
    by (simp add: read_canonical_candles_def select_limit_def)
  then show ?case using Cons by simp
qed simp

lemma write_states_same:
  assumes "distinct (map state_key rows)" and "set sts \<subseteq> set rows"
  shows "write_states sts rows = rows"
  using assms(2) by (induction sts) (simp_all add: write_states_def put_state_same [OF assms(1)])

lemma process_activation_quiet:
  assumes "live_ok db" and "act \<in> set (ld_activations db)"
    and "\<exists>dc. checked_definition env act db = Inr dc" and "quiet env act db"
  shows "\<exists>k. process_activation env (la_id act) db = (Inr 0, write_activation (act\<lparr>la_cursor := k\<rparr>) db)"
proof -
  have rows: "distinct (map state_key (ld_states db))" "distinct (map la_id (ld_activations db))"
    using assms(1) by (simp_all add: live_ok_def counts_ok_def)
  have same: "write_activation (act\<lparr>la_cursor := la_cursor act\<rparr>) db = db"
  proof -
    have "update_where (\<lambda>r. la_id r = la_id act) (\<lambda>_. act) (ld_activations db) = ld_activations db"
      unfolding update_where_def by (rule map_idI) (use rows(2) assms(2) in \<open>auto simp: distinct_map inj_on_def\<close>)
    then show ?thesis by (simp add: write_activation_def)
  qed
  show ?thesis
  proof (cases "la_status act = ACT_ACTIVE \<and> \<not> en_locked env (la_id act)")
    case False
    have "find (\<lambda>a. la_id a = la_id act \<and> la_status a = ACT_ACTIVE \<and> \<not> en_locked env (la_id act)) (ld_activations db) = None"
      unfolding find_None_iff using False rows(2) assms(2) by (auto simp: distinct_map inj_on_def)
    then have "process_activation env (la_id act) db = (Inr 0, db)" by (simp add: process_activation_def)
    then show ?thesis using same by (metis (no_types))
  next
    case True
    have "find (\<lambda>a. la_id a = la_id act) (ld_activations db) = Some act" by (rule find_distinct [OF rows(2) assms(2)])
    moreover have "find (\<lambda>a. la_id a = la_id act \<and> la_status a = ACT_ACTIVE \<and> \<not> en_locked env (la_id act)) (ld_activations db)
        = find (\<lambda>a. la_id a = la_id act) (ld_activations db)"
      by (rule find_cong [OF refl]) (use True rows(2) assms(2) in \<open>auto simp: distinct_map inj_on_def\<close>)
    ultimately have found: "find (\<lambda>a. la_id a = la_id act \<and> la_status a = ACT_ACTIVE \<and> \<not> en_locked env (la_id act)) (ld_activations db) = Some act"
      by simp
    obtain d cfg where dc: "checked_definition env act db = Inr (d, cfg)" using assms(3) by auto
    obtain sts act1 where slice: "locked_state_slice (en_max_assets env) act db = (sts, act1)"
      by (cases "locked_state_slice (en_max_assets env) act db")
    note sl = locked_state_slice_ok [OF rows(1) slice]
    obtain k1 where act1: "act1 = act\<lparr>la_cursor := k1\<rparr>"
      using slice by (auto simp: locked_state_slice_def Let_def split: if_splits intro: that [of "la_cursor act"])
    show ?thesis
    proof (cases "sts = []")
      case True
      then have "process_activation env (la_id act) db = (Inr 0, write_activation act1 db)"
        unfolding process_activation_def by (simp only: found dc slice option.case sum.case prod.case simp_thms if_True)
      then show ?thesis unfolding act1 by blast
    next
      case False
      let ?s = "start_session act1 sts"
      have sub: "set sts \<subseteq> set (states_of (la_id act) db)" using sl(1,3) by (auto simp: states_of_def)
      have ps: "process_states env db d (min (lc_max_candles cfg) (en_max_candles env)) sts ?s = Inr (sts, ?s)"
        by (rule process_states_quiet [OF assms(4) sub]) (simp add: start_session_def act1)
      let ?k = "Some (ls_asset (last sts))"
      let ?act = "act\<lparr>la_cursor := ?k\<rparr>"
      have view: "session_view db (write_states sts (ld_states db)) ?s = write_activation ?act db"
        using write_states_same [OF rows(1) sl(1)] by (simp add: session_view_start act1)
      have "live_ok (write_activation ?act db)" by (rule live_ok_write_activation [OF assms(1,2)]) simp_all
      then have "commit_session sts ?s db = Inr (write_activation ?act db)"
        using commit_session_ok [of db sts ?s] view assms(2) by (simp add: start_session_def act1)
      then have "process_activation env (la_id act) db = (Inr (sn_evaluated ?s), write_activation ?act db)"
        unfolding process_activation_def start_session_def [symmetric]
        by (simp only: found dc slice option.case sum.case prod.case False if_False ps)
      then show ?thesis by (intro exI [of _ ?k]) (simp add: start_session_def)
    qed
  qed
qed

text \<open>The cycles of the dispatcher: each gives every activation its surroundings.\<close>

fun dispatch_cycles :: "(int \<Rightarrow> live_env) list \<Rightarrow> nat \<Rightarrow> live_db \<Rightarrow> live_db" where
  "dispatch_cycles [] limit db = db"
| "dispatch_cycles (env # envs) limit db = dispatch_cycles envs limit (snd (process_active env limit db))"

text \<open>Only page cursors of the given activations may differ.\<close>

definition cursor_moved :: "int set \<Rightarrow> live_activation \<Rightarrow> live_activation \<Rightarrow> bool" where
  "cursor_moved S a b \<longleftrightarrow> b = a \<or> (la_id a \<in> S \<and> (\<exists>k. b = a\<lparr>la_cursor := k\<rparr>))"

definition cursors_moved :: "int set \<Rightarrow> live_db \<Rightarrow> live_db \<Rightarrow> bool" where
  "cursors_moved S db db' \<longleftrightarrow>
     db' = db\<lparr>ld_activations := ld_activations db'\<rparr> \<and> list_all2 (cursor_moved S) (ld_activations db) (ld_activations db')"

lemma cursor_moved_fields:
  assumes "cursor_moved S a b"
  shows "la_id b = la_id a" and "la_open b = la_open a" and "b\<lparr>la_cursor := None\<rparr> = a\<lparr>la_cursor := None\<rparr>"
    and "la_status b = la_status a" and "active_order b = active_order a"
    and "checked_definition env b db = checked_definition env a db" and "quiet env b db = quiet env a db"
proof -
  obtain k where b: "b = a\<lparr>la_cursor := k\<rparr>" using assms by (auto simp: cursor_moved_def intro: that [of "la_cursor a"])
  then show "la_id b = la_id a" "la_open b = la_open a" "b\<lparr>la_cursor := None\<rparr> = a\<lparr>la_cursor := None\<rparr>"
    "la_status b = la_status a" by simp_all
  show "active_order b = active_order a" unfolding b active_order_def by (simp split: option.split)
  show "checked_definition env b db = checked_definition env a db"
    unfolding b checked_definition_def by (simp cong: sum.case_cong)
  show "quiet env b db = quiet env a db" unfolding b quiet_def by (simp cong: option.case_cong)
qed

lemma cursors_moved_refl: "cursors_moved S db db"
  by (simp add: cursors_moved_def cursor_moved_def list_all2_same)

lemma cursor_moved_trans: "cursor_moved S a b \<Longrightarrow> cursor_moved S b c \<Longrightarrow> cursor_moved S a c"
  by (auto simp: cursor_moved_def)

lemma cursors_moved_write:
  assumes "cursors_moved S db db1" and "act \<in> set (ld_activations db1)" and "la_id act \<in> S" and "distinct (map la_id (ld_activations db1))"
  shows "cursors_moved S db (write_activation (act\<lparr>la_cursor := k\<rparr>) db1)"
proof -
  let ?acts = "update_where (\<lambda>r. la_id r = la_id act) (\<lambda>_. act\<lparr>la_cursor := k\<rparr>) (ld_activations db1)"
  have "list_all2 (cursor_moved S) (ld_activations db1) ?acts"
    unfolding update_where_def list_all2_map2
    unfolding list_all2_same [of "\<lambda>x y. cursor_moved S x (if la_id y = la_id act then act\<lparr>la_cursor := k\<rparr> else y)"]
    using assms(2-4) by (auto simp: cursor_moved_def distinct_map inj_on_def list_all2_same)
  then have "list_all2 (cursor_moved S) (ld_activations db) ?acts"
    using assms(1) list_all2_trans [of "cursor_moved S" "cursor_moved S" "cursor_moved S"] cursor_moved_trans
    by (metis cursors_moved_def)
  moreover have "db1 = db\<lparr>ld_activations := ld_activations db1\<rparr>" using assms(1) unfolding cursors_moved_def ..
  then have "db1\<lparr>ld_activations := acts\<rparr> = db\<lparr>ld_activations := acts\<rparr>" for acts
    by (metis live_db.update_convs(2) live_db.surjective)
  ultimately show ?thesis by (simp add: cursors_moved_def write_activation_def)
qed

lemma insort_key_map: "insort_key f (g x) (map g xs) = map g (insort_key (f \<circ> g) x xs)"
  by (induction xs) auto

lemma sort_key_map: "sort_key f (map g xs) = map g (sort_key (f \<circ> g) xs)"
  by (induction xs) (simp_all add: insort_key_map o_def)

lemma select_limit_map:
  "select_limit f P n (map g xs) = map g (select_limit (f \<circ> g) (P \<circ> g) n xs)"
  by (simp add: select_limit_def filter_map sort_key_map take_map)

lemma active_ids_moved:
  assumes "cursors_moved S db db'"
  shows "active_ids limit db' = active_ids limit db"
proof -
  let ?er = "\<lambda>a. a\<lparr>la_cursor := None\<rparr>" and ?P = "\<lambda>a. la_status a = ACT_ACTIVE"
  have "list_all2 (\<lambda>a b. ?er b = ?er a) (ld_activations db) (ld_activations db')"
    by (rule list_all2_mono [where P = "cursor_moved S"]) (use assms cursor_moved_fields(3) in \<open>auto simp: cursors_moved_def\<close>)
  then have er: "map ?er (ld_activations db') = map ?er (ld_activations db)"
    by (auto simp: list_all2_conv_all_nth intro: nth_equalityI)
  have "active_ids limit d = map la_id (select_limit active_order ?P limit (map ?er (ld_activations d)))" for d
  proof -
    have "active_order \<circ> ?er = active_order" by (rule ext) (simp add: active_order_def split: option.split)
    moreover have "?P \<circ> ?er = ?P" by (simp add: o_def)
    ultimately show ?thesis by (simp add: active_ids_def select_limit_map o_def)
  qed
  then show ?thesis using er by simp
qed

lemma list_all2_member: "list_all2 R xs ys \<Longrightarrow> x \<in> set xs \<Longrightarrow> \<exists>y \<in> set ys. R x y"
  by (induction rule: list_all2_induct) auto

lemma process_each_quiet:
  assumes "set ids \<subseteq> S" and "S \<subseteq> la_id ` set (ld_activations base)" and "live_ok db" and "cursors_moved S base db"
    and stalled: "\<forall>a \<in> set (ld_activations base). la_id a \<in> S \<longrightarrow>
        (\<exists>dc. checked_definition (env (la_id a)) a base = Inr dc) \<and> quiet (env (la_id a)) a base"
  shows "live_ok (snd (process_each env ids db)) \<and> cursors_moved S base (snd (process_each env ids db))"
  using assms(1,3,4)
proof (induction ids arbitrary: db)
  case (Cons i ids)
  have eq: "db = base\<lparr>ld_activations := ld_activations db\<rparr>" using Cons.prems(3) unfolding cursors_moved_def ..
  have rel: "list_all2 (cursor_moved S) (ld_activations base) (ld_activations db)"
    using Cons.prems(3) by (simp add: cursors_moved_def)
  obtain a where a: "a \<in> set (ld_activations base)" "la_id a = i" using Cons.prems(1) assms(2) by auto
  then obtain b where b: "b \<in> set (ld_activations db)" "cursor_moved S a b"
    using list_all2_member [OF rel] by blast
  note f = cursor_moved_fields [OF b(2)]
  have i: "i \<in> S" using Cons.prems(1) by simp
  have "checked_definition (env i) b db = checked_definition (env i) b base" "quiet (env i) b db = quiet (env i) b base"
    by (subst eq, simp add: checked_definition_def cong: sum.case_cong) (subst eq, simp add: quiet_def states_of_def)
  then have "\<exists>dc. checked_definition (env i) b db = Inr dc" "quiet (env i) b db"
    using stalled a i f(6,7) by auto
  from process_activation_quiet [OF Cons.prems(2) b(1) this]
  obtain k where run: "process_activation (env i) i db = (Inr 0, write_activation (b\<lparr>la_cursor := k\<rparr>) db)"
    using f(1) a(2) by auto
  have 1: "live_ok (write_activation (b\<lparr>la_cursor := k\<rparr>) db)"
    by (rule live_ok_write_activation [OF Cons.prems(2) b(1)]) simp_all
  have 2: "cursors_moved S base (write_activation (b\<lparr>la_cursor := k\<rparr>) db)"
    by (rule cursors_moved_write [OF Cons.prems(3) b(1)])
      (use i f(1) a(2) Cons.prems(2) in \<open>simp_all add: live_ok_def counts_ok_def\<close>)
  show ?case using Cons.IH [OF _ 1 2] Cons.prems(1) run by (simp split: prod.splits)
qed simp

text \<open>
  C40: Waiting activations starve the others.  A dispatch cycle takes the activations that were
  evaluated longest ago, and one that has no new candle keeps its place: while those selected
  wait for their next candle, every later cycle selects them again and, whatever candles the
  others have, no other activation is ever evaluated.
\<close>

theorem waiting_activations_starve_others:
  assumes "live_ok db" and "later = dispatch_cycles envs limit db"
    and "\<forall>env \<in> set envs. \<forall>a \<in> set (ld_activations db). la_id a \<in> set (active_ids limit db) \<longrightarrow>
        (\<exists>dc. checked_definition (env (la_id a)) a db = Inr dc) \<and> quiet (env (la_id a)) a db"
  shows "active_ids limit later = active_ids limit db
    \<and> ld_states later = ld_states db \<and> ld_observations later = ld_observations db
    \<and> (\<forall>b \<in> set (ld_activations db). la_id b \<notin> set (active_ids limit db) \<longrightarrow> b \<in> set (ld_activations later))"
proof -
  let ?S = "set (active_ids limit db)"
  have sub: "?S \<subseteq> la_id ` set (ld_activations db)"
    using set_take_subset [of limit "sort_key active_order (filter (\<lambda>a. la_status a = ACT_ACTIVE) (ld_activations db))"]
    by (auto simp: active_ids_def select_limit_def)
  have "cursors_moved ?S db (dispatch_cycles es limit v)"
    if "set es \<subseteq> set envs" "live_ok v" "cursors_moved ?S db v" for es v
    using that
  proof (induction es arbitrary: v)
    case (Cons env es)
    have ids: "active_ids limit v = active_ids limit db" by (rule active_ids_moved [OF Cons.prems(3)])
    have "live_ok (snd (process_each env (active_ids limit v) v)) \<and> cursors_moved ?S db (snd (process_each env (active_ids limit v) v))"
      by (rule process_each_quiet [OF _ sub Cons.prems(2,3)]) (use ids assms(3) Cons.prems(1) in auto)
    then show ?case using Cons.IH Cons.prems(1) by (simp add: process_active_def)
  qed simp
  then have moved: "cursors_moved ?S db later" using assms(1,2) cursors_moved_refl by simp
  have eq: "later = db\<lparr>ld_activations := ld_activations later\<rparr>" using moved unfolding cursors_moved_def ..
  have "b \<in> set (ld_activations later)" if b: "b \<in> set (ld_activations db)" "la_id b \<notin> ?S" for b
  proof -
    obtain b' where "b' \<in> set (ld_activations later)" "cursor_moved ?S b b'"
      using moved list_all2_member [OF _ b(1)] unfolding cursors_moved_def by blast
    then show ?thesis using b(2) by (simp add: cursor_moved_def)
  qed
  moreover have "ld_states later = ld_states db" "ld_observations later = ld_observations db"
    by (subst eq, simp)+
  ultimately show ?thesis using active_ids_moved [OF moved] by blast
qed

section \<open>Witnesses\<close>

definition live_hash :: string where
  "live_hash = (case definition_hash live_definition of Inr h \<Rightarrow> h | Inl e \<Rightarrow> [])"

lemma live_definition_hash: "definition_hash live_definition = Inr live_hash"
proof -
  have "canonical_content live_definition"
    using sample_canonical_content by (simp add: canonical_content_def live_definition_def live_signal_def)
  then show ?thesis
    using canonical_json_total [of live_definition] by (auto simp: definition_hash_def live_hash_def)
qed

definition live_catalog :: catalog where
  "live_catalog = \<lparr>ct_strategies = [\<lparr>st_id = 1, st_key = ''k'', st_name = ''K'', st_description = None\<rparr>],
     ct_versions = [\<lparr>sv_id = 10, sv_strategy = 1, sv_number = 1, sv_schema = ''1'', sv_hash = live_hash, sv_payload = PNone\<rparr>],
     ct_assets = []\<rparr>"

definition row_at :: "int \<Rightarrow> usec \<Rightarrow> live_row" where
  "row_at a t = \<lparr>lr_asset = a, lr_time = Aware t 0, lr_open = Some (Fin 11), lr_high = Some (Fin 12),
     lr_low = Some (Fin 9), lr_close = Some (Fin 11), lr_volume = Some (Fin 1)\<rparr>"

definition env_with :: "(int \<Rightarrow> live_row list) \<Rightarrow> live_env" where
  "env_with rows = \<lparr>en_now = (\<lambda>n. day_us + int n), en_market = (\<lambda>a tf. rows a), en_locked = (\<lambda>_. False),
     en_max_assets = 10, en_max_candles = 10, en_definition = (\<lambda>p. Inr live_definition),
     en_configuration = (\<lambda>p. Inr live_config)\<rparr>"

definition activation_row :: "int \<Rightarrow> usec \<Rightarrow> live_activation" where
  "activation_row i t = (new_activation i 0 (hd (ct_strategies live_catalog)) (hd (ct_versions live_catalog)) live_config ''c'')
     \<lparr>la_health := LIVE_HEALTHY, la_last_evaluated := Some t\<rparr>"

definition state_row :: "int \<Rightarrow> int \<Rightarrow> live_state" where
  "state_row i a = (new_state i a)\<lparr>ls_last_candle := Some 0, ls_health := LIVE_HEALTHY\<rparr>"

definition observation_row :: "int \<Rightarrow> int \<Rightarrow> live_observation" where
  "observation_row i a = new_observation i ((candle_at 0)\<lparr>lv_asset := a\<rparr>) 1 0 (plain_outcome EVALUATED POS_FLAT)"

definition two_assets :: live_db where
  "two_assets = \<lparr>ld_catalog = live_catalog, ld_activations = [activation_row 1 0], ld_states = [state_row 1 3, state_row 1 7],
     ld_observations = [observation_row 1 3, observation_row 1 7], ld_events = []\<rparr>"

lemma make_row_at: "0 < a \<Longrightarrow> make_live_candle (row_at a t) = Inr ((candle_at t)\<lparr>lv_asset := a\<rparr>)"
proof -
  have d: "is_double 9" "is_double 11" "is_double 12"
    using is_double_int [of 9] is_double_int [of 11] is_double_int [of 12] by simp_all
  have "f_le (f_sub (Fin 9) f_1e_9) (Fin 12)" "f_le (f_sub (Fin 9) f_1e_9) (Fin 11)"
    by (rule f_sub_slack_le; use d in simp)+
  moreover have "f_le (Fin 11) (f_add (Fin 12) f_1e_9)" by (rule f_add_slack_ge) (use d in simp_all)
  ultimately have "live_ohlcv_ok (candle_at t\<lparr>lv_asset := a\<rparr>)"
    using f_le_not_lt by (simp add: live_ohlcv_ok_def candle_at_def Let_def)
  then show "0 < a \<Longrightarrow> ?thesis" by (simp add: make_live_candle_def row_at_def candle_at_def Let_def)
qed

lemma two_assets_facts:
  "distinct (map la_id (ld_activations two_assets))" "checked_definition (env_with rows) (activation_row 1 0) two_assets = Inr (live_definition, live_config)"
  "find (\<lambda>a. la_id a = 1 \<and> la_status a = ACT_ACTIVE \<and> \<not> en_locked (env_with rows) 1) (ld_activations two_assets) = Some (activation_row 1 0)"
proof -
  show "distinct (map la_id (ld_activations two_assets))" by (simp add: two_assets_def)
  show "checked_definition (env_with rows) (activation_row 1 0) two_assets = Inr (live_definition, live_config)"
    by (simp add: checked_definition_def env_with_def activation_row_def new_activation_def two_assets_def live_catalog_def
        load_strategy_version_def verified_definition_def live_definition_hash live_validated)
  show "find (\<lambda>a. la_id a = 1 \<and> la_status a = ACT_ACTIVE \<and> \<not> en_locked (env_with rows) 1) (ld_activations two_assets) = Some (activation_row 1 0)"
    by (simp add: two_assets_def activation_row_def new_activation_def env_with_def)
qed

lemma two_assets_ok: "live_ok two_assets"
  by (simp add: live_ok_def counts_ok_def observations_ok_def events_ok_def cursors_ok_def two_assets_def
      activation_row_def new_activation_def state_row_def new_state_def observation_row_def state_key_def
      open_states_def observation_of_def candle_at_def)

lemma env_with_ok: "\<forall>a. distinct (map (\<lambda>r. utc (lr_time r)) (filter (\<lambda>r. lr_asset r = a) (rows a))) \<Longrightarrow> market_ok (env_with rows)"
  by (simp add: market_ok_def env_with_def)


definition hourly :: "int \<Rightarrow> live_row list" where
  "hourly a = (if a = 3 then [row_at 3 hour_us] else [])"

lemma hourly_read:
  "read_canonical_candles (env_with hourly) 3 tf 0 10 = Inr [(candle_at hour_us)\<lparr>lv_asset := 3\<rparr>]"
  "read_canonical_candles (env_with hourly) 7 tf 0 10 = Inr []"
proof -
  have m: "make_live_candle (row_at 3 hour_us) = Inr ((candle_at hour_us)\<lparr>lv_asset := 3\<rparr>)" by (rule make_row_at) simp
  have r: "lr_asset (row_at 3 hour_us) = 3" "utc (lr_time (row_at 3 hour_us)) = hour_us" by (simp_all add: row_at_def)
  show "read_canonical_candles (env_with hourly) 3 tf 0 10 = Inr [(candle_at hour_us)\<lparr>lv_asset := 3\<rparr>]"
    by (simp add: read_canonical_candles_def select_limit_def env_with_def hourly_def r m)
  show "read_canonical_candles (env_with hourly) 7 tf 0 10 = Inr []"
    by (simp add: read_canonical_candles_def select_limit_def env_with_def hourly_def)
qed

lemma two_assets_page:
  "locked_state_slice 10 (activation_row 1 0) two_assets = ([state_row 1 3, state_row 1 7], activation_row 1 0)"
  by (simp add: locked_state_slice_def state_page_def select_limit_def two_assets_def activation_row_def new_activation_def
      state_row_def new_state_def)

lemma hourly_market: "market_ok (env_with hourly)"
  by (rule env_with_ok) (simp add: hourly_def)

lemma hourly_runs: "\<exists>n db'. process_activation (env_with hourly) 1 two_assets = (Inr n, db')"
proof -
  let ?s = "start_session (activation_row 1 0) [state_row 1 3, state_row 1 7]"
  have st: "ls_asset (state_row 1 a) = a" "ls_last_candle (state_row 1 a) = Some 0" for a
    by (simp_all add: state_row_def new_state_def)
  obtain st1 s1 where one: "process_candles (env_with hourly) two_assets live_definition [(candle_at hour_us)\<lparr>lv_asset := 3\<rparr>] (state_row 1 3) ?s = (st1, s1)"
    by (cases "process_candles (env_with hourly) two_assets live_definition [(candle_at hour_us)\<lparr>lv_asset := 3\<rparr>] (state_row 1 3) ?s")
  have k: "min (lc_max_candles live_config) (en_max_candles (env_with hourly)) = 10"
    by (simp add: live_config_def env_with_def)
  have ps: "process_states (env_with hourly) two_assets live_definition 10 [state_row 1 3, state_row 1 7] ?s = Inr ([st1, state_row 1 7], s1)"
    using one by (simp add: st hourly_read del: process_candles.simps(2))
  have m: "en_max_assets (env_with hourly) = 10" by (simp add: env_with_def)
  have a: "activation_row 1 0 \<in> set (ld_activations two_assets)" by (simp add: two_assets_def)
  from evaluated_commit(1) [OF two_assets_ok hourly_market a two_assets_page ps]
  show ?thesis
    unfolding process_activation_def start_session_def [symmetric]
    by (simp only: two_assets_facts(2,3) m two_assets_page k ps option.case sum.case prod.case list.distinct if_False) blast
qed

lemma live_cycle_skips_no_candle_witness:
  "\<exists>n db' new. process_activation (env_with hourly) 1 two_assets = (Inr n, db')
    \<and> ld_observations db' = ld_observations two_assets @ new \<and> n = evaluated_count new"
  using hourly_runs live_cycle_skips_no_candle [OF two_assets_ok hourly_market two_assets_facts(3,2)] by blast

definition gapped :: "int \<Rightarrow> live_row list" where
  "gapped a = (if a = 3 then [row_at 3 (2 * hour_us)] else if a = 7 then [row_at 7 hour_us] else [])"

lemma gapped_read:
  "read_canonical_candles (env_with gapped) 3 tf 0 10 = Inr [(candle_at (2 * hour_us))\<lparr>lv_asset := 3\<rparr>]"
  "read_canonical_candles (env_with gapped) 7 tf 0 10 = Inr [(candle_at hour_us)\<lparr>lv_asset := 7\<rparr>]"
proof -
  have m: "make_live_candle (row_at 3 (2 * hour_us)) = Inr ((candle_at (2 * hour_us))\<lparr>lv_asset := 3\<rparr>)"
    "make_live_candle (row_at 7 hour_us) = Inr ((candle_at hour_us)\<lparr>lv_asset := 7\<rparr>)"
    by (rule make_row_at, simp)+
  have r: "lr_asset (row_at a t) = a" "utc (lr_time (row_at a t)) = t" for a t by (simp_all add: row_at_def)
  show "read_canonical_candles (env_with gapped) 3 tf 0 10 = Inr [(candle_at (2 * hour_us))\<lparr>lv_asset := 3\<rparr>]"
    using m(1) by (simp add: read_canonical_candles_def select_limit_def env_with_def gapped_def r)
  show "read_canonical_candles (env_with gapped) 7 tf 0 10 = Inr [(candle_at hour_us)\<lparr>lv_asset := 7\<rparr>]"
    using m(2) by (simp add: read_canonical_candles_def select_limit_def env_with_def gapped_def r)
qed

lemma aligned_hours: "is_timeframe_aligned hour_us ONE_HOUR" "is_timeframe_aligned (2 * hour_us) ONE_HOUR"
  using aligned_whole [of 3600 ONE_HOUR] aligned_whole [of 7200 ONE_HOUR] by simp_all

lemma live_evaluates:
  assumes "lv_close c = Fin 11"
  shows "\<exists>oc. evaluate_signals live_definition c p b = Inr oc \<and> oc_status oc = EVALUATED"
proof -
  have "validate_role_direction live_signal" using live_facts(1) by (auto simp: live_definition_def)
  from apply_signal_total [OF this] obtain r where
    "apply_signal (pr_allow_reversal (cd_position live_definition)) b p live_signal = Inr r" by blast
  then show ?thesis using live_matches assms by (cases r) (simp add: evaluate_signals_def)
qed

lemma universe_assets: "set (map in_asset (cd_universe live_definition)) = {3, 7}"
  by (simp add: live_definition_def sample_canonical_def sample_asset_def)

lemma hour_outcomes:
  "oc_status (observed_outcome live_definition ((candle_at (2 * hour_us))\<lparr>lv_asset := 3\<rparr>) act (state_row 1 3)) = GAP_DETECTED"
  "oc_status (observed_outcome live_definition ((candle_at hour_us)\<lparr>lv_asset := 7\<rparr>) act (state_row 1 7)) = EVALUATED"
proof -
  have st: "ls_last_candle (state_row 1 a) = Some 0" "ls_position (state_row 1 a) = POS_FLAT" for a
    by (simp_all add: state_row_def new_state_def)
  have t: "lv_time (candle_at t) = t" "lv_close (candle_at t) = Fin 11" for t by (simp_all add: candle_at_def)
  show "oc_status (observed_outcome live_definition ((candle_at (2 * hour_us))\<lparr>lv_asset := 3\<rparr>) act (state_row 1 3)) = GAP_DETECTED"
    unfolding observed_outcome_def evaluate_live_candle_def universe_assets
    using aligned_hours(2) by (simp add: st t live_facts failed_outcome_def)
  obtain oc where "evaluate_signals live_definition ((candle_at hour_us)\<lparr>lv_asset := 7\<rparr>) POS_FLAT
      (can_open_position live_definition act (state_row 1 7)) = Inr oc" "oc_status oc = EVALUATED"
    using live_evaluates [of "(candle_at hour_us)\<lparr>lv_asset := 7\<rparr>"] by (auto simp: t)
  then show "oc_status (observed_outcome live_definition ((candle_at hour_us)\<lparr>lv_asset := 7\<rparr>) act (state_row 1 7)) = EVALUATED"
    unfolding observed_outcome_def evaluate_live_candle_def universe_assets
    by (simp add: st t live_facts aligned_hours)
qed

lemma stale_rows_hide_a_gap_witness:
  "\<exists>g' h' s'. process_states (env_with gapped) two_assets live_definition 10 [state_row 1 3, state_row 1 7]
        (start_session (activation_row 1 0) [state_row 1 3, state_row 1 7]) = Inr ([g', h'], s')
    \<and> ls_health g' = LIVE_DEGRADED \<and> ls_health h' = LIVE_HEALTHY
    \<and> la_health (sn_activation s') = LIVE_HEALTHY \<and> la_last_error (sn_activation s') = None"
proof (rule stale_rows_hide_a_gap [where tg = 0 and th = 0 and n = 1 and m = 1])
  let ?act = "sn_activation (start_session (activation_row 1 0) [state_row 1 3, state_row 1 7])"
  have id: "la_id ?act = 1" by (simp add: start_session_def activation_row_def new_activation_def)
  have rows: "states_of 1 two_assets = [state_row 1 3, state_row 1 7]"
    by (simp add: states_of_def two_assets_def state_row_def new_state_def)
  show "states_of (la_id ?act) two_assets \<noteq> []"
    "\<forall>r \<in> set (states_of (la_id ?act) two_assets). ls_health r = LIVE_HEALTHY \<and> ls_last_candle r \<noteq> None"
    unfolding id rows by (simp_all add: state_row_def)
  show "ls_last_candle (state_row 1 3) = Some 0" "ls_last_candle (state_row 1 7) = Some 0" by (simp_all add: state_row_def)
  show "read_canonical_candles (env_with gapped) (ls_asset (state_row 1 3)) (timeframe_value (cd_timeframe live_definition)) 0 10
      = Inr [(candle_at (2 * hour_us))\<lparr>lv_asset := 3\<rparr>]"
    "read_canonical_candles (env_with gapped) (ls_asset (state_row 1 7)) (timeframe_value (cd_timeframe live_definition)) 0 10
      = Inr [(candle_at hour_us)\<lparr>lv_asset := 7\<rparr>]"
    using gapped_read by (simp_all add: state_row_def new_state_def)
  show "oc_status (observed_outcome live_definition ((candle_at (2 * hour_us))\<lparr>lv_asset := 3\<rparr>) ?act (state_row 1 3)) = GAP_DETECTED"
    "oc_status (observed_outcome live_definition ((candle_at hour_us)\<lparr>lv_asset := 7\<rparr>) act' (state_row 1 7)) = EVALUATED" for act'
    by (rule hour_outcomes)+
  show "next_attempt (ld_observations two_assets) (la_id ?act) (lv_asset ((candle_at (2 * hour_us))\<lparr>lv_asset := 3\<rparr>))
      (lv_time ((candle_at (2 * hour_us))\<lparr>lv_asset := 3\<rparr>)) GAP_DETECTED = Some 1"
    "next_attempt (ld_observations two_assets) (la_id ?act) (lv_asset ((candle_at hour_us)\<lparr>lv_asset := 7\<rparr>))
      (lv_time ((candle_at hour_us)\<lparr>lv_asset := 7\<rparr>)) EVALUATED = Some 1"
    by (simp_all add: next_attempt_def select_first_def two_assets_def observation_of_def observation_row_def candle_at_def)
  show "lv_time ((candle_at (2 * hour_us))\<lparr>lv_asset := 3\<rparr>) \<noteq> 0" by (simp add: candle_at_def)
qed simp_all

definition two_activations :: live_db where
  "two_activations = two_assets\<lparr>ld_activations := [activation_row 1 0, activation_row 2 hour_us],
     ld_states := ld_states two_assets @ [new_state 2 3]\<rparr>"

lemma two_activations_ok: "live_ok two_activations"
  by (simp add: live_ok_def counts_ok_def observations_ok_def events_ok_def cursors_ok_def two_activations_def two_assets_def
      activation_row_def new_activation_def state_row_def new_state_def observation_row_def state_key_def
      open_states_def observation_of_def candle_at_def)

lemma waiting_activations_starve_others_witness:
  "active_ids 1 two_activations = [1] \<and>
   activation_row 2 hour_us \<in> set (ld_activations (dispatch_cycles [\<lambda>i. env_with (\<lambda>a. if i = 2 then hourly a else []),
      \<lambda>i. env_with (\<lambda>a. if i = 2 then hourly a else [])] 1 two_activations))"
proof -
  let ?env = "\<lambda>i. env_with (\<lambda>a. if i = (2 :: int) then hourly a else [])"
  have ids: "active_ids 1 two_activations = [1]"
    by (simp add: active_ids_def select_limit_def two_activations_def activation_row_def new_activation_def active_order_def)
  have cat: "ld_catalog two_activations = ld_catalog two_assets" by (simp add: two_activations_def)
  have ids2: "la_id (activation_row 1 0) = 1" "la_id (activation_row 2 hour_us) = 2"
    by (simp_all add: activation_row_def new_activation_def)
  have acts: "set (ld_activations two_activations) = {activation_row 1 0, activation_row 2 hour_us}"
    by (simp add: two_activations_def)
  have "checked_definition (?env 1) (activation_row 1 0) two_activations = Inr (live_definition, live_config)"
    using two_assets_facts(2) [of "\<lambda>a. if (1 :: int) = 2 then hourly a else []"]
    unfolding checked_definition_def cat .
  moreover have "quiet (?env 1) (activation_row 1 0) two_activations"
    by (simp add: quiet_def env_with_def)
  ultimately have "\<forall>env \<in> set [?env, ?env]. \<forall>a \<in> set (ld_activations two_activations).
      la_id a \<in> set (active_ids 1 two_activations) \<longrightarrow>
      (\<exists>dc. checked_definition (env (la_id a)) a two_activations = Inr dc) \<and> quiet (env (la_id a)) a two_activations"
    unfolding acts ids using ids2 by auto
  from waiting_activations_starve_others [OF two_activations_ok refl this]
  have "\<forall>b \<in> set (ld_activations two_activations). la_id b \<notin> set (active_ids 1 two_activations) \<longrightarrow>
      b \<in> set (ld_activations (dispatch_cycles [?env, ?env] 1 two_activations))" by blast
  then show ?thesis using ids ids2 acts by auto
qed

end
