(* ===== verification/Strategy_Comparison.thy ===== *)
theory Strategy_Comparison
  imports Divergence_Results Backtest_Results Live_Cycles
begin

text \<open>
  \<open>app/services/strategy_comparison.py\<close> over the tables of \<open>app/models/divergence.py\<close>: loads the
  records of a live activation and of a reference backtest, compares them and stores the immutable
  run with its findings.  The primary keys of the live tables are random UUIDs; the environment says
  which row got which.
\<close>

section \<open>Tables\<close>

record comparison_run =
  rn_id :: string
  rn_strategy :: version_identity
  rn_activation :: int
  rn_reference :: string
  rn_reference_hash :: string
  rn_policy_id :: string
  rn_policy_revision :: string
  rn_policy_hash :: string
  rn_policy :: pyval
  rn_reference_source :: json_dict
  rn_observed_source :: json_dict
  rn_start :: usec
  rn_end :: usec
  rn_status :: comparison_status

record finding_row =
  fr_run :: string
  fr_fingerprint :: string
  fr_asset :: "int option"
  fr_finding :: divergence_finding

record comparison_db =
  cm_live :: live_db
  cm_backtests :: backtest_db
  cm_runs :: "comparison_run list"
  cm_findings :: "finding_row list"

record comparison_env =
  ce_text :: "usec \<Rightarrow> string"
  ce_event_id :: "live_event_row \<Rightarrow> int"
  ce_observation_id :: "live_observation \<Rightarrow> int"
  ce_limit :: nat

abbreviation StrategyComparisonError :: py_exn where
  "StrategyComparisonError \<equiv> OtherException ''StrategyComparisonError''"

section \<open>Evidence\<close>

record supplement =
  su_policy :: comparison_policy
  su_start :: usec
  su_end :: usec
  su_complete :: bool
  su_expected_hash :: "string option"
  su_reference_candles :: "candle_point list"
  su_observed_candles :: "candle_point list"
  su_executions :: "execution_point list"
  su_positions :: "position_point list"
  su_performance :: "performance_point option"
  su_source :: json_dict

definition make_supplement :: "pydatetime \<Rightarrow> pydatetime \<Rightarrow> supplement \<Rightarrow> py_exn + supplement" where
  "make_supplement start stop s =
     and_then (require (sha256_pattern_opt (su_expected_hash s))) (\<lambda>_.
     and_then (canonical_dict (su_source s)) (\<lambda>src.
     and_then (require (is_aware start \<and> is_aware stop)) (\<lambda>_.
     and_then (require (utc start < utc stop)) (\<lambda>_.
       Inr (s\<lparr>su_start := utc start, su_end := utc stop, su_source := src\<rparr>)))))"

definition in_window :: "supplement \<Rightarrow> usec \<Rightarrow> bool" where
  "in_window s t \<longleftrightarrow> su_start s \<le> t \<and> t \<le> su_end s"

definition bounded_rows :: "nat \<Rightarrow> 'a list \<Rightarrow> py_exn + 'a list" where
  "bounded_rows limit rows =
     (let fetched = take (limit + 1) rows in if limit < length fetched then Inl StrategyComparisonError else Inr fetched)"

fun direction_position :: "signal_direction \<Rightarrow> position_state" where
  "direction_position DIR_LONG = POS_LONG"
| "direction_position DIR_SHORT = POS_SHORT"
| "direction_position DIR_FLAT = POS_FLAT"

definition backtest_source :: "string \<Rightarrow> int \<Rightarrow> string" where
  "backtest_source i n = ''backtest:'' @ i @ '':'' @ nat_digits (nat n)"

definition backtest_signal_points ::
  "comparison_env \<Rightarrow> string \<Rightarrow> supplement \<Rightarrow> backtest_db \<Rightarrow> py_exn + signal_point list" where
  "backtest_signal_points env i s db =
     and_then (bounded_rows (ce_limit env)
         (sort_key (\<lambda>r. (bs_time r, bs_sequence r)) (filter (\<lambda>r. in_window s (bs_time r)) (of_run i (bt_signals db))))) (\<lambda>rows.
       all_or_error (map (\<lambda>r. make_signal_point (Aware (bs_time r) 0)
         \<lparr>sp_asset = bs_asset r, sp_event = bs_type r, sp_time = bs_time r, sp_signal = bs_signal r,
          sp_position = map_option direction_position (bs_position r), sp_source = Some (backtest_source i (bs_sequence r))\<rparr>) rows))"

definition live_event_points ::
  "comparison_env \<Rightarrow> int \<Rightarrow> supplement \<Rightarrow> live_db \<Rightarrow> py_exn + signal_point list" where
  "live_event_points env act s db =
     and_then (bounded_rows (ce_limit env)
         (sort_key (\<lambda>e. (ve_time e, ce_event_id env e))
           (filter (\<lambda>e. ve_activation e = act \<and> in_window s (ve_time e)) (ld_events db)))) (\<lambda>rows.
       all_or_error (map (\<lambda>e. make_signal_point (Aware (ve_time e) 0)
         \<lparr>sp_asset = ve_asset e, sp_event = ve_type e, sp_time = ve_time e, sp_signal = Some (ve_signal e),
          sp_position = Some (ve_position e), sp_source = Some (''live-event:'' @ uuid_text (ce_event_id env e))\<rparr>) rows))"

text \<open>
  \<open>_latest_observation_attempts\<close> joined with the observations: of each candle of the window the rows
  with the greatest attempt.
\<close>

definition latest_observations :: "int \<Rightarrow> supplement \<Rightarrow> live_db \<Rightarrow> live_observation list" where
  "latest_observations act s db =
     (let window = filter (\<lambda>ob. ob_activation ob = act \<and> in_window s (ob_time ob)) (ld_observations db)
      in filter (\<lambda>ob. list_all (\<lambda>x. ob_asset x = ob_asset ob \<and> ob_time x = ob_time ob \<longrightarrow> ob_attempt x \<le> ob_attempt ob) window) window)"

definition live_issues ::
  "comparison_env \<Rightarrow> int \<Rightarrow> supplement \<Rightarrow> live_db \<Rightarrow> py_exn + live_observation list" where
  "live_issues env act s db =
     bounded_rows (ce_limit env) (sort_key (\<lambda>ob. (ob_time ob, ce_observation_id env ob))
       (filter (\<lambda>ob. ob_status ob \<noteq> EVALUATED) (latest_observations act s db)))"

fun status_value :: "evaluation_status \<Rightarrow> string" where
  "status_value EVALUATED = ''evaluated''" | "status_value DUPLICATE = ''duplicate''"
| "status_value OUT_OF_ORDER = ''out_of_order''" | "status_value GAP_DETECTED = ''gap_detected''"
| "status_value EVAL_INVALID = ''invalid''" | "status_value EVAL_ERROR = ''error''"

definition issue_of ::
  "comparison_env \<Rightarrow> live_observation \<Rightarrow> divergence_type \<Rightarrow> string \<Rightarrow> py_exn + data_issue option" where
  "issue_of env ob d text =
     map_sum id Some (make_data_issue (Aware (ob_time ob) 0)
       \<lparr>di_type = d, di_time = ob_time ob, di_asset = Some (ob_asset ob),
        di_observed = [(''observation_id'', PStr (uuid_text (ce_observation_id env ob))), (''status'', PStr (status_value (ob_status ob))),
          (''error_code'', opt_value PStr (ob_code ob)), (''error_message'', opt_value PStr (ob_message ob)),
          (''asset_id'', PInt (ob_asset ob))],
        di_explanation = text\<rparr>)"

definition issue_from_observation :: "comparison_env \<Rightarrow> live_observation \<Rightarrow> py_exn + data_issue option" where
  "issue_from_observation env ob =
     (if ob_status ob = GAP_DETECTED then issue_of env ob MARKET_DATA_MISSING_CANDLE
        ''Live evaluator detected a missing canonical candle; comparison remains incomplete.''
      else if ob_status ob = EVAL_INVALID \<and> ob_code ob = Some ''timestamp_not_aligned'' then issue_of env ob MARKET_DATA_TIMESTAMP_MISMATCH
        ''Live evaluator rejected a canonical candle timestamp as misaligned.''
      else if ob_status ob \<in> {EVAL_INVALID, EVAL_ERROR} then issue_of env ob EVALUATOR_FAILURE
        ''Live evaluator recorded an invalid/error outcome; no causal attribution is made.''
      else Inr None)"

definition some_values :: "'a option list \<Rightarrow> 'a list" where
  "some_values xs = concat (map (\<lambda>x. case x of None \<Rightarrow> [] | Some v \<Rightarrow> [v]) xs)"

definition trade_points :: "string \<Rightarrow> supplement \<Rightarrow> backtest_trade \<Rightarrow> (py_exn + execution_point) list" where
  "trade_points i s t =
     (let point = (\<lambda>side moment price sid. make_execution_point (Aware moment 0)
            \<lparr>xp_asset = tr_asset t, xp_side = side, xp_direction = tr_direction t, xp_time = moment, xp_price = price,
             xp_quantity = tr_quantity t, xp_fees = None, xp_slippage = None, xp_signal = sid,
             xp_source = Some (backtest_source i (tr_sequence t) @ '':'' @ role_value side)\<rparr>)
      in (if in_window s (tr_entry_time t) then [point ROLE_ENTRY (tr_entry_time t) (tr_entry_price t) (tr_entry_signal t)] else [])
       @ (if in_window s (tr_exit_time t) then [point ROLE_EXIT (tr_exit_time t) (tr_exit_price t) (tr_exit_signal t)] else []))"

definition backtest_executions ::
  "comparison_env \<Rightarrow> string \<Rightarrow> supplement \<Rightarrow> backtest_db \<Rightarrow> py_exn + execution_point list" where
  "backtest_executions env i s db =
     and_then (bounded_rows (ce_limit env)
         (sort_key tr_sequence (filter (\<lambda>t. in_window s (tr_entry_time t) \<or> in_window s (tr_exit_time t)) (of_run i (bt_trades db))))) (\<lambda>rows.
       all_or_error (concat (map (trade_points i s) rows)))"

definition observed_coverage_complete :: "int \<Rightarrow> supplement \<Rightarrow> live_db \<Rightarrow> bool" where
  "observed_coverage_complete act s db =
     (let states = filter (\<lambda>x. ls_activation x = act) (ld_states db);
          observed = map ob_asset (filter (\<lambda>ob. ob_status ob = EVALUATED) (latest_observations act s db))
      in states \<noteq> []
         \<and> list_all (\<lambda>x. case ls_last_candle x of None \<Rightarrow> False | Some t \<Rightarrow> su_end s \<le> t) states
         \<and> set (map ls_asset states) \<subseteq> set observed)"

definition activation_identity :: "live_activation \<Rightarrow> version_identity" where
  "activation_identity a =
     \<lparr>vi_strategy = la_strategy a, vi_version = la_version a, vi_number = la_version_number a, vi_hash = la_hash a\<rparr>"

definition backtest_identity :: "backtest_row \<Rightarrow> version_identity" where
  "backtest_identity r =
     \<lparr>vi_strategy = br_strategy r, vi_version = br_version r, vi_number = br_number r, vi_hash = br_definition_hash r\<rparr>"

definition reference_performance :: "backtest_row \<Rightarrow> py_exn + performance_point" where
  "reference_performance r =
     (let m = br_metrics r in
      make_performance_point \<lparr>pf_return = bm_return m, pf_drawdown = bm_drawdown m, pf_volatility = bm_volatility m,
        pf_trades = Some (bm_trades m), pf_winning = Some (bm_winning m), pf_benchmark = bm_benchmark m\<rparr>)"

definition signal_position :: "signal_point \<Rightarrow> position_state \<Rightarrow> py_exn + position_point" where
  "signal_position p state = make_position_point (Aware (sp_time p) 0)
     \<lparr>pp_asset = sp_asset p, pp_time = sp_time p, pp_state = state, pp_exposure = None\<rparr>"

definition expected_position_points :: "signal_point list \<Rightarrow> py_exn + position_point list" where
  "expected_position_points ps =
     all_or_error (concat (map (\<lambda>p. case sp_position p of None \<Rightarrow> [] | Some q \<Rightarrow> [signal_position p q]) ps))"

definition observed_position_points :: "supplement \<Rightarrow> signal_point list \<Rightarrow> py_exn + position_point list" where
  "observed_position_points s ps =
     (if su_positions s \<noteq> [] then Inr (su_positions s)
      else expected_position_points (filter (\<lambda>p. sp_event p \<in> {EVENT_ENTRY, EVENT_EXIT}) ps))"

text \<open>\<open>_build_input\<close>: the reference side is never complete, the observed side only by durable state.\<close>

definition build_input ::
  "comparison_env \<Rightarrow> live_activation \<Rightarrow> backtest_row \<Rightarrow> supplement \<Rightarrow> comparison_db \<Rightarrow> py_exn + comparison_input" where
  "build_input env a r s db =
     and_then (backtest_signal_points env (br_run r) s (cm_backtests db)) (\<lambda>expected.
     and_then (live_event_points env (la_id a) s (cm_live db)) (\<lambda>observed.
     and_then (live_issues env (la_id a) s (cm_live db)) (\<lambda>rows.
     and_then (all_or_error (map (issue_from_observation env) rows)) (\<lambda>found.
     and_then (expected_position_points expected) (\<lambda>expected_positions.
     and_then (observed_position_points s observed) (\<lambda>observed_positions.
     and_then (backtest_executions env (br_run r) s (cm_backtests db)) (\<lambda>executions.
     and_then (if su_start s = br_start r \<and> su_end s = br_end r then map_sum id Some (reference_performance r) else Inr None) (\<lambda>performance.
       make_comparison_input (Aware (su_start s) 0) (Aware (su_end s) 0)
         \<lparr>ci_strategy = activation_identity a, ci_reference = backtest_identity r, ci_policy = su_policy s,
          ci_start = su_start s, ci_end = su_end s,
          ci_reference_source = [(''backtest_run_id'', PStr (br_run r)), (''result_hash'', PStr (br_hash r)),
             (''data_source'', PStr (dr_source (br_data r))), (''data_version'', PStr (dr_version (br_data r))),
             (''data_coverage_fingerprint'', opt_value PStr (dr_coverage (br_data r)))],
          ci_observed_source = AList.updates (map fst (su_source s)) (map snd (su_source s))
             [(''activation_id'', PStr (uuid_text (la_id a))), (''configuration_hash'', PStr (la_configuration_hash a))],
          ci_reference_complete = False,
          ci_observed_complete = (su_complete s \<and> some_values found = [] \<and> observed_coverage_complete (la_id a) s (cm_live db)),
          ci_expected_hash = su_expected_hash s, ci_observed_hash = Some (la_configuration_hash a),
          ci_expected_signals = expected, ci_observed_signals = observed,
          ci_expected_candles = su_reference_candles s, ci_observed_candles = su_observed_candles s,
          ci_expected_executions = executions, ci_observed_executions = su_executions s,
          ci_expected_positions = expected_positions, ci_observed_positions = observed_positions,
          ci_expected_performance = performance, ci_observed_performance = su_performance s,
          ci_issues = some_values found\<rparr>))))))))"

section \<open>The service\<close>

definition input_dump :: "(usec \<Rightarrow> string) \<Rightarrow> comparison_input \<Rightarrow> pyval" where
  "input_dump tt i =
     PDict [(''strategy'', identity_dump (ci_strategy i)), (''reference_strategy'', identity_dump (ci_reference i)),
       (''policy'', comparison_policy_dump (ci_policy i)), (''window_start'', PStr (tt (ci_start i))),
       (''window_end'', PStr (tt (ci_end i))), (''reference_source'', PDict (ci_reference_source i)),
       (''observed_source'', PDict (ci_observed_source i)), (''reference_complete'', PBool (ci_reference_complete i)),
       (''observed_complete'', PBool (ci_observed_complete i)),
       (''expected_configuration_hash'', opt_value PStr (ci_expected_hash i)),
       (''observed_configuration_hash'', opt_value PStr (ci_observed_hash i)),
       (''expected_signals'', PList (map (signal_dump tt) (ci_expected_signals i))),
       (''observed_signals'', PList (map (signal_dump tt) (ci_observed_signals i))),
       (''expected_candles'', PList (map (candle_dump tt) (ci_expected_candles i))),
       (''observed_candles'', PList (map (candle_dump tt) (ci_observed_candles i))),
       (''expected_executions'', PList (map (execution_dump tt) (ci_expected_executions i))),
       (''observed_executions'', PList (map (execution_dump tt) (ci_observed_executions i))),
       (''expected_positions'', PList (map (position_dump tt) (ci_expected_positions i))),
       (''observed_positions'', PList (map (position_dump tt) (ci_observed_positions i))),
       (''expected_performance'', opt_value performance_dump (ci_expected_performance i)),
       (''observed_performance'', opt_value performance_dump (ci_observed_performance i)),
       (''observed_data_issues'', PList (map (\<lambda>d. PDict [(''divergence_type'', PStr (divergence_value (di_type d))),
          (''timestamp'', PStr (tt (di_time d))), (''asset_id'', opt_value PInt (di_asset d)),
          (''observed'', PDict (di_observed d)), (''explanation'', PStr (di_explanation d))]) (ci_issues i)))]"

definition comparison_run_id :: "comparison_env \<Rightarrow> live_activation \<Rightarrow> backtest_row \<Rightarrow> comparison_input \<Rightarrow> string" where
  "comparison_run_id env a r i =
     hash_payload (PDict [(''activation_id'', PStr (uuid_text (la_id a))), (''reference_run_id'', PStr (br_run r)),
       (''reference_result_hash'', PStr (br_hash r)), (''comparison'', input_dump (ce_text env) i)])"

text \<open>
  \<open>expected.get("asset_id") or observed.get("asset_id")\<close>, and what the nullable integer column takes:
  \<open>None\<close> for a value it rejects.
\<close>

fun truthy :: "pyval \<Rightarrow> bool" where
  "truthy PNone = False"
| "truthy (PBool b) = b"
| "truthy (PInt i) = (i \<noteq> 0)"
| "truthy (PFloat x) = (x \<noteq> Fin 0)"
| "truthy (PStr s) = (s \<noteq> [])"
| "truthy (PList xs) = (xs \<noteq> [])"
| "truthy (PTuple xs) = (xs \<noteq> [])"
| "truthy (PDict d) = (d \<noteq> [])"
| "truthy _ = True"

fun dict_get :: "string \<Rightarrow> pyval \<Rightarrow> pyval" where
  "dict_get k (PDict d) = (case map_of d k of None \<Rightarrow> PNone | Some v \<Rightarrow> v)"
| "dict_get k _ = PNone"

fun integer_column :: "pyval \<Rightarrow> int option option" where
  "integer_column PNone = Some None"
| "integer_column (PBool b) = Some (Some (if b then 1 else 0))"
| "integer_column (PInt i) = (if int32 i then Some (Some i) else None)"
| "integer_column _ = None"

definition finding_asset :: "divergence_finding \<Rightarrow> int option option" where
  "finding_asset f =
     (let e = dict_get ''asset_id'' (df_expected f)
      in integer_column (if truthy e then e else dict_get ''asset_id'' (df_observed f)))"

definition finding_model :: "comparison_env \<Rightarrow> string \<Rightarrow> divergence_finding \<Rightarrow> py_exn + finding_row" where
  "finding_model env i f =
     (case finding_asset f of
        None \<Rightarrow> Inl DataError
      | Some a \<Rightarrow> Inr \<lparr>fr_run = i, fr_fingerprint = fingerprint (ce_text env) f, fr_asset = a, fr_finding = f\<rparr>)"

definition existing_comparison :: "string \<Rightarrow> comparison_db \<Rightarrow> comparison_run option" where
  "existing_comparison i db = find (\<lambda>r. rn_id r = i) (cm_runs db)"

definition build_run ::
  "live_activation \<Rightarrow> backtest_row \<Rightarrow> comparison_input \<Rightarrow> string \<Rightarrow> comparison_status \<Rightarrow> comparison_run" where
  "build_run a r i k status =
     \<lparr>rn_id = k, rn_strategy = activation_identity a, rn_activation = la_id a, rn_reference = br_run r,
      rn_reference_hash = br_hash r, rn_policy_id = cy_id (ci_policy i), rn_policy_revision = cy_revision (ci_policy i),
      rn_policy_hash = comparison_policy_hash (ci_policy i), rn_policy = comparison_policy_dump (ci_policy i),
      rn_reference_source = ci_reference_source i, rn_observed_source = ci_observed_source i,
      rn_start = ci_start i, rn_end = ci_end i, rn_status = status\<rparr>"

text \<open>The flush behind the savepoint: first the run, then its findings.\<close>

definition insert_comparison ::
  "comparison_env \<Rightarrow> comparison_run \<Rightarrow> divergence_finding list \<Rightarrow> comparison_db \<Rightarrow> py_exn + comparison_db" where
  "insert_comparison env run fs db =
     (if existing_comparison (rn_id run) db \<noteq> None then Inl IntegrityError
      else and_then (all_or_error (map (finding_model env (rn_id run)) fs)) (\<lambda>rows.
        if list_all (\<lambda>f. pred_option (\<lambda>a. a \<in> set (bt_assets (cm_backtests db))) (fr_asset f)) rows
        then Inr (db\<lparr>cm_runs := cm_runs db @ [run], cm_findings := cm_findings db @ rows\<rparr>)
        else Inl IntegrityError))"

text \<open>\<open>_persist_loaded\<close>: \<open>others\<close> is what other transactions commit before the insertion.\<close>

definition persist_loaded ::
  "comparison_env \<Rightarrow> live_activation \<Rightarrow> backtest_row \<Rightarrow> comparison_input \<Rightarrow> (comparison_db \<Rightarrow> comparison_db) \<Rightarrow>
   comparison_db \<Rightarrow> (py_exn + comparison_run) \<times> comparison_db" where
  "persist_loaded env a r i others db =
     (case compare_evidence (ce_text env) i of
        Inl e \<Rightarrow> (Inl e, db)
      | Inr (status, fs) \<Rightarrow>
          let k = comparison_run_id env a r i; run = build_run a r i k status
          in case existing_comparison k db of
               Some x \<Rightarrow> (Inr x, db)
             | None \<Rightarrow>
                 (case insert_comparison env run fs (others db) of
                    Inr db' \<Rightarrow> (Inr run, db')
                  | Inl e \<Rightarrow>
                      if e \<noteq> IntegrityError then (Inl e, others db)
                      else case existing_comparison k (others db) of
                             None \<Rightarrow> (Inl IntegrityError, others db)
                           | Some x \<Rightarrow> (Inr x, others db)))"

definition load_pair :: "int \<Rightarrow> string \<Rightarrow> comparison_db \<Rightarrow> py_exn + live_activation \<times> backtest_row" where
  "load_pair act ref db =
     (case find (\<lambda>a. la_id a = act) (ld_activations (cm_live db)) of
        None \<Rightarrow> Inl StrategyComparisonError
      | Some a \<Rightarrow>
          (case find (\<lambda>r. br_run r = ref) (bt_results (cm_backtests db)) of
             None \<Rightarrow> Inl StrategyComparisonError
           | Some r \<Rightarrow> if la_strategy a \<noteq> br_strategy r then Inl StrategyComparisonError else Inr (a, r)))"

definition compare_activation ::
  "comparison_env \<Rightarrow> int \<Rightarrow> string \<Rightarrow> supplement \<Rightarrow> (comparison_db \<Rightarrow> comparison_db) \<Rightarrow>
   comparison_db \<Rightarrow> (py_exn + comparison_run) \<times> comparison_db" where
  "compare_activation env act ref s others db =
     (case load_pair act ref db of
        Inl e \<Rightarrow> (Inl e, db)
      | Inr (a, r) \<Rightarrow>
          (case build_input env a r s db of
             Inl e \<Rightarrow> (Inl e, db)
           | Inr i \<Rightarrow> persist_loaded env a r i others db))"

definition persist_comparison ::
  "comparison_env \<Rightarrow> int \<Rightarrow> string \<Rightarrow> comparison_input \<Rightarrow> (comparison_db \<Rightarrow> comparison_db) \<Rightarrow>
   comparison_db \<Rightarrow> (py_exn + comparison_run) \<times> comparison_db" where
  "persist_comparison env act ref i others db =
     (case load_pair act ref db of
        Inl e \<Rightarrow> (Inl e, db)
      | Inr (a, r) \<Rightarrow>
          if ci_strategy i \<noteq> activation_identity a then (Inl StrategyComparisonError, db)
          else if ci_reference i \<noteq> backtest_identity r then (Inl StrategyComparisonError, db)
          else if ci_reference_complete i \<or> ci_observed_complete i then (Inl StrategyComparisonError, db)
          else persist_loaded env a r i others db)"

end
