(* ===== verification/Comparison_Results.thy ===== *)
theory Comparison_Results
  imports Strategy_Comparison
begin

text \<open>
  What the comparison tables promise over any history of racing transactions: runs are immutable and
  never healthy, comparing again returns the stored run, and completeness of the observed side rests
  on durable state.
\<close>

section \<open>The tables over time\<close>

text \<open>Transactions of all processes; live evaluation and backtests go on beside them.\<close>

inductive comparison_later :: "comparison_env \<Rightarrow> comparison_db \<Rightarrow> comparison_db \<Rightarrow> bool" for env where
  nothing_done: "comparison_later env db db"
| evidence_changed: "comparison_later env db0 db \<Longrightarrow> comparison_later env db0 (db\<lparr>cm_live := l, cm_backtests := b\<rparr>)"
| compared: "comparison_later env db0 db \<Longrightarrow> comparison_later env db (others db) \<Longrightarrow>
     comparison_later env db0 (snd (compare_activation env act ref s others db))"
| caller_persisted: "comparison_later env db0 db \<Longrightarrow> comparison_later env db (others db) \<Longrightarrow>
     comparison_later env db0 (snd (persist_comparison env act ref i others db))"

definition run_findings :: "string \<Rightarrow> comparison_db \<Rightarrow> finding_row list" where
  "run_findings k db = filter (\<lambda>f. fr_run f = k) (cm_findings db)"

definition comparison_ok :: "comparison_db \<Rightarrow> bool" where
  "comparison_ok db \<longleftrightarrow>
     distinct (map rn_id (cm_runs db))
     \<and> distinct (map (\<lambda>f. (fr_run f, fr_fingerprint f)) (cm_findings db))
     \<and> fr_run ` set (cm_findings db) \<subseteq> rn_id ` set (cm_runs db)
     \<and> (\<forall>r \<in> set (cm_runs db). rn_status r \<noteq> CMP_HEALTHY \<and> run_findings (rn_id r) db \<noteq> []
          \<and> (rn_status r = CMP_INSUFFICIENT_REFERENCE \<longleftrightarrow>
              (\<exists>f \<in> set (run_findings (rn_id r) db). df_type (fr_finding f) = INSUFFICIENT_REFERENCE_DATA)))"

definition comparison_extends :: "comparison_db \<Rightarrow> comparison_db \<Rightarrow> bool" where
  "comparison_extends db db' \<longleftrightarrow> prefix (cm_runs db) (cm_runs db') \<and> prefix (cm_findings db) (cm_findings db')"

lemma comparison_extends_refl [simp]: "comparison_extends db db"
  by (simp add: comparison_extends_def)

lemma comparison_extends_trans: "comparison_extends a b \<Longrightarrow> comparison_extends b c \<Longrightarrow> comparison_extends a c"
  by (auto simp: comparison_extends_def intro: prefix_order.trans)

lemma existing_comparison_None: "existing_comparison k db = None \<longleftrightarrow> k \<notin> rn_id ` set (cm_runs db)"
  by (auto simp: existing_comparison_def find_None_iff)

lemma existing_comparison_Some: "existing_comparison k db = Some r \<Longrightarrow> r \<in> set (cm_runs db) \<and> rn_id r = k"
  by (auto simp: existing_comparison_def find_Some_iff)

lemma finding_models:
  assumes "all_or_error (map (finding_model env k) fs) = Inr rows"
  shows "map fr_finding rows = fs \<and> list_all (\<lambda>r. fr_run r = k \<and> fr_fingerprint r = fingerprint (ce_text env) (fr_finding r)) rows"
  using assms
proof (induction fs arbitrary: rows)
  case Nil
  then show ?case by simp
next
  case (Cons f fs)
  then obtain r rest where r: "finding_model env k f = Inr r" "all_or_error (map (finding_model env k) fs) = Inr rest" "rows = r # rest"
    by (cases "finding_model env k f") (auto split: sum.splits)
  then have "fr_finding r = f" "fr_run r = k" "fr_fingerprint r = fingerprint (ce_text env) f"
    by (auto simp: finding_model_def split: option.splits)
  then show ?case using Cons.IH [OF r(2)] r(3) by simp
qed

lemma insert_comparison_ok:
  assumes ok: "comparison_ok db" and i: "\<not> ci_reference_complete i"
    and c: "compare_evidence (ce_text env) i = Inr (status, fs)"
    and run: "rn_status run = status" and ins: "insert_comparison env run fs db = Inr db'"
  shows "comparison_ok db' \<and> comparison_extends db db'"
proof -
  obtain rows where rows: "all_or_error (map (finding_model env (rn_id run)) fs) = Inr rows"
    and db': "db' = db\<lparr>cm_runs := cm_runs db @ [run], cm_findings := cm_findings db @ rows\<rparr>"
    and new: "rn_id run \<notin> rn_id ` set (cm_runs db)"
    using ins existing_comparison_None by (auto simp: insert_comparison_def and_then_Inr split: if_splits)
  obtain raw where raw: "all_findings (ce_text env) i = Inr raw"
    using c by (auto simp: compare_evidence_def split: sum.splits)
  note e = compare_evidence_findings [OF c raw]
  note r = finding_models [OF rows]
  have "coverage_findings i \<noteq> []" using i by (simp add: coverage_findings_def Let_def)
  then have "raw \<noteq> []" using raw by (auto simp: all_findings_def split: sum.splits)
  then have fs: "fs \<noteq> []" using e(4) by (metis image_is_empty set_empty)
  then have ne: "rows \<noteq> []" using r by auto
  have st: "status \<noteq> CMP_HEALTHY" using e(3) fs by (simp add: result_status_def)
  have old: "run_findings k db' = run_findings k db" if "k \<noteq> rn_id run" for k
    using r that by (auto simp: run_findings_def db' filter_empty_conv list_all_iff)
  have sub: "fr_run ` set (cm_findings db) \<subseteq> rn_id ` set (cm_runs db)" using ok by (simp add: comparison_ok_def)
  have apart: "fr_run f \<noteq> rn_id run" if "f \<in> set (cm_findings db)" for f
  proof -
    have "fr_run f \<in> rn_id ` set (cm_runs db)" using that sub by blast
    then show ?thesis using new by metis
  qed
  then have none: "run_findings (rn_id run) db = []"
    by (simp add: run_findings_def filter_empty_conv)
  have own: "run_findings (rn_id run) db' = rows"
    using r none by (simp add: run_findings_def db' list_all_iff filter_True)
  have "distinct (map fr_fingerprint rows)"
  proof -
    have "map fr_fingerprint rows = map (fingerprint (ce_text env)) (map fr_finding rows)"
      using conjunct2 [OF r] by (simp add: list_all_iff)
    then show ?thesis using conjunct1 [OF r] e(1) by simp
  qed
  then have d: "distinct (map (\<lambda>f. (fr_run f, fr_fingerprint f)) rows)"
    by (simp add: distinct_map inj_on_def)
  have insufficient: "status = CMP_INSUFFICIENT_REFERENCE \<longleftrightarrow> (\<exists>f \<in> set rows. df_type (fr_finding f) = INSUFFICIENT_REFERENCE_DATA)"
  proof -
    have "set fs = fr_finding ` set rows" using r by (metis set_map)
    then show ?thesis unfolding e(3) insufficient_status by simp
  qed
  have "distinct (map rn_id (cm_runs db'))" using ok new by (auto simp: comparison_ok_def db')
  moreover have "distinct (map (\<lambda>f. (fr_run f, fr_fingerprint f)) (cm_findings db'))"
    using ok d r apart by (auto simp: comparison_ok_def db' list_all_iff)
  moreover have "fr_run ` set (cm_findings db') \<subseteq> rn_id ` set (cm_runs db')"
    using ok r by (auto simp: comparison_ok_def db' list_all_iff)
  moreover have "rn_status x \<noteq> CMP_HEALTHY \<and> run_findings (rn_id x) db' \<noteq> []
          \<and> (rn_status x = CMP_INSUFFICIENT_REFERENCE \<longleftrightarrow>
              (\<exists>f \<in> set (run_findings (rn_id x) db'). df_type (fr_finding f) = INSUFFICIENT_REFERENCE_DATA))"
    if "x \<in> set (cm_runs db')" for x
  proof (cases "x = run")
    case True
    then show ?thesis using st run insufficient ne own by simp
  next
    case False
    then have x: "x \<in> set (cm_runs db)" using that by (simp add: db')
    then have "rn_id x \<noteq> rn_id run" using new by (metis imageI)
    then show ?thesis using ok x old by (simp add: comparison_ok_def)
  qed
  ultimately show ?thesis by (simp add: comparison_ok_def comparison_extends_def) (simp add: db')
qed

lemma persist_loaded_ok:
  assumes ok: "comparison_ok db" and oth: "comparison_ok (others db)" "comparison_extends db (others db)"
    and i: "\<not> ci_reference_complete i"
  shows "comparison_ok (snd (persist_loaded env a r i others db))
    \<and> comparison_extends db (snd (persist_loaded env a r i others db))"
proof (cases "compare_evidence (ce_text env) i")
  case (Inl e)
  then show ?thesis using ok by (simp add: persist_loaded_def)
next
  case (Inr x)
  then obtain status fs where c: "compare_evidence (ce_text env) i = Inr (status, fs)" by (cases x) simp
  let ?run = "build_run a r i (comparison_run_id env a r i) status"
  show ?thesis
  proof (cases "insert_comparison env ?run fs (others db)")
    case (Inl e)
    then show ?thesis using ok oth c by (simp add: persist_loaded_def Let_def split: option.split)
  next
    case (Inr db')
    have "comparison_ok db' \<and> comparison_extends (others db) db'"
      by (rule insert_comparison_ok [OF oth(1) i c _ Inr]) (simp add: build_run_def)
    then show ?thesis
      using ok c Inr comparison_extends_trans [OF oth(2)] by (simp add: persist_loaded_def Let_def split: option.split)
  qed
qed

lemma comparison_ok_evidence: "comparison_ok (db\<lparr>cm_live := l, cm_backtests := b\<rparr>) = comparison_ok db"
  unfolding comparison_ok_def run_findings_def by simp

lemma comparison_extends_evidence: "comparison_extends db0 (db\<lparr>cm_live := l, cm_backtests := b\<rparr>) = comparison_extends db0 db"
  unfolding comparison_extends_def by simp

lemma make_comparison_flags:
  assumes "make_comparison_input start stop i = Inr j"
  shows "ci_reference_complete j = ci_reference_complete i \<and> ci_observed_complete j = ci_observed_complete i"
  using assms by (auto simp: make_comparison_input_def split: sum.splits if_splits)

lemma build_input_never_complete:
  assumes "build_input env a r s db = Inr i"
  shows "\<not> ci_reference_complete i"
  using assms unfolding build_input_def and_then_Inr
  by (elim exE conjE) (drule make_comparison_flags [THEN conjunct1], simp only: comparison_input.select_convs not_False_eq_True)

lemma comparison_later_ok:
  assumes "comparison_later env db0 db"
  shows "comparison_ok db0 \<Longrightarrow> comparison_ok db \<and> comparison_extends db0 db"
  using assms
proof (induction rule: comparison_later.induct)
  case (nothing_done db)
  then show ?case by simp
next
  case (evidence_changed db0 db l b)
  then show ?case by (simp only: comparison_ok_evidence comparison_extends_evidence)
next
  case (compared db0 db others act ref s)
  then have db: "comparison_ok db" "comparison_extends db0 db" and oth: "comparison_ok (others db)" "comparison_extends db (others db)"
    by simp_all
  have "comparison_ok (snd (compare_activation env act ref s others db))
      \<and> comparison_extends db (snd (compare_activation env act ref s others db))"
  proof (cases "\<exists>a r i. load_pair act ref db = Inr (a, r) \<and> build_input env a r s db = Inr i")
    case False
    then show ?thesis using db by (auto simp: compare_activation_def split: sum.split)
  next
    case True
    then obtain a r i where l: "load_pair act ref db = Inr (a, r)" "build_input env a r s db = Inr i" by blast
    have "\<not> ci_reference_complete i" by (rule build_input_never_complete [OF l(2)])
    from persist_loaded_ok [where others = others, OF db(1) oth this] l show ?thesis by (simp add: compare_activation_def)
  qed
  then show ?case using comparison_extends_trans [OF db(2)] by blast
next
  case (caller_persisted db0 db others act ref i)
  then have db: "comparison_ok db" "comparison_extends db0 db" and oth: "comparison_ok (others db)" "comparison_extends db (others db)"
    by simp_all
  have "comparison_ok (snd (persist_comparison env act ref i others db))
      \<and> comparison_extends db (snd (persist_comparison env act ref i others db))"
  proof (cases "ci_reference_complete i")
    case True
    then show ?thesis using db by (auto simp: persist_comparison_def split: sum.split)
  next
    case False
    from persist_loaded_ok [where others = others, OF db(1) oth this] db show ?thesis
      by (auto simp: persist_comparison_def split: sum.split)
  qed
  then show ?case using comparison_extends_trans [OF db(2)] by blast
qed

section \<open>What the tables promise\<close>

text \<open>
  C10: No healthy result is ever minted: whatever callers supply and whatever is persisted by whatever
  racing transactions, every stored run is not healthy, has findings, is insufficient exactly when
  one of them says that reference data is missing, and is never changed; run ids and the
  fingerprints of a run are unique.
\<close>

theorem comparisons_never_claim_health:
  assumes "comparison_later env db0 db" and "comparison_ok db0"
  shows "comparison_extends db0 db \<and> distinct (map rn_id (cm_runs db))
    \<and> distinct (map (\<lambda>f. (fr_run f, fr_fingerprint f)) (cm_findings db))
    \<and> (\<forall>r \<in> set (cm_runs db). rn_status r \<noteq> CMP_HEALTHY \<and> run_findings (rn_id r) db \<noteq> []
        \<and> (rn_status r = CMP_INSUFFICIENT_REFERENCE \<longleftrightarrow>
            (\<exists>f \<in> set (run_findings (rn_id r) db). df_type (fr_finding f) = INSUFFICIENT_REFERENCE_DATA)))"
  using comparison_later_ok [OF assms] by (simp add: comparison_ok_def)

lemma compare_returns_stored:
  assumes "compare_activation env act ref s others db = (Inr run, db')"
  obtains a r i where "load_pair act ref db = Inr (a, r)" "build_input env a r s db = Inr i"
    "rn_id run = comparison_run_id env a r i" "run \<in> set (cm_runs db')" "\<exists>x. compare_evidence (ce_text env) i = Inr x"
proof (cases "load_pair act ref db")
  case (Inl e)
  then show ?thesis using assms by (simp add: compare_activation_def)
next
  case (Inr p)
  then obtain a r where l: "load_pair act ref db = Inr (a, r)" by (cases p) simp
  show ?thesis
  proof (cases "build_input env a r s db")
    case (Inl e)
    then show ?thesis using assms l by (simp add: compare_activation_def)
  next
    case (Inr i)
    have p: "persist_loaded env a r i others db = (Inr run, db')" using assms l Inr by (simp add: compare_activation_def)
    then obtain status fs where c: "compare_evidence (ce_text env) i = Inr (status, fs)"
      by (auto simp: persist_loaded_def split: sum.splits)
    let ?k = "comparison_run_id env a r i"
    let ?run = "build_run a r i ?k status"
    have "rn_id run = ?k \<and> run \<in> set (cm_runs db')"
    proof (cases "existing_comparison ?k db")
      case (Some x)
      then show ?thesis using p c existing_comparison_Some [OF Some] by (simp add: persist_loaded_def Let_def)
    next
      case None
      show ?thesis
      proof (cases "insert_comparison env ?run fs (others db)")
        case (Inr db2)
        then have "run = ?run" "db' = db2" using p c None by (simp_all add: persist_loaded_def Let_def)
        then show ?thesis using Inr by (auto simp: insert_comparison_def and_then_Inr build_run_def split: if_splits)
      next
        case (Inl e)
        then show ?thesis
          using p c None existing_comparison_Some [of ?k "others db"]
          by (auto simp: persist_loaded_def Let_def split: if_splits option.splits)
      qed
    qed
    then show ?thesis using that l Inr c by blast
  qed
qed

text \<open>
  C33: A comparison is repeatable: after it returned a run, comparing the same evidence again, at any
  later time, returns that run and writes nothing.
\<close>

theorem comparison_is_idempotent:
  assumes "comparison_ok db" and "comparison_later env db (others db)"
    and "compare_activation env act ref s others db = (Inr run, db')" and "comparison_later env db' later"
    and "load_pair act ref db = Inr (a, r)" and "load_pair act ref later = Inr (a, r)"
    and "build_input env a r s later = build_input env a r s db"
  shows "compare_activation env act ref s others' later = (Inr run, later)"
proof -
  obtain i where i: "build_input env a r s db = Inr i" "rn_id run = comparison_run_id env a r i" "run \<in> set (cm_runs db')"
      "\<exists>x. compare_evidence (ce_text env) i = Inr x"
  proof (rule compare_returns_stored [OF assms(3)])
    fix a' r' i
    assume "load_pair act ref db = Inr (a', r')" "build_input env a' r' s db = Inr i"
      "rn_id run = comparison_run_id env a' r' i" "run \<in> set (cm_runs db')" "\<exists>x. compare_evidence (ce_text env) i = Inr x"
    then show thesis using assms(5) by (intro that [of i]) simp_all
  qed
  have "comparison_later env db (snd (compare_activation env act ref s others db))"
    using comparison_later.nothing_done assms(2) by (rule comparison_later.compared)
  then have ok': "comparison_ok db'" using comparison_later_ok assms(1,3) by fastforce
  note l = comparison_later_ok [OF assms(4) ok']
  have "run \<in> set (cm_runs later)" using l i(3) by (auto simp: comparison_extends_def dest: set_mono_prefix)
  moreover have "distinct (map rn_id (cm_runs later))" using l by (simp add: comparison_ok_def)
  ultimately have "existing_comparison (rn_id run) later = Some run"
    unfolding existing_comparison_def by (intro find_distinct) simp_all
  then show ?thesis
    using assms(6,7) i(1,2,4) by (auto simp: compare_activation_def persist_loaded_def Let_def)
qed

lemma bounded_rows_Inr: "bounded_rows n xs = Inr ys \<Longrightarrow> ys = xs"
  by (auto simp: bounded_rows_def Let_def split: if_splits)

lemma all_or_error_nth: "all_or_error (map f xs) = Inr ys \<Longrightarrow> list_all2 (\<lambda>x y. f x = Inr y) xs ys"
  using all_or_error_Inr [of "map f xs" ys] by (auto simp: list_all2_conv_all_nth list_eq_iff_nth_eq)

lemma issue_from_observation_None:
  "issue_from_observation env ob = Inr None \<Longrightarrow> ob_status ob \<in> {EVALUATED, DUPLICATE, OUT_OF_ORDER}"
  by (cases "ob_status ob") (auto simp: issue_from_observation_def issue_of_def map_sum_Inr split: if_splits)

text \<open>
  The observed side counts as complete only when the durable state says so: every asset of the
  activation has been evaluated up to the end of the window and has an evaluated candle in it, and no
  candle of the window has a gap or a failure as its latest outcome, whatever the caller claims.
\<close>

theorem observed_complete_is_durable:
  assumes "build_input env a r s db = Inr i" and "ci_observed_complete i"
  shows "su_complete s
    \<and> (\<forall>x \<in> set (ld_states (cm_live db)). ls_activation x = la_id a \<longrightarrow>
         (\<exists>t. ls_last_candle x = Some t \<and> su_end s \<le> t)
         \<and> (\<exists>ob \<in> set (latest_observations (la_id a) s (cm_live db)). ob_asset ob = ls_asset x \<and> ob_status ob = EVALUATED))
    \<and> (\<forall>ob \<in> set (latest_observations (la_id a) s (cm_live db)). ob_status ob \<notin> {GAP_DETECTED, EVAL_INVALID, EVAL_ERROR})"
proof -
  obtain rows found where rows: "live_issues env (la_id a) s (cm_live db) = Inr rows"
    and found: "all_or_error (map (issue_from_observation env) rows) = Inr found"
    and flags: "su_complete s" "some_values found = []" "observed_coverage_complete (la_id a) s (cm_live db)"
    using assms unfolding build_input_def and_then_Inr
    by (elim exE conjE) (drule make_comparison_flags [THEN conjunct2], simp only: comparison_input.select_convs simp_thms)
  have r: "rows = sort_key (\<lambda>ob. (ob_time ob, ce_observation_id env ob))
      (filter (\<lambda>ob. ob_status ob \<noteq> EVALUATED) (latest_observations (la_id a) s (cm_live db)))"
    using rows unfolding live_issues_def by (rule bounded_rows_Inr)
  have "ob_status ob \<notin> {GAP_DETECTED, EVAL_INVALID, EVAL_ERROR}"
    if ob: "ob \<in> set (latest_observations (la_id a) s (cm_live db))" for ob
  proof (cases "ob_status ob = EVALUATED")
    case False
    then have "ob \<in> set rows" using ob by (simp add: r)
    then obtain k where k: "k < length rows" "ob = rows ! k" by (metis in_set_conv_nth)
    obtain y where "y \<in> set found" "issue_from_observation env ob = Inr y"
      using list_all2_nthD [OF all_or_error_nth [OF found] k(1)] list_all2_lengthD [OF all_or_error_nth [OF found]] k
      by (metis nth_mem)
    moreover have "\<forall>y \<in> set found. y = None" using flags(2) by (auto simp: some_values_def split: option.splits)
    ultimately have "issue_from_observation env ob = Inr None" by auto
    then show ?thesis using issue_from_observation_None by fastforce
  qed simp
  then show ?thesis
    using flags(1,3) by (fastforce simp: observed_coverage_complete_def Let_def list_all_iff split: option.splits)
qed

lemma compare_keeps_evidence:
  assumes "cm_live (others db) = cm_live db" and "cm_backtests (others db) = cm_backtests db"
  shows "cm_live (snd (compare_activation env act ref s others db)) = cm_live db
    \<and> cm_backtests (snd (compare_activation env act ref s others db)) = cm_backtests db"
proof -
  have ins: "cm_live db' = cm_live (others db) \<and> cm_backtests db' = cm_backtests (others db)"
    if "insert_comparison env run fs (others db) = Inr db'" for run fs db'
    using that by (auto simp: insert_comparison_def and_then_Inr split: if_splits)
  show ?thesis
    using assms ins
    by (auto simp: compare_activation_def persist_loaded_def Let_def split: sum.split option.split prod.split)
qed

section \<open>Witnesses\<close>

lemma all_or_error_total: "(\<And>r. r \<in> set rs \<Longrightarrow> \<exists>x. r = Inr x) \<Longrightarrow> \<exists>xs. all_or_error rs = Inr xs"
proof (induction rs)
  case (Cons r rs)
  then obtain x xs where "r = Inr x" "all_or_error rs = Inr xs" by (metis list.set_intros)
  then show ?case by simp
qed simp

lemma canonical_dict_total:
  assumes "\<And>k v. (k, v) \<in> set d \<Longrightarrow> canonicalize_json v = Inr v"
  shows "\<exists>out. canonical_dict d = Inr out"
proof -
  have "\<exists>xs. all_or_error (map snd (sort_key fst (map (map_prod id canonicalize_json) d))) = Inr xs"
    by (rule all_or_error_total) (use assms in force)
  then show ?thesis by (auto simp: canonical_dict_def Let_def)
qed

definition sample_comparison_env :: comparison_env where
  "sample_comparison_env = \<lparr>ce_text = (\<lambda>t. []), ce_event_id = (\<lambda>e. 0), ce_observation_id = (\<lambda>ob. 0), ce_limit = 10000\<rparr>"

definition sample_supplement :: supplement where
  "sample_supplement = \<lparr>su_policy = quiet_policy, su_start = 1, su_end = 2, su_complete = True, su_expected_hash = None,
     su_reference_candles = [], su_observed_candles = [], su_executions = [], su_positions = [], su_performance = None, su_source = []\<rparr>"

definition sample_reference :: backtest_row where
  "sample_reference = build_result_model sample_backtest_snapshot (sample_backtest (Dec 1 0)) ''run'' ''hash''"

definition sample_live :: live_activation where
  "sample_live = \<lparr>la_id = 9, la_strategy = 1, la_version = 5, la_version_number = 1,
     la_hash = projr (definition_hash sample_canonical), la_configuration = PNone,
     la_configuration_hash = replicate 64 CHR ''0'', la_status = ACT_ACTIVE, la_health = LIVE_HEALTHY, la_last_error = None,
     la_activated_at = 0, la_deactivated_at = None, la_last_evaluated = None, la_cursor = None, la_open = 0, la_created_at = 0\<rparr>"

definition sample_evaluated :: live_observation where
  "sample_evaluated = \<lparr>ob_activation = 9, ob_asset = 3, ob_time = 1, ob_attempt = 1, ob_observed_at = 1, ob_status = EVALUATED,
     ob_signal = None, ob_before = POS_FLAT, ob_after = POS_FLAT, ob_code = None, ob_message = None\<rparr>"

definition sample_comparison_db :: comparison_db where
  "sample_comparison_db = \<lparr>cm_live = \<lparr>ld_catalog = sample_db, ld_activations = [sample_live],
       ld_states = [\<lparr>ls_activation = 9, ls_asset = 3, ls_last_candle = Some 2, ls_last_observed = Some 2, ls_position = POS_FLAT,
         ls_position_changed = None, ls_health = LIVE_HEALTHY, ls_errors = 0, ls_last_error = None\<rparr>],
       ld_observations = [sample_evaluated], ld_events = []\<rparr>,
     cm_backtests = sample_backtest_db\<lparr>bt_results := [sample_reference]\<rparr>, cm_runs = [], cm_findings = []\<rparr>"

lemma sample_pair: "load_pair 9 ''run'' sample_comparison_db = Inr (sample_live, sample_reference)"
  by (simp add: load_pair_def sample_comparison_db_def sample_live_def sample_reference_def build_result_model_def
      sample_backtest_snapshot_def Let_def)

lemma sample_latest: "latest_observations 9 sample_supplement (cm_live sample_comparison_db) = [sample_evaluated]"
  by (simp add: latest_observations_def sample_comparison_db_def sample_evaluated_def in_window_def sample_supplement_def)

definition sample_comparison_raw :: comparison_input where
  "sample_comparison_raw = \<lparr>ci_strategy = activation_identity sample_live, ci_reference = backtest_identity sample_reference,
     ci_policy = quiet_policy, ci_start = 1, ci_end = 2,
     ci_reference_source = [(''backtest_run_id'', PStr ''run''), (''result_hash'', PStr ''hash''),
       (''data_source'', PStr ''s''), (''data_version'', PStr ''v''), (''data_coverage_fingerprint'', PNone)],
     ci_observed_source = [(''activation_id'', PStr (uuid_text 9)), (''configuration_hash'', PStr (replicate 64 CHR ''0''))],
     ci_reference_complete = False, ci_observed_complete = True, ci_expected_hash = None,
     ci_observed_hash = Some (replicate 64 CHR ''0''), ci_expected_signals = [], ci_observed_signals = [],
     ci_expected_candles = [], ci_observed_candles = [], ci_expected_executions = [], ci_observed_executions = [],
     ci_expected_positions = [], ci_observed_positions = [], ci_expected_performance = None, ci_observed_performance = None,
     ci_issues = []\<rparr>"

lemma sample_build:
  "build_input sample_comparison_env sample_live sample_reference sample_supplement sample_comparison_db
     = make_comparison_input (Aware 1 0) (Aware 2 0) sample_comparison_raw"
proof -
  note l = sample_latest
  have la: "la_id sample_live = 9" "la_configuration_hash sample_live = replicate 64 CHR ''0''" by (simp_all add: sample_live_def)
  have r: "br_run sample_reference = ''run''" "br_hash sample_reference = ''hash''" "br_start sample_reference = 0"
      "br_data sample_reference = \<lparr>dr_source = ''s'', dr_version = ''v'', dr_coverage = None\<rparr>"
    by (simp_all add: sample_reference_def build_result_model_def sample_backtest_def Let_def)
  have none: "backtest_signal_points sample_comparison_env ''run'' sample_supplement (cm_backtests sample_comparison_db) = Inr []"
      "backtest_executions sample_comparison_env ''run'' sample_supplement (cm_backtests sample_comparison_db) = Inr []"
      "live_event_points sample_comparison_env 9 sample_supplement (cm_live sample_comparison_db) = Inr []"
    by (simp_all add: backtest_signal_points_def backtest_executions_def live_event_points_def and_then_def bounded_rows_def
        of_run_def sample_comparison_db_def sample_backtest_db_def)
  have issues: "live_issues sample_comparison_env 9 sample_supplement (cm_live sample_comparison_db) = Inr []"
    unfolding live_issues_def l by (simp add: bounded_rows_def sample_evaluated_def)
  have cov: "observed_coverage_complete 9 sample_supplement (cm_live sample_comparison_db)"
    unfolding observed_coverage_complete_def l
    by (simp add: sample_comparison_db_def sample_evaluated_def sample_supplement_def)
  have su: "su_start sample_supplement = 1" "su_end sample_supplement = 2" "su_complete sample_supplement" "su_positions sample_supplement = []"
    by (simp_all add: sample_supplement_def)
  show ?thesis
    unfolding build_input_def la r none issues su
    by (simp add: and_then_def expected_position_points_def observed_position_points_def su cov some_values_def la r opt_value_def)
      (simp add: sample_comparison_raw_def sample_supplement_def)
qed

lemma sample_made:
  "\<exists>i. make_comparison_input (Aware 1 0) (Aware 2 0) sample_comparison_raw = Inr i \<and> ci_observed_complete i
     \<and> all_findings (\<lambda>t. []) i = Inr (coverage_findings i) \<and> \<not> ci_reference_complete i"
proof -
  have "\<exists>out. canonical_dict (ci_reference_source sample_comparison_raw) = Inr out"
    by (rule canonical_dict_total) (auto simp: sample_comparison_raw_def)
  then obtain x where x: "canonical_dict (ci_reference_source sample_comparison_raw) = Inr x" ..
  have "\<exists>out. canonical_dict (ci_observed_source sample_comparison_raw) = Inr out"
    by (rule canonical_dict_total) (auto simp: sample_comparison_raw_def)
  then obtain y where y: "canonical_dict (ci_observed_source sample_comparison_raw) = Inr y" ..
  let ?i = "sample_comparison_raw\<lparr>ci_start := 1, ci_end := 2, ci_reference_source := x, ci_observed_source := y\<rparr>"
  have p: "sha256_pattern (replicate 64 CHR ''0'')" by code_simp
  have "make_comparison_input (Aware 1 0) (Aware 2 0) sample_comparison_raw = Inr ?i"
    unfolding make_comparison_input_def x y
    by (simp add: utc_checked_def sha256_pattern_opt_def p evidence_times_def MAX_COMPARISON_INPUT_POINTS_def sample_comparison_raw_def)
  moreover have "ci_strategy ?i = ci_reference ?i"
    by (simp add: sample_comparison_raw_def activation_identity_def backtest_identity_def sample_live_def sample_reference_def
        build_result_model_def sample_backtest_snapshot_def Let_def)
  then have "all_findings (\<lambda>t. []) ?i = Inr (coverage_findings ?i)"
    by (simp add: all_findings_def identity_findings_def issue_findings_def compare_signals_def
      compare_candles_def compare_executions_def compare_positions_def compare_performance_def signals_unorderable_def
      executions_unorderable_def unorderable_def pair_points_def in_order_def sample_comparison_raw_def)
  ultimately show ?thesis by (intro exI [of _ ?i]) (simp add: sample_comparison_raw_def)
qed

lemma coverage_assets: "f \<in> set (coverage_findings i) \<Longrightarrow> finding_asset f = Some None"
  by (auto simp: coverage_findings_def finding_def finding_asset_def Let_def split: if_splits)

lemma sample_compared:
  "\<exists>run. compare_activation sample_comparison_env 9 ''run'' sample_supplement id sample_comparison_db
     = (Inr run, snd (compare_activation sample_comparison_env 9 ''run'' sample_supplement id sample_comparison_db))"
proof -
  obtain i where i: "make_comparison_input (Aware 1 0) (Aware 2 0) sample_comparison_raw = Inr i"
      "all_findings (\<lambda>t. []) i = Inr (coverage_findings i)" using sample_made by blast
  obtain st fs where c: "compare_evidence (\<lambda>t. []) i = Inr (st, fs)" by (auto simp: compare_evidence_def i Let_def)
  note e = compare_evidence_findings [OF c i(2)]
  have rows: "map (finding_model sample_comparison_env k) fs =
      map Inr (map (\<lambda>f. \<lparr>fr_run = k, fr_fingerprint = fingerprint (\<lambda>t. []) f, fr_asset = None, fr_finding = f\<rparr>) fs)" for k
    using e(2) coverage_assets by (auto simp: finding_model_def sample_comparison_env_def)
  have none: "existing_comparison k sample_comparison_db = None" for k
    by (simp add: existing_comparison_def sample_comparison_db_def)
  have "\<exists>db'. insert_comparison sample_comparison_env run fs sample_comparison_db = Inr db'" for run
    unfolding insert_comparison_def rows and_then_def all_or_error_map_Inr by (simp add: none list_all_iff)
  then have ins: "\<exists>db'. insert_comparison sample_comparison_env run fs (id sample_comparison_db) = Inr db'" for run by simp
  have t: "ce_text sample_comparison_env = (\<lambda>t. [])" by (simp add: sample_comparison_env_def)
  show ?thesis
    unfolding compare_activation_def sample_pair sum.case prod.case sample_build i(1) persist_loaded_def t c Let_def none option.case
    using ins [of "build_run sample_live sample_reference i (comparison_run_id sample_comparison_env sample_live sample_reference i) st"]
    by auto
qed

lemma sample_comparison_ok: "comparison_ok sample_comparison_db"
  by (simp add: comparison_ok_def sample_comparison_db_def)

lemma sample_comparison_history:
  "comparison_later sample_comparison_env sample_comparison_db
     (snd (compare_activation sample_comparison_env 9 ''run'' sample_supplement id sample_comparison_db))"
  by (rule comparison_later.compared) (simp_all add: comparison_later.nothing_done)

lemma comparisons_never_claim_health_witness:
  "\<exists>run db'. compare_activation sample_comparison_env 9 ''run'' sample_supplement id sample_comparison_db = (Inr run, db')
     \<and> run \<in> set (cm_runs db') \<and> rn_status run \<noteq> CMP_HEALTHY"
proof -
  obtain run where run: "compare_activation sample_comparison_env 9 ''run'' sample_supplement id sample_comparison_db
     = (Inr run, snd (compare_activation sample_comparison_env 9 ''run'' sample_supplement id sample_comparison_db))"
    using sample_compared ..
  have "run \<in> set (cm_runs (snd (compare_activation sample_comparison_env 9 ''run'' sample_supplement id sample_comparison_db)))"
    by (rule compare_returns_stored [OF run])
  then show ?thesis
    using run comparisons_never_claim_health [OF sample_comparison_history sample_comparison_ok] by blast
qed

lemma comparison_is_idempotent_witness:
  "\<exists>run db'. compare_activation sample_comparison_env 9 ''run'' sample_supplement id sample_comparison_db = (Inr run, db')
     \<and> compare_activation sample_comparison_env 9 ''run'' sample_supplement id db' = (Inr run, db')"
proof -
  obtain run where run: "compare_activation sample_comparison_env 9 ''run'' sample_supplement id sample_comparison_db
     = (Inr run, snd (compare_activation sample_comparison_env 9 ''run'' sample_supplement id sample_comparison_db))"
    using sample_compared ..
  let ?db = "snd (compare_activation sample_comparison_env 9 ''run'' sample_supplement id sample_comparison_db)"
  have same: "cm_live ?db = cm_live sample_comparison_db \<and> cm_backtests ?db = cm_backtests sample_comparison_db"
    by (rule compare_keeps_evidence) simp_all
  have "load_pair 9 ''run'' ?db = Inr (sample_live, sample_reference)"
    using sample_pair unfolding load_pair_def conjunct1 [OF same] conjunct2 [OF same] .
  moreover have "build_input sample_comparison_env sample_live sample_reference sample_supplement ?db =
      build_input sample_comparison_env sample_live sample_reference sample_supplement sample_comparison_db"
    unfolding build_input_def conjunct1 [OF same] conjunct2 [OF same] ..
  ultimately have "compare_activation sample_comparison_env 9 ''run'' sample_supplement id ?db = (Inr run, ?db)"
    using comparison_is_idempotent [OF sample_comparison_ok _ run comparison_later.nothing_done sample_pair]
      comparison_later.nothing_done [of sample_comparison_env sample_comparison_db] by simp
  then show ?thesis using run by blast
qed

lemma observed_complete_is_durable_witness:
  "\<exists>i. build_input sample_comparison_env sample_live sample_reference sample_supplement sample_comparison_db = Inr i
     \<and> ci_observed_complete i
     \<and> (\<exists>ob \<in> set (latest_observations 9 sample_supplement (cm_live sample_comparison_db)). ob_status ob = EVALUATED)"
proof -
  obtain i where i: "build_input sample_comparison_env sample_live sample_reference sample_supplement sample_comparison_db = Inr i"
      "ci_observed_complete i" using sample_made sample_build by auto
  then show ?thesis
    using observed_complete_is_durable [OF i] by (auto simp: sample_comparison_db_def sample_live_def)
qed

end
