(* ===== verification/Monitoring_Policy.thy ===== *)
theory Monitoring_Policy
  imports Divergence
begin

text \<open>
  \<open>app/monitoring/contracts.py\<close>: the frozen policy of a monitoring binding, the registration that
  carries it, and the class of evidence each kind of divergence belongs to.
\<close>

section \<open>Enumerations\<close>

datatype binding_status = BIND_ACTIVE | BIND_DEACTIVATED | BIND_ERROR
datatype incident_severity = INC_INFO | INC_WARNING | INC_CRITICAL
datatype incident_lifecycle = INC_OPEN | INC_ACKNOWLEDGED | INC_RESOLVED
datatype health_status = H_UNKNOWN | H_HEALTHY | H_DEGRADED | H_STALE | H_ERROR
datatype health_cause = DATA_QUALITY | EXECUTION | STRATEGY_BEHAVIOR | STRATEGY_FAILURE | REFERENCE | RUNTIME
datatype evidence_kind = DIVERGENCE_FINDING | STALE_STRATEGY_STATE | STALE_COMPARISON_EVIDENCE | RUNTIME_STATE

fun incident_severity_value :: "incident_severity \<Rightarrow> string" where
  "incident_severity_value INC_INFO = ''info''"
| "incident_severity_value INC_WARNING = ''warning''"
| "incident_severity_value INC_CRITICAL = ''critical''"

fun cause_value :: "health_cause \<Rightarrow> string" where
  "cause_value DATA_QUALITY = ''data_quality''" | "cause_value EXECUTION = ''execution''"
| "cause_value STRATEGY_BEHAVIOR = ''strategy_behavior''" | "cause_value STRATEGY_FAILURE = ''strategy_failure''"
| "cause_value REFERENCE = ''reference''" | "cause_value RUNTIME = ''runtime''"

fun evidence_value :: "evidence_kind \<Rightarrow> string" where
  "evidence_value DIVERGENCE_FINDING = ''divergence_finding''"
| "evidence_value STALE_STRATEGY_STATE = ''stale_strategy_state''"
| "evidence_value STALE_COMPARISON_EVIDENCE = ''stale_comparison_evidence''"
| "evidence_value RUNTIME_STATE = ''runtime_state''"

text \<open>\<open>IncidentSeverity(finding.severity)\<close>: the two enumerations have the same values.\<close>

fun finding_severity :: "divergence_severity \<Rightarrow> incident_severity" where
  "finding_severity SEV_INFO = INC_INFO"
| "finding_severity SEV_WARNING = INC_WARNING"
| "finding_severity SEV_CRITICAL = INC_CRITICAL"

section \<open>Severity\<close>

fun severity_rank :: "incident_severity \<Rightarrow> nat" where
  "severity_rank INC_INFO = 0" | "severity_rank INC_WARNING = 1" | "severity_rank INC_CRITICAL = 2"

instantiation incident_severity :: linorder
begin
definition less_eq_incident_severity :: "incident_severity \<Rightarrow> incident_severity \<Rightarrow> bool" where
  "less_eq_incident_severity a b \<longleftrightarrow> severity_rank a \<le> severity_rank b"
definition less_incident_severity :: "incident_severity \<Rightarrow> incident_severity \<Rightarrow> bool" where
  "less_incident_severity a b \<longleftrightarrow> severity_rank a < severity_rank b"
instance
proof
  fix x y z :: incident_severity
  show "x < y \<longleftrightarrow> x \<le> y \<and> \<not> y \<le> x" by (auto simp: less_eq_incident_severity_def less_incident_severity_def)
  show "x \<le> x" by (simp add: less_eq_incident_severity_def)
  show "x \<le> y \<Longrightarrow> y \<le> z \<Longrightarrow> x \<le> z" by (simp add: less_eq_incident_severity_def)
  show "x \<le> y \<Longrightarrow> y \<le> x \<Longrightarrow> x = y" by (cases x; cases y) (simp_all add: less_eq_incident_severity_def)
  show "x \<le> y \<or> y \<le> x" by (auto simp: less_eq_incident_severity_def)
qed
end

text \<open>\<open>_max_severity\<close> is \<open>max\<close> of that order.\<close>

record cause_severity_policy =
  cs_data :: incident_severity
  cs_execution :: incident_severity
  cs_behavior :: incident_severity
  cs_failure :: incident_severity
  cs_reference :: incident_severity
  cs_runtime :: incident_severity

fun cause_severity :: "cause_severity_policy \<Rightarrow> health_cause \<Rightarrow> incident_severity" where
  "cause_severity c DATA_QUALITY = cs_data c"
| "cause_severity c EXECUTION = cs_execution c"
| "cause_severity c STRATEGY_BEHAVIOR = cs_behavior c"
| "cause_severity c STRATEGY_FAILURE = cs_failure c"
| "cause_severity c REFERENCE = cs_reference c"
| "cause_severity c RUNTIME = cs_runtime c"

record monitoring_policy =
  mp_id :: string
  mp_revision :: string
  mp_severity :: cause_severity_policy
  mp_warning_after :: int
  mp_critical_after :: int
  mp_recovery :: int
  mp_stale_after :: int
  mp_comparison_stale_after :: int

definition make_monitoring_policy :: "monitoring_policy \<Rightarrow> py_exn + monitoring_policy" where
  "make_monitoring_policy p =
     (let i = py_strip (mp_id p); r = py_strip (mp_revision p)
      in if length_within 1 128 (mp_id p) \<and> length_within 1 128 (mp_revision p) \<and> i \<noteq> [] \<and> r \<noteq> []
            \<and> 1 \<le> mp_warning_after p \<and> 1 \<le> mp_critical_after p \<and> mp_warning_after p \<le> mp_critical_after p
            \<and> 1 \<le> mp_recovery p \<and> 1 \<le> mp_stale_after p \<and> 1 \<le> mp_comparison_stale_after p
         then Inr (p\<lparr>mp_id := i, mp_revision := r\<rparr>) else Inl validation_error)"

definition policy_dump :: "monitoring_policy \<Rightarrow> pyval" where
  "policy_dump p =
     (let s = (\<lambda>c. PStr (incident_severity_value (cause_severity (mp_severity p) c))) in
      PDict [(''schema_version'', PStr ''1''), (''policy_id'', PStr (mp_id p)), (''revision'', PStr (mp_revision p)),
        (''cause_severity'', PDict (map (\<lambda>c. (cause_value c, s c))
           [DATA_QUALITY, EXECUTION, STRATEGY_BEHAVIOR, STRATEGY_FAILURE, REFERENCE, RUNTIME])),
        (''escalation'', PDict [(''warning_after_occurrences'', PInt (mp_warning_after p)),
           (''critical_after_occurrences'', PInt (mp_critical_after p))]),
        (''recovery_healthy_checks'', PInt (mp_recovery p)), (''stale_after_seconds'', PInt (mp_stale_after p)),
        (''comparison_stale_after_seconds'', PInt (mp_comparison_stale_after p))])"

definition policy_hash :: "monitoring_policy \<Rightarrow> string" where
  "policy_hash p = hash_payload (policy_dump p)"

definition severity_for :: "monitoring_policy \<Rightarrow> health_cause \<Rightarrow> int \<Rightarrow> py_exn + incident_severity" where
  "severity_for p c n =
     (if n < 1 then Inl (ValueError ''occurrence_count must be positive'')
      else
        let baseline = cause_severity (mp_severity p) c;
            escalated = (if mp_critical_after p \<le> n then INC_CRITICAL
                         else if mp_warning_after p \<le> n then INC_WARNING else INC_INFO)
        in Inr (if severity_rank escalated \<le> severity_rank baseline then baseline else escalated))"

section \<open>Registration\<close>

record registration =
  rg_activation :: int
  rg_reference :: string
  rg_policy_id :: string
  rg_policy_revision :: string
  rg_policy_hash :: string
  rg_comparison :: comparison_policy
  rg_policy :: monitoring_policy

definition make_registration :: "registration \<Rightarrow> py_exn + registration" where
  "make_registration r =
     (let i = py_strip (rg_policy_id r); v = py_strip (rg_policy_revision r)
      in if sha256_pattern (rg_reference r) \<and> length_within 1 128 (rg_policy_id r) \<and> length_within 1 128 (rg_policy_revision r)
            \<and> sha256_pattern (rg_policy_hash r) \<and> i \<noteq> [] \<and> v \<noteq> []
            \<and> cy_id (rg_comparison r) = i \<and> cy_revision (rg_comparison r) = v
            \<and> comparison_policy_hash (rg_comparison r) = rg_policy_hash r
         then Inr (r\<lparr>rg_policy_id := i, rg_policy_revision := v\<rparr>) else Inl validation_error)"

section \<open>Causes\<close>

fun cause_for_divergence :: "divergence_type \<Rightarrow> health_cause" where
  "cause_for_divergence INSUFFICIENT_REFERENCE_DATA = REFERENCE"
| "cause_for_divergence STRATEGY_VERSION_MISMATCH = STRATEGY_FAILURE"
| "cause_for_divergence CONFIGURATION_MISMATCH = STRATEGY_FAILURE"
| "cause_for_divergence EVALUATOR_FAILURE = RUNTIME"
| "cause_for_divergence MISSING_SIGNAL = STRATEGY_BEHAVIOR"
| "cause_for_divergence UNEXPECTED_SIGNAL = STRATEGY_BEHAVIOR"
| "cause_for_divergence SIGNAL_TIMING_DIFFERENCE = STRATEGY_BEHAVIOR"
| "cause_for_divergence MARKET_DATA_MISSING_CANDLE = DATA_QUALITY"
| "cause_for_divergence MARKET_DATA_CORRECTED_CANDLE = DATA_QUALITY"
| "cause_for_divergence MARKET_DATA_TIMESTAMP_MISMATCH = DATA_QUALITY"
| "cause_for_divergence MARKET_DATA_OHLC_DISCREPANCY = DATA_QUALITY"
| "cause_for_divergence MARKET_DATA_VOLUME_DISCREPANCY = DATA_QUALITY"
| "cause_for_divergence MISSING_EXPECTED_ENTRY = EXECUTION"
| "cause_for_divergence MISSING_EXPECTED_EXIT = EXECUTION"
| "cause_for_divergence UNEXPECTED_ENTRY = EXECUTION"
| "cause_for_divergence UNEXPECTED_EXIT = EXECUTION"
| "cause_for_divergence EXECUTION_DELAY = EXECUTION"
| "cause_for_divergence EXECUTION_SLIPPAGE = EXECUTION"
| "cause_for_divergence FEE_DIFFERENCE = EXECUTION"
| "cause_for_divergence POSITION_MISMATCH = STRATEGY_BEHAVIOR"
| "cause_for_divergence EXPOSURE_MISMATCH = STRATEGY_BEHAVIOR"
| "cause_for_divergence UNEXPECTED_POSITION_PERSISTENCE = STRATEGY_BEHAVIOR"
| "cause_for_divergence RETURN_DIFFERENCE = STRATEGY_BEHAVIOR"
| "cause_for_divergence DRAWDOWN_DIFFERENCE = STRATEGY_BEHAVIOR"
| "cause_for_divergence VOLATILITY_DIFFERENCE = STRATEGY_BEHAVIOR"
| "cause_for_divergence TRADE_FREQUENCY_DIFFERENCE = STRATEGY_BEHAVIOR"
| "cause_for_divergence WIN_RATE_DIFFERENCE = STRATEGY_BEHAVIOR"
| "cause_for_divergence BENCHMARK_RELATIVE_DIFFERENCE = STRATEGY_BEHAVIOR"

section \<open>Escalation\<close>

text \<open>
  Escalation is monotone and bounded: the severity never falls below the baseline of the cause, never
  falls as occurrences accumulate, reaches at least warning and then critical at the configured
  counts, and no positive count raises.
\<close>

theorem escalation_monotone:
  assumes "make_monitoring_policy raw = Inr p" and "1 \<le> m" and "m \<le> n"
  shows "\<exists>s t. severity_for p c m = Inr s \<and> severity_for p c n = Inr t \<and> cause_severity (mp_severity p) c \<le> s \<and> s \<le> t
    \<and> (mp_warning_after p \<le> n \<longrightarrow> INC_WARNING \<le> t) \<and> (mp_critical_after p \<le> n \<longrightarrow> t = INC_CRITICAL)
    \<and> (n < mp_warning_after p \<longrightarrow> t = cause_severity (mp_severity p) c)"
proof -
  have w: "mp_warning_after p \<le> mp_critical_after p"
    using assms(1) by (auto simp: make_monitoring_policy_def Let_def split: if_splits)
  obtain b where b: "cause_severity (mp_severity p) c = b" by blast
  show ?thesis using assms(2,3) w
    by (cases b) (auto simp: severity_for_def b Let_def less_eq_incident_severity_def)
qed

end
