(* ===== verification/Monitoring.thy ===== *)
theory Monitoring
  imports Comparison_Results Monitoring_Policy
begin

text \<open>
  The tables of \<open>app/models/strategy_monitoring.py\<close> and the part of
  \<open>app/services/strategy_monitoring.py\<close> that turns stored comparison runs into incidents and health.
  A transaction works on a session: rows it read and changed are visible to its later reads, rows it
  only added are not, because the sessions of the workers do not flush before a query.
\<close>

section \<open>Tables\<close>

record mon_binding =
  bd_id :: int
  bd_activation :: int
  bd_reference :: string
  bd_comparison_id :: string
  bd_comparison_revision :: string
  bd_comparison_hash :: string
  bd_comparison :: "pyval option"
  bd_policy_id :: string
  bd_policy_revision :: string
  bd_policy_hash :: string
  bd_policy :: pyval
  bd_status :: binding_status
  bd_registered :: usec
  bd_deactivated :: "usec option"
  bd_processed :: "usec option"
  bd_worker :: "string option"
  bd_token :: "string option"
  bd_expires :: "usec option"
  bd_claimed :: "usec option"
  bd_attempts :: int

record mon_health =
  hl_activation :: int
  hl_binding :: int
  hl_status :: health_status
  hl_cause :: "health_cause option"
  hl_severity :: "incident_severity option"
  hl_comparison :: "usec option"
  hl_complete :: "usec option"
  hl_window :: "usec option"
  hl_healthy :: "usec option"
  hl_evaluated :: "usec option"
  hl_checks :: int
  hl_error :: "string option"

record mon_incident =
  ic_id :: int
  ic_key :: string
  ic_binding :: int
  ic_activation :: int
  ic_reference :: string
  ic_policy_hash :: string
  ic_strategy :: version_identity
  ic_asset :: "int option"
  ic_type :: string
  ic_category :: string
  ic_cause :: health_cause
  ic_severity :: incident_severity
  ic_status :: incident_lifecycle
  ic_first :: usec
  ic_last :: usec
  ic_count :: int
  ic_ack_at :: "usec option"
  ic_ack_by :: "string option"
  ic_ack_note :: "string option"
  ic_resolved_at :: "usec option"
  ic_resolved_by :: "string option"
  ic_resolution_note :: "string option"
  ic_run :: "string option"
  ic_finding :: "int option"
  ic_source :: pyval
  ic_summary :: pyval

record mon_evidence =
  me_incident :: int
  me_finding :: "int option"
  me_run :: "string option"
  me_key :: string
  me_kind :: evidence_kind
  me_at :: usec
  me_source :: pyval
  me_payload :: pyval

record mon_assessment =
  as_run :: string
  as_binding :: int
  as_activation :: int
  as_reference :: string
  as_status :: comparison_status
  as_count :: nat
  as_worker :: string
  as_at :: usec

record mon_db =
  mo_base :: comparison_db
  mo_bindings :: "mon_binding list"
  mo_health :: "mon_health list"
  mo_incidents :: "mon_incident list"
  mo_evidence :: "mon_evidence list"
  mo_assessments :: "mon_assessment list"

text \<open>
  The environment: keys and creation times the database gave to rows, the readers of the two stored
  policies, the settings, and whether the unit of work writes health rows before bindings.
\<close>

record mon_env =
  en_finding_id :: "finding_row \<Rightarrow> int"
  en_finding_created :: "finding_row \<Rightarrow> usec"
  en_run_created :: "comparison_run \<Rightarrow> usec"
  en_policy :: "pyval \<Rightarrow> py_exn + monitoring_policy"
  en_comparison_policy :: "pyval \<Rightarrow> py_exn + comparison_policy"
  en_page :: nat
  en_lease :: usec
  en_max_runs :: nat
  en_max_window :: usec
  en_health_first :: bool
  en_comparison :: comparison_env

text \<open>What one transaction gets: its clock readings, the rows others have locked, its new UUIDs.\<close>

record tick =
  tk_owned :: usec
  tk_now :: usec
  tk_page :: "nat \<Rightarrow> usec"
  tk_stale :: usec
  tk_done :: usec
  tk_locked :: bool
  tk_uuid :: "nat \<Rightarrow> int"

abbreviation MonitoringError :: py_exn where "MonitoringError \<equiv> OtherException ''StrategyMonitoringError''"

section \<open>Sessions\<close>

record mon_session =
  ss_db :: mon_db
  ss_incidents :: "mon_incident list"
  ss_evidence :: "mon_evidence list"
  ss_assessments :: "mon_assessment list"

definition put_row :: "('a \<Rightarrow> 'k) \<Rightarrow> 'a \<Rightarrow> 'a list \<Rightarrow> 'a list" where
  "put_row key x xs = map (\<lambda>y. if key y = key x then x else y) xs"

definition put_binding :: "mon_binding \<Rightarrow> mon_session \<Rightarrow> mon_session" where
  "put_binding b s = s\<lparr>ss_db := (ss_db s)\<lparr>mo_bindings := put_row bd_id b (mo_bindings (ss_db s))\<rparr>\<rparr>"

definition put_health :: "mon_health \<Rightarrow> mon_session \<Rightarrow> mon_session" where
  "put_health h s = s\<lparr>ss_db := (ss_db s)\<lparr>mo_health := put_row hl_activation h (mo_health (ss_db s))\<rparr>\<rparr>"

definition put_incident :: "mon_incident \<Rightarrow> mon_session \<Rightarrow> mon_session" where
  "put_incident i s = s\<lparr>ss_db := (ss_db s)\<lparr>mo_incidents := put_row ic_id i (mo_incidents (ss_db s))\<rparr>\<rparr>"

text \<open>
  The constraints the commit meets: primary and unique keys, one active binding per activation, and
  the two checks that compare times of different clock readings.
\<close>

definition constraints_hold :: "mon_db \<Rightarrow> bool" where
  "constraints_hold db \<longleftrightarrow>
     distinct (map bd_id (mo_bindings db))
     \<and> distinct (map bd_activation (filter (\<lambda>b. bd_status b = BIND_ACTIVE) (mo_bindings db)))
     \<and> distinct (map hl_activation (mo_health db)) \<and> distinct (map hl_binding (mo_health db))
     \<and> distinct (map ic_id (mo_incidents db)) \<and> distinct (map ic_key (mo_incidents db))
     \<and> distinct (map (\<lambda>e. (me_incident e, me_key e)) (mo_evidence db))
     \<and> distinct (filter (\<lambda>f. f \<noteq> None) (map me_finding (mo_evidence db)))
     \<and> distinct (map as_run (mo_assessments db))
     \<and> list_all (\<lambda>i. ic_first i \<le> ic_last i) (mo_incidents db)
     \<and> list_all (\<lambda>b. pred_option (\<lambda>t. bd_registered b \<le> t) (bd_deactivated b)) (mo_bindings db)"

definition written :: "mon_session \<Rightarrow> mon_db" where
  "written s = (ss_db s)\<lparr>mo_incidents := mo_incidents (ss_db s) @ ss_incidents s,
     mo_evidence := mo_evidence (ss_db s) @ ss_evidence s, mo_assessments := mo_assessments (ss_db s) @ ss_assessments s\<rparr>"

definition in_transaction :: "(mon_session \<Rightarrow> py_exn + 'a \<times> mon_session) \<Rightarrow> mon_db \<Rightarrow> (py_exn + 'a) \<times> mon_db" where
  "in_transaction f db =
     (case f \<lparr>ss_db = db, ss_incidents = [], ss_evidence = [], ss_assessments = []\<rparr> of
        Inl e \<Rightarrow> (Inl e, db)
      | Inr (a, s) \<Rightarrow> if constraints_hold (written s) then (Inr a, written s) else (Inl IntegrityError, db))"

section \<open>Health\<close>

definition set_unknown :: "mon_health \<Rightarrow> mon_health" where
  "set_unknown h = h\<lparr>hl_status := H_UNKNOWN, hl_cause := None, hl_severity := None, hl_checks := 0\<rparr>"

definition set_healthy :: "mon_health \<Rightarrow> mon_health" where
  "set_healthy h = h\<lparr>hl_status := H_HEALTHY, hl_cause := None, hl_severity := None\<rparr>"

definition set_health :: "health_status \<Rightarrow> health_cause \<Rightarrow> incident_severity \<Rightarrow> mon_health \<Rightarrow> mon_health" where
  "set_health st c v h = h\<lparr>hl_status := st, hl_cause := Some c, hl_severity := Some v, hl_checks := 0\<rparr>"

fun cause_rank :: "health_cause \<Rightarrow> nat" where
  "cause_rank STRATEGY_FAILURE = 5" | "cause_rank RUNTIME = 4" | "cause_rank STRATEGY_BEHAVIOR = 3"
| "cause_rank EXECUTION = 2" | "cause_rank DATA_QUALITY = 1" | "cause_rank REFERENCE = 0"

type_synonym classification = "health_cause \<times> incident_severity"

definition projection_sort_key :: "classification \<Rightarrow> nat \<times> nat" where
  "projection_sort_key x = (severity_rank (snd x), cause_rank (fst x))"

definition more_actionable :: "classification option \<Rightarrow> classification \<Rightarrow> classification" where
  "more_actionable current x =
     (case current of None \<Rightarrow> x | Some y \<Rightarrow> if projection_sort_key y < projection_sort_key x then x else y)"

text \<open>\<open>max(values, key=...)\<close> keeps the first of several greatest values.\<close>

definition set_divergent_health :: "classification list \<Rightarrow> mon_health \<Rightarrow> mon_health" where
  "set_divergent_health xs h =
     (case foldl (\<lambda>best x. Some (more_actionable best x)) None xs of
        None \<Rightarrow> set_unknown h
      | Some (c, v) \<Rightarrow> set_health (if c \<in> {STRATEGY_FAILURE, RUNTIME} then H_ERROR else H_DEGRADED) c v h)"

section \<open>Incidents\<close>

definition stable_keys :: "string list" where
  "stable_keys = [''asset_id'', ''event_type'', ''signal_id'', ''side'', ''direction'', ''position_state'', ''error_code'',
     ''configuration_hash'', ''strategy_id'', ''strategy_version_id'', ''strategy_version_number'',
     ''strategy_definition_hash'', ''revision'', ''reference_complete'', ''observed_complete'']"

fun stable_value_discriminator :: "pyval \<Rightarrow> pyval" where
  "stable_value_discriminator (PDict d) =
     PDict (concat (map (\<lambda>k. case map_of d k of None \<Rightarrow> [] | Some v \<Rightarrow> [(k, v)]) stable_keys))"
| "stable_value_discriminator v = PDict []"

definition incident_dedup_key :: "mon_binding \<Rightarrow> finding_row \<Rightarrow> health_cause \<Rightarrow> string" where
  "incident_dedup_key b f c =
     (let d = fr_finding f in
      hash_payload (PDict [(''binding_id'', PStr (uuid_text (bd_id b))), (''reference_run_id'', PStr (bd_reference b)),
        (''policy_hash'', PStr (bd_policy_hash b)), (''strategy_id'', PStr (uuid_text (vi_strategy (df_strategy d)))),
        (''strategy_version_id'', PStr (uuid_text (vi_version (df_strategy d)))),
        (''strategy_definition_hash'', PStr (vi_hash (df_strategy d))), (''divergence_type'', PStr (divergence_value (df_type d))),
        (''category'', PStr (df_category d)), (''cause'', PStr (cause_value c)), (''asset_id'', opt_value PInt (fr_asset f)),
        (''expected'', stable_value_discriminator (df_expected d)), (''observed'', stable_value_discriminator (df_observed d))]))"

definition reopened :: "mon_incident \<Rightarrow> mon_incident" where
  "reopened i =
     (if ic_status i = INC_RESOLVED
      then i\<lparr>ic_status := INC_OPEN, ic_resolved_at := None, ic_resolved_by := None, ic_resolution_note := None\<rparr> else i)"

definition add_evidence :: "mon_evidence \<Rightarrow> mon_session \<Rightarrow> mon_session" where
  "add_evidence e s = s\<lparr>ss_evidence := ss_evidence s @ [e]\<rparr>"

definition add_incident :: "mon_incident \<Rightarrow> mon_session \<Rightarrow> mon_session" where
  "add_incident i s = s\<lparr>ss_incidents := ss_incidents s @ [i]\<rparr>"

definition new_incident ::
  "tick \<Rightarrow> mon_session \<Rightarrow> mon_binding \<Rightarrow> version_identity \<Rightarrow> usec \<Rightarrow> string \<Rightarrow> string \<Rightarrow> string \<Rightarrow> health_cause \<Rightarrow>
   incident_severity \<Rightarrow> pyval \<Rightarrow> pyval \<Rightarrow> mon_incident" where
  "new_incident tk s b st now key type category c v source summary =
     \<lparr>ic_id = tk_uuid tk (length (ss_incidents s)), ic_key = key, ic_binding = bd_id b, ic_activation = bd_activation b,
      ic_reference = bd_reference b, ic_policy_hash = bd_policy_hash b, ic_strategy = st, ic_asset = None, ic_type = type,
      ic_category = category, ic_cause = c, ic_severity = v, ic_status = INC_OPEN, ic_first = now, ic_last = now, ic_count = 1,
      ic_ack_at = None, ic_ack_by = None, ic_ack_note = None, ic_resolved_at = None, ic_resolved_by = None,
      ic_resolution_note = None, ic_run = None, ic_finding = None, ic_source = source, ic_summary = summary\<rparr>"

definition finding_source_reference :: "mon_env \<Rightarrow> mon_binding \<Rightarrow> comparison_run \<Rightarrow> finding_row \<Rightarrow> pyval" where
  "finding_source_reference env b run f =
     PDict [(''binding_id'', PStr (uuid_text (bd_id b))), (''reference_run_id'', PStr (bd_reference b)),
       (''comparison_run_id'', PStr (rn_id run)), (''finding_id'', PStr (uuid_text (en_finding_id env f))),
       (''forensic_source'', df_source (fr_finding f))]"

definition finding_summary :: "health_cause \<Rightarrow> finding_row \<Rightarrow> monitoring_policy \<Rightarrow> pyval" where
  "finding_summary c f p =
     (let d = fr_finding f in
      PDict [(''cause'', PStr (cause_value c)), (''divergence_type'', PStr (divergence_value (df_type d))),
        (''category'', PStr (df_category d)), (''asset_id'', opt_value PInt (fr_asset f)),
        (''monitoring_policy_id'', PStr (mp_id p)), (''monitoring_policy_revision'', PStr (mp_revision p)),
        (''expected'', df_expected d), (''observed'', df_observed d)])"

definition finding_evidence ::
  "mon_env \<Rightarrow> mon_binding \<Rightarrow> comparison_run \<Rightarrow> finding_row \<Rightarrow> usec \<Rightarrow> int \<Rightarrow> mon_evidence" where
  "finding_evidence env b run f now i =
     (let fid = en_finding_id env f in
      \<lparr>me_incident = i, me_finding = Some fid, me_run = Some (rn_id run),
       me_key = hash_payload (PDict [(''kind'', PStr (evidence_value DIVERGENCE_FINDING)), (''finding_id'', PStr (uuid_text fid))]),
       me_kind = DIVERGENCE_FINDING, me_at = now, me_source = finding_source_reference env b run f,
       me_payload = PDict [(''finding_id'', PStr (uuid_text fid)), (''fingerprint'', PStr (fr_fingerprint f)),
         (''event_timestamp'', opt_value (PStr \<circ> py_isoformat) (df_time (fr_finding f))),
         (''finding_created_at'', PStr (py_isoformat (en_finding_created env f)))]\<rparr>)"

definition record_finding ::
  "mon_env \<Rightarrow> tick \<Rightarrow> mon_binding \<Rightarrow> comparison_run \<Rightarrow> monitoring_policy \<Rightarrow> usec \<Rightarrow> finding_row \<Rightarrow>
   mon_session \<Rightarrow> py_exn + classification \<times> mon_session" where
  "record_finding env tk b run p now f s =
     (let d = fr_finding f; c = cause_for_divergence (df_type d); sv = finding_severity (df_severity d);
          fid = en_finding_id env f; db = ss_db s
      in case find (\<lambda>e. me_finding e = Some fid) (mo_evidence db) of
           Some e \<Rightarrow>
             (case find (\<lambda>i. ic_id i = me_incident e) (mo_incidents db) of
                None \<Rightarrow> Inl MonitoringError
              | Some i \<Rightarrow> Inr ((c, ic_severity i), s))
         | None \<Rightarrow>
             let key = incident_dedup_key b f c; source = finding_source_reference env b run f; summary = finding_summary c f p
             in case find (\<lambda>i. ic_key i = key) (mo_incidents db) of
                  None \<Rightarrow>
                    and_then (severity_for p c 1) (\<lambda>pv.
                      let i = (new_incident tk s b (df_strategy d) now key (divergence_value (df_type d)) (df_category d) c
                                (max pv sv) source summary)
                               \<lparr>ic_asset := fr_asset f, ic_run := Some (rn_id run), ic_finding := Some fid\<rparr>
                      in Inr ((c, ic_severity i), add_evidence (finding_evidence env b run f now (ic_id i)) (add_incident i s)))
                | Some i \<Rightarrow>
                    and_then (severity_for p c (ic_count i + 1)) (\<lambda>pv.
                      let i' = reopened (i\<lparr>ic_count := ic_count i + 1, ic_last := max (ic_last i) now,
                                 ic_severity := max (max (ic_severity i) pv) sv, ic_run := Some (rn_id run), ic_finding := Some fid,
                                 ic_source := source, ic_summary := summary\<rparr>)
                      in Inr ((c, ic_severity i'), add_evidence (finding_evidence env b run f now (ic_id i)) (put_incident i' s))))"

text \<open>
  The three conditions that are not findings share their shape: one incident per key, one piece of
  evidence per evidence key, and nothing at all when that evidence is already there.
\<close>

definition record_condition ::
  "tick \<Rightarrow> mon_binding \<Rightarrow> live_activation \<Rightarrow> usec \<Rightarrow> string \<Rightarrow> string \<Rightarrow> string \<Rightarrow> health_cause \<Rightarrow> (int \<Rightarrow> py_exn + incident_severity) \<Rightarrow>
   pyval \<Rightarrow> pyval \<Rightarrow> mon_evidence \<Rightarrow> mon_session \<Rightarrow> py_exn + incident_severity \<times> mon_session" where
  "record_condition tk b a now key type category c severity source summary ev s =
     (case find (\<lambda>i. ic_key i = key) (mo_incidents (ss_db s)) of
        None \<Rightarrow>
          and_then (severity 1) (\<lambda>v.
            let i = new_incident tk s b (activation_identity a) now key type category c v source summary
            in Inr (v, add_evidence (ev\<lparr>me_incident := ic_id i\<rparr>) (add_incident i s)))
      | Some i \<Rightarrow>
          if list_ex (\<lambda>e. me_incident e = ic_id i \<and> me_key e = me_key ev) (mo_evidence (ss_db s)) then Inr (ic_severity i, s)
          else and_then (severity (ic_count i + 1)) (\<lambda>v.
            let i' = reopened (i\<lparr>ic_count := ic_count i + 1, ic_last := now, ic_severity := max (ic_severity i) v, ic_source := source\<rparr>)
            in Inr (ic_severity i', add_evidence (ev\<lparr>me_incident := ic_id i\<rparr>) (put_incident i' s))))"

definition condition_evidence :: "evidence_kind \<Rightarrow> string \<Rightarrow> usec \<Rightarrow> pyval \<Rightarrow> pyval \<Rightarrow> mon_evidence" where
  "condition_evidence kind key now source payload =
     \<lparr>me_incident = 0, me_finding = None, me_run = None, me_key = key, me_kind = kind, me_at = now, me_source = source, me_payload = payload\<rparr>"

end
