(* ===== verification/Monitoring_Service.thy ===== *)
theory Monitoring_Service
  imports Monitoring
begin

text \<open>
  The transactions of \<open>app/services/strategy_monitoring.py\<close>: assessing comparison runs, projecting
  freshness, leases of bindings, registration, the operator's calls and the comparison producer.
\<close>

section \<open>Conditions that are not findings\<close>

fun activation_status_value :: "activation_status \<Rightarrow> string" where
  "activation_status_value ACT_ACTIVE = ''active''"
| "activation_status_value ACT_DEACTIVATED = ''deactivated''"
| "activation_status_value ACT_ERROR = ''error''"

text \<open>\<open>x or y\<close> of optional texts: an empty text counts as none.\<close>

definition or_text :: "string option \<Rightarrow> string option \<Rightarrow> string option" where
  "or_text x y = (if x = None \<or> x = Some [] then y else x)"

definition runtime_severity :: "monitoring_policy option \<Rightarrow> incident_severity \<Rightarrow> int \<Rightarrow> py_exn + incident_severity" where
  "runtime_severity p fallback n = (case p of None \<Rightarrow> Inr fallback | Some q \<Rightarrow> severity_for q RUNTIME n)"

text \<open>\<open>fallback\<close> is the severity without a policy, critical by default.\<close>

definition record_activation_runtime_failure ::
  "tick \<Rightarrow> mon_binding \<Rightarrow> live_activation \<Rightarrow> mon_health \<Rightarrow> monitoring_policy option \<Rightarrow> string option \<Rightarrow> string option \<Rightarrow>
   incident_severity \<Rightarrow> usec \<Rightarrow> mon_session \<Rightarrow> py_exn + mon_health \<times> mon_session" where
  "record_activation_runtime_failure tk b a h p message runtime_status fallback now s =
     and_then (runtime_severity p fallback 1) (\<lambda>v.
       let err = the (or_text (or_text message (la_last_error a)) (Some ''live strategy activation entered error state''));
           h1 = (set_health H_ERROR RUNTIME v h)\<lparr>hl_error := Some err\<rparr>;
           label = the (or_text runtime_status (Some (activation_status_value (la_status a))));
           key = hash_payload (PDict [(''binding_id'', PStr (uuid_text (bd_id b))), (''reference_run_id'', PStr (bd_reference b)),
             (''policy_hash'', PStr (bd_policy_hash b)), (''divergence_type'', PStr ''evaluator_failure''),
             (''category'', PStr ''runtime_state''), (''activation_id'', PStr (uuid_text (la_id a)))]);
           ekey = hash_payload (PDict [(''binding_id'', PStr (uuid_text (bd_id b))), (''kind'', PStr (evidence_value RUNTIME_STATE)),
             (''activation_status'', PStr label), (''last_error'', PStr err)]);
           source = PDict [(''binding_id'', PStr (uuid_text (bd_id b))), (''activation_id'', PStr (uuid_text (la_id a))),
             (''reference_run_id'', PStr (bd_reference b)), (''activation_status'', PStr label)]
       in map_sum id (\<lambda>(_, s1). (h1, s1))
            (record_condition tk b a now key ''evaluator_failure'' ''runtime_state'' RUNTIME (runtime_severity p fallback) source
               (PDict [(''activation_error'', PStr err)])
               (condition_evidence RUNTIME_STATE ekey now source
                  (PDict [(''activation_status'', PStr label), (''last_error'', PStr err)])) s))"

definition stale_comparison_source :: "mon_binding \<Rightarrow> live_activation \<Rightarrow> usec \<Rightarrow> usec option \<Rightarrow> monitoring_policy \<Rightarrow> pyval" where
  "stale_comparison_source b a baseline window p =
     PDict [(''binding_id'', PStr (uuid_text (bd_id b))), (''reference_run_id'', PStr (bd_reference b)),
       (''comparison_policy_hash'', PStr (bd_comparison_hash b)), (''activation_id'', PStr (uuid_text (la_id a))),
       (''last_complete_comparison_at'', PStr (py_isoformat baseline)),
       (''last_complete_window_end'', opt_value (PStr \<circ> py_isoformat) window),
       (''comparison_stale_after_seconds'', PInt (mp_comparison_stale_after p))]"

definition record_stale_comparison_evidence ::
  "tick \<Rightarrow> mon_binding \<Rightarrow> live_activation \<Rightarrow> monitoring_policy \<Rightarrow> usec \<Rightarrow> usec option \<Rightarrow> usec \<Rightarrow> mon_session \<Rightarrow>
   py_exn + incident_severity \<times> mon_session" where
  "record_stale_comparison_evidence tk b a p baseline window now s =
     (let key = hash_payload (PDict [(''binding_id'', PStr (uuid_text (bd_id b))), (''reference_run_id'', PStr (bd_reference b)),
            (''comparison_policy_hash'', PStr (bd_comparison_hash b)), (''monitoring_policy_hash'', PStr (bd_policy_hash b)),
            (''divergence_type'', PStr ''stale_comparison_evidence''), (''category'', PStr ''coverage'')]);
          ekey = hash_payload (PDict [(''binding_id'', PStr (uuid_text (bd_id b))),
            (''kind'', PStr (evidence_value STALE_COMPARISON_EVIDENCE)),
            (''last_complete_comparison_at'', PStr (py_isoformat baseline)),
            (''last_complete_window_end'', opt_value (PStr \<circ> py_isoformat) window)]);
          source = stale_comparison_source b a baseline window p
      in record_condition tk b a now key ''stale_comparison_evidence'' ''coverage'' REFERENCE (severity_for p REFERENCE) source
           (PDict [(''cause'', PStr (cause_value REFERENCE)), (''divergence_type'', PStr ''stale_comparison_evidence''),
              (''comparison_stale_after_seconds'', PInt (mp_comparison_stale_after p))])
           (condition_evidence STALE_COMPARISON_EVIDENCE ekey now source
              (PDict [(''last_complete_comparison_at'', PStr (py_isoformat baseline)),
                 (''last_complete_window_end'', opt_value (PStr \<circ> py_isoformat) window),
                 (''comparison_stale_after_seconds'', PInt (mp_comparison_stale_after p))])) s)"

definition stale_source :: "mon_binding \<Rightarrow> live_activation \<Rightarrow> usec \<Rightarrow> monitoring_policy \<Rightarrow> pyval" where
  "stale_source b a baseline p =
     PDict [(''binding_id'', PStr (uuid_text (bd_id b))), (''reference_run_id'', PStr (bd_reference b)),
       (''activation_id'', PStr (uuid_text (la_id a))), (''last_evaluated_at'', PStr (py_isoformat baseline)),
       (''stale_after_seconds'', PInt (mp_stale_after p))]"

definition record_stale_state ::
  "tick \<Rightarrow> mon_binding \<Rightarrow> live_activation \<Rightarrow> monitoring_policy \<Rightarrow> usec \<Rightarrow> usec \<Rightarrow> mon_session \<Rightarrow>
   py_exn + incident_severity \<times> mon_session" where
  "record_stale_state tk b a p baseline now s =
     (let key = hash_payload (PDict [(''binding_id'', PStr (uuid_text (bd_id b))), (''reference_run_id'', PStr (bd_reference b)),
            (''policy_hash'', PStr (bd_policy_hash b)), (''divergence_type'', PStr ''stale_strategy_state''),
            (''category'', PStr ''runtime_state'')]);
          ekey = hash_payload (PDict [(''binding_id'', PStr (uuid_text (bd_id b))),
            (''kind'', PStr (evidence_value STALE_STRATEGY_STATE)), (''last_evaluated_at'', PStr (py_isoformat baseline))]);
          source = stale_source b a baseline p
      in record_condition tk b a now key ''stale_strategy_state'' ''runtime_state'' RUNTIME (severity_for p RUNTIME) source
           (PDict [(''cause'', PStr (cause_value RUNTIME)), (''divergence_type'', PStr ''stale_strategy_state''),
              (''stale_after_seconds'', PInt (mp_stale_after p))])
           (condition_evidence STALE_STRATEGY_STATE ekey now source
              (PDict [(''last_evaluated_at'', PStr (py_isoformat baseline)), (''stale_after_seconds'', PInt (mp_stale_after p))])) s)"

section \<open>Resolving\<close>

definition unresolved :: "mon_incident \<Rightarrow> bool" where
  "unresolved i \<longleftrightarrow> ic_status i \<in> {INC_OPEN, INC_ACKNOWLEDGED}"

definition resolve_where :: "(mon_incident \<Rightarrow> bool) \<Rightarrow> usec \<Rightarrow> string \<Rightarrow> string option \<Rightarrow> mon_session \<Rightarrow> mon_session" where
  "resolve_where P now actor note s =
     s\<lparr>ss_db := (ss_db s)\<lparr>mo_incidents := map (\<lambda>i. if P i \<and> unresolved i
         then i\<lparr>ic_status := INC_RESOLVED, ic_resolved_at := Some now, ic_resolved_by := Some actor, ic_resolution_note := note\<rparr>
         else i) (mo_incidents (ss_db s))\<rparr>\<rparr>"

abbreviation recovery_actor :: string where "recovery_actor \<equiv> ''strategy-monitoring-recovery''"

definition recover_stale_state :: "int \<Rightarrow> usec \<Rightarrow> mon_session \<Rightarrow> mon_session" where
  "recover_stale_state bid now =
     resolve_where (\<lambda>i. ic_binding i = bid \<and> ic_type i = ''stale_strategy_state'') now recovery_actor
       (Some ''Live evaluator resumed within the configured stale threshold.'')"

definition recover_stale_comparison_evidence :: "int \<Rightarrow> usec \<Rightarrow> mon_session \<Rightarrow> mon_session" where
  "recover_stale_comparison_evidence bid now =
     resolve_where (\<lambda>i. ic_binding i = bid \<and> ic_type i = ''stale_comparison_evidence'') now recovery_actor
       (Some ''Complete comparison evidence resumed within the configured threshold.'')"

definition unresolved_incidents :: "int \<Rightarrow> bool \<Rightarrow> mon_db \<Rightarrow> mon_incident list" where
  "unresolved_incidents bid include_stale db =
     filter (\<lambda>i. ic_binding i = bid \<and> unresolved i \<and> (include_stale \<or> ic_type i \<noteq> ''stale_strategy_state'')) (mo_incidents db)"

definition record_healthy_comparison ::
  "mon_binding \<Rightarrow> mon_health \<Rightarrow> monitoring_policy \<Rightarrow> usec \<Rightarrow> mon_session \<Rightarrow> mon_health \<times> mon_session" where
  "record_healthy_comparison b h p now s =
     (let h1 = h\<lparr>hl_checks := hl_checks h + 1, hl_healthy := Some now, hl_error := None\<rparr>;
          left = unresolved_incidents (bd_id b) False (ss_db s)
      in if hl_checks h1 < mp_recovery p
         then (if left \<noteq> []
               then (set_divergent_health (map (\<lambda>i. (ic_cause i, ic_severity i)) left) h1)\<lparr>hl_checks := hl_checks h1\<rparr>
               else set_healthy h1, s)
         else (set_healthy h1,
               resolve_where (\<lambda>i. ic_binding i = bd_id b \<and> ic_type i \<noteq> ''stale_strategy_state'') now recovery_actor
                 (Some (''Resolved after '' @ py_str_int (hl_checks h1) @ '' complete healthy comparison check(s).'')) s))"

section \<open>Assessing a run\<close>

definition finding_position :: "mon_env \<Rightarrow> finding_row \<Rightarrow> usec \<times> int" where
  "finding_position env f = (en_finding_created env f, en_finding_id env f)"

definition after_cursor :: "mon_env \<Rightarrow> (usec \<times> int) option \<Rightarrow> finding_row \<Rightarrow> bool" where
  "after_cursor env cursor f \<longleftrightarrow> (case cursor of None \<Rightarrow> True | Some c \<Rightarrow> c < finding_position env f)"

text \<open>One page: the next findings after the cursor, in order of creation.\<close>

definition next_page :: "mon_env \<Rightarrow> finding_row list \<Rightarrow> (usec \<times> int) option \<Rightarrow> finding_row list" where
  "next_page env fs cursor =
     take (en_page env) (sort_key (finding_position env) (filter (after_cursor env cursor) fs))"

text \<open>The projections of all findings and of those that are not about the reference, and their number.\<close>

type_synonym tally = "classification option \<times> classification option \<times> nat"

fun record_findings ::
  "mon_env \<Rightarrow> tick \<Rightarrow> mon_binding \<Rightarrow> comparison_run \<Rightarrow> monitoring_policy \<Rightarrow> usec \<Rightarrow> finding_row list \<Rightarrow> tally \<Rightarrow>
   mon_session \<Rightarrow> py_exn + tally \<times> mon_session" where
  "record_findings env tk b run p now [] acc s = Inr (acc, s)"
| "record_findings env tk b run p now (f # fs) (all, known, n) s =
     and_then (record_finding env tk b run p now f s) (\<lambda>(x, s1).
       record_findings env tk b run p now fs
         (Some (more_actionable all x), if fst x \<noteq> REFERENCE then Some (more_actionable known x) else known, n + 1) s1)"

lemma next_page_after: "f \<in> set (next_page env fs cursor) \<Longrightarrow> f \<in> set fs \<and> after_cursor env cursor f"
  unfolding next_page_def by (auto dest!: in_set_takeD)

lemma page_progress:
  assumes "next_page env fs cursor \<noteq> []"
  shows "length (filter (after_cursor env (Some (finding_position env (last (next_page env fs cursor))))) fs)
    < length (filter (after_cursor env cursor) fs)"
proof -
  let ?l = "last (next_page env fs cursor)"
  let ?P = "after_cursor env (Some (finding_position env ?l))"
  have l: "?l \<in> set fs" "after_cursor env cursor ?l" using next_page_after [of ?l env fs cursor] assms by simp_all
  have sub: "?P f \<Longrightarrow> after_cursor env cursor f" for f
    using l(2) by (cases cursor) (auto simp: after_cursor_def)
  have "filter ?P (filter (after_cursor env cursor) fs) = filter ?P fs" using sub by (auto intro: filter_cong)
  moreover have "length (filter ?P (filter (after_cursor env cursor) fs)) < length (filter (after_cursor env cursor) fs)"
    by (rule length_filter_less [of ?l]) (use l in \<open>simp_all add: after_cursor_def\<close>)
  ultimately show ?thesis by simp
qed

function process_pages ::
  "mon_env \<Rightarrow> tick \<Rightarrow> comparison_run \<Rightarrow> monitoring_policy \<Rightarrow> usec \<Rightarrow> finding_row list \<Rightarrow> nat \<Rightarrow> (usec \<times> int) option \<Rightarrow> tally \<Rightarrow>
   mon_binding \<Rightarrow> mon_session \<Rightarrow> py_exn + (tally \<times> mon_binding) \<times> mon_session" where
  "process_pages env tk run p now fs k cursor acc b s =
     (let page = next_page env fs cursor
      in if page = [] then Inr ((acc, b), s)
         else and_then (record_findings env tk b run p now page acc s) (\<lambda>(acc1, s1).
           let b1 = b\<lparr>bd_expires := Some (tk_page tk k + en_lease env)\<rparr>
           in if length page < en_page env then Inr ((acc1, b1), s1)
              else process_pages env tk run p now fs (k + 1) (Some (finding_position env (last page))) acc1 b1 s1))"
  by pat_completeness auto
termination
  by (relation "measure (\<lambda>(env, tk, run, p, now, fs, k, cursor, acc, b, s). length (filter (after_cursor env cursor) fs))")
    (simp_all add: page_progress)

declare process_pages.simps [simp del]

definition process_comparison_run ::
  "mon_env \<Rightarrow> tick \<Rightarrow> mon_binding \<Rightarrow> mon_health \<Rightarrow> monitoring_policy \<Rightarrow> comparison_run \<Rightarrow> string \<Rightarrow>
   mon_session \<Rightarrow> py_exn + (mon_binding \<times> mon_health) \<times> mon_session" where
  "process_comparison_run env tk b h p run worker s =
     (if rn_activation run \<noteq> bd_activation b \<or> rn_reference run \<noteq> bd_reference b \<or> rn_policy_hash run \<noteq> bd_comparison_hash b
      then Inl MonitoringError
      else
        let now = tk_now tk; fs = run_findings (rn_id run) (mo_base (ss_db s))
        in and_then (process_pages env tk run p now fs 0 None (None, None, 0) b s) (\<lambda>(((all, known, n), b1), s1).
          let s2 = s1\<lparr>ss_assessments := ss_assessments s1 @ [\<lparr>as_run = rn_id run, as_binding = bd_id b, as_activation = bd_activation b,
                     as_reference = bd_reference b, as_status = rn_status run, as_count = n, as_worker = worker, as_at = now\<rparr>]\<rparr>;
              h1 = h\<lparr>hl_comparison := Some now\<rparr>;
              current = (case hl_window h of None \<Rightarrow> True | Some w \<Rightarrow> w \<le> rn_end run);
              h2 = h1\<lparr>hl_complete := Some now, hl_window := Some (rn_end run)\<rparr>
          in case rn_status run of
               CMP_HEALTHY \<Rightarrow>
                 if n \<noteq> 0 then Inl MonitoringError
                 else if \<not> current then Inr ((b1, h1), s2)
                 else (case record_healthy_comparison b1 h2 p now s2 of (h3, s3) \<Rightarrow> Inr ((b1, h3), s3))
             | CMP_INSUFFICIENT_REFERENCE \<Rightarrow>
                 if \<not> current then Inr ((b1, h1), s2)
                 else Inr ((b1, (case known of None \<Rightarrow> set_unknown h1 | Some x \<Rightarrow> set_divergent_health [x] h1)
                        \<lparr>hl_error := Some ''comparison coverage is incomplete''\<rparr>), s2)
             | CMP_DIVERGENT \<Rightarrow>
                 (case all of
                    None \<Rightarrow> Inl MonitoringError
                  | Some x \<Rightarrow> if \<not> current then Inr ((b1, h1), s2) else Inr ((b1, set_divergent_health [x] h2), s2))))"

section \<open>Loading\<close>

record claim =
  cl_binding :: int
  cl_activation :: int
  cl_token :: string
  cl_worker :: string

definition locked_activation :: "int \<Rightarrow> mon_session \<Rightarrow> live_activation option" where
  "locked_activation i s = find (\<lambda>a. la_id a = i) (ld_activations (cm_live (mo_base (ss_db s))))"

definition owns_lease :: "claim \<Rightarrow> usec \<Rightarrow> mon_binding \<Rightarrow> bool" where
  "owns_lease c now b \<longleftrightarrow>
     bd_id b = cl_binding c \<and> bd_status b = BIND_ACTIVE \<and> bd_token b = Some (cl_token c) \<and> bd_worker b = Some (cl_worker c)
     \<and> (case bd_expires b of None \<Rightarrow> False | Some t \<Rightarrow> now < t)"

definition owned_binding :: "tick \<Rightarrow> claim \<Rightarrow> mon_session \<Rightarrow> mon_binding option" where
  "owned_binding tk c s = (if tk_locked tk then None else find (owns_lease c (tk_owned tk)) (mo_bindings (ss_db s)))"

definition health_state :: "mon_binding \<Rightarrow> live_activation \<Rightarrow> mon_session \<Rightarrow> mon_health \<times> mon_session" where
  "health_state b a s =
     (case find (\<lambda>h. hl_activation h = la_id a) (mo_health (ss_db s)) of
        Some h \<Rightarrow> (if hl_binding h \<noteq> bd_id b then set_unknown (h\<lparr>hl_binding := bd_id b\<rparr>) else h, s)
      | None \<Rightarrow>
          let h = \<lparr>hl_activation = la_id a, hl_binding = bd_id b, hl_status = H_UNKNOWN, hl_cause = None, hl_severity = None,
                   hl_comparison = None, hl_complete = None, hl_window = None, hl_healthy = None, hl_evaluated = None,
                   hl_checks = 0, hl_error = None\<rparr>
          in (h, s\<lparr>ss_db := (ss_db s)\<lparr>mo_health := mo_health (ss_db s) @ [h]\<rparr>\<rparr>))"

definition validated_policy :: "mon_env \<Rightarrow> mon_binding \<Rightarrow> py_exn + monitoring_policy" where
  "validated_policy env b =
     (case en_policy env (bd_policy b) of
        Inl e \<Rightarrow> Inl MonitoringError
      | Inr p \<Rightarrow> if mp_id p \<noteq> bd_policy_id b \<or> mp_revision p \<noteq> bd_policy_revision b \<or> policy_hash p \<noteq> bd_policy_hash b
                 then Inl MonitoringError else Inr p)"

definition validated_comparison_policy :: "mon_env \<Rightarrow> mon_binding \<Rightarrow> py_exn + comparison_policy" where
  "validated_comparison_policy env b =
     (case en_comparison_policy env (case bd_comparison b of None \<Rightarrow> PNone | Some v \<Rightarrow> v) of
        Inl e \<Rightarrow> Inl MonitoringError
      | Inr p \<Rightarrow> if cy_id p \<noteq> bd_comparison_id b \<or> cy_revision p \<noteq> bd_comparison_revision b
                    \<or> comparison_policy_hash p \<noteq> bd_comparison_hash b
                 then Inl MonitoringError else Inr p)"

definition next_pending_comparison :: "mon_env \<Rightarrow> mon_binding \<Rightarrow> mon_db \<Rightarrow> comparison_run option" where
  "next_pending_comparison env b db =
     (case sort_key (\<lambda>r. (rn_end r, en_run_created env r, rn_id r))
         (filter (\<lambda>r. rn_activation r = bd_activation b \<and> rn_reference r = bd_reference b
            \<and> rn_policy_hash r = bd_comparison_hash b \<and> rn_id r \<notin> as_run ` set (mo_assessments db)) (cm_runs (mo_base db))) of
        [] \<Rightarrow> None | r # _ \<Rightarrow> Some r)"

section \<open>Transactions of the monitor\<close>

text \<open>The common head: a failed or stopped activation ends the binding.\<close>

definition process_one_comparison :: "mon_env \<Rightarrow> tick \<Rightarrow> claim \<Rightarrow> mon_session \<Rightarrow> py_exn + bool \<times> mon_session" where
  "process_one_comparison env tk c s =
     (case locked_activation (cl_activation c) s of
        None \<Rightarrow> Inr (False, s)
      | Some a \<Rightarrow>
          (case owned_binding tk c s of
             None \<Rightarrow> Inr (False, s)
           | Some b \<Rightarrow>
               and_then (validated_policy env b) (\<lambda>p.
                 case health_state b a s of (h, s0) \<Rightarrow>
                   if la_status a = ACT_ERROR
                   then and_then (record_activation_runtime_failure tk b a h (Some p) None None INC_CRITICAL (tk_now tk) s0) (\<lambda>(h1, s1).
                          Inr (False, put_health h1 (put_binding (b\<lparr>bd_status := BIND_ERROR\<rparr>) s1)))
                   else if la_status a \<noteq> ACT_ACTIVE
                   then Inr (False, put_health (set_unknown h)
                          (put_binding (b\<lparr>bd_status := BIND_DEACTIVATED, bd_deactivated := Some (tk_now tk)\<rparr>) s0))
                   else case next_pending_comparison env b (ss_db s0) of
                          None \<Rightarrow> Inr (False, put_health h s0)
                        | Some run \<Rightarrow>
                            and_then (process_comparison_run env tk b h p run (cl_worker c) s0) (\<lambda>((b1, h1), s1).
                              Inr (True, put_health h1 (put_binding (b1\<lparr>bd_processed := Some (tk_done tk)\<rparr>) s1))))))"

text \<open>\<open>timedelta(seconds=n)\<close> holds less than a thousand million days.\<close>

definition timedelta_seconds :: "int \<Rightarrow> py_exn + usec" where
  "timedelta_seconds n = (if n < 86400 * 10 ^ 9 then Inr (n * second_us) else Inl (OtherException ''OverflowError''))"

definition evaluate_comparison_freshness ::
  "tick \<Rightarrow> mon_binding \<Rightarrow> live_activation \<Rightarrow> mon_health \<Rightarrow> monitoring_policy \<Rightarrow> mon_session \<Rightarrow> py_exn + mon_health \<times> mon_session" where
  "evaluate_comparison_freshness tk b a h p s =
     (let now = tk_now tk; baseline = (case hl_complete h of None \<Rightarrow> bd_registered b | Some t \<Rightarrow> t)
      in and_then (timedelta_seconds (mp_comparison_stale_after p)) (\<lambda>limit.
        if now - baseline < limit then Inr (h, recover_stale_comparison_evidence (bd_id b) now s)
        else and_then (record_stale_comparison_evidence tk b a p baseline (hl_window h) now s) (\<lambda>(v, s1).
          let current = (case (hl_cause h, hl_severity h) of (Some c, Some x) \<Rightarrow> Some (c, x) | _ \<Rightarrow> None);
              h1 = set_divergent_health [more_actionable current (REFERENCE, v)] h
          in Inr (h1\<lparr>hl_error := (case hl_error h1 of
                 None \<Rightarrow> Some ''no complete comparison evidence exists within the configured freshness threshold''
               | Some t \<Rightarrow> Some t)\<rparr>, s1))))"

definition evaluate_staleness ::
  "tick \<Rightarrow> mon_binding \<Rightarrow> live_activation \<Rightarrow> mon_health \<Rightarrow> monitoring_policy \<Rightarrow> mon_session \<Rightarrow> py_exn + mon_health \<times> mon_session" where
  "evaluate_staleness tk b a h p s =
     (let now = tk_stale tk; h0 = h\<lparr>hl_evaluated := la_last_evaluated a\<rparr>;
          baseline = (case la_last_evaluated a of None \<Rightarrow> la_activated_at a | Some t \<Rightarrow> t)
      in and_then (timedelta_seconds (mp_stale_after p)) (\<lambda>limit.
        if limit \<le> now - baseline
        then map_sum id (\<lambda>(v, s1). ((set_health H_STALE RUNTIME v h0)\<lparr>hl_error :=
               Some ''live strategy runtime has not evaluated canonical data within the configured stale threshold''\<rparr>, s1))
               (record_stale_state tk b a p baseline now s)
        else Inr (if hl_status h0 = H_STALE then (set_unknown h0)\<lparr>hl_error := None\<rparr> else h0, recover_stale_state (bd_id b) now s)))"

definition finalize_binding_cycle :: "mon_env \<Rightarrow> tick \<Rightarrow> claim \<Rightarrow> mon_session \<Rightarrow> py_exn + unit \<times> mon_session" where
  "finalize_binding_cycle env tk c s =
     (case locked_activation (cl_activation c) s of
        None \<Rightarrow> Inr ((), s)
      | Some a \<Rightarrow>
          (case owned_binding tk c s of
             None \<Rightarrow> Inr ((), s)
           | Some b \<Rightarrow>
               and_then (validated_policy env b) (\<lambda>p.
                 case health_state b a s of (h, s0) \<Rightarrow>
                   if la_status a = ACT_ERROR
                   then and_then (record_activation_runtime_failure tk b a h (Some p) None None INC_CRITICAL (tk_now tk) s0) (\<lambda>(h1, s1).
                          Inr ((), put_health h1 (put_binding (b\<lparr>bd_status := BIND_ERROR\<rparr>) s1)))
                   else if la_status a \<noteq> ACT_ACTIVE
                   then Inr ((), put_health (set_unknown h)
                          (put_binding (b\<lparr>bd_status := BIND_DEACTIVATED, bd_deactivated := Some (tk_now tk)\<rparr>) s0))
                   else and_then (evaluate_comparison_freshness tk b a h p s0) (\<lambda>(h1, s1).
                        and_then (evaluate_staleness tk b a h1 p s1) (\<lambda>(h2, s2).
                          Inr ((), put_health h2 (put_binding (b\<lparr>bd_processed := Some (tk_done tk)\<rparr>) s2)))))))"

text \<open>\<open>_record_binding_error\<close>: \<open>text\<close> is \<open>str(error)[:2000]\<close>; what it raises is only logged.\<close>

definition record_binding_error :: "mon_env \<Rightarrow> tick \<Rightarrow> claim \<Rightarrow> string \<Rightarrow> mon_session \<Rightarrow> py_exn + unit \<times> mon_session" where
  "record_binding_error env tk c text s =
     (case (locked_activation (cl_activation c) s, owned_binding tk c s) of
        (Some a, Some b) \<Rightarrow>
          (case health_state b a s of (h, s0) \<Rightarrow>
             let p = (case validated_policy env b of Inl e \<Rightarrow> None | Inr p \<Rightarrow> Some p)
             in and_then (runtime_severity p INC_CRITICAL 1) (\<lambda>v.
                and_then (record_activation_runtime_failure tk b a ((set_health H_ERROR RUNTIME v h)\<lparr>hl_error := Some text\<rparr>) p
                   (Some text) (Some ''monitoring_error'') v (tk_now tk) s0) (\<lambda>(h1, s1).
                     Inr ((), put_health h1 (put_binding (b\<lparr>bd_processed := Some (tk_done tk)\<rparr>) s1)))))
      | _ \<Rightarrow> Inr ((), s))"

section \<open>Leases\<close>

definition map_bindings :: "(mon_binding \<Rightarrow> mon_binding) \<Rightarrow> mon_db \<Rightarrow> mon_db" where
  "map_bindings f db = db\<lparr>mo_bindings := map f (mo_bindings db)\<rparr>"

definition clear_claim :: "mon_binding \<Rightarrow> mon_binding" where
  "clear_claim b = b\<lparr>bd_worker := None, bd_token := None, bd_expires := None, bd_claimed := None\<rparr>"

definition claimable :: "usec \<Rightarrow> int \<Rightarrow> mon_binding \<Rightarrow> bool" where
  "claimable now i b \<longleftrightarrow>
     bd_id b = i \<and> bd_status b = BIND_ACTIVE \<and> (case bd_expires b of None \<Rightarrow> True | Some t \<Rightarrow> t \<le> now)"

definition claim_binding ::
  "mon_env \<Rightarrow> tick \<Rightarrow> string \<Rightarrow> string \<Rightarrow> int \<Rightarrow> mon_db \<Rightarrow> claim option \<times> mon_db" where
  "claim_binding env tk token worker i db =
     (case (if tk_locked tk then None else find (claimable (tk_now tk) i) (mo_bindings db)) of
        None \<Rightarrow> (None, db)
      | Some b \<Rightarrow>
          (Some \<lparr>cl_binding = i, cl_activation = bd_activation b, cl_token = token, cl_worker = worker\<rparr>,
           map_bindings (\<lambda>x. if bd_id x = i
             then x\<lparr>bd_worker := Some worker, bd_token := Some token, bd_claimed := Some (tk_now tk),
                    bd_expires := Some (tk_now tk + en_lease env), bd_attempts := bd_attempts x + 1\<rparr> else x) db))"

definition release_claim :: "claim \<Rightarrow> mon_db \<Rightarrow> mon_db" where
  "release_claim c = map_bindings (\<lambda>b. if bd_id b = cl_binding c \<and> bd_token b = Some (cl_token c) then clear_claim b else b)"

definition renew_claim :: "mon_env \<Rightarrow> tick \<Rightarrow> claim \<Rightarrow> mon_db \<Rightarrow> bool \<times> mon_db" where
  "renew_claim env tk c db =
     (list_ex (owns_lease c (tk_now tk)) (mo_bindings db),
      map_bindings (\<lambda>b. if owns_lease c (tk_now tk) b then b\<lparr>bd_expires := Some (tk_now tk + en_lease env)\<rparr> else b) db)"

section \<open>Registration and the operator\<close>

abbreviation RegistrationError :: py_exn where "RegistrationError \<equiv> OtherException ''StrategyMonitoringRegistrationError''"
abbreviation IncidentNotFoundError :: py_exn where "IncidentNotFoundError \<equiv> OtherException ''StrategyIncidentNotFoundError''"
abbreviation DBAPIError :: py_exn where "DBAPIError \<equiv> OtherException ''DBAPIError''"

definition same_registration :: "registration \<Rightarrow> mon_binding \<Rightarrow> bool" where
  "same_registration r b \<longleftrightarrow>
     bd_reference b = rg_reference r \<and> bd_comparison_id b = rg_policy_id r \<and> bd_comparison_revision b = rg_policy_revision r
     \<and> bd_comparison_hash b = rg_policy_hash r \<and> bd_policy_hash b = policy_hash (rg_policy r)"

definition build_binding :: "int \<Rightarrow> usec \<Rightarrow> live_activation \<Rightarrow> registration \<Rightarrow> mon_binding" where
  "build_binding uid now a r =
     (let p = rg_policy r in
      \<lparr>bd_id = uid, bd_activation = la_id a, bd_reference = rg_reference r, bd_comparison_id = rg_policy_id r,
       bd_comparison_revision = rg_policy_revision r, bd_comparison_hash = rg_policy_hash r,
       bd_comparison = Some (comparison_policy_dump (rg_comparison r)), bd_policy_id = mp_id p, bd_policy_revision = mp_revision p,
       bd_policy_hash = policy_hash p, bd_policy = policy_dump p, bd_status = BIND_ACTIVE, bd_registered = now,
       bd_deactivated = None, bd_processed = None, bd_worker = None, bd_token = None, bd_expires = None, bd_claimed = None,
       bd_attempts = 0\<rparr>)"

definition deactivated :: "usec \<Rightarrow> mon_binding \<Rightarrow> mon_binding" where
  "deactivated now b = clear_claim (b\<lparr>bd_status := BIND_DEACTIVATED, bd_deactivated := Some now\<rparr>)"

text \<open>
  \<open>register\<close>.  The flush writes a health row and the new binding it refers to; when the health row goes
  first, the trigger on its \<open>binding_id\<close> finds no such binding and raises.
\<close>

definition register_session :: "mon_env \<Rightarrow> usec \<Rightarrow> int \<Rightarrow> registration \<Rightarrow> mon_session \<Rightarrow> py_exn + mon_binding \<times> mon_session" where
  "register_session env now uid r s =
     (case locked_activation (rg_activation r) s of
        None \<Rightarrow> Inl RegistrationError
      | Some a \<Rightarrow>
          if la_status a \<noteq> ACT_ACTIVE then Inl RegistrationError
          else case find (\<lambda>x. br_run x = rg_reference r) (bt_results (cm_backtests (mo_base (ss_db s)))) of
                 None \<Rightarrow> Inl RegistrationError
               | Some ref \<Rightarrow>
                   if br_strategy ref \<noteq> la_strategy a then Inl RegistrationError
                   else
                     let existing = find (\<lambda>b. bd_activation b = la_id a \<and> bd_status b = BIND_ACTIVE) (mo_bindings (ss_db s));
                         b = build_binding uid now a r
                     in if (case existing of None \<Rightarrow> False | Some x \<Rightarrow> same_registration r x) then Inr (the existing, s)
                        else
                          let s1 = (case existing of None \<Rightarrow> s | Some x \<Rightarrow> put_binding (deactivated now x) s);
                              (h, s2) = health_state b a s1;
                              h1 = (set_unknown (h\<lparr>hl_binding := uid\<rparr>))\<lparr>hl_error := None\<rparr>
                          in if en_health_first env then Inl DBAPIError
                             else Inr (b, put_health h1 (s2\<lparr>ss_db := (ss_db s2)\<lparr>mo_bindings := mo_bindings (ss_db s2) @ [b]\<rparr>\<rparr>)))"

definition register :: "mon_env \<Rightarrow> usec \<Rightarrow> int \<Rightarrow> registration \<Rightarrow> mon_db \<Rightarrow> (py_exn + mon_binding) \<times> mon_db" where
  "register env now uid r = in_transaction (register_session env now uid r)"

definition deactivate_session :: "usec \<Rightarrow> int \<Rightarrow> mon_session \<Rightarrow> py_exn + bool \<times> mon_session" where
  "deactivate_session now i s =
     (case find (\<lambda>b. bd_id b = i) (mo_bindings (ss_db s)) of
        None \<Rightarrow> Inr (False, s)
      | Some b \<Rightarrow>
          if bd_status b \<noteq> BIND_ACTIVE then Inr (True, s)
          else
            let s1 = put_binding (deactivated now b) s
            in case find (\<lambda>h. hl_activation h = bd_activation b) (mo_health (ss_db s1)) of
                 None \<Rightarrow> Inr (True, s1)
               | Some h \<Rightarrow> if hl_binding h = bd_id b then Inr (True, put_health ((set_unknown h)\<lparr>hl_error := None\<rparr>) s1)
                           else Inr (True, s1))"

definition deactivate_binding :: "usec \<Rightarrow> int \<Rightarrow> mon_db \<Rightarrow> (py_exn + bool) \<times> mon_db" where
  "deactivate_binding now i = in_transaction (deactivate_session now i)"

definition operator_text_ok :: "string \<Rightarrow> string option \<Rightarrow> bool" where
  "operator_text_ok actor note \<longleftrightarrow> py_strip actor \<noteq> [] \<and> pred_option (\<lambda>n. length n \<le> 2000) note"

text \<open>The column of the actor has 128 characters.\<close>

definition acknowledge_incident :: "usec \<Rightarrow> int \<Rightarrow> string \<Rightarrow> string option \<Rightarrow> mon_db \<Rightarrow> (py_exn + mon_incident) \<times> mon_db" where
  "acknowledge_incident now i actor note db =
     (if \<not> operator_text_ok actor note then (Inl MonitoringError, db)
      else in_transaction (\<lambda>s.
        case find (\<lambda>x. ic_id x = i) (mo_incidents (ss_db s)) of
          None \<Rightarrow> Inl IncidentNotFoundError
        | Some x \<Rightarrow>
            if ic_status x = INC_RESOLVED then Inl MonitoringError
            else if ic_status x \<noteq> INC_OPEN then Inr (x, s)
            else if 128 < length (py_strip actor) then Inl DataError
            else let x' = x\<lparr>ic_status := INC_ACKNOWLEDGED, ic_ack_at := Some now, ic_ack_by := Some (py_strip actor), ic_ack_note := note\<rparr>
                 in Inr (x', put_incident x' s)) db)"

definition resolve_incident :: "usec \<Rightarrow> int \<Rightarrow> string \<Rightarrow> string option \<Rightarrow> mon_db \<Rightarrow> (py_exn + mon_incident) \<times> mon_db" where
  "resolve_incident now i actor note db =
     (if \<not> operator_text_ok actor note then (Inl MonitoringError, db)
      else in_transaction (\<lambda>s.
        case find (\<lambda>x. ic_id x = i) (mo_incidents (ss_db s)) of
          None \<Rightarrow> Inl IncidentNotFoundError
        | Some x \<Rightarrow>
            if ic_status x = INC_RESOLVED then Inr (x, s)
            else if 128 < length (py_strip actor) then Inl DataError
            else let x' = x\<lparr>ic_status := INC_RESOLVED, ic_resolved_at := Some now, ic_resolved_by := Some (py_strip actor),
                     ic_resolution_note := note\<rparr>
                 in Inr (x', put_incident x' s)) db)"

section \<open>Producing comparisons\<close>

definition previous_end :: "mon_binding \<Rightarrow> comparison_db \<Rightarrow> usec option" where
  "previous_end b db =
     (case map rn_end (filter (\<lambda>r. rn_activation r = bd_activation b \<and> rn_reference r = bd_reference b
         \<and> rn_policy_hash r = bd_comparison_hash b) (cm_runs db)) of
        [] \<Rightarrow> None | t # ts \<Rightarrow> Some (fold max ts t))"

definition cursor_values :: "int \<Rightarrow> live_db \<Rightarrow> usec list" where
  "cursor_values act db = some_values (map ls_last_candle (filter (\<lambda>x. ls_activation x = act) (ld_states db)))"

definition plan_window :: "mon_env \<Rightarrow> live_activation \<Rightarrow> usec option \<Rightarrow> usec list \<Rightarrow> (usec \<times> usec) option" where
  "plan_window env a prev cursors =
     (case cursors of
        [] \<Rightarrow> None
      | t # ts \<Rightarrow>
          let common_end = fold min ts t;
              start = (case prev of Some e \<Rightarrow> e + 1 | None \<Rightarrow> la_activated_at a);
              stop = min common_end (start + en_max_window env)
          in if common_end \<le> start then None else if stop \<le> start then None else Some (start, stop))"

definition next_comparison_plan ::
  "mon_env \<Rightarrow> tick \<Rightarrow> claim \<Rightarrow> mon_session \<Rightarrow> py_exn + (int \<times> string \<times> supplement) option \<times> mon_session" where
  "next_comparison_plan env tk c s =
     (case (locked_activation (cl_activation c) s, owned_binding tk c s) of
        (Some a, Some b) \<Rightarrow>
          if la_status a \<noteq> ACT_ACTIVE then Inr (None, s)
          else and_then (validated_comparison_policy env b) (\<lambda>p.
            let base = mo_base (ss_db s)
            in case plan_window env a (previous_end b base) (cursor_values (la_id a) (cm_live base)) of
                 None \<Rightarrow> Inr (None, s)
               | Some (start, stop) \<Rightarrow>
                   and_then (make_supplement (Aware start 0) (Aware stop 0)
                     \<lparr>su_policy = p, su_start = start, su_end = stop, su_complete = True, su_expected_hash = None,
                      su_reference_candles = [], su_observed_candles = [], su_executions = [], su_positions = [],
                      su_performance = None,
                      su_source = [(''producer'', PStr ''quantive.canonical-live-observations''),
                        (''coverage_mode'', PStr ''durable_per_asset_cursor''), (''binding_id'', PStr (uuid_text (bd_id b)))]\<rparr>) (\<lambda>su.
                     Inr (Some (la_id a, bd_reference b, su), s)))
      | _ \<Rightarrow> Inr (None, s))"

text \<open>Two transactions; \<open>others\<close> and \<open>race\<close> are what other processes commit between and during them.\<close>

definition produce_next_comparison ::
  "mon_env \<Rightarrow> tick \<Rightarrow> claim \<Rightarrow> (mon_db \<Rightarrow> mon_db) \<Rightarrow> (comparison_db \<Rightarrow> comparison_db) \<Rightarrow> mon_db \<Rightarrow> (py_exn + bool) \<times> mon_db" where
  "produce_next_comparison env tk c others race db =
     (case in_transaction (next_comparison_plan env tk c) db of
        (Inl e, db1) \<Rightarrow> (Inl e, db1)
      | (Inr None, db1) \<Rightarrow> (Inr False, db1)
      | (Inr (Some (act, ref, su)), db1) \<Rightarrow>
          let db2 = others db1
          in case compare_activation (en_comparison env) act ref su race (mo_base db2) of
               (res, base) \<Rightarrow> (map_sum id (\<lambda>_. True) res, db2\<lparr>mo_base := base\<rparr>))"

section \<open>Cycles\<close>

text \<open>
  What one worker does with one binding.  Its \<open>n\<close>-th transaction gets the tick \<open>tk n\<close>, and \<open>others n\<close>
  is what everyone else committed since the one before; \<open>txt\<close> is the text of an exception.
\<close>

fun process_runs ::
  "mon_env \<Rightarrow> (nat \<Rightarrow> tick) \<Rightarrow> (nat \<Rightarrow> mon_db \<Rightarrow> mon_db) \<Rightarrow> (py_exn \<Rightarrow> string) \<Rightarrow> claim \<Rightarrow> nat \<Rightarrow> nat \<Rightarrow> nat \<Rightarrow> mon_db \<Rightarrow>
   nat \<times> bool \<times> nat \<times> mon_db" where
  "process_runs env tk others txt c 0 n processed db = (processed, False, n, db)"
| "process_runs env tk others txt c (Suc k) n processed db =
     (case in_transaction (process_one_comparison env (tk n) c) (others n db) of
        (Inl e, db1) \<Rightarrow>
          (processed, True, n + 2, snd (in_transaction (record_binding_error env (tk (n + 1)) c (take 2000 (txt e))) (others (n + 1) db1)))
      | (Inr False, db1) \<Rightarrow> (processed, False, n + 1, db1)
      | (Inr True, db1) \<Rightarrow>
          (case renew_claim env (tk (n + 1)) c (others (n + 1) db1) of
             (True, db2) \<Rightarrow> process_runs env tk others txt c k (n + 2) (processed + 1) db2
           | (False, db2) \<Rightarrow> (processed + 1, False, n + 2, db2)))"

definition process_binding ::
  "mon_env \<Rightarrow> (nat \<Rightarrow> tick) \<Rightarrow> (nat \<Rightarrow> mon_db \<Rightarrow> mon_db) \<Rightarrow> (py_exn \<Rightarrow> string) \<Rightarrow> string \<Rightarrow> string \<Rightarrow> int \<Rightarrow> mon_db \<Rightarrow> nat \<times> mon_db" where
  "process_binding env tk others txt token worker i db =
     (case claim_binding env (tk 0) token worker i (others 0 db) of
        (None, db1) \<Rightarrow> (0, db1)
      | (Some c, db1) \<Rightarrow>
          (case process_runs env tk others txt c (en_max_runs env) 1 0 db1 of
             (k, failed, n, db2) \<Rightarrow>
               (case (if failed then (n, db2)
                      else case in_transaction (finalize_binding_cycle env (tk n) c) (others n db2) of
                             (Inr _, db3) \<Rightarrow> (n + 1, db3)
                           | (Inl e, db3) \<Rightarrow>
                               (n + 2, snd (in_transaction (record_binding_error env (tk (n + 1)) c (take 2000 (txt e))) (others (n + 1) db3)))) of
                  (m, db4) \<Rightarrow> (k, release_claim c (others m db4)))))"

definition active_bindings :: "nat \<Rightarrow> mon_db \<Rightarrow> int list" where
  "active_bindings limit db =
     map bd_id (take limit (sort_key (\<lambda>b. (bd_processed b, bd_registered b, bd_id b))
       (filter (\<lambda>b. bd_status b = BIND_ACTIVE) (mo_bindings db))))"

end
