(* ===== verification/Monitoring_Paging.thy ===== *)
theory Monitoring_Paging
  imports Monitoring_Service
begin

text \<open>
  Reading the findings of a run page by page, with a cursor of creation time and id, is the same as
  recording all of them in one pass.
\<close>

lemma and_then_simps: "and_then (Inl e) f = Inl e" "and_then (Inr a) f = f a"
  by (simp_all add: and_then_def)

lemma record_findings_append:
  "record_findings env tk b run p now (xs @ ys) acc s =
     and_then (record_findings env tk b run p now xs acc s) (\<lambda>(acc1, s1). record_findings env tk b run p now ys acc1 s1)"
proof (induction xs arbitrary: acc s)
  case Nil
  then show ?case by (simp add: and_then_def)
next
  case (Cons x xs)
  obtain all known n where acc: "acc = (all, known, n)" by (cases acc)
  show ?case
  proof (cases "record_finding env tk b run p now x s")
    case (Inl e)
    then show ?thesis by (simp add: acc and_then_def)
  next
    case (Inr r)
    obtain c s1 where r: "r = (c, s1)" by (cases r)
    show ?thesis using Inr Cons.IH by (simp add: acc r and_then_def)
  qed
qed

text \<open>Recording reads only the identity of a binding, never its lease.\<close>

lemma record_finding_lease:
  "record_finding env tk (b\<lparr>bd_expires := x\<rparr>) run p now f s = record_finding env tk b run p now f s"
proof -
  have "new_incident tk s (b\<lparr>bd_expires := x\<rparr>) = new_incident tk s b" for s
    by (rule ext)+ (simp add: new_incident_def)
  moreover have "finding_source_reference env (b\<lparr>bd_expires := x\<rparr>) = finding_source_reference env b"
    by (rule ext)+ (simp add: finding_source_reference_def)
  moreover from this have "finding_evidence env (b\<lparr>bd_expires := x\<rparr>) = finding_evidence env b"
    by (intro ext) (simp add: finding_evidence_def)
  moreover have "incident_dedup_key (b\<lparr>bd_expires := x\<rparr>) = incident_dedup_key b"
    by (rule ext)+ (simp add: incident_dedup_key_def)
  ultimately show ?thesis by (simp only: record_finding_def)
qed

lemma record_findings_lease:
  "record_findings env tk (b\<lparr>bd_expires := x\<rparr>) run p now fs acc s = record_findings env tk b run p now fs acc s"
proof (induction fs arbitrary: acc s)
  case (Cons f fs)
  obtain all known n where acc: "acc = (all, known, n)" by (cases acc)
  show ?case
    unfolding acc record_findings.simps record_finding_lease
    by (rule arg_cong [where f = "and_then _"]) (rule ext, clarsimp simp only: prod.case split_beta Cons.IH)
qed simp

lemma sorted_by_position:
  fixes pos :: "'a \<Rightarrow> 'b::linorder"
  assumes "distinct (map pos xs)"
  shows "sorted_wrt (\<lambda>x y. pos x < pos y) (sort_key pos xs)"
proof -
  let ?l = "map pos (sort_key pos xs)"
  have "mset ?l = mset (map pos xs)" by simp
  then have "distinct ?l" using assms mset_eq_imp_distinct_iff by blast
  moreover have "sorted ?l" by simp
  ultimately have "sorted_wrt (<) ?l" by (simp add: strict_sorted_iff)
  then show ?thesis by (simp add: sorted_wrt_map)
qed

text \<open>In a strictly sorted list, what is beyond the last element of a prefix is the rest.\<close>

lemma beyond_last_of_prefix:
  fixes pos :: "'a \<Rightarrow> 'b::linorder"
  assumes "sorted_wrt (\<lambda>x y. pos x < pos y) (us @ [l] @ vs)"
  shows "filter (\<lambda>x. pos l < pos x) (us @ [l] @ vs) = vs"
proof -
  have "\<forall>x \<in> set us. \<not> pos l < pos x" "\<forall>x \<in> set vs. pos l < pos x"
    using assms by (auto simp: sorted_wrt_append)
  then show ?thesis by (simp add: filter_True)
qed

lemma beyond_page:
  fixes pos :: "'a \<Rightarrow> 'b::linorder"
  assumes "distinct (map pos xs)" and ne: "take n (sort_key pos xs) \<noteq> []"
  shows "sort_key pos (filter (\<lambda>x. pos (last (take n (sort_key pos xs))) < pos x) xs) = drop n (sort_key pos xs)"
proof -
  let ?t = "take n (sort_key pos xs)"
  have split: "sort_key pos xs = butlast ?t @ [last ?t] @ drop n (sort_key pos xs)"
    using ne by (metis append.assoc append_butlast_last_id append_take_drop_id)
  have "filter (\<lambda>x. pos (last ?t) < pos x) (sort_key pos xs) = drop n (sort_key pos xs)"
    by (subst (2) split, rule beyond_last_of_prefix) (use sorted_by_position [OF assms(1)] split in simp)
  then show ?thesis by (simp only: filter_sort)
qed

lemma cursor_advances:
  assumes "after_cursor env cursor l"
  shows "filter (after_cursor env (Some (finding_position env l))) fs =
    filter (\<lambda>x. finding_position env l < finding_position env x) (filter (after_cursor env cursor) fs)"
proof -
  have below: "finding_position env l < finding_position env x \<Longrightarrow> after_cursor env cursor x" for x
    using assms by (cases cursor) (auto simp: after_cursor_def)
  have "after_cursor env (Some (finding_position env l)) x \<longleftrightarrow>
      after_cursor env cursor x \<and> finding_position env l < finding_position env x" for x
    using below [of x] by (auto simp: after_cursor_def [of env "Some (finding_position env l)"])
  then show ?thesis unfolding filter_filter by (intro filter_cong refl)
qed

lemma rest_of_pages:
  assumes "distinct (map (finding_position env) fs)" and "next_page env fs cursor \<noteq> []"
  shows "sort_key (finding_position env) (filter (after_cursor env (Some (finding_position env (last (next_page env fs cursor))))) fs)
    = drop (en_page env) (sort_key (finding_position env) (filter (after_cursor env cursor) fs))"
proof -
  have l: "after_cursor env cursor (last (next_page env fs cursor))"
    using next_page_after [of "last (next_page env fs cursor)" env fs cursor] assms(2) by simp
  have d: "distinct (map (finding_position env) (filter (after_cursor env cursor) fs))" using assms(1) by (rule distinct_map_filter)
  show ?thesis
    unfolding cursor_advances [OF l] unfolding next_page_def
    by (rule beyond_page [OF d]) (use assms(2) in \<open>simp add: next_page_def\<close>)
qed

lemma pages_end:
  assumes "next_page env fs cursor = []"
  shows "process_pages env tk run p now fs k cursor acc b s = Inr ((acc, b), s)"
  by (subst process_pages.simps) (simp only: assms Let_def if_True simp_thms)

lemma pages_raise:
  assumes "next_page env fs cursor \<noteq> []" and "record_findings env tk b run p now (next_page env fs cursor) acc s = Inl e"
  shows "process_pages env tk run p now fs k cursor acc b s = Inl e"
  by (subst process_pages.simps) (simp only: assms Let_def if_False and_then_simps)

lemma pages_step:
  assumes "next_page env fs cursor \<noteq> []" and "record_findings env tk b run p now (next_page env fs cursor) acc s = Inr (acc1, s1)"
  shows "process_pages env tk run p now fs k cursor acc b s =
    (let b1 = b\<lparr>bd_expires := Some (tk_page tk k + en_lease env)\<rparr>
     in if length (next_page env fs cursor) < en_page env then Inr ((acc1, b1), s1)
        else process_pages env tk run p now fs (k + 1) (Some (finding_position env (last (next_page env fs cursor)))) acc1 b1 s1)"
  by (subst process_pages.simps) (simp only: assms Let_def if_False and_then_simps prod.case)

lemma pages_whole:
  assumes "1 \<le> en_page env" and "distinct (map (finding_position env) fs)"
  shows "map_sum id (\<lambda>((acc1, b1), s1). (acc1, s1)) (process_pages env tk run p now fs k cursor acc b s) =
    record_findings env tk b run p now (sort_key (finding_position env) (filter (after_cursor env cursor) fs)) acc s"
  using assms
proof (induction env tk run p now fs k cursor acc b s rule: process_pages.induct)
  case (1 env tk run p now fs k cursor acc b s)
  let ?L = "sort_key (finding_position env) (filter (after_cursor env cursor) fs)"
  let ?page = "next_page env fs cursor"
  let ?rec = "\<lambda>xs acc s. record_findings env tk b run p now xs acc s"
  have page: "?page = take (en_page env) ?L" by (simp add: next_page_def)
  have L: "?L = ?page @ drop (en_page env) ?L" by (simp add: page)
  show ?case
  proof (cases "?page = []")
    case True
    then have "?L = []" using "1.prems"(1) page by (cases ?L) auto
    then show ?thesis by (simp add: pages_end [OF True])
  next
    case False
    have whole: "?rec ?L acc s = and_then (?rec ?page acc s) (\<lambda>(acc1, s1). ?rec (drop (en_page env) ?L) acc1 s1)"
      by (subst L) (rule record_findings_append)
    show ?thesis
    proof (cases "?rec ?page acc s")
      case (Inl e)
      show ?thesis by (simp only: pages_raise [OF False Inl] whole Inl and_then_simps map_sum.simps id_apply)
    next
      case (Inr r)
      obtain acc1 s1 where r: "r = (acc1, s1)" by (cases r)
      let ?b = "b\<lparr>bd_expires := Some (tk_page tk k + en_lease env)\<rparr>"
      let ?new = "Some (finding_position env (last ?page))"
      have rest: "?rec ?L acc s = ?rec (drop (en_page env) ?L) acc1 s1"
        by (simp only: whole Inr r and_then_simps prod.case)
      note step = pages_step [OF False Inr [unfolded r], of k, unfolded Let_def]
      show ?thesis
      proof (cases "length ?page < en_page env")
        case True
        then have "drop (en_page env) ?L = []" by (simp add: page min_def split: if_splits)
        then show ?thesis by (simp add: step True rest)
      next
        case more: False
        have "map_sum id (\<lambda>((acc1, b1), s1). (acc1, s1)) (process_pages env tk run p now fs (k + 1) ?new acc1 ?b s1) =
            record_findings env tk ?b run p now (sort_key (finding_position env) (filter (after_cursor env ?new) fs)) acc1 s1"
          by (rule "1.IH" [OF refl False refl more "1.prems"])
        also have "\<dots> = ?rec (drop (en_page env) ?L) acc1 s1"
          by (simp only: record_findings_lease rest_of_pages [OF "1.prems"(2) False])
        finally show ?thesis by (simp only: step more if_False rest)
      qed
    qed
  qed
qed

text \<open>
  C31: However small the pages are, a run is assessed exactly as if all its findings had been read at once,
  in order of creation: none is skipped at a page boundary and none is recorded twice.
\<close>

theorem paging_equals_whole:
  assumes "1 \<le> en_page env" and "distinct (map (finding_position env) fs)"
  shows "map_sum id (\<lambda>((acc1, b1), s1). (acc1, s1)) (process_pages env tk run p now fs 0 None acc b s) =
    record_findings env tk b run p now (sort_key (finding_position env) fs) acc s"
  using pages_whole [OF assms, where cursor = None] by (simp add: after_cursor_def)

end
