(* ===== verification/Monitoring_Ledger.thy ===== *)
theory Monitoring_Ledger
  imports Monitoring_Paging
begin

text \<open>
  The incident ledger: every recording operation of the monitor is a sequence of four elementary
  steps, and each step keeps the books: an incident counts exactly its pieces of evidence.
\<close>

section \<open>Identities\<close>

definition binding_identity :: "mon_binding \<Rightarrow> mon_binding" where
  "binding_identity b = b\<lparr>bd_status := BIND_ACTIVE, bd_deactivated := None, bd_processed := None, bd_worker := None,
     bd_token := None, bd_expires := None, bd_claimed := None, bd_attempts := 0\<rparr>"

definition incident_identity :: "mon_incident \<Rightarrow> mon_incident" where
  "incident_identity i = i\<lparr>ic_severity := INC_INFO, ic_status := INC_OPEN, ic_last := 0, ic_count := 1, ic_ack_at := None,
     ic_ack_by := None, ic_ack_note := None, ic_resolved_at := None, ic_resolved_by := None, ic_resolution_note := None,
     ic_run := None, ic_finding := None, ic_source := PNone, ic_summary := PNone\<rparr>"

lemma same_binding_columns:
  assumes "binding_identity b = binding_identity b'"
  shows "bd_id b = bd_id b'" "bd_activation b = bd_activation b'" "bd_reference b = bd_reference b'"
    "bd_policy_hash b = bd_policy_hash b'" "bd_comparison_hash b = bd_comparison_hash b'" "bd_registered b = bd_registered b'"
  using assms unfolding binding_identity_def by (cases b; cases b'; simp)+

lemma same_incident_columns:
  assumes "incident_identity i = incident_identity i'"
  shows "ic_id i = ic_id i'" "ic_key i = ic_key i'" "ic_binding i = ic_binding i'" "ic_activation i = ic_activation i'"
    "ic_reference i = ic_reference i'" "ic_policy_hash i = ic_policy_hash i'" "ic_type i = ic_type i'" "ic_first i = ic_first i'"
  using assms unfolding incident_identity_def by (cases i; cases i'; simp)+

section \<open>What the checks of the tables ask of a row\<close>

definition binding_shape :: "mon_binding \<Rightarrow> bool" where
  "binding_shape b \<longleftrightarrow>
     (bd_worker b = None \<longleftrightarrow> bd_token b = None) \<and> (bd_token b = None \<longleftrightarrow> bd_expires b = None)
     \<and> (bd_status b = BIND_ACTIVE \<longrightarrow> bd_comparison b \<noteq> None) \<and> 0 \<le> bd_attempts b"

definition health_shape :: "mon_health \<Rightarrow> bool" where
  "health_shape h \<longleftrightarrow>
     0 \<le> hl_checks h
     \<and> (if hl_status h \<in> {H_UNKNOWN, H_HEALTHY} then hl_cause h = None \<and> hl_severity h = None
        else hl_cause h \<noteq> None \<and> hl_severity h \<noteq> None)"

definition incident_shape :: "mon_incident \<Rightarrow> bool" where
  "incident_shape i \<longleftrightarrow>
     0 < ic_count i \<and> (ic_ack_at i = None \<or> ic_ack_by i \<noteq> None)
     \<and> (ic_status i = INC_ACKNOWLEDGED \<longrightarrow> ic_ack_at i \<noteq> None) \<and> (ic_status i = INC_RESOLVED \<longrightarrow> ic_resolved_at i \<noteq> None)
     \<and> (ic_run i = None \<longleftrightarrow> ic_finding i = None)"

definition evidence_shape :: "mon_evidence \<Rightarrow> bool" where
  "evidence_shape e \<longleftrightarrow>
     (if me_kind e = DIVERGENCE_FINDING then me_finding e \<noteq> None \<and> me_run e \<noteq> None else me_finding e = None \<and> me_run e = None)"

section \<open>Steps of the ledger\<close>

definition opened :: "mon_binding \<Rightarrow> mon_incident \<Rightarrow> bool" where
  "opened b i \<longleftrightarrow>
     ic_binding i = bd_id b \<and> ic_activation i = bd_activation b \<and> ic_reference i = bd_reference b \<and> ic_policy_hash i = bd_policy_hash b
     \<and> ic_count i = 1 \<and> ic_status i = INC_OPEN \<and> incident_shape i"

definition bumped :: "mon_incident \<Rightarrow> mon_incident \<Rightarrow> bool" where
  "bumped i i' \<longleftrightarrow>
     incident_identity i' = incident_identity i \<and> ic_count i' = ic_count i + 1 \<and> ic_severity i \<le> ic_severity i'
     \<and> ic_status i' \<noteq> INC_RESOLVED \<and> (incident_shape i \<longrightarrow> incident_shape i')"

text \<open>An assessment belongs to the binding and to a stored run of its scope.\<close>

definition assessed_for :: "mon_binding \<Rightarrow> comparison_db \<Rightarrow> mon_assessment \<Rightarrow> bool" where
  "assessed_for b base x \<longleftrightarrow>
     as_binding x = bd_id b \<and> as_activation x = bd_activation b \<and> as_reference x = bd_reference b
     \<and> (\<exists>run \<in> set (cm_runs base). rn_id run = as_run x \<and> rn_activation run = bd_activation b
          \<and> rn_reference run = bd_reference b \<and> rn_policy_hash run = bd_comparison_hash b)"

text \<open>\<open>R\<close>: the incidents the monitor may close by itself; \<open>b\<close>: the binding it works for.\<close>

inductive ledger_steps :: "(mon_incident \<Rightarrow> bool) \<Rightarrow> mon_binding \<Rightarrow> mon_session \<Rightarrow> mon_session \<Rightarrow> bool" for R b where
  quiet: "ledger_steps R b s s"
| raised: "ledger_steps R b s s1 \<Longrightarrow> opened b i \<Longrightarrow> me_incident e = ic_id i \<Longrightarrow> evidence_shape e \<Longrightarrow>
     ledger_steps R b s (add_evidence e (add_incident i s1))"
| recurred: "ledger_steps R b s s1 \<Longrightarrow> i \<in> set (mo_incidents (ss_db s1)) \<Longrightarrow> bumped i i' \<Longrightarrow> me_incident e = ic_id i \<Longrightarrow>
     evidence_shape e \<Longrightarrow> ledger_steps R b s (add_evidence e (put_incident i' s1))"
| recovered: "ledger_steps R b s s1 \<Longrightarrow> (\<And>i. P i \<Longrightarrow> R i) \<Longrightarrow> ledger_steps R b s (resolve_where P now actor note s1)"
| assessed: "ledger_steps R b s s1 \<Longrightarrow> assessed_for b (mo_base (ss_db s1)) x \<Longrightarrow>
     ledger_steps R b s (s1\<lparr>ss_assessments := ss_assessments s1 @ [x]\<rparr>)"

lemma bumped_id: "bumped i i' \<Longrightarrow> ic_id i' = ic_id i"
  by (rule same_incident_columns(1)) (simp add: bumped_def)

lemma ledger_trans:
  assumes "ledger_steps R b s1 s2" and "ledger_steps R b s0 s1"
  shows "ledger_steps R b s0 s2"
  using assms by (induction rule: ledger_steps.induct) (auto intro: ledger_steps.intros)

lemma ledger_frame:
  assumes "ledger_steps R b s s'"
  shows "mo_base (ss_db s') = mo_base (ss_db s) \<and> mo_bindings (ss_db s') = mo_bindings (ss_db s) \<and> mo_health (ss_db s') = mo_health (ss_db s)
    \<and> mo_evidence (ss_db s') = mo_evidence (ss_db s) \<and> mo_assessments (ss_db s') = mo_assessments (ss_db s)
    \<and> prefix (ss_assessments s) (ss_assessments s') \<and> prefix (ss_incidents s) (ss_incidents s') \<and> prefix (ss_evidence s) (ss_evidence s')"
  using assms
  by (induction rule: ledger_steps.induct)
    (simp_all add: add_evidence_def add_incident_def put_incident_def resolve_where_def)

text \<open>The books: the incidents and the evidence of the database and of the pending rows together.\<close>

definition books :: "mon_incident list \<Rightarrow> mon_evidence list \<Rightarrow> bool" where
  "books is es \<longleftrightarrow>
     list_all (\<lambda>i. ic_count i = int (length (filter (\<lambda>e. me_incident e = ic_id i) es)) \<and> incident_shape i) is
     \<and> list_all (\<lambda>e. me_incident e \<in> ic_id ` set is \<and> evidence_shape e) es"

lemma books_raised:
  assumes "books is es" and "ic_id i \<notin> ic_id ` set is" and "ic_count i = 1" and "incident_shape i"
    and "me_incident e = ic_id i" and "evidence_shape e"
  shows "books (is @ [i]) (es @ [e])"
proof -
  have "filter (\<lambda>e. me_incident e = ic_id i) es = []"
    using assms(1,2) unfolding books_def list_all_iff filter_empty_conv by metis
  moreover have "ic_id j \<noteq> ic_id i" if "j \<in> set is" for j using that assms(2) by (metis imageI)
  ultimately show ?thesis using assms by (auto simp: books_def list_all_iff)
qed

lemma put_row_keys: "map key (put_row key x xs) = map key xs"
  by (induction xs) (simp_all add: put_row_def)

lemma put_row_keys_set: "key ` set (put_row key x xs) = key ` set xs"
  by (metis put_row_keys list.set_map)

lemma put_row_append: "put_row key x (xs @ ys) = put_row key x xs @ put_row key x ys"
  by (simp add: put_row_def)

lemma put_row_other: "key x \<notin> key ` set xs \<Longrightarrow> put_row key x xs = xs"
  unfolding put_row_def by (rule map_idI) (metis imageI)

lemma put_row_set: "y \<in> set (put_row key x xs) \<Longrightarrow> y = x \<or> (y \<in> set xs \<and> key y \<noteq> key x)"
  by (auto simp: put_row_def split: if_splits)

lemma books_recurred:
  assumes ok: "books is es" and d: "distinct (map ic_id is)" and i: "i \<in> set is" and b: "bumped i i'"
    and e: "me_incident e = ic_id i" "evidence_shape e"
  shows "books (put_row ic_id i' is) (es @ [e])"
proof -
  have id: "ic_id i' = ic_id i" using b by (rule bumped_id)
  have own: "ic_count i = int (length (filter (\<lambda>e. me_incident e = ic_id i) es))" "incident_shape i"
    using ok i by (simp_all add: books_def list_all_iff)
  have "ic_count j = int (length (filter (\<lambda>e. me_incident e = ic_id j) (es @ [e]))) \<and> incident_shape j"
    if "j \<in> set (put_row ic_id i' is)" for j
    using put_row_set [OF that]
  proof
    assume "j = i'"
    then show ?thesis using own b e id by (simp add: bumped_def)
  next
    assume "j \<in> set is \<and> ic_id j \<noteq> ic_id i'"
    then show ?thesis using ok e id by (simp add: books_def list_all_iff)
  qed
  moreover have "me_incident x \<in> ic_id ` set (put_row ic_id i' is) \<and> evidence_shape x" if "x \<in> set (es @ [e])" for x
    unfolding put_row_keys_set using that ok e i by (auto simp: books_def list_all_iff)
  ultimately show ?thesis unfolding books_def list_all_iff by blast
qed

lemma books_mapped:
  assumes "books (is @ js) es" and "\<And>i. ic_id (f i) = ic_id i \<and> ic_count (f i) = ic_count i \<and> (incident_shape i \<longrightarrow> incident_shape (f i))"
  shows "books (map f is @ js) es"
proof -
  have "ic_id ` set (map f is @ js) = ic_id ` set (is @ js)" using assms(2) by (simp add: image_Un image_image)
  then show ?thesis using assms by (simp add: books_def list_all_iff ball_Un)
qed

abbreviation session_books :: "mon_session \<Rightarrow> bool" where
  "session_books s \<equiv> books (mo_incidents (written s)) (mo_evidence (written s))"

lemma ledger_keeps_books:
  assumes "ledger_steps R b s s'" and "session_books s" and "distinct (map ic_id (mo_incidents (written s')))"
  shows "session_books s'"
  using assms
proof (induction rule: ledger_steps.induct)
  case (quiet s)
  then show ?case by simp
next
  case (raised s s1 i e)
  have w: "mo_incidents (written (add_evidence e (add_incident i s1))) = mo_incidents (written s1) @ [i]"
    "mo_evidence (written (add_evidence e (add_incident i s1))) = mo_evidence (written s1) @ [e]"
    by (simp_all add: written_def add_evidence_def add_incident_def)
  have "session_books s1" by (rule raised.IH) (use raised.prems w in simp_all)
  moreover have "ic_id i \<notin> ic_id ` set (mo_incidents (written s1))" using raised.prems(2) unfolding w by simp
  ultimately show ?case unfolding w using raised.hyps by (intro books_raised) (simp_all add: opened_def)
next
  case (recurred s s1 i i' e)
  have id: "ic_id i' = ic_id i" using recurred.hyps(3) by (rule bumped_id)
  have ids: "map ic_id (mo_incidents (written (add_evidence e (put_incident i' s1)))) = map ic_id (mo_incidents (written s1))"
    by (simp add: written_def add_evidence_def put_incident_def put_row_keys)
  have d: "distinct (map ic_id (mo_incidents (written s1)))" using recurred.prems(2) unfolding ids .
  then have "ic_id i' \<notin> ic_id ` set (ss_incidents s1)" using recurred.hyps(2) id by (auto simp: written_def)
  then have w: "mo_incidents (written (add_evidence e (put_incident i' s1))) = put_row ic_id i' (mo_incidents (written s1))"
    "mo_evidence (written (add_evidence e (put_incident i' s1))) = mo_evidence (written s1) @ [e]"
    by (simp_all add: written_def add_evidence_def put_incident_def put_row_append put_row_other)
  have "session_books s1" by (rule recurred.IH [OF recurred.prems(1) d])
  moreover have "i \<in> set (mo_incidents (written s1))" using recurred.hyps(2) by (simp add: written_def)
  ultimately show ?case unfolding w using recurred.hyps d by (intro books_recurred)
next
  case (recovered s s1 P now actor n)
  have "session_books s1" by (rule recovered.IH [OF recovered.prems(1)])
    (use recovered.prems(2) in \<open>simp add: written_def resolve_where_def comp_def if_distrib cong: if_cong\<close>)
  then show ?case unfolding written_def resolve_where_def
    by (simp del: map_map) (rule books_mapped, simp, simp add: incident_shape_def)
next
  case (assessed s s1 x)
  have "written (s1\<lparr>ss_assessments := ss_assessments s1 @ [x]\<rparr>) = (written s1)\<lparr>mo_assessments := mo_assessments (written s1) @ [x]\<rparr>"
    by (simp add: written_def)
  then show ?case using assessed.IH assessed.prems by simp
qed

section \<open>Incidents only grow\<close>

definition advanced :: "(mon_incident \<Rightarrow> bool) \<Rightarrow> mon_incident \<Rightarrow> mon_incident \<Rightarrow> bool" where
  "advanced R i i' \<longleftrightarrow>
     incident_identity i' = incident_identity i \<and> ic_count i \<le> ic_count i' \<and> ic_severity i \<le> ic_severity i'
     \<and> (unresolved i \<and> \<not> R i \<longrightarrow> unresolved i')"

lemma advanced_refl [simp]: "advanced R i i"
  by (simp add: advanced_def)

lemma advanced_trans:
  assumes "advanced R i j" and "advanced R j k" and "R i \<longleftrightarrow> R j"
  shows "advanced R i k"
  using assms unfolding advanced_def by (auto dest: order_trans)

lemma bumped_advanced: "bumped i i' \<Longrightarrow> advanced R i i'"
  by (cases "ic_status i'") (auto simp: bumped_def advanced_def unresolved_def)

text \<open>Whether an incident may be closed depends on what never changes in it.\<close>

definition stable_rule :: "(mon_incident \<Rightarrow> bool) \<Rightarrow> bool" where
  "stable_rule R \<longleftrightarrow> (\<forall>i j. incident_identity i = incident_identity j \<longrightarrow> R i = R j)"

lemma list_all2_advanced_refl: "list_all2 (advanced R) xs xs"
  by (simp add: list.rel_refl)

lemma list_all2_advanced_trans:
  assumes "stable_rule R" and "list_all2 (advanced R) xs ys" and "list_all2 (advanced R) ys zs"
  shows "list_all2 (advanced R) xs zs"
proof -
  have tr: "advanced R x z" if xy: "advanced R x y" and yz: "advanced R y z" for x y z
  proof (rule advanced_trans [OF xy yz])
    have "incident_identity y = incident_identity x" using xy by (simp add: advanced_def)
    then show "R x \<longleftrightarrow> R y" using assms(1) unfolding stable_rule_def by metis
  qed
  show ?thesis by (rule list_all2_trans [OF _ assms(2,3)]) (rule tr)
qed

lemma put_row_advanced:
  assumes "distinct (map ic_id is)" and "i \<in> set is" and "advanced R i i'"
  shows "list_all2 (advanced R) is (put_row ic_id i' is)"
proof -
  have id: "ic_id i' = ic_id i" using assms(3) by (intro same_incident_columns(1)) (simp add: advanced_def)
  have "advanced R j (if ic_id j = ic_id i' then i' else j)" if "j \<in> set is" for j
    using assms that id by (cases "j = i") (auto simp: distinct_map inj_on_def)
  then show ?thesis by (simp add: put_row_def list_all2_map2 list_all2_same)
qed

lemma ledger_advances:
  assumes "ledger_steps R b s s'" and "stable_rule R" and "distinct (map ic_id (mo_incidents (ss_db s)))"
  shows "list_all2 (advanced R) (mo_incidents (ss_db s)) (mo_incidents (ss_db s'))
    \<and> map ic_id (mo_incidents (ss_db s')) = map ic_id (mo_incidents (ss_db s))"
  using assms
proof (induction rule: ledger_steps.induct)
  case (quiet s)
  then show ?case by (simp add: list_all2_advanced_refl)
next
  case (raised s s1 i e)
  then show ?case by (simp add: add_evidence_def add_incident_def)
next
  case (recurred s s1 i i' e)
  then have IH: "list_all2 (advanced R) (mo_incidents (ss_db s)) (mo_incidents (ss_db s1))"
      "map ic_id (mo_incidents (ss_db s1)) = map ic_id (mo_incidents (ss_db s))" by simp_all
  have "list_all2 (advanced R) (mo_incidents (ss_db s1)) (put_row ic_id i' (mo_incidents (ss_db s1)))"
    by (rule put_row_advanced [OF _ recurred.hyps(2) bumped_advanced [OF recurred.hyps(3)]]) (use IH(2) recurred.prems(2) in simp)
  then show ?case using list_all2_advanced_trans [OF recurred.prems(1) IH(1)] IH(2)
    by (simp add: add_evidence_def put_incident_def put_row_keys)
next
  case (recovered s s1 P now actor n)
  then have IH: "list_all2 (advanced R) (mo_incidents (ss_db s)) (mo_incidents (ss_db s1))"
      "map ic_id (mo_incidents (ss_db s1)) = map ic_id (mo_incidents (ss_db s))" by simp_all
  have "list_all2 (advanced R) (mo_incidents (ss_db s1)) (mo_incidents (ss_db (resolve_where P now actor n s1)))"
    using recovered.hyps(2) by (simp add: resolve_where_def list_all2_map2 list_all2_same advanced_def incident_identity_def)
  then show ?case using list_all2_advanced_trans [OF recovered.prems(1) IH(1)] IH(2)
    by (simp add: resolve_where_def comp_def if_distrib cong: if_cong)
next
  case (assessed s s1 x)
  then show ?case by simp
qed

lemma ledger_pending:
  assumes "ledger_steps R b s s'" and "list_all (opened b) (ss_incidents s)"
    and "list_all (assessed_for b (mo_base (ss_db s))) (ss_assessments s)"
  shows "list_all (opened b) (ss_incidents s') \<and> list_all (assessed_for b (mo_base (ss_db s))) (ss_assessments s')"
  using assms
proof (induction rule: ledger_steps.induct)
  case (assessed s s1 x)
  then show ?case using ledger_frame [OF assessed.hyps(1)] by simp
qed (simp_all add: add_evidence_def add_incident_def put_incident_def resolve_where_def)

end
