(* ===== verification/Monitoring_Effects.thy ===== *)
theory Monitoring_Effects
  imports Monitoring_Ledger
begin

text \<open>
  What each transaction of the monitor does, said in steps of the ledger: the functions of
  \<open>app/services/strategy_monitoring.py\<close> refine the ledger.
\<close>

section \<open>Recording\<close>

lemma ledger_of_binding:
  assumes "ledger_steps R b s s'" and "opened b' = opened b" and "assessed_for b' = assessed_for b"
  shows "ledger_steps R b' s s'"
  using assms by (induction rule: ledger_steps.induct) (auto intro: ledger_steps.intros)

lemma find_member: "find P xs = Some x \<Longrightarrow> x \<in> set xs \<and> P x"
  by (auto simp: find_Some_iff)

lemma record_finding_ledger:
  assumes "record_finding env tk b run p now f s = Inr (x, s')"
  shows "ledger_steps R b s s'"
proof (cases "find (\<lambda>e. me_finding e = Some (en_finding_id env f)) (mo_evidence (ss_db s))")
  case (Some e)
  then have "s' = s" using assms by (auto simp: record_finding_def Let_def split: option.splits)
  then show ?thesis by (simp add: ledger_steps.quiet)
next
  case None
  let ?c = "cause_for_divergence (df_type (fr_finding f))"
  let ?known = "find (\<lambda>i. ic_key i = incident_dedup_key b f ?c) (mo_incidents (ss_db s))"
  have ev: "me_incident (finding_evidence env b run f now k) = k" "evidence_shape (finding_evidence env b run f now k)" for k
    by (simp_all add: finding_evidence_def Let_def evidence_shape_def)
  show ?thesis
  proof (cases ?known)
    case new: None
    obtain pv where pv: "severity_for p ?c 1 = Inr pv"
      using assms None new by (auto simp: record_finding_def Let_def and_then_def split: sum.splits)
    let ?i = "(new_incident tk s b (df_strategy (fr_finding f)) now (incident_dedup_key b f ?c)
        (divergence_value (df_type (fr_finding f))) (df_category (fr_finding f)) ?c
        (max pv (finding_severity (df_severity (fr_finding f)))) (finding_source_reference env b run f) (finding_summary ?c f p))
        \<lparr>ic_asset := fr_asset f, ic_run := Some (rn_id run), ic_finding := Some (en_finding_id env f)\<rparr>"
    have s': "s' = add_evidence (finding_evidence env b run f now (ic_id ?i)) (add_incident ?i s)"
      using assms unfolding record_finding_def Let_def None new option.case pv and_then_simps by simp
    have "opened b ?i" by (simp add: opened_def new_incident_def incident_shape_def)
    from ledger_steps.raised [OF ledger_steps.quiet this ev] show ?thesis unfolding s' .
  next
    case (Some i)
    obtain pv where pv: "severity_for p ?c (ic_count i + 1) = Inr pv"
      using assms None Some by (auto simp: record_finding_def Let_def and_then_def split: sum.splits)
    let ?i = "reopened (i\<lparr>ic_count := ic_count i + 1, ic_last := max (ic_last i) now,
        ic_severity := max (max (ic_severity i) pv) (finding_severity (df_severity (fr_finding f))), ic_run := Some (rn_id run),
        ic_finding := Some (en_finding_id env f), ic_source := finding_source_reference env b run f, ic_summary := finding_summary ?c f p\<rparr>)"
    have s': "s' = add_evidence (finding_evidence env b run f now (ic_id i)) (put_incident ?i s)"
      using assms unfolding record_finding_def Let_def None Some option.case pv and_then_simps by simp
    have "bumped i ?i" by (simp add: bumped_def reopened_def incident_identity_def incident_shape_def max.coboundedI1)
    from ledger_steps.recurred [OF ledger_steps.quiet conjunct1 [OF find_member [OF Some]] this ev] show ?thesis unfolding s' .
  qed
qed

lemma record_findings_ledger:
  "record_findings env tk b run p now fs acc s = Inr (acc', s') \<Longrightarrow> ledger_steps R b s s'"
proof (induction fs arbitrary: acc s)
  case Nil
  then show ?case by (simp add: ledger_steps.quiet)
next
  case (Cons f fs)
  obtain all known n where acc: "acc = (all, known, n)" by (cases acc)
  obtain x s1 where x: "record_finding env tk b run p now f s = Inr (x, s1)"
    and rest: "\<exists>acc1. record_findings env tk b run p now fs acc1 s1 = Inr (acc', s')"
    using Cons.prems unfolding acc record_findings.simps and_then_Inr by (elim exE conjE) (auto split: prod.splits)
  from rest obtain acc1 where "record_findings env tk b run p now fs acc1 s1 = Inr (acc', s')" by blast
  then show ?case using ledger_trans [OF Cons.IH record_finding_ledger [OF x]] by blast
qed

lemma record_condition_ledger:
  assumes "record_condition tk b a now key type category c sev source summary ev s = Inr (v, s')"
    and "me_kind ev \<noteq> DIVERGENCE_FINDING" and "me_finding ev = None" and "me_run ev = None"
  shows "ledger_steps R b s s'"
proof -
  have ev: "evidence_shape (ev\<lparr>me_incident := k\<rparr>)" for k using assms(2-4) by (simp add: evidence_shape_def)
  show ?thesis
  proof (cases "find (\<lambda>i. ic_key i = key) (mo_incidents (ss_db s))")
    case None
    then obtain w where w: "sev 1 = Inr w" using assms(1) by (auto simp: record_condition_def and_then_def split: sum.splits)
    let ?i = "new_incident tk s b (activation_identity a) now key type category c w source summary"
    have s': "s' = add_evidence (ev\<lparr>me_incident := ic_id ?i\<rparr>) (add_incident ?i s)"
      using assms(1) unfolding record_condition_def Let_def None option.case w and_then_simps by clarsimp
    have "opened b ?i" by (simp add: opened_def new_incident_def incident_shape_def)
    from ledger_steps.raised [OF ledger_steps.quiet this _ ev] show ?thesis unfolding s' by simp
  next
    case (Some i)
    show ?thesis
    proof (cases "list_ex (\<lambda>e. me_incident e = ic_id i \<and> me_key e = me_key ev) (mo_evidence (ss_db s))")
      case True
      then have "s' = s" using assms(1) Some by (simp add: record_condition_def)
      then show ?thesis by (simp add: ledger_steps.quiet)
    next
      case False
      then obtain w where w: "sev (ic_count i + 1) = Inr w"
        using assms(1) Some by (auto simp: record_condition_def and_then_def split: sum.splits)
      let ?i = "reopened (i\<lparr>ic_count := ic_count i + 1, ic_last := now, ic_severity := max (ic_severity i) w, ic_source := source\<rparr>)"
      have s': "s' = add_evidence (ev\<lparr>me_incident := ic_id i\<rparr>) (put_incident ?i s)"
        using assms(1) unfolding record_condition_def Let_def Some option.case w and_then_simps if_not_P [OF False] by clarsimp
      have "bumped i ?i" by (simp add: bumped_def reopened_def incident_identity_def incident_shape_def)
      from ledger_steps.recurred [OF ledger_steps.quiet conjunct1 [OF find_member [OF Some]] this _ ev] show ?thesis unfolding s' by simp
    qed
  qed
qed

lemma runtime_failure_ledger:
  assumes "record_activation_runtime_failure tk b a h p message label v now s = Inr (h', s')"
  shows "ledger_steps R b s s'"
  using assms unfolding record_activation_runtime_failure_def and_then_Inr Let_def map_sum_Inr
  by (elim exE conjE) (clarsimp split: prod.splits, erule record_condition_ledger, simp_all add: condition_evidence_def)

lemma stale_comparison_ledger:
  assumes "record_stale_comparison_evidence tk b a p baseline window now s = Inr (v, s')"
  shows "ledger_steps R b s s'"
  using assms unfolding record_stale_comparison_evidence_def Let_def
  by (rule record_condition_ledger) (simp_all add: condition_evidence_def)

lemma stale_state_ledger:
  assumes "record_stale_state tk b a p baseline now s = Inr (v, s')"
  shows "ledger_steps R b s s'"
  using assms unfolding record_stale_state_def Let_def
  by (rule record_condition_ledger) (simp_all add: condition_evidence_def)

lemma opened_lease: "opened (b\<lparr>bd_expires := x\<rparr>) = opened b"
  by (rule ext) (simp add: opened_def)

lemma assessed_lease: "assessed_for (b\<lparr>bd_expires := x\<rparr>) = assessed_for b"
  by (rule ext)+ (simp add: assessed_for_def)

text \<open>Pages only extend the lease of the binding, in memory until the transaction commits.\<close>

lemma process_pages_ledger:
  assumes "process_pages env tk run p now fs k cursor acc b s = Inr ((acc', b'), s')"
  shows "ledger_steps R b s s' \<and> (b' = b \<or> (\<exists>t. b' = b\<lparr>bd_expires := Some t\<rparr>))"
  using assms
proof (induction env tk run p now fs k cursor acc b s rule: process_pages.induct)
  case (1 env tk run p now fs k cursor acc b s)
  show ?case
  proof (cases "next_page env fs cursor = []")
    case True
    then show ?thesis using "1.prems" by (simp add: pages_end ledger_steps.quiet)
  next
    case False
    obtain acc1 s1 where r: "record_findings env tk b run p now (next_page env fs cursor) acc s = Inr (acc1, s1)"
      using "1.prems" pages_raise [OF False] by (cases "record_findings env tk b run p now (next_page env fs cursor) acc s") auto
    note here = record_findings_ledger [OF r, where R = R]
    note step = "1.prems" [unfolded pages_step [OF False r] Let_def]
    show ?thesis
    proof (cases "length (next_page env fs cursor) < en_page env")
      case True
      then show ?thesis using step here by auto
    next
      case more: False
      let ?b = "b\<lparr>bd_expires := Some (tk_page tk k + en_lease env)\<rparr>"
      have "ledger_steps R ?b s1 s' \<and> (b' = ?b \<or> (\<exists>t. b' = ?b\<lparr>bd_expires := Some t\<rparr>))"
        by (rule "1.IH" [OF refl False refl more]) (use step more in simp)
      moreover from this have "ledger_steps R b s1 s'" by (auto intro: ledger_of_binding simp: opened_lease assessed_lease)
      ultimately show ?thesis using ledger_trans [OF _ here] by auto
    qed
  qed
qed

section \<open>Health rows\<close>

text \<open>What stays of a health row; \<open>Q\<close>: a reason for a row to become healthy.\<close>

definition health_kept :: "bool \<Rightarrow> mon_health \<Rightarrow> mon_health \<Rightarrow> bool" where
  "health_kept Q h h' \<longleftrightarrow>
     hl_activation h' = hl_activation h \<and> hl_binding h' = hl_binding h \<and> (health_shape h \<longrightarrow> health_shape h')
     \<and> (hl_status h' = H_HEALTHY \<longrightarrow> hl_status h = H_HEALTHY \<or> Q)"

lemma health_kept_refl: "health_kept Q h h"
  by (simp add: health_kept_def)

lemma health_kept_trans: "health_kept Q h h1 \<Longrightarrow> health_kept Q h1 h2 \<Longrightarrow> health_kept Q h h2"
  by (auto simp: health_kept_def)

lemma health_kept_error: "health_kept Q h h' \<Longrightarrow> health_kept Q h (h'\<lparr>hl_error := e\<rparr>)"
  by (simp add: health_kept_def health_shape_def)

lemma health_kept_unknown: "health_kept Q h h' \<Longrightarrow> health_kept Q h (set_unknown h')"
  by (simp add: health_kept_def health_shape_def set_unknown_def)

lemma health_kept_set: "st \<notin> {H_UNKNOWN, H_HEALTHY} \<Longrightarrow> health_kept Q h h' \<Longrightarrow> health_kept Q h (set_health st c v h')"
  by (simp add: health_kept_def health_shape_def set_health_def)

lemma health_kept_divergent: "health_kept Q h h' \<Longrightarrow> health_kept Q h (set_divergent_health xs h')"
  unfolding set_divergent_health_def
  by (auto split: option.split prod.split intro: health_kept_unknown health_kept_set)

lemma health_kept_checks:
  assumes "0 \<le> n" and "health_kept Q h h'"
  shows "health_kept Q h (h'\<lparr>hl_checks := n\<rparr>)"
  using assms by (auto simp: health_kept_def health_shape_def)

lemma divergent_never_healthy: "hl_status (set_divergent_health xs h) \<noteq> H_HEALTHY"
  by (simp add: set_divergent_health_def set_unknown_def set_health_def split: option.split prod.split)

section \<open>Assessing a run\<close>

text \<open>
  What the monitor may close by itself: staleness that has passed, and, once a healthy run is stored,
  every incident of the binding.
\<close>

definition closable :: "comparison_db \<Rightarrow> mon_incident \<Rightarrow> bool" where
  "closable base i \<longleftrightarrow>
     ic_type i \<in> {''stale_strategy_state'', ''stale_comparison_evidence''} \<or> (\<exists>run \<in> set (cm_runs base). rn_status run = CMP_HEALTHY)"

lemma closable_stable: "stable_rule (closable base)"
  unfolding stable_rule_def
proof (intro allI impI)
  fix i j
  assume "incident_identity i = incident_identity j"
  then have "ic_type i = ic_type j" by (rule same_incident_columns(7))
  then show "closable base i = closable base j" by (simp add: closable_def)
qed

lemma recover_stale_ledger: "ledger_steps (closable base) b s (recover_stale_state k now s)"
  unfolding recover_stale_state_def by (rule ledger_steps.recovered [OF ledger_steps.quiet]) (simp add: closable_def)

lemma recover_comparison_ledger: "ledger_steps (closable base) b s (recover_stale_comparison_evidence k now s)"
  unfolding recover_stale_comparison_evidence_def
  by (rule ledger_steps.recovered [OF ledger_steps.quiet]) (simp add: closable_def)

lemma record_healthy_effect:
  assumes "record_healthy_comparison b h p now s = (h', s')" and "run \<in> set (cm_runs base)" and "rn_status run = CMP_HEALTHY"
  shows "ledger_steps (closable base) b s s' \<and> health_kept True h h'"
proof -
  have closes: "closable base i" for i using assms(2,3) by (auto simp: closable_def)
  have up: "health_kept True h (set_healthy (h\<lparr>hl_checks := hl_checks h + 1, hl_healthy := Some now, hl_error := None\<rparr>))"
    by (simp add: health_kept_def health_shape_def set_healthy_def)
  have down: "health_kept True h ((set_divergent_health xs (h\<lparr>hl_checks := hl_checks h + 1, hl_healthy := Some now, hl_error := None\<rparr>))
      \<lparr>hl_checks := hl_checks h + 1\<rparr>)" for xs
  proof (cases "health_shape h")
    case True
    then have "0 \<le> hl_checks h + 1" by (simp add: health_shape_def)
    then show ?thesis by (intro health_kept_checks health_kept_divergent) (simp_all add: health_kept_def health_shape_def)
  next
    case False
    then show ?thesis
      by (simp add: health_kept_def set_divergent_health_def set_unknown_def set_health_def split: option.split prod.split)
  qed
  show ?thesis
    using assms(1) up down closes unfolding record_healthy_comparison_def Let_def
    by (auto split: if_splits intro: ledger_steps.quiet ledger_steps.recovered)
qed

lemma process_comparison_run_effect:
  assumes "process_comparison_run env tk b h p run worker s = Inr ((b', h'), s')" and "run \<in> set (cm_runs (mo_base (ss_db s)))"
  shows "ledger_steps (closable (mo_base (ss_db s))) b s s' \<and> (b' = b \<or> (\<exists>t. b' = b\<lparr>bd_expires := Some t\<rparr>))
    \<and> health_kept (rn_status run = CMP_HEALTHY) h h'"
proof -
  let ?R = "closable (mo_base (ss_db s))"
  let ?now = "tk_now tk"
  let ?h1 = "h\<lparr>hl_comparison := Some ?now\<rparr>"
  let ?h2 = "?h1\<lparr>hl_complete := Some ?now, hl_window := Some (rn_end run)\<rparr>"
  have scope: "rn_activation run = bd_activation b" "rn_reference run = bd_reference b" "rn_policy_hash run = bd_comparison_hash b"
    using assms(1) by (simp_all add: process_comparison_run_def split: if_splits)
  obtain all known n b1 s1 where pages: "process_pages env tk run p ?now (run_findings (rn_id run) (mo_base (ss_db s))) 0 None
      (None, None, 0) b s = Inr (((all, known, n), b1), s1)"
    using assms(1) by (auto simp: process_comparison_run_def Let_def and_then_Inr split: if_splits)
  note pl = process_pages_ledger [OF pages, where R = ?R]
  let ?x = "\<lparr>as_run = rn_id run, as_binding = bd_id b, as_activation = bd_activation b, as_reference = bd_reference b,
      as_status = rn_status run, as_count = n, as_worker = worker, as_at = ?now\<rparr>"
  let ?s2 = "s1\<lparr>ss_assessments := ss_assessments s1 @ [?x]\<rparr>"
  have "assessed_for b (mo_base (ss_db s1)) ?x"
    using assms(2) scope conjunct1 [OF ledger_frame [OF conjunct1 [OF pl]]] by (auto simp: assessed_for_def)
  then have l2: "ledger_steps ?R b s ?s2" using conjunct1 [OF pl] by (rule ledger_steps.assessed [rotated])
  have h1: "health_kept Q h ?h1" and h2: "health_kept Q h ?h2" for Q by (simp_all add: health_kept_def health_shape_def)
  note step = assms(1) [unfolded process_comparison_run_def Let_def scope pages and_then_simps prod.case, simplified]
  show ?thesis
  proof (cases "rn_status run")
    case CMP_HEALTHY
    consider "(b', h') = (b1, ?h1) \<and> s' = ?s2" | "b' = b1 \<and> record_healthy_comparison b1 ?h2 p ?now ?s2 = (h', s')"
      using step CMP_HEALTHY by (auto split: if_splits prod.splits)
    then show ?thesis
    proof cases
      case 1
      then show ?thesis using l2 pl h1 by auto
    next
      case 2
      note r = record_healthy_effect [OF conjunct2 [OF 2] assms(2) CMP_HEALTHY]
      have "ledger_steps ?R b ?s2 s'" using pl r by (auto intro: ledger_of_binding simp: opened_lease assessed_lease)
      then show ?thesis using 2 pl r CMP_HEALTHY ledger_trans [OF _ l2] health_kept_trans [OF h2] by auto
    qed
  next
    case CMP_DIVERGENT
    then show ?thesis using step l2 pl h1 health_kept_divergent [OF h2] by (auto split: option.splits if_splits)
  next
    case CMP_INSUFFICIENT_REFERENCE
    then show ?thesis
      using step l2 pl h1 health_kept_error [OF health_kept_divergent [OF h1]] health_kept_error [OF health_kept_unknown [OF h1]]
      by (auto split: option.splits if_splits)
  qed
qed

section \<open>Freshness and staleness\<close>

lemma comparison_freshness_effect:
  assumes "evaluate_comparison_freshness tk b a h p s = Inr (h', s')"
  shows "ledger_steps (closable base) b s s' \<and> health_kept Q h h'"
  using assms unfolding evaluate_comparison_freshness_def Let_def and_then_Inr
  by (auto simp: and_then_Inr recover_comparison_ledger health_kept_refl split: if_splits
      intro!: health_kept_error health_kept_divergent intro: stale_comparison_ledger)

lemma staleness_effect:
  assumes "evaluate_staleness tk b a h p s = Inr (h', s')"
  shows "ledger_steps (closable base) b s s' \<and> health_kept Q h h'"
proof -
  have h0: "health_kept Q h (h\<lparr>hl_evaluated := x\<rparr>)" for x by (simp add: health_kept_def health_shape_def)
  show ?thesis
    using assms unfolding evaluate_staleness_def Let_def and_then_Inr
    by (auto simp: map_sum_Inr recover_stale_ledger h0 split: if_splits
        intro!: health_kept_error health_kept_unknown health_kept_set intro: stale_state_ledger)
qed

lemma runtime_failure_health:
  assumes "record_activation_runtime_failure tk b a h p message label v now s = Inr (h', s')"
  shows "health_kept Q h h' \<and> hl_status h' = H_ERROR"
proof -
  have "\<exists>w e. h' = (set_health H_ERROR RUNTIME w h)\<lparr>hl_error := e\<rparr>"
    using assms unfolding record_activation_runtime_failure_def and_then_Inr Let_def map_sum_Inr
    by (elim exE conjE) (clarsimp split: prod.splits, blast)
  then show ?thesis by (auto simp: set_health_def intro!: health_kept_error health_kept_set [unfolded set_health_def] health_kept_refl)
qed

end
