(* ===== verification/Monitoring_Tables.thy ===== *)
theory Monitoring_Tables
  imports Monitoring_Effects
begin

text \<open>
  The transactions of the monitor refine the ledger, and what it means that the monitoring tables are
  consistent.
\<close>

section \<open>The transactions of the monitor\<close>

abbreviation begin_session :: "mon_db \<Rightarrow> mon_session" where
  "begin_session db \<equiv> \<lparr>ss_db = db, ss_incidents = [], ss_evidence = [], ss_assessments = []\<rparr>"

text \<open>A claim names the activation of its binding, as \<open>claim_binding\<close> makes it.\<close>

definition genuine :: "claim \<Rightarrow> mon_db \<Rightarrow> bool" where
  "genuine c db \<longleftrightarrow> (\<forall>b \<in> set (mo_bindings db). bd_id b = cl_binding c \<longrightarrow> bd_activation b = cl_activation c)"

definition some_healthy_run :: "comparison_db \<Rightarrow> bool" where
  "some_healthy_run base \<longleftrightarrow> (\<exists>run \<in> set (cm_runs base). rn_status run = CMP_HEALTHY)"

definition monitor_effect :: "mon_db \<Rightarrow> mon_session \<Rightarrow> bool" where
  "monitor_effect db s \<longleftrightarrow> s = begin_session db \<or>
     (\<exists>b b' a h0 h s0 s1. b \<in> set (mo_bindings db) \<and> binding_identity b' = binding_identity b \<and> (binding_shape b \<longrightarrow> binding_shape b')
        \<and> (bd_status b' = BIND_ACTIVE \<longrightarrow> bd_status b = BIND_ACTIVE)
        \<and> la_id a = bd_activation b \<and> health_state b a (begin_session db) = (h0, s0)
        \<and> health_kept (some_healthy_run (mo_base db)) h0 h \<and> ledger_steps (closable (mo_base db)) b s0 s1
        \<and> s = put_health h (put_binding b' s1))"

lemma put_row_same: "distinct (map key xs) \<Longrightarrow> x \<in> set xs \<Longrightarrow> put_row key x xs = xs"
  unfolding put_row_def by (rule map_idI) (auto simp: distinct_map inj_on_def)

lemma put_binding_same:
  assumes "distinct (map bd_id (mo_bindings (ss_db s)))" and "b \<in> set (mo_bindings (ss_db s))"
  shows "put_binding b s = s"
  using put_row_same [OF assms] by (simp add: put_binding_def)

lemma health_state_frame:
  assumes "health_state b a s = (h, s0)"
  shows "mo_base (ss_db s0) = mo_base (ss_db s) \<and> mo_bindings (ss_db s0) = mo_bindings (ss_db s) \<and> mo_incidents (ss_db s0) = mo_incidents (ss_db s)
    \<and> mo_evidence (ss_db s0) = mo_evidence (ss_db s) \<and> mo_assessments (ss_db s0) = mo_assessments (ss_db s)
    \<and> ss_incidents s0 = ss_incidents s \<and> ss_evidence s0 = ss_evidence s \<and> ss_assessments s0 = ss_assessments s
    \<and> (mo_health (ss_db s0) = mo_health (ss_db s) \<or> mo_health (ss_db s0) = mo_health (ss_db s) @ [h] \<and> hl_activation h \<notin> hl_activation ` set (mo_health (ss_db s)))"
  using assms by (auto simp: health_state_def Let_def find_None_iff split: option.splits)

lemma health_state_row:
  assumes "health_state b a s = (h, s0)"
  shows "hl_activation h = la_id a \<and> hl_binding h = bd_id b
    \<and> (list_all health_shape (mo_health (ss_db s)) \<longrightarrow> health_shape h)
    \<and> (hl_status h = H_HEALTHY \<longrightarrow> (\<exists>x \<in> set (mo_health (ss_db s)). hl_status x = H_HEALTHY))"
proof (cases "find (\<lambda>x. hl_activation x = la_id a) (mo_health (ss_db s))")
  case None
  then show ?thesis using assms by (auto simp: health_state_def health_shape_def Let_def)
next
  case (Some x)
  note x = find_member [OF Some]
  have "h = (if hl_binding x \<noteq> bd_id b then set_unknown (x\<lparr>hl_binding := bd_id b\<rparr>) else x)"
    using assms Some by (simp add: health_state_def)
  then show ?thesis using x by (auto simp: set_unknown_def health_shape_def list_all_iff)
qed

lemma owned_binding_member:
  assumes "owned_binding tk c s = Some b" and "genuine c (ss_db s)" and "locked_activation (cl_activation c) s = Some a"
  shows "b \<in> set (mo_bindings (ss_db s)) \<and> owns_lease c (tk_owned tk) b \<and> la_id a = bd_activation b"
proof -
  have "b \<in> set (mo_bindings (ss_db s)) \<and> owns_lease c (tk_owned tk) b"
    using assms(1) by (auto simp: owned_binding_def split: if_splits dest: find_member)
  moreover have "la_id a = cl_activation c" using assms(3) find_member by (fastforce simp: locked_activation_def)
  ultimately show ?thesis using assms(2) by (auto simp: genuine_def owns_lease_def)
qed

lemma binding_marked:
  assumes "owns_lease c now b"
  shows "binding_identity (b\<lparr>bd_processed := t\<rparr>) = binding_identity b \<and> (binding_shape b \<longrightarrow> binding_shape (b\<lparr>bd_processed := t\<rparr>))"
    "binding_identity (b\<lparr>bd_expires := Some u, bd_processed := t\<rparr>) = binding_identity b
      \<and> (binding_shape b \<longrightarrow> binding_shape (b\<lparr>bd_expires := Some u, bd_processed := t\<rparr>))"
    "binding_identity (b\<lparr>bd_status := BIND_ERROR\<rparr>) = binding_identity b \<and> (binding_shape b \<longrightarrow> binding_shape (b\<lparr>bd_status := BIND_ERROR\<rparr>))"
    "binding_identity (b\<lparr>bd_status := BIND_DEACTIVATED, bd_deactivated := t\<rparr>) = binding_identity b
      \<and> (binding_shape b \<longrightarrow> binding_shape (b\<lparr>bd_status := BIND_DEACTIVATED, bd_deactivated := t\<rparr>))"
  using assms by (simp_all add: binding_identity_def binding_shape_def owns_lease_def)

lemma next_pending_member:
  assumes "next_pending_comparison env b db = Some run"
  shows "run \<in> set (cm_runs (mo_base db)) \<and> rn_id run \<notin> as_run ` set (mo_assessments db)"
proof -
  let ?ok = "\<lambda>r. rn_activation r = bd_activation b \<and> rn_reference r = bd_reference b
      \<and> rn_policy_hash r = bd_comparison_hash b \<and> rn_id r \<notin> as_run ` set (mo_assessments db)"
  let ?l = "sort_key (\<lambda>r. (rn_end r, en_run_created env r, rn_id r)) (filter ?ok (cm_runs (mo_base db)))"
  obtain rs where "?l = run # rs" using assms by (auto simp: next_pending_comparison_def split: list.splits)
  then have "run \<in> set ?l" by simp
  then show ?thesis by simp
qed

lemma effectI:
  assumes "b \<in> set (mo_bindings db)" and "binding_identity b' = binding_identity b \<and> (binding_shape b \<longrightarrow> binding_shape b')"
    and "bd_status b' = BIND_ACTIVE \<Longrightarrow> bd_status b = BIND_ACTIVE"
    and "la_id a = bd_activation b" and "health_state b a (begin_session db) = (h0, s0)"
    and "health_kept (some_healthy_run (mo_base db)) h0 h" and "ledger_steps (closable (mo_base db)) b s0 s1"
  shows "monitor_effect db (put_health h (put_binding b' s1))"
  unfolding monitor_effect_def using assms by blast

lemma process_one_effect:
  assumes "process_one_comparison env tk c (begin_session db) = Inr (r, s)" and "genuine c db"
    and "distinct (map bd_id (mo_bindings db))"
  shows "monitor_effect db s"
proof (cases "locked_activation (cl_activation c) (begin_session db)")
  case None
  then show ?thesis using assms(1) by (simp add: process_one_comparison_def monitor_effect_def)
next
  case (Some a)
  note a = Some
  show ?thesis
  proof (cases "owned_binding tk c (begin_session db)")
    case None
    then show ?thesis using assms(1) a by (simp add: process_one_comparison_def monitor_effect_def)
  next
    case (Some b)
    have own: "b \<in> set (mo_bindings db)" "owns_lease c (tk_owned tk) b" "la_id a = bd_activation b"
      using owned_binding_member [OF Some _ a] assms(2) by simp_all
    obtain p where p: "validated_policy env b = Inr p"
      using assms(1) a Some by (auto simp: process_one_comparison_def and_then_Inr)
    obtain h0 s0 where h0: "health_state b a (begin_session db) = (h0, s0)" by (cases "health_state b a (begin_session db)")
    note frame = health_state_frame [OF h0]
    note step = assms(1) [unfolded process_one_comparison_def a Some option.case p and_then_simps h0 prod.case]
    note eff = effectI [OF own(1) _ _ own(3) h0]
    show ?thesis
    proof (cases "la_status a = ACT_ERROR")
      case True
      then obtain h1 s1 where f: "record_activation_runtime_failure tk b a h0 (Some p) None None INC_CRITICAL (tk_now tk) s0 = Inr (h1, s1)"
        and s: "s = put_health h1 (put_binding (b\<lparr>bd_status := BIND_ERROR\<rparr>) s1)"
        using step by (auto simp: and_then_Inr)
      show ?thesis unfolding s
        by (rule eff) (use binding_marked [OF own(2)] runtime_failure_health [OF f] runtime_failure_ledger [OF f] in simp_all)
    next
      case no_error: False
      show ?thesis
      proof (cases "la_status a = ACT_ACTIVE")
        case False
        then have s: "s = put_health (set_unknown h0) (put_binding (b\<lparr>bd_status := BIND_DEACTIVATED, bd_deactivated := Some (tk_now tk)\<rparr>) s0)"
          using step no_error by simp
        show ?thesis unfolding s
          by (rule eff) (use binding_marked [OF own(2)] in \<open>simp_all add: health_kept_unknown health_kept_refl ledger_steps.quiet\<close>)
      next
        case active: True
        show ?thesis
        proof (cases "next_pending_comparison env b (ss_db s0)")
          case None
          have "put_binding b s0 = s0" by (rule put_binding_same) (use assms(3) own(1) frame in simp_all)
          then have s: "s = put_health h0 (put_binding b s0)" using step active None by simp
          show ?thesis unfolding s by (rule eff) (simp_all add: health_kept_refl ledger_steps.quiet)
        next
          case (Some run)
          obtain b1 h1 s1 where f: "process_comparison_run env tk b h0 p run (cl_worker c) s0 = Inr ((b1, h1), s1)"
            and s: "s = put_health h1 (put_binding (b1\<lparr>bd_processed := Some (tk_done tk)\<rparr>) s1)"
            using step active Some by (auto simp: and_then_Inr)
          have run: "run \<in> set (cm_runs (mo_base (ss_db s0)))" using next_pending_member [OF Some] by simp
          note e = process_comparison_run_effect [OF f run]
          have kept: "health_kept (some_healthy_run (mo_base db)) h0 h1"
            using e run frame by (auto simp: health_kept_def some_healthy_run_def)
          show ?thesis unfolding s
            by (rule eff) (use binding_marked [OF own(2)] e kept frame own(2) in \<open>auto simp: owns_lease_def\<close>)
        qed
      qed
    qed
  qed
qed

lemma finalize_effect:
  assumes "finalize_binding_cycle env tk c (begin_session db) = Inr (r, s)" and "genuine c db"
  shows "monitor_effect db s"
proof (cases "locked_activation (cl_activation c) (begin_session db)")
  case None
  then show ?thesis using assms(1) by (simp add: finalize_binding_cycle_def monitor_effect_def)
next
  case (Some a)
  note a = Some
  show ?thesis
  proof (cases "owned_binding tk c (begin_session db)")
    case None
    then show ?thesis using assms(1) a by (simp add: finalize_binding_cycle_def monitor_effect_def)
  next
    case (Some b)
    have own: "b \<in> set (mo_bindings db)" "owns_lease c (tk_owned tk) b" "la_id a = bd_activation b"
      using owned_binding_member [OF Some _ a] assms(2) by simp_all
    obtain p where p: "validated_policy env b = Inr p"
      using assms(1) a Some by (auto simp: finalize_binding_cycle_def and_then_Inr)
    obtain h0 s0 where h0: "health_state b a (begin_session db) = (h0, s0)" by (cases "health_state b a (begin_session db)")
    note step = assms(1) [unfolded finalize_binding_cycle_def a Some option.case p and_then_simps h0 prod.case]
    note eff = effectI [OF own(1) _ _ own(3) h0]
    show ?thesis
    proof (cases "la_status a = ACT_ERROR")
      case True
      then obtain h1 s1 where f: "record_activation_runtime_failure tk b a h0 (Some p) None None INC_CRITICAL (tk_now tk) s0 = Inr (h1, s1)"
        and s: "s = put_health h1 (put_binding (b\<lparr>bd_status := BIND_ERROR\<rparr>) s1)"
        using step by (auto simp: and_then_Inr)
      show ?thesis unfolding s
        by (rule eff) (use binding_marked [OF own(2)] runtime_failure_health [OF f] runtime_failure_ledger [OF f] in simp_all)
    next
      case no_error: False
      show ?thesis
      proof (cases "la_status a = ACT_ACTIVE")
        case False
        then have s: "s = put_health (set_unknown h0) (put_binding (b\<lparr>bd_status := BIND_DEACTIVATED, bd_deactivated := Some (tk_now tk)\<rparr>) s0)"
          using step no_error by simp
        show ?thesis unfolding s
          by (rule eff) (use binding_marked [OF own(2)] in \<open>simp_all add: health_kept_unknown health_kept_refl ledger_steps.quiet\<close>)
      next
        case True
        then obtain h1 s1 h2 s2 where f: "evaluate_comparison_freshness tk b a h0 p s0 = Inr (h1, s1)"
          and g: "evaluate_staleness tk b a h1 p s1 = Inr (h2, s2)"
          and s: "s = put_health h2 (put_binding (b\<lparr>bd_processed := Some (tk_done tk)\<rparr>) s2)"
          using step by (auto simp: and_then_Inr)
        note e = comparison_freshness_effect [OF f] staleness_effect [OF g]
        show ?thesis unfolding s
        proof (rule eff)
          show "health_kept (some_healthy_run (mo_base db)) h0 h2"
            by (rule health_kept_trans [OF conjunct2 [OF e(1)] conjunct2 [OF e(2)]])
          show "ledger_steps (closable (mo_base db)) b s0 s2" by (rule ledger_trans [OF conjunct1 [OF e(2)] conjunct1 [OF e(1)]])
        qed (use binding_marked [OF own(2)] own(2) in \<open>auto simp: owns_lease_def\<close>)
      qed
    qed
  qed
qed

lemma record_error_effect:
  assumes "record_binding_error env tk c text (begin_session db) = Inr (r, s)" and "genuine c db"
  shows "monitor_effect db s"
proof (cases "locked_activation (cl_activation c) (begin_session db)")
  case None
  then show ?thesis using assms(1) by (simp add: record_binding_error_def monitor_effect_def)
next
  case (Some a)
  note a = Some
  show ?thesis
  proof (cases "owned_binding tk c (begin_session db)")
    case None
    then show ?thesis using assms(1) a by (simp add: record_binding_error_def monitor_effect_def)
  next
    case (Some b)
    have own: "b \<in> set (mo_bindings db)" "owns_lease c (tk_owned tk) b" "la_id a = bd_activation b"
      using owned_binding_member [OF Some _ a] assms(2) by simp_all
    obtain h0 s0 where h0: "health_state b a (begin_session db) = (h0, s0)" by (cases "health_state b a (begin_session db)")
    obtain p v h1 s1 where f: "record_activation_runtime_failure tk b a ((set_health H_ERROR RUNTIME v h0)\<lparr>hl_error := Some text\<rparr>) p
          (Some text) (Some ''monitoring_error'') v (tk_now tk) s0 = Inr (h1, s1)"
      and s: "s = put_health h1 (put_binding (b\<lparr>bd_processed := Some (tk_done tk)\<rparr>) s1)"
      using assms(1) a Some h0 by (auto simp: record_binding_error_def and_then_Inr Let_def)
    have h: "health_kept Q h0 ((set_health H_ERROR RUNTIME v h0)\<lparr>hl_error := Some text\<rparr>)" for Q
      by (simp add: health_kept_error health_kept_set health_kept_refl)
    show ?thesis unfolding s
      by (rule effectI [OF own(1) _ _ own(3) h0])
        (use binding_marked [OF own(2)] own(2) health_kept_trans [OF h conjunct1 [OF runtime_failure_health [OF f]]]
          runtime_failure_ledger [OF f] in \<open>auto simp: owns_lease_def\<close>)
  qed
qed

section \<open>Consistent tables\<close>

definition scoped :: "mon_binding \<Rightarrow> mon_incident \<Rightarrow> bool" where
  "scoped b i \<longleftrightarrow>
     ic_binding i = bd_id b \<and> ic_activation i = bd_activation b \<and> ic_reference i = bd_reference b \<and> ic_policy_hash i = bd_policy_hash b"

definition mon_ok :: "mon_db \<Rightarrow> bool" where
  "mon_ok db \<longleftrightarrow>
     constraints_hold db \<and> list_all binding_shape (mo_bindings db) \<and> list_all health_shape (mo_health db)
     \<and> (\<forall>h \<in> set (mo_health db). \<exists>b \<in> set (mo_bindings db). hl_binding h = bd_id b \<and> hl_activation h = bd_activation b)
     \<and> books (mo_incidents db) (mo_evidence db)
     \<and> (\<forall>i \<in> set (mo_incidents db). \<exists>b \<in> set (mo_bindings db). scoped b i)
     \<and> (\<forall>x \<in> set (mo_assessments db). \<exists>b \<in> set (mo_bindings db). assessed_for b (mo_base db) x)"

definition mon_extends :: "(mon_incident \<Rightarrow> bool) \<Rightarrow> mon_db \<Rightarrow> mon_db \<Rightarrow> bool" where
  "mon_extends R db db' \<longleftrightarrow>
     prefix (map binding_identity (mo_bindings db)) (map binding_identity (mo_bindings db'))
     \<and> prefix (map hl_activation (mo_health db)) (map hl_activation (mo_health db'))
     \<and> (\<exists>xs ys. mo_incidents db' = xs @ ys \<and> list_all2 (advanced R) (mo_incidents db) xs)
     \<and> prefix (mo_evidence db) (mo_evidence db') \<and> prefix (mo_assessments db) (mo_assessments db')"

lemma mon_extends_refl: "mon_extends R db db"
  unfolding mon_extends_def using list_all2_advanced_refl [of R "mo_incidents db"] by auto

lemma mon_extends_trans:
  assumes "stable_rule R" and "mon_extends R db1 db2" and "mon_extends R db2 db3"
  shows "mon_extends R db1 db3"
proof -
  obtain xs ys where x: "mo_incidents db2 = xs @ ys" "list_all2 (advanced R) (mo_incidents db1) xs"
    using assms(2) by (auto simp: mon_extends_def)
  obtain us vs where u: "mo_incidents db3 = us @ vs" "list_all2 (advanced R) (mo_incidents db2) us"
    using assms(3) by (auto simp: mon_extends_def)
  obtain u1 u2 where w: "us = u1 @ u2" "list_all2 (advanced R) xs u1"
    using u(2) unfolding x(1) by (auto simp: list_all2_append1)
  have "mo_incidents db3 = u1 @ (u2 @ vs)" "list_all2 (advanced R) (mo_incidents db1) u1"
    using u(1) w list_all2_advanced_trans [OF assms(1) x(2)] by simp_all
  then show ?thesis
    using assms(2,3) unfolding mon_extends_def by (meson prefix_order.trans)
qed

lemma identity_transport:
  assumes "prefix (map binding_identity bs) (map binding_identity bs')" and "b \<in> set bs"
  shows "\<exists>b' \<in> set bs'. binding_identity b' = binding_identity b"
proof -
  have "binding_identity b \<in> set (map binding_identity bs')" using assms set_mono_prefix by fastforce
  then show ?thesis by auto
qed

lemma scoped_identity: "binding_identity b' = binding_identity b \<Longrightarrow> scoped b' i = scoped b i"
  using same_binding_columns [of b' b] by (simp add: scoped_def)

lemma assessed_identity: "binding_identity b' = binding_identity b \<Longrightarrow> assessed_for b' base x = assessed_for b base x"
  using same_binding_columns [of b' b] by (simp add: assessed_for_def)

lemma put_row_identity:
  assumes "distinct (map bd_id bs)" and "b \<in> set bs" and "binding_identity b' = binding_identity b"
  shows "map binding_identity (put_row bd_id b' bs) = map binding_identity bs"
proof -
  have id: "bd_id b' = bd_id b" by (rule same_binding_columns(1) [OF assms(3)])
  have "binding_identity (if bd_id x = bd_id b' then b' else x) = binding_identity x" if "x \<in> set bs" for x
    using assms that id by (cases "x = b") (auto simp: distinct_map inj_on_def)
  then show ?thesis by (simp add: put_row_def)
qed

text \<open>What is left to show after a step, given how the tables grew.\<close>

lemma mon_ok_step:
  assumes ok: "mon_ok db" and con: "constraints_hold db'" and ext: "mon_extends R db db'"
    and base: "prefix (cm_runs (mo_base db)) (cm_runs (mo_base db'))"
    and shape: "list_all binding_shape (mo_bindings db')" and health: "list_all health_shape (mo_health db')"
    and own: "\<forall>h \<in> set (mo_health db'). h \<in> set (mo_health db) \<or> (\<exists>b \<in> set (mo_bindings db'). hl_binding h = bd_id b \<and> hl_activation h = bd_activation b)"
    and bk: "books (mo_incidents db') (mo_evidence db')"
    and inc: "\<forall>i \<in> set (drop (length (mo_incidents db)) (mo_incidents db')). \<exists>b \<in> set (mo_bindings db'). scoped b i"
    and ass: "\<forall>x \<in> set (drop (length (mo_assessments db)) (mo_assessments db')). \<exists>b \<in> set (mo_bindings db'). assessed_for b (mo_base db') x"
  shows "mon_ok db'"
proof -
  have ids: "prefix (map binding_identity (mo_bindings db)) (map binding_identity (mo_bindings db'))" using ext by (simp add: mon_extends_def)
  note tr = identity_transport [OF ids]
  have h: "\<exists>b \<in> set (mo_bindings db'). hl_binding h = bd_id b \<and> hl_activation h = bd_activation b" if "h \<in> set (mo_health db')" for h
  proof (cases "h \<in> set (mo_health db)")
    case True
    then obtain b where "b \<in> set (mo_bindings db)" "hl_binding h = bd_id b \<and> hl_activation h = bd_activation b" using ok by (auto simp: mon_ok_def)
    then show ?thesis using tr [of b] same_binding_columns(1,2) by metis
  qed (use own that in blast)
  obtain xs ys where x: "mo_incidents db' = xs @ ys" "list_all2 (advanced R) (mo_incidents db) xs" using ext by (auto simp: mon_extends_def)
  have i: "\<exists>b \<in> set (mo_bindings db'). scoped b i" if "i \<in> set (mo_incidents db')" for i
  proof (cases "i \<in> set xs")
    case True
    then obtain j where j: "j \<in> set (mo_incidents db)" "advanced R j i" using x(2) by (metis in_set_conv_nth list_all2_conv_all_nth)
    then obtain b where b: "b \<in> set (mo_bindings db)" "scoped b j" using ok by (auto simp: mon_ok_def)
    have "incident_identity i = incident_identity j" using j(2) by (simp add: advanced_def)
    note c = same_incident_columns [OF this]
    have "scoped b i" using b(2) unfolding scoped_def c .
    then show ?thesis using tr [OF b(1)] scoped_identity by blast
  next
    case False
    then have "i \<in> set (drop (length (mo_incidents db)) (mo_incidents db'))"
      using that x list_all2_lengthD [OF x(2)] by simp
    then show ?thesis using inc by blast
  qed
  have a: "\<exists>b \<in> set (mo_bindings db'). assessed_for b (mo_base db') x" if "x \<in> set (mo_assessments db')" for x
  proof (cases "x \<in> set (mo_assessments db)")
    case True
    then obtain b where b: "b \<in> set (mo_bindings db)" "assessed_for b (mo_base db) x" using ok by (auto simp: mon_ok_def)
    then have "assessed_for b (mo_base db') x" using set_mono_prefix [OF base] by (auto simp: assessed_for_def)
    then show ?thesis using tr [OF b(1)] assessed_identity by blast
  next
    case False
    have "prefix (mo_assessments db) (mo_assessments db')" using ext by (simp add: mon_extends_def)
    then show ?thesis using that False ass by (auto simp: prefix_def)
  qed
  show ?thesis unfolding mon_ok_def using con shape health bk h i a by blast
qed

end
