(* ===== verification/Monitoring_History.thy ===== *)
theory Monitoring_History
  imports Monitoring_Tables
begin

text \<open>
  Every transaction keeps the monitoring tables consistent, and the histories that workers, operators
  and the services below make together.
\<close>

section \<open>Steps keep the tables consistent\<close>

lemma written_put:
  "written (put_health h (put_binding b s)) =
     (written s)\<lparr>mo_bindings := put_row bd_id b (mo_bindings (ss_db s)), mo_health := put_row hl_activation h (mo_health (ss_db s))\<rparr>"
  by (simp add: written_def put_health_def put_binding_def)

lemma written_begin: "written (begin_session db) = db"
  by (simp add: written_def)

lemma list_all_put_row: "list_all P xs \<Longrightarrow> P x \<Longrightarrow> list_all P (put_row key x xs)"
  by (auto simp: list_all_iff dest: put_row_set)

lemma monitor_effect_ok:
  assumes eff: "monitor_effect db s" and ok: "mon_ok db" and con: "constraints_hold (written s)"
  shows "mon_ok (written s) \<and> mon_extends (closable (mo_base db)) db (written s) \<and> mo_base (written s) = mo_base db
    \<and> (\<forall>h \<in> set (mo_health (written s)). hl_status h = H_HEALTHY \<longrightarrow>
         some_healthy_run (mo_base db) \<or> (\<exists>x \<in> set (mo_health db). hl_status x = H_HEALTHY))"
proof (cases "s = begin_session db")
  case True
  then show ?thesis unfolding True written_begin using ok by (auto simp: mon_extends_refl)
next
  case False
  then obtain b b' a h0 h s0 s1 where b: "b \<in> set (mo_bindings db)" "binding_identity b' = binding_identity b"
      "binding_shape b \<longrightarrow> binding_shape b'" and a: "la_id a = bd_activation b" and h0: "health_state b a (begin_session db) = (h0, s0)"
      and h: "health_kept (some_healthy_run (mo_base db)) h0 h" and l: "ledger_steps (closable (mo_base db)) b s0 s1"
      and s: "s = put_health h (put_binding b' s1)"
    using eff by (auto simp: monitor_effect_def)
  let ?R = "closable (mo_base db)"
  note f0 = health_state_frame [OF h0, simplified]
  note f1 = ledger_frame [OF l]
  note row = health_state_row [OF h0, simplified]
  have cb: "distinct (map bd_id (mo_bindings db))" and ci: "distinct (map ic_id (mo_incidents db))"
    using ok by (simp_all add: mon_ok_def constraints_hold_def)
  have w: "mo_base (written s) = mo_base db" "mo_bindings (written s) = put_row bd_id b' (mo_bindings db)"
    "mo_health (written s) = put_row hl_activation h (mo_health (ss_db s0))"
    "mo_incidents (written s) = mo_incidents (ss_db s1) @ ss_incidents s1"
    "mo_evidence (written s) = mo_evidence db @ ss_evidence s1"
    "mo_assessments (written s) = mo_assessments db @ ss_assessments s1"
    unfolding s written_put using f0 f1 by (simp_all add: written_def)
  have hk: "hl_activation h = bd_activation b" "hl_binding h = bd_id b" using h row a by (simp_all add: health_kept_def)
  have hs: "health_shape h" using h row ok by (simp add: health_kept_def mon_ok_def)
  have id: "bd_id b' = bd_id b" "bd_activation b' = bd_activation b" using same_binding_columns [OF b(2)] by simp_all
  have b': "b' \<in> set (mo_bindings (written s))" unfolding w put_row_def using b(1) id by force
  have scope: "scoped b' i = scoped b i" "assessed_for b' base x = assessed_for b base x" for i base x
    using scoped_identity assessed_identity b(2) by blast+
  have adv: "list_all2 (advanced ?R) (mo_incidents db) (mo_incidents (ss_db s1))"
    using ledger_advances [OF l closable_stable] ci f0 by simp
  have pend: "list_all (opened b) (ss_incidents s1)" "list_all (assessed_for b (mo_base db)) (ss_assessments s1)"
    using ledger_pending [OF l] f0 by simp_all
  have ext: "mon_extends ?R db (written s)"
    unfolding mon_extends_def w
    using put_row_identity [OF cb b(1,2)] f0 adv by (auto simp: put_row_keys)
  have "books (mo_incidents (written s1)) (mo_evidence (written s1))"
  proof (rule ledger_keeps_books [OF l])
    show "session_books s0" using ok f0 by (simp add: written_def mon_ok_def)
    show "distinct (map ic_id (mo_incidents (written s1)))" 
    proof -
      have "distinct (map ic_id (mo_incidents (written s)))" using con by (simp only: constraints_hold_def)
      then show ?thesis unfolding w(4) by (simp add: written_def)
    qed
  qed
  then have bk: "books (mo_incidents (written s)) (mo_evidence (written s))" unfolding w using f0 f1 by (simp add: written_def)
  have mem: "x = h \<or> x = h0 \<or> x \<in> set (mo_health db)" if "x \<in> set (mo_health (written s))" for x
  proof -
    have "x = h \<or> x \<in> set (mo_health (ss_db s0))" using put_row_set that unfolding w by metis
    moreover have "set (mo_health (ss_db s0)) \<subseteq> insert h0 (set (mo_health db))" using f0 by auto
    ultimately show ?thesis by blast
  qed
  have shape0: "health_shape h0" using row ok by (simp add: mon_ok_def)
  have "mon_ok (written s)"
  proof (rule mon_ok_step [OF ok con ext])
    show "prefix (cm_runs (mo_base db)) (cm_runs (mo_base (written s)))" by (simp add: w)
    show "list_all binding_shape (mo_bindings (written s))"
      unfolding w by (rule list_all_put_row) (use ok b in \<open>auto simp: mon_ok_def list_all_iff\<close>)
    show "list_all health_shape (mo_health (written s))"
      unfolding list_all_iff using mem hs shape0 ok by (auto simp: mon_ok_def list_all_iff)
    have "hl_binding x = bd_id b' \<and> hl_activation x = bd_activation b'" if "x = h \<or> x = h0" for x
      using that hk row a id by auto
    then show "\<forall>x \<in> set (mo_health (written s)). x \<in> set (mo_health db)
        \<or> (\<exists>c \<in> set (mo_bindings (written s)). hl_binding x = bd_id c \<and> hl_activation x = bd_activation c)"
      using mem b' by blast
    show "books (mo_incidents (written s)) (mo_evidence (written s))" by (rule bk)
    have "drop (length (mo_incidents db)) (mo_incidents (written s)) = ss_incidents s1"
      unfolding w using list_all2_lengthD [OF adv] by simp
    moreover have "scoped b i" if "opened b i" for i using that by (simp add: opened_def scoped_def)
    ultimately show "\<forall>i \<in> set (drop (length (mo_incidents db)) (mo_incidents (written s))). \<exists>c \<in> set (mo_bindings (written s)). scoped c i"
      using pend(1) scope b' unfolding list_all_iff by metis
    have "drop (length (mo_assessments db)) (mo_assessments (written s)) = ss_assessments s1" unfolding w by simp
    then show "\<forall>x \<in> set (drop (length (mo_assessments db)) (mo_assessments (written s))).
        \<exists>c \<in> set (mo_bindings (written s)). assessed_for c (mo_base (written s)) x"
      using pend(2) scope b' unfolding list_all_iff w(1) by metis
  qed
  moreover have "some_healthy_run (mo_base db) \<or> (\<exists>y \<in> set (mo_health db). hl_status y = H_HEALTHY)"
    if "x \<in> set (mo_health (written s))" "hl_status x = H_HEALTHY" for x
    using mem [OF that(1)] that(2) h row by (auto simp: health_kept_def)
  ultimately show ?thesis using ext w(1) by blast
qed

lemma in_transaction_keeps:
  assumes "P db" and "\<And>a s. f (begin_session db) = Inr (a, s) \<Longrightarrow> constraints_hold (written s) \<Longrightarrow> P (written s)"
  shows "P (snd (in_transaction f db))"
proof (cases "f (begin_session db)")
  case (Inl e)
  then show ?thesis using assms(1) by (simp add: in_transaction_def)
next
  case (Inr r)
  obtain a s where r: "r = (a, s)" by (cases r)
  show ?thesis using assms(1) assms(2) [OF Inr [unfolded r]] Inr r by (simp add: in_transaction_def)
qed

abbreviation keeps_tables :: "(mon_incident \<Rightarrow> bool) \<Rightarrow> mon_db \<Rightarrow> mon_db \<Rightarrow> bool" where
  "keeps_tables R db db' \<equiv> mon_ok db' \<and> mon_extends R db db'"

text \<open>Steps that touch neither incidents nor evidence nor assessments.\<close>

lemma mon_ok_tables:
  assumes "mon_ok db" and "constraints_hold db'" and "mo_base db' = mo_base db" and "mo_incidents db' = mo_incidents db"
    and "mo_evidence db' = mo_evidence db" and "mo_assessments db' = mo_assessments db"
    and "prefix (map binding_identity (mo_bindings db)) (map binding_identity (mo_bindings db'))"
    and "prefix (map hl_activation (mo_health db)) (map hl_activation (mo_health db'))"
    and "list_all binding_shape (mo_bindings db')" and "list_all health_shape (mo_health db')"
    and "\<forall>h \<in> set (mo_health db'). h \<in> set (mo_health db) \<or> (\<exists>b \<in> set (mo_bindings db'). hl_binding h = bd_id b \<and> hl_activation h = bd_activation b)"
  shows "mon_ok db' \<and> mon_extends R db db'"
proof -
  have ext: "mon_extends R db db'" for R
    unfolding mon_extends_def assms(4-6) using assms(7,8) list_all2_advanced_refl [of R "mo_incidents db"] by auto
  have "mon_ok db'" by (rule mon_ok_step [OF assms(1,2) ext])
    (use assms in \<open>simp_all add: mon_ok_def\<close>)
  then show ?thesis using ext by simp
qed

lemma map_bindings_ok:
  assumes "mon_ok db"
    and "\<And>b. binding_identity (f b) = binding_identity b \<and> bd_status (f b) = bd_status b \<and> bd_deactivated (f b) = bd_deactivated b
      \<and> (binding_shape b \<longrightarrow> binding_shape (f b))"
  shows "mon_ok (map_bindings f db) \<and> mon_extends R db (map_bindings f db)"
proof (rule mon_ok_tables [OF assms(1)])
  have c: "bd_id (f b) = bd_id b" "bd_activation (f b) = bd_activation b" "bd_registered (f b) = bd_registered b"
    "bd_status (f b) = bd_status b" "bd_deactivated (f b) = bd_deactivated b" for b
    using same_binding_columns [of "f b" b] assms(2) [of b] by simp_all
  have "map bd_id (map f bs) = map bd_id bs"
    "map bd_activation (filter (\<lambda>b. bd_status b = BIND_ACTIVE) (map f bs)) = map bd_activation (filter (\<lambda>b. bd_status b = BIND_ACTIVE) bs)" for bs
    by (simp_all add: c filter_map comp_def)
  then show "constraints_hold (map_bindings f db)"
    using assms(1) by (simp add: mon_ok_def constraints_hold_def map_bindings_def list.pred_map comp_def c)
  show "prefix (map binding_identity (mo_bindings db)) (map binding_identity (mo_bindings (map_bindings f db)))"
    by (simp add: map_bindings_def comp_def assms(2))
  show "list_all binding_shape (mo_bindings (map_bindings f db))"
    using assms by (simp add: mon_ok_def map_bindings_def list_all_iff)
qed (use assms(1) in \<open>simp_all add: map_bindings_def mon_ok_def\<close>)

lemma claim_ok:
  assumes "mon_ok db"
  shows "mon_ok (snd (claim_binding env tk token worker i db)) \<and> mon_extends R db (snd (claim_binding env tk token worker i db))"
proof -
  have "mon_ok (map_bindings (\<lambda>x. if bd_id x = i
      then x\<lparr>bd_worker := Some worker, bd_token := Some token, bd_claimed := Some t, bd_expires := Some u, bd_attempts := bd_attempts x + 1\<rparr>
      else x) db) \<and> mon_extends R db (map_bindings (\<lambda>x. if bd_id x = i
      then x\<lparr>bd_worker := Some worker, bd_token := Some token, bd_claimed := Some t, bd_expires := Some u, bd_attempts := bd_attempts x + 1\<rparr>
      else x) db)" for t u
    by (rule map_bindings_ok [OF assms]) (simp add: binding_identity_def binding_shape_def)
  then show ?thesis using assms unfolding claim_binding_def by (simp add: mon_extends_refl split: option.split)
qed

lemma release_binding_ok:
  assumes "mon_ok db"
  shows "mon_ok (release_claim c db) \<and> mon_extends R db (release_claim c db)"
  unfolding release_claim_def by (rule map_bindings_ok [OF assms]) (simp add: clear_claim_def binding_identity_def binding_shape_def)

lemma renew_binding_ok:
  assumes "mon_ok db"
  shows "mon_ok (snd (renew_claim env tk c db)) \<and> mon_extends R db (snd (renew_claim env tk c db))"
  unfolding renew_claim_def snd_conv
  by (rule map_bindings_ok [OF assms]) (simp add: owns_lease_def binding_identity_def binding_shape_def)

section \<open>The operator\<close>

definition operated :: "mon_incident \<Rightarrow> mon_incident \<Rightarrow> bool" where
  "operated i i' \<longleftrightarrow> incident_identity i' = incident_identity i \<and> ic_count i' = ic_count i \<and> ic_severity i' = ic_severity i
     \<and> ic_last i' = ic_last i \<and> (incident_shape i \<longrightarrow> incident_shape i')"

lemma books_replaced:
  assumes "books is es" and "i \<in> set is" and "operated i i'"
  shows "books (put_row ic_id i' is) es"
proof -
  have id: "ic_id i' = ic_id i" using assms(3) by (intro same_incident_columns(1)) (simp add: operated_def)
  have "ic_count j = int (length (filter (\<lambda>e. me_incident e = ic_id j) es)) \<and> incident_shape j"
    if "j \<in> set (put_row ic_id i' is)" for j
    using put_row_set [OF that] assms id by (auto simp: books_def list_all_iff operated_def)
  then show ?thesis using assms(1) unfolding books_def list_all_iff put_row_keys_set by blast
qed

lemma put_incident_ok:
  assumes ok: "mon_ok db" and i: "i \<in> set (mo_incidents db)" and op: "operated i i'"
    and con: "constraints_hold (written (put_incident i' (begin_session db)))"
  shows "mon_ok (written (put_incident i' (begin_session db)))
    \<and> mon_extends (\<lambda>_. True) db (written (put_incident i' (begin_session db)))"
proof -
  let ?db = "written (put_incident i' (begin_session db))"
  have w: "?db = db\<lparr>mo_incidents := put_row ic_id i' (mo_incidents db)\<rparr>" by (simp add: written_def put_incident_def)
  have "advanced (\<lambda>_. True) i i'" using op by (simp add: advanced_def operated_def)
  then have adv: "list_all2 (advanced (\<lambda>_. True)) (mo_incidents db) (put_row ic_id i' (mo_incidents db))"
    using ok i by (intro put_row_advanced) (auto simp: mon_ok_def constraints_hold_def)
  then have ext: "mon_extends (\<lambda>_. True) db ?db" unfolding w mon_extends_def by auto
  have "mon_ok ?db"
  proof (rule mon_ok_step [OF ok con ext])
    show "books (mo_incidents ?db) (mo_evidence ?db)" using ok i op unfolding w by (auto simp: mon_ok_def intro: books_replaced)
    show "\<forall>x \<in> set (drop (length (mo_incidents db)) (mo_incidents ?db)). \<exists>b \<in> set (mo_bindings ?db). scoped b x"
      unfolding w using list_all2_lengthD [OF adv] by simp
  qed (use ok in \<open>simp_all add: w mon_ok_def\<close>)
  then show ?thesis using ext by simp
qed

lemma operator_transaction_ok:
  assumes ok: "mon_ok db"
    and f: "\<And>a s. f (begin_session db) = Inr (a, s) \<Longrightarrow>
      s = begin_session db \<or> (\<exists>i i'. i \<in> set (mo_incidents db) \<and> operated i i' \<and> s = put_incident i' (begin_session db))"
  shows "keeps_tables (\<lambda>_. True) db (snd (in_transaction f db))"
proof (rule in_transaction_keeps [where P = "keeps_tables (\<lambda>_. True) db"], goal_cases)
  case 1
  then show ?case using ok by (simp only: mon_extends_refl simp_thms)
next
  case (2 a s)
  consider "s = begin_session db" | i i' where "i \<in> set (mo_incidents db)" "operated i i'" "s = put_incident i' (begin_session db)"
    using f [OF 2(1)] by blast
  then show ?case
  proof cases
    case 1
    then show ?thesis using ok by (simp add: written_begin mon_extends_refl)
  next
    case r: 2
    then show ?thesis using 2(2) put_incident_ok [OF ok r(1,2)] by simp
  qed
qed

lemma acknowledge_ok:
  assumes "mon_ok db"
  shows "keeps_tables (\<lambda>_. True) db (snd (acknowledge_incident now i actor note db))"
proof (cases "operator_text_ok actor note")
  case False
  then show ?thesis using assms by (simp add: acknowledge_incident_def mon_extends_refl)
next
  case True
  show ?thesis unfolding acknowledge_incident_def if_not_P [OF not_not [THEN iffD2, OF True]]
  proof (rule operator_transaction_ok [OF assms], goal_cases)
    case (1 a s)
    then obtain x where x: "find (\<lambda>x. ic_id x = i) (mo_incidents db) = Some x" by (auto split: option.splits)
    let ?x = "x\<lparr>ic_status := INC_ACKNOWLEDGED, ic_ack_at := Some now, ic_ack_by := Some (py_strip actor), ic_ack_note := note\<rparr>"
    have "s = begin_session db \<or> s = put_incident ?x (begin_session db)"
      using 1 x by (auto simp: Let_def split: if_splits)
    moreover have "operated x ?x" by (simp add: operated_def incident_identity_def incident_shape_def)
    ultimately show ?case using find_member [OF x] by blast
  qed
qed

lemma resolve_ok:
  assumes "mon_ok db"
  shows "keeps_tables (\<lambda>_. True) db (snd (resolve_incident now i actor note db))"
proof (cases "operator_text_ok actor note")
  case False
  then show ?thesis using assms by (simp add: resolve_incident_def mon_extends_refl)
next
  case True
  show ?thesis unfolding resolve_incident_def if_not_P [OF not_not [THEN iffD2, OF True]]
  proof (rule operator_transaction_ok [OF assms], goal_cases)
    case (1 a s)
    then obtain x where x: "find (\<lambda>x. ic_id x = i) (mo_incidents db) = Some x" by (auto split: option.splits)
    let ?x = "x\<lparr>ic_status := INC_RESOLVED, ic_resolved_at := Some now, ic_resolved_by := Some (py_strip actor),
        ic_resolution_note := note\<rparr>"
    have "s = begin_session db \<or> s = put_incident ?x (begin_session db)"
      using 1 x by (auto simp: Let_def split: if_splits)
    moreover have "operated x ?x" by (simp add: operated_def incident_identity_def incident_shape_def)
    ultimately show ?case using find_member [OF x] by blast
  qed
qed

section \<open>Registration\<close>

lemma deactivated_row:
  "binding_identity (deactivated now x) = binding_identity x" "binding_shape x \<Longrightarrow> binding_shape (deactivated now x)"
  by (simp_all add: deactivated_def clear_claim_def binding_identity_def binding_shape_def)

lemma build_binding_row: "binding_shape (build_binding uid now a r)" "bd_id (build_binding uid now a r) = uid"
  "bd_activation (build_binding uid now a r) = la_id a"
  by (simp_all add: build_binding_def Let_def binding_shape_def)

lemma set_unknown_shape: "health_shape ((set_unknown h)\<lparr>hl_error := e\<rparr>)"
  by (simp add: set_unknown_def health_shape_def)

text \<open>A new binding takes the health row of its activation over.\<close>

lemma new_binding_ok:
  assumes ok: "mon_ok db" and bs: "map binding_identity bs = map binding_identity (mo_bindings db)" "list_all binding_shape bs"
    and h: "health_state (build_binding uid now a r) a (begin_session (db\<lparr>mo_bindings := bs\<rparr>)) = (h, s2)"
    and s: "s = put_health ((set_unknown (h\<lparr>hl_binding := uid\<rparr>))\<lparr>hl_error := None\<rparr>)
      (s2\<lparr>ss_db := (ss_db s2)\<lparr>mo_bindings := mo_bindings (ss_db s2) @ [build_binding uid now a r]\<rparr>\<rparr>)"
    and con: "constraints_hold (written s)"
  shows "keeps_tables R db (written s)"
proof -
  let ?b = "build_binding uid now a r"
  let ?h = "(set_unknown (h\<lparr>hl_binding := uid\<rparr>))\<lparr>hl_error := None\<rparr>"
  note f = health_state_frame [OF h, simplified]
  note row = health_state_row [OF h, simplified]
  have w: "mo_base (written s) = mo_base db" "mo_bindings (written s) = bs @ [?b]"
    "mo_health (written s) = put_row hl_activation ?h (mo_health (ss_db s2))"
    "mo_incidents (written s) = mo_incidents db" "mo_evidence (written s) = mo_evidence db"
    "mo_assessments (written s) = mo_assessments db"
    unfolding s using f by (simp_all add: written_def put_health_def)
  have hs: "health_shape h" using row ok by (simp add: mon_ok_def)
  have mine: "hl_binding ?h = bd_id ?b" "hl_activation ?h = bd_activation ?b" "hl_binding h = bd_id ?b" "hl_activation h = bd_activation ?b"
    using row by (simp_all add: set_unknown_def build_binding_row)
  have mem: "x = ?h \<or> x = h \<or> x \<in> set (mo_health db)" if "x \<in> set (mo_health (written s))" for x
  proof -
    have "x = ?h \<or> x \<in> set (mo_health (ss_db s2))" using put_row_set that unfolding w by metis
    moreover have "set (mo_health (ss_db s2)) \<subseteq> insert h (set (mo_health db))" using f by auto
    ultimately show ?thesis by blast
  qed
  show ?thesis
  proof (rule mon_ok_tables [OF ok con w(1) w(4-6)])
    show "prefix (map binding_identity (mo_bindings db)) (map binding_identity (mo_bindings (written s)))" by (simp add: w bs)
    show "prefix (map hl_activation (mo_health db)) (map hl_activation (mo_health (written s)))"
      unfolding w put_row_keys using f by auto
    show "list_all binding_shape (mo_bindings (written s))" using bs by (simp add: w build_binding_row)
    show "list_all health_shape (mo_health (written s))"
    proof -
      have "\<forall>x \<in> set (mo_health db). health_shape x" using ok by (simp add: mon_ok_def list_all_iff)
      then show ?thesis unfolding list_all_iff using mem hs set_unknown_shape by blast
    qed
    show "\<forall>x \<in> set (mo_health (written s)). x \<in> set (mo_health db)
        \<or> (\<exists>c \<in> set (mo_bindings (written s)). hl_binding x = bd_id c \<and> hl_activation x = bd_activation c)"
    proof -
      have "?b \<in> set (mo_bindings (written s))" by (simp add: w)
      then show ?thesis using mem mine by blast
    qed
  qed
qed

lemma register_ok:
  assumes ok: "mon_ok db"
  shows "keeps_tables R db (snd (register env now uid r db))"
  unfolding register_def
proof (rule in_transaction_keeps [where P = "keeps_tables R db"], goal_cases)
  case 1
  then show ?case using ok by (simp only: mon_extends_refl simp_thms)
next
  case (2 e s)
  then obtain a ref where a: "locked_activation (rg_activation r) (begin_session db) = Some a" "la_status a = ACT_ACTIVE"
      "find (\<lambda>x. br_run x = rg_reference r) (bt_results (cm_backtests (mo_base db))) = Some ref" "br_strategy ref = la_strategy a"
    by (auto simp: register_session_def split: option.splits if_splits)
  let ?old = "find (\<lambda>b. bd_activation b = la_id a \<and> bd_status b = BIND_ACTIVE) (mo_bindings db)"
  let ?b = "build_binding uid now a r"
  have cb: "distinct (map bd_id (mo_bindings db))" and sh: "list_all binding_shape (mo_bindings db)"
    using ok by (simp_all add: mon_ok_def constraints_hold_def)
  show ?case
  proof (cases "case ?old of None \<Rightarrow> False | Some x \<Rightarrow> same_registration r x")
    case True
    then have "s = begin_session db" using 2(1) a by (simp add: register_session_def Let_def)
    then show ?thesis using ok by (simp add: written_begin mon_extends_refl)
  next
    case False
    let ?bs = "case ?old of None \<Rightarrow> mo_bindings db | Some x \<Rightarrow> put_row bd_id (deactivated now x) (mo_bindings db)"
    have bs: "map binding_identity ?bs = map binding_identity (mo_bindings db) \<and> list_all binding_shape ?bs"
    proof (cases ?old)
      case (Some x)
      note x = conjunct1 [OF find_member [OF Some]]
      have "binding_shape x" using sh x by (simp add: list_all_iff)
      then show ?thesis using put_row_identity [OF cb x deactivated_row(1)] Some sh by (simp add: list_all_put_row deactivated_row(2))
    qed (use sh in simp_all)
    have start: "(case ?old of None \<Rightarrow> begin_session db | Some x \<Rightarrow> put_binding (deactivated now x) (begin_session db))
        = begin_session (db\<lparr>mo_bindings := ?bs\<rparr>)"
      by (simp add: put_binding_def split: option.split)
    obtain h s2 where h: "health_state ?b a (begin_session (db\<lparr>mo_bindings := ?bs\<rparr>)) = (h, s2)"
      by (cases "health_state ?b a (begin_session (db\<lparr>mo_bindings := ?bs\<rparr>))")
    have "s = put_health ((set_unknown (h\<lparr>hl_binding := uid\<rparr>))\<lparr>hl_error := None\<rparr>)
      (s2\<lparr>ss_db := (ss_db s2)\<lparr>mo_bindings := mo_bindings (ss_db s2) @ [?b]\<rparr>\<rparr>)"
      using 2(1) a False start h by (simp add: register_session_def Let_def split: if_splits) clarsimp
    then show ?thesis by (rule new_binding_ok [OF ok conjunct1 [OF bs] conjunct2 [OF bs] h _ 2(2)])
  qed
qed

lemma deactivate_ok:
  assumes ok: "mon_ok db"
  shows "keeps_tables R db (snd (deactivate_binding now i db))"
  unfolding deactivate_binding_def
proof (rule in_transaction_keeps [where P = "keeps_tables R db"], goal_cases)
  case 1
  then show ?case using ok by (simp only: mon_extends_refl simp_thms)
next
  case (2 e s)
  have row: "map binding_identity (put_row bd_id (deactivated now b) (mo_bindings db)) = map binding_identity (mo_bindings db)
      \<and> list_all binding_shape (put_row bd_id (deactivated now b) (mo_bindings db))" if "b \<in> set (mo_bindings db)" for b
  proof
    show "map binding_identity (put_row bd_id (deactivated now b) (mo_bindings db)) = map binding_identity (mo_bindings db)"
      using ok that by (intro put_row_identity) (simp_all add: mon_ok_def constraints_hold_def deactivated_row)
    show "list_all binding_shape (put_row bd_id (deactivated now b) (mo_bindings db))"
      using ok that by (intro list_all_put_row) (simp_all add: mon_ok_def list_all_iff deactivated_row)
  qed
  consider "s = begin_session db"
    | b where "b \<in> set (mo_bindings db)" "s = put_binding (deactivated now b) (begin_session db)"
    | b h where "b \<in> set (mo_bindings db)" "h \<in> set (mo_health db)"
        "s = put_health ((set_unknown h)\<lparr>hl_error := None\<rparr>) (put_binding (deactivated now b) (begin_session db))"
  proof (cases "find (\<lambda>b. bd_id b = i) (mo_bindings db)")
    case None
    then show ?thesis using 2(1) that(1) by (simp add: deactivate_session_def)
  next
    case (Some b)
    note b = conjunct1 [OF find_member [OF Some]]
    show ?thesis
    proof (cases "bd_status b = BIND_ACTIVE")
      case False
      then show ?thesis using 2(1) Some that(1) by (simp add: deactivate_session_def)
    next
      case True
      show ?thesis
      proof (cases "find (\<lambda>h. hl_activation h = bd_activation b) (mo_health db)")
        case None
        then show ?thesis using 2(1) True Some that(2) [OF b] by (simp add: deactivate_session_def Let_def put_binding_def)
      next
        case h: (Some h)
        have "h \<in> set (mo_health db)" using find_member [OF h] by simp
        then show ?thesis using 2(1) True Some h that(2) [OF b] that(3) [OF b]
          by (simp add: deactivate_session_def Let_def put_binding_def split: if_splits)
      qed
    qed
  qed
  then show ?case
  proof cases
    case 1
    then show ?thesis using ok by (simp add: written_begin mon_extends_refl)
  next
    case b: 2
    have w: "written s = db\<lparr>mo_bindings := put_row bd_id (deactivated now b) (mo_bindings db)\<rparr>" by (simp add: b written_def put_binding_def)
    show ?thesis by (rule mon_ok_tables [OF ok 2(2)])
      (use ok row [OF b(1)] in \<open>simp_all add: w mon_ok_def\<close>)
  next
    case b: 3
    let ?h = "(set_unknown h)\<lparr>hl_error := None\<rparr>"
    have w: "written s = db\<lparr>mo_bindings := put_row bd_id (deactivated now b) (mo_bindings db), mo_health := put_row hl_activation ?h (mo_health db)\<rparr>"
      unfolding b written_put by (simp add: written_def)
    note ids = conjunct1 [OF row [OF b(1)]] and sh = conjunct2 [OF row [OF b(1)]]
    have hs: "list_all health_shape (put_row hl_activation ?h (mo_health db))"
      using ok by (intro list_all_put_row set_unknown_shape) (simp add: mon_ok_def)
    obtain c where c: "c \<in> set (mo_bindings db)" "hl_binding h = bd_id c" "hl_activation h = bd_activation c"
      using ok b(2) by (auto simp: mon_ok_def)
    obtain c' where c': "c' \<in> set (mo_bindings (written s))" "binding_identity c' = binding_identity c"
      using identity_transport [of "mo_bindings db" "mo_bindings (written s)" c] ids c(1) by (auto simp: w)
    have own: "hl_binding ?h = bd_id c' \<and> hl_activation ?h = bd_activation c'"
      using c same_binding_columns [OF c'(2)] by (simp add: set_unknown_def)
    have owned: "\<forall>x \<in> set (mo_health (written s)). x \<in> set (mo_health db)
        \<or> (\<exists>c \<in> set (mo_bindings (written s)). hl_binding x = bd_id c \<and> hl_activation x = bd_activation c)"
    proof (intro ballI)
      fix x
      assume "x \<in> set (mo_health (written s))"
      then have "x = ?h \<or> x \<in> set (mo_health db)" using put_row_set [of x hl_activation ?h "mo_health db"] by (auto simp: w)
      then show "x \<in> set (mo_health db) \<or> (\<exists>c \<in> set (mo_bindings (written s)). hl_binding x = bd_id c \<and> hl_activation x = bd_activation c)"
        using own c'(1) by blast
    qed
    show ?thesis by (rule mon_ok_tables [OF ok 2(2)]) (use owned ids sh hs in \<open>simp_all add: w put_row_keys\<close>)
  qed
qed

section \<open>Histories\<close>

text \<open>
  What any number of workers, operators and other services commit, one transaction at a time.  Live
  evaluation, backtests and comparisons change the tables below.
\<close>

inductive mon_later :: "mon_env \<Rightarrow> mon_db \<Rightarrow> mon_db \<Rightarrow> bool" for env where
  unchanged: "mon_later env db0 db0"
| below: "mon_later env db0 db \<Longrightarrow> comparison_later (en_comparison env) (mo_base db) base \<Longrightarrow> mon_later env db0 (db\<lparr>mo_base := base\<rparr>)"
| assessed_run: "mon_later env db0 db \<Longrightarrow> genuine c db \<Longrightarrow>
     mon_later env db0 (snd (in_transaction (process_one_comparison env tk c) db))"
| cycle_finalized: "mon_later env db0 db \<Longrightarrow> genuine c db \<Longrightarrow>
     mon_later env db0 (snd (in_transaction (finalize_binding_cycle env tk c) db))"
| error_recorded: "mon_later env db0 db \<Longrightarrow> genuine c db \<Longrightarrow>
     mon_later env db0 (snd (in_transaction (record_binding_error env tk c text) db))"
| claimed: "mon_later env db0 db \<Longrightarrow> mon_later env db0 (snd (claim_binding env tk token worker i db))"
| renewed: "mon_later env db0 db \<Longrightarrow> mon_later env db0 (snd (renew_claim env tk c db))"
| released: "mon_later env db0 db \<Longrightarrow> mon_later env db0 (release_claim c db)"
| enrolled: "mon_later env db0 db \<Longrightarrow> mon_later env db0 (snd (register env now uid r db))"
| unenrolled: "mon_later env db0 db \<Longrightarrow> mon_later env db0 (snd (deactivate_binding now i db))"
| acknowledged: "mon_later env db0 db \<Longrightarrow> mon_later env db0 (snd (acknowledge_incident now i actor n db))"
| resolved: "mon_later env db0 db \<Longrightarrow> mon_later env db0 (snd (resolve_incident now i actor n db))"

definition never_healthy :: "mon_db \<Rightarrow> bool" where
  "never_healthy db \<longleftrightarrow> comparison_ok (mo_base db) \<and> (\<forall>h \<in> set (mo_health db). hl_status h \<noteq> H_HEALTHY)"

lemma no_healthy_run: "comparison_ok base \<Longrightarrow> \<not> some_healthy_run base"
  by (auto simp: comparison_ok_def some_healthy_run_def)

lemma extends_anything: "mon_extends R db db' \<Longrightarrow> mon_extends (\<lambda>_. True) db db'"
proof -
  have "advanced R i j \<Longrightarrow> advanced (\<lambda>_. True) i j" for i j by (simp add: advanced_def)
  then show "mon_extends R db db' \<Longrightarrow> ?thesis" unfolding mon_extends_def using list_all2_mono by blast
qed

lemma monitor_transaction_ok:
  assumes ok: "mon_ok db" and f: "\<And>a s. f (begin_session db) = Inr (a, s) \<Longrightarrow> monitor_effect db s"
  shows "keeps_tables (closable (mo_base db)) db (snd (in_transaction f db)) \<and> mo_base (snd (in_transaction f db)) = mo_base db
    \<and> (never_healthy db \<longrightarrow> never_healthy (snd (in_transaction f db)))"
proof (rule in_transaction_keeps [where P = "\<lambda>db'. keeps_tables (closable (mo_base db)) db db' \<and> mo_base db' = mo_base db
      \<and> (never_healthy db \<longrightarrow> never_healthy db')"], goal_cases)
  case 1
  then show ?case using ok by (simp only: mon_extends_refl simp_thms)
next
  case (2 a s)
  note e = monitor_effect_ok [OF f [OF 2(1)] ok 2(2)]
  moreover have "never_healthy (written s)" if "never_healthy db"
    using e that no_healthy_run unfolding never_healthy_def by metis
  ultimately show ?case by blast
qed

text \<open>Transactions of the interface leave the tables below alone and make no row healthy.\<close>

definition no_health_gained :: "mon_db \<Rightarrow> mon_db \<Rightarrow> bool" where
  "no_health_gained db db' \<longleftrightarrow> mo_base db' = mo_base db \<and> (never_healthy db \<longrightarrow> never_healthy db')"

lemma no_health_same: "mo_base db' = mo_base db \<Longrightarrow> mo_health db' = mo_health db \<Longrightarrow> no_health_gained db db'"
  by (simp add: no_health_gained_def never_healthy_def)

lemma health_put_unknown:
  assumes "\<forall>x \<in> set (mo_health (ss_db s)). hl_status x \<noteq> H_HEALTHY"
  shows "\<forall>x \<in> set (mo_health (ss_db (put_health ((set_unknown h)\<lparr>hl_error := e\<rparr>) s))). hl_status x \<noteq> H_HEALTHY"
  using assms put_row_set [of _ hl_activation "(set_unknown h)\<lparr>hl_error := e\<rparr>" "mo_health (ss_db s)"]
  by (auto simp: put_health_def set_unknown_def put_row_def)

lemma lease_no_health:
  "no_health_gained db (snd (claim_binding env tk token worker i db))" "no_health_gained db (snd (renew_claim env tk c db))"
  "no_health_gained db (release_claim c db)"
  by (simp_all add: no_health_same claim_binding_def renew_claim_def release_claim_def map_bindings_def split: option.split)

lemma operator_no_health:
  "no_health_gained db (snd (acknowledge_incident now i actor n db))" "no_health_gained db (snd (resolve_incident now i actor n db))"
  unfolding acknowledge_incident_def resolve_incident_def
  by (auto simp: no_health_same Let_def put_incident_def written_def split: option.splits if_splits
      intro!: in_transaction_keeps [where P = "no_health_gained db"])

lemma registration_no_health: "no_health_gained db (snd (register env now uid r db))"
  unfolding register_def
proof (rule in_transaction_keeps [where P = "no_health_gained db"], goal_cases)
  case 1
  then show ?case by (simp add: no_health_same)
next
  case (2 b s)
  show ?case
  proof (cases "s = begin_session db")
    case True
    then show ?thesis by (simp add: written_begin no_health_same)
  next
    case False
    then obtain x a h s1 s2 where start: "mo_base (ss_db s1) = mo_base db" "mo_health (ss_db s1) = mo_health db"
      and h: "health_state x a s1 = (h, s2)"
      and s: "s = put_health ((set_unknown (h\<lparr>hl_binding := uid\<rparr>))\<lparr>hl_error := None\<rparr>)
        (s2\<lparr>ss_db := (ss_db s2)\<lparr>mo_bindings := mo_bindings (ss_db s2) @ [x]\<rparr>\<rparr>)"
      using 2(1) by (force simp: register_session_def Let_def put_binding_def split: option.splits if_splits prod.splits)
    note f = health_state_frame [OF h]
    note row = health_state_row [OF h]
    have "\<forall>y \<in> set (mo_health (ss_db s2)). hl_status y \<noteq> H_HEALTHY" if "\<forall>y \<in> set (mo_health db). hl_status y \<noteq> H_HEALTHY"
      using f row that unfolding start by auto
    then have "\<forall>y \<in> set (mo_health (written s)). hl_status y \<noteq> H_HEALTHY" if "\<forall>y \<in> set (mo_health db). hl_status y \<noteq> H_HEALTHY"
      using that health_put_unknown [where e = None and h = "h\<lparr>hl_binding := uid\<rparr>"
          and s = "s2\<lparr>ss_db := (ss_db s2)\<lparr>mo_bindings := mo_bindings (ss_db s2) @ [x]\<rparr>\<rparr>"]
      by (simp add: s written_def)
    moreover have "mo_base (written s) = mo_base db" using f start by (simp add: s written_def put_health_def)
    ultimately show ?thesis by (simp add: no_health_gained_def never_healthy_def)
  qed
qed

lemma deactivation_no_health: "no_health_gained db (snd (deactivate_binding now i db))"
  unfolding deactivate_binding_def
proof (rule in_transaction_keeps [where P = "no_health_gained db"], goal_cases)
  case 1
  then show ?case by (simp add: no_health_same)
next
  case (2 b s)
  have unknown: "no_health_gained db (written (put_health ((set_unknown h)\<lparr>hl_error := None\<rparr>) (put_binding x (begin_session db))))" for h x
    using health_put_unknown [where s = "put_binding x (begin_session db)" and h = h and e = None]
    by (simp add: no_health_gained_def never_healthy_def written_def put_health_def put_binding_def)
  have same: "no_health_gained db (written (begin_session db))" "no_health_gained db (written (put_binding x (begin_session db)))" for x
    by (simp_all add: no_health_same written_def put_binding_def)
  show ?case using 2(1) unknown same by (auto simp: deactivate_session_def Let_def split: option.splits if_splits)
qed

lemma below_ok:
  assumes ok: "mon_ok db" and later: "comparison_later env (mo_base db) base" and base: "comparison_ok (mo_base db)"
  shows "keeps_tables R db (db\<lparr>mo_base := base\<rparr>) \<and> comparison_ok base"
proof -
  note l = comparison_later_ok [OF later base]
  have con: "constraints_hold (db\<lparr>mo_base := base\<rparr>)" using ok by (simp add: mon_ok_def constraints_hold_def)
  have ext: "mon_extends R db (db\<lparr>mo_base := base\<rparr>)" for R
    using mon_extends_refl [of R db] by (simp add: mon_extends_def)
  have "mon_ok (db\<lparr>mo_base := base\<rparr>)"
    by (rule mon_ok_step [OF ok con ext]) (use ok l in \<open>simp_all add: mon_ok_def comparison_extends_def\<close>)
  then show ?thesis using ext l by simp
qed

lemma stable_any: "stable_rule (\<lambda>_. True)"
  by (simp add: stable_rule_def)

definition good_later :: "mon_db \<Rightarrow> mon_db \<Rightarrow> bool" where
  "good_later db0 db \<longleftrightarrow>
     keeps_tables (\<lambda>_. True) db0 db \<and> comparison_ok (mo_base db) \<and> (never_healthy db0 \<longrightarrow> never_healthy db)"

lemma good_step:
  assumes "good_later db0 db" and "mon_ok db \<Longrightarrow> keeps_tables (\<lambda>_. True) db db'" and "no_health_gained db db'"
  shows "good_later db0 db'"
proof -
  have ok: "mon_ok db" "mon_extends (\<lambda>_. True) db0 db" using assms(1) by (simp_all add: good_later_def)
  have "mon_extends (\<lambda>_. True) db0 db'" using mon_extends_trans [OF stable_any ok(2)] assms(2) [OF ok(1)] by simp
  then show ?thesis using assms(1,3) assms(2) [OF ok(1)] by (simp add: good_later_def no_health_gained_def)
qed

lemma good_transaction:
  assumes "good_later db0 db" and f: "\<And>a s. f (begin_session db) = Inr (a, s) \<Longrightarrow> distinct (map bd_id (mo_bindings db)) \<Longrightarrow> monitor_effect db s"
  shows "good_later db0 (snd (in_transaction f db))"
proof -
  have ok: "mon_ok db" using assms(1) by (simp add: good_later_def)
  then have d: "distinct (map bd_id (mo_bindings db))" by (simp add: mon_ok_def constraints_hold_def)
  have t: "keeps_tables (closable (mo_base db)) db (snd (in_transaction f db)) \<and> mo_base (snd (in_transaction f db)) = mo_base db
      \<and> (never_healthy db \<longrightarrow> never_healthy (snd (in_transaction f db)))"
    by (rule monitor_transaction_ok [OF ok]) (rule f [OF _ d])
  show ?thesis
    by (rule good_step [OF assms(1)]) (use t extends_anything in \<open>auto simp: no_health_gained_def\<close>)
qed

lemma mon_later_good:
  assumes "mon_later env db0 db" and "mon_ok db0" and "comparison_ok (mo_base db0)"
  shows "good_later db0 db"
  using assms
proof (induction rule: mon_later.induct)
  case unchanged
  then show ?case by (simp add: good_later_def mon_extends_refl)
next
  case (below db0 db base)
  then have IH: "mon_ok db" "mon_extends (\<lambda>_. True) db0 db" "comparison_ok (mo_base db)" "never_healthy db0 \<longrightarrow> never_healthy db"
    by (simp_all add: good_later_def)
  note b = below_ok [OF IH(1) below.hyps(2) IH(3), where R = "\<lambda>_. True"]
  have "mon_extends (\<lambda>_. True) db0 (db\<lparr>mo_base := base\<rparr>)" using mon_extends_trans [OF stable_any IH(2)] b by simp
  then show ?case using b IH(4) by (simp add: good_later_def never_healthy_def)
next
  case (assessed_run db0 db c tk)
  show ?case by (rule good_transaction [OF assessed_run.IH [OF assessed_run.prems] process_one_effect [OF _ assessed_run.hyps(2)]])
next
  case (cycle_finalized db0 db c tk)
  show ?case by (rule good_transaction [OF cycle_finalized.IH [OF cycle_finalized.prems] finalize_effect [OF _ cycle_finalized.hyps(2)]])
next
  case (error_recorded db0 db c tk e)
  show ?case by (rule good_transaction [OF error_recorded.IH [OF error_recorded.prems] record_error_effect [OF _ error_recorded.hyps(2)]])
next
  case (claimed db0 db tk token worker i)
  show ?case by (rule good_step [OF claimed.IH [OF claimed.prems] claim_ok lease_no_health(1)])
next
  case (renewed db0 db tk c)
  show ?case by (rule good_step [OF renewed.IH [OF renewed.prems] renew_binding_ok lease_no_health(2)])
next
  case (released db0 db c)
  show ?case by (rule good_step [OF released.IH [OF released.prems] release_binding_ok lease_no_health(3)])
next
  case (enrolled db0 db now uid r)
  show ?case by (rule good_step [OF enrolled.IH [OF enrolled.prems] register_ok registration_no_health])
next
  case (unenrolled db0 db now i)
  show ?case by (rule good_step [OF unenrolled.IH [OF unenrolled.prems] deactivate_ok deactivation_no_health])
next
  case (acknowledged db0 db now i actor n)
  show ?case by (rule good_step [OF acknowledged.IH [OF acknowledged.prems] acknowledge_ok operator_no_health(1)])
next
  case (resolved db0 db now i actor n)
  show ?case by (rule good_step [OF resolved.IH [OF resolved.prems] resolve_ok operator_no_health(2)])
qed

end
