(* ===== verification/Monitoring_Results.thy ===== *)
theory Monitoring_Results
  imports Monitoring_History
begin

text \<open>
  What monitoring promises over any history: incidents account for their evidence, only an operator
  closes what is not mere staleness, a lease excludes other workers; and where it fails.
\<close>

section \<open>Histories\<close>

text \<open>
  C11: Whatever workers, operators and the services below commit in whatever order, every check of the
  monitoring tables holds, each incident counts exactly its pieces of evidence, and nothing recorded is
  lost: incidents keep their identity, and their count and severity never fall.
\<close>

theorem monitoring_tables_stay_consistent:
  assumes "mon_later env db0 db" and "mon_ok db0" and "comparison_ok (mo_base db0)"
  shows "mon_ok db \<and> mon_extends (\<lambda>_. True) db0 db
    \<and> (\<forall>i \<in> set (mo_incidents db). ic_count i = int (length (filter (\<lambda>e. me_incident e = ic_id i) (mo_evidence db))))
    \<and> (\<forall>i \<in> set (mo_incidents db0). \<exists>i' \<in> set (mo_incidents db).
         incident_identity i' = incident_identity i \<and> ic_count i \<le> ic_count i' \<and> ic_severity i \<le> ic_severity i')"
proof -
  have g: "mon_ok db" "mon_extends (\<lambda>_. True) db0 db" using mon_later_good [OF assms] by (simp_all add: good_later_def)
  obtain xs ys where x: "mo_incidents db = xs @ ys" "list_all2 (advanced (\<lambda>_. True)) (mo_incidents db0) xs"
    using g(2) by (auto simp: mon_extends_def)
  have "\<exists>i' \<in> set (mo_incidents db). incident_identity i' = incident_identity i \<and> ic_count i \<le> ic_count i' \<and> ic_severity i \<le> ic_severity i'"
    if i: "i \<in> set (mo_incidents db0)" for i
  proof -
    obtain i' where "i' \<in> set xs" "advanced (\<lambda>_. True) i i'" using x(2) i by (metis in_set_conv_nth list_all2_conv_all_nth)
    then show ?thesis using x(1) by (auto simp: advanced_def)
  qed
  then show ?thesis using g by (simp add: mon_ok_def books_def list_all_iff)
qed

lemma transaction_closes:
  assumes ok: "mon_ok db" and base: "comparison_ok (mo_base db)"
    and f: "\<forall>a s. f (begin_session db) = Inr (a, s) \<longrightarrow> monitor_effect db s"
    and i: "i \<in> set (mo_incidents db)" "unresolved i" "ic_type i \<notin> {''stale_strategy_state'', ''stale_comparison_evidence''}"
  shows "\<exists>i' \<in> set (mo_incidents (snd (in_transaction f db))). ic_id i' = ic_id i \<and> unresolved i' \<and> ic_count i \<le> ic_count i'"
proof -
  have "mon_extends (closable (mo_base db)) db (snd (in_transaction f db))" 
    by (rule monitor_transaction_ok [OF ok, THEN conjunct1, THEN conjunct2]) (use f in blast)
  then obtain xs ys where x: "mo_incidents (snd (in_transaction f db)) = xs @ ys" "list_all2 (advanced (closable (mo_base db))) (mo_incidents db) xs"
    by (auto simp: mon_extends_def)
  obtain i' where i': "i' \<in> set xs" "advanced (closable (mo_base db)) i i'" using x(2) i(1) by (metis in_set_conv_nth list_all2_conv_all_nth)
  have "\<not> closable (mo_base db) i" using i(3) no_healthy_run [OF base] by (simp add: closable_def some_healthy_run_def)
  moreover have "ic_id i' = ic_id i" using i'(2) by (intro same_incident_columns(1)) (simp add: advanced_def)
  ultimately show ?thesis using i' i(2) x(1) by (auto simp: advanced_def)
qed

text \<open>
  C12: Monitoring fails closed: together with the comparison service it never shows a strategy as healthy,
  and no transaction of a worker closes an incident that is not about staleness; only an operator does.
\<close>

theorem monitoring_fails_closed:
  assumes "mon_later env db0 db" and "mon_ok db0" and "comparison_ok (mo_base db0)"
    and "\<forall>h \<in> set (mo_health db0). hl_status h \<noteq> H_HEALTHY" and "genuine c db"
  shows "(\<forall>h \<in> set (mo_health db). hl_status h \<noteq> H_HEALTHY)
    \<and> (\<forall>i \<in> set (mo_incidents db). unresolved i \<longrightarrow> ic_type i \<notin> {''stale_strategy_state'', ''stale_comparison_evidence''} \<longrightarrow>
        (\<forall>db' \<in> {snd (in_transaction (process_one_comparison env tk c) db), snd (in_transaction (finalize_binding_cycle env tk c) db),
                   snd (in_transaction (record_binding_error env tk c msg) db)}.
           \<exists>i' \<in> set (mo_incidents db'). ic_id i' = ic_id i \<and> unresolved i' \<and> ic_count i \<le> ic_count i'))"
proof -
  have g: "mon_ok db" "comparison_ok (mo_base db)" "never_healthy db"
    using mon_later_good [OF assms(1-3)] assms(3,4) by (simp_all add: good_later_def never_healthy_def)
  have d: "distinct (map bd_id (mo_bindings db))" using g(1) by (simp add: mon_ok_def constraints_hold_def)
  have e1: "\<forall>a s. process_one_comparison env tk c (begin_session db) = Inr (a, s) \<longrightarrow> monitor_effect db s"
    using process_one_effect [OF _ assms(5) d] by blast
  have e2: "\<forall>a s. finalize_binding_cycle env tk c (begin_session db) = Inr (a, s) \<longrightarrow> monitor_effect db s"
    using finalize_effect [OF _ assms(5)] by blast
  have e3: "\<forall>a s. record_binding_error env tk c msg (begin_session db) = Inr (a, s) \<longrightarrow> monitor_effect db s"
    using record_error_effect [OF _ assms(5)] by blast
  show ?thesis using g(3) transaction_closes [where f = "process_one_comparison env tk c", OF g(1,2) e1]
      transaction_closes [where f = "finalize_binding_cycle env tk c", OF g(1,2) e2]
      transaction_closes [where f = "record_binding_error env tk c msg", OF g(1,2) e3]
    unfolding never_healthy_def by blast
qed

section \<open>Leases\<close>

lemma map_bindings_set: "set (mo_bindings (map_bindings f db)) = f ` set (mo_bindings db)"
  by (simp add: map_bindings_def)

lemma owned_None: "\<not> list_ex (owns_lease c (tk_owned tk)) (mo_bindings (ss_db s)) \<Longrightarrow> owned_binding tk c s = None"
  by (auto simp: owned_binding_def find_None_iff list_ex_iff)

lemma not_owner:
  assumes "owned_binding tk c (begin_session db) = None"
  shows "snd (in_transaction (process_one_comparison env tk c) db) = db" "snd (in_transaction (finalize_binding_cycle env tk c) db) = db"
    "snd (in_transaction (record_binding_error env tk c msg) db) = db"
  using assms
  by (simp_all add: in_transaction_def process_one_comparison_def finalize_binding_cycle_def record_binding_error_def written_begin
      split: option.split)

text \<open>
  C18: A lease excludes: who claimed a binding holds it until it expires, no other worker gets a claim before
  that, and whoever else still believes to own the binding changes nothing.
\<close>

theorem monitor_lease_excludes:
  assumes "mon_ok db" and "claim_binding env tk token worker i db = (Some c, db')" and "t < tk_now tk + en_lease env"
  shows "list_ex (owns_lease c t) (mo_bindings db')
    \<and> (\<forall>tk2 token2 worker2. tk_now tk2 = t \<longrightarrow> claim_binding env tk2 token2 worker2 i db' = (None, db'))
    \<and> (\<forall>c2 tk2. cl_binding c2 = i \<and> (cl_token c2 \<noteq> token \<or> cl_worker c2 \<noteq> worker) \<longrightarrow>
         snd (in_transaction (process_one_comparison env tk2 c2) db') = db'
         \<and> snd (in_transaction (finalize_binding_cycle env tk2 c2) db') = db'
         \<and> snd (in_transaction (record_binding_error env tk2 c2 msg) db') = db' \<and> fst (renew_claim env tk2 c2 db') = False)"
proof -
  let ?f = "\<lambda>x. if bd_id x = i then x\<lparr>bd_worker := Some worker, bd_token := Some token, bd_claimed := Some (tk_now tk),
      bd_expires := Some (tk_now tk + en_lease env), bd_attempts := bd_attempts x + 1\<rparr> else x"
  obtain b where b: "find (claimable (tk_now tk) i) (mo_bindings db) = Some b"
    and c: "c = \<lparr>cl_binding = i, cl_activation = bd_activation b, cl_token = token, cl_worker = worker\<rparr>" and db': "db' = map_bindings ?f db"
    using assms(2) by (auto simp: claim_binding_def split: option.splits if_splits)
  have bm: "b \<in> set (mo_bindings db)" "bd_id b = i" "bd_status b = BIND_ACTIVE" using find_member [OF b] by (simp_all add: claimable_def)
  have new: "bd_id x = i \<longrightarrow> bd_token x = Some token \<and> bd_worker x = Some worker \<and> bd_expires x = Some (tk_now tk + en_lease env)"
    if x: "x \<in> set (mo_bindings db')" for x
  proof -
    obtain y where "y \<in> set (mo_bindings db)" "x = ?f y"
      using x unfolding db' map_bindings_set by blast
    then show ?thesis by (cases "bd_id y = i") simp_all
  qed
  have "owns_lease c t (?f b)" using bm assms(3) by (simp add: owns_lease_def c)
  moreover have "?f b \<in> set (mo_bindings db')"
    unfolding db' map_bindings_set by (rule imageI [OF bm(1)])
  ultimately have "list_ex (owns_lease c t) (mo_bindings db')" by (auto simp only: list_ex_iff)
  moreover have "claim_binding env tk2 token2 worker2 i db' = (None, db')" if "tk_now tk2 = t" for tk2 token2 worker2
  proof -
    have "find (claimable t i) (mo_bindings db') = None"
      using new assms(3) unfolding find_None_iff by (auto simp: claimable_def)
    then show ?thesis using that by (simp add: claim_binding_def)
  qed
  moreover have none: "\<not> list_ex (owns_lease c2 t2) (mo_bindings db')" if "cl_binding c2 = i" "cl_token c2 \<noteq> token \<or> cl_worker c2 \<noteq> worker" for c2 t2
  proof
    assume "list_ex (owns_lease c2 t2) (mo_bindings db')"
    then obtain x where "x \<in> set (mo_bindings db')" "owns_lease c2 t2 x" by (auto simp only: list_ex_iff)
    then show False using new [of x] that by (simp add: owns_lease_def)
  qed
  moreover have "snd (in_transaction (process_one_comparison env tk2 c2) db') = db'
         \<and> snd (in_transaction (finalize_binding_cycle env tk2 c2) db') = db'
         \<and> snd (in_transaction (record_binding_error env tk2 c2 msg) db') = db' \<and> fst (renew_claim env tk2 c2 db') = False"
    if "cl_binding c2 = i" "cl_token c2 \<noteq> token \<or> cl_worker c2 \<noteq> worker" for c2 tk2
  proof -
    have "owned_binding tk2 c2 (begin_session db') = None" by (rule owned_None) (use none [OF that] in simp)
    then show ?thesis using not_owner none [OF that] by (simp add: renew_claim_def)
  qed
  ultimately show ?thesis by blast
qed

section \<open>Registration\<close>


section \<open>A worker's cycle\<close>

lemma mon_later_trans:
  assumes "mon_later env db1 db2" and "mon_later env db0 db1"
  shows "mon_later env db0 db2"
  using assms by (induction rule: mon_later.induct) (auto intro: mon_later.intros)

definition held :: "claim \<Rightarrow> mon_db \<Rightarrow> bool" where
  "held c db \<longleftrightarrow> (\<exists>b \<in> set (mo_bindings db). bd_id b = cl_binding c \<and> bd_activation b = cl_activation c)"

lemma held_genuine:
  assumes "held c db" and "mon_ok db"
  shows "genuine c db"
proof -
  obtain b where b: "b \<in> set (mo_bindings db)" "bd_id b = cl_binding c" "bd_activation b = cl_activation c" using assms(1) by (auto simp: held_def)
  have "inj_on bd_id (set (mo_bindings db))" using assms(2) by (simp add: mon_ok_def constraints_hold_def distinct_map)
  then show ?thesis unfolding genuine_def using b by (metis inj_onD)
qed

lemma held_extends:
  assumes "held c db" and "mon_extends R db db'"
  shows "held c db'"
proof -
  obtain b where b: "b \<in> set (mo_bindings db)" "bd_id b = cl_binding c" "bd_activation b = cl_activation c" using assms(1) by (auto simp: held_def)
  obtain b' where b': "b' \<in> set (mo_bindings db')" "binding_identity b' = binding_identity b"
    using identity_transport [OF _ b(1)] assms(2) by (auto simp: mon_extends_def)
  show ?thesis unfolding held_def using b b' same_binding_columns(1,2) [OF b'(2)] by auto
qed

text \<open>What a worker keeps between its transactions.\<close>

definition on_course :: "mon_env \<Rightarrow> mon_db \<Rightarrow> claim \<Rightarrow> mon_db \<Rightarrow> bool" where
  "on_course env db0 c db \<longleftrightarrow> mon_later env db0 db \<and> mon_ok db \<and> comparison_ok (mo_base db) \<and> held c db"

lemma on_course_later:
  assumes "on_course env db0 c db" and "mon_later env db db'"
  shows "on_course env db0 c db'"
proof -
  have g: "good_later db db'" using assms by (intro mon_later_good) (simp_all add: on_course_def)
  then show ?thesis using assms mon_later_trans [OF assms(2)] held_extends [of c db _ db'] by (auto simp: on_course_def good_later_def)
qed

lemma on_course_steps:
  assumes "on_course env db0 c db"
  shows "on_course env db0 c (snd (in_transaction (process_one_comparison env tk c) db))"
    "on_course env db0 c (snd (in_transaction (finalize_binding_cycle env tk c) db))"
    "on_course env db0 c (snd (in_transaction (record_binding_error env tk c msg) db))"
    "on_course env db0 c (snd (renew_claim env tk c db))" "on_course env db0 c (release_claim c db)"
proof -
  have "genuine c db" using assms by (intro held_genuine) (simp_all add: on_course_def)
  then show "on_course env db0 c (snd (in_transaction (process_one_comparison env tk c) db))"
    "on_course env db0 c (snd (in_transaction (finalize_binding_cycle env tk c) db))"
    "on_course env db0 c (snd (in_transaction (record_binding_error env tk c msg) db))"
    "on_course env db0 c (snd (renew_claim env tk c db))" "on_course env db0 c (release_claim c db)"
    by (blast intro: on_course_later [OF assms] mon_later.intros)+
qed

lemma process_runs_course:
  assumes oth: "\<And>n x. mon_later env x (others n x)"
  shows "on_course env db0 c db \<Longrightarrow> process_runs env tk others msg c k n p db = (p', failed, n', db') \<Longrightarrow>
    on_course env db0 c db' \<and> p' \<le> p + k"
proof (induction k arbitrary: n p db)
  case 0
  then show ?case by simp
next
  case (Suc k)
  note o = on_course_later [OF _ oth]
  let ?t = "in_transaction (process_one_comparison env (tk n) c) (others n db)"
  obtain r d1 where t: "?t = (r, d1)" by (cases ?t)
  have d1: "on_course env db0 c d1" using on_course_steps(1) [OF o [OF Suc.prems(1)], where tk = "tk n"] t by (metis snd_conv)
  show ?case
  proof (cases r)
    case (Inl e)
    then show ?thesis using Suc.prems(2) t on_course_steps(3) [OF o [OF d1]] by auto
  next
    case (Inr more)
    show ?thesis
    proof (cases more)
      case False
      then show ?thesis using Suc.prems(2) t Inr d1 by auto
    next
      case True
      obtain kept d2 where w: "renew_claim env (tk (n + 1)) c (others (n + 1) d1) = (kept, d2)"
        by (cases "renew_claim env (tk (n + 1)) c (others (n + 1) d1)")
      have d2: "on_course env db0 c d2" using on_course_steps(4) [OF o [OF d1], where tk = "tk (n + 1)"] w by (metis snd_conv)
      show ?thesis
      proof (cases kept)
        case False
        then show ?thesis using Suc.prems(2) t Inr True w d2 by auto
      next
        case kept: True
        have "process_runs env tk others msg c k (n + 2) (p + 1) d2 = (p', failed, n', db')"
          using Suc.prems(2) t Inr True w kept by simp
        then show ?thesis using Suc.IH [OF d2] by fastforce
      qed
    qed
  qed
qed

text \<open>
  A worker's whole cycle on a binding, with whatever others commit between its transactions, is one of
  the histories above, and it assesses no more runs than configured.
\<close>

lemma process_binding_history:
  assumes "\<forall>n x. mon_later env x (others n x)" and "mon_ok db" and "comparison_ok (mo_base db)"
  shows "mon_later env db (snd (process_binding env tk others msg token worker i db))
    \<and> fst (process_binding env tk others msg token worker i db) \<le> en_max_runs env"
proof -
  have oth: "mon_later env x (others n x)" for n x using assms(1) by blast
  note o = on_course_later [OF _ oth]
  let ?d0 = "others 0 db"
  have g: "mon_ok ?d0" "comparison_ok (mo_base ?d0)" using mon_later_good [OF oth assms(2,3)] by (simp_all add: good_later_def)
  obtain r d1 where cl: "claim_binding env (tk 0) token worker i ?d0 = (r, d1)" by (cases "claim_binding env (tk 0) token worker i ?d0")
  have later: "mon_later env ?d0 d1" using mon_later.claimed [OF mon_later.unchanged] cl by (metis snd_conv)
  show ?thesis
  proof (cases r)
    case None
    then show ?thesis using cl mon_later_trans [OF later oth] by (simp add: process_binding_def)
  next
    case (Some c)
    have "held c ?d0"
      using cl Some find_member by (fastforce simp: claim_binding_def held_def claimable_def split: option.splits if_splits)
    then have "on_course env db c ?d0" using g oth by (simp add: on_course_def)
    then have d1: "on_course env db c d1" using later by (rule on_course_later)
    obtain k failed n d2 where runs: "process_runs env tk others msg c (en_max_runs env) (Suc 0) 0 d1 = (k, failed, n, d2)"
      by (cases "process_runs env tk others msg c (en_max_runs env) (Suc 0) 0 d1") auto
    note d2 = process_runs_course [OF oth d1 runs]
    let ?t = "in_transaction (finalize_binding_cycle env (tk n) c) (others n d2)"
    obtain q d3 where t: "?t = (q, d3)" by (cases ?t)
    have d3: "on_course env db c d3" using on_course_steps(2) [OF o [OF conjunct1 [OF d2]], where tk = "tk n"] t by (metis snd_conv)
    have fin: "on_course env db c (release_claim c (others m d4))" if "on_course env db c d4" for m d4
      by (rule on_course_steps(5) [OF o [OF that]])
    have "on_course env db c (snd (process_binding env tk others msg token worker i db))"
      using fin [OF conjunct1 [OF d2]] fin [OF d3] fin [OF on_course_steps(3) [OF o [OF d3]]]
      by (simp add: process_binding_def cl Some runs t split: sum.split)
    moreover have "fst (process_binding env tk others msg token worker i db) = k"
      by (simp add: process_binding_def cl Some runs split: prod.split)
    ultimately show ?thesis using d2 by (simp add: on_course_def)
  qed
qed

section \<open>Producing comparisons\<close>

lemma fold_max_bound: "x \<in> set (t # ts) \<Longrightarrow> x \<le> fold max ts (t :: int)"
proof (induction ts arbitrary: t x)
  case (Cons u ts)
  have "max u t \<le> fold max ts (max u t)" by (rule Cons.IH) simp
  then show ?case using Cons.prems Cons.IH [of x "max u t"] by auto
qed simp

lemma fold_min_bound: "x \<in> set (t # ts) \<Longrightarrow> fold min ts (t :: int) \<le> x"
proof (induction ts arbitrary: t x)
  case (Cons u ts)
  have "fold min ts (min u t) \<le> min u t" by (rule Cons.IH) simp
  then show ?case using Cons.prems Cons.IH [of x "min u t"] by auto
qed simp

lemma previous_end_bound:
  assumes "r \<in> set (cm_runs base)" and "rn_activation r = bd_activation b" and "rn_reference r = bd_reference b"
    and "rn_policy_hash r = bd_comparison_hash b"
  shows "\<exists>e. previous_end b base = Some e \<and> rn_end r \<le> e"
proof -
  let ?l = "map rn_end (filter (\<lambda>r. rn_activation r = bd_activation b \<and> rn_reference r = bd_reference b \<and> rn_policy_hash r = bd_comparison_hash b) (cm_runs base))"
  have "rn_end r \<in> set ?l" using assms by simp
  then obtain t ts where "?l = t # ts" "rn_end r \<in> set (t # ts)" by (cases ?l) auto
  then show ?thesis using fold_max_bound [of "rn_end r" t ts] by (simp add: previous_end_def)
qed

lemma plan_window_bounds:
  assumes "plan_window env a prev cursors = Some (start, stop)"
  shows "start = (case prev of Some e \<Rightarrow> e + 1 | None \<Rightarrow> la_activated_at a) \<and> start < stop \<and> stop \<le> start + en_max_window env
    \<and> (\<forall>t \<in> set cursors. stop \<le> t)"
proof -
  obtain t ts where c: "cursors = t # ts" using assms by (auto simp: plan_window_def split: list.splits)
  have "stop \<le> fold min ts t" "start = (case prev of Some e \<Rightarrow> e + 1 | None \<Rightarrow> la_activated_at a) \<and> start < stop \<and> stop \<le> start + en_max_window env"
    using assms by (auto simp: plan_window_def c Let_def split: if_splits)
  then show ?thesis using fold_min_bound [of _ t ts] by (force simp: c)
qed

lemma make_supplement_window:
  "make_supplement (Aware x 0) (Aware y 0) s = Inr t \<Longrightarrow> su_start t = x \<and> su_end t = y \<and> su_complete t = su_complete s"
  by (auto simp: make_supplement_def and_then_Inr)

text \<open>The live tables with one more evaluation state.\<close>

definition with_state :: "live_state \<Rightarrow> mon_session \<Rightarrow> mon_session" where
  "with_state x s = s\<lparr>ss_db := (ss_db s)\<lparr>mo_base := (mo_base (ss_db s))\<lparr>cm_live := (cm_live (mo_base (ss_db s)))\<lparr>ld_states :=
     x # ld_states (cm_live (mo_base (ss_db s)))\<rparr>\<rparr>\<rparr>\<rparr>"

lemma with_state_cursors:
  "ls_last_candle x = None \<Longrightarrow> cursor_values act (cm_live (mo_base (ss_db (with_state x s)))) = cursor_values act (cm_live (mo_base (ss_db s)))"
  by (simp add: cursor_values_def with_state_def some_values_def)

text \<open>
  C32: A planned window begins right after every window compared before, is not empty, not longer than
  configured, and ends at or before every known cursor of the activation.  Assets that have not seen
  any candle do not count: the plan is the same with them.
\<close>

theorem planned_window:
  assumes "next_comparison_plan env tk c s = Inr (Some (act, ref, su), s')"
  shows "\<exists>b a. owned_binding tk c s = Some b \<and> locked_activation (cl_activation c) s = Some a \<and> act = la_id a \<and> ref = bd_reference b \<and> s' = s
    \<and> su_start su = (case previous_end b (mo_base (ss_db s)) of Some e \<Rightarrow> e + 1 | None \<Rightarrow> la_activated_at a)
    \<and> su_start su < su_end su \<and> su_end su \<le> su_start su + en_max_window env
    \<and> (\<forall>r \<in> set (cm_runs (mo_base (ss_db s))). rn_activation r = bd_activation b \<and> rn_reference r = ref
         \<and> rn_policy_hash r = bd_comparison_hash b \<longrightarrow> rn_end r < su_start su)
    \<and> (\<forall>x \<in> set (ld_states (cm_live (mo_base (ss_db s)))). ls_activation x = act \<longrightarrow> (\<forall>t. ls_last_candle x = Some t \<longrightarrow> su_end su \<le> t))
    \<and> (\<forall>x. ls_last_candle x = None \<longrightarrow> next_comparison_plan env tk c (with_state x s) = Inr (Some (act, ref, su), with_state x s))"
proof -
  obtain a where a: "locked_activation (cl_activation c) s = Some a" using assms by (auto simp: next_comparison_plan_def split: option.splits)
  obtain b where b: "owned_binding tk c s = Some b" using assms a by (auto simp: next_comparison_plan_def split: option.splits)
  have active: "la_status a = ACT_ACTIVE" using assms a b by (auto simp: next_comparison_plan_def split: if_splits)
  obtain p where p: "validated_comparison_policy env b = Inr p"
    using assms a b active by (auto simp: next_comparison_plan_def and_then_Inr)
  let ?base = "mo_base (ss_db s)"
  obtain start stop where w: "plan_window env a (previous_end b ?base) (cursor_values (la_id a) (cm_live ?base)) = Some (start, stop)"
    using assms a b active p by (auto simp: next_comparison_plan_def and_then_Inr Let_def split: option.splits)
  let ?s = "\<lparr>su_policy = p, su_start = start, su_end = stop, su_complete = True, su_expected_hash = None,
      su_reference_candles = [], su_observed_candles = [], su_executions = [], su_positions = [], su_performance = None,
      su_source = [(''producer'', PStr ''quantive.canonical-live-observations''),
        (''coverage_mode'', PStr ''durable_per_asset_cursor''), (''binding_id'', PStr (uuid_text (bd_id b)))]\<rparr>"
  have su: "make_supplement (Aware start 0) (Aware stop 0) ?s = Inr su" and r: "act = la_id a" "ref = bd_reference b" "s' = s"
    using assms a b active p w by (auto simp: next_comparison_plan_def and_then_Inr Let_def)
  note wd = make_supplement_window [OF su] and pw = plan_window_bounds [OF w]
  have earlier: "rn_end r < su_start su"
    if "r \<in> set (cm_runs ?base)" "rn_activation r = bd_activation b" "rn_reference r = ref" "rn_policy_hash r = bd_comparison_hash b" for r
    using previous_end_bound [OF that(1,2) _ that(4)] that(3) r(2) wd pw by fastforce
  have cursors: "su_end su \<le> t"
    if "x \<in> set (ld_states (cm_live ?base))" "ls_activation x = act" "ls_last_candle x = Some t" for x t
  proof -
    have "t \<in> set (cursor_values (la_id a) (cm_live ?base))"
      using that r(1) by (force simp: cursor_values_def some_values_def)
    then show ?thesis using wd pw by simp
  qed
  have blind: "next_comparison_plan env tk c (with_state x s) = Inr (Some (act, ref, su), with_state x s)" if "ls_last_candle x = None" for x
  proof -
    have same: "locked_activation (cl_activation c) (with_state x s) = Some a" "owned_binding tk c (with_state x s) = Some b"
      "previous_end b (mo_base (ss_db (with_state x s))) = previous_end b ?base"
      using a b by (simp_all add: locked_activation_def owned_binding_def previous_end_def with_state_def split: if_splits)
    show ?thesis
      unfolding next_comparison_plan_def same prod.case option.case p and_then_simps Let_def with_state_cursors [OF that] w su
      using active by (simp add: r and_then_simps su)
  qed
  show ?thesis using a b r wd pw earlier cursors blind by blast
qed

section \<open>Runs that can never be assessed\<close>

lemma record_finding_new:
  assumes "record_finding env tk b run p now f s = Inr (x, s')"
    and "find (\<lambda>e. me_finding e = Some (en_finding_id env f)) (mo_evidence (ss_db s)) = None"
    and "find (\<lambda>i. ic_key i = incident_dedup_key b f (cause_for_divergence (df_type (fr_finding f)))) (mo_incidents (ss_db s)) = None"
  shows "\<exists>i. ss_incidents s' = ss_incidents s @ [i] \<and> ic_key i = incident_dedup_key b f (cause_for_divergence (df_type (fr_finding f)))"
  using assms(1) unfolding record_finding_def Let_def assms(2,3) option.case and_then_Inr
  by (auto simp: add_evidence_def add_incident_def new_incident_def)

text \<open>The findings that would open an incident under the key \<open>k\<close>.\<close>

definition opens :: "mon_env \<Rightarrow> mon_binding \<Rightarrow> string \<Rightarrow> mon_db \<Rightarrow> finding_row \<Rightarrow> bool" where
  "opens env b k db f \<longleftrightarrow>
     incident_dedup_key b f (cause_for_divergence (df_type (fr_finding f))) = k
     \<and> en_finding_id env f \<notin> {n. \<exists>e \<in> set (mo_evidence db). me_finding e = Some n}"

lemma ledger_keys:
  assumes "ledger_steps R b s s'" and "stable_rule R" and "distinct (map ic_id (mo_incidents (ss_db s)))"
  shows "map ic_key (mo_incidents (ss_db s')) = map ic_key (mo_incidents (ss_db s))
    \<and> map ic_id (mo_incidents (ss_db s')) = map ic_id (mo_incidents (ss_db s))"
proof -
  note l = ledger_advances [OF assms]
  have "advanced R i j \<Longrightarrow> ic_key j = ic_key i" for i j
    by (rule same_incident_columns(2)) (simp add: advanced_def)
  then have "map ic_key (mo_incidents (ss_db s')) = map ic_key (mo_incidents (ss_db s))"
    using conjunct1 [OF l] by (simp add: list_all2_conv_all_nth list_eq_iff_nth_eq)
  then show ?thesis using l by simp
qed

lemma record_findings_opens:
  assumes "record_findings env tk b run p now fs acc s = Inr (acc', s')"
    and "distinct (map ic_id (mo_incidents (ss_db s)))" and "k \<notin> ic_key ` set (mo_incidents (ss_db s))"
  shows "length (filter (\<lambda>i. ic_key i = k) (ss_incidents s)) + length (filter (opens env b k (ss_db s)) fs)
    \<le> length (filter (\<lambda>i. ic_key i = k) (ss_incidents s'))"
  using assms
proof (induction fs arbitrary: acc s)
  case Nil
  then show ?case by simp
next
  case (Cons f fs)
  obtain all known n where acc: "acc = (all, known, n)" by (cases acc)
  obtain x s1 acc1 where x: "record_finding env tk b run p now f s = Inr (x, s1)"
    and rest: "record_findings env tk b run p now fs acc1 s1 = Inr (acc', s')"
    using Cons.prems(1) unfolding acc record_findings.simps and_then_Inr by (elim exE conjE) (auto split: prod.splits)
  note l = record_finding_ledger [OF x, where R = "\<lambda>_. True"]
  note keys = ledger_keys [OF l stable_any Cons.prems(2)]
  have ev: "mo_evidence (ss_db s1) = mo_evidence (ss_db s)" and pre: "prefix (ss_incidents s) (ss_incidents s1)"
    using ledger_frame [OF l] by simp_all
  have "k \<notin> set (map ic_key (mo_incidents (ss_db s1)))" unfolding conjunct1 [OF keys] using Cons.prems(3) by simp
  then have fresh1: "k \<notin> ic_key ` set (mo_incidents (ss_db s1))" by simp
  have same: "opens env b k (ss_db s1) = opens env b k (ss_db s)" by (rule ext) (simp add: opens_def ev)
  have IH: "length (filter (\<lambda>i. ic_key i = k) (ss_incidents s1)) + length (filter (opens env b k (ss_db s)) fs)
      \<le> length (filter (\<lambda>i. ic_key i = k) (ss_incidents s'))"
    using Cons.IH [OF rest _ fresh1] keys Cons.prems(2) unfolding same by simp
  have "length (filter (\<lambda>i. ic_key i = k) (ss_incidents s)) + (if opens env b k (ss_db s) f then 1 else 0)
      \<le> length (filter (\<lambda>i. ic_key i = k) (ss_incidents s1))"
  proof (cases "opens env b k (ss_db s) f")
    case True
    then have key: "incident_dedup_key b f (cause_for_divergence (df_type (fr_finding f))) = k"
      and none: "find (\<lambda>e. me_finding e = Some (en_finding_id env f)) (mo_evidence (ss_db s)) = None"
      by (auto simp: opens_def find_None_iff)
    have "find (\<lambda>i. ic_key i = k) (mo_incidents (ss_db s)) = None" using Cons.prems(3) by (auto simp: find_None_iff)
    then show ?thesis using record_finding_new [OF x none] True unfolding key by auto
  next
    case False
    then show ?thesis using pre by (auto simp: prefix_def)
  qed
  then show ?case using IH by (simp split: if_splits)
qed

lemma two_of_a_key: "2 \<le> length (filter (\<lambda>i. ic_key i = k) xs) \<Longrightarrow> \<not> distinct (map ic_key xs)"
proof
  assume two: "2 \<le> length (filter (\<lambda>i. ic_key i = k) xs)" and "distinct (map ic_key xs)"
  then have d: "distinct (map ic_key (filter (\<lambda>i. ic_key i = k) xs))" by (simp add: distinct_map_filter)
  obtain x y zs where l: "filter (\<lambda>i. ic_key i = k) xs = x # y # zs"
    using two by (auto simp: numeral_2_eq_2 Suc_le_length_iff)
  have "x \<in> set (filter (\<lambda>i. ic_key i = k) xs)" "y \<in> set (filter (\<lambda>i. ic_key i = k) xs)" unfolding l by simp_all
  then have "ic_key x = ic_key y" by simp
  then show False using d unfolding l by simp
qed

lemma run_incidents:
  assumes "process_comparison_run env tk b h p run worker s = Inr (r, s')" and "1 \<le> en_page env"
    and "distinct (map (finding_position env) (run_findings (rn_id run) (mo_base (ss_db s))))"
  shows "\<exists>acc s1. record_findings env tk b run p (tk_now tk)
      (sort_key (finding_position env) (run_findings (rn_id run) (mo_base (ss_db s)))) (None, None, 0) s = Inr (acc, s1)
    \<and> ss_incidents s' = ss_incidents s1"
proof -
  let ?fs = "run_findings (rn_id run) (mo_base (ss_db s))"
  obtain all known n b1 s1 where pages: "process_pages env tk run p (tk_now tk) ?fs 0 None (None, None, 0) b s = Inr (((all, known, n), b1), s1)"
    and rest: "ss_incidents s' = ss_incidents s1"
    using assms(1) by (auto simp: process_comparison_run_def Let_def and_then_Inr record_healthy_comparison_def resolve_where_def
        split: if_splits comparison_status.splits option.splits)
  then have "record_findings env tk b run p (tk_now tk) (sort_key (finding_position env) ?fs) (None, None, 0) s = Inr ((all, known, n), s1)"
    using pages_whole [OF assms(2,3), where cursor = None, of tk run p "tk_now tk" 0 "(None, None, 0)" b s]
    by (simp add: after_cursor_def)
  then show ?thesis using rest by blast
qed

text \<open>
  C37: A run with two new findings of one condition, say the same signal missed twice, is never assessed:
  each finding opens an incident of its own, both under the same key, and the transaction fails.
\<close>

theorem same_condition_twice_blocks_run:
  assumes "locked_activation (cl_activation c) (begin_session db) = Some a" and "la_status a = ACT_ACTIVE"
    and "owned_binding tk c (begin_session db) = Some b" and "next_pending_comparison env b db = Some run"
    and "1 \<le> en_page env" and "distinct (map (finding_position env) (run_findings (rn_id run) (mo_base db)))"
    and "distinct (map ic_id (mo_incidents db))" and "k \<notin> ic_key ` set (mo_incidents db)"
    and "2 \<le> length (filter (opens env b k db) (run_findings (rn_id run) (mo_base db)))"
  shows "\<exists>e. in_transaction (process_one_comparison env tk c) db = (Inl e, db)"
proof (cases "process_one_comparison env tk c (begin_session db)")
  case (Inl e)
  then show ?thesis by (simp add: in_transaction_def)
next
  case (Inr q)
  obtain r s where q: "q = (r, s)" by (cases q)
  obtain h0 s0 where h0: "health_state b a (begin_session db) = (h0, s0)" by (cases "health_state b a (begin_session db)")
  note f = health_state_frame [OF h0, simplified]
  have pending: "next_pending_comparison env b (ss_db s0) = Some run" using assms(4) f by (simp add: next_pending_comparison_def)
  obtain p b1 h1 s1 where run: "process_comparison_run env tk b h0 p run (cl_worker c) s0 = Inr ((b1, h1), s1)"
    and s: "s = put_health h1 (put_binding (b1\<lparr>bd_processed := Some (tk_done tk)\<rparr>) s1)"
    using Inr assms(1-3) h0 pending unfolding q by (auto simp: process_one_comparison_def and_then_Inr)
  obtain acc s2 where rec: "record_findings env tk b run p (tk_now tk)
        (sort_key (finding_position env) (run_findings (rn_id run) (mo_base db))) (None, None, 0) s0 = Inr (acc, s2)"
      "ss_incidents s1 = ss_incidents s2"
    using run_incidents [OF run assms(5)] assms(6) f by auto
  have same: "opens env b k (ss_db s0) = opens env b k db" using f by (intro ext) (simp add: opens_def)
  have "length (filter (\<lambda>i. ic_key i = k) (ss_incidents s0))
      + length (filter (opens env b k db) (sort_key (finding_position env) (run_findings (rn_id run) (mo_base db))))
      \<le> length (filter (\<lambda>i. ic_key i = k) (ss_incidents s2))"
    using record_findings_opens [OF rec(1), of k] assms(7,8) f unfolding same by simp
  moreover have "length (filter (opens env b k db) (sort_key (finding_position env) fs)) = length (filter (opens env b k db) fs)" for fs
    by (metis filter_sort length_sort)
  ultimately have "2 \<le> length (filter (\<lambda>i. ic_key i = k) (mo_incidents (written s)))"
    using assms(9) rec(2) by (simp add: s written_def put_health_def put_binding_def)
  then have "\<not> constraints_hold (written s)" using two_of_a_key unfolding constraints_hold_def by blast
  then show ?thesis using Inr q by (simp add: in_transaction_def)
qed

section \<open>A runtime error that is over\<close>

text \<open>
  While the comparison evidence is stale, the row of a stale runtime becomes an error; when the
  evaluator has resumed, its incident is closed but the row keeps the error.
\<close>

lemma recovered_runtime_stays_error:
  fixes tk b a h p s
  defines "since \<equiv> (case hl_complete h of None \<Rightarrow> bd_registered b | Some t \<Rightarrow> t)"
  assumes "hl_cause h = Some RUNTIME" and "hl_severity h = Some v"
    and "timedelta_seconds (mp_comparison_stale_after p) = Inr limit" and "limit \<le> tk_now tk - since"
    and "record_stale_comparison_evidence tk b a p since (hl_window h) (tk_now tk) s = Inr (w, s1)" and "w \<le> v"
    and "evaluate_comparison_freshness tk b a h p s = Inr (h1, s1)"
    and "timedelta_seconds (mp_stale_after p) = Inr limit2"
    and "tk_stale tk - (case la_last_evaluated a of None \<Rightarrow> la_activated_at a | Some t \<Rightarrow> t) < limit2"
    and "evaluate_staleness tk b a h1 p s1 = Inr (h2, s2)"
  shows "hl_status h2 = H_ERROR \<and> hl_cause h2 = Some RUNTIME \<and> s2 = recover_stale_state (bd_id b) (tk_stale tk) s1"
proof -
  have "more_actionable (Some (RUNTIME, v)) (REFERENCE, w) = (RUNTIME, v)"
    using assms(7) by (auto simp: more_actionable_def projection_sort_key_def less_eq_incident_severity_def)
  then have "hl_status h1 = H_ERROR \<and> hl_cause h1 = Some RUNTIME"
    using assms(2-6,8) by (auto simp: evaluate_comparison_freshness_def and_then_simps Let_def since_def [symmetric]
        set_divergent_health_def set_health_def more_actionable_def)
  then show ?thesis using assms(9-11) by (auto simp: evaluate_staleness_def and_then_simps Let_def)
qed

end
