(* ===== verification/Monitoring_Cycles.thy ===== *)
theory Monitoring_Cycles
  imports Monitoring_Results
begin

text \<open>
  The polling cycles of the two actors: the monitor and the comparison producer work through the active
  bindings one after the other, each with its own session and lease.
\<close>

section \<open>Cycles\<close>

text \<open>One binding of the producer; \<open>msg\<close> is the text of an exception.\<close>

definition produce_binding ::
  "mon_env \<Rightarrow> (nat \<Rightarrow> tick) \<Rightarrow> (nat \<Rightarrow> mon_db \<Rightarrow> mon_db) \<Rightarrow> (comparison_db \<Rightarrow> comparison_db) \<Rightarrow> (py_exn \<Rightarrow> string) \<Rightarrow> string \<Rightarrow>
   string \<Rightarrow> int \<Rightarrow> mon_db \<Rightarrow> nat \<times> mon_db" where
  "produce_binding env tk others race msg token worker i db =
     (case claim_binding env (tk 0) token worker i (others 0 db) of
        (None, db1) \<Rightarrow> (0, db1)
      | (Some c, db1) \<Rightarrow>
          (case produce_next_comparison env (tk 1) c (others 2) race (others 1 db1) of
             (Inr produced, db2) \<Rightarrow> (if produced then 1 else 0, release_claim c (others 3 db2))
           | (Inl e, db2) \<Rightarrow>
               (0, release_claim c (others 4
                  (snd (in_transaction (record_binding_error env (tk 2) c (take 2000 (msg e))) (others 3 db2)))))))"

definition work_through :: "(int \<Rightarrow> mon_db \<Rightarrow> nat \<times> mon_db) \<Rightarrow> int list \<Rightarrow> mon_db \<Rightarrow> nat \<times> mon_db" where
  "work_through work ids db = foldl (\<lambda>(k, d) i. case work i d of (n, d1) \<Rightarrow> (k + n, d1)) (0, db) ids"

definition monitor_active ::
  "mon_env \<Rightarrow> (int \<Rightarrow> nat \<Rightarrow> tick) \<Rightarrow> (int \<Rightarrow> nat \<Rightarrow> mon_db \<Rightarrow> mon_db) \<Rightarrow> (py_exn \<Rightarrow> string) \<Rightarrow> (int \<Rightarrow> string) \<Rightarrow> string \<Rightarrow> nat \<Rightarrow>
   mon_db \<Rightarrow> nat \<times> mon_db" where
  "monitor_active env tk others msg token worker limit db =
     work_through (\<lambda>i. process_binding env (tk i) (others i) msg (token i) worker i) (active_bindings limit db) db"

definition produce_active ::
  "mon_env \<Rightarrow> (int \<Rightarrow> nat \<Rightarrow> tick) \<Rightarrow> (int \<Rightarrow> nat \<Rightarrow> mon_db \<Rightarrow> mon_db) \<Rightarrow> (int \<Rightarrow> comparison_db \<Rightarrow> comparison_db) \<Rightarrow> (py_exn \<Rightarrow> string) \<Rightarrow>
   (int \<Rightarrow> string) \<Rightarrow> string \<Rightarrow> nat \<Rightarrow> mon_db \<Rightarrow> nat \<times> mon_db" where
  "produce_active env tk others race msg token worker limit db =
     work_through (\<lambda>i. produce_binding env (tk i) (others i) (race i) msg (token i) worker i) (active_bindings limit db) db"

section \<open>Cycles are histories\<close>

lemma plan_reads_only: "next_comparison_plan env tk c s = Inr (x, s') \<Longrightarrow> s' = s"
  by (auto simp: next_comparison_plan_def and_then_Inr Let_def split: option.splits if_splits)

lemma plan_transaction: "snd (in_transaction (next_comparison_plan env tk c) db) = db"
proof (cases "next_comparison_plan env tk c (begin_session db)")
  case (Inl e)
  then show ?thesis by (simp add: in_transaction_def)
next
  case (Inr r)
  then have "snd r = begin_session db" using plan_reads_only by (metis prod.collapse)
  then show ?thesis using Inr by (cases r) (simp add: in_transaction_def written_begin)
qed

lemma produce_course:
  assumes c: "on_course env db0 c db" and oth: "\<And>x. mon_later env x (others x)"
    and race: "\<And>x. comparison_later (en_comparison env) x (race x)"
  shows "on_course env db0 c (snd (produce_next_comparison env tk c others race db))"
proof -
  let ?t = "in_transaction (next_comparison_plan env tk c) db"
  obtain r d where t: "?t = (r, d)" by (cases ?t)
  have d: "d = db" using plan_transaction [of env tk c db] t by simp
  have later: "on_course env db0 c ((others db)\<lparr>mo_base := snd (compare_activation (en_comparison env) act ref su race (mo_base (others db)))\<rparr>)" for act ref su
  proof (rule on_course_later [OF on_course_later [OF c oth]])
    show "mon_later env (others db) ((others db)\<lparr>mo_base := snd (compare_activation (en_comparison env) act ref su race (mo_base (others db)))\<rparr>)"
      by (rule mon_later.below [OF mon_later.unchanged], rule comparison_later.compared [OF comparison_later.nothing_done race])
  qed
  show ?thesis using c later unfolding produce_next_comparison_def t d Let_def
    by (auto split: sum.split option.split prod.split) (metis snd_conv)+
qed

lemma claimed_course:
  assumes cl: "claim_binding env tk token worker i db = (Some c, db1)" and "mon_ok db" and "comparison_ok (mo_base db)"
    and "mon_later env db0 db"
  shows "on_course env db0 c db1"
proof -
  have "held c db" using cl find_member by (fastforce simp: claim_binding_def held_def claimable_def split: option.splits if_splits)
  then have c: "on_course env db0 c db" using assms by (simp add: on_course_def)
  have "mon_later env db db1" using mon_later.claimed [OF mon_later.unchanged] cl by (metis snd_conv)
  then show ?thesis by (rule on_course_later [OF c])
qed

lemma produce_binding_history:
  assumes oth: "\<And>n x. mon_later env x (others n x)" and race: "\<And>x. comparison_later (en_comparison env) x (race x)"
    and ok: "mon_ok db" "comparison_ok (mo_base db)"
  shows "mon_later env db (snd (produce_binding env tk others race msg token worker i db))
    \<and> fst (produce_binding env tk others race msg token worker i db) \<le> 1"
proof -
  note o = on_course_later [OF _ oth]
  let ?d0 = "others 0 db"
  have g: "mon_ok ?d0" "comparison_ok (mo_base ?d0)" using mon_later_good [OF oth ok] by (simp_all add: good_later_def)
  obtain r d1 where cl: "claim_binding env (tk 0) token worker i ?d0 = (r, d1)" by (cases "claim_binding env (tk 0) token worker i ?d0")
  show ?thesis
  proof (cases r)
    case None
    have "mon_later env ?d0 d1" using mon_later.claimed [OF mon_later.unchanged] cl by (metis snd_conv)
    then show ?thesis using cl None mon_later_trans [OF _ oth] by (simp add: produce_binding_def)
  next
    case (Some c)
    have d1: "on_course env db c d1" by (rule claimed_course [OF cl [unfolded Some] g oth])
    let ?t = "produce_next_comparison env (tk (Suc 0)) c (others 2) race (others (Suc 0) d1)"
    obtain q d2 where t: "?t = (q, d2)" by (cases ?t)
    have d2: "on_course env db c d2"
      using produce_course [OF o [OF d1], where others = "others 2" and race = race, OF oth race] t by (metis snd_conv)
    have fin: "on_course env db c (release_claim c (others m d4))" if "on_course env db c d4" for m d4
      by (rule on_course_steps(5) [OF o [OF that]])
    have "on_course env db c (snd (produce_binding env tk others race msg token worker i db))"
      using fin [OF d2] fin [OF on_course_steps(3) [OF o [OF d2]]] by (simp add: produce_binding_def cl Some t split: sum.split)
    then show ?thesis by (simp add: on_course_def produce_binding_def cl Some t split: sum.split)
  qed
qed

lemma work_through_history:
  assumes work: "\<And>i d. mon_ok d \<Longrightarrow> comparison_ok (mo_base d) \<Longrightarrow> mon_later env d (snd (work i d)) \<and> fst (work i d) \<le> n"
    and ok: "mon_ok db" "comparison_ok (mo_base db)"
  shows "mon_later env db (snd (work_through work ids db)) \<and> fst (work_through work ids db) \<le> length ids * n"
  unfolding work_through_def
proof (induction ids rule: rev_induct)
  case Nil
  then show ?case by (simp add: mon_later.unchanged)
next
  case (snoc i ids)
  let ?step = "\<lambda>(k, d) i. case work i d of (n, d1) \<Rightarrow> (k + n, d1)"
  obtain k d where kd: "foldl ?step (0, db) ids = (k, d)" by (cases "foldl ?step (0, db) ids")
  have d: "mon_later env db d" "k \<le> length ids * n" using snoc.IH kd by simp_all
  have "good_later db d" by (rule mon_later_good [OF d(1) ok])
  then have w: "mon_later env d (snd (work i d))" "fst (work i d) \<le> n" using work [of d i] by (simp_all add: good_later_def)
  obtain j d1 where j: "work i d = (j, d1)" by (cases "work i d")
  then show ?case using mon_later_trans [OF w(1) d(1)] w(2) d(2) kd by simp
qed

lemma active_bindings_length: "length (active_bindings limit db) \<le> limit"
  by (simp add: active_bindings_def)

text \<open>
  C19: A whole cycle of either actor, with whatever others commit between its transactions, is one of the
  histories of the tables, and it assesses or produces no more than configured.
\<close>

theorem worker_cycles_are_histories:
  assumes "\<forall>i n x. mon_later env x (others i n x)" and "\<forall>i x. comparison_later (en_comparison env) x (race i x)"
    and "mon_ok db" and "comparison_ok (mo_base db)"
  shows "mon_later env db (snd (monitor_active env tk others msg token worker limit db))
    \<and> fst (monitor_active env tk others msg token worker limit db) \<le> limit * en_max_runs env
    \<and> mon_later env db (snd (produce_active env tk others race msg token worker limit db))
    \<and> fst (produce_active env tk others race msg token worker limit db) \<le> limit"
proof -
  note len = active_bindings_length [of limit db]
  have p: "mon_later env db (snd (monitor_active env tk others msg token worker limit db))
      \<and> fst (monitor_active env tk others msg token worker limit db) \<le> length (active_bindings limit db) * en_max_runs env"
    unfolding monitor_active_def by (rule work_through_history [OF process_binding_history assms(3,4)]) (use assms(1) in simp)
  have q: "mon_later env db (snd (produce_active env tk others race msg token worker limit db))
      \<and> fst (produce_active env tk others race msg token worker limit db) \<le> length (active_bindings limit db) * 1"
    unfolding produce_active_def by (rule work_through_history [OF produce_binding_history assms(3,4)]) (use assms(1,2) in simp_all)
  have "length (active_bindings limit db) * en_max_runs env \<le> limit * en_max_runs env" using len by simp
  then show ?thesis using p q len by linarith
qed

end
