(* ===== verification/Monitoring_Samples.thy ===== *)
theory Monitoring_Samples
  imports Monitoring_Cycles
begin

text \<open>Concrete monitoring tables on which the theorems about monitoring apply.\<close>

definition sample_monitoring_policy :: monitoring_policy where
  "sample_monitoring_policy = \<lparr>mp_id = ''p'', mp_revision = ''1'',
     mp_severity = \<lparr>cs_data = INC_INFO, cs_execution = INC_INFO, cs_behavior = INC_INFO, cs_failure = INC_CRITICAL,
       cs_reference = INC_INFO, cs_runtime = INC_WARNING\<rparr>,
     mp_warning_after = 2, mp_critical_after = 3, mp_recovery = 1, mp_stale_after = 60, mp_comparison_stale_after = 60\<rparr>"

definition sample_mon_env :: mon_env where
  "sample_mon_env = \<lparr>en_finding_id = (\<lambda>f. int (length (fr_fingerprint f))), en_finding_created = (\<lambda>f. 0), en_run_created = (\<lambda>r. 0),
     en_policy = (\<lambda>v. Inr sample_monitoring_policy), en_comparison_policy = (\<lambda>v. Inr quiet_policy), en_page = 1, en_lease = 10,
     en_max_runs = 2, en_max_window = 10, en_health_first = False, en_comparison = sample_comparison_env\<rparr>"

definition sample_tick :: tick where
  "sample_tick = \<lparr>tk_owned = 0, tk_now = 0, tk_page = (\<lambda>n. 0), tk_stale = 0, tk_done = 0, tk_locked = False, tk_uuid = int\<rparr>"

definition sample_binding :: mon_binding where
  "sample_binding = \<lparr>bd_id = 4, bd_activation = 9, bd_reference = ''run'', bd_comparison_id = cy_id quiet_policy,
     bd_comparison_revision = cy_revision quiet_policy, bd_comparison_hash = comparison_policy_hash quiet_policy,
     bd_comparison = Some (comparison_policy_dump quiet_policy), bd_policy_id = ''p'', bd_policy_revision = ''1'',
     bd_policy_hash = policy_hash sample_monitoring_policy, bd_policy = policy_dump sample_monitoring_policy,
     bd_status = BIND_ACTIVE, bd_registered = 0, bd_deactivated = None, bd_processed = None, bd_worker = None, bd_token = None,
     bd_expires = None, bd_claimed = None, bd_attempts = 0\<rparr>"

definition sample_mon_db :: mon_db where
  "sample_mon_db = \<lparr>mo_base = sample_comparison_db, mo_bindings = [sample_binding], mo_health = [], mo_incidents = [],
     mo_evidence = [], mo_assessments = []\<rparr>"

definition sample_claim :: claim where
  "sample_claim = \<lparr>cl_binding = 4, cl_activation = 9, cl_token = ''t'', cl_worker = ''w''\<rparr>"

text \<open>The same tables with the binding claimed.\<close>

definition sample_claimed :: mon_db where
  "sample_claimed = sample_mon_db\<lparr>mo_bindings := [sample_binding\<lparr>bd_worker := Some ''w'', bd_token := Some ''t'',
     bd_claimed := Some 0, bd_expires := Some 10, bd_attempts := 1\<rparr>]\<rparr>"

lemma sample_mon_ok: "mon_ok sample_mon_db"
  by (simp add: mon_ok_def constraints_hold_def sample_mon_db_def sample_binding_def binding_shape_def books_def)

lemma sample_mon_base: "comparison_ok (mo_base sample_mon_db)"
  by (simp add: sample_mon_db_def sample_comparison_ok)

lemma sample_claiming: "claim_binding sample_mon_env sample_tick ''t'' ''w'' 4 sample_mon_db = (Some sample_claim, sample_claimed)"
  by (simp add: claim_binding_def sample_tick_def sample_mon_env_def sample_mon_db_def sample_claimed_def claimable_def
      sample_binding_def sample_claim_def map_bindings_def)

lemma sample_mon_history: "mon_later sample_mon_env sample_mon_db sample_claimed"
  using mon_later.claimed [OF mon_later.unchanged, of sample_mon_env sample_mon_db sample_tick "''t''" "''w''" 4]
  by (simp add: sample_claiming)

lemma sample_genuine: "genuine sample_claim sample_claimed"
  by (simp add: genuine_def sample_claim_def sample_claimed_def sample_mon_db_def sample_binding_def)

section \<open>Witnesses\<close>

lemma escalation_monotone_witness:
  "\<exists>s t. severity_for sample_monitoring_policy RUNTIME 1 = Inr s \<and> severity_for sample_monitoring_policy RUNTIME 3 = Inr t
    \<and> s = INC_WARNING \<and> t = INC_CRITICAL"
proof -
  have "make_monitoring_policy sample_monitoring_policy = Inr sample_monitoring_policy" by code_simp
  from escalation_monotone [OF this, of 1 3 RUNTIME] show ?thesis
    by (auto simp: sample_monitoring_policy_def severity_for_def)
qed

lemma monitoring_tables_stay_consistent_witness:
  "mon_ok sample_claimed \<and> mon_extends (\<lambda>_. True) sample_mon_db sample_claimed"
  using monitoring_tables_stay_consistent [OF sample_mon_history sample_mon_ok sample_mon_base] by blast

lemma monitoring_fails_closed_witness: "list_all (\<lambda>h. hl_status h \<noteq> H_HEALTHY) (mo_health sample_claimed)"
proof -
  have "\<forall>h \<in> set (mo_health sample_mon_db). hl_status h \<noteq> H_HEALTHY" by (simp add: sample_mon_db_def)
  from monitoring_fails_closed [OF sample_mon_history sample_mon_ok sample_mon_base this sample_genuine] show ?thesis unfolding list_all_iff by blast
qed

lemma monitor_lease_excludes_witness:
  "list_ex (owns_lease sample_claim 5) (mo_bindings sample_claimed)
    \<and> claim_binding sample_mon_env (sample_tick\<lparr>tk_now := 5\<rparr>) ''u'' ''v'' 4 sample_claimed = (None, sample_claimed)
    \<and> snd (in_transaction (finalize_binding_cycle sample_mon_env sample_tick (sample_claim\<lparr>cl_token := ''old''\<rparr>)) sample_claimed) = sample_claimed"
proof -
  have t: "(5 :: int) < tk_now sample_tick + en_lease sample_mon_env" by (simp add: sample_tick_def sample_mon_env_def)
  note e = monitor_lease_excludes [OF sample_mon_ok sample_claiming t]
  have "tk_now (sample_tick\<lparr>tk_now := 5\<rparr>) = 5" "cl_binding (sample_claim\<lparr>cl_token := ''old''\<rparr>) = 4"
    "cl_token (sample_claim\<lparr>cl_token := ''old''\<rparr>) \<noteq> ''t''" by (simp_all add: sample_tick_def sample_claim_def)
  then show ?thesis using e by blast
qed


lemma worker_cycles_are_histories_witness:
  "fst (monitor_active sample_mon_env (\<lambda>i n. sample_tick) (\<lambda>i n x. x) (\<lambda>e. []) (\<lambda>i. ''t'') ''w'' 3 sample_mon_db) \<le> 6
    \<and> mon_later sample_mon_env sample_mon_db
        (snd (produce_active sample_mon_env (\<lambda>i n. sample_tick) (\<lambda>i n x. x) (\<lambda>i x. x) (\<lambda>e. []) (\<lambda>i. ''t'') ''w'' 3 sample_mon_db))"
proof -
  have "\<forall>i n x. mon_later sample_mon_env x ((\<lambda>(i :: int) (n :: nat) x. x) i n x)" by (simp add: mon_later.unchanged)
  moreover have "\<forall>i x. comparison_later (en_comparison sample_mon_env) x ((\<lambda>(i :: int) x. x) i x)" by (simp add: comparison_later.nothing_done)
  moreover have "en_max_runs sample_mon_env = 2" by (simp add: sample_mon_env_def)
  ultimately show ?thesis
    using worker_cycles_are_histories [where others = "\<lambda>i n x. x" and race = "\<lambda>i x. x" and env = sample_mon_env and db = sample_mon_db
        and tk = "\<lambda>i n. sample_tick" and msg = "\<lambda>e. []" and token = "\<lambda>i. ''t''" and worker = "''w''" and limit = 3]
      sample_mon_ok sample_mon_base by simp
qed

lemma sample_plan:
  "\<exists>su. next_comparison_plan sample_mon_env sample_tick sample_claim (begin_session sample_claimed) = Inr (Some (9, ''run'', su), begin_session sample_claimed)"
proof -
  have base: "mo_base sample_claimed = sample_comparison_db" by (simp add: sample_claimed_def sample_mon_db_def)
  let ?b = "sample_binding\<lparr>bd_worker := Some ''w'', bd_token := Some ''t'', bd_claimed := Some 0, bd_expires := Some 10, bd_attempts := 1\<rparr>"
  have a: "locked_activation (cl_activation sample_claim) (begin_session sample_claimed) = Some sample_live"
    by (simp add: locked_activation_def base sample_claim_def sample_comparison_db_def sample_live_def)
  have b: "owned_binding sample_tick sample_claim (begin_session sample_claimed) = Some ?b"
    by (simp add: owned_binding_def sample_tick_def sample_claimed_def sample_mon_db_def owns_lease_def sample_claim_def sample_binding_def)
  have p: "validated_comparison_policy sample_mon_env ?b = Inr quiet_policy"
    by (simp add: validated_comparison_policy_def sample_mon_env_def sample_binding_def)
  have w: "plan_window sample_mon_env sample_live (previous_end ?b sample_comparison_db) (cursor_values (la_id sample_live) (cm_live sample_comparison_db)) = Some (0, 2)"
    by (simp add: plan_window_def previous_end_def cursor_values_def sample_comparison_db_def sample_live_def some_values_def sample_mon_env_def)
  have "\<exists>out. canonical_dict [(''producer'', PStr ''quantive.canonical-live-observations''),
        (''coverage_mode'', PStr ''durable_per_asset_cursor''), (''binding_id'', PStr (uuid_text 4))] = Inr out"
    by (rule canonical_dict_total) auto
  then obtain out where out: "canonical_dict [(''producer'', PStr ''quantive.canonical-live-observations''),
        (''coverage_mode'', PStr ''durable_per_asset_cursor''), (''binding_id'', PStr (uuid_text 4))] = Inr out" by blast
  have i: "bd_id ?b = 4" "bd_reference ?b = ''run''" "la_status sample_live = ACT_ACTIVE" "la_id sample_live = 9"
    by (simp_all add: sample_binding_def sample_live_def)
  show ?thesis
    unfolding next_comparison_plan_def a b prod.case option.case p and_then_simps Let_def
    using out w by (simp add: base i and_then_simps make_supplement_def require_def sha256_pattern_opt_def)
qed

lemma planned_window_witness:
  "\<exists>su. next_comparison_plan sample_mon_env sample_tick sample_claim (begin_session sample_claimed) = Inr (Some (9, ''run'', su), begin_session sample_claimed)
    \<and> su_start su < su_end su"
proof -
  obtain su where su: "next_comparison_plan sample_mon_env sample_tick sample_claim (begin_session sample_claimed)
      = Inr (Some (9, ''run'', su), begin_session sample_claimed)" using sample_plan by blast
  from planned_window [OF su] show ?thesis using su by blast
qed

section \<open>A run with a repeated finding\<close>

definition sample_finding :: divergence_finding where
  "sample_finding = \<lparr>df_strategy = activation_identity sample_live, df_type = MISSING_SIGNAL, df_severity = SEV_WARNING, df_time = Some 1,
     df_start = 0, df_end = 2, df_expected = PDict [(''signal_id'', PStr ''s'')], df_observed = PDict [], df_source = PDict [],
     df_category = ''signal'', df_explanation = [], df_resolution = RES_OPEN\<rparr>"

definition sample_rows :: "finding_row list" where
  "sample_rows = [\<lparr>fr_run = ''k'', fr_fingerprint = ''x'', fr_asset = Some 3, fr_finding = sample_finding\<lparr>df_time := Some 2\<rparr>\<rparr>,
     \<lparr>fr_run = ''k'', fr_fingerprint = ''xx'', fr_asset = Some 3, fr_finding = sample_finding\<rparr>]"

definition sample_run :: comparison_run where
  "sample_run = \<lparr>rn_id = ''k'', rn_strategy = activation_identity sample_live, rn_activation = 9, rn_reference = ''run'',
     rn_reference_hash = ''hash'', rn_policy_id = ''p'', rn_policy_revision = ''1'',
     rn_policy_hash = comparison_policy_hash quiet_policy, rn_policy = PDict [], rn_reference_source = [], rn_observed_source = [],
     rn_start = 0, rn_end = 2, rn_status = CMP_DIVERGENT\<rparr>"

definition sample_blocked :: mon_db where
  "sample_blocked = sample_claimed\<lparr>mo_base := sample_comparison_db\<lparr>cm_runs := [sample_run], cm_findings := sample_rows\<rparr>\<rparr>"

lemma paging_equals_whole_witness:
  "\<forall>b s acc. map_sum id (\<lambda>((acc1, b1), s1). (acc1, s1))
      (process_pages sample_mon_env sample_tick sample_run sample_monitoring_policy 0 sample_rows 0 None acc b s) =
    record_findings sample_mon_env sample_tick b sample_run sample_monitoring_policy 0
      (sort_key (finding_position sample_mon_env) sample_rows) acc s"
proof -
  have "1 \<le> en_page sample_mon_env" "distinct (map (finding_position sample_mon_env) sample_rows)"
    by (simp_all add: sample_mon_env_def sample_rows_def finding_position_def)
  from paging_equals_whole [OF this] show ?thesis by blast
qed

lemma same_condition_twice_blocks_run_witness:
  "\<exists>e. in_transaction (process_one_comparison sample_mon_env sample_tick sample_claim) sample_blocked = (Inl e, sample_blocked)"
proof (rule same_condition_twice_blocks_run)
  let ?b = "sample_binding\<lparr>bd_worker := Some ''w'', bd_token := Some ''t'', bd_claimed := Some 0, bd_expires := Some 10, bd_attempts := 1\<rparr>"
  have base: "mo_base sample_blocked = sample_comparison_db\<lparr>cm_runs := [sample_run], cm_findings := sample_rows\<rparr>" by (simp add: sample_blocked_def)
  have rest: "mo_bindings sample_blocked = [?b]" "mo_incidents sample_blocked = []" "mo_evidence sample_blocked = []" "mo_assessments sample_blocked = []"
    by (simp_all add: sample_blocked_def sample_claimed_def sample_mon_db_def)
  show "locked_activation (cl_activation sample_claim) (begin_session sample_blocked) = Some sample_live"
    by (simp add: locked_activation_def base sample_claim_def sample_comparison_db_def sample_live_def)
  show "la_status sample_live = ACT_ACTIVE" by (simp add: sample_live_def)
  show "owned_binding sample_tick sample_claim (begin_session sample_blocked) = Some ?b"
    by (simp add: owned_binding_def sample_tick_def rest owns_lease_def sample_claim_def sample_binding_def)
  show "next_pending_comparison sample_mon_env ?b sample_blocked = Some sample_run"
    by (simp add: next_pending_comparison_def base rest sample_run_def sample_binding_def)
  show "1 \<le> en_page sample_mon_env" by (simp add: sample_mon_env_def)
  have fs: "run_findings (rn_id sample_run) (mo_base sample_blocked) = sample_rows"
    by (simp add: run_findings_def base sample_rows_def sample_run_def)
  show "distinct (map (finding_position sample_mon_env) (run_findings (rn_id sample_run) (mo_base sample_blocked)))"
    unfolding fs by (simp add: sample_mon_env_def sample_rows_def finding_position_def)
  show "distinct (map ic_id (mo_incidents sample_blocked))" by (simp add: rest)
  show "incident_dedup_key ?b (sample_rows ! 0) STRATEGY_BEHAVIOR \<notin> ic_key ` set (mo_incidents sample_blocked)" by (simp add: rest)
  show "2 \<le> length (filter (opens sample_mon_env ?b (incident_dedup_key ?b (sample_rows ! 0) STRATEGY_BEHAVIOR) sample_blocked)
      (run_findings (rn_id sample_run) (mo_base sample_blocked)))"
    unfolding fs by (simp add: sample_rows_def opens_def rest sample_finding_def incident_dedup_key_def Let_def)
qed

end
