(* ===== verification/Spec2Isabelle.thy ===== *)
theory Spec2Isabelle
  imports Historical_Merge Export_Jobs Shard_Runtime Monitoring_Samples
begin

text \<open>
  QUANTIVE 2.0 is a market-data platform for Binance spot candles: it streams and fetches
  one-minute candles, repairs and aggregates them, answers queries and exports, and runs
  strategies on them.  The code is \<open>src/backend/app\<close>; paths below are relative to it.  This
  library models its core as HOL functions on explicit states and proves what makes it correct.

  \<^bold>\<open>How the program fits together.\<close>  WebSocket shards (\<open>services/ws_sharding\<close>) each stream a part of
  the symbols: an assignment every process computes alone, a Redis lease with a generation counter
  per shard, a PostgreSQL fence row that rejects writes of older generations, and a pipeline that
  queues, deduplicates and commits closed candles.  \<open>services/ingestion.py\<close> owns the canonical table,
  its revision ledger and the \<open>sync_ranges\<close> that register proved coverage.  What is not covered is
  found by \<open>detect_missing_ranges\<close> and fetched by gap-repair jobs; candles older than seven days are
  staged and merged by day (historical-merge jobs); every completed repair or merge schedules a job
  that refreshes the continuous aggregates.  \<open>services/query.py\<close> reads the tables, export jobs stream
  them into an object store.  Strategies are stored as immutable, content-addressed versions; a live
  activation of a version polls committed candles and keeps an observation of each.  Backtest results
  are stored under content-derived ids; the comparison service sets live evidence against such a
  result and stores what differs as findings; monitoring turns findings into incidents and a health
  row per activation.

  \<^bold>\<open>Theories and what they show.\<close>
  \<^item> \<open>Prelude\<close>, \<open>Intervals\<close>, \<open>Py_Float\<close>: strings, datetimes, SQL comparisons and tables as lists;
    half-open windows and the subtraction loop of two schedulers; IEEE doubles with rounding.
  \<^item> \<open>Job_Lease\<close> (locale \<open>fenced_jobs\<close>): claim, token, heartbeat and expiry of the four job tables,
    with the laws the services interpret for their own tables.
  \<^item> \<open>Ingestion\<close> (\<open>services/ingestion.py\<close>, candle models): validation, upserts with source
    precedence, the revision ledger, coverage.  Registered ranges never claim a minute that is not
    stored; gap detection overlooks nothing; a raw commit stores exactly its batch.
  \<^item> \<open>Cagg_Refresh\<close>, \<open>Gap_Repair\<close>, \<open>Historical_Merge\<close>, \<open>Export_Jobs\<close> (\<open>services/cagg_refresh.py\<close>,
    \<open>gap_repair.py\<close>, \<open>historical_merge.py\<close>, \<open>export_jobs.py\<close> and their workers): what a job's final
    state guarantees, that a worker whose claim was taken over can change nothing, that a merge
    loses no candle, that a published export is complete and no upload stays without its row.
  \<^item> \<open>Candle_Query\<close> (\<open>services/query.py\<close>, \<open>repositories\<close>): the paged reader that exports use.
  \<^item> \<open>Sha256\<close>, \<open>Json\<close>: the digest on 32-bit words; canonicalisation, \<open>json.dumps\<close> and \<open>json.loads\<close>
    with the shortest text of a double, and that canonical text reads back.
  \<^item> \<open>Shard_Assignment\<close>, \<open>Shard_Lease\<close>, \<open>Ws_Registry\<close>, \<open>Ws_Pipeline\<close>, \<open>Shard_Runtime\<close>
    (\<open>services/ws_sharding\<close>, \<open>connectors/models.py\<close>): shards agree on a disjoint assignment; generations
    fence each other, and the workers refine a single writer per shard; the pipeline stays bounded and
    accounts for every candle; a started runtime owns its shard, a fenced one never writes again.
  \<^item> \<open>Strategy_Contracts\<close>, \<open>Strategy_Catalog\<close> (\<open>strategies/contracts.py\<close>,
    \<open>services/strategy_catalog.py\<close>): the canonical form determines the definition; versions are numbered,
    distinct and immutable; loading returns the authored definition or refuses.
  \<^item> \<open>Live_Contracts\<close>, \<open>Live_Strategy\<close>, \<open>Live_Cycles\<close> (\<open>live_strategies/contracts.py\<close>,
    \<open>services/live_strategy.py\<close>): the evaluation of a candle, activations and polling cycles.  The
    tables stay consistent in every history, no bucket is skipped, a checked definition never raises.
  \<^item> \<open>Py_Decimal\<close>, \<open>Forensic_Text\<close>, \<open>Divergence\<close>, \<open>Divergence_Results\<close> (\<open>divergence/contracts.py\<close>):
    28-digit decimals, the canonical text of evidence, the comparison of two sides of evidence; what
    a healthy result means, that pairing partitions both sides, where a lost candle misleads it.
  \<^item> \<open>Backtest\<close>, \<open>Backtest_Results\<close> (\<open>backtests/contracts.py\<close>, \<open>services/backtest_results.py\<close>):
    validated results, their ids and hashes; stored runs never change.
  \<^item> \<open>Strategy_Comparison\<close>, \<open>Comparison_Results\<close> (\<open>services/strategy_comparison.py\<close>): loading evidence
    and persisting a comparison; runs are immutable, never healthy, and comparing again is idempotent.
  \<^item> \<open>Monitoring_Policy\<close>, \<open>Monitoring\<close>, \<open>Monitoring_Service\<close>, \<open>Monitoring_Cycles\<close>
    (\<open>monitoring/contracts.py\<close>, \<open>models/strategy_monitoring.py\<close>, \<open>services/strategy_monitoring.py\<close>): policies,
    tables, every transaction of the monitor, the producer and the operator, and whole cycles.
    \<open>Monitoring_Paging\<close>: paged reading equals one pass.  \<open>Monitoring_Ledger\<close>, \<open>Monitoring_Effects\<close>,
    \<open>Monitoring_Tables\<close>, \<open>Monitoring_History\<close>: an abstract ledger of incidents and evidence, the proof that
    every transaction refines it, and the invariant it keeps over any history.  \<open>Monitoring_Results\<close>:
    consistency, failing closed, exclusive leases, comparison windows, and where monitoring fails;
    \<open>Monitoring_Samples\<close> applies these theorems to concrete tables.

  \<^bold>\<open>Histories.\<close>  The services meet in the database.  Relations say what a component's
  transactions can make of its tables; \<open>comparison_later\<close> is built over the live tables and stored
  backtests, \<open>mon_later\<close> over \<open>comparison_later\<close>, so a theorem about monitoring holds while every service
  below it runs.

  \<^bold>\<open>Conventions.\<close>  An ORM row is a record, a table the list of its rows; a transaction is a function
  that returns its result and the new tables, and an exception returns the old ones.  A coroutine
  that awaits is a function that takes, per suspension point, what the surroundings did: the clock,
  the steps of other processes, the answers and failures of Redis, the database or the exchange.
  Exceptions are the left values of a sum.  Times are microseconds since the epoch.  Python's ints
  are \<^typ>\<open>int\<close>; the words of SHA-256 are 32-bit.  Services of others (the object store, Timescale's
  procedures, the REST client, \<open>pyarrow\<close>, pydantic's reading of stored JSON) are parameters.

  \<^bold>\<open>Bounds.\<close>  Worker loops recurse on a number of rounds that the code bounds itself
  (\<open>max_jobs\<close>, page and candle limits of the settings) or on the events they consume, so no result
  depends on invented fuel; the two loops the code leaves open (\<open>drain_and_flush\<close> and the asset scan)
  have theorems that they end.

  \<^bold>\<open>Not modelled.\<close>  HTTP routes, authentication and metrics pages (serialisation over the services
  above), settings, engine and broker set-up, Alembic migrations (DDL; the constraints and triggers
  the models rely on are part of the tables' definitions), the Redis dispatch leases of the three
  strategy actors, the maintenance timer that only sends messages.  Sessions of the workers do not
  flush before a query (\<open>autoflush=False\<close>), which the models of live cycles and monitoring keep.  Log lines, Prometheus gauges and measured latencies are left out of the states.
  \<open>PROJECT.json\<close> lists every part with its status.
\<close>

end
